(* ===== verification/Prelude.thy ===== *)
theory Prelude
  imports Main "HOL-Library.Word"
begin

text \<open>
  Shared vocabulary of the development: the machine types of the crate, its error type, the
  outcome type of an operation that may fail or panic, byte-buffer reads and writes, and the
  generic lemmas the component theories use.

  An operation of the code that returns \<^verbatim>\<open>Result<T>\<close> is a function into \<open>'a res\<close>,
  the sum \<open>fault + 'a\<close>: \<open>Inr\<close> a value, \<open>Inl (Err e)\<close> the error value
  \<open>e\<close>, and \<open>Inl Panic\<close> where the code panics (a slice index out of range, a failed
  \<^verbatim>\<open>unwrap\<close>, an arithmetic overflow with overflow checks on).
\<close>

unbundle bit_operations_syntax

section \<open>Machine types\<close>

type_synonym u8 = "8 word"
type_synonym u16 = "16 word"
type_synonym u32 = "32 word"
type_synonym u64 = "64 word"
type_synonym bytes = "8 word list"

section \<open>Errors and outcomes\<close>

datatype io_error = UnexpectedEof | NotFound | OtherIo string

datatype error =
    Io io_error
  | Corrupt string string
  | Unsupported string
  | Invalid string

datatype fault = Err error | Panic

type_synonym 'a res = "fault + 'a"

definition corrupt :: "string \<Rightarrow> string \<Rightarrow> error" where
  "corrupt what why = Corrupt what why"

text \<open>The \<^verbatim>\<open>?\<close> operator: stop at the first fault.\<close>

definition bindE :: "'e + 'a \<Rightarrow> ('a \<Rightarrow> 'e + 'b) \<Rightarrow> 'e + 'b" where
  "bindE m f = (case m of Inl e \<Rightarrow> Inl e | Inr x \<Rightarrow> f x)"

text \<open>An assertion or a guard: the given fault unless the condition holds.\<close>

definition guardE :: "bool \<Rightarrow> 'e \<Rightarrow> 'e + unit" where
  "guardE c e = (if c then Inr () else Inl e)"

named_theorems res_simps \<open>unfolding the outcome monad\<close>

lemma bindE_Inl [simp]: "bindE (Inl e) f = Inl e"
  by (simp add: bindE_def)

lemma bindE_Inr [simp]: "bindE (Inr x) f = f x"
  by (simp add: bindE_def)

lemma bindE_eq_Inr [res_simps]: "bindE m f = Inr y \<longleftrightarrow> (\<exists>x. m = Inr x \<and> f x = Inr y)"
  by (cases m) auto

lemma bindE_eq_Inl [res_simps]:
  "bindE m f = Inl e \<longleftrightarrow> m = Inl e \<or> (\<exists>x. m = Inr x \<and> f x = Inl e)"
  by (cases m) auto

lemma bindE_assoc: "bindE (bindE m f) g = bindE m (\<lambda>x. bindE (f x) g)"
  by (cases m) auto

lemma bindE_Inr_right [simp]: "bindE m Inr = m"
  by (cases m) auto

lemma guardE_True [simp]: "guardE True e = Inr ()"
  by (simp add: guardE_def)

lemma guardE_False [simp]: "guardE False e = Inl e"
  by (simp add: guardE_def)

lemma guardE_eq_Inr [res_simps]: "guardE c e = Inr u \<longleftrightarrow> c"
  by (simp add: guardE_def)

lemma guardE_eq_Inl [res_simps]: "guardE c e = Inl f \<longleftrightarrow> \<not> c \<and> f = e"
  by (auto simp: guardE_def)

lemma bindE_cong [fundef_cong]:
  "m = m' \<Longrightarrow> (\<And>x. m' = Inr x \<Longrightarrow> f x = g x) \<Longrightarrow> bindE m f = bindE m' g"
  by (cases m') auto

text \<open>Apply a fallible step to each element in turn, stopping at the first fault.\<close>

fun mapE :: "('a \<Rightarrow> 'e + 'b) \<Rightarrow> 'a list \<Rightarrow> 'e + 'b list" where
  "mapE f [] = Inr []"
| "mapE f (x # xs) = bindE (f x) (\<lambda>y. bindE (mapE f xs) (\<lambda>ys. Inr (y # ys)))"

text \<open>Thread a state through a list of fallible steps.\<close>

fun foldE :: "('a \<Rightarrow> 's \<Rightarrow> 'e + 's) \<Rightarrow> 'a list \<Rightarrow> 's \<Rightarrow> 'e + 's" where
  "foldE f [] s = Inr s"
| "foldE f (x # xs) s = bindE (f x s) (foldE f xs)"

lemma foldE_append: "foldE f (xs @ ys) s = bindE (foldE f xs s) (foldE f ys)"
proof (induction xs arbitrary: s)
  case Nil
  then show ?case by simp
next
  case (Cons x xs)
  then show ?case by (cases "f x s") auto
qed

lemma mapE_Inr: "(\<And>x. x \<in> set xs \<Longrightarrow> f x = Inr (g x)) \<Longrightarrow> mapE f xs = Inr (map g xs)"
  by (induction xs) auto

lemma mapE_length: "mapE f xs = Inr ys \<Longrightarrow> length ys = length xs"
  by (induction xs arbitrary: ys) (auto simp: res_simps)

lemma mapE_list_all2:
  "(\<And>x. x \<in> set xs \<Longrightarrow> \<exists>y. f x = Inr y \<and> P y x) \<Longrightarrow> \<exists>ys. mapE f xs = Inr ys \<and> list_all2 P ys xs"
proof (induction xs)
  case (Cons x xs)
  then obtain y ys where "f x = Inr y" "P y x" "mapE f xs = Inr ys" "list_all2 P ys xs"
    by (metis list.set_intros)
  then show ?case by (intro exI [of _ "y # ys"]) simp
qed simp

lemma mapE_map: "mapE f (map g xs) = mapE (\<lambda>x. f (g x)) xs"
  by (induction xs) auto

lemma mapE_Inr_mem: "mapE f xs = Inr ys \<Longrightarrow> y \<in> set ys \<Longrightarrow> \<exists>x\<in>set xs. f x = Inr y"
  by (induction xs arbitrary: ys) (auto simp: res_simps)

lemma mapE_Inr_ex: "mapE f xs = Inr ys \<Longrightarrow> x \<in> set xs \<Longrightarrow> \<exists>y\<in>set ys. f x = Inr y"
  by (induction xs arbitrary: ys) (auto simp: res_simps)

lemma mapE_cong [fundef_cong]:
  "xs = ys \<Longrightarrow> (\<And>x. x \<in> set ys \<Longrightarrow> f x = g x) \<Longrightarrow> mapE f xs = mapE g ys"
  by (induction xs arbitrary: ys) (auto intro!: bindE_cong)

lemma mapE_append:
  "mapE f (xs @ ys) = bindE (mapE f xs) (\<lambda>a. bindE (mapE f ys) (\<lambda>b. Inr (a @ b)))"
  by (induction xs) (auto simp: bindE_def split: sum.splits)

section \<open>Byte buffers\<close>

text \<open>\<open>peek b off n\<close> is the slice \<^verbatim>\<open>&b[off..off + n]\<close> for a range inside the buffer.\<close>

definition peek :: "bytes \<Rightarrow> nat \<Rightarrow> nat \<Rightarrow> bytes" where
  "peek b off n = take n (drop off b)"

text \<open>
  \<open>poke b off v\<close> is the buffer after \<^verbatim>\<open>b[off..off + v.len()].copy_from_slice(v)\<close>,
  for a range inside the buffer. It never changes the length.
\<close>

definition poke :: "bytes \<Rightarrow> nat \<Rightarrow> bytes \<Rightarrow> bytes" where
  "poke b off v = take off b @ take (length b - off) v @ drop (off + length v) b"

definition zeros_buf :: "nat \<Rightarrow> bytes" where
  "zeros_buf n = replicate n 0"

named_theorems buf_simps \<open>reads over writes in a byte buffer\<close>

lemma length_peek [simp]: "length (peek b off n) = min n (length b - off)"
  by (simp add: peek_def)

lemma length_poke [simp]: "length (poke b off v) = length b"
  by (auto simp: poke_def)

lemma length_zeros_buf [simp]: "length (zeros_buf n) = n"
  by (simp add: zeros_buf_def)

lemma nth_peek: "i < n \<Longrightarrow> off + i < length b \<Longrightarrow> peek b off n ! i = b ! (off + i)"
  by (simp add: peek_def)

lemma nth_poke:
  "i < length b \<Longrightarrow>
   poke b off v ! i = (if off \<le> i \<and> i < off + length v then v ! (i - off) else b ! i)"
  by (auto simp: poke_def nth_append min_def)

lemma nth_zeros_buf [simp]: "i < n \<Longrightarrow> zeros_buf n ! i = 0"
  by (simp add: zeros_buf_def)

lemma peek_poke_disj [buf_simps]:
  "off + length v \<le> off' \<or> off' + n \<le> off \<Longrightarrow> peek (poke b off v) off' n = peek b off' n"
  by (rule nth_equalityI) (auto simp: nth_peek nth_poke)

lemma peek_poke_same [buf_simps]:
  "length v = n \<Longrightarrow> off + n \<le> length b \<Longrightarrow> peek (poke b off v) off n = v"
  by (rule nth_equalityI) (auto simp: nth_peek nth_poke)

lemma peek_poke_inside:
  "off \<le> off' \<Longrightarrow> off' + n \<le> off + length v \<Longrightarrow> off + length v \<le> length b \<Longrightarrow>
   peek (poke b off v) off' n = peek v (off' - off) n"
  by (rule nth_equalityI) (auto simp: nth_peek nth_poke)

lemma nth_poke_disj [buf_simps]:
  "i < off \<or> off + length v \<le> i \<Longrightarrow> i < length b \<Longrightarrow> poke b off v ! i = b ! i"
  by (auto simp: nth_poke)

text \<open>A store outside a prefix or a suffix, or entirely inside it.\<close>

lemma take_poke_above [buf_simps]: "n \<le> off \<Longrightarrow> take n (poke b off v) = take n b"
  by (rule nth_equalityI) (auto simp: nth_poke)

lemma take_poke_below [buf_simps]:
  "off + length v \<le> n \<Longrightarrow> take n (poke b off v) = poke (take n b) off v"
  by (rule nth_equalityI) (auto simp: nth_poke)

lemma drop_poke_below [buf_simps]: "off + length v \<le> n \<Longrightarrow> drop n (poke b off v) = drop n b"
  by (rule nth_equalityI) (auto simp: nth_poke)

lemma drop_poke_above [buf_simps]:
  "n \<le> off \<Longrightarrow> drop n (poke b off v) = poke (drop n b) (off - n) v"
  by (rule nth_equalityI) (auto simp: nth_poke add.commute)

lemma poke_zero_all [buf_simps]: "length v = length b \<Longrightarrow> poke b 0 v = v"
  by (simp add: poke_def)

lemma peek_zeros [buf_simps]: "off + n \<le> m \<Longrightarrow> peek (zeros_buf m) off n = zeros_buf n"
  by (simp add: peek_def zeros_buf_def)

lemma peek_append_left: "off + n \<le> length a \<Longrightarrow> peek (a @ b) off n = peek a off n"
  by (simp add: peek_def)

lemma peek_append_right: "length a \<le> off \<Longrightarrow> peek (a @ b) off n = peek b (off - length a) n"
  by (simp add: peek_def)

lemma peek_all [simp]: "length b \<le> n \<Longrightarrow> peek b 0 n = b"
  by (simp add: peek_def)

lemma peek_peek: "i + n \<le> m \<Longrightarrow> peek (peek b off m) i n = peek b (off + i) n"
  by (simp add: peek_def take_drop min_def add.commute)

lemma poke_poke_same: "length v = length w \<Longrightarrow> poke (poke b off v) off w = poke b off w"
  by (rule nth_equalityI) (auto simp: nth_poke)

lemma poke_swap:
  "off + length v \<le> off' \<or> off' + length w \<le> off \<Longrightarrow>
   poke (poke b off v) off' w = poke (poke b off' w) off v"
  by (rule nth_equalityI) (auto simp: nth_poke)

lemma buf_split: "off + n \<le> length b \<Longrightarrow> b = take off b @ peek b off n @ drop (off + n) b"
  by (metis add.commute append_take_drop_id drop_drop peek_def)

section \<open>Little- and big-endian integers\<close>

text \<open>The value of a little-endian byte string, and its inverse at a fixed width.\<close>

fun le_nat :: "bytes \<Rightarrow> nat" where
  "le_nat [] = 0"
| "le_nat (x # xs) = unat x + 256 * le_nat xs"

fun le_bytes :: "nat \<Rightarrow> nat \<Rightarrow> bytes" where
  "le_bytes 0 v = []"
| "le_bytes (Suc n) v = of_nat v # le_bytes n (v div 256)"

lemma length_le_bytes [simp]: "length (le_bytes n v) = n"
  by (induction n arbitrary: v) auto

lemma unat_u8_less [simp]: "unat (x :: u8) < 256"
proof -
  have "unat x < 2 ^ LENGTH(8)" by (rule unsigned_less)
  then show ?thesis by simp
qed

lemma unat_of_nat_u8: "unat (of_nat v :: u8) = v mod 256"
  by (simp add: unat_of_nat)

lemma le_nat_le_bytes: "le_nat (le_bytes n v) = v mod 256 ^ n"
proof (induction n arbitrary: v)
  case 0
  then show ?case by simp
next
  case (Suc n)
  have "v mod 256 + 256 * (v div 256 mod 256 ^ n) = v mod (256 * 256 ^ n)"
    by (simp add: mod_mult2_eq)
  then show ?case by (simp add: Suc unat_of_nat_u8)
qed

lemma le_nat_bound: "le_nat bs < 256 ^ length bs"
proof (induction bs)
  case Nil
  then show ?case by simp
next
  case (Cons x xs)
  have "unat x < 256" by (rule unat_u8_less)
  moreover have "le_nat xs + 1 \<le> 256 ^ length xs" using Cons by simp
  then have "256 * le_nat xs + 256 \<le> 256 * 256 ^ length xs" by linarith
  ultimately have "unat x + 256 * le_nat xs < 256 * 256 ^ length xs" by linarith
  then show ?case by simp
qed

lemma le_bytes_le_nat: "le_bytes (length bs) (le_nat bs) = bs"
proof (induction bs)
  case Nil
  then show ?case by simp
next
  case (Cons x xs)
  have x: "unat x < 256" by (rule unat_u8_less)
  have z: "(256 :: u8) = 0" by simp
  have "of_nat (unat x + 256 * le_nat xs) = x + 256 * of_nat (le_nat xs)" by simp
  then have "of_nat (unat x + 256 * le_nat xs) = x" by (simp only: z mult_zero_left add_0_right)
  moreover have "(unat x + 256 * le_nat xs) div 256 = le_nat xs" using x by simp
  ultimately show ?case using Cons by simp
qed

lemma le_nat_zeros [simp]: "le_nat (zeros_buf n) = 0"
  by (induction n) (auto simp: zeros_buf_def)

lemma le_bytes_zero [simp]: "le_bytes n 0 = zeros_buf n"
  by (induction n) (auto simp: zeros_buf_def)

end
