(* ===== verification/Le.thy ===== *)
theory Le
  imports Prelude
begin

text \<open>
  Little- and big-endian field access (src/src/le.rs). \<open>le16\<close>, \<open>le32\<close>, \<open>le64\<close>,
  \<open>be32\<close> read the value of a field that lies inside the buffer and \<open>put_u16\<close>,
  \<open>put_u32\<close>, \<open>put_u64\<close>, \<open>be_put_u32\<close> overwrite one; \<open>u16_at\<close>, \<open>u32_at\<close>,
  \<open>u64_at\<close>, \<open>store_u16\<close>, \<open>store_u32\<close>, \<open>store_u64\<close>, \<open>be_u32_at\<close>,
  \<open>be_store_u32\<close> are the functions of the module with their panic on a range that leaves
  the buffer. Decoders that have checked the buffer's length use the former.
\<close>

definition le16 :: "bytes \<Rightarrow> nat \<Rightarrow> u16" where
  "le16 b off = of_nat (le_nat (peek b off 2))"

definition le32 :: "bytes \<Rightarrow> nat \<Rightarrow> u32" where
  "le32 b off = of_nat (le_nat (peek b off 4))"

definition le64 :: "bytes \<Rightarrow> nat \<Rightarrow> u64" where
  "le64 b off = of_nat (le_nat (peek b off 8))"

definition be32 :: "bytes \<Rightarrow> nat \<Rightarrow> u32" where
  "be32 b off = of_nat (le_nat (rev (peek b off 4)))"

text \<open>\<^verbatim>\<open>to_le_bytes\<close> and \<^verbatim>\<open>to_be_bytes\<close>.\<close>

definition to_le16 :: "u16 \<Rightarrow> bytes" where
  "to_le16 v = le_bytes 2 (unat v)"

definition to_le32 :: "u32 \<Rightarrow> bytes" where
  "to_le32 v = le_bytes 4 (unat v)"

definition to_le64 :: "u64 \<Rightarrow> bytes" where
  "to_le64 v = le_bytes 8 (unat v)"

definition to_be32 :: "u32 \<Rightarrow> bytes" where
  "to_be32 v = rev (le_bytes 4 (unat v))"

definition put_u16 :: "bytes \<Rightarrow> nat \<Rightarrow> u16 \<Rightarrow> bytes" where
  "put_u16 b off v = poke b off (to_le16 v)"

definition put_u32 :: "bytes \<Rightarrow> nat \<Rightarrow> u32 \<Rightarrow> bytes" where
  "put_u32 b off v = poke b off (to_le32 v)"

definition put_u64 :: "bytes \<Rightarrow> nat \<Rightarrow> u64 \<Rightarrow> bytes" where
  "put_u64 b off v = poke b off (to_le64 v)"

definition be_put_u32 :: "bytes \<Rightarrow> nat \<Rightarrow> u32 \<Rightarrow> bytes" where
  "be_put_u32 b off v = poke b off (to_be32 v)"

definition put_u8 :: "bytes \<Rightarrow> nat \<Rightarrow> u8 \<Rightarrow> bytes" where
  "put_u8 b off v = poke b off [v]"

section \<open>The panicking accessors\<close>

definition u16_at :: "bytes \<Rightarrow> nat \<Rightarrow> u16 res" where
  "u16_at b off = (if off + 2 \<le> length b then Inr (le16 b off) else Inl Panic)"

definition u32_at :: "bytes \<Rightarrow> nat \<Rightarrow> u32 res" where
  "u32_at b off = (if off + 4 \<le> length b then Inr (le32 b off) else Inl Panic)"

definition u64_at :: "bytes \<Rightarrow> nat \<Rightarrow> u64 res" where
  "u64_at b off = (if off + 8 \<le> length b then Inr (le64 b off) else Inl Panic)"

definition store_u16 :: "bytes \<Rightarrow> nat \<Rightarrow> u16 \<Rightarrow> bytes res" where
  "store_u16 b off v = (if off + 2 \<le> length b then Inr (put_u16 b off v) else Inl Panic)"

definition store_u32 :: "bytes \<Rightarrow> nat \<Rightarrow> u32 \<Rightarrow> bytes res" where
  "store_u32 b off v = (if off + 4 \<le> length b then Inr (put_u32 b off v) else Inl Panic)"

definition store_u64 :: "bytes \<Rightarrow> nat \<Rightarrow> u64 \<Rightarrow> bytes res" where
  "store_u64 b off v = (if off + 8 \<le> length b then Inr (put_u64 b off v) else Inl Panic)"

definition be_u32_at :: "bytes \<Rightarrow> nat \<Rightarrow> u32 res" where
  "be_u32_at b off = (if off + 4 \<le> length b then Inr (be32 b off) else Inl Panic)"

definition be_store_u32 :: "bytes \<Rightarrow> nat \<Rightarrow> u32 \<Rightarrow> bytes res" where
  "be_store_u32 b off v = (if off + 4 \<le> length b then Inr (be_put_u32 b off v) else Inl Panic)"

section \<open>Integers and their bytes\<close>

lemma length_to_le [simp]:
  "length (to_le16 v) = 2" "length (to_le32 w) = 4" "length (to_le64 x) = 8" "length (to_be32 w) = 4"
  by (simp_all add: to_le16_def to_le32_def to_le64_def to_be32_def)

lemma length_put [simp]:
  "length (put_u16 b off v) = length b" "length (put_u32 b off w) = length b"
  "length (put_u64 b off x) = length b" "length (be_put_u32 b off w) = length b"
  "length (put_u8 b off y) = length b"
  by (simp_all add: put_u16_def put_u32_def put_u64_def be_put_u32_def put_u8_def)

lemma unat_bounds:
  "unat (v :: u16) < 65536" "unat (w :: u32) < 4294967296" "unat (x :: u64) < 18446744073709551616"
proof -
  have "unat v < 2 ^ LENGTH(16)" "unat w < 2 ^ LENGTH(32)" "unat x < 2 ^ LENGTH(64)"
    by (rule unsigned_less)+
  then show "unat v < 65536" "unat w < 4294967296" "unat x < 18446744073709551616" by simp_all
qed

lemma from_le_to_le [simp]:
  "of_nat (le_nat (to_le16 v)) = v" "of_nat (le_nat (to_le32 w)) = w"
  "of_nat (le_nat (to_le64 x)) = x" "of_nat (le_nat (rev (to_be32 w))) = w"
  using unat_bounds(1) [of v] unat_bounds(2) [of w] unat_bounds(3) [of x]
  by (simp_all add: to_le16_def to_le32_def to_le64_def to_be32_def le_nat_le_bytes)

lemma to_le_from_le:
  "length bs = 2 \<Longrightarrow> to_le16 (of_nat (le_nat bs)) = bs"
  "length cs = 4 \<Longrightarrow> to_le32 (of_nat (le_nat cs)) = cs"
  "length ds = 8 \<Longrightarrow> to_le64 (of_nat (le_nat ds)) = ds"
  "length cs = 4 \<Longrightarrow> to_be32 (of_nat (le_nat (rev cs))) = cs"
  using le_nat_bound [of bs] le_nat_bound [of cs] le_nat_bound [of ds] le_nat_bound [of "rev cs"]
    le_bytes_le_nat [of bs] le_bytes_le_nat [of cs] le_bytes_le_nat [of ds] le_bytes_le_nat [of "rev cs"]
  by (simp_all add: to_le16_def to_le32_def to_le64_def to_be32_def unat_of_nat)

section \<open>Reads over writes\<close>

lemmas put_unfold [buf_simps] = put_u8_def put_u16_def put_u32_def put_u64_def be_put_u32_def

lemma le_poke_disj [buf_simps]:
  "off + length v \<le> o' \<or> o' + 2 \<le> off \<Longrightarrow> le16 (poke b off v) o' = le16 b o'"
  "off + length v \<le> o' \<or> o' + 4 \<le> off \<Longrightarrow> le32 (poke b off v) o' = le32 b o'"
  "off + length v \<le> o' \<or> o' + 8 \<le> off \<Longrightarrow> le64 (poke b off v) o' = le64 b o'"
  "off + length v \<le> o' \<or> o' + 4 \<le> off \<Longrightarrow> be32 (poke b off v) o' = be32 b o'"
  by (simp_all add: le16_def le32_def le64_def be32_def peek_poke_disj)

lemma le_poke_same [buf_simps]:
  "off + 2 \<le> length b \<Longrightarrow> le16 (poke b off (to_le16 v)) off = v"
  "off + 4 \<le> length b \<Longrightarrow> le32 (poke b off (to_le32 w)) off = w"
  "off + 8 \<le> length b \<Longrightarrow> le64 (poke b off (to_le64 x)) off = x"
  "off + 4 \<le> length b \<Longrightarrow> be32 (poke b off (to_be32 w)) off = w"
  by (simp_all add: le16_def le32_def le64_def be32_def peek_poke_same)

lemma nth_poke_same [buf_simps]: "off < length b \<Longrightarrow> poke b off [y] ! off = y"
  by (simp add: nth_poke)

lemma le_append_left [buf_simps]:
  "off + 2 \<le> length a \<Longrightarrow> le16 (a @ c) off = le16 a off"
  "off + 4 \<le> length a \<Longrightarrow> le32 (a @ c) off = le32 a off"
  "off + 8 \<le> length a \<Longrightarrow> le64 (a @ c) off = le64 a off"
  "off + 4 \<le> length a \<Longrightarrow> be32 (a @ c) off = be32 a off"
  by (simp_all add: le16_def le32_def le64_def be32_def peek_append_left)

lemma le_append_right [buf_simps]:
  "length a \<le> off \<Longrightarrow> le16 (a @ c) off = le16 c (off - length a)"
  "length a \<le> off \<Longrightarrow> le32 (a @ c) off = le32 c (off - length a)"
  "length a \<le> off \<Longrightarrow> le64 (a @ c) off = le64 c (off - length a)"
  "length a \<le> off \<Longrightarrow> be32 (a @ c) off = be32 c (off - length a)"
  by (simp_all add: le16_def le32_def le64_def be32_def peek_append_right)

lemma le_to_le [buf_simps]:
  "le16 (to_le16 v) 0 = v" "le32 (to_le32 w) 0 = w" "le64 (to_le64 x) 0 = x" "be32 (to_be32 w) 0 = w"
  by (simp_all add: le16_def le32_def le64_def be32_def)

lemma le_peek [buf_simps]:
  "i + 2 \<le> n \<Longrightarrow> le16 (peek b off n) i = le16 b (off + i)"
  "i + 4 \<le> n \<Longrightarrow> le32 (peek b off n) i = le32 b (off + i)"
  "i + 8 \<le> n \<Longrightarrow> le64 (peek b off n) i = le64 b (off + i)"
  by (simp_all add: le16_def le32_def le64_def peek_peek)

lemma drop_poke_same [buf_simps]:
  "off + length v = length b \<Longrightarrow> drop off (poke b off v) = v"
  by (simp add: drop_poke_above poke_zero_all)

lemma drop_zeros_buf [buf_simps]: "drop n (zeros_buf m) = zeros_buf (m - n)"
  by (simp add: zeros_buf_def)

lemma le_zeros [buf_simps]:
  "off + 2 \<le> n \<Longrightarrow> le16 (zeros_buf n) off = 0"
  "off + 4 \<le> n \<Longrightarrow> le32 (zeros_buf n) off = 0"
  "off + 8 \<le> n \<Longrightarrow> le64 (zeros_buf n) off = 0"
  by (simp_all add: le16_def le32_def le64_def peek_zeros)

section \<open>Arrays of 32-bit words\<close>

text \<open>The loops that read and write a \<^verbatim>\<open>[u32; N]\<close> field word by word.\<close>

definition le32s :: "bytes \<Rightarrow> nat \<Rightarrow> nat \<Rightarrow> u32 list" where
  "le32s b off n = map (\<lambda>i. le32 b (off + 4 * i)) [0..<n]"

fun put_u32s :: "bytes \<Rightarrow> nat \<Rightarrow> u32 list \<Rightarrow> bytes" where
  "put_u32s b off [] = b"
| "put_u32s b off (w # ws) = put_u32s (put_u32 b off w) (off + 4) ws"

lemma length_le32s [simp]: "length (le32s b off n) = n"
  by (simp add: le32s_def)

lemma length_put_u32s [simp]: "length (put_u32s b off ws) = length b"
  by (induction b off ws rule: put_u32s.induct) auto

lemma poke_append: "poke (poke b off v) (off + length v) w = poke b off (v @ w)"
  by (rule nth_equalityI) (auto simp: nth_poke nth_append)

lemma poke_nil [simp]: "poke b off [] = b"
  by (simp add: poke_def)

lemma put_u32s_poke: "put_u32s b off ws = poke b off (concat (map to_le32 ws))"
proof (induction b off ws rule: put_u32s.induct)
  case (1 b off)
  then show ?case by simp
next
  case (2 b off w ws)
  show ?case
    using poke_append [of b off "to_le32 w" "concat (map to_le32 ws)"] 2 by (simp add: put_u32_def)
qed

lemma length_concat_le32 [simp]: "length (concat (map to_le32 ws)) = 4 * length ws"
  by (induction ws) auto

lemma peek_concat_le32:
  "i < length ws \<Longrightarrow> peek (concat (map to_le32 ws)) (4 * i) 4 = to_le32 (ws ! i)"
proof (induction ws arbitrary: i)
  case Nil
  then show ?case by simp
next
  case (Cons w ws)
  then show ?case
  proof (cases i)
    case 0
    then show ?thesis using peek_append_left [of 0 4 "to_le32 w"] by simp
  next
    case (Suc j)
    then show ?thesis using Cons
      using peek_append_right [of "to_le32 w" "4 + 4 * j"] by simp
  qed
qed

lemma le32s_poke_same [buf_simps]:
  assumes "off + 4 * n \<le> length b" and "length ws = n"
  shows "le32s (poke b off (concat (map to_le32 ws))) off n = ws"
proof (rule nth_equalityI)
  fix i assume i: "i < length (le32s (poke b off (concat (map to_le32 ws))) off n)"
  then have "peek (poke b off (concat (map to_le32 ws))) (off + 4 * i) 4 =
    peek (concat (map to_le32 ws)) (4 * i) 4"
    using assms by (subst peek_poke_inside) auto
  with i assms show "le32s (poke b off (concat (map to_le32 ws))) off n ! i = ws ! i"
    by (simp add: le32s_def le32_def peek_concat_le32)
qed (use assms in simp)

lemma le32s_poke_disj [buf_simps]:
  "off + length v \<le> o' \<or> o' + 4 * n \<le> off \<Longrightarrow> le32s (poke b off v) o' n = le32s b o' n"
  by (auto simp: le32s_def intro!: le_poke_disj)

lemma le32s_append_left [buf_simps]:
  "off + 4 * n \<le> length a \<Longrightarrow> le32s (a @ c) off n = le32s a off n"
  by (auto simp: le32s_def intro!: le_append_left)

lemma le32_nth_le32s: "i < n \<Longrightarrow> le32s b off n ! i = le32 b (off + 4 * i)"
  by (simp add: le32s_def)

section \<open>Bytes of a field read and written back\<close>

lemma to_le_read:
  "off + 2 \<le> length b \<Longrightarrow> to_le16 (le16 b off) = peek b off 2"
  "off + 4 \<le> length b \<Longrightarrow> to_le32 (le32 b off) = peek b off 4"
  "off + 8 \<le> length b \<Longrightarrow> to_le64 (le64 b off) = peek b off 8"
  "off + 4 \<le> length b \<Longrightarrow> to_be32 (be32 b off) = peek b off 4"
  by (simp_all add: le16_def le32_def le64_def be32_def to_le_from_le)

lemma peek_join: "peek b off n @ peek b (off + n) m = peek b off (n + m)"
  by (metis add.commute drop_drop peek_def take_add)

section \<open>Splitting an integer into halves\<close>

text \<open>The \<^verbatim>\<open>_lo\<close>/\<^verbatim>\<open>_hi\<close> pairs of the format put together again.\<close>

named_theorems half_simps \<open>recombining the halves of a split integer\<close>

lemma halves_32_16 [half_simps]:
  "(ucast (ucast (x :: u32) :: u16) :: u32) OR push_bit 16 (ucast (ucast (drop_bit 16 x) :: u16)) = x"
  by (rule bit_word_eqI) (auto simp: bit_simps)

lemma halves_64_32 [half_simps]:
  "(ucast (ucast (x :: u64) :: u32) :: u64) OR push_bit 32 (ucast (ucast (drop_bit 32 x) :: u32)) = x"
  by (rule bit_word_eqI) (auto simp: bit_simps)

text \<open>A 48-bit value survives a 32-bit low and a 16-bit high half.\<close>

lemma u64_high_bits_zero: "unat (x :: u64) < 2 ^ n \<Longrightarrow> bit x i \<Longrightarrow> i < n"
proof (rule ccontr)
  assume b: "bit x i" and "unat x < 2 ^ n" and "\<not> i < n"
  then have "unat x < 2 ^ i" by (meson leI less_le_trans one_le_numeral power_increasing)
  then have "\<not> bit (unat x) i" by (simp add: bit_iff_odd)
  with b show False by (simp add: bit_unsigned_iff)
qed

lemma halves_48 [half_simps]:
  assumes "unat (x :: u64) < 2 ^ 48"
  shows "(ucast (ucast x :: u32) :: u64) OR push_bit 32 (ucast (ucast (drop_bit 32 x) :: u16)) = x"
proof (rule bit_word_eqI)
  fix n
  show "bit ((ucast (ucast x :: u32) :: u64) OR push_bit 32 (ucast (ucast (drop_bit 32 x) :: u16))) n
    = bit x n" if "n < LENGTH(64)"
    using that u64_high_bits_zero [OF assms, of n] by (auto simp: bit_simps)
qed

lemma low_32_of_64 [half_simps]: "unat (x :: u64) < 2 ^ 32 \<Longrightarrow> ucast (ucast x :: u32) = x"
  using u64_high_bits_zero [of x 32] by (intro bit_word_eqI) (auto simp: bit_simps)

lemma u32_high_bits_zero: "unat (x :: u32) < 2 ^ n \<Longrightarrow> bit x i \<Longrightarrow> i < n"
proof (rule ccontr)
  assume b: "bit x i" and "unat x < 2 ^ n" and "\<not> i < n"
  then have "unat x < 2 ^ i" by (meson leI less_le_trans one_le_numeral power_increasing)
  then have "\<not> bit (unat x) i" by (simp add: bit_iff_odd)
  with b show False by (simp add: bit_unsigned_iff)
qed

lemma low_16_of_32 [half_simps]: "unat (x :: u32) < 2 ^ 16 \<Longrightarrow> ucast (ucast x :: u16) = x"
  using u32_high_bits_zero [of x 16] by (intro bit_word_eqI) (auto simp: bit_simps)

lemma unat_up:
  "unat (ucast (w :: u32) :: u64) = unat w" "unat (ucast (v :: u16) :: u32) = unat v"
  "unat (ucast (v :: u16) :: u64) = unat v"
  using unat_bounds(1) [of v] unat_bounds(2) [of w]
  by (simp_all add: unsigned_ucast_eq take_bit_nat_eq_self)

end
