(* ===== verification/Codec.thy ===== *)
theory Codec
  imports Le
begin

text \<open>
  The interface the on-disk structures of src/src/spec/ share: an encoder into a fixed number
  of bytes and a decoder that reads it back. The group descriptor table, the inode table and
  the entry arrays of extent nodes are tables of such records, and the facts about a table are
  proved once here.
\<close>

locale record_codec =
  fixes enc :: "'a \<Rightarrow> bytes"
    and dec :: "bytes \<Rightarrow> 'a res"
    and wf :: "'a \<Rightarrow> bool"
    and width :: nat
  assumes enc_length: "length (enc x) = width"
    and dec_enc: "wf x \<Longrightarrow> dec (enc x) = Inr x"
begin

lemma enc_inj: "wf x \<Longrightarrow> wf y \<Longrightarrow> enc x = enc y \<Longrightarrow> x = y"
  by (metis dec_enc sum.inject(2))

lemma length_table: "length (concat (map enc xs)) = width * length xs"
  by (induction xs) (auto simp: enc_length)

lemma peek_table: "i < length xs \<Longrightarrow> peek (concat (map enc xs) @ rest) (i * width) width = enc (xs ! i)"
proof (induction xs arbitrary: i)
  case Nil
  then show ?case by simp
next
  case (Cons x xs)
  show ?case
  proof (cases i)
    case 0
    then show ?thesis by (simp add: peek_append_left enc_length)
  next
    case (Suc j)
    then show ?thesis using Cons by (simp add: peek_append_right enc_length)
  qed
qed

lemma dec_table:
  "i < length xs \<Longrightarrow> wf (xs ! i) \<Longrightarrow>
   dec (peek (concat (map enc xs) @ rest) (i * width) width) = Inr (xs ! i)"
  by (simp add: peek_table dec_enc)

lemma dec_whole_table:
  assumes "\<And>x. x \<in> set xs \<Longrightarrow> wf x"
  shows "mapE (\<lambda>i. dec (peek (concat (map enc xs) @ rest) (i * width) width)) [0..<length xs] = Inr xs"
proof -
  have "mapE (\<lambda>i. dec (peek (concat (map enc xs) @ rest) (i * width) width)) [0..<length xs]
    = Inr (map ((!) xs) [0..<length xs])"
    using assms by (intro mapE_Inr) (simp add: dec_table)
  then show ?thesis by (simp add: map_nth)
qed

end

end
