(* ===== verification/Consts.thy ===== *)
theory Consts
  imports Prelude
begin

text \<open>
  Magic numbers, feature bits and fixed geometry constants (src/src/spec/consts.rs). The
  submodules become name prefixes: \<^verbatim>\<open>incompat::BIT64\<close> is \<open>incompat_BIT64\<close>.
  Sizes that the code uses as \<^verbatim>\<open>usize\<close> are natural numbers, on-disk values keep
  their width.
\<close>

definition BLOCK_SIZE :: nat where [simp]: "BLOCK_SIZE = 4096"
definition INODE_SIZE :: nat where [simp]: "INODE_SIZE = 256"
definition BLOCKS_PER_GROUP :: nat where [simp]: "BLOCKS_PER_GROUP = 32768"
definition SB_MAGIC :: u16 where [simp]: "SB_MAGIC = 0xEF53"
definition EXTENT_MAGIC :: u16 where [simp]: "EXTENT_MAGIC = 0xF30A"
definition XATTR_MAGIC :: u32 where [simp]: "XATTR_MAGIC = 0xEA020000"
definition JBD2_MAGIC :: u32 where [simp]: "JBD2_MAGIC = 0xC03B3998"
definition FIRST_INO :: u32 where [simp]: "FIRST_INO = 11"
definition ROOT_INO :: u32 where [simp]: "ROOT_INO = 2"
definition JOURNAL_INO :: u32 where [simp]: "JOURNAL_INO = 8"
definition LINK_MAX :: u32 where [simp]: "LINK_MAX = 65000"

section \<open>Feature words\<close>

definition compat_HAS_JOURNAL :: u32 where [simp]: "compat_HAS_JOURNAL = 0x4"
definition compat_EXT_ATTR :: u32 where [simp]: "compat_EXT_ATTR = 0x8"
definition compat_DIR_INDEX :: u32 where [simp]: "compat_DIR_INDEX = 0x20"
definition compat_WRITER :: u32 where
  "compat_WRITER = compat_HAS_JOURNAL OR compat_EXT_ATTR OR compat_DIR_INDEX"

definition incompat_FILETYPE :: u32 where [simp]: "incompat_FILETYPE = 0x2"
definition incompat_RECOVER :: u32 where [simp]: "incompat_RECOVER = 0x4"
definition incompat_EXTENTS :: u32 where [simp]: "incompat_EXTENTS = 0x40"
definition incompat_BIT64 :: u32 where [simp]: "incompat_BIT64 = 0x80"
definition incompat_FLEX_BG :: u32 where [simp]: "incompat_FLEX_BG = 0x200"
definition incompat_CSUM_SEED :: u32 where [simp]: "incompat_CSUM_SEED = 0x2000"
definition incompat_WRITER :: u32 where
  "incompat_WRITER = incompat_FILETYPE OR incompat_EXTENTS OR incompat_FLEX_BG"
definition incompat_READER :: u32 where
  "incompat_READER = incompat_FILETYPE OR incompat_EXTENTS OR incompat_BIT64 OR
     incompat_FLEX_BG OR incompat_CSUM_SEED"

definition ro_compat_SPARSE_SUPER :: u32 where [simp]: "ro_compat_SPARSE_SUPER = 0x1"
definition ro_compat_LARGE_FILE :: u32 where [simp]: "ro_compat_LARGE_FILE = 0x2"
definition ro_compat_HUGE_FILE :: u32 where [simp]: "ro_compat_HUGE_FILE = 0x8"
definition ro_compat_GDT_CSUM :: u32 where [simp]: "ro_compat_GDT_CSUM = 0x10"
definition ro_compat_DIR_NLINK :: u32 where [simp]: "ro_compat_DIR_NLINK = 0x20"
definition ro_compat_EXTRA_ISIZE :: u32 where [simp]: "ro_compat_EXTRA_ISIZE = 0x40"
definition ro_compat_METADATA_CSUM :: u32 where [simp]: "ro_compat_METADATA_CSUM = 0x400"
definition ro_compat_WRITER :: u32 where
  "ro_compat_WRITER = ro_compat_SPARSE_SUPER OR ro_compat_LARGE_FILE OR ro_compat_HUGE_FILE OR
     ro_compat_DIR_NLINK OR ro_compat_EXTRA_ISIZE OR ro_compat_METADATA_CSUM"

section \<open>Inode and group flags, directory entry types\<close>

definition iflags_INDEX :: u32 where [simp]: "iflags_INDEX = 0x1000"
definition iflags_EXTENTS :: u32 where [simp]: "iflags_EXTENTS = 0x80000"

definition bg_INODE_UNINIT :: u16 where [simp]: "bg_INODE_UNINIT = 0x1"
definition bg_BLOCK_UNINIT :: u16 where [simp]: "bg_BLOCK_UNINIT = 0x2"
definition bg_INODE_ZEROED :: u16 where [simp]: "bg_INODE_ZEROED = 0x4"

definition ft_REG :: u8 where [simp]: "ft_REG = 1"
definition ft_DIR :: u8 where [simp]: "ft_DIR = 2"
definition ft_CHR :: u8 where [simp]: "ft_CHR = 3"
definition ft_BLK :: u8 where [simp]: "ft_BLK = 4"
definition ft_FIFO :: u8 where [simp]: "ft_FIFO = 5"
definition ft_SOCK :: u8 where [simp]: "ft_SOCK = 6"
definition ft_SYMLINK :: u8 where [simp]: "ft_SYMLINK = 7"

text \<open>What the writer sets, the reader understands; the writer never asks for recovery.\<close>

lemma writer_features_readable: "incompat_WRITER AND NOT incompat_READER = 0"
  by (simp add: incompat_WRITER_def incompat_READER_def)

lemma writer_feature_words:
  "compat_WRITER = 0x2C" "incompat_WRITER = 0x242" "ro_compat_WRITER = 0x46B"
  by (simp_all add: compat_WRITER_def incompat_WRITER_def ro_compat_WRITER_def)

lemma writer_incompat_clear [simp]:
  "incompat_WRITER AND incompat_BIT64 = 0" "incompat_WRITER AND incompat_CSUM_SEED = 0"
  "incompat_WRITER AND incompat_RECOVER = 0"
  by (simp_all add: incompat_WRITER_def)

end
