(* ===== verification/GroupDesc.thy ===== *)
theory GroupDesc
  imports Codec Consts
begin

text \<open>
  Block group descriptors (src/src/spec/group_desc.rs): 32 bytes, or 64 and more with the
  64bit feature. The writer emits the short form, the reader decodes both.
\<close>

record group_desc =
  bg_block_bitmap :: u64
  bg_inode_bitmap :: u64
  bg_inode_table :: u64
  bg_free_blocks_count :: u32
  bg_free_inodes_count :: u32
  bg_used_dirs_count :: u32
  bg_flags :: u16
  bg_exclude_bitmap :: u64
  bg_block_bitmap_csum :: u32
  bg_inode_bitmap_csum :: u32
  bg_itable_unused :: u32
  bg_checksum :: u16

definition group_desc_low :: "bytes \<Rightarrow> group_desc" where
  "group_desc_low b =
    \<lparr>bg_block_bitmap = ucast (le32 b 0x00),
     bg_inode_bitmap = ucast (le32 b 0x04),
     bg_inode_table = ucast (le32 b 0x08),
     bg_free_blocks_count = ucast (le16 b 0x0C),
     bg_free_inodes_count = ucast (le16 b 0x0E),
     bg_used_dirs_count = ucast (le16 b 0x10),
     bg_flags = le16 b 0x12,
     bg_exclude_bitmap = ucast (le32 b 0x14),
     bg_block_bitmap_csum = ucast (le16 b 0x18),
     bg_inode_bitmap_csum = ucast (le16 b 0x1A),
     bg_itable_unused = ucast (le16 b 0x1C),
     bg_checksum = le16 b 0x1E\<rparr>"

definition group_desc_decode :: "bytes \<Rightarrow> group_desc res" where
  "group_desc_decode b =
    (if length b \<noteq> 32 \<and> length b < 64
     then Inl (Err (corrupt ''group descriptor'' ''size must be 32 or >= 64''))
     else
       (let d = group_desc_low b
        in Inr (if 64 \<le> length b
           then d\<lparr>bg_block_bitmap := bg_block_bitmap d OR push_bit 32 (ucast (le32 b 0x20)),
                  bg_inode_bitmap := bg_inode_bitmap d OR push_bit 32 (ucast (le32 b 0x24)),
                  bg_inode_table := bg_inode_table d OR push_bit 32 (ucast (le32 b 0x28)),
                  bg_free_blocks_count := bg_free_blocks_count d OR push_bit 16 (ucast (le16 b 0x2C)),
                  bg_free_inodes_count := bg_free_inodes_count d OR push_bit 16 (ucast (le16 b 0x2E)),
                  bg_used_dirs_count := bg_used_dirs_count d OR push_bit 16 (ucast (le16 b 0x30)),
                  bg_itable_unused := bg_itable_unused d OR push_bit 16 (ucast (le16 b 0x32)),
                  bg_exclude_bitmap := bg_exclude_bitmap d OR push_bit 32 (ucast (le32 b 0x34)),
                  bg_block_bitmap_csum := bg_block_bitmap_csum d OR push_bit 16 (ucast (le16 b 0x38)),
                  bg_inode_bitmap_csum := bg_inode_bitmap_csum d OR push_bit 16 (ucast (le16 b 0x3A))\<rparr>
           else d)))"

text \<open>The 32 bytes \<^verbatim>\<open>encode32\<close> leaves at the front of its output buffer.\<close>

definition group_desc_bytes :: "group_desc \<Rightarrow> bytes" where
  "group_desc_bytes d =
    (let b = zeros_buf 32;
         b = put_u32 b 0x00 (ucast (bg_block_bitmap d));
         b = put_u32 b 0x04 (ucast (bg_inode_bitmap d));
         b = put_u32 b 0x08 (ucast (bg_inode_table d));
         b = put_u16 b 0x0C (ucast (bg_free_blocks_count d));
         b = put_u16 b 0x0E (ucast (bg_free_inodes_count d));
         b = put_u16 b 0x10 (ucast (bg_used_dirs_count d));
         b = put_u16 b 0x12 (bg_flags d);
         b = put_u32 b 0x14 (ucast (bg_exclude_bitmap d));
         b = put_u16 b 0x18 (ucast (bg_block_bitmap_csum d));
         b = put_u16 b 0x1A (ucast (bg_inode_bitmap_csum d));
         b = put_u16 b 0x1C (ucast (bg_itable_unused d));
         b = put_u16 b 0x1E (bg_checksum d)
     in b)"

definition group_desc_encode32 :: "group_desc \<Rightarrow> bytes \<Rightarrow> bytes res" where
  "group_desc_encode32 d out =
    (if length out < 32 then Inl Panic else Inr (group_desc_bytes d @ drop 32 out))"

text \<open>A descriptor whose high halves are zero, the only kind the writer produces.\<close>

definition group_desc_wf32 :: "group_desc \<Rightarrow> bool" where
  "group_desc_wf32 d \<longleftrightarrow>
     unat (bg_block_bitmap d) < 2 ^ 32 \<and> unat (bg_inode_bitmap d) < 2 ^ 32 \<and>
     unat (bg_inode_table d) < 2 ^ 32 \<and> unat (bg_exclude_bitmap d) < 2 ^ 32 \<and>
     unat (bg_free_blocks_count d) < 2 ^ 16 \<and> unat (bg_free_inodes_count d) < 2 ^ 16 \<and>
     unat (bg_used_dirs_count d) < 2 ^ 16 \<and> unat (bg_block_bitmap_csum d) < 2 ^ 16 \<and>
     unat (bg_inode_bitmap_csum d) < 2 ^ 16 \<and> unat (bg_itable_unused d) < 2 ^ 16"

lemma length_group_desc_bytes [simp]: "length (group_desc_bytes d) = 32"
  by (simp add: group_desc_bytes_def Let_def)

lemma group_desc_decode_bytes:
  assumes "group_desc_wf32 d"
  shows "group_desc_decode (group_desc_bytes d) = Inr d"
proof -
  have "group_desc_low (group_desc_bytes d) = d"
    using assms unfolding group_desc_low_def group_desc_bytes_def group_desc_wf32_def Let_def
    by (intro group_desc.equality) (simp_all add: buf_simps half_simps)
  then show ?thesis by (simp add: group_desc_decode_def Let_def)
qed

interpretation group_desc_codec: record_codec group_desc_bytes group_desc_decode group_desc_wf32 32
  by unfold_locales (simp_all add: group_desc_decode_bytes)

end
