(* ===== verification/Superblock.thy ===== *)
theory Superblock
  imports Codec Consts
begin

text \<open>
  The ext4 superblock (src/src/spec/superblock.rs), 1024 bytes at offset 1024 of the image. Field
  names are the on-disk names; a \<^verbatim>\<open>[u8; N]\<close> field is a byte list and a
  \<^verbatim>\<open>[u32; N]\<close> field a word list, whose lengths \<open>superblock_wf\<close> states. Bytes the
  code does not model are ignored by the decoder and zero in the encoder's output.
\<close>

record superblock =
  s_inodes_count :: u32
  s_blocks_count :: u64
  s_r_blocks_count :: u64
  s_free_blocks_count :: u64
  s_free_inodes_count :: u32
  s_first_data_block :: u32
  s_log_block_size :: u32
  s_log_cluster_size :: u32
  s_blocks_per_group :: u32
  s_clusters_per_group :: u32
  s_inodes_per_group :: u32
  s_mtime :: u32
  s_wtime :: u32
  s_mnt_count :: u16
  s_max_mnt_count :: u16
  s_state :: u16
  s_errors :: u16
  s_minor_rev_level :: u16
  s_lastcheck :: u32
  s_checkinterval :: u32
  s_creator_os :: u32
  s_rev_level :: u32
  s_def_resuid :: u16
  s_def_resgid :: u16
  s_first_ino :: u32
  s_inode_size :: u16
  s_block_group_nr :: u16
  s_feature_compat :: u32
  s_feature_incompat :: u32
  s_feature_ro_compat :: u32
  s_uuid :: bytes
  s_volume_name :: bytes
  s_last_mounted :: bytes
  s_reserved_gdt_blocks :: u16
  s_journal_uuid :: bytes
  s_journal_inum :: u32
  s_journal_dev :: u32
  s_last_orphan :: u32
  s_hash_seed :: "u32 list"
  s_def_hash_version :: u8
  s_jnl_backup_type :: u8
  s_desc_size :: u16
  s_default_mount_opts :: u32
  s_first_meta_bg :: u32
  s_mkfs_time :: u32
  s_jnl_blocks :: "u32 list"
  s_min_extra_isize :: u16
  s_want_extra_isize :: u16
  s_flags :: u32
  s_log_groups_per_flex :: u8
  s_checksum_type :: u8
  s_kbytes_written :: u64
  s_overhead_clusters :: u32
  s_lpf_ino :: u32
  s_checksum_seed :: u32
  s_checksum :: u32

definition SB_LEN :: nat where [simp]: "SB_LEN = 1024"

text \<open>The fields as the record literal of \<^verbatim>\<open>decode\<close> reads them, low halves only.\<close>

definition superblock_low :: "bytes \<Rightarrow> superblock" where
  "superblock_low b =
    \<lparr>s_inodes_count = le32 b 0x00,
     s_blocks_count = ucast (le32 b 0x04),
     s_r_blocks_count = ucast (le32 b 0x08),
     s_free_blocks_count = ucast (le32 b 0x0C),
     s_free_inodes_count = le32 b 0x10,
     s_first_data_block = le32 b 0x14,
     s_log_block_size = le32 b 0x18,
     s_log_cluster_size = le32 b 0x1C,
     s_blocks_per_group = le32 b 0x20,
     s_clusters_per_group = le32 b 0x24,
     s_inodes_per_group = le32 b 0x28,
     s_mtime = le32 b 0x2C,
     s_wtime = le32 b 0x30,
     s_mnt_count = le16 b 0x34,
     s_max_mnt_count = le16 b 0x36,
     s_state = le16 b 0x3A,
     s_errors = le16 b 0x3C,
     s_minor_rev_level = le16 b 0x3E,
     s_lastcheck = le32 b 0x40,
     s_checkinterval = le32 b 0x44,
     s_creator_os = le32 b 0x48,
     s_rev_level = le32 b 0x4C,
     s_def_resuid = le16 b 0x50,
     s_def_resgid = le16 b 0x52,
     s_first_ino = le32 b 0x54,
     s_inode_size = le16 b 0x58,
     s_block_group_nr = le16 b 0x5A,
     s_feature_compat = le32 b 0x5C,
     s_feature_incompat = le32 b 0x60,
     s_feature_ro_compat = le32 b 0x64,
     s_uuid = peek b 0x68 16,
     s_volume_name = peek b 0x78 16,
     s_last_mounted = peek b 0x88 64,
     s_reserved_gdt_blocks = le16 b 0xCE,
     s_journal_uuid = peek b 0xD0 16,
     s_journal_inum = le32 b 0xE0,
     s_journal_dev = le32 b 0xE4,
     s_last_orphan = le32 b 0xE8,
     s_hash_seed = le32s b 0xEC 4,
     s_def_hash_version = b ! 0xFC,
     s_jnl_backup_type = b ! 0xFD,
     s_desc_size = le16 b 0xFE,
     s_default_mount_opts = le32 b 0x100,
     s_first_meta_bg = le32 b 0x104,
     s_mkfs_time = le32 b 0x108,
     s_jnl_blocks = le32s b 0x10C 17,
     s_min_extra_isize = le16 b 0x15C,
     s_want_extra_isize = le16 b 0x15E,
     s_flags = le32 b 0x160,
     s_log_groups_per_flex = b ! 0x174,
     s_checksum_type = b ! 0x175,
     s_kbytes_written = le64 b 0x178,
     s_overhead_clusters = le32 b 0x248,
     s_lpf_ino = le32 b 0x268,
     s_checksum_seed = le32 b 0x270,
     s_checksum = le32 b 0x3FC\<rparr>"

definition superblock_decode :: "bytes \<Rightarrow> superblock res" where
  "superblock_decode b =
    (if length b < SB_LEN then Inl (Err (corrupt ''superblock'' ''short buffer''))
     else if le16 b 0x38 \<noteq> SB_MAGIC then Inl (Err (corrupt ''superblock'' ''bad magic''))
     else
       (let sb = superblock_low b
        in Inr (if s_feature_incompat sb AND incompat_BIT64 \<noteq> 0
           then sb\<lparr>s_blocks_count := s_blocks_count sb OR push_bit 32 (ucast (le32 b 0x150)),
                   s_r_blocks_count := s_r_blocks_count sb OR push_bit 32 (ucast (le32 b 0x154)),
                   s_free_blocks_count := s_free_blocks_count sb OR push_bit 32 (ucast (le32 b 0x158))\<rparr>
           else sb)))"

text \<open>The 1024 bytes \<^verbatim>\<open>encode\<close> leaves at the front of its output buffer.\<close>

definition superblock_bytes :: "superblock \<Rightarrow> bytes" where
  "superblock_bytes sb =
    (let b = zeros_buf SB_LEN;
         b = put_u32 b 0x00 (s_inodes_count sb);
         b = put_u32 b 0x04 (ucast (s_blocks_count sb));
         b = put_u32 b 0x08 (ucast (s_r_blocks_count sb));
         b = put_u32 b 0x0C (ucast (s_free_blocks_count sb));
         b = put_u32 b 0x10 (s_free_inodes_count sb);
         b = put_u32 b 0x14 (s_first_data_block sb);
         b = put_u32 b 0x18 (s_log_block_size sb);
         b = put_u32 b 0x1C (s_log_cluster_size sb);
         b = put_u32 b 0x20 (s_blocks_per_group sb);
         b = put_u32 b 0x24 (s_clusters_per_group sb);
         b = put_u32 b 0x28 (s_inodes_per_group sb);
         b = put_u32 b 0x2C (s_mtime sb);
         b = put_u32 b 0x30 (s_wtime sb);
         b = put_u16 b 0x34 (s_mnt_count sb);
         b = put_u16 b 0x36 (s_max_mnt_count sb);
         b = put_u16 b 0x38 SB_MAGIC;
         b = put_u16 b 0x3A (s_state sb);
         b = put_u16 b 0x3C (s_errors sb);
         b = put_u16 b 0x3E (s_minor_rev_level sb);
         b = put_u32 b 0x40 (s_lastcheck sb);
         b = put_u32 b 0x44 (s_checkinterval sb);
         b = put_u32 b 0x48 (s_creator_os sb);
         b = put_u32 b 0x4C (s_rev_level sb);
         b = put_u16 b 0x50 (s_def_resuid sb);
         b = put_u16 b 0x52 (s_def_resgid sb);
         b = put_u32 b 0x54 (s_first_ino sb);
         b = put_u16 b 0x58 (s_inode_size sb);
         b = put_u16 b 0x5A (s_block_group_nr sb);
         b = put_u32 b 0x5C (s_feature_compat sb);
         b = put_u32 b 0x60 (s_feature_incompat sb);
         b = put_u32 b 0x64 (s_feature_ro_compat sb);
         b = poke b 0x68 (s_uuid sb);
         b = poke b 0x78 (s_volume_name sb);
         b = poke b 0x88 (s_last_mounted sb);
         b = put_u16 b 0xCE (s_reserved_gdt_blocks sb);
         b = poke b 0xD0 (s_journal_uuid sb);
         b = put_u32 b 0xE0 (s_journal_inum sb);
         b = put_u32 b 0xE4 (s_journal_dev sb);
         b = put_u32 b 0xE8 (s_last_orphan sb);
         b = put_u32s b 0xEC (s_hash_seed sb);
         b = put_u8 b 0xFC (s_def_hash_version sb);
         b = put_u8 b 0xFD (s_jnl_backup_type sb);
         b = put_u16 b 0xFE (s_desc_size sb);
         b = put_u32 b 0x100 (s_default_mount_opts sb);
         b = put_u32 b 0x104 (s_first_meta_bg sb);
         b = put_u32 b 0x108 (s_mkfs_time sb);
         b = put_u32s b 0x10C (s_jnl_blocks sb);
         b = (if s_feature_incompat sb AND incompat_BIT64 \<noteq> 0
              then put_u32 (put_u32 (put_u32 b
                     0x150 (ucast (drop_bit 32 (s_blocks_count sb))))
                     0x154 (ucast (drop_bit 32 (s_r_blocks_count sb))))
                     0x158 (ucast (drop_bit 32 (s_free_blocks_count sb)))
              else b);
         b = put_u16 b 0x15C (s_min_extra_isize sb);
         b = put_u16 b 0x15E (s_want_extra_isize sb);
         b = put_u32 b 0x160 (s_flags sb);
         b = put_u8 b 0x174 (s_log_groups_per_flex sb);
         b = put_u8 b 0x175 (s_checksum_type sb);
         b = put_u64 b 0x178 (s_kbytes_written sb);
         b = put_u32 b 0x248 (s_overhead_clusters sb);
         b = put_u32 b 0x268 (s_lpf_ino sb);
         b = put_u32 b 0x270 (s_checksum_seed sb);
         b = put_u32 b 0x3FC (s_checksum sb)
     in b)"

definition superblock_encode :: "superblock \<Rightarrow> bytes \<Rightarrow> bytes res" where
  "superblock_encode sb out =
    (if length out < SB_LEN then Inl Panic else Inr (superblock_bytes sb @ drop SB_LEN out))"

section \<open>Derived quantities\<close>

text \<open>
  \<^verbatim>\<open>1024u64 << self.log_block_size\<close>: a shift by 64 or more is an overflow.
\<close>

definition superblock_block_size :: "superblock \<Rightarrow> u64 res" where
  "superblock_block_size sb =
    (if unat (s_log_block_size sb) < 64 then Inr (push_bit (unat (s_log_block_size sb)) 1024)
     else Inl Panic)"

text \<open>\<^verbatim>\<open>u64::div_ceil\<close> for a nonzero divisor.\<close>

definition u64_div_ceil :: "u64 \<Rightarrow> u64 \<Rightarrow> u64" where
  "u64_div_ceil a d = (if a mod d = 0 then a div d else a div d + 1)"

definition superblock_group_count :: "superblock \<Rightarrow> u64 res" where
  "superblock_group_count sb =
    (let bpg = ucast (s_blocks_per_group sb); fdb = ucast (s_first_data_block sb)
     in if s_blocks_count sb < fdb then Inl Panic
        else if bpg = 0 then Inl Panic
        else Inr (u64_div_ceil (s_blocks_count sb - fdb) bpg))"

definition superblock_desc_size :: "superblock \<Rightarrow> nat" where
  "superblock_desc_size sb = (if s_desc_size sb = 0 then 32 else unat (s_desc_size sb))"

section \<open>The round trip\<close>

text \<open>
  Array fields have their declared lengths, and without the 64bit feature the block counters
  have no high half.
\<close>

definition superblock_wf :: "superblock \<Rightarrow> bool" where
  "superblock_wf sb \<longleftrightarrow>
     length (s_uuid sb) = 16 \<and> length (s_volume_name sb) = 16 \<and> length (s_last_mounted sb) = 64 \<and>
     length (s_journal_uuid sb) = 16 \<and> length (s_hash_seed sb) = 4 \<and> length (s_jnl_blocks sb) = 17 \<and>
     (s_feature_incompat sb AND incompat_BIT64 = 0 \<longrightarrow>
        unat (s_blocks_count sb) < 2 ^ 32 \<and> unat (s_r_blocks_count sb) < 2 ^ 32 \<and>
        unat (s_free_blocks_count sb) < 2 ^ 32)"

lemma length_superblock_bytes [simp]: "length (superblock_bytes sb) = 1024"
  by (simp add: superblock_bytes_def Let_def)

lemma superblock_bytes_magic: "superblock_wf sb \<Longrightarrow> le16 (superblock_bytes sb) 0x38 = SB_MAGIC"
  by (simp add: superblock_bytes_def superblock_wf_def Let_def buf_simps put_u32s_poke)

lemma superblock_low_bytes:
  assumes "superblock_wf sb"
  shows "superblock_low (superblock_bytes sb) =
    sb\<lparr>s_blocks_count := ucast (ucast (s_blocks_count sb) :: u32),
       s_r_blocks_count := ucast (ucast (s_r_blocks_count sb) :: u32),
       s_free_blocks_count := ucast (ucast (s_free_blocks_count sb) :: u32)\<rparr>"
  using assms unfolding superblock_low_def superblock_bytes_def superblock_wf_def Let_def
  by (intro superblock.equality) (simp_all add: buf_simps put_u32s_poke)

lemma superblock_bytes_high:
  assumes "superblock_wf sb" and "s_feature_incompat sb AND incompat_BIT64 \<noteq> 0"
  shows "le32 (superblock_bytes sb) 0x150 = ucast (drop_bit 32 (s_blocks_count sb))"
    and "le32 (superblock_bytes sb) 0x154 = ucast (drop_bit 32 (s_r_blocks_count sb))"
    and "le32 (superblock_bytes sb) 0x158 = ucast (drop_bit 32 (s_free_blocks_count sb))"
  using assms unfolding superblock_bytes_def superblock_wf_def Let_def
  by (simp_all add: buf_simps put_u32s_poke)

lemma superblock_decode_bytes:
  assumes wf: "superblock_wf sb"
  shows "superblock_decode (superblock_bytes sb @ rest) = Inr sb"
proof -
  have low: "superblock_low (superblock_bytes sb @ rest) = superblock_low (superblock_bytes sb)"
    by (simp add: superblock_low_def buf_simps nth_append peek_append_left)
  show ?thesis
  proof (cases "s_feature_incompat sb AND incompat_BIT64 = 0")
    case True
    with wf show ?thesis
      by (simp add: superblock_decode_def low superblock_low_bytes superblock_bytes_magic buf_simps
          superblock_wf_def half_simps)
  next
    case False
    with wf show ?thesis
      by (simp add: superblock_decode_def low superblock_low_bytes superblock_bytes_magic buf_simps
          superblock_bytes_high half_simps)
  qed
qed

interpretation superblock_codec: record_codec superblock_bytes superblock_decode superblock_wf 1024
  using superblock_decode_bytes [where rest = "[]"] by unfold_locales simp_all

end
