(* ===== verification/Extent.thy ===== *)
theory Extent
  imports Codec Consts
begin

text \<open>
  Extent tree nodes (src/src/spec/extent.rs): a 12-byte header and 12-byte entries, which are
  extents in a leaf and index entries in an interior node.
\<close>

record extent_header =
  eh_entries :: u16
  eh_max :: u16
  eh_depth :: u16
  eh_generation :: u32

record extent =
  ee_logical :: u32
  ee_raw_len :: u16
  ee_start :: u64

record extent_idx =
  ei_logical :: u32
  ei_leaf :: u64

definition HEADER_LEN :: nat where [simp]: "HEADER_LEN = 12"
definition ENTRY_LEN :: nat where [simp]: "ENTRY_LEN = 12"

section \<open>The header\<close>

definition extent_header_decode :: "bytes \<Rightarrow> extent_header res" where
  "extent_header_decode b =
    (if length b < HEADER_LEN then Inl (Err (corrupt ''extent header'' ''short buffer''))
     else if le16 b 0 \<noteq> EXTENT_MAGIC then Inl (Err (corrupt ''extent header'' ''bad magic''))
     else Inr \<lparr>eh_entries = le16 b 2, eh_max = le16 b 4, eh_depth = le16 b 6, eh_generation = le32 b 8\<rparr>)"

definition extent_header_bytes :: "extent_header \<Rightarrow> bytes" where
  "extent_header_bytes h =
     to_le16 EXTENT_MAGIC @ to_le16 (eh_entries h) @ to_le16 (eh_max h) @ to_le16 (eh_depth h) @
     to_le32 (eh_generation h)"

text \<open>The five stores of \<^verbatim>\<open>encode\<close> cover the first 12 bytes of the output.\<close>

definition extent_header_encode :: "extent_header \<Rightarrow> bytes \<Rightarrow> bytes res" where
  "extent_header_encode h out =
    (if length out < HEADER_LEN then Inl Panic else Inr (poke out 0 (extent_header_bytes h)))"

section \<open>Leaf entries\<close>

definition extent_decode :: "bytes \<Rightarrow> extent" where
  "extent_decode b =
    \<lparr>ee_logical = le32 b 0, ee_raw_len = le16 b 4,
     ee_start = push_bit 32 (ucast (le16 b 6)) OR ucast (le32 b 8)\<rparr>"

definition extent_bytes :: "extent \<Rightarrow> bytes" where
  "extent_bytes e =
     to_le32 (ee_logical e) @ to_le16 (ee_raw_len e) @ to_le16 (ucast (drop_bit 32 (ee_start e))) @
     to_le32 (ucast (ee_start e))"

definition extent_encode :: "extent \<Rightarrow> bytes \<Rightarrow> bytes res" where
  "extent_encode e out =
    (if length out < ENTRY_LEN then Inl Panic else Inr (poke out 0 (extent_bytes e)))"

text \<open>A raw length of 32768 is an initialized extent of maximal length.\<close>

definition extent_len :: "extent \<Rightarrow> u32" where
  "extent_len e = (if ee_raw_len e > 32768 then ucast (ee_raw_len e) - 32768 else ucast (ee_raw_len e))"

definition extent_is_unwritten :: "extent \<Rightarrow> bool" where
  "extent_is_unwritten e \<longleftrightarrow> ee_raw_len e > 32768"

definition extent_is_empty :: "extent \<Rightarrow> bool" where
  "extent_is_empty e \<longleftrightarrow> extent_len e = 0"

section \<open>Index entries\<close>

definition extent_idx_decode :: "bytes \<Rightarrow> extent_idx" where
  "extent_idx_decode b =
    \<lparr>ei_logical = le32 b 0, ei_leaf = ucast (le32 b 4) OR push_bit 32 (ucast (le16 b 8))\<rparr>"

definition extent_idx_bytes :: "extent_idx \<Rightarrow> bytes" where
  "extent_idx_bytes e =
     to_le32 (ei_logical e) @ to_le32 (ucast (ei_leaf e)) @ to_le16 (ucast (drop_bit 32 (ei_leaf e))) @
     to_le16 0"

definition extent_idx_encode :: "extent_idx \<Rightarrow> bytes \<Rightarrow> bytes res" where
  "extent_idx_encode e out =
    (if length out < ENTRY_LEN then Inl Panic else Inr (poke out 0 (extent_idx_bytes e)))"

definition node_capacity :: "nat \<Rightarrow> nat" where
  "node_capacity block_size = (block_size - HEADER_LEN - 4) div ENTRY_LEN"

text \<open>\<^verbatim>\<open>entry(b, i)\<close>: the slice of the \<open>i\<close>-th entry.\<close>

definition extent_entry :: "bytes \<Rightarrow> nat \<Rightarrow> bytes res" where
  "extent_entry b i =
    (let off = HEADER_LEN + i * ENTRY_LEN
     in if off + ENTRY_LEN \<le> length b then Inr (peek b off ENTRY_LEN) else Inl Panic)"

section \<open>Round trips\<close>

lemma length_extent_bytes [simp]:
  "length (extent_header_bytes h) = 12" "length (extent_bytes e) = 12" "length (extent_idx_bytes i) = 12"
  by (simp_all add: extent_header_bytes_def extent_bytes_def extent_idx_bytes_def)

lemma node_capacity_4096 [simp]: "node_capacity 4096 = 340"
  by (simp add: node_capacity_def)

lemma extent_header_decode_bytes: "extent_header_decode (extent_header_bytes h @ rest) = Inr h"
  by (simp add: extent_header_decode_def extent_header_bytes_def buf_simps)

definition extent_wf :: "extent \<Rightarrow> bool" where
  "extent_wf e \<longleftrightarrow> unat (ee_start e) < 2 ^ 48"

definition extent_idx_wf :: "extent_idx \<Rightarrow> bool" where
  "extent_idx_wf e \<longleftrightarrow> unat (ei_leaf e) < 2 ^ 48"

lemma extent_decode_bytes: "extent_wf e \<Longrightarrow> extent_decode (extent_bytes e) = e"
  using halves_48 [of "ee_start e"]
  by (simp add: extent_decode_def extent_bytes_def extent_wf_def buf_simps or.commute)

lemma extent_idx_decode_bytes: "extent_idx_wf e \<Longrightarrow> extent_idx_decode (extent_idx_bytes e) = e"
  using halves_48 [of "ei_leaf e"]
  by (simp add: extent_idx_decode_def extent_idx_bytes_def extent_idx_wf_def buf_simps)

text \<open>The other direction: the encoding of a decoded extent is the bytes it was decoded from.\<close>

lemma split_48:
  "ucast (push_bit 32 (ucast (h :: u16)) OR ucast (l :: u32) :: u64) = l"
  "ucast (drop_bit 32 (push_bit 32 (ucast (h :: u16)) OR ucast (l :: u32) :: u64)) = h"
  by (rule bit_word_eqI; auto simp: bit_simps dest: bit_imp_le_length)+

lemma extent_bytes_decode:
  assumes "length b = 12"
  shows "extent_bytes (extent_decode b) = b"
proof -
  have "extent_bytes (extent_decode b) =
    to_le32 (le32 b 0) @ to_le16 (le16 b 4) @ to_le16 (le16 b 6) @ to_le32 (le32 b 8)"
    by (simp only: extent_bytes_def extent_decode_def extent.simps split_48)
  also have "\<dots> = peek b 0 4 @ peek b 4 2 @ peek b 6 2 @ peek b 8 4"
    using assms by (simp add: to_le_read)
  also have "\<dots> = peek b 0 12"
    using peek_join [of b 0 4 2] peek_join [of b 0 6 2] peek_join [of b 0 8 4]
    by (simp flip: append_assoc)
  finally show ?thesis using assms by simp
qed

interpretation extent_header_codec:
  record_codec extent_header_bytes extent_header_decode "\<lambda>_. True" 12
  using extent_header_decode_bytes [where rest = "[]"] by unfold_locales simp_all

interpretation extent_codec: record_codec extent_bytes "\<lambda>b. Inr (extent_decode b)" extent_wf 12
  by unfold_locales (simp_all add: extent_decode_bytes)

interpretation extent_idx_codec:
  record_codec extent_idx_bytes "\<lambda>b. Inr (extent_idx_decode b)" extent_idx_wf 12
  by unfold_locales (simp_all add: extent_idx_decode_bytes)

end
