(* ===== verification/Journal.thy ===== *)
theory Journal
  imports Codec Consts
begin

text \<open>
  The jbd2 journal superblock (src/src/spec/journal.rs), the only big-endian structure.
\<close>

record journal_superblock =
  js_blocktype :: u32
  js_blocksize :: u32
  js_maxlen :: u32
  js_first :: u32
  js_sequence :: u32
  js_start :: u32
  js_errno :: u32
  js_feature_compat :: u32
  js_feature_incompat :: u32
  js_feature_ro_compat :: u32
  js_uuid :: bytes
  js_nr_users :: u32
  js_dynsuper :: u32
  js_max_transaction :: u32
  js_max_trans_data :: u32
  js_checksum_type :: u8
  js_num_fc_blocks :: u32
  js_head :: u32
  js_checksum :: u32

definition JSB_LEN :: nat where [simp]: "JSB_LEN = 1024"

definition journal_superblock_decode :: "bytes \<Rightarrow> journal_superblock res" where
  "journal_superblock_decode b =
    (if length b < JSB_LEN then Inl (Err (corrupt ''journal superblock'' ''short buffer''))
     else if be32 b 0 \<noteq> JBD2_MAGIC then Inl (Err (corrupt ''journal superblock'' ''bad magic''))
     else
       (let blocktype = be32 b 4
        in if blocktype \<noteq> 3 \<and> blocktype \<noteq> 4
           then Inl (Err (corrupt ''journal superblock'' ''blocktype''))
           else Inr
             \<lparr>js_blocktype = blocktype, js_blocksize = be32 b 12, js_maxlen = be32 b 16,
              js_first = be32 b 20, js_sequence = be32 b 24, js_start = be32 b 28,
              js_errno = be32 b 32, js_feature_compat = be32 b 36, js_feature_incompat = be32 b 40,
              js_feature_ro_compat = be32 b 44, js_uuid = peek b 48 16, js_nr_users = be32 b 64,
              js_dynsuper = be32 b 68, js_max_transaction = be32 b 72, js_max_trans_data = be32 b 76,
              js_checksum_type = b ! 80, js_num_fc_blocks = be32 b 84, js_head = be32 b 88,
              js_checksum = be32 b 0xFC\<rparr>))"

definition journal_superblock_bytes :: "journal_superblock \<Rightarrow> bytes" where
  "journal_superblock_bytes j =
    (let b = zeros_buf JSB_LEN;
         b = be_put_u32 b 0 JBD2_MAGIC;
         b = be_put_u32 b 4 (js_blocktype j);
         b = be_put_u32 b 12 (js_blocksize j);
         b = be_put_u32 b 16 (js_maxlen j);
         b = be_put_u32 b 20 (js_first j);
         b = be_put_u32 b 24 (js_sequence j);
         b = be_put_u32 b 28 (js_start j);
         b = be_put_u32 b 32 (js_errno j);
         b = be_put_u32 b 36 (js_feature_compat j);
         b = be_put_u32 b 40 (js_feature_incompat j);
         b = be_put_u32 b 44 (js_feature_ro_compat j);
         b = poke b 48 (js_uuid j);
         b = be_put_u32 b 64 (js_nr_users j);
         b = be_put_u32 b 68 (js_dynsuper j);
         b = be_put_u32 b 72 (js_max_transaction j);
         b = be_put_u32 b 76 (js_max_trans_data j);
         b = put_u8 b 80 (js_checksum_type j);
         b = be_put_u32 b 84 (js_num_fc_blocks j);
         b = be_put_u32 b 88 (js_head j);
         b = be_put_u32 b 0xFC (js_checksum j)
     in b)"

definition journal_superblock_encode :: "journal_superblock \<Rightarrow> bytes \<Rightarrow> bytes res" where
  "journal_superblock_encode j out =
    (if length out < JSB_LEN then Inl Panic else Inr (journal_superblock_bytes j @ drop JSB_LEN out))"

definition journal_superblock_wf :: "journal_superblock \<Rightarrow> bool" where
  "journal_superblock_wf j \<longleftrightarrow>
     length (js_uuid j) = 16 \<and> (js_blocktype j = 3 \<or> js_blocktype j = 4)"

lemma length_journal_superblock_bytes [simp]: "length (journal_superblock_bytes j) = 1024"
  by (simp add: journal_superblock_bytes_def Let_def)

lemma journal_superblock_decode_bytes:
  assumes wf: "journal_superblock_wf j"
  shows "journal_superblock_decode (journal_superblock_bytes j @ rest) = Inr j"
  using wf unfolding journal_superblock_decode_def journal_superblock_wf_def
  unfolding journal_superblock_bytes_def Let_def
  by (auto simp: buf_simps nth_append peek_append_left)

interpretation journal_superblock_codec:
  record_codec journal_superblock_bytes journal_superblock_decode journal_superblock_wf 1024
  using journal_superblock_decode_bytes [where rest = "[]"] by unfold_locales simp_all

end
