(* ===== verification/Inode.thy ===== *)
theory Inode
  imports Codec Consts
begin

text \<open>
  On-disk inodes (src/src/spec/inode.rs): 256 bytes in the images the crate writes; the decoder
  also takes the 128-byte form. \<open>i_block\<close> stays raw. A signed 64-bit time is an \<open>int\<close>
  here, with the overflow of \<^verbatim>\<open>i64\<close> arithmetic written out.
\<close>

record inode =
  i_mode :: u16
  i_uid :: u32
  i_gid :: u32
  i_size :: u64
  i_atime :: u32
  i_ctime :: u32
  i_mtime :: u32
  i_dtime :: u32
  i_links_count :: u16
  i_blocks :: u64
  i_flags :: u32
  i_version :: u64
  i_block :: bytes
  i_generation :: u32
  i_file_acl :: u64
  i_extra_isize :: u16
  i_checksum :: u32
  i_ctime_extra :: u32
  i_mtime_extra :: u32
  i_atime_extra :: u32
  i_crtime :: u32
  i_crtime_extra :: u32
  i_projid :: u32
  i_ibody :: bytes

definition inode_default :: inode where
  "inode_default =
    \<lparr>i_mode = 0, i_uid = 0, i_gid = 0, i_size = 0, i_atime = 0, i_ctime = 0, i_mtime = 0,
     i_dtime = 0, i_links_count = 0, i_blocks = 0, i_flags = 0, i_version = 0,
     i_block = zeros_buf 60, i_generation = 0, i_file_acl = 0, i_extra_isize = 0, i_checksum = 0,
     i_ctime_extra = 0, i_mtime_extra = 0, i_atime_extra = 0, i_crtime = 0, i_crtime_extra = 0,
     i_projid = 0, i_ibody = []\<rparr>"

section \<open>Decoding\<close>

definition inode_low :: "bytes \<Rightarrow> inode" where
  "inode_low b =
    \<lparr>i_mode = le16 b 0x00,
     i_uid = ucast (le16 b 0x02) OR push_bit 16 (ucast (le16 b 0x78)),
     i_gid = ucast (le16 b 0x18) OR push_bit 16 (ucast (le16 b 0x7A)),
     i_size = ucast (le32 b 0x04) OR push_bit 32 (ucast (le32 b 0x6C)),
     i_atime = le32 b 0x08,
     i_ctime = le32 b 0x0C,
     i_mtime = le32 b 0x10,
     i_dtime = le32 b 0x14,
     i_links_count = le16 b 0x1A,
     i_blocks = ucast (le32 b 0x1C) OR push_bit 32 (ucast (le16 b 0x74)),
     i_flags = le32 b 0x20,
     i_version = ucast (le32 b 0x24),
     i_block = peek b 0x28 60,
     i_generation = le32 b 0x64,
     i_file_acl = ucast (le32 b 0x68) OR push_bit 32 (ucast (le16 b 0x76)),
     i_extra_isize = 0,
     i_checksum = ucast (le16 b 0x7C),
     i_ctime_extra = 0, i_mtime_extra = 0, i_atime_extra = 0, i_crtime = 0, i_crtime_extra = 0,
     i_projid = 0, i_ibody = []\<rparr>"

text \<open>
  The extra area: a field is present when both the slot and \<^verbatim>\<open>i_extra_isize\<close> reach its
  end (the closure \<^verbatim>\<open>has\<close>). The raw xattr area is kept unless it is all zero.
\<close>

definition inode_extra :: "bytes \<Rightarrow> inode \<Rightarrow> inode" where
  "inode_extra b i =
    (let extra = le16 b 0x80;
         extra_end = 0x80 + unat extra;
         has = (\<lambda>field_end. field_end \<le> length b \<and> field_end \<le> extra_end);
         area = drop (min extra_end (length b)) b
     in i\<lparr>i_extra_isize := extra,
          i_checksum := (if has 0x84 then i_checksum i OR push_bit 16 (ucast (le16 b 0x82)) else i_checksum i),
          i_ctime_extra := (if has 0x88 then le32 b 0x84 else i_ctime_extra i),
          i_mtime_extra := (if has 0x8C then le32 b 0x88 else i_mtime_extra i),
          i_atime_extra := (if has 0x90 then le32 b 0x8C else i_atime_extra i),
          i_crtime := (if has 0x94 then le32 b 0x90 else i_crtime i),
          i_crtime_extra := (if has 0x98 then le32 b 0x94 else i_crtime_extra i),
          i_version := (if has 0x9C then i_version i OR push_bit 32 (ucast (le32 b 0x98)) else i_version i),
          i_projid := (if has 0xA0 then le32 b 0x9C else i_projid i),
          i_ibody := (if \<exists>x\<in>set area. x \<noteq> 0 then area else i_ibody i)\<rparr>)"

definition inode_decode :: "bytes \<Rightarrow> inode res" where
  "inode_decode b =
    (if length b < 128 then Inl (Err (corrupt ''inode'' ''short buffer''))
     else Inr (if 0x80 < length b then inode_extra b (inode_low b) else inode_low b))"

section \<open>Encoding\<close>

text \<open>A store that happens only under a condition.\<close>

definition poke_if :: "bool \<Rightarrow> bytes \<Rightarrow> nat \<Rightarrow> bytes \<Rightarrow> bytes" where
  "poke_if c b off v = (if c then poke b off v else b)"

definition inode_bytes :: "inode \<Rightarrow> bytes" where
  "inode_bytes i =
    (let e = unat (i_extra_isize i);
         b = zeros_buf INODE_SIZE;
         b = put_u16 b 0x00 (i_mode i);
         b = put_u16 b 0x02 (ucast (i_uid i));
         b = put_u32 b 0x04 (ucast (i_size i));
         b = put_u32 b 0x08 (i_atime i);
         b = put_u32 b 0x0C (i_ctime i);
         b = put_u32 b 0x10 (i_mtime i);
         b = put_u32 b 0x14 (i_dtime i);
         b = put_u16 b 0x18 (ucast (i_gid i));
         b = put_u16 b 0x1A (i_links_count i);
         b = put_u32 b 0x1C (ucast (i_blocks i));
         b = put_u32 b 0x20 (i_flags i);
         b = put_u32 b 0x24 (ucast (i_version i));
         b = poke b 0x28 (i_block i);
         b = put_u32 b 0x64 (i_generation i);
         b = put_u32 b 0x68 (ucast (i_file_acl i));
         b = put_u32 b 0x6C (ucast (drop_bit 32 (i_size i)));
         b = put_u16 b 0x74 (ucast (drop_bit 32 (i_blocks i)));
         b = put_u16 b 0x76 (ucast (drop_bit 32 (i_file_acl i)));
         b = put_u16 b 0x78 (ucast (drop_bit 16 (i_uid i)));
         b = put_u16 b 0x7A (ucast (drop_bit 16 (i_gid i)));
         b = put_u16 b 0x7C (ucast (i_checksum i));
         b = put_u16 b 0x80 (i_extra_isize i);
         b = poke_if (4 \<le> e) b 0x82 (to_le16 (ucast (drop_bit 16 (i_checksum i))));
         b = poke_if (8 \<le> e) b 0x84 (to_le32 (i_ctime_extra i));
         b = poke_if (12 \<le> e) b 0x88 (to_le32 (i_mtime_extra i));
         b = poke_if (16 \<le> e) b 0x8C (to_le32 (i_atime_extra i));
         b = poke_if (20 \<le> e) b 0x90 (to_le32 (i_crtime i));
         b = poke_if (24 \<le> e) b 0x94 (to_le32 (i_crtime_extra i));
         b = poke_if (28 \<le> e) b 0x98 (to_le32 (ucast (drop_bit 32 (i_version i))));
         b = poke_if (32 \<le> e) b 0x9C (to_le32 (i_projid i))
     in poke_if (i_ibody i \<noteq> []) b (0x80 + e) (i_ibody i))"

text \<open>
  \<^verbatim>\<open>encode\<close> panics on an output shorter than a slot, and on an xattr area that does
  not fit behind the extra area.
\<close>

definition inode_encode :: "inode \<Rightarrow> bytes \<Rightarrow> bytes res" where
  "inode_encode i out =
    (if length out < INODE_SIZE then Inl Panic
     else if i_ibody i \<noteq> [] \<and> 0x80 + unat (i_extra_isize i) + length (i_ibody i) > INODE_SIZE
     then Inl Panic
     else Inr (inode_bytes i @ drop INODE_SIZE out))"

section \<open>Typed accessors\<close>

datatype file_type =
    Regular | Dir | Symlink | CharDev | BlockDev | Fifo | Socket | Unknown

definition inode_file_type :: "inode \<Rightarrow> file_type" where
  "inode_file_type i =
    (let t = drop_bit 12 (i_mode i)
     in if t = 0x1 then Fifo
        else if t = 0x2 then CharDev
        else if t = 0x4 then Dir
        else if t = 0x6 then BlockDev
        else if t = 0x8 then Regular
        else if t = 0xA then Symlink
        else if t = 0xC then Socket
        else Unknown)"

definition inode_uses_extents :: "inode \<Rightarrow> bool" where
  "inode_uses_extents i \<longleftrightarrow> i_flags i AND iflags_EXTENTS \<noteq> 0"

definition fast_symlink_target :: "inode \<Rightarrow> bytes option" where
  "fast_symlink_target i =
    (if inode_file_type i = Symlink \<and> \<not> inode_uses_extents i \<and> i_size i \<le> 60
     then Some (take (unat (i_size i)) (i_block i)) else None)"

definition dev_numbers :: "inode \<Rightarrow> (u32 \<times> u32) option" where
  "dev_numbers i =
    (if inode_file_type i = CharDev \<or> inode_file_type i = BlockDev then
       (let w0 = le32 (i_block i) 0; w1 = le32 (i_block i) 4
        in Some (if w0 \<noteq> 0 then (drop_bit 8 w0 AND 0xFF, w0 AND 0xFF)
                 else (drop_bit 8 w1 AND 0xFFF, (w1 AND 0xFF) OR (drop_bit 12 w1 AND NOT 0xFF))))
     else None)"

definition extent_root :: "inode \<Rightarrow> bytes option" where
  "extent_root i =
    (if inode_uses_extents i \<and> le16 (i_block i) 0 = EXTENT_MAGIC then Some (i_block i) else None)"

section \<open>Timestamps\<close>

type_synonym i64 = int

definition timestamp :: "u32 \<Rightarrow> u32 \<Rightarrow> i64 \<times> u32" where
  "timestamp secs extra = (sint secs + int (unat (extra AND 3)) * 2 ^ 32, drop_bit 2 extra)"

text \<open>
  The epoch bits count 32-bit offsets from the sign-extended low word. The addition is the only
  step that can overflow \<^verbatim>\<open>i64\<close>.
\<close>

definition encode_timestamp :: "i64 \<Rightarrow> u32 \<Rightarrow> (u32 \<times> u32) res" where
  "encode_timestamp secs nsec =
    (if secs + 2 ^ 31 \<ge> 2 ^ 63 then Inl Panic
     else
       (let epoch_bits = of_int (((secs + 2 ^ 31) div 2 ^ 32) mod 4) :: u32
        in Inr (of_int secs, push_bit 2 nsec OR epoch_bits)))"

section \<open>Timestamps survive the round trip\<close>

lemma or_epoch_bits:
  assumes "unat (e :: u32) < 4"
  shows "(push_bit 2 n OR e) AND 3 = e"
    and "unat n < 2 ^ 30 \<Longrightarrow> drop_bit 2 (push_bit 2 n OR e) = n"
proof -
  have e: "bit e i \<Longrightarrow> i < 2" for i using assms u32_high_bits_zero [of e 2 i] by simp
  have "(push_bit 2 n OR e) AND mask 2 = e"
    by (rule bit_word_eqI) (use e in \<open>auto simp: bit_simps not_less\<close>)
  moreover have "(3 :: u32) = mask 2" by (simp add: mask_eq_exp_minus_1)
  ultimately show "(push_bit 2 n OR e) AND 3 = e" by (simp only:)
  assume "unat n < 2 ^ 30"
  then have n: "bit n i \<Longrightarrow> i < 30" for i by (rule u32_high_bits_zero)
  show "drop_bit 2 (push_bit 2 n OR e) = n"
  proof (rule bit_word_eqI)
    fix i
    show "bit (drop_bit 2 (push_bit 2 n OR e)) i = bit n i" if "i < LENGTH(32)"
      using that n [of i] e [of "i + 2"] by (auto simp: bit_simps)
  qed
qed

lemma sint_of_int_u32: "sint (of_int k :: u32) = (k + 2 ^ 31) mod 2 ^ 32 - 2 ^ 31"
  by (simp add: signed_of_int signed_take_bit_eq_take_bit_shift take_bit_eq_mod)

lemma timestamp_encode:
  assumes "- (2 ^ 31) \<le> secs" and "secs < 3 * 2 ^ 32 + 2 ^ 31" and "unat nsec < 2 ^ 30"
  shows "\<exists>s e. encode_timestamp secs nsec = Inr (s, e) \<and> timestamp s e = (secs, nsec)"
proof -
  define q where "q = (secs + 2 ^ 31) div 2 ^ 32"
  have q: "0 \<le> q" "q < 4" using assms by (auto simp: q_def)
  then have "q = 0 \<or> q = 1 \<or> q = 2 \<or> q = 3" by auto
  then have u: "unat (of_int q :: u32) = nat q" by auto
  have enc: "encode_timestamp secs nsec = Inr (of_int secs, push_bit 2 nsec OR of_int q)"
    using assms q by (simp add: encode_timestamp_def q_def)
  have "sint (of_int secs :: u32) + q * 2 ^ 32 = secs"
    unfolding sint_of_int_u32 q_def using div_mult_mod_eq [of "secs + 2 ^ 31" "2 ^ 32"] by linarith
  then have "timestamp (of_int secs) (push_bit 2 nsec OR of_int q) = (secs, nsec)"
    using u q assms(3) or_epoch_bits [of "of_int q" nsec] by (simp add: timestamp_def)
  with enc show ?thesis by blast
qed

section \<open>The inode round trip\<close>

lemma poke_if_True [simp]: "poke_if True b off v = poke b off v"
  by (simp add: poke_if_def)

lemma poke_if_False [simp]: "poke_if False b off v = b"
  by (simp add: poke_if_def)

lemma length_poke_if [simp]: "length (poke_if c b off v) = length b"
  by (simp add: poke_if_def)

lemma length_inode_bytes [simp]: "length (inode_bytes i) = 256"
  by (simp add: inode_bytes_def Let_def)

text \<open>
  A slot whose extra area has all its fields (the writer's is exactly 32 bytes), whose raw xattr
  area is absent or fills the rest of the slot with some nonzero byte, and whose 48-bit fields
  fit.
\<close>

definition inode_wf :: "inode \<Rightarrow> bool" where
  "inode_wf i \<longleftrightarrow>
     length (i_block i) = 60 \<and> unat (i_blocks i) < 2 ^ 48 \<and> unat (i_file_acl i) < 2 ^ 48 \<and>
     32 \<le> unat (i_extra_isize i) \<and> unat (i_extra_isize i) \<le> 128 \<and>
     (i_ibody i = [] \<or>
       length (i_ibody i) = 128 - unat (i_extra_isize i) \<and> (\<exists>x\<in>set (i_ibody i). x \<noteq> 0))"

definition inode_fixed_bytes :: "inode \<Rightarrow> bytes" where
  "inode_fixed_bytes i = inode_bytes (i\<lparr>i_ibody := []\<rparr>)"

lemma inode_low_fixed:
  assumes "inode_wf i"
  shows "inode_low (inode_fixed_bytes i) =
    i\<lparr>i_version := ucast (ucast (i_version i) :: u32), i_extra_isize := 0,
      i_checksum := ucast (ucast (i_checksum i) :: u16), i_ctime_extra := 0, i_mtime_extra := 0,
      i_atime_extra := 0, i_crtime := 0, i_crtime_extra := 0, i_projid := 0, i_ibody := []\<rparr>"
  using assms unfolding inode_wf_def inode_low_def inode_fixed_bytes_def inode_bytes_def Let_def
  by (intro inode.equality) (simp_all add: buf_simps half_simps)

lemma inode_extra_fixed:
  assumes "inode_wf i"
  defines "b \<equiv> inode_fixed_bytes i"
  shows "le16 b 0x80 = i_extra_isize i"
    and "le16 b 0x82 = ucast (drop_bit 16 (i_checksum i))"
    and "le32 b 0x84 = i_ctime_extra i" "le32 b 0x88 = i_mtime_extra i"
    and "le32 b 0x8C = i_atime_extra i" "le32 b 0x90 = i_crtime i"
    and "le32 b 0x94 = i_crtime_extra i" "le32 b 0x98 = ucast (drop_bit 32 (i_version i))"
    and "le32 b 0x9C = i_projid i"
    and "drop (128 + unat (i_extra_isize i)) b = zeros_buf (128 - unat (i_extra_isize i))"
  using assms(1) unfolding b_def inode_wf_def inode_fixed_bytes_def inode_bytes_def Let_def
  by (simp_all add: buf_simps)

lemma inode_bytes_fixed:
  "inode_wf i \<Longrightarrow> inode_bytes i =
     poke_if (i_ibody i \<noteq> []) (inode_fixed_bytes i) (0x80 + unat (i_extra_isize i)) (i_ibody i)"
  by (simp add: inode_bytes_def inode_fixed_bytes_def Let_def poke_if_def)

lemma inode_low_cong:
  "take 128 a = take 128 b \<Longrightarrow> inode_low a = inode_low b"
proof -
  assume t: "take 128 a = take 128 b"
  have p: "peek a off n = peek b off n" if "off + n \<le> 128" for off n
    using that t by (metis peek_def drop_take min.absorb1 le_diff_conv2 take_take add.commute add_leD1)
  show ?thesis by (simp add: inode_low_def le16_def le32_def p)
qed

lemma inode_decode_bytes:
  assumes wf: "inode_wf i"
  shows "inode_decode (inode_bytes i) = Inr i"
proof -
  define e where "e = unat (i_extra_isize i)"
  define b where "b = inode_bytes i"
  note fx = inode_bytes_fixed [OF wf, folded e_def b_def]
  have e: "32 \<le> e" "e \<le> 128" using wf by (auto simp: inode_wf_def e_def)
  have len: "length b = 256" "length (inode_fixed_bytes i) = 256"
    by (simp_all add: b_def inode_fixed_bytes_def)
  have low: "inode_low b = inode_low (inode_fixed_bytes i)"
    using e len by (intro inode_low_cong) (simp add: fx poke_if_def poke_def min_def)
  have rd: "le16 b o2 = le16 (inode_fixed_bytes i) o2" if "o2 + 2 \<le> 128 + e" for o2
    using that by (simp add: fx poke_if_def buf_simps)
  have rd4: "le32 b o4 = le32 (inode_fixed_bytes i) o4" if "o4 + 4 \<le> 128 + e" for o4
    using that by (simp add: fx poke_if_def buf_simps)
  have area: "drop (128 + e) b = (if i_ibody i = [] then zeros_buf (128 - e) else i_ibody i)"
    using wf e len inode_extra_fixed(10) [OF wf]
    by (auto simp: fx poke_if_def inode_wf_def buf_simps e_def)
  have z: "x = 0" if "x \<in> set (zeros_buf n)" for x n using that by (simp add: zeros_buf_def)
  have ib: "((\<exists>x\<in>set (drop (128 + e) b). x \<noteq> 0) \<longrightarrow> drop (128 + e) b = i_ibody i) \<and>
      ((\<forall>x\<in>set (drop (128 + e) b). x = 0) \<longrightarrow> [] = i_ibody i)"
    using wf z by (auto simp: area inode_wf_def)
  have "inode_extra b (inode_low b) = i"
    unfolding low inode_low_fixed [OF wf] inode_extra_def Let_def
    using e len ib inode_extra_fixed [OF wf]
    by (intro inode.equality) (simp_all add: rd rd4 half_simps flip: e_def)
  then show ?thesis using len by (simp add: inode_decode_def b_def)
qed

interpretation inode_codec: record_codec inode_bytes inode_decode inode_wf 256
  by unfold_locales (simp_all add: inode_decode_bytes)

end
