(* ===== verification/Csum.thy ===== *)
theory Csum
  imports Le Consts
begin

text \<open>
  The checksum conventions (src/src/csum.rs). The CRC-32C of the \<^verbatim>\<open>crc32c\<close> crate is
  not part of the repository: \<open>crc\<close> stands for \<^verbatim>\<open>crc32c::crc32c_append\<close> in every
  definition. What is used of it, in the equivalences with the checksum of a copied buffer only,
  is that appending a concatenation appends its parts in turn. Each checksum is given first as a
  value over the covered regions (\<open>..._sum\<close>) and then as the function of the code, which
  panics when a region leaves the buffer.
\<close>

type_synonym crc = "u32 \<Rightarrow> bytes \<Rightarrow> u32"

definition crc32c_raw :: "crc \<Rightarrow> u32 \<Rightarrow> bytes \<Rightarrow> u32" where
  "crc32c_raw crc seed data = NOT (crc (NOT seed) data)"

definition fs_seed :: "crc \<Rightarrow> bytes \<Rightarrow> u32" where
  "fs_seed crc uuid = crc32c_raw crc (NOT 0) uuid"

definition inode_seed :: "crc \<Rightarrow> u32 \<Rightarrow> u32 \<Rightarrow> u32 \<Rightarrow> u32" where
  "inode_seed crc fseed ino generation =
    (let c = crc32c_raw crc fseed (to_le32 ino)
     in crc32c_raw crc c (to_le32 generation))"

section \<open>Checksums over fixed regions\<close>

definition superblock_sum :: "crc \<Rightarrow> bytes \<Rightarrow> u32" where
  "superblock_sum crc sb = crc32c_raw crc (NOT 0) (take 0x3FC sb)"

definition csum_superblock :: "crc \<Rightarrow> bytes \<Rightarrow> u32 res" where
  "csum_superblock crc sb =
    (if 0x3FC \<le> length sb then Inr (superblock_sum crc sb) else Inl Panic)"

definition group_desc_sum :: "crc \<Rightarrow> u32 \<Rightarrow> u32 \<Rightarrow> bytes \<Rightarrow> u16" where
  "group_desc_sum crc fseed g desc =
    (let c = crc32c_raw crc fseed (to_le32 g);
         c = crc32c_raw crc c (take 0x1E desc);
         c = crc32c_raw crc c (zeros_buf 2)
     in ucast c)"

definition csum_group_desc :: "crc \<Rightarrow> u32 \<Rightarrow> u32 \<Rightarrow> bytes \<Rightarrow> u16 res" where
  "csum_group_desc crc fseed g desc =
    (if 0x1E \<le> length desc then Inr (group_desc_sum crc fseed g desc) else Inl Panic)"

definition csum_block_bitmap :: "crc \<Rightarrow> u32 \<Rightarrow> bytes \<Rightarrow> u16" where
  "csum_block_bitmap crc fseed bitmap_block = ucast (crc32c_raw crc fseed bitmap_block)"

definition inode_bitmap_sum :: "crc \<Rightarrow> u32 \<Rightarrow> bytes \<Rightarrow> u32 \<Rightarrow> u16" where
  "inode_bitmap_sum crc fseed bitmap_block inodes_per_group =
    ucast (crc32c_raw crc fseed (take ((unat inodes_per_group + 7) div 8) bitmap_block))"

definition csum_inode_bitmap :: "crc \<Rightarrow> u32 \<Rightarrow> bytes \<Rightarrow> u32 \<Rightarrow> u16 res" where
  "csum_inode_bitmap crc fseed bitmap_block inodes_per_group =
    (if (unat inodes_per_group + 7) div 8 \<le> length bitmap_block
     then Inr (inode_bitmap_sum crc fseed bitmap_block inodes_per_group) else Inl Panic)"

text \<open>
  The inode checksum: its low field always reads as zero, its high field too when the extra area
  holds it. A 128-byte slot has no extra area.
\<close>

definition inode_has_hi :: "bytes \<Rightarrow> bool" where
  "inode_has_hi inode \<longleftrightarrow>
     (let extra_isize = (if 0x82 \<le> length inode then le16 inode 0x80 else 0)
      in 4 \<le> extra_isize \<and> 0x84 \<le> length inode)"

definition inode_sum :: "crc \<Rightarrow> u32 \<Rightarrow> u32 \<Rightarrow> u32 \<Rightarrow> bytes \<Rightarrow> u32" where
  "inode_sum crc fseed ino generation inode =
    (let c = inode_seed crc fseed ino generation;
         c = crc32c_raw crc c (take 0x7C inode);
         c = crc32c_raw crc c (zeros_buf 2);
         c = crc32c_raw crc c (drop 0x7E (take (min (length inode) 0x82) inode))
     in if inode_has_hi inode
        then crc32c_raw crc (crc32c_raw crc c (zeros_buf 2)) (drop 0x84 inode)
        else if 0x82 < length inode then crc32c_raw crc c (drop 0x82 inode)
        else c)"

definition csum_inode :: "crc \<Rightarrow> u32 \<Rightarrow> u32 \<Rightarrow> u32 \<Rightarrow> bytes \<Rightarrow> u32 res" where
  "csum_inode crc fseed ino generation inode =
    (if 0x7E \<le> length inode then Inr (inode_sum crc fseed ino generation inode) else Inl Panic)"

definition dirent_block_sum :: "crc \<Rightarrow> u32 \<Rightarrow> bytes \<Rightarrow> u32" where
  "dirent_block_sum crc iseed block = crc32c_raw crc iseed (take (length block - 12) block)"

definition csum_dirent_block :: "crc \<Rightarrow> u32 \<Rightarrow> bytes \<Rightarrow> u32 res" where
  "csum_dirent_block crc iseed block =
    (if 12 \<le> length block then Inr (dirent_block_sum crc iseed block) else Inl Panic)"

definition extent_block_sum :: "crc \<Rightarrow> u32 \<Rightarrow> bytes \<Rightarrow> u32" where
  "extent_block_sum crc iseed block = crc32c_raw crc iseed (take (length block - 4) block)"

definition csum_extent_block :: "crc \<Rightarrow> u32 \<Rightarrow> bytes \<Rightarrow> u32 res" where
  "csum_extent_block crc iseed block =
    (if 4 \<le> length block then Inr (extent_block_sum crc iseed block) else Inl Panic)"

definition dx_block_sum :: "crc \<Rightarrow> u32 \<Rightarrow> bytes \<Rightarrow> nat \<Rightarrow> u16 \<Rightarrow> u16 \<Rightarrow> u32" where
  "dx_block_sum crc iseed block count_offset count limit =
    (let tail = count_offset + unat limit * 8;
         c = crc32c_raw crc iseed (take (count_offset + unat count * 8) block);
         c = crc32c_raw crc c (peek block tail 4)
     in crc32c_raw crc c (zeros_buf 4))"

definition csum_dx_block :: "crc \<Rightarrow> u32 \<Rightarrow> bytes \<Rightarrow> nat \<Rightarrow> u16 \<Rightarrow> u16 \<Rightarrow> u32 res" where
  "csum_dx_block crc iseed block count_offset count limit =
    (if count_offset + unat count * 8 \<le> length block \<and> count_offset + unat limit * 8 + 4 \<le> length block
     then Inr (dx_block_sum crc iseed block count_offset count limit) else Inl Panic)"

definition xattr_block_sum :: "crc \<Rightarrow> u32 \<Rightarrow> u64 \<Rightarrow> bytes \<Rightarrow> u32" where
  "xattr_block_sum crc fseed block_nr block =
    (let c = crc32c_raw crc fseed (to_le64 block_nr);
         c = crc32c_raw crc c (take 0x10 block);
         c = crc32c_raw crc c (zeros_buf 4)
     in crc32c_raw crc c (drop 0x14 block))"

definition csum_xattr_block :: "crc \<Rightarrow> u32 \<Rightarrow> u64 \<Rightarrow> bytes \<Rightarrow> u32 res" where
  "csum_xattr_block crc fseed block_nr block =
    (if 0x14 \<le> length block then Inr (xattr_block_sum crc fseed block_nr block) else Inl Panic)"

section \<open>The legacy xattr hashes\<close>

definition xattr_name_hash :: "bytes \<Rightarrow> u32" where
  "xattr_name_hash name =
    foldl (\<lambda>h b. (push_bit 5 h XOR drop_bit 27 h) XOR ucast b) 0 name"

text \<open>The value, four bytes at a time; a short tail is padded with zeros.\<close>

fun xattr_value_hash :: "u32 \<Rightarrow> bytes \<Rightarrow> u32" where
  "xattr_value_hash h (a # b # c # d # rest) =
     xattr_value_hash ((push_bit 16 h XOR drop_bit 16 h) XOR le32 [a, b, c, d] 0) rest"
| "xattr_value_hash h [] = h"
| "xattr_value_hash h rem =
     (push_bit 16 h XOR drop_bit 16 h) XOR le32 (rem @ zeros_buf (4 - length rem)) 0"

definition xattr_entry_hash :: "bytes \<Rightarrow> bytes \<Rightarrow> u32" where
  "xattr_entry_hash name value = xattr_value_hash (xattr_name_hash name) value"

fun xattr_block_hash_from :: "u32 \<Rightarrow> u32 list \<Rightarrow> u32" where
  "xattr_block_hash_from h [] = h"
| "xattr_block_hash_from h (eh # rest) =
     (if eh = 0 then 0 else xattr_block_hash_from ((push_bit 16 h XOR drop_bit 16 h) XOR eh) rest)"

definition xattr_block_hash :: "u32 list \<Rightarrow> u32" where
  "xattr_block_hash entry_hashes = xattr_block_hash_from 0 entry_hashes"

section \<open>A block that carries its own checksum\<close>

text \<open>
  What the writer relies on when it stores a checksum into the block it was computed over, and
  what the reader relies on when it recomputes it: the stored field is not covered.
\<close>

locale checksummed =
  fixes sum :: "bytes \<Rightarrow> 'w::len word"
    and stamp :: "bytes \<Rightarrow> 'w word \<Rightarrow> bytes"
    and stored :: "bytes \<Rightarrow> 'w word"
    and fits :: "bytes \<Rightarrow> bool"
  assumes sum_stamp: "fits b \<Longrightarrow> sum (stamp b c) = sum b"
    and stored_stamp: "fits b \<Longrightarrow> stored (stamp b c) = c"
    and stamp_stamp: "fits b \<Longrightarrow> stamp (stamp b c) d = stamp b d"
    and fits_stamp: "fits b \<Longrightarrow> fits (stamp b c)"
begin

lemma sealed_verifies: "fits b \<Longrightarrow> stored (stamp b (sum b)) = sum (stamp b (sum b))"
  by (simp add: sum_stamp stored_stamp)

lemma seal_idem: "fits b \<Longrightarrow> stamp (stamp b (sum b)) (sum (stamp b (sum b))) = stamp b (sum b)"
  by (simp add: sum_stamp stamp_stamp)

lemma wrong_stamp_detected: "fits b \<Longrightarrow> c \<noteq> sum b \<Longrightarrow> stored (stamp b c) \<noteq> sum (stamp b c)"
  by (simp add: sum_stamp stored_stamp)

end

interpretation superblock_csum: checksummed
  "superblock_sum crc" "\<lambda>b c. put_u32 b 0x3FC c" "\<lambda>b. le32 b 0x3FC" "\<lambda>b. length b = 1024" for crc
  by unfold_locales (simp_all add: superblock_sum_def buf_simps poke_poke_same)

interpretation dirent_csum: checksummed
  "dirent_block_sum crc seed" "\<lambda>b c. put_u32 b (length b - 4) c" "\<lambda>b. le32 b (length b - 4)"
  "\<lambda>b. 12 \<le> length b" for crc seed
  by unfold_locales (simp_all add: dirent_block_sum_def buf_simps poke_poke_same)

interpretation extent_csum: checksummed
  "extent_block_sum crc seed" "\<lambda>b c. put_u32 b (length b - 4) c" "\<lambda>b. le32 b (length b - 4)"
  "\<lambda>b. 4 \<le> length b" for crc seed
  by unfold_locales (simp_all add: extent_block_sum_def buf_simps poke_poke_same)

interpretation group_desc_csum: checksummed
  "group_desc_sum crc seed g" "\<lambda>b c. put_u16 b 0x1E c" "\<lambda>b. le16 b 0x1E" "\<lambda>b. 32 \<le> length b"
  for crc seed g
  by unfold_locales (simp_all add: group_desc_sum_def buf_simps poke_poke_same)

interpretation xattr_csum: checksummed
  "xattr_block_sum crc seed nr" "\<lambda>b c. put_u32 b 0x10 c" "\<lambda>b. le32 b 0x10" "\<lambda>b. 0x14 \<le> length b"
  for crc seed nr
  by unfold_locales (simp_all add: xattr_block_sum_def buf_simps poke_poke_same)

interpretation dx_csum: checksummed
  "\<lambda>b. dx_block_sum crc seed b off count limit"
  "\<lambda>b c. put_u32 b (off + unat limit * 8 + 4) c" "\<lambda>b. le32 b (off + unat limit * 8 + 4)"
  "\<lambda>b. count \<le> limit \<and> off + unat limit * 8 + 8 \<le> length b"
  for crc seed off count limit
  by unfold_locales
    (simp_all add: dx_block_sum_def buf_simps poke_poke_same word_le_nat_alt)

text \<open>The inode's checksum is split into two halves; both are stored when there is room.\<close>

definition inode_stamp :: "bytes \<Rightarrow> u32 \<Rightarrow> bytes" where
  "inode_stamp b c = put_u16 (put_u16 b 0x7C (ucast c)) 0x82 (ucast (drop_bit 16 c))"

definition inode_stored :: "bytes \<Rightarrow> u32" where
  "inode_stored b = ucast (le16 b 0x7C) OR push_bit 16 (ucast (le16 b 0x82))"

interpretation inode_csum: checksummed
  "inode_sum crc seed ino gen" inode_stamp inode_stored
  "\<lambda>b. 0x84 \<le> length b \<and> 4 \<le> le16 b 0x80" for crc seed ino gen
  by unfold_locales
    (simp_all add: inode_sum_def inode_has_hi_def inode_stamp_def inode_stored_def buf_simps half_simps
      poke_poke_same poke_swap [of 130 _ 124])

section \<open>Piecewise folding is the checksum of a patched copy\<close>

text \<open>
  The reference: the crc of one contiguous buffer with the stored field zeroed. The law is that
  of a running checksum.
\<close>

locale crc_stream =
  fixes crc :: crc
  assumes crc_append: "crc s (a @ b) = crc (crc s a) b"
begin

lemma raw_append: "crc32c_raw crc s (a @ b) = crc32c_raw crc (crc32c_raw crc s a) b"
  by (simp add: crc32c_raw_def crc_append)

lemma xattr_block_sum_ref:
  assumes "0x14 \<le> length b"
  shows "xattr_block_sum crc seed nr b =
    crc32c_raw crc seed (to_le64 nr @ poke b 0x10 (zeros_buf 4))"
proof -
  have "poke b 0x10 (zeros_buf 4) = take 0x10 b @ zeros_buf 4 @ drop 0x14 b"
    using assms by (simp add: poke_def)
  then show ?thesis by (simp add: xattr_block_sum_def raw_append Let_def)
qed

lemma group_desc_sum_ref:
  assumes "length d = 32"
  shows "group_desc_sum crc seed g d =
    ucast (crc32c_raw crc seed (to_le32 g @ poke d 0x1E (zeros_buf 2)))"
proof -
  have "poke d 0x1E (zeros_buf 2) = take 0x1E d @ zeros_buf 2"
    using assms by (simp add: poke_def)
  then show ?thesis by (simp add: group_desc_sum_def raw_append Let_def)
qed

lemma inode_sum_ref:
  assumes "0x84 \<le> length b" and "4 \<le> le16 b 0x80"
  shows "inode_sum crc seed ino gen b =
    crc32c_raw crc seed (to_le32 ino @ to_le32 gen @
      poke (poke b 0x7C (zeros_buf 2)) 0x82 (zeros_buf 2))"
proof -
  have "poke (poke b 0x7C (zeros_buf 2)) 0x82 (zeros_buf 2) =
    take 0x7C b @ zeros_buf 2 @ drop 0x7E (take 0x82 b) @ zeros_buf 2 @ drop 0x84 b"
    using assms(1) by (simp add: poke_def drop_take min_def)
  then show ?thesis using assms
    by (simp add: inode_sum_def inode_has_hi_def inode_seed_def raw_append Let_def)
qed

end

section \<open>CRC-32C itself\<close>

text \<open>
  The bitwise form of the checksum the crate is documented to compute (Castagnoli polynomial,
  reflected, inverted on entry and exit): the instance the witnesses evaluate.
\<close>

definition crc32c_bit :: "u32 \<Rightarrow> u32" where
  "crc32c_bit c = (if c AND 1 = 1 then drop_bit 1 c XOR 0x82F63B78 else drop_bit 1 c)"

definition crc32c_byte :: "u32 \<Rightarrow> u8 \<Rightarrow> u32" where
  "crc32c_byte c b = (crc32c_bit ^^ 8) (c XOR ucast b)"

definition crc32c_append :: crc where
  "crc32c_append s data = NOT (foldl crc32c_byte (NOT s) data)"

interpretation crc32c: crc_stream crc32c_append
  by unfold_locales (simp add: crc32c_append_def)

end
