(* ===== verification/Dirent.thy ===== *)
theory Dirent
  imports Le Consts
begin

text \<open>
  Linear directory blocks (src/src/spec/dirent.rs): the iterator over the used records of a
  block, the checksum tail and the record length of a name.
\<close>

record dir_entry_ref =
  de_inode :: u32
  de_file_type :: u8
  de_name :: bytes
  de_offset :: nat
  de_rec_len :: u16

record dirent_iter =
  di_block :: bytes
  di_offset :: nat
  di_failed :: bool

definition dirent_iter_new :: "bytes \<Rightarrow> dirent_iter" where
  "dirent_iter_new block = \<lparr>di_block = block, di_offset = 0, di_failed = False\<rparr>"

text \<open>The check on a record length: too short, unaligned, or past the end of the block.\<close>

definition bad_rec_len :: "bytes \<Rightarrow> nat \<Rightarrow> u16 \<Rightarrow> bool" where
  "bad_rec_len b off rec_len \<longleftrightarrow>
     unat rec_len < 8 \<or> unat rec_len mod 4 \<noteq> 0 \<or> off + unat rec_len > length b"

text \<open>
  \<^verbatim>\<open>next\<close>: the loop passes over unused records (inode 0), the checksum tail among
  them. The result is what the iterator yields and its state afterwards.
\<close>

function dirent_next :: "dirent_iter \<Rightarrow> dir_entry_ref res option \<times> dirent_iter" where
  "dirent_next it =
    (if \<not> di_failed it \<and> di_offset it < length (di_block it) then
       (let b = di_block it; off = di_offset it
        in if length b - off < 8
           then (Some (Inl (Err (corrupt ''dirent'' ''trailing bytes shorter than header''))),
                 it\<lparr>di_failed := True\<rparr>)
           else
             (let inode = le32 b off; rec_len = le16 b (off + 4);
                  name_len = unat (b ! (off + 6)); file_type = b ! (off + 7)
              in if bad_rec_len b off rec_len
                 then (Some (Inl (Err (corrupt ''dirent'' ''bad rec_len''))), it\<lparr>di_failed := True\<rparr>)
                 else if inode = 0 then dirent_next (it\<lparr>di_offset := off + unat rec_len\<rparr>)
                 else if 8 + name_len > unat rec_len
                 then (Some (Inl (Err (corrupt ''dirent'' ''name_len overflows rec_len''))),
                       it\<lparr>di_offset := off + unat rec_len, di_failed := True\<rparr>)
                 else (Some (Inr \<lparr>de_inode = inode, de_file_type = file_type,
                                  de_name = peek b (off + 8) name_len, de_offset = off,
                                  de_rec_len = rec_len\<rparr>),
                       it\<lparr>di_offset := off + unat rec_len\<rparr>)))
     else (None, it))"
  by pat_completeness auto
termination
  by (relation "measure (\<lambda>it. length (di_block it) - di_offset it)") (auto simp: bad_rec_len_def)

declare dirent_next.simps [simp del]

definition iter_measure :: "dirent_iter \<Rightarrow> nat" where
  "iter_measure it = (if di_failed it then 0 else Suc (length (di_block it) - di_offset it))"

lemma dirent_next_decreases:
  "dirent_next it = (Some r, it') \<Longrightarrow> iter_measure it' < iter_measure it"
proof (induction it rule: dirent_next.induct)
  case (1 it)
  define b where "b = di_block it"
  define off where "off = di_offset it"
  define rl where "rl = le16 b (off + 4)"
  note step = dirent_next.simps [of it, folded b_def off_def]
  show ?case
  proof (cases "\<not> di_failed it \<and> off < length b \<and> \<not> length b - off < 8 \<and>
      \<not> bad_rec_len b off rl \<and> le32 b off = 0")
    case True
    then have "dirent_next it = dirent_next (it\<lparr>di_offset := off + unat rl\<rparr>)"
      by (simp add: step Let_def flip: rl_def)
    then have "iter_measure it' < iter_measure (it\<lparr>di_offset := off + unat rl\<rparr>)"
      using 1 True by (simp add: Let_def flip: rl_def b_def off_def)
    also have "\<dots> \<le> iter_measure it"
      using True by (auto simp: iter_measure_def b_def off_def)
    finally show ?thesis .
  next
    case False
    with 1(2) show ?thesis
      by (auto simp: step Let_def iter_measure_def bad_rec_len_def simp flip: rl_def b_def off_def
          split: if_splits)
  qed
qed

text \<open>Everything a \<^verbatim>\<open>for\<close> loop over the iterator sees.\<close>

function dirent_items :: "dirent_iter \<Rightarrow> dir_entry_ref res list" where
  "dirent_items it =
    (case dirent_next it of (None, _) \<Rightarrow> [] | (Some r, it') \<Rightarrow> r # dirent_items it')"
  by pat_completeness auto
termination
  by (relation "measure iter_measure") (auto intro: dirent_next_decreases [OF sym])

declare dirent_items.simps [simp del]

text \<open>\<^verbatim>\<open>collect::<Result<Vec<_>>>()\<close>.\<close>

definition dirent_collect :: "bytes \<Rightarrow> dir_entry_ref list res" where
  "dirent_collect block = mapE id (dirent_items (dirent_iter_new block))"

definition tail_checksum :: "bytes \<Rightarrow> u32 option" where
  "tail_checksum block =
    (if length block < 12 then None
     else
       (let t = length block - 12
        in if le32 block t = 0 \<and> le16 block (t + 4) = 12 \<and> block ! (t + 6) = 0 \<and> block ! (t + 7) = 0xDE
           then Some (le32 block (t + 8)) else None))"

text \<open>\<^verbatim>\<open>(8 + name_len + 3) & !3\<close>.\<close>

definition rec_len_for :: "nat \<Rightarrow> nat" where
  "rec_len_for name_len = (8 + name_len + 3) div 4 * 4"

lemma rec_len_for_bounds: "8 + n \<le> rec_len_for n" "rec_len_for n \<le> 11 + n" "rec_len_for n mod 4 = 0"
  by (auto simp: rec_len_for_def)

lemma rec_len_for_u8: "rec_len_for (unat (n :: u8)) \<le> 264"
proof -
  have "rec_len_for (unat n) div 4 * 4 = rec_len_for (unat n)" by (simp add: rec_len_for_def)
  moreover have "rec_len_for (unat n) \<le> 11 + 255" using rec_len_for_bounds(2) [of "unat n"] unat_u8_less [of n]
    by linarith
  ultimately show ?thesis by presburger
qed

section \<open>Iterating from an offset\<close>

text \<open>One step of the iteration on a well-formed record, used and unused.\<close>

definition iter_at :: "bytes \<Rightarrow> nat \<Rightarrow> dirent_iter" where
  "iter_at b off = \<lparr>di_block = b, di_offset = off, di_failed = False\<rparr>"

lemma dirent_items_end: "length b \<le> off \<Longrightarrow> dirent_items (iter_at b off) = []"
  by (simp add: dirent_items.simps dirent_next.simps iter_at_def)

lemma dirent_items_used:
  assumes "off + 8 \<le> length b" and "\<not> bad_rec_len b off (le16 b (off + 4))"
    and "le32 b off \<noteq> 0" and "8 + unat (b ! (off + 6)) \<le> unat (le16 b (off + 4))"
  shows "dirent_items (iter_at b off) =
    Inr \<lparr>de_inode = le32 b off, de_file_type = b ! (off + 7),
         de_name = peek b (off + 8) (unat (b ! (off + 6))), de_offset = off,
         de_rec_len = le16 b (off + 4)\<rparr> # dirent_items (iter_at b (off + unat (le16 b (off + 4))))"
  using assms
  by (subst dirent_items.simps) (simp add: dirent_next.simps [of "iter_at b off"], simp add: iter_at_def Let_def)

lemma dirent_items_unused:
  assumes "off + 8 \<le> length b" and "\<not> bad_rec_len b off (le16 b (off + 4))" and "le32 b off = 0"
  shows "dirent_items (iter_at b off) = dirent_items (iter_at b (off + unat (le16 b (off + 4))))"
proof -
  have "dirent_next (iter_at b off) = dirent_next (iter_at b (off + unat (le16 b (off + 4))))"
    using assms by (subst dirent_next.simps) (auto simp: iter_at_def Let_def)
  then show ?thesis by (simp add: dirent_items.simps [of "iter_at b off"]
        dirent_items.simps [of "iter_at b (off + unat (le16 b (off + 4)))"])
qed

lemma dirent_collect_items: "dirent_collect b = mapE id (dirent_items (iter_at b 0))"
  by (simp add: dirent_collect_def dirent_iter_new_def iter_at_def)

end
