(* ===== verification/HtreeSpec.thy ===== *)
theory HtreeSpec
  imports Le Consts
begin

text \<open>
  The parsers of hash-tree index blocks (src/src/spec/htree.rs): the root of a hash-indexed
  directory and its interior nodes.
\<close>

record dx_info =
  dxi_hash_version :: u8
  dxi_info_length :: u8
  dxi_indirect_levels :: u8
  dxi_unused_flags :: u8

record dx_entry =
  dx_hash :: u32
  dx_block :: u32

record dx_root_view =
  dxr_info :: dx_info
  dxr_limit :: u16
  dxr_count :: u16
  dxr_entries :: "dx_entry list"
  dxr_checksum :: u32

record dx_node_view =
  dxn_limit :: u16
  dxn_count :: u16
  dxn_entries :: "dx_entry list"
  dxn_checksum :: u32

definition ROOT_COUNT_OFFSET :: nat where [simp]: "ROOT_COUNT_OFFSET = 0x20"
definition NODE_COUNT_OFFSET :: nat where [simp]: "NODE_COUNT_OFFSET = 0x8"

definition root_limit :: "nat \<Rightarrow> u16" where
  "root_limit block_size = of_nat ((block_size - 0x20) div 8 - 1)"

definition node_limit :: "nat \<Rightarrow> u16" where
  "node_limit block_size = of_nat ((block_size - 0x8) div 8 - 1)"

lemma limits_4096 [simp]: "root_limit 4096 = 507" "node_limit 4096 = 510"
  by (simp_all add: root_limit_def node_limit_def)

text \<open>
  Slot 0 aliases \<^verbatim>\<open>{limit, count, block}\<close>, so its hash is 0 by construction. The
  caller has checked that the countlimit itself is inside the block.
\<close>

definition dx_parse_entries ::
    "bytes \<Rightarrow> nat \<Rightarrow> string \<Rightarrow> (u16 \<times> u16 \<times> dx_entry list \<times> u32) res" where
  "dx_parse_entries b count_offset what =
    (let limit = le16 b count_offset; count = le16 b (count_offset + 2)
     in if count = 0 \<or> count > limit then Inl (Err (corrupt what ''count vs limit''))
        else if count_offset + unat limit * 8 + 8 > length b
        then Inl (Err (corrupt what ''limit overflows block''))
        else
          (let entries = \<lparr>dx_hash = 0, dx_block = le32 b (count_offset + 4)\<rparr> #
                 map (\<lambda>i. \<lparr>dx_hash = le32 b (count_offset + 8 * i),
                           dx_block = le32 b (count_offset + 8 * i + 4)\<rparr>) [1..<unat count];
               tail = count_offset + unat limit * 8
           in Inr (limit, count, entries, le32 b (tail + 4))))"

definition dx_root_parse :: "bytes \<Rightarrow> dx_root_view res" where
  "dx_root_parse block =
    (if length block < 0x30 then Inl (Err (corrupt ''dx_root'' ''short buffer''))
     else if le32 block 0 = 0 \<or> peek block 8 1 \<noteq> [0x2E]
     then Inl (Err (corrupt ''dx_root'' ''missing . entry''))
     else if le32 block 0x0C = 0 \<or> peek block 0x14 2 \<noteq> [0x2E, 0x2E]
     then Inl (Err (corrupt ''dx_root'' ''missing .. entry''))
     else if le32 block 0x18 \<noteq> 0 then Inl (Err (corrupt ''dx_root'' ''reserved_zero not zero''))
     else
       (let info = \<lparr>dxi_hash_version = block ! 0x1C, dxi_info_length = block ! 0x1D,
                    dxi_indirect_levels = block ! 0x1E, dxi_unused_flags = block ! 0x1F\<rparr>
        in if dxi_info_length info \<noteq> 8 then Inl (Err (corrupt ''dx_root'' ''info_length''))
           else if dxi_indirect_levels info > 1
           then Inl (Err (Unsupported ''htree with indirect_levels (largedir)''))
           else bindE (dx_parse_entries block ROOT_COUNT_OFFSET ''dx_root'')
             (\<lambda>(limit, count, entries, checksum).
               Inr \<lparr>dxr_info = info, dxr_limit = limit, dxr_count = count, dxr_entries = entries,
                    dxr_checksum = checksum\<rparr>)))"

definition dx_node_parse :: "bytes \<Rightarrow> dx_node_view res" where
  "dx_node_parse block =
    (if length block < 0x18 then Inl (Err (corrupt ''dx_node'' ''short buffer''))
     else if le32 block 0 \<noteq> 0 \<or> unat (le16 block 4) \<noteq> length block
     then Inl (Err (corrupt ''dx_node'' ''fake dirent header mismatch''))
     else bindE (dx_parse_entries block NODE_COUNT_OFFSET ''dx_node'')
       (\<lambda>(limit, count, entries, checksum).
         Inr \<lparr>dxn_limit = limit, dxn_count = count, dxn_entries = entries, dxn_checksum = checksum\<rparr>))"

text \<open>What a successful parse guarantees to the code that indexes with its result.\<close>

lemma dx_parse_entries_ok:
  assumes "dx_parse_entries b off what = Inr (limit, count, entries, checksum)"
  shows "0 < unat count" and "unat count \<le> unat limit" and "off + unat limit * 8 + 8 \<le> length b"
    and "length entries = unat count" and "dx_hash (hd entries) = 0"
  using assms
  by (auto simp: dx_parse_entries_def Let_def word_le_nat_alt not_less unat_gt_0 split: if_splits)

end
