(* ===== verification/Xattr.thy ===== *)
theory Xattr
  imports Le Consts
begin

text \<open>
  Extended attributes as the reader parses them (src/src/spec/xattr.rs): the in-inode area and
  the external block share the entry format, and differ in what value offsets count from.
\<close>

record xattr_entry =
  xa_name_index :: u8
  xa_name :: bytes
  xa_value :: bytes
  xa_hash :: u32

definition ascii :: "string \<Rightarrow> bytes" where
  "ascii s = map (of_char :: char \<Rightarrow> u8) s"

definition xattr_full_name :: "xattr_entry \<Rightarrow> bytes option" where
  "xattr_full_name e =
    (let idx = xa_name_index e;
         prefix = (if idx = 0 then Some (ascii [])
           else if idx = 1 then Some (ascii ''user.'')
           else if idx = 2 then Some (ascii ''system.posix_acl_access'')
           else if idx = 3 then Some (ascii ''system.posix_acl_default'')
           else if idx = 4 then Some (ascii ''trusted.'')
           else if idx = 6 then Some (ascii ''security.'')
           else if idx = 7 then Some (ascii ''system.'')
           else None)
     in map_option (\<lambda>p. p @ xa_name e) prefix)"

text \<open>Padding to four bytes: \<^verbatim>\<open>(4 - n % 4) % 4\<close>.\<close>

definition pad4 :: "nat \<Rightarrow> nat" where
  "pad4 n = (4 - n mod 4) mod 4"

text \<open>The walk over an entry list, from a byte offset and with the entries read so far.\<close>

function xattr_parse_from :: "bytes \<Rightarrow> bytes \<Rightarrow> nat \<Rightarrow> xattr_entry list \<Rightarrow> xattr_entry list res" where
  "xattr_parse_from region value_base off out =
    (if off + 4 > length region then Inl (Err (corrupt ''xattr'' ''unterminated entry list''))
     else if le32 region off = 0 then Inr out
     else if off + 16 > length region
     then Inl (Err (corrupt ''xattr'' ''entry header overflows region''))
     else
       (let name_len = unat (region ! off);
            name_index = region ! (off + 1);
            value_offs = unat (le16 region (off + 2));
            value_inum = le32 region (off + 4);
            value_size = unat (le32 region (off + 8));
            hash = le32 region (off + 12)
        in if value_inum \<noteq> 0 then Inl (Err (Unsupported ''ea_inode xattr values''))
           else if off + 16 + name_len > length region
           then Inl (Err (corrupt ''xattr'' ''name overflows region''))
           else if value_offs + value_size > length value_base
           then Inl (Err (corrupt ''xattr'' ''value overflows region''))
           else xattr_parse_from region value_base (off + 16 + name_len + pad4 name_len)
                  (out @ [\<lparr>xa_name_index = name_index, xa_name = peek region (off + 16) name_len,
                           xa_value = peek value_base value_offs value_size, xa_hash = hash\<rparr>])))"
  by pat_completeness auto
termination
  by (relation "measure (\<lambda>(region, value_base, off, out). length region + 16 - off)") auto

declare xattr_parse_from.simps [simp del]

definition xattr_parse_entries :: "bytes \<Rightarrow> bytes \<Rightarrow> xattr_entry list res" where
  "xattr_parse_entries region value_base = xattr_parse_from region value_base 0 []"

definition ibody_entries :: "bytes \<Rightarrow> u16 \<Rightarrow> xattr_entry list res" where
  "ibody_entries raw_inode extra_isize =
    (let start = 0x80 + unat extra_isize
     in if start + 4 > length raw_inode \<or> le32 raw_inode start \<noteq> XATTR_MAGIC then Inr []
        else (let area = drop (start + 4) raw_inode in xattr_parse_entries area area))"

record xattr_block_view =
  xb_refcount :: u32
  xb_hash :: u32
  xb_checksum :: u32
  xb_entries :: "xattr_entry list"

definition xattr_block_parse :: "bytes \<Rightarrow> xattr_block_view res" where
  "xattr_block_parse block =
    (if length block < 0x20 then Inl (Err (corrupt ''xattr block'' ''short buffer''))
     else if le32 block 0 \<noteq> XATTR_MAGIC then Inl (Err (corrupt ''xattr block'' ''bad magic''))
     else if le32 block 8 \<noteq> 1 then Inl (Err (corrupt ''xattr block'' ''h_blocks != 1''))
     else bindE (xattr_parse_entries (drop 0x20 block) block)
       (\<lambda>entries. Inr \<lparr>xb_refcount = le32 block 4, xb_hash = le32 block 0x0C,
                       xb_checksum = le32 block 0x10, xb_entries = entries\<rparr>))"

lemma pad4_round: "(n + pad4 n) mod 4 = 0" "pad4 n < 4"
proof -
  have "n mod 4 = 0 \<or> n mod 4 = 1 \<or> n mod 4 = 2 \<or> n mod 4 = 3" by presburger
  then show "(n + pad4 n) mod 4 = 0" by (elim disjE) (simp add: pad4_def; presburger)+
qed (simp add: pad4_def)

lemma xattr_parse_step:
  assumes "off + 16 + unat (region ! off) \<le> length region" and "le32 region off \<noteq> 0"
    and "le32 region (off + 4) = 0"
    and "unat (le16 region (off + 2)) + unat (le32 region (off + 8)) \<le> length value_base"
  shows "xattr_parse_from region value_base off out =
    xattr_parse_from region value_base (off + 16 + unat (region ! off) + pad4 (unat (region ! off)))
      (out @ [\<lparr>xa_name_index = region ! (off + 1),
               xa_name = peek region (off + 16) (unat (region ! off)),
               xa_value = peek value_base (unat (le16 region (off + 2))) (unat (le32 region (off + 8))),
               xa_hash = le32 region (off + 12)\<rparr>])"
  using assms by (subst xattr_parse_from.simps) (simp add: Let_def)

lemma xattr_parse_end:
  "off + 4 \<le> length region \<Longrightarrow> le32 region off = 0 \<Longrightarrow> xattr_parse_from region value_base off out = Inr out"
  by (simp add: xattr_parse_from.simps)

end
