(* ===== verification/Dirhash.thy ===== *)
theory Dirhash
  imports Le
begin

text \<open>
  Directory-name hashing (src/src/dirhash.rs): the half_md4 hash of a name under the filesystem's
  seed, in its signed- and unsigned-char flavours. A \<^verbatim>\<open>[u32; 4]\<close> or
  \<^verbatim>\<open>[u32; 8]\<close> array is a word list; the length lemmas below are what keeps every index
  of the code in range.
\<close>

datatype signedness = Signed | Unsigned

type_synonym hash_seed = "u32 list"

definition seed_from_uuid :: "bytes \<Rightarrow> hash_seed" where
  "seed_from_uuid uuid = [le32 uuid 0, le32 uuid 4, le32 uuid 8, le32 uuid 12]"

text \<open>The byte loop of \<^verbatim>\<open>str2hashbuf\<close>: position, current word, words written so far.\<close>

fun str2hashbuf_loop ::
    "u32 \<Rightarrow> signedness \<Rightarrow> nat \<Rightarrow> u32 \<Rightarrow> u32 list \<Rightarrow> bytes \<Rightarrow> u32 list \<times> u32" where
  "str2hashbuf_loop pad sg i val out [] = (out, val)"
| "str2hashbuf_loop pad sg i val out (b # bs) =
    (let c = (case sg of Signed \<Rightarrow> scast b | Unsigned \<Rightarrow> ucast b);
         val = c + push_bit 8 val
     in if i mod 4 = 3 then str2hashbuf_loop pad sg (i + 1) pad (out @ [val]) bs
        else str2hashbuf_loop pad sg (i + 1) val out bs)"

definition str2hashbuf :: "bytes \<Rightarrow> signedness \<Rightarrow> u32 list" where
  "str2hashbuf msg sg =
    (let len = of_nat (length msg);
         pad = len OR push_bit 8 len;
         pad = pad OR push_bit 16 pad;
         (out, val) = str2hashbuf_loop pad sg 0 pad [] (take 32 msg);
         out = (if length out < 8 then out @ [val] else out)
     in out @ replicate (8 - length out) pad)"

section \<open>The transform\<close>

definition md4_f :: "u32 \<Rightarrow> u32 \<Rightarrow> u32 \<Rightarrow> u32" where
  "md4_f x y z = z XOR (x AND (y XOR z))"

definition md4_g :: "u32 \<Rightarrow> u32 \<Rightarrow> u32 \<Rightarrow> u32" where
  "md4_g x y z = (x AND y) + ((x XOR y) AND z)"

definition md4_h :: "u32 \<Rightarrow> u32 \<Rightarrow> u32 \<Rightarrow> u32" where
  "md4_h x y z = x XOR y XOR z"

definition md4_R1 :: "(nat \<times> nat) list" where
  "md4_R1 = [(0, 3), (1, 7), (2, 11), (3, 19), (4, 3), (5, 7), (6, 11), (7, 19)]"

definition md4_R2 :: "(nat \<times> nat) list" where
  "md4_R2 = [(1, 3), (3, 5), (5, 9), (7, 13), (0, 3), (2, 5), (4, 9), (6, 13)]"

definition md4_R3 :: "(nat \<times> nat) list" where
  "md4_R3 = [(3, 3), (7, 9), (2, 11), (6, 15), (1, 3), (5, 9), (0, 11), (4, 15)]"

text \<open>One step of a round updates the targets a, d, c, b in turn.\<close>

definition md4_step ::
    "(u32 \<Rightarrow> u32 \<Rightarrow> u32 \<Rightarrow> u32) \<Rightarrow> u32 \<Rightarrow> u32 list \<Rightarrow> nat \<Rightarrow> nat \<Rightarrow> nat \<Rightarrow> u32 list \<Rightarrow> u32 list" where
  "md4_step func k inp i x s v =
    (let t = [0, 3, 2, 1] ! (i mod 4);
         b1 = v ! ((t + 1) mod 4); c1 = v ! ((t + 2) mod 4); d1 = v ! ((t + 3) mod 4)
     in v[t := word_rotl s (v ! t + func b1 c1 d1 + inp ! x + k)])"

fun md4_round ::
    "(u32 \<Rightarrow> u32 \<Rightarrow> u32 \<Rightarrow> u32) \<Rightarrow> u32 \<Rightarrow> u32 list \<Rightarrow> nat \<Rightarrow> (nat \<times> nat) list \<Rightarrow> u32 list \<Rightarrow> u32 list" where
  "md4_round func k inp i [] v = v"
| "md4_round func k inp i ((x, s) # sched) v =
     md4_round func k inp (i + 1) sched (md4_step func k inp i x s v)"

definition half_md4_transform :: "u32 list \<Rightarrow> u32 list \<Rightarrow> u32 list" where
  "half_md4_transform buf inp =
    (let v = md4_round md4_f 0 inp 0 md4_R1 buf;
         v = md4_round md4_g 0x5A827999 inp 0 md4_R2 v;
         v = md4_round md4_h 0x6ED9EBA1 inp 0 md4_R3 v
     in map2 (+) buf v)"

text \<open>\<^verbatim>\<open>slice::chunks(n)\<close> for a positive \<open>n\<close>.\<close>

function chunks :: "nat \<Rightarrow> 'a list \<Rightarrow> 'a list list" where
  "chunks n xs = (if xs = [] \<or> n = 0 then [] else take n xs # chunks n (drop n xs))"
  by pat_completeness auto
termination
  by (relation "measure (\<lambda>(n, xs). length xs)") auto

declare chunks.simps [simp del]

text \<open>An empty name still gets one transform, of an empty first chunk.\<close>

definition half_md4_state :: "hash_seed \<Rightarrow> signedness \<Rightarrow> bytes \<Rightarrow> u32 list" where
  "half_md4_state seed sg name =
    (let buf = (if \<exists>w\<in>set seed. w \<noteq> 0 then seed
                else [0x67452301, 0xEFCDAB89, 0x98BADCFE, 0x10325476]);
         cs = chunks 32 name;
         (first, rest) = (case cs of [] \<Rightarrow> ([], []) | c # r \<Rightarrow> (c, r));
         buf = half_md4_transform buf (str2hashbuf first sg)
     in foldl (\<lambda>buf chunk. half_md4_transform buf (str2hashbuf chunk sg)) buf rest)"

definition half_md4 :: "hash_seed \<Rightarrow> signedness \<Rightarrow> bytes \<Rightarrow> u32 \<times> u32" where
  "half_md4 seed sg name =
    (let buf = half_md4_state seed sg name in (buf ! 1 AND NOT 1, buf ! 2))"

section \<open>Every index stays in range\<close>

lemma str2hashbuf_loop_length:
  "length (fst (str2hashbuf_loop pad sg i val out msg)) = length out + (i mod 4 + length msg) div 4"
proof (induction pad sg i val out msg rule: str2hashbuf_loop.induct)
  case (1 pad sg i val out)
  then show ?case by simp
next
  case (2 pad sg i val out b bs)
  define c :: u32 where "c = (case sg of Signed \<Rightarrow> scast b | Unsigned \<Rightarrow> ucast b)"
  show ?case
  proof (cases "i mod 4 = 3")
    case True
    then have "Suc i mod 4 = 0" by presburger
    with True 2(1) [OF refl refl True] show ?thesis by (simp add: Let_def)
  next
    case False
    then have "Suc i mod 4 = Suc (i mod 4)" by presburger
    with False 2(2) [OF refl refl False] show ?thesis by (simp add: Let_def)
  qed
qed

lemma length_str2hashbuf: "length (str2hashbuf msg sg) = 8"
proof -
  define len :: u32 where "len = of_nat (length msg)"
  define pad where "pad = (len OR push_bit 8 len) OR push_bit 16 (len OR push_bit 8 len)"
  define st where "st = str2hashbuf_loop pad sg 0 pad [] (take 32 msg)"
  have "length (fst st) \<le> 8"
    using str2hashbuf_loop_length [of pad sg 0 pad "[]" "take 32 msg"] by (simp add: st_def)
  moreover have "str2hashbuf msg sg =
    (let out = (if length (fst st) < 8 then fst st @ [snd st] else fst st)
     in out @ replicate (8 - length out) pad)"
    by (simp add: str2hashbuf_def Let_def len_def pad_def st_def split_beta)
  ultimately show ?thesis by (simp add: Let_def)
qed

lemma length_md4_step [simp]: "length (md4_step func k inp i x s v) = length v"
  by (simp add: md4_step_def Let_def)

lemma length_md4_round [simp]: "length (md4_round func k inp i sched v) = length v"
  by (induction func k inp i sched v rule: md4_round.induct) auto

lemma length_half_md4_transform [simp]: "length (half_md4_transform buf inp) = length buf"
  by (simp add: half_md4_transform_def Let_def)

lemma length_foldl_transform:
  "length (foldl (\<lambda>buf chunk. half_md4_transform buf (str2hashbuf chunk sg)) buf cs) = length buf"
  by (induction cs arbitrary: buf) auto

lemma length_half_md4_state: "length seed = 4 \<Longrightarrow> length (half_md4_state seed sg name) = 4"
  by (auto simp: half_md4_state_def Let_def length_foldl_transform split: list.splits)

section \<open>Facts the index relies on\<close>

text \<open>The low bit of a hash is free for the collision flag.\<close>

lemma half_md4_even: "fst (half_md4 seed sg name) AND 1 = 0"
proof -
  have "(x AND NOT 1) AND 1 = (0 :: u32)" for x by (rule bit_word_eqI) (auto simp: bit_simps)
  then show ?thesis by (simp add: half_md4_def Let_def)
qed

text \<open>Names of bytes below 128 hash the same in both flavours.\<close>

lemma scast_ascii: "unat (b :: u8) < 128 \<Longrightarrow> (scast b :: u32) = ucast b"
proof -
  assume "unat b < 128"
  then have "\<not> bit (unat b) 7"
    by (simp add: bit_iff_odd)
  then have b7: "\<not> bit b 7" by (simp add: bit_unsigned_iff)
  have hi: "n < 7" if "bit b n" for n
  proof -
    have "n < 8" using that bit_imp_le_length [of b n] by simp
    moreover have "n \<noteq> 7" using that b7 by metis
    ultimately show ?thesis by simp
  qed
  show ?thesis
    by (rule bit_word_eqI) (use b7 in \<open>auto simp: bit_simps min_def dest: hi\<close>)
qed

lemma str2hashbuf_loop_ascii:
  "\<forall>b\<in>set msg. unat b < 128 \<Longrightarrow>
   str2hashbuf_loop pad Signed i val out msg = str2hashbuf_loop pad Unsigned i val out msg"
  by (induction msg arbitrary: i val out) (auto simp: Let_def scast_ascii)

lemma str2hashbuf_ascii:
  assumes "\<forall>b\<in>set msg. unat b < 128"
  shows "str2hashbuf msg Signed = str2hashbuf msg Unsigned"
proof -
  have "\<forall>b\<in>set (take 32 msg). unat b < 128" using assms by (auto dest: in_set_takeD)
  then show ?thesis by (simp add: str2hashbuf_def str2hashbuf_loop_ascii)
qed

lemma chunks_props:
  assumes "0 < n"
  shows "concat (chunks n xs) = xs" "[] \<notin> set (chunks n xs)" "\<forall>c\<in>set (chunks n xs). length c \<le> n"
    "length (chunks n xs) = (length xs + n - 1) div n"
proof -
  have "concat (chunks n xs) = xs \<and> [] \<notin> set (chunks n xs) \<and> (\<forall>c\<in>set (chunks n xs). length c \<le> n) \<and>
    length (chunks n xs) = (length xs + n - 1) div n"
    using assms
  proof (induction n xs rule: chunks.induct)
    case (1 n xs)
    show ?case
    proof (cases "xs = []")
      case True
      then show ?thesis using 1(2) by (simp add: chunks.simps)
    next
      case False
      note ih = 1(1) [OF _ 1(2)]
      have "Suc ((length xs - n + n - 1) div n) = (length xs + n - 1) div n"
      proof (cases "n \<le> length xs")
        case True
        then have "length xs + n - 1 = (length xs - n + n - 1) + n" using 1(2) False by (cases xs) auto
        then show ?thesis using 1(2) by (metis Suc_eq_plus1 div_add_self2 less_irrefl)
      next
        case False
        then have "(n - 1) div n = 0" "(length xs + n - 1) div n = 1"
          using 1(2) \<open>xs \<noteq> []\<close> by (auto simp: Suc_le_eq neq_Nil_conv intro!: div_nat_eqI)
        then show ?thesis using False by simp
      qed
      then show ?thesis using False ih 1(2) by (subst (1 2 3 4) chunks.simps) simp
    qed
  qed
  then show "concat (chunks n xs) = xs" "[] \<notin> set (chunks n xs)" "\<forall>c\<in>set (chunks n xs). length c \<le> n"
    "length (chunks n xs) = (length xs + n - 1) div n" by auto
qed

lemma set_chunks: "c \<in> set (chunks n xs) \<Longrightarrow> set c \<subseteq> set xs"
proof (induction n xs rule: chunks.induct)
  case (1 n xs)
  then show ?case
    by (subst (asm) (2) chunks.simps) (auto split: if_splits dest: in_set_takeD in_set_dropD)
qed

lemma foldl_transform_ascii:
  "\<forall>c\<in>set cs. \<forall>b\<in>set c. unat b < 128 \<Longrightarrow>
   foldl (\<lambda>buf chunk. half_md4_transform buf (str2hashbuf chunk Signed)) buf cs =
   foldl (\<lambda>buf chunk. half_md4_transform buf (str2hashbuf chunk Unsigned)) buf cs"
  by (induction cs arbitrary: buf) (auto simp: str2hashbuf_ascii)

lemma half_md4_ascii:
  assumes "\<forall>b\<in>set name. unat b < 128"
  shows "half_md4 seed Signed name = half_md4 seed Unsigned name"
proof -
  have "\<forall>c\<in>set (chunks 32 name). \<forall>b\<in>set c. unat b < 128"
    using assms set_chunks by blast
  then have "half_md4_state seed Signed name = half_md4_state seed Unsigned name"
    by (cases "chunks 32 name")
      (auto simp: half_md4_state_def Let_def str2hashbuf_ascii foldl_transform_ascii)
  then show ?thesis by (simp add: half_md4_def)
qed

end
