(* ===== verification/Alloc.thy ===== *)
theory Alloc
  imports Prelude
begin

text \<open>
  The deterministic block allocator (src/src/layout/alloc.rs): one cursor over the device that
  jumps over reserved runs. Block addresses are below \<open>2\<^sup>3\<^sup>2\<close> in every geometry the writer
  accepts, so \<^verbatim>\<open>u64\<close> positions are natural numbers here. A \<^verbatim>\<open>take\<close> whose
  \<^verbatim>\<open>max_run\<close> is zero never returns; the loop is therefore a partial function whose outer
  option says whether it returns, and returning is a theorem.

  The contract: what is still allocatable is the list \<open>alloc_free\<close>, and \<open>alloc_take\<close> hands out
  its front.
\<close>

record run =
  run_start :: nat
  run_len :: nat

record allocator =
  al_cursor :: nat
  al_end :: nat
  al_reserved :: "run list"
  al_next :: nat

function skip_reserved :: "allocator \<Rightarrow> allocator" where
  "skip_reserved a =
    (if al_next a < length (al_reserved a) then
       let r = al_reserved a ! al_next a in
       if run_start r + run_len r \<le> al_cursor a then skip_reserved (a\<lparr>al_next := al_next a + 1\<rparr>)
       else if run_start r \<le> al_cursor a then
         skip_reserved (a\<lparr>al_cursor := run_start r + run_len r, al_next := al_next a + 1\<rparr>)
       else a
     else a)"
  by pat_completeness auto
termination
  by (relation "measure (\<lambda>a. length (al_reserved a) - al_next a)") auto

declare skip_reserved.simps [simp del]

text \<open>The \<^verbatim>\<open>debug_assert!\<close> of the constructor: sorted and disjoint.\<close>

fun runs_disjoint :: "run list \<Rightarrow> bool" where
  "runs_disjoint (r # r' # rs) \<longleftrightarrow> run_start r + run_len r \<le> run_start r' \<and> runs_disjoint (r' # rs)"
| "runs_disjoint _ \<longleftrightarrow> True"

definition alloc_new :: "nat \<Rightarrow> nat \<Rightarrow> run list \<Rightarrow> allocator res" where
  "alloc_new start fin reserved =
    (if runs_disjoint reserved then
       Inr (skip_reserved \<lparr>al_cursor = start, al_end = fin, al_reserved = reserved, al_next = 0\<rparr>)
     else Inl Panic)"

definition alloc_limit :: "allocator \<Rightarrow> nat" where
  "alloc_limit a = min (al_end a)
    (if al_next a < length (al_reserved a) then run_start (al_reserved a ! al_next a) else al_end a)"

text \<open>The loop of \<^verbatim>\<open>take\<close>, with the runs pushed so far.\<close>

partial_function (option) alloc_take_loop ::
    "nat \<Rightarrow> run list \<Rightarrow> allocator \<Rightarrow> nat \<Rightarrow> (run list option \<times> allocator) option" where
  "alloc_take_loop max_run out a blocks =
    (if blocks = 0 then Some (Some out, a)
     else
       let a = skip_reserved a in
       if al_end a \<le> al_cursor a then Some (None, a)
       else
         let t = min (min blocks (alloc_limit a - al_cursor a)) max_run
         in alloc_take_loop max_run (out @ [\<lparr>run_start = al_cursor a, run_len = t\<rparr>])
              (a\<lparr>al_cursor := al_cursor a + t\<rparr>) (blocks - t))"

definition alloc_take :: "allocator \<Rightarrow> nat \<Rightarrow> nat \<Rightarrow> (run list option \<times> allocator) option" where
  "alloc_take a blocks max_run = alloc_take_loop max_run [] a blocks"

definition alloc_take_one :: "allocator \<Rightarrow> (nat option \<times> allocator) option" where
  "alloc_take_one a =
    map_option (\<lambda>(runs, a). (map_option (\<lambda>rs. run_start (rs ! 0)) runs, a)) (alloc_take a 1 1)"

text \<open>The blocks of a list of runs, in order (\<^verbatim>\<open>expand_runs\<close> of src/src/build/seal.rs).\<close>

definition expand_runs :: "run list \<Rightarrow> nat list" where
  "expand_runs runs = concat (map (\<lambda>r. [run_start r..<run_start r + run_len r]) runs)"

section \<open>What is still allocatable\<close>

definition in_run :: "nat \<Rightarrow> run \<Rightarrow> bool" where
  "in_run b r \<longleftrightarrow> run_start r \<le> b \<and> b < run_start r + run_len r"

definition alloc_free :: "allocator \<Rightarrow> nat list" where
  "alloc_free a = filter (\<lambda>b. \<not> (\<exists>r\<in>set (al_reserved a). in_run b r)) [al_cursor a..<al_end a]"

definition alloc_wf :: "allocator \<Rightarrow> bool" where
  "alloc_wf a \<longleftrightarrow> runs_disjoint (al_reserved a) \<and>
    (\<forall>i<min (al_next a) (length (al_reserved a)).
       run_start (al_reserved a ! i) + run_len (al_reserved a ! i) \<le> al_cursor a)"

definition alloc_settled :: "allocator \<Rightarrow> bool" where
  "alloc_settled a \<longleftrightarrow>
    (al_next a < length (al_reserved a) \<longrightarrow> al_cursor a < run_start (al_reserved a ! al_next a))"

lemma expand_runs_simps [simp]:
  "expand_runs [] = []"
  "expand_runs (r # rs) = [run_start r..<run_start r + run_len r] @ expand_runs rs"
  "expand_runs (rs @ rs') = expand_runs rs @ expand_runs rs'"
  by (simp_all add: expand_runs_def)

lemma length_expand_runs: "length (expand_runs rs) = sum_list (map run_len rs)"
  by (induction rs) auto

lemma runs_disjoint_Cons:
  "runs_disjoint (r # rs) \<Longrightarrow> r' \<in> set rs \<Longrightarrow> run_start r + run_len r \<le> run_start r'"
proof (induction rs arbitrary: r)
  case (Cons q qs)
  then show ?case by (cases qs) fastforce+
qed simp

lemma runs_disjoint_tl: "runs_disjoint (r # rs) \<Longrightarrow> runs_disjoint rs"
  by (cases rs) auto

lemma runs_disjoint_nth:
  "runs_disjoint rs \<Longrightarrow> i < j \<Longrightarrow> j < length rs \<Longrightarrow>
   run_start (rs ! i) + run_len (rs ! i) \<le> run_start (rs ! j)"
proof (induction rs arbitrary: i j)
  case (Cons r rs)
  then obtain k where k: "j = Suc k" by (cases j) auto
  show ?case
  proof (cases i)
    case 0
    then show ?thesis using Cons.prems k runs_disjoint_Cons [of r rs "rs ! k"] by simp
  next
    case (Suc m)
    then show ?thesis
      using Cons.prems k Cons.IH [of m k] runs_disjoint_tl [of r rs] by simp
  qed
qed simp

lemma skip_reserved_frame [simp]:
  "al_end (skip_reserved a) = al_end a"
  "al_reserved (skip_reserved a) = al_reserved a"
  by (induction a rule: skip_reserved.induct; subst skip_reserved.simps; simp add: Let_def)+

lemma skip_reserved_settled: "alloc_settled (skip_reserved a)"
proof (induction a rule: skip_reserved.induct)
  case (1 a)
  then show ?case
    by (subst skip_reserved.simps) (auto simp: Let_def alloc_settled_def)
qed

lemma filter_upt_skip:
  assumes "c \<le> d" "\<And>b. c \<le> b \<Longrightarrow> b < d \<Longrightarrow> \<not> P b"
  shows "filter P [c..<e] = filter P [d..<e]"
proof (cases "d \<le> e")
  case True
  then have "[c..<e] = [c..<d] @ [d..<e]" using assms(1) upt_add_eq_append [of c d "e - d"] by simp
  moreover have "filter P [c..<d] = []" using assms(2) by (auto simp: filter_empty_conv)
  ultimately show ?thesis by simp
next
  case False
  then have "filter P [c..<e] = []" using assms(2) by (auto simp: filter_empty_conv)
  with False show ?thesis by simp
qed

lemma skip_reserved_wf_free:
  "alloc_wf a \<Longrightarrow> alloc_wf (skip_reserved a) \<and> alloc_free (skip_reserved a) = alloc_free a"
proof (induction a rule: skip_reserved.induct)
  case (1 a)
  let ?r = "al_reserved a ! al_next a"
  show ?case
  proof (cases "al_next a < length (al_reserved a)")
    case True
    consider (past) "run_start ?r + run_len ?r \<le> al_cursor a"
      | (inside) "al_cursor a < run_start ?r + run_len ?r" "run_start ?r \<le> al_cursor a"
      | (before) "al_cursor a < run_start ?r" by linarith
    then show ?thesis
    proof cases
      case past
      have "alloc_wf (a\<lparr>al_next := al_next a + 1\<rparr>)"
        using 1(3) past True by (auto simp: alloc_wf_def less_Suc_eq)
      then have "alloc_wf (skip_reserved (a\<lparr>al_next := al_next a + 1\<rparr>)) \<and>
        alloc_free (skip_reserved (a\<lparr>al_next := al_next a + 1\<rparr>)) = alloc_free (a\<lparr>al_next := al_next a + 1\<rparr>)"
        using 1(1) [OF True refl past] by blast
      then show ?thesis
        using True past by (subst (1 2) skip_reserved.simps) (simp add: Let_def alloc_free_def)
    next
      case inside
      let ?a = "a\<lparr>al_cursor := run_start ?r + run_len ?r, al_next := al_next a + 1\<rparr>"
      have "alloc_wf ?a"
        using 1(3) inside True by (fastforce simp: alloc_wf_def less_Suc_eq)
      then have "alloc_wf (skip_reserved ?a) \<and> alloc_free (skip_reserved ?a) = alloc_free ?a"
        using 1(2) [OF True refl] inside by simp
      moreover have "alloc_free ?a = alloc_free a"
        unfolding alloc_free_def
        by (simp, rule filter_upt_skip [symmetric])
          (use inside True in \<open>auto simp: in_run_def intro!: bexI [of _ ?r]\<close>)
      ultimately show ?thesis
        using True inside by (subst (1 2) skip_reserved.simps) (simp add: Let_def)
    next
      case before
      then show ?thesis using 1(3) True by (subst (1 2) skip_reserved.simps) (simp add: Let_def)
    qed
  next
    case False
    then show ?thesis using 1(3) by (subst (1 2) skip_reserved.simps) simp
  qed
qed

lemma alloc_free_step:
  assumes wf: "alloc_wf a" and settled: "alloc_settled a" and t: "al_cursor a + t \<le> alloc_limit a"
  shows "alloc_free a = [al_cursor a..<al_cursor a + t] @ alloc_free (a\<lparr>al_cursor := al_cursor a + t\<rparr>)"
proof -
  let ?P = "\<lambda>b. \<not> (\<exists>r\<in>set (al_reserved a). in_run b r)"
  have "?P b" if b: "al_cursor a \<le> b" "b < al_cursor a + t" for b
  proof
    assume "\<exists>r\<in>set (al_reserved a). in_run b r"
    then obtain i where i: "i < length (al_reserved a)" "in_run b (al_reserved a ! i)"
      by (auto simp: in_set_conv_nth)
    show False
    proof (cases "i < al_next a")
      case True
      then show False using wf i b by (auto simp: alloc_wf_def in_run_def dest!: spec [of _ i])
    next
      case False
      then have "run_start (al_reserved a ! al_next a) \<le> run_start (al_reserved a ! i)"
        using i runs_disjoint_nth [of "al_reserved a" "al_next a" i] wf
        by (cases "i = al_next a") (auto simp: alloc_wf_def)
      then show False using False i b t by (auto simp: alloc_limit_def in_run_def)
    qed
  qed
  then have f: "filter ?P [al_cursor a..<al_cursor a + t] = [al_cursor a..<al_cursor a + t]"
    by (auto simp: filter_id_conv)
  have "[al_cursor a..<al_end a] = [al_cursor a..<al_cursor a + t] @ [al_cursor a + t..<al_end a]"
    using t upt_add_eq_append [of "al_cursor a" "al_cursor a + t" "al_end a - (al_cursor a + t)"]
    by (simp add: alloc_limit_def)
  then show ?thesis unfolding alloc_free_def by (simp only: filter_append f) simp
qed

definition take_result ::
    "nat \<Rightarrow> allocator \<Rightarrow> nat \<Rightarrow> run list \<Rightarrow> (run list option \<times> allocator) option \<Rightarrow> bool" where
  "take_result m a n out res \<longleftrightarrow>
    (if n \<le> length (alloc_free a) then
       \<exists>runs a'. res = Some (Some (out @ runs), a') \<and> expand_runs runs = take n (alloc_free a) \<and>
         alloc_free a' = drop n (alloc_free a) \<and> alloc_wf a' \<and>
         al_reserved a' = al_reserved a \<and> al_end a' = al_end a \<and>
         (\<forall>r\<in>set runs. 0 < run_len r \<and> run_len r \<le> m)
     else \<exists>a'. res = Some (None, a'))"

lemma alloc_take_loop_spec:
  assumes m: "0 < m"
  shows "alloc_wf a \<Longrightarrow> take_result m a n out (alloc_take_loop m out a n)"
proof (induction n arbitrary: a out rule: less_induct)
  case (less n)
  show ?case
  proof (cases "n = 0")
    case True
    then show ?thesis using less.prems by (subst alloc_take_loop.simps) (simp add: take_result_def)
  next
    case n: False
    define s where "s = skip_reserved a"
    have s: "alloc_wf s" "alloc_free s = alloc_free a" "alloc_settled s"
      "al_reserved s = al_reserved a" "al_end s = al_end a"
      using skip_reserved_wf_free [OF less.prems] skip_reserved_settled by (simp_all add: s_def)
    show ?thesis
    proof (cases "al_end s \<le> al_cursor s")
      case True
      then have "alloc_free a = []" using s(2) by (simp add: alloc_free_def)
      with n True show ?thesis
        by (subst alloc_take_loop.simps) (simp add: take_result_def Let_def flip: s_def)
    next
      case False
      define t where "t = min (min n (alloc_limit s - al_cursor s)) m"
      define s' where "s' = s\<lparr>al_cursor := al_cursor s + t\<rparr>"
      have lim: "al_cursor s < alloc_limit s"
        using False s(3) by (auto simp: alloc_limit_def alloc_settled_def)
      then have t: "0 < t" "t \<le> n" "t \<le> m" "al_cursor s + t \<le> alloc_limit s"
        using n m by (auto simp: t_def)
      have free: "alloc_free a = [al_cursor s..<al_cursor s + t] @ alloc_free s'"
        using alloc_free_step [OF s(1,3) t(4)] s(2) by (simp add: s'_def)
      have "alloc_wf s'" using s(1) by (force simp: alloc_wf_def s'_def)
      then have "take_result m s' (n - t) (out @ [\<lparr>run_start = al_cursor s, run_len = t\<rparr>])
          (alloc_take_loop m (out @ [\<lparr>run_start = al_cursor s, run_len = t\<rparr>]) s' (n - t))"
        using less.IH [of "n - t" s'] t n by auto
      moreover have "alloc_take_loop m out a n =
          alloc_take_loop m (out @ [\<lparr>run_start = al_cursor s, run_len = t\<rparr>]) s' (n - t)"
        using n False by (subst alloc_take_loop.simps) (simp add: Let_def t_def s'_def flip: s_def)
      moreover have "al_reserved s' = al_reserved a" "al_end s' = al_end a"
        using s by (simp_all add: s'_def)
      ultimately show ?thesis
        using t by (fastforce simp: take_result_def free split: if_splits)
    qed
  qed
qed

section \<open>The interface the layout uses\<close>

text \<open>
  What the layout phase relies on: allocations come off the front of the free list, in order.
  Everything about many allocations (ascending, disjoint, never reserved) follows.
\<close>

locale block_allocator =
  fixes take_op :: "'a \<Rightarrow> nat \<Rightarrow> nat \<Rightarrow> (run list option \<times> 'a) option"
    and free :: "'a \<Rightarrow> nat list"
    and wf :: "'a \<Rightarrow> bool"
  assumes take_some: "wf a \<Longrightarrow> 0 < m \<Longrightarrow> n \<le> length (free a) \<Longrightarrow>
      \<exists>runs a'. take_op a n m = Some (Some runs, a') \<and> expand_runs runs = take n (free a) \<and>
        free a' = drop n (free a) \<and> wf a' \<and> (\<forall>r\<in>set runs. 0 < run_len r \<and> run_len r \<le> m)"
    and take_none: "wf a \<Longrightarrow> 0 < m \<Longrightarrow> length (free a) < n \<Longrightarrow> \<exists>a'. take_op a n m = Some (None, a')"
    and free_sorted: "sorted_wrt (<) (free a)"
begin

lemma take_returns: "wf a \<Longrightarrow> 0 < m \<Longrightarrow> take_op a n m \<noteq> None"
  using take_some [of a m n] take_none [of a m n] by (cases "n \<le> length (free a)") auto

lemma take_someD:
  assumes "wf a" "0 < m" "take_op a n m = Some (Some runs, a')"
  shows "n \<le> length (free a)" "expand_runs runs = take n (free a)" "free a' = drop n (free a)"
    "wf a'" "\<forall>r\<in>set runs. 0 < run_len r \<and> run_len r \<le> m"
  using take_some [of a m n] take_none [of a m n] assms
  by (cases "n \<le> length (free a)"; force)+

lemma take_blocks_sorted:
  assumes "wf a" "0 < m" "take_op a n m = Some (Some runs, a')"
  shows "sorted_wrt (<) (expand_runs runs)" "set (expand_runs runs) \<subseteq> set (free a)"
    "length (expand_runs runs) = n"
  using take_someD [OF assms] free_sorted [of a]
  by (simp_all add: sorted_wrt_take set_take_subset)

text \<open>A later allocation lies wholly above an earlier one.\<close>

lemma take_take_above:
  assumes "wf a" "0 < m" "take_op a n m = Some (Some runs, a')"
    and "0 < m'" "take_op a' n' m' = Some (Some runs', a'')"
  shows "\<forall>x\<in>set (expand_runs runs). \<forall>y\<in>set (expand_runs runs'). x < y"
proof -
  note 1 = take_someD [OF assms(1-3)]
  note 2 = take_someD [OF 1(4) assms(4,5)]
  have "sorted_wrt (<) (take n (free a) @ drop n (free a))" using free_sorted by simp
  then have "\<forall>x\<in>set (take n (free a)). \<forall>y\<in>set (drop n (free a)). x < y"
    by (simp only: sorted_wrt_append) blast
  then show ?thesis using 1 2 by (auto dest: in_set_takeD)
qed

text \<open>A whole sequence of allocations hands out a prefix of the free list, in order.\<close>

fun take_all :: "'a \<Rightarrow> nat \<Rightarrow> nat list \<Rightarrow> (run list list option \<times> 'a) option" where
  "take_all a m [] = Some (Some [], a)"
| "take_all a m (n # ns) =
    (case take_op a n m of
       Some (Some runs, a') \<Rightarrow>
         map_option (\<lambda>(res, a''). (map_option (Cons runs) res, a'')) (take_all a' m ns)
     | Some (None, a') \<Rightarrow> Some (None, a')
     | None \<Rightarrow> None)"

lemma take_all_prefix:
  "wf a \<Longrightarrow> 0 < m \<Longrightarrow> take_all a m ns = Some (Some rss, a') \<Longrightarrow>
   expand_runs (concat rss) = take (sum_list ns) (free a) \<and>
   free a' = drop (sum_list ns) (free a) \<and> map (length \<circ> expand_runs) rss = ns \<and> wf a'"
proof (induction ns arbitrary: a rss)
  case Nil
  then show ?case by simp
next
  case (Cons n ns)
  then obtain runs b rss' where b: "take_op a n m = Some (Some runs, b)"
    "take_all b m ns = Some (Some rss', a')" "rss = runs # rss'"
    by (auto split: option.splits prod.splits)
  note 1 = take_someD [OF Cons.prems(1,2) b(1)]
  show ?case
    using Cons.IH [OF 1(4) Cons.prems(2) b(2)] 1 b(3) by (simp add: take_add add.commute)
qed

end

lemma alloc_free_sorted: "sorted_wrt (<) (alloc_free a)"
  by (simp add: alloc_free_def sorted_wrt_filter)

interpretation al: block_allocator alloc_take alloc_free alloc_wf
proof unfold_locales
  fix a :: allocator and m n :: nat
  assume a: "alloc_wf a" "0 < m"
  note spec = alloc_take_loop_spec [OF a(2,1), of n "[]", folded alloc_take_def]
  show "\<exists>runs a'. alloc_take a n m = Some (Some runs, a') \<and> expand_runs runs = take n (alloc_free a) \<and>
      alloc_free a' = drop n (alloc_free a) \<and> alloc_wf a' \<and> (\<forall>r\<in>set runs. 0 < run_len r \<and> run_len r \<le> m)"
    if "n \<le> length (alloc_free a)"
    using spec that by (auto simp: take_result_def)
  show "\<exists>a'. alloc_take a n m = Some (None, a')" if "length (alloc_free a) < n"
    using spec that by (auto simp: take_result_def)
next
  show "sorted_wrt (<) (alloc_free a)" for a by (rule alloc_free_sorted)
qed

lemma alloc_new_wf:
  assumes "alloc_new start fin reserved = Inr a"
  shows "alloc_wf a"
    "alloc_free a = filter (\<lambda>b. \<not> (\<exists>r\<in>set reserved. in_run b r)) [start..<fin]"
proof -
  let ?a = "\<lparr>al_cursor = start, al_end = fin, al_reserved = reserved, al_next = 0\<rparr>"
  have d: "runs_disjoint reserved" and a: "a = skip_reserved ?a"
    using assms by (auto simp: alloc_new_def split: if_splits)
  have "alloc_wf ?a" using d by (simp add: alloc_wf_def)
  from skip_reserved_wf_free [OF this] show "alloc_wf a"
    "alloc_free a = filter (\<lambda>b. \<not> (\<exists>r\<in>set reserved. in_run b r)) [start..<fin]"
    by (simp_all add: a alloc_free_def)
qed

lemma alloc_take_one_spec:
  assumes "alloc_wf a"
  shows "alloc_free a = b # bs \<Longrightarrow>
      \<exists>a'. alloc_take_one a = Some (Some b, a') \<and> alloc_free a' = bs \<and> alloc_wf a'"
    and "alloc_free a = [] \<Longrightarrow> \<exists>a'. alloc_take_one a = Some (None, a')"
proof -
  assume f: "alloc_free a = b # bs"
  obtain runs a' where r: "alloc_take a 1 1 = Some (Some runs, a')" "expand_runs runs = [b]"
    "alloc_free a' = bs" "alloc_wf a'" "\<forall>r\<in>set runs. 0 < run_len r"
    using al.take_some [OF assms, of 1 1] f by auto
  then obtain q qs where q: "runs = q # qs" by (cases runs) auto
  then have "hd (expand_runs runs) = run_start q" using r(5) by (simp add: upt_rec)
  then have "run_start q = b" using r(2) by simp
  then show "\<exists>a'. alloc_take_one a = Some (Some b, a') \<and> alloc_free a' = bs \<and> alloc_wf a'"
    using r q by (simp add: alloc_take_one_def)
next
  show "alloc_free a = [] \<Longrightarrow> \<exists>a'. alloc_take_one a = Some (None, a')"
    using al.take_none [OF assms, of 1 1] by (auto simp: alloc_take_one_def)
qed

end
