(* ===== verification/XattrBuild.thy ===== *)
theory XattrBuild
  imports Xattr Csum "HOL-Library.Product_Lexorder" "HOL-Library.List_Lexorder"
    "HOL-Library.Multiset"
begin

text \<open>
  Rendering extended attributes (src/src/build/xattr_build.rs): the canonical order, the single
  split between the in-inode area and the external block, and the two renderings. The round trip
  is against the reader's parser of \<open>Xattr\<close>.
\<close>

type_synonym attr = "u8 \<times> bytes \<times> bytes"

definition IBODY_AREA :: nat where
  [simp]: "IBODY_AREA = INODE_SIZE - 0x80 - 32"

definition round4 :: "nat \<Rightarrow> nat" where
  "round4 n = (n + 3) div 4 * 4"

definition entry_bytes :: "attr \<Rightarrow> nat" where
  "entry_bytes a = 16 + round4 (length (fst (snd a)))"

definition value_bytes :: "attr \<Rightarrow> nat" where
  "value_bytes a = round4 (length (snd (snd a)))"

definition attr_key :: "attr \<Rightarrow> u8 \<times> nat \<times> bytes" where
  "attr_key a = (fst a, length (fst (snd a)), fst (snd a))"

section \<open>Rendering\<close>

text \<open>One turn of the loop of \<^verbatim>\<open>render_entries\<close>; every slice of the code is a guard.\<close>

definition render_entry :: "nat \<Rightarrow> bytes \<Rightarrow> nat \<Rightarrow> nat \<Rightarrow> attr \<Rightarrow> (bytes \<times> u32) res" where
  "render_entry offs_base region ent val_cursor a =
    (case a of (idx, name, value) \<Rightarrow>
       let e_hash = (if offs_base \<noteq> 0 then xattr_entry_hash name value else 0) in
       if val_cursor + length value \<le> length region \<and> ent + 16 + length name \<le> length region then
         let r = poke region val_cursor value;
             r = put_u8 r ent (of_nat (length name));
             r = put_u8 r (ent + 1) idx;
             r = put_u16 r (ent + 2) (of_nat (offs_base + val_cursor));
             r = put_u32 r (ent + 8) (of_nat (length value));
             r = put_u32 r (ent + 12) e_hash;
             r = poke r (ent + 16) name
         in Inr (r, e_hash)
       else Inl Panic)"

fun render_entries_from ::
    "nat \<Rightarrow> bytes \<Rightarrow> nat \<Rightarrow> nat \<Rightarrow> u32 list \<Rightarrow> attr list \<Rightarrow> (bytes \<times> u32 list) res" where
  "render_entries_from offs_base region ent val_cursor hashes [] = Inr (region, hashes)"
| "render_entries_from offs_base region ent val_cursor hashes (a # attrs) =
    (if val_cursor < value_bytes a then Inl Panic
     else
       let val_cursor = val_cursor - value_bytes a in
       bindE (render_entry offs_base region ent val_cursor a) (\<lambda>(region, e_hash).
       render_entries_from offs_base region (ent + entry_bytes a) val_cursor (hashes @ [e_hash]) attrs))"

definition render_entries :: "bytes \<Rightarrow> attr list \<Rightarrow> nat \<Rightarrow> nat \<Rightarrow> (bytes \<times> u32 list) res" where
  "render_entries region attrs usable offs_base =
    render_entries_from offs_base region 0 usable [] attrs"

definition xattr_render_block :: "crc \<Rightarrow> attr list \<Rightarrow> u32 \<Rightarrow> u64 \<Rightarrow> bytes res" where
  "xattr_render_block crc attrs fseed block_nr =
    (let buf = zeros_buf BLOCK_SIZE;
         buf = put_u32 buf 0 XATTR_MAGIC;
         buf = put_u32 buf 4 1;
         buf = put_u32 buf 8 1
     in bindE (render_entries (drop 0x20 buf) attrs (BLOCK_SIZE - 0x20) 0x20) (\<lambda>(region, hashes).
        let buf = take 0x20 buf @ region;
            buf = put_u32 buf 0x0C (xattr_block_hash hashes)
        in bindE (csum_xattr_block crc fseed block_nr buf) (\<lambda>c. Inr (put_u32 buf 0x10 c))))"

section \<open>The plan\<close>

record xattr_plan =
  xp_ibody :: bytes
  xp_block_attrs :: "attr list"

definition attr_fits_block :: "attr \<Rightarrow> unit res" where
  "attr_fits_block a =
    (if BLOCK_SIZE - 32 - 4 < entry_bytes a then Inl Panic
     else if length (snd (snd a)) > BLOCK_SIZE - 32 - 4 - entry_bytes a
     then Inl (Err (Invalid ''xattr value cannot fit an xattr block'')) else Inr ())"

fun xattr_split :: "nat \<Rightarrow> nat \<Rightarrow> nat \<Rightarrow> attr list \<Rightarrow> nat" where
  "xattr_split usable ent val [] = 0"
| "xattr_split usable ent val (a # attrs) =
    (let e = entry_bytes a; v = value_bytes a
     in if ent + e + 4 + val + v > usable then 0
        else 1 + xattr_split usable (ent + e) (val + v) attrs)"

definition xattr_total :: "attr list \<Rightarrow> nat" where
  "xattr_total attrs = sum_list (map (\<lambda>a. entry_bytes a + value_bytes a) attrs)"

definition xattr_plan_of :: "attr list \<Rightarrow> xattr_plan res" where
  "xattr_plan_of attrs =
    (let attrs = sort_key attr_key attrs in
     bindE (mapE attr_fits_block attrs) (\<lambda>_.
     let usable = IBODY_AREA - 4;
         split = xattr_split usable 0 0 attrs;
         block_attrs = drop split attrs;
         attrs = take split attrs
     in if 32 + 4 + xattr_total block_attrs > BLOCK_SIZE
        then Inl (Err (Invalid ''xattrs exceed the in-inode area plus one block''))
        else if attrs = [] then Inr \<lparr>xp_ibody = [], xp_block_attrs = block_attrs\<rparr>
        else
          let area = put_u32 (zeros_buf IBODY_AREA) 0 XATTR_MAGIC in
          bindE (render_entries (drop 4 area) attrs usable 0) (\<lambda>(region, hashes).
          Inr \<lparr>xp_ibody = take 4 area @ region, xp_block_attrs = block_attrs\<rparr>)))"

section \<open>Reading back what was rendered\<close>

definition entry_of :: "bool \<Rightarrow> attr \<Rightarrow> xattr_entry" where
  "entry_of is_block a =
    \<lparr>xa_name_index = fst a, xa_name = fst (snd a), xa_value = snd (snd a),
     xa_hash = (if is_block then xattr_entry_hash (fst (snd a)) (snd (snd a)) else 0)\<rparr>"

lemma round4_bounds: "n \<le> round4 n" "round4 n < n + 4" "n + pad4 n = round4 n"
proof -
  show "n \<le> round4 n" "round4 n < n + 4" unfolding round4_def by presburger+
  have "n mod 4 = 0 \<or> n mod 4 = 1 \<or> n mod 4 = 2 \<or> n mod 4 = 3" by presburger
  then show "n + pad4 n = round4 n" by (elim disjE) (simp add: pad4_def round4_def; presburger)+
qed

lemma zero_field_zero: "le32 b off = 0 \<Longrightarrow> off + 4 \<le> length b \<Longrightarrow> le16 b (off + 2) = 0"
proof -
  assume z: "le32 b off = 0" and l: "off + 4 \<le> length b"
  have "to_le32 (le32 b off) = peek b off 4" using l by (simp add: le32_def to_le_from_le)
  then have "peek b off 4 = zeros_buf 4"
    using z by (simp add: to_le32_def)
  moreover have "le16 b (off + 2) = le16 (peek b off 4) 2" by (simp add: le_peek)
  ultimately show ?thesis by (simp add: le_zeros)
qed

text \<open>A zero region between the entries and the values; \<open>n\<close> bytes of entries are to come.\<close>

definition zero_between :: "bytes \<Rightarrow> nat \<Rightarrow> nat \<Rightarrow> bool" where
  "zero_between r lo hi \<longleftrightarrow> (\<forall>i. lo \<le> i \<and> i < hi \<longrightarrow> r ! i = 0)"

lemma zero_between_le32: "zero_between r lo hi \<Longrightarrow> lo + 4 \<le> hi \<Longrightarrow> hi \<le> length r \<Longrightarrow> le32 r lo = 0"
proof -
  assume "zero_between r lo hi" "lo + 4 \<le> hi" "hi \<le> length r"
  then have "peek r lo 4 = zeros_buf 4"
    by (intro nth_equalityI) (auto simp: nth_peek zeros_buf_def zero_between_def)
  moreover have "le32 r lo = le32 (peek r lo 4) 0" by (simp add: le_peek)
  ultimately show ?thesis by (simp add: le_zeros)
qed

text \<open>What one turn leaves in the region.\<close>

lemma render_entry_ok:
  assumes a: "a = (idx, name, value)" and name: "length name < 256"
    and room: "ent + entry_bytes a \<le> vc" "vc + length value \<le> length r"
    and small: "offs_base + length r < 65536"
    and h: "h = (if offs_base \<noteq> 0 then xattr_entry_hash name value else 0)"
  obtains r' where "render_entry offs_base r ent vc a = Inr (r', h)" "length r' = length r"
    "r' ! ent = of_nat (length name)" "r' ! (ent + 1) = idx"
    "le16 r' (ent + 2) = of_nat (offs_base + vc)" "le32 r' (ent + 4) = le32 r (ent + 4)"
    "le32 r' (ent + 8) = of_nat (length value)" "le32 r' (ent + 12) = h"
    "peek r' (ent + 16) (length name) = name" "peek r' vc (length value) = value"
    "\<And>i. i < length r \<Longrightarrow> i < ent \<or> ent + 16 + length name \<le> i \<and> i < vc \<or> vc + length value \<le> i \<Longrightarrow> r' ! i = r ! i"
proof
  have e: "ent + 16 + length name \<le> vc" using room round4_bounds(1) [of "length name"]
    by (simp add: a entry_bytes_def)
  let ?r = "poke (put_u32 (put_u32 (put_u16 (put_u8 (put_u8 (poke r vc value) ent (of_nat (length name)))
    (ent + 1) idx) (ent + 2) (of_nat (offs_base + vc))) (ent + 8) (of_nat (length value))) (ent + 12) h)
    (ent + 16) name"
  show "render_entry offs_base r ent vc a = Inr (?r, h)"
    using e room by (simp add: render_entry_def a h Let_def)
  show "length ?r = length r" by simp
  show "?r ! ent = of_nat (length name)" "?r ! (ent + 1) = idx"
    "le16 ?r (ent + 2) = of_nat (offs_base + vc)" "le32 ?r (ent + 4) = le32 r (ent + 4)"
    "le32 ?r (ent + 8) = of_nat (length value)" "le32 ?r (ent + 12) = h"
    "peek ?r (ent + 16) (length name) = name" "peek ?r vc (length value) = value"
    using e room(2) by (simp_all add: buf_simps)
  show "?r ! i = r ! i"
    if "i < length r" "i < ent \<or> ent + 16 + length name \<le> i \<and> i < vc \<or> vc + length value \<le> i"
    for i
    using that e room(2) by (auto simp: put_unfold nth_poke)
qed

lemma peek_cong:
  "length r = length r' \<Longrightarrow> (\<And>i. off \<le> i \<Longrightarrow> i < off + n \<Longrightarrow> i < length r \<Longrightarrow> r ! i = r' ! i) \<Longrightarrow>
   peek r off n = peek r' off n"
  by (rule nth_equalityI) (auto simp: nth_peek)

lemma value_bytes_ge: "length (snd (snd a)) \<le> value_bytes a"
  by (simp add: value_bytes_def round4_bounds)

text \<open>The parser recovers an entry from any region that agrees with the rendered one on it.\<close>

lemma parse_rendered:
  assumes a: "a = (idx, name, value)" and name: "length name < 256"
    and room: "ent + entry_bytes a \<le> vc" "vc + length value \<le> length r'"
    and small: "length P + length r' < 65536"
    and f: "r' ! ent = of_nat (length name)" "r' ! (ent + 1) = idx"
      "le16 r' (ent + 2) = of_nat (length P + vc)" "le32 r' (ent + 4) = 0"
      "le32 r' (ent + 8) = of_nat (length value)" "le32 r' (ent + 12) = h"
      "peek r' (ent + 16) (length name) = name" "peek r' vc (length value) = value"
  shows "xattr_parse_from r' (P @ r') ent out =
    xattr_parse_from r' (P @ r') (ent + entry_bytes a)
      (out @ [\<lparr>xa_name_index = idx, xa_name = name, xa_value = value, xa_hash = h\<rparr>])"
proof -
  have e: "ent + 16 + length name \<le> vc" "0 < vc" using room round4_bounds(1) [of "length name"]
    by (simp_all add: a entry_bytes_def)
  have n: "unat (r' ! ent) = length name" using name by (simp add: f unat_of_nat)
  have o: "unat (le16 r' (ent + 2)) = length P + vc"
    unfolding f(3) using small room by (simp only: unat_of_nat) simp
  have v: "unat (le32 r' (ent + 8)) = length value"
    unfolding f(5) using small room by (simp add: unat_of_nat)
  have "le16 r' (ent + 2) \<noteq> 0" using o e by auto
  then have nz: "le32 r' ent \<noteq> 0" using zero_field_zero [of r' ent] e room by auto
  have "peek (P @ r') (length P + vc) (length value) = value"
    by (simp add: peek_append_right f)
  moreover have eb: "ent + entry_bytes a = ent + 16 + length name + pad4 (length name)"
    by (simp add: a entry_bytes_def round4_bounds add.assoc)
  ultimately show ?thesis unfolding eb
    using xattr_parse_step [of ent r' "P @ r'" out] e room nz n o v f by simp
qed

lemma render_parse:
  assumes "\<forall>a\<in>set attrs. length (fst (snd a)) < 256" and "offs_base + length r < 65536"
    and "ent + xattr_total attrs + 4 \<le> vc" "vc \<le> length r" "zero_between r ent vc"
  shows "\<exists>r'. render_entries_from offs_base r ent vc hs attrs =
      Inr (r', hs @ map (\<lambda>a. xa_hash (entry_of (offs_base \<noteq> 0) a)) attrs) \<and> length r' = length r \<and>
    (\<forall>i<length r. i < ent \<or> vc \<le> i \<longrightarrow> r' ! i = r ! i) \<and>
    (\<forall>P out. length P = offs_base \<longrightarrow>
       xattr_parse_from r' (P @ r') ent out = Inr (out @ map (entry_of (offs_base \<noteq> 0)) attrs))"
  using assms
proof (induction attrs arbitrary: r ent vc hs)
  case Nil
  then have "le32 r ent = 0" by (intro zero_between_le32) (auto simp: xattr_total_def)
  then show ?case using Nil by (simp add: xattr_parse_end xattr_total_def)
next
  case (Cons a attrs)
  obtain idx name "value" where a: "a = (idx, name, value)" by (cases a) auto
  let ?h = "if offs_base \<noteq> 0 then xattr_entry_hash name value else 0"
  define vc' where "vc' = vc - value_bytes a"
  define e where "e = ent + entry_bytes a"
  have t: "e + xattr_total attrs + 4 \<le> vc'" "value_bytes a \<le> vc" "vc' + value_bytes a = vc"
    using Cons.prems(3) by (simp_all add: xattr_total_def vc'_def e_def)
  have v: "vc' + length value \<le> vc" using value_bytes_ge [of a] t by (simp add: a)
  have name: "length name < 256" using Cons.prems(1) by (simp add: a)
  have ne: "ent + 16 + length name \<le> e" using round4_bounds(1) [of "length name"]
    by (simp add: e_def a entry_bytes_def)
  have "ent + entry_bytes a \<le> vc'" "vc' + length value \<le> length r"
    using t v Cons.prems(4) by (simp_all add: e_def)
  from render_entry_ok [OF a name this Cons.prems(2) refl]
  obtain r1 where r1: "render_entry offs_base r ent vc' a = Inr (r1, ?h)" "length r1 = length r"
    "r1 ! ent = of_nat (length name)" "r1 ! (ent + 1) = idx"
    "le16 r1 (ent + 2) = of_nat (offs_base + vc')" "le32 r1 (ent + 4) = le32 r (ent + 4)"
    "le32 r1 (ent + 8) = of_nat (length value)" "le32 r1 (ent + 12) = ?h"
    "peek r1 (ent + 16) (length name) = name" "peek r1 vc' (length value) = value"
    "\<And>i. i < length r \<Longrightarrow>
      i < ent \<or> ent + 16 + length name \<le> i \<and> i < vc' \<or> vc' + length value \<le> i \<Longrightarrow> r1 ! i = r ! i"
    by metis
  have "zero_between r1 e vc'"
    using Cons.prems(5) r1(11) ne t(3) Cons.prems(4) by (auto simp: zero_between_def e_def)
  then obtain r' where r': "render_entries_from offs_base r1 e vc' (hs @ [?h]) attrs =
      Inr (r', (hs @ [?h]) @ map (\<lambda>a. xa_hash (entry_of (offs_base \<noteq> 0) a)) attrs)"
    "length r' = length r1" "\<And>i. i < length r1 \<Longrightarrow> i < e \<or> vc' \<le> i \<Longrightarrow> r' ! i = r1 ! i"
    "\<And>P out. length P = offs_base \<Longrightarrow> xattr_parse_from r' (P @ r') e out = Inr (out @ map (entry_of (offs_base \<noteq> 0)) attrs)"
    using Cons.IH [of r1 e vc' "hs @ [?h]"] Cons.prems(1,2,4) t r1(2) by auto
  have lr: "e \<le> length r" "vc' \<le> length r" using t Cons.prems(4) by simp_all
  have pk: "peek r' off n = peek r1 off n" if "off + n \<le> e \<or> vc' \<le> off" for off n
    by (rule peek_cong [OF r'(2)]) (use r'(3) r'(2) that in auto)
  have "le32 r (ent + 4) = 0"
    using zero_between_le32 [of r "ent + 4" vc] Cons.prems(4,5) ne t by (simp add: zero_between_def)
  have p: "xattr_parse_from r' (P @ r') ent out = xattr_parse_from r' (P @ r') (ent + entry_bytes a)
      (out @ [\<lparr>xa_name_index = idx, xa_name = name, xa_value = value, xa_hash = ?h\<rparr>])"
    if P: "length P = offs_base" for P out
    by (rule parse_rendered [OF a name, of ent vc'])
      (use ne t v lr Cons.prems(2,4) P r1 r'(2,3) pk \<open>le32 r (ent + 4) = 0\<close>
       in \<open>simp_all add: e_def [symmetric] le16_def le32_def\<close>)
  have "entry_of (offs_base \<noteq> 0) a =
      \<lparr>xa_name_index = idx, xa_name = name, xa_value = value, xa_hash = ?h\<rparr>"
    by (simp add: entry_of_def a)
  moreover have "r' ! i = r ! i" if "i < length r" "i < ent \<or> vc \<le> i" for i
    using that r'(3) [of i] r1(11) [of i] r1(2) t v ne by (auto simp: e_def)
  ultimately show ?case
    using r1(1) r' t p by (auto simp: vc'_def [symmetric] e_def r1(2))
qed

lemma poke_left: "off + length v \<le> length a \<Longrightarrow> poke (a @ b) off v = poke a off v @ b"
  by (rule nth_equalityI) (auto simp: nth_poke nth_append)

section \<open>The block and the in-inode area round trip\<close>

lemma render_block_parse:
  assumes "\<forall>a\<in>set attrs. length (fst (snd a)) < 256" and "32 + 4 + xattr_total attrs \<le> BLOCK_SIZE"
  shows "\<exists>blk view. xattr_render_block crc attrs fseed nr = Inr blk \<and> length blk = BLOCK_SIZE \<and>
    xattr_block_parse blk = Inr view \<and> xb_refcount view = 1 \<and>
    xb_entries view = map (entry_of True) attrs \<and>
    xb_hash view = xattr_block_hash (map xa_hash (xb_entries view)) \<and>
    xb_checksum view = xattr_block_sum crc fseed nr blk"
proof -
  define b0 where "b0 = put_u32 (put_u32 (put_u32 (zeros_buf 4096) 0 XATTR_MAGIC) 4 1) 8 1"
  define r where "r = drop 0x20 b0"
  have b0: "length b0 = 4096" "le32 b0 0 = XATTR_MAGIC" "le32 b0 4 = 1" "le32 b0 8 = 1"
    by (simp_all add: b0_def buf_simps)
  have r: "r = zeros_buf 4064" by (simp add: r_def b0_def buf_simps)
  then have z: "zero_between r 0 4064" "length r = 4064" by (simp_all add: zero_between_def)
  define P where "P k c = put_u32 (put_u32 (take 0x20 b0) 0x0C k) 0x10 c" for k c
  have P: "length (P k c) = 32" "le32 (P k c) 0 = XATTR_MAGIC" "le32 (P k c) 4 = 1"
    "le32 (P k c) 8 = 1" "le32 (P k c) 0x0C = k" "le32 (P k c) 0x10 = c" for k c
    by (simp_all add: P_def b0_def buf_simps)
  have "\<exists>r'. render_entries_from 32 r 0 4064 [] attrs =
      Inr (r', [] @ map (\<lambda>a. xa_hash (entry_of (32 \<noteq> (0::nat)) a)) attrs) \<and> length r' = length r \<and>
    (\<forall>i<length r. i < 0 \<or> 4064 \<le> i \<longrightarrow> r' ! i = r ! i) \<and>
    (\<forall>P out. length P = 32 \<longrightarrow>
       xattr_parse_from r' (P @ r') 0 out = Inr (out @ map (entry_of (32 \<noteq> (0::nat))) attrs))"
    using assms z by (intro render_parse) simp_all
  then obtain r' where r': "render_entries r attrs 4064 32 = Inr (r', map (xa_hash \<circ> entry_of True) attrs)"
    "length r' = 4064"
    "\<And>P out. length P = 32 \<Longrightarrow> xattr_parse_from r' (P @ r') 0 out = Inr (out @ map (entry_of True) attrs)"
    using z by (auto simp: render_entries_def comp_def)
  define k where "k = xattr_block_hash (map (xa_hash \<circ> entry_of True) attrs)"
  define b1 where "b1 = put_u32 (take 0x20 b0 @ r') 0x0C k"
  define c where "c = xattr_block_sum crc fseed nr b1"
  define blk where "blk = put_u32 b1 0x10 c"
  have "xattr_render_block crc attrs fseed nr =
    bindE (render_entries r attrs 4064 32) (\<lambda>(region, hashes).
      let buf = put_u32 (take 0x20 b0 @ region) 0x0C (xattr_block_hash hashes)
      in bindE (csum_xattr_block crc fseed nr buf) (\<lambda>c. Inr (put_u32 buf 0x10 c)))"
    unfolding xattr_render_block_def Let_def r_def b0_def BLOCK_SIZE_def
    by (simp del: XATTR_MAGIC_def)
  then have 1: "xattr_render_block crc attrs fseed nr = Inr blk"
    using r'(1,2) b0(1)
    by (simp add: csum_xattr_block_def Let_def blk_def b1_def c_def k_def)
  have blk: "blk = P k c @ r'"
    using b0(1) by (simp add: blk_def b1_def P_def put_unfold poke_left)
  define view where "view = \<lparr>xb_refcount = 1, xb_hash = k, xb_checksum = c,
      xb_entries = map (entry_of True) attrs\<rparr>"
  have 2: "xattr_block_parse blk = Inr view"
    using r'(3) [of "P k c" "[]"] P [of k c] r'(2)
    by (simp add: blk xattr_block_parse_def buf_simps xattr_parse_entries_def view_def)
  have "length b1 = 4096" using b0 r'(2) by (simp add: b1_def)
  then have 3: "c = xattr_block_sum crc fseed nr blk"
    using xattr_csum.sum_stamp [of b1 crc fseed nr c] by (simp add: blk_def c_def)
  have 4: "length blk = BLOCK_SIZE" using P(1) [of k c] r'(2) by (simp add: blk)
  have 5: "k = xattr_block_hash (map xa_hash (xb_entries view))" by (simp add: k_def view_def)
  show ?thesis
    by (rule exI [of _ blk], rule exI [of _ view])
      (use 1 2 3 [symmetric] 4 5 [symmetric] in \<open>simp add: view_def\<close>)
qed

lemma xattr_split_bound:
  "xattr_split usable ent val attrs \<noteq> 0 \<Longrightarrow>
   ent + val + xattr_total (take (xattr_split usable ent val attrs) attrs) + 4 \<le> usable"
proof (induction usable ent val attrs rule: xattr_split.induct)
  case (2 usable ent val a attrs)
  then have fit: "ent + entry_bytes a + 4 + val + value_bytes a \<le> usable"
    by (auto simp: Let_def split: if_splits)
  show ?case
  proof (cases "xattr_split usable (ent + entry_bytes a) (val + value_bytes a) attrs = 0")
    case True
    then show ?thesis using fit by (simp add: Let_def xattr_total_def)
  next
    case False
    from 2(1) [OF refl refl _ this] fit show ?thesis by (simp add: Let_def xattr_total_def)
  qed
qed simp

text \<open>The split is maximal: the next attribute would not have fitted.\<close>

lemma xattr_split_max:
  "xattr_split usable ent val attrs < length attrs \<Longrightarrow>
   usable < ent + val + xattr_total (take (xattr_split usable ent val attrs + 1) attrs) + 4"
proof (induction usable ent val attrs rule: xattr_split.induct)
  case (2 usable ent val a attrs)
  show ?case
  proof (cases "usable < ent + entry_bytes a + 4 + val + value_bytes a")
    case True
    then show ?thesis by (simp add: Let_def xattr_total_def)
  next
    case False
    from 2(1) [OF refl refl False] 2(2) False show ?thesis by (simp add: Let_def xattr_total_def)
  qed
qed simp

lemma mapE_attr_fits: "mapE attr_fits_block attrs = Inr us \<Longrightarrow> a \<in> set attrs \<Longrightarrow> attr_fits_block a = Inr ()"
  by (induction attrs arbitrary: us) (auto simp: res_simps)

lemma render_ibody:
  assumes "\<forall>a\<in>set attrs. length (fst (snd a)) < 256" and "xattr_total attrs + 4 \<le> 92"
  shows "\<exists>region hashes. render_entries (zeros_buf 92) attrs 92 0 = Inr (region, hashes) \<and>
    length region = 92 \<and> xattr_parse_entries region region = Inr (map (entry_of False) attrs)"
proof -
  have "\<exists>r'. render_entries_from 0 (zeros_buf 92) 0 92 [] attrs =
      Inr (r', [] @ map (\<lambda>a. xa_hash (entry_of (0 \<noteq> (0::nat)) a)) attrs) \<and> length r' = length (zeros_buf 92) \<and>
    (\<forall>i<length (zeros_buf 92). i < 0 \<or> 92 \<le> i \<longrightarrow> r' ! i = zeros_buf 92 ! i) \<and>
    (\<forall>P out. length P = 0 \<longrightarrow>
       xattr_parse_from r' (P @ r') 0 out = Inr (out @ map (entry_of (0 \<noteq> (0::nat))) attrs))"
    using assms by (intro render_parse) (simp_all add: zero_between_def)
  then obtain r' where "render_entries_from 0 (zeros_buf 92) 0 92 [] attrs =
      Inr (r', map (\<lambda>a. xa_hash (entry_of False a)) attrs)" "length r' = 92"
    "xattr_parse_from r' r' 0 [] = Inr (map (entry_of False) attrs)"
    by auto
  then show ?thesis by (simp add: render_entries_def xattr_parse_entries_def)
qed

lemma xattr_plan_ok:
  assumes names: "\<forall>a\<in>set attrs. length (fst (snd a)) < 256" and p: "xattr_plan_of attrs = Inr p"
  defines "sorted_attrs \<equiv> sort_key attr_key attrs"
  defines "n \<equiv> xattr_split 92 0 0 sorted_attrs"
  shows "xp_block_attrs p = drop n sorted_attrs"
    "32 + 4 + xattr_total (xp_block_attrs p) \<le> BLOCK_SIZE"
    "take n sorted_attrs = [] \<Longrightarrow> xp_ibody p = []"
    "take n sorted_attrs \<noteq> [] \<Longrightarrow> length (xp_ibody p) = IBODY_AREA"
    "take n sorted_attrs \<noteq> [] \<Longrightarrow> length pre = 0xA0 \<Longrightarrow>
      ibody_entries (pre @ xp_ibody p) 32 = Inr (map (entry_of False) (take n sorted_attrs))"
proof -
  have u: "IBODY_AREA - 4 = 92" by simp
  note eqs = p [unfolded xattr_plan_of_def Let_def u, folded sorted_attrs_def, folded n_def]
  show "xp_block_attrs p = drop n sorted_attrs"
    "32 + 4 + xattr_total (xp_block_attrs p) \<le> BLOCK_SIZE"
    "take n sorted_attrs = [] \<Longrightarrow> xp_ibody p = []"
    using eqs by (auto simp: res_simps split: if_splits prod.splits)
  assume ne: "take n sorted_attrs \<noteq> []"
  let ?area = "put_u32 (zeros_buf 96) 0 XATTR_MAGIC"
  have area: "drop 4 ?area = zeros_buf 92" "le32 (take 4 ?area) 0 = XATTR_MAGIC" "length (take 4 ?area) = 4"
    by (simp_all add: buf_simps)
  have "xattr_total (take n sorted_attrs) + 4 \<le> 92"
    using xattr_split_bound [of 92 0 0 sorted_attrs] ne by (auto simp: n_def)
  moreover have "\<forall>a\<in>set (take n sorted_attrs). length (fst (snd a)) < 256"
    using names set_take_subset [of n sorted_attrs] by (fastforce simp: sorted_attrs_def)
  ultimately obtain region hashes where r: "render_entries (zeros_buf 92) (take n sorted_attrs) 92 0 = Inr (region, hashes)"
    "length region = 92" "xattr_parse_entries region region = Inr (map (entry_of False) (take n sorted_attrs))"
    using render_ibody by blast
  have ib: "xp_ibody p = take 4 ?area @ region"
    using eqs ne r(1) area(1) by (auto simp: res_simps split: if_splits)
  then show "length (xp_ibody p) = IBODY_AREA" using area(3) r(2) by simp
  assume pre: "length pre = 0xA0"
  have "le32 (pre @ take 4 ?area @ region) 0xA0 = XATTR_MAGIC"
    "drop 0xA4 (pre @ take 4 ?area @ region) = region"
    using pre area(2,3) by (simp_all add: le_append_right le_append_left)
  then show "ibody_entries (pre @ xp_ibody p) 32 = Inr (map (entry_of False) (take n sorted_attrs))"
    using pre area(3) r(2,3) by (simp add: ibody_entries_def ib)
qed

text \<open>The plan fails with an error value or succeeds; it does not panic.\<close>

lemma xattr_plan_no_panic:
  assumes names: "\<forall>a\<in>set attrs. length (fst (snd a)) < 256"
  shows "xattr_plan_of attrs \<noteq> Inl Panic"
proof
  let ?s = "sort_key attr_key attrs"
  let ?t = "take (xattr_split 92 0 0 ?s) ?s"
  assume "xattr_plan_of attrs = Inl Panic"
  moreover have "mapE attr_fits_block ?s \<noteq> Inl Panic"
  proof -
    have small: "length (fst (snd a)) < 256 \<Longrightarrow> attr_fits_block a \<noteq> Inl Panic" for a
      using round4_bounds(2) [of "length (fst (snd a))"]
      by (auto simp: attr_fits_block_def entry_bytes_def)
    have "(\<forall>a\<in>set xs. length (fst (snd a)) < 256) \<Longrightarrow> mapE attr_fits_block xs \<noteq> Inl Panic" for xs
      by (induction xs) (auto simp: res_simps small)
    then show ?thesis using names by simp
  qed
  moreover have "\<exists>x. render_entries (zeros_buf 92) ?t 92 0 = Inr x" if "?t \<noteq> []"
  proof -
    have "xattr_total ?t + 4 \<le> 92" using xattr_split_bound [of 92 0 0 ?s] that by auto
    moreover have "\<forall>a\<in>set ?t. length (fst (snd a)) < 256"
      using names set_take_subset [of _ ?s] by fastforce
    ultimately show ?thesis using render_ibody by blast
  qed
  ultimately show False
    by (auto simp: xattr_plan_of_def Let_def res_simps buf_simps split: if_splits)
qed

text \<open>The order in which attributes were set does not reach the image.\<close>

lemma xattr_plan_order:
  assumes "mset attrs' = mset attrs" "inj_on attr_key (set attrs)"
  shows "xattr_plan_of attrs' = xattr_plan_of attrs"
proof -
  have "set attrs' = set attrs" using assms(1) by (rule mset_eq_setD)
  then have "sort_key attr_key attrs' = sort_key attr_key attrs"
    using assms by (intro sort_key_inj_key_eq) simp_all
  then show ?thesis by (simp add: xattr_plan_of_def)
qed

end
