(* ===== verification/Builder.thy ===== *)
theory Builder
  imports XattrBuild Dirhash
begin

text \<open>
  The declaration phase (src/src/build/mod.rs): options, the builder's state and every call that
  changes it. A call that takes \<^verbatim>\<open>&mut self\<close> is a function from the builder to its
  result and the builder it leaves, so that what an error leaves behind is part of the model.
  Names, targets and attribute names are their UTF-8 bytes. Slots and handles are natural numbers;
  sizes and link counts too, with the overflow and underflow checks written out.
\<close>

section \<open>Calls on a state\<close>

type_synonym ('s, 'a) call = "'s \<Rightarrow> 'a res \<times> 's"

definition bindS :: "('s, 'a) call \<Rightarrow> ('a \<Rightarrow> ('s, 'b) call) \<Rightarrow> ('s, 'b) call" where
  "bindS m f s = (case m s of (Inl e, s') \<Rightarrow> (Inl e, s') | (Inr x, s') \<Rightarrow> f x s')"

definition returnS :: "'a \<Rightarrow> ('s, 'a) call" where
  "returnS x s = (Inr x, s)"

definition failS :: "fault \<Rightarrow> ('s, 'a) call" where
  "failS e s = (Inl e, s)"

definition readS :: "('s \<Rightarrow> 'a res) \<Rightarrow> ('s, 'a) call" where
  "readS f s = (f s, s)"

definition modifyS :: "('s \<Rightarrow> 's) \<Rightarrow> ('s, unit) call" where
  "modifyS f s = (Inr (), f s)"

lemmas call_defs = bindS_def returnS_def failS_def readS_def modifyS_def

section \<open>Options and metadata\<close>

datatype inode_count = Auto | Exact nat

datatype features = LINUX_ROOTFS

type_synonym timespec = "int \<times> u32"

record meta =
  m_mode :: u16
  m_uid :: u32
  m_gid :: u32
  m_mtime :: timespec
  m_atime :: "timespec option"
  m_ctime :: "timespec option"
  m_crtime :: "timespec option"

definition Meta_new :: "u16 \<Rightarrow> u32 \<Rightarrow> u32 \<Rightarrow> timespec \<Rightarrow> meta" where
  "Meta_new mode uid gid mtime =
    \<lparr>m_mode = mode, m_uid = uid, m_gid = gid, m_mtime = mtime,
     m_atime = None, m_ctime = None, m_crtime = None\<rparr>"

record options =
  opt_size_bytes :: nat
  opt_fs_uuid :: bytes
  opt_hash_seed :: hash_seed
  opt_epoch :: int
  opt_inodes :: inode_count
  opt_label :: "bytes option"
  opt_reserved_percent :: nat
  opt_journal_blocks :: "nat option"
  opt_features :: features

definition Options_new :: "nat \<Rightarrow> bytes \<Rightarrow> int \<Rightarrow> options" where
  "Options_new size_bytes fs_uuid epoch =
    \<lparr>opt_size_bytes = size_bytes, opt_fs_uuid = fs_uuid,
     opt_hash_seed = seed_from_uuid fs_uuid, opt_epoch = epoch, opt_inodes = Auto,
     opt_label = None, opt_reserved_percent = 5, opt_journal_blocks = None,
     opt_features = LINUX_ROOTFS\<rparr>"

section \<open>The builder's state\<close>

record name_ref =
  nr_off :: nat
  nr_len :: u8

type_synonym handle = nat

definition ROOT :: handle where [simp]: "ROOT = 0"

text \<open>A directory entry: its name, its child, and whether it is a tombstone.\<close>

type_synonym child_entry = "name_ref \<times> nat \<times> bool"

datatype node_kind =
    Dir (dir_children: "child_entry list") (dir_index: "bytes \<Rightarrow> nat option")
  | File nat
  | Sparse "(nat \<times> nat) list" nat
  | Symlink bytes
  | Special u8 u32 u32

datatype sparse_seg = SegData nat | SegHole nat

datatype special_kind = Char u32 u32 | Block u32 u32 | Fifo | Socket

record node =
  n_kind :: node_kind
  n_meta :: meta
  n_nlink :: nat

record fs_builder =
  fb_opts :: options
  fb_nodes :: "node list"
  fb_names :: bytes
  fb_xattrs :: "nat \<Rightarrow> attr list option"
  fb_declared_bytes :: nat

definition is_dir :: "node \<Rightarrow> bool" where
  "is_dir n = (case n_kind n of Dir _ _ \<Rightarrow> True | _ \<Rightarrow> False)"

definition invalid :: "string \<Rightarrow> fault" where
  "invalid why = Err (Invalid why)"

definition FsBuilder_new :: "options \<Rightarrow> fs_builder res" where
  "FsBuilder_new opts =
    (if opt_size_bytes opts = 0 \<or> opt_size_bytes opts mod 4096 \<noteq> 0 then
       Inl (invalid ''size_bytes must be a positive multiple of 4096'')
     else if (case opt_label opts of Some l \<Rightarrow> length l > 16 | None \<Rightarrow> False) then
       Inl (invalid ''label longer than 16 bytes'')
     else if opt_reserved_percent opts > 50 then Inl (invalid ''reserved_percent > 50'')
     else if opt_epoch opts < 0 \<or> opt_epoch opts > 2 ^ 32 - 1 then
       Inl (invalid ''epoch outside the superblock's u32 range'')
     else Inr \<lparr>fb_opts = opts,
               fb_nodes = [\<lparr>n_kind = Dir [] Map.empty,
                            n_meta = Meta_new 0x1ED 0 0 (opt_epoch opts, 0), n_nlink = 1\<rparr>],
               fb_names = [], fb_xattrs = Map.empty, fb_declared_bytes = 0\<rparr>)"

section \<open>Names\<close>

definition intern :: "bytes \<Rightarrow> (fs_builder, name_ref) call" where
  "intern name b =
    (if name = [] \<or> length name > 255 then
       (Inl (invalid ''name length (must be 1..=255)''), b)
     else if of_char CHR ''/'' \<in> set name \<or> 0 \<in> set name \<or> name = ascii ''.'' \<or> name = ascii ''..'' then
       (Inl (invalid ''invalid name''), b)
     else if 2 ^ 32 \<le> length (fb_names b) then (Inl (invalid ''name arena overflow''), b)
     else (Inr \<lparr>nr_off = length (fb_names b), nr_len = of_nat (length name)\<rparr>,
           b\<lparr>fb_names := fb_names b @ name\<rparr>))"

definition name_of :: "bytes \<Rightarrow> name_ref \<Rightarrow> bytes" where
  "name_of names r = peek names (nr_off r) (unat (nr_len r))"

section \<open>Directories\<close>

definition dir_parts :: "handle \<Rightarrow> fs_builder \<Rightarrow> (child_entry list \<times> (bytes \<Rightarrow> nat option)) res" where
  "dir_parts dir b =
    (if dir < length (fb_nodes b) then
       (case n_kind (fb_nodes b ! dir) of
          Dir children index \<Rightarrow> Inr (children, index)
        | _ \<Rightarrow> Inl (invalid ''parent is not a directory''))
     else Inl (invalid ''invalid handle''))"

definition set_dir ::
    "handle \<Rightarrow> child_entry list \<Rightarrow> (bytes \<Rightarrow> nat option) \<Rightarrow> fs_builder \<Rightarrow> fs_builder" where
  "set_dir dir children index b =
    b\<lparr>fb_nodes := (fb_nodes b)[dir := (fb_nodes b ! dir)\<lparr>n_kind := Dir children index\<rparr>]\<rparr>"

definition check_duplicate :: "handle \<Rightarrow> bytes \<Rightarrow> fs_builder \<Rightarrow> unit res" where
  "check_duplicate dir name b =
    (if dir < length (fb_nodes b) then
       (case n_kind (fb_nodes b ! dir) of
          Dir _ index \<Rightarrow>
            if index name \<noteq> None then Inl (invalid ''duplicate name (remove it first)'') else Inr ()
        | _ \<Rightarrow> Inl (invalid ''parent is not a directory''))
     else Inl (invalid ''parent is not a directory''))"

definition add_entry :: "handle \<Rightarrow> bytes \<Rightarrow> nat \<Rightarrow> (fs_builder, unit) call" where
  "add_entry dir name child =
    bindS (readS (check_duplicate dir name)) (\<lambda>_.
    bindS (intern name) (\<lambda>nref.
    bindS (readS (dir_parts dir)) (\<lambda>(children, index).
    modifyS (set_dir dir (children @ [(nref, child, False)]) (index(name \<mapsto> length children))))))"

section \<open>Declaring inodes\<close>

definition push_node :: "node_kind \<Rightarrow> meta \<Rightarrow> fs_builder \<Rightarrow> fs_builder" where
  "push_node kind m b =
    b\<lparr>fb_nodes := fb_nodes b @ [\<lparr>n_kind = kind, n_meta = m, n_nlink = 1\<rparr>]\<rparr>"

definition add_declared :: "nat \<Rightarrow> (fs_builder, unit) call" where
  "add_declared sz b =
    (if fb_declared_bytes b + sz < 2 ^ 64
     then (Inr (), b\<lparr>fb_declared_bytes := fb_declared_bytes b + sz\<rparr>) else (Inl Panic, b))"

definition fb_mkdir :: "handle \<Rightarrow> bytes \<Rightarrow> meta \<Rightarrow> (fs_builder, handle) call" where
  "fb_mkdir parent name m b =
    (let slot = length (fb_nodes b) in
     bindS (add_entry parent name slot) (\<lambda>_.
     bindS (modifyS (push_node (Dir [] Map.empty) m)) (\<lambda>_.
     returnS slot)) b)"

definition fb_file :: "handle \<Rightarrow> bytes \<Rightarrow> meta \<Rightarrow> nat \<Rightarrow> (fs_builder, handle) call" where
  "fb_file parent name m sz b =
    (let slot = length (fb_nodes b) in
     bindS (add_entry parent name slot) (\<lambda>_.
     bindS (modifyS (push_node (File sz) m)) (\<lambda>_.
     bindS (add_declared sz) (\<lambda>_.
     returnS slot))) b)"

fun seg_len :: "sparse_seg \<Rightarrow> nat" where
  "seg_len (SegData l) = l"
| "seg_len (SegHole l) = l"

definition push_data_seg :: "nat \<Rightarrow> nat \<Rightarrow> (nat \<times> nat) list \<Rightarrow> (nat \<times> nat) list" where
  "push_data_seg offset l data_segs =
    (if data_segs \<noteq> [] \<and> fst (last data_segs) + snd (last data_segs) = offset
     then butlast data_segs @ [(fst (last data_segs), snd (last data_segs) + l)]
     else data_segs @ [(offset, l)])"

fun sparse_segs :: "(nat \<times> nat) list \<Rightarrow> nat \<Rightarrow> sparse_seg list \<Rightarrow> ((nat \<times> nat) list \<times> nat) res" where
  "sparse_segs data_segs offset [] = Inr (data_segs, offset)"
| "sparse_segs data_segs offset (seg # segs) =
    (let len = seg_len seg in
     if len = 0 then Inl (invalid ''zero-length sparse segment'')
     else if segs \<noteq> [] \<and> len mod 4096 \<noteq> 0 then
       Inl (invalid ''sparse segments must be block-aligned (except the last)'')
     else
       let data_segs = (case seg of SegData l \<Rightarrow> push_data_seg offset l data_segs | SegHole _ \<Rightarrow> data_segs)
       in if offset + len < 2 ^ 64 then sparse_segs data_segs (offset + len) segs else Inl Panic)"

definition fb_file_sparse :: "handle \<Rightarrow> bytes \<Rightarrow> meta \<Rightarrow> sparse_seg list \<Rightarrow> (fs_builder, handle) call" where
  "fb_file_sparse parent name m segments b =
    bindS (readS (\<lambda>_. sparse_segs [] 0 segments)) (\<lambda>(data_segs, sz).
    let slot = length (fb_nodes b) in
    bindS (add_entry parent name slot) (\<lambda>_.
    bindS (modifyS (push_node (Sparse data_segs sz) m)) (\<lambda>_.
    bindS (add_declared sz) (\<lambda>_.
    returnS slot)))) b"

definition fb_symlink :: "handle \<Rightarrow> bytes \<Rightarrow> bytes \<Rightarrow> meta \<Rightarrow> (fs_builder, handle) call" where
  "fb_symlink parent name target m b =
    (if target = [] \<or> length target > 4095 \<or> 0 \<in> set target then
       failS (invalid ''symlink target length (must be 1..=4095, no NUL)'') b
     else
       let slot = length (fb_nodes b) in
       bindS (add_entry parent name slot) (\<lambda>_.
       bindS (modifyS (push_node (Symlink target) m)) (\<lambda>_.
       returnS slot)) b)"

definition fb_mknod :: "handle \<Rightarrow> bytes \<Rightarrow> meta \<Rightarrow> special_kind \<Rightarrow> (fs_builder, handle) call" where
  "fb_mknod parent name m kind b =
    (let (ftype, major, minor) = (case kind of
           Char major minor \<Rightarrow> (ft_CHR, major, minor)
         | Block major minor \<Rightarrow> (ft_BLK, major, minor)
         | Fifo \<Rightarrow> (ft_FIFO, 0, 0)
         | Socket \<Rightarrow> (ft_SOCK, 0, 0))
     in if major > 0xFFF \<or> minor > 0xFFFFF then
          failS (invalid ''device numbers out of dev_t range'') b
        else
          let slot = length (fb_nodes b) in
          bindS (add_entry parent name slot) (\<lambda>_.
          bindS (modifyS (push_node (Special ftype major minor) m)) (\<lambda>_.
          returnS slot)) b)"

section \<open>Attributes, links and metadata\<close>

definition strip_prefix :: "bytes \<Rightarrow> bytes \<Rightarrow> bytes option" where
  "strip_prefix p name = (if take (length p) name = p then Some (drop (length p) name) else None)"

definition xattr_namespace :: "bytes \<Rightarrow> (u8 \<times> bytes) option" where
  "xattr_namespace name =
    (case strip_prefix (ascii ''user.'') name of Some s \<Rightarrow> Some (1, s) | None \<Rightarrow>
     if name = ascii ''system.posix_acl_access'' then Some (2, [])
     else if name = ascii ''system.posix_acl_default'' then Some (3, [])
     else (case strip_prefix (ascii ''trusted.'') name of Some s \<Rightarrow> Some (4, s) | None \<Rightarrow>
     (case strip_prefix (ascii ''security.'') name of Some s \<Rightarrow> Some (6, s) | None \<Rightarrow>
     (case strip_prefix (ascii ''system.'') name of Some s \<Rightarrow> Some (7, s) | None \<Rightarrow> None))))"

fun attr_put :: "u8 \<Rightarrow> bytes \<Rightarrow> bytes \<Rightarrow> attr list \<Rightarrow> attr list" where
  "attr_put index suffix value [] = [(index, suffix, value)]"
| "attr_put index suffix value ((i, n, v) # attrs) =
     (if i = index \<and> n = suffix then (i, n, value) # attrs
      else (i, n, v) # attr_put index suffix value attrs)"

definition fb_set_xattr :: "handle \<Rightarrow> bytes \<Rightarrow> bytes \<Rightarrow> (fs_builder, unit) call" where
  "fb_set_xattr h name value b =
    (if \<not> h < length (fb_nodes b) then failS (invalid ''invalid handle'') b
     else (case xattr_namespace name of
       None \<Rightarrow> failS (invalid ''xattr name has no recognized namespace'') b
     | Some (index, suffix) \<Rightarrow>
         if length suffix > 255 then failS (invalid ''xattr name too long'') b
         else
           let attrs = (case fb_xattrs b h of Some l \<Rightarrow> l | None \<Rightarrow> []) in
           (Inr (), b\<lparr>fb_xattrs := (fb_xattrs b)(h \<mapsto> attr_put index suffix value attrs)\<rparr>)))"

definition set_nlink :: "nat \<Rightarrow> nat \<Rightarrow> fs_builder \<Rightarrow> fs_builder" where
  "set_nlink slot k b = b\<lparr>fb_nodes := (fb_nodes b)[slot := (fb_nodes b ! slot)\<lparr>n_nlink := k\<rparr>]\<rparr>"

definition fb_hardlink :: "handle \<Rightarrow> bytes \<Rightarrow> handle \<Rightarrow> (fs_builder, unit) call" where
  "fb_hardlink parent name target b =
    (if \<not> target < length (fb_nodes b) then failS (invalid ''invalid handle'') b
     else if is_dir (fb_nodes b ! target) then failS (invalid ''hardlink to a directory'') b
     else if n_nlink (fb_nodes b ! target) \<ge> unat LINK_MAX then failS (invalid ''more than LINK_MAX links'') b
     else
       bindS (add_entry parent name target) (\<lambda>_.
       modifyS (\<lambda>b. set_nlink target (n_nlink (fb_nodes b ! target) + 1) b)) b)"

definition fb_set_meta :: "handle \<Rightarrow> meta \<Rightarrow> (fs_builder, unit) call" where
  "fb_set_meta h m b =
    (if h < length (fb_nodes b)
     then (Inr (), b\<lparr>fb_nodes := (fb_nodes b)[h := (fb_nodes b ! h)\<lparr>n_meta := m\<rparr>]\<rparr>)
     else (Inl (invalid ''invalid handle''), b))"

section \<open>Removal\<close>

fun kind_size :: "node_kind \<Rightarrow> nat" where
  "kind_size (File sz) = sz"
| "kind_size (Sparse _ sz) = sz"
| "kind_size _ = 0"

definition fb_unlink :: "nat \<Rightarrow> (fs_builder, unit) call" where
  "fb_unlink slot b =
    (if \<not> slot < length (fb_nodes b) then failS Panic b
     else
       let bytes = kind_size (n_kind (fb_nodes b ! slot)); k = n_nlink (fb_nodes b ! slot) in
       if k = 0 then failS Panic b
       else
         let b' = set_nlink slot (k - 1) b in
         if k - 1 = 0 then
           (if fb_declared_bytes b' < bytes then failS Panic b'
            else (Inr (), b'\<lparr>fb_declared_bytes := fb_declared_bytes b' - bytes\<rparr>))
         else (Inr (), b'))"

definition live_children :: "child_entry list \<Rightarrow> nat list" where
  "live_children children = map (\<lambda>(_, c, _). c) (filter (\<lambda>(_, _, dead). \<not> dead) children)"

definition tombstone_all :: "child_entry list \<Rightarrow> child_entry list" where
  "tombstone_all = map (\<lambda>(r, c, _). (r, c, True))"

text \<open>The inner loop over the live children: directories go on the stack, others lose a link.\<close>

fun visit_live :: "nat list \<Rightarrow> nat list \<Rightarrow> (fs_builder, nat list) call" where
  "visit_live stack [] b = (Inr stack, b)"
| "visit_live stack (c # cs) b =
    (if \<not> c < length (fb_nodes b) then (Inl Panic, b)
     else if is_dir (fb_nodes b ! c) then visit_live (stack @ [c]) cs b
     else bindS (fb_unlink c) (\<lambda>_. visit_live stack cs) b)"

text \<open>What the removal of one directory from the stack does to it before its children.\<close>

definition clear_dir :: "nat \<Rightarrow> fs_builder \<Rightarrow> fs_builder" where
  "clear_dir slot b =
    set_dir slot (tombstone_all (dir_children (n_kind (fb_nodes b ! slot)))) Map.empty (set_nlink slot 0 b)"

definition node_live :: "node \<Rightarrow> nat list" where
  "node_live n = (case n_kind n of Dir children _ \<Rightarrow> live_children children | _ \<Rightarrow> [])"

definition live_total :: "fs_builder \<Rightarrow> nat" where
  "live_total b = sum_list (map (length \<circ> node_live) (fb_nodes b))"

lemma visit_live_total:
  "visit_live stack cs b = (Inr stack', b') \<Longrightarrow> live_total b' = live_total b \<and> (cs = [] \<longrightarrow> stack' = stack)"
proof (induction stack cs b rule: visit_live.induct)
  case (2 stack c cs b)
  have keep: "live_total (set_nlink c k b) = live_total b" if "c < length (fb_nodes b)" for k
  proof -
    have "map (length \<circ> node_live) (fb_nodes (set_nlink c k b)) = map (length \<circ> node_live) (fb_nodes b)"
      using that by (intro nth_equalityI) (auto simp: set_nlink_def nth_list_update node_live_def)
    then show ?thesis by (simp add: live_total_def)
  qed
  show ?case
  proof (cases "is_dir (fb_nodes b ! c)")
    case True
    then show ?thesis using 2 by (auto split: if_splits)
  next
    case False
    then obtain b1 where b1: "fb_unlink c b = (Inr (), b1)" "visit_live stack cs b1 = (Inr stack', b')"
      using 2(3) by (auto simp: bindS_def split: if_splits prod.splits sum.splits)
    have "live_total b1 = live_total b" using b1(1) keep
      by (auto simp: fb_unlink_def Let_def failS_def live_total_def split: if_splits)
    then show ?thesis using 2(2) [OF _ False, of b1] 2(3) b1 False by (auto split: if_splits)
  qed
qed simp

lemma live_total_clear:
  assumes "slot < length (fb_nodes b)" "n_kind (fb_nodes b ! slot) = Dir children index"
  shows "live_total (clear_dir slot b) + length (live_children children) = live_total b"
proof -
  have z: "live_children (tombstone_all children) = []"
    by (auto simp: live_children_def tombstone_all_def filter_empty_conv)
  have "fb_nodes (clear_dir slot b) = (fb_nodes b)[slot := \<lparr>n_kind = Dir (tombstone_all children) Map.empty,
      n_meta = n_meta (fb_nodes b ! slot), n_nlink = 0\<rparr>]"
    using assms by (simp add: clear_dir_def set_dir_def set_nlink_def) (intro arg_cong2 [where f = "list_update _"], simp_all)
  then have "map (length \<circ> node_live) (fb_nodes (clear_dir slot b)) =
      (map (length \<circ> node_live) (fb_nodes b))[slot := 0]"
    by (simp add: map_update node_live_def z)
  moreover have "(map (length \<circ> node_live) (fb_nodes b)) ! slot = length (live_children children)"
    using assms by (simp add: node_live_def)
  ultimately show ?thesis using assms(1)
    elem_le_sum_list [of slot "map (length \<circ> node_live) (fb_nodes b)"]
    by (simp add: live_total_def sum_list_update)
qed

lemma visit_decreases:
  assumes "stack \<noteq> []" "last stack < length (fb_nodes b)"
    "n_kind (fb_nodes b ! last stack) = Dir children index"
    "visit_live (butlast stack) (live_children children) (clear_dir (last stack) b) = (Inr stack', b')"
  shows "live_total b' < live_total b \<or> live_total b' = live_total b \<and> length stack' < length stack"
proof -
  note v = visit_live_total [OF assms(4)]
  have "live_total b' + length (live_children children) = live_total b"
    using v live_total_clear [OF assms(2,3)] by simp
  moreover have "length stack' < length stack" if "live_children children = []"
    using that v assms(1) by simp
  ultimately show ?thesis by (cases "live_children children") auto
qed

function (sequential) remove_subtree_loop :: "nat list \<Rightarrow> (fs_builder, unit) call" where
  "remove_subtree_loop stack b =
    (if stack = [] then (Inr (), b)
     else
       let slot = last stack in
       if \<not> slot < length (fb_nodes b) then (Inl Panic, b)
       else (case n_kind (fb_nodes b ! slot) of
           Dir children index \<Rightarrow>
             (case visit_live (butlast stack) (live_children children) (clear_dir slot b) of
                (Inl e, b') \<Rightarrow> (Inl e, b')
              | (Inr stack', b') \<Rightarrow> remove_subtree_loop stack' b')
         | _ \<Rightarrow> (Inl Panic, b)))"
  by pat_completeness auto
termination
  by (relation "measures [\<lambda>(stack, b). live_total b, \<lambda>(stack, b). length stack]")
    (auto dest!: visit_decreases [OF _ _ _ sym])

declare remove_subtree_loop.simps [simp del]

definition remove_subtree :: "nat \<Rightarrow> (fs_builder, unit) call" where
  "remove_subtree dir_slot = remove_subtree_loop [dir_slot]"

definition fb_remove :: "handle \<Rightarrow> bytes \<Rightarrow> (fs_builder, unit) call" where
  "fb_remove dir name =
    bindS (readS (dir_parts dir)) (\<lambda>(children, index).
    (case index name of
       None \<Rightarrow> failS (invalid ''not found'')
     | Some idx \<Rightarrow>
         if \<not> idx < length children then failS Panic
         else
           let child = fst (snd (children ! idx)) in
           bindS (modifyS (set_dir dir (children[idx := (fst (children ! idx), child, True)]) (index(name := None)))) (\<lambda>_ b.
           if \<not> child < length (fb_nodes b) then (Inl Panic, b)
           else if is_dir (fb_nodes b ! child) then remove_subtree child b
           else fb_unlink child b)))"

end
