(* ===== verification/Geometry.thy ===== *)
theory Geometry
  imports Consts
begin

text \<open>
  Filesystem geometry (src/src/layout/geometry.rs): pure functions of the image size, the inode
  policy and the journal size. Every quantity but the inode count is bounded by the size checks of
  \<open>Geometry_new\<close>, so the fields are natural numbers; \<open>inodes_count\<close> multiplies two
  \<^verbatim>\<open>u32\<close>s that can exceed \<open>2\<^sup>3\<^sup>2\<close> and panics then, and
  \<open>blocks_in_group\<close> subtracts and panics below zero.
\<close>

record geometry =
  geo_blocks :: nat
  geo_groups :: nat
  geo_inodes_per_group :: nat
  geo_gdt_blocks :: nat
  geo_journal_blocks :: nat
  geo_groups_per_flex :: nat

definition div_ceil :: "nat \<Rightarrow> nat \<Rightarrow> nat" where
  "div_ceil a b = (a + b - 1) div b"

definition next_multiple_of :: "nat \<Rightarrow> nat \<Rightarrow> nat" where
  "next_multiple_of a b = div_ceil a b * b"

definition clamp :: "nat \<Rightarrow> nat \<Rightarrow> nat \<Rightarrow> nat" where
  "clamp x lo hi = max lo (min x hi)"

definition INODES_PER_BLOCK :: nat where
  [simp]: "INODES_PER_BLOCK = BLOCK_SIZE div INODE_SIZE"

definition default_journal_blocks :: "nat \<Rightarrow> nat" where
  "default_journal_blocks fs_blocks =
    (if fs_blocks \<le> 32767 then 1024
     else if fs_blocks \<le> 262143 then 4096
     else if fs_blocks \<le> 524287 then 8192
     else if fs_blocks \<le> 4194303 then 16384
     else if fs_blocks \<le> 8388607 then 32768
     else if fs_blocks \<le> 16777215 then 65536
     else if fs_blocks \<le> 33554431 then 131072
     else 262144)"

definition Geometry_new :: "nat \<Rightarrow> nat option \<Rightarrow> nat option \<Rightarrow> geometry res" where
  "Geometry_new size_bytes total_inodes journal_blocks =
    (if size_bytes = 0 \<or> size_bytes mod BLOCK_SIZE \<noteq> 0 then
       Inl (Err (Unsupported ''image size is not a positive multiple of 4096''))
     else
       let blocks = size_bytes div BLOCK_SIZE in
       if 2 ^ 32 - 1 \<le> blocks then
         Inl (Err (Unsupported ''image needs >= 2^32 blocks (64bit feature not emitted)''))
       else if blocks < 2048 then
         Inl (Err (Unsupported ''image too small for a journal (< 2048 blocks)''))
       else
         let groups = div_ceil blocks BLOCKS_PER_GROUP;
             wanted = (case total_inodes of Some n \<Rightarrow> n | None \<Rightarrow> blocks * BLOCK_SIZE div 16384);
             ipg = clamp (next_multiple_of (div_ceil wanted groups) INODES_PER_BLOCK)
                     INODES_PER_BLOCK 32768;
             gdt_blocks = div_ceil (groups * 32) BLOCK_SIZE;
             journal = (case journal_blocks of Some j \<Rightarrow> j | None \<Rightarrow> default_journal_blocks blocks)
         in if blocks < journal * 4 then
              Inl (Err (Unsupported ''journal larger than a quarter of the fs''))
            else Inr \<lparr>geo_blocks = blocks, geo_groups = groups, geo_inodes_per_group = ipg,
                      geo_gdt_blocks = gdt_blocks, geo_journal_blocks = journal,
                      geo_groups_per_flex = 16\<rparr>)"

definition inodes_count :: "geometry \<Rightarrow> nat res" where
  "inodes_count geo =
    (let n = geo_inodes_per_group geo * geo_groups geo in if n < 2 ^ 32 then Inr n else Inl Panic)"

definition itable_blocks :: "geometry \<Rightarrow> nat" where
  "itable_blocks geo = geo_inodes_per_group geo div INODES_PER_BLOCK"

definition group_start :: "nat \<Rightarrow> nat" where
  "group_start g = g * BLOCKS_PER_GROUP"

definition blocks_in_group :: "geometry \<Rightarrow> nat \<Rightarrow> nat res" where
  "blocks_in_group geo g =
    (if geo_blocks geo < group_start g then Inl Panic
     else Inr (min (geo_blocks geo - group_start g) BLOCKS_PER_GROUP))"

text \<open>The division loop of \<^verbatim>\<open>is_power_of\<close>; it does not return on 0.\<close>

partial_function (option) is_power_of :: "nat \<Rightarrow> nat \<Rightarrow> bool option" where
  "is_power_of n base = (if n mod base = 0 then is_power_of (n div base) base else Some (n = 1))"

definition has_backup :: "nat \<Rightarrow> bool" where
  "has_backup g \<longleftrightarrow> g = 1 \<or>
    (1 < g \<and> (is_power_of g 3 = Some True \<or> is_power_of g 5 = Some True \<or> is_power_of g 7 = Some True))"

definition backup_groups :: "geometry \<Rightarrow> nat list" where
  "backup_groups geo = filter has_backup [1..<geo_groups geo]"

definition overhead :: "geometry \<Rightarrow> nat" where
  "overhead geo =
    1 + geo_gdt_blocks geo
    + length (backup_groups geo) * (1 + geo_gdt_blocks geo)
    + 2 * geo_groups geo
    + geo_groups geo * itable_blocks geo
    + geo_journal_blocks geo"

section \<open>Rounding\<close>

lemma div_ceil_bounds:
  assumes "0 < b"
  shows "a \<le> div_ceil a b * b" "div_ceil a b * b < a + b"
proof -
  have "(a + b - 1) div b * b + (a + b - 1) mod b = a + b - 1" by simp
  moreover have "(a + b - 1) mod b < b" using assms by simp
  ultimately show "a \<le> div_ceil a b * b" "div_ceil a b * b < a + b"
    using assms unfolding div_ceil_def by linarith+
qed

lemma div_ceil_le_iff:
  assumes b: "0 < b"
  shows "div_ceil a b \<le> c \<longleftrightarrow> a \<le> c * b"
proof
  assume "div_ceil a b \<le> c"
  then have "div_ceil a b * b \<le> c * b" by (rule mult_le_mono1)
  then show "a \<le> c * b" using div_ceil_bounds(1) [OF b, of a] by (rule order.trans [rotated])
next
  assume "a \<le> c * b"
  then have "div_ceil a b * b < (c + 1) * b" using div_ceil_bounds(2) [OF b, of a] by simp
  then show "div_ceil a b \<le> c" by (metis Suc_eq_plus1 less_Suc_eq_le mult_less_cancel2)
qed

lemma div_ceil_pos: "0 < b \<Longrightarrow> 0 < a \<Longrightarrow> 0 < div_ceil a b"
  using div_ceil_le_iff [of b a 0] by simp

lemma next_multiple_of_bounds:
  assumes "0 < b"
  shows "b dvd next_multiple_of a b" "a \<le> next_multiple_of a b" "next_multiple_of a b < a + b"
  using div_ceil_bounds [OF assms, of a] by (simp_all add: next_multiple_of_def)

section \<open>The geometry is well-formed\<close>

definition geometry_wf :: "geometry \<Rightarrow> bool" where
  "geometry_wf geo \<longleftrightarrow>
    2048 \<le> geo_blocks geo \<and> geo_blocks geo < 2 ^ 32 - 1 \<and>
    1 \<le> geo_groups geo \<and>
    (geo_groups geo - 1) * BLOCKS_PER_GROUP < geo_blocks geo \<and>
    geo_blocks geo \<le> geo_groups geo * BLOCKS_PER_GROUP \<and>
    16 dvd geo_inodes_per_group geo \<and> 16 \<le> geo_inodes_per_group geo \<and>
    geo_inodes_per_group geo \<le> 32768 \<and>
    geo_groups geo * 32 \<le> geo_gdt_blocks geo * BLOCK_SIZE \<and>
    geo_gdt_blocks geo * BLOCK_SIZE < geo_groups geo * 32 + BLOCK_SIZE \<and>
    geo_journal_blocks geo * 4 \<le> geo_blocks geo \<and>
    geo_groups_per_flex geo = 16"

lemma clamp_bounds: "lo \<le> hi \<Longrightarrow> lo \<le> clamp x lo hi \<and> clamp x lo hi \<le> hi"
  by (simp add: clamp_def)

lemma Geometry_new_wf:
  assumes "Geometry_new sz inos journal = Inr geo"
  shows "geometry_wf geo"
proof -
  define blocks where "blocks = sz div BLOCK_SIZE"
  have b: "2048 \<le> blocks" "blocks < 2 ^ 32 - 1"
    and groups: "geo_blocks geo = blocks" "geo_groups geo = div_ceil blocks BLOCKS_PER_GROUP"
    and gdt: "geo_gdt_blocks geo = div_ceil (geo_groups geo * 32) BLOCK_SIZE"
    and j: "geo_journal_blocks geo * 4 \<le> geo_blocks geo" "geo_groups_per_flex geo = 16"
    and ipg: "\<exists>x. geo_inodes_per_group geo = clamp (next_multiple_of x 16) 16 32768"
    using assms by (auto simp: Geometry_new_def Let_def blocks_def split: if_splits)
  have g: "blocks \<le> geo_groups geo * BLOCKS_PER_GROUP"
    "geo_groups geo * BLOCKS_PER_GROUP < blocks + BLOCKS_PER_GROUP"
    using div_ceil_bounds [of BLOCKS_PER_GROUP blocks] groups by simp_all
  have "16 dvd geo_inodes_per_group geo"
    using ipg next_multiple_of_bounds(1) [of 16]
    by (auto simp: clamp_def max_def min_def)
  moreover have "16 \<le> geo_inodes_per_group geo" "geo_inodes_per_group geo \<le> 32768"
    using ipg by (auto simp: clamp_def)
  moreover have "geo_groups geo * 32 \<le> geo_gdt_blocks geo * BLOCK_SIZE"
    "geo_gdt_blocks geo * BLOCK_SIZE < geo_groups geo * 32 + BLOCK_SIZE"
    using div_ceil_bounds [of BLOCK_SIZE "geo_groups geo * 32"] gdt by simp_all
  ultimately show ?thesis using b groups j g by (simp add: geometry_wf_def)
qed

lemma geometry_bounds:
  assumes "geometry_wf geo"
  shows "geo_groups geo \<le> 131072" "1 \<le> geo_gdt_blocks geo" "geo_gdt_blocks geo \<le> 1024"
    "itable_blocks geo * INODES_PER_BLOCK = geo_inodes_per_group geo"
    "1 \<le> itable_blocks geo" "itable_blocks geo \<le> 2048"
proof -
  have w: "(geo_groups geo - 1) * 32768 < geo_blocks geo" "geo_blocks geo < 2 ^ 32 - 1"
    "1 \<le> geo_groups geo" "geo_groups geo * 32 \<le> geo_gdt_blocks geo * 4096"
    "geo_gdt_blocks geo * 4096 < geo_groups geo * 32 + 4096"
    "16 dvd geo_inodes_per_group geo" "16 \<le> geo_inodes_per_group geo"
    "geo_inodes_per_group geo \<le> 32768"
    using assms by (simp_all add: geometry_wf_def)
  show "geo_groups geo \<le> 131072" using w(1,2,3) by simp
  with w show "1 \<le> geo_gdt_blocks geo" "geo_gdt_blocks geo \<le> 1024" by simp_all
  show "itable_blocks geo * INODES_PER_BLOCK = geo_inodes_per_group geo" "1 \<le> itable_blocks geo"
    "itable_blocks geo \<le> 2048"
    using w by (auto simp: itable_blocks_def elim!: dvdE)
qed

lemma blocks_in_group_eq:
  assumes "geometry_wf geo" "g < geo_groups geo"
  shows "blocks_in_group geo g =
      Inr (if g + 1 = geo_groups geo then geo_blocks geo - group_start g else BLOCKS_PER_GROUP)"
    "group_start g < geo_blocks geo"
proof -
  have w: "(geo_groups geo - 1) * 32768 < geo_blocks geo" "geo_blocks geo \<le> geo_groups geo * 32768"
    using assms by (simp_all add: geometry_wf_def)
  have "g * 32768 \<le> (geo_groups geo - 1) * 32768" using assms(2) by (intro mult_le_mono1) simp
  then show s: "group_start g < geo_blocks geo" using w by (simp add: group_start_def)
  show "blocks_in_group geo g =
      Inr (if g + 1 = geo_groups geo then geo_blocks geo - group_start g else BLOCKS_PER_GROUP)"
  proof (cases "g + 1 = geo_groups geo")
    case True
    then have "geo_groups geo = Suc g" by simp
    then show ?thesis using w s by (simp add: blocks_in_group_def group_start_def min_def)
  next
    case False
    then have "(g + 1) * 32768 \<le> (geo_groups geo - 1) * 32768"
      using assms(2) by (intro mult_le_mono1) simp
    then show ?thesis using False w s by (simp add: blocks_in_group_def group_start_def min_def)
  qed
qed

text \<open>The groups tile the device.\<close>

fun group_blocks :: "geometry \<Rightarrow> nat \<Rightarrow> nat" where
  "group_blocks geo g = (case blocks_in_group geo g of Inr n \<Rightarrow> n | Inl _ \<Rightarrow> 0)"

lemma groups_tile:
  assumes "geometry_wf geo"
  shows "(\<Sum>g<geo_groups geo. group_blocks geo g) = geo_blocks geo"
proof -
  have w: "(geo_groups geo - 1) * 32768 < geo_blocks geo" "1 \<le> geo_groups geo"
    using assms by (simp_all add: geometry_wf_def)
  then obtain n where n: "geo_groups geo = Suc n" by (cases "geo_groups geo") auto
  have "(\<Sum>g<n. group_blocks geo g) = (\<Sum>g<n. BLOCKS_PER_GROUP)"
    by (rule sum.cong) (use n in \<open>simp_all add: blocks_in_group_eq [OF assms]\<close>)
  then show ?thesis
    using w n by (simp add: blocks_in_group_eq [OF assms] group_start_def)
qed

section \<open>The default journal\<close>

lemma default_journal_fits: "default_journal_blocks b * 4 \<le> b \<longleftrightarrow> 4096 \<le> b"
  by (simp add: default_journal_blocks_def)

lemma default_journal_mono: "a \<le> b \<Longrightarrow> default_journal_blocks a \<le> default_journal_blocks b"
  by (simp add: default_journal_blocks_def)

section \<open>Backup groups\<close>

lemma is_power_of_returns:
  assumes "1 < base"
  shows "0 < n \<Longrightarrow> is_power_of n base = Some (\<exists>k. n = base ^ k)"
proof (induction n rule: less_induct)
  case (less n)
  show ?case
  proof (cases "n mod base = 0")
    case True
    then obtain m where m: "n = base * m" by (auto elim: dvdE simp: mod_eq_0_iff_dvd)
    then have m0: "0 < m" "m < n" using less.prems assms by auto
    have "(\<exists>k. n = base ^ k) \<longleftrightarrow> (\<exists>k. m = base ^ k)"
    proof
      assume "\<exists>k. n = base ^ k"
      then obtain k where k: "n = base ^ k" by blast
      then have "k \<noteq> 0" using m assms by (auto intro: ccontr)
      then have "m = base ^ (k - 1)" using k m assms by (cases k) auto
      then show "\<exists>k. m = base ^ k" ..
    next
      assume "\<exists>k. m = base ^ k"
      then show "\<exists>k. n = base ^ k" using m by (metis power_Suc)
    qed
    moreover have "is_power_of n base = is_power_of m base"
      using m assms by (subst is_power_of.simps) simp
    ultimately show ?thesis using less.IH [OF m0(2) m0(1)] by simp
  next
    case False
    have "(\<exists>k. n = base ^ k) \<longleftrightarrow> n = 1"
    proof
      assume "\<exists>k. n = base ^ k"
      then obtain k where k: "n = base ^ k" by blast
      then show "n = 1" using False by (cases k) auto
    qed (auto intro: exI [of _ 0])
    then show ?thesis using False by (subst is_power_of.simps) simp
  qed
qed

lemma has_backup_iff: "has_backup g \<longleftrightarrow> 1 \<le> g \<and> (\<exists>k. g = 3 ^ k \<or> g = 5 ^ k \<or> g = 7 ^ k)"
proof (cases "1 < g")
  case True
  then show ?thesis by (auto simp: has_backup_def is_power_of_returns)
next
  case False
  moreover have "\<exists>k. (1 :: nat) = 3 ^ k" by (rule exI [of _ 0]) simp
  ultimately show ?thesis by (cases "g = 1") (auto simp: has_backup_def)
qed

lemma backup_groups_set:
  "set (backup_groups geo) = {g. 1 \<le> g \<and> g < geo_groups geo \<and> (\<exists>k. g = 3 ^ k \<or> g = 5 ^ k \<or> g = 7 ^ k)}"
  by (simp add: backup_groups_def has_backup_iff set_eq_iff conj_ac)

lemma backup_groups_sorted: "sorted_wrt (<) (backup_groups geo)"
  by (simp add: backup_groups_def sorted_wrt_filter)

end
