(* ===== verification/Layout.thy ===== *)
theory Layout
  imports Builder Alloc Geometry
begin

text \<open>
  The frozen layout (src/src/build/seal.rs, \<^verbatim>\<open>Layout\<close> and its parts): what sealing hands to the
  writer. Block addresses, slots and inode numbers are natural numbers; a rendered inode is its 256
  bytes. The map of a file to byte ranges, \<^verbatim>\<open>Layout::extents\<close>, is here too.
\<close>

datatype seg_src = SegBytes bytes | SegItable nat

record segment =
  seg_block :: nat
  seg_blocks :: nat
  seg_src :: seg_src

record layout =
  lay_opts :: options
  lay_geo :: geometry
  lay_slot_ino :: "nat list"
  lay_file_runs :: "(run list \<times> nat) list"
  lay_segments :: "segment list"
  lay_data_runs :: "run list"
  lay_inodes :: "bytes list"
  lay_max_ino :: nat

definition image_len :: "layout \<Rightarrow> nat" where
  "image_len lay = opt_size_bytes (lay_opts lay)"

text \<open>The byte ranges of the runs of a file, the last one cut at the declared size.\<close>

fun run_ranges :: "nat \<Rightarrow> run list \<Rightarrow> (nat \<times> nat) list" where
  "run_ranges remaining [] = []"
| "run_ranges remaining (r # rs) =
    (let n = min (run_len r * BLOCK_SIZE) remaining
     in (run_start r * BLOCK_SIZE, n) # run_ranges (remaining - n) rs)"

definition layout_extents :: "layout \<Rightarrow> handle \<Rightarrow> (nat \<times> nat) list" where
  "layout_extents lay f =
    (if f < length (lay_file_runs lay) then
       (case lay_file_runs lay ! f of (runs, sz) \<Rightarrow> run_ranges sz runs)
     else [])"

section \<open>Blocks and bytes of runs\<close>

definition in_runs :: "run list \<Rightarrow> nat \<Rightarrow> bool" where
  "in_runs rs b \<longleftrightarrow> (\<exists>r\<in>set rs. in_run b r)"

definition run_end :: "run \<Rightarrow> nat" where
  "run_end r = run_start r + run_len r"

lemma in_runs_simps [simp]:
  "in_runs [] b \<longleftrightarrow> False"
  "in_runs (r # rs) b \<longleftrightarrow> in_run b r \<or> in_runs rs b"
  "in_runs (rs @ rs') b \<longleftrightarrow> in_runs rs b \<or> in_runs rs' b"
  by (auto simp: in_runs_def)

lemma in_runs_expand: "in_runs rs b \<longleftrightarrow> b \<in> set (expand_runs rs)"
  by (induction rs) (auto simp: in_run_def)

lemma run_ranges_total:
  "sum_list (map snd (run_ranges n rs)) = min n (sum_list (map run_len rs) * BLOCK_SIZE)"
  by (induction rs arbitrary: n) (auto simp: Let_def algebra_simps min_def)

text \<open>Each range lies inside its run.\<close>

lemma run_ranges_inside:
  "list_all2 (\<lambda>(off, n) r. off = run_start r * BLOCK_SIZE \<and> off + n \<le> run_end r * BLOCK_SIZE)
     (run_ranges m rs) rs"
  by (induction rs arbitrary: m) (auto simp: Let_def run_end_def algebra_simps)

end
