(* ===== verification/Sink.thy ===== *)
theory Sink
  imports Prelude
begin

text \<open>
  The streaming output contract (src/src/sink.rs): positioned writes of data and of zero regions,
  the in-memory sink, the file sink (zero regions elided) and the checking sink that enforces
  exactly-once coverage. Offsets are natural numbers. A file is its byte sequence: a positioned
  write past its end extends it with zeros, an empty write does nothing.
\<close>

datatype emit = Data nat bytes | Zeros nat nat

fun emit_range :: "emit \<Rightarrow> nat set" where
  "emit_range (Data off bs) = {off..<off + length bs}"
| "emit_range (Zeros off len) = {off..<off + len}"

fun emit_byte :: "emit \<Rightarrow> nat \<Rightarrow> u8" where
  "emit_byte (Data off bs) i = bs ! (i - off)"
| "emit_byte (Zeros off len) i = 0"

section \<open>The in-memory sink\<close>

definition resize :: "bytes \<Rightarrow> nat \<Rightarrow> bytes" where
  "resize buf n = take n buf @ replicate (n - length buf) 0"

definition vec_data :: "bytes \<Rightarrow> nat \<Rightarrow> bytes \<Rightarrow> bytes res" where
  "vec_data buf off bs =
    (let fin = off + length bs;
         buf = (if length buf < fin then resize buf fin else buf)
     in Inr (poke buf off bs))"

definition vec_zeros :: "bytes \<Rightarrow> nat \<Rightarrow> nat \<Rightarrow> bytes res" where
  "vec_zeros buf off len =
    (let fin = off + len;
         buf = (if length buf < fin then resize buf fin else buf)
     in Inr (poke buf off (replicate len 0)))"

section \<open>The file sink\<close>

record file_sink =
  file_content :: bytes
  file_len :: nat

definition FileSink_create :: "nat \<Rightarrow> file_sink" where
  "FileSink_create image_len = \<lparr>file_content = replicate image_len 0, file_len = image_len\<rparr>"

definition write_all_at :: "bytes \<Rightarrow> bytes \<Rightarrow> nat \<Rightarrow> bytes" where
  "write_all_at file bs off =
    (if bs = [] then file
     else poke (if length file < off + length bs then resize file (off + length bs) else file) off bs)"

definition file_data :: "file_sink \<Rightarrow> nat \<Rightarrow> bytes \<Rightarrow> file_sink res" where
  "file_data fs off bs = Inr (fs\<lparr>file_content := write_all_at (file_content fs) bs off\<rparr>)"

definition file_zeros :: "file_sink \<Rightarrow> nat \<Rightarrow> nat \<Rightarrow> file_sink res" where
  "file_zeros fs off len = (if file_len fs < off + len then Inl (Err (Io (OtherIo ''zeros past image end''))) else Inr fs)"

section \<open>The checking sink\<close>

record 's checking_sink =
  cs_inner :: 's
  cs_covered :: "(nat \<times> nat) list"

definition checking_new :: "'s \<Rightarrow> 's checking_sink" where
  "checking_new inner = \<lparr>cs_inner = inner, cs_covered = []\<rparr>"

definition remove_at :: "nat \<Rightarrow> 'a list \<Rightarrow> 'a list" where
  "remove_at i xs = take i xs @ drop (Suc i) xs"

definition insert_at :: "nat \<Rightarrow> 'a \<Rightarrow> 'a list \<Rightarrow> 'a list" where
  "insert_at i x xs = take i xs @ x # drop i xs"

text \<open>\<^verbatim>\<open>partition_point\<close> of a list whose matching elements come first.\<close>

definition partition_point :: "('a \<Rightarrow> bool) \<Rightarrow> 'a list \<Rightarrow> nat" where
  "partition_point P xs = length (takeWhile P xs)"

definition overlap :: fault where
  "overlap = Err (Io (OtherIo ''overlap''))"

definition check_record :: "(nat \<times> nat) list \<Rightarrow> nat \<Rightarrow> nat \<Rightarrow> (nat \<times> nat) list res" where
  "check_record cov off len =
    (if len = 0 then Inr cov
     else
       let fin = off + len; i = partition_point (\<lambda>(s, _). s < off) cov in
       if 0 < i \<and> off < snd (cov ! (i - 1)) then Inl overlap
       else if i < length cov \<and> fst (cov ! i) < fin then Inl overlap
       else
         let merge_prev = 0 < i \<and> snd (cov ! (i - 1)) = off;
             merge_next = i < length cov \<and> fst (cov ! i) = fin
         in Inr (if merge_prev \<and> merge_next then
                   remove_at i (cov[i - 1 := (fst (cov ! (i - 1)), snd (cov ! i))])
                 else if merge_prev then cov[i - 1 := (fst (cov ! (i - 1)), fin)]
                 else if merge_next then cov[i := (off, snd (cov ! i))]
                 else insert_at i (off, fin) cov))"

definition checking_data ::
    "('s \<Rightarrow> nat \<Rightarrow> bytes \<Rightarrow> 's res) \<Rightarrow> 's checking_sink \<Rightarrow> nat \<Rightarrow> bytes \<Rightarrow> 's checking_sink res" where
  "checking_data inner_data cs off bs =
    bindE (check_record (cs_covered cs) off (length bs)) (\<lambda>cov.
    bindE (inner_data (cs_inner cs) off bs) (\<lambda>s.
    Inr \<lparr>cs_inner = s, cs_covered = cov\<rparr>))"

definition checking_zeros ::
    "('s \<Rightarrow> nat \<Rightarrow> nat \<Rightarrow> 's res) \<Rightarrow> 's checking_sink \<Rightarrow> nat \<Rightarrow> nat \<Rightarrow> 's checking_sink res" where
  "checking_zeros inner_zeros cs off len =
    bindE (check_record (cs_covered cs) off len) (\<lambda>cov.
    bindE (inner_zeros (cs_inner cs) off len) (\<lambda>s.
    Inr \<lparr>cs_inner = s, cs_covered = cov\<rparr>))"

definition checking_finish :: "'s checking_sink \<Rightarrow> nat \<Rightarrow> 's res" where
  "checking_finish cs image_len =
    (if cs_covered cs = [(0, image_len)] then Inr (cs_inner cs)
     else Inl (Err (Io (OtherIo ''coverage is not exactly the image''))))"

section \<open>Coverage\<close>

definition cov_set :: "(nat \<times> nat) list \<Rightarrow> nat set" where
  "cov_set cov = (\<Union>(s, e)\<in>set cov. {s..<e})"

text \<open>Sorted, non-empty, and separated by gaps: adjacent intervals have been merged.\<close>

definition cov_wf :: "(nat \<times> nat) list \<Rightarrow> bool" where
  "cov_wf cov \<longleftrightarrow> sorted_wrt (\<lambda>p q. snd p < fst q) cov \<and> (\<forall>p\<in>set cov. fst p < snd p)"

lemma cov_set_simps [simp]:
  "cov_set [] = {}"
  "cov_set (p # ps) = {fst p..<snd p} \<union> cov_set ps"
  "cov_set (ps @ qs) = cov_set ps \<union> cov_set qs"
  by (auto simp: cov_set_def)

lemma cov_split:
  assumes "cov_wf cov"
  obtains L R where "cov = L @ R" "length L = partition_point (\<lambda>(s, _). s < off) cov"
    "\<forall>p\<in>set L. fst p < off" "\<forall>p\<in>set R. off \<le> fst p"
proof
  let ?P = "\<lambda>(s :: nat, _ :: nat). s < off"
  show "cov = takeWhile ?P cov @ dropWhile ?P cov" by simp
  show "length (takeWhile ?P cov) = partition_point ?P cov" by (simp add: partition_point_def)
  show "\<forall>p\<in>set (takeWhile ?P cov). fst p < off" by (auto dest: set_takeWhileD)
  have "\<forall>p\<in>set (dropWhile ?P xs). off \<le> fst p" if "cov_wf xs" for xs
    using that
  proof (induction xs)
    case (Cons p ps)
    then have "cov_wf ps" "\<forall>q\<in>set ps. fst p < fst q" by (fastforce simp: cov_wf_def)+
    then show ?case using Cons.IH by (cases p) (auto dest: less_imp_le)
  qed simp
  then show "\<forall>p\<in>set (dropWhile ?P cov). off \<le> fst p" using assms .
qed

lemma cov_wf_append:
  "cov_wf (L @ R) \<longleftrightarrow> cov_wf L \<and> cov_wf R \<and> (\<forall>p\<in>set L. \<forall>q\<in>set R. snd p < fst q)"
  by (auto simp: cov_wf_def sorted_wrt_append)

lemma cov_wf_Cons:
  "cov_wf (p # R) \<longleftrightarrow> fst p < snd p \<and> cov_wf R \<and> (\<forall>q\<in>set R. snd p < fst q)"
  by (auto simp: cov_wf_def)

text \<open>Where the new interval goes, by its two neighbours.\<close>

definition prev_ok :: "(nat \<times> nat) list \<Rightarrow> nat \<Rightarrow> bool" where
  "prev_ok L off \<longleftrightarrow> (L \<noteq> [] \<longrightarrow> snd (last L) \<le> off)"

definition next_ok :: "(nat \<times> nat) list \<Rightarrow> nat \<Rightarrow> bool" where
  "next_ok R fin \<longleftrightarrow> (R \<noteq> [] \<longrightarrow> fin \<le> fst (hd R))"

definition glue :: "(nat \<times> nat) list \<Rightarrow> nat \<Rightarrow> nat \<Rightarrow> (nat \<times> nat) list \<Rightarrow> (nat \<times> nat) list" where
  "glue L off fin R =
    (let mp = L \<noteq> [] \<and> snd (last L) = off; mn = R \<noteq> [] \<and> fst (hd R) = fin in
     (if mp then butlast L else L) @
     [(if mp then fst (last L) else off, if mn then snd (hd R) else fin)] @
     (if mn then tl R else R))"

lemma check_record_glue:
  assumes "cov = L @ R" "length L = partition_point (\<lambda>(s, _). s < off) cov" "len \<noteq> 0"
  shows "check_record cov off len =
    (if prev_ok L off \<and> next_ok R (off + len) then Inr (glue L off (off + len) R) else Inl overlap)"
proof -
  have i: "partition_point (\<lambda>(s, _). s < off) (L @ R) = length L" using assms by simp
  consider (ee) "L = []" "R = []" | (er) r R' where "L = []" "R = r # R'"
    | (le) l L' where "L = L' @ [l]" "R = []" | (lr) l L' r R' where "L = L' @ [l]" "R = r # R'"
    by (cases L rule: rev_cases; cases R) auto
  then show ?thesis
    by cases
      (use i assms(1,3) in \<open>auto simp: check_record_def Let_def prev_ok_def next_ok_def glue_def
         remove_at_def insert_at_def nth_append list_update_append prod_eq_iff\<close>)
qed

lemma snd_last_max:
  assumes "cov_wf L" "p \<in> set L"
  shows "snd p \<le> snd (last L)"
proof (cases L rule: rev_cases)
  case (snoc L' l)
  then show ?thesis using assms by (auto simp: cov_wf_append cov_wf_Cons)
qed (use assms in simp)

lemma fst_hd_min: "cov_wf R \<Longrightarrow> q \<in> set R \<Longrightarrow> fst (hd R) \<le> fst q"
  by (cases R) (auto simp: cov_wf_Cons)

lemma glue_wf_set:
  assumes wf: "cov_wf L" "cov_wf R" and ok: "prev_ok L off" "next_ok R fin" and "off < fin"
  shows "cov_wf (glue L off fin R) \<and> cov_set (glue L off fin R) = cov_set L \<union> {off..<fin} \<union> cov_set R"
proof -
  consider (ee) "L = []" "R = []" | (er) r R' where "L = []" "R = r # R'"
    | (le) l L' where "L = L' @ [l]" "R = []" | (lr) l L' r R' where "L = L' @ [l]" "R = r # R'"
    by (cases L rule: rev_cases; cases R) auto
  then show ?thesis
  proof cases
    case ee
    then show ?thesis using assms by (simp add: glue_def cov_wf_def)
  next
    case er
    then show ?thesis using assms
      by (auto simp: glue_def Let_def cov_wf_Cons next_ok_def)
  next
    case le
    then show ?thesis using assms
      by (simp add: glue_def Let_def cov_wf_Cons cov_wf_append prev_ok_def) auto
  next
    case lr
    obtain a b c d where ab: "l = (a, b)" "r = (c, d)" by fastforce
    have w: "a < b" "c < d" "b \<le> off" "fin \<le> c" "cov_wf L'" "cov_wf R'"
      "\<forall>p\<in>set L'. snd p < a" "\<forall>q\<in>set R'. d < fst q"
      using assms lr ab by (auto simp: cov_wf_Cons cov_wf_append prev_ok_def next_ok_def)
    then have far: "\<forall>p\<in>set L'. snd p < off \<and> (\<forall>q\<in>set R'. snd p < fst q) \<and> snd p < c"
      "\<forall>q\<in>set R'. fin < fst q \<and> b < fst q"
      using assms(5) by fastforce+
    have "glue L off fin R = L' @ (if b = off then [] else [l]) @
        [(if b = off then a else off, if c = fin then d else fin)] @ (if c = fin then [] else [r]) @ R'"
      using lr ab by (simp add: glue_def Let_def)
    moreover have "{a..<b} \<union> {b..<fin} = {a..<fin}" "{off..<c} \<union> {c..<d} = {off..<d}"
      using w assms(5) by auto
    moreover have "{a..<b} \<union> {b..<c} \<union> {c..<d} = {a..<d}" if "b = off" "c = fin"
      using w assms(5) that by auto
    ultimately show ?thesis
      using w far assms(5) lr ab
      by (cases "b = off"; cases "c = fin") (simp_all add: cov_wf_append cov_wf_Cons, auto)
  qed
qed

lemma cov_disjoint_iff:
  assumes wf: "cov_wf L" "cov_wf R" and L: "\<forall>p\<in>set L. fst p < off" and R: "\<forall>q\<in>set R. off \<le> fst q"
    and "off < fin"
  shows "{off..<fin} \<inter> (cov_set L \<union> cov_set R) = {} \<longleftrightarrow> prev_ok L off \<and> next_ok R fin"
proof
  assume d: "{off..<fin} \<inter> (cov_set L \<union> cov_set R) = {}"
  have "prev_ok L off"
  proof (rule ccontr)
    assume "\<not> prev_ok L off"
    then have "L \<noteq> []" "off < snd (last L)" by (auto simp: prev_ok_def)
    moreover from this have "last L \<in> set L" by simp
    moreover from this have "fst (last L) < off" using L by blast
    ultimately have "off \<in> cov_set L" unfolding cov_set_def
      by (intro UN_I [of "last L"]) (auto split: prod.splits)
    then show False using d assms(5) by auto
  qed
  moreover have "next_ok R fin"
  proof (rule ccontr)
    assume "\<not> next_ok R fin"
    then have n: "R \<noteq> []" "fst (hd R) < fin" by (auto simp: next_ok_def)
    then have "fst (hd R) \<in> cov_set R" using wf(2)
      by (cases R) (auto simp: cov_set_def cov_wf_Cons)
    then show False using d n R by (cases R) auto
  qed
  ultimately show "prev_ok L off \<and> next_ok R fin" ..
next
  assume ok: "prev_ok L off \<and> next_ok R fin"
  have "snd p \<le> off" if "p \<in> set L" for p
  proof -
    have "snd p \<le> snd (last L)" "L \<noteq> []" using snd_last_max [OF wf(1) that] that by auto
    then show ?thesis using ok by (simp add: prev_ok_def)
  qed
  moreover have "fin \<le> fst q" if "q \<in> set R" for q
  proof -
    have "fst (hd R) \<le> fst q" "R \<noteq> []" using fst_hd_min [OF wf(2) that] that by auto
    then show ?thesis using ok by (simp add: next_ok_def)
  qed
  ultimately show "{off..<fin} \<inter> (cov_set L \<union> cov_set R) = {}"
    by (fastforce simp: cov_set_def)
qed

lemma check_record_spec:
  assumes wf: "cov_wf cov"
  shows "if {off..<off + len} \<inter> cov_set cov = {} then
      \<exists>cov'. check_record cov off len = Inr cov' \<and> cov_wf cov' \<and>
        cov_set cov' = cov_set cov \<union> {off..<off + len}
    else check_record cov off len = Inl overlap"
proof (cases "len = 0")
  case True
  then show ?thesis using wf by (simp add: check_record_def)
next
  case False
  obtain L R where LR: "cov = L @ R" "length L = partition_point (\<lambda>(s, _). s < off) cov"
    "\<forall>p\<in>set L. fst p < off" "\<forall>p\<in>set R. off \<le> fst p"
    using cov_split [OF wf] by metis
  have w: "cov_wf L" "cov_wf R" using wf LR by (simp_all add: cov_wf_append)
  have "{off..<off + len} \<inter> cov_set cov = {} \<longleftrightarrow> prev_ok L off \<and> next_ok R (off + len)"
    using cov_disjoint_iff [OF w LR(3,4), of "off + len"] False LR(1) by simp
  then show ?thesis
    using glue_wf_set [OF w, of off "off + len"] check_record_glue [OF LR(1,2) False] False LR(1)
    by (auto split: if_splits)
qed

lemma cov_full_iff:
  assumes wf: "cov_wf cov" and n: "0 < n"
  shows "cov = [(0, n)] \<longleftrightarrow> cov_set cov = {0..<n}"
proof
  assume s: "cov_set cov = {0..<n}"
  obtain p ps where c: "cov = p # ps" using s n by (cases cov) auto
  have p: "fst p < snd p" "\<forall>q\<in>set ps. snd p < fst q" using wf c by (simp_all add: cov_wf_Cons)
  have sub: "\<And>x. x \<in> cov_set cov \<longleftrightarrow> x < n" using s by auto
  have q: "\<forall>x\<in>cov_set ps. snd p < x"
    using p(2) by (fastforce simp: cov_set_def)
  have "0 \<in> cov_set cov" using sub n by simp
  then have f: "fst p = 0" using c q by fastforce
  have "snd p \<notin> cov_set cov" using c q by auto
  then have "n \<le> snd p" using sub by (meson not_less)
  moreover have "snd p - 1 \<in> cov_set cov" using c p(1) by auto
  then have "snd p \<le> n" using sub p(1) by auto
  moreover have "ps = []"
  proof (rule ccontr)
    assume "ps \<noteq> []"
    then have "fst (hd ps) \<in> cov_set ps" using wf c by (cases ps) (auto simp: cov_wf_Cons)
    then have "snd p < fst (hd ps)" "fst (hd ps) < n" using q sub c by auto
    with \<open>n \<le> snd p\<close> show False by simp
  qed
  ultimately show "cov = [(0, n)]" using c f by (simp add: prod_eq_iff)
qed simp

section \<open>The interface the writer drives\<close>

fun emit_end :: "emit \<Rightarrow> nat" where
  "emit_end (Data off bs) = off + length bs"
| "emit_end (Zeros off len) = off + len"

fun emit_step ::
    "('s \<Rightarrow> nat \<Rightarrow> bytes \<Rightarrow> 's res) \<Rightarrow> ('s \<Rightarrow> nat \<Rightarrow> nat \<Rightarrow> 's res) \<Rightarrow> emit \<Rightarrow> 's \<Rightarrow> 's res" where
  "emit_step data zeros (Data off bs) s = data s off bs"
| "emit_step data zeros (Zeros off len) s = zeros s off len"

definition emit_all ::
    "('s \<Rightarrow> nat \<Rightarrow> bytes \<Rightarrow> 's res) \<Rightarrow> ('s \<Rightarrow> nat \<Rightarrow> nat \<Rightarrow> 's res) \<Rightarrow> emit list \<Rightarrow> 's \<Rightarrow> 's res" where
  "emit_all data zeros = foldE (emit_step data zeros)"

fun emits_disjoint :: "emit list \<Rightarrow> bool" where
  "emits_disjoint [] \<longleftrightarrow> True"
| "emits_disjoint (e # es) \<longleftrightarrow>
     (\<forall>f\<in>set es. emit_range e \<inter> emit_range f = {}) \<and> emits_disjoint es"

definition emits_cover :: "emit list \<Rightarrow> nat set" where
  "emits_cover es = (\<Union>e\<in>set es. emit_range e)"

definition image_of :: "emit list \<Rightarrow> nat \<Rightarrow> u8" where
  "image_of es i = (case find (\<lambda>e. i \<in> emit_range e) es of None \<Rightarrow> 0 | Some e \<Rightarrow> emit_byte e i)"

text \<open>
  The contract between the writer and a sink of an image of a given length: data arrives where it
  was sent, and a zero region that nothing was written to stays zero.
\<close>

locale region_sink =
  fixes data :: "'s \<Rightarrow> nat \<Rightarrow> bytes \<Rightarrow> 's res"
    and zeros :: "'s \<Rightarrow> nat \<Rightarrow> nat \<Rightarrow> 's res"
    and store :: "'s \<Rightarrow> nat \<Rightarrow> u8"
    and room :: "'s \<Rightarrow> nat \<Rightarrow> bool"
  assumes data_ok: "room s n \<Longrightarrow> off + length bs \<le> n \<Longrightarrow>
      \<exists>s'. data s off bs = Inr s' \<and> room s' n \<and>
        store s' = (\<lambda>i. if i \<in> {off..<off + length bs} then bs ! (i - off) else store s i)"
    and zeros_ok: "room s n \<Longrightarrow> off + len \<le> n \<Longrightarrow> \<forall>i\<in>{off..<off + len}. store s i = 0 \<Longrightarrow>
      \<exists>s'. zeros s off len = Inr s' \<and> room s' n \<and> store s' = store s"
begin

lemma emit_all_store:
  assumes "room s n" "\<forall>e\<in>set es. emit_end e \<le> n" "emits_disjoint es"
    and "\<forall>i\<in>emits_cover es. store s i = 0"
  shows "\<exists>s'. emit_all data zeros es s = Inr s' \<and> room s' n \<and>
    store s' = (\<lambda>i. if i \<in> emits_cover es then image_of es i else store s i)"
  using assms
proof (induction es arbitrary: s)
  case Nil
  then show ?case by (simp add: emit_all_def emits_cover_def)
next
  case (Cons e es)
  have "\<exists>s1. emit_step data zeros e s = Inr s1 \<and> room s1 n \<and>
      store s1 = (\<lambda>i. if i \<in> emit_range e then emit_byte e i else store s i)"
  proof (cases e)
    case (Data off bs)
    then have "off + length bs \<le> n" using Cons.prems(2) by simp
    then show ?thesis unfolding Data emit_range.simps emit_byte.simps emit_step.simps
      by (rule data_ok [OF Cons.prems(1)])
  next
    case (Zeros off len)
    then have "\<forall>i\<in>{off..<off + len}. store s i = 0"
      using Cons.prems(4) by (simp add: emits_cover_def)
    then show ?thesis
      using zeros_ok [OF Cons.prems(1), of off len] Cons.prems(2) Zeros by (auto simp: fun_eq_iff)
  qed
  then obtain s1 where s1: "emit_step data zeros e s = Inr s1" "room s1 n"
    "store s1 = (\<lambda>i. if i \<in> emit_range e then emit_byte e i else store s i)" by blast
  have "\<forall>i\<in>emits_cover es. i \<notin> emit_range e"
    using Cons.prems(3) by (auto simp: emits_cover_def)
  then have "\<forall>i\<in>emits_cover es. store s1 i = 0"
    using Cons.prems(4) s1(3) by (auto simp: emits_cover_def)
  then obtain s' where s': "emit_all data zeros es s1 = Inr s'" "room s' n"
    "store s' = (\<lambda>i. if i \<in> emits_cover es then image_of es i else store s1 i)"
    using Cons.IH [OF s1(2)] Cons.prems(2,3) by auto
  have "store s' i = (if i \<in> emits_cover (e # es) then image_of (e # es) i else store s i)" for i
    using \<open>\<forall>i\<in>emits_cover es. i \<notin> emit_range e\<close>
    by (auto simp: s'(3) s1(3) emits_cover_def image_of_def)
  then show ?case using s1(1) s' by (auto simp: emit_all_def)
qed

text \<open>A sink that starts empty ends up holding the image of the emissions.\<close>

lemma emit_all_image:
  assumes "room s n" "\<forall>e\<in>set es. emit_end e \<le> n" "emits_disjoint es" "store s = (\<lambda>_. 0)"
  shows "\<exists>s'. emit_all data zeros es s = Inr s' \<and> room s' n \<and> store s' = image_of es"
proof -
  have "image_of es i = 0" if "i \<notin> emits_cover es" for i
  proof -
    have "find (\<lambda>e. i \<in> emit_range e) es = None"
      using that by (auto simp: find_None_iff emits_cover_def)
    then show ?thesis by (simp add: image_of_def)
  qed
  then have "(\<lambda>i. if i \<in> emits_cover es then image_of es i else store s i) = image_of es"
    using assms(4) by (simp add: fun_eq_iff)
  moreover have "\<forall>i\<in>emits_cover es. store s i = 0" using assms(4) by simp
  ultimately show ?thesis using emit_all_store [OF assms(1-3)] by metis
qed

end

section \<open>The two storing sinks meet the contract\<close>

definition buf_store :: "bytes \<Rightarrow> nat \<Rightarrow> u8" where
  "buf_store buf i = (if i < length buf then buf ! i else 0)"

lemma buf_store_grow:
  "buf_store (if length buf < n then resize buf n else buf) = buf_store buf"
  by (auto simp: buf_store_def resize_def fun_eq_iff nth_append)

lemma buf_store_poke:
  assumes "off + length v \<le> length buf"
  shows "buf_store (poke buf off v) =
    (\<lambda>i. if i \<in> {off..<off + length v} then v ! (i - off) else buf_store buf i)"
  using assms by (auto simp: fun_eq_iff buf_store_def nth_poke)

lemma length_grow: "n \<le> length (if length buf < n then resize buf n else buf)"
  by (simp add: resize_def)

lemma buf_store_write:
  "buf_store (poke (if length buf < off + length v then resize buf (off + length v) else buf) off v) =
   (\<lambda>i. if i \<in> {off..<off + length v} then v ! (i - off) else buf_store buf i)"
  by (subst buf_store_poke, rule length_grow) (simp only: buf_store_grow)

interpretation vs: region_sink vec_data vec_zeros buf_store "\<lambda>_ _. True"
proof unfold_locales
  fix s off bs
  show "\<exists>s'. vec_data s off bs = Inr s' \<and> True \<and> buf_store s' =
      (\<lambda>i. if i \<in> {off..<off + length bs} then bs ! (i - off) else buf_store s i)"
    using buf_store_write [of s off bs] by (simp add: vec_data_def Let_def)
next
  fix s off len
  assume z: "\<forall>i\<in>{off..<off + len}. buf_store s i = 0"
  have "buf_store (poke (if length s < off + len then resize s (off + len) else s) off (replicate len 0)) = buf_store s"
    using buf_store_write [of s off "replicate len 0"] z by (auto simp: fun_eq_iff)
  then show "\<exists>s'. vec_zeros s off len = Inr s' \<and> True \<and> buf_store s' = buf_store s"
    by (simp add: vec_zeros_def Let_def)
qed

definition file_room :: "file_sink \<Rightarrow> nat \<Rightarrow> bool" where
  "file_room fs n \<longleftrightarrow> n \<le> file_len fs"

interpretation fs: region_sink file_data file_zeros "\<lambda>fs. buf_store (file_content fs)" file_room
proof unfold_locales
  fix s n off and bs :: bytes
  assume r: "file_room s n"
  show "\<exists>s'. file_data s off bs = Inr s' \<and> file_room s' n \<and> buf_store (file_content s') =
      (\<lambda>i. if i \<in> {off..<off + length bs} then bs ! (i - off) else buf_store (file_content s) i)"
    using buf_store_write [of "file_content s" off bs] r
    by (cases "bs = []") (auto simp: file_data_def write_all_at_def file_room_def fun_eq_iff)
next
  fix s n and off len :: nat
  assume "file_room s n" "off + len \<le> n"
  then show "\<exists>s'. file_zeros s off len = Inr s' \<and> file_room s' n \<and>
      buf_store (file_content s') = buf_store (file_content s)"
    by (simp add: file_zeros_def file_room_def)
qed

lemma FileSink_create_empty:
  "buf_store (file_content (FileSink_create n)) = (\<lambda>_. 0)" "file_room (FileSink_create n) n"
  by (simp_all add: FileSink_create_def buf_store_def file_room_def fun_eq_iff)

section \<open>The checking sink enforces exactly-once coverage\<close>

lemma checking_step:
  assumes "cov_wf (cs_covered cs)"
  shows "if emit_range e \<inter> cov_set (cs_covered cs) = {} then
      \<exists>cov. cov_wf cov \<and> cov_set cov = cov_set (cs_covered cs) \<union> emit_range e \<and>
        emit_step (checking_data d) (checking_zeros z) e cs =
          bindE (emit_step d z e (cs_inner cs)) (\<lambda>s. Inr \<lparr>cs_inner = s, cs_covered = cov\<rparr>)
    else emit_step (checking_data d) (checking_zeros z) e cs = Inl overlap"
proof (cases e)
  case (Data off bs)
  then show ?thesis using check_record_spec [OF assms, of off "length bs"]
    by (auto simp: checking_data_def split: if_splits)
next
  case (Zeros off len)
  then show ?thesis using check_record_spec [OF assms, of off len]
    by (auto simp: checking_zeros_def split: if_splits)
qed

lemma emits_cover_simps [simp]:
  "emits_cover [] = {}" "emits_cover (e # es) = emit_range e \<union> emits_cover es"
  by (simp_all add: emits_cover_def)

lemma emits_disjoint_Cons:
  "emits_disjoint (e # es) \<longleftrightarrow> emit_range e \<inter> emits_cover es = {} \<and> emits_disjoint es"
  by (auto simp: emits_cover_def)

lemma checking_all:
  assumes "cov_wf (cs_covered cs)"
  shows "if emits_disjoint es \<and> emits_cover es \<inter> cov_set (cs_covered cs) = {} then
      (case emit_all d z es (cs_inner cs) of
         Inl f \<Rightarrow> \<exists>f. emit_all (checking_data d) (checking_zeros z) es cs = Inl f
       | Inr s \<Rightarrow> \<exists>cov. cov_wf cov \<and> cov_set cov = cov_set (cs_covered cs) \<union> emits_cover es \<and>
           emit_all (checking_data d) (checking_zeros z) es cs = Inr \<lparr>cs_inner = s, cs_covered = cov\<rparr>)
    else \<exists>f. emit_all (checking_data d) (checking_zeros z) es cs = Inl f"
  using assms
proof (induction es arbitrary: cs)
  case Nil
  then show ?case by (auto simp: emit_all_def)
next
  case (Cons e es)
  let ?step = "emit_step (checking_data d) (checking_zeros z)"
  show ?case
  proof (cases "emit_range e \<inter> cov_set (cs_covered cs) = {}")
    case False
    then have "?step e cs = Inl overlap" using checking_step [OF Cons.prems, of e d z] by simp
    then show ?thesis using False by (auto simp: emit_all_def)
  next
    case True
    then obtain cov where cov: "cov_wf cov" "cov_set cov = cov_set (cs_covered cs) \<union> emit_range e"
      "?step e cs = bindE (emit_step d z e (cs_inner cs)) (\<lambda>s. Inr \<lparr>cs_inner = s, cs_covered = cov\<rparr>)"
      using checking_step [OF Cons.prems, of e d z] by auto
    show ?thesis
    proof (cases "emit_step d z e (cs_inner cs)")
      case (Inl f)
      then show ?thesis using cov by (auto simp: emit_all_def simp del: emits_disjoint.simps)
    next
      case (Inr s)
      have "cov_wf (cs_covered \<lparr>cs_inner = s, cs_covered = cov\<rparr>)" using cov by simp
      from Cons.IH [OF this] show ?thesis
        using Inr cov True
        by (auto simp: emit_all_def emits_disjoint_Cons Int_Un_distrib Int_Un_distrib2 Un_assoc Int_commute
            simp del: emits_disjoint.simps split: if_splits sum.splits)
    qed
  qed
qed

lemma checking_accepts_iff:
  assumes n: "0 < n"
  shows "bindE (emit_all (checking_data d) (checking_zeros z) es (checking_new s))
      (\<lambda>cs. checking_finish cs n) = Inr s' \<longleftrightarrow>
    emits_disjoint es \<and> emits_cover es = {0..<n} \<and> emit_all d z es s = Inr s'"
proof -
  have "cov_wf (cs_covered (checking_new s))" by (simp add: checking_new_def cov_wf_def)
  from checking_all [OF this, of es d z] show ?thesis
    using cov_full_iff [OF _ n]
    by (cases "emit_all d z es s")
      (fastforce simp: checking_new_def checking_finish_def split: if_splits)+
qed

end
