(* ===== verification/Writer.thy ===== *)
theory Writer
  imports Layout Sink
begin

text \<open>
  The emission phase (src/src/build/writer.rs). A sink is its pair of operations on a state, as in
  the sink theory. The metadata pass sweeps the segments in order and zeroes what lies between
  them; \<open>iw_fill\<close> streams one file; \<open>iw_finish\<close> closes the image. A reader is the bytes it will
  deliver before it fails or ends: \<^verbatim>\<open>read_exact\<close> reports both as the same error.
\<close>

section \<open>The metadata pass\<close>

text \<open>
  One gap between segments: \<open>fpos\<close> to \<open>tpos\<close> in blocks, with the data runs the iterator has
  not consumed yet. Everything except file data is zeroed.
\<close>

function emit_gap ::
    "('s \<Rightarrow> nat \<Rightarrow> nat \<Rightarrow> 's res) \<Rightarrow> nat \<Rightarrow> nat \<Rightarrow> run list \<Rightarrow> 's \<Rightarrow> ('s \<times> run list) res" where
  "emit_gap zeros fpos tpos runs s =
    (if fpos < tpos then
       case dropWhile (\<lambda>r. run_start r + run_len r \<le> fpos) runs of
         r # rs \<Rightarrow>
           if run_start r < tpos then
             bindE (if fpos < run_start r
                    then zeros s (fpos * BLOCK_SIZE) ((run_start r - fpos) * BLOCK_SIZE) else Inr s) (\<lambda>s.
             emit_gap zeros (min (run_start r + run_len r) tpos) tpos
               (if run_start r + run_len r \<le> tpos then rs else r # rs) s)
           else bindE (zeros s (fpos * BLOCK_SIZE) ((tpos - fpos) * BLOCK_SIZE)) (\<lambda>s. Inr (s, r # rs))
       | [] \<Rightarrow> bindE (zeros s (fpos * BLOCK_SIZE) ((tpos - fpos) * BLOCK_SIZE)) (\<lambda>s. Inr (s, []))
     else Inr (s, runs))"
  by pat_completeness auto
termination
proof (relation "measure (\<lambda>(_, fpos, tpos, _). tpos - fpos)", simp, goal_cases)
  case (1 zeros fpos tpos runs s r rs s')
  then have "\<not> run_start r + run_len r \<le> fpos"
    using hd_dropWhile [of "\<lambda>r. run_start r + run_len r \<le> fpos" runs] by simp
  then show ?case using 1 by auto
qed

declare emit_gap.simps [simp del]

text \<open>A block of an inode table: up to sixteen rendered inodes, the rest zero.\<close>

definition itable_block :: "layout \<Rightarrow> nat \<Rightarrow> nat \<Rightarrow> bytes res" where
  "itable_block lay first_ino blk =
    (let base = first_ino - 1 + blk * 16;
         avail = min (length (lay_inodes lay) - base) 16
     in if base \<le> length (lay_inodes lay)
        then Inr (concat (take avail (drop base (lay_inodes lay))) @ zeros_buf ((16 - avail) * 256))
        else Inl Panic)"

definition itable_used_blocks :: "layout \<Rightarrow> nat \<Rightarrow> nat" where
  "itable_used_blocks lay first_ino =
    (let ipg = geo_inodes_per_group (lay_geo lay)
     in div_ceil (clamp (lay_max_ino lay) (first_ino - 1) (first_ino + ipg - 1) - (first_ino - 1)) 16)"

definition emit_itable ::
    "('s \<Rightarrow> nat \<Rightarrow> bytes \<Rightarrow> 's res) \<Rightarrow> ('s \<Rightarrow> nat \<Rightarrow> nat \<Rightarrow> 's res) \<Rightarrow>
     layout \<Rightarrow> nat \<Rightarrow> nat \<Rightarrow> nat \<Rightarrow> 's \<Rightarrow> 's res" where
  "emit_itable data zeros lay g start_block n s =
    (let first_ino = g * geo_inodes_per_group (lay_geo lay) + 1;
         used_blocks = itable_used_blocks lay first_ino
     in bindE (foldE (\<lambda>blk s.
            bindE (itable_block lay first_ino blk) (\<lambda>buf.
            data s ((start_block + blk) * BLOCK_SIZE) buf)) [0..<used_blocks] s) (\<lambda>s.
        if used_blocks < n
        then zeros s ((start_block + used_blocks) * BLOCK_SIZE) ((n - used_blocks) * BLOCK_SIZE)
        else Inr s))"

text \<open>One segment: the gap before it, then its bytes. The assertion on the length of rendered
  bytes is the \<^verbatim>\<open>debug_assert_eq!\<close> of the code.\<close>

definition emit_segment ::
    "('s \<Rightarrow> nat \<Rightarrow> bytes \<Rightarrow> 's res) \<Rightarrow> ('s \<Rightarrow> nat \<Rightarrow> nat \<Rightarrow> 's res) \<Rightarrow>
     layout \<Rightarrow> segment \<Rightarrow> nat \<times> run list \<times> 's \<Rightarrow> (nat \<times> run list \<times> 's) res" where
  "emit_segment data zeros lay seg st = (case st of (cursor, runs, s) \<Rightarrow>
    bindE (if cursor < seg_block seg then emit_gap zeros cursor (seg_block seg) runs s
           else Inr (s, runs)) (\<lambda>(s, runs).
    bindE (case seg_src seg of
        SegBytes bs \<Rightarrow>
          bindE (guardE (length bs = seg_blocks seg * BLOCK_SIZE) Panic) (\<lambda>_.
          data s (seg_block seg * BLOCK_SIZE) bs)
      | SegItable g \<Rightarrow> emit_itable data zeros lay g (seg_block seg) (seg_blocks seg) s) (\<lambda>s.
    Inr (seg_block seg + seg_blocks seg, runs, s))))"

definition emit_metadata ::
    "('s \<Rightarrow> nat \<Rightarrow> bytes \<Rightarrow> 's res) \<Rightarrow> ('s \<Rightarrow> nat \<Rightarrow> nat \<Rightarrow> 's res) \<Rightarrow> layout \<Rightarrow> 's \<Rightarrow> 's res" where
  "emit_metadata data zeros lay s =
    bindE (foldE (emit_segment data zeros lay) (lay_segments lay) (0, lay_data_runs lay, s))
      (\<lambda>(cursor, runs, s).
    let total_blocks = image_len lay div BLOCK_SIZE in
    if cursor < total_blocks
    then bindE (emit_gap zeros cursor total_blocks runs s) (\<lambda>(s, _). Inr s) else Inr s)"

section \<open>The writer\<close>

datatype fill_state = NotFillable | Pending | Done

record 's image_writer =
  iw_layout :: layout
  iw_sink :: 's
  iw_fill_state :: "fill_state list"
  iw_pending :: nat
  iw_data_bytes :: nat
  iw_poisoned :: bool

record summary =
  sum_image_len :: nat
  sum_data_bytes :: nat

definition initial_fill_state :: "layout \<Rightarrow> nat \<Rightarrow> fill_state" where
  "initial_fill_state lay slot =
    (if lay_slot_ino lay ! slot = 0 \<or> fst (lay_file_runs lay ! slot) = [] then NotFillable else Pending)"

definition iw_new ::
    "('s \<Rightarrow> nat \<Rightarrow> bytes \<Rightarrow> 's res) \<Rightarrow> ('s \<Rightarrow> nat \<Rightarrow> nat \<Rightarrow> 's res) \<Rightarrow> layout \<Rightarrow> 's \<Rightarrow> 's image_writer res" where
  "iw_new data zeros lay s =
    bindE (emit_metadata data zeros lay s) (\<lambda>s.
    let states = map (initial_fill_state lay) [0..<length (lay_file_runs lay)] in
    Inr \<lparr>iw_layout = lay, iw_sink = s, iw_fill_state = states,
         iw_pending = length (filter (\<lambda>x. x = Pending) states),
         iw_data_bytes = 0, iw_poisoned = False\<rparr>)"

text \<open>The state of a fill: the sink and what the reader still delivers.\<close>

definition read_exact :: "nat \<Rightarrow> ('s \<times> bytes, bytes) call" where
  "read_exact n st = (case st of (s, rd) \<Rightarrow>
    if length rd < n then (Inl (Err (Io (OtherIo ''short fill''))), (s, []))
    else (Inr (take n rd), (s, drop n rd)))"

definition sink_call :: "('s \<Rightarrow> 's res) \<Rightarrow> ('s \<times> bytes, unit) call" where
  "sink_call f st = (case st of (s, rd) \<Rightarrow>
    (case f s of Inl e \<Rightarrow> (Inl e, (s, rd)) | Inr s' \<Rightarrow> (Inr (), (s', rd))))"

definition SCRATCH :: nat where
  "SCRATCH = 1024 * BLOCK_SIZE"

lemma SCRATCH_pos: "0 < SCRATCH"
  by (simp add: SCRATCH_def)

function fill_chunks ::
    "('s \<Rightarrow> nat \<Rightarrow> bytes \<Rightarrow> 's res) \<Rightarrow> nat \<Rightarrow> nat \<Rightarrow> ('s \<times> bytes, nat) call" where
  "fill_chunks data offset run_bytes =
    (if run_bytes = 0 then returnS offset
     else
       let want = min run_bytes SCRATCH in
       bindS (read_exact want) (\<lambda>bs.
       bindS (sink_call (\<lambda>s. data s offset bs)) (\<lambda>_.
       fill_chunks data (offset + want) (run_bytes - want))))"
  by pat_completeness auto
termination
  by (relation "measure (\<lambda>(_, _, n). n)") (simp_all add: SCRATCH_pos)

declare fill_chunks.simps [simp del]

fun fill_runs ::
    "('s \<Rightarrow> nat \<Rightarrow> bytes \<Rightarrow> 's res) \<Rightarrow> ('s \<Rightarrow> nat \<Rightarrow> nat \<Rightarrow> 's res) \<Rightarrow>
     nat \<Rightarrow> run list \<Rightarrow> ('s \<times> bytes, unit) call" where
  "fill_runs data zeros remaining [] = returnS ()"
| "fill_runs data zeros remaining (r # rs) =
    (let run_bytes = min (run_len r * BLOCK_SIZE) remaining in
     bindS (fill_chunks data (run_start r * BLOCK_SIZE) run_bytes) (\<lambda>offset.
     let pad = (BLOCK_SIZE - offset mod BLOCK_SIZE) mod BLOCK_SIZE in
     bindS (if 0 < pad then sink_call (\<lambda>s. zeros s offset pad) else returnS ()) (\<lambda>_.
     fill_runs data zeros (remaining - run_bytes) rs)))"

definition poisoned :: fault where
  "poisoned = invalid ''writer is poisoned by an earlier failed fill; rebuild from the layout''"

definition iw_fill ::
    "('s \<Rightarrow> nat \<Rightarrow> bytes \<Rightarrow> 's res) \<Rightarrow> ('s \<Rightarrow> nat \<Rightarrow> nat \<Rightarrow> 's res) \<Rightarrow>
     handle \<Rightarrow> bytes \<Rightarrow> ('s image_writer, unit) call" where
  "iw_fill data zeros f rd w =
    (if iw_poisoned w then (Inl poisoned, w)
     else if f < length (iw_fill_state w) \<and> iw_fill_state w ! f = Done then
       (Inl (invalid ''file already filled''), w)
     else if f < length (iw_fill_state w) \<and> iw_fill_state w ! f = Pending then
       (case lay_file_runs (iw_layout w) ! f of (runs, sz) \<Rightarrow>
         (case fill_runs data zeros sz runs (iw_sink w, rd) of
            (Inr _, (s, _)) \<Rightarrow>
              (Inr (), w\<lparr>iw_sink := s, iw_data_bytes := iw_data_bytes w + sz,
                         iw_fill_state := (iw_fill_state w)[f := Done],
                         iw_pending := iw_pending w - 1\<rparr>)
          | (Inl e, (s, _)) \<Rightarrow> (Inl e, w\<lparr>iw_sink := s, iw_poisoned := True\<rparr>)))
     else (Inl (invalid ''handle is not a fillable file in this layout''), w))"

definition iw_finish :: "'s image_writer \<Rightarrow> summary res" where
  "iw_finish w =
    (if iw_poisoned w then Inl poisoned
     else if 0 < iw_pending w then Inl (invalid ''declared file(s) never filled'')
     else Inr \<lparr>sum_image_len = image_len (iw_layout w), sum_data_bytes = iw_data_bytes w\<rparr>)"

end
