(* ===== verification/WriterSpec.thy ===== *)
theory WriterSpec
  imports Writer
begin

text \<open>
  What the emission phase promises: over a layout whose segments and data runs tile disjoint parts
  of the device, the metadata pass emits in ascending order every byte that is not file data,
  exactly once and with the layout's content, the fills emit the rest, and a build that fills every
  file finishes.
\<close>

section \<open>Ascending emissions\<close>

fun emit_start :: "emit \<Rightarrow> nat" where
  "emit_start (Data off bs) = off"
| "emit_start (Zeros off len) = off"

fun emits_from :: "nat \<Rightarrow> emit list \<Rightarrow> nat \<Rightarrow> bool" where
  "emits_from lo [] hi \<longleftrightarrow> lo \<le> hi"
| "emits_from lo (e # es) hi \<longleftrightarrow> lo \<le> emit_start e \<and> emits_from (emit_end e) es hi"

lemma emit_start_le: "emit_start e \<le> emit_end e"
  by (cases e) auto

lemma emit_range_eq: "emit_range e = {emit_start e..<emit_end e}"
  by (cases e) auto

lemma emits_from_le: "emits_from lo es hi \<Longrightarrow> lo \<le> hi"
proof (induction es arbitrary: lo)
  case (Cons e es)
  then have "lo \<le> emit_start e" "emit_end e \<le> hi" by auto
  then show ?case using emit_start_le [of e] by linarith
qed simp

lemma emits_from_weaken: "emits_from lo es hi \<Longrightarrow> lo' \<le> lo \<Longrightarrow> emits_from lo' es hi"
  by (cases es) auto

lemma emits_from_append: "emits_from a xs b \<Longrightarrow> emits_from b ys c \<Longrightarrow> emits_from a (xs @ ys) c"
  by (induction xs arbitrary: a) (auto intro: emits_from_weaken)

lemma emits_from_cover: "emits_from lo es hi \<Longrightarrow> emits_cover es \<subseteq> {lo..<hi}"
proof (induction es arbitrary: lo)
  case (Cons e es)
  then have "emits_cover es \<subseteq> {emit_end e..<hi}" "emit_end e \<le> hi" "lo \<le> emit_start e"
    using emits_from_le by auto
  then show ?case using emit_start_le [of e] by (fastforce simp: emit_range_eq)
qed simp

lemma emits_from_disjoint: "emits_from lo es hi \<Longrightarrow> emits_disjoint es"
proof (induction es arbitrary: lo)
  case (Cons e es)
  then have "emits_cover es \<subseteq> {emit_end e..<hi}" using emits_from_cover by auto
  then have "emit_range e \<inter> emits_cover es = {}" by (auto simp: emit_range_eq)
  then show ?case using Cons by (auto simp: emits_disjoint_Cons simp del: emits_disjoint.simps)
qed simp

text \<open>A sequence that emits, in order, exactly the bytes of a range that satisfy \<open>P\<close>, each with
  its value in \<open>img\<close>.\<close>

definition emission :: "nat \<Rightarrow> nat \<Rightarrow> (nat \<Rightarrow> bool) \<Rightarrow> (nat \<Rightarrow> u8) \<Rightarrow> emit list \<Rightarrow> bool" where
  "emission lo hi P img es \<longleftrightarrow> emits_from lo es hi \<and> emits_cover es = {i\<in>{lo..<hi}. P i} \<and>
    (\<forall>e\<in>set es. \<forall>i\<in>emit_range e. emit_byte e i = img i)"

lemma emission_append:
  assumes "emission a b P img xs" "emission b c P img ys"
  shows "emission a c P img (xs @ ys)"
proof -
  have "a \<le> b" "b \<le> c" using assms emits_from_le by (auto simp: emission_def)
  then have "{i\<in>{a..<b}. P i} \<union> {i\<in>{b..<c}. P i} = {i\<in>{a..<c}. P i}" by auto
  then show ?thesis using assms
    by (auto simp: emission_def emits_cover_def intro: emits_from_append)
qed

lemma emission_cong:
  assumes "emission a b P img es" "\<And>i. a \<le> i \<Longrightarrow> i < b \<Longrightarrow> P i = Q i"
    and "\<And>i. a \<le> i \<Longrightarrow> i < b \<Longrightarrow> P i \<Longrightarrow> img i = img' i"
  shows "emission a b Q img' es"
proof -
  have "{i\<in>{a..<b}. P i} = {i\<in>{a..<b}. Q i}" using assms(2) by auto
  moreover have "emit_byte e i = img' i" if "e \<in> set es" "i \<in> emit_range e" for e i
  proof -
    have "i \<in> emits_cover es" using that by (auto simp: emits_cover_def)
    then have "a \<le> i" "i < b" "P i" using assms(1) by (auto simp: emission_def)
    then show ?thesis using assms(1,3) that by (auto simp: emission_def)
  qed
  ultimately show ?thesis using assms(1) by (simp add: emission_def)
qed

lemma emission_none: "a \<le> b \<Longrightarrow> (\<And>i. a \<le> i \<Longrightarrow> i < b \<Longrightarrow> \<not> P i) \<Longrightarrow> emission a b P img []"
  by (auto simp: emission_def)

lemma emission_zeros:
  "(\<And>i. a \<le> i \<Longrightarrow> i < a + n \<Longrightarrow> P i \<and> img i = 0) \<Longrightarrow> emission a (a + n) P img [Zeros a n]"
  by (auto simp: emission_def)

lemma emission_data:
  "(\<And>i. i < length bs \<Longrightarrow> P (a + i) \<and> img (a + i) = bs ! i) \<Longrightarrow>
   emission a (a + length bs) P img [Data a bs]"
  by (auto simp: emission_def) (metis le_add_diff_inverse nat_add_left_cancel_less)+

lemma image_of_emission:
  assumes "emission lo hi P img es"
  shows "image_of es i = (if lo \<le> i \<and> i < hi \<and> P i then img i else 0)"
proof (cases "i \<in> emits_cover es")
  case True
  then have "find (\<lambda>e. i \<in> emit_range e) es \<noteq> None"
    by (auto simp: find_None_iff emits_cover_def)
  then obtain e where e: "find (\<lambda>e. i \<in> emit_range e) es = Some e" by blast
  then have "e \<in> set es" "i \<in> emit_range e" by (auto simp: find_Some_iff)
  then show ?thesis using e assms True by (auto simp: emission_def image_of_def)
next
  case False
  then have "find (\<lambda>e. i \<in> emit_range e) es = None"
    by (auto simp: find_None_iff emits_cover_def)
  then show ?thesis using assms False by (auto simp: emission_def image_of_def)
qed

lemma emit_all_append:
  "emit_all d z (es @ fs) s = bindE (emit_all d z es s) (emit_all d z fs)"
  by (simp add: emit_all_def foldE_append)

lemma emit_all_simps [simp]:
  "emit_all d z [] = Inr"
  "emit_all d z (e # es) s = bindE (emit_step d z e s) (emit_all d z es)"
  by (simp_all add: emit_all_def fun_eq_iff)

section \<open>Gaps\<close>

definition runs_ok :: "run list \<Rightarrow> bool" where
  "runs_ok rs \<longleftrightarrow> runs_disjoint rs \<and> (\<forall>r\<in>set rs. 0 < run_len r)"

lemma runs_ok_Cons: "runs_ok (r # rs) \<longleftrightarrow>
    0 < run_len r \<and> runs_ok rs \<and> (\<forall>q\<in>set rs. run_start r + run_len r \<le> run_start q)"
proof
  assume "runs_ok (r # rs)"
  then show "0 < run_len r \<and> runs_ok rs \<and> (\<forall>q\<in>set rs. run_start r + run_len r \<le> run_start q)"
    using runs_disjoint_Cons [of r rs] runs_disjoint_tl [of r rs] by (auto simp: runs_ok_def)
next
  assume "0 < run_len r \<and> runs_ok rs \<and> (\<forall>q\<in>set rs. run_start r + run_len r \<le> run_start q)"
  then show "runs_ok (r # rs)" by (cases rs) (auto simp: runs_ok_def)
qed

lemma in_runs_before:
  "runs_ok (r # rs) \<Longrightarrow> b < run_start r \<Longrightarrow> \<not> in_runs (r # rs) b"
  by (fastforce simp: in_runs_def in_run_def runs_ok_Cons)

lemma drop_past_runs:
  assumes "runs_ok rs"
  shows "runs_ok (dropWhile (\<lambda>r. run_start r + run_len r \<le> p) rs) \<and>
    (\<forall>b\<ge>p. in_runs (dropWhile (\<lambda>r. run_start r + run_len r \<le> p) rs) b \<longleftrightarrow> in_runs rs b)"
  using assms by (induction rs) (auto simp: runs_ok_Cons in_run_def)

abbreviation block_of :: "nat \<Rightarrow> nat" where
  "block_of i \<equiv> i div BLOCK_SIZE"

lemma block_range: "a * BLOCK_SIZE \<le> i \<Longrightarrow> i < b * BLOCK_SIZE \<Longrightarrow> a \<le> block_of i \<and> block_of i < b"
  by (simp add: less_eq_div_iff_mult_less_eq div_less_iff_less_mult)

lemma block_bytes: "a \<le> b \<Longrightarrow> a * BLOCK_SIZE + (b - a) * BLOCK_SIZE = b * BLOCK_SIZE"
  by (simp add: diff_mult_distrib)

lemma gap_zeros:
  assumes "a \<le> b" "\<And>k. a \<le> k \<Longrightarrow> k < b \<Longrightarrow> \<not> in_runs runs k"
  shows "emission (a * BLOCK_SIZE) (b * BLOCK_SIZE) (\<lambda>i. \<not> in_runs runs (block_of i)) (\<lambda>_. 0)
    [Zeros (a * BLOCK_SIZE) ((b - a) * BLOCK_SIZE)]"
proof -
  have "\<not> in_runs runs (block_of i)" if "a * BLOCK_SIZE \<le> i" "i < b * BLOCK_SIZE" for i
    using block_range [OF that] assms(2) by blast
  then show ?thesis
    using emission_zeros [of "a * BLOCK_SIZE" "(b - a) * BLOCK_SIZE" "\<lambda>i. \<not> in_runs runs (block_of i)" "\<lambda>_. 0"]
    unfolding block_bytes [OF assms(1)] by blast
qed

lemma emit_gap_spec:
  assumes "runs_ok runs" "fpos \<le> tpos"
  shows "\<exists>es rest. (\<forall>s. emit_gap z fpos tpos runs s = bindE (emit_all d z es s) (\<lambda>s. Inr (s, rest))) \<and>
    emission (fpos * BLOCK_SIZE) (tpos * BLOCK_SIZE) (\<lambda>i. \<not> in_runs runs (block_of i)) (\<lambda>_. 0) es \<and>
    runs_ok rest \<and> (\<forall>b\<ge>tpos. in_runs rest b \<longleftrightarrow> in_runs runs b)"
  using assms
proof (induction "tpos - fpos" arbitrary: fpos runs rule: less_induct)
  case less
  let ?D = "dropWhile (\<lambda>r. run_start r + run_len r \<le> fpos) runs"
  let ?P = "\<lambda>i. \<not> in_runs runs (block_of i)"
  note D = drop_past_runs [OF less.prems(1), of fpos]
  show ?case
  proof (cases "fpos < tpos")
    case False
    then show ?thesis using less.prems
      by (intro exI [of _ "[]"] exI [of _ runs]) (auto simp: emit_gap.simps [of z] intro: emission_none)
  next
    case lt: True
    show ?thesis
    proof (cases "\<exists>r rs. ?D = r # rs \<and> run_start r < tpos")
      case False
      have clear: "\<not> in_runs runs k" if "fpos \<le> k" "k < tpos" for k
      proof (cases ?D)
        case (Cons r rs)
        then have "\<not> in_runs ?D k" using False that D in_runs_before [of r rs k] by auto
        then show ?thesis using D that by blast
      qed (use D that in \<open>metis in_runs_simps(1)\<close>)
      have "emit_gap z fpos tpos runs s =
          bindE (emit_all d z [Zeros (fpos * BLOCK_SIZE) ((tpos - fpos) * BLOCK_SIZE)] s) (\<lambda>s. Inr (s, ?D))" for s
        using False lt by (subst emit_gap.simps, cases ?D)
          (auto simp: bindE_assoc simp del: dropWhile_eq_Nil_conv)
      moreover have "\<forall>b\<ge>tpos. in_runs ?D b \<longleftrightarrow> in_runs runs b" using D lt by auto
      ultimately show ?thesis using gap_zeros [of fpos tpos runs] clear D lt by (intro exI conjI) auto
    next
      case True
      then obtain r rs where r: "?D = r # rs" "run_start r < tpos" by blast
      have past: "fpos < run_start r + run_len r"
        using hd_dropWhile [of "\<lambda>r. run_start r + run_len r \<le> fpos" runs] r(1) by simp
      define next_pos where "next_pos = min (run_start r + run_len r) tpos"
      define runs' where "runs' = (if run_start r + run_len r \<le> tpos then rs else r # rs)"
      have ok: "runs_ok (r # rs)" using D r(1) by simp
      then have ok': "runs_ok runs'" by (simp add: runs'_def runs_ok_Cons)
      have D': "in_runs runs b \<longleftrightarrow> in_run b r \<or> in_runs rs b" if "fpos \<le> b" for b
        using D r(1) that by (metis in_runs_simps(2))
      have p: "fpos < next_pos" "next_pos \<le> tpos" using past lt by (simp_all add: next_pos_def)
      have same: "in_runs runs' b \<longleftrightarrow> in_runs runs b" if "next_pos \<le> b" for b
        using that p D' [of b] by (auto simp: runs'_def next_pos_def in_run_def)
      obtain es rest where IH:
        "\<And>s. emit_gap z next_pos tpos runs' s = bindE (emit_all d z es s) (\<lambda>s. Inr (s, rest))"
        "emission (next_pos * BLOCK_SIZE) (tpos * BLOCK_SIZE) (\<lambda>i. \<not> in_runs runs' (block_of i)) (\<lambda>_. 0) es"
        "runs_ok rest" "\<forall>b\<ge>tpos. in_runs rest b \<longleftrightarrow> in_runs runs' b"
        using less.hyps [OF _ ok', of next_pos] p by (metis diff_less_mono2 lt)
      define es0 where "es0 = (if fpos < run_start r
        then [Zeros (fpos * BLOCK_SIZE) ((run_start r - fpos) * BLOCK_SIZE)] else [])"
      have step: "emit_gap z fpos tpos runs s = bindE (emit_all d z (es0 @ es) s) (\<lambda>s. Inr (s, rest))" for s
        using r lt IH(1)
        by (subst emit_gap.simps)
          (auto simp: es0_def next_pos_def runs'_def bindE_assoc emit_all_append intro!: bindE_cong)
      have "\<not> in_runs runs k" if "fpos \<le> k" "k < run_start r" for k
        using in_runs_before [OF ok that(2)] D r(1) that(1) by metis
      then have e0: "emission (fpos * BLOCK_SIZE) (max fpos (run_start r) * BLOCK_SIZE) ?P (\<lambda>_. 0) es0"
        using gap_zeros [of fpos "run_start r" runs] by (auto simp: es0_def max_def intro: emission_none)
      have le: "max fpos (run_start r) \<le> next_pos" using p r(2) by (simp add: next_pos_def)
      have inside: "in_runs runs k" if "max fpos (run_start r) \<le> k" "k < next_pos" for k
        using that D' [of k] by (auto simp: next_pos_def in_run_def)
      have e1: "emission (max fpos (run_start r) * BLOCK_SIZE) (next_pos * BLOCK_SIZE) ?P (\<lambda>_. 0) []"
        by (rule emission_none, rule mult_le_mono1, rule le) (use block_range inside in blast)
      have e2: "emission (next_pos * BLOCK_SIZE) (tpos * BLOCK_SIZE) ?P (\<lambda>_. 0) es"
        using IH(2) by (rule emission_cong) (use block_range same in blast)+
      have "\<forall>b\<ge>tpos. in_runs rest b \<longleftrightarrow> in_runs runs b" using IH(4) same p by simp
      then show ?thesis
        using step emission_append [OF e0 emission_append [OF e1 e2]] IH(3) by (metis append_Nil)
    qed
  qed
qed

section \<open>Segments\<close>

definition seg_run :: "segment \<Rightarrow> run" where
  "seg_run seg = \<lparr>run_start = seg_block seg, run_len = seg_blocks seg\<rparr>"

lemma seg_run_simps [simp]:
  "run_start (seg_run q) = seg_block q" "run_len (seg_run q) = seg_blocks q"
  by (simp_all add: seg_run_def)

text \<open>The bytes the layout assigns to a block of metadata: rendered bytes, or the table's inodes.\<close>

definition seg_byte :: "layout \<Rightarrow> segment \<Rightarrow> nat \<Rightarrow> u8" where
  "seg_byte lay seg i =
    (let k = i - seg_block seg * BLOCK_SIZE in
     case seg_src seg of
       SegBytes bs \<Rightarrow> bs ! k
     | SegItable g \<Rightarrow>
         let ix = g * geo_inodes_per_group (lay_geo lay) + k div 256
         in if ix < length (lay_inodes lay) then lay_inodes lay ! ix ! (k mod 256) else 0)"

definition meta_byte :: "layout \<Rightarrow> nat \<Rightarrow> u8" where
  "meta_byte lay i =
    (case find (\<lambda>seg. in_run (block_of i) (seg_run seg)) (lay_segments lay) of
       None \<Rightarrow> 0 | Some seg \<Rightarrow> seg_byte lay seg i)"

text \<open>What a segment must satisfy by itself: its bytes fill it, or it is a whole inode table.\<close>

definition seg_ok :: "layout \<Rightarrow> segment \<Rightarrow> bool" where
  "seg_ok lay seg \<longleftrightarrow> 0 < seg_blocks seg \<and>
    (case seg_src seg of
       SegBytes bs \<Rightarrow> length bs = seg_blocks seg * BLOCK_SIZE
     | SegItable g \<Rightarrow> seg_blocks seg * 16 = geo_inodes_per_group (lay_geo lay))"

definition inodes_ok :: "layout \<Rightarrow> bool" where
  "inodes_ok lay \<longleftrightarrow> length (lay_inodes lay) = lay_max_ino lay \<and> (\<forall>raw\<in>set (lay_inodes lay). length raw = 256)"

lemma concat_inodes_nth:
  assumes "\<forall>raw\<in>set xs. length raw = 256" "k < length xs * 256"
  shows "concat xs ! k = xs ! (k div 256) ! (k mod 256)"
  using assms
proof (induction xs arbitrary: k)
  case (Cons x xs)
  show ?case
  proof (cases "k < 256")
    case False
    then have "k div 256 = Suc ((k - 256) div 256)" "k mod 256 = (k - 256) mod 256"
      by (simp_all add: le_div_geq le_mod_geq)
    then show ?thesis using Cons False by (auto simp: nth_append)
  qed (use Cons in \<open>simp add: nth_append\<close>)
qed simp

lemma length_concat_inodes: "\<forall>raw\<in>set xs. length raw = 256 \<Longrightarrow> length (concat xs) = length xs * 256"
  by (induction xs) auto

text \<open>A block of the inode table holds the inodes numbered from its base.\<close>

lemma itable_block_ok:
  assumes "inodes_ok lay" "f - 1 + blk * 16 \<le> length (lay_inodes lay)"
  shows "\<exists>buf. itable_block lay f blk = Inr buf \<and> length buf = BLOCK_SIZE \<and>
    (\<forall>k<BLOCK_SIZE. buf ! k = (let ix = f - 1 + blk * 16 + k div 256
       in if ix < length (lay_inodes lay) then lay_inodes lay ! ix ! (k mod 256) else 0))"
proof -
  define base where "base = f - 1 + blk * 16"
  define avail where "avail = min (length (lay_inodes lay) - base) 16"
  let ?xs = "take avail (drop base (lay_inodes lay))"
  let ?buf = "concat ?xs @ zeros_buf ((16 - avail) * 256)"
  have xs: "\<forall>raw\<in>set ?xs. length raw = 256" "length ?xs = avail" "avail \<le> 16"
    using assms(1) by (auto simp: inodes_ok_def avail_def dest: in_set_takeD in_set_dropD)
  have len: "length (concat ?xs) = avail * 256" using length_concat_inodes [OF xs(1)] xs(2) by simp
  have "?buf ! k = (if base + k div 256 < length (lay_inodes lay)
      then lay_inodes lay ! (base + k div 256) ! (k mod 256) else 0)" if k: "k < 4096" for k
  proof (cases "k < avail * 256")
    case True
    then have a: "k div 256 < avail" by (simp add: div_less_iff_less_mult)
    then have "base + k div 256 < length (lay_inodes lay)" by (simp add: avail_def less_diff_conv add.commute)
    moreover have "?xs ! (k div 256) = lay_inodes lay ! (base + k div 256)"
      using a xs(2) assms(2) by (simp add: avail_def base_def)
    ultimately show ?thesis using True len concat_inodes_nth [OF xs(1), of k] xs(2)
      by (simp add: nth_append)
  next
    case False
    then have a: "avail \<le> k div 256" by (simp add: less_eq_div_iff_mult_less_eq)
    moreover have "k div 256 < 16" using k by simp
    ultimately have "\<not> base + k div 256 < length (lay_inodes lay)"
      by (auto simp: avail_def min_def split: if_splits)
    moreover have "k - avail * 256 < (16 - avail) * 256" using False k by (simp add: diff_mult_distrib)
    ultimately show ?thesis using False len by (simp add: nth_append)
  qed
  moreover have "length ?buf = 4096" using len xs(3) by (simp add: diff_mult_distrib)
  moreover have "itable_block lay f blk = Inr ?buf"
    using assms(2) by (simp add: itable_block_def base_def avail_def Let_def)
  ultimately show ?thesis unfolding Let_def base_def [symmetric] BLOCK_SIZE_def
    by (intro exI [of _ ?buf]) blast
qed

lemma foldE_emit:
  assumes "\<And>x s. x \<in> set xs \<Longrightarrow> f x s = emit_step d z (g x) s"
  shows "foldE f xs s = emit_all d z (map g xs) s"
  using assms by (induction xs arbitrary: s) (auto intro!: bindE_cong)

lemma emission_blocks:
  assumes "\<And>k. k < n \<Longrightarrow> length (buf k) = BLOCK_SIZE"
    and "\<And>k j. k < n \<Longrightarrow> j < BLOCK_SIZE \<Longrightarrow> img ((st + k) * BLOCK_SIZE + j) = buf k ! j"
  shows "emission (st * BLOCK_SIZE) ((st + n) * BLOCK_SIZE) (\<lambda>_. True) img
    (map (\<lambda>k. Data ((st + k) * BLOCK_SIZE) (buf k)) [0..<n])"
  using assms
proof (induction n)
  case (Suc n)
  have "emission ((st + n) * BLOCK_SIZE) ((st + n) * BLOCK_SIZE + length (buf n)) (\<lambda>_. True) img
      [Data ((st + n) * BLOCK_SIZE) (buf n)]"
    using Suc.prems by (intro emission_data) simp
  then show ?case using emission_append [OF Suc.IH] Suc.prems by (simp add: algebra_simps)
qed (simp add: emission_none)

lemma div_ceil_16: "div_ceil n 16 \<le> k \<longleftrightarrow> n \<le> k * 16"
  by (rule div_ceil_le_iff) simp

lemma inode_pos:
  "(j + k * 4096) div 256 = k * 16 + j div (256 :: nat)" "(j + k * 4096) mod 256 = j mod (256 :: nat)"
proof -
  have "j + k * 4096 = j + (k * 16) * 256" by simp
  then show "(j + k * 4096) div 256 = k * 16 + j div (256 :: nat)" "(j + k * 4096) mod 256 = j mod (256 :: nat)"
    by (simp_all only: div_mult_self1 mod_mult_self1 zero_neq_numeral not_False_eq_True)
qed

lemma emit_itable_spec:
  assumes "inodes_ok lay" "n * 16 = geo_inodes_per_group (lay_geo lay)"
    and "\<And>i. st * BLOCK_SIZE \<le> i \<Longrightarrow> i < (st + n) * BLOCK_SIZE \<Longrightarrow>
      img i = seg_byte lay \<lparr>seg_block = st, seg_blocks = n, seg_src = SegItable g\<rparr> i"
  shows "\<exists>es. (\<forall>s. emit_itable d z lay g st n s = emit_all d z es s) \<and>
    emission (st * BLOCK_SIZE) ((st + n) * BLOCK_SIZE) (\<lambda>_. True) img es"
proof -
  define base where "base = g * geo_inodes_per_group (lay_geo lay)"
  define used where "used = itable_used_blocks lay (base + 1)"
  define m where "m = clamp (lay_max_ino lay) base (base + n * 16) - base"
  have ip: "geo_inodes_per_group (lay_geo lay) = n * 16" and len: "length (lay_inodes lay) = lay_max_ino lay"
    using assms by (simp_all add: inodes_ok_def)
  have u: "used = div_ceil m 16" by (simp add: used_def m_def itable_used_blocks_def ip)
  have "m \<le> n * 16" by (auto simp: m_def clamp_def)
  then have un: "used \<le> n" by (simp add: u div_ceil_16)
  have in_m: "base + blk * 16 \<le> length (lay_inodes lay)" if "blk < used" for blk
  proof -
    have "\<not> m \<le> blk * 16" using that by (metis div_ceil_16 not_less u)
    then show ?thesis by (auto simp: m_def clamp_def len min_def max_def split: if_splits)
  qed
  then have "\<forall>blk<used. \<exists>buf. itable_block lay (base + 1) blk = Inr buf \<and> length buf = BLOCK_SIZE \<and>
      (\<forall>k<BLOCK_SIZE. buf ! k = (let ix = base + blk * 16 + k div 256
       in if ix < length (lay_inodes lay) then lay_inodes lay ! ix ! (k mod 256) else 0))"
    using itable_block_ok [OF assms(1), of "base + 1"] by simp
  then obtain buf where buf: "\<And>blk. blk < used \<Longrightarrow> itable_block lay (base + 1) blk = Inr (buf blk)"
    "\<And>blk. blk < used \<Longrightarrow> length (buf blk) = BLOCK_SIZE"
    "\<And>blk k. blk < used \<Longrightarrow> k < BLOCK_SIZE \<Longrightarrow> buf blk ! k = (let ix = base + blk * 16 + k div 256
       in if ix < length (lay_inodes lay) then lay_inodes lay ! ix ! (k mod 256) else 0)"
    by metis
  let ?es = "map (\<lambda>k. Data ((st + k) * BLOCK_SIZE) (buf k)) [0..<used]"
  let ?fs = "if used < n then [Zeros ((st + used) * BLOCK_SIZE) ((n - used) * BLOCK_SIZE)] else []"
  have fold: "foldE (\<lambda>blk s. bindE (itable_block lay (base + 1) blk) (\<lambda>b. d s ((st + blk) * BLOCK_SIZE) b)) [0..<used] s
      = emit_all d z ?es s" for s
    by (rule foldE_emit) (simp add: buf(1) [simplified])
  have run: "emit_itable d z lay g st n s = emit_all d z (?es @ ?fs) s" for s
    unfolding emit_itable_def base_def [symmetric] Let_def used_def [symmetric] fold emit_all_append
    by (rule bindE_cong) auto
  have "img ((st + k) * BLOCK_SIZE + j) = buf k ! j" if "k < used" "j < BLOCK_SIZE" for k j
  proof -
    have "k + 1 \<le> n" using that(1) un by simp
    then have "(k + 1) * 4096 \<le> n * 4096" by (rule mult_le_mono1)
    then have "(st + k) * 4096 + j < (st + n) * 4096" using that(2) by simp
    then show ?thesis using assms(3) [of "(st + k) * BLOCK_SIZE + j"] that
      by (simp add: buf(3) seg_byte_def base_def [symmetric] Let_def algebra_simps inode_pos)
  qed
  then have e1: "emission (st * BLOCK_SIZE) ((st + used) * BLOCK_SIZE) (\<lambda>_. True) img ?es"
    using buf(2) by (intro emission_blocks)
  have "img i = 0" if i: "(st + used) * BLOCK_SIZE \<le> i" "i < (st + n) * BLOCK_SIZE" for i
  proof -
    define k where "k = i - st * 4096"
    have k: "used * 4096 \<le> k" "k < n * 4096" using i by (simp_all add: k_def algebra_simps)
    have "used * 16 \<le> k div 256" using k(1) by (simp add: less_eq_div_iff_mult_less_eq)
    moreover have "k div 256 < n * 16" using k(2) by (simp add: div_less_iff_less_mult)
    moreover have "m \<le> used * 16" using div_ceil_16 [of m used] u by simp
    ultimately have "\<not> base + k div 256 < length (lay_inodes lay)"
      by (auto simp: m_def clamp_def len min_def max_def split: if_splits)
    moreover have "st * BLOCK_SIZE \<le> i" using i(1) by simp
    ultimately show ?thesis using assms(3) [of i] i(2)
      by (simp add: seg_byte_def base_def [symmetric] Let_def k_def)
  qed
  moreover have "emission ((st + used) * BLOCK_SIZE) ((st + n) * BLOCK_SIZE) (\<lambda>_. True) img ?fs"
    if z: "\<And>i. (st + used) * BLOCK_SIZE \<le> i \<Longrightarrow> i < (st + n) * BLOCK_SIZE \<Longrightarrow> img i = 0"
  proof (cases "used < n")
    case True
    have e: "(st + n) * BLOCK_SIZE = (st + used) * BLOCK_SIZE + (n - used) * BLOCK_SIZE"
      using un by (simp add: algebra_simps diff_mult_distrib)
    have "emission ((st + used) * BLOCK_SIZE) ((st + n) * BLOCK_SIZE) (\<lambda>_. True) img
        [Zeros ((st + used) * BLOCK_SIZE) ((n - used) * BLOCK_SIZE)]"
      unfolding e by (rule emission_zeros) (use z e in auto)
    then show ?thesis using True by simp
  next
    case False
    then have "used = n" using un by simp
    then show ?thesis by (simp add: emission_none)
  qed
  ultimately have "emission ((st + used) * BLOCK_SIZE) ((st + n) * BLOCK_SIZE) (\<lambda>_. True) img ?fs" by blast
  then show ?thesis using run emission_append [OF e1] by blast
qed

section \<open>The metadata pass\<close>

lemma in_seg_run: "in_run b (seg_run q) \<longleftrightarrow> seg_block q \<le> b \<and> b < seg_block q + seg_blocks q"
  by (simp add: in_run_def)

text \<open>One segment emits its bytes after the gap before it.\<close>

lemma seg_emission:
  assumes "seg_ok lay q" "inodes_ok lay"
    and img: "\<And>i. in_run (block_of i) (seg_run q) \<Longrightarrow> img i = seg_byte lay q i"
  shows "\<exists>es. (\<forall>s. (case seg_src q of
        SegBytes bs \<Rightarrow> bindE (guardE (length bs = seg_blocks q * BLOCK_SIZE) Panic) (\<lambda>_.
          d s (seg_block q * BLOCK_SIZE) bs)
      | SegItable g \<Rightarrow> emit_itable d z lay g (seg_block q) (seg_blocks q) s) = emit_all d z es s) \<and>
    emission (seg_block q * BLOCK_SIZE) ((seg_block q + seg_blocks q) * BLOCK_SIZE) (\<lambda>_. True) img es"
proof -
  have img': "img i = seg_byte lay q i"
    if "seg_block q * BLOCK_SIZE \<le> i" "i < (seg_block q + seg_blocks q) * BLOCK_SIZE" for i
    using img block_range [OF that] by (simp add: in_seg_run)
  show ?thesis
  proof (cases "seg_src q")
    case (SegBytes bs)
    then have l: "length bs = seg_blocks q * BLOCK_SIZE" using assms(1) by (simp add: seg_ok_def)
    have "emission (seg_block q * BLOCK_SIZE) (seg_block q * BLOCK_SIZE + length bs) (\<lambda>_. True) img
        [Data (seg_block q * BLOCK_SIZE) bs]"
      using img' SegBytes l by (intro emission_data) (simp add: seg_byte_def algebra_simps)
    then show ?thesis using SegBytes l
      by (intro exI [of _ "[Data (seg_block q * BLOCK_SIZE) bs]"]) (simp add: algebra_simps)
  next
    case (SegItable g)
    have "q = \<lparr>seg_block = seg_block q, seg_blocks = seg_blocks q, seg_src = SegItable g\<rparr>"
      using SegItable by (cases q) simp
    moreover have "seg_blocks q * 16 = geo_inodes_per_group (lay_geo lay)"
      using assms(1) SegItable by (simp add: seg_ok_def)
    ultimately have "\<exists>es. (\<forall>s. emit_itable d z lay g (seg_block q) (seg_blocks q) s = emit_all d z es s) \<and>
        emission (seg_block q * BLOCK_SIZE) ((seg_block q + seg_blocks q) * BLOCK_SIZE) (\<lambda>_. True) img es"
      using img' by (intro emit_itable_spec [OF assms(2)]) simp_all
    then show ?thesis using SegItable by simp
  qed
qed

lemma emit_segments_spec:
  assumes "runs_ok (map seg_run segs)" "inodes_ok lay" "runs_ok runs"
    and "\<forall>q\<in>set segs. cursor \<le> seg_block q \<and> seg_ok lay q"
    and "\<And>q b. q \<in> set segs \<Longrightarrow> in_run b (seg_run q) \<Longrightarrow> \<not> in_runs D b"
    and "\<forall>b\<ge>cursor. in_runs runs b \<longleftrightarrow> in_runs D b"
    and "\<And>q i. q \<in> set segs \<Longrightarrow> in_run (block_of i) (seg_run q) \<Longrightarrow> img i = seg_byte lay q i"
    and "\<And>i. cursor \<le> block_of i \<Longrightarrow> \<not> in_runs (map seg_run segs) (block_of i) \<Longrightarrow> img i = 0"
  shows "\<exists>es fin rest. (\<forall>s. foldE (emit_segment d z lay) segs (cursor, runs, s) =
      bindE (emit_all d z es s) (\<lambda>s. Inr (fin, rest, s))) \<and>
    emission (cursor * BLOCK_SIZE) (fin * BLOCK_SIZE) (\<lambda>i. \<not> in_runs D (block_of i)) img es \<and>
    runs_ok rest \<and> (\<forall>b\<ge>fin. in_runs rest b \<longleftrightarrow> in_runs D b) \<and>
    fin = (if segs = [] then cursor else seg_block (last segs) + seg_blocks (last segs)) \<and>
    (\<forall>q\<in>set segs. seg_block q + seg_blocks q \<le> fin)"
  using assms
proof (induction segs arbitrary: cursor runs)
  case Nil
  then show ?case by (intro exI [of _ "[]"] exI [of _ cursor] exI [of _ runs]) (auto simp: emission_none)
next
  case (Cons q segs)
  let ?P = "\<lambda>i. \<not> in_runs D (block_of i)"
  let ?next = "seg_block q + seg_blocks q"
  have q: "cursor \<le> seg_block q" "seg_ok lay q" "0 < seg_blocks q"
    using Cons.prems(4) by (auto simp: seg_ok_def)
  have later: "\<forall>p\<in>set segs. ?next \<le> seg_block p" "runs_ok (map seg_run segs)"
    using Cons.prems(1) by (auto simp: runs_ok_Cons)
  obtain gs rest0 where gap:
    "\<And>s. emit_gap z cursor (seg_block q) runs s = bindE (emit_all d z gs s) (\<lambda>s. Inr (s, rest0))"
    "emission (cursor * BLOCK_SIZE) (seg_block q * BLOCK_SIZE) (\<lambda>i. \<not> in_runs runs (block_of i)) (\<lambda>_. 0) gs"
    "runs_ok rest0" "\<forall>b\<ge>seg_block q. in_runs rest0 b \<longleftrightarrow> in_runs runs b"
    using emit_gap_spec [OF Cons.prems(3) q(1), of z d] by blast
  have gap': "(if cursor < seg_block q then emit_gap z cursor (seg_block q) runs s else Inr (s, runs)) =
      bindE (emit_all d z (if cursor < seg_block q then gs else []) s)
        (\<lambda>s. Inr (s, if cursor < seg_block q then rest0 else runs))" for s
    using gap(1) by simp
  define gs' where "gs' = (if cursor < seg_block q then gs else [])"
  define rest' where "rest' = (if cursor < seg_block q then rest0 else runs)"
  have rest': "runs_ok rest'" "\<forall>b\<ge>?next. in_runs rest' b \<longleftrightarrow> in_runs D b"
    using gap(3,4) Cons.prems(3,6) q by (auto simp: rest'_def)
  have e0: "emission (cursor * BLOCK_SIZE) (seg_block q * BLOCK_SIZE) ?P img gs'"
  proof (cases "cursor < seg_block q")
    case True
    have out: "\<not> in_runs (map seg_run (q # segs)) b" if "b < seg_block q" for b
      using in_runs_before [of "seg_run q" "map seg_run segs" b] Cons.prems(1) that by simp
    have "img i = 0" if "cursor * BLOCK_SIZE \<le> i" "i < seg_block q * BLOCK_SIZE" for i
      using block_range [OF that] Cons.prems(8) [of i] out by blast
    moreover have "in_runs runs (block_of i) = in_runs D (block_of i)"
      if "cursor * BLOCK_SIZE \<le> i" "i < seg_block q * BLOCK_SIZE" for i
      using block_range [OF that] Cons.prems(6) by blast
    ultimately show ?thesis
      using True gap(2) unfolding gs'_def by (auto intro: emission_cong)
  next
    case False
    then show ?thesis using q(1) by (simp add: gs'_def emission_none)
  qed
  obtain ss where seg: "\<And>s. (case seg_src q of
        SegBytes bs \<Rightarrow> bindE (guardE (length bs = seg_blocks q * BLOCK_SIZE) Panic) (\<lambda>_.
          d s (seg_block q * BLOCK_SIZE) bs)
      | SegItable g \<Rightarrow> emit_itable d z lay g (seg_block q) (seg_blocks q) s) = emit_all d z ss s"
    "emission (seg_block q * BLOCK_SIZE) (?next * BLOCK_SIZE) (\<lambda>_. True) img ss"
    using seg_emission [OF q(2) Cons.prems(2), of img d z] Cons.prems(7) [of q] by auto
  have e1: "emission (seg_block q * BLOCK_SIZE) (?next * BLOCK_SIZE) ?P img ss"
  proof (rule emission_cong [OF seg(2)])
    fix i assume i: "seg_block q * BLOCK_SIZE \<le> i" "i < ?next * BLOCK_SIZE"
    then have "in_run (block_of i) (seg_run q)" using block_range [OF i] by (simp only: in_seg_run)
    then show "True = (\<not> in_runs D (block_of i))" using Cons.prems(5) [of q] by simp
  qed simp
  have "\<exists>es fin rest. (\<forall>s. foldE (emit_segment d z lay) segs (?next, rest', s) =
      bindE (emit_all d z es s) (\<lambda>s. Inr (fin, rest, s))) \<and>
    emission (?next * BLOCK_SIZE) (fin * BLOCK_SIZE) ?P img es \<and>
    runs_ok rest \<and> (\<forall>b\<ge>fin. in_runs rest b \<longleftrightarrow> in_runs D b) \<and>
    fin = (if segs = [] then ?next else seg_block (last segs) + seg_blocks (last segs)) \<and>
    (\<forall>q\<in>set segs. seg_block q + seg_blocks q \<le> fin)"
  proof (rule Cons.IH [OF later(2) Cons.prems(2) rest'(1)])
    show "\<forall>p\<in>set segs. ?next \<le> seg_block p \<and> seg_ok lay p" using later(1) Cons.prems(4) by auto
    show "img i = 0" if "?next \<le> block_of i" "\<not> in_runs (map seg_run segs) (block_of i)" for i
      using Cons.prems(8) [of i] that q(1) by (auto simp: in_seg_run)
  qed (use Cons.prems(5,7) rest'(2) in auto)
  then obtain es fin rest where IH: "\<And>s. foldE (emit_segment d z lay) segs (?next, rest', s) =
      bindE (emit_all d z es s) (\<lambda>s. Inr (fin, rest, s))"
    "emission (?next * BLOCK_SIZE) (fin * BLOCK_SIZE) ?P img es"
    "runs_ok rest" "\<forall>b\<ge>fin. in_runs rest b \<longleftrightarrow> in_runs D b"
    "fin = (if segs = [] then ?next else seg_block (last segs) + seg_blocks (last segs))"
    "\<forall>q\<in>set segs. seg_block q + seg_blocks q \<le> fin" by blast
  have step: "foldE (emit_segment d z lay) (q # segs) (cursor, runs, s) =
      bindE (emit_all d z (gs' @ ss @ es) s) (\<lambda>s. Inr (fin, rest, s))" for s
    by (simp only: foldE.simps emit_segment_def prod.case gap' gs'_def [symmetric] rest'_def [symmetric]
        bindE_assoc bindE_Inr seg(1) IH(1) emit_all_append)
  have "?next \<le> fin" using IH(5) later(1) last_in_set [of segs] by fastforce
  then show ?case
    using step emission_append [OF e0 emission_append [OF e1 IH(2)]] IH(3-6)
    by (intro exI [of _ "gs' @ ss @ es"] exI [of _ fin] exI [of _ rest]) auto
qed

text \<open>
  The layouts the writer is made for: segments and data runs in order, each inside the device and
  disjoint from all others, every segment with its bytes.
\<close>

definition total_blocks :: "layout \<Rightarrow> nat" where
  "total_blocks lay = image_len lay div BLOCK_SIZE"

definition layout_ok :: "layout \<Rightarrow> bool" where
  "layout_ok lay \<longleftrightarrow> 0 < image_len lay \<and> image_len lay mod BLOCK_SIZE = 0 \<and> inodes_ok lay \<and>
    runs_ok (map seg_run (lay_segments lay)) \<and> runs_ok (lay_data_runs lay) \<and>
    (\<forall>q\<in>set (lay_segments lay). seg_ok lay q \<and> seg_block q + seg_blocks q \<le> total_blocks lay) \<and>
    (\<forall>r\<in>set (lay_data_runs lay). run_start r + run_len r \<le> total_blocks lay) \<and>
    (\<forall>q\<in>set (lay_segments lay). \<forall>r\<in>set (lay_data_runs lay).
       run_start r + run_len r \<le> seg_block q \<or> seg_block q + seg_blocks q \<le> run_start r)"

lemma total_blocks_bytes: "layout_ok lay \<Longrightarrow> total_blocks lay * BLOCK_SIZE = image_len lay"
  by (auto simp: layout_ok_def total_blocks_def)

lemma run_unique:
  assumes "runs_ok rs" "r \<in> set rs" "r' \<in> set rs" "in_run b r" "in_run b r'"
  shows "r = r'"
  using assms by (induction rs) (fastforce simp: runs_ok_Cons in_run_def)+

lemma meta_byte_seg:
  assumes "runs_ok (map seg_run (lay_segments lay))" "q \<in> set (lay_segments lay)" "in_run (block_of i) (seg_run q)"
  shows "meta_byte lay i = seg_byte lay q i"
proof -
  have "find (\<lambda>seg. in_run (block_of i) (seg_run seg)) (lay_segments lay) \<noteq> None"
    using assms(2,3) by (auto simp: find_None_iff)
  then obtain p where p: "find (\<lambda>seg. in_run (block_of i) (seg_run seg)) (lay_segments lay) = Some p" by blast
  then obtain j where j: "j < length (lay_segments lay)" "lay_segments lay ! j = p" "in_run (block_of i) (seg_run p)"
    by (auto simp: find_Some_iff)
  obtain k where k: "k < length (lay_segments lay)" "lay_segments lay ! k = q"
    using assms(2) by (auto simp: in_set_conv_nth)
  let ?rs = "map seg_run (lay_segments lay)"
  have "j = k"
  proof (rule ccontr)
    assume "j \<noteq> k"
    then have "run_start (?rs ! j) + run_len (?rs ! j) \<le> run_start (?rs ! k) \<or>
        run_start (?rs ! k) + run_len (?rs ! k) \<le> run_start (?rs ! j)"
      using runs_disjoint_nth [of ?rs j k] runs_disjoint_nth [of ?rs k j] assms(1) j(1) k(1)
      by (auto simp: runs_ok_def nat_neq_iff)
    then show False using j k assms(3) by (auto simp: in_run_def)
  qed
  then show ?thesis using p j k by (simp add: meta_byte_def)
qed

lemma meta_byte_gap:
  "\<not> in_runs (map seg_run (lay_segments lay)) (block_of i) \<Longrightarrow> meta_byte lay i = 0"
proof -
  assume "\<not> in_runs (map seg_run (lay_segments lay)) (block_of i)"
  then have "find (\<lambda>seg. in_run (block_of i) (seg_run seg)) (lay_segments lay) = None"
    by (auto simp: find_None_iff in_runs_def)
  then show ?thesis by (simp add: meta_byte_def)
qed

lemma emit_metadata_spec:
  assumes ok: "layout_ok lay"
  shows "\<exists>es. (\<forall>s. emit_metadata d z lay s = emit_all d z es s) \<and>
    emission 0 (image_len lay) (\<lambda>i. \<not> in_runs (lay_data_runs lay) (block_of i)) (meta_byte lay) es"
proof -
  let ?D = "lay_data_runs lay"
  let ?S = "lay_segments lay"
  let ?P = "\<lambda>i. \<not> in_runs ?D (block_of i)"
  have segs: "runs_ok (map seg_run ?S)" "inodes_ok lay" "runs_ok ?D" using ok by (auto simp: layout_ok_def)
  have apart: "\<not> in_runs ?D b" if "q \<in> set ?S" "in_run b (seg_run q)" for q b
    using ok that by (fastforce simp: layout_ok_def in_runs_def in_run_def)
  have "\<exists>es fin rest. (\<forall>s. foldE (emit_segment d z lay) ?S (0, ?D, s) =
      bindE (emit_all d z es s) (\<lambda>s. Inr (fin, rest, s))) \<and>
    emission (0 * BLOCK_SIZE) (fin * BLOCK_SIZE) ?P (meta_byte lay) es \<and>
    runs_ok rest \<and> (\<forall>b\<ge>fin. in_runs rest b \<longleftrightarrow> in_runs ?D b) \<and>
    fin = (if ?S = [] then 0 else seg_block (last ?S) + seg_blocks (last ?S)) \<and>
    (\<forall>q\<in>set ?S. seg_block q + seg_blocks q \<le> fin)"
    by (rule emit_segments_spec [OF segs])
      (use ok apart meta_byte_seg [OF segs(1)] meta_byte_gap in \<open>auto simp: layout_ok_def\<close>)
  then obtain es fin rest where es:
    "\<And>s. foldE (emit_segment d z lay) ?S (0, ?D, s) = bindE (emit_all d z es s) (\<lambda>s. Inr (fin, rest, s))"
    "emission 0 (fin * BLOCK_SIZE) ?P (meta_byte lay) es" "runs_ok rest"
    "\<forall>b\<ge>fin. in_runs rest b \<longleftrightarrow> in_runs ?D b"
    "fin = (if ?S = [] then 0 else seg_block (last ?S) + seg_blocks (last ?S))"
    "\<forall>q\<in>set ?S. seg_block q + seg_blocks q \<le> fin"
    by auto
  have fin: "fin \<le> total_blocks lay" using es(5) ok last_in_set [of ?S] by (auto simp: layout_ok_def)
  obtain gs rest' where gs:
    "\<And>s. emit_gap z fin (total_blocks lay) rest s = bindE (emit_all d z gs s) (\<lambda>s. Inr (s, rest'))"
    "emission (fin * BLOCK_SIZE) (total_blocks lay * BLOCK_SIZE) (\<lambda>i. \<not> in_runs rest (block_of i)) (\<lambda>_. 0) gs"
    using emit_gap_spec [OF es(3) fin, of z d] by blast
  have out: "\<not> in_runs (map seg_run ?S) b" if "fin \<le> b" for b
    using that es(6) by (fastforce simp: in_runs_def in_run_def)
  have e2: "emission (fin * BLOCK_SIZE) (total_blocks lay * BLOCK_SIZE) ?P (meta_byte lay) gs"
    using gs(2)
  proof (rule emission_cong)
    fix i assume i: "fin * BLOCK_SIZE \<le> i" "i < total_blocks lay * BLOCK_SIZE"
    then have "fin \<le> block_of i" using block_range by blast
    then show "(\<not> in_runs rest (block_of i)) = ?P i" "0 = meta_byte lay i"
      using es(4) out meta_byte_gap by auto
  qed
  let ?gs = "if fin < total_blocks lay then gs else []"
  have "emit_metadata d z lay s = emit_all d z (es @ ?gs) s" for s
    unfolding emit_metadata_def es(1) bindE_assoc emit_all_append total_blocks_def [symmetric]
    by (rule bindE_cong) (auto simp: gs(1) bindE_assoc)
  moreover have "emission (fin * BLOCK_SIZE) (total_blocks lay * BLOCK_SIZE) ?P (meta_byte lay) ?gs"
    using e2 fin by (auto simp: emission_none)
  ultimately show ?thesis
    using emission_append [OF es(2)] total_blocks_bytes [OF ok] by metis
qed

end
