(* ===== verification/WriterRun.thy ===== *)
theory WriterRun
  imports WriterSpec
begin

text \<open>
  Filling and finishing: what a fill emits, the states a writer can be in, and complete runs.
\<close>

section \<open>The bytes of a file on the device\<close>

text \<open>Where a byte of the device inside the runs of a file lies in the file.\<close>

fun file_pos :: "run list \<Rightarrow> nat \<Rightarrow> nat" where
  "file_pos [] i = 0"
| "file_pos (r # rs) i =
    (if in_run (block_of i) r then i - run_start r * BLOCK_SIZE
     else run_len r * BLOCK_SIZE + file_pos rs i)"

definition filled_byte :: "run list \<Rightarrow> nat \<Rightarrow> bytes \<Rightarrow> nat \<Rightarrow> u8" where
  "filled_byte runs sz content i =
    (if file_pos runs i < sz then content ! file_pos runs i else 0)"

text \<open>The runs of a file hold its bytes with less than a block to spare.\<close>

definition file_runs_ok :: "run list \<Rightarrow> nat \<Rightarrow> bool" where
  "file_runs_ok runs sz \<longleftrightarrow> runs_ok runs \<and> sz \<le> sum_list (map run_len runs) * BLOCK_SIZE \<and>
    (runs = [] \<or> sum_list (map run_len runs) * BLOCK_SIZE < sz + BLOCK_SIZE)"

section \<open>Chunks\<close>

lemma bindS_Inr: "m s = (Inr x, s') \<Longrightarrow> bindS m f s = f x s'"
  by (simp add: bindS_def)

lemma bindS_Inl: "fst (m s) = Inl e \<Longrightarrow> fst (bindS m f s) = Inl e"
  by (cases "m s") (auto simp: bindS_def)

text \<open>A call that performs the given emissions and then continues or stops with the sink's fault.\<close>

definition performs ::
    "('s \<Rightarrow> nat \<Rightarrow> bytes \<Rightarrow> 's res) \<Rightarrow> ('s \<Rightarrow> nat \<Rightarrow> nat \<Rightarrow> 's res) \<Rightarrow>
     ('s \<times> bytes, 'a) call \<Rightarrow> bytes \<Rightarrow> emit list \<Rightarrow> 'a \<Rightarrow> bytes \<Rightarrow> bool" where
  "performs d z m rd es x rd' \<longleftrightarrow>
    (\<forall>s. (case emit_all d z es s of
            Inr s' \<Rightarrow> m (s, rd) = (Inr x, (s', rd')) | Inl e \<Rightarrow> fst (m (s, rd)) = Inl e))"

lemma performs_bind:
  assumes "performs d z m rd es x rd'" "performs d z (f x) rd' fs y rd''"
  shows "performs d z (bindS m f) rd (es @ fs) y rd''"
  unfolding performs_def
proof
  fix s
  show "case emit_all d z (es @ fs) s of
      Inr s' \<Rightarrow> bindS m f (s, rd) = (Inr y, (s', rd'')) | Inl e \<Rightarrow> fst (bindS m f (s, rd)) = Inl e"
  proof (cases "emit_all d z es s")
    case (Inl e)
    then have "fst (m (s, rd)) = Inl e" using assms(1) by (auto simp: performs_def split: sum.splits)
    then show ?thesis using Inl by (simp add: emit_all_append bindS_Inl)
  next
    case (Inr s1)
    then have "m (s, rd) = (Inr x, (s1, rd'))" using assms(1) by (auto simp: performs_def split: sum.splits)
    then have "bindS m f (s, rd) = f x (s1, rd')" by (rule bindS_Inr)
    then show ?thesis using Inr assms(2) by (simp add: emit_all_append performs_def split: sum.splits)
  qed
qed

lemma performs_return: "performs d z (returnS x) rd [] x rd"
  by (simp add: performs_def returnS_def)

lemma performs_read: "n \<le> length rd \<Longrightarrow> performs d z (read_exact n) rd [] (take n rd) (drop n rd)"
  by (simp add: performs_def read_exact_def)

lemma performs_sink:
  "performs d z (sink_call (\<lambda>s. d s off bs)) rd [Data off bs] () rd"
  "performs d z (sink_call (\<lambda>s. z s off n)) rd [Zeros off n] () rd"
  by (simp_all add: performs_def sink_call_def split: sum.splits)

lemma fill_chunks_spec:
  assumes "n \<le> length rd" "\<And>j. j < n \<Longrightarrow> img (off + j) = rd ! j"
  shows "\<exists>es. performs d z (fill_chunks d off n) rd es (off + n) (drop n rd) \<and>
    emission off (off + n) (\<lambda>_. True) img es"
  using assms
proof (induction n arbitrary: off rd rule: less_induct)
  case (less n)
  show ?case
  proof (cases "n = 0")
    case True
    then show ?thesis using performs_return [of d z off rd]
      by (intro exI [of _ "[]"]) (simp add: fill_chunks.simps emission_none)
  next
    case False
    define want where "want = min n SCRATCH"
    have w: "0 < want" "want \<le> n" using False SCRATCH_pos by (auto simp: want_def)
    obtain es where es: "performs d z (fill_chunks d (off + want) (n - want)) (drop want rd) es (off + n) (drop n rd)"
      "emission (off + want) (off + n) (\<lambda>_. True) img es"
      using less.IH [of "n - want" "drop want rd" "off + want"] w less.prems diff_le_mono [of n "length rd" want]
      by (auto simp: add.assoc)
    have read: "performs d z (read_exact want) rd [] (take want rd) (drop want rd)"
      using w less.prems(1) by (intro performs_read) simp
    have run: "performs d z (fill_chunks d off n) rd ([] @ [Data off (take want rd)] @ es) (off + n) (drop n rd)"
      by (subst fill_chunks.simps)
        (use False performs_bind [OF read, of _ _, OF performs_bind [OF performs_sink(1) es(1)]]
          in \<open>simp add: Let_def want_def [symmetric]\<close>)
    have "emission off (off + length (take want rd)) (\<lambda>_. True) img [Data off (take want rd)]"
      using less.prems w by (intro emission_data) auto
    then have "emission off (off + want) (\<lambda>_. True) img [Data off (take want rd)]"
      using less.prems(1) w by (simp add: min_absorb2)
    then show ?thesis using emission_append [OF _ es(2)] run by (metis append_Nil)
  qed
qed

section \<open>Files\<close>

lemma file_runs_Cons:
  assumes "file_runs_ok (r # rs) sz" "rs \<noteq> []"
  shows "run_len r * BLOCK_SIZE < sz" "file_runs_ok rs (sz - run_len r * BLOCK_SIZE)"
proof -
  obtain q qs where "rs = q # qs" using assms(2) by (cases rs) auto
  then have "1 \<le> sum_list (map run_len rs)" using assms(1) by (auto simp: file_runs_ok_def runs_ok_Cons)
  then have "1 * 4096 \<le> sum_list (map run_len rs) * 4096" by (rule mult_le_mono1)
  then show "run_len r * BLOCK_SIZE < sz" "file_runs_ok rs (sz - run_len r * BLOCK_SIZE)"
    using assms by (auto simp: file_runs_ok_def runs_ok_Cons algebra_simps)
qed

lemma block_pad:
  assumes "0 < k" "k \<le> n * BLOCK_SIZE" "n * BLOCK_SIZE < k + BLOCK_SIZE"
  shows "(BLOCK_SIZE - (a * BLOCK_SIZE + k) mod BLOCK_SIZE) mod BLOCK_SIZE = n * BLOCK_SIZE - k"
proof -
  define p where "p = n * 4096 - k"
  have p: "p < 4096" "k + p = n * 4096" using assms by (simp_all add: p_def)
  have "(a * 4096 + k) mod 4096 = k mod 4096" by simp
  moreover have "(4096 - k mod 4096) mod 4096 = p"
  proof -
    have "(k + p) mod 4096 = 0" using p(2) by simp
    then have "(k mod 4096 + p) mod 4096 = 0" by (simp add: mod_add_left_eq)
    then obtain c where c: "k mod 4096 + p = 4096 * c" by (metis mod_0_imp_dvd dvdE)
    moreover have "k mod 4096 < 4096" by simp
    ultimately have "c < 2" using p(1) by linarith
    then have "c = 0 \<or> c = 1" by auto
    then have "k mod 4096 + p = 0 \<or> k mod 4096 + p = 4096" using c by auto
    then show ?thesis using p(1) by auto
  qed
  ultimately show ?thesis by (simp add: p_def)
qed

text \<open>Filling the runs of a file emits its bytes at their places and zeroes the end of its last block.\<close>

lemma fill_runs_spec:
  assumes "file_runs_ok runs sz" "sz \<le> length rd" "lo \<le> hi"
    and "\<forall>r\<in>set runs. lo \<le> run_start r \<and> run_start r + run_len r \<le> hi"
  shows "\<exists>es. performs d z (fill_runs d z sz runs) rd es () (drop sz rd) \<and>
    emission (lo * BLOCK_SIZE) (hi * BLOCK_SIZE) (\<lambda>i. in_runs runs (block_of i)) (filled_byte runs sz rd) es"
  using assms
proof (induction runs arbitrary: sz rd lo)
  case Nil
  then have "sz = 0" by (simp add: file_runs_ok_def)
  then show ?case using Nil performs_return [of d z "()" rd]
    by (intro exI [of _ "[]"]) (simp add: emission_none)
next
  case (Cons r rs)
  let ?P = "\<lambda>i. in_runs (r # rs) (block_of i)" and ?img = "filled_byte (r # rs) sz rd"
  let ?a = "run_start r * BLOCK_SIZE" and ?fin = "run_start r + run_len r"
  define n where "n = min (run_len r * BLOCK_SIZE) sz"
  have ok: "runs_ok (r # rs)" "0 < run_len r" "\<forall>q\<in>set rs. ?fin \<le> run_start q"
    using Cons.prems(1) by (auto simp: file_runs_ok_def runs_ok_Cons)
  have mine: "?P i \<and> file_pos (r # rs) i = i - ?a" if "?a \<le> i" "i < ?fin * BLOCK_SIZE" for i
    using block_range [OF that] by (simp add: in_run_def)
  have "0 < sz"
  proof (cases "rs = []")
    case True
    moreover have "4096 \<le> run_len r * 4096" using ok(2) by simp
    ultimately show ?thesis using Cons.prems(1) by (simp add: file_runs_ok_def)
  next
    case False
    then show ?thesis using file_runs_Cons(1) [OF Cons.prems(1)] by simp
  qed
  then have n_pos: "0 < n" "n \<le> run_len r * BLOCK_SIZE" "n \<le> sz" using ok(2) by (simp_all add: n_def)
  obtain es where es: "performs d z (fill_chunks d ?a n) rd es (?a + n) (drop n rd)"
    "emission ?a (?a + n) (\<lambda>_. True) ?img es"
  proof -
    have "?img (?a + j) = rd ! j" if "j < n" for j
      using mine [of "?a + j"] that n_pos by (simp add: filled_byte_def algebra_simps)
    then show ?thesis using fill_chunks_spec [of n rd ?img ?a d z] n_pos Cons.prems(2) that by auto
  qed
  define pad where "pad = (BLOCK_SIZE - (?a + n) mod BLOCK_SIZE) mod BLOCK_SIZE"
  have pad: "pad = run_len r * BLOCK_SIZE - n"
  proof (cases "rs = []")
    case True
    then have "run_len r * BLOCK_SIZE < n + BLOCK_SIZE" using Cons.prems(1) by (simp add: n_def file_runs_ok_def)
    then show ?thesis unfolding pad_def by (rule block_pad [OF n_pos(1,2)])
  next
    case False
    then have n: "n = run_len r * BLOCK_SIZE" using file_runs_Cons(1) [OF Cons.prems(1)] by (simp add: n_def)
    have "(?a + n) mod BLOCK_SIZE = 0" unfolding n add_mult_distrib [symmetric] by (rule mod_mult_self2_is_0)
    then show ?thesis unfolding pad_def by (simp add: n)
  qed
  let ?ps = "if 0 < pad then [Zeros (?a + n) pad] else []"
  have ps: "performs d z (if 0 < pad then sink_call (\<lambda>s. z s (?a + n) pad) else returnS ()) rd' ?ps () rd'" for rd'
    using performs_sink(2) performs_return by auto
  have fin: "?a + n + pad = ?fin * BLOCK_SIZE" using pad n_pos by (simp add: algebra_simps)
  have zero: "?img i = 0" if "?a + n \<le> i" "i < ?fin * BLOCK_SIZE" for i
    using mine [of i] that n_pos by (auto simp: filled_byte_def n_def min_def split: if_splits)
  have e_pad: "emission (?a + n) (?fin * BLOCK_SIZE) (\<lambda>_. True) ?img ?ps"
  proof (cases "0 < pad")
    case True
    then show ?thesis using emission_zeros [of "?a + n" pad "\<lambda>_. True" ?img] zero unfolding fin by auto
  qed (use fin in \<open>simp add: emission_none\<close>)
  have here: "emission ?a (?fin * BLOCK_SIZE) ?P ?img (es @ ?ps)"
    using emission_append [OF es(2) e_pad] by (rule emission_cong) (use mine in auto)
  have rest: "file_runs_ok rs (sz - n)"
  proof (cases "rs = []")
    case True
    then show ?thesis using Cons.prems(1) by (simp add: file_runs_ok_def n_def runs_ok_def)
  next
    case False
    then show ?thesis using file_runs_Cons [OF Cons.prems(1)] by (simp add: n_def)
  qed
  have "\<exists>fs. performs d z (fill_runs d z (sz - n) rs) (drop n rd) fs () (drop (sz - n) (drop n rd)) \<and>
    emission (?fin * BLOCK_SIZE) (hi * BLOCK_SIZE) (\<lambda>i. in_runs rs (block_of i)) (filled_byte rs (sz - n) (drop n rd)) fs"
    by (rule Cons.IH [OF rest]) (use Cons.prems(2,4) ok(3) in auto)
  then obtain fs where fs: "performs d z (fill_runs d z (sz - n) rs) (drop n rd) fs () (drop sz rd)"
    "emission (?fin * BLOCK_SIZE) (hi * BLOCK_SIZE) (\<lambda>i. in_runs rs (block_of i)) (filled_byte rs (sz - n) (drop n rd)) fs"
    using n_pos by auto
  have later: "emission (?fin * BLOCK_SIZE) (hi * BLOCK_SIZE) ?P ?img fs"
    using fs(2)
  proof (rule emission_cong)
    fix i assume i: "?fin * BLOCK_SIZE \<le> i" "i < hi * BLOCK_SIZE"
    then have out: "\<not> in_run (block_of i) r" using block_range [OF i] by (simp only: in_run_def) simp
    then show "in_runs rs (block_of i) = ?P i" by simp
    assume "in_runs rs (block_of i)"
    then have "rs \<noteq> []" by auto
    then have "n = run_len r * BLOCK_SIZE" using file_runs_Cons(1) [OF Cons.prems(1)] by (simp add: n_def)
    then show "filled_byte rs (sz - n) (drop n rd) i = ?img i"
      using out Cons.prems(2) n_pos by (auto simp: filled_byte_def)
  qed
  have before: "emission (lo * BLOCK_SIZE) ?a ?P ?img []"
  proof (rule emission_none)
    show "lo * BLOCK_SIZE \<le> ?a" using Cons.prems(4) by simp
    fix i assume i: "lo * BLOCK_SIZE \<le> i" "i < ?a"
    then show "\<not> ?P i" using in_runs_before [OF ok(1)] block_range [OF i] by blast
  qed
  have "performs d z (fill_runs d z sz (r # rs)) rd (es @ ?ps @ fs) () (drop sz rd)"
    unfolding fill_runs.simps Let_def n_def [symmetric]
    by (rule performs_bind [OF es(1)], fold pad_def)
      (rule performs_bind [OF ps, where f = "\<lambda>_. fill_runs d z (sz - n) rs", OF fs(1)])
  then show ?case using emission_append [OF before emission_append [OF here later]] by auto
qed

section \<open>The states of a writer\<close>

definition file_runs_of :: "layout \<Rightarrow> handle \<Rightarrow> run list" where
  "file_runs_of lay f = fst (lay_file_runs lay ! f)"

definition file_size :: "layout \<Rightarrow> handle \<Rightarrow> nat" where
  "file_size lay f = snd (lay_file_runs lay ! f)"

definition fillable :: "layout \<Rightarrow> handle set" where
  "fillable lay = {f. f < length (lay_file_runs lay) \<and> lay_slot_ino lay ! f \<noteq> 0 \<and> file_runs_of lay f \<noteq> []}"

lemma finite_fillable [simp]: "finite (fillable lay)"
  by (rule finite_subset [of _ "{..<length (lay_file_runs lay)}"]) (auto simp: fillable_def)

text \<open>A writer that is not poisoned is described by the set of files already filled.\<close>

definition writer_at :: "layout \<Rightarrow> handle set \<Rightarrow> 's image_writer \<Rightarrow> bool" where
  "writer_at lay filled w \<longleftrightarrow> iw_layout w = lay \<and> filled \<subseteq> fillable lay \<and> \<not> iw_poisoned w \<and>
    iw_fill_state w = map (\<lambda>f. if f \<in> filled then Done else initial_fill_state lay f)
      [0..<length (lay_file_runs lay)] \<and>
    iw_pending w = card (fillable lay - filled) \<and> iw_data_bytes w = sum (file_size lay) filled"

lemma initial_pending: "f < length (lay_file_runs lay) \<Longrightarrow> initial_fill_state lay f = (if f \<in> fillable lay then Pending else NotFillable)"
  by (simp add: initial_fill_state_def fillable_def file_runs_of_def)

lemma writer_at_new:
  assumes "iw_new d z lay s = Inr w"
  shows "writer_at lay {} w"
proof -
  let ?n = "length (lay_file_runs lay)"
  have "filter (\<lambda>x. x = Pending) (map (initial_fill_state lay) [0..<?n]) =
      map (initial_fill_state lay) (filter (\<lambda>f. f \<in> fillable lay) [0..<?n])"
    by (auto simp: filter_map o_def initial_pending split: if_splits intro!: arg_cong [where f = "map _"] filter_cong)
  moreover have "set (filter (\<lambda>f. f \<in> fillable lay) [0..<?n]) = fillable lay" by (auto simp: fillable_def)
  then have "length (filter (\<lambda>f. f \<in> fillable lay) [0..<?n]) = card (fillable lay)"
    by (metis distinct_card distinct_filter distinct_upt)
  ultimately show ?thesis using assms
    by (auto simp: iw_new_def writer_at_def Let_def res_simps)
qed

text \<open>The outcomes of one fill, by the state of the file.\<close>

lemma iw_fill_refused:
  assumes "writer_at lay filled w" "f \<notin> fillable lay - filled"
  shows "\<exists>e. iw_fill d z f rd w = (Inl (Err e), w)"
  using assms
  by (auto simp: iw_fill_def writer_at_def initial_pending invalid_def)

lemma iw_fill_pending:
  assumes "writer_at lay filled w" "f \<in> fillable lay - filled"
  shows "iw_fill d z f rd w =
    (case fill_runs d z (file_size lay f) (file_runs_of lay f) (iw_sink w, rd) of
       (Inr _, (s, _)) \<Rightarrow>
         (Inr (), w\<lparr>iw_sink := s, iw_data_bytes := iw_data_bytes w + file_size lay f,
                    iw_fill_state := (iw_fill_state w)[f := Done], iw_pending := iw_pending w - 1\<rparr>)
     | (Inl e, (s, _)) \<Rightarrow> (Inl e, w\<lparr>iw_sink := s, iw_poisoned := True\<rparr>))"
proof -
  have "lay_file_runs lay ! f = (file_runs_of lay f, file_size lay f)"
    by (simp add: file_runs_of_def file_size_def)
  moreover have "f < length (iw_fill_state w)" "iw_fill_state w ! f = Pending"
    using assms by (auto simp: writer_at_def initial_pending fillable_def)
  ultimately show ?thesis using assms(1) by (simp add: iw_fill_def writer_at_def)
qed

lemma writer_at_filled:
  assumes "writer_at lay filled w" "f \<in> fillable lay - filled"
  shows "writer_at lay (insert f filled)
    (w\<lparr>iw_sink := s, iw_data_bytes := iw_data_bytes w + file_size lay f,
       iw_fill_state := (iw_fill_state w)[f := Done], iw_pending := iw_pending w - 1\<rparr>)"
proof -
  have fin: "finite filled" using assms(1) finite_subset [OF _ finite_fillable] by (auto simp: writer_at_def)
  have "fillable lay - insert f filled = (fillable lay - filled) - {f}" by auto
  then have "card (fillable lay - insert f filled) = card (fillable lay - filled) - 1"
    using assms(2) by (simp add: card_Diff_singleton)
  moreover have "(map (\<lambda>g. if g \<in> filled then Done else initial_fill_state lay g) [0..<length (lay_file_runs lay)])[f := Done] =
      map (\<lambda>g. if g \<in> insert f filled then Done else initial_fill_state lay g) [0..<length (lay_file_runs lay)]"
    using assms(2) by (intro nth_equalityI) (auto simp: nth_list_update fillable_def)
  ultimately show ?thesis using assms fin by (auto simp: writer_at_def)
qed

lemma iw_finish_at:
  assumes "writer_at lay filled w"
  shows "iw_finish w = (if filled = fillable lay
    then Inr \<lparr>sum_image_len = image_len lay, sum_data_bytes = sum (file_size lay) (fillable lay)\<rparr>
    else Inl (invalid ''declared file(s) never filled''))"
proof -
  have "fillable lay - filled = {} \<longleftrightarrow> filled = fillable lay" using assms by (auto simp: writer_at_def)
  then have "card (fillable lay - filled) = 0 \<longleftrightarrow> filled = fillable lay"
    by (metis card_eq_0_iff finite_Diff finite_fillable)
  then show ?thesis using assms by (auto simp: iw_finish_def writer_at_def)
qed

text \<open>Every state a client can bring a writer to, by fills in any order, with any readers.\<close>

inductive writer_reachable ::
    "('s \<Rightarrow> nat \<Rightarrow> bytes \<Rightarrow> 's res) \<Rightarrow> ('s \<Rightarrow> nat \<Rightarrow> nat \<Rightarrow> 's res) \<Rightarrow> layout \<Rightarrow> 's image_writer \<Rightarrow> bool"
  for d z lay where
  created: "iw_new d z lay s = Inr w \<Longrightarrow> writer_reachable d z lay w"
| filled: "writer_reachable d z lay w \<Longrightarrow> iw_fill d z f rd w = (r, w') \<Longrightarrow> writer_reachable d z lay w'"

lemma iw_fill_outcome:
  assumes "writer_at lay filled w" "iw_fill d z f rd w = (r, w')"
  shows "if f \<in> fillable lay - filled
    then r = Inr () \<and> writer_at lay (insert f filled) w' \<or> (\<exists>e. r = Inl e \<and> iw_poisoned w')
    else (\<exists>e. r = Inl (Err e)) \<and> w' = w"
proof (cases "f \<in> fillable lay - filled")
  case True
  then show ?thesis
    using assms(2) writer_at_filled [OF assms(1) True] unfolding iw_fill_pending [OF assms(1) True]
    by (auto split: prod.splits sum.splits)
next
  case False
  then show ?thesis using iw_fill_refused [OF assms(1) False, of d z rd] assms(2) by auto
qed

lemma iw_fill_cases:
  assumes "writer_at lay filled w" "iw_fill d z f rd w = (r, w')"
  shows "iw_poisoned w' \<or> (r \<noteq> Inr () \<and> w' = w) \<or>
    (r = Inr () \<and> f \<in> fillable lay - filled \<and> writer_at lay (insert f filled) w')"
  using iw_fill_outcome [OF assms] by (auto split: if_splits)

lemma writer_at_pending:
  assumes "writer_at lay filled w"
  shows "f < length (iw_fill_state w) \<and> iw_fill_state w ! f = Pending \<longleftrightarrow> f \<in> fillable lay - filled"
    "Pending \<in> set (iw_fill_state w) \<longleftrightarrow> filled \<noteq> fillable lay" "\<not> iw_poisoned w"
  using assms by (auto simp: writer_at_def initial_pending fillable_def split: if_splits)

lemma poisoned_stuck: "iw_poisoned w \<Longrightarrow> iw_fill d z f rd w = (Inl poisoned, w) \<and> iw_finish w = Inl poisoned"
  by (simp add: iw_fill_def iw_finish_def)

lemma writer_reachable_at:
  assumes "writer_reachable d z lay w"
  shows "iw_poisoned w \<or> (\<exists>filled. writer_at lay filled w)"
  using assms
proof induction
  case (filled w f rd r w')
  then show ?case using iw_fill_cases [of lay _ w d z f rd r w'] poisoned_stuck [of w d z f rd] by auto
next
  case (created s w)
  then have "writer_at lay {} w" by (rule writer_at_new)
  then show ?case by blast
qed

section \<open>Complete runs\<close>

text \<open>Emissions in any order that cover exactly the bytes satisfying \<open>P\<close>, once each.\<close>

definition emits_exactly :: "nat \<Rightarrow> (nat \<Rightarrow> bool) \<Rightarrow> (nat \<Rightarrow> u8) \<Rightarrow> emit list \<Rightarrow> bool" where
  "emits_exactly n P img es \<longleftrightarrow> emits_disjoint es \<and> emits_cover es = {i. P i} \<and>
    (\<forall>e\<in>set es. emit_end e \<le> n \<and> (\<forall>i\<in>emit_range e. emit_byte e i = img i))"

lemma emits_from_ends: "emits_from lo es hi \<Longrightarrow> e \<in> set es \<Longrightarrow> emit_end e \<le> hi"
  by (induction es arbitrary: lo) (use emits_from_le in auto)

lemma emission_exactly:
  "emission lo hi P img es \<Longrightarrow> hi \<le> n \<Longrightarrow> emits_exactly n (\<lambda>i. lo \<le> i \<and> i < hi \<and> P i) img es"
  using emits_from_disjoint emits_from_ends by (fastforce simp: emission_def emits_exactly_def)

lemma emits_disjoint_append:
  "emits_disjoint (xs @ ys) \<longleftrightarrow> emits_disjoint xs \<and> emits_disjoint ys \<and> emits_cover xs \<inter> emits_cover ys = {}"
  by (induction xs) (auto simp: emits_disjoint_Cons emits_cover_def simp del: emits_disjoint.simps(2))

lemma emits_cover_append: "emits_cover (xs @ ys) = emits_cover xs \<union> emits_cover ys"
  by (auto simp: emits_cover_def)

lemma emits_exactly_append:
  assumes "emits_exactly n P img xs" "emits_exactly n Q img ys" "\<And>i. \<not> (P i \<and> Q i)"
  shows "emits_exactly n (\<lambda>i. P i \<or> Q i) img (xs @ ys)"
  using assms by (auto simp: emits_exactly_def emits_disjoint_append emits_cover_append)

lemma emits_exactly_cong:
  assumes "emits_exactly n P img es" "\<And>i. P i = Q i" "\<And>i. P i \<Longrightarrow> img i = img' i"
  shows "emits_exactly n Q img' es"
proof -
  have "P i" if "e \<in> set es" "i \<in> emit_range e" for e i
    using assms(1) that by (auto simp: emits_exactly_def emits_cover_def)
  then show ?thesis using assms by (simp add: emits_exactly_def)
qed

lemma image_of_exactly: "emits_exactly n P img es \<Longrightarrow> P i \<Longrightarrow> image_of es i = img i"
proof -
  assume a: "emits_exactly n P img es" "P i"
  then have "find (\<lambda>e. i \<in> emit_range e) es \<noteq> None"
    by (auto simp: find_None_iff emits_exactly_def emits_cover_def)
  then obtain e where e: "find (\<lambda>e. i \<in> emit_range e) es = Some e" by blast
  then have "e \<in> set es" "i \<in> emit_range e" by (auto simp: find_Some_iff)
  then show ?thesis using e a by (auto simp: emits_exactly_def image_of_def)
qed

text \<open>Files whose runs are exactly the data runs of the layout, apart from one another.\<close>

definition files_ok :: "layout \<Rightarrow> bool" where
  "files_ok lay \<longleftrightarrow>
    (\<forall>f<length (lay_file_runs lay). file_runs_ok (file_runs_of lay f) (file_size lay f) \<and>
       (lay_slot_ino lay ! f = 0 \<longrightarrow> file_runs_of lay f = [])) \<and>
    (\<forall>f<length (lay_file_runs lay). \<forall>g<length (lay_file_runs lay). \<forall>b.
       in_runs (file_runs_of lay f) b \<and> in_runs (file_runs_of lay g) b \<longrightarrow> f = g) \<and>
    (\<forall>b. in_runs (lay_data_runs lay) b \<longleftrightarrow>
       (\<exists>f<length (lay_file_runs lay). in_runs (file_runs_of lay f) b))"

fun fill_all ::
    "('s \<Rightarrow> nat \<Rightarrow> bytes \<Rightarrow> 's res) \<Rightarrow> ('s \<Rightarrow> nat \<Rightarrow> nat \<Rightarrow> 's res) \<Rightarrow>
     (handle \<times> bytes) list \<Rightarrow> ('s image_writer, unit) call" where
  "fill_all data zeros [] = returnS ()"
| "fill_all data zeros ((f, rd) # fills) =
    bindS (iw_fill data zeros f rd) (\<lambda>_. fill_all data zeros fills)"

text \<open>A client's run: create the writer, fill, finish; the sink is what it wrote to.\<close>

definition build_image ::
    "('s \<Rightarrow> nat \<Rightarrow> bytes \<Rightarrow> 's res) \<Rightarrow> ('s \<Rightarrow> nat \<Rightarrow> nat \<Rightarrow> 's res) \<Rightarrow> layout \<Rightarrow>
     (handle \<times> bytes) list \<Rightarrow> 's \<Rightarrow> (summary \<times> 's) res" where
  "build_image data zeros lay fills s =
    bindE (iw_new data zeros lay s) (\<lambda>w.
    case fill_all data zeros fills w of
      (Inl e, _) \<Rightarrow> Inl e
    | (Inr _, w) \<Rightarrow> bindE (iw_finish w) (\<lambda>sum. Inr (sum, iw_sink w)))"

definition device_byte :: "layout \<Rightarrow> (handle \<times> bytes) list \<Rightarrow> nat \<Rightarrow> u8" where
  "device_byte lay fills i =
    (case find (\<lambda>(f, _). in_runs (file_runs_of lay f) (block_of i)) fills of
       None \<Rightarrow> meta_byte lay i
     | Some (f, rd) \<Rightarrow> filled_byte (file_runs_of lay f) (file_size lay f) rd i)"

text \<open>A complete set of fills: every file that has data once, with at least its declared bytes.\<close>

definition fills_ok :: "layout \<Rightarrow> handle set \<Rightarrow> (handle \<times> bytes) list \<Rightarrow> bool" where
  "fills_ok lay filled fills \<longleftrightarrow> distinct (map fst fills) \<and> fst ` set fills = fillable lay - filled \<and>
    (\<forall>(f, rd)\<in>set fills. file_size lay f \<le> length rd)"

lemma file_blocks:
  assumes "layout_ok lay" "files_ok lay" "f < length (lay_file_runs lay)" "r \<in> set (file_runs_of lay f)"
  shows "run_start r + run_len r \<le> total_blocks lay"
proof -
  have l: "0 < run_len r" using assms by (auto simp: files_ok_def file_runs_ok_def runs_ok_def)
  then have "in_runs (file_runs_of lay f) (run_start r + run_len r - 1)"
    unfolding in_runs_def by (intro bexI [OF _ assms(4)]) (auto simp: in_run_def)
  then have "in_runs (lay_data_runs lay) (run_start r + run_len r - 1)"
    using assms(2,3) by (auto simp: files_ok_def)
  then obtain q where "q \<in> set (lay_data_runs lay)" "in_run (run_start r + run_len r - 1) q"
    by (auto simp: in_runs_def)
  moreover from this have "run_start q + run_len q \<le> total_blocks lay"
    using assms(1) by (auto simp: layout_ok_def)
  ultimately show ?thesis using l by (auto simp: in_run_def)
qed

text \<open>One fill of a pending file.\<close>

lemma fill_emits:
  assumes "layout_ok lay" "files_ok lay" "f \<in> fillable lay" "file_size lay f \<le> length rd"
  shows "\<exists>es. emits_exactly (image_len lay) (\<lambda>i. in_runs (file_runs_of lay f) (block_of i))
        (filled_byte (file_runs_of lay f) (file_size lay f) rd) es \<and>
    (\<forall>filled w. writer_at lay filled w \<longrightarrow> f \<notin> filled \<longrightarrow>
      (case emit_all d z es (iw_sink w) of
         Inl e \<Rightarrow> fst (iw_fill d z f rd w) = Inl e
       | Inr s \<Rightarrow> \<exists>w'. iw_fill d z f rd w = (Inr (), w') \<and> writer_at lay (insert f filled) w' \<and> iw_sink w' = s))"
proof -
  let ?rs = "file_runs_of lay f" and ?n = "total_blocks lay"
  have f: "f < length (lay_file_runs lay)" using assms(3) by (simp add: fillable_def)
  have n: "?n * BLOCK_SIZE \<le> image_len lay" using total_blocks_bytes [OF assms(1)] by simp
  have "file_runs_ok ?rs (file_size lay f)" using assms(2) f by (simp add: files_ok_def)
  then have "\<exists>es. performs d z (fill_runs d z (file_size lay f) ?rs) rd es () (drop (file_size lay f) rd) \<and>
      emission (0 * BLOCK_SIZE) (?n * BLOCK_SIZE) (\<lambda>i. in_runs ?rs (block_of i))
        (filled_byte ?rs (file_size lay f) rd) es"
    using assms(4) file_blocks [OF assms(1,2) f] by (intro fill_runs_spec) auto
  then obtain es where es: "performs d z (fill_runs d z (file_size lay f) ?rs) rd es () (drop (file_size lay f) rd)"
    "emission 0 (?n * BLOCK_SIZE) (\<lambda>i. in_runs ?rs (block_of i)) (filled_byte ?rs (file_size lay f) rd) es"
    by auto
  have "i < ?n * BLOCK_SIZE" if "in_runs ?rs (block_of i)" for i
  proof -
    have "block_of i < ?n" using that file_blocks [OF assms(1,2) f] by (fastforce simp: in_runs_def in_run_def)
    then show ?thesis by (simp add: div_less_iff_less_mult)
  qed
  then have "emits_exactly (image_len lay) (\<lambda>i. in_runs ?rs (block_of i)) (filled_byte ?rs (file_size lay f) rd) es"
    by (intro emits_exactly_cong [OF emission_exactly [OF es(2) n]]) auto
  moreover have "case emit_all d z es (iw_sink w) of
      Inl e \<Rightarrow> fst (iw_fill d z f rd w) = Inl e
    | Inr s \<Rightarrow> \<exists>w'. iw_fill d z f rd w = (Inr (), w') \<and> writer_at lay (insert f filled) w' \<and> iw_sink w' = s"
    if w: "writer_at lay filled w" "f \<notin> filled" for filled w
  proof -
    have p: "f \<in> fillable lay - filled" using assms(3) w(2) by simp
    note fw = writer_at_filled [OF w(1) p] iw_fill_pending [OF w(1) p, of d z rd]
    show ?thesis
    proof (cases "emit_all d z es (iw_sink w)")
      case (Inl e)
      then have "fst (fill_runs d z (file_size lay f) ?rs (iw_sink w, rd)) = Inl e"
        using es(1) by (auto simp: performs_def split: sum.splits)
      then show ?thesis using Inl fw(2) by (cases "fill_runs d z (file_size lay f) ?rs (iw_sink w, rd)") auto
    next
      case (Inr s)
      then have "fill_runs d z (file_size lay f) ?rs (iw_sink w, rd) = (Inr (), (s, drop (file_size lay f) rd))"
        using es(1) by (auto simp: performs_def split: sum.splits)
      then show ?thesis using Inr fw by simp
    qed
  qed
  ultimately show ?thesis by blast
qed

lemma fill_all_emits:
  assumes "layout_ok lay" "files_ok lay" "distinct (map fst fills)" "fst ` set fills \<subseteq> fillable lay"
    and "\<forall>(f, rd)\<in>set fills. file_size lay f \<le> length rd"
  shows "\<exists>es. emits_exactly (image_len lay) (\<lambda>i. \<exists>f\<in>fst ` set fills. in_runs (file_runs_of lay f) (block_of i))
        (device_byte lay fills) es \<and>
    (\<forall>filled w. writer_at lay filled w \<longrightarrow> fst ` set fills \<inter> filled = {} \<longrightarrow>
      (case emit_all d z es (iw_sink w) of
         Inl e \<Rightarrow> fst (fill_all d z fills w) = Inl e
       | Inr s \<Rightarrow> \<exists>w'. fill_all d z fills w = (Inr (), w') \<and>
           writer_at lay (filled \<union> fst ` set fills) w' \<and> iw_sink w' = s))"
  using assms(3-5)
proof (induction fills)
  case Nil
  show ?case
    by (intro exI [of _ "[]"]) (simp add: emits_exactly_def returnS_def)
next
  case (Cons x fills)
  obtain f rd where x: "x = (f, rd)" by fastforce
  let ?F = "\<lambda>i. in_runs (file_runs_of lay f) (block_of i)"
  let ?G = "\<lambda>i. \<exists>f\<in>fst ` set fills. in_runs (file_runs_of lay f) (block_of i)"
  have f: "f \<in> fillable lay" "file_size lay f \<le> length rd" "f \<notin> fst ` set fills"
    using Cons.prems x by auto
  obtain es where es: "emits_exactly (image_len lay) ?F (filled_byte (file_runs_of lay f) (file_size lay f) rd) es"
    "\<And>filled w. writer_at lay filled w \<Longrightarrow> f \<notin> filled \<Longrightarrow>
      (case emit_all d z es (iw_sink w) of
         Inl e \<Rightarrow> fst (iw_fill d z f rd w) = Inl e
       | Inr s \<Rightarrow> \<exists>w'. iw_fill d z f rd w = (Inr (), w') \<and> writer_at lay (insert f filled) w' \<and> iw_sink w' = s)"
    using fill_emits [OF assms(1,2) f(1,2), of d z] by blast
  obtain fs where fs: "emits_exactly (image_len lay) ?G (device_byte lay fills) fs"
    "\<And>filled w. writer_at lay filled w \<Longrightarrow> fst ` set fills \<inter> filled = {} \<Longrightarrow>
      (case emit_all d z fs (iw_sink w) of
         Inl e \<Rightarrow> fst (fill_all d z fills w) = Inl e
       | Inr s \<Rightarrow> \<exists>w'. fill_all d z fills w = (Inr (), w') \<and>
           writer_at lay (filled \<union> fst ` set fills) w' \<and> iw_sink w' = s)"
    using Cons.IH Cons.prems by fastforce
  have apart: "\<not> (?F i \<and> ?G i)" for i
  proof
    assume "?F i \<and> ?G i"
    then obtain g where "g \<in> fst ` set fills" "in_runs (file_runs_of lay g) (block_of i)" "?F i" by blast
    moreover from this have "g < length (lay_file_runs lay)" using Cons.prems(2) by (auto simp: fillable_def)
    ultimately have "f = g" using assms(2) f(1) by (auto simp: files_ok_def fillable_def)
    then show False using \<open>g \<in> fst ` set fills\<close> f(3) by simp
  qed
  have "emits_exactly (image_len lay) ?F (device_byte lay (x # fills)) es"
    by (rule emits_exactly_cong [OF es(1)]) (simp_all add: device_byte_def x)
  moreover have "emits_exactly (image_len lay) ?G (device_byte lay (x # fills)) fs"
    by (rule emits_exactly_cong [OF fs(1)]) (use apart in \<open>auto simp: device_byte_def x\<close>)
  ultimately have "emits_exactly (image_len lay) (\<lambda>i. ?F i \<or> ?G i) (device_byte lay (x # fills)) (es @ fs)"
    using apart by (rule emits_exactly_append)
  then have cover: "emits_exactly (image_len lay) (\<lambda>i. \<exists>f\<in>fst ` set (x # fills). in_runs (file_runs_of lay f) (block_of i))
      (device_byte lay (x # fills)) (es @ fs)"
    by (rule emits_exactly_cong) (auto simp: x)
  have "case emit_all d z (es @ fs) (iw_sink w) of
      Inl e \<Rightarrow> fst (fill_all d z (x # fills) w) = Inl e
    | Inr s \<Rightarrow> \<exists>w'. fill_all d z (x # fills) w = (Inr (), w') \<and>
        writer_at lay (filled \<union> fst ` set (x # fills)) w' \<and> iw_sink w' = s"
    if w: "writer_at lay filled w" "fst ` set (x # fills) \<inter> filled = {}" for filled w
  proof (cases "emit_all d z es (iw_sink w)")
    case (Inl e)
    then show ?thesis using es(2) [OF w(1)] w(2) x
      by (simp add: emit_all_append bindS_Inl)
  next
    case (Inr s)
    then obtain w1 where w1: "iw_fill d z f rd w = (Inr (), w1)" "writer_at lay (insert f filled) w1" "iw_sink w1 = s"
      using es(2) [OF w(1)] w(2) x by auto
    have "fst ` set fills \<inter> insert f filled = {}" using w(2) f(3) by auto
    from fs(2) [OF w1(2) this] show ?thesis
      using Inr w1 x bindS_Inr [of "iw_fill d z f rd" w "()" w1 "\<lambda>_. fill_all d z fills"]
      by (auto simp: emit_all_append split: sum.splits)
  qed
  then show ?case using cover by blast
qed

lemma device_byte_meta:
  assumes "\<And>f. f \<in> fst ` set fills \<Longrightarrow> \<not> in_runs (file_runs_of lay f) (block_of i)"
  shows "device_byte lay fills i = meta_byte lay i"
proof -
  have "find (\<lambda>(f, _). in_runs (file_runs_of lay f) (block_of i)) fills = None"
    using assms by (fastforce simp: find_None_iff)
  then show ?thesis by (simp add: device_byte_def)
qed

text \<open>A run that fills every file emits every byte of the device exactly once, and finishes.\<close>

lemma build_image_emits:
  assumes "layout_ok lay" "files_ok lay" "fills_ok lay {} fills"
  shows "\<exists>es. emits_exactly (image_len lay) (\<lambda>i. i < image_len lay) (device_byte lay fills) es \<and>
    (\<forall>s. build_image d z lay fills s = bindE (emit_all d z es s) (\<lambda>s.
      Inr (\<lparr>sum_image_len = image_len lay, sum_data_bytes = sum (file_size lay) (fillable lay)\<rparr>, s)))"
proof -
  let ?D = "\<lambda>i. in_runs (lay_data_runs lay) (block_of i)"
  let ?F = "\<lambda>i. \<exists>f\<in>fst ` set fills. in_runs (file_runs_of lay f) (block_of i)"
  have fills: "distinct (map fst fills)" "fst ` set fills = fillable lay"
    "\<forall>(f, rd)\<in>set fills. file_size lay f \<le> length rd"
    using assms(3) by (auto simp: fills_ok_def)
  obtain ms where ms: "\<And>s. emit_metadata d z lay s = emit_all d z ms s"
    "emission 0 (image_len lay) (\<lambda>i. \<not> ?D i) (meta_byte lay) ms"
    using emit_metadata_spec [OF assms(1), of d z] by blast
  obtain fs where fs: "emits_exactly (image_len lay) ?F (device_byte lay fills) fs"
    "\<And>filled w. writer_at lay filled w \<Longrightarrow> fst ` set fills \<inter> filled = {} \<Longrightarrow>
      (case emit_all d z fs (iw_sink w) of
         Inl e \<Rightarrow> fst (fill_all d z fills w) = Inl e
       | Inr s \<Rightarrow> \<exists>w'. fill_all d z fills w = (Inr (), w') \<and>
           writer_at lay (filled \<union> fst ` set fills) w' \<and> iw_sink w' = s)"
    using fill_all_emits [OF assms(1,2) fills(1) _ fills(3), of d z] fills(2) by blast
  have data: "?F i \<longleftrightarrow> ?D i" for i
  proof
    assume "?F i"
    then show "?D i" using assms(2) fills(2) by (auto simp: files_ok_def fillable_def)
  next
    assume "?D i"
    then obtain f where "f < length (lay_file_runs lay)" "in_runs (file_runs_of lay f) (block_of i)"
      using assms(2) by (auto simp: files_ok_def)
    moreover from this have "f \<in> fillable lay" using assms(2) by (auto simp: files_ok_def fillable_def)
    ultimately show "?F i" using fills(2) by auto
  qed
  have inside: "i < image_len lay" if "?D i" for i
  proof -
    have "block_of i < total_blocks lay" using that assms(1) by (fastforce simp: layout_ok_def in_runs_def in_run_def)
    then have "i < total_blocks lay * BLOCK_SIZE" by (simp add: div_less_iff_less_mult)
    then show ?thesis using total_blocks_bytes [OF assms(1)] by simp
  qed
  have "emits_exactly (image_len lay) (\<lambda>i. i < image_len lay \<and> \<not> ?D i) (device_byte lay fills) ms"
  proof (rule emits_exactly_cong [OF emission_exactly [OF ms(2) order_refl]])
    fix i assume "0 \<le> i \<and> i < image_len lay \<and> \<not> ?D i"
    then have "\<not> ?F i" using data by blast
    then have "device_byte lay fills i = meta_byte lay i" by (intro device_byte_meta) blast
    then show "meta_byte lay i = device_byte lay fills i" ..
  qed simp
  from emits_exactly_append [OF this fs(1)]
  have "emits_exactly (image_len lay) (\<lambda>i. (i < image_len lay \<and> \<not> ?D i) \<or> ?F i) (device_byte lay fills) (ms @ fs)"
    using data by blast
  then have "emits_exactly (image_len lay) (\<lambda>i. i < image_len lay) (device_byte lay fills) (ms @ fs)"
    by (rule emits_exactly_cong) (use data inside in auto)
  moreover have "build_image d z lay fills s = bindE (emit_all d z (ms @ fs) s) (\<lambda>s.
      Inr (\<lparr>sum_image_len = image_len lay, sum_data_bytes = sum (file_size lay) (fillable lay)\<rparr>, s))" for s
  proof (cases "emit_all d z ms s")
    case (Inl e)
    then show ?thesis by (simp add: build_image_def iw_new_def ms(1) emit_all_append)
  next
    case (Inr s1)
    then obtain w where w: "iw_new d z lay s = Inr w" "iw_sink w = s1"
      by (simp add: iw_new_def ms(1) Let_def)
    note at = writer_at_new [OF w(1)]
    show ?thesis
    proof (cases "emit_all d z fs s1")
      case (Inl e)
      then show ?thesis using fs(2) [OF at] w Inr
        by (cases "fill_all d z fills w") (simp add: build_image_def emit_all_append)
    next
      case (Inr s2)
      then obtain w' where w': "fill_all d z fills w = (Inr (), w')" "writer_at lay (fillable lay) w'" "iw_sink w' = s2"
        using fs(2) [OF at] w fills(2) by auto
      then show ?thesis using w \<open>emit_all d z ms s = Inr s1\<close> Inr iw_finish_at [OF w'(2)]
        by (simp add: build_image_def emit_all_append)
    qed
  qed
  ultimately show ?thesis by blast
qed

text \<open>A sink that stores what it is sent ends up with the device the layout and the contents describe.\<close>

context region_sink
begin

lemma build_image_stores:
  assumes "layout_ok lay" "files_ok lay" "fills_ok lay {} fills"
    and "room s (image_len lay)" "store s = (\<lambda>_. 0)"
  shows "\<exists>s'. build_image data zeros lay fills s =
      Inr (\<lparr>sum_image_len = image_len lay, sum_data_bytes = sum (file_size lay) (fillable lay)\<rparr>, s') \<and>
    (\<forall>i<image_len lay. store s' i = device_byte lay fills i)"
proof -
  obtain es where es: "emits_exactly (image_len lay) (\<lambda>i. i < image_len lay) (device_byte lay fills) es"
    "\<And>s. build_image data zeros lay fills s = bindE (emit_all data zeros es s) (\<lambda>s.
      Inr (\<lparr>sum_image_len = image_len lay, sum_data_bytes = sum (file_size lay) (fillable lay)\<rparr>, s))"
    using build_image_emits [OF assms(1-3), of data zeros] by blast
  have "\<exists>s'. emit_all data zeros es s = Inr s' \<and> room s' (image_len lay) \<and> store s' = image_of es"
    by (rule emit_all_image [OF assms(4)]) (use es(1) assms(5) in \<open>auto simp: emits_exactly_def\<close>)
  then show ?thesis using es image_of_exactly by fastforce
qed

end

lemma checked_build:
  assumes "layout_ok lay" "files_ok lay" "fills_ok lay {} fills"
  shows "\<exists>cs buf. build_image (checking_data vec_data) (checking_zeros vec_zeros) lay fills (checking_new []) =
      Inr (\<lparr>sum_image_len = image_len lay, sum_data_bytes = sum (file_size lay) (fillable lay)\<rparr>, cs) \<and>
    checking_finish cs (image_len lay) = Inr buf \<and>
    (\<forall>i<image_len lay. buf_store buf i = device_byte lay fills i)"
proof -
  let ?n = "image_len lay" and ?d = "checking_data vec_data" and ?z = "checking_zeros vec_zeros"
  have n: "0 < ?n" using assms(1) by (simp add: layout_ok_def)
  obtain es where es: "emits_exactly ?n (\<lambda>i. i < ?n) (device_byte lay fills) es"
    "\<And>s. build_image ?d ?z lay fills s = bindE (emit_all ?d ?z es s) (\<lambda>s.
      Inr (\<lparr>sum_image_len = ?n, sum_data_bytes = sum (file_size lay) (fillable lay)\<rparr>, s))"
    using build_image_emits [OF assms, of ?d ?z] by blast
  have cover: "emits_disjoint es" "emits_cover es = {0..<?n}" "\<forall>e\<in>set es. emit_end e \<le> ?n"
    using es(1) by (auto simp: emits_exactly_def)
  obtain buf where buf: "emit_all vec_data vec_zeros es [] = Inr buf" "buf_store buf = image_of es"
    using vs.emit_all_image [OF _ cover(3,1), of "[]"] by (auto simp: buf_store_def fun_eq_iff)
  then have "bindE (emit_all ?d ?z es (checking_new [])) (\<lambda>cs. checking_finish cs ?n) = Inr buf"
    using checking_accepts_iff [OF n, of vec_data vec_zeros es "[]" buf] cover by simp
  then obtain cs where "emit_all ?d ?z es (checking_new []) = Inr cs" "checking_finish cs ?n = Inr buf"
    by (auto simp: res_simps)
  then show ?thesis using es buf(2) image_of_exactly by fastforce
qed

text \<open>An in-memory sink refuses nothing, so a writer that is not poisoned can always be finished.\<close>

lemma vec_never_fails: "\<exists>s'. emit_all vec_data vec_zeros es s = Inr s'"
proof (induction es arbitrary: s)
  case (Cons e es)
  then show ?case by (cases e) (simp_all add: vec_data_def vec_zeros_def Let_def)
qed simp

lemma writer_completes:
  assumes "layout_ok lay" "files_ok lay" "writer_at lay filled w" "fills_ok lay filled fills"
  shows "\<exists>w'. fill_all vec_data vec_zeros fills w = (Inr (), w') \<and>
    iw_finish w' = Inr \<lparr>sum_image_len = image_len lay, sum_data_bytes = sum (file_size lay) (fillable lay)\<rparr>"
proof -
  have f: "distinct (map fst fills)" "fst ` set fills = fillable lay - filled"
    "\<forall>(f, rd)\<in>set fills. file_size lay f \<le> length rd"
    using assms(4) by (auto simp: fills_ok_def)
  have "fst ` set fills \<inter> filled = {}" "fst ` set fills \<subseteq> fillable lay" using f(2) by auto
  then obtain es where "case emit_all vec_data vec_zeros es (iw_sink w) of
      Inl e \<Rightarrow> fst (fill_all vec_data vec_zeros fills w) = Inl e
    | Inr s \<Rightarrow> \<exists>w'. fill_all vec_data vec_zeros fills w = (Inr (), w') \<and>
        writer_at lay (filled \<union> fst ` set fills) w' \<and> iw_sink w' = s"
    using fill_all_emits [OF assms(1,2) f(1) _ f(3), of vec_data vec_zeros] assms(3) by blast
  moreover obtain s where "emit_all vec_data vec_zeros es (iw_sink w) = Inr s" using vec_never_fails by blast
  ultimately obtain w' where w': "fill_all vec_data vec_zeros fills w = (Inr (), w')"
    "writer_at lay (filled \<union> fst ` set fills) w'" by auto
  have "filled \<union> fst ` set fills = fillable lay" using f(2) assms(3) by (auto simp: writer_at_def)
  then show ?thesis using w' iw_finish_at [OF w'(2)] by simp
qed

lemma fills_exist: "\<exists>fills. fills_ok lay filled fills"
proof -
  obtain fs where fs: "set fs = fillable lay - filled" "distinct fs"
    using finite_distinct_list [of "fillable lay - filled"] by auto
  let ?fills = "map (\<lambda>f. (f, zeros_buf (file_size lay f))) fs"
  have "map fst ?fills = fs" by (simp add: o_def)
  then show ?thesis using fs by (intro exI [of _ ?fills]) (auto simp: fills_ok_def image_image)
qed

end
