(* ===== verification/BuilderInv.thy ===== *)
theory BuilderInv
  imports Builder
begin

text \<open>
  What every reachable builder satisfies: the entries of a directory point to existing nodes and
  into the name arena, its index is exactly its live names, link counts are the numbers of live
  names, directories have at most one parent and come after it, and the attribute lists have no
  two entries of the same name. The declared byte total is exact as long as no call links a node
  that had lost its last name.
\<close>

section \<open>The invariant\<close>

definition node_children :: "node \<Rightarrow> child_entry list" where
  "node_children n = (case n_kind n of Dir children _ \<Rightarrow> children | _ \<Rightarrow> [])"

definition refs :: "fs_builder \<Rightarrow> nat \<Rightarrow> nat" where
  "refs b c = sum_list (map (\<lambda>n. count_list (node_live n) c) (fb_nodes b))"

definition entry_ok :: "nat \<Rightarrow> nat \<Rightarrow> child_entry \<Rightarrow> bool" where
  "entry_ok n_nodes n_names e \<longleftrightarrow>
    (case e of (r, c, _) \<Rightarrow> c \<noteq> 0 \<and> c < n_nodes \<and> nr_off r + unat (nr_len r) \<le> n_names)"

definition entries_ok :: "fs_builder \<Rightarrow> bool" where
  "entries_ok b \<longleftrightarrow>
    (\<forall>n\<in>set (fb_nodes b). \<forall>e\<in>set (node_children n). entry_ok (length (fb_nodes b)) (length (fb_names b)) e)"

definition live_at :: "bytes \<Rightarrow> child_entry list \<Rightarrow> nat \<Rightarrow> bytes \<Rightarrow> bool" where
  "live_at names children i nm \<longleftrightarrow>
    i < length children \<and> \<not> snd (snd (children ! i)) \<and> name_of names (fst (children ! i)) = nm"

definition index_ok :: "bytes \<Rightarrow> node_kind \<Rightarrow> bool" where
  "index_ok names k \<longleftrightarrow>
    (case k of Dir children index \<Rightarrow> (\<forall>nm i. index nm = Some i \<longleftrightarrow> live_at names children i nm) | _ \<Rightarrow> True)"

definition indexes_ok :: "fs_builder \<Rightarrow> bool" where
  "indexes_ok b \<longleftrightarrow> (\<forall>n\<in>set (fb_nodes b). index_ok (fb_names b) (n_kind n))"

definition order_ok :: "fs_builder \<Rightarrow> bool" where
  "order_ok b \<longleftrightarrow> (\<forall>p<length (fb_nodes b). \<forall>c\<in>set (node_live (fb_nodes b ! p)).
     c < length (fb_nodes b) \<longrightarrow> is_dir (fb_nodes b ! c) \<longrightarrow> p < c)"

definition root_ok :: "fs_builder \<Rightarrow> bool" where
  "root_ok b \<longleftrightarrow> fb_nodes b \<noteq> [] \<and> is_dir (fb_nodes b ! 0)"

text \<open>
  Link counts in the middle of a removal: \<open>pend\<close> are children whose name is already a tombstone
  and whose link is still to be dropped, \<open>stk\<close> directories still to be cleared.
\<close>

definition links_ok :: "nat list \<Rightarrow> nat list \<Rightarrow> fs_builder \<Rightarrow> bool" where
  "links_ok stk pend b \<longleftrightarrow>
    (\<forall>c<length (fb_nodes b).
       (is_dir (fb_nodes b ! c) \<longrightarrow> refs b c + count_list pend c + count_list stk c \<le> 1) \<and>
       (c \<in> set stk \<longrightarrow> is_dir (fb_nodes b ! c)) \<and>
       (c \<notin> set stk \<longrightarrow> n_nlink (fb_nodes b ! c) = refs b c + count_list pend c + (if c = 0 then 1 else 0))) \<and>
    (\<forall>c\<in>set stk \<union> set pend. c \<noteq> 0 \<and> c < length (fb_nodes b))"

definition node_bytes :: "node \<Rightarrow> nat" where
  "node_bytes n = (if n_nlink n = 0 then 0 else kind_size (n_kind n))"

definition declared_ok :: "fs_builder \<Rightarrow> bool" where
  "declared_ok b \<longleftrightarrow> fb_declared_bytes b = sum_list (map node_bytes (fb_nodes b))"

definition attrs_ok :: "attr list \<Rightarrow> bool" where
  "attrs_ok l \<longleftrightarrow> distinct (map (\<lambda>(i, n, _). (i, n)) l) \<and> (\<forall>(i, n, v)\<in>set l. length n \<le> 255)"

definition xattrs_ok :: "fs_builder \<Rightarrow> bool" where
  "xattrs_ok b \<longleftrightarrow> (\<forall>h l. fb_xattrs b h = Some l \<longrightarrow> h < length (fb_nodes b) \<and> attrs_ok l)"

definition mid_inv :: "bool \<Rightarrow> nat list \<Rightarrow> nat list \<Rightarrow> fs_builder \<Rightarrow> bool" where
  "mid_inv strict stk pend b \<longleftrightarrow>
    root_ok b \<and> entries_ok b \<and> indexes_ok b \<and> order_ok b \<and> links_ok stk pend b \<and> xattrs_ok b \<and>
    (strict \<longrightarrow> declared_ok b)"

definition builder_inv :: "bool \<Rightarrow> fs_builder \<Rightarrow> bool" where
  "builder_inv strict = mid_inv strict [] []"

section \<open>Updating one node\<close>

lemma sum_list_map_update:
  "i < length xs \<Longrightarrow> sum_list (map f (xs[i := y])) + f (xs ! i) = sum_list (map f xs) + (f y :: nat)"
proof (induction xs arbitrary: i)
  case (Cons x xs)
  then show ?case by (cases i) auto
qed simp

definition set_node :: "nat \<Rightarrow> node \<Rightarrow> fs_builder \<Rightarrow> fs_builder" where
  "set_node s n b = b\<lparr>fb_nodes := (fb_nodes b)[s := n]\<rparr>"

lemma refs_set_node:
  "s < length (fb_nodes b) \<Longrightarrow>
   refs (set_node s n b) c + count_list (node_live (fb_nodes b ! s)) c = refs b c + count_list (node_live n) c"
  unfolding refs_def set_node_def
  using sum_list_map_update [of s "fb_nodes b" "\<lambda>n. count_list (node_live n) c" n] by simp

lemma set_dir_set_node:
  "set_dir dir ch ix b = set_node dir ((fb_nodes b ! dir)\<lparr>n_kind := Dir ch ix\<rparr>) b"
  by (simp add: set_dir_def set_node_def)

lemma set_nlink_set_node: "set_nlink s k b = set_node s ((fb_nodes b ! s)\<lparr>n_nlink := k\<rparr>) b"
  by (simp add: set_nlink_def set_node_def)

lemma set_node_simps [simp]:
  "length (fb_nodes (set_node s n b)) = length (fb_nodes b)"
  "fb_names (set_node s n b) = fb_names b"
  "fb_xattrs (set_node s n b) = fb_xattrs b"
  "fb_declared_bytes (set_node s n b) = fb_declared_bytes b"
  "fb_opts (set_node s n b) = fb_opts b"
  by (simp_all add: set_node_def)

lemma nth_set_node:
  "c < length (fb_nodes b) \<Longrightarrow> fb_nodes (set_node s n b) ! c = (if c = s then n else fb_nodes b ! c)"
  by (simp add: set_node_def nth_list_update)

lemma ball_set_node:
  "(\<forall>x\<in>set (fb_nodes b). P x) \<Longrightarrow> P n \<Longrightarrow> \<forall>x\<in>set (fb_nodes (set_node s n b)). P x"
  by (auto simp: set_node_def dest!: set_update_subset_insert [THEN subsetD])

lemma live_children_simps [simp]:
  "live_children [] = []"
  "live_children (e # es) = (if snd (snd e) then live_children es else fst (snd e) # live_children es)"
  "live_children (es @ es') = live_children es @ live_children es'"
  by (auto simp: live_children_def split: prod.splits)

lemma live_tombstone [simp]: "live_children (tombstone_all es) = []"
  by (induction es) (auto simp: tombstone_all_def)

lemma set_live: "set (live_children es) = {c. \<exists>r. (r, c, False) \<in> set es}"
  by (induction es) auto

lemma node_live_children: "node_live n = live_children (node_children n)"
  by (simp add: node_live_def node_children_def split: node_kind.splits)

lemma refs_pos:
  "p < length (fb_nodes b) \<Longrightarrow> c \<in> set (node_live (fb_nodes b ! p)) \<Longrightarrow> 0 < refs b c"
proof -
  assume p: "p < length (fb_nodes b)" and c: "c \<in> set (node_live (fb_nodes b ! p))"
  have "count_list (node_live (fb_nodes b ! p)) c \<noteq> 0" using c by (simp add: count_list_0_iff)
  moreover have "count_list (node_live (fb_nodes b ! p)) c \<le> refs b c"
    unfolding refs_def using p elem_le_sum_list [of p "map (\<lambda>n. count_list (node_live n) c) (fb_nodes b)"]
    by simp
  ultimately show ?thesis by simp
qed

lemma entries_live:
  "entries_ok b \<Longrightarrow> p < length (fb_nodes b) \<Longrightarrow> c \<in> set (node_live (fb_nodes b ! p)) \<Longrightarrow>
   c \<noteq> 0 \<and> c < length (fb_nodes b)"
  by (fastforce simp: entries_ok_def entry_ok_def node_live_children set_live)

section \<open>Removal keeps the invariant\<close>

definition same_kinds :: "fs_builder \<Rightarrow> fs_builder \<Rightarrow> bool" where
  "same_kinds b b' \<longleftrightarrow> map n_kind (fb_nodes b') = map n_kind (fb_nodes b) \<and>
    map n_meta (fb_nodes b') = map n_meta (fb_nodes b) \<and> fb_names b' = fb_names b \<and>
    fb_xattrs b' = fb_xattrs b \<and> fb_opts b' = fb_opts b"

lemma same_kinds_refl [simp]: "same_kinds b b"
  by (simp add: same_kinds_def)

lemma same_kinds_trans: "same_kinds b b' \<Longrightarrow> same_kinds b' b'' \<Longrightarrow> same_kinds b b''"
  by (simp add: same_kinds_def)

lemma same_kinds_nth:
  assumes "same_kinds b b'"
  shows "length (fb_nodes b') = length (fb_nodes b)"
    "c < length (fb_nodes b) \<Longrightarrow> n_kind (fb_nodes b' ! c) = n_kind (fb_nodes b ! c)"
  using assms by (auto simp: same_kinds_def dest: map_eq_imp_length_eq) (metis length_map nth_map)

lemma node_live_kind: "n_kind n = n_kind n' \<Longrightarrow> node_live n = node_live n'"
  by (simp add: node_live_def)

lemma is_dir_kind: "n_kind n = n_kind n' \<Longrightarrow> is_dir n = is_dir n'"
  by (simp add: is_dir_def)

lemma same_kinds_static:
  assumes "same_kinds b b'"
  shows "root_ok b' = root_ok b" "entries_ok b' = entries_ok b" "indexes_ok b' = indexes_ok b"
    "order_ok b' = order_ok b" "xattrs_ok b' = xattrs_ok b" "refs b' c = refs b c"
proof -
  note len = same_kinds_nth(1) [OF assms] and kind = same_kinds_nth(2) [OF assms]
  have live: "node_live (fb_nodes b' ! c) = node_live (fb_nodes b ! c)" if "c < length (fb_nodes b)" for c
    using kind [OF that] by (rule node_live_kind)
  have dir: "is_dir (fb_nodes b' ! c) = is_dir (fb_nodes b ! c)" if "c < length (fb_nodes b)" for c
    using kind [OF that] by (rule is_dir_kind)
  have child: "node_children (fb_nodes b' ! c) = node_children (fb_nodes b ! c)" if "c < length (fb_nodes b)" for c
    using kind [OF that] by (simp add: node_children_def)
  show "root_ok b' = root_ok b" using len dir [of 0]
    by (cases "fb_nodes b = []") (auto simp: root_ok_def simp flip: length_greater_0_conv)
  show "entries_ok b' = entries_ok b"
    using len child assms by (auto simp: entries_ok_def same_kinds_def all_set_conv_all_nth)
  show "indexes_ok b' = indexes_ok b"
    using len kind assms by (auto simp: indexes_ok_def same_kinds_def all_set_conv_all_nth)
  show "xattrs_ok b' = xattrs_ok b" using len assms by (simp add: xattrs_ok_def same_kinds_def)
  have "map (\<lambda>n. count_list (node_live n) c) (fb_nodes b') = map (\<lambda>n. count_list (node_live n) c) (fb_nodes b)"
    using len live by (intro nth_equalityI) auto
  then show "refs b' c = refs b c" by (simp add: refs_def)
  show "order_ok b' = order_ok b"
    using len live dir by (auto simp: order_ok_def)
qed

lemma mid_inv_same_kinds:
  assumes "mid_inv strict stk pend b" "same_kinds b b'" "links_ok stk' pend' b'"
    "strict \<longrightarrow> declared_ok b'"
  shows "mid_inv strict stk' pend' b'"
  using assms same_kinds_static [OF assms(2)] by (simp add: mid_inv_def)

lemma same_kinds_nlink: "c < length (fb_nodes b) \<Longrightarrow> same_kinds b (set_nlink c k b)"
  by (simp add: same_kinds_def set_nlink_def map_update list_update_same_conv)

lemma same_kinds_declared [simp]: "same_kinds b (b'\<lparr>fb_declared_bytes := x\<rparr>) = same_kinds b b'"
  by (simp add: same_kinds_def)

lemma refs_declared [simp]: "refs (b\<lparr>fb_declared_bytes := x\<rparr>) c = refs b c"
  by (simp add: refs_def)

lemma declared_nlink:
  "c < length (fb_nodes b) \<Longrightarrow>
   sum_list (map node_bytes (fb_nodes (set_nlink c k b))) + node_bytes (fb_nodes b ! c) =
   sum_list (map node_bytes (fb_nodes b)) + (if k = 0 then 0 else kind_size (n_kind (fb_nodes b ! c)))"
  using sum_list_map_update [of c "fb_nodes b" node_bytes "(fb_nodes b ! c)\<lparr>n_nlink := k\<rparr>"]
  by (simp add: set_nlink_def node_bytes_def)

lemma unlink_inv:
  assumes inv: "mid_inv strict stk (c # cs) b" and nd: "\<not> is_dir (fb_nodes b ! c)"
  shows "(\<exists>b'. fb_unlink c b = (Inr (), b') \<and> mid_inv strict stk cs b' \<and> same_kinds b b') \<or>
    (\<not> strict \<and> (\<exists>b'. fb_unlink c b = (Inl Panic, b')))"
proof -
  have l: "links_ok stk (c # cs) b" using inv by (simp add: mid_inv_def)
  then have c: "c \<noteq> 0" "c < length (fb_nodes b)" by (auto simp: links_ok_def)
  define k where "k = n_nlink (fb_nodes b ! c)"
  have "c \<notin> set stk" using l nd c by (auto simp: links_ok_def)
  then have k: "k = Suc (refs b c + count_list cs c)" using l c by (simp add: links_ok_def k_def)
  define b1 where "b1 = set_nlink c (k - 1) b"
  have sk: "same_kinds b b1" using c by (simp add: b1_def same_kinds_nlink)
  have nth1: "fb_nodes b1 ! x = (if x = c then (fb_nodes b ! c)\<lparr>n_nlink := k - 1\<rparr> else fb_nodes b ! x)"
    if "x < length (fb_nodes b)" for x
    using that by (simp add: b1_def set_nlink_set_node nth_set_node)
  have links: "links_ok stk cs b1"
    unfolding links_ok_def
  proof (intro conjI ballI allI impI)
    fix x assume x: "x < length (fb_nodes b1)"
    have xb: "x < length (fb_nodes b)" using x same_kinds_nth(1) [OF sk] by simp
    have r: "refs b1 x = refs b x" using same_kinds_static(6) [OF sk] .
    have d: "is_dir (fb_nodes b1 ! x) = is_dir (fb_nodes b ! x)" using nth1 [OF xb] by (simp add: is_dir_def)
    { assume "is_dir (fb_nodes b1 ! x)"
      then show "refs b1 x + count_list cs x + count_list stk x \<le> 1"
        using l xb r d nd by (auto simp: links_ok_def split: if_splits) }
    { assume "x \<in> set stk" then show "is_dir (fb_nodes b1 ! x)" using l xb d by (simp add: links_ok_def) }
    { assume "x \<notin> set stk"
      then show "n_nlink (fb_nodes b1 ! x) = refs b1 x + count_list cs x + (if x = 0 then 1 else 0)"
        using l xb r nth1 [OF xb] k c by (auto simp: links_ok_def) }
  next
    fix x assume "x \<in> set stk \<union> set cs"
    then show "x \<noteq> 0" "x < length (fb_nodes b1)"
      using l same_kinds_nth(1) [OF sk] by (auto simp: links_ok_def)
  qed
  let ?w = "kind_size (n_kind (fb_nodes b ! c))"
  have dec: "sum_list (map node_bytes (fb_nodes b1)) + ?w =
      sum_list (map node_bytes (fb_nodes b)) + (if k - 1 = 0 then 0 else ?w)"
    using declared_nlink [OF c(2), of "k - 1"] k by (simp add: b1_def node_bytes_def k_def)
  have un: "fb_unlink c b = (if k - 1 = 0 then
      (if fb_declared_bytes b < ?w then (Inl Panic, b1)
       else (Inr (), b1\<lparr>fb_declared_bytes := fb_declared_bytes b - ?w\<rparr>)) else (Inr (), b1))"
    using c k by (simp add: fb_unlink_def Let_def failS_def b1_def k_def [symmetric])
      (simp add: set_nlink_def)
  define b2 where "b2 = (if k - 1 = 0 then b1\<lparr>fb_declared_bytes := fb_declared_bytes b - ?w\<rparr> else b1)"
  have sk2: "same_kinds b b2" using sk by (simp add: b2_def)
  have "links_ok stk cs b2" using links by (simp add: links_ok_def b2_def)
  moreover have "declared_ok b2" if "declared_ok b"
    using that dec by (auto simp: declared_ok_def b2_def b1_def set_nlink_def)
  ultimately have inv2: "mid_inv strict stk cs b2"
    using mid_inv_same_kinds [OF inv sk2] inv by (simp add: mid_inv_def)
  show ?thesis
  proof (cases "k - 1 = 0 \<and> fb_declared_bytes b < ?w")
    case True
    have "\<not> strict"
      using True inv dec by (auto simp: mid_inv_def declared_ok_def)
    then show ?thesis using un True by auto
  next
    case False
    then have "fb_unlink c b = (Inr (), b2)" using un by (auto simp: b2_def)
    then show ?thesis using inv2 sk2 by auto
  qed
qed

lemma visit_live_inv:
  "mid_inv strict stk cs b \<Longrightarrow>
   (\<exists>b'. visit_live stk cs b = (Inr (stk @ filter (\<lambda>c. is_dir (fb_nodes b ! c)) cs), b') \<and>
      mid_inv strict (stk @ filter (\<lambda>c. is_dir (fb_nodes b ! c)) cs) [] b' \<and> same_kinds b b') \<or>
   (\<not> strict \<and> (\<exists>b'. visit_live stk cs b = (Inl Panic, b')))"
proof (induction cs arbitrary: stk b)
  case Nil
  then show ?case by simp
next
  case (Cons c cs)
  then have c: "c < length (fb_nodes b)" by (auto simp: mid_inv_def links_ok_def)
  show ?case
  proof (cases "is_dir (fb_nodes b ! c)")
    case True
    have "links_ok (stk @ [c]) cs b"
      using Cons.prems True unfolding mid_inv_def links_ok_def
      by (auto simp: count_list_append split: if_splits)
    then have "mid_inv strict (stk @ [c]) cs b" using Cons.prems by (simp add: mid_inv_def)
    from Cons.IH [OF this] show ?thesis using c True by simp
  next
    case False
    from unlink_inv [OF Cons.prems False] show ?thesis
    proof
      assume "\<exists>b'. fb_unlink c b = (Inr (), b') \<and> mid_inv strict stk cs b' \<and> same_kinds b b'"
      then obtain b1 where b1: "fb_unlink c b = (Inr (), b1)" "mid_inv strict stk cs b1" "same_kinds b b1"
        by blast
      have "filter (\<lambda>c. is_dir (fb_nodes b1 ! c)) cs = filter (\<lambda>c. is_dir (fb_nodes b ! c)) cs"
      proof (rule filter_cong)
        fix x assume "x \<in> set cs"
        then have "x < length (fb_nodes b)" using Cons.prems by (auto simp: mid_inv_def links_ok_def)
        then show "is_dir (fb_nodes b1 ! x) = is_dir (fb_nodes b ! x)"
          using same_kinds_nth(2) [OF b1(3)] is_dir_kind by blast
      qed simp
      then show ?thesis using Cons.IH [OF b1(2)] b1 c False same_kinds_trans [OF b1(3)]
        by (auto simp: bindS_def)
    next
      assume "\<not> strict \<and> (\<exists>b'. fb_unlink c b = (Inl Panic, b'))"
      then show ?thesis using c False by (auto simp: bindS_def)
    qed
  qed
qed

lemma clear_dir_set_node:
  assumes "slot < length (fb_nodes b)"
  shows "clear_dir slot b = set_node slot ((fb_nodes b ! slot)\<lparr>n_nlink := 0,
    n_kind := Dir (tombstone_all (dir_children (n_kind (fb_nodes b ! slot)))) Map.empty\<rparr>) b"
  using assms by (simp add: clear_dir_def set_dir_set_node set_nlink_set_node set_node_def)

lemma tombstone_entry_ok: "(\<forall>e\<in>set es. entry_ok n m e) \<Longrightarrow> \<forall>e\<in>set (tombstone_all es). entry_ok n m e"
  by (auto simp: tombstone_all_def entry_ok_def)

lemma tombstone_dead: "i < length (tombstone_all es) \<Longrightarrow> snd (snd (tombstone_all es ! i))"
  by (simp add: tombstone_all_def split: prod.splits)

lemma order_ok_set_node:
  assumes "order_ok b" "s < length (fb_nodes b)" "is_dir n = is_dir (fb_nodes b ! s)"
    "set (node_live n) \<subseteq> set (node_live (fb_nodes b ! s))"
  shows "order_ok (set_node s n b)"
  using assms unfolding order_ok_def
  by (auto simp: nth_set_node split: if_splits)

lemma clear_dir_inv:
  assumes inv: "mid_inv strict stk [] b" and stk: "stk \<noteq> []"
  shows "\<exists>children index. n_kind (fb_nodes b ! last stk) = Dir children index \<and>
    last stk < length (fb_nodes b) \<and>
    mid_inv strict (butlast stk) (live_children children) (clear_dir (last stk) b)"
proof -
  define slot where "slot = last stk"
  have l: "links_ok stk [] b" using inv by (simp add: mid_inv_def)
  have slot: "slot \<in> set stk" "slot \<noteq> 0" "slot < length (fb_nodes b)"
    using l stk by (auto simp: links_ok_def slot_def)
  then have "is_dir (fb_nodes b ! slot)" using l by (simp add: links_ok_def)
  then obtain children index where k: "n_kind (fb_nodes b ! slot) = Dir children index"
    by (auto simp: is_dir_def split: node_kind.splits)
  define n where "n = (fb_nodes b ! slot)\<lparr>n_nlink := 0, n_kind := Dir (tombstone_all children) Map.empty\<rparr>"
  define b1 where "b1 = set_node slot n b"
  have b1: "clear_dir slot b = b1" using clear_dir_set_node [OF slot(3)] k by (simp add: b1_def n_def)
  have n: "is_dir n" "node_live n = []" "node_children n = tombstone_all children" "n_nlink n = 0"
    "node_bytes n = 0"
    by (simp_all add: n_def is_dir_def node_live_def node_children_def node_bytes_def)
  have old: "node_live (fb_nodes b ! slot) = live_children children" "is_dir (fb_nodes b ! slot)"
    "node_children (fb_nodes b ! slot) = children" "node_bytes (fb_nodes b ! slot) = 0"
    using k by (simp_all add: node_live_def is_dir_def node_children_def node_bytes_def)
  have r: "refs b1 x + count_list (live_children children) x = refs b x" for x
    using refs_set_node [OF slot(3), of n x] old n by (simp add: b1_def)
  have stk': "stk = butlast stk @ [slot]" using stk by (simp add: slot_def)
  have cnt: "count_list stk x = count_list (butlast stk) x + (if x = slot then 1 else 0)" for x
    by (subst stk') (simp add: count_list_append)
  have mem: "x \<in> set stk \<longleftrightarrow> x \<in> set (butlast stk) \<or> x = slot" for x by (subst stk') auto
  have "refs b slot = 0" "slot \<notin> set (butlast stk)"
    using l slot old cnt [of slot] by (auto simp: links_ok_def simp flip: count_list_0_iff)
  then have slot0: "refs b1 slot = 0" "count_list (live_children children) slot = 0"
    using r [of slot] by simp_all
  have links: "links_ok (butlast stk) (live_children children) b1"
    unfolding links_ok_def
  proof (intro conjI ballI allI impI)
    fix x assume "x < length (fb_nodes b1)"
    then have x: "x < length (fb_nodes b)" by (simp add: b1_def)
    have nx: "fb_nodes b1 ! x = (if x = slot then n else fb_nodes b ! x)"
      using x by (simp add: b1_def nth_set_node)
    have d: "is_dir (fb_nodes b1 ! x) = is_dir (fb_nodes b ! x)" using nx n old by simp
    { assume "is_dir (fb_nodes b1 ! x)"
      then show "refs b1 x + count_list (live_children children) x + count_list (butlast stk) x \<le> 1"
        using l x d r [of x] cnt [of x] by (auto simp: links_ok_def split: if_splits) }
    { assume "x \<in> set (butlast stk)" then show "is_dir (fb_nodes b1 ! x)"
        using l x d mem by (simp add: links_ok_def) }
    { assume "x \<notin> set (butlast stk)"
      then show "n_nlink (fb_nodes b1 ! x) =
          refs b1 x + count_list (live_children children) x + (if x = 0 then 1 else 0)"
        using l x nx n slot0 r [of x] slot(2) mem [of x] by (auto simp: links_ok_def) }
  next
    fix x assume "x \<in> set (butlast stk) \<union> set (live_children children)"
    moreover have "entries_ok b" using inv by (simp add: mid_inv_def)
    then have "\<forall>x\<in>set (live_children children). x \<noteq> 0 \<and> x < length (fb_nodes b)"
      using entries_live [OF _ slot(3)] old(1) by auto
    ultimately show "x \<noteq> 0" "x < length (fb_nodes b1)"
      using l mem by (auto simp: links_ok_def b1_def)
  qed
  have "entries_ok b1"
  proof -
    have "\<forall>e\<in>set children. entry_ok (length (fb_nodes b)) (length (fb_names b)) e"
      using inv slot old(3) by (auto simp: mid_inv_def entries_ok_def dest!: bspec [of _ _ "fb_nodes b ! slot"])
    then have "\<forall>e\<in>set (node_children n). entry_ok (length (fb_nodes b)) (length (fb_names b)) e"
      unfolding n(3) by (rule tombstone_entry_ok)
    then show ?thesis
      using inv ball_set_node [of b "\<lambda>n. \<forall>e\<in>set (node_children n). entry_ok (length (fb_nodes b)) (length (fb_names b)) e" n slot]
      by (simp add: mid_inv_def entries_ok_def b1_def)
  qed
  moreover have "indexes_ok b1"
  proof -
    have "index_ok (fb_names b) (n_kind n)"
      using tombstone_dead by (auto simp: n_def index_ok_def live_at_def)
    then show ?thesis
      using inv ball_set_node [of b "\<lambda>n. index_ok (fb_names b) (n_kind n)" n slot]
      by (simp add: mid_inv_def indexes_ok_def b1_def)
  qed
  moreover have "order_ok b1"
    using inv slot n old unfolding b1_def mid_inv_def by (intro order_ok_set_node) auto
  moreover have "root_ok b1" "xattrs_ok b1"
    using inv slot n unfolding b1_def mid_inv_def root_ok_def xattrs_ok_def
    by (auto simp: nth_set_node simp flip: length_greater_0_conv)
  moreover have "strict \<longrightarrow> declared_ok b1"
    using inv sum_list_map_update [OF slot(3), of node_bytes n] n old
    by (simp add: mid_inv_def declared_ok_def b1_def) (simp add: set_node_def)
  ultimately have "mid_inv strict (butlast stk) (live_children children) b1"
    using links by (simp add: mid_inv_def)
  then show ?thesis using k slot b1 by (auto simp: slot_def)
qed

lemma remove_subtree_loop_inv:
  "mid_inv strict stk [] b \<Longrightarrow>
   (\<exists>b'. remove_subtree_loop stk b = (Inr (), b') \<and> builder_inv strict b') \<or>
   (\<not> strict \<and> (\<exists>b'. remove_subtree_loop stk b = (Inl Panic, b')))"
proof (induction stk b rule: remove_subtree_loop.induct)
  case (1 stk b)
  show ?case
  proof (cases "stk = []")
    case True
    then show ?thesis using 1(2) by (subst (1 2) remove_subtree_loop.simps) (simp add: builder_inv_def)
  next
    case ne: False
    obtain children index where k: "n_kind (fb_nodes b ! last stk) = Dir children index"
      "last stk < length (fb_nodes b)"
      "mid_inv strict (butlast stk) (live_children children) (clear_dir (last stk) b)"
      using clear_dir_inv [OF 1(2) ne] by blast
    from visit_live_inv [OF k(3)] show ?thesis
    proof (elim disjE exE conjE)
      fix b1 assume v: "visit_live (butlast stk) (live_children children) (clear_dir (last stk) b) =
          (Inr (butlast stk @ filter (\<lambda>c. is_dir (fb_nodes (clear_dir (last stk) b) ! c)) (live_children children)), b1)"
        and m: "mid_inv strict (butlast stk @ filter (\<lambda>c. is_dir (fb_nodes (clear_dir (last stk) b) ! c)) (live_children children)) [] b1"
      from 1(1) [OF ne refl _ k(1) v [symmetric] refl m] k(2) show ?thesis
        by (subst (1 2) remove_subtree_loop.simps) (use ne k v in \<open>simp add: Let_def\<close>)
    next
      fix b1 assume "\<not> strict"
        "visit_live (butlast stk) (live_children children) (clear_dir (last stk) b) = (Inl Panic, b1)"
      then show ?thesis
        by (subst (1 2) remove_subtree_loop.simps) (use ne k in \<open>simp add: Let_def\<close>)
    qed
  qed
qed

lemma dir_parts_Inr:
  "dir_parts dir b = Inr (children, index) \<longleftrightarrow>
   dir < length (fb_nodes b) \<and> n_kind (fb_nodes b ! dir) = Dir children index"
  by (auto simp: dir_parts_def split: node_kind.splits)

lemma live_children_bury:
  assumes "idx < length children" "\<not> snd (snd (children ! idx))"
  shows "count_list (live_children (children[idx := (r, c', True)])) x + (if x = fst (snd (children ! idx)) then 1 else 0) =
    count_list (live_children children) x"
    "set (live_children (children[idx := (r, c', True)])) \<subseteq> set (live_children children)"
proof -
  have c: "children = take idx children @ children ! idx # drop (Suc idx) children"
    using assms(1) by (rule id_take_nth_drop)
  have u: "children[idx := (r, c', True)] = take idx children @ (r, c', True) # drop (Suc idx) children"
    using assms(1) by (rule upd_conv_take_nth_drop)
  show "count_list (live_children (children[idx := (r, c', True)])) x + (if x = fst (snd (children ! idx)) then 1 else 0) =
    count_list (live_children children) x"
    unfolding u by (subst (4) c) (use assms(2) in \<open>simp add: count_list_append\<close>)
  show "set (live_children (children[idx := (r, c', True)])) \<subseteq> set (live_children children)"
    unfolding u by (subst (3) c) (use assms(2) in auto)
qed

lemma index_bury:
  assumes "index_ok names (Dir children index)" "index name = Some idx"
  shows "index_ok names (Dir (children[idx := (r, c, True)]) (index(name := None)))"
proof -
  have ix: "index nm = Some i \<longleftrightarrow> live_at names children i nm" for nm i
    using assms(1) by (simp add: index_ok_def)
  have "idx < length children" using assms(2) ix by (simp add: live_at_def)
  then have "live_at names (children[idx := (r, c, True)]) i nm \<longleftrightarrow> i \<noteq> idx \<and> live_at names children i nm" for i nm
    by (auto simp: live_at_def nth_list_update)
  moreover have "live_at names children i name \<longleftrightarrow> i = idx" for i using ix [of name i] assms(2) by auto
  moreover have "live_at names children idx nm \<Longrightarrow> nm = name" for nm
    using ix [of name idx] assms(2) by (simp add: live_at_def)
  ultimately show ?thesis using ix by (auto simp: index_ok_def)
qed

lemma links_bury:
  assumes l: "links_ok [] [] b" and len: "length (fb_nodes b1) = length (fb_nodes b)"
    and c: "c \<noteq> 0" "c < length (fb_nodes b)"
    and r: "\<And>x. refs b1 x + (if x = c then 1 else 0) = refs b x"
    and d: "\<And>x. x < length (fb_nodes b) \<Longrightarrow> is_dir (fb_nodes b1 ! x) = is_dir (fb_nodes b ! x)"
      "\<And>x. x < length (fb_nodes b) \<Longrightarrow> n_nlink (fb_nodes b1 ! x) = n_nlink (fb_nodes b ! x)"
  shows "is_dir (fb_nodes b1 ! c) \<Longrightarrow> links_ok [c] [] b1"
    and "\<not> is_dir (fb_nodes b1 ! c) \<Longrightarrow> links_ok [] [c] b1"
proof -
  have l': "is_dir (fb_nodes b ! x) \<longrightarrow> refs b x \<le> 1"
    "n_nlink (fb_nodes b ! x) = refs b x + (if x = 0 then 1 else 0)" if "x < length (fb_nodes b)" for x
    using l that by (simp_all add: links_ok_def)
  have a: "refs b1 x + (if x = c then 1 else 0) \<le> 1" if "x < length (fb_nodes b)" "is_dir (fb_nodes b ! x)" for x
    using l' [OF that(1)] r [of x] that by simp
  show "is_dir (fb_nodes b1 ! c) \<Longrightarrow> links_ok [c] [] b1"
    unfolding links_ok_def len
  proof (intro conjI allI impI ballI)
    fix x assume x: "x < length (fb_nodes b)"
    { assume "is_dir (fb_nodes b1 ! x)"
      then show "refs b1 x + count_list [] x + count_list [c] x \<le> 1" using a [OF x] d x by auto }
    { assume "x \<notin> set [c]"
      then show "n_nlink (fb_nodes b1 ! x) = refs b1 x + count_list [] x + (if x = 0 then 1 else 0)"
        using l' [OF x] d x r [of x] by simp }
  qed (use c in auto)
  show "\<not> is_dir (fb_nodes b1 ! c) \<Longrightarrow> links_ok [] [c] b1"
    unfolding links_ok_def len
  proof (intro conjI allI impI ballI)
    fix x assume x: "x < length (fb_nodes b)"
    { assume "is_dir (fb_nodes b1 ! x)"
      then show "refs b1 x + count_list [c] x + count_list [] x \<le> 1" using a [OF x] d x by auto }
    { show "n_nlink (fb_nodes b1 ! x) = refs b1 x + count_list [c] x + (if x = 0 then 1 else 0)"
        using l' [OF x] d x r [of x] by (auto split: if_splits) }
  qed (use c in auto)
qed

lemma bury_inv:
  assumes inv: "builder_inv strict b" and d: "dir < length (fb_nodes b)"
    and k: "n_kind (fb_nodes b ! dir) = Dir children index" and i: "index name = Some idx"
  defines "c \<equiv> fst (snd (children ! idx))"
  defines "b1 \<equiv> set_dir dir (children[idx := (fst (children ! idx), c, True)]) (index(name := None)) b"
  shows "idx < length children \<and> c < length (fb_nodes b1) \<and>
    (is_dir (fb_nodes b1 ! c) \<longrightarrow> mid_inv strict [c] [] b1) \<and>
    (\<not> is_dir (fb_nodes b1 ! c) \<longrightarrow> mid_inv strict [] [c] b1)"
proof -
  define n where "n = (fb_nodes b ! dir)\<lparr>n_kind := Dir (children[idx := (fst (children ! idx), c, True)]) (index(name := None))\<rparr>"
  have b1: "b1 = set_node dir n b" by (simp add: b1_def n_def set_dir_set_node)
  have m: "mid_inv strict [] [] b" using inv by (simp add: builder_inv_def)
  have ix: "index_ok (fb_names b) (Dir children index)"
    using m d k by (auto simp: mid_inv_def indexes_ok_def dest!: bspec [of _ _ "fb_nodes b ! dir"])
  then have idx: "idx < length children" "\<not> snd (snd (children ! idx))"
    using i by (auto simp: index_ok_def live_at_def)
  have old: "node_live (fb_nodes b ! dir) = live_children children" "is_dir (fb_nodes b ! dir)"
    "node_children (fb_nodes b ! dir) = children" "node_bytes (fb_nodes b ! dir) = 0"
    using k by (simp_all add: node_live_def is_dir_def node_children_def node_bytes_def)
  let ?ch = "children[idx := (fst (children ! idx), c, True)]"
  have n: "is_dir n" "node_live n = live_children ?ch" "node_children n = ?ch"
    "n_nlink n = n_nlink (fb_nodes b ! dir)" "node_bytes n = 0"
    by (simp_all add: n_def is_dir_def node_live_def node_children_def node_bytes_def)
  have r: "refs b1 x + (if x = c then 1 else 0) = refs b x" for x
    using refs_set_node [OF d, of n x] live_children_bury(1) [OF idx, of "fst (children ! idx)" c x]
    by (simp add: b1 old n c_def)
  have "c \<in> set (node_live (fb_nodes b ! dir))"
    unfolding old using idx by (auto simp: set_live c_def in_set_conv_nth prod_eq_iff intro!: exI [of _ idx])
  then have c: "c \<noteq> 0" "c < length (fb_nodes b)"
    using entries_live [OF _ d, of c] m by (auto simp: mid_inv_def)
  have nx: "fb_nodes b1 ! x = (if x = dir then n else fb_nodes b ! x)" if "x < length (fb_nodes b)" for x
    using that by (simp add: b1 nth_set_node)
  have dx: "is_dir (fb_nodes b1 ! x) = is_dir (fb_nodes b ! x)" "n_nlink (fb_nodes b1 ! x) = n_nlink (fb_nodes b ! x)"
    if "x < length (fb_nodes b)" for x using nx [OF that] n old by simp_all
  have l: "links_ok [] [] b" using m by (simp add: mid_inv_def)
  note links = links_bury [OF l _ c r dx]
  have ent: "\<forall>e\<in>set children. entry_ok (length (fb_nodes b)) (length (fb_names b)) e"
    using m d old(3) by (auto simp: mid_inv_def entries_ok_def dest!: bspec [of _ _ "fb_nodes b ! dir"])
  then have "entry_ok (length (fb_nodes b)) (length (fb_names b)) (children ! idx)" using idx by simp
  then have "\<forall>e\<in>set ?ch. entry_ok (length (fb_nodes b)) (length (fb_names b)) e"
    using ent by (auto simp: entry_ok_def c_def split: prod.splits dest!: set_update_subset_insert [THEN subsetD])
  then have "entries_ok b1"
    using m ball_set_node [of b "\<lambda>n. \<forall>e\<in>set (node_children n). entry_ok (length (fb_nodes b)) (length (fb_names b)) e" n dir] n
    by (simp add: mid_inv_def entries_ok_def b1)
  moreover have "index_ok (fb_names b) (n_kind n)"
    using index_bury [OF ix i] by (simp add: n_def)
  then have "indexes_ok b1"
    using m ball_set_node [of b "\<lambda>n. index_ok (fb_names b) (n_kind n)" n dir]
    by (simp add: mid_inv_def indexes_ok_def b1)
  moreover have "order_ok b1"
    using m d n old live_children_bury(2) [OF idx] unfolding b1 mid_inv_def
    by (intro order_ok_set_node) auto
  moreover have "root_ok b1" "xattrs_ok b1"
    using m d n old unfolding b1 mid_inv_def root_ok_def xattrs_ok_def
    by (auto simp: nth_set_node simp flip: length_greater_0_conv)
  moreover have "strict \<longrightarrow> declared_ok b1"
    using m sum_list_map_update [OF d, of node_bytes n] n old
    by (simp add: mid_inv_def declared_ok_def b1) (simp add: set_node_def)
  ultimately show ?thesis using links idx c by (simp add: mid_inv_def b1)
qed

lemma fb_remove_inv:
  assumes inv: "builder_inv strict b"
  shows "(\<exists>b'. fb_remove dir name b = (Inr (), b') \<and> builder_inv strict b') \<or>
    (\<exists>e. fb_remove dir name b = (Inl (Err e), b)) \<or>
    (\<not> strict \<and> (\<exists>b'. fb_remove dir name b = (Inl Panic, b')))"
proof (cases "dir_parts dir b")
  case (Inl f)
  then have "\<exists>e. f = Err e" by (auto simp: dir_parts_def invalid_def split: if_splits node_kind.splits)
  then show ?thesis using Inl by (auto simp: fb_remove_def call_defs)
next
  case (Inr p)
  then obtain children index where p: "p = (children, index)" by (cases p)
  then have k: "dir < length (fb_nodes b)" "n_kind (fb_nodes b ! dir) = Dir children index"
    using Inr by (simp_all add: dir_parts_Inr)
  show ?thesis
  proof (cases "index name")
    case None
    then show ?thesis using Inr p by (simp add: fb_remove_def call_defs invalid_def)
  next
    case (Some idx)
    define c where "c = fst (snd (children ! idx))"
    define b1 where "b1 = set_dir dir (children[idx := (fst (children ! idx), c, True)]) (index(name := None)) b"
    note bury = bury_inv [OF inv k Some, folded c_def, folded b1_def]
    have e: "fb_remove dir name b =
      (if is_dir (fb_nodes b1 ! c) then remove_subtree c b1 else fb_unlink c b1)"
      using Inr p Some bury by (simp add: fb_remove_def call_defs Let_def b1_def c_def)
    show ?thesis
    proof (cases "is_dir (fb_nodes b1 ! c)")
      case True
      then have "mid_inv strict [c] [] b1" using bury by blast
      from remove_subtree_loop_inv [OF this] show ?thesis using True e by (auto simp: remove_subtree_def)
    next
      case False
      then have "mid_inv strict [] [c] b1" using bury by blast
      from unlink_inv [OF this False] show ?thesis using False e by (auto simp: builder_inv_def)
    qed
  qed
qed

section \<open>Declaring keeps the invariant\<close>

definition name_valid :: "bytes \<Rightarrow> bool" where
  "name_valid name \<longleftrightarrow> name \<noteq> [] \<and> length name \<le> 255 \<and> of_char CHR ''/'' \<notin> set name \<and> 0 \<notin> set name \<and>
    name \<noteq> ascii ''.'' \<and> name \<noteq> ascii ''..''"

definition fresh_ref :: "bytes \<Rightarrow> fs_builder \<Rightarrow> name_ref" where
  "fresh_ref name b = \<lparr>nr_off = length (fb_names b), nr_len = of_nat (length name)\<rparr>"

definition entry_added ::
    "handle \<Rightarrow> child_entry list \<Rightarrow> (bytes \<Rightarrow> nat option) \<Rightarrow> bytes \<Rightarrow> nat \<Rightarrow> fs_builder \<Rightarrow> fs_builder" where
  "entry_added dir children index name child b =
    set_dir dir (children @ [(fresh_ref name b, child, False)]) (index(name \<mapsto> length children))
      (b\<lparr>fb_names := fb_names b @ name\<rparr>)"

text \<open>Adding an entry is all or nothing, and never panics.\<close>

lemma add_entry_cases:
  obtains (err) e where "add_entry dir name child b = (Inl (Err e), b)"
  | (ok) children index where "dir < length (fb_nodes b)" "n_kind (fb_nodes b ! dir) = Dir children index"
      "index name = None" "name_valid name" "length (fb_names b) < 2 ^ 32"
      "add_entry dir name child b = (Inr (), entry_added dir children index name child b)"
proof (cases "check_duplicate dir name b")
  case (Inl f)
  then have "\<exists>e. f = Err e"
    by (auto simp: check_duplicate_def invalid_def split: if_splits node_kind.splits)
  then show ?thesis using Inl that(1) by (auto simp: add_entry_def call_defs)
next
  case (Inr u)
  then obtain children index where k: "dir < length (fb_nodes b)"
    "n_kind (fb_nodes b ! dir) = Dir children index" "index name = None"
    by (auto simp: check_duplicate_def split: if_splits node_kind.splits)
  show ?thesis
  proof (cases "name_valid name \<and> length (fb_names b) < 2 ^ 32")
    case True
    then have "intern name b = (Inr (fresh_ref name b), b\<lparr>fb_names := fb_names b @ name\<rparr>)"
      by (simp add: intern_def name_valid_def fresh_ref_def)
    then have "add_entry dir name child b = (Inr (), entry_added dir children index name child b)"
      using k Inr by (simp add: add_entry_def call_defs dir_parts_def entry_added_def)
    then show ?thesis using that(2) k True by blast
  next
    case False
    then have "\<exists>e. intern name b = (Inl (Err e), b)"
      by (auto simp: intern_def name_valid_def invalid_def)
    then show ?thesis using that(1) Inr by (auto simp: add_entry_def call_defs)
  qed
qed

lemma name_of_append:
  "nr_off r + unat (nr_len r) \<le> length names \<Longrightarrow> name_of (names @ xs) r = name_of names r"
  by (simp add: name_of_def peek_append_left)

lemma name_of_fresh: "length name \<le> 255 \<Longrightarrow> name_of (fb_names b @ name) (fresh_ref name b) = name"
  by (simp add: name_of_def fresh_ref_def peek_append_right unat_of_nat)

lemma index_extend:
  assumes ix: "index_ok names (Dir children index)" and none: "index name = None"
    and ent: "\<forall>e\<in>set children. nr_off (fst e) + unat (nr_len (fst e)) \<le> length names"
    and nm: "name_of (names @ name) r = name"
  shows "index_ok (names @ name) (Dir (children @ [(r, c, False)]) (index(name \<mapsto> length children)))"
proof -
  have 1: "live_at (names @ name) (children @ [(r, c, False)]) i x \<longleftrightarrow>
      live_at names children i x \<or> i = length children \<and> x = name" for i x
    using ent nm by (auto simp: live_at_def nth_append name_of_append less_Suc_eq)
  have 2: "index x = Some i \<longleftrightarrow> live_at names children i x" for x i
    using ix by (simp add: index_ok_def)
  have 3: "\<not> live_at names children i name" for i using 2 [of name i] none by simp
  have 4: "\<not> live_at names children (length children) x" for x by (simp add: live_at_def)
  show ?thesis unfolding index_ok_def by (auto simp: 1 2 3 4)
qed

lemma index_grow:
  assumes "index_ok names k" "\<forall>e\<in>set (node_children n). nr_off (fst e) + unat (nr_len (fst e)) \<le> length names"
    "k = n_kind n"
  shows "index_ok (names @ xs) k"
proof (cases k)
  case (Dir children index)
  then have "node_children n = children" using assms(3) by (simp add: node_children_def)
  then have "live_at (names @ xs) children = live_at names children"
    using assms(2) by (auto simp: live_at_def fun_eq_iff name_of_append)
  then show ?thesis using assms(1) Dir by (simp add: index_ok_def)
qed (simp_all add: index_ok_def)

text \<open>What one new entry does to each part of the invariant, whatever the child.\<close>

lemma entry_added_parts:
  assumes inv: "builder_inv strict b" and d: "dir < length (fb_nodes b)"
    and k: "n_kind (fb_nodes b ! dir) = Dir children index" "index name = None" "name_valid name"
    and c: "c \<noteq> 0" "c < N" "length (fb_nodes b) \<le> N"
  defines "b1 \<equiv> entry_added dir children index name c b"
  shows "length (fb_nodes b1) = length (fb_nodes b)" "fb_names b1 = fb_names b @ name"
    "fb_xattrs b1 = fb_xattrs b" "fb_declared_bytes b1 = fb_declared_bytes b"
    "refs b1 x = refs b x + (if x = c then 1 else 0)"
    "\<forall>n\<in>set (fb_nodes b1). \<forall>e\<in>set (node_children n). entry_ok N (length (fb_names b1)) e"
    "indexes_ok b1" "map node_bytes (fb_nodes b1) = map node_bytes (fb_nodes b)"
    "x < length (fb_nodes b) \<Longrightarrow> is_dir (fb_nodes b1 ! x) = is_dir (fb_nodes b ! x) \<and>
      n_nlink (fb_nodes b1 ! x) = n_nlink (fb_nodes b ! x)"
    "x < length (fb_nodes b) \<Longrightarrow> set (node_live (fb_nodes b1 ! x)) =
      set (node_live (fb_nodes b ! x)) \<union> (if x = dir then {c} else {})"
proof -
  define b0 where "b0 = b\<lparr>fb_names := fb_names b @ name\<rparr>"
  define n where "n = (fb_nodes b ! dir)\<lparr>n_kind :=
    Dir (children @ [(fresh_ref name b, c, False)]) (index(name \<mapsto> length children))\<rparr>"
  have b1: "b1 = set_node dir n b0"
    by (simp add: b1_def entry_added_def set_dir_set_node n_def b0_def)
  have b0: "fb_nodes b0 = fb_nodes b" "refs b0 y = refs b y" "fb_names b0 = fb_names b @ name" for y
    by (simp_all add: b0_def refs_def)
  have m: "mid_inv strict [] [] b" using inv by (simp add: builder_inv_def)
  have old: "node_live (fb_nodes b ! dir) = live_children children" "is_dir (fb_nodes b ! dir)"
    "node_children (fb_nodes b ! dir) = children" "node_bytes (fb_nodes b ! dir) = 0"
    using k by (simp_all add: node_live_def is_dir_def node_children_def node_bytes_def)
  have n: "is_dir n" "node_live n = live_children children @ [c]"
    "node_children n = children @ [(fresh_ref name b, c, False)]"
    "n_nlink n = n_nlink (fb_nodes b ! dir)" "node_bytes n = 0"
    by (simp_all add: n_def is_dir_def node_live_def node_children_def node_bytes_def)
  show "length (fb_nodes b1) = length (fb_nodes b)" "fb_names b1 = fb_names b @ name"
    "fb_xattrs b1 = fb_xattrs b" "fb_declared_bytes b1 = fb_declared_bytes b"
    by (simp_all add: b1 b0_def)
  show "refs b1 x = refs b x + (if x = c then 1 else 0)"
    using refs_set_node [of dir b0 n x] d n old by (simp add: b1 b0 count_list_append)
  have nx: "fb_nodes b1 ! x = (if x = dir then n else fb_nodes b ! x)" if "x < length (fb_nodes b)"
    using that by (simp add: b1 nth_set_node b0)
  then show "x < length (fb_nodes b) \<Longrightarrow> is_dir (fb_nodes b1 ! x) = is_dir (fb_nodes b ! x) \<and>
      n_nlink (fb_nodes b1 ! x) = n_nlink (fb_nodes b ! x)"
    "x < length (fb_nodes b) \<Longrightarrow> set (node_live (fb_nodes b1 ! x)) =
      set (node_live (fb_nodes b ! x)) \<union> (if x = dir then {c} else {})"
    using n old by auto
  have "fb_nodes b1 = (fb_nodes b)[dir := n]" by (simp add: b1 set_node_def b0_def)
  then show "map node_bytes (fb_nodes b1) = map node_bytes (fb_nodes b)"
    using n old d by (simp add: map_update list_update_same_conv)
  have ent: "\<forall>n\<in>set (fb_nodes b). \<forall>e\<in>set (node_children n). entry_ok (length (fb_nodes b)) (length (fb_names b)) e"
    using m by (simp add: mid_inv_def entries_ok_def)
  have up: "entry_ok (length (fb_nodes b)) (length (fb_names b)) e \<Longrightarrow> entry_ok N (length (fb_names b1)) e" for e
    using c by (auto simp: entry_ok_def b1 b0)
  have len: "unat (nr_len (fresh_ref name b)) = length name"
    using k(3) by (simp add: fresh_ref_def name_valid_def unat_of_nat)
  then have new: "entry_ok N (length (fb_names b1)) (fresh_ref name b, c, False)"
    using c by (simp add: entry_ok_def fresh_ref_def b1 b0)
  have chd: "\<forall>e\<in>set children. entry_ok (length (fb_nodes b)) (length (fb_names b)) e"
    using ent d old(3) by (metis nth_mem)
  show "\<forall>n\<in>set (fb_nodes b1). \<forall>e\<in>set (node_children n). entry_ok N (length (fb_names b1)) e"
    unfolding b1 by (rule ball_set_node) (use ent up new chd n b0 b1 in auto)
  have bnd: "entry_ok K M e \<Longrightarrow> nr_off (fst e) + unat (nr_len (fst e)) \<le> M" for K M e
    by (auto simp: entry_ok_def split: prod.splits)
  have "index_ok (fb_names b @ name) (n_kind q)" if q: "q \<in> set (fb_nodes b)" for q
  proof (rule index_grow)
    show "index_ok (fb_names b) (n_kind q)" using m q by (simp add: mid_inv_def indexes_ok_def)
    show "\<forall>e\<in>set (node_children q). nr_off (fst e) + unat (nr_len (fst e)) \<le> length (fb_names b)"
      using ent q bnd by blast
  qed simp
  then have "\<forall>n\<in>set (fb_nodes b0). index_ok (fb_names b @ name) (n_kind n)" by (simp add: b0)
  moreover have "index_ok (fb_names b) (Dir children index)"
    using m d k by (auto simp: mid_inv_def indexes_ok_def dest!: bspec [of _ _ "fb_nodes b ! dir"])
  then have "index_ok (fb_names b @ name) (n_kind n)"
  proof -
    assume ix: "index_ok (fb_names b) (Dir children index)"
    have "\<forall>e\<in>set children. nr_off (fst e) + unat (nr_len (fst e)) \<le> length (fb_names b)"
      using chd bnd by blast
    moreover have "name_of (fb_names b @ name) (fresh_ref name b) = name"
      using k(3) by (simp add: name_valid_def name_of_fresh)
    ultimately show ?thesis unfolding n_def using index_extend [OF ix k(2)] by simp
  qed
  ultimately show "indexes_ok b1"
    unfolding indexes_ok_def b1 using ball_set_node [of b0 "\<lambda>n. index_ok (fb_names b @ name) (n_kind n)" n dir]
    by (simp add: b0)
qed

lemma refs_none: "entries_ok b \<Longrightarrow> length (fb_nodes b) \<le> c \<Longrightarrow> refs b c = 0"
proof -
  assume e: "entries_ok b" and c: "length (fb_nodes b) \<le> c"
  have "count_list (node_live n) c = 0" if "n \<in> set (fb_nodes b)" for n
  proof -
    obtain p where "p < length (fb_nodes b)" "n = fb_nodes b ! p" using \<open>n \<in> _\<close> by (auto simp: in_set_conv_nth)
    then have "c \<notin> set (node_live n)" using entries_live [OF e, of p c] c by auto
    then show ?thesis by (simp add: count_list_0_iff)
  qed
  then show ?thesis by (simp add: refs_def)
qed

definition kind_fresh :: "node_kind \<Rightarrow> bool" where
  "kind_fresh k \<longleftrightarrow> (case k of Dir children index \<Rightarrow> children = [] \<and> index = Map.empty | _ \<Rightarrow> True)"

lemma declare_inv:
  fixes m :: meta
  assumes inv: "builder_inv strict b" and d: "dir < length (fb_nodes b)"
    and k: "n_kind (fb_nodes b ! dir) = Dir children index" "index name = None" "name_valid name"
    and f: "kind_fresh kind"
  defines "b1 \<equiv> entry_added dir children index name (length (fb_nodes b)) b"
  defines "b2 \<equiv> (push_node kind m b1)\<lparr>fb_declared_bytes := fb_declared_bytes b + kind_size kind\<rparr>"
  shows "builder_inv strict b2"
proof -
  let ?L = "length (fb_nodes b)"
  have mi: "mid_inv strict [] [] b" using inv by (simp add: builder_inv_def)
  have L: "?L \<noteq> 0" "?L < Suc ?L" "?L \<le> Suc ?L" using d by auto
  note p = entry_added_parts [OF inv d k L, folded b1_def]
  define nn where "nn = \<lparr>n_kind = kind, n_meta = m, n_nlink = 1\<rparr>"
  have nn: "node_live nn = []" "node_children nn = []" "n_nlink nn = 1" "node_bytes nn = kind_size kind"
    "index_ok names kind" for names
    using f by (auto simp: nn_def node_live_def node_children_def node_bytes_def kind_fresh_def
        index_ok_def live_at_def split: node_kind.splits)
  have b2: "fb_nodes b2 = fb_nodes b1 @ [nn]" "fb_names b2 = fb_names b @ name" "fb_xattrs b2 = fb_xattrs b"
    "fb_declared_bytes b2 = fb_declared_bytes b + kind_size kind"
    using p(2,3) by (simp_all add: b2_def push_node_def nn_def)
  have len: "length (fb_nodes b2) = Suc ?L" using b2 p(1) by simp
  have nx: "fb_nodes b2 ! x = (if x = ?L then nn else fb_nodes b1 ! x)" if "x \<le> ?L" for x
    using that p(1) by (auto simp: b2 nth_append)
  have r: "refs b2 x = refs b x + (if x = ?L then 1 else 0)" for x
    using p(5) [of x] nn by (simp add: refs_def b2)
  have r0: "refs b ?L = 0" using mi by (simp add: mid_inv_def refs_none)
  have l: "links_ok [] [] b" using mi by (simp add: mid_inv_def)
  have "links_ok [] [] b2"
    unfolding links_ok_def len
  proof (intro conjI allI impI ballI)
    fix x assume "x < Suc ?L"
    then consider "x = ?L" | "x < ?L" by linarith
    then have "(is_dir (fb_nodes b2 ! x) \<longrightarrow> refs b2 x \<le> 1) \<and>
      n_nlink (fb_nodes b2 ! x) = refs b2 x + (if x = 0 then 1 else 0)"
    proof cases
      case 1
      then show ?thesis using nx [of ?L] nn r r0 L by simp
    next
      case 2
      then show ?thesis using nx [of x] p(9) [OF 2] r [of x] l by (simp add: links_ok_def)
    qed
    then show "is_dir (fb_nodes b2 ! x) \<Longrightarrow> refs b2 x + count_list [] x + count_list [] x \<le> 1"
      "n_nlink (fb_nodes b2 ! x) = refs b2 x + count_list [] x + (if x = 0 then 1 else 0)" by auto
  qed auto
  moreover have "entries_ok b2"
    using p(1,2,6) nn by (simp add: entries_ok_def b2)
  moreover have "indexes_ok b2" using p(2,7) nn by (simp add: indexes_ok_def b2 nn_def)
  moreover have "order_ok b2"
    unfolding order_ok_def len
  proof (intro allI impI ballI)
    fix x c assume x: "x < Suc ?L" and c: "c \<in> set (node_live (fb_nodes b2 ! x))" "c < Suc ?L"
      and dc: "is_dir (fb_nodes b2 ! c)"
    have x': "x < ?L" using c nx [of ?L] nn x by (cases "x = ?L") auto
    show "x < c"
    proof (cases "c = ?L")
      case False
      then have "c < ?L" using c by simp
      then have "is_dir (fb_nodes b ! c)" "c \<in> set (node_live (fb_nodes b ! x))"
        using dc nx [of c] nx [of x] p(9) [of c] p(10) [OF x'] c(1) x' by (auto split: if_splits)
      then show ?thesis using mi x' \<open>c < ?L\<close> by (simp add: mid_inv_def order_ok_def)
    qed (use x' in simp)
  qed
  moreover have "root_ok b2"
    using mi nx [of 0] p(9) [of 0] d len by (auto simp: mid_inv_def root_ok_def)
  moreover have "xattrs_ok b2" using mi by (force simp: mid_inv_def xattrs_ok_def len b2(3))
  moreover have "strict \<longrightarrow> declared_ok b2"
    using mi p(8) nn(4) by (simp add: mid_inv_def declared_ok_def b2)
  ultimately show ?thesis by (simp add: builder_inv_def mid_inv_def)
qed

lemma declare_done:
  assumes inv: "builder_inv strict b" and f: "kind_fresh kind"
  obtains (err) e where "add_entry dir name (length (fb_nodes b)) b = (Inl (Err e), b)"
  | (ok) b1 where "add_entry dir name (length (fb_nodes b)) b = (Inr (), b1)"
      "fb_declared_bytes b1 = fb_declared_bytes b"
      "\<And>m. builder_inv strict
        ((push_node kind m b1)\<lparr>fb_declared_bytes := fb_declared_bytes b + kind_size kind\<rparr>)"
proof (rule add_entry_cases [of dir name "length (fb_nodes b)" b])
  fix children index
  assume a: "dir < length (fb_nodes b)" "n_kind (fb_nodes b ! dir) = Dir children index"
    "index name = None" "name_valid name"
    "add_entry dir name (length (fb_nodes b)) b = (Inr (), entry_added dir children index name (length (fb_nodes b)) b)"
  then have "fb_declared_bytes (entry_added dir children index name (length (fb_nodes b)) b) = fb_declared_bytes b"
    by (simp add: entry_added_def set_dir_def)
  then show ?thesis using ok a declare_inv [OF inv a(1-4) f] by blast
qed (use err in blast)

lemma builder_inv_new: "FsBuilder_new opts = Inr b \<Longrightarrow> builder_inv True b"
  by (auto simp: FsBuilder_new_def builder_inv_def mid_inv_def root_ok_def entries_ok_def indexes_ok_def
      order_ok_def links_ok_def xattrs_ok_def declared_ok_def node_bytes_def is_dir_def node_children_def
      index_ok_def live_at_def refs_def node_live_def split: if_splits)

lemma builder_inv_weaken: "builder_inv strict b \<Longrightarrow> builder_inv False b"
  by (simp add: builder_inv_def mid_inv_def)

lemma hardlink_inv:
  assumes inv: "builder_inv strict b"
  shows "(\<exists>b'. fb_hardlink dir name t b = (Inr (), b') \<and>
      builder_inv (strict \<and> 0 < n_nlink (fb_nodes b ! t)) b') \<or>
    (\<exists>e. fb_hardlink dir name t b = (Inl (Err e), b))"
proof (cases "t < length (fb_nodes b) \<and> \<not> is_dir (fb_nodes b ! t) \<and> n_nlink (fb_nodes b ! t) < unat LINK_MAX")
  case False
  then show ?thesis by (auto simp: fb_hardlink_def failS_def invalid_def)
next
  case True
  then have t: "t < length (fb_nodes b)" "\<not> is_dir (fb_nodes b ! t)"
    and hl: "fb_hardlink dir name t b = bindS (add_entry dir name t)
      (\<lambda>_. modifyS (\<lambda>b. set_nlink t (n_nlink (fb_nodes b ! t) + 1) b)) b"
    by (simp_all add: fb_hardlink_def)
  show ?thesis
  proof (rule add_entry_cases [of dir name t b])
    fix e assume "add_entry dir name t b = (Inl (Err e), b)"
    then show ?thesis by (simp add: hl call_defs)
  next
    fix children index
    assume a: "dir < length (fb_nodes b)" "n_kind (fb_nodes b ! dir) = Dir children index"
      "index name = None" "name_valid name"
      "add_entry dir name t b = (Inr (), entry_added dir children index name t b)"
    have mi: "mid_inv strict [] [] b" using inv by (simp add: builder_inv_def)
    have t0: "t \<noteq> 0" using mi t by (metis mid_inv_def root_ok_def)
    define b1 where "b1 = entry_added dir children index name t b"
    note p = entry_added_parts [OF inv a(1-4) t0 t(1) order_refl, folded b1_def]
    define k where "k = n_nlink (fb_nodes b ! t) + 1"
    define b2 where "b2 = set_nlink t k b1"
    have t1: "t < length (fb_nodes b1)" using t p(1) by simp
    have sk: "same_kinds b1 b2" using t1 by (simp add: b2_def same_kinds_nlink)
    have hb: "fb_hardlink dir name t b = (Inr (), b2)"
      using a(5) p(9) [OF t(1)] by (simp add: hl call_defs b2_def k_def b1_def)
    have nx: "fb_nodes b2 ! x = (if x = t then (fb_nodes b1 ! t)\<lparr>n_nlink := k\<rparr> else fb_nodes b1 ! x)"
      if "x < length (fb_nodes b)" for x
      using that p(1) by (simp add: b2_def set_nlink_set_node nth_set_node)
    have l: "links_ok [] [] b" using mi by (simp add: mid_inv_def)
    have "links_ok [] [] b2"
      unfolding links_ok_def same_kinds_nth(1) [OF sk] p(1)
    proof (intro conjI allI impI ballI)
      fix x assume x: "x < length (fb_nodes b)"
      have r: "refs b2 x = refs b x + (if x = t then 1 else 0)"
        using same_kinds_static(6) [OF sk] p(5) by simp
      have d: "is_dir (fb_nodes b2 ! x) = is_dir (fb_nodes b ! x)"
        using nx [OF x] p(9) [OF x] by (cases "x = t") (simp_all add: is_dir_def)
      { assume "is_dir (fb_nodes b2 ! x)"
        then show "refs b2 x + count_list [] x + count_list [] x \<le> 1"
          using r d l x t by (auto simp: links_ok_def) }
      { show "n_nlink (fb_nodes b2 ! x) = refs b2 x + count_list [] x + (if x = 0 then 1 else 0)"
          using r nx [OF x] p(9) [OF x] l x t0 by (auto simp: links_ok_def k_def) }
    qed auto
    moreover have "root_ok b1" using mi p(1) p(9) [of 0] a(1)
      by (auto simp: mid_inv_def root_ok_def simp flip: length_greater_0_conv)
    moreover have "entries_ok b1" using p(1,6) by (simp add: entries_ok_def)
    moreover have "order_ok b1"
      using mi p(1,9,10) t(2) unfolding mid_inv_def order_ok_def by (auto split: if_splits)
    moreover have "xattrs_ok b1" using mi p(1,3) by (simp add: mid_inv_def xattrs_ok_def)
    moreover have "declared_ok b2" if "declared_ok b" "0 < n_nlink (fb_nodes b ! t)"
    proof -
      have nb: "n_nlink (fb_nodes b1 ! t) = n_nlink (fb_nodes b ! t)" using p(9) [OF t(1)] by simp
      have "sum_list (map node_bytes (fb_nodes b2)) = sum_list (map node_bytes (fb_nodes b1))"
        using declared_nlink [OF t1, of k] that(2) nb by (simp add: b2_def node_bytes_def k_def)
      then show ?thesis using that(1) p(4,8) by (simp add: declared_ok_def b2_def set_nlink_def)
    qed
    ultimately have "mid_inv (strict \<and> 0 < n_nlink (fb_nodes b ! t)) [] [] b2"
      using mi p(7) same_kinds_static [OF sk] by (auto simp: mid_inv_def)
    then show ?thesis using hb by (simp add: builder_inv_def)
  qed
qed

lemma set_meta_inv:
  assumes inv: "builder_inv strict b"
  shows "(\<exists>b'. fb_set_meta h m b = (Inr (), b') \<and> builder_inv strict b') \<or>
    (\<exists>e. fb_set_meta h m b = (Inl (Err e), b))"
proof (cases "h < length (fb_nodes b)")
  case True
  define n where "n = (fb_nodes b ! h)\<lparr>n_meta := m\<rparr>"
  define b1 where "b1 = set_node h n b"
  have n: "n_kind n = n_kind (fb_nodes b ! h)" "n_nlink n = n_nlink (fb_nodes b ! h)" by (simp_all add: n_def)
  have kinds: "map n_kind (fb_nodes b1) = map n_kind (fb_nodes b)"
    "map n_nlink (fb_nodes b1) = map n_nlink (fb_nodes b)"
    "map node_bytes (fb_nodes b1) = map node_bytes (fb_nodes b)"
    using True n by (simp_all add: b1_def set_node_def map_update list_update_same_conv node_bytes_def)
  have nth: "n_kind (fb_nodes b1 ! x) = n_kind (fb_nodes b ! x)" "n_nlink (fb_nodes b1 ! x) = n_nlink (fb_nodes b ! x)"
    if "x < length (fb_nodes b)" for x
    using that n by (simp_all add: b1_def nth_set_node)
  have len: "length (fb_nodes b1) = length (fb_nodes b)" by (simp add: b1_def)
  have d: "is_dir (fb_nodes b1 ! x) = is_dir (fb_nodes b ! x)" if "x < length (fb_nodes b)" for x
    using nth(1) [OF that] by (rule is_dir_kind)
  have lv: "node_live (fb_nodes b1 ! x) = node_live (fb_nodes b ! x)" if "x < length (fb_nodes b)" for x
    using nth(1) [OF that] by (rule node_live_kind)
  have ch: "node_children (fb_nodes b1 ! x) = node_children (fb_nodes b ! x)" if "x < length (fb_nodes b)" for x
    using nth(1) [OF that] by (simp add: node_children_def)
  have rf: "refs b1 x = refs b x" for x
  proof -
    have "map (\<lambda>n. count_list (node_live n) x) (fb_nodes b1) = map (\<lambda>n. count_list (node_live n) x) (fb_nodes b)"
      using len lv by (intro nth_equalityI) auto
    then show ?thesis by (simp add: refs_def)
  qed
  have "fb_names b1 = fb_names b" "fb_xattrs b1 = fb_xattrs b" "fb_declared_bytes b1 = fb_declared_bytes b"
    by (simp_all add: b1_def)
  then have "mid_inv strict [] [] b1"
    using inv len d lv ch rf nth kinds(3) True
    by (auto simp: builder_inv_def mid_inv_def root_ok_def entries_ok_def indexes_ok_def order_ok_def
        links_ok_def xattrs_ok_def declared_ok_def all_set_conv_all_nth simp flip: length_greater_0_conv)
  then show ?thesis using True by (simp add: fb_set_meta_def builder_inv_def b1_def n_def set_node_def)
qed (simp add: fb_set_meta_def invalid_def)

lemma attr_put_keys:
  "(\<lambda>(i, n, _). (i, n)) ` set (attr_put index suffix v l) =
    insert (index, suffix) ((\<lambda>(i, n, _). (i, n)) ` set l)"
  by (induction index suffix v l rule: attr_put.induct) auto

lemma attr_put_ok:
  "attrs_ok l \<Longrightarrow> length suffix \<le> 255 \<Longrightarrow> attrs_ok (attr_put index suffix v l)"
proof (induction index suffix v l rule: attr_put.induct)
  case (1 index suffix v)
  then show ?case by (simp add: attrs_ok_def)
next
  case (2 index suffix v i n w l)
  have ok: "attrs_ok l" "(i, n) \<notin> (\<lambda>(i, n, _). (i, n)) ` set l" "length n \<le> 255"
    using 2(2) by (auto simp: attrs_ok_def)
  show ?case
  proof (cases "i = index \<and> n = suffix")
    case True
    then show ?thesis using 2(2) by (simp add: attrs_ok_def)
  next
    case False
    then have "attrs_ok (attr_put index suffix v l)" using 2(1) ok 2(3) by blast
    then show ?thesis using False ok attr_put_keys [of index suffix v l] by (auto simp: attrs_ok_def)
  qed
qed

lemma set_xattr_inv:
  assumes inv: "builder_inv strict b"
  shows "(\<exists>b'. fb_set_xattr h name v b = (Inr (), b') \<and> builder_inv strict b') \<or>
    (\<exists>e. fb_set_xattr h name v b = (Inl (Err e), b))"
proof (cases "h < length (fb_nodes b)")
  case h: True
  show ?thesis
  proof (cases "xattr_namespace name")
    case (Some p)
    obtain index suffix where p: "p = (index, suffix)" by (cases p)
    show ?thesis
    proof (cases "length suffix > 255")
      case False
      define l where "l = (case fb_xattrs b h of Some l \<Rightarrow> l | None \<Rightarrow> [])"
      have "attrs_ok []" by (simp add: attrs_ok_def)
      then have "attrs_ok l"
        using inv by (auto simp: l_def builder_inv_def mid_inv_def xattrs_ok_def split: option.splits)
      then have ok: "attrs_ok (attr_put index suffix v l)" using False by (intro attr_put_ok) auto
      define b1 where "b1 = b\<lparr>fb_xattrs := (fb_xattrs b)(h \<mapsto> attr_put index suffix v l)\<rparr>"
      have "builder_inv strict b1"
        using inv ok h unfolding builder_inv_def mid_inv_def
        by (auto simp: b1_def root_ok_def entries_ok_def indexes_ok_def order_ok_def links_ok_def
            declared_ok_def refs_def xattrs_ok_def)
      then show ?thesis using h Some p False by (simp add: fb_set_xattr_def b1_def l_def Let_def)
    qed (use h Some p in \<open>simp add: fb_set_xattr_def failS_def invalid_def\<close>)
  qed (use h in \<open>simp add: fb_set_xattr_def failS_def invalid_def\<close>)
qed (simp add: fb_set_xattr_def failS_def invalid_def)

section \<open>All calls, and what can be reached\<close>

datatype builder_call =
    CMkdir handle bytes meta
  | CFile handle bytes meta nat
  | CFileSparse handle bytes meta "sparse_seg list"
  | CSymlink handle bytes bytes meta
  | CMknod handle bytes meta special_kind
  | CSetXattr handle bytes bytes
  | CHardlink handle bytes handle
  | CSetMeta handle meta
  | CRemove handle bytes

definition ignoreS :: "('s, 'a) call \<Rightarrow> ('s, unit) call" where
  "ignoreS f = bindS f (\<lambda>_. returnS ())"

fun run_call :: "builder_call \<Rightarrow> (fs_builder, unit) call" where
  "run_call (CMkdir p nm m) = ignoreS (fb_mkdir p nm m)"
| "run_call (CFile p nm m sz) = ignoreS (fb_file p nm m sz)"
| "run_call (CFileSparse p nm m segs) = ignoreS (fb_file_sparse p nm m segs)"
| "run_call (CSymlink p nm t m) = ignoreS (fb_symlink p nm t m)"
| "run_call (CMknod p nm m k) = ignoreS (fb_mknod p nm m k)"
| "run_call (CSetXattr h nm v) = fb_set_xattr h nm v"
| "run_call (CHardlink p nm t) = fb_hardlink p nm t"
| "run_call (CSetMeta h m) = fb_set_meta h m"
| "run_call (CRemove d nm) = fb_remove d nm"

text \<open>A disciplined client does not give a new name to a node whose last name it removed.\<close>

fun disciplined :: "builder_call \<Rightarrow> fs_builder \<Rightarrow> bool" where
  "disciplined (CHardlink p nm t) b \<longleftrightarrow> (t < length (fb_nodes b) \<longrightarrow> 0 < n_nlink (fb_nodes b ! t))"
| "disciplined _ b \<longleftrightarrow> True"

text \<open>The bytes a call declares; their total must stay below \<open>2\<^sup>6\<^sup>4\<close>.\<close>

fun call_bytes :: "builder_call \<Rightarrow> nat" where
  "call_bytes (CFile p nm m sz) = sz"
| "call_bytes (CFileSparse p nm m segs) = sum_list (map seg_len segs)"
| "call_bytes _ = 0"

lemma sparse_segs_size:
  "sparse_segs ds off segs = Inr (ds', off') \<Longrightarrow> off' = off + sum_list (map seg_len segs)"
proof (induction segs arbitrary: ds off)
  case (Cons seg segs)
  then obtain ds1 where "sparse_segs ds1 (off + seg_len seg) segs = Inr (ds', off')"
    by (auto simp: Let_def split: if_splits)
  from Cons.IH [OF this] show ?case by simp
qed simp

lemma sparse_segs_panic:
  "sparse_segs ds off segs = Inl Panic \<Longrightarrow> 2 ^ 64 \<le> off + sum_list (map seg_len segs)"
proof (induction segs arbitrary: ds off)
  case (Cons seg segs)
  show ?case
  proof (cases "off + seg_len seg < 2 ^ 64")
    case True
    then obtain ds1 where "sparse_segs ds1 (off + seg_len seg) segs = Inl Panic"
      using Cons.prems by (auto simp: Let_def invalid_def split: if_splits)
    from Cons.IH [OF this] show ?thesis by simp
  qed simp
qed simp

definition call_ok :: "bool \<Rightarrow> nat \<Rightarrow> fs_builder \<Rightarrow> 'a res \<times> fs_builder \<Rightarrow> bool" where
  "call_ok strict tot b res \<longleftrightarrow>
    (\<exists>x b'. res = (Inr x, b') \<and> builder_inv strict b') \<or> (\<exists>e. res = (Inl (Err e), b)) \<or>
    ((\<not> strict \<or> 2 ^ 64 \<le> tot) \<and> (\<exists>b'. res = (Inl Panic, b')))"

lemma declare_call:
  assumes inv: "builder_inv strict b" and f: "kind_fresh kind" "kind_size kind = sz"
  shows "call_ok strict (fb_declared_bytes b + sz) b
    (bindS (add_entry dir name (length (fb_nodes b))) (\<lambda>_. bindS (modifyS (push_node kind m)) (\<lambda>_.
      bindS (add_declared sz) (\<lambda>_. returnS (length (fb_nodes b))))) b)"
proof (rule declare_done [OF inv f(1), of dir name])
  fix b1
  assume a: "add_entry dir name (length (fb_nodes b)) b = (Inr (), b1)"
    and d: "fb_declared_bytes b1 = fb_declared_bytes b"
    and i: "\<And>m. builder_inv strict
        ((push_node kind m b1)\<lparr>fb_declared_bytes := fb_declared_bytes b + kind_size kind\<rparr>)"
  have "fb_declared_bytes (push_node kind m b1) = fb_declared_bytes b" using d by (simp add: push_node_def)
  then show ?thesis using a i [of m] f(2)
    by (cases "fb_declared_bytes b + sz < 2 ^ 64") (simp_all add: call_ok_def call_defs add_declared_def)
qed (simp add: call_ok_def call_defs)

lemma declare_call0:
  assumes inv: "builder_inv strict b" and f: "kind_fresh kind" "kind_size kind = 0"
  shows "call_ok strict 0 b
    (bindS (add_entry dir name (length (fb_nodes b))) (\<lambda>_. bindS (modifyS (push_node kind m)) (\<lambda>_.
      returnS (length (fb_nodes b)))) b)"
proof (rule declare_done [OF inv f(1), of dir name])
  fix b1
  assume a: "add_entry dir name (length (fb_nodes b)) b = (Inr (), b1)"
    and d: "fb_declared_bytes b1 = fb_declared_bytes b"
    and i: "\<And>m. builder_inv strict
        ((push_node kind m b1)\<lparr>fb_declared_bytes := fb_declared_bytes b + kind_size kind\<rparr>)"
  have "(push_node kind m b1)\<lparr>fb_declared_bytes := fb_declared_bytes b\<rparr> = push_node kind m b1"
    using d by (simp add: push_node_def)
  then show ?thesis using a i [of m] f(2) by (simp add: call_ok_def call_defs)
qed (simp add: call_ok_def call_defs)

lemma call_ok_ignore: "call_ok strict t b (f b) \<Longrightarrow> call_ok strict t b (ignoreS f b)"
  by (auto simp: call_ok_def ignoreS_def call_defs)

lemma call_ok_mono: "call_ok strict t b r \<Longrightarrow> t \<le> t' \<Longrightarrow> call_ok strict t' b r"
  by (auto simp: call_ok_def)

theorem run_call_ok:
  assumes inv: "builder_inv strict b"
  shows "call_ok (strict \<and> disciplined c b) (fb_declared_bytes b + call_bytes c) b (run_call c b)"
proof (cases c)
  case (CMkdir p nm m)
  have "call_ok strict (fb_declared_bytes b) b (fb_mkdir p nm m b)"
    using call_ok_mono [OF declare_call0 [OF inv, of "Dir [] Map.empty" p nm m]]
    by (simp add: kind_fresh_def fb_mkdir_def Let_def)
  then show ?thesis using call_ok_ignore [of strict _ b "fb_mkdir p nm m"] CMkdir by simp
next
  case (CFile p nm m sz)
  have "call_ok strict (fb_declared_bytes b + sz) b (fb_file p nm m sz b)"
    using declare_call [OF inv, of "File sz" sz p nm m]
    by (simp add: kind_fresh_def fb_file_def Let_def)
  then show ?thesis using call_ok_ignore [of strict _ b "fb_file p nm m sz"] CFile by simp
next
  case (CHardlink p nm t)
  show ?thesis unfolding CHardlink
    using hardlink_inv [OF inv, of p nm t] by (auto simp: call_ok_def fb_hardlink_def failS_def)
next
  case (CSetMeta h m)
  then show ?thesis using set_meta_inv [OF inv, of h m] by (auto simp: call_ok_def)
next
  case (CSetXattr h nm v)
  then show ?thesis using set_xattr_inv [OF inv, of h nm v] by (auto simp: call_ok_def)
next
  case (CRemove d nm)
  then show ?thesis using fb_remove_inv [OF inv, of d nm] by (auto simp: call_ok_def)
next
  case (CSymlink p nm t m)
  have "call_ok strict (fb_declared_bytes b) b (fb_symlink p nm t m b)"
    using call_ok_mono [OF declare_call0 [OF inv, of "Symlink t" p nm m]]
    by (auto simp: kind_fresh_def fb_symlink_def Let_def call_ok_def failS_def invalid_def)
  then show ?thesis using call_ok_ignore [of strict _ b "fb_symlink p nm t m"] CSymlink by simp
next
  case (CMknod p nm m k)
  obtain ft ma mi where k: "(case k of Char major minor \<Rightarrow> (ft_CHR, major, minor)
    | Block major minor \<Rightarrow> (ft_BLK, major, minor) | Fifo \<Rightarrow> (ft_FIFO, 0, 0) | Socket \<Rightarrow> (ft_SOCK, 0, 0)) = (ft, ma, mi)"
    by (metis prod_cases3)
  have "call_ok strict (fb_declared_bytes b) b (fb_mknod p nm m k b)"
    unfolding fb_mknod_def k
    using call_ok_mono [OF declare_call0 [OF inv, of "Special ft ma mi" p nm m]]
    by (auto simp: kind_fresh_def Let_def call_ok_def failS_def invalid_def)
  then show ?thesis using call_ok_ignore [of strict _ b "fb_mknod p nm m k"] CMknod by simp
next
  case (CFileSparse p nm m segs)
  have "call_ok strict (fb_declared_bytes b + sum_list (map seg_len segs)) b (fb_file_sparse p nm m segs b)"
  proof (cases "sparse_segs [] 0 segs")
    case (Inl f)
    have "(\<exists>e. f = Err e) \<or> 2 ^ 64 \<le> sum_list (map seg_len segs)"
      using Inl sparse_segs_panic [of "[]" 0 segs] by (cases f) auto
    then show ?thesis using Inl by (cases f) (auto simp: fb_file_sparse_def call_defs call_ok_def)
  next
    case (Inr r)
    obtain ds sz where r: "r = (ds, sz)" by (cases r)
    have "sz = sum_list (map seg_len segs)" using sparse_segs_size [of "[]" 0 segs ds sz] Inr r by simp
    moreover have "fb_file_sparse p nm m segs b =
      bindS (add_entry p nm (length (fb_nodes b))) (\<lambda>_. bindS (modifyS (push_node (Sparse ds sz) m)) (\<lambda>_.
      bindS (add_declared sz) (\<lambda>_. returnS (length (fb_nodes b))))) b"
      using Inr r by (simp add: fb_file_sparse_def bindS_def [of "readS _"] readS_def Let_def)
    ultimately show ?thesis using declare_call [OF inv, of "Sparse ds sz" sz p nm m]
      by (simp add: kind_fresh_def)
  qed
  then show ?thesis using call_ok_ignore [of strict _ b "fb_file_sparse p nm m segs"] CFileSparse by simp
qed

end
