(* ===== verification/BuilderSpec.thy ===== *)
theory BuilderSpec
  imports BuilderInv
begin

text \<open>
  The builder against its abstract view, a map from directories and names to slots: which names
  each call adds and which it takes away, and what every sequence of calls preserves.
\<close>

section \<open>Sequences of calls\<close>

fun run_calls :: "builder_call list \<Rightarrow> (fs_builder, unit) call" where
  "run_calls [] b = (Inr (), b)"
| "run_calls (c # cs) b =
    (case run_call c b of
       (Inl Panic, b') \<Rightarrow> (Inl Panic, b')
     | (_, b') \<Rightarrow> run_calls cs b')"

text \<open>
  A client goes on after an error value but not after a panic. With \<open>strict\<close>, it never links a
  node that has lost its last name.
\<close>

inductive builder_reachable :: "bool \<Rightarrow> options \<Rightarrow> fs_builder \<Rightarrow> bool" for strict opts where
  init: "FsBuilder_new opts = Inr b \<Longrightarrow> builder_reachable strict opts b"
| step: "builder_reachable strict opts b \<Longrightarrow> strict \<longrightarrow> disciplined c b \<Longrightarrow>
    run_call c b = (r, b') \<Longrightarrow> r \<noteq> Inl Panic \<Longrightarrow> builder_reachable strict opts b'"

inductive_cases builder_reachableE: "builder_reachable strict opts b"

lemma reachable_inv: "builder_reachable strict opts b \<Longrightarrow> builder_inv strict b"
proof (induction rule: builder_reachable.induct)
  case (init b)
  then show ?case using builder_inv_new [OF init] by (cases strict) (auto dest: builder_inv_weaken)
next
  case (step b c r b')
  then have s: "(strict \<and> disciplined c b) = strict" by auto
  from run_call_ok [OF step.IH, of c] show ?case
    using step unfolding s by (auto simp: call_ok_def)
qed

lemma run_calls_reachable:
  "builder_reachable False opts b \<Longrightarrow> run_calls cs b = (r, b') \<Longrightarrow> r \<noteq> Inl Panic \<Longrightarrow>
   builder_reachable False opts b'"
proof (induction cs arbitrary: b)
  case (Cons c cs)
  obtain r1 b1 where c: "run_call c b = (r1, b1)" by (cases "run_call c b")
  then have "r1 \<noteq> Inl Panic" "run_calls cs b1 = (r, b')"
    using Cons.prems(2,3) by (auto split: sum.splits fault.splits)
  then show ?case using Cons.IH [OF builder_reachable.step [OF Cons.prems(1) _ c]] Cons.prems(3) by simp
qed simp

text \<open>Running concrete calls by simplification.\<close>

lemmas call_eval = fb_mkdir_def fb_file_def fb_remove_def fb_hardlink_def fb_unlink_def add_entry_def
  call_defs check_duplicate_def intern_def dir_parts_def set_dir_def push_node_def add_declared_def
  remove_subtree_def is_dir_def set_nlink_def ignoreS_def Let_def failS_def invalid_def ascii_def of_char_def

section \<open>The name map\<close>

definition lookup :: "fs_builder \<Rightarrow> nat \<Rightarrow> bytes \<Rightarrow> nat option" where
  "lookup b d nm =
    (if d < length (fb_nodes b) then
       (case n_kind (fb_nodes b ! d) of
          Dir children index \<Rightarrow> map_option (\<lambda>i. fst (snd (children ! i))) (index nm)
        | _ \<Rightarrow> None)
     else None)"

lemma lookup_kind:
  "d < length (fb_nodes b) \<Longrightarrow> d < length (fb_nodes b') \<Longrightarrow>
   n_kind (fb_nodes b' ! d) = n_kind (fb_nodes b ! d) \<Longrightarrow> lookup b' d = lookup b d"
  by (simp add: lookup_def fun_eq_iff)

lemma lookup_out: "length (fb_nodes b) \<le> d \<Longrightarrow> lookup b d = Map.empty"
  by (simp add: lookup_def fun_eq_iff)

lemma lookup_set_node:
  "lookup (set_node s n b) d = (if d = s \<and> s < length (fb_nodes b) then
     (\<lambda>nm. case n_kind n of Dir children index \<Rightarrow> map_option (\<lambda>i. fst (snd (children ! i))) (index nm) | _ \<Rightarrow> None)
   else lookup b d)"
  by (auto simp: lookup_def set_node_def fun_eq_iff)

text \<open>The live children of a directory are the values of its name map.\<close>

lemma lookup_live:
  assumes "builder_inv strict b" "d < length (fb_nodes b)"
  shows "ran (lookup b d) = set (node_live (fb_nodes b ! d))"
proof (cases "n_kind (fb_nodes b ! d)")
  case (Dir children index)
  have "index_ok (fb_names b) (Dir children index)"
    using assms Dir by (auto simp: builder_inv_def mid_inv_def indexes_ok_def dest!: bspec [of _ _ "fb_nodes b ! d"])
  then have ix: "index nm = Some i \<longleftrightarrow> live_at (fb_names b) children i nm" for nm i by (simp add: index_ok_def)
  have "c \<in> ran (lookup b d) \<longleftrightarrow> (\<exists>i nm. live_at (fb_names b) children i nm \<and> fst (snd (children ! i)) = c)" for c
    using assms(2) Dir by (auto simp: ran_def lookup_def ix)
  moreover have "c \<in> set (live_children children) \<longleftrightarrow>
      (\<exists>i nm. live_at (fb_names b) children i nm \<and> fst (snd (children ! i)) = c)" for c
    by (auto simp: set_live live_at_def in_set_conv_nth) (metis fst_conv snd_conv prod.collapse)+
  ultimately show ?thesis using Dir by (auto simp: node_live_def)
qed (use assms(2) in \<open>simp_all add: lookup_def node_live_def ran_def\<close>)

section \<open>Adding names\<close>

lemma lookup_entry_added:
  assumes inv: "builder_inv strict b" and d: "dir < length (fb_nodes b)"
    and k: "n_kind (fb_nodes b ! dir) = Dir children index" "index name = None"
  shows "lookup (entry_added dir children index name c b) = (lookup b)(dir := (lookup b dir)(name \<mapsto> c))"
proof -
  have ix: "index_ok (fb_names b) (Dir children index)"
    using inv d k by (auto simp: builder_inv_def mid_inv_def indexes_ok_def dest!: bspec [of _ _ "fb_nodes b ! dir"])
  then have "index nm = Some i \<Longrightarrow> i < length children" for nm i by (auto simp: index_ok_def live_at_def)
  then have "map_option (\<lambda>i. fst (snd ((children @ [e]) ! i))) (index nm) =
      map_option (\<lambda>i. fst (snd (children ! i))) (index nm)" for nm e
    by (cases "index nm") (auto simp: nth_append)
  moreover have "lookup (b\<lparr>fb_names := ns\<rparr>) = lookup b" for ns
    by (simp add: lookup_def fun_eq_iff)
  ultimately show ?thesis
    using d k by (auto simp: entry_added_def set_dir_set_node lookup_set_node fun_eq_iff lookup_def)
qed

lemma lookup_push:
  "kind_fresh kind \<Longrightarrow> lookup (push_node kind m b) d =
   (if d = length (fb_nodes b) then Map.empty else lookup b d)"
  by (auto simp: lookup_def push_node_def fun_eq_iff nth_append kind_fresh_def split: node_kind.splits)

lemma mkdir_lookup:
  assumes inv: "builder_inv strict b" and r: "fb_mkdir dir name m b = (Inr h, b')"
  shows "h = length (fb_nodes b) \<and> lookup b dir name = None \<and>
    lookup b' = (lookup b)(dir := (lookup b dir)(name \<mapsto> h), h := Map.empty)"
proof (rule add_entry_cases [of dir name "length (fb_nodes b)" b])
  fix e assume "add_entry dir name (length (fb_nodes b)) b = (Inl (Err e), b)"
  then show ?thesis using r by (simp add: fb_mkdir_def call_defs)
next
  fix children index
  assume a: "dir < length (fb_nodes b)" "n_kind (fb_nodes b ! dir) = Dir children index" "index name = None"
    "add_entry dir name (length (fb_nodes b)) b = (Inr (), entry_added dir children index name (length (fb_nodes b)) b)"
  define b1 where "b1 = entry_added dir children index name (length (fb_nodes b)) b"
  have len: "length (fb_nodes b1) = length (fb_nodes b)"
    by (simp add: b1_def entry_added_def set_dir_def)
  have h: "h = length (fb_nodes b)" and b': "b' = push_node (Dir [] Map.empty) m b1"
    using r a(4) by (auto simp: fb_mkdir_def call_defs b1_def Let_def)
  have "lookup b dir name = None" using a by (simp add: lookup_def)
  moreover have "lookup b' = (lookup b)(dir := (lookup b dir)(name \<mapsto> h), h := Map.empty)"
    unfolding b' using lookup_entry_added [OF inv a(1-3), of h] len
    by (simp add: fun_eq_iff lookup_push kind_fresh_def h b1_def)
  ultimately show ?thesis using h by simp
qed

section \<open>Taking names away\<close>

definition dir_edges :: "fs_builder \<Rightarrow> (nat \<times> nat) set" where
  "dir_edges b = {(p, c). p < length (fb_nodes b) \<and> c \<in> set (node_live (fb_nodes b ! p)) \<and>
     c < length (fb_nodes b) \<and> is_dir (fb_nodes b ! c)}"

text \<open>The directories in the subtrees of a set of directories.\<close>

definition subtree :: "fs_builder \<Rightarrow> nat set \<Rightarrow> nat set" where
  "subtree b S = (dir_edges b)\<^sup>* `` S"

definition cleared :: "node_kind \<Rightarrow> node_kind" where
  "cleared k = Dir (tombstone_all (dir_children k)) Map.empty"

lemma cleared_idem: "cleared (cleared k) = cleared k"
  by (simp add: cleared_def tombstone_all_def case_prod_beta comp_def)

lemma subtree_pop:
  assumes e: "dir_edges b' = {(p, c) \<in> dir_edges b. p \<noteq> s}"
    and K: "K = dir_edges b `` {s}"
  shows "subtree b (insert s S) = insert s (subtree b' (S \<union> K))"
proof
  show "subtree b (insert s S) \<subseteq> insert s (subtree b' (S \<union> K))"
  proof
    fix y assume "y \<in> subtree b (insert s S)"
    then obtain x where x: "x \<in> insert s S" "(x, y) \<in> (dir_edges b)\<^sup>*" by (auto simp: subtree_def)
    from x(2) show "y \<in> insert s (subtree b' (S \<union> K))"
    proof (induction rule: rtrancl_induct)
      case base
      then show ?case using x(1) by (auto simp: subtree_def)
    next
      case (step y z)
      show ?case
      proof (cases "y = s")
        case True
        then have "z \<in> K" using step.hyps(2) K by auto
        then show ?thesis by (auto simp: subtree_def)
      next
        case False
        then have "(y, z) \<in> dir_edges b'" using step.hyps(2) e by auto
        moreover have "y \<in> subtree b' (S \<union> K)" using step.IH False by simp
        ultimately show ?thesis by (auto simp: subtree_def intro: rtrancl_into_rtrancl)
      qed
    qed
  qed
  show "insert s (subtree b' (S \<union> K)) \<subseteq> subtree b (insert s S)"
  proof -
    have sub: "(dir_edges b')\<^sup>* \<subseteq> (dir_edges b)\<^sup>*" using e by (intro rtrancl_mono) auto
    have "subtree b' K \<subseteq> subtree b {s}"
    proof
      fix y assume "y \<in> subtree b' K"
      then obtain x where "x \<in> K" "(x, y) \<in> (dir_edges b')\<^sup>*" by (auto simp: subtree_def)
      then have "(s, x) \<in> dir_edges b" "(x, y) \<in> (dir_edges b)\<^sup>*" using K sub by auto
      then show "y \<in> subtree b {s}" by (auto simp: subtree_def intro: converse_rtrancl_into_rtrancl)
    qed
    moreover have "subtree b' S \<subseteq> subtree b S" using sub by (auto simp: subtree_def)
    moreover have "subtree b' (S \<union> K) = subtree b' S \<union> subtree b' K" "s \<in> subtree b {s}"
      "subtree b (insert s S) = subtree b {s} \<union> subtree b S"
      by (auto simp: subtree_def)
    ultimately show ?thesis by auto
  qed
qed

lemma remove_subtree_loop_kinds:
  "mid_inv strict stk [] b \<Longrightarrow> remove_subtree_loop stk b = (Inr (), b') \<Longrightarrow>
   length (fb_nodes b') = length (fb_nodes b) \<and>
   (\<forall>p<length (fb_nodes b). n_kind (fb_nodes b' ! p) =
      (if p \<in> subtree b (set stk) then cleared (n_kind (fb_nodes b ! p)) else n_kind (fb_nodes b ! p)))"
proof (induction stk b rule: remove_subtree_loop.induct)
  case (1 stk b)
  show ?case
  proof (cases "stk = []")
    case True
    then show ?thesis using 1(3) by (simp add: remove_subtree_loop.simps subtree_def)
  next
    case ne: False
    obtain children index where k: "n_kind (fb_nodes b ! last stk) = Dir children index"
      "last stk < length (fb_nodes b)"
      "mid_inv strict (butlast stk) (live_children children) (clear_dir (last stk) b)"
      using clear_dir_inv [OF 1(2) ne] by blast
    define s where "s = last stk"
    define b1 where "b1 = clear_dir s b"
    define kids where "kids = filter (\<lambda>c. is_dir (fb_nodes b1 ! c)) (live_children children)"
    note k = k [folded s_def, folded b1_def]
    have b1: "length (fb_nodes b1) = length (fb_nodes b)"
      "\<And>p. p < length (fb_nodes b) \<Longrightarrow> n_kind (fb_nodes b1 ! p) =
        (if p = s then cleared (n_kind (fb_nodes b ! p)) else n_kind (fb_nodes b ! p))"
      using k(2) by (auto simp: b1_def clear_dir_set_node nth_set_node cleared_def)
    have loop: "remove_subtree_loop stk b =
      (case visit_live (butlast stk) (live_children children) b1 of
         (Inl e, b') \<Rightarrow> (Inl e, b') | (Inr stk', b') \<Rightarrow> remove_subtree_loop stk' b')"
      by (subst remove_subtree_loop.simps) (use ne k in \<open>simp add: Let_def b1_def s_def\<close>)
    from visit_live_inv [OF k(3)] 1(3) obtain b2 where v: "visit_live (butlast stk) (live_children children) b1 =
        (Inr (butlast stk @ kids), b2)" "mid_inv strict (butlast stk @ kids) [] b2" "same_kinds b1 b2"
      by (auto simp: loop kids_def)
    have b': "remove_subtree_loop (butlast stk @ kids) b2 = (Inr (), b')" using 1(3) v by (simp add: loop)
    note IH = 1(1) [OF ne s_def _ k(1), unfolded b1_def [symmetric], OF _ v(1) [symmetric] refl v(2) b']
    note sk = same_kinds_nth [OF v(3)]
    have kind2: "n_kind (fb_nodes b2 ! p) =
        (if p = s then cleared (n_kind (fb_nodes b ! p)) else n_kind (fb_nodes b ! p))"
      if "p < length (fb_nodes b)" for p
      using that sk b1 by simp
    have dirs: "is_dir (fb_nodes b2 ! p) = is_dir (fb_nodes b ! p)" if "p < length (fb_nodes b)" for p
      using kind2 [OF that] k(1) by (auto simp: is_dir_def cleared_def)
    have lives: "node_live (fb_nodes b2 ! p) = (if p = s then [] else node_live (fb_nodes b ! p))"
      if "p < length (fb_nodes b)" for p
      using kind2 [OF that] by (auto simp: node_live_def cleared_def)
    have len: "length (fb_nodes b2) = length (fb_nodes b)" using sk(1) b1(1) by simp
    have e: "dir_edges b2 = {(p, c) \<in> dir_edges b. p \<noteq> s}"
      using lives dirs len by (auto simp: dir_edges_def split: if_splits)
    have lc: "c \<in> set (live_children children) \<Longrightarrow> c < length (fb_nodes b)" for c
      using k(3) b1(1) by (auto simp: mid_inv_def links_ok_def)
    have "is_dir (fb_nodes b1 ! p) = is_dir (fb_nodes b ! p)" if "p < length (fb_nodes b)" for p
      using b1(2) [OF that] k(1) by (auto simp: is_dir_def cleared_def)
    then have K: "set kids = dir_edges b `` {s}"
      using lc k(1,2) by (auto simp: kids_def dir_edges_def node_live_def)
    have st: "set stk = insert s (set (butlast stk))"
      using ne by (metis append_butlast_last_id list.set(2) rotate1.simps(2) s_def set_rotate1)
    have "subtree b (set stk) = insert s (subtree b2 (set (butlast stk @ kids)))"
      unfolding st using subtree_pop [OF e K] by simp
    then show ?thesis
      using IH k(2) len kind2 by (auto simp: cleared_idem)
  qed
qed

text \<open>
  Removing a name: a directory's whole subtree loses its names, everything else keeps them.
\<close>

lemma remove_lookup:
  assumes inv: "builder_inv strict b" and r: "fb_remove dir name b = (Inr (), b')"
  shows "\<exists>c. lookup b dir name = Some c \<and>
    lookup b' = (\<lambda>d. if is_dir (fb_nodes b ! c) \<and> d \<in> subtree b {c} then Map.empty
      else if d = dir then (lookup b dir)(name := None) else lookup b d)"
proof -
  obtain children index where k: "dir < length (fb_nodes b)" "n_kind (fb_nodes b ! dir) = Dir children index"
    using r by (auto simp: fb_remove_def call_defs dir_parts_Inr split: sum.splits prod.splits)
  then have dp: "dir_parts dir b = Inr (children, index)" by (simp add: dir_parts_Inr)
  obtain idx where i: "index name = Some idx"
    using r dp by (auto simp: fb_remove_def call_defs split: option.splits)
  define c where "c = fst (snd (children ! idx))"
  define b1 where "b1 = set_dir dir (children[idx := (fst (children ! idx), c, True)]) (index(name := None)) b"
  note bury = bury_inv [OF inv k i, folded c_def, folded b1_def]
  have e: "fb_remove dir name b = (if is_dir (fb_nodes b1 ! c) then remove_subtree c b1 else fb_unlink c b1)"
    using dp i bury by (simp add: fb_remove_def call_defs Let_def b1_def c_def)
  have len1: "length (fb_nodes b1) = length (fb_nodes b)" by (simp add: b1_def set_dir_def)
  have ix: "index_ok (fb_names b) (Dir children index)"
    using inv k by (auto simp: builder_inv_def mid_inv_def indexes_ok_def dest!: bspec [of _ _ "fb_nodes b ! dir"])
  have lk: "lookup b dir name = Some c" using k i by (simp add: lookup_def c_def)
  then have live: "c \<in> set (node_live (fb_nodes b ! dir))"
    using lookup_live [OF inv k(1)] by (auto intro: ranI)
  have lk1: "lookup b1 d = (if d = dir then (lookup b dir)(name := None) else lookup b d)" for d
  proof (cases "d = dir")
    case True
    have "map_option (\<lambda>i. fst (snd (children[idx := (fst (children ! idx), c, True)] ! i))) (index nm) =
        map_option (\<lambda>i. fst (snd (children ! i))) (index nm)" for nm
      using bury by (cases "index nm") (auto simp: nth_list_update c_def)
    then show ?thesis using True k by (auto simp: b1_def set_dir_set_node lookup_set_node fun_eq_iff lookup_def)
  qed (simp add: b1_def set_dir_set_node lookup_set_node)
  have dir1: "is_dir (fb_nodes b1 ! p) = is_dir (fb_nodes b ! p)" if "p < length (fb_nodes b)" for p
    using that k by (auto simp: b1_def set_dir_set_node nth_set_node is_dir_def)
  have c: "c < length (fb_nodes b)" using bury len1 by simp
  show ?thesis
  proof (cases "is_dir (fb_nodes b ! c)")
    case True
    then have m: "mid_inv strict [c] [] b1" using bury dir1 [OF c] by blast
    have rm: "remove_subtree_loop [c] b1 = (Inr (), b')"
      using r e True dir1 [OF c] by (simp add: remove_subtree_def)
    have up: "p < q" if "(p, q) \<in> dir_edges b" for p q
      using that inv by (auto simp: dir_edges_def builder_inv_def mid_inv_def order_ok_def)
    have "dir < c" using up [of dir c] live c True k by (simp add: dir_edges_def)
    have above: "dir < p" if "(c, p) \<in> (dir_edges b)\<^sup>*" for p
      using that \<open>dir < c\<close> by (induction rule: rtrancl_induct) (auto dest: up)
    have same: "(p, q) \<in> dir_edges b1 \<longleftrightarrow> (p, q) \<in> dir_edges b" if "p \<noteq> dir" for p q
      using that len1 dir1 by (auto simp: dir_edges_def b1_def set_dir_set_node nth_set_node)
    have "(c, p) \<in> (dir_edges b1)\<^sup>* \<longleftrightarrow> (c, p) \<in> (dir_edges b)\<^sup>*" for p
    proof
      assume "(c, p) \<in> (dir_edges b1)\<^sup>*"
      then show "(c, p) \<in> (dir_edges b)\<^sup>*"
      proof (induction rule: rtrancl_induct)
        case (step y z)
        then have "(y, z) \<in> dir_edges b" using same [of y z] above [OF step.IH] by auto
        then show ?case using step.IH by (rule rtrancl_into_rtrancl [rotated])
      qed simp
    next
      assume "(c, p) \<in> (dir_edges b)\<^sup>*"
      then show "(c, p) \<in> (dir_edges b1)\<^sup>*"
      proof (induction rule: rtrancl_induct)
        case (step y z)
        then have "(y, z) \<in> dir_edges b1" using same [of y z] above [OF step.hyps(1)] by auto
        then show ?case using step.IH by (rule rtrancl_into_rtrancl [rotated])
      qed simp
    qed
    then have sub: "subtree b1 {c} = subtree b {c}" by (auto simp: subtree_def)
    note kinds = remove_subtree_loop_kinds [OF m rm, unfolded len1, simplified]
    have "lookup b' d = (if d \<in> subtree b {c} then Map.empty else lookup b1 d)" for d
    proof (cases "d < length (fb_nodes b)")
      case True
      then show ?thesis using kinds len1 sub
        by (auto simp: lookup_def fun_eq_iff cleared_def)
    next
      case False
      then show ?thesis using kinds len1 by (simp add: lookup_out)
    qed
    moreover have "dir \<notin> subtree b {c}" using above by (auto simp: subtree_def)
    ultimately show ?thesis using lk True by (auto simp: lk1 fun_eq_iff)
  next
    case False
    then have m: "mid_inv strict [] [c] b1" "\<not> is_dir (fb_nodes b1 ! c)" using bury dir1 [OF c] by blast+
    have "fb_unlink c b1 = (Inr (), b')" using r e m(2) by simp
    then have sk: "same_kinds b1 b'" using unlink_inv [OF m] by auto
    have "lookup b' d = lookup b1 d" for d
      using same_kinds_nth [OF sk] by (simp add: lookup_def fun_eq_iff)
    then show ?thesis using lk False by (auto simp: lk1 fun_eq_iff)
  qed
qed

section \<open>A last name that comes back\<close>

text \<open>A hard link gives its target a name and one more link and leaves the declared bytes alone; removing
  the last name of a file takes its size off them.\<close>

lemma hardlink_relinks:
  assumes inv: "builder_inv strict b" and r: "fb_hardlink dir nm t b = (Inr (), b')"
  shows "t < length (fb_nodes b) \<and> \<not> is_dir (fb_nodes b ! t) \<and> lookup b' dir nm = Some t \<and>
    n_kind (fb_nodes b' ! t) = n_kind (fb_nodes b ! t) \<and> n_nlink (fb_nodes b' ! t) = n_nlink (fb_nodes b ! t) + 1 \<and>
    fb_declared_bytes b' = fb_declared_bytes b"
proof -
  have t: "t < length (fb_nodes b)" "\<not> is_dir (fb_nodes b ! t)"
    and hl: "bindS (add_entry dir nm t) (\<lambda>_. modifyS (\<lambda>b. set_nlink t (n_nlink (fb_nodes b ! t) + 1) b)) b = (Inr (), b')"
    using r by (auto simp: fb_hardlink_def failS_def split: if_splits)
  show ?thesis
  proof (rule add_entry_cases [of dir nm t b])
    fix e assume "add_entry dir nm t b = (Inl (Err e), b)"
    then show ?thesis using hl by (simp add: call_defs)
  next
    fix children index
    assume a: "dir < length (fb_nodes b)" "n_kind (fb_nodes b ! dir) = node_kind.Dir children index" "index nm = None"
      "add_entry dir nm t b = (Inr (), entry_added dir children index nm t b)"
    define b1 where "b1 = entry_added dir children index nm t b"
    have "dir \<noteq> t" using a(2) t(2) by (auto simp: is_dir_def)
    then have b1: "fb_nodes b1 ! t = fb_nodes b ! t" "length (fb_nodes b1) = length (fb_nodes b)"
      "fb_declared_bytes b1 = fb_declared_bytes b"
      by (simp_all add: b1_def entry_added_def set_dir_def)
    have b': "b' = set_nlink t (n_nlink (fb_nodes b ! t) + 1) b1"
      using hl a(4) b1(1) by (simp add: call_defs b1_def)
    have "n_kind (fb_nodes b' ! x) = n_kind (fb_nodes b1 ! x)" for x
      using t(1) b1(2) by (cases "x = t") (simp_all add: b' set_nlink_def)
    then have "lookup b' = lookup b1" by (simp add: lookup_def b' set_nlink_def fun_eq_iff)
    then have "lookup b' dir nm = Some t" using lookup_entry_added [OF inv a(1-3)] by (simp add: b1_def)
    then show ?thesis using t b1 by (simp add: b' set_nlink_def)
  qed
qed

lemma remove_file:
  assumes inv: "builder_inv strict b" and l: "lookup b dir nm = Some t" and f: "\<not> is_dir (fb_nodes b ! t)"
    and n: "n_nlink (fb_nodes b ! t) = 1"
  shows "if fb_declared_bytes b < kind_size (n_kind (fb_nodes b ! t)) then fst (fb_remove dir nm b) = Inl Panic
    else \<exists>b'. fb_remove dir nm b = (Inr (), b') \<and> n_kind (fb_nodes b' ! t) = n_kind (fb_nodes b ! t) \<and>
      n_nlink (fb_nodes b' ! t) = 0 \<and> fb_declared_bytes b' = fb_declared_bytes b - kind_size (n_kind (fb_nodes b ! t))"
proof -
  obtain children index idx where d: "dir < length (fb_nodes b)" "n_kind (fb_nodes b ! dir) = node_kind.Dir children index"
    "index nm = Some idx" "fst (snd (children ! idx)) = t"
    using l by (auto simp: lookup_def split: if_splits node_kind.splits)
  define b1 where "b1 = set_dir dir (children[idx := (fst (children ! idx), t, True)]) (index(nm := None)) b"
  have bury: "idx < length children" "t < length (fb_nodes b1)"
    using bury_inv [OF inv d(1-3)] by (simp_all add: d(4) b1_def)
  have "dir \<noteq> t" using d(2) f by (auto simp: is_dir_def)
  then have b1: "fb_nodes b1 ! t = fb_nodes b ! t" "fb_declared_bytes b1 = fb_declared_bytes b"
    by (simp_all add: b1_def set_dir_def)
  have "dir_parts dir b = Inr (children, index)" using d(1,2) by (simp add: dir_parts_def)
  then have e: "fb_remove dir nm b = fb_unlink t b1"
    using d bury b1 f by (simp add: fb_remove_def call_defs Let_def flip: b1_def)
  show ?thesis
    using bury(2) b1 n by (auto simp: e fb_unlink_def Let_def failS_def set_nlink_def)
qed

end
