(* ===== verification/Dirpack.thy ===== *)
theory Dirpack
  imports Dirent Csum
begin

text \<open>
  Packing directory entries into blocks (\<^verbatim>\<open>pack_dirents\<close> of src/src/build/seal.rs and
  the leaf loop of src/src/build/htree.rs, which write records the same way), and the round trip
  through the iterator of \<open>Dirent\<close>. A block under construction is the list of items placed in
  it with their record lengths, where the code keeps indices of the entry slice.
\<close>

type_synonym dentry = "bytes \<times> u32 \<times> u8"

definition USABLE :: nat where [simp]: "USABLE = BLOCK_SIZE - 12"

section \<open>Greedy packing\<close>

definition pack_step ::
    "nat \<Rightarrow> ('a \<Rightarrow> nat) \<Rightarrow> 'a \<Rightarrow> ('a \<times> nat) list list \<times> nat \<Rightarrow> ('a \<times> nat) list list \<times> nat" where
  "pack_step usable rec_size x = (\<lambda>(blocks, used).
    let rl = rec_size x;
        (blocks, used) = (if used + rl > usable then (blocks @ [[]], 0) else (blocks, used))
    in (butlast blocks @ [last blocks @ [(x, rl)]], used + rl))"

definition pack_groups :: "nat \<Rightarrow> ('a \<Rightarrow> nat) \<Rightarrow> 'a list \<Rightarrow> ('a \<times> nat) list list" where
  "pack_groups usable rec_size xs = fst (fold (pack_step usable rec_size) xs ([[]], 0))"

definition dentry_rec_len :: "dentry \<Rightarrow> nat" where
  "dentry_rec_len e = rec_len_for (length (fst e))"

section \<open>Writing the records of a block\<close>

definition write_record :: "bytes \<Rightarrow> nat \<Rightarrow> nat \<Rightarrow> dentry \<Rightarrow> bytes res" where
  "write_record buf off rec_len e =
    (case e of (name, ino, ft) \<Rightarrow>
       if off + 8 + length name > length buf then Inl Panic
       else
         let buf = put_u32 buf off ino;
             buf = put_u16 buf (off + 4) (of_nat rec_len);
             buf = put_u8 buf (off + 6) (of_nat (length name));
             buf = put_u8 buf (off + 7) ft
         in Inr (poke buf (off + 8) name))"

text \<open>The last record of a block is stretched to the checksum tail.\<close>

fun write_records :: "bytes \<Rightarrow> nat \<Rightarrow> (dentry \<times> nat) list \<Rightarrow> bytes res" where
  "write_records buf off [] = Inr buf"
| "write_records buf off ((e, rl) # rest) =
    (if rest = [] \<and> USABLE < off then Inl Panic
     else
       let rec_len = (if rest = [] then USABLE - off else rl) in
       bindE (write_record buf off rec_len e) (\<lambda>buf. write_records buf (off + rec_len) rest))"

definition put_tail :: "bytes \<Rightarrow> bytes" where
  "put_tail buf = put_u8 (put_u16 buf (USABLE + 4) 12) (USABLE + 7) 0xDE"

definition pack_block :: "(dentry \<times> nat) list \<Rightarrow> bytes res" where
  "pack_block blk =
    bindE (write_records (zeros_buf BLOCK_SIZE) 0 blk) (\<lambda>buf.
    let buf = (if blk = [] then put_u16 buf 4 (of_nat USABLE) else buf)
    in Inr (put_tail buf))"

definition pack_dirents :: "dentry list \<Rightarrow> bytes list res" where
  "pack_dirents entries = mapE pack_block (pack_groups USABLE dentry_rec_len entries)"

section \<open>The groups\<close>

definition group_size :: "('a \<times> nat) list \<Rightarrow> nat" where
  "group_size g = sum_list (map snd g)"

text \<open>What every packing prefix satisfies.\<close>

definition packing :: "nat \<Rightarrow> ('a \<Rightarrow> nat) \<Rightarrow> 'a list \<Rightarrow> ('a \<times> nat) list list \<times> nat \<Rightarrow> bool" where
  "packing usable rec_size xs st \<longleftrightarrow>
    (case st of (blocks, used) \<Rightarrow>
       concat blocks = map (\<lambda>x. (x, rec_size x)) xs \<and> blocks \<noteq> [] \<and>
       used = group_size (last blocks) \<and> (\<forall>g\<in>set blocks. group_size g \<le> usable) \<and>
       (xs = [] \<longrightarrow> blocks = [[]]) \<and> (xs \<noteq> [] \<longrightarrow> [] \<notin> set blocks))"

lemma packing_step:
  assumes p: "packing usable rec_size xs (blocks, used)" and x: "rec_size x \<le> usable" "0 < rec_size x"
  shows "packing usable rec_size (xs @ [x]) (pack_step usable rec_size x (blocks, used))"
proof -
  have b: "concat blocks = map (\<lambda>x. (x, rec_size x)) xs" "blocks \<noteq> []"
    "used = group_size (last blocks)" "\<forall>g\<in>set blocks. group_size g \<le> usable"
    "xs = [] \<longrightarrow> blocks = [[]]" "xs \<noteq> [] \<longrightarrow> [] \<notin> set blocks"
    using p by (auto simp: packing_def)
  show ?thesis
  proof (cases "used + rec_size x > usable")
    case True
    then have "xs \<noteq> []" using b(3,5) x(1) by (auto simp: group_size_def)
    then show ?thesis using True b x by (auto simp: packing_def pack_step_def group_size_def Let_def)
  next
    case False
    obtain front g where g: "blocks = front @ [g]" using b(2) by (metis append_butlast_last_id)
    have "xs = [] \<Longrightarrow> front = []" using b(5) g by simp
    then show ?thesis using False b x g
      by (cases "xs = []") (auto simp: packing_def pack_step_def group_size_def Let_def)
  qed
qed

lemma pack_groups_packing:
  assumes "\<forall>x\<in>set xs. rec_size x \<le> usable \<and> 0 < rec_size x"
  shows "packing usable rec_size xs (fold (pack_step usable rec_size) xs ([[]], 0))"
proof -
  have "packing usable rec_size (ys @ xs) (fold (pack_step usable rec_size) xs st)"
    if "packing usable rec_size ys st" "\<forall>x\<in>set xs. rec_size x \<le> usable \<and> 0 < rec_size x" for xs ys st
    using that
  proof (induction xs arbitrary: ys st)
    case (Cons x xs)
    have "packing usable rec_size (ys @ [x]) (pack_step usable rec_size x st)"
      using packing_step [of usable rec_size ys "fst st" "snd st" x] Cons.prems by simp
    from Cons.IH [OF this] Cons.prems(2) show ?case by simp
  qed simp
  from this [of "[]" "([[]], 0)" xs] show ?thesis
    using assms by (simp add: packing_def group_size_def)
qed

lemma pack_groups_props:
  assumes "\<forall>x\<in>set xs. rec_size x \<le> usable \<and> 0 < rec_size x"
  shows "concat (pack_groups usable rec_size xs) = map (\<lambda>x. (x, rec_size x)) xs"
    "\<forall>g\<in>set (pack_groups usable rec_size xs). group_size g \<le> usable"
    "xs \<noteq> [] \<Longrightarrow> [] \<notin> set (pack_groups usable rec_size xs)"
    "pack_groups usable rec_size xs \<noteq> []"
  using pack_groups_packing [OF assms] by (auto simp: packing_def pack_groups_def split: prod.splits)

section \<open>Reading a block back\<close>

definition dentry_ok :: "dentry \<Rightarrow> bool" where
  "dentry_ok e \<longleftrightarrow> length (fst e) \<le> 255 \<and> fst (snd e) \<noteq> 0"

lemma dentry_rec_len_bounds:
  "dentry_ok e \<Longrightarrow> 8 + length (fst e) \<le> dentry_rec_len e \<and> dentry_rec_len e \<le> 264 \<and>
   dentry_rec_len e mod 4 = 0"
proof -
  assume "dentry_ok e"
  then have "length (fst e) \<le> 255" by (simp add: dentry_ok_def)
  then show ?thesis by (auto simp: dentry_rec_len_def rec_len_for_def)
qed

definition de_view :: "dir_entry_ref \<Rightarrow> dentry" where
  "de_view r = (de_name r, de_inode r, de_file_type r)"

lemma write_record_ok:
  assumes "off + 8 + length name \<le> length buf" "length name \<le> 255" "rec_len < 65536"
  obtains buf' where "write_record buf off rec_len (name, ino, ft) = Inr buf'" "length buf' = length buf"
    "le32 buf' off = ino" "le16 buf' (off + 4) = of_nat rec_len" "unat (buf' ! (off + 6)) = length name"
    "buf' ! (off + 7) = ft" "peek buf' (off + 8) (length name) = name"
    "\<And>i. i < length buf \<Longrightarrow> i < off \<or> off + 8 + length name \<le> i \<Longrightarrow> buf' ! i = buf ! i"
proof
  let ?b = "poke (put_u8 (put_u8 (put_u16 (put_u32 buf off ino) (off + 4) (of_nat rec_len)) (off + 6)
    (of_nat (length name))) (off + 7) ft) (off + 8) name"
  show "write_record buf off rec_len (name, ino, ft) = Inr ?b"
    using assms by (simp add: write_record_def Let_def)
  show "length ?b = length buf" by simp
  show "le32 ?b off = ino" "le16 ?b (off + 4) = of_nat rec_len" "?b ! (off + 7) = ft"
    "peek ?b (off + 8) (length name) = name"
    using assms(1) by (simp_all add: buf_simps)
  show "unat (?b ! (off + 6)) = length name"
    using assms(1,2) by (simp add: buf_simps unat_of_nat)
  show "?b ! i = buf ! i" if "i < length buf" "i < off \<or> off + 8 + length name \<le> i" for i
    using that assms(1) by (auto simp: put_unfold nth_poke)
qed

lemma peek_eqI:
  "length r = length r' \<Longrightarrow> (\<And>i. off \<le> i \<Longrightarrow> i < off + n \<Longrightarrow> i < length r \<Longrightarrow> r ! i = r' ! i) \<Longrightarrow>
   peek r off n = peek r' off n"
  by (rule nth_equalityI) (auto simp: nth_peek)

text \<open>
  The records written from an offset decode to their entries, in any buffer that agrees with the
  written one up to the tail.
\<close>

lemma write_records_items:
  assumes "\<forall>g\<in>set recs. dentry_ok (fst g) \<and> snd g = dentry_rec_len (fst g)" "recs \<noteq> []"
    and "off + group_size recs \<le> USABLE" "off mod 4 = 0" "length buf = BLOCK_SIZE"
  shows "\<exists>buf'. write_records buf off recs = Inr buf' \<and> length buf' = BLOCK_SIZE \<and>
    (\<forall>i<BLOCK_SIZE. i < off \<or> USABLE \<le> i \<longrightarrow> buf' ! i = buf ! i) \<and>
    (\<forall>b. length b = BLOCK_SIZE \<and> (\<forall>i. off \<le> i \<and> i < USABLE \<longrightarrow> b ! i = buf' ! i) \<longrightarrow>
      (\<exists>rs. dirent_items (iter_at b off) = map Inr rs @ dirent_items (iter_at b USABLE) \<and>
        map de_view rs = map fst recs))"
  using assms
proof (induction recs arbitrary: buf off)
  case Nil
  then show ?case by simp
next
  case (Cons g rest)
  obtain name ino ft where g: "g = ((name, ino, ft), dentry_rec_len (name, ino, ft))"
    using Cons.prems(1) by (cases g) auto
  define e where "e = (name, ino, ft)"
  have e: "dentry_ok e" "length name \<le> 255" "ino \<noteq> 0"
    using Cons.prems(1) g by (auto simp: e_def dentry_ok_def)
  note rb = dentry_rec_len_bounds [OF e(1)]
  have rl: "8 + length name \<le> dentry_rec_len e" "dentry_rec_len e mod 4 = 0" using rb by (simp_all add: e_def)
  define rec_len where "rec_len = (if rest = [] then USABLE - off else dentry_rec_len e)"
  have sz: "off + dentry_rec_len e + group_size rest \<le> USABLE"
    using Cons.prems(3) by (simp add: group_size_def g e_def)
  have rec: "dentry_rec_len e \<le> rec_len" "off + rec_len \<le> USABLE" "rec_len < 65536" "rec_len mod 4 = 0"
    using sz rl(2) rb Cons.prems(4) by (auto simp: rec_len_def mod_diff_eq)
  have fits: "off + 8 + length name \<le> length buf" using sz rl Cons.prems(5) by simp
  from write_record_ok [OF fits e(2) rec(3), of ino ft] obtain b1 where
    b1: "write_record buf off rec_len e = Inr b1" "length b1 = length buf"
    "le32 b1 off = ino" "le16 b1 (off + 4) = of_nat rec_len" "unat (b1 ! (off + 6)) = length name"
    "b1 ! (off + 7) = ft" "peek b1 (off + 8) (length name) = name"
    "\<And>i. i < length buf \<Longrightarrow> i < off \<or> off + 8 + length name \<le> i \<Longrightarrow> b1 ! i = buf ! i"
    by (auto simp: e_def)
  text \<open>The first record, read from any agreeing buffer.\<close>
  have first: "\<exists>r. dirent_items (iter_at b off) = Inr r # dirent_items (iter_at b (off + rec_len)) \<and> de_view r = e"
    if lb: "length b = BLOCK_SIZE" and ag: "\<And>i. off \<le> i \<Longrightarrow> i < off + rec_len \<Longrightarrow> b ! i = b1 ! i" for b
  proof -
    have len: "length b = length b1" using lb b1(2) Cons.prems(5) by simp
    have pk: "peek b o' n = peek b1 o' n" if "off \<le> o'" "o' + n \<le> off + rec_len" for o' n
      by (rule peek_eqI [OF len]) (use ag that in auto)
    have r8: "8 + length name \<le> rec_len" using rl rec by simp
    have v: "le32 b off = ino" "le16 b (off + 4) = of_nat rec_len" "unat (b ! (off + 6)) = length name"
      "b ! (off + 7) = ft" "peek b (off + 8) (length name) = name"
      using b1 pk [of off 4] pk [of "off + 4" 2] pk [of "off + 8" "length name"] ag r8
      by (simp_all add: le32_def le16_def)
    have ur: "unat (le16 b (off + 4)) = rec_len" using rec(3) by (simp add: v unat_of_nat)
    have "\<not> bad_rec_len b off (le16 b (off + 4))"
      using ur rec r8 lb by (simp add: bad_rec_len_def)
    from dirent_items_used [OF _ this] show ?thesis
      using v ur r8 rec lb e(3) by (simp add: de_view_def e_def)
  qed
  show ?case
  proof (cases "rest = []")
    case True
    then have w: "write_records buf off (g # rest) = Inr b1" "off + rec_len = USABLE"
      using b1(1) rec sz by (simp_all add: g e_def rec_len_def)
    have "\<exists>rs. dirent_items (iter_at b off) = map Inr rs @ dirent_items (iter_at b USABLE) \<and>
        map de_view rs = map fst (g # rest)"
      if lb: "length b = BLOCK_SIZE" and ag: "\<forall>i. off \<le> i \<and> i < USABLE \<longrightarrow> b ! i = b1 ! i" for b
    proof -
      obtain r where "dirent_items (iter_at b off) = Inr r # dirent_items (iter_at b (off + rec_len))" "de_view r = e"
        using first [OF lb] ag w(2) by auto
      then show ?thesis using w(2) True by (intro exI [of _ "[r]"]) (simp add: g e_def)
    qed
    moreover have "\<forall>i<BLOCK_SIZE. i < off \<or> USABLE \<le> i \<longrightarrow> b1 ! i = buf ! i"
      using b1(8) Cons.prems(5) sz rl by auto
    ultimately show ?thesis using w(1) b1(2) Cons.prems(5) by auto
  next
    case False
    then have rlen: "rec_len = dentry_rec_len e" by (simp add: rec_len_def)
    have "\<forall>g\<in>set rest. dentry_ok (fst g) \<and> snd g = dentry_rec_len (fst g)" using Cons.prems(1) by simp
    moreover have "off + rec_len + group_size rest \<le> USABLE" using sz rlen by simp
    moreover have "(off + rec_len) mod 4 = 0" using rec(4) Cons.prems(4) by presburger
    ultimately have ih: "\<exists>b2. write_records b1 (off + rec_len) rest = Inr b2 \<and> length b2 = BLOCK_SIZE \<and>
      (\<forall>i<BLOCK_SIZE. i < off + rec_len \<or> USABLE \<le> i \<longrightarrow> b2 ! i = b1 ! i) \<and>
      (\<forall>b. length b = BLOCK_SIZE \<and> (\<forall>i. off + rec_len \<le> i \<and> i < USABLE \<longrightarrow> b ! i = b2 ! i) \<longrightarrow>
        (\<exists>rs. dirent_items (iter_at b (off + rec_len)) = map Inr rs @ dirent_items (iter_at b USABLE) \<and>
          map de_view rs = map fst rest))"
      using False b1(2) Cons.prems(5) by (intro Cons.IH) simp_all
    then obtain b2 where b2: "write_records b1 (off + rec_len) rest = Inr b2" "length b2 = BLOCK_SIZE"
      "\<And>i. i < BLOCK_SIZE \<Longrightarrow> i < off + rec_len \<or> USABLE \<le> i \<Longrightarrow> b2 ! i = b1 ! i"
      "\<And>b. length b = BLOCK_SIZE \<Longrightarrow> (\<And>i. off + rec_len \<le> i \<Longrightarrow> i < USABLE \<Longrightarrow> b ! i = b2 ! i) \<Longrightarrow>
        \<exists>rs. dirent_items (iter_at b (off + rec_len)) = map Inr rs @ dirent_items (iter_at b USABLE) \<and>
          map de_view rs = map fst rest"
      by blast
    have w: "write_records buf off (g # rest) = Inr b2"
      using b1(1) b2(1) False rlen by (simp add: g e_def)
    have "\<exists>rs. dirent_items (iter_at b off) = map Inr rs @ dirent_items (iter_at b USABLE) \<and>
        map de_view rs = map fst (g # rest)"
      if lb: "length b = BLOCK_SIZE" and ag: "\<forall>i. off \<le> i \<and> i < USABLE \<longrightarrow> b ! i = b2 ! i" for b
    proof -
      have "b ! i = b1 ! i" if "off \<le> i" "i < off + rec_len" for i
        using ag b2(3) [of i] that rec by simp
      then obtain r where r: "dirent_items (iter_at b off) = Inr r # dirent_items (iter_at b (off + rec_len))" "de_view r = e"
        using first [OF lb] by blast
      obtain rs where "dirent_items (iter_at b (off + rec_len)) = map Inr rs @ dirent_items (iter_at b USABLE)"
        "map de_view rs = map fst rest"
        using b2(4) [OF lb] ag by auto
      then show ?thesis using r by (intro exI [of _ "r # rs"]) (simp add: g e_def)
    qed
    moreover have "\<forall>i<BLOCK_SIZE. i < off \<or> USABLE \<le> i \<longrightarrow> b2 ! i = buf ! i"
      using b2(3) b1(8) Cons.prems(5) sz rl by auto
    ultimately show ?thesis using w b2(2) by auto
  qed
qed

section \<open>Whole blocks\<close>

text \<open>
  A finished block carries its checksum in its last four bytes: \<open>stamp_tail\<close> is the store the
  callers make. The checksum tail is a record of inode 0, which the iterator passes over.
\<close>

definition stamp_tail :: "bytes \<Rightarrow> u32 \<Rightarrow> bytes" where
  "stamp_tail b c = put_u32 b (BLOCK_SIZE - 4) c"

lemma length_put_tail [simp]: "length (put_tail b) = length b" "length (stamp_tail b c) = length b"
  by (simp_all add: put_tail_def stamp_tail_def)

lemma tail_frame:
  "length b = BLOCK_SIZE \<Longrightarrow> i < USABLE \<Longrightarrow> put_tail b ! i = b ! i"
  "length b = BLOCK_SIZE \<Longrightarrow> i < USABLE \<Longrightarrow> stamp_tail b c ! i = b ! i"
  by (auto simp: put_tail_def stamp_tail_def put_unfold nth_poke)

text \<open>What the tail needs of the bytes it is written over: they are still zero.\<close>

definition tail_clear :: "bytes \<Rightarrow> bool" where
  "tail_clear b \<longleftrightarrow> length b = BLOCK_SIZE \<and> (\<forall>i. USABLE \<le> i \<and> i < BLOCK_SIZE \<longrightarrow> b ! i = 0)"

lemma tail_clear_peek:
  assumes "tail_clear b" "USABLE \<le> off" "off + n \<le> BLOCK_SIZE"
  shows "peek b off n = zeros_buf n"
  by (rule nth_equalityI) (use assms in \<open>auto simp: tail_clear_def nth_peek\<close>)

lemma tail_fields:
  assumes "tail_clear b"
  shows "le32 (put_tail b) USABLE = 0" "le16 (put_tail b) (USABLE + 4) = 12"
    "put_tail b ! (USABLE + 6) = 0" "put_tail b ! (USABLE + 7) = 0xDE" "le32 (put_tail b) (USABLE + 8) = 0"
proof -
  have l: "length b = 4096" using assms by (simp add: tail_clear_def)
  have z: "le32 b 4084 = 0" "le32 b 4092 = 0"
    using tail_clear_peek [OF assms, of 4084 4] tail_clear_peek [OF assms, of 4092 4] by (simp_all add: le32_def)
  have z6: "b ! 4090 = 0" using assms by (simp add: tail_clear_def)
  show "le32 (put_tail b) USABLE = 0" "le16 (put_tail b) (USABLE + 4) = 12"
    "put_tail b ! (USABLE + 6) = 0" "put_tail b ! (USABLE + 7) = 0xDE" "le32 (put_tail b) (USABLE + 8) = 0"
    using l z z6 by (simp_all add: put_tail_def buf_simps)
qed

lemma stamp_tail_fields:
  assumes "length b = BLOCK_SIZE"
  shows "le32 (stamp_tail b c) USABLE = le32 b USABLE"
    "le16 (stamp_tail b c) (USABLE + 4) = le16 b (USABLE + 4)"
    "stamp_tail b c ! (USABLE + 6) = b ! (USABLE + 6)" "stamp_tail b c ! (USABLE + 7) = b ! (USABLE + 7)"
    "le32 (stamp_tail b c) (USABLE + 8) = c"
  using assms by (simp_all add: stamp_tail_def buf_simps)

lemma tail_end:
  assumes "tail_clear b"
  shows "dirent_items (iter_at (stamp_tail (put_tail b) c) USABLE) = []"
    "tail_checksum (stamp_tail (put_tail b) c) = Some c"
    "tail_checksum (put_tail b) = Some 0"
proof -
  let ?b = "stamp_tail (put_tail b) c"
  have l: "length b = 4096" using assms by (simp add: tail_clear_def)
  note f = tail_fields [OF assms]
  have g: "le32 ?b 4084 = 0" "le16 ?b 4088 = 12" "?b ! 4090 = 0" "?b ! 4091 = 0xDE" "le32 ?b 4092 = c"
    using stamp_tail_fields [of "put_tail b" c] f l by simp_all
  have "dirent_items (iter_at ?b 4084) = dirent_items (iter_at ?b (4084 + unat (le16 ?b (4084 + 4))))"
    by (rule dirent_items_unused) (use g l in \<open>simp_all add: bad_rec_len_def\<close>)
  also have "\<dots> = []" using g l by (intro dirent_items_end) simp
  finally show "dirent_items (iter_at ?b USABLE) = []" by simp
  show "tail_checksum ?b = Some c" using g l by (simp add: tail_checksum_def)
  show "tail_checksum (put_tail b) = Some 0" using f l by (simp add: tail_checksum_def)
qed

definition group_ok :: "(dentry \<times> nat) list \<Rightarrow> bool" where
  "group_ok g \<longleftrightarrow> (\<forall>x\<in>set g. dentry_ok (fst x) \<and> snd x = dentry_rec_len (fst x)) \<and> group_size g \<le> USABLE"

lemma mapE_id_Inr: "mapE id (map Inr rs) = Inr rs"
  by (induction rs) auto

text \<open>A block of records, sealed with any checksum, reads back as its entries in order.\<close>

definition block_holds :: "bytes \<Rightarrow> dentry list \<Rightarrow> bool" where
  "block_holds b es \<longleftrightarrow> length b = BLOCK_SIZE \<and> tail_checksum b = Some 0 \<and>
    (\<forall>c. tail_checksum (stamp_tail b c) = Some c \<and>
      (\<exists>rs. dirent_collect (stamp_tail b c) = Inr rs \<and> map de_view rs = es))"

lemma records_block_holds:
  assumes "group_ok g" "g \<noteq> []"
  shows "\<exists>b. write_records (zeros_buf BLOCK_SIZE) 0 g = Inr b \<and> block_holds (put_tail b) (map fst g)"
proof -
  obtain b where b: "write_records (zeros_buf BLOCK_SIZE) 0 g = Inr b" "length b = BLOCK_SIZE"
    "\<And>i. i < BLOCK_SIZE \<Longrightarrow> USABLE \<le> i \<Longrightarrow> b ! i = zeros_buf BLOCK_SIZE ! i"
    "\<And>b'. length b' = BLOCK_SIZE \<Longrightarrow> (\<And>i. i < USABLE \<Longrightarrow> b' ! i = b ! i) \<Longrightarrow>
      \<exists>rs. dirent_items (iter_at b' 0) = map Inr rs @ dirent_items (iter_at b' USABLE) \<and> map de_view rs = map fst g"
    using write_records_items [of g 0 "zeros_buf BLOCK_SIZE"] assms by (auto simp: group_ok_def)
  have c: "tail_clear b" using b(2,3) by (simp add: tail_clear_def)
  have "\<exists>rs. dirent_collect (stamp_tail (put_tail b) c) = Inr rs \<and> map de_view rs = map fst g" for c
  proof -
    obtain rs where "dirent_items (iter_at (stamp_tail (put_tail b) c) 0) =
        map Inr rs @ dirent_items (iter_at (stamp_tail (put_tail b) c) USABLE)" "map de_view rs = map fst g"
      using b(4) [of "stamp_tail (put_tail b) c"] b(2) tail_frame by auto
    then show ?thesis using tail_end(1) [OF c] by (auto simp: dirent_collect_items mapE_id_Inr)
  qed
  then show ?thesis using b(1,2) tail_end [OF c] by (auto simp: block_holds_def)
qed

lemma empty_block_holds: "\<exists>b. pack_block [] = Inr b \<and> block_holds b []"
proof -
  let ?b0 = "put_u16 (zeros_buf BLOCK_SIZE) 4 (of_nat USABLE)"
  have c: "tail_clear ?b0" by (auto simp: tail_clear_def put_unfold nth_poke)
  have "dirent_items (iter_at (stamp_tail (put_tail ?b0) c) 0) = []" for c
  proof -
    let ?b = "stamp_tail (put_tail ?b0) c"
    have f: "le32 ?b 0 = 0" "le16 ?b 4 = 4084" by (simp_all add: stamp_tail_def put_tail_def buf_simps)
    have "dirent_items (iter_at ?b 0) = dirent_items (iter_at ?b (0 + unat (le16 ?b (0 + 4))))"
      by (rule dirent_items_unused) (use f in \<open>simp_all add: bad_rec_len_def\<close>)
    then show ?thesis using f tail_end(1) [OF c, of c] by simp
  qed
  then show ?thesis using tail_end [OF c]
    by (simp add: pack_block_def block_holds_def dirent_collect_items)
qed

lemma pack_block_holds: "group_ok g \<Longrightarrow> \<exists>b. pack_block g = Inr b \<and> block_holds b (map fst g)"
  using records_block_holds [of g] empty_block_holds by (cases "g = []") (auto simp: pack_block_def)

lemma dentry_fits: "dentry_ok e \<Longrightarrow> dentry_rec_len e \<le> USABLE \<and> 0 < dentry_rec_len e"
  using dentry_rec_len_bounds [of e] by simp

lemma pack_groups_ok:
  assumes "\<forall>e\<in>set entries. dentry_ok e"
  shows "\<forall>g\<in>set (pack_groups USABLE dentry_rec_len entries). group_ok g"
    "concat (map (map fst) (pack_groups USABLE dentry_rec_len entries)) = entries"
proof -
  have "\<forall>e\<in>set entries. dentry_rec_len e \<le> USABLE \<and> 0 < dentry_rec_len e"
    using assms dentry_fits by blast
  note p = pack_groups_props [OF this]
  show "\<forall>g\<in>set (pack_groups USABLE dentry_rec_len entries). group_ok g"
  proof
    fix g assume g: "g \<in> set (pack_groups USABLE dentry_rec_len entries)"
    then have "set g \<subseteq> set (map (\<lambda>x. (x, dentry_rec_len x)) entries)"
      using p(1) by (metis UN_I set_concat subsetI)
    then show "group_ok g" using assms p(2) g by (auto simp: group_ok_def)
  qed
  show "concat (map (map fst) (pack_groups USABLE dentry_rec_len entries)) = entries"
    using arg_cong [OF p(1), of "map fst"] by (simp add: map_concat comp_def)
qed

text \<open>
  The blocks of a packed directory, sealed with any checksums, read back as the entries in
  declaration order.
\<close>

lemma pack_dirents_holds:
  assumes "\<forall>e\<in>set entries. dentry_ok e"
  shows "\<exists>bs groups. pack_dirents entries = Inr bs \<and> concat groups = entries \<and> groups \<noteq> [] \<and>
    list_all2 block_holds bs groups"
proof -
  let ?gs = "pack_groups USABLE dentry_rec_len entries"
  note p = pack_groups_ok [OF assms]
  obtain bs where "mapE pack_block ?gs = Inr bs" "list_all2 (\<lambda>b g. block_holds b (map fst g)) bs ?gs"
    using mapE_list_all2 [of ?gs pack_block "\<lambda>b g. block_holds b (map fst g)"] p(1) pack_block_holds by blast
  moreover have "?gs \<noteq> []"
    using pack_groups_props(4) [of entries dentry_rec_len USABLE] assms dentry_fits by blast
  ultimately show ?thesis using p(2)
    by (intro exI [of _ bs] exI [of _ "map (map fst) ?gs"]) (simp add: pack_dirents_def list.rel_map)
qed

text \<open>A directory block as the reader wants it: its records decode and its tail carries the checksum.\<close>

definition dir_block_ok :: "crc \<Rightarrow> u32 \<Rightarrow> bytes \<Rightarrow> dentry list \<Rightarrow> bool" where
  "dir_block_ok crc iseed b es \<longleftrightarrow> length b = BLOCK_SIZE \<and>
    tail_checksum b = Some (dirent_block_sum crc iseed b) \<and>
    (\<exists>rs. dirent_collect b = Inr rs \<and> map de_view rs = es)"

lemma block_holds_sealed:
  assumes "block_holds b es"
  shows "dir_block_ok crc iseed (stamp_tail b (dirent_block_sum crc iseed b)) es"
proof -
  have l: "length b = BLOCK_SIZE" using assms by (simp add: block_holds_def)
  then have "dirent_block_sum crc iseed (stamp_tail b c) = dirent_block_sum crc iseed b" for c
    using dirent_csum.sum_stamp [of b crc iseed c] by (simp add: stamp_tail_def)
  then show ?thesis using assms by (simp add: dir_block_ok_def block_holds_def)
qed

text \<open>A block with entries is never mistaken for an interior index node.\<close>

lemma dir_block_not_node:
  assumes "dir_block_ok crc iseed b es" "es \<noteq> []"
  shows "\<not> (le32 b 0 = 0 \<and> unat (le16 b 4) = length b)"
proof
  assume f: "le32 b 0 = 0 \<and> unat (le16 b 4) = length b"
  have l: "length b = 4096" using assms(1) by (simp add: dir_block_ok_def)
  have "dirent_items (iter_at b 0) = dirent_items (iter_at b (0 + unat (le16 b (0 + 4))))"
    by (rule dirent_items_unused) (use f l in \<open>simp_all add: bad_rec_len_def\<close>)
  then have "dirent_items (iter_at b 0) = []" using f dirent_items_end [of b "length b"] by simp
  then show False using assms by (auto simp: dir_block_ok_def dirent_collect_items)
qed

end
