(* ===== verification/HtreeBuild.thy ===== *)
theory HtreeBuild
  imports Dirpack HtreeSpec Dirhash "HOL-Library.Product_Lexorder" "HOL-Library.Multiset"
begin

text \<open>
  Building a hash-indexed directory (src/src/build/htree.rs): entries sorted by hash, leaves filled
  greedily, one or two levels of index with the collision bit where a run of equal hashes straddles
  two leaves. Logical blocks: the root, the leaves, the interior nodes. The index entries are pairs
  of a hash and a logical block, as in the code; a hashed entry is (hash, minor hash, index of the
  entry), in the order of the code's sort.
\<close>

type_synonym hashed = "u32 \<times> u32 \<times> nat"
type_synonym dx = "u32 \<times> u32"

definition needs_htree :: "dentry list \<Rightarrow> bool" where
  "needs_htree entries \<longleftrightarrow> BLOCK_SIZE - 24 \<le> sum_list (map dentry_rec_len entries)"

definition hash_entry :: "hash_seed \<Rightarrow> nat \<times> dentry \<Rightarrow> hashed" where
  "hash_entry seed = (\<lambda>(i, e). let (h, minor) = half_md4 seed Signed (fst e) in (h, minor, i))"

definition hash_entries :: "hash_seed \<Rightarrow> dentry list \<Rightarrow> hashed list" where
  "hash_entries seed entries = sort (map (hash_entry seed) (enumerate 0 entries))"

definition pack_leaves :: "dentry list \<Rightarrow> hashed list \<Rightarrow> nat list list" where
  "pack_leaves entries hs =
    map (map fst) (pack_groups USABLE (\<lambda>i. dentry_rec_len (entries ! i)) (map (\<lambda>(_, _, i). i) hs))"

section \<open>The index entries of the leaves\<close>

text \<open>The loop over the leaves: leaf number, index of its first hashed entry, last hash before it.\<close>

fun leaf_dx_loop ::
    "hashed list \<Rightarrow> nat \<Rightarrow> nat \<Rightarrow> u32 option \<Rightarrow> nat list list \<Rightarrow> dx list res" where
  "leaf_dx_loop hs k base prev_last_hash [] = Inr []"
| "leaf_dx_loop hs k base prev_last_hash (leaf # leaves) =
    (if length hs \<le> base then Inl Panic
     else
       let first_hash = fst (hs ! base);
           hash = (if 0 < k \<and> prev_last_hash = Some first_hash then first_hash OR 1 else first_hash)
       in if base + length leaf = 0 \<or> length hs < base + length leaf then Inl Panic
          else bindE (leaf_dx_loop hs (k + 1) (base + length leaf)
                 (Some (fst (hs ! (base + length leaf - 1)))) leaves)
               (\<lambda>rest. Inr ((hash, of_nat (k + 1)) # rest)))"

section \<open>Rendering\<close>

fun put_dx :: "bytes \<Rightarrow> nat \<Rightarrow> dx list \<Rightarrow> bytes" where
  "put_dx buf off [] = buf"
| "put_dx buf off ((hash, block) # rest) =
     put_dx (put_u32 (put_u32 buf off hash) (off + 4) block) (off + 8) rest"

definition write_countlimit_entries :: "bytes \<Rightarrow> nat \<Rightarrow> nat \<Rightarrow> dx list \<Rightarrow> bytes res" where
  "write_countlimit_entries buf count_offset limit dx =
    (if dx = [] \<or> length buf < count_offset + 8 * length dx then Inl Panic
     else
       let buf = put_u16 buf count_offset (of_nat limit);
           buf = put_u16 buf (count_offset + 2) (of_nat (length dx));
           buf = put_u32 buf (count_offset + 4) (snd (hd dx))
       in Inr (put_dx buf (count_offset + 8) (tl dx)))"

text \<open>Both index blocks end the same way: the entries, then the checksum behind the last slot.\<close>

definition finish_dx :: "crc \<Rightarrow> u32 \<Rightarrow> bytes \<Rightarrow> nat \<Rightarrow> nat \<Rightarrow> dx list \<Rightarrow> bytes res" where
  "finish_dx crc iseed buf count_offset limit dx =
    bindE (write_countlimit_entries buf count_offset limit dx) (\<lambda>buf.
    bindE (csum_dx_block crc iseed buf count_offset (of_nat (length dx)) (of_nat limit)) (\<lambda>c.
    store_u32 buf (count_offset + limit * 8 + 4) c))"

definition leaf_block :: "crc \<Rightarrow> u32 \<Rightarrow> dentry list \<Rightarrow> nat list \<Rightarrow> bytes res" where
  "leaf_block crc iseed entries leaf =
    bindE (write_records (zeros_buf BLOCK_SIZE) 0 (map (\<lambda>i. (entries ! i, dentry_rec_len (entries ! i))) leaf)) (\<lambda>buf.
    let buf = put_tail buf
    in bindE (csum_dirent_block crc iseed buf) (\<lambda>c. store_u32 buf (BLOCK_SIZE - 4) c))"

definition node_block :: "crc \<Rightarrow> u32 \<Rightarrow> dx list \<Rightarrow> bytes res" where
  "node_block crc iseed grp =
    (let buf = put_u16 (zeros_buf BLOCK_SIZE) 4 (of_nat BLOCK_SIZE)
     in finish_dx crc iseed buf NODE_COUNT_OFFSET (unat (node_limit BLOCK_SIZE)) grp)"

definition root_block :: "crc \<Rightarrow> u32 \<Rightarrow> u32 \<Rightarrow> u32 \<Rightarrow> u8 \<Rightarrow> dx list \<Rightarrow> bytes res" where
  "root_block crc iseed self_ino parent_ino indirect_levels root_dx =
    (let root = zeros_buf BLOCK_SIZE;
         root = put_u32 root 0 self_ino;
         root = put_u16 root 4 12;
         root = put_u8 root 6 1;
         root = put_u8 root 7 ft_DIR;
         root = put_u8 root 8 0x2E;
         root = put_u32 root 0x0C parent_ino;
         root = put_u16 root 0x10 (of_nat (BLOCK_SIZE - 12));
         root = put_u8 root 0x12 2;
         root = put_u8 root 0x13 ft_DIR;
         root = put_u8 root 0x14 0x2E;
         root = put_u8 root 0x15 0x2E;
         root = put_u8 root 0x1C 1;
         root = put_u8 root 0x1D 8;
         root = put_u8 root 0x1E indirect_levels
     in finish_dx crc iseed root ROOT_COUNT_OFFSET (unat (root_limit BLOCK_SIZE)) root_dx)"

section \<open>The whole directory\<close>

definition dx_levels :: "dx list \<Rightarrow> (u8 \<times> dx list list) res" where
  "dx_levels leaf_dx =
    (if length leaf_dx \<le> unat (root_limit BLOCK_SIZE) then Inr (0, [leaf_dx])
     else
       let groups = chunks (unat (node_limit BLOCK_SIZE)) leaf_dx
       in if unat (root_limit BLOCK_SIZE) < length groups
          then Inl (Err (Unsupported ''directory needs more than a 2-level htree (largedir)''))
          else Inr (1, groups))"

definition node_dx :: "nat \<Rightarrow> dx list list \<Rightarrow> dx list" where
  "node_dx first_node_logical groups =
    map (\<lambda>(gi, grp). (fst (hd grp), of_nat (first_node_logical + gi))) (enumerate 0 groups)"

definition htree_build ::
    "crc \<Rightarrow> u32 \<Rightarrow> u32 \<Rightarrow> dentry list \<Rightarrow> hash_seed \<Rightarrow> u32 \<Rightarrow> bytes list res" where
  "htree_build crc self_ino parent_ino entries seed fseed =
    (let iseed = inode_seed crc fseed self_ino 0;
         hs = hash_entries seed entries;
         leaves = pack_leaves entries hs
     in bindE (leaf_dx_loop hs 0 0 None leaves) (\<lambda>leaf_dx.
        bindE (dx_levels leaf_dx) (\<lambda>(indirect_levels, node_groups).
        bindE (mapE (leaf_block crc iseed entries) leaves) (\<lambda>leaf_blocks.
        bindE (guardE (sum_list (map length leaves) = length hs) Panic) (\<lambda>_.
        bindE (if indirect_levels = 1 then mapE (node_block crc iseed) node_groups else Inr []) (\<lambda>node_blocks.
        let root_dx = (if indirect_levels = 1 then node_dx (1 + length leaves) node_groups else leaf_dx)
        in bindE (root_block crc iseed self_ino parent_ino indirect_levels root_dx) (\<lambda>root.
           Inr (root # leaf_blocks @ node_blocks))))))))"

section \<open>Grouped hashes\<close>

text \<open>
  The leaves seen as groups of hashed entries: the concatenation of the groups is the sorted list.
\<close>

lemma pack_step_map:
  assumes "blocks \<noteq> []"
  shows "pack_step u f (g x) (map (map (\<lambda>(x, r). (g x, r))) blocks, used) =
   (map (map (\<lambda>(x, r). (g x, r))) (fst (pack_step u (\<lambda>a. f (g a)) x (blocks, used))),
    snd (pack_step u (\<lambda>a. f (g a)) x (blocks, used)))"
  using assms by (simp add: pack_step_def Let_def map_butlast last_map)

lemma pack_step_nonempty: "blocks \<noteq> [] \<Longrightarrow> fst (pack_step u f x (blocks, used)) \<noteq> []"
  by (simp add: pack_step_def Let_def)

lemma pack_groups_map:
  "pack_groups u f (map g xs) = map (map (\<lambda>(x, r). (g x, r))) (pack_groups u (\<lambda>a. f (g a)) xs)"
proof -
  have "fold (pack_step u f) (map g xs) (map (map (\<lambda>(x, r). (g x, r))) blocks, used) =
     (map (map (\<lambda>(x, r). (g x, r))) (fst (fold (pack_step u (\<lambda>a. f (g a))) xs (blocks, used))),
      snd (fold (pack_step u (\<lambda>a. f (g a))) xs (blocks, used)))" if "blocks \<noteq> []" for blocks used
    using that
  proof (induction xs arbitrary: blocks used)
    case (Cons x xs)
    obtain bl us where st: "pack_step u (\<lambda>a. f (g a)) x (blocks, used) = (bl, us)" by fastforce
    then have "bl \<noteq> []" using pack_step_nonempty [OF Cons.prems] by (metis fst_conv)
    then show ?case using Cons.IH [of bl us] Cons.prems st by (simp add: pack_step_map)
  qed simp
  from this [of "[[]]" 0] show ?thesis by (simp add: pack_groups_def)
qed

definition entry_size :: "dentry list \<Rightarrow> hashed \<Rightarrow> nat" where
  "entry_size entries = (\<lambda>(_, _, i). dentry_rec_len (entries ! i))"

definition hash_groups :: "dentry list \<Rightarrow> hashed list \<Rightarrow> hashed list list" where
  "hash_groups entries hs = map (map fst) (pack_groups USABLE (entry_size entries) hs)"

lemma pack_leaves_groups:
  "pack_leaves entries hs = map (map (\<lambda>(_, _, i). i)) (hash_groups entries hs)"
proof -
  have "(\<lambda>x. dentry_rec_len (entries ! (case x of (_, _, i) \<Rightarrow> i))) = entry_size entries"
    by (auto simp: entry_size_def)
  then show ?thesis
    by (simp add: pack_leaves_def hash_groups_def pack_groups_map comp_def split_beta)
qed

lemma hash_entries_index:
  "set (hash_entries seed entries) = hash_entry seed ` set (enumerate 0 entries)"
  "mset (hash_entries seed entries) = mset (map (hash_entry seed) (enumerate 0 entries))"
  "sorted (hash_entries seed entries)" "length (hash_entries seed entries) = length entries"
  by (simp_all add: hash_entries_def)

lemma hash_entry_unfold:
  "hash_entry seed (i, e) = (fst (half_md4 seed Signed (fst e)), snd (half_md4 seed Signed (fst e)), i)"
  by (simp add: hash_entry_def split_beta)

text \<open>A hashed entry carries the index of an entry and that entry's hash.\<close>

lemma hash_entries_mem:
  assumes "(h, m, i) \<in> set (hash_entries seed entries)"
  shows "i < length entries" "half_md4 seed Signed (fst (entries ! i)) = (h, m)"
  using assms by (auto simp: hash_entries_index(1) in_set_enumerate_eq hash_entry_unfold)

lemma hash_entries_perm:
  "mset (map (\<lambda>(_, _, i). entries ! i) (hash_entries seed entries)) = mset entries"
proof -
  have "mset (map (\<lambda>(_, _, i). entries ! i) (hash_entries seed entries)) =
    mset (map (\<lambda>(_, _, i). entries ! i) (map (hash_entry seed) (enumerate 0 entries)))"
    by (simp only: mset_map hash_entries_index(2))
  also have "map (\<lambda>(_, _, i). entries ! i) (map (hash_entry seed) (enumerate 0 entries)) = entries"
    by (rule nth_equalityI) (simp_all add: nth_enumerate_eq hash_entry_unfold)
  finally show ?thesis .
qed

lemma hash_groups_props:
  fixes seed :: hash_seed
  assumes "\<forall>e\<in>set entries. dentry_ok e" "entries \<noteq> []"
  defines "hs \<equiv> hash_entries seed entries"
  shows "concat (hash_groups entries hs) = hs" "[] \<notin> set (hash_groups entries hs)"
    "hash_groups entries hs \<noteq> []"
    "\<forall>g\<in>set (hash_groups entries hs). sum_list (map (entry_size entries) g) \<le> USABLE"
proof -
  have "\<forall>x\<in>set hs. entry_size entries x \<le> USABLE \<and> 0 < entry_size entries x"
  proof (intro ballI)
    fix x assume "x \<in> set hs"
    then obtain h m i where x: "x = (h, m, i)" "i < length entries"
      using hash_entries_mem(1) [of _ _ _ seed entries] unfolding hs_def by (metis prod_cases3)
    then show "entry_size entries x \<le> USABLE \<and> 0 < entry_size entries x"
      using dentry_fits [of "entries ! i"] assms(1) by (simp add: entry_size_def)
  qed
  note p = pack_groups_props [OF this]
  have hs: "hs \<noteq> []" using assms(2) hash_entries_index(4) [of seed entries] by (auto simp: hs_def)
  show "concat (hash_groups entries hs) = hs"
    using arg_cong [OF p(1), of "map fst"] by (simp add: hash_groups_def map_concat comp_def)
  show "[] \<notin> set (hash_groups entries hs)" "hash_groups entries hs \<noteq> []"
    using p(3) [OF hs] p(4) by (auto simp: hash_groups_def)
  show "\<forall>g\<in>set (hash_groups entries hs). sum_list (map (entry_size entries) g) \<le> USABLE"
  proof
    fix g assume "g \<in> set (hash_groups entries hs)"
    then obtain q where q: "q \<in> set (pack_groups USABLE (entry_size entries) hs)" "g = map fst q"
      by (auto simp: hash_groups_def)
    then have "set q \<subseteq> set (map (\<lambda>x. (x, entry_size entries x)) hs)"
      using p(1) by (metis UN_I set_concat subsetI)
    then have "\<forall>x\<in>set q. entry_size entries (fst x) = snd x" by fastforce
    then have "map (entry_size entries) g = map snd q" using q(2) by simp
    then show "sum_list (map (entry_size entries) g) \<le> USABLE"
      using p(2) q(1) by (simp add: group_size_def)
  qed
qed

section \<open>The index is sound\<close>

fun leaf_dx_of :: "nat \<Rightarrow> u32 option \<Rightarrow> hashed list list \<Rightarrow> dx list" where
  "leaf_dx_of k prev [] = []"
| "leaf_dx_of k prev (g # gs) =
    (if 0 < k \<and> prev = Some (fst (hd g)) then fst (hd g) OR 1 else fst (hd g), of_nat (k + 1)) #
    leaf_dx_of (k + 1) (Some (fst (last g))) gs"

lemma leaf_dx_loop_groups:
  "[] \<notin> set gs \<Longrightarrow> hs = pre @ concat gs \<Longrightarrow>
   leaf_dx_loop hs k (length pre) prev (map (map (\<lambda>(_, _, i). i)) gs) = Inr (leaf_dx_of k prev gs)"
proof (induction gs arbitrary: k pre prev)
  case (Cons g gs)
  then have g: "g \<noteq> []" by auto
  have h: "hs ! length pre = hd g" "length pre < length hs"
    using Cons.prems(2) g by (simp_all add: nth_append hd_conv_nth)
  have l: "hs ! (length pre + length g - 1) = last g" "length pre + length g \<le> length hs"
    "length pre + length g \<noteq> 0"
    using Cons.prems(2) g by (cases g rule: rev_cases; simp add: nth_append)+
  have "leaf_dx_loop hs (k + 1) (length (pre @ g)) (Some (fst (last g))) (map (map (\<lambda>(_, _, i). i)) gs) =
      Inr (leaf_dx_of (k + 1) (Some (fst (last g))) gs)"
    using Cons.prems by (intro Cons.IH) simp_all
  then show ?case using h l by (simp add: Let_def)
qed simp

lemma length_leaf_dx_of [simp]: "length (leaf_dx_of k prev gs) = length gs"
  by (induction gs arbitrary: k prev) auto

lemma leaf_dx_of_block: "i < length gs \<Longrightarrow> snd (leaf_dx_of k prev gs ! i) = of_nat (k + i + 1)"
proof (induction gs arbitrary: k prev i)
  case (Cons g gs)
  then show ?case by (cases i) (simp_all add: ac_simps)
qed simp

lemma leaf_dx_of_hash:
  "Suc i < length gs \<Longrightarrow> fst (leaf_dx_of k prev gs ! Suc i) =
    (if fst (last (gs ! i)) = fst (hd (gs ! Suc i)) then fst (hd (gs ! Suc i)) OR 1
     else fst (hd (gs ! Suc i)))"
proof (induction gs arbitrary: k prev i)
  case (Cons g gs)
  then obtain g' gs' where gs: "gs = g' # gs'" by (cases gs) auto
  show ?case
  proof (cases i)
    case 0
    then show ?thesis by (simp add: gs)
  next
    case (Suc j)
    then show ?thesis using Cons.IH [of j "k + 1" "Some (fst (last g))"] Cons.prems by simp
  qed
qed simp

text \<open>
  The hashes an index entry admits: from its own hash up to the next entry's, the collision bit of
  which lets the boundary hash in. The reader's verifier checks leaves against these bounds.
\<close>

definition dx_lo :: "u32 \<Rightarrow> u32" where
  "dx_lo h = h AND NOT 1"

definition dx_hi :: "u32 \<Rightarrow> nat" where
  "dx_hi h = (if h AND 1 \<noteq> 0 then unat (h AND NOT 1) + 1 else unat (h AND NOT 1))"

lemma even_hash_bits:
  assumes "h AND 1 = (0 :: u32)"
  shows "h AND NOT 1 = h" "(h OR 1) AND NOT 1 = h" "(h OR 1) AND 1 = 1"
proof -
  have z: "bit h 0 = False" using assms by (simp add: and_one_eq odd_iff_mod_2_eq_one bit_0)
  show "h AND NOT 1 = h" "(h OR 1) AND NOT 1 = h" "(h OR 1) AND 1 = 1"
    by (rule bit_word_eqI; rename_tac n; case_tac "n = 0"; use z in \<open>simp add: bit_simps\<close>)+
qed

lemma sorted_fst_hashes: "sorted (hs :: hashed list) \<Longrightarrow> sorted (map fst hs)"
  by (induction hs) (auto simp: less_eq_prod_def)

lemma leaf_dx_bounds:
  assumes hs: "sorted (map fst (concat gs))" "[] \<notin> set gs" "\<forall>x\<in>set (concat gs). fst x AND 1 = 0"
    and i: "i < length gs" "x \<in> set (gs ! i)"
  defines "dx \<equiv> leaf_dx_of 0 None gs"
  shows "dx_lo (fst (dx ! i)) \<le> fst x"
    "Suc i < length gs \<Longrightarrow> unat (fst x) < dx_hi (fst (dx ! Suc i))"
proof -
  have ne: "gs ! j \<noteq> []" if "j < length gs" for j using hs(2) that by (metis nth_mem)
  have ev: "fst y AND 1 = 0" if "j < length gs" "y \<in> set (gs ! j)" for j y
    using hs(3) that by (auto intro: bexI [of _ "gs ! j"])
  have split: "concat gs = concat (take j gs) @ gs ! j @ concat (drop (Suc j) gs)" if "j < length gs" for j
    by (metis id_take_nth_drop [OF that] concat.simps(2) concat_append)
  have srt: "sorted (map fst (gs ! j))" if "j < length gs" for j
    using hs(1) split [OF that] by (simp add: sorted_append)
  obtain p where p: "p < length (gs ! i)" "x = gs ! i ! p" using i(2) by (metis in_set_conv_nth)
  have lo: "fst (hd (gs ! i)) \<le> fst x"
    using sorted_nth_mono [OF srt [OF i(1)], of 0 p] p ne [OF i(1)] by (simp add: hd_conv_nth)
  have hi: "fst x \<le> fst (last (gs ! i))"
    using sorted_nth_mono [OF srt [OF i(1)], of p "length (gs ! i) - 1"] p ne [OF i(1)]
    by (simp add: last_conv_nth)
  have hd_even: "fst (hd (gs ! j)) AND 1 = 0" if "j < length gs" for j using ev ne that by simp
  have "fst (dx ! i) \<in> {fst (hd (gs ! i)), fst (hd (gs ! i)) OR 1}"
  proof (cases i)
    case 0
    then show ?thesis using i(1) by (cases gs) (auto simp: dx_def)
  next
    case (Suc j)
    then show ?thesis using i(1) by (simp add: dx_def leaf_dx_of_hash)
  qed
  then show "dx_lo (fst (dx ! i)) \<le> fst x"
    using lo even_hash_bits [OF hd_even [OF i(1)]] by (auto simp: dx_lo_def)
  assume s: "Suc i < length gs"
  have "last (gs ! i) \<in> set (concat (take (Suc i) gs))" "hd (gs ! Suc i) \<in> set (gs ! Suc i)"
    using i(1) ne [OF i(1)] ne [OF s] by (auto simp: take_Suc_conv_app_nth)
  then have le: "fst (last (gs ! i)) \<le> fst (hd (gs ! Suc i))"
    using hs(1) split [OF s] by (auto simp: sorted_append)
  note e = even_hash_bits [OF hd_even [OF s]] hd_even [OF s]
  show "unat (fst x) < dx_hi (fst (dx ! Suc i))"
  proof (cases "fst (last (gs ! i)) = fst (hd (gs ! Suc i))")
    case True
    then have "fst (dx ! Suc i) = fst (hd (gs ! Suc i)) OR 1" using s by (simp add: dx_def leaf_dx_of_hash)
    then show ?thesis using e hi le by (simp add: dx_hi_def word_le_nat_alt)
  next
    case False
    then have d: "fst (dx ! Suc i) = fst (hd (gs ! Suc i))" using s by (simp add: dx_def leaf_dx_of_hash)
    have "fst x < fst (hd (gs ! Suc i))" using False hi le by order
    then show ?thesis using d e by (simp add: dx_hi_def word_less_nat_alt)
  qed
qed

section \<open>The rendered blocks parse\<close>

definition dx_words :: "dx list \<Rightarrow> u32 list" where
  "dx_words dx = concat (map (\<lambda>(h, k). [h, k]) dx)"

lemma length_dx_words [simp]: "length (dx_words dx) = 2 * length dx"
  by (induction dx) (auto simp: dx_words_def)

lemma nth_dx_words: "i < length dx \<Longrightarrow> dx_words dx ! (2 * i) = fst (dx ! i)"
  "i < length dx \<Longrightarrow> dx_words dx ! Suc (2 * i) = snd (dx ! i)"
proof -
  have "dx_words dx ! (2 * i) = fst (dx ! i) \<and> dx_words dx ! Suc (2 * i) = snd (dx ! i)" if "i < length dx"
    using that
  proof (induction dx arbitrary: i)
    case (Cons d dx)
    have u: "dx_words (d # dx) = fst d # snd d # dx_words dx" by (simp add: dx_words_def split_beta)
    show ?case using Cons.IH Cons.prems by (cases i) (simp_all add: u)
  qed simp
  then show "i < length dx \<Longrightarrow> dx_words dx ! (2 * i) = fst (dx ! i)"
    "i < length dx \<Longrightarrow> dx_words dx ! Suc (2 * i) = snd (dx ! i)" by auto
qed

lemma put_dx_poke: "put_dx buf off dx = poke buf off (concat (map to_le32 (dx_words dx)))"
proof -
  have "put_dx buf off dx = put_u32s buf off (dx_words dx)"
    by (induction buf off dx rule: put_dx.induct) (simp_all add: dx_words_def add.assoc)
  then show ?thesis by (simp add: put_u32s_poke)
qed

lemma put_dx_read:
  assumes "i < length dx" "off + 8 * length dx \<le> length buf"
  shows "le32 (put_dx buf off dx) (off + 8 * i) = fst (dx ! i)"
    "le32 (put_dx buf off dx) (off + 8 * i + 4) = snd (dx ! i)"
proof -
  let ?w = "concat (map to_le32 (dx_words dx))"
  have "peek (poke buf off ?w) (off + 4 * j) 4 = to_le32 (dx_words dx ! j)" if "j < 2 * length dx" for j
    using that assms peek_concat_le32 [of j "dx_words dx"] by (subst peek_poke_inside) simp_all
  from this [of "2 * i"] this [of "Suc (2 * i)"] assms(1)
  show "le32 (put_dx buf off dx) (off + 8 * i) = fst (dx ! i)"
    "le32 (put_dx buf off dx) (off + 8 * i + 4) = snd (dx ! i)"
    by (simp_all add: put_dx_poke le32_def nth_dx_words add_ac)
qed

text \<open>A finished index block parses to its entries and carries the checksum of itself.\<close>

definition dx_view :: "dx list \<Rightarrow> dx_entry list" where
  "dx_view dx = \<lparr>dx_hash = 0, dx_block = snd (hd dx)\<rparr> # map (\<lambda>(h, k). \<lparr>dx_hash = h, dx_block = k\<rparr>) (tl dx)"

lemma finish_dx_ok:
  assumes dx: "dx \<noteq> []" "length dx \<le> limit" and l: "limit < 65536" "co + 8 * limit + 8 \<le> length buf"
  obtains b where "finish_dx crc iseed buf co limit dx = Inr b" "length b = length buf"
    "\<And>i. i < co \<Longrightarrow> b ! i = buf ! i"
    "\<And>what. dx_parse_entries b co what = Inr (of_nat limit, of_nat (length dx), dx_view dx,
       dx_block_sum crc iseed b co (of_nat (length dx)) (of_nat limit))"
proof -
  obtain d ds where d: "dx = d # ds" using dx(1) by (cases dx) auto
  let ?b0 = "put_u32 (put_u16 (put_u16 buf co (of_nat limit)) (co + 2) (of_nat (length dx))) (co + 4) (snd (hd dx))"
  define b1 where "b1 = put_dx ?b0 (co + 8) ds"
  let ?n = "of_nat (length dx) :: u16" and ?l = "of_nat limit :: u16"
  have n: "unat ?n = length dx" "unat ?l = limit" using dx(2) l(1) by (simp_all add: unat_of_nat)
  define c where "c = dx_block_sum crc iseed b1 co ?n ?l"
  define b where "b = put_u32 b1 (co + limit * 8 + 4) c"
  have len: "length b1 = length buf" "length b = length buf" by (simp_all add: b1_def b_def put_dx_poke)
  have fin: "finish_dx crc iseed buf co limit dx = Inr b"
    using dx l n len d
    by (simp add: finish_dx_def write_countlimit_entries_def csum_dx_block_def store_u32_def b_def c_def
        b1_def Let_def)
  have "dx_block_sum crc iseed b co ?n ?l = c" "le32 b (co + limit * 8 + 4) = c"
    using dx_csum.sum_stamp [of ?n ?l co b1 crc iseed c] dx_csum.stored_stamp [of ?n ?l co b1 c] dx l n len
    by (simp_all add: b_def c_def word_le_nat_alt mult.commute)
  note sum = this
  have rd: "le32 b (co + 8 * i) = fst (dx ! i)" "le32 b (co + 8 * i + 4) = snd (dx ! i)"
    if i: "0 < i" "i < length dx" for i
  proof -
    obtain j where j: "i = Suc j" using i by (cases i) auto
    have "le32 b (co + 8 * i) = le32 b1 (co + 8 * i)" "le32 b (co + 8 * i + 4) = le32 b1 (co + 8 * i + 4)"
      using i dx l by (auto simp: b_def put_unfold intro!: le_poke_disj)
    then show "le32 b (co + 8 * i) = fst (dx ! i)" "le32 b (co + 8 * i + 4) = snd (dx ! i)"
      using put_dx_read [of j ds "co + 8" ?b0] i j d dx l by (simp_all add: b1_def ac_simps)
  qed
  have hd: "le16 b co = ?l" "le16 b (co + 2) = ?n" "le32 b (co + 4) = snd (hd dx)"
    using dx l d by (simp_all add: b_def b1_def put_dx_poke buf_simps)
  have "map (\<lambda>i. \<lparr>dx_hash = le32 b (co + 8 * i), dx_block = le32 b (co + 8 * i + 4)\<rparr>) [1..<length dx] =
    map (\<lambda>(h, k). \<lparr>dx_hash = h, dx_block = k\<rparr>) (tl dx)"
  proof (rule nth_equalityI)
    fix i assume "i < length (map (\<lambda>i. \<lparr>dx_hash = le32 b (co + 8 * i), dx_block = le32 b (co + 8 * i + 4)\<rparr>) [1..<length dx])"
    then show "map (\<lambda>i. \<lparr>dx_hash = le32 b (co + 8 * i), dx_block = le32 b (co + 8 * i + 4)\<rparr>) [1..<length dx] ! i =
        map (\<lambda>(h, k). \<lparr>dx_hash = h, dx_block = k\<rparr>) (tl dx) ! i"
      using rd [of "Suc i"] by (simp add: nth_tl split_beta add_ac)
  qed simp
  then have "dx_parse_entries b co what = Inr (?l, ?n, dx_view dx, dx_block_sum crc iseed b co ?n ?l)" for what
    using hd n dx l len sum by (simp add: dx_parse_entries_def dx_view_def Let_def word_less_nat_alt unat_eq_zero [symmetric] mult.commute)
  moreover have "b ! i = buf ! i" if "i < co" for i
    using that l by (simp add: b_def b1_def put_dx_poke put_unfold nth_poke)
  ultimately show ?thesis using that fin len(2) by blast
qed
lemma prefix_reads:
  assumes "length b = length buf" "\<And>i. i < co \<Longrightarrow> b ! i = buf ! i"
  shows "off + 2 \<le> co \<Longrightarrow> le16 b off = le16 buf off" "off + 4 \<le> co \<Longrightarrow> le32 b off = le32 buf off"
    "off + n \<le> co \<Longrightarrow> peek b off n = peek buf off n"
proof -
  have "peek b off n = peek buf off n" if "off + n \<le> co" for off n
    by (rule peek_eqI) (use assms that in auto)
  then show "off + 2 \<le> co \<Longrightarrow> le16 b off = le16 buf off" "off + 4 \<le> co \<Longrightarrow> le32 b off = le32 buf off"
    "off + n \<le> co \<Longrightarrow> peek b off n = peek buf off n"
    by (simp_all add: le16_def le32_def)
qed

definition index_root_ok :: "crc \<Rightarrow> u32 \<Rightarrow> u32 \<Rightarrow> u32 \<Rightarrow> u8 \<Rightarrow> dx list \<Rightarrow> bytes \<Rightarrow> bool" where
  "index_root_ok crc iseed self_ino parent_ino levels dx b \<longleftrightarrow> length b = BLOCK_SIZE \<and>
    le32 b 0 = self_ino \<and> b ! 7 = ft_DIR \<and> le32 b 0x0C = parent_ino \<and> b ! 0x13 = ft_DIR \<and>
    dx_root_parse b = Inr \<lparr>dxr_info = \<lparr>dxi_hash_version = 1, dxi_info_length = 8,
        dxi_indirect_levels = levels, dxi_unused_flags = 0\<rparr>,
      dxr_limit = 507, dxr_count = of_nat (length dx), dxr_entries = dx_view dx,
      dxr_checksum = dx_block_sum crc iseed b ROOT_COUNT_OFFSET (of_nat (length dx)) 507\<rparr>"

lemma root_block_ok:
  assumes "self_ino \<noteq> 0" "parent_ino \<noteq> 0" "levels \<le> 1" "dx \<noteq> []" "length dx \<le> 507"
  shows "\<exists>b. root_block crc iseed self_ino parent_ino levels dx = Inr b \<and>
    index_root_ok crc iseed self_ino parent_ino levels dx b"
proof -
  define buf where "buf = (let root = zeros_buf BLOCK_SIZE;
         root = put_u32 root 0 self_ino;
         root = put_u16 root 4 12;
         root = put_u8 root 6 1;
         root = put_u8 root 7 ft_DIR;
         root = put_u8 root 8 0x2E;
         root = put_u32 root 0x0C parent_ino;
         root = put_u16 root 0x10 (of_nat (BLOCK_SIZE - 12));
         root = put_u8 root 0x12 2;
         root = put_u8 root 0x13 ft_DIR;
         root = put_u8 root 0x14 0x2E;
         root = put_u8 root 0x15 0x2E;
         root = put_u8 root 0x1C 1;
         root = put_u8 root 0x1D 8
     in put_u8 root 0x1E levels)"
  have len: "length buf = 4096" by (simp add: buf_def Let_def)
  have f: "le32 buf 0 = self_ino" "buf ! 7 = 2" "le32 buf 12 = parent_ino" "buf ! 19 = 2"
    "peek buf 8 1 = [0x2E]" "le32 buf 24 = 0" "buf ! 28 = 1" "buf ! 29 = 8"
    "buf ! 30 = levels" "buf ! 31 = 0"
    by (simp_all add: buf_def Let_def buf_simps)
  have "buf ! 20 = 0x2E" "buf ! 21 = 0x2E" by (simp_all add: buf_def Let_def buf_simps)
  then have dd: "peek buf 20 2 = [0x2E, 0x2E]" using len
    by (intro nth_equalityI) (auto simp: nth_peek less_2_cases_iff)
  obtain b where b: "finish_dx crc iseed buf 0x20 507 dx = Inr b" "length b = length buf"
    "\<And>i. i < 0x20 \<Longrightarrow> b ! i = buf ! i"
    "\<And>what. dx_parse_entries b 0x20 what = Inr (of_nat 507, of_nat (length dx), dx_view dx,
       dx_block_sum crc iseed b 0x20 (of_nat (length dx)) (of_nat 507))"
    by (rule finish_dx_ok [where dx = dx and limit = 507 and co = 32 and buf = buf and crc = crc and iseed = iseed]) (use assms len in auto)
  note r = prefix_reads [where co = 32, OF b(2,3)]
  have "index_root_ok crc iseed self_ino parent_ino levels dx b"
    using r(2) [where off = 0] r(2) [where off = 12] r(2) [where off = 24] r(3) [where off = 8 and n = 1] r(3) [where off = 20 and n = 2] b f dd len assms(1-3)
    by (simp add: index_root_ok_def dx_root_parse_def Let_def not_less)
  moreover have "root_block crc iseed self_ino parent_ino levels dx = Inr b"
    using b(1) by (simp add: root_block_def buf_def Let_def)
  ultimately show ?thesis by blast
qed

definition node_ok :: "crc \<Rightarrow> u32 \<Rightarrow> bytes \<Rightarrow> dx list \<Rightarrow> bool" where
  "node_ok crc iseed b dx \<longleftrightarrow> length b = BLOCK_SIZE \<and> le32 b 0 = 0 \<and> unat (le16 b 4) = BLOCK_SIZE \<and>
    dx_node_parse b = Inr \<lparr>dxn_limit = 510, dxn_count = of_nat (length dx), dxn_entries = dx_view dx,
      dxn_checksum = dx_block_sum crc iseed b NODE_COUNT_OFFSET (of_nat (length dx)) 510\<rparr>"

lemma node_block_ok:
  assumes "dx \<noteq> []" "length dx \<le> 510"
  shows "\<exists>b. node_block crc iseed dx = Inr b \<and> node_ok crc iseed b dx"
proof -
  let ?buf = "put_u16 (zeros_buf BLOCK_SIZE) 4 (of_nat BLOCK_SIZE)"
  have f: "le32 ?buf 0 = 0" "le16 ?buf 4 = 4096" by (simp_all add: buf_simps)
  obtain b where b: "finish_dx crc iseed ?buf 8 510 dx = Inr b" "length b = length ?buf"
    "\<And>i. i < 8 \<Longrightarrow> b ! i = ?buf ! i"
    "\<And>what. dx_parse_entries b 8 what = Inr (of_nat 510, of_nat (length dx), dx_view dx,
       dx_block_sum crc iseed b 8 (of_nat (length dx)) (of_nat 510))"
    by (rule finish_dx_ok [where dx = dx and limit = 510 and co = 8 and buf = ?buf and crc = crc and iseed = iseed]) (use assms in auto)
  note r = prefix_reads [where co = 8, OF b(2,3)]
  have g: "le32 b 0 = 0" "le16 b 4 = 4096" "length b = 4096" using r(2) [where off = 0] r(1) [where off = 4] f b(2) by simp_all
  have "node_ok crc iseed b dx" using g b(4) by (simp add: node_ok_def dx_node_parse_def)
  moreover have "node_block crc iseed dx = Inr b" using b(1) by (simp add: node_block_def)
  ultimately show ?thesis by blast
qed

lemma leaf_block_ok:
  assumes g: "g \<noteq> []" "\<forall>(h, m, i)\<in>set g. dentry_ok (entries ! i)" "sum_list (map (entry_size entries) g) \<le> USABLE"
  shows "\<exists>b. leaf_block crc iseed entries (map (\<lambda>(_, _, i). i) g) = Inr b \<and>
    dir_block_ok crc iseed b (map (\<lambda>(_, _, i). entries ! i) g)"
proof -
  let ?rs = "map (\<lambda>i. (entries ! i, dentry_rec_len (entries ! i))) (map (\<lambda>(_, _, i). i) g)"
  have "map snd ?rs = map (entry_size entries) g" by (auto simp: entry_size_def)
  then have "group_size ?rs = sum_list (map (entry_size entries) g)" by (simp only: group_size_def)
  then have ok: "group_ok ?rs" using g(2,3) by (auto simp: group_ok_def)
  have ne: "?rs \<noteq> []" using g(1) by simp
  obtain b where b: "write_records (zeros_buf BLOCK_SIZE) 0 ?rs = Inr b" "block_holds (put_tail b) (map fst ?rs)"
    using records_block_holds [OF ok ne] by blast
  have len: "length b = 4096" using b(2) by (simp add: block_holds_def)
  have "leaf_block crc iseed entries (map (\<lambda>(_, _, i). i) g) =
      Inr (stamp_tail (put_tail b) (dirent_block_sum crc iseed (put_tail b)))"
    using b(1) len by (simp add: leaf_block_def csum_dirent_block_def store_u32_def stamp_tail_def Let_def)
  moreover have "map fst ?rs = map (\<lambda>(_, _, i). entries ! i) g" by auto
  then have "dir_block_ok crc iseed (stamp_tail (put_tail b) (dirent_block_sum crc iseed (put_tail b)))
      (map (\<lambda>(_, _, i). entries ! i) g)"
    using block_holds_sealed [OF b(2), of crc iseed] by (simp only:)
  ultimately show ?thesis by blast
qed

section \<open>What the build produces\<close>

lemma length_node_dx [simp]: "length (node_dx k gs) = length gs"
  by (simp add: node_dx_def)

definition entry_of_hash :: "dentry list \<Rightarrow> hashed \<Rightarrow> dentry" where
  "entry_of_hash entries = (\<lambda>(_, _, i). entries ! i)"

text \<open>What building a directory produces, by the number of leaves.\<close>

lemma htree_build_result:
  fixes seed :: hash_seed and crc :: crc and fseed self_ino parent_ino :: u32
  assumes ok: "\<forall>e\<in>set entries. dentry_ok e" "entries \<noteq> []" and ino: "self_ino \<noteq> 0" "parent_ino \<noteq> 0"
  defines "iseed \<equiv> inode_seed crc fseed self_ino 0"
    and "gs \<equiv> hash_groups entries (hash_entries seed entries)"
    and "dx \<equiv> leaf_dx_of 0 None (hash_groups entries (hash_entries seed entries))"
    and "res \<equiv> htree_build crc self_ino parent_ino entries seed fseed"
  shows "length gs \<le> 507 \<Longrightarrow> \<exists>root leaves. res = Inr (root # leaves) \<and>
      index_root_ok crc iseed self_ino parent_ino 0 dx root \<and>
      list_all2 (dir_block_ok crc iseed) leaves (map (map (entry_of_hash entries)) gs)"
    "507 < length gs \<Longrightarrow> length gs \<le> 507 * 510 \<Longrightarrow> \<exists>root leaves nodes. res = Inr (root # leaves @ nodes) \<and>
      index_root_ok crc iseed self_ino parent_ino 1 (node_dx (1 + length gs) (chunks 510 dx)) root \<and>
      list_all2 (dir_block_ok crc iseed) leaves (map (map (entry_of_hash entries)) gs) \<and>
      list_all2 (node_ok crc iseed) nodes (chunks 510 dx)"
    "507 * 510 < length gs \<Longrightarrow>
      res = Inl (Err (Unsupported ''directory needs more than a 2-level htree (largedir)''))"
proof -
  let ?hs = "hash_entries seed entries" and ?idx = "\<lambda>(_, _, i). i :: nat"
  note g = hash_groups_props [OF ok, of seed, folded gs_def]
  have leaves: "pack_leaves entries ?hs = map (map ?idx) gs" by (simp add: pack_leaves_groups gs_def)
  have loop: "leaf_dx_loop ?hs 0 0 None (map (map ?idx) gs) = Inr dx"
    using leaf_dx_loop_groups [OF g(2), of ?hs "[]" 0 None] g(1) by (simp add: dx_def gs_def)
  have "\<exists>b. leaf_block crc iseed entries (map ?idx q) = Inr b \<and>
      dir_block_ok crc iseed b (map (entry_of_hash entries) q)" if q: "q \<in> set gs" for q
  proof -
    have "set q \<subseteq> set (concat gs)" using q by auto
    then have "set q \<subseteq> set ?hs" using g(1) by simp
    then have "dentry_ok (entries ! i)" if "(h, m, i) \<in> set q" for h m i
      using hash_entries_mem(1) [of h m i seed entries] ok(1) that by auto
    then have "\<forall>(h, m, i)\<in>set q. dentry_ok (entries ! i)" by blast
    moreover have "q \<noteq> []" "sum_list (map (entry_size entries) q) \<le> USABLE" using g(2,4) q by blast+
    ultimately show ?thesis unfolding entry_of_hash_def by (intro leaf_block_ok)
  qed
  then obtain lb where lb: "mapE (leaf_block crc iseed entries) (map (map ?idx) gs) = Inr lb"
    "list_all2 (dir_block_ok crc iseed) lb (map (map (entry_of_hash entries)) gs)"
    using mapE_list_all2 [of gs "\<lambda>q. leaf_block crc iseed entries (map ?idx q)"
        "\<lambda>b q. dir_block_ok crc iseed b (map (entry_of_hash entries) q)"]
    by (auto simp: mapE_map list.rel_map)
  have len: "sum_list (map (length \<circ> map ?idx) gs) = length ?hs"
    using arg_cong [OF g(1), of length] by (simp add: length_concat comp_def)
  have ldx: "length dx = length gs" by (simp add: dx_def gs_def)
  have dx0: "dx \<noteq> []" using g(3) ldx by auto
  show "\<exists>root leaves. res = Inr (root # leaves) \<and>
      index_root_ok crc iseed self_ino parent_ino 0 dx root \<and>
      list_all2 (dir_block_ok crc iseed) leaves (map (map (entry_of_hash entries)) gs)"
    if "length gs \<le> 507"
    using root_block_ok [OF ino, of 0 dx crc iseed] dx0 ldx lb(2) that
    by (auto simp: res_def htree_build_def leaves loop lb(1) len dx_levels_def ldx simp flip: iseed_def)
  show "\<exists>root leaves nodes. res = Inr (root # leaves @ nodes) \<and>
      index_root_ok crc iseed self_ino parent_ino 1 (node_dx (1 + length gs) (chunks 510 dx)) root \<and>
      list_all2 (dir_block_ok crc iseed) leaves (map (map (entry_of_hash entries)) gs) \<and>
      list_all2 (node_ok crc iseed) nodes (chunks 510 dx)"
    if l: "507 < length gs" "length gs \<le> 507 * 510"
  proof -
    note c = chunks_props [of 510 dx]
    have n: "length (chunks 510 dx) \<le> 507" "chunks 510 dx \<noteq> []" using l c(4) ldx by auto
    have "\<exists>b. node_block crc iseed q = Inr b \<and> node_ok crc iseed b q" if "q \<in> set (chunks 510 dx)" for q
      using node_block_ok [of q crc iseed] c(2,3) that by auto
    then obtain nb where nb: "mapE (node_block crc iseed) (chunks 510 dx) = Inr nb"
      "list_all2 (node_ok crc iseed) nb (chunks 510 dx)"
      using mapE_list_all2 [of "chunks 510 dx" "node_block crc iseed" "node_ok crc iseed"] by blast
    have "node_dx (1 + length gs) (chunks 510 dx) \<noteq> []" using n(2) by (simp add: node_dx_def enumerate_eq_zip)
    then obtain rb where "root_block crc iseed self_ino parent_ino 1 (node_dx (1 + length gs) (chunks 510 dx)) = Inr rb"
      "index_root_ok crc iseed self_ino parent_ino 1 (node_dx (1 + length gs) (chunks 510 dx)) rb"
      using root_block_ok [OF ino, of 1 "node_dx (1 + length gs) (chunks 510 dx)" crc iseed] n(1) by auto
    note rb = this
    have "res = Inr (rb # lb @ nb)" using n(1) nb(1) rb(1) l
      by (simp add: res_def htree_build_def leaves loop lb(1) len dx_levels_def ldx Let_def flip: iseed_def)
    then show ?thesis using rb(2) lb(2) nb(2) by blast
  qed
  show "res = Inl (Err (Unsupported ''directory needs more than a 2-level htree (largedir)''))"
    if "507 * 510 < length gs"
  proof -
    have "508 \<le> (509 + length gs) div 510" using that by (simp add: less_eq_div_iff_mult_less_eq)
    then have "507 < length (chunks 510 dx)" using chunks_props(4) [of 510 dx] ldx by simp
    then show ?thesis using that ldx
      by (simp add: res_def htree_build_def leaves loop dx_levels_def Let_def)
  qed
qed

lemma hash_groups_length:
  fixes seed :: hash_seed
  assumes "\<forall>e\<in>set entries. dentry_ok e" "entries \<noteq> []"
  shows "length (hash_groups entries (hash_entries seed entries)) \<le> length entries"
proof -
  have "[] \<notin> set gs \<Longrightarrow> length gs \<le> length (concat gs)" for gs :: "'a list list"
  proof (induction gs)
    case (Cons g gs)
    then obtain x g' where "g = x # g'" by (cases g) auto
    then show ?case using Cons by simp
  qed simp
  from this [OF hash_groups_props(2) [OF assms, of seed]] show ?thesis
    using hash_groups_props(1) [OF assms, of seed] hash_entries_index(4) [of seed entries] by simp
qed

end
