(* ===== verification/Reader.thy ===== *)
theory Reader
  imports Superblock GroupDesc Inode Extent Dirent HtreeSpec Xattr Csum
begin

text \<open>
  The reader (src/src/reader/mod.rs): opening an image, walking extent trees, reading files,
  directories and attributes. A source is a function from an absolute offset and a length to the
  bytes there or an i/o error, which is all the trait \<^verbatim>\<open>ReadAt\<close> promises. Block
  numbers and byte offsets are \<^verbatim>\<open>u64\<close> in the code; they are natural numbers here, and
  every product or sum of them that can pass 64 bits goes through \<open>mul64\<close> and \<open>add64\<close>, which
  panic as checked arithmetic does.
\<close>

type_synonym source = "nat \<Rightarrow> nat \<Rightarrow> io_error + bytes"

definition read_at :: "source \<Rightarrow> nat \<Rightarrow> nat \<Rightarrow> bytes res" where
  "read_at src off n = (case src off n of Inl e \<Rightarrow> Inl (Err (Io e)) | Inr b \<Rightarrow> Inr b)"

definition slice_source :: "bytes \<Rightarrow> source" where
  "slice_source img off n =
    (if 2 ^ 64 \<le> off + n \<or> length img < off + n then Inl UnexpectedEof else Inr (peek img off n))"

definition mul64 :: "nat \<Rightarrow> nat \<Rightarrow> nat res" where
  "mul64 a b = (if a * b < 2 ^ 64 then Inr (a * b) else Inl Panic)"

definition add64 :: "nat \<Rightarrow> nat \<Rightarrow> nat res" where
  "add64 a b = (if a + b < 2 ^ 64 then Inr (a + b) else Inl Panic)"

record file_extent =
  fx_logical :: nat
  fx_physical :: nat
  fx_len :: nat
  fx_unwritten :: bool

record dir_entry =
  dir_inode :: u32
  dir_file_type :: u8
  dir_name :: bytes

record fs =
  fs_src :: source
  fs_sb :: superblock
  fs_gdt :: bytes
  fs_block_size :: nat
  fs_csum_seed :: u32

section \<open>Opening\<close>

text \<open>The geometry checks, in the order of the code.\<close>

definition check_geometry :: "superblock \<Rightarrow> unit res" where
  "check_geometry sb =
    bindE (guardE (unat (s_blocks_per_group sb) = BLOCKS_PER_GROUP)
             (Err (corrupt ''superblock'' ''blocks_per_group''))) (\<lambda>_.
    bindE (guardE (s_inodes_per_group sb \<noteq> 0 \<and> unat (s_inodes_per_group sb) \<le> BLOCKS_PER_GROUP)
             (Err (corrupt ''superblock'' ''inodes_per_group''))) (\<lambda>_.
    bindE (guardE (s_inode_size sb \<in> {128, 256, 512, 1024, 2048, 4096})
             (Err (corrupt ''superblock'' ''inode_size''))) (\<lambda>_.
    bindE (guardE (s_blocks_count sb \<noteq> 0) (Err (corrupt ''superblock'' ''zero block count''))) (\<lambda>_.
    bindE (superblock_group_count sb) (\<lambda>groups.
    bindE (mul64 (unat (s_inodes_per_group sb)) (unat groups)) (\<lambda>capacity.
    bindE (guardE (unat (s_inodes_count sb) \<le> capacity)
             (Err (corrupt ''superblock'' ''inodes_count exceeds groups * ipg''))) (\<lambda>_.
    bindE (mul64 (unat groups) (superblock_desc_size sb)) (\<lambda>table.
    guardE (table \<le> BLOCKS_PER_GROUP * BLOCK_SIZE)
      (Err (corrupt ''superblock'' ''group descriptor table too large''))))))))))"

definition open_seed :: "crc \<Rightarrow> superblock \<Rightarrow> u32" where
  "open_seed crc sb =
    (if s_feature_incompat sb AND incompat_CSUM_SEED \<noteq> 0 then s_checksum_seed sb
     else fs_seed crc (s_uuid sb))"

definition has_metadata_csum :: "superblock \<Rightarrow> bool" where
  "has_metadata_csum sb \<longleftrightarrow> s_feature_ro_compat sb AND ro_compat_METADATA_CSUM \<noteq> 0"

definition Fs_open :: "crc \<Rightarrow> source \<Rightarrow> fs res" where
  "Fs_open crc src =
    bindE (read_at src 1024 SB_LEN) (\<lambda>sb_bytes.
    bindE (superblock_decode sb_bytes) (\<lambda>sb.
    bindE (guardE (s_feature_incompat sb AND NOT incompat_READER = 0)
             (Err (Unsupported ''incompat features''))) (\<lambda>_.
    bindE (superblock_block_size sb) (\<lambda>block_size.
    bindE (guardE (block_size = of_nat BLOCK_SIZE) (Err (Unsupported ''block size''))) (\<lambda>_.
    bindE (check_geometry sb) (\<lambda>_.
    bindE (if has_metadata_csum sb
           then bindE (csum_superblock crc sb_bytes) (\<lambda>want.
                  guardE (want = s_checksum sb) (Err (corrupt ''superblock'' ''checksum'')))
           else Inr ()) (\<lambda>_.
    bindE (superblock_group_count sb) (\<lambda>groups.
    bindE (read_at src ((unat (s_first_data_block sb) + 1) * BLOCK_SIZE)
             (unat groups * superblock_desc_size sb)) (\<lambda>gdt.
    Inr \<lparr>fs_src = src, fs_sb = sb, fs_gdt = gdt, fs_block_size = BLOCK_SIZE,
         fs_csum_seed = open_seed crc sb\<rparr>)))))))))"

section \<open>Blocks, descriptors and inodes\<close>

definition read_block :: "fs \<Rightarrow> nat \<Rightarrow> bytes res" where
  "read_block f block =
    bindE (mul64 block (fs_block_size f)) (\<lambda>off. read_at (fs_src f) off (fs_block_size f))"

definition read_group_desc_raw :: "fs \<Rightarrow> nat \<Rightarrow> bytes res" where
  "read_group_desc_raw f g =
    (let ds = superblock_desc_size (fs_sb f)
     in bindE (mul64 g ds) (\<lambda>off.
        if off + ds > length (fs_gdt f) then Inl (Err (corrupt ''group'' ''out of range''))
        else Inr (peek (fs_gdt f) off ds)))"

definition read_group_desc :: "fs \<Rightarrow> nat \<Rightarrow> group_desc res" where
  "read_group_desc f g = bindE (read_group_desc_raw f g) group_desc_decode"

definition inode_raw :: "fs \<Rightarrow> u32 \<Rightarrow> bytes res" where
  "inode_raw f ino =
    (if ino = 0 \<or> ino > s_inodes_count (fs_sb f)
     then Inl (Err (corrupt ''inode'' ''out of range''))
     else
       let ipg = unat (s_inodes_per_group (fs_sb f));
           g = (unat ino - 1) div ipg;
           idx = (unat ino - 1) mod ipg;
           isize = unat (s_inode_size (fs_sb f))
       in bindE (read_group_desc f g) (\<lambda>desc.
          bindE (mul64 (unat (bg_inode_table desc)) (fs_block_size f)) (\<lambda>base.
          bindE (add64 base (idx * isize)) (\<lambda>off.
          read_at (fs_src f) off isize))))"

text \<open>With no room for the high half, only the low 16 bits of the checksum are compared.\<close>

definition check_inode_csum :: "crc \<Rightarrow> fs \<Rightarrow> u32 \<Rightarrow> bytes \<Rightarrow> inode \<Rightarrow> unit res" where
  "check_inode_csum crc f ino raw inode =
    (if has_metadata_csum (fs_sb f) then
       bindE (csum_inode crc (fs_csum_seed f) ino (i_generation inode) raw) (\<lambda>full.
       let (got, stored) =
         (if 4 \<le> i_extra_isize inode then (full, i_checksum inode)
          else (full AND 0xFFFF, i_checksum inode AND 0xFFFF))
       in guardE (got = stored) (Err (corrupt ''inode'' ''checksum'')))
     else Inr ())"

definition read_inode :: "crc \<Rightarrow> fs \<Rightarrow> u32 \<Rightarrow> inode res" where
  "read_inode crc f ino =
    bindE (inode_raw f ino) (\<lambda>raw.
    bindE (inode_decode raw) (\<lambda>inode.
    bindE (check_inode_csum crc f ino raw inode) (\<lambda>_. Inr inode)))"

section \<open>Extent trees\<close>

definition leaf_extent :: "bytes \<Rightarrow> file_extent res" where
  "leaf_extent e =
    (let ext = extent_decode e
     in if extent_is_empty ext then Inl (Err (corrupt ''extent tree'' ''zero-length extent''))
        else Inr \<lparr>fx_logical = unat (ee_logical ext), fx_physical = unat (ee_start ext),
                  fx_len = unat (extent_len ext), fx_unwritten = extent_is_unwritten ext\<rparr>)"

definition check_extent_block :: "crc \<Rightarrow> fs \<Rightarrow> u32 \<Rightarrow> inode \<Rightarrow> bytes \<Rightarrow> unit res" where
  "check_extent_block crc f ino inode child =
    (if has_metadata_csum (fs_sb f) then
       bindE (csum_extent_block crc (inode_seed crc (fs_csum_seed f) ino (i_generation inode)) child) (\<lambda>want.
       guardE (want = le32 child (length child - 4)) (Err (corrupt ''extent tree'' ''checksum mismatch'')))
     else Inr ())"

text \<open>The checks on a node's header: depth, expected depth, and the entry counts.\<close>

definition check_node :: "bytes \<Rightarrow> u16 option \<Rightarrow> extent_header res" where
  "check_node node expect_depth =
    bindE (extent_header_decode node) (\<lambda>h.
    if eh_depth h > 5 then Inl (Err (corrupt ''extent tree'' ''depth''))
    else if expect_depth \<noteq> None \<and> expect_depth \<noteq> Some (eh_depth h)
    then Inl (Err (corrupt ''extent tree'' ''child depth mismatch''))
    else
      let cap = (length node - HEADER_LEN) div ENTRY_LEN
      in if eh_entries h > eh_max h \<or> unat (eh_max h) > cap
         then Inl (Err (corrupt ''extent tree'' ''entries vs max vs cap''))
         else Inr h)"

lemma check_node_depth:
  "check_node node expect = Inr h \<Longrightarrow> eh_depth h \<le> 5 \<and> (expect = None \<or> expect = Some (eh_depth h))"
  by (auto simp: check_node_def res_simps Let_def not_less split: if_splits)

lemma u16_pred: "(d :: u16) \<noteq> 0 \<Longrightarrow> unat (d - 1) = unat d - 1 \<and> 0 < unat d"
  by (metis unat_gt_0 unat_minus_one)

text \<open>
  The walk: a child's depth is one less than its parent's, so forged trees cannot loop. Extents
  come out in tree order.
\<close>

function walk_extent_node ::
    "crc \<Rightarrow> fs \<Rightarrow> u32 \<Rightarrow> inode \<Rightarrow> bytes \<Rightarrow> u16 option \<Rightarrow> file_extent list res" where
  "walk_extent_node crc f ino inode node expect_depth =
    bindE (check_node node expect_depth) (\<lambda>h.
    bindE (mapE (\<lambda>i.
      bindE (extent_entry node i) (\<lambda>e.
      if eh_depth h = 0 then bindE (leaf_extent e) (\<lambda>x. Inr [x])
      else
        bindE (read_block f (unat (ei_leaf (extent_idx_decode e)))) (\<lambda>child.
        bindE (check_extent_block crc f ino inode child) (\<lambda>_.
        walk_extent_node crc f ino inode child (Some (eh_depth h - 1))))))
      [0..<unat (eh_entries h)]) (\<lambda>outs.
    Inr (concat outs)))"
  by pat_completeness auto
termination
  by (relation "measure (\<lambda>(crc, f, ino, inode, node, expect).
      case expect of None \<Rightarrow> 6 | Some d \<Rightarrow> unat d)")
    (auto simp: word_le_nat_alt u16_pred dest!: check_node_depth split: option.splits)

declare walk_extent_node.simps [simp del]

definition fs_extents :: "crc \<Rightarrow> fs \<Rightarrow> u32 \<Rightarrow> inode \<Rightarrow> file_extent list res" where
  "fs_extents crc f ino inode =
    (case extent_root inode of
       None \<Rightarrow> Inr []
     | Some root \<Rightarrow> walk_extent_node crc f ino inode root None)"

section \<open>Files\<close>

text \<open>
  The loop over the extents fills the part of the buffer each one covers; holes and unwritten
  extents stay zero. On an i/o error the caller gets the error only.
\<close>

fun fill_extents :: "fs \<Rightarrow> nat \<Rightarrow> nat \<Rightarrow> file_extent list \<Rightarrow> bytes \<Rightarrow> bytes res" where
  "fill_extents f offset want [] buf = Inr buf"
| "fill_extents f offset want (e # es) buf =
    (if fx_unwritten e then fill_extents f offset want es buf
     else
       let bs = fs_block_size f;
           ext_start = fx_logical e * bs;
           ext_end = ext_start + fx_len e * bs;
           start = max ext_start offset;
           fin = min ext_end (offset + want)
       in if fin \<le> start then fill_extents f offset want es buf
          else
            bindE (mul64 (fx_physical e) bs) (\<lambda>base.
            bindE (add64 base (start - ext_start)) (\<lambda>phys.
            bindE (read_at (fs_src f) phys (fin - start)) (\<lambda>dst.
            fill_extents f offset want es (poke buf (start - offset) dst)))))"

text \<open>The bytes read, at most \<open>len\<close> of them, short only at the end of the file.\<close>

definition read_file_at :: "fs \<Rightarrow> inode \<Rightarrow> file_extent list \<Rightarrow> nat \<Rightarrow> nat \<Rightarrow> bytes res" where
  "read_file_at f inode extents offset len =
    (if unat (i_size inode) \<le> offset then Inr []
     else
       let want = min (unat (i_size inode) - offset) len
       in fill_extents f offset want extents (zeros_buf want))"

text \<open>The buffer for a whole file is one vector: asking for more than \<open>isize::MAX\<close> bytes panics.\<close>

definition read_file :: "crc \<Rightarrow> fs \<Rightarrow> u32 \<Rightarrow> bytes res" where
  "read_file crc f ino =
    bindE (read_inode crc f ino) (\<lambda>inode.
    bindE (mul64 (unat (s_blocks_count (fs_sb f))) (fs_block_size f)) (\<lambda>limit.
    if unat (i_size inode) > limit then Inl (Err (corrupt ''inode'' ''size exceeds filesystem''))
    else bindE (fs_extents crc f ino inode) (\<lambda>extents.
         bindE (guardE (unat (i_size inode) < 2 ^ 63) Panic) (\<lambda>_.
         read_file_at f inode extents 0 (unat (i_size inode))))))"

definition symlink_target :: "crc \<Rightarrow> fs \<Rightarrow> u32 \<Rightarrow> bytes res" where
  "symlink_target crc f ino =
    bindE (read_inode crc f ino) (\<lambda>inode.
    case fast_symlink_target inode of
      Some t \<Rightarrow> Inr t
    | None \<Rightarrow>
        if fs_block_size f \<le> unat (i_size inode) then Inl (Err (corrupt ''symlink'' ''target size''))
        else read_file crc f ino)"

section \<open>Directories\<close>

definition file_block :: "file_extent list \<Rightarrow> nat \<Rightarrow> nat option" where
  "file_block extents logical =
    map_option (\<lambda>e. fx_physical e + (logical - fx_logical e))
      (find (\<lambda>e. fx_logical e \<le> logical \<and> logical < fx_logical e + fx_len e \<and> \<not> fx_unwritten e) extents)"

definition dir_entry_of :: "dir_entry_ref \<Rightarrow> dir_entry" where
  "dir_entry_of r = \<lparr>dir_inode = de_inode r, dir_file_type = de_file_type r, dir_name = de_name r\<rparr>"

text \<open>One block of a directory: the root of an index gives its two dot entries, an interior node
  of an index nothing, any other block its records.\<close>

definition dir_block_entries :: "bool \<Rightarrow> nat \<Rightarrow> bytes \<Rightarrow> dir_entry list res" where
  "dir_block_entries is_htree logical data =
    (if is_htree \<and> logical = 0 then
       bindE (dx_root_parse data) (\<lambda>_.
       Inr [\<lparr>dir_inode = le32 data 0, dir_file_type = data ! 7, dir_name = [0x2E]\<rparr>,
            \<lparr>dir_inode = le32 data 0x0C, dir_file_type = data ! 0x13, dir_name = [0x2E, 0x2E]\<rparr>])
     else if is_htree \<and> le32 data 0 = 0 \<and> unat (le16 data 4) = length data then Inr []
     else bindE (dirent_collect data) (\<lambda>rs. Inr (map dir_entry_of rs)))"

definition inode_is_htree :: "inode \<Rightarrow> bool" where
  "inode_is_htree inode \<longleftrightarrow> i_flags inode AND iflags_INDEX \<noteq> 0"

definition read_dir :: "crc \<Rightarrow> fs \<Rightarrow> u32 \<Rightarrow> dir_entry list res" where
  "read_dir crc f ino =
    bindE (read_inode crc f ino) (\<lambda>inode.
    if inode_file_type inode \<noteq> Dir then Inl (Err (corrupt ''directory'' ''not a dir''))
    else
      bindE (fs_extents crc f ino inode) (\<lambda>extents.
      bindE (mapE (\<lambda>logical.
          case file_block extents logical of
            None \<Rightarrow> Inl (Err (corrupt ''directory'' ''hole in directory''))
          | Some block \<Rightarrow>
              bindE (read_block f block) (dir_block_entries (inode_is_htree inode) logical))
        [0..<unat (i_size inode) div fs_block_size f]) (\<lambda>outs.
      Inr (concat outs))))"

definition fs_lookup :: "crc \<Rightarrow> fs \<Rightarrow> u32 \<Rightarrow> bytes \<Rightarrow> u32 option res" where
  "fs_lookup crc f dir_ino name =
    bindE (read_dir crc f dir_ino) (\<lambda>es.
    Inr (map_option dir_inode (find (\<lambda>e. dir_name e = name) es)))"

text \<open>The nonempty parts of a path between slashes.\<close>

fun split_path :: "bytes \<Rightarrow> bytes \<Rightarrow> bytes list" where
  "split_path part [] = (if part = [] then [] else [part])"
| "split_path part (c # cs) =
    (if c = 0x2F then (if part = [] then split_path [] cs else part # split_path [] cs)
     else split_path (part @ [c]) cs)"

fun resolve_parts :: "crc \<Rightarrow> fs \<Rightarrow> u32 \<Rightarrow> bytes list \<Rightarrow> u32 res" where
  "resolve_parts crc f ino [] = Inr ino"
| "resolve_parts crc f ino (part # parts) =
    bindE (fs_lookup crc f ino part) (\<lambda>r.
    case r of None \<Rightarrow> Inl (Err (Io NotFound)) | Some i \<Rightarrow> resolve_parts crc f i parts)"

definition fs_resolve :: "crc \<Rightarrow> fs \<Rightarrow> bytes \<Rightarrow> u32 res" where
  "fs_resolve crc f path = resolve_parts crc f ROOT_INO (split_path [] path)"

section \<open>Attributes and bitmaps\<close>

definition fs_xattrs :: "fs \<Rightarrow> u32 \<Rightarrow> xattr_entry list res" where
  "fs_xattrs f ino =
    bindE (inode_raw f ino) (\<lambda>raw.
    bindE (inode_decode raw) (\<lambda>inode.
    bindE (ibody_entries raw (i_extra_isize inode)) (\<lambda>out.
    if i_file_acl inode = 0 then Inr out
    else
      bindE (read_block f (unat (i_file_acl inode))) (\<lambda>block.
      bindE (xattr_block_parse block) (\<lambda>view. Inr (out @ xb_entries view))))))"

text \<open>A bit of a bitmap block: \<^verbatim>\<open>bitmap[i / 8] & (1 << (i % 8)) != 0\<close>.\<close>

definition bitmap_bit :: "bytes \<Rightarrow> nat \<Rightarrow> bool" where
  "bitmap_bit bitmap i \<longleftrightarrow> bitmap ! (i div 8) AND push_bit (i mod 8) 1 \<noteq> 0"

definition inode_in_use :: "fs \<Rightarrow> u32 \<Rightarrow> bool res" where
  "inode_in_use f ino =
    (if ino = 0 then Inl Panic
     else
       let ipg = unat (s_inodes_per_group (fs_sb f));
           g = (unat ino - 1) div ipg;
           idx = (unat ino - 1) mod ipg
       in bindE (read_group_desc f g) (\<lambda>desc.
          if bg_flags desc AND bg_INODE_UNINIT \<noteq> 0 then Inr False
          else bindE (read_block f (unat (bg_inode_bitmap desc))) (\<lambda>bitmap.
               Inr (bitmap_bit bitmap idx))))"

end
