(* ===== verification/ReaderSafe.thy ===== *)
theory ReaderSafe
  imports Reader
begin

text \<open>
  What the reader guarantees on images it did not write: everything it returns from an opened
  filesystem is a value or an error value, never a panic, as long as the block addresses of the
  group descriptors stay below \<open>2\<^sup>5\<^sup>1\<close> blocks (a 32-byte descriptor cannot hold a larger one).
  The proofs go through one collection of introduction rules, one for each decoder and combinator.
\<close>

definition no_panic :: "'a res \<Rightarrow> bool" where
  "no_panic r \<longleftrightarrow> r \<noteq> Inl Panic"

named_theorems no_panic \<open>operations that do not panic\<close>

lemma no_panic_basic [no_panic, simp]: "no_panic (Inr x)" "no_panic (Inl (Err e))"
  by (simp_all add: no_panic_def)

lemma no_panic_bind [no_panic]:
  "no_panic m \<Longrightarrow> (\<And>x. m = Inr x \<Longrightarrow> no_panic (f x)) \<Longrightarrow> no_panic (bindE m f)"
  by (auto simp: no_panic_def res_simps)

lemma no_panic_guard [no_panic]: "no_panic (guardE c (Err e))"
  by (auto simp: no_panic_def res_simps)

lemma no_panic_if [no_panic]: "(c \<Longrightarrow> no_panic a) \<Longrightarrow> (\<not> c \<Longrightarrow> no_panic b) \<Longrightarrow> no_panic (if c then a else b)"
  by simp

lemma no_panic_mapE [no_panic]: "(\<And>x. x \<in> set xs \<Longrightarrow> no_panic (f x)) \<Longrightarrow> no_panic (mapE f xs)"
proof (induction xs)
  case (Cons x xs)
  then show ?case by (auto intro!: no_panic_bind)
qed simp

lemma no_panic_read_at [no_panic]: "no_panic (read_at src off n)"
  by (auto simp: read_at_def split: sum.splits)

lemma no_panic_mul64: "a * b < 2 ^ 64 \<Longrightarrow> no_panic (mul64 a b)"
  by (simp add: mul64_def)

lemma no_panic_add64: "a + b < 2 ^ 64 \<Longrightarrow> no_panic (add64 a b)"
  by (simp add: add64_def)

section \<open>Decoders\<close>

lemma no_panic_decoders [no_panic]:
  "no_panic (superblock_decode b)" "no_panic (group_desc_decode b)" "no_panic (inode_decode b)"
  "no_panic (extent_header_decode b)"
  by (simp_all add: superblock_decode_def group_desc_decode_def inode_decode_def
      extent_header_decode_def Let_def)

lemma no_panic_xattr_from [no_panic]: "no_panic (xattr_parse_from region base off out)"
proof (induction region base off out rule: xattr_parse_from.induct)
  case (1 region base off out)
  then show ?case by (subst xattr_parse_from.simps) (simp add: Let_def)
qed

lemma no_panic_xattr [no_panic]: "no_panic (ibody_entries raw n)" "no_panic (xattr_block_parse b)"
  by (auto simp: ibody_entries_def xattr_block_parse_def xattr_parse_entries_def Let_def intro!: no_panic)

lemma no_panic_dx [no_panic]:
  "no_panic (dx_parse_entries b off what)" "no_panic (dx_root_parse b)" "no_panic (dx_node_parse b)"
proof -
  show 1: "no_panic (dx_parse_entries b off what)" for b off what
    by (simp add: dx_parse_entries_def Let_def)
  show "no_panic (dx_root_parse b)" "no_panic (dx_node_parse b)"
    by (auto simp: dx_root_parse_def dx_node_parse_def Let_def intro!: no_panic 1)
qed

lemma dirent_next_no_panic: "dirent_next it = (Some r, it') \<Longrightarrow> no_panic r"
proof (induction it rule: dirent_next.induct)
  case (1 it)
  then show ?case by (subst (asm) (2) dirent_next.simps) (auto simp: Let_def split: if_splits)
qed

lemma dirent_items_no_panic: "\<forall>r\<in>set (dirent_items it). no_panic r"
proof (induction it rule: dirent_items.induct)
  case (1 it)
  show ?case
  proof (cases "dirent_next it")
    case (Pair o' it')
    then show ?thesis using 1 dirent_next_no_panic [of it]
      by (subst dirent_items.simps) (auto split: option.splits)
  qed
qed

lemma no_panic_dirents [no_panic]: "no_panic (dirent_collect b)"
  using dirent_items_no_panic by (auto simp: dirent_collect_def intro!: no_panic_mapE)

section \<open>The source and the opened filesystem\<close>

text \<open>The contract of \<^verbatim>\<open>ReadAt\<close>: a successful read fills the whole buffer.\<close>

definition source_ok :: "source \<Rightarrow> bool" where
  "source_ok src \<longleftrightarrow> (\<forall>off n b. src off n = Inr b \<longrightarrow> length b = n)"

lemma read_at_length: "source_ok src \<Longrightarrow> read_at src off n = Inr b \<Longrightarrow> length b = n"
  by (auto simp: read_at_def source_ok_def split: sum.splits)

lemma slice_source_ok: "source_ok (slice_source img)"
  by (auto simp: source_ok_def slice_source_def split: if_splits)

text \<open>What opening establishes once and for all.\<close>

definition fs_wf :: "fs \<Rightarrow> bool" where
  "fs_wf f \<longleftrightarrow> source_ok (fs_src f) \<and> fs_block_size f = BLOCK_SIZE \<and>
    s_inodes_per_group (fs_sb f) \<noteq> 0 \<and> unat (s_inodes_per_group (fs_sb f)) \<le> BLOCKS_PER_GROUP \<and>
    s_inode_size (fs_sb f) \<in> {128, 256, 512, 1024, 2048, 4096} \<and>
    s_feature_incompat (fs_sb f) AND NOT incompat_READER = 0 \<and>
    (\<exists>groups. superblock_group_count (fs_sb f) = Inr groups \<and>
      length (fs_gdt f) = unat groups * superblock_desc_size (fs_sb f) \<and>
      length (fs_gdt f) \<le> BLOCKS_PER_GROUP * BLOCK_SIZE)"

lemma Fs_open_wf:
  assumes "source_ok src" "Fs_open crc src = Inr f"
  shows "fs_wf f"
proof -
  obtain sb_bytes sb groups gdt where o: "superblock_decode sb_bytes = Inr sb"
    "s_feature_incompat sb AND NOT incompat_READER = 0" "check_geometry sb = Inr ()"
    "superblock_group_count sb = Inr groups"
    "read_at src ((unat (s_first_data_block sb) + 1) * BLOCK_SIZE) (unat groups * superblock_desc_size sb) = Inr gdt"
    "f = \<lparr>fs_src = src, fs_sb = sb, fs_gdt = gdt, fs_block_size = BLOCK_SIZE, fs_csum_seed = open_seed crc sb\<rparr>"
    using assms(2) by (auto simp: Fs_open_def res_simps)
  have "length gdt = unat groups * superblock_desc_size sb" using read_at_length [OF assms(1) o(5)] .
  then show ?thesis using o assms(1)
    by (auto simp: fs_wf_def check_geometry_def res_simps mul64_def split: if_splits)
qed

lemma fs_wf_simps:
  assumes "fs_wf f"
  shows "source_ok (fs_src f)" "fs_block_size f = 4096" "0 < unat (s_inodes_per_group (fs_sb f))"
    "unat (s_inode_size (fs_sb f)) \<le> 4096" "128 \<le> unat (s_inode_size (fs_sb f))"
  using assms by (auto simp: fs_wf_def unat_gt_0)

text \<open>Addresses the reader multiplies by the block size stay inside 64 bits.\<close>

definition addressable :: "fs \<Rightarrow> bool" where
  "addressable f \<longleftrightarrow> unat (s_blocks_count (fs_sb f)) < 2 ^ 52 \<and>
    (\<forall>g d. read_group_desc f g = Inr d \<longrightarrow>
       unat (bg_inode_table d) < 2 ^ 51 \<and> unat (bg_inode_bitmap d) < 2 ^ 52 \<and>
       unat (bg_block_bitmap d) < 2 ^ 52)"

lemma short_desc_addressable:
  assumes "s_desc_size (fs_sb f) = 32 \<or> s_desc_size (fs_sb f) = 0" "unat (s_blocks_count (fs_sb f)) < 2 ^ 52"
  shows "addressable f"
proof -
  have ds: "superblock_desc_size (fs_sb f) = 32" using assms(1) by (auto simp: superblock_desc_size_def)
  have u: "unat (ucast (w :: u32) :: u64) < 2 ^ 51" for w
    using unat_bounds(2) [of w] by (simp add: unat_up)
  have "unat (bg_inode_table d) < 2 ^ 51 \<and> unat (bg_inode_bitmap d) < 2 ^ 52 \<and> unat (bg_block_bitmap d) < 2 ^ 52"
    if gd: "read_group_desc f g = Inr d" for g d
  proof -
    obtain b where b: "read_group_desc_raw f g = Inr b" "group_desc_decode b = Inr d"
      using gd by (auto simp: read_group_desc_def res_simps)
    have "length b = 32" using b(1) by (auto simp: read_group_desc_raw_def ds res_simps Let_def split: if_splits)
    with b(2) have "d = group_desc_low b" by (simp add: group_desc_decode_def)
    then show ?thesis using u less_trans [OF u, of "2 ^ 52"] by (simp add: group_desc_low_def)
  qed
  then show ?thesis using assms(2) by (simp add: addressable_def)
qed

lemma no_panic_group_desc:
  assumes "fs_wf f" "g < 2 ^ 32"
  shows "no_panic (read_group_desc_raw f g)" "no_panic (read_group_desc f g)"
proof -
  have "superblock_desc_size (fs_sb f) < 2 ^ 16"
    using unat_bounds(1) [of "s_desc_size (fs_sb f)"] by (auto simp: superblock_desc_size_def)
  then have "g * superblock_desc_size (fs_sb f) < 2 ^ 32 * 2 ^ 16"
    using assms(2) by (intro mult_strict_mono) auto
  then show 1: "no_panic (read_group_desc_raw f g)"
    by (auto simp: read_group_desc_raw_def Let_def intro!: no_panic no_panic_mul64)
  show "no_panic (read_group_desc f g)"
    unfolding read_group_desc_def by (intro no_panic 1)
qed

lemma no_panic_read_block: "fs_wf f \<Longrightarrow> block < 2 ^ 52 \<Longrightarrow> no_panic (read_block f block)"
  unfolding read_block_def by (intro no_panic no_panic_mul64) (simp add: fs_wf_simps)

lemma read_block_length: "fs_wf f \<Longrightarrow> read_block f block = Inr b \<Longrightarrow> length b = 4096"
  using read_at_length [OF fs_wf_simps(1)] by (auto simp: read_block_def res_simps fs_wf_simps)

lemma no_panic_inode_raw:
  assumes f: "fs_wf f" "addressable f"
  shows "no_panic (inode_raw f ino)"
proof -
  let ?ipg = "unat (s_inodes_per_group (fs_sb f))" and ?isize = "unat (s_inode_size (fs_sb f))"
  have g: "(unat ino - 1) div ?ipg < 2 ^ 32"
    using unat_bounds(2) [of ino] by (intro le_less_trans [OF div_le_dividend]) simp
  have "(unat ino - 1) mod ?ipg * ?isize \<le> 2 ^ 32 * 4096"
    using fs_wf_simps(4) [OF f(1)] unat_bounds(2) [of ino]
    by (intro mult_mono order_trans [OF mod_less_eq_dividend]) auto
  then show ?thesis
    using f(2) unfolding inode_raw_def Let_def
    by (intro no_panic no_panic_group_desc [OF f(1) g] no_panic_mul64 no_panic_add64)
      (auto simp: addressable_def fs_wf_simps [OF f(1)] mul64_def split: if_splits dest!: spec)
qed

lemma inode_raw_length: "fs_wf f \<Longrightarrow> inode_raw f ino = Inr b \<Longrightarrow> length b = unat (s_inode_size (fs_sb f))"
  using read_at_length [OF fs_wf_simps(1)] by (auto simp: inode_raw_def res_simps Let_def split: if_splits)

lemma no_panic_check_inode: "128 \<le> length raw \<Longrightarrow> no_panic (check_inode_csum crc f ino raw inode)"
  by (auto simp: check_inode_csum_def csum_inode_def Let_def intro!: no_panic)

lemma no_panic_read_inode:
  assumes f: "fs_wf f" "addressable f"
  shows "no_panic (read_inode crc f ino)"
  unfolding read_inode_def
  by (intro no_panic no_panic_inode_raw [OF f] no_panic_check_inode)
    (use inode_raw_length [OF f(1)] fs_wf_simps(5) [OF f(1)] in auto)

section \<open>Extent trees\<close>

lemma unat_below: "(\<And>i. bit x i \<Longrightarrow> i < n) \<Longrightarrow> unat (x :: u64) < 2 ^ n"
proof -
  assume "\<And>i. bit x i \<Longrightarrow> i < n"
  then have "take_bit n x = x" by (intro bit_word_eqI) (auto simp: bit_simps)
  then have "unat x = take_bit n (unat x)" by (metis unsigned_take_bit_eq)
  then show ?thesis by (metis take_bit_nat_less_exp)
qed

lemma on_disk_blocks:
  "unat (ee_start (extent_decode b)) < 2 ^ 48" "unat (ei_leaf (extent_idx_decode b)) < 2 ^ 48"
  by (simp add: extent_decode_def extent_idx_decode_def, rule unat_below [of _ 48, simplified],
      auto simp: bit_simps dest: bit_imp_le_length)+

text \<open>What a walk returns: nonempty extents with 48-bit addresses.\<close>

definition extent_ok :: "file_extent \<Rightarrow> bool" where
  "extent_ok e \<longleftrightarrow> 0 < fx_len e \<and> fx_len e \<le> 32768 \<and> fx_logical e < 2 ^ 32 \<and> fx_physical e < 2 ^ 48"

lemma extent_len_bound: "unat (extent_len e) \<le> 32768"
proof (cases "ee_raw_len e > 32768")
  case True
  have w: "unat (ucast (ee_raw_len e) :: u32) = unat (ee_raw_len e)" by (simp add: unat_up)
  then have "unat (ucast (ee_raw_len e) - 32768 :: u32) = unat (ee_raw_len e) - 32768"
    using True by (simp add: unat_sub word_le_nat_alt word_less_nat_alt)
  then show ?thesis using True unat_bounds(1) [of "ee_raw_len e"] by (simp add: extent_len_def)
next
  case False
  then show ?thesis
    by (simp add: extent_len_def unat_up word_less_nat_alt not_less)
qed

lemma leaf_extent_ok: "leaf_extent b = Inr e \<Longrightarrow> extent_ok e"
  using extent_len_bound [of "extent_decode b"] on_disk_blocks(1) [of b]
    unat_bounds(2) [of "ee_logical (extent_decode b)"]
  by (auto simp: leaf_extent_def extent_ok_def extent_is_empty_def Let_def unat_gt_0 split: if_splits)

lemma no_panic_leaf [no_panic]: "no_panic (leaf_extent b)"
  by (auto simp: leaf_extent_def Let_def intro!: no_panic)

lemma no_panic_check_node [no_panic]: "no_panic (check_node node d)"
  by (auto simp: check_node_def Let_def intro!: no_panic)

lemma check_node_entries:
  assumes "check_node node d = Inr h" "i < unat (eh_entries h)"
  shows "12 + i * 12 + 12 \<le> length node"
proof -
  have "unat (eh_entries h) \<le> (length node - 12) div 12" "12 \<le> length node"
    using assms(1)
    by (auto simp: check_node_def res_simps Let_def word_less_nat_alt not_less extent_header_decode_def split: if_splits)
  then have "(i + 1) * 12 \<le> length node - 12" using assms(2) by (simp add: less_eq_div_iff_mult_less_eq)
  then show ?thesis using \<open>12 \<le> length node\<close> by simp
qed

lemma walk_extent_node_safe:
  assumes f: "fs_wf f"
  shows "no_panic (walk_extent_node crc f ino inode node d) \<and>
    (\<forall>es. walk_extent_node crc f ino inode node d = Inr es \<longrightarrow> (\<forall>e\<in>set es. extent_ok e))"
  using f
proof (induction crc f ino inode node d rule: walk_extent_node.induct)
  case (1 crc f ino inode node d)
  let ?body = "\<lambda>h i. bindE (extent_entry node i) (\<lambda>e.
      if eh_depth h = 0 then bindE (leaf_extent e) (\<lambda>x. Inr [x])
      else
        bindE (read_block f (unat (ei_leaf (extent_idx_decode e)))) (\<lambda>child.
        bindE (check_extent_block crc f ino inode child) (\<lambda>_.
        walk_extent_node crc f ino inode child (Some (eh_depth h - 1)))))"
  have body: "no_panic (?body h i) \<and> (\<forall>es. ?body h i = Inr es \<longrightarrow> (\<forall>e\<in>set es. extent_ok e))"
    if h: "check_node node d = Inr h" and i: "i < unat (eh_entries h)" for h i
  proof -
    obtain e where e: "extent_entry node i = Inr e"
      using check_node_entries [OF h i] by (simp add: extent_entry_def add.commute)
    show ?thesis
    proof (cases "eh_depth h = 0")
      case True
      then show ?thesis using e by (auto simp: res_simps leaf_extent_ok intro!: no_panic)
    next
      case False
      let ?blk = "read_block f (unat (ei_leaf (extent_idx_decode e)))"
      have blk: "no_panic ?blk"
        using on_disk_blocks(2) [of e] by (intro no_panic_read_block [OF 1(2)]) simp
      have chk: "no_panic (check_extent_block crc f ino inode child)" if "?blk = Inr child" for child
        using read_block_length [OF 1(2) that]
        by (auto simp: check_extent_block_def csum_extent_block_def intro!: no_panic)
      have ih: "no_panic (walk_extent_node crc f ino inode child (Some (eh_depth h - 1))) \<and>
          (\<forall>es. walk_extent_node crc f ino inode child (Some (eh_depth h - 1)) = Inr es \<longrightarrow> (\<forall>e\<in>set es. extent_ok e))"
        if "?blk = Inr child" "check_extent_block crc f ino inode child = Inr u" for child u
        using 1(1) [OF h _ e False that] i 1(2) by simp
      show ?thesis using e False blk chk ih
        by (auto simp: res_simps intro!: no_panic_bind)
    qed
  qed
  have "\<forall>e\<in>set (concat outs). extent_ok e"
    if h: "check_node node d = Inr h" and o: "mapE (?body h) [0..<unat (eh_entries h)] = Inr outs" for h outs
  proof -
    have "\<exists>i<unat (eh_entries h). ?body h i = Inr es" if "es \<in> set outs" for es
      using mapE_Inr_mem [OF o that] by auto
    then show ?thesis using body [OF h] by fastforce
  qed
  moreover have "no_panic (mapE (?body h) [0..<unat (eh_entries h)])" if "check_node node d = Inr h" for h
    using body [OF that] by (intro no_panic_mapE) simp
  ultimately show ?case
    by (subst (1 2) walk_extent_node.simps) (auto simp: res_simps intro!: no_panic_bind no_panic_check_node)
qed

lemma fs_extents_safe:
  assumes "fs_wf f"
  shows "no_panic (fs_extents crc f ino inode)"
    "fs_extents crc f ino inode = Inr es \<Longrightarrow> \<forall>e\<in>set es. extent_ok e"
  using walk_extent_node_safe [OF assms] by (auto simp: fs_extents_def split: option.splits)

text \<open>A forged tree cannot make the walk explode: five levels of 340 entries below a node.\<close>

lemma length_concat_le: "\<forall>xs\<in>set xss. length xs \<le> m \<Longrightarrow> length (concat xss) \<le> length xss * m"
  by (induction xss) auto

lemma walk_extent_node_bound:
  assumes "fs_wf f" "walk_extent_node crc f ino inode node d = Inr es"
  shows "\<exists>h. check_node node d = Inr h \<and> length es \<le> ((length node - 12) div 12) * 340 ^ unat (eh_depth h)"
  using assms
proof (induction crc f ino inode node d arbitrary: es rule: walk_extent_node.induct)
  case (1 crc f ino inode node d)
  let ?body = "\<lambda>h i. bindE (extent_entry node i) (\<lambda>e.
      if eh_depth h = 0 then bindE (leaf_extent e) (\<lambda>x. Inr [x])
      else
        bindE (read_block f (unat (ei_leaf (extent_idx_decode e)))) (\<lambda>child.
        bindE (check_extent_block crc f ino inode child) (\<lambda>_.
        walk_extent_node crc f ino inode child (Some (eh_depth h - 1)))))"
  obtain h outs where h: "check_node node d = Inr h"
    and o: "mapE (?body h) [0..<unat (eh_entries h)] = Inr outs" "es = concat outs"
    using 1(3) by (subst (asm) walk_extent_node.simps) (auto simp: res_simps)
  have n: "length outs \<le> (length node - 12) div 12"
  proof (cases "unat (eh_entries h)")
    case (Suc k)
    have "length node \<ge> 12 + k * 12 + 12" using check_node_entries [OF h, of k] Suc by simp
    then show ?thesis using mapE_length [OF o(1)] Suc by (simp add: less_eq_div_iff_mult_less_eq)
  qed (use mapE_length [OF o(1)] in simp)
  have "length xs \<le> 340 ^ unat (eh_depth h)" if xs: "xs \<in> set outs" for xs
  proof -
    obtain i where i: "i < unat (eh_entries h)" "?body h i = Inr xs"
      using mapE_Inr_mem [OF o(1) xs] by auto
    show ?thesis
    proof (cases "eh_depth h = 0")
      case True
      then show ?thesis using i(2) by (auto simp: res_simps)
    next
      case False
      obtain e child where e: "extent_entry node i = Inr e"
        "read_block f (unat (ei_leaf (extent_idx_decode e))) = Inr child"
        "check_extent_block crc f ino inode child = Inr ()"
        "walk_extent_node crc f ino inode child (Some (eh_depth h - 1)) = Inr xs"
        using i(2) False by (auto simp: res_simps)
      obtain hc where hc: "check_node child (Some (eh_depth h - 1)) = Inr hc"
        "length xs \<le> ((length child - 12) div 12) * 340 ^ unat (eh_depth hc)"
        using 1(1) [OF h _ e(1) False e(2,3) 1(2) e(4)] i(1) by auto
      have "eh_depth hc = eh_depth h - 1" using check_node_depth [OF hc(1)] by simp
      then have "Suc (unat (eh_depth hc)) = unat (eh_depth h)" using u16_pred [OF False] by simp
      moreover have "(length child - 12) div 12 = 340" using read_block_length [OF 1(2) e(2)] by simp
      ultimately show ?thesis using hc(2) by (metis power_Suc)
    qed
  qed
  then have "length es \<le> length outs * 340 ^ unat (eh_depth h)" unfolding o(2) by (intro length_concat_le) simp
  also have "\<dots> \<le> ((length node - 12) div 12) * 340 ^ unat (eh_depth h)" using n by simp
  finally show ?case using h by blast
qed

lemma fs_extents_bound:
  assumes "fs_wf f" "fs_extents crc f ino inode = Inr es" "length (i_block inode) = 60"
  shows "length es \<le> 4 * 340 ^ 5"
proof (cases "extent_root inode")
  case (Some root)
  then have root: "length root = 60" using assms(3) by (auto simp: extent_root_def split: if_splits)
  obtain h where h: "check_node root None = Inr h" "length es \<le> (length root - 12) div 12 * 340 ^ unat (eh_depth h)"
    using walk_extent_node_bound [OF assms(1)] assms(2) Some by (fastforce simp: fs_extents_def)
  have "unat (eh_depth h) \<le> 5" using check_node_depth [OF h(1)] by (simp add: word_le_nat_alt)
  then have "(340 :: nat) ^ unat (eh_depth h) \<le> 340 ^ 5" by (rule power_increasing) simp
  then show ?thesis using h(2) root by simp
qed (use assms(2) in \<open>simp add: fs_extents_def\<close>)

section \<open>Files, directories, attributes\<close>

text \<open>One step of the extent loop, with its two ways of skipping an extent joined.\<close>

lemma fill_extents_Cons:
  assumes "fs_block_size f = 4096"
  defines "lo e \<equiv> fx_logical e * 4096"
  shows "fill_extents f offset want (e # es) buf =
    (let start = max (lo e) offset; fin = min (lo e + fx_len e * 4096) (offset + want)
     in if fx_unwritten e \<or> fin \<le> start then fill_extents f offset want es buf
        else bindE (mul64 (fx_physical e) 4096) (\<lambda>base.
          bindE (add64 base (start - lo e)) (\<lambda>phys.
          bindE (read_at (fs_src f) phys (fin - start)) (\<lambda>dst.
          fill_extents f offset want es (poke buf (start - offset) dst)))))"
  unfolding lo_def by (simp only: fill_extents.simps Let_def assms(1)) auto

lemma fill_extents_safe:
  assumes f: "fs_wf f"
  shows "\<forall>e\<in>set es. extent_ok e \<Longrightarrow> no_panic (fill_extents f offset want es buf)"
proof (induction es arbitrary: buf)
  case (Cons e es)
  have e: "fx_len e \<le> 32768" "fx_physical e < 2 ^ 48" using Cons.prems by (auto simp: extent_ok_def)
  note bs = fs_wf_simps(2) [OF f]
  define start where "start = max (fx_logical e * 4096) offset"
  define fin where "fin = min (fx_logical e * 4096 + fx_len e * 4096) (offset + want)"
  have a: "fx_physical e * 4096 + (start - fx_logical e * 4096) < 2 ^ 64" if "\<not> fin \<le> start"
  proof -
    have "start - fx_logical e * 4096 \<le> fx_len e * 4096" using that by (auto simp: start_def fin_def)
    then show ?thesis using e by simp
  qed
  have ih: "no_panic (fill_extents f offset want es b)" for b using Cons by simp
  have "no_panic (if fx_unwritten e \<or> fin \<le> start then fill_extents f offset want es buf
    else bindE (mul64 (fx_physical e) 4096) (\<lambda>base.
      bindE (add64 base (start - fx_logical e * 4096)) (\<lambda>phys.
      bindE (read_at (fs_src f) phys (fin - start)) (\<lambda>dst.
      fill_extents f offset want es (poke buf (start - offset) dst)))))"
    by (intro no_panic no_panic_mul64 no_panic_add64 ih) (use a e in \<open>auto simp: mul64_def split: if_splits\<close>)
  then show ?case by (simp only: fill_extents_Cons [OF bs] Let_def start_def fin_def)
qed simp

lemma no_panic_read_file_at:
  "fs_wf f \<Longrightarrow> \<forall>e\<in>set es. extent_ok e \<Longrightarrow> no_panic (read_file_at f inode es offset len)"
  by (simp add: read_file_at_def Let_def fill_extents_safe)

lemma no_panic_read_small:
  assumes f: "fs_wf f" "addressable f"
    and small: "\<And>i. read_inode crc f ino = Inr i \<Longrightarrow>
      unat (i_size i) \<le> unat (s_blocks_count (fs_sb f)) * 4096 \<Longrightarrow> unat (i_size i) < 2 ^ 63"
  shows "no_panic (read_file crc f ino)"
  unfolding read_file_def
  by (intro no_panic no_panic_read_inode [OF f] no_panic_mul64 fs_extents_safe [OF f(1)] no_panic_read_file_at [OF f(1)])
    (use f(2) small in \<open>auto simp: addressable_def fs_wf_simps [OF f(1)] guardE_def mul64_def
      intro: fs_extents_safe(2) [OF f(1), rule_format] split: if_splits\<close>)

lemma no_panic_read_file:
  assumes f: "fs_wf f" "addressable f"
  shows "unat (s_blocks_count (fs_sb f)) < 2 ^ 51 \<Longrightarrow> no_panic (read_file crc f ino)" "no_panic (symlink_target crc f ino)"
proof -
  show "no_panic (read_file crc f ino)" if "unat (s_blocks_count (fs_sb f)) < 2 ^ 51"
    using that by (intro no_panic_read_small [OF f]) simp
  have "no_panic (read_file crc f ino)" if "read_inode crc f ino = Inr i" "\<not> fs_block_size f \<le> unat (i_size i)" for i
    using that fs_wf_simps(2) [OF f(1)] by (intro no_panic_read_small [OF f]) simp
  then show "no_panic (symlink_target crc f ino)"
    unfolding symlink_target_def
    by (intro no_panic_bind no_panic_read_inode [OF f]) (auto intro: no_panic split: option.splits)
qed

lemma file_block_bound:
  assumes "\<forall>e\<in>set es. extent_ok e" "file_block es logical = Some block"
  shows "block < 2 ^ 52"
proof -
  obtain e where e: "find (\<lambda>e. fx_logical e \<le> logical \<and> logical < fx_logical e + fx_len e \<and> \<not> fx_unwritten e) es = Some e"
    "block = fx_physical e + (logical - fx_logical e)"
    using assms(2) by (auto simp: file_block_def)
  then have "e \<in> set es" "logical - fx_logical e \<le> fx_len e" by (auto simp: find_Some_iff)
  then show ?thesis using e(2) assms(1) by (fastforce simp: extent_ok_def)
qed

lemma no_panic_read_dir:
  assumes f: "fs_wf f" "addressable f"
  shows "no_panic (read_dir crc f ino)"
proof -
  have "no_panic (case file_block es logical of None \<Rightarrow> Inl (Err (corrupt ''directory'' ''hole in directory''))
      | Some block \<Rightarrow> bindE (read_block f block) (dir_block_entries h logical))"
    if es: "fs_extents crc f ino inode = Inr es" for es inode h logical
  proof (cases "file_block es logical")
    case (Some block)
    have "no_panic (dir_block_entries h logical data)" for data
      by (auto simp: dir_block_entries_def intro!: no_panic)
    then show ?thesis
      using Some file_block_bound [OF fs_extents_safe(2) [OF f(1) es] Some]
      by (auto intro!: no_panic_bind no_panic_read_block [OF f(1)])
  qed simp
  then show ?thesis
    unfolding read_dir_def
    by (intro no_panic no_panic_read_inode [OF f] fs_extents_safe(1) [OF f(1)])
qed

lemma no_panic_resolve:
  assumes f: "fs_wf f" "addressable f"
  shows "no_panic (fs_lookup crc f ino name)" "no_panic (fs_resolve crc f path)"
proof -
  have look: "no_panic (fs_lookup crc f ino name)" for ino name
    unfolding fs_lookup_def by (intro no_panic no_panic_read_dir [OF f])
  then show "no_panic (fs_lookup crc f ino name)" .
  have "no_panic (resolve_parts crc f ino parts)" for ino parts
    by (induction parts arbitrary: ino) (auto intro!: no_panic_bind look split: option.splits)
  then show "no_panic (fs_resolve crc f path)" by (simp add: fs_resolve_def)
qed

lemma inode_acl_bound:
  assumes "inode_decode raw = Inr inode"
  shows "unat (i_file_acl inode) < 2 ^ 48"
proof -
  have "i_file_acl (inode_extra raw i) = i_file_acl i" for i by (simp add: inode_extra_def Let_def)
  then have "i_file_acl inode = i_file_acl (inode_low raw)"
    using assms by (auto simp: inode_decode_def split: if_splits)
  moreover have "i_file_acl (inode_low raw) = ucast (le32 raw 0x68) OR push_bit 32 (ucast (le16 raw 0x76))"
    by (simp add: inode_low_def)
  ultimately have eq: "i_file_acl inode = ucast (le32 raw 0x68) OR push_bit 32 (ucast (le16 raw 0x76))" by simp
  show ?thesis
    unfolding eq by (intro unat_below) (auto simp: bit_simps dest: bit_imp_le_length)
qed

lemma no_panic_xattrs:
  assumes f: "fs_wf f" "addressable f"
  shows "no_panic (fs_xattrs f ino)"
proof -
  have "unat (i_file_acl inode) < 2 ^ 52" if "inode_decode raw = Inr inode" for raw inode
    using less_trans [OF inode_acl_bound [OF that], of "2 ^ 52"] by simp
  then show ?thesis
    unfolding fs_xattrs_def
    by (intro no_panic no_panic_inode_raw [OF f] no_panic_read_block [OF f(1)])
qed

lemma no_panic_in_use:
  assumes f: "fs_wf f" "addressable f" and "ino \<noteq> 0"
  shows "no_panic (inode_in_use f ino)"
proof -
  have g: "(unat ino - 1) div unat (s_inodes_per_group (fs_sb f)) < 2 ^ 32"
    using unat_bounds(2) [of ino] by (intro le_less_trans [OF div_le_dividend]) simp
  have bm: "unat (bg_inode_bitmap d) < 2 ^ 52" if "read_group_desc f g = Inr d" for g d
    using f(2) that by (auto simp: addressable_def)
  show ?thesis
    unfolding inode_in_use_def Let_def using assms(3)
    by (simp only: if_False) (intro no_panic no_panic_group_desc [OF f(1) g] no_panic_read_block [OF f(1)] bm)
qed

end
