(* ===== verification/ReadFile.thy ===== *)
theory ReadFile
  imports ReaderSafe
begin

text \<open>
  Reading a file refines an abstract file: a function from byte positions to bytes, given by the
  block that \<open>file_block\<close> finds for the position. The image is a store of bytes the source serves.
\<close>

definition source_serves :: "source \<Rightarrow> (nat \<Rightarrow> u8) \<Rightarrow> nat \<Rightarrow> bool" where
  "source_serves src img n \<longleftrightarrow>
    (\<forall>off len. off + len \<le> n \<longrightarrow> src off len = Inr (map img [off..<off + len]))"

definition file_byte :: "(nat \<Rightarrow> u8) \<Rightarrow> file_extent list \<Rightarrow> nat \<Rightarrow> u8" where
  "file_byte img es p =
    (case file_block es (p div 4096) of None \<Rightarrow> 0 | Some b \<Rightarrow> img (b * 4096 + p mod 4096))"

text \<open>Extents in order and apart, and inside the image.\<close>

definition extents_sorted :: "file_extent list \<Rightarrow> bool" where
  "extents_sorted es \<longleftrightarrow> sorted_wrt (\<lambda>a b. fx_logical a + fx_len a \<le> fx_logical b) es"

definition extents_inside :: "nat \<Rightarrow> file_extent list \<Rightarrow> bool" where
  "extents_inside n es \<longleftrightarrow> (\<forall>e\<in>set es. (fx_physical e + fx_len e) * 4096 \<le> n)"

lemma slice_serves: "length img \<le> 2 ^ 63 \<Longrightarrow> source_serves (slice_source img) ((!) img) (length img)"
  by (auto simp: source_serves_def slice_source_def peek_def intro!: nth_equalityI)

definition covers :: "file_extent \<Rightarrow> nat \<Rightarrow> bool" where
  "covers e l \<longleftrightarrow> fx_logical e \<le> l \<and> l < fx_logical e + fx_len e \<and> \<not> fx_unwritten e"

lemma file_block_Cons:
  "file_block (e # es) l = (if covers e l then Some (fx_physical e + (l - fx_logical e)) else file_block es l)"
  by (simp add: file_block_def covers_def)

lemma file_block_above:
  "(\<And>e. e \<in> set es \<Longrightarrow> l < fx_logical e) \<Longrightarrow> file_block es l = None"
  by (auto simp: file_block_def find_None_iff dest: leD)

text \<open>The extent loop overwrites exactly the positions the extents map.\<close>

lemma fill_extents_content:
  assumes f: "fs_wf f" "source_serves (fs_src f) img n" "n \<le> 2 ^ 63"
  shows "extents_sorted es \<Longrightarrow> extents_inside n es \<Longrightarrow> length buf = want \<Longrightarrow>
    fill_extents f offset want es buf =
      Inr (map (\<lambda>i. case file_block es ((offset + i) div 4096) of None \<Rightarrow> buf ! i
                  | Some b \<Rightarrow> img (b * 4096 + (offset + i) mod 4096)) [0..<want])"
proof (induction es arbitrary: buf)
  case Nil
  then show ?case by (auto simp: file_block_def intro!: nth_equalityI)
next
  case (Cons e es)
  note bs = fs_wf_simps(2) [OF f(1)]
  define lo where "lo = fx_logical e * 4096"
  define hi where "hi = lo + fx_len e * 4096"
  define start where "start = max lo offset"
  define fin where "fin = min hi (offset + want)"
  have tl: "extents_sorted es" "extents_inside n es" using Cons.prems by (simp_all add: extents_sorted_def extents_inside_def)
  have after: "fx_logical e + fx_len e \<le> fx_logical x" if "x \<in> set es" for x
    using Cons.prems(1) that by (simp add: extents_sorted_def)
  have cov: "covers e ((offset + i) div 4096) \<longleftrightarrow> \<not> fx_unwritten e \<and> start \<le> offset + i \<and> offset + i < fin"
    if "i < want" for i
    using that unfolding covers_def start_def fin_def lo_def hi_def
    by (auto simp: less_eq_div_iff_mult_less_eq div_less_iff_less_mult algebra_simps)
  show ?case
  proof (cases "fx_unwritten e \<or> fin \<le> start")
    case True
    have "fill_extents f offset want (e # es) buf = fill_extents f offset want es buf"
      using True by (simp only: fill_extents_Cons [OF bs] Let_def lo_def hi_def start_def fin_def if_True)
    moreover have "\<not> covers e ((offset + i) div 4096)" if "i < want" for i using cov [OF that] True by auto
    ultimately show ?thesis
      using Cons.IH [OF tl Cons.prems(3)] by (simp add: file_block_Cons cong: map_cong)
  next
    case False
    then have w: "\<not> fx_unwritten e" "start < fin" by simp_all
    define phys where "phys = fx_physical e * 4096 + (start - lo)"
    define dst where "dst = map img [phys..<phys + (fin - start)]"
    have in_img: "phys + (fin - start) \<le> n"
    proof -
      have "start - lo + (fin - start) \<le> fx_len e * 4096" using w(2) by (auto simp: start_def fin_def hi_def)
      moreover have "(fx_physical e + fx_len e) * 4096 \<le> n" using Cons.prems(2) by (simp add: extents_inside_def)
      ultimately show ?thesis by (simp add: phys_def algebra_simps)
    qed
    then have rd: "read_at (fs_src f) phys (fin - start) = Inr dst"
      using f(2) by (simp add: read_at_def source_serves_def dst_def)
    have big: "mul64 (fx_physical e) 4096 = Inr (fx_physical e * 4096)"
      "add64 (fx_physical e * 4096) (start - lo) = Inr phys"
      using in_img f(3) by (simp_all add: mul64_def add64_def phys_def)
    have step: "fill_extents f offset want (e # es) buf = fill_extents f offset want es (poke buf (start - offset) dst)"
      using False rd big
      by (simp only: fill_extents_Cons [OF bs] Let_def lo_def hi_def start_def fin_def if_False bindE_Inr)
    have pk: "poke buf (start - offset) dst ! i =
        (if start \<le> offset + i \<and> offset + i < fin then img (phys + (offset + i - start)) else buf ! i)"
      if "i < want" for i
      using that Cons.prems(3) w(2) by (auto simp: nth_poke dst_def start_def fin_def add.commute)
    have "(case file_block es ((offset + i) div 4096) of None \<Rightarrow> poke buf (start - offset) dst ! i
           | Some b \<Rightarrow> img (b * 4096 + (offset + i) mod 4096)) =
          (case file_block (e # es) ((offset + i) div 4096) of None \<Rightarrow> buf ! i
           | Some b \<Rightarrow> img (b * 4096 + (offset + i) mod 4096))" if i: "i < want" for i
    proof (cases "covers e ((offset + i) div 4096)")
      case True
      then have c: "start \<le> offset + i" "offset + i < fin" using cov [OF i] by simp_all
      have "file_block es ((offset + i) div 4096) = None"
        using True after by (intro file_block_above) (fastforce simp: covers_def)
      moreover have "phys + (offset + i - start) =
          (fx_physical e + ((offset + i) div 4096 - fx_logical e)) * 4096 + (offset + i) mod 4096"
      proof -
        have l: "lo \<le> offset + i" using c by (simp add: start_def)
        have "phys + (offset + i - start) = fx_physical e * 4096 + (offset + i - lo)"
          using c(1) by (auto simp: phys_def start_def)
        also have "offset + i - lo = ((offset + i) div 4096 - fx_logical e) * 4096 + (offset + i) mod 4096"
          using l by (simp add: lo_def algebra_simps)
        finally show ?thesis by (simp add: algebra_simps)
      qed
      ultimately show ?thesis using True pk [OF i] c by (simp add: file_block_Cons)
    next
      case False
      then have "\<not> (start \<le> offset + i \<and> offset + i < fin)" using cov [OF i] w(1) by blast
      then have "poke buf (start - offset) dst ! i = buf ! i" using pk [OF i] by (metis (full_types))
      then show ?thesis using False by (simp add: file_block_Cons split: option.splits)
    qed
    then show ?thesis
      unfolding step using Cons.IH [OF tl, of "poke buf (start - offset) dst"] Cons.prems(3)
      by (simp cong: map_cong)
  qed
qed

lemma read_file_at_content:
  assumes f: "fs_wf f" "source_serves (fs_src f) img n" "n \<le> 2 ^ 63"
    and es: "extents_sorted es" "extents_inside n es"
  shows "read_file_at f inode es offset len =
    Inr (map (file_byte img es) [offset..<min (unat (i_size inode)) (offset + len)])"
proof (cases "unat (i_size inode) \<le> offset")
  case False
  let ?want = "min (unat (i_size inode) - offset) len"
  have "fill_extents f offset ?want es (zeros_buf ?want) =
    Inr (map (\<lambda>i. file_byte img es (offset + i)) [0..<?want])"
    using fill_extents_content [OF f es, of "zeros_buf ?want" ?want offset]
    by (auto simp: file_byte_def intro!: map_cong split: option.splits)
  moreover have "map (\<lambda>i. file_byte img es (offset + i)) [0..<?want] =
      map (file_byte img es) [offset..<min (unat (i_size inode)) (offset + len)]"
    using False by (intro nth_equalityI) auto
  ultimately show ?thesis using False by (simp add: read_file_at_def Let_def)
qed (simp add: read_file_at_def)

end
