(* ===== verification/ReadDir.thy ===== *)
theory ReadDir
  imports HtreeBuild ReaderSafe
begin

text \<open>
  Directories written by the packer and by the index builder, read back by the reader: linear
  blocks give the entries in declaration order, an index the two dot entries and then the entries
  in hash order.
\<close>

definition dir_entry_of_dentry :: "dentry \<Rightarrow> dir_entry" where
  "dir_entry_of_dentry e = (case e of (name, ino, ft) \<Rightarrow>
     \<lparr>dir_inode = ino, dir_file_type = ft, dir_name = name\<rparr>)"

lemma dir_entry_of_view: "dir_entry_of_dentry (de_view r) = dir_entry_of r"
  by (simp add: dir_entry_of_dentry_def de_view_def dir_entry_of_def)

text \<open>The loop of \<^verbatim>\<open>read_dir\<close> over the blocks of a directory, once they are read.\<close>

definition read_dir_blocks :: "bool \<Rightarrow> nat \<Rightarrow> bytes list \<Rightarrow> dir_entry list res" where
  "read_dir_blocks is_htree k blocks =
    bindE (mapE (\<lambda>(logical, b). dir_block_entries is_htree logical b) (enumerate k blocks))
      (\<lambda>outs. Inr (concat outs))"

lemma read_dir_blocks_simps [simp]:
  "read_dir_blocks h k [] = Inr []"
  "read_dir_blocks h k (b # bs) =
    bindE (dir_block_entries h k b) (\<lambda>es. bindE (read_dir_blocks h (Suc k) bs) (\<lambda>rest. Inr (es @ rest)))"
  by (simp_all add: read_dir_blocks_def bindE_def split: sum.splits)

lemma read_dir_blocks_append:
  "read_dir_blocks h k (as @ bs) =
    bindE (read_dir_blocks h k as) (\<lambda>es. bindE (read_dir_blocks h (k + length as) bs) (\<lambda>rest. Inr (es @ rest)))"
proof (induction as arbitrary: k)
  case (Cons a as)
  then show ?case by (simp add: bindE_def split: sum.splits)
qed simp

lemma read_dir_of_blocks:
  assumes inode: "read_inode crc f ino = Inr inode" "inode_file_type inode = Dir"
    and ext: "fs_extents crc f ino inode = Inr es"
    and size: "unat (i_size inode) div fs_block_size f = length blocks"
    and blk: "\<And>k. k < length blocks \<Longrightarrow> \<exists>b. file_block es k = Some b \<and> read_block f b = Inr (blocks ! k)"
  shows "read_dir crc f ino = read_dir_blocks (inode_is_htree inode) 0 blocks"
proof -
  let ?h = "inode_is_htree inode"
  have "mapE (\<lambda>k. case file_block es k of None \<Rightarrow> Inl (Err (corrupt ''directory'' ''hole in directory''))
      | Some b \<Rightarrow> bindE (read_block f b) (dir_block_entries ?h k)) [0..<length blocks] =
    mapE (\<lambda>k. dir_block_entries ?h k (blocks ! k)) [0..<length blocks]"
    by (rule mapE_cong [OF refl]) (use blk in \<open>fastforce split: option.splits\<close>)
  also have "\<dots> = mapE (\<lambda>(k, b). dir_block_entries ?h k b) (map (\<lambda>k. (k, blocks ! k)) [0..<length blocks])"
    by (simp add: mapE_map)
  also have "map (\<lambda>k. (k, blocks ! k)) [0..<length blocks] = enumerate 0 blocks"
    by (rule nth_equalityI) (simp_all add: nth_enumerate_eq)
  finally show ?thesis using inode ext size by (simp add: read_dir_def read_dir_blocks_def)
qed

section \<open>Blocks read back\<close>

lemma leaf_block_entries:
  assumes "dir_block_ok crc iseed b es" "h \<Longrightarrow> 0 < k \<and> es \<noteq> []"
  shows "dir_block_entries h k b = Inr (map dir_entry_of_dentry es)"
proof -
  obtain rs where rs: "dirent_collect b = Inr rs" "map de_view rs = es"
    using assms(1) by (auto simp: dir_block_ok_def)
  have "map dir_entry_of rs = map dir_entry_of_dentry es"
    unfolding rs(2) [symmetric] by (simp add: dir_entry_of_view)
  moreover have "\<not> (h \<and> le32 b 0 = 0 \<and> unat (le16 b 4) = length b)"
    using dir_block_not_node [OF assms(1)] assms(2) by auto
  ultimately show ?thesis using rs(1) assms(2) by (auto simp: dir_block_entries_def)
qed

lemma leaf_blocks_entries:
  "list_all2 (dir_block_ok crc iseed) bs ess \<Longrightarrow> h \<longrightarrow> 0 < k \<and> [] \<notin> set ess \<Longrightarrow>
   read_dir_blocks h k bs = Inr (map dir_entry_of_dentry (concat ess))"
proof (induction bs ess arbitrary: k rule: list_all2_induct)
  case (Cons b bs es ess)
  have "dir_block_entries h k b = Inr (map dir_entry_of_dentry es)"
    using Cons by (intro leaf_block_entries) auto
  then show ?case using Cons by simp
qed simp

lemma root_block_entries:
  "index_root_ok crc iseed self_ino parent_ino levels dx b \<Longrightarrow>
   dir_block_entries True 0 b = Inr (map dir_entry_of_dentry [([0x2E], self_ino, ft_DIR), ([0x2E, 0x2E], parent_ino, ft_DIR)])"
  by (simp add: dir_block_entries_def index_root_ok_def dir_entry_of_dentry_def)

lemma node_blocks_entries:
  "list_all2 (node_ok crc iseed) bs dxs \<Longrightarrow> 0 < k \<Longrightarrow> read_dir_blocks True k bs = Inr []"
proof (induction bs dxs arbitrary: k rule: list_all2_induct)
  case (Cons b bs dx dxs)
  then show ?case by (simp add: dir_block_entries_def node_ok_def)
qed simp

section \<open>Round trips\<close>

text \<open>A linear directory, every block sealed with its checksum.\<close>

definition seal_dir_block :: "crc \<Rightarrow> u32 \<Rightarrow> bytes \<Rightarrow> bytes" where
  "seal_dir_block crc iseed b = stamp_tail b (dirent_block_sum crc iseed b)"

lemma linear_reads_back:
  assumes "\<forall>e\<in>set entries. dentry_ok e"
  shows "\<exists>bs. pack_dirents entries = Inr bs \<and>
    read_dir_blocks False 0 (map (seal_dir_block crc iseed) bs) = Inr (map dir_entry_of_dentry entries)"
proof -
  obtain bs ess where b: "pack_dirents entries = Inr bs" "concat ess = entries" "list_all2 block_holds bs ess"
    using pack_dirents_holds [OF assms] by blast
  have "list_all2 (dir_block_ok crc iseed) (map (seal_dir_block crc iseed) bs) ess"
    using b(3) by (induction rule: list_all2_induct) (auto simp: seal_dir_block_def block_holds_sealed)
  from leaf_blocks_entries [OF this, of False 0] show ?thesis using b(1,2) by auto
qed

lemma concat_hash_groups_entries:
  assumes "\<forall>e\<in>set entries. dentry_ok e" "entries \<noteq> []"
  shows "concat (map (map (entry_of_hash entries)) (hash_groups entries (hash_entries seed entries))) =
      map (entry_of_hash entries) (hash_entries seed entries)"
    "[] \<notin> set (map (map (entry_of_hash entries)) (hash_groups entries (hash_entries seed entries)))"
  using hash_groups_props(1,2) [OF assms, of seed] by (auto simp flip: map_concat)

text \<open>The name hash by which an index orders its entries.\<close>

definition name_hash :: "hash_seed \<Rightarrow> dentry \<Rightarrow> u32" where
  "name_hash seed e = fst (half_md4 seed Signed (fst e))"

lemma sorted_entries_by_hash:
  "sorted (map (name_hash seed) (map (entry_of_hash entries) (hash_entries seed entries)))"
proof -
  have "name_hash seed (entry_of_hash entries x) = fst x" if x: "x \<in> set (hash_entries seed entries)" for x
  proof -
    obtain h m i where "x = (h, m, i)" by (cases x)
    then show ?thesis using hash_entries_mem(2) [of h m i seed entries] x
      by (simp add: entry_of_hash_def name_hash_def)
  qed
  then have eq: "map (name_hash seed) (map (entry_of_hash entries) (hash_entries seed entries)) =
      map fst (hash_entries seed entries)" by simp
  show ?thesis unfolding eq by (rule sorted_fst_hashes [OF hash_entries_index(3)])
qed

lemma htree_reads_back:
  assumes ok: "\<forall>e\<in>set entries. dentry_ok e" "entries \<noteq> []" and ino: "self_ino \<noteq> 0" "parent_ino \<noteq> 0"
    and b: "htree_build crc self_ino parent_ino entries seed fseed = Inr blocks"
  shows "\<exists>sorted_es. mset sorted_es = mset entries \<and> sorted (map (name_hash seed) sorted_es) \<and>
    read_dir_blocks True 0 blocks = Inr (map dir_entry_of_dentry
      (([0x2E], self_ino, ft_DIR) # ([0x2E, 0x2E], parent_ino, ft_DIR) # sorted_es))"
proof -
  let ?gs = "hash_groups entries (hash_entries seed entries)" and ?is = "inode_seed crc fseed self_ino 0"
  let ?es = "map (entry_of_hash entries) (hash_entries seed entries)"
  note r = htree_build_result [OF ok ino, of seed crc fseed, unfolded b]
  obtain root leaves nodes levels dx dxs where blocks: "blocks = root # leaves @ nodes"
    and root: "index_root_ok crc ?is self_ino parent_ino levels dx root"
    and leaves: "list_all2 (dir_block_ok crc ?is) leaves (map (map (entry_of_hash entries)) ?gs)"
    and nodes: "list_all2 (node_ok crc ?is) nodes dxs"
  proof (cases "length ?gs \<le> 507")
    case True
    then obtain root leaves where "blocks = root # leaves @ []"
      "index_root_ok crc ?is self_ino parent_ino 0 (leaf_dx_of 0 None ?gs) root"
      "list_all2 (dir_block_ok crc ?is) leaves (map (map (entry_of_hash entries)) ?gs)"
      using r(1) by auto
    then show ?thesis using that by blast
  next
    case False
    then have "length ?gs \<le> 507 * 510" using r(3) by (cases "507 * 510 < length ?gs") auto
    then show ?thesis using False r(2) that by auto
  qed
  have "read_dir_blocks True 1 leaves = Inr (map dir_entry_of_dentry ?es)"
    using leaf_blocks_entries [OF leaves, of True 1] concat_hash_groups_entries [OF ok, of seed] by simp
  then have "read_dir_blocks True 0 blocks = Inr (map dir_entry_of_dentry
      (([0x2E], self_ino, ft_DIR) # ([0x2E, 0x2E], parent_ino, ft_DIR) # ?es))"
    using node_blocks_entries [OF nodes, of "1 + length leaves"] root_block_entries [OF root]
    by (simp add: blocks read_dir_blocks_append)
  moreover have "mset ?es = mset entries" using hash_entries_perm [of entries seed] by (simp add: entry_of_hash_def)
  ultimately show ?thesis using sorted_entries_by_hash [of seed entries] by blast
qed

end
