(* ===== verification/Verify.thy ===== *)
theory Verify
  imports ReadDir Journal "HOL-Library.List_Lexorder"
begin

text \<open>
  The structural verifier (src/src/reader/verify.rs). Every function returns the issues it pushes,
  in order; an issue is its fixed text, without the numbers the code formats into it. An error the
  code turns into an issue is \<open>or_issue\<close>; an error it passes on with \<^verbatim>\<open>?\<close> is
  \<open>bindE\<close>.
\<close>

type_synonym issue = string

definition or_issue :: "'a res \<Rightarrow> issue \<Rightarrow> ('a \<Rightarrow> issue list res) \<Rightarrow> issue list res" where
  "or_issue m what k =
    (case m of Inl Panic \<Rightarrow> Inl Panic | Inl (Err e) \<Rightarrow> Inr [what] | Inr x \<Rightarrow> k x)"

definition issue_unless :: "bool \<Rightarrow> issue \<Rightarrow> issue list" where
  "issue_unless ok what = (if ok then [] else [what])"

text \<open>The issues of a loop, in order.\<close>

definition issues_of :: "('a \<Rightarrow> issue list res) \<Rightarrow> 'a list \<Rightarrow> issue list res" where
  "issues_of check xs = bindE (mapE check xs) (\<lambda>iss. Inr (concat iss))"

section \<open>Groups\<close>

text \<open>The padding loop of a bitmap, which stops at the first clear bit.\<close>

definition padding_issue :: "bytes \<Rightarrow> nat \<Rightarrow> issue \<Rightarrow> issue list" where
  "padding_issue bitmap first what =
    issue_unless (list_all (bitmap_bit bitmap) [first..<length bitmap * 8]) what"

definition verify_block_bitmap :: "crc \<Rightarrow> fs \<Rightarrow> nat \<Rightarrow> group_desc \<Rightarrow> issue list res" where
  "verify_block_bitmap crc f g desc =
    bindE (read_block f (unat (bg_block_bitmap desc))) (\<lambda>bb.
    if bg_flags desc AND bg_BLOCK_UNINIT \<noteq> 0
    then Inr (issue_unless (bg_block_bitmap_csum desc = 0) ''BLOCK_UNINIT but bitmap csum nonzero'')
    else
      let sb = fs_sb f;
          group_start = unat (s_first_data_block sb) + g * unat (s_blocks_per_group sb);
          blocks_in_group = min (unat (s_blocks_count sb) - group_start) (unat (s_blocks_per_group sb))
      in if unat (s_blocks_count sb) < group_start then Inl Panic
         else Inr (issue_unless (ucast (csum_block_bitmap crc (fs_csum_seed f) bb) = bg_block_bitmap_csum desc AND 0xFFFF)
                     ''block bitmap csum mismatch'' @
                   padding_issue bb blocks_in_group ''block bitmap padding bit not set''))"

definition verify_inode_bitmap :: "crc \<Rightarrow> fs \<Rightarrow> group_desc \<Rightarrow> issue list res" where
  "verify_inode_bitmap crc f desc =
    bindE (read_block f (unat (bg_inode_bitmap desc))) (\<lambda>ib.
    if bg_flags desc AND bg_INODE_UNINIT \<noteq> 0
    then Inr (issue_unless (bg_inode_bitmap_csum desc = 0) ''INODE_UNINIT but bitmap csum nonzero'')
    else
      let ipg = s_inodes_per_group (fs_sb f)
      in bindE (csum_inode_bitmap crc (fs_csum_seed f) ib ipg) (\<lambda>want.
         Inr (issue_unless (ucast want = bg_inode_bitmap_csum desc AND 0xFFFF) ''inode bitmap csum mismatch'' @
              padding_issue ib (unat ipg) ''inode bitmap padding bit not set'')))"

definition verify_group :: "crc \<Rightarrow> fs \<Rightarrow> bool \<Rightarrow> nat \<Rightarrow> issue list res" where
  "verify_group crc f has_csum g =
    bindE (read_group_desc_raw f g) (\<lambda>raw.
    bindE (read_group_desc f g) (\<lambda>desc.
    if \<not> has_csum then Inr []
    else
      bindE (csum_group_desc crc (fs_csum_seed f) (of_nat g) raw) (\<lambda>want.
      bindE (verify_block_bitmap crc f g desc) (\<lambda>bb_issues.
      bindE (verify_inode_bitmap crc f desc) (\<lambda>ib_issues.
      Inr (issue_unless (want = bg_checksum desc) ''desc checksum != stored'' @ bb_issues @ ib_issues))))))"

section \<open>Directories\<close>

definition verify_dirent_block :: "crc \<Rightarrow> bytes \<Rightarrow> u32 \<Rightarrow> bool \<Rightarrow> issue list res" where
  "verify_dirent_block crc data seed has_csum =
    or_issue (dirent_collect data) ''dir block: bad record'' (\<lambda>_.
    if \<not> has_csum then Inr []
    else
      case tail_checksum data of
        None \<Rightarrow> Inr [''dir block missing csum tail'']
      | Some stored \<Rightarrow>
          bindE (csum_dirent_block crc seed data) (\<lambda>want.
          Inr (issue_unless (want = stored) ''dir block checksum mismatch'')))"

definition verify_linear_block ::
    "crc \<Rightarrow> fs \<Rightarrow> file_extent list \<Rightarrow> u32 \<Rightarrow> bool \<Rightarrow> nat \<Rightarrow> issue list res" where
  "verify_linear_block crc f extents seed has_csum logical =
    (case file_block extents logical of
       None \<Rightarrow> Inr [''directory hole'']
     | Some block \<Rightarrow> bindE (read_block f block) (\<lambda>data. verify_dirent_block crc data seed has_csum))"

text \<open>The leaf, the lowest hash and the exclusive upper bound each index entry stands for.\<close>

fun dx_ranges :: "dx_entry list \<Rightarrow> (u32 \<times> u32 \<times> nat) list" where
  "dx_ranges [] = []"
| "dx_ranges [e] = [(dx_block e, dx_lo (dx_hash e), 2 ^ 32)]"
| "dx_ranges (e # n # es) = (dx_block e, dx_lo (dx_hash e), dx_hi (dx_hash n)) # dx_ranges (n # es)"

text \<open>The bounds of a node's leaves, tightened at both ends to those of the node's own entry.\<close>

definition node_ranges :: "u32 \<Rightarrow> nat \<Rightarrow> dx_entry list \<Rightarrow> (u32 \<times> u32 \<times> nat) list" where
  "node_ranges node_lo node_hi entries =
    (let rs = dx_ranges entries;
         rs = (case rs of [] \<Rightarrow> [] | (b, lo, hi) # rest \<Rightarrow> (b, node_lo, hi) # rest)
     in if rs = [] then []
        else case last rs of (b, lo, hi) \<Rightarrow>
          if node_hi < hi then butlast rs @ [(b, lo, node_hi)] else rs)"

definition verify_dx_node ::
    "crc \<Rightarrow> fs \<Rightarrow> file_extent list \<Rightarrow> u32 \<Rightarrow> bool \<Rightarrow> u32 \<times> u32 \<times> nat \<Rightarrow>
     (issue list \<times> (u32 \<times> u32 \<times> nat) list) res" where
  "verify_dx_node crc f extents seed has_csum = (\<lambda>(node_block, node_lo, node_hi).
    case file_block extents (unat node_block) of
      None \<Rightarrow> Inr ([''dx_node block unmapped''], [])
    | Some phys \<Rightarrow>
        bindE (read_block f phys) (\<lambda>data.
        case dx_node_parse data of
          Inl Panic \<Rightarrow> Inl Panic
        | Inl (Err e) \<Rightarrow> Inr ([''dx_node''], [])
        | Inr node \<Rightarrow>
            bindE (if has_csum
                   then bindE (csum_dx_block crc seed data NODE_COUNT_OFFSET (dxn_count node) (dxn_limit node))
                     (\<lambda>want. Inr (issue_unless (want = dxn_checksum node) ''dx_node checksum mismatch''))
                   else Inr []) (\<lambda>csum_issues.
            let node_leaves = node_ranges node_lo node_hi (dxn_entries node)
            in Inr (csum_issues @
                    issue_unless (list_all (\<lambda>(_, lo, hi). \<not> (lo < node_lo \<or> node_hi < hi)) node_leaves)
                      ''dx_node range escapes parent'', node_leaves))))"

text \<open>The records of a leaf up to the first bad one, each name hashed again.\<close>

fun verify_leaf_names :: "hash_seed \<Rightarrow> signedness \<Rightarrow> u32 \<Rightarrow> nat \<Rightarrow> dir_entry_ref res list \<Rightarrow> issue list" where
  "verify_leaf_names hseed sg lo hi [] = []"
| "verify_leaf_names hseed sg lo hi (Inl e # rs) = [''leaf: bad dirent chain'']"
| "verify_leaf_names hseed sg lo hi (Inr r # rs) =
     (if de_name r = [0x2E] \<or> de_name r = [0x2E, 0x2E] then verify_leaf_names hseed sg lo hi rs
      else
        let (h, _) = half_md4 hseed sg (de_name r)
        in issue_unless (\<not> (h < lo \<or> hi \<le> unat h)) ''name hash outside leaf range'' @
           verify_leaf_names hseed sg lo hi rs)"

definition verify_dx_leaf ::
    "crc \<Rightarrow> fs \<Rightarrow> file_extent list \<Rightarrow> u32 \<Rightarrow> bool \<Rightarrow> signedness \<Rightarrow> u32 \<times> u32 \<times> nat \<Rightarrow> issue list res" where
  "verify_dx_leaf crc f extents seed has_csum sg = (\<lambda>(leaf_block, lo, hi).
    case file_block extents (unat leaf_block) of
      None \<Rightarrow> Inr [''leaf block unmapped'']
    | Some phys \<Rightarrow>
        bindE (read_block f phys) (\<lambda>data.
        bindE (verify_dirent_block crc data seed has_csum) (\<lambda>block_issues.
        Inr (block_issues @
             verify_leaf_names (s_hash_seed (fs_sb f)) sg lo hi (dirent_items (dirent_iter_new data))))))"

text \<open>The loop over the leaves, with the set of blocks already seen.\<close>

fun verify_leaves ::
    "(u32 \<times> u32 \<times> nat \<Rightarrow> issue list res) \<Rightarrow> u32 list \<Rightarrow> (u32 \<times> u32 \<times> nat) list \<Rightarrow> issue list res" where
  "verify_leaves check seen [] = Inr []"
| "verify_leaves check seen ((b, lo, hi) # rest) =
    (if b \<in> set seen
     then bindE (verify_leaves check seen rest) (\<lambda>iss. Inr (''leaf block referenced twice'' # iss))
     else bindE (check (b, lo, hi)) (\<lambda>is1.
          bindE (verify_leaves check (b # seen) rest) (\<lambda>iss. Inr (is1 @ iss))))"

definition hash_signedness :: "superblock \<Rightarrow> signedness" where
  "hash_signedness sb = (if s_flags sb AND 2 \<noteq> 0 then Unsigned else Signed)"

text \<open>A hash-indexed directory: root, index levels, leaves.\<close>

definition verify_htree :: "crc \<Rightarrow> fs \<Rightarrow> file_extent list \<Rightarrow> u32 \<Rightarrow> bool \<Rightarrow> issue list res" where
  "verify_htree crc f extents seed has_csum =
    bindE (read_block f (case file_block extents 0 of None \<Rightarrow> 0 | Some b \<Rightarrow> b)) (\<lambda>data.
    or_issue (dx_root_parse data) ''dx_root'' (\<lambda>root.
    bindE (if has_csum
           then bindE (csum_dx_block crc seed data ROOT_COUNT_OFFSET (dxr_count root) (dxr_limit root))
             (\<lambda>want. Inr (issue_unless (want = dxr_checksum root) ''dx_root checksum mismatch''))
           else Inr []) (\<lambda>root_issues.
    if dxi_hash_version (dxr_info root) \<noteq> 1 then Inr (root_issues @ [''unsupported hash_version''])
    else
      bindE (if dxi_indirect_levels (dxr_info root) = 0 then Inr ([], dx_ranges (dxr_entries root))
             else
               bindE (mapE (verify_dx_node crc f extents seed has_csum) (dx_ranges (dxr_entries root))) (\<lambda>nodes.
               Inr (concat (map fst nodes), concat (map snd nodes)))) (\<lambda>(node_issues, leaves).
      bindE (verify_leaves (verify_dx_leaf crc f extents seed has_csum (hash_signedness (fs_sb f))) [] leaves) (\<lambda>leaf_issues.
      Inr (root_issues @ node_issues @ leaf_issues))))))"

definition verify_dir :: "crc \<Rightarrow> fs \<Rightarrow> u32 \<Rightarrow> inode \<Rightarrow> bool \<Rightarrow> issue list res" where
  "verify_dir crc f ino inode has_csum =
    bindE (fs_extents crc f ino inode) (\<lambda>extents.
    let seed = inode_seed crc (fs_csum_seed f) ino (i_generation inode)
    in if inode_is_htree inode then verify_htree crc f extents seed has_csum
       else issues_of (verify_linear_block crc f extents seed has_csum) [0..<unat (i_size inode) div fs_block_size f])"

section \<open>Attributes, inodes, journal\<close>

definition xattr_sort_key :: "xattr_entry \<Rightarrow> u8 \<times> nat \<times> bytes" where
  "xattr_sort_key e = (xa_name_index e, length (xa_name e), xa_name e)"

definition verify_xattr_view :: "crc \<Rightarrow> u32 \<Rightarrow> u64 \<Rightarrow> bytes \<Rightarrow> bool \<Rightarrow> xattr_block_view \<Rightarrow> issue list res" where
  "verify_xattr_view crc fseed block_nr data has_csum view =
    bindE (if has_csum
           then bindE (csum_xattr_block crc fseed block_nr data) (\<lambda>want.
                  Inr (issue_unless (want = xb_checksum view) ''xattr block checksum mismatch''))
           else Inr []) (\<lambda>csum_issues.
    Inr (csum_issues @
      issue_unless (list_all (\<lambda>(a, b). \<not> xattr_sort_key a > xattr_sort_key b)
          (zip (xb_entries view) (tl (xb_entries view)))) ''xattr block entries unsorted'' @
      concat (map (\<lambda>e. issue_unless (xa_hash e = 0 \<or> xa_hash e = xattr_entry_hash (xa_name e) (xa_value e))
          ''xattr e_hash mismatch'') (xb_entries view)) @
      issue_unless (xb_hash view = 0 \<or> xattr_block_hash (map xa_hash (xb_entries view)) = xb_hash view)
        ''xattr h_hash mismatch''))"

definition verify_xattr_block :: "crc \<Rightarrow> fs \<Rightarrow> inode \<Rightarrow> bool \<Rightarrow> issue list res" where
  "verify_xattr_block crc f inode has_csum =
    bindE (read_block f (unat (i_file_acl inode))) (\<lambda>data.
    or_issue (xattr_block_parse data) ''xattr block''
      (verify_xattr_view crc (fs_csum_seed f) (i_file_acl inode) data has_csum))"

text \<open>Extents in order and inside the filesystem.\<close>

definition verify_extents :: "fs \<Rightarrow> file_extent list \<Rightarrow> issue list" where
  "verify_extents f extents =
    issue_unless (list_all (\<lambda>(a, b). \<not> fx_logical a + fx_len a > fx_logical b) (zip extents (tl extents)))
      ''extents overlap or unsorted'' @
    concat (map (\<lambda>e. issue_unless (\<not> fx_physical e + fx_len e > unat (s_blocks_count (fs_sb f)))
      ''extent past end of fs'') extents)"

definition verify_inode :: "crc \<Rightarrow> fs \<Rightarrow> bool \<Rightarrow> u32 \<Rightarrow> issue list res" where
  "verify_inode crc f has_csum ino =
    or_issue (read_inode crc f ino) ''inode'' (\<lambda>inode.
    if ino < FIRST_INO \<and> ino \<noteq> ROOT_INO \<and> ino \<noteq> JOURNAL_INO then Inr []
    else if i_links_count inode = 0 \<and> i_dtime inode \<noteq> 0 then Inr []
    else
      or_issue (fs_extents crc f ino inode) ''extent walk'' (\<lambda>extents.
      bindE (if inode_file_type inode = Dir then verify_dir crc f ino inode has_csum
             else Inr (issue_unless (\<not> (inode_file_type inode = Symlink \<and> fast_symlink_target inode = None \<and>
                    (i_size inode = 0 \<or> fs_block_size f \<le> unat (i_size inode)))) ''symlink target size'')) (\<lambda>type_issues.
      bindE (if i_file_acl inode \<noteq> 0 then verify_xattr_block crc f inode has_csum else Inr []) (\<lambda>acl_issues.
      Inr (verify_extents f extents @ type_issues @ acl_issues)))))"

definition verify_journal :: "crc \<Rightarrow> fs \<Rightarrow> issue list res" where
  "verify_journal crc f =
    (let sb = fs_sb f; ino = s_journal_inum sb
     in if s_feature_compat sb AND compat_HAS_JOURNAL = 0 \<or> ino = 0 then Inr []
        else
          bindE (read_inode crc f ino) (\<lambda>inode.
          bindE (fs_extents crc f ino inode) (\<lambda>extents.
          case file_block extents 0 of
            None \<Rightarrow> Inr [''journal inode has no block 0'']
          | Some first \<Rightarrow>
              bindE (read_block f first) (\<lambda>block.
              or_issue (journal_superblock_decode block) ''journal superblock'' (\<lambda>jsb.
              bindE (mul64 (unat (js_maxlen jsb)) (fs_block_size f)) (\<lambda>journal_bytes.
              Inr (issue_unless (unat (js_blocksize jsb) = fs_block_size f) ''journal blocksize'' @
                   issue_unless (journal_bytes = unat (i_size inode)) ''journal maxlen inconsistent with i_size'')))))))"

section \<open>The whole pass\<close>

definition verify_reserved :: "fs \<Rightarrow> issue list res" where
  "verify_reserved f =
    issues_of (\<lambda>ino. bindE (inode_in_use f (of_nat ino)) (\<lambda>used.
        Inr (issue_unless used ''reserved inode not marked in use'')))
      [1..<min 10 (unat (s_inodes_count (fs_sb f))) + 1]"

text \<open>The inodes marked in a group's bitmap; \<^verbatim>\<open>g as u32 * ipg + idx as u32 + 1\<close> is checked
  arithmetic on 32 bits.\<close>

definition verify_group_inodes :: "crc \<Rightarrow> fs \<Rightarrow> bool \<Rightarrow> nat \<Rightarrow> issue list res" where
  "verify_group_inodes crc f has_csum g =
    bindE (read_group_desc f g) (\<lambda>desc.
    if bg_flags desc AND bg_INODE_UNINIT \<noteq> 0 then Inr []
    else
      bindE (read_block f (unat (bg_inode_bitmap desc))) (\<lambda>bitmap.
      let ipg = unat (s_inodes_per_group (fs_sb f))
      in issues_of (\<lambda>idx.
           if \<not> bitmap_bit bitmap idx then Inr []
           else if 2 ^ 32 \<le> g mod 2 ^ 32 * ipg + idx + 1 then Inl Panic
           else verify_inode crc f has_csum (of_nat (g mod 2 ^ 32 * ipg + idx + 1))) [0..<ipg]))"

definition verify :: "crc \<Rightarrow> fs \<Rightarrow> issue list res" where
  "verify crc f =
    (let has_csum = has_metadata_csum (fs_sb f)
     in bindE (superblock_group_count (fs_sb f)) (\<lambda>groups.
        bindE (issues_of (verify_group crc f has_csum) [0..<unat groups]) (\<lambda>is1.
        bindE (verify_reserved f) (\<lambda>is2.
        bindE (issues_of (verify_group_inodes crc f has_csum) [0..<unat groups]) (\<lambda>is3.
        bindE (verify_journal crc f) (\<lambda>is4.
        Inr (is1 @ is2 @ is3 @ is4)))))))"

end
