(* ===== verification/VerifyBuilt.thy ===== *)
theory VerifyBuilt
  imports Verify XattrBuild
begin

text \<open>
  What the builder writes, the verifier accepts: directories of both kinds and attribute blocks
  give no issue. The bounds that the verifier computes for the leaves of an index, over one level
  or two, are those of a single list of ranges over all leaves.
\<close>

section \<open>Ranges\<close>

text \<open>The ranges of an index given the bounds at its two ends.\<close>

fun ranges :: "u32 \<Rightarrow> nat \<Rightarrow> dx list \<Rightarrow> (u32 \<times> u32 \<times> nat) list" where
  "ranges lo hi [] = []"
| "ranges lo hi [d] = [(snd d, lo, hi)]"
| "ranges lo hi (d # n # ds) = (snd d, lo, dx_hi (fst n)) # ranges (dx_lo (fst n)) hi (n # ds)"

lemma ranges_Cons:
  "ranges lo hi (d # ds) = (snd d, lo, if ds = [] then hi else dx_hi (fst (hd ds))) #
     ranges (dx_lo (fst (hd ds))) hi ds"
  by (cases ds) auto

lemma ranges_Nil_iff [simp]: "ranges lo hi dx = [] \<longleftrightarrow> dx = []"
  by (cases dx) (auto simp: ranges_Cons)

lemma ranges_append:
  "c \<noteq> [] \<Longrightarrow> c' \<noteq> [] \<Longrightarrow> ranges lo hi (c @ c') =
     ranges lo (dx_hi (fst (hd c'))) c @ ranges (dx_lo (fst (hd c'))) hi c'"
  by (induction c arbitrary: lo rule: list_nonempty_induct) (auto simp: ranges_Cons)

lemma length_ranges [simp]: "length (ranges lo hi dx) = length dx"
  by (induction lo hi dx rule: ranges.induct) auto

lemma map_fst_ranges: "map fst (ranges lo hi dx) = map snd dx"
  by (induction lo hi dx rule: ranges.induct) auto

lemma nth_ranges:
  "i < length dx \<Longrightarrow> ranges lo hi dx ! i =
    (snd (dx ! i), if i = 0 then lo else dx_lo (fst (dx ! i)),
     if Suc i < length dx then dx_hi (fst (dx ! Suc i)) else hi)"
proof (induction dx arbitrary: lo i)
  case (Cons d ds)
  then show ?case by (cases i; cases ds) (auto simp: ranges_Cons nth_Cons')
qed simp

lemma dx_lo_0 [simp]: "dx_lo 0 = 0"
  by (simp add: dx_lo_def)

lemma dx_ranges_eq:
  "dx_ranges (\<lparr>dx_hash = h, dx_block = snd d\<rparr> # map (\<lambda>(h, k). \<lparr>dx_hash = h, dx_block = k\<rparr>) ds) =
   ranges (dx_lo h) (2 ^ 32) (d # ds)"
  by (induction ds arbitrary: h d) (auto simp: split_beta)

lemma dx_ranges_view: "dx \<noteq> [] \<Longrightarrow> dx_ranges (dx_view dx) = ranges 0 (2 ^ 32) dx"
  using dx_ranges_eq [of 0 "hd dx" "tl dx"] by (simp add: dx_view_def)

lemma ranges_tighten:
  "dx \<noteq> [] \<Longrightarrow> node_hi \<le> 2 ^ 32 \<Longrightarrow>
   (case last (ranges lo (2 ^ 32) dx) of (b, l, h) \<Rightarrow>
      if node_hi < h then butlast (ranges lo (2 ^ 32) dx) @ [(b, l, node_hi)] else ranges lo (2 ^ 32) dx) =
   ranges lo node_hi dx"
proof (induction lo "2 ^ 32 :: nat" dx rule: ranges.induct)
  case (3 lo d n ds)
  then show ?case by (cases "last (ranges (dx_lo (fst n)) (2 ^ 32) (n # ds))") (auto simp: ranges_Cons split: if_splits)
qed auto

lemma node_ranges_view:
  assumes "dx \<noteq> []" "node_hi \<le> 2 ^ 32"
  shows "node_ranges node_lo node_hi (dx_view dx) = ranges node_lo node_hi dx"
proof -
  have eq: "(case ranges 0 (2 ^ 32) dx of [] \<Rightarrow> [] | (b, lo, hi) # rest \<Rightarrow> (b, node_lo, hi) # rest) =
      ranges node_lo (2 ^ 32) dx"
    using assms(1) by (cases dx) (simp_all add: ranges_Cons)
  show ?thesis
    unfolding node_ranges_def dx_ranges_view [OF assms(1)] Let_def eq
    using ranges_tighten [OF assms, of node_lo] assms(1) by (simp only: ranges_Nil_iff if_False)
qed

text \<open>Bounds that only grow along the index nest in the bounds at the ends.\<close>

definition dx_mono :: "dx list \<Rightarrow> bool" where
  "dx_mono dx \<longleftrightarrow> sorted_wrt (\<lambda>a b. dx_lo (fst a) \<le> dx_lo (fst b) \<and> dx_hi (fst a) \<le> dx_hi (fst b)) dx"

lemma ranges_nested:
  "\<forall>d\<in>set (tl dx). lo \<le> dx_lo (fst d) \<and> dx_hi (fst d) \<le> hi \<Longrightarrow>
   \<forall>(b, l, h)\<in>set (ranges lo hi dx). lo \<le> l \<and> h \<le> hi"
proof -
  have "(\<forall>d\<in>set (tl dx). m \<le> dx_lo (fst d) \<and> dx_hi (fst d) \<le> hi) \<Longrightarrow> m \<le> lo \<Longrightarrow>
      \<forall>(b, l, h)\<in>set (ranges lo hi dx). m \<le> l \<and> h \<le> hi" for m
  proof (induction dx arbitrary: lo)
    case (Cons d ds)
    then show ?case
      using Cons.IH [of "dx_lo (fst (hd ds))"] by (cases ds) (auto simp: ranges_Cons)
  qed simp
  then show "\<forall>d\<in>set (tl dx). lo \<le> dx_lo (fst d) \<and> dx_hi (fst d) \<le> hi \<Longrightarrow>
    \<forall>(b, l, h)\<in>set (ranges lo hi dx). lo \<le> l \<and> h \<le> hi" by simp
qed

lemma dx_hi_le: "dx_hi h \<le> 2 ^ 32" "unat (dx_lo h) \<le> dx_hi h" "dx_hi h \<le> unat (dx_lo h) + 1"
  using unat_bounds(2) [of "h AND NOT 1"] by (auto simp: dx_hi_def dx_lo_def)

section \<open>The entries of the leaf level\<close>

lemma leaf_dx_lo:
  assumes "[] \<notin> set gs" "\<forall>x\<in>set (concat gs). fst x AND 1 = 0" "i < length gs"
  shows "dx_lo (fst (leaf_dx_of 0 None gs ! i)) = fst (hd (gs ! i))"
proof -
  have "gs ! i \<in> set gs" using assms(3) by simp
  then have "hd (gs ! i) \<in> set (concat gs)" using assms(1) by (metis UN_I list.set_sel(1) set_concat)
  then have "fst (hd (gs ! i)) AND 1 = 0" using assms(2) by blast
  note e = even_hash_bits [OF this]
  show ?thesis
  proof (cases i)
    case 0
    then show ?thesis using assms(3) e by (cases gs) (auto simp: dx_lo_def)
  next
    case (Suc j)
    then show ?thesis using assms(3) e by (simp add: leaf_dx_of_hash dx_lo_def)
  qed
qed

lemma leaf_dx_mono:
  assumes hs: "sorted (map fst (concat gs))" "[] \<notin> set gs" "\<forall>x\<in>set (concat gs). fst x AND 1 = 0"
  shows "dx_mono (leaf_dx_of 0 None gs)"
proof -
  let ?dx = "leaf_dx_of 0 None gs"
  have tr: "transp (\<lambda>a b. dx_lo (fst a) \<le> dx_lo (fst b) \<and> dx_hi (fst a) \<le> dx_hi (fst (b :: dx)))"
    by (auto intro!: transpI)
  have "dx_lo (fst (?dx ! i)) \<le> dx_lo (fst (?dx ! Suc i)) \<and> dx_hi (fst (?dx ! i)) \<le> dx_hi (fst (?dx ! Suc i))"
    if i: "Suc i < length gs" for i
  proof -
    have ne: "gs ! i \<noteq> []" "gs ! Suc i \<noteq> []" using hs(2) i by (metis Suc_lessD nth_mem)+
    note lo = leaf_dx_lo [OF hs(2,3)]
    note b = leaf_dx_bounds [OF hs, of i "hd (gs ! i)"]
    have "unat (fst (hd (gs ! i))) < dx_hi (fst (?dx ! Suc i))" using b(2) i ne by simp
    then have hi: "dx_hi (fst (?dx ! i)) \<le> dx_hi (fst (?dx ! Suc i))"
      using dx_hi_le(3) [of "fst (?dx ! i)"] lo [of i] i by simp
    moreover have "unat (fst (hd (gs ! i))) \<le> unat (fst (hd (gs ! Suc i)))"
      using \<open>unat (fst (hd (gs ! i))) < dx_hi (fst (?dx ! Suc i))\<close> dx_hi_le(3) [of "fst (?dx ! Suc i)"] lo [of "Suc i"] i
      by simp
    ultimately show ?thesis using lo [of i] lo [of "Suc i"] i by (simp add: word_le_nat_alt)
  qed
  then show ?thesis unfolding dx_mono_def sorted_wrt_iff_nth_Suc_transp [OF tr] by simp
qed

section \<open>Directory blocks\<close>

lemma collect_items: "dirent_collect b = Inr rs \<Longrightarrow> dirent_items (dirent_iter_new b) = map Inr rs"
proof -
  have "mapE id xs = Inr ys \<Longrightarrow> xs = map Inr ys" for xs :: "'a res list" and ys
    by (induction xs arbitrary: ys) (auto simp: res_simps)
  then show "dirent_collect b = Inr rs \<Longrightarrow> dirent_items (dirent_iter_new b) = map Inr rs"
    by (simp add: dirent_collect_def)
qed

lemma verify_dirent_block_ok: "dir_block_ok crc iseed b es \<Longrightarrow> verify_dirent_block crc b iseed hc = Inr []"
  by (auto simp: verify_dirent_block_def or_issue_def dir_block_ok_def csum_dirent_block_def issue_unless_def)

text \<open>Where a directory's blocks are, for the reader.\<close>

definition mapped_block :: "fs \<Rightarrow> file_extent list \<Rightarrow> nat \<Rightarrow> bytes \<Rightarrow> bool" where
  "mapped_block f es k b \<longleftrightarrow> (\<exists>p. file_block es k = Some p \<and> read_block f p = Inr b)"

lemma verify_linear_ok:
  assumes "list_all2 (dir_block_ok crc iseed) bs ess" "\<And>k. k < length bs \<Longrightarrow> mapped_block f es k (bs ! k)"
  shows "issues_of (verify_linear_block crc f es iseed hc) [0..<length bs] = Inr []"
proof -
  have "verify_linear_block crc f es iseed hc k = Inr []" if k: "k < length bs" for k
    using assms(2) [OF k] verify_dirent_block_ok [OF list_all2_nthD [OF assms(1) k]]
    by (auto simp: mapped_block_def verify_linear_block_def)
  then have "mapE (verify_linear_block crc f es iseed hc) [0..<length bs] = Inr (map (\<lambda>_. []) [0..<length bs])"
    by (intro mapE_Inr) simp
  then show ?thesis by (simp add: issues_of_def)
qed

lemma verify_leaf_names_ok:
  "\<forall>e\<in>set (map de_view rs). lo \<le> fst (half_md4 hseed sg (fst e)) \<and> unat (fst (half_md4 hseed sg (fst e))) < hi \<Longrightarrow>
   verify_leaf_names hseed sg lo hi (map Inr rs) = []"
  by (induction rs) (auto simp: issue_unless_def Let_def split_beta de_view_def)

lemma verify_dx_leaf_ok:
  assumes "dir_block_ok crc iseed b ents" "mapped_block f es (unat k) b"
    and "\<forall>e\<in>set ents. lo \<le> fst (half_md4 (s_hash_seed (fs_sb f)) sg (fst e)) \<and>
      unat (fst (half_md4 (s_hash_seed (fs_sb f)) sg (fst e))) < hi"
  shows "verify_dx_leaf crc f es iseed hc sg (k, lo, hi) = Inr []"
proof -
  obtain rs where rs: "dirent_collect b = Inr rs" "map de_view rs = ents"
    using assms(1) by (auto simp: dir_block_ok_def)
  show ?thesis
    using assms(2) verify_dirent_block_ok [OF assms(1), of hc] collect_items [OF rs(1)]
      verify_leaf_names_ok [of rs lo "s_hash_seed (fs_sb f)" sg hi] assms(3) rs(2)
    by (auto simp: verify_dx_leaf_def mapped_block_def)
qed

lemma verify_leaves_ok:
  "distinct (map fst rs) \<Longrightarrow> set (map fst rs) \<inter> set seen = {} \<Longrightarrow> \<forall>r\<in>set rs. check r = Inr [] \<Longrightarrow>
   verify_leaves check seen rs = Inr []"
  by (induction check seen rs rule: verify_leaves.induct) auto

section \<open>Interior nodes\<close>

lemma node_dx_Cons: "node_dx k (c # cs) = (fst (hd c), of_nat k) # node_dx (Suc k) cs"
proof -
  have "enumerate (Suc 0) cs = map (\<lambda>(i, c). (Suc i, c)) (enumerate 0 cs)"
    by (rule nth_equalityI) (simp_all add: nth_enumerate_eq)
  then show ?thesis by (simp add: node_dx_def split_beta)
qed

lemma node_dx_hd: "cs \<noteq> [] \<Longrightarrow> [] \<notin> set cs \<Longrightarrow> fst (hd (node_dx k cs)) = fst (hd (concat cs))"
  by (cases cs) (auto simp: node_dx_Cons)

lemma verify_dx_node_ok:
  assumes node: "node_ok crc iseed b c" and c: "c \<noteq> []"
    and m: "mapped_block f es k b" "k < 2 ^ 32"
    and nest: "\<forall>d\<in>set (tl c). lo \<le> dx_lo (fst d) \<and> dx_hi (fst d) \<le> hi" "hi \<le> 2 ^ 32"
  shows "verify_dx_node crc f es iseed hc (of_nat k, lo, hi) = Inr ([], ranges lo hi c)"
proof -
  have k: "unat (of_nat k :: u32) = k" using m(2) by (simp add: unat_of_nat)
  have n: "unat (of_nat (length c) :: u16) \<le> 510 \<or> True" by simp
  have parse: "dx_node_parse b = Inr \<lparr>dxn_limit = 510, dxn_count = of_nat (length c), dxn_entries = dx_view c,
      dxn_checksum = dx_block_sum crc iseed b NODE_COUNT_OFFSET (of_nat (length c)) 510\<rparr>"
    and len: "length b = 4096" using node by (simp_all add: node_ok_def)
  have "unat (of_nat (length c) :: u16) \<le> 510"
  proof -
    obtain cs where "dx_parse_entries b NODE_COUNT_OFFSET ''dx_node'' = Inr (510, of_nat (length c), dx_view c, cs)"
      using parse by (auto simp: dx_node_parse_def res_simps split: if_splits)
    from dx_parse_entries_ok(2) [OF this] show ?thesis by simp
  qed
  then have "csum_dx_block crc iseed b NODE_COUNT_OFFSET (of_nat (length c)) 510 =
      Inr (dx_block_sum crc iseed b NODE_COUNT_OFFSET (of_nat (length c)) 510)"
    using len by (simp add: csum_dx_block_def)
  moreover have "list_all (\<lambda>(_, l, h). \<not> (l < lo \<or> hi < h)) (ranges lo hi c)"
    using ranges_nested [OF nest(1)] by (auto simp: list_all_iff)
  ultimately show ?thesis
    using m(1) k parse node_ranges_view [OF c nest(2), of lo]
    by (auto simp: verify_dx_node_def mapped_block_def issue_unless_def)
qed

lemma verify_dx_nodes_ok:
  assumes "hi \<le> 2 ^ 32"
  shows "list_all2 (node_ok crc iseed) nodes cs \<Longrightarrow> [] \<notin> set cs \<Longrightarrow>
    (\<And>j. j < length nodes \<Longrightarrow> mapped_block f es (k + j) (nodes ! j)) \<Longrightarrow> k + length cs \<le> 2 ^ 32 \<Longrightarrow>
    dx_mono (concat cs) \<Longrightarrow>
    (cs \<noteq> [] \<Longrightarrow> \<forall>d\<in>set (tl (concat cs)). lo \<le> dx_lo (fst d) \<and> dx_hi (fst d) \<le> hi) \<Longrightarrow>
    \<exists>out. mapE (verify_dx_node crc f es iseed hc) (ranges lo hi (node_dx k cs)) = Inr out \<and>
      concat (map fst out) = [] \<and> concat (map snd out) = ranges lo hi (concat cs)"
proof (induction nodes cs arbitrary: k lo rule: list_all2_induct)
  case Nil
  then show ?case by (simp add: node_dx_def)
next
  case (Cons b nodes c cs)
  have c: "c \<noteq> []" using Cons.prems(1) by auto
  have m0: "mapped_block f es k b" using Cons.prems(2) [of 0] by simp
  define mid where "mid = (if cs = [] then hi else dx_hi (fst (hd (concat cs))))"
  have cc: "cs \<noteq> [] \<Longrightarrow> concat cs \<noteq> []" using Cons.prems(1) by (cases cs) auto
  have hdin: "cs \<noteq> [] \<Longrightarrow> hd (concat cs) \<in> set (concat cs)" using cc by (rule hd_in_set)
  have mono: "dx_mono c" "dx_mono (concat cs)"
    "\<And>a b. a \<in> set c \<Longrightarrow> b \<in> set (concat cs) \<Longrightarrow> dx_hi (fst a) \<le> dx_hi (fst b)"
    using Cons.prems(4) by (auto simp: dx_mono_def sorted_wrt_append)
  have after: "\<forall>d\<in>set (concat cs). lo \<le> dx_lo (fst d) \<and> dx_hi (fst d) \<le> hi"
    "\<forall>d\<in>set (tl c). lo \<le> dx_lo (fst d) \<and> dx_hi (fst d) \<le> hi"
    using Cons.prems(5) c by auto
  have "\<forall>d\<in>set (tl c). dx_hi (fst d) \<le> mid"
  proof
    fix d assume d: "d \<in> set (tl c)"
    then have "d \<in> set c" by (rule list.set_sel(2) [OF c])
    then show "dx_hi (fst d) \<le> mid" using d after(2) mono(3) [OF _ hdin] by (cases "cs = []") (auto simp: mid_def)
  qed
  moreover have "mid \<le> 2 ^ 32" using assms dx_hi_le(1) by (simp add: mid_def)
  ultimately have first: "verify_dx_node crc f es iseed hc (of_nat k, lo, mid) = Inr ([], ranges lo mid c)"
    using verify_dx_node_ok [OF Cons.hyps(1) c m0, of lo mid hc] Cons.prems(3) after(2) by simp
  show ?case
  proof (cases "cs = []")
    case True
    then show ?thesis using first Cons.hyps(2) by (simp add: node_dx_Cons node_dx_def mid_def)
  next
    case False
    let ?lo' = "dx_lo (fst (hd (concat cs)))"
    have tl': "\<forall>d\<in>set (tl (concat cs)). ?lo' \<le> dx_lo (fst d) \<and> dx_hi (fst d) \<le> hi"
      using mono(2) after(1) cc [OF False] by (cases "concat cs") (auto simp: dx_mono_def)
    have "\<exists>out. mapE (verify_dx_node crc f es iseed hc) (ranges ?lo' hi (node_dx (Suc k) cs)) = Inr out \<and>
      concat (map fst out) = [] \<and> concat (map snd out) = ranges ?lo' hi (concat cs)"
    proof (rule Cons.IH)
      show "mapped_block f es (Suc k + j) (nodes ! j)" if "j < length nodes" for j
        using Cons.prems(2) [of "Suc j"] that by simp
    qed (use Cons.prems(1,3) mono(2) tl' in auto)
    then obtain out where out: "mapE (verify_dx_node crc f es iseed hc) (ranges ?lo' hi (node_dx (Suc k) cs)) = Inr out"
      "concat (map fst out) = []" "concat (map snd out) = ranges ?lo' hi (concat cs)" by blast
    have hd: "fst (hd (node_dx (Suc k) cs)) = fst (hd (concat cs))"
      using node_dx_hd [OF False] Cons.prems(1) by simp
    have ne: "node_dx (Suc k) cs \<noteq> []" using False by (cases cs) (simp_all add: node_dx_Cons)
    have "ranges lo hi (node_dx k (c # cs)) = (of_nat k, lo, mid) # ranges ?lo' hi (node_dx (Suc k) cs)"
      using ne hd False by (simp add: node_dx_Cons ranges_Cons mid_def)
    then show ?thesis using first out ranges_append [OF c cc [OF False], of lo hi] False
      by (simp add: mid_def)
  qed
qed

section \<open>The whole index\<close>

lemma hash_entries_even: "\<forall>x\<in>set (hash_entries seed entries). fst x AND 1 = 0"
proof
  fix x assume "x \<in> set (hash_entries seed entries)"
  moreover obtain h m i where "x = (h, m, i)" by (cases x)
  ultimately show "fst x AND 1 = 0"
    using hash_entries_mem(2) [of h m i seed entries] half_md4_even [of seed Signed "fst (entries ! i)"] by simp
qed

text \<open>Every leaf of the index, checked against its range.\<close>

lemma verify_index_leaves_ok:
  fixes seed :: hash_seed
  assumes ok: "\<forall>e\<in>set entries. dentry_ok e" "entries \<noteq> []"
  defines "gs \<equiv> hash_groups entries (hash_entries seed entries)"
  assumes leaves: "list_all2 (dir_block_ok crc iseed) leaves (map (map (entry_of_hash entries)) gs)"
    and m: "\<And>k. k < length leaves \<Longrightarrow> mapped_block f es (Suc k) (leaves ! k)"
    and n: "length gs < 2 ^ 32 - 1" and seed: "s_hash_seed (fs_sb f) = seed"
  shows "verify_leaves (verify_dx_leaf crc f es iseed hc Signed) []
    (ranges 0 (2 ^ 32) (leaf_dx_of 0 None gs)) = Inr []"
proof (rule verify_leaves_ok)
  let ?dx = "leaf_dx_of 0 None gs"
  note g = hash_groups_props [OF ok, of seed, folded gs_def]
  have ev: "\<forall>x\<in>set (concat gs). fst x AND 1 = 0" unfolding g(1) by (rule hash_entries_even)
  have srt: "sorted (map fst (concat gs))" unfolding g(1) by (rule sorted_fst_hashes [OF hash_entries_index(3)])
  have blk: "map snd ?dx = map (\<lambda>i. of_nat (Suc i)) [0..<length gs]"
    by (rule nth_equalityI) (simp_all add: leaf_dx_of_block)
  have "inj_on (\<lambda>i. of_nat (Suc i) :: u32) {0..<length gs}"
  proof (rule inj_onI)
    fix i j assume ij: "i \<in> {0..<length gs}" "j \<in> {0..<length gs}" and eq: "of_nat (Suc i) = (of_nat (Suc j) :: u32)"
    have "unat (of_nat (Suc i) :: u32) = Suc i" "unat (of_nat (Suc j) :: u32) = Suc j"
      using ij n by (simp_all add: unat_of_nat del: of_nat_Suc)
    then show "i = j" using arg_cong [OF eq, of unat] by simp
  qed
  then show "distinct (map fst (ranges 0 (2 ^ 32) ?dx))"
    by (simp add: map_fst_ranges blk distinct_map)
  show "set (map fst (ranges 0 (2 ^ 32) ?dx)) \<inter> set [] = {}" by simp
  show "\<forall>r\<in>set (ranges 0 (2 ^ 32) ?dx). verify_dx_leaf crc f es iseed hc Signed r = Inr []"
  proof
    fix r assume "r \<in> set (ranges 0 (2 ^ 32) ?dx)"
    then obtain i where i: "i < length gs" "r = ranges 0 (2 ^ 32) ?dx ! i" by (auto simp: in_set_conv_nth)
    define lo where "lo = (if i = 0 then 0 else dx_lo (fst (?dx ! i)))"
    define hi where "hi = (if Suc i < length gs then dx_hi (fst (?dx ! Suc i)) else 2 ^ 32)"
    have r: "r = (of_nat (Suc i), lo, hi)" using i by (simp add: nth_ranges leaf_dx_of_block lo_def hi_def)
    have k: "unat (of_nat (Suc i) :: u32) = Suc i" using i(1) n by (simp add: unat_of_nat del: of_nat_Suc)
    have len: "length leaves = length gs" using leaves by (auto dest: list_all2_lengthD)
    have blk: "dir_block_ok crc iseed (leaves ! i) (map (entry_of_hash entries) (gs ! i))"
      using list_all2_nthD [OF leaves, of i] i(1) len by simp
    have "lo \<le> fst (half_md4 seed Signed (fst e)) \<and> unat (fst (half_md4 seed Signed (fst e))) < hi"
      if e: "e \<in> set (map (entry_of_hash entries) (gs ! i))" for e
    proof -
      obtain h m j where x: "(h, m, j) \<in> set (gs ! i)" "e = entries ! j"
        using e by (auto simp: entry_of_hash_def)
      then have "(h, m, j) \<in> set (hash_entries seed entries)" using i(1) g(1) by (metis UN_I nth_mem set_concat)
      then have h: "half_md4 seed Signed (fst e) = (h, m)" using hash_entries_mem(2) x(2) by blast
      show ?thesis using leaf_dx_bounds [OF srt g(2) ev i(1) x(1)] unat_bounds(2) [of h]
        by (auto simp: h lo_def hi_def)
    qed
    then show "verify_dx_leaf crc f es iseed hc Signed r = Inr []"
      using verify_dx_leaf_ok [OF blk, of f es "of_nat (Suc i)" lo Signed hi hc] m [of i] i(1) len k seed
      by (simp add: r del: of_nat_Suc)
  qed
qed

lemma mapped_read: "mapped_block f es 0 b \<Longrightarrow> read_block f (case file_block es 0 of None \<Rightarrow> 0 | Some p \<Rightarrow> p) = Inr b"
  by (auto simp: mapped_block_def)

lemma root_csum_ok:
  assumes "index_root_ok crc iseed self_ino parent_ino levels dx b"
  shows "csum_dx_block crc iseed b ROOT_COUNT_OFFSET (of_nat (length dx)) 507 =
    Inr (dx_block_sum crc iseed b ROOT_COUNT_OFFSET (of_nat (length dx)) 507)"
proof -
  have len: "length b = 4096" using assms by (simp add: index_root_ok_def)
  obtain cs where "dx_parse_entries b ROOT_COUNT_OFFSET ''dx_root'' = Inr (507, of_nat (length dx), dx_view dx, cs)"
    using assms by (auto simp: index_root_ok_def dx_root_parse_def Let_def res_simps split: if_splits)
  from dx_parse_entries_ok(2) [OF this] show ?thesis using len by (simp add: csum_dx_block_def)
qed

lemma verify_htree_built:
  fixes seed :: hash_seed
  assumes ok: "\<forall>e\<in>set entries. dentry_ok e" "entries \<noteq> []" and ino: "self_ino \<noteq> 0" "parent_ino \<noteq> 0"
    and b: "htree_build crc self_ino parent_ino entries seed (fs_csum_seed f) = Inr blocks"
    and m: "\<And>k. k < length blocks \<Longrightarrow> mapped_block f es k (blocks ! k)"
    and sb: "s_hash_seed (fs_sb f) = seed" "hash_signedness (fs_sb f) = Signed"
  shows "verify_htree crc f es (inode_seed crc (fs_csum_seed f) self_ino 0) hc = Inr []"
proof -
  let ?is = "inode_seed crc (fs_csum_seed f) self_ino 0"
  define gs where "gs = hash_groups entries (hash_entries seed entries)"
  define dx where "dx = leaf_dx_of 0 None gs"
  note r = htree_build_result [OF ok ino, of seed crc "fs_csum_seed f", unfolded b, folded gs_def, folded dx_def]
  note g = hash_groups_props [OF ok, of seed, folded gs_def]
  have ne: "dx \<noteq> []" using g(3) by (cases gs) (simp_all add: dx_def)
  have small: "length gs \<le> 507 * 510" using r(3) by (cases "507 * 510 < length gs") auto
  show ?thesis
  proof (cases "length gs \<le> 507")
    case True
    then obtain root leaves where blocks: "blocks = root # leaves"
      "index_root_ok crc ?is self_ino parent_ino 0 dx root"
      "list_all2 (dir_block_ok crc ?is) leaves (map (map (entry_of_hash entries)) gs)"
      using r(1) by auto
    have "verify_leaves (verify_dx_leaf crc f es ?is hc Signed) [] (ranges 0 (2 ^ 32) dx) = Inr []"
      unfolding dx_def gs_def
      by (rule verify_index_leaves_ok [OF ok]) (use blocks(1,3) m [of "Suc _"] small sb in \<open>auto simp: gs_def\<close>)
    then show ?thesis
      using blocks(2) mapped_read [of f es root] m [of 0] root_csum_ok [OF blocks(2)] sb(2) blocks(1) ne
      by (simp add: verify_htree_def or_issue_def index_root_ok_def issue_unless_def dx_ranges_view)
  next
    case False
    then obtain root leaves nodes where blocks: "blocks = root # leaves @ nodes"
      "index_root_ok crc ?is self_ino parent_ino 1 (node_dx (1 + length gs) (chunks 510 dx)) root"
      "list_all2 (dir_block_ok crc ?is) leaves (map (map (entry_of_hash entries)) gs)"
      "list_all2 (node_ok crc ?is) nodes (chunks 510 dx)"
      using r(2) small by auto
    have len: "length leaves = length gs" using blocks(3) by (auto dest: list_all2_lengthD)
    have m': "mapped_block f es (Suc k) (leaves ! k)" if "k < length leaves" for k
      using m [of "Suc k"] that by (simp add: blocks(1) nth_append)
    have m'': "mapped_block f es (1 + length gs + j) (nodes ! j)" if "j < length nodes" for j
      using m [of "Suc (length leaves + j)"] that len by (simp add: blocks(1) nth_append)
    have lv: "verify_leaves (verify_dx_leaf crc f es ?is hc Signed) [] (ranges 0 (2 ^ 32) dx) = Inr []"
      unfolding dx_def gs_def
      by (rule verify_index_leaves_ok [OF ok]) (use blocks(1,3) m' small sb in \<open>auto simp: gs_def\<close>)
    note c = chunks_props [of 510 dx]
    have cne: "chunks 510 dx \<noteq> []" using ne by (metis c(1) concat.simps(1) zero_less_numeral)
    have nd: "node_dx (1 + length gs) (chunks 510 dx) \<noteq> []"
      using cne by (cases "chunks 510 dx") (simp_all add: node_dx_Cons)
    have ev: "\<forall>x\<in>set (concat gs). fst x AND 1 = 0" unfolding g(1) by (rule hash_entries_even)
    have srt: "sorted (map fst (concat gs))" unfolding g(1) by (rule sorted_fst_hashes [OF hash_entries_index(3)])
    have mono: "dx_mono dx" unfolding dx_def by (rule leaf_dx_mono [OF srt g(2) ev])
    have cl: "length (chunks 510 dx) \<le> 510 * 510" using c(4) small by (simp add: dx_def)
    obtain out where out: "mapE (verify_dx_node crc f es ?is hc)
        (ranges 0 (2 ^ 32) (node_dx (1 + length gs) (chunks 510 dx))) = Inr out"
      "concat (map fst out) = []" "concat (map snd out) = ranges 0 (2 ^ 32) dx"
      using verify_dx_nodes_ok [of "2 ^ 32" crc ?is nodes "chunks 510 dx" f es "1 + length gs" 0 hc]
        blocks(4) c(1,2) m'' mono cl small dx_hi_le(1) by auto
    show ?thesis
      using blocks(2) mapped_read [of f es root] m [of 0] root_csum_ok [OF blocks(2)] sb(2) blocks(1) nd lv out
      by (simp add: verify_htree_def or_issue_def index_root_ok_def issue_unless_def dx_ranges_view)
  qed
qed

section \<open>Attribute blocks\<close>

lemma adjacent_sorted:
  fixes xs :: "'a list" and key :: "'a \<Rightarrow> 'k::linorder"
  shows "sorted (map key xs) \<Longrightarrow> list_all (\<lambda>(a, b). \<not> key a > key b) (zip xs (tl xs))"
proof (induction xs)
  case (Cons x xs)
  then show ?case by (cases xs) auto
qed simp

lemma verify_xattr_built:
  assumes names: "\<forall>a\<in>set attrs. length (fst (snd a)) < 256" and fits: "32 + 4 + xattr_total attrs \<le> BLOCK_SIZE"
    and srt: "sorted (map attr_key attrs)"
  shows "\<exists>blk view. xattr_render_block crc attrs fseed nr = Inr blk \<and> xattr_block_parse blk = Inr view \<and>
    verify_xattr_view crc fseed nr blk hc view = Inr []"
proof -
  obtain blk view where b: "xattr_render_block crc attrs fseed nr = Inr blk" "length blk = BLOCK_SIZE"
    "xattr_block_parse blk = Inr view" "xb_entries view = map (entry_of True) attrs"
    "xb_hash view = xattr_block_hash (map xa_hash (xb_entries view))"
    "xb_checksum view = xattr_block_sum crc fseed nr blk"
    using render_block_parse [OF names fits] by blast
  have "map xattr_sort_key (xb_entries view) = map attr_key attrs"
    by (simp add: b(4) xattr_sort_key_def attr_key_def entry_of_def)
  then have "list_all (\<lambda>(a, b). \<not> xattr_sort_key a > xattr_sort_key b) (zip (xb_entries view) (tl (xb_entries view)))"
    using adjacent_sorted [of xattr_sort_key "xb_entries view"] srt by simp
  moreover have "\<forall>e\<in>set (xb_entries view). xa_hash e = xattr_entry_hash (xa_name e) (xa_value e)"
    by (auto simp: b(4) entry_of_def)
  ultimately have "verify_xattr_view crc fseed nr blk hc view = Inr []"
    using b(2,5,6) by (auto simp: verify_xattr_view_def csum_xattr_block_def issue_unless_def)
  then show ?thesis using b(1,3) by blast
qed

end
