(* ===== verification/VerifySafe.thy ===== *)
theory VerifySafe
  imports Verify
begin

text \<open>
  The verifier on images it does not trust: like the reader it never panics, on a filesystem whose
  descriptors hold addressable blocks and whose inode numbers fit in 32 bits.
\<close>

lemma no_panic_or_issue [no_panic]:
  "no_panic m \<Longrightarrow> (\<And>x. m = Inr x \<Longrightarrow> no_panic (k x)) \<Longrightarrow> no_panic (or_issue m what k)"
  by (auto simp: or_issue_def no_panic_def split: sum.splits fault.splits)

lemma no_panic_issues_of [no_panic]:
  "(\<And>x. x \<in> set xs \<Longrightarrow> no_panic (check x)) \<Longrightarrow> no_panic (issues_of check xs)"
  unfolding issues_of_def by (intro no_panic)

lemma no_panic_option [no_panic]:
  "(o' = None \<Longrightarrow> no_panic a) \<Longrightarrow> (\<And>x. o' = Some x \<Longrightarrow> no_panic (b x)) \<Longrightarrow>
   no_panic (case o' of None \<Rightarrow> a | Some x \<Rightarrow> b x)"
  by (cases o') auto

lemma no_panic_catch [no_panic]:
  "no_panic m \<Longrightarrow> (\<And>e. no_panic (g e)) \<Longrightarrow> (\<And>x. m = Inr x \<Longrightarrow> no_panic (k x)) \<Longrightarrow>
   no_panic (case m of Inl Panic \<Rightarrow> Inl Panic | Inl (Err e) \<Rightarrow> g e | Inr x \<Rightarrow> k x)"
  by (auto simp: no_panic_def split: sum.splits fault.splits)

lemma no_panic_csums:
  "30 \<le> length b \<Longrightarrow> no_panic (csum_group_desc crc seed g b)"
  "(unat n + 7) div 8 \<le> length b \<Longrightarrow> no_panic (csum_inode_bitmap crc seed b n)"
  "12 \<le> length b \<Longrightarrow> no_panic (csum_dirent_block crc seed b)"
  "20 \<le> length b \<Longrightarrow> no_panic (csum_xattr_block crc seed nr b)"
  by (simp_all add: csum_group_desc_def csum_inode_bitmap_def csum_dirent_block_def csum_xattr_block_def)

section \<open>Groups\<close>

text \<open>Groups below the count start inside the device.\<close>

lemma group_start_inside:
  assumes "superblock_group_count sb = Inr groups" "g < unat groups"
  shows "unat (s_first_data_block sb) + g * unat (s_blocks_per_group sb) \<le> unat (s_blocks_count sb)"
proof -
  let ?bpg = "ucast (s_blocks_per_group sb) :: u64" and ?fdb = "ucast (s_first_data_block sb) :: u64"
  let ?d = "s_blocks_count sb - ?fdb"
  have le: "?fdb \<le> s_blocks_count sb" and gr: "groups = u64_div_ceil ?d ?bpg"
    using assms(1) by (auto simp: superblock_group_count_def Let_def not_less split: if_splits)
  have ud: "unat ?d = unat (s_blocks_count sb) - unat (s_first_data_block sb)"
    using le by (simp add: unat_sub unat_up)
  have "unat groups \<le> unat ?d div unat ?bpg + 1"
    by (auto simp: gr u64_div_ceil_def unat_div unat_word_ariths(1) intro: le_trans [OF mod_less_eq_dividend])
  then have "g \<le> unat ?d div unat ?bpg" using assms(2) by simp
  then have "g * unat ?bpg \<le> unat ?d" by (meson div_times_less_eq_dividend le_trans mult_le_mono1)
  then show ?thesis using le ud by (simp add: unat_up word_le_nat_alt)
qed

lemma desc_raw_length:
  assumes "read_group_desc_raw f g = Inr raw" "read_group_desc f g = Inr d"
  shows "30 \<le> length raw"
  using assms by (auto simp: read_group_desc_def group_desc_decode_def split: if_splits)

lemma no_panic_verify_group:
  assumes f: "fs_wf f" "addressable f" and gr: "superblock_group_count (fs_sb f) = Inr groups"
    and g: "g < unat groups" "g < 2 ^ 32"
  shows "no_panic (verify_group crc f hc g)"
proof -
  have bb: "unat (bg_block_bitmap d) < 2 ^ 52" "unat (bg_inode_bitmap d) < 2 ^ 52" if "read_group_desc f g = Inr d" for d
    using f(2) that by (auto simp: addressable_def)
  have ipg: "(unat (s_inodes_per_group (fs_sb f)) + 7) div 8 \<le> length b" if "read_block f k = Inr b" for k b
    using read_block_length [OF f(1) that] f(1) div_le_mono [of "unat (s_inodes_per_group (fs_sb f)) + 7" 32775 8]
    by (simp add: fs_wf_def)
  note st = group_start_inside [OF gr g(1)]
  show ?thesis
    unfolding verify_group_def verify_block_bitmap_def verify_inode_bitmap_def Let_def
    by (intro no_panic no_panic_group_desc [OF f(1) g(2)] no_panic_csums no_panic_read_block [OF f(1)])
      (use bb desc_raw_length st ipg in \<open>auto simp: not_less [symmetric]\<close>)
qed

section \<open>Inodes and directories\<close>

lemma no_panic_dirent_block [no_panic]:
  assumes "12 \<le> length data"
  shows "no_panic (verify_dirent_block crc data seed hc)"
  unfolding verify_dirent_block_def by (intro no_panic no_panic_csums assms)

text \<open>A parsed index block has its checksum tail inside the block.\<close>

lemma dx_csum_safe:
  assumes "dx_parse_entries b off what = Inr (limit, cnt, es, c)"
  shows "no_panic (csum_dx_block crc seed b off cnt limit)"
  using dx_parse_entries_ok [OF assms] by (simp add: csum_dx_block_def)

lemma dx_root_csum_safe: "dx_root_parse b = Inr v \<Longrightarrow> no_panic (csum_dx_block crc seed b ROOT_COUNT_OFFSET (dxr_count v) (dxr_limit v))"
  by (auto simp: dx_root_parse_def Let_def res_simps split: if_splits intro: dx_csum_safe)

lemma dx_node_csum_safe: "dx_node_parse b = Inr v \<Longrightarrow> no_panic (csum_dx_block crc seed b NODE_COUNT_OFFSET (dxn_count v) (dxn_limit v))"
  by (auto simp: dx_node_parse_def Let_def res_simps split: if_splits intro: dx_csum_safe)

lemma no_panic_verify_leaves [no_panic]:
  "(\<And>r. no_panic (check r)) \<Longrightarrow> no_panic (verify_leaves check seen rs)"
  by (induction check seen rs rule: verify_leaves.induct) (auto intro!: no_panic_bind)

lemma no_panic_verify_htree:
  assumes f: "fs_wf f" and es: "\<forall>e\<in>set es. extent_ok e"
  shows "no_panic (verify_htree crc f es seed hc)"
proof -
  have blk: "no_panic (read_block f p)" if "file_block es k = Some p" for k p
    using no_panic_read_block [OF f file_block_bound [OF es that]] .
  have first: "no_panic (read_block f (case file_block es 0 of None \<Rightarrow> 0 | Some b \<Rightarrow> b))"
    using blk no_panic_read_block [OF f, of 0] by (auto split: option.splits)
  have len: "12 \<le> length b" if "read_block f p = Inr b" for p b using read_block_length [OF f that] by simp
  have leaf: "no_panic (verify_dx_leaf crc f es seed hc sg r)" for sg r
    by (cases r) (auto simp: verify_dx_leaf_def intro!: no_panic blk dest: len)
  have node: "no_panic (verify_dx_node crc f es seed hc r)" for r
    by (cases r) (auto simp: verify_dx_node_def Let_def intro!: no_panic blk dx_node_csum_safe [simplified])
  show ?thesis
    unfolding verify_htree_def
    by (intro no_panic first) (auto intro!: no_panic leaf node dx_root_csum_safe [simplified] split: prod.splits)
qed

lemma no_panic_verify_dir:
  assumes f: "fs_wf f"
  shows "no_panic (verify_dir crc f ino inode hc)"
proof -
  have "no_panic (verify_linear_block crc f es seed hc k)" if es: "\<forall>e\<in>set es. extent_ok e" for es seed k
    using no_panic_read_block [OF f file_block_bound [OF es]] read_block_length [OF f]
    by (auto simp: verify_linear_block_def intro!: no_panic)
  then show ?thesis
    unfolding verify_dir_def Let_def
    by (intro no_panic fs_extents_safe [OF f] no_panic_verify_htree [OF f]) (auto dest: fs_extents_safe(2) [OF f])
qed

lemma no_panic_verify_inode:
  assumes f: "fs_wf f" "addressable f"
  shows "no_panic (verify_inode crc f hc ino)"
proof -
  have acl: "no_panic (verify_xattr_block crc f inode hc)" if ri: "read_inode crc f ino = Inr inode" for inode
  proof -
    obtain raw where "inode_decode raw = Inr inode" using ri by (auto simp: read_inode_def res_simps)
    then have b: "unat (i_file_acl inode) < 2 ^ 52" using less_trans [OF inode_acl_bound, of raw inode "2 ^ 52"] by simp
    show ?thesis
      unfolding verify_xattr_block_def verify_xattr_view_def
      by (intro no_panic no_panic_read_block [OF f(1)] b no_panic_csums) (auto dest: read_block_length [OF f(1)])
  qed
  show ?thesis
    unfolding verify_inode_def
    by (intro no_panic no_panic_read_inode [OF f] fs_extents_safe(1) [OF f(1)] no_panic_verify_dir [OF f(1)] acl)
qed

lemma no_panic_verify_journal:
  assumes f: "fs_wf f" "addressable f"
  shows "no_panic (verify_journal crc f)"
proof -
  have dec: "no_panic (journal_superblock_decode b)" for b by (simp add: journal_superblock_decode_def Let_def)
  have "unat (js_maxlen j) * fs_block_size f < 2 ^ 64" for j
    using unat_bounds(2) [of "js_maxlen j"] by (simp add: fs_wf_simps [OF f(1)])
  moreover have fb: "p < 2 ^ 52" if "fs_extents crc f ino inode = Inr es" "file_block es 0 = Some p" for ino inode es p
    using file_block_bound [OF fs_extents_safe(2) [OF f(1) that(1)] that(2)] .
  ultimately show ?thesis
    unfolding verify_journal_def Let_def
    by (intro no_panic no_panic_read_inode [OF f] fs_extents_safe(1) [OF f(1)] no_panic_read_block [OF f(1)] dec
        no_panic_mul64) (auto dest: fb)
qed

section \<open>The whole pass\<close>

lemma no_panic_verify:
  assumes f: "fs_wf f" "addressable f"
    and n: "\<And>groups. superblock_group_count (fs_sb f) = Inr groups \<Longrightarrow>
      unat groups * unat (s_inodes_per_group (fs_sb f)) < 2 ^ 32"
  shows "no_panic (verify crc f)"
proof -
  let ?ipg = "unat (s_inodes_per_group (fs_sb f))"
  obtain groups where gr: "superblock_group_count (fs_sb f) = Inr groups" using f(1) by (auto simp: fs_wf_def)
  have small: "unat groups < 2 ^ 32"
    using n [OF gr] fs_wf_simps(3) [OF f(1)] by (cases ?ipg) (auto intro: le_less_trans)
  have res: "no_panic (verify_reserved f)"
    unfolding verify_reserved_def
  proof (intro no_panic no_panic_in_use [OF f])
    fix ino assume "ino \<in> set [1..<min 10 (unat (s_inodes_count (fs_sb f))) + 1]"
    then have "1 \<le> ino \<and> ino \<le> 10" by auto
    then have "unat (of_nat ino :: u32) = ino" "ino \<noteq> 0" by (simp_all add: unat_of_nat)
    then show "of_nat ino \<noteq> (0 :: u32)" by (metis unat_0)
  qed
  have ino: "no_panic (verify_group_inodes crc f hc g)" if g: "g < unat groups" for g hc
  proof -
    have bm: "unat (bg_inode_bitmap d) < 2 ^ 52" if "read_group_desc f g = Inr d" for d
      using f(2) that by (auto simp: addressable_def)
    have "g mod 2 ^ 32 * ?ipg + idx + 1 < 2 ^ 32" if "idx < ?ipg" for idx
    proof -
      have "g * ?ipg + ?ipg \<le> unat groups * ?ipg" using g by (metis Suc_leI add.commute mult_Suc mult_le_mono1)
      then show ?thesis using that g small n [OF gr] by simp
    qed
    then show ?thesis
      unfolding verify_group_inodes_def Let_def
      by (intro no_panic no_panic_group_desc [OF f(1)] no_panic_read_block [OF f(1)] bm no_panic_verify_inode [OF f])
        (use g small in \<open>auto simp: not_less [symmetric]\<close>)
  qed
  have grp: "no_panic (verify_group crc f hc g)" if "g < unat groups" for g hc
    using no_panic_verify_group [OF f gr that] that small by simp
  show ?thesis
    unfolding verify_def Let_def gr
    by (intro no_panic res no_panic_verify_journal [OF f]) (auto intro: grp ino)
qed

end
