(* ===== verification/ExtentPlan.thy ===== *)
theory ExtentPlan
  imports Layout Extent Csum Dirhash
begin

text \<open>
  Extent trees as the writer builds them (src/src/build/seal.rs, \<^verbatim>\<open>plan_extents\<close>): up to four
  extents in the inode, else leaves of 340 entries, at most four under the root or under one level
  of index nodes. Logical block numbers are kept at 32 bits.
\<close>

definition MAX_EXTENT :: nat where [simp]: "MAX_EXTENT = 32768"

definition EXTENTS_PER_LEAF :: nat where
  [simp]: "EXTENTS_PER_LEAF = node_capacity BLOCK_SIZE"

text \<open>The extents of a plan: logical block, physical block, length.\<close>

type_synonym ext = "u32 \<times> nat \<times> nat"

record extent_plan =
  ep_extents :: "ext list"
  ep_root :: bytes
  ep_tree_blocks :: nat

text \<open>
  An allocation the layout cannot do without. The allocator returns for every positive
  \<^verbatim>\<open>max_run\<close>, and every call here has one; the last case is the loop that does not return.
\<close>

definition take_runs :: "allocator \<Rightarrow> nat \<Rightarrow> nat \<Rightarrow> error \<Rightarrow> (run list \<times> allocator) res" where
  "take_runs a n max_run e =
    (case alloc_take a n max_run of
       Some (Some runs, a') \<Rightarrow> Inr (runs, a')
     | Some (None, _) \<Rightarrow> Inl (Err e)
     | None \<Rightarrow> Inl Panic)"

section \<open>Nodes\<close>

fun put_entries :: "bytes \<Rightarrow> nat \<Rightarrow> bytes list \<Rightarrow> bytes res" where
  "put_entries buf off [] = Inr buf"
| "put_entries buf off (e # es) =
    (if off + ENTRY_LEN \<le> length buf then put_entries (poke buf off e) (off + ENTRY_LEN) es
     else Inl Panic)"

definition extent_node :: "bytes \<Rightarrow> u16 \<Rightarrow> u16 \<Rightarrow> bytes list \<Rightarrow> bytes res" where
  "extent_node buf max_entries depth entries =
    bindE (extent_header_encode
      \<lparr>eh_entries = of_nat (length entries), eh_max = max_entries, eh_depth = depth, eh_generation = 0\<rparr> buf)
      (\<lambda>buf. put_entries buf HEADER_LEN entries)"

definition leaf_entry :: "ext \<Rightarrow> bytes" where
  "leaf_entry x = (case x of (lo, phys, n) \<Rightarrow>
    extent_bytes \<lparr>ee_logical = lo, ee_raw_len = of_nat n, ee_start = of_nat phys\<rparr>)"

definition index_entry :: "u32 \<times> nat \<Rightarrow> bytes" where
  "index_entry x = (case x of (lo, child) \<Rightarrow> extent_idx_bytes \<lparr>ei_logical = lo, ei_leaf = of_nat child\<rparr>)"

definition tree_block :: "crc \<Rightarrow> u32 \<Rightarrow> u16 \<Rightarrow> bytes list \<Rightarrow> bytes res" where
  "tree_block crc seed depth entries =
    bindE (extent_node (zeros_buf BLOCK_SIZE) (of_nat EXTENTS_PER_LEAF) depth entries) (\<lambda>buf.
    bindE (csum_extent_block crc seed buf) (\<lambda>c.
    store_u32 buf (BLOCK_SIZE - 4) c))"

text \<open>One level of the tree: a block per chunk, each with the parent's entry for it.\<close>

definition tree_level ::
    "crc \<Rightarrow> u32 \<Rightarrow> u16 \<Rightarrow> (u32 \<times> 'a \<Rightarrow> bytes) \<Rightarrow> (u32 \<times> 'a) list list \<Rightarrow> run list \<Rightarrow>
     ((u32 \<times> nat) \<times> segment) list res" where
  "tree_level crc seed depth render cs blocks =
    mapE (\<lambda>(i, chunk).
      let block = run_start (blocks ! i)
      in bindE (tree_block crc seed depth (map render chunk)) (\<lambda>buf.
         Inr ((fst (hd chunk), block), \<lparr>seg_block = block, seg_blocks = 1, seg_src = SegBytes buf\<rparr>)))
    (enumerate 0 cs)"

definition empty_extent_plan :: "extent_plan res" where
  "empty_extent_plan =
    bindE (extent_node (zeros_buf 60) 4 0 []) (\<lambda>root.
    Inr \<lparr>ep_extents = [], ep_root = root, ep_tree_blocks = 0\<rparr>)"

section \<open>Planning\<close>

definition add32 :: "u32 \<Rightarrow> nat \<Rightarrow> u32 res" where
  "add32 x n = (if unat x + n < 2 ^ 32 then Inr (x + of_nat n) else Inl Panic)"

text \<open>Consecutive logical block numbers for the runs of one allocation.\<close>

fun logicals_from :: "u32 \<Rightarrow> run list \<Rightarrow> (u32 \<times> run) list res" where
  "logicals_from logical [] = Inr []"
| "logicals_from logical (r # rs) =
    bindE (add32 logical (run_len r)) (\<lambda>next.
    bindE (logicals_from next rs) (\<lambda>ps. Inr ((logical, r) # ps)))"

definition with_logicals :: "run list \<Rightarrow> (u32 \<times> run) list res" where
  "with_logicals runs = logicals_from 0 runs"

definition image_full_tree :: error where
  "image_full_tree = Invalid ''image full (extent tree)''"

text \<open>The plan, the allocator after it, and the tree blocks pushed as segments.\<close>

definition plan_extents ::
    "crc \<Rightarrow> (u32 \<times> run) list \<Rightarrow> u32 \<Rightarrow> u32 \<Rightarrow> allocator \<Rightarrow> (extent_plan \<times> allocator \<times> segment list) res" where
  "plan_extents crc pairs ino fseed a =
    bindE (guardE (\<forall>(_, r)\<in>set pairs. run_len r \<le> MAX_EXTENT) Panic) (\<lambda>_.
    let extents = map (\<lambda>(lo, r). (lo, run_start r, run_len r)) pairs;
        n = length extents
    in if n \<le> 4 then
         bindE (extent_node (zeros_buf 60) 4 0 (map leaf_entry extents)) (\<lambda>root.
         Inr (\<lparr>ep_extents = extents, ep_root = root, ep_tree_blocks = 0\<rparr>, a, []))
       else
         let n_leaves = div_ceil n EXTENTS_PER_LEAF;
             seed = inode_seed crc fseed ino 0
         in bindE (take_runs a n_leaves 1 image_full_tree) (\<lambda>(leaf_blocks, a).
            bindE (tree_level crc seed 0 leaf_entry (chunks EXTENTS_PER_LEAF extents) leaf_blocks) (\<lambda>leaves.
            let level1 = map fst leaves
            in bindE (if length level1 \<le> 4 then Inr (1, level1, a, [])
                 else
                   let n_idx = div_ceil (length level1) EXTENTS_PER_LEAF
                   in if 4 < n_idx then Inl (Err (Unsupported ''extent tree deeper than 2 levels''))
                      else
                        bindE (take_runs a n_idx 1 image_full_tree) (\<lambda>(idx_blocks, a).
                        bindE (tree_level crc seed 1 index_entry (chunks EXTENTS_PER_LEAF level1) idx_blocks)
                          (\<lambda>nodes. Inr (2, map fst nodes, a, map snd nodes)))) (\<lambda>(depth, top, a, idx_segs).
               bindE (extent_node (zeros_buf 60) 4 depth (map index_entry top)) (\<lambda>root.
               let segs = map snd leaves @ idx_segs
               in Inr (\<lparr>ep_extents = extents, ep_root = root, ep_tree_blocks = 8 * length segs\<rparr>, a, segs))))))"

end
