(* ===== verification/ExtentPlanSpec.thy ===== *)
theory ExtentPlanSpec
  imports ExtentPlan ReaderSafe
begin

text \<open>
  What an extent plan promises: it maps exactly the runs it was given, its tree blocks come off the
  front of the allocator, and the reader's walk gives the extents back.
\<close>

section \<open>Rendered nodes\<close>

text \<open>A buffer that holds a node: its header and its entries.\<close>

definition node_holds :: "bytes \<Rightarrow> u16 \<Rightarrow> u16 \<Rightarrow> bytes list \<Rightarrow> bool" where
  "node_holds buf max_entries depth es \<longleftrightarrow> 12 + 12 * length es \<le> length buf \<and>
    extent_header_decode buf = Inr \<lparr>eh_entries = of_nat (length es), eh_max = max_entries,
      eh_depth = depth, eh_generation = 0\<rparr> \<and>
    (\<forall>i<length es. extent_entry buf i = Inr (es ! i))"

lemma put_entries_zeros:
  assumes "\<forall>e\<in>set es. length e = 12" "12 * length es \<le> k"
  shows "put_entries (pre @ zeros_buf k) (length pre) es =
    Inr (pre @ concat es @ zeros_buf (k - 12 * length es))"
  using assms
proof (induction es arbitrary: pre k)
  case (Cons e es)
  have "poke (pre @ zeros_buf k) (length pre) e = (pre @ e) @ zeros_buf (k - 12)"
    using Cons.prems by (simp add: poke_def zeros_buf_def)
  then show ?case using Cons.IH [of "k - 12" "pre @ e"] Cons.prems by (simp add: algebra_simps)
qed simp

lemma concat_entry:
  assumes "\<forall>e\<in>set es. length e = 12" "i < length es"
  shows "peek (concat es @ rest) (12 * i) 12 = es ! i"
  using assms
proof (induction es arbitrary: i)
  case (Cons e es)
  show ?case
  proof (cases i)
    case 0
    then show ?thesis using Cons.prems by (simp add: peek_def)
  next
    case (Suc j)
    then have "peek ((e @ concat es) @ rest) (12 * i) 12 = peek (concat es @ rest) (12 * j) 12"
      using Cons.prems by (simp add: peek_def)
    then show ?thesis using Cons Suc by simp
  qed
qed simp

lemma extent_node_holds:
  assumes "\<forall>e\<in>set es. length e = 12" "12 + 12 * length es \<le> n"
  shows "\<exists>buf. extent_node (zeros_buf n) m d es = Inr buf \<and> length buf = n \<and> node_holds buf m d es"
proof -
  let ?h = "\<lparr>eh_entries = of_nat (length es), eh_max = m, eh_depth = d, eh_generation = 0\<rparr>"
  let ?buf = "extent_header_bytes ?h @ concat es @ zeros_buf (n - 12 - 12 * length es)"
  have len: "length (concat es) = 12 * length es" using assms(1) by (induction es) auto
  have "poke (zeros_buf n) 0 (extent_header_bytes ?h) = extent_header_bytes ?h @ zeros_buf (n - 12)"
    using assms(2) by (simp add: poke_def zeros_buf_def)
  then have "extent_node (zeros_buf n) m d es = Inr ?buf"
    using put_entries_zeros [of es "n - 12" "extent_header_bytes ?h"] assms
    by (simp add: extent_node_def extent_header_encode_def)
  moreover have "extent_entry ?buf i = Inr (es ! i)" if "i < length es" for i
  proof -
    have "peek ?buf (12 + i * 12) 12 = peek (concat es @ zeros_buf (n - 12 - 12 * length es)) (12 * i) 12"
      by (simp add: peek_def mult.commute)
    moreover have "12 + i * 12 + 12 \<le> n" using that assms(2) by simp
    ultimately show ?thesis
      using concat_entry [OF assms(1) that] assms(2) len by (simp add: extent_entry_def Let_def)
  qed
  ultimately show ?thesis using assms(2) len extent_header_decode_bytes [of ?h]
    by (intro exI [of _ ?buf]) (simp add: node_holds_def)
qed

text \<open>A tree block: a node of the block's capacity that carries its checksum.\<close>

definition tree_node :: "crc \<Rightarrow> u32 \<Rightarrow> u16 \<Rightarrow> bytes list \<Rightarrow> bytes \<Rightarrow> bool" where
  "tree_node crc seed depth es buf \<longleftrightarrow> length buf = BLOCK_SIZE \<and> node_holds buf 340 depth es \<and>
    le32 buf 4092 = extent_block_sum crc seed buf"

lemma tree_block_ok:
  assumes "\<forall>e\<in>set es. length e = 12" "length es \<le> 340"
  shows "\<exists>buf. tree_block crc seed depth es = Inr buf \<and> tree_node crc seed depth es buf"
proof -
  obtain b where b: "extent_node (zeros_buf 4096) 340 depth es = Inr b" "length b = 4096" "node_holds b 340 depth es"
    using extent_node_holds [OF assms(1), of 4096] assms(2) by auto
  let ?c = "extent_block_sum crc seed b"
  have s: "le32 (put_u32 b 4092 ?c) 4092 = extent_block_sum crc seed (put_u32 b 4092 ?c)"
    using extent_csum.sealed_verifies [of b crc seed] b(2) by simp
  have "extent_entry (put_u32 b 4092 ?c) i = extent_entry b i" if "i < length es" for i
  proof -
    have "12 + i * 12 + 12 \<le> 4092" using that assms(2) by simp
    then show ?thesis using b(2) by (simp add: extent_entry_def Let_def buf_simps)
  qed
  moreover have "extent_header_decode (put_u32 b 4092 ?c) = extent_header_decode b"
    using b(2) by (simp add: extent_header_decode_def buf_simps)
  ultimately have "node_holds (put_u32 b 4092 ?c) 340 depth es"
    using b(2,3) by (simp add: node_holds_def)
  moreover have "tree_block crc seed depth es = Inr (put_u32 b 4092 ?c)"
    using b by (simp add: tree_block_def csum_extent_block_def store_u32_def)
  ultimately show ?thesis using s b(2) by (simp add: tree_node_def)
qed

lemma tree_level_ok:
  assumes "\<And>x. length (render x) = 12" "\<forall>c\<in>set cs. length c \<le> 340"
  shows "\<exists>rs. tree_level crc seed depth render cs blocks = Inr rs \<and> length rs = length cs \<and>
    (\<forall>i<length cs. \<exists>buf. rs ! i = ((fst (hd (cs ! i)), run_start (blocks ! i)),
        \<lparr>seg_block = run_start (blocks ! i), seg_blocks = 1, seg_src = SegBytes buf\<rparr>) \<and>
      tree_node crc seed depth (map render (cs ! i)) buf)"
proof -
  let ?P = "\<lambda>y (i, chunk). \<exists>buf. y = ((fst (hd chunk), run_start (blocks ! i)),
        \<lparr>seg_block = run_start (blocks ! i), seg_blocks = 1, seg_src = SegBytes buf\<rparr>) \<and>
      tree_node crc seed depth (map render chunk) buf"
  have "\<exists>rs. tree_level crc seed depth render cs blocks = Inr rs \<and> list_all2 ?P rs (enumerate 0 cs)"
    unfolding tree_level_def
  proof (rule mapE_list_all2)
    fix x assume "x \<in> set (enumerate 0 cs)"
    then have "snd x \<in> set cs" by (auto simp: in_set_conv_nth nth_enumerate_eq)
    then obtain i c where x: "x = (i, c)" "c \<in> set cs" by (cases x) simp
    then obtain buf where "tree_block crc seed depth (map render c) = Inr buf" "tree_node crc seed depth (map render c) buf"
      using tree_block_ok [of "map render c" crc seed depth] assms by auto
    then show "\<exists>y. (case x of (i, chunk) \<Rightarrow> let block = run_start (blocks ! i)
        in bindE (tree_block crc seed depth (map render chunk)) (\<lambda>buf.
           Inr ((fst (hd chunk), block), \<lparr>seg_block = block, seg_blocks = 1, seg_src = SegBytes buf\<rparr>))) = Inr y \<and> ?P y x"
      using x by (simp add: Let_def)
  qed
  then show ?thesis by (auto simp: list_all2_conv_all_nth nth_enumerate_eq)
qed

section \<open>Allocation\<close>

lemma take_runs_ok:
  assumes "alloc_wf a" "0 < m" "take_runs a n m e = Inr (runs, a')"
  shows "expand_runs runs = take n (alloc_free a)" "alloc_free a' = drop n (alloc_free a)" "alloc_wf a'"
    "n \<le> length (alloc_free a)" "\<forall>r\<in>set runs. 0 < run_len r \<and> run_len r \<le> m"
  using al.take_someD [OF assms(1,2)] assms(3)
  by (auto simp: take_runs_def split: option.splits prod.splits)

lemma unit_runs: "\<forall>r\<in>set runs. run_len r = 1 \<Longrightarrow> expand_runs runs = map run_start runs"
  by (induction runs) auto

section \<open>Walking a rendered tree\<close>

definition fx_of :: "ext \<Rightarrow> file_extent" where
  "fx_of x = (case x of (lo, phys, n) \<Rightarrow>
    \<lparr>fx_logical = unat lo, fx_physical = phys, fx_len = n, fx_unwritten = False\<rparr>)"

definition ext_ok :: "ext \<Rightarrow> bool" where
  "ext_ok x \<longleftrightarrow> (case x of (lo, phys, n) \<Rightarrow> phys < 2 ^ 48 \<and> 0 < n \<and> n \<le> MAX_EXTENT)"

lemma leaf_entry_reads:
  assumes "ext_ok x"
  shows "leaf_extent (leaf_entry x) = Inr (fx_of x)"
proof -
  obtain lo phys n where x: "x = (lo, phys, n)" using prod_cases3 by blast
  then have b: "phys < 2 ^ 48" "0 < n" "n \<le> 32768" using assms by (simp_all add: ext_ok_def)
  let ?e = "\<lparr>ee_logical = lo, ee_raw_len = of_nat n, ee_start = of_nat phys\<rparr>"
  have u: "unat (of_nat phys :: u64) = phys" "unat (of_nat n :: u16) = n"
    using b by (simp_all add: unat_of_nat)
  then have "extent_decode (extent_bytes ?e) = ?e" using b(1) by (intro extent_decode_bytes) (simp add: extent_wf_def)
  moreover have "\<not> (of_nat n :: u16) > 32768" using b(3) u(2) by (simp add: word_less_nat_alt)
  moreover have "unat (ucast (of_nat n :: u16) :: u32) = n" using u(2) by (simp add: unat_up)
  moreover have "(ucast (of_nat n :: u16) :: u32) \<noteq> 0" using calculation(3) b(2) by auto
  ultimately show ?thesis using u(1)
    by (simp add: x leaf_entry_def leaf_extent_def fx_of_def extent_is_empty_def extent_len_def
        extent_is_unwritten_def)
qed

lemma check_node_holds:
  assumes "node_holds buf m d es" "length es \<le> unat m" "unat m \<le> (length buf - 12) div 12" "d \<le> 5"
    and "expect = None \<or> expect = Some d"
  shows "check_node buf expect = Inr \<lparr>eh_entries = of_nat (length es), eh_max = m, eh_depth = d, eh_generation = 0\<rparr>"
    "unat (of_nat (length es) :: u16) = length es"
proof -
  have "length es < 2 ^ 16" using assms(2) unat_bounds(1) [of m] by simp
  then show u: "unat (of_nat (length es) :: u16) = length es" by (simp add: unat_of_nat)
  then have "\<not> of_nat (length es) > m" using assms(2) by (simp add: word_less_nat_alt)
  then show "check_node buf expect = Inr \<lparr>eh_entries = of_nat (length es), eh_max = m, eh_depth = d, eh_generation = 0\<rparr>"
    using assms by (auto simp: check_node_def node_holds_def Let_def not_less)
qed

lemma walk_leaf:
  assumes "node_holds buf m 0 (map leaf_entry xs)" "length xs \<le> unat m" "unat m \<le> (length buf - 12) div 12"
    and "\<forall>x\<in>set xs. ext_ok x" "expect = None \<or> expect = Some 0"
  shows "walk_extent_node crc f ino inode buf expect = Inr (map fx_of xs)"
proof -
  note c = check_node_holds [OF assms(1) _ assms(3) _ assms(5), simplified, OF assms(2)]
  have "extent_entry buf i = Inr (leaf_entry (xs ! i)) \<and> leaf_extent (leaf_entry (xs ! i)) = Inr (fx_of (xs ! i))"
    if "i < length xs" for i
    using assms(1,4) that by (simp add: node_holds_def leaf_entry_reads)
  then have "mapE (\<lambda>i. bindE (extent_entry buf i) (\<lambda>e. bindE (leaf_extent e) (\<lambda>x. Inr [x]))) [0..<length xs] =
      Inr (map (\<lambda>i. [fx_of (xs ! i)]) [0..<length xs])"
    by (intro mapE_Inr) simp
  moreover have "concat (map (\<lambda>i. [fx_of (xs ! i)]) [0..<length xs]) = map fx_of xs"
    by (rule nth_equalityI) (simp_all flip: map_map [unfolded o_def] add: concat_map_singleton)
  ultimately show ?thesis by (subst walk_extent_node.simps) (simp add: c)
qed

text \<open>An index node gives the concatenation of what its children give.\<close>

lemma walk_index:
  assumes "node_holds buf m d (map index_entry xs)" "length xs \<le> unat m" "unat m \<le> (length buf - 12) div 12"
    and "d \<noteq> 0" "d \<le> 5" "expect = None \<or> expect = Some d"
    and child: "\<And>i. i < length xs \<Longrightarrow> snd (xs ! i) < 2 ^ 48 \<and>
      (\<exists>c. read_block f (snd (xs ! i)) = Inr c \<and> check_extent_block crc f ino inode c = Inr () \<and>
        walk_extent_node crc f ino inode c (Some (d - 1)) = Inr (outs ! i))"
    and "length outs = length xs"
  shows "walk_extent_node crc f ino inode buf expect = Inr (concat outs)"
proof -
  note c = check_node_holds [OF assms(1) _ assms(3,5,6), simplified, OF assms(2)]
  have "bindE (extent_entry buf i) (\<lambda>e.
        bindE (read_block f (unat (ei_leaf (extent_idx_decode e)))) (\<lambda>child.
        bindE (check_extent_block crc f ino inode child) (\<lambda>_.
        walk_extent_node crc f ino inode child (Some (d - 1))))) = Inr (outs ! i)" if i: "i < length xs" for i
  proof -
    obtain lo b where x: "xs ! i = (lo, b)" by fastforce
    then have b: "b < 2 ^ 48" using child [OF i] by simp
    then have u: "unat (of_nat b :: u64) = b" by (simp add: unat_of_nat)
    then have "extent_idx_decode (index_entry (lo, b)) = \<lparr>ei_logical = lo, ei_leaf = of_nat b\<rparr>"
      using b unfolding index_entry_def by (simp add: extent_idx_decode_bytes extent_idx_wf_def)
    moreover have "extent_entry buf i = Inr (index_entry (lo, b))"
      using assms(1) i x by (simp add: node_holds_def)
    ultimately show ?thesis using child [OF i] x u by auto
  qed
  then have "mapE (\<lambda>i. bindE (extent_entry buf i) (\<lambda>e.
        bindE (read_block f (unat (ei_leaf (extent_idx_decode e)))) (\<lambda>child.
        bindE (check_extent_block crc f ino inode child) (\<lambda>_.
        walk_extent_node crc f ino inode child (Some (d - 1)))))) [0..<length xs] = Inr (map ((!) outs) [0..<length xs])"
    by (intro mapE_Inr) simp
  moreover have "map ((!) outs) [0..<length xs] = outs" using assms(8) by (metis map_nth)
  ultimately show ?thesis using assms(4) by (subst walk_extent_node.simps) (simp add: c)
qed

section \<open>The plan\<close>

definition seg_bytes :: "segment \<Rightarrow> bytes" where
  "seg_bytes seg = (case seg_src seg of SegBytes bs \<Rightarrow> bs | SegItable _ \<Rightarrow> [])"

text \<open>Segments of one rendered block each.\<close>

definition block_segs :: "segment list \<Rightarrow> bool" where
  "block_segs segs \<longleftrightarrow> (\<forall>s\<in>set segs. seg_blocks s = 1 \<and> (\<exists>bs. seg_src s = SegBytes bs \<and> length bs = BLOCK_SIZE))"

lemma take_units:
  assumes "alloc_wf a" "take_runs a n 1 e = Inr (blocks, a')"
  shows "map run_start blocks = take n (alloc_free a)" "length blocks = n"
    "alloc_free a' = drop n (alloc_free a)" "alloc_wf a'" "n \<le> length (alloc_free a)"
proof -
  note t = take_runs_ok [OF assms(1) _ assms(2), simplified]
  have "\<forall>r\<in>set blocks. run_len r = 1" using t(5) by fastforce
  then show m: "map run_start blocks = take n (alloc_free a)" using t(1) unit_runs by metis
  show "alloc_free a' = drop n (alloc_free a)" "alloc_wf a'" "n \<le> length (alloc_free a)" using t by auto
  then have "length (map run_start blocks) = n" unfolding m by simp
  then show "length blocks = n" by simp
qed

text \<open>A level whose blocks hold the chunks they were made from.\<close>

definition level_ok ::
    "crc \<Rightarrow> u32 \<Rightarrow> u16 \<Rightarrow> (u32 \<times> 'a \<Rightarrow> bytes) \<Rightarrow> (u32 \<times> 'a) list list \<Rightarrow> ((u32 \<times> nat) \<times> segment) list \<Rightarrow> bool" where
  "level_ok crc seed depth render cs rs \<longleftrightarrow> length rs = length cs \<and> block_segs (map snd rs) \<and>
    (\<forall>i<length cs. fst (fst (rs ! i)) = fst (hd (cs ! i)) \<and> snd (fst (rs ! i)) = seg_block (snd (rs ! i)) \<and>
      tree_node crc seed depth (map render (cs ! i)) (seg_bytes (snd (rs ! i))))"

lemma tree_level_segs:
  assumes "tree_level crc seed depth render cs blocks = Inr rs" "length blocks = length cs"
    and "\<And>x. length (render x) = 12" "\<forall>c\<in>set cs. length c \<le> 340"
  shows "level_ok crc seed depth render cs rs" "map (\<lambda>x. seg_block (snd x)) rs = map run_start blocks"
proof -
  have "\<exists>rs. tree_level crc seed depth render cs blocks = Inr rs \<and> length rs = length cs \<and>
      (\<forall>i<length cs. \<exists>buf. rs ! i = ((fst (hd (cs ! i)), run_start (blocks ! i)),
        \<lparr>seg_block = run_start (blocks ! i), seg_blocks = 1, seg_src = SegBytes buf\<rparr>) \<and>
      tree_node crc seed depth (map render (cs ! i)) buf)"
    using assms(3,4) by (rule tree_level_ok)
  then have r: "length rs = length cs" "\<forall>i<length cs. \<exists>buf. rs ! i = ((fst (hd (cs ! i)), run_start (blocks ! i)),
        \<lparr>seg_block = run_start (blocks ! i), seg_blocks = 1, seg_src = SegBytes buf\<rparr>) \<and>
      tree_node crc seed depth (map render (cs ! i)) buf"
    using assms(1) by auto
  show "map (\<lambda>x. seg_block (snd x)) rs = map run_start blocks"
    using r assms(2) by (auto intro!: nth_equalityI)
  have "block_segs (map snd rs)"
    using r by (fastforce simp: block_segs_def tree_node_def in_set_conv_nth)
  moreover have "\<forall>i<length cs. fst (fst (rs ! i)) = fst (hd (cs ! i)) \<and> snd (fst (rs ! i)) = seg_block (snd (rs ! i)) \<and>
      tree_node crc seed depth (map render (cs ! i)) (seg_bytes (snd (rs ! i)))"
    using r(2) by (fastforce simp: seg_bytes_def)
  ultimately show "level_ok crc seed depth render cs rs" using r(1) by (simp add: level_ok_def)
qed

text \<open>The three shapes a plan can have.\<close>

lemma chunks_340:
  "concat (chunks 340 xs) = xs" "\<forall>c\<in>set (chunks 340 xs). length c \<le> 340 \<and> c \<noteq> []"
  "length (chunks 340 xs) = div_ceil (length xs) 340"
  using chunks_props [of 340 xs] by (auto simp: div_ceil_def)

lemma length_entries [simp]: "length (leaf_entry x) = 12" "length (index_entry y) = 12"
  by (simp_all add: leaf_entry_def index_entry_def split: prod.splits)

definition plan_exts :: "(u32 \<times> run) list \<Rightarrow> ext list" where
  "plan_exts pairs = map (\<lambda>(lo, r). (lo, run_start r, run_len r)) pairs"

text \<open>A root node as it stands in an inode.\<close>

definition root_node :: "u16 \<Rightarrow> bytes list \<Rightarrow> bytes \<Rightarrow> bool" where
  "root_node depth es buf \<longleftrightarrow> length es \<le> 4 \<and> length buf = 60 \<and> node_holds buf 4 depth es"

lemma extent_root_node: "length es \<le> 4 \<Longrightarrow> \<forall>e\<in>set es. length e = 12 \<Longrightarrow> extent_node (zeros_buf 60) 4 d es = Inr root \<Longrightarrow> root_node d es root"
  using extent_node_holds [of es 60 4 d] by (auto simp: root_node_def)

lemma plan_extents_cases:
  assumes "alloc_wf a" "plan_extents crc pairs ino fseed a = Inr (plan, a', segs)"
  shows "ep_extents plan = plan_exts pairs \<and> ep_tree_blocks plan = 8 * length segs \<and>
    map seg_block segs = take (length segs) (alloc_free a) \<and> alloc_free a' = drop (length segs) (alloc_free a) \<and>
    alloc_wf a' \<and> block_segs segs \<and>
    (segs = [] \<and> root_node 0 (map leaf_entry (plan_exts pairs)) (ep_root plan) \<or>
     (\<exists>ls. segs = map snd ls \<and> 4 < length (plan_exts pairs) \<and>
        level_ok crc (inode_seed crc fseed ino 0) 0 leaf_entry (chunks 340 (plan_exts pairs)) ls \<and>
        root_node 1 (map index_entry (map fst ls)) (ep_root plan)) \<or>
     (\<exists>ls ns. segs = map snd ls @ map snd ns \<and>
        level_ok crc (inode_seed crc fseed ino 0) 0 leaf_entry (chunks 340 (plan_exts pairs)) ls \<and>
        level_ok crc (inode_seed crc fseed ino 0) 1 index_entry (chunks 340 (map fst ls)) ns \<and>
        root_node 2 (map index_entry (map fst ns)) (ep_root plan)))"
proof -
  let ?xs = "plan_exts pairs" and ?seed = "inode_seed crc fseed ino 0"
  let ?n = "div_ceil (length ?xs) 340"
  have entries: "\<forall>e\<in>set (map leaf_entry ys). length e = 12" "\<forall>e\<in>set (map index_entry zs). length e = 12" for ys zs
    by auto
  show ?thesis
  proof (cases "length ?xs \<le> 4")
    case True
    then have "extent_node (zeros_buf 60) 4 0 (map leaf_entry ?xs) = Inr (ep_root plan)" "a' = a" "segs = []"
      "ep_extents plan = ?xs" "ep_tree_blocks plan = 0"
      using assms(2) by (auto simp: plan_extents_def Let_def res_simps plan_exts_def [symmetric])
    moreover from this have "root_node 0 (map leaf_entry ?xs) (ep_root plan)"
      using True by (intro extent_root_node) auto
    ultimately show ?thesis using assms(1) by (simp add: block_segs_def)
  next
    case False
    then obtain lb a1 ls where l: "take_runs a ?n 1 image_full_tree = Inr (lb, a1)"
      "tree_level crc ?seed 0 leaf_entry (chunks 340 ?xs) lb = Inr ls"
      and rest: "bindE (if length (map fst ls) \<le> 4 then Inr (1, map fst ls, a1, [])
           else
             let n_idx = div_ceil (length (map fst ls)) EXTENTS_PER_LEAF
             in if 4 < n_idx then Inl (Err (Unsupported ''extent tree deeper than 2 levels''))
                else
                  bindE (take_runs a1 n_idx 1 image_full_tree) (\<lambda>(idx_blocks, a).
                  bindE (tree_level crc ?seed 1 index_entry (chunks EXTENTS_PER_LEAF (map fst ls)) idx_blocks)
                    (\<lambda>nodes. Inr (2, map fst nodes, a, map snd nodes)))) (\<lambda>(depth, top, a, idx_segs).
         bindE (extent_node (zeros_buf 60) 4 depth (map index_entry top)) (\<lambda>root.
         let segs = map snd ls @ idx_segs
         in Inr (\<lparr>ep_extents = ?xs, ep_root = root, ep_tree_blocks = 8 * length segs\<rparr>, a, segs)))
        = Inr (plan, a', segs)"
      using assms(2) by (auto simp: plan_extents_def Let_def res_simps plan_exts_def [symmetric] simp del: length_map)
    note t1 = take_units [OF assms(1) l(1)]
    note s1 = tree_level_segs [OF l(2) _ length_entries(1)]
    have l1: "length lb = length (chunks 340 ?xs)" using t1(2) chunks_340(3) by metis
    have c1: "\<forall>c\<in>set (chunks 340 ?xs). length c \<le> 340" using chunks_340(2) by blast
    note s1 = s1 [OF l1 c1]
    have len1: "length ls = ?n" using s1(1) chunks_340(3) [of ?xs] by (simp add: level_ok_def)
    show ?thesis
    proof (cases "length ls \<le> 4")
      case True
      then have r: "extent_node (zeros_buf 60) 4 1 (map index_entry (map fst ls)) = Inr (ep_root plan)" "a' = a1"
        "segs = map snd ls" "ep_extents plan = ?xs" "ep_tree_blocks plan = 8 * length segs"
        using rest by (auto simp: Let_def res_simps)
      then have "root_node 1 (map index_entry (map fst ls)) (ep_root plan)"
        using True by (intro extent_root_node) auto
      moreover have "map seg_block segs = take (length segs) (alloc_free a)"
        using s1(2) t1(1) len1 r(3) by (simp add: o_def)
      ultimately show ?thesis using r s1(1) t1(3,4) len1 False by (auto simp: level_ok_def)
    next
      case more: False
      let ?m = "div_ceil (length ls) 340"
      obtain ib a2 ns where n: "?m \<le> 4" "take_runs a1 ?m 1 image_full_tree = Inr (ib, a2)"
        "tree_level crc ?seed 1 index_entry (chunks 340 (map fst ls)) ib = Inr ns"
        "extent_node (zeros_buf 60) 4 2 (map index_entry (map fst ns)) = Inr (ep_root plan)" "a' = a2"
        "segs = map snd ls @ map snd ns" "ep_extents plan = ?xs" "ep_tree_blocks plan = 8 * length segs"
        using rest more by (auto simp: Let_def res_simps split: if_splits)
      note t2 = take_units [OF t1(4) n(2)]
      have l2: "length ib = length (chunks 340 (map fst ls))" using t2(2) chunks_340(3) [of "map fst ls"] by simp
      have c2: "\<forall>c\<in>set (chunks 340 (map fst ls)). length c \<le> 340" using chunks_340(2) by blast
      note s2 = tree_level_segs [OF n(3) l2 length_entries(2) c2]
      have len2: "length ns = ?m" using s2(1) chunks_340(3) [of "map fst ls"] by (simp add: level_ok_def)
      have "root_node 2 (map index_entry (map fst ns)) (ep_root plan)"
        using n(1,4) len2 by (intro extent_root_node) auto
      moreover have "map seg_block segs = take (length segs) (alloc_free a)"
        using s1(2) s2(2) t1(1,3) t2(1) len1 len2 n(6) by (simp add: o_def take_add)
      moreover have "alloc_free a' = drop (length segs) (alloc_free a)"
        using t1(3) t2(3) len1 len2 n(5,6) by (simp add: add.commute)
      ultimately show ?thesis using n s1(1) s2(1) t2(4) by (auto simp: level_ok_def block_segs_def)
    qed
  qed
qed

section \<open>Reading a plan back\<close>

definition served :: "fs \<Rightarrow> segment list \<Rightarrow> bool" where
  "served f segs \<longleftrightarrow> (\<forall>s\<in>set segs. seg_block s < 2 ^ 48 \<and> read_block f (seg_block s) = Inr (seg_bytes s))"

lemma level_child:
  assumes "level_ok crc (inode_seed crc (fs_csum_seed f) ino (i_generation inode)) d render cs rs"
    and "i < length cs" "served f (map snd rs)"
  shows "snd (fst (rs ! i)) < 2 ^ 48" "read_block f (snd (fst (rs ! i))) = Inr (seg_bytes (snd (rs ! i)))"
    "check_extent_block crc f ino inode (seg_bytes (snd (rs ! i))) = Inr ()"
    "node_holds (seg_bytes (snd (rs ! i))) 340 d (map render (cs ! i))"
    "length (seg_bytes (snd (rs ! i))) = BLOCK_SIZE"
proof -
  have t: "snd (fst (rs ! i)) = seg_block (snd (rs ! i))" "length rs = length cs"
    "tree_node crc (inode_seed crc (fs_csum_seed f) ino (i_generation inode)) d (map render (cs ! i)) (seg_bytes (snd (rs ! i)))"
    using assms(1,2) by (simp_all add: level_ok_def)
  then show "snd (fst (rs ! i)) < 2 ^ 48" "read_block f (snd (fst (rs ! i))) = Inr (seg_bytes (snd (rs ! i)))"
    using assms(2,3) by (simp_all add: served_def)
  show "check_extent_block crc f ino inode (seg_bytes (snd (rs ! i))) = Inr ()"
    "node_holds (seg_bytes (snd (rs ! i))) 340 d (map render (cs ! i))" "length (seg_bytes (snd (rs ! i))) = BLOCK_SIZE"
    using t(3) by (simp_all add: tree_node_def check_extent_block_def csum_extent_block_def)
qed

lemma walk_leaf_block:
  assumes "level_ok crc (inode_seed crc (fs_csum_seed f) ino (i_generation inode)) 0 leaf_entry (chunks 340 xs) ls"
    and "served f (map snd ls)" "\<forall>x\<in>set xs. ext_ok x" "i < length ls"
  shows "walk_extent_node crc f ino inode (seg_bytes (snd (ls ! i))) (Some 0) = Inr (map fx_of (chunks 340 xs ! i))"
proof -
  have i: "i < length (chunks 340 xs)" using assms(1,4) by (simp add: level_ok_def)
  then have c: "chunks 340 xs ! i \<in> set (chunks 340 xs)" by simp
  then have "set (chunks 340 xs ! i) \<subseteq> set (concat (chunks 340 xs))" by (simp only: set_concat) blast
  then have "\<forall>x\<in>set (chunks 340 xs ! i). ext_ok x" using assms(3) chunks_340(1) [of xs] by auto
  moreover have "length (chunks 340 xs ! i) \<le> 340" using chunks_340(2) c by blast
  ultimately show ?thesis
    using level_child(4,5) [OF assms(1) i assms(2)] by (intro walk_leaf [where m = 340]) simp_all
qed

lemma concat_map_concat: "concat (map concat xsss) = concat (concat xsss)"
  by (induction xsss) auto

lemma chunks_map: "chunks n (map g xs) = map (map g) (chunks n xs)"
  by (induction n xs rule: chunks.induct) (subst (1 2) chunks.simps, simp add: take_map drop_map)

text \<open>Lists of the same length are cut at the same places.\<close>

lemma chunks_parallel:
  assumes "length xs = length ys" "0 < n"
  shows "length (chunks n ys) = length (chunks n xs) \<and> (\<forall>j<length (chunks n xs).
    length (chunks n ys ! j) = length (chunks n xs ! j) \<and>
    (\<forall>i<length (chunks n xs ! j). \<exists>k<length xs. chunks n xs ! j ! i = xs ! k \<and> chunks n ys ! j ! i = ys ! k))"
proof -
  let ?ks = "chunks n [0..<length xs]"
  have e: "chunks n xs = map (map ((!) xs)) ?ks" "chunks n ys = map (map ((!) ys)) ?ks"
    using assms(1) by (metis chunks_map map_nth)+
  have "?ks ! j ! i < length xs" if "j < length ?ks" "i < length (?ks ! j)" for i j
  proof -
    have "?ks ! j ! i \<in> set (concat ?ks)" using that by (auto simp: in_set_conv_nth) (metis nth_mem)
    then show ?thesis using chunks_props(1) [OF assms(2), of "[0..<length xs]"] by simp
  qed
  then show ?thesis unfolding e by auto
qed

lemma plan_extents_reads:
  assumes "alloc_wf a" "plan_extents crc pairs ino (fs_csum_seed f) a = Inr (plan, a', segs)"
    and "\<forall>x\<in>set (plan_exts pairs). ext_ok x" "served f segs" "i_generation inode = 0"
  shows "walk_extent_node crc f ino inode (ep_root plan) None = Inr (map fx_of (plan_exts pairs))"
proof -
  let ?xs = "plan_exts pairs" and ?seed = "inode_seed crc (fs_csum_seed f) ino (i_generation inode)"
  note cs = plan_extents_cases [OF assms(1,2)]
  have root: "root_node d (map index_entry ys) buf \<Longrightarrow> length ys \<le> 4 \<and> node_holds buf 4 d (map index_entry ys) \<and> length buf = 60"
    for d ys buf by (simp add: root_node_def)
  have cat: "concat (map (map fx_of) (chunks 340 ?xs)) = map fx_of ?xs"
    by (metis map_concat chunks_340(1))
  consider (direct) "root_node 0 (map leaf_entry ?xs) (ep_root plan)"
    | (one) ls where "segs = map snd ls" "level_ok crc ?seed 0 leaf_entry (chunks 340 ?xs) ls"
        "root_node 1 (map index_entry (map fst ls)) (ep_root plan)"
    | (two) ls ns where "segs = map snd ls @ map snd ns" "level_ok crc ?seed 0 leaf_entry (chunks 340 ?xs) ls"
        "level_ok crc ?seed 1 index_entry (chunks 340 (map fst ls)) ns"
        "root_node 2 (map index_entry (map fst ns)) (ep_root plan)"
    using cs unfolding assms(5) by blast
  then show ?thesis
  proof cases
    case direct
    then show ?thesis using assms(3) by (intro walk_leaf [where m = 4]) (simp_all add: root_node_def)
  next
    case one
    have sv: "served f (map snd ls)" using assms(4) one(1) by simp
    have l: "length ls = length (chunks 340 ?xs)" using one(2) by (simp add: level_ok_def)
    have "walk_extent_node crc f ino inode (ep_root plan) None = Inr (concat (map (map fx_of) (chunks 340 ?xs)))"
    proof (rule walk_index [where m = 4 and d = 1 and xs = "map fst ls"])
      fix i assume "i < length (map fst ls)"
      then have i: "i < length ls" by simp
      note c = level_child [OF one(2) i [unfolded l] sv] walk_leaf_block [OF one(2) sv assms(3) i]
      show "snd (map fst ls ! i) < 2 ^ 48 \<and> (\<exists>c. read_block f (snd (map fst ls ! i)) = Inr c \<and>
          check_extent_block crc f ino inode c = Inr () \<and>
          walk_extent_node crc f ino inode c (Some (1 - 1)) = Inr (map (map fx_of) (chunks 340 ?xs) ! i))"
        using c i l by simp
    qed (use root [OF one(3)] l in simp_all)
    then show ?thesis unfolding cat .
  next
    case two
    have sv: "served f (map snd ls)" "served f (map snd ns)" using assms(4) two(1) by (simp_all add: served_def)
    let ?cs = "chunks 340 (map fst ls)" and ?outs = "map (map fx_of) (chunks 340 ?xs)"
    have l: "length ls = length (chunks 340 ?xs)" "length ns = length ?cs"
      using two(2,3) by (simp_all add: level_ok_def)
    define outss where "outss = chunks 340 ?outs"
    have chunk: "length outss = length ?cs \<and> (\<forall>j<length ?cs. length (outss ! j) = length (?cs ! j) \<and>
        (\<forall>i<length (?cs ! j). \<exists>k<length (map fst ls). ?cs ! j ! i = map fst ls ! k \<and> outss ! j ! i = ?outs ! k))"
      unfolding outss_def by (rule chunks_parallel) (simp_all add: l(1))
    have "walk_extent_node crc f ino inode (ep_root plan) None = Inr (concat (map concat outss))"
    proof (rule walk_index [where m = 4 and d = 2 and xs = "map fst ns"])
      fix j assume "j < length (map fst ns)"
      then have j: "j < length ns" "j < length ?cs" using l by simp_all
      note c = level_child [OF two(3) j(2) sv(2)]
      have "length (?cs ! j) \<le> 340" using chunks_340(2) j(2) by (meson nth_mem)
      then have "walk_extent_node crc f ino inode (seg_bytes (snd (ns ! j))) (Some 1) = Inr (concat (outss ! j))"
      proof (intro walk_index [where m = 340 and d = 1 and xs = "?cs ! j"])
        fix i assume i: "i < length (?cs ! j)"
        then obtain k where "k < length (map fst ls)" "?cs ! j ! i = map fst ls ! k" "outss ! j ! i = ?outs ! k"
          using chunk j(2) by blast
        then have k: "k < length ls" "?cs ! j ! i = fst (ls ! k)" "outss ! j ! i = ?outs ! k" by simp_all
        note d = level_child [OF two(2) k(1) [unfolded l] sv(1)] walk_leaf_block [OF two(2) sv(1) assms(3) k(1)]
        show "snd (?cs ! j ! i) < 2 ^ 48 \<and> (\<exists>c. read_block f (snd (?cs ! j ! i)) = Inr c \<and>
            check_extent_block crc f ino inode c = Inr () \<and>
            walk_extent_node crc f ino inode c (Some (1 - 1)) = Inr (outss ! j ! i))"
          using d k l by simp
      qed (use c chunk j in simp_all)
      then show "snd (map fst ns ! j) < 2 ^ 48 \<and> (\<exists>c. read_block f (snd (map fst ns ! j)) = Inr c \<and>
          check_extent_block crc f ino inode c = Inr () \<and>
          walk_extent_node crc f ino inode c (Some (2 - 1)) = Inr (map concat outss ! j))"
        using c j chunk by simp
    qed (use root [OF two(4)] l chunk in simp_all)
    moreover have "concat (map concat outss) = concat ?outs"
      unfolding outss_def concat_map_concat by (simp only: chunks_340(1))
    ultimately show ?thesis unfolding cat by simp
  qed
qed

end
