(* ===== verification/SealNames.thy ===== *)
theory SealNames
  imports Builder Dirpack
begin

text \<open>
  Sealing, first part (src/src/build/seal.rs): which slots are reachable, their inode numbers, the
  parent of each directory, and the directory entries the namespace turns into. Inode numbers are
  natural numbers below \<open>2\<^sup>3\<^sup>2\<close>; zero means that the slot is dropped.
\<close>

definition LOST_FOUND_INO :: nat where [simp]: "LOST_FOUND_INO = 11"
definition LOST_FOUND_BLOCKS :: nat where [simp]: "LOST_FOUND_BLOCKS = 4"
definition FIRST_DYN_INO :: nat where [simp]: "FIRST_DYN_INO = 12"

section \<open>Reachability\<close>

definition kind_children :: "node_kind \<Rightarrow> nat list" where
  "kind_children k = (case k of Dir children _ \<Rightarrow> live_children children | _ \<Rightarrow> [])"

text \<open>
  The worklist, its top first: pushing the live children in order leaves the last one on top. An
  index outside the slots panics.
\<close>

lemma count_mark:
  "slot < length seen \<Longrightarrow> \<not> seen ! slot \<Longrightarrow> count_list (seen[slot := True]) False < count_list seen False"
proof (induction seen arbitrary: slot)
  case (Cons s seen)
  then show ?case by (cases slot) auto
qed simp

function mark_reachable :: "node list \<Rightarrow> nat list \<Rightarrow> bool list \<Rightarrow> bool list res" where
  "mark_reachable nodes [] seen = Inr seen"
| "mark_reachable nodes (slot # stack) seen =
    (if \<not> slot < length seen \<or> \<not> slot < length nodes then Inl Panic
     else if seen ! slot then mark_reachable nodes stack seen
     else mark_reachable nodes (rev (kind_children (n_kind (nodes ! slot))) @ stack) (seen[slot := True]))"
  by pat_completeness auto
termination
proof (relation "measures [\<lambda>(_, _, seen). count_list seen False, \<lambda>(_, stack, _). length stack]", simp, simp)
  fix nodes slot stack and seen :: "bool list"
  assume "\<not> (\<not> slot < length seen \<or> \<not> slot < length (nodes :: node list))" "\<not> seen ! slot"
  then have "count_list (seen[slot := True]) False < count_list seen False"
    by (simp add: count_mark)
  then show "((nodes, rev (kind_children (n_kind (nodes ! slot))) @ stack, seen[slot := True]), (nodes, slot # stack, seen))
      \<in> measures [\<lambda>(_, _, seen). count_list seen False, \<lambda>(_, stack, _). length stack]"
    by simp
qed

section \<open>Inode numbers\<close>

text \<open>Reachable slots with a link get consecutive numbers, in declaration order.\<close>

fun number_slots :: "(bool \<times> node) list \<Rightarrow> nat \<Rightarrow> (nat list \<times> nat) res" where
  "number_slots [] next = Inr ([], next)"
| "number_slots ((reachable, n) # rest) next =
    (if reachable \<and> 0 < n_nlink n then
       (if next + 1 < 2 ^ 32
        then bindE (number_slots rest (next + 1)) (\<lambda>(inos, last). Inr (next # inos, last))
        else Inl Panic)
     else bindE (number_slots rest next) (\<lambda>(inos, last). Inr (0 # inos, last)))"

text \<open>The number of every slot, and the first number that was not given.\<close>

definition slot_inodes :: "fs_builder \<Rightarrow> (nat list \<times> nat) res" where
  "slot_inodes b =
    bindE (mark_reachable (fb_nodes b) [0] (replicate (length (fb_nodes b)) False)) (\<lambda>reachable.
    bindE (number_slots (tl (zip reachable (fb_nodes b))) FIRST_DYN_INO) (\<lambda>(inos, next).
    Inr (unat ROOT_INO # inos, next)))"

section \<open>Parents\<close>

definition set_parent :: "nat \<Rightarrow> nat \<Rightarrow> nat list \<Rightarrow> nat list res" where
  "set_parent ino c parents = (if c < length parents then Inr (parents[c := ino]) else Inl Panic)"

definition parent_map :: "fs_builder \<Rightarrow> nat list \<Rightarrow> nat list res" where
  "parent_map b slot_ino =
    foldE (\<lambda>(p, n) parents.
      if slot_ino ! p = 0 then Inr parents
      else foldE (set_parent (slot_ino ! p)) (kind_children (n_kind n)) parents)
    (enumerate 0 (fb_nodes b)) (replicate (length (fb_nodes b)) 0)"

section \<open>Directory entries\<close>

definition kind_ftype :: "node_kind \<Rightarrow> u8" where
  "kind_ftype k = (case k of
     Dir _ _ \<Rightarrow> ft_DIR | File _ \<Rightarrow> ft_REG | Sparse _ _ \<Rightarrow> ft_REG | Symlink _ \<Rightarrow> ft_SYMLINK
   | Special ftype _ _ \<Rightarrow> ftype)"

definition child_dentry :: "fs_builder \<Rightarrow> nat list \<Rightarrow> child_entry \<Rightarrow> dentry list res" where
  "child_dentry b slot_ino = (\<lambda>(nref, child, dead).
    if dead then Inr []
    else if \<not> child < length slot_ino then Inl Panic
    else if slot_ino ! child = 0 then Inr []
    else Inr [(name_of (fb_names b) nref, of_nat (slot_ino ! child), kind_ftype (n_kind (fb_nodes b ! child)))])"

definition dir_dentries :: "fs_builder \<Rightarrow> nat list \<Rightarrow> nat \<Rightarrow> child_entry list \<Rightarrow> dentry list res" where
  "dir_dentries b slot_ino slot children =
    bindE (mapE (child_dentry b slot_ino) children) (\<lambda>dss.
    Inr ((if slot = 0 then [(ascii ''lost+found'', of_nat LOST_FOUND_INO, ft_DIR)] else []) @ concat dss))"

text \<open>The entries "." and ".." that lead a linear directory.\<close>

definition dot_entries :: "u32 \<Rightarrow> u32 \<Rightarrow> dentry list" where
  "dot_entries ino parent_ino = [(ascii ''.'', ino, ft_DIR), (ascii ''..'', parent_ino, ft_DIR)]"

text \<open>How many live subdirectories a directory has.\<close>

definition subdir_count :: "fs_builder \<Rightarrow> nat list \<Rightarrow> nat \<Rightarrow> nat" where
  "subdir_count b slot_ino slot =
    (if slot_ino ! slot = 0 then 0
     else length (filter (\<lambda>c. slot_ino ! c \<noteq> 0 \<and> is_dir (fb_nodes b ! c))
            (kind_children (n_kind (fb_nodes b ! slot)))))"

end
