(* ===== verification/SealInode.thy ===== *)
theory SealInode
  imports ExtentPlan Builder Inode Csum
begin

text \<open>
  Sealing, rendered inodes (src/src/build/seal.rs): what a node of each kind puts in its inode, and
  the 256 bytes with their checksum. Link counts are natural numbers cut to 16 bits as the code
  does.
\<close>

record inode_render =
  ir_meta :: meta
  ir_ftype :: u8
  ir_size :: u64
  ir_blocks512 :: u64
  ir_nlink :: nat
  ir_flags :: u32
  ir_block :: bytes
  ir_file_acl :: u64
  ir_ibody :: bytes

definition inode_render_plain :: "meta \<Rightarrow> u8 \<Rightarrow> nat \<Rightarrow> inode_render" where
  "inode_render_plain m ftype nlink =
    \<lparr>ir_meta = m, ir_ftype = ftype, ir_size = 0, ir_blocks512 = 0, ir_nlink = nlink, ir_flags = 0,
     ir_block = zeros_buf 60, ir_file_acl = 0, ir_ibody = []\<rparr>"

definition type_bits :: "u8 \<Rightarrow> u16" where
  "type_bits ftype = push_bit 12
    (if ftype = ft_REG then 8 else if ftype = ft_DIR then 4 else if ftype = ft_SYMLINK then 10
     else if ftype = ft_CHR then 2 else if ftype = ft_BLK then 6 else if ftype = ft_FIFO then 1
     else if ftype = ft_SOCK then 12 else 0)"

definition or_mtime :: "meta \<Rightarrow> timespec option \<Rightarrow> timespec" where
  "or_mtime m t = (case t of None \<Rightarrow> m_mtime m | Some t \<Rightarrow> t)"

definition encode_timespec :: "timespec \<Rightarrow> (u32 \<times> u32) res" where
  "encode_timespec t = encode_timestamp (fst t) (snd t)"

text \<open>The inode before its checksum.\<close>

definition inode_of_render :: "inode_render \<Rightarrow> inode res" where
  "inode_of_render r =
    (let m = ir_meta r in
     bindE (encode_timespec (m_mtime m)) (\<lambda>(mtime, mtime_extra).
     bindE (encode_timespec (or_mtime m (m_atime m))) (\<lambda>(atime, atime_extra).
     bindE (encode_timespec (or_mtime m (m_ctime m))) (\<lambda>(ctime, ctime_extra).
     bindE (encode_timespec (or_mtime m (m_crtime m))) (\<lambda>(crtime, crtime_extra).
     let nlink = (if ir_ftype r = ft_DIR \<and> ir_nlink r > unat LINK_MAX then 1 else ir_nlink r)
     in Inr
       \<lparr>i_mode = type_bits (ir_ftype r) OR (m_mode m AND 0xFFF), i_uid = m_uid m, i_gid = m_gid m,
        i_size = ir_size r, i_atime = atime, i_ctime = ctime, i_mtime = mtime, i_dtime = 0,
        i_links_count = of_nat nlink, i_blocks = ir_blocks512 r, i_flags = ir_flags r, i_version = 0,
        i_block = ir_block r, i_generation = 0, i_file_acl = ir_file_acl r, i_extra_isize = 32,
        i_checksum = 0, i_ctime_extra = ctime_extra, i_mtime_extra = mtime_extra,
        i_atime_extra = atime_extra, i_crtime = crtime, i_crtime_extra = crtime_extra, i_projid = 0,
        i_ibody = ir_ibody r\<rparr>)))))"

definition render_inode :: "crc \<Rightarrow> u32 \<Rightarrow> u32 \<Rightarrow> inode_render \<Rightarrow> bytes res" where
  "render_inode crc fseed ino r =
    bindE (inode_of_render r) (\<lambda>inode.
    bindE (inode_encode inode (zeros_buf 256)) (\<lambda>buf.
    bindE (csum_inode crc fseed ino 0 buf) (\<lambda>c.
    inode_encode (inode\<lparr>i_checksum := c\<rparr>) buf)))"

definition render_reserved_inode :: "crc \<Rightarrow> u32 \<Rightarrow> u32 \<Rightarrow> int option \<Rightarrow> bytes res" where
  "render_reserved_inode crc fseed ino stamp_time =
    bindE (case stamp_time of
        None \<Rightarrow> Inr (zeros_buf 256)
      | Some t \<Rightarrow> bindE (encode_timestamp t 0) (\<lambda>(secs, _).
          Inr (put_u32 (put_u32 (put_u32 (zeros_buf 256) 0x08 secs) 0x0C secs) 0x10 secs))) (\<lambda>buf.
    bindE (csum_inode crc fseed ino 0 buf) (\<lambda>c.
    Inr (put_u16 buf 0x7C (ucast c))))"

section \<open>What each kind of node renders\<close>

definition acl_512 :: "nat \<Rightarrow> nat" where
  "acl_512 file_acl = (if file_acl = 0 then 0 else 8)"

definition render_dir :: "meta \<Rightarrow> nat \<Rightarrow> bool \<Rightarrow> nat \<Rightarrow> extent_plan \<Rightarrow> nat \<times> bytes \<Rightarrow> inode_render" where
  "render_dir m nblocks is_htree nlink plan xattrs =
    \<lparr>ir_meta = m, ir_ftype = ft_DIR, ir_size = of_nat (nblocks * BLOCK_SIZE),
     ir_blocks512 = of_nat (nblocks * 8 + ep_tree_blocks plan + acl_512 (fst xattrs)),
     ir_nlink = nlink, ir_flags = iflags_EXTENTS OR (if is_htree then iflags_INDEX else 0),
     ir_block = ep_root plan, ir_file_acl = of_nat (fst xattrs), ir_ibody = snd xattrs\<rparr>"

definition render_file :: "meta \<Rightarrow> nat \<Rightarrow> nat \<Rightarrow> extent_plan \<times> nat \<Rightarrow> nat \<times> bytes \<Rightarrow> inode_render" where
  "render_file m nlink sz plan xattrs =
    (inode_render_plain m ft_REG nlink)
      \<lparr>ir_size := of_nat sz,
       ir_blocks512 := of_nat (snd plan * 8 + ep_tree_blocks (fst plan) + acl_512 (fst xattrs)),
       ir_flags := iflags_EXTENTS, ir_block := ep_root (fst plan), ir_file_acl := of_nat (fst xattrs),
       ir_ibody := snd xattrs\<rparr>"

definition render_fast_symlink :: "meta \<Rightarrow> nat \<Rightarrow> bytes \<Rightarrow> nat \<times> bytes \<Rightarrow> inode_render" where
  "render_fast_symlink m nlink target xattrs =
    (inode_render_plain m ft_SYMLINK nlink)
      \<lparr>ir_size := of_nat (length target), ir_block := poke (zeros_buf 60) 0 target,
       ir_file_acl := of_nat (fst xattrs), ir_ibody := snd xattrs,
       ir_blocks512 := of_nat (acl_512 (fst xattrs))\<rparr>"

definition render_slow_symlink :: "meta \<Rightarrow> nat \<Rightarrow> bytes \<Rightarrow> extent_plan \<Rightarrow> nat \<times> bytes \<Rightarrow> inode_render" where
  "render_slow_symlink m nlink target plan xattrs =
    (inode_render_plain m ft_SYMLINK nlink)
      \<lparr>ir_size := of_nat (length target),
       ir_blocks512 := of_nat (8 + ep_tree_blocks plan + acl_512 (fst xattrs)),
       ir_flags := iflags_EXTENTS, ir_block := ep_root plan, ir_file_acl := of_nat (fst xattrs),
       ir_ibody := snd xattrs\<rparr>"

text \<open>Device numbers: the old encoding when both fit a byte, else the new one.\<close>

definition device_block :: "u8 \<Rightarrow> u32 \<Rightarrow> u32 \<Rightarrow> bytes" where
  "device_block ftype major minor =
    (if ftype = ft_CHR \<or> ftype = ft_BLK then
       (if major < 256 \<and> minor < 256 then put_u32 (zeros_buf 60) 0 (push_bit 8 major OR minor)
        else put_u32 (zeros_buf 60) 4
          ((minor AND 0xFF) OR push_bit 8 major OR push_bit 12 (minor AND NOT 0xFF)))
     else zeros_buf 60)"

definition render_special :: "meta \<Rightarrow> nat \<Rightarrow> u8 \<Rightarrow> u32 \<Rightarrow> u32 \<Rightarrow> nat \<times> bytes \<Rightarrow> inode_render" where
  "render_special m nlink ftype major minor xattrs =
    (inode_render_plain m ftype nlink)
      \<lparr>ir_block := device_block ftype major minor, ir_file_acl := of_nat (fst xattrs),
       ir_ibody := snd xattrs, ir_blocks512 := of_nat (acl_512 (fst xattrs))\<rparr>"

end
