(* ===== verification/SealPlace.thy ===== *)
theory SealPlace
  imports ExtentPlan SealNames SealInode HtreeBuild XattrBuild
begin

text \<open>
  Sealing, placement (src/src/build/seal.rs): the fixed metadata of every group, then the journal,
  lost+found, the metadata of the namespace in inode order, and the file data, each block from the
  allocator. Blocks are natural numbers; segments accumulate in the order the code pushes them.
\<close>

definition err_full :: error where
  "err_full = Invalid ''image size too small for the declared namespace''"

definition U64_MAX :: nat where
  "U64_MAX = 2 ^ 64 - 1"

definition take_block :: "allocator \<Rightarrow> (nat \<times> allocator) res" where
  "take_block a =
    (case alloc_take_one a of
       Some (Some block, a') \<Rightarrow> Inr (block, a')
     | Some (None, _) \<Rightarrow> Inl (Err err_full)
     | None \<Rightarrow> Inl Panic)"

text \<open>The same fallible step a number of times, with its results.\<close>

fun repeatE :: "('s \<Rightarrow> ('a \<times> 's) res) \<Rightarrow> nat \<Rightarrow> 's \<Rightarrow> ('a list \<times> 's) res" where
  "repeatE f 0 s = Inr ([], s)"
| "repeatE f (Suc n) s = bindE (f s) (\<lambda>(x, s). bindE (repeatE f n s) (\<lambda>(xs, s). Inr (x # xs, s)))"

section \<open>Fixed metadata\<close>

text \<open>The primary superblock with its descriptors, and the backups.\<close>

definition reserved_runs :: "geometry \<Rightarrow> run list" where
  "reserved_runs geo =
    sort_key run_start
      (\<lparr>run_start = 0, run_len = 1 + geo_gdt_blocks geo\<rparr> #
       map (\<lambda>g. \<lparr>run_start = group_start g, run_len = 1 + geo_gdt_blocks geo\<rparr>) (backup_groups geo))"

text \<open>An inode table is one run; a table cut by a reserved run is taken again behind it, once.\<close>

definition place_itable :: "nat \<Rightarrow> allocator \<Rightarrow> (nat \<times> allocator) res" where
  "place_itable itb cur =
    bindE (take_runs cur itb U64_MAX err_full) (\<lambda>(runs, cur).
    if length runs \<noteq> 1 then
      bindE (take_runs cur itb U64_MAX err_full) (\<lambda>(runs, cur).
      if length runs \<noteq> 1 then Inl (Err (Invalid ''cannot place a contiguous inode table''))
      else Inr (run_start (runs ! 0), cur))
    else Inr (run_start (runs ! 0), cur))"

text \<open>One flex span: all block bitmaps, all inode bitmaps, all inode tables of its groups.\<close>

definition place_span ::
    "geometry \<Rightarrow> run list \<Rightarrow> nat \<Rightarrow> ((nat \<times> nat \<times> nat) list \<times> run) res" where
  "place_span geo reserved leader =
    (let n = min (leader + geo_groups_per_flex geo) (geo_groups geo) - leader in
     bindE (alloc_new (group_start leader) (geo_blocks geo) reserved) (\<lambda>cur.
     bindE (repeatE take_block n cur) (\<lambda>(bb, cur).
     bindE (repeatE take_block n cur) (\<lambda>(ib, cur).
     bindE (repeatE (place_itable (itable_blocks geo)) n cur) (\<lambda>(it, cur).
     Inr (zip bb (zip ib it),
          \<lparr>run_start = max (group_start leader) (bb ! 0), run_len = al_cursor cur - bb ! 0\<rparr>))))))"

definition span_leaders :: "geometry \<Rightarrow> nat list" where
  "span_leaders geo =
    map (\<lambda>k. k * geo_groups_per_flex geo) [0..<div_ceil (geo_groups geo) (geo_groups_per_flex geo)]"

text \<open>Where every group's bitmaps and table are, and the allocator for everything else.\<close>

definition place_groups :: "geometry \<Rightarrow> ((nat \<times> nat \<times> nat) list \<times> allocator) res" where
  "place_groups geo =
    (let reserved = reserved_runs geo in
     bindE (mapE (place_span geo reserved) (span_leaders geo)) (\<lambda>spans.
     bindE (alloc_new 0 (geo_blocks geo) (sort_key run_start (reserved @ map snd spans))) (\<lambda>a.
     Inr (concat (map fst spans), a))))"

section \<open>Allocating into the layout\<close>

record seal_state =
  st_alloc :: allocator
  st_segments :: "segment list"

definition st_take :: "nat \<Rightarrow> 'a seal_state_scheme \<Rightarrow> (run list \<times> 'a seal_state_scheme) res" where
  "st_take n st =
    bindE (take_runs (st_alloc st) n MAX_EXTENT err_full) (\<lambda>(runs, a). Inr (runs, st\<lparr>st_alloc := a\<rparr>))"

definition st_take_one :: "'a seal_state_scheme \<Rightarrow> (nat \<times> 'a seal_state_scheme) res" where
  "st_take_one st = bindE (take_block (st_alloc st)) (\<lambda>(block, a). Inr (block, st\<lparr>st_alloc := a\<rparr>))"

definition st_push :: "segment list \<Rightarrow> 'a seal_state_scheme \<Rightarrow> 'a seal_state_scheme" where
  "st_push segs st = st\<lparr>st_segments := st_segments st @ segs\<rparr>"

definition block_seg :: "nat \<Rightarrow> bytes \<Rightarrow> segment" where
  "block_seg block bs = \<lparr>seg_block = block, seg_blocks = 1, seg_src = SegBytes bs\<rparr>"

definition st_plan ::
    "crc \<Rightarrow> (u32 \<times> run) list \<Rightarrow> nat \<Rightarrow> u32 \<Rightarrow> 'a seal_state_scheme \<Rightarrow> (extent_plan \<times> 'a seal_state_scheme) res" where
  "st_plan crc pairs ino fseed st =
    bindE (plan_extents crc pairs (of_nat ino) fseed (st_alloc st)) (\<lambda>(plan, a, segs).
    Inr (plan, st_push segs (st\<lparr>st_alloc := a\<rparr>)))"

text \<open>Blocks for a dense sequence of blocks: its runs and its plan.\<close>

definition st_dense ::
    "crc \<Rightarrow> nat \<Rightarrow> nat \<Rightarrow> u32 \<Rightarrow> 'a seal_state_scheme \<Rightarrow> ((run list \<times> extent_plan) \<times> 'a seal_state_scheme) res" where
  "st_dense crc n ino fseed st =
    bindE (st_take n st) (\<lambda>(runs, st).
    bindE (with_logicals runs) (\<lambda>pairs.
    bindE (st_plan crc pairs ino fseed st) (\<lambda>(plan, st).
    Inr ((runs, plan), st))))"

section \<open>The namespace\<close>

record dir_plan =
  dp_slot :: nat
  dp_runs :: "run list"
  dp_plan :: extent_plan
  dp_nblocks :: nat
  dp_is_htree :: bool

record names_state = seal_state +
  ns_dirs :: "dir_plan list"
  ns_rendered :: "(nat \<times> bytes) list"
  ns_xattrs :: "(nat \<times> bytes) list"
  ns_symlinks :: "extent_plan option list"

definition seal_dirent_block :: "crc \<Rightarrow> u32 \<Rightarrow> bytes \<Rightarrow> bytes res" where
  "seal_dirent_block crc seed buf =
    bindE (csum_dirent_block crc seed buf) (\<lambda>c. store_u32 buf (BLOCK_SIZE - 4) c)"

text \<open>lost+found: a block with the dot entries and three empty blocks.\<close>

definition lost_found_blocks :: "crc \<Rightarrow> u32 \<Rightarrow> bytes list res" where
  "lost_found_blocks crc fseed =
    (let seed = inode_seed crc fseed (of_nat LOST_FOUND_INO) 0 in
     bindE (pack_dirents (dot_entries (of_nat LOST_FOUND_INO) ROOT_INO)) (\<lambda>dots.
     bindE (mapE (\<lambda>_. pack_dirents []) [length dots..<LOST_FOUND_BLOCKS]) (\<lambda>empties.
     mapE (seal_dirent_block crc seed) (dots @ concat empties))))"

text \<open>The attributes of a slot: a block when they do not all fit in the inode.\<close>

definition seal_xattrs :: "crc \<Rightarrow> fs_builder \<Rightarrow> u32 \<Rightarrow> nat \<Rightarrow> names_state \<Rightarrow> names_state res" where
  "seal_xattrs crc b fseed slot st =
    (case fb_xattrs b slot of
       None \<Rightarrow> Inr st
     | Some attrs \<Rightarrow>
         bindE (xattr_plan_of attrs) (\<lambda>plan.
         bindE (if xp_block_attrs plan = [] then Inr (0, st)
                else
                  bindE (st_take_one st) (\<lambda>(block, st).
                  bindE (xattr_render_block crc (xp_block_attrs plan) fseed (of_nat block)) (\<lambda>bs.
                  Inr (block, st_push [block_seg block bs] st)))) (\<lambda>(acl, st).
         Inr (st\<lparr>ns_xattrs := (ns_xattrs st)[slot := (acl, xp_ibody plan)]\<rparr>))))"

definition dir_blocks ::
    "crc \<Rightarrow> nat \<Rightarrow> nat \<Rightarrow> dentry list \<Rightarrow> hash_seed \<Rightarrow> u32 \<Rightarrow> bytes list res" where
  "dir_blocks crc ino parent_ino entries seed fseed =
    (if needs_htree entries then htree_build crc (of_nat ino) (of_nat parent_ino) entries seed fseed
     else
       bindE (pack_dirents (dot_entries (of_nat ino) (of_nat parent_ino) @ entries)) (\<lambda>blocks.
       mapE (seal_dirent_block crc (inode_seed crc fseed (of_nat ino) 0)) blocks))"

definition seal_directory ::
    "crc \<Rightarrow> fs_builder \<Rightarrow> nat list \<Rightarrow> nat list \<Rightarrow> u32 \<Rightarrow> nat \<Rightarrow> child_entry list \<Rightarrow> names_state \<Rightarrow> names_state res" where
  "seal_directory crc b slot_ino parents fseed slot children st =
    (let ino = slot_ino ! slot; parent_ino = (if slot = 0 then unat ROOT_INO else parents ! slot) in
     bindE (dir_dentries b slot_ino slot children) (\<lambda>entries.
     bindE (dir_blocks crc ino parent_ino entries (opt_hash_seed (fb_opts b)) fseed) (\<lambda>blocks.
     bindE (st_dense crc (length blocks) ino fseed st) (\<lambda>((runs, plan), st).
     Inr (st\<lparr>ns_rendered := ns_rendered st @ zip (expand_runs runs) blocks,
             ns_dirs := ns_dirs st @
               [\<lparr>dp_slot = slot, dp_runs = runs, dp_plan = plan, dp_nblocks = length blocks,
                 dp_is_htree = needs_htree entries\<rparr>]\<rparr>)))))"

definition seal_slow_symlink ::
    "crc \<Rightarrow> nat \<Rightarrow> u32 \<Rightarrow> nat \<Rightarrow> bytes \<Rightarrow> names_state \<Rightarrow> names_state res" where
  "seal_slow_symlink crc ino fseed slot target st =
    bindE (st_take_one st) (\<lambda>(block, st).
    bindE (guardE (length target \<le> BLOCK_SIZE) Panic) (\<lambda>_.
    let st = st_push [block_seg block (poke (zeros_buf BLOCK_SIZE) 0 target)] st
    in bindE (st_plan crc [(0, \<lparr>run_start = block, run_len = 1\<rparr>)] ino fseed st) (\<lambda>(plan, st).
       Inr (st\<lparr>ns_symlinks := (ns_symlinks st)[slot := Some plan]\<rparr>))))"

text \<open>One slot: its attribute block, then its directory blocks or its symlink block.\<close>

definition seal_slot ::
    "crc \<Rightarrow> fs_builder \<Rightarrow> nat list \<Rightarrow> nat list \<Rightarrow> u32 \<Rightarrow> nat \<Rightarrow> names_state \<Rightarrow> names_state res" where
  "seal_slot crc b slot_ino parents fseed slot st =
    (let ino = slot_ino ! slot in
     if ino = 0 then Inr st
     else
       bindE (seal_xattrs crc b fseed slot st) (\<lambda>st.
       case n_kind (fb_nodes b ! slot) of
         node_kind.Dir children _ \<Rightarrow> seal_directory crc b slot_ino parents fseed slot children st
       | node_kind.Symlink target \<Rightarrow>
           if 59 < length target then seal_slow_symlink crc ino fseed slot target st else Inr st
       | _ \<Rightarrow> Inr st))"

section \<open>File data\<close>

record data_state = seal_state +
  ds_file_runs :: "(run list \<times> nat) list"
  ds_file_plans :: "(extent_plan \<times> nat) option list"
  ds_data_runs :: "run list"

text \<open>The data segments of a slot; none for a slot that is skipped.\<close>

definition data_segs_of :: "node_kind \<Rightarrow> (nat \<times> nat) list option" where
  "data_segs_of k = (case k of
     File sz \<Rightarrow> if 0 < sz then Some [(0, sz)] else None
   | Sparse segs _ \<Rightarrow> Some segs
   | _ \<Rightarrow> None)"

definition seal_data_seg ::
    "nat \<times> nat \<Rightarrow> (u32 \<times> run) list \<times> run list \<times> nat \<times> 'a seal_state_scheme \<Rightarrow>
     ((u32 \<times> run) list \<times> run list \<times> nat \<times> 'a seal_state_scheme) res" where
  "seal_data_seg = (\<lambda>(offset, len) (pairs, runs, data_bytes, st).
    bindE (st_take (div_ceil len BLOCK_SIZE) st) (\<lambda>(seg_runs, st).
    bindE (logicals_from (of_nat (offset div BLOCK_SIZE)) seg_runs) (\<lambda>ps.
    Inr (pairs @ ps, runs @ seg_runs, data_bytes + len, st))))"

definition seal_file ::
    "crc \<Rightarrow> fs_builder \<Rightarrow> nat list \<Rightarrow> u32 \<Rightarrow> nat \<Rightarrow> data_state \<Rightarrow> data_state res" where
  "seal_file crc b slot_ino fseed slot st =
    (let ino = slot_ino ! slot in
     if ino = 0 then Inr st
     else (case data_segs_of (n_kind (fb_nodes b ! slot)) of
       None \<Rightarrow> Inr st
     | Some segs \<Rightarrow>
         bindE (foldE seal_data_seg segs ([], [], 0, st)) (\<lambda>(pairs, runs, data_bytes, st).
         bindE (st_plan crc pairs ino fseed st) (\<lambda>(plan, st).
         Inr (st\<lparr>ds_data_runs := ds_data_runs st @ runs,
                 ds_file_runs := (ds_file_runs st)[slot := (runs, data_bytes)],
                 ds_file_plans := (ds_file_plans st)[slot := Some (plan, sum_list (map run_len runs))]\<rparr>)))))"

end
