(* ===== verification/Seal.thy ===== *)
theory Seal
  imports SealPlace Superblock GroupDesc Journal Reader
begin

text \<open>
  Sealing, the rest (src/src/build/seal.rs): the block bitmap, the inodes, the group descriptors,
  the superblocks and the journal superblock, and \<open>seal\<close> itself. The assertion that no block is
  marked twice is the \<^verbatim>\<open>debug_assert_eq!\<close> of the code.
\<close>

section \<open>The block bitmap\<close>

definition set_bit_at :: "nat \<Rightarrow> bytes \<Rightarrow> bytes" where
  "set_bit_at i bitmap = bitmap[i div 8 := bitmap ! (i div 8) OR push_bit (i mod 8) 1]"

definition mark_block :: "nat \<Rightarrow> bytes \<Rightarrow> bytes res" where
  "mark_block block bitmap =
    (if block div 8 < length bitmap \<and> \<not> bitmap_bit bitmap block then Inr (set_bit_at block bitmap)
     else Inl Panic)"

definition mark_run :: "run \<Rightarrow> bytes \<times> nat \<Rightarrow> (bytes \<times> nat) res" where
  "mark_run r = (\<lambda>(bitmap, used).
    bindE (foldE mark_block [run_start r..<run_start r + run_len r] bitmap) (\<lambda>bitmap.
    Inr (bitmap, used + run_len r)))"

text \<open>Everything that is in use, in the order it is marked.\<close>

definition group_meta_runs :: "geometry \<Rightarrow> nat \<times> nat \<times> nat \<Rightarrow> run list" where
  "group_meta_runs geo = (\<lambda>(bb, ib, it).
    [\<lparr>run_start = bb, run_len = 1\<rparr>, \<lparr>run_start = ib, run_len = 1\<rparr>,
     \<lparr>run_start = it, run_len = itable_blocks geo\<rparr>])"

definition used_runs ::
    "geometry \<Rightarrow> (nat \<times> nat \<times> nat) list \<Rightarrow> run list \<Rightarrow> run list \<Rightarrow> dir_plan list \<Rightarrow> run list \<Rightarrow> segment list \<Rightarrow> run list" where
  "used_runs geo group_meta journal_runs lf_runs dirs data_runs segments =
    \<lparr>run_start = 0, run_len = 1 + geo_gdt_blocks geo\<rparr> #
    map (\<lambda>g. \<lparr>run_start = group_start g, run_len = 1 + geo_gdt_blocks geo\<rparr>) (backup_groups geo) @
    concat (map (group_meta_runs geo) group_meta) @ journal_runs @ lf_runs @
    concat (map dp_runs dirs) @ data_runs @
    map (\<lambda>s. \<lparr>run_start = seg_block s, run_len = seg_blocks s\<rparr>) segments"

definition block_bitmap :: "geometry \<Rightarrow> run list \<Rightarrow> (bytes \<times> nat) res" where
  "block_bitmap geo runs = foldE mark_run runs (zeros_buf (div_ceil (geo_blocks geo) 8), 0)"

section \<open>Inodes\<close>

definition set_inode :: "nat \<Rightarrow> bytes \<Rightarrow> bytes list \<Rightarrow> bytes list res" where
  "set_inode ino raw inodes =
    (if 0 < ino \<and> ino \<le> length inodes then Inr (inodes[ino - 1 := raw]) else Inl Panic)"

definition reserved_inodes :: "crc \<Rightarrow> u32 \<Rightarrow> int \<Rightarrow> bytes list \<Rightarrow> bytes list res" where
  "reserved_inodes crc fseed epoch inodes =
    bindE (render_reserved_inode crc fseed 1 (Some epoch)) (\<lambda>raw.
    bindE (set_inode 1 raw inodes) (\<lambda>inodes.
    foldE (\<lambda>ino inodes.
      bindE (render_reserved_inode crc fseed (of_nat ino) None) (\<lambda>raw. set_inode ino raw inodes))
      [3, 4, 5, 6, 7, 9, 10] inodes))"

definition journal_render :: "geometry \<Rightarrow> int \<Rightarrow> extent_plan \<Rightarrow> inode_render" where
  "journal_render geo epoch plan =
    \<lparr>ir_meta = (Meta_new 0 0 0 (epoch, 0))\<lparr>m_mode := 0x180\<rparr>, ir_ftype = ft_REG,
     ir_size = of_nat (geo_journal_blocks geo * BLOCK_SIZE),
     ir_blocks512 = of_nat (geo_journal_blocks geo * 8 + ep_tree_blocks plan), ir_nlink = 1,
     ir_flags = iflags_EXTENTS, ir_block = ep_root plan, ir_file_acl = 0, ir_ibody = []\<rparr>"

definition lost_found_render :: "int \<Rightarrow> extent_plan \<Rightarrow> inode_render" where
  "lost_found_render epoch plan =
    \<lparr>ir_meta = (Meta_new 0 0 0 (epoch, 0))\<lparr>m_mode := 0x1C0\<rparr>, ir_ftype = ft_DIR,
     ir_size = of_nat (LOST_FOUND_BLOCKS * BLOCK_SIZE),
     ir_blocks512 = of_nat (LOST_FOUND_BLOCKS * 8 + ep_tree_blocks plan), ir_nlink = 2,
     ir_flags = iflags_EXTENTS, ir_block = ep_root plan, ir_file_acl = 0, ir_ibody = []\<rparr>"

definition put_inode :: "crc \<Rightarrow> u32 \<Rightarrow> nat \<Rightarrow> inode_render \<Rightarrow> bytes list \<Rightarrow> bytes list res" where
  "put_inode crc fseed ino r inodes =
    bindE (render_inode crc fseed (of_nat ino) r) (\<lambda>raw. set_inode ino raw inodes)"

definition dir_inode_render :: "fs_builder \<Rightarrow> nat list \<Rightarrow> (nat \<times> bytes) list \<Rightarrow> dir_plan \<Rightarrow> inode_render" where
  "dir_inode_render b slot_ino xattrs d =
    (let slot = dp_slot d in
     render_dir (n_meta (fb_nodes b ! slot)) (dp_nblocks d) (dp_is_htree d)
       (2 + subdir_count b slot_ino slot + (if slot = 0 then 1 else 0)) (dp_plan d) (xattrs ! slot))"

text \<open>The inode of a slot that is not a directory.\<close>

definition node_render ::
    "node \<Rightarrow> (extent_plan \<times> nat) option \<Rightarrow> extent_plan option \<Rightarrow> nat \<times> bytes \<Rightarrow> inode_render option res" where
  "node_render n file_plan symlink_plan xattrs =
    (let m = n_meta n; nlink = n_nlink n;
         regular = (\<lambda>sz. bindE empty_extent_plan (\<lambda>empty.
           Inr (Some (render_file m nlink sz (case file_plan of Some p \<Rightarrow> p | None \<Rightarrow> (empty, 0)) xattrs))))
     in case n_kind n of
       node_kind.Dir _ _ \<Rightarrow> Inr None
     | File sz \<Rightarrow> regular sz
     | Sparse _ sz \<Rightarrow> regular sz
     | node_kind.Symlink target \<Rightarrow>
         if length target \<le> 59 then Inr (Some (render_fast_symlink m nlink target xattrs))
         else (case symlink_plan of
           Some plan \<Rightarrow> Inr (Some (render_slow_symlink m nlink target plan xattrs))
         | None \<Rightarrow> Inl Panic)
     | Special ftype major minor \<Rightarrow> Inr (Some (render_special m nlink ftype major minor xattrs)))"

definition put_node_inode ::
    "crc \<Rightarrow> fs_builder \<Rightarrow> u32 \<Rightarrow> nat list \<Rightarrow> names_state \<Rightarrow> data_state \<Rightarrow> nat \<Rightarrow> bytes list \<Rightarrow> bytes list res" where
  "put_node_inode crc b fseed slot_ino ns ds slot inodes =
    (if slot_ino ! slot = 0 then Inr inodes
     else
       bindE (node_render (fb_nodes b ! slot) (ds_file_plans ds ! slot) (ns_symlinks ns ! slot) (ns_xattrs ns ! slot))
         (\<lambda>r. case r of None \<Rightarrow> Inr inodes | Some r \<Rightarrow> put_inode crc fseed (slot_ino ! slot) r inodes))"

definition seal_inodes ::
    "crc \<Rightarrow> fs_builder \<Rightarrow> geometry \<Rightarrow> u32 \<Rightarrow> nat list \<Rightarrow> nat \<Rightarrow> extent_plan \<Rightarrow> extent_plan \<Rightarrow>
     names_state \<Rightarrow> data_state \<Rightarrow> bytes list res" where
  "seal_inodes crc b geo fseed slot_ino max_ino journal_plan lf_plan ns ds =
    (let epoch = opt_epoch (fb_opts b) in
     bindE (reserved_inodes crc fseed epoch (replicate max_ino (zeros_buf 256))) (\<lambda>inodes.
     bindE (put_inode crc fseed (unat JOURNAL_INO) (journal_render geo epoch journal_plan) inodes) (\<lambda>inodes.
     bindE (put_inode crc fseed LOST_FOUND_INO (lost_found_render epoch lf_plan) inodes) (\<lambda>inodes.
     bindE (foldE (\<lambda>d. put_inode crc fseed (slot_ino ! dp_slot d)
         (dir_inode_render b slot_ino (ns_xattrs ns) d)) (ns_dirs ns) inodes) (\<lambda>inodes.
     foldE (put_node_inode crc b fseed slot_ino ns ds) [0..<length (fb_nodes b)] inodes)))))"

section \<open>Group descriptors\<close>

definition raw_is_dir :: "bytes \<Rightarrow> bool" where
  "raw_is_dir raw \<longleftrightarrow> drop_bit 12 (le16 raw 0) = 4"

definition dirs_in_group :: "nat \<Rightarrow> bytes list \<Rightarrow> nat \<Rightarrow> nat" where
  "dirs_in_group ipg inodes g =
    length (filter (\<lambda>(idx, raw). idx div ipg = g \<and> raw_is_dir raw) (enumerate 0 inodes))"

definition group_bitmap_block :: "bytes \<Rightarrow> nat \<Rightarrow> nat \<Rightarrow> bytes" where
  "group_bitmap_block bitmap start in_group =
    fold set_bit_at (filter (\<lambda>i. bitmap_bit bitmap (start + i)) [0..<in_group] @ [in_group..<BLOCK_SIZE * 8])
      (zeros_buf BLOCK_SIZE)"

definition group_free_blocks :: "bytes \<Rightarrow> nat \<Rightarrow> nat \<Rightarrow> nat" where
  "group_free_blocks bitmap start in_group =
    length (filter (\<lambda>i. \<not> bitmap_bit bitmap (start + i)) [0..<in_group])"

definition inode_bitmap_block :: "nat \<Rightarrow> nat \<Rightarrow> bytes" where
  "inode_bitmap_block used ipg =
    (if used = 0 then zeros_buf BLOCK_SIZE
     else fold set_bit_at ([0..<used] @ [ipg..<BLOCK_SIZE * 8]) (zeros_buf BLOCK_SIZE))"

definition used_inodes_in_group :: "geometry \<Rightarrow> nat \<Rightarrow> nat \<Rightarrow> nat" where
  "used_inodes_in_group geo used_inodes g =
    min (used_inodes - g * geo_inodes_per_group geo) (geo_inodes_per_group geo)"

text \<open>The descriptor of a group, its free blocks, and its three segments.\<close>

definition seal_group ::
    "crc \<Rightarrow> u32 \<Rightarrow> geometry \<Rightarrow> bytes \<Rightarrow> nat \<Rightarrow> bytes list \<Rightarrow> nat \<times> nat \<times> nat \<times> nat \<Rightarrow>
     (group_desc \<times> nat \<times> segment list) res" where
  "seal_group crc fseed geo bitmap used_inodes inodes = (\<lambda>(g, bb, ib, it).
    bindE (blocks_in_group geo g) (\<lambda>in_group.
    let ipg = geo_inodes_per_group geo;
        bb_block = group_bitmap_block bitmap (group_start g) in_group;
        free = group_free_blocks bitmap (group_start g) in_group;
        used = used_inodes_in_group geo used_inodes g;
        uninit = (used = 0);
        ib_block = inode_bitmap_block used ipg
    in bindE (if uninit then Inr 0 else csum_inode_bitmap crc fseed ib_block (of_nat ipg)) (\<lambda>ib_csum.
       let d = \<lparr>bg_block_bitmap = of_nat bb, bg_inode_bitmap = of_nat ib, bg_inode_table = of_nat it,
                bg_free_blocks_count = of_nat free, bg_free_inodes_count = of_nat (ipg - used),
                bg_used_dirs_count = of_nat (dirs_in_group ipg inodes g),
                bg_flags = bg_INODE_ZEROED OR (if uninit then bg_INODE_UNINIT else 0),
                bg_exclude_bitmap = 0,
                bg_block_bitmap_csum = ucast (csum_block_bitmap crc fseed bb_block),
                bg_inode_bitmap_csum = ucast ib_csum, bg_itable_unused = of_nat (ipg - used),
                bg_checksum = 0\<rparr>
       in bindE (group_desc_encode32 d (zeros_buf 32)) (\<lambda>raw.
          bindE (csum_group_desc crc fseed (of_nat g) raw) (\<lambda>c.
          Inr (d\<lparr>bg_checksum := c\<rparr>, free,
               [block_seg bb bb_block, block_seg ib ib_block,
                \<lparr>seg_block = it, seg_blocks = itable_blocks geo, seg_src = SegItable g\<rparr>]))))))"

definition seal_groups ::
    "crc \<Rightarrow> u32 \<Rightarrow> geometry \<Rightarrow> bytes \<Rightarrow> nat \<Rightarrow> bytes list \<Rightarrow> (nat \<times> nat \<times> nat) list \<Rightarrow>
     (group_desc list \<times> nat \<times> segment list) res" where
  "seal_groups crc fseed geo bitmap used_inodes inodes group_meta =
    bindE (guardE (\<forall>idx<length inodes. raw_is_dir (inodes ! idx) \<longrightarrow> idx div geo_inodes_per_group geo < geo_groups geo) Panic) (\<lambda>_.
    bindE (mapE (seal_group crc fseed geo bitmap used_inodes inodes) (enumerate 0 group_meta)) (\<lambda>gs.
    Inr (map fst gs, sum_list (map (fst \<circ> snd) gs), concat (map (snd \<circ> snd) gs))))"

definition put_desc :: "nat \<times> group_desc \<Rightarrow> bytes \<Rightarrow> bytes res" where
  "put_desc = (\<lambda>(g, d) buf.
    if g * 32 + 32 \<le> length buf then Inr (poke buf (g * 32) (group_desc_bytes d)) else Inl Panic)"

definition gdt_bytes :: "geometry \<Rightarrow> group_desc list \<Rightarrow> bytes res" where
  "gdt_bytes geo descs = foldE put_desc (enumerate 0 descs) (zeros_buf (geo_gdt_blocks geo * BLOCK_SIZE))"

section \<open>Superblocks\<close>

text \<open>The backup of the journal inode's block map: its fifteen words and its size.\<close>

definition jnl_backup :: "geometry \<Rightarrow> bytes \<Rightarrow> u32 list" where
  "jnl_backup geo journal_raw =
    map (\<lambda>i. le32 journal_raw (0x28 + 4 * i)) [0..<15] @ [0, of_nat (geo_journal_blocks geo * BLOCK_SIZE)]"

definition volume_name :: "bytes option \<Rightarrow> bytes res" where
  "volume_name label = (case label of
     None \<Rightarrow> Inr (zeros_buf 16)
   | Some l \<Rightarrow> if length l \<le> 16 then Inr (poke (zeros_buf 16) 0 l) else Inl Panic)"

definition seal_superblock ::
    "options \<Rightarrow> geometry \<Rightarrow> nat \<Rightarrow> nat \<Rightarrow> nat \<Rightarrow> nat \<Rightarrow> bytes \<Rightarrow> bytes \<Rightarrow> superblock" where
  "seal_superblock opts geo n_inodes used_inodes free_blocks used_blocks journal_raw name =
    (let epoch32 = of_int (opt_epoch opts) in
     \<lparr>s_inodes_count = of_nat n_inodes,
      s_blocks_count = of_nat (geo_blocks geo),
      s_r_blocks_count = of_nat (geo_blocks geo * opt_reserved_percent opts div 100),
      s_free_blocks_count = of_nat free_blocks,
      s_free_inodes_count = of_nat (n_inodes - used_inodes),
      s_first_data_block = 0, s_log_block_size = 2, s_log_cluster_size = 2,
      s_blocks_per_group = of_nat BLOCKS_PER_GROUP, s_clusters_per_group = of_nat BLOCKS_PER_GROUP,
      s_inodes_per_group = of_nat (geo_inodes_per_group geo),
      s_mtime = 0, s_wtime = epoch32, s_mnt_count = 0, s_max_mnt_count = 0xFFFF, s_state = 1,
      s_errors = 1, s_minor_rev_level = 0, s_lastcheck = epoch32, s_checkinterval = 0,
      s_creator_os = 0, s_rev_level = 1, s_def_resuid = 0, s_def_resgid = 0, s_first_ino = 11,
      s_inode_size = 256, s_block_group_nr = 0,
      s_feature_compat = compat_WRITER, s_feature_incompat = incompat_WRITER,
      s_feature_ro_compat = ro_compat_WRITER,
      s_uuid = opt_fs_uuid opts, s_volume_name = name, s_last_mounted = zeros_buf 64,
      s_reserved_gdt_blocks = 0, s_journal_uuid = zeros_buf 16, s_journal_inum = JOURNAL_INO,
      s_journal_dev = 0, s_last_orphan = 0, s_hash_seed = opt_hash_seed opts,
      s_def_hash_version = 1, s_jnl_backup_type = 1, s_desc_size = 0, s_default_mount_opts = 0x0C,
      s_first_meta_bg = 0, s_mkfs_time = epoch32, s_jnl_blocks = jnl_backup geo journal_raw,
      s_min_extra_isize = 32, s_want_extra_isize = 32, s_flags = 1, s_log_groups_per_flex = 4,
      s_checksum_type = 1, s_kbytes_written = of_nat (used_blocks * 4),
      s_overhead_clusters = of_nat (overhead geo), s_lpf_ino = 0, s_checksum_seed = 0, s_checksum = 0\<rparr>)"

text \<open>Encode, checksum, store the checksum in the superblock and encode again.\<close>

definition seal_sb_bytes :: "crc \<Rightarrow> superblock \<Rightarrow> (superblock \<times> bytes) res" where
  "seal_sb_bytes crc sb =
    bindE (superblock_encode sb (zeros_buf 1024)) (\<lambda>buf.
    bindE (csum_superblock crc buf) (\<lambda>c.
    bindE (superblock_encode (sb\<lparr>s_checksum := c\<rparr>) buf) (\<lambda>buf.
    Inr (sb\<lparr>s_checksum := c\<rparr>, buf))))"

definition primary_segs :: "geometry \<Rightarrow> bytes \<Rightarrow> bytes \<Rightarrow> segment list" where
  "primary_segs geo sb_bytes gdt =
    [block_seg 0 (poke (zeros_buf BLOCK_SIZE) 1024 sb_bytes),
     \<lparr>seg_block = 1, seg_blocks = geo_gdt_blocks geo, seg_src = SegBytes gdt\<rparr>]"

text \<open>A backup differs in its group number and checksum only.\<close>

definition backup_segs :: "crc \<Rightarrow> geometry \<Rightarrow> superblock \<Rightarrow> bytes \<Rightarrow> nat \<Rightarrow> segment list res" where
  "backup_segs crc geo sb gdt g =
    bindE (seal_sb_bytes crc (sb\<lparr>s_block_group_nr := of_nat g\<rparr>)) (\<lambda>(_, bs).
    Inr [block_seg (group_start g) (poke (zeros_buf BLOCK_SIZE) 0 bs),
         \<lparr>seg_block = group_start g + 1, seg_blocks = geo_gdt_blocks geo, seg_src = SegBytes gdt\<rparr>])"

definition journal_sb :: "geometry \<Rightarrow> bytes \<Rightarrow> journal_superblock" where
  "journal_sb geo uuid =
    \<lparr>js_blocktype = 4, js_blocksize = of_nat BLOCK_SIZE, js_maxlen = of_nat (geo_journal_blocks geo),
     js_first = 1, js_sequence = 1, js_start = 0, js_errno = 0, js_feature_compat = 0,
     js_feature_incompat = 0, js_feature_ro_compat = 0, js_uuid = uuid, js_nr_users = 1,
     js_dynsuper = 0, js_max_transaction = 0, js_max_trans_data = 0, js_checksum_type = 0,
     js_num_fc_blocks = 0, js_head = 0, js_checksum = 0\<rparr>"

definition journal_seg :: "geometry \<Rightarrow> bytes \<Rightarrow> run list \<Rightarrow> segment res" where
  "journal_seg geo uuid journal_runs =
    bindE (journal_superblock_encode (journal_sb geo uuid) (zeros_buf BLOCK_SIZE)) (\<lambda>bs.
    if journal_runs = [] then Inl Panic else Inr (block_seg (run_start (journal_runs ! 0)) bs))"

section \<open>Sealing\<close>

text \<open>The allocation phase: journal, lost+found, the namespace, the files.\<close>

record placement =
  pl_group_meta :: "(nat \<times> nat \<times> nat) list"
  pl_journal :: "run list \<times> extent_plan"
  pl_lost_found :: "run list \<times> extent_plan"
  pl_names :: names_state
  pl_data :: data_state

definition place_all :: "crc \<Rightarrow> fs_builder \<Rightarrow> geometry \<Rightarrow> u32 \<Rightarrow> nat list \<Rightarrow> placement res" where
  "place_all crc b geo fseed slot_ino =
    (let n = length (fb_nodes b) in
     bindE (place_groups geo) (\<lambda>(group_meta, a).
     bindE (st_dense crc (geo_journal_blocks geo) (unat JOURNAL_INO) fseed
         \<lparr>st_alloc = a, st_segments = []\<rparr>) (\<lambda>(journal, st).
     bindE (st_dense crc LOST_FOUND_BLOCKS LOST_FOUND_INO fseed st) (\<lambda>(lf, st).
     bindE (lost_found_blocks crc fseed) (\<lambda>lf_blocks.
     bindE (parent_map b slot_ino) (\<lambda>parents.
     bindE (foldE (seal_slot crc b slot_ino parents fseed) [0..<n]
         \<lparr>st_alloc = st_alloc st, st_segments = st_segments st, ns_dirs = [],
          ns_rendered = zip (expand_runs (fst lf)) lf_blocks, ns_xattrs = replicate n (0, []),
          ns_symlinks = replicate n None\<rparr>) (\<lambda>ns.
     bindE (foldE (seal_file crc b slot_ino fseed) [0..<n]
         \<lparr>st_alloc = st_alloc ns, st_segments = st_segments ns, ds_file_runs = replicate n ([], 0),
          ds_file_plans = replicate n None, ds_data_runs = []\<rparr>) (\<lambda>ds.
     Inr \<lparr>pl_group_meta = group_meta, pl_journal = journal, pl_lost_found = lf, pl_names = ns,
          pl_data = ds\<rparr>))))))))"

text \<open>The rendering phase: bitmap, inodes, descriptors, superblocks, journal superblock,
  directory blocks; then the segments in block order.\<close>

definition render_all ::
    "crc \<Rightarrow> fs_builder \<Rightarrow> geometry \<Rightarrow> u32 \<Rightarrow> nat list \<Rightarrow> nat \<Rightarrow> nat \<Rightarrow> placement \<Rightarrow> layout res" where
  "render_all crc b geo fseed slot_ino max_ino n_inodes pl =
    (let opts = fb_opts b; ns = pl_names pl; ds = pl_data pl in
     bindE (block_bitmap geo (used_runs geo (pl_group_meta pl) (fst (pl_journal pl)) (fst (pl_lost_found pl))
         (ns_dirs ns) (ds_data_runs ds) (st_segments ds))) (\<lambda>(bitmap, used_blocks).
     bindE (seal_inodes crc b geo fseed slot_ino max_ino (snd (pl_journal pl)) (snd (pl_lost_found pl)) ns ds)
       (\<lambda>inodes.
     bindE (seal_groups crc fseed geo bitmap max_ino inodes (pl_group_meta pl)) (\<lambda>(descs, free_blocks, group_segs).
     bindE (gdt_bytes geo descs) (\<lambda>gdt.
     bindE (volume_name (opt_label opts)) (\<lambda>name.
     bindE (seal_sb_bytes crc (seal_superblock opts geo n_inodes max_ino free_blocks used_blocks
         (inodes ! (unat JOURNAL_INO - 1)) name)) (\<lambda>(sb, sb_bytes).
     bindE (mapE (backup_segs crc geo sb gdt) (backup_groups geo)) (\<lambda>backups.
     bindE (journal_seg geo (opt_fs_uuid opts) (fst (pl_journal pl))) (\<lambda>jseg.
     let segs = st_segments ds @ group_segs @ primary_segs geo sb_bytes gdt @ concat backups @ [jseg] @
           map (\<lambda>(block, bs). block_seg block bs) (ns_rendered ns)
     in Inr \<lparr>lay_opts = opts, lay_geo = geo, lay_slot_ino = slot_ino, lay_file_runs = ds_file_runs ds,
            lay_segments = sort_key seg_block segs, lay_data_runs = sort_key run_start (ds_data_runs ds),
            lay_inodes = inodes, lay_max_ino = max_ino\<rparr>)))))))))"

definition seal :: "crc \<Rightarrow> fs_builder \<Rightarrow> layout res" where
  "seal crc b =
    bindE (slot_inodes b) (\<lambda>(slot_ino, next).
    let max_ino = next - 1; opts = fb_opts b in
    bindE (Geometry_new (opt_size_bytes opts) (case opt_inodes opts of Auto \<Rightarrow> None | Exact n \<Rightarrow> Some n)
        (opt_journal_blocks opts)) (\<lambda>geo.
    bindE (inodes_count geo) (\<lambda>n_inodes.
    if n_inodes < max_ino then Inl (Err (Invalid ''more inodes needed than the geometry provides''))
    else
      let fseed = fs_seed crc (opt_fs_uuid opts)
      in bindE (place_all crc b geo fseed slot_ino) (\<lambda>pl.
         render_all crc b geo fseed slot_ino max_ino n_inodes pl))))"

end
