(* ===== verification/SealMarks.thy ===== *)
theory SealMarks
  imports Seal WriterSpec ReaderSafe "HOL-Library.Multiset"
begin

text \<open>
  The block bitmap of a sealed image: marking succeeds exactly when no block is used twice, and then
  the bitmap holds exactly the used blocks.
\<close>

section \<open>Bits\<close>

lemma bit_of_byte: "(w :: u8) AND push_bit k 1 \<noteq> 0 \<longleftrightarrow> bit w k"
  by (metis and_exp_eq_0_iff_not_bit push_bit_of_1)

lemma bitmap_bit_nth: "bitmap_bit bm i \<longleftrightarrow> bit (bm ! (i div 8)) (i mod 8)"
  unfolding bitmap_bit_def bit_of_byte ..

lemma length_set_bit_at [simp]: "length (set_bit_at i bm) = length bm"
  by (simp add: set_bit_at_def)

lemma bitmap_bit_set:
  assumes "i div 8 < length bm"
  shows "bitmap_bit (set_bit_at i bm) j \<longleftrightarrow> bitmap_bit bm j \<or> j = i"
proof (cases "j div 8 = i div 8")
  case True
  have "j = i \<longleftrightarrow> j mod 8 = i mod 8" using True by (metis div_mult_mod_eq)
  moreover have "i mod 8 < 8" by simp
  then have "bit (push_bit (i mod 8) (1 :: u8)) k \<longleftrightarrow> k = i mod 8" for k
    by (auto simp: bit_simps)
  ultimately show ?thesis using assms True by (simp add: bitmap_bit_nth set_bit_at_def bit_or_iff)
qed (auto simp: bitmap_bit_nth set_bit_at_def)

lemma bitmap_bit_zeros [simp]: "i div 8 < n \<Longrightarrow> \<not> bitmap_bit (zeros_buf n) i"
  by (simp add: bitmap_bit_nth)

lemma fold_set_bits:
  "\<forall>i\<in>set is. i div 8 < length bm \<Longrightarrow>
   length (fold set_bit_at is bm) = length bm \<and>
   (\<forall>j. bitmap_bit (fold set_bit_at is bm) j \<longleftrightarrow> bitmap_bit bm j \<or> j \<in> set is)"
  by (induction "is" arbitrary: bm) (auto simp: bitmap_bit_set)

section \<open>Marking\<close>

lemma mark_block_ok:
  "mark_block i bm = Inr bm' \<longleftrightarrow> i div 8 < length bm \<and> \<not> bitmap_bit bm i \<and> bm' = set_bit_at i bm"
  by (auto simp: mark_block_def)

text \<open>Marking a list of blocks succeeds exactly when they are free, in range and distinct.\<close>

lemma foldE_mark:
  "foldE mark_block bs bm = Inr bm' \<longleftrightarrow>
   distinct bs \<and> (\<forall>i\<in>set bs. i div 8 < length bm \<and> \<not> bitmap_bit bm i) \<and> bm' = fold set_bit_at bs bm"
proof (induction bs arbitrary: bm)
  case (Cons i bs)
  show ?case
  proof (cases "i div 8 < length bm \<and> \<not> bitmap_bit bm i")
    case True
    then have "mark_block i bm = Inr (set_bit_at i bm)" by (simp add: mark_block_def)
    then show ?thesis using True by (auto simp: Cons.IH bitmap_bit_set)
  qed (auto simp: mark_block_def)
qed auto

lemma foldE_mark_run:
  "foldE mark_run rs (bm, u) = Inr (bm', u') \<longleftrightarrow>
   foldE mark_block (expand_runs rs) bm = Inr bm' \<and> u' = u + sum_list (map run_len rs)"
proof (induction rs arbitrary: bm u)
  case (Cons r rs)
  show ?case
  proof (cases "foldE mark_block [run_start r..<run_start r + run_len r] bm")
    case (Inl e)
    then have "mark_run r (bm, u) = Inl e" by (simp add: mark_run_def)
    with Inl show ?thesis by (simp add: foldE_append)
  next
    case (Inr bm1)
    then have "mark_run r (bm, u) = Inr (bm1, u + run_len r)" by (simp add: mark_run_def)
    with Inr show ?thesis by (simp add: foldE_append Cons.IH add.assoc)
  qed
qed auto

lemma block_bitmap_ok:
  assumes "block_bitmap geo rs = Inr (bm, used)"
  shows "distinct (expand_runs rs)" "used = length (expand_runs rs)" "length bm = div_ceil (geo_blocks geo) 8"
    "\<forall>b\<in>set (expand_runs rs). b div 8 < length bm"
    "\<And>b. b div 8 < length bm \<Longrightarrow> bitmap_bit bm b \<longleftrightarrow> b \<in> set (expand_runs rs)"
proof -
  let ?z = "zeros_buf (div_ceil (geo_blocks geo) 8)"
  have m: "foldE mark_block (expand_runs rs) ?z = Inr bm" "used = sum_list (map run_len rs)"
    using assms by (simp_all add: block_bitmap_def foldE_mark_run)
  then show d: "distinct (expand_runs rs)" "used = length (expand_runs rs)"
    by (simp_all add: foldE_mark length_expand_runs)
  have r: "\<forall>b\<in>set (expand_runs rs). b div 8 < length ?z" "bm = fold set_bit_at (expand_runs rs) ?z"
    using m(1) by (simp_all add: foldE_mark)
  note f = fold_set_bits [OF r(1), folded r(2)]
  show l: "length bm = div_ceil (geo_blocks geo) 8" using f by simp
  show "\<forall>b\<in>set (expand_runs rs). b div 8 < length bm" using r(1) l by simp
  show "bitmap_bit bm b \<longleftrightarrow> b \<in> set (expand_runs rs)" if "b div 8 < length bm" for b
    using f that l by simp
qed

end
