(* ===== verification/SealAlloc.thy ===== *)
theory SealAlloc
  imports SealMarks ExtentPlanSpec
begin

text \<open>
  Accounting of the allocations of sealing: what a phase takes and what it leaves free are together
  what was free before, so nothing is handed out twice and nothing reserved is handed out. The group
  metadata comes from an allocator per flex span, the rest from one allocator for the device.
\<close>

section \<open>Taking from an allocator\<close>

definition took :: "allocator \<Rightarrow> nat list \<Rightarrow> allocator \<Rightarrow> bool" where
  "took a bs a' \<longleftrightarrow> alloc_wf a' \<and> alloc_free a = bs @ alloc_free a' \<and>
    al_cursor a \<le> al_cursor a' \<and> (\<forall>b\<in>set bs. b < al_cursor a')"

lemma took_refl: "alloc_wf a \<Longrightarrow> took a [] a"
  by (simp add: took_def)

lemma took_trans: "took a bs a1 \<Longrightarrow> took a1 bs' a2 \<Longrightarrow> took a (bs @ bs') a2"
  by (auto simp: took_def)

lemma skip_reserved_cursor: "al_cursor a \<le> al_cursor (skip_reserved a)"
proof (induction a rule: skip_reserved.induct)
  case (1 a)
  show ?case
    using 1 by (subst skip_reserved.simps) (fastforce simp: Let_def)
qed

lemma alloc_take_loop_cursor:
  assumes m: "0 < m"
  shows "alloc_take_loop m out a n = Some (Some rs, a') \<Longrightarrow> \<forall>b\<in>set (expand_runs out). b < al_cursor a \<Longrightarrow>
    al_cursor a \<le> al_cursor a' \<and> (\<forall>b\<in>set (expand_runs rs). b < al_cursor a')"
proof (induction n arbitrary: a out rule: less_induct)
  case (less n)
  show ?case
  proof (cases "n = 0")
    case True
    then show ?thesis using less.prems by (subst (asm) alloc_take_loop.simps) simp
  next
    case n: False
    define s where "s = skip_reserved a"
    have c: "al_cursor a \<le> al_cursor s" by (simp add: s_def skip_reserved_cursor)
    have out: "\<not> al_end s \<le> al_cursor s"
      using less.prems(1) n by (subst (asm) alloc_take_loop.simps) (auto simp: Let_def s_def)
    define t where "t = min (min n (alloc_limit s - al_cursor s)) m"
    define s' where "s' = s\<lparr>al_cursor := al_cursor s + t\<rparr>"
    let ?out = "out @ [\<lparr>run_start = al_cursor s, run_len = t\<rparr>]"
    have step: "alloc_take_loop m ?out s' (n - t) = Some (Some rs, a')"
      using less.prems(1) n out by (subst (asm) alloc_take_loop.simps) (simp add: Let_def t_def s'_def flip: s_def)
    have "0 < t"
      using out m n skip_reserved_settled [of a]
      by (auto simp: t_def alloc_limit_def alloc_settled_def s_def [symmetric])
    then have "n - t < n" using n by simp
    moreover have "\<forall>b\<in>set (expand_runs ?out). b < al_cursor s'"
      using less.prems(2) c by (auto simp: s'_def)
    ultimately have "al_cursor s' \<le> al_cursor a' \<and> (\<forall>b\<in>set (expand_runs rs). b < al_cursor a')"
      using less.IH [of "n - t" ?out s'] step by blast
    then show ?thesis using c by (simp add: s'_def)
  qed
qed

lemma take_runs_took:
  assumes "alloc_wf a" "0 < m" "take_runs a n m e = Inr (runs, a')"
  shows "took a (expand_runs runs) a'" "\<forall>r\<in>set runs. 0 < run_len r" "length (expand_runs runs) = n"
proof -
  note t = take_runs_ok [OF assms]
  have "alloc_take_loop m [] a n = Some (Some runs, a')"
    using assms(3) by (auto simp: take_runs_def alloc_take_def split: option.splits prod.splits)
  from alloc_take_loop_cursor [OF assms(2) this]
  show "took a (expand_runs runs) a'" using t by (simp add: took_def)
  show "\<forall>r\<in>set runs. 0 < run_len r" "length (expand_runs runs) = n" using t by auto
qed

lemma take_block_took:
  assumes "alloc_wf a" "take_block a = Inr (b, a')"
  shows "took a [b] a'"
proof -
  obtain runs where r: "alloc_take a 1 1 = Some (Some runs, a')" "b = run_start (runs ! 0)"
    using assms(2) by (auto simp: take_block_def alloc_take_one_def split: option.splits prod.splits)
  then have t: "take_runs a 1 1 err_full = Inr (runs, a')" by (simp add: take_runs_def)
  note u = take_units [OF assms(1) t] take_runs_took [OF assms(1) _ t]
  then have "runs = [runs ! 0]" "run_len (runs ! 0) = 1"
    using take_runs_ok [OF assms(1) _ t] by (auto simp: length_Suc_conv)
  then have "expand_runs runs = [b]" using r(2) expand_runs_simps(2) [of "runs ! 0" "[]"] by simp
  then show ?thesis using u by simp
qed

text \<open>A fresh allocator: free is what is inside the device and not reserved.\<close>

lemma alloc_new_ok:
  assumes "alloc_new start fin rs = Inr a"
  shows "runs_disjoint rs" "alloc_wf a" "\<forall>b\<in>set (alloc_free a). start \<le> b \<and> b < fin \<and> \<not> in_runs rs b"
proof -
  let ?a = "\<lparr>al_cursor = start, al_end = fin, al_reserved = rs, al_next = 0\<rparr>"
  show d: "runs_disjoint rs" using assms by (simp add: alloc_new_def split: if_splits)
  then have wf: "alloc_wf ?a" by (simp add: alloc_wf_def)
  have a: "a = skip_reserved ?a" using assms by (simp add: alloc_new_def split: if_splits)
  show "alloc_wf a" using skip_reserved_wf_free [OF wf] a by simp
  have "alloc_free a = alloc_free ?a" using skip_reserved_wf_free [OF wf] a by simp
  then show "\<forall>b\<in>set (alloc_free a). start \<le> b \<and> b < fin \<and> \<not> in_runs rs b"
    by (auto simp: alloc_free_def in_runs_def)
qed

lemma alloc_free_distinct [simp]: "distinct (alloc_free a)"
  by (simp add: alloc_free_def)

section \<open>Runs up to order\<close>

lemma expand_runs_mset: "mset rs = mset rs' \<Longrightarrow> mset (expand_runs rs) = mset (expand_runs rs')"
proof -
  have "mset (expand_runs rs) = sum_mset (image_mset (\<lambda>r. mset [run_start r..<run_start r + run_len r]) (mset rs))" for rs
    by (induction rs) auto
  then show "mset rs = mset rs' \<Longrightarrow> ?thesis" by simp
qed

lemma runs_disjoint_distinct: "runs_disjoint rs \<Longrightarrow> distinct (expand_runs rs)"
proof (induction rs)
  case (Cons r rs)
  have "b \<notin> set (expand_runs rs)" if "b < run_start r + run_len r" for b
    using runs_disjoint_Cons [OF Cons.prems] that by (fastforce simp: expand_runs_def)
  then show ?case using Cons.IH runs_disjoint_tl [OF Cons.prems] by auto
qed simp

lemma sorted_distinct_runs_ok:
  "sorted (map run_start rs) \<Longrightarrow> distinct (expand_runs rs) \<Longrightarrow> \<forall>r\<in>set rs. 0 < run_len r \<Longrightarrow> runs_ok rs"
proof (induction rs)
  case (Cons r rs)
  have "run_start r + run_len r \<le> run_start q" if q: "q \<in> set rs" for q
  proof (rule ccontr)
    assume "\<not> ?thesis"
    then have "run_start q \<in> {run_start r..<run_start r + run_len r}" using Cons.prems(1) q by auto
    moreover have "run_start q \<in> set (expand_runs rs)"
      using q Cons.prems(3) by (auto simp: expand_runs_def)
    ultimately show False using Cons.prems(2) by auto
  qed
  then show ?case using Cons by (simp add: runs_ok_Cons)
qed (simp add: runs_ok_def)

lemma in_expand_runs: "r \<in> set rs \<Longrightarrow> in_run b r \<Longrightarrow> b \<in> set (expand_runs rs)"
  using in_runs_expand [of rs b] by (auto simp: in_runs_def)

lemma ascending_runs_ok:
  "sorted_wrt (<) (expand_runs rs) \<Longrightarrow> \<forall>r\<in>set rs. 0 < run_len r \<Longrightarrow> runs_ok rs"
proof (induction rs)
  case (Cons r rs)
  have "run_start r + run_len r \<le> run_start q" if q: "q \<in> set rs" for q
  proof -
    have "0 < run_len r" "0 < run_len q" using Cons.prems(2) q by simp_all
    then have "run_start r + run_len r - 1 \<in> set [run_start r..<run_start r + run_len r]" by simp
    moreover have "run_start q \<in> set (expand_runs rs)"
      using \<open>0 < run_len q\<close> by (intro in_expand_runs [OF q]) (simp add: in_run_def)
    ultimately have "run_start r + run_len r - 1 < run_start q"
      using Cons.prems(1) unfolding expand_runs_simps sorted_wrt_append by blast
    then show ?thesis by simp
  qed
  moreover have "sorted_wrt (<) (expand_runs rs)"
    using Cons.prems(1) unfolding expand_runs_simps sorted_wrt_append by blast
  then have "runs_ok rs" using Cons.prems(2) by (intro Cons.IH) simp_all
  ultimately show ?case using Cons.prems(2) by (simp add: runs_ok_Cons)
qed (simp add: runs_ok_def)

lemma subset_mset_distinct: "mset xs \<subseteq># mset ys \<Longrightarrow> distinct ys \<Longrightarrow> distinct xs"
proof -
  assume "mset xs \<subseteq># mset ys" "distinct ys"
  then obtain zs where "mset ys = mset (xs @ zs)"
    by (metis mset_subset_eq_exists_conv mset_append ex_mset)
  with \<open>distinct ys\<close> show ?thesis using mset_eq_imp_distinct_iff distinct_append by blast
qed

section \<open>The metadata of the groups\<close>

text \<open>A table that was tried in vain leaves a gap: what is taken need not be the front.\<close>

definition took_some :: "allocator \<Rightarrow> nat list \<Rightarrow> allocator \<Rightarrow> bool" where
  "took_some a bs a' \<longleftrightarrow> alloc_wf a' \<and> mset bs + mset (alloc_free a') \<subseteq># mset (alloc_free a) \<and>
    al_cursor a \<le> al_cursor a' \<and> (\<forall>b\<in>set bs. b < al_cursor a')"

lemma took_some_refl: "alloc_wf a \<Longrightarrow> took_some a [] a"
  by (simp add: took_some_def)

lemma took_some: "took a (ws @ bs) a' \<Longrightarrow> took_some a bs a'"
  by (auto simp: took_def took_some_def intro: subset_mset.order_trans mset_subset_eq_add_right)

lemma took_some_trans:
  assumes "took_some a bs a1" "took_some a1 bs' a2"
  shows "took_some a (bs @ bs') a2"
proof -
  have "mset bs + (mset bs' + mset (alloc_free a2)) \<subseteq># mset bs + mset (alloc_free a1)"
    using assms(2) by (simp add: took_some_def)
  also have "\<dots> \<subseteq># mset (alloc_free a)" using assms(1) by (simp add: took_some_def)
  finally show ?thesis using assms by (fastforce simp: took_some_def add.assoc)
qed

lemma repeatE_took:
  assumes step: "\<And>a x a'. alloc_wf a \<Longrightarrow> f a = Inr (x, a') \<Longrightarrow> took_some a (blks x) a'"
  shows "repeatE f n a = Inr (xs, a') \<Longrightarrow> alloc_wf a \<Longrightarrow> took_some a (concat (map blks xs)) a' \<and> length xs = n"
proof (induction n arbitrary: a xs)
  case (Suc n)
  then obtain x a1 ys where x: "f a = Inr (x, a1)" "repeatE f n a1 = Inr (ys, a')" "xs = x # ys"
    by (auto simp: bindE_eq_Inr split: prod.splits)
  note t = step [OF Suc.prems(2) x(1)]
  then have "took_some a1 (concat (map blks ys)) a' \<and> length ys = n"
    using Suc.IH [OF x(2)] by (simp add: took_some_def)
  then show ?case using took_some_trans [OF t] x(3) by simp
qed (simp add: took_some_refl)

lemma repeatE_blocks:
  "repeatE take_block n a = Inr (bs, a') \<Longrightarrow> alloc_wf a \<Longrightarrow> took a bs a' \<and> length bs = n"
proof (induction n arbitrary: a bs)
  case (Suc n)
  then obtain x a1 ys where x: "take_block a = Inr (x, a1)" "repeatE take_block n a1 = Inr (ys, a')" "bs = x # ys"
    by (auto simp: bindE_eq_Inr split: prod.splits)
  note t = take_block_took [OF Suc.prems(2) x(1)]
  then have "took a1 ys a' \<and> length ys = n" using Suc.IH [OF x(2)] by (simp add: took_def)
  then show ?case using took_trans [OF t, of ys a'] x(3) by simp
qed (simp add: took_refl)

lemma place_itable_took:
  assumes "alloc_wf a" "place_itable itb a = Inr (it, a')"
  shows "took_some a [it..<it + itb] a'"
proof -
  have one: "took_some a [run_start (runs ! 0)..<run_start (runs ! 0) + itb] b"
    if t: "took a (ws @ expand_runs runs) b" "length runs = 1" "length (expand_runs runs) = itb" for a b ws runs
  proof -
    obtain r where r: "runs = [r]" using t(2) by (auto simp: length_Suc_conv)
    then have "run_len r = itb" using t(3) by simp
    with took_some [OF t(1)] r show ?thesis by simp
  qed
  obtain runs a1 where 1: "take_runs a itb U64_MAX err_full = Inr (runs, a1)"
    using assms(2) by (auto simp: place_itable_def bindE_eq_Inr)
  have m: "0 < U64_MAX" by (simp add: U64_MAX_def)
  note t1 = take_runs_took [OF assms(1) m 1]
  show ?thesis
  proof (cases "length runs = 1")
    case True
    then have "it = run_start (runs ! 0)" "a' = a1" using assms(2) 1 by (simp_all add: place_itable_def)
    with one [of a "[]" runs a1] t1 True show ?thesis by simp
  next
    case False
    then obtain runs' where 2: "take_runs a1 itb U64_MAX err_full = Inr (runs', a')" "length runs' = 1"
      "it = run_start (runs' ! 0)"
      using assms(2) 1 by (auto simp: place_itable_def bindE_eq_Inr split: if_splits)
    have "alloc_wf a1" using t1 by (simp add: took_def)
    note t2 = take_runs_took [OF this m 2(1)]
    show ?thesis using one [OF took_trans [OF t1(1) t2(1)] 2(2) t2(3)] 2(3) by simp
  qed
qed

text \<open>The blocks of a group's metadata.\<close>

definition meta_blocks :: "geometry \<Rightarrow> (nat \<times> nat \<times> nat) list \<Rightarrow> nat list" where
  "meta_blocks geo ms = expand_runs (concat (map (group_meta_runs geo) ms))"

lemma meta_blocks_simps [simp]:
  "meta_blocks geo [] = []"
  "meta_blocks geo ((bb, ib, it) # ms) = bb # ib # [it..<it + itable_blocks geo] @ meta_blocks geo ms"
  "meta_blocks geo (ms @ ms') = meta_blocks geo ms @ meta_blocks geo ms'"
  by (simp_all add: meta_blocks_def group_meta_runs_def)

lemma meta_blocks_zip:
  "length bb = length ib \<Longrightarrow> length ib = length it \<Longrightarrow>
   mset (meta_blocks geo (zip bb (zip ib it))) =
     mset bb + mset ib + mset (concat (map (\<lambda>s. [s..<s + itable_blocks geo]) it))"
  by (induction bb ib it rule: list_induct3) simp_all

lemma place_span_ok:
  assumes "place_span geo reserved leader = Inr (ms, fr)" "leader < geo_groups geo" "0 < geo_groups_per_flex geo"
  shows "distinct (meta_blocks geo ms)"
    "\<forall>b\<in>set (meta_blocks geo ms). in_run b fr \<and> b < geo_blocks geo \<and> \<not> in_runs reserved b"
    "length ms = min (leader + geo_groups_per_flex geo) (geo_groups geo) - leader"
proof -
  define n where "n = min (leader + geo_groups_per_flex geo) (geo_groups geo) - leader"
  have n: "0 < n" using assms(2,3) by (simp add: n_def)
  obtain c0 bb c1 ib c2 it c3 where c: "alloc_new (group_start leader) (geo_blocks geo) reserved = Inr c0"
    "repeatE take_block n c0 = Inr (bb, c1)" "repeatE take_block n c1 = Inr (ib, c2)"
    "repeatE (place_itable (itable_blocks geo)) n c2 = Inr (it, c3)" "ms = zip bb (zip ib it)"
    "fr = \<lparr>run_start = max (group_start leader) (bb ! 0), run_len = al_cursor c3 - bb ! 0\<rparr>"
    using assms(1) by (auto simp: place_span_def n_def [symmetric] Let_def bindE_eq_Inr split: prod.splits)
  note new = alloc_new_ok [OF c(1)]
  have bb: "took c0 bb c1" "length bb = n" using repeatE_blocks [OF c(2) new(2)] by auto
  have ib: "took c1 ib c2" "length ib = n" using repeatE_blocks [OF c(3)] bb(1) by (auto simp: took_def)
  have it: "took_some c2 (concat (map (\<lambda>s. [s..<s + itable_blocks geo]) it)) c3" "length it = n"
    using repeatE_took [OF place_itable_took c(4)] ib(1) by (auto simp: took_def)
  have "took c0 (bb @ ib) c2" using took_trans [OF bb(1) ib(1)] .
  then have "took_some c0 ((bb @ ib) @ concat (map (\<lambda>s. [s..<s + itable_blocks geo]) it)) c3"
    using took_some_trans [OF took_some [of c0 "[]" "bb @ ib" c2] it(1)] by simp
  moreover have m: "mset (meta_blocks geo ms) = mset ((bb @ ib) @ concat (map (\<lambda>s. [s..<s + itable_blocks geo]) it))"
    using meta_blocks_zip [of bb ib it geo] bb(2) ib(2) it(2) c(5) by simp
  ultimately have sub: "mset (meta_blocks geo ms) \<subseteq># mset (alloc_free c0)"
    and cur: "\<forall>b\<in>set (meta_blocks geo ms). b < al_cursor c3"
    using mset_eq_setD [OF m] by (auto simp: took_some_def intro: subset_mset.order_trans [OF mset_subset_eq_add_left])
  show "distinct (meta_blocks geo ms)" using subset_mset_distinct [OF sub] by simp
  have "bb ! 0 \<le> b" if "b \<in> set (alloc_free c0)" for b
  proof -
    obtain b0 bs where b0: "bb = b0 # bs" using bb(2) n by (cases bb) auto
    then have "sorted_wrt (<) (b0 # bs @ alloc_free c1)"
      using alloc_free_sorted [of c0] bb(1) by (simp add: took_def)
    then have "\<forall>x\<in>set (b0 # bs @ alloc_free c1). b0 \<le> x" by (auto intro: less_imp_le)
    then show ?thesis using that b0 bb(1) by (auto simp: took_def)
  qed
  moreover have "group_start leader \<le> bb ! 0"
    using new(3) bb n by (auto simp: took_def)
  moreover have "set (meta_blocks geo ms) \<subseteq> set (alloc_free c0)"
    using set_mset_mono [OF sub] by simp
  ultimately show "\<forall>b\<in>set (meta_blocks geo ms). in_run b fr \<and> b < geo_blocks geo \<and> \<not> in_runs reserved b"
    using new(3) cur c(6) by (fastforce simp: in_run_def max_def)
  show "length ms = min (leader + geo_groups_per_flex geo) (geo_groups geo) - leader"
    using c(5) bb(2) ib(2) it(2) by (simp add: n_def)
qed

text \<open>Spans whose runs are apart have their metadata apart.\<close>

lemma spans_distinct:
  assumes "list_all2 (\<lambda>ms r. distinct (meta_blocks geo ms) \<and> (\<forall>b\<in>set (meta_blocks geo ms). in_run b r)) mss rs"
    and "distinct (expand_runs rs)"
  shows "distinct (meta_blocks geo (concat mss)) \<and> (\<forall>b\<in>set (meta_blocks geo (concat mss)). in_runs rs b)"
  using assms
proof (induction mss rs rule: list_all2_induct)
  case (Cons ms mss r rs)
  then have IH: "distinct (meta_blocks geo (concat mss))" "\<forall>b\<in>set (meta_blocks geo (concat mss)). in_runs rs b"
    by auto
  have "\<not> in_runs rs b" if "in_run b r" for b
    using Cons.prems that by (auto simp: in_runs_expand in_run_def)
  then show ?case using Cons.hyps IH by auto
qed simp

lemma in_runs_mset: "mset rs = mset rs' \<Longrightarrow> in_runs rs b = in_runs rs' b"
  by (auto simp: in_runs_def dest: mset_eq_setD)

lemma span_leaders_less:
  assumes "l \<in> set (span_leaders geo)" "0 < geo_groups_per_flex geo"
  shows "l < geo_groups geo"
proof -
  have "l \<in> (\<lambda>k. k * geo_groups_per_flex geo) ` {0..<div_ceil (geo_groups geo) (geo_groups_per_flex geo)}"
    using assms(1) by (simp only: span_leaders_def set_map set_upt)
  then obtain k where k: "l = k * geo_groups_per_flex geo" "k \<in> {0..<div_ceil (geo_groups geo) (geo_groups_per_flex geo)}"
    by (rule imageE)
  then show ?thesis using div_ceil_le_iff [OF assms(2), of "geo_groups geo" k] by simp
qed

text \<open>The fixed metadata: nothing twice, nothing on a superblock or its descriptors, all of it off
  limits for the device's allocator.\<close>

lemma place_groups_ok:
  assumes "place_groups geo = Inr (ms, a)" "0 < geo_groups_per_flex geo" "0 < geo_groups geo"
  shows "distinct (expand_runs (reserved_runs geo) @ meta_blocks geo ms)"
    "\<forall>b\<in>set (meta_blocks geo ms). b < geo_blocks geo" "alloc_wf a"
    "\<forall>b\<in>set (alloc_free a). b < geo_blocks geo \<and> \<not> in_runs (reserved_runs geo) b \<and> b \<notin> set (meta_blocks geo ms)"
proof -
  let ?res = "reserved_runs geo"
  obtain spans where s: "mapE (place_span geo ?res) (span_leaders geo) = Inr spans"
    "alloc_new 0 (geo_blocks geo) (sort_key run_start (?res @ map snd spans)) = Inr a" "ms = concat (map fst spans)"
    using assms(1) by (auto simp: place_groups_def Let_def bindE_eq_Inr)
  have m: "mset (sort_key run_start (?res @ map snd spans)) = mset (?res @ map snd spans)" by simp
  note new = alloc_new_ok [OF s(2)]
  have d: "distinct (expand_runs ?res @ expand_runs (map snd spans))"
    using runs_disjoint_distinct [OF new(1)] mset_eq_imp_distinct_iff [OF expand_runs_mset [OF m]] by simp
  have spans: "list_all2 (\<lambda>ms r. distinct (meta_blocks geo ms) \<and> (\<forall>b\<in>set (meta_blocks geo ms). in_run b r))
      (map fst spans) (map snd spans)"
    and each: "\<forall>s\<in>set spans. \<forall>b\<in>set (meta_blocks geo (fst s)). b < geo_blocks geo \<and> \<not> in_runs ?res b"
  proof -
    have ok: "distinct (meta_blocks geo (fst s)) \<and>
        (\<forall>b\<in>set (meta_blocks geo (fst s)). in_run b (snd s) \<and> b < geo_blocks geo \<and> \<not> in_runs ?res b)"
      if mem: "s \<in> set spans" for s
    proof -
      obtain l where "l < geo_groups geo" "place_span geo ?res l = Inr (fst s, snd s)"
        using mapE_Inr_mem [OF s(1) mem] span_leaders_less [OF _ assms(2)] by auto
      from place_span_ok [OF this(2,1) assms(2)] show ?thesis by blast
    qed
    show "list_all2 (\<lambda>ms r. distinct (meta_blocks geo ms) \<and> (\<forall>b\<in>set (meta_blocks geo ms). in_run b r))
        (map fst spans) (map snd spans)"
      using ok by (auto simp: list_all2_conv_all_nth)
    show "\<forall>s\<in>set spans. \<forall>b\<in>set (meta_blocks geo (fst s)). b < geo_blocks geo \<and> \<not> in_runs ?res b"
      using ok by blast
  qed
  have blocks: "b \<in> set (meta_blocks geo ms) \<longleftrightarrow> (\<exists>s\<in>set spans. b \<in> set (meta_blocks geo (fst s)))" for b
    unfolding s(3) by (induction spans) auto
  note dd = spans_distinct [OF spans] d
  show "\<forall>b\<in>set (meta_blocks geo ms). b < geo_blocks geo" using each blocks by blast
  show "distinct (expand_runs ?res @ meta_blocks geo ms)"
    using dd each blocks s(3) by (auto simp: in_runs_expand)
  show "alloc_wf a" by (rule new(2))
  show "\<forall>b\<in>set (alloc_free a). b < geo_blocks geo \<and> \<not> in_runs ?res b \<and> b \<notin> set (meta_blocks geo ms)"
    using new(3) in_runs_mset [OF m] dd s(3) by auto
qed

end
