(* ===== verification/SealLengths.thy ===== *)
theory SealLengths
  imports SealMarks ExtentPlanSpec
begin

text \<open>
  Every block sealing renders is 4096 bytes long and every inode 256: the lengths of what each
  renderer returns, whenever it returns.
\<close>

text \<open>A fallible update that keeps the length of its buffer.\<close>

definition keeps_length :: "bytes res \<Rightarrow> nat \<Rightarrow> bool" where
  "keeps_length r n \<longleftrightarrow> (\<forall>b. r = Inr b \<longrightarrow> length b = n)"

lemma keeps_length_simps [simp]:
  "keeps_length (Inr b) n \<longleftrightarrow> length b = n" "keeps_length (Inl e) n"
  by (auto simp: keeps_length_def)

lemma keeps_lengthD: "r = Inr b \<Longrightarrow> keeps_length r n \<Longrightarrow> length b = n"
  by (simp add: keeps_length_def)

lemma keeps_length_bind:
  "(\<And>x. m = Inr x \<Longrightarrow> keeps_length (f x) n) \<Longrightarrow> keeps_length (bindE m f) n"
  by (cases m) auto

lemma keeps_length_through:
  "keeps_length m n \<Longrightarrow> (\<And>b. length b = n \<Longrightarrow> keeps_length (f b) k) \<Longrightarrow> keeps_length (bindE m f) k"
  by (cases m) auto

lemma keeps_length_if: "(c \<Longrightarrow> keeps_length a n) \<Longrightarrow> (\<not> c \<Longrightarrow> keeps_length b n) \<Longrightarrow> keeps_length (if c then a else b) n"
  by simp

lemma store_u32_keeps: "length b = n \<Longrightarrow> keeps_length (store_u32 b off v) n"
  by (simp add: store_u32_def)

lemma mapE_lengths:
  "mapE f xs = Inr bs \<Longrightarrow> (\<And>x. x \<in> set xs \<Longrightarrow> keeps_length (f x) n) \<Longrightarrow> \<forall>b\<in>set bs. length b = n"
  by (metis mapE_Inr_mem keeps_lengthD)

section \<open>Directory blocks\<close>

lemma write_record_keeps: "length buf = n \<Longrightarrow> keeps_length (write_record buf off rl e) n"
  by (simp add: write_record_def Let_def split: prod.splits)

lemma write_records_keeps: "length buf = n \<Longrightarrow> keeps_length (write_records buf off recs) n"
proof (induction recs arbitrary: buf off)
  case (Cons x recs)
  obtain e rl where "x = (e, rl)" by fastforce
  then show ?case using Cons
    by (auto simp: Let_def intro!: keeps_length_through [OF write_record_keeps] write_record_keeps)
qed simp

lemma pack_block_keeps: "keeps_length (pack_block blk) 4096"
  using write_records_keeps [of "zeros_buf 4096" 4096 0 blk]
  by (auto simp: pack_block_def Let_def intro!: keeps_length_through)

lemma pack_dirents_lengths: "pack_dirents es = Inr bs \<Longrightarrow> \<forall>b\<in>set bs. length b = 4096"
  unfolding pack_dirents_def by (erule mapE_lengths) (rule pack_block_keeps)

lemma seal_dirent_block_keeps: "length b = 4096 \<Longrightarrow> keeps_length (seal_dirent_block crc seed b) 4096"
  by (auto simp: seal_dirent_block_def intro!: keeps_length_bind store_u32_keeps)

lemma length_put_dx [simp]: "length (put_dx buf off xs) = length buf"
  by (induction buf off xs rule: put_dx.induct) auto

lemma finish_dx_keeps: "length buf = 4096 \<Longrightarrow> keeps_length (finish_dx crc iseed buf co lim xs) 4096"
  by (auto simp: finish_dx_def write_countlimit_entries_def Let_def
      intro!: keeps_length_through [of _ 4096] keeps_length_bind store_u32_keeps)

lemma leaf_block_keeps: "keeps_length (leaf_block crc iseed entries leaf) 4096"
  unfolding leaf_block_def Let_def
  by (rule keeps_length_through [where n = 4096])
    (use write_records_keeps [of "zeros_buf BLOCK_SIZE" 4096] in \<open>auto intro!: keeps_length_bind store_u32_keeps\<close>)

lemma htree_build_lengths:
  assumes "htree_build crc ino pino entries seed fseed = Inr bs"
  shows "\<forall>b\<in>set bs. length b = 4096"
proof -
  obtain leaf_dx levels groups ls ns root xs where b:
    "mapE (leaf_block crc (inode_seed crc fseed ino 0) entries) (pack_leaves entries (hash_entries seed entries)) = Inr ls"
    "(if levels = (1 :: u8) then mapE (node_block crc (inode_seed crc fseed ino 0)) groups else Inr []) = Inr ns"
    "root_block crc (inode_seed crc fseed ino 0) ino pino levels xs = Inr root" "bs = root # ls @ ns"
    using assms by (auto simp: htree_build_def Let_def bindE_eq_Inr split: prod.splits)
  have "length root = 4096"
    using b(3) by (rule keeps_lengthD) (simp add: root_block_def Let_def finish_dx_keeps)
  moreover have "\<forall>b\<in>set ls. length b = 4096" using b(1) by (rule mapE_lengths) (rule leaf_block_keeps)
  moreover have "\<forall>b\<in>set ns. length b = 4096"
    using b(2) mapE_lengths [of "node_block crc (inode_seed crc fseed ino 0)" groups ns 4096]
    by (auto simp: node_block_def Let_def finish_dx_keeps split: if_splits)
  ultimately show ?thesis using b(4) by auto
qed

lemma dir_blocks_lengths:
  assumes "dir_blocks crc ino pino entries seed fseed = Inr bs"
  shows "\<forall>b\<in>set bs. length b = 4096"
proof (cases "needs_htree entries")
  case True
  then show ?thesis using assms htree_build_lengths by (simp add: dir_blocks_def)
next
  case False
  then obtain bs0 where b: "pack_dirents (dot_entries (of_nat ino) (of_nat pino) @ entries) = Inr bs0"
    "mapE (seal_dirent_block crc (inode_seed crc fseed (of_nat ino) 0)) bs0 = Inr bs"
    using assms by (auto simp: dir_blocks_def bindE_eq_Inr)
  show ?thesis using b(2)
    by (rule mapE_lengths) (use pack_dirents_lengths [OF b(1)] in \<open>auto intro: seal_dirent_block_keeps\<close>)
qed

lemma lost_found_blocks_lengths:
  assumes "lost_found_blocks crc fseed = Inr bs"
  shows "\<forall>b\<in>set bs. length b = 4096"
proof -
  obtain dots n empties where b: "pack_dirents (dot_entries (of_nat LOST_FOUND_INO) ROOT_INO) = Inr dots"
    "mapE (\<lambda>_. pack_dirents []) [length dots..<n] = Inr empties"
    "mapE (seal_dirent_block crc (inode_seed crc fseed (of_nat LOST_FOUND_INO) 0)) (dots @ concat empties) = Inr bs"
    using assms by (auto simp: lost_found_blocks_def Let_def bindE_eq_Inr)
  have "\<forall>b\<in>set (dots @ concat empties). length b = 4096"
    using pack_dirents_lengths [OF b(1)] mapE_Inr_mem [OF b(2)] pack_dirents_lengths by fastforce
  then show ?thesis
    using mapE_lengths [OF b(3), of 4096] seal_dirent_block_keeps by blast
qed

section \<open>Attribute blocks\<close>

lemma render_entries_from_length:
  "render_entries_from base region ent cur hs attrs = Inr (r, hs') \<Longrightarrow> length r = length region"
proof (induction base region ent cur hs attrs rule: render_entries_from.induct)
  case (2 base region ent cur hs a attrs)
  then obtain r1 h where r1: "render_entry base region ent (cur - value_bytes a) a = Inr (r1, h)"
    "render_entries_from base r1 (ent + entry_bytes a) (cur - value_bytes a) (hs @ [h]) attrs = Inr (r, hs')"
    "\<not> cur < value_bytes a"
    by (auto simp: Let_def bindE_eq_Inr split: if_splits)
  then have "length r = length r1" using 2 by (auto simp: Let_def)
  moreover have "length r1 = length region"
    using r1(1) by (auto simp: render_entry_def Let_def split: prod.splits if_splits)
  ultimately show ?case by simp
qed simp

lemma xattr_render_block_keeps: "keeps_length (xattr_render_block crc attrs fseed nr) 4096"
  unfolding xattr_render_block_def Let_def render_entries_def
  by (rule keeps_length_bind)
    (auto dest!: render_entries_from_length intro!: keeps_length_bind split: prod.splits)

section \<open>Inodes\<close>

lemma inode_encode_keeps: "length out = 256 \<Longrightarrow> keeps_length (inode_encode i out) 256"
  by (simp add: inode_encode_def)

lemma render_inode_keeps: "keeps_length (render_inode crc fseed ino r) 256"
  unfolding render_inode_def
  by (rule keeps_length_bind, rule keeps_length_through [OF inode_encode_keeps])
    (auto intro!: keeps_length_bind inode_encode_keeps)

lemma render_reserved_inode_keeps: "keeps_length (render_reserved_inode crc fseed ino t) 256"
proof -
  have "keeps_length (case t of None \<Rightarrow> Inr (zeros_buf 256)
      | Some t \<Rightarrow> bindE (encode_timestamp t 0) (\<lambda>(secs, _).
          Inr (put_u32 (put_u32 (put_u32 (zeros_buf 256) 0x08 secs) 0x0C secs) 0x10 secs))) 256"
    by (auto split: option.splits prod.splits intro!: keeps_length_bind)
  then show ?thesis unfolding render_reserved_inode_def
    by (rule keeps_length_through) (auto intro!: keeps_length_bind)
qed

text \<open>The table of inodes keeps its size, and its entries theirs.\<close>

definition inode_table :: "nat \<Rightarrow> bytes list \<Rightarrow> bool" where
  "inode_table n raws \<longleftrightarrow> length raws = n \<and> (\<forall>raw\<in>set raws. length raw = 256)"

lemma set_inode_table:
  "set_inode ino raw raws = Inr raws' \<Longrightarrow> inode_table n raws \<Longrightarrow> length raw = 256 \<Longrightarrow> inode_table n raws'"
  using set_update_subset_insert [of raws "ino - 1" raw]
  by (auto simp: set_inode_def inode_table_def split: if_splits)

lemma put_inode_table:
  "put_inode crc fseed ino r raws = Inr raws' \<Longrightarrow> inode_table n raws \<Longrightarrow> inode_table n raws'"
  using keeps_lengthD [OF _ render_inode_keeps]
  by (fastforce simp: put_inode_def bindE_eq_Inr intro: set_inode_table)

lemma foldE_inv:
  "foldE f xs s = Inr s' \<Longrightarrow> P s \<Longrightarrow> (\<And>x s s'. x \<in> set xs \<Longrightarrow> P s \<Longrightarrow> f x s = Inr s' \<Longrightarrow> P s') \<Longrightarrow> P s'"
proof (induction xs arbitrary: s)
  case (Cons x xs)
  then obtain s1 where "f x s = Inr s1" "foldE f xs s1 = Inr s'" by (auto simp: bindE_eq_Inr)
  then show ?case using Cons.IH [of s1] Cons.prems(2,3) by (metis list.set_intros)
qed simp

lemma seal_inodes_table:
  assumes "seal_inodes crc b geo fseed slot_ino max_ino jp lp ns ds = Inr raws"
  shows "inode_table max_ino raws"
proof -
  have reserved: "inode_table max_ino r'"
    if t: "reserved_inodes crc fseed epoch r = Inr r'" "inode_table max_ino r" for epoch r r'
  proof -
    obtain raw1 r1 where r1: "render_reserved_inode crc fseed 1 (Some epoch) = Inr raw1" "set_inode (Suc 0) raw1 r = Inr r1"
      "foldE (\<lambda>ino raws. bindE (render_reserved_inode crc fseed (of_nat ino) None) (\<lambda>raw. set_inode ino raw raws))
        [3, 4, 5, 6, 7, 9, 10] r1 = Inr r'"
      using t(1) by (auto simp: reserved_inodes_def bindE_eq_Inr simp del: foldE.simps)
    have "inode_table max_ino r1"
      using set_inode_table [OF _ t(2)] r1(2) keeps_lengthD [OF r1(1) render_reserved_inode_keeps] by blast
    with r1(3) show ?thesis
      by (rule foldE_inv) (use keeps_lengthD [OF _ render_reserved_inode_keeps] in
        \<open>fastforce simp: bindE_eq_Inr intro: set_inode_table\<close>)
  qed
  have node: "inode_table max_ino r'"
    if "put_node_inode crc b fseed slot_ino ns ds slot r = Inr r'" "inode_table max_ino r" for slot r r'
    using that by (fastforce simp: put_node_inode_def bindE_eq_Inr split: if_splits option.splits intro: put_inode_table)
  let ?epoch = "opt_epoch (fb_opts b)"
  obtain r1 r2 r3 r4 where r: "reserved_inodes crc fseed ?epoch (replicate max_ino (zeros_buf 256)) = Inr r1"
    "put_inode crc fseed (unat JOURNAL_INO) (journal_render geo ?epoch jp) r1 = Inr r2"
    "put_inode crc fseed LOST_FOUND_INO (lost_found_render ?epoch lp) r2 = Inr r3"
    "foldE (\<lambda>d. put_inode crc fseed (slot_ino ! dp_slot d) (dir_inode_render b slot_ino (ns_xattrs ns) d))
      (ns_dirs ns) r3 = Inr r4"
    "foldE (put_node_inode crc b fseed slot_ino ns ds) [0..<length (fb_nodes b)] r4 = Inr raws"
    using assms by (auto simp: seal_inodes_def Let_def bindE_eq_Inr)
  have "inode_table max_ino (replicate max_ino (zeros_buf 256))" by (auto simp: inode_table_def)
  with r(1) have "inode_table max_ino r1" by (rule reserved)
  with r(2) have "inode_table max_ino r2" by (rule put_inode_table)
  with r(3) have "inode_table max_ino r3" by (rule put_inode_table)
  with r(4) have "inode_table max_ino r4" by (rule foldE_inv) (rule put_inode_table)
  with r(5) show ?thesis by (rule foldE_inv) (rule node)
qed

end
