(* ===== verification/SealAccount.thy ===== *)
theory SealAccount
  imports SealAlloc SealLengths WriterRun
begin

text \<open>
  The phases of sealing that allocate: the blocks each phase takes are accounted for, every pushed
  segment is one block of 4096 bytes, and every rendered directory block has its place.
\<close>

section \<open>The account\<close>

text \<open>\<open>U\<close> has been used so far, out of the initially free list \<open>F\<close>.\<close>

definition account :: "nat list \<Rightarrow> nat multiset \<Rightarrow> allocator \<Rightarrow> bool" where
  "account F U a \<longleftrightarrow> alloc_wf a \<and> U + mset (alloc_free a) \<subseteq># mset F"

lemma account_took: "account F U a \<Longrightarrow> took a bs a' \<Longrightarrow> account F (U + mset bs) a'"
  by (simp add: account_def took_def add.assoc)

definition placed :: "nat list \<Rightarrow> nat multiset \<Rightarrow> 'a seal_state_scheme \<Rightarrow> bool" where
  "placed F U st \<longleftrightarrow> account F (U + mset (map seg_block (st_segments st))) (st_alloc st) \<and> block_segs (st_segments st)"

text \<open>A step that touches the allocator and the segments only.\<close>

definition same_rest :: "'a seal_state_scheme \<Rightarrow> 'a seal_state_scheme \<Rightarrow> bool" where
  "same_rest st st' \<longleftrightarrow> (\<exists>a segs. st' = st\<lparr>st_alloc := a, st_segments := segs\<rparr>)"

lemma same_rest_trans: "same_rest st st1 \<Longrightarrow> same_rest st1 st2 \<Longrightarrow> same_rest st st2"
  unfolding same_rest_def by (elim exE, intro exI) simp

lemma same_rest_alloc: "same_rest st (st\<lparr>st_alloc := a\<rparr>)"
  unfolding same_rest_def by (intro exI [of _ a] exI [of _ "st_segments st"]) simp

lemma placed_alloc:
  "placed F U st \<Longrightarrow> took (st_alloc st) bs a \<Longrightarrow> placed F (U + mset bs) (st\<lparr>st_alloc := a\<rparr>)"
  using account_took [of F "U + mset (map seg_block (st_segments st))" "st_alloc st" bs a]
  by (simp add: placed_def ac_simps)

lemma placed_push:
  "placed F (U + mset (map seg_block segs)) st \<Longrightarrow> block_segs segs \<Longrightarrow> placed F U (st_push segs st)"
  by (auto simp: placed_def st_push_def block_segs_def ac_simps)

lemma same_rest_push: "same_rest st (st_push segs st)"
  unfolding same_rest_def st_push_def by (intro exI [of _ "st_alloc st"] exI) simp

lemma placed_wf: "placed F U st \<Longrightarrow> alloc_wf (st_alloc st)"
  by (simp add: placed_def account_def)

lemma block_segs_seg [simp]: "length bs = 4096 \<Longrightarrow> block_segs [block_seg b bs]"
  by (simp add: block_segs_def block_seg_def)

lemma seg_block_block_seg [simp]:
  "seg_block (block_seg b bs) = b" "seg_blocks (block_seg b bs) = 1" "seg_src (block_seg b bs) = SegBytes bs"
  by (simp_all add: block_seg_def)

section \<open>One allocation\<close>

lemma st_take_placed:
  assumes "placed F U st" "st_take n st = Inr (runs, st')"
  shows "placed F (U + mset (expand_runs runs)) st'" "same_rest st st'"
    "\<forall>r\<in>set runs. 0 < run_len r" "length (expand_runs runs) = n"
proof -
  obtain a where a: "take_runs (st_alloc st) n MAX_EXTENT err_full = Inr (runs, a)" "st' = st\<lparr>st_alloc := a\<rparr>"
    using assms(2) by (auto simp: st_take_def bindE_eq_Inr)
  have m: "0 < MAX_EXTENT" by simp
  note t = take_runs_took [OF placed_wf [OF assms(1)] m a(1)]
  show "placed F (U + mset (expand_runs runs)) st'" "same_rest st st'"
    using placed_alloc [OF assms(1) t(1)] same_rest_alloc a(2) by auto
  show "\<forall>r\<in>set runs. 0 < run_len r" "length (expand_runs runs) = n" using t by auto
qed

lemma st_take_one_placed:
  assumes "placed F U st" "st_take_one st = Inr (b, st')"
  shows "placed F (U + {#b#}) st'" "same_rest st st'"
proof -
  obtain a where a: "take_block (st_alloc st) = Inr (b, a)" "st' = st\<lparr>st_alloc := a\<rparr>"
    using assms(2) by (auto simp: st_take_one_def bindE_eq_Inr)
  show "placed F (U + {#b#}) st'" "same_rest st st'"
    using placed_alloc [OF assms(1) take_block_took [OF placed_wf [OF assms(1)] a(1)]] same_rest_alloc a(2) by auto
qed

lemma st_plan_placed:
  assumes "placed F U st" "st_plan crc pairs ino fseed st = Inr (plan, st')"
  shows "placed F U st'" "same_rest st st'"
proof -
  obtain a segs where p: "plan_extents crc pairs (of_nat ino) fseed (st_alloc st) = Inr (plan, a, segs)"
    "st' = st_push segs (st\<lparr>st_alloc := a\<rparr>)"
    using assms(2) by (auto simp: st_plan_def bindE_eq_Inr)
  note c = plan_extents_cases [OF placed_wf [OF assms(1)] p(1)]
  have "map seg_block segs @ alloc_free a = alloc_free (st_alloc st)" "alloc_wf a" "block_segs segs"
    using c by auto
  then have "mset (alloc_free (st_alloc st)) = mset (map seg_block segs) + mset (alloc_free a)" "alloc_wf a" "block_segs segs"
    by (metis mset_append, auto)
  then have "placed F (U + mset (map seg_block segs)) (st\<lparr>st_alloc := a\<rparr>)"
    using assms(1) by (simp add: placed_def account_def ac_simps)
  then show "placed F U st'" using placed_push \<open>block_segs segs\<close> p(2) by blast
  show "same_rest st st'" using same_rest_trans [OF same_rest_alloc same_rest_push] p(2) by blast
qed

lemma st_dense_placed:
  assumes "placed F U st" "st_dense crc n ino fseed st = Inr ((runs, plan), st')"
  shows "placed F (U + mset (expand_runs runs)) st'" "same_rest st st'"
    "\<forall>r\<in>set runs. 0 < run_len r" "length (expand_runs runs) = n"
proof -
  obtain st1 pairs where s: "st_take n st = Inr (runs, st1)" "st_plan crc pairs ino fseed st1 = Inr (plan, st')"
    using assms(2) by (auto simp: st_dense_def bindE_eq_Inr)
  note t = st_take_placed [OF assms(1) s(1)]
  note p = st_plan_placed [OF t(1) s(2)]
  show "placed F (U + mset (expand_runs runs)) st'" "same_rest st st'" "\<forall>r\<in>set runs. 0 < run_len r"
    "length (expand_runs runs) = n"
    using t p same_rest_trans by auto
qed

section \<open>The namespace\<close>

definition dir_runs :: "dir_plan list \<Rightarrow> run list" where
  "dir_runs dirs = concat (map dp_runs dirs)"

definition names_ok :: "nat list \<Rightarrow> nat multiset \<Rightarrow> nat list \<Rightarrow> names_state \<Rightarrow> bool" where
  "names_ok F U lf st \<longleftrightarrow> placed F (U + mset (expand_runs (dir_runs (ns_dirs st)))) st \<and>
    map fst (ns_rendered st) = lf @ expand_runs (dir_runs (ns_dirs st)) \<and>
    (\<forall>p\<in>set (ns_rendered st). length (snd p) = 4096) \<and> (\<forall>r\<in>set (dir_runs (ns_dirs st)). 0 < run_len r)"

lemma names_ok_step:
  "names_ok F U lf st \<Longrightarrow> same_rest st st' \<Longrightarrow> placed F (U + mset (expand_runs (dir_runs (ns_dirs st)))) st' \<Longrightarrow>
   names_ok F U lf st'"
  by (auto simp: names_ok_def same_rest_def)

lemma names_ok_frame [simp]:
  "names_ok F U lf (st\<lparr>ns_xattrs := x\<rparr>) = names_ok F U lf st"
  "names_ok F U lf (st\<lparr>ns_symlinks := y\<rparr>) = names_ok F U lf st"
  by (simp_all add: names_ok_def placed_def)

lemma seal_xattrs_ok:
  assumes "names_ok F U lf st" "seal_xattrs crc b fseed slot st = Inr st'"
  shows "names_ok F U lf st'"
proof -
  let ?U = "U + mset (expand_runs (dir_runs (ns_dirs st)))"
  have p: "placed F ?U st" using assms(1) by (simp add: names_ok_def)
  have block: "names_ok F U lf (st_push [block_seg block bs] st1)"
    if "st_take_one st = Inr (block, st1)" "xattr_render_block crc attrs fseed nr = Inr bs" for block st1 bs attrs nr
  proof (rule names_ok_step [OF assms(1)])
    note t = st_take_one_placed [OF p that(1)]
    have "length bs = 4096" using that(2) xattr_render_block_keeps by (rule keeps_lengthD)
    then show "placed F ?U (st_push [block_seg block bs] st1)"
      using t(1) by (intro placed_push) simp_all
    show "same_rest st (st_push [block_seg block bs] st1)" using same_rest_trans [OF t(2) same_rest_push] .
  qed
  show ?thesis using assms block
    by (auto simp: seal_xattrs_def bindE_eq_Inr split: option.splits if_splits)
qed

lemma seal_directory_ok:
  assumes "names_ok F U lf st" "seal_directory crc b slot_ino parents fseed slot children st = Inr st'"
  shows "names_ok F U lf st'"
proof -
  let ?U = "U + mset (expand_runs (dir_runs (ns_dirs st)))"
  obtain ino pino entries seed bs runs plan st1 h where d: "dir_blocks crc ino pino entries seed fseed = Inr bs"
    "st_dense crc (length bs) ino fseed st = Inr ((runs, plan), st1)"
    "st' = st1\<lparr>ns_rendered := ns_rendered st1 @ zip (expand_runs runs) bs,
             ns_dirs := ns_dirs st1 @ [\<lparr>dp_slot = slot, dp_runs = runs, dp_plan = plan, dp_nblocks = length bs,
               dp_is_htree = h\<rparr>]\<rparr>"
    using assms(2) by (auto simp: seal_directory_def Let_def bindE_eq_Inr)
  have p: "placed F ?U st" using assms(1) by (simp add: names_ok_def)
  note t = st_dense_placed [OF p d(2)]
  have rest: "ns_dirs st1 = ns_dirs st" "ns_rendered st1 = ns_rendered st" using t(2) by (auto simp: same_rest_def)
  have "\<forall>p\<in>set (zip (expand_runs runs) bs). length (snd p) = 4096"
    using dir_blocks_lengths [OF d(1)] by (auto dest: set_zip_rightD)
  then show ?thesis using assms(1) t(1,3,4) d(3) rest
    by (auto simp: names_ok_def dir_runs_def placed_def add.assoc)
qed

lemma seal_slow_symlink_ok:
  assumes "names_ok F U lf st" "seal_slow_symlink crc ino fseed slot target st = Inr st'"
  shows "names_ok F U lf st'"
proof -
  let ?U = "U + mset (expand_runs (dir_runs (ns_dirs st)))"
  obtain block st1 pairs plan st2 where s: "st_take_one st = Inr (block, st1)"
    "st_plan crc pairs ino fseed (st_push [block_seg block (poke (zeros_buf BLOCK_SIZE) 0 target)] st1) = Inr (plan, st2)"
    "st' = st2\<lparr>ns_symlinks := (ns_symlinks st2)[slot := Some plan]\<rparr>"
    using assms(2) by (auto simp: seal_slow_symlink_def Let_def bindE_eq_Inr)
  have p: "placed F ?U st" using assms(1) by (simp add: names_ok_def)
  note t = st_take_one_placed [OF p s(1)]
  have "placed F ?U (st_push [block_seg block (poke (zeros_buf BLOCK_SIZE) 0 target)] st1)"
    using t(1) by (intro placed_push) simp_all
  note q = st_plan_placed [OF this s(2)]
  have "names_ok F U lf st2"
    using names_ok_step [OF assms(1) same_rest_trans [OF same_rest_trans [OF t(2) same_rest_push] q(2)] q(1)] .
  then show ?thesis using s(3) by simp
qed

lemma seal_slot_ok:
  assumes "names_ok F U lf st" "seal_slot crc b slot_ino parents fseed slot st = Inr st'"
  shows "names_ok F U lf st'"
proof (cases "slot_ino ! slot = 0")
  case False
  then obtain st1 where "seal_xattrs crc b fseed slot st = Inr st1"
    "(case n_kind (fb_nodes b ! slot) of
         node_kind.Dir children _ \<Rightarrow> seal_directory crc b slot_ino parents fseed slot children st1
       | node_kind.Symlink target \<Rightarrow>
           if 59 < length target then seal_slow_symlink crc (slot_ino ! slot) fseed slot target st1 else Inr st1
       | _ \<Rightarrow> Inr st1) = Inr st'"
    using assms(2) by (auto simp: seal_slot_def Let_def bindE_eq_Inr)
  note s = this
  have ok: "names_ok F U lf st1" using assms(1) s(1) by (rule seal_xattrs_ok)
  from s(2) consider (dir) children where "seal_directory crc b slot_ino parents fseed slot children st1 = Inr st'"
    | (link) target where "seal_slow_symlink crc (slot_ino ! slot) fseed slot target st1 = Inr st'"
    | (skip) "st1 = st'"
    by (simp split: node_kind.splits if_splits)
  then show ?thesis
  proof cases
    case dir
    with ok show ?thesis by (rule seal_directory_ok)
  next
    case link
    with ok show ?thesis by (rule seal_slow_symlink_ok)
  qed (use ok in simp)
qed (use assms in \<open>simp add: seal_slot_def\<close>)

section \<open>File data\<close>

lemma foldE_upt_inv:
  assumes "foldE f [0..<n] s = Inr s'" "P 0 s"
    and step: "\<And>k s s'. k < n \<Longrightarrow> P k s \<Longrightarrow> f k s = Inr s' \<Longrightarrow> P (Suc k) s'"
  shows "P n s'"
proof -
  have "P m s'" if "m \<le> n" "foldE f [0..<m] s = Inr s'" for m s'
    using that
  proof (induction m arbitrary: s')
    case (Suc m)
    then obtain s1 where "foldE f [0..<m] s = Inr s1" "f m s1 = Inr s'"
      by (auto simp: foldE_append bindE_eq_Inr)
    then show ?case using Suc step [of m s1 s'] by simp
  qed (use assms(2) in simp)
  then show ?thesis using assms(1) by simp
qed

text \<open>Every data segment but the last is a whole number of blocks.\<close>

fun segs_aligned :: "(nat \<times> nat) list \<Rightarrow> bool" where
  "segs_aligned (x # y # xs) \<longleftrightarrow> snd x mod BLOCK_SIZE = 0 \<and> segs_aligned (y # xs)"
| "segs_aligned _ \<longleftrightarrow> True"

definition kind_aligned :: "node_kind \<Rightarrow> bool" where
  "kind_aligned k \<longleftrightarrow> (case k of Sparse segs _ \<Rightarrow> segs_aligned segs | _ \<Rightarrow> True)"

lemma data_segs_aligned: "kind_aligned k \<Longrightarrow> data_segs_of k = Some segs \<Longrightarrow> segs_aligned segs"
  by (auto simp: data_segs_of_def kind_aligned_def split: node_kind.splits if_splits)

lemma whole_blocks: "n mod BLOCK_SIZE = 0 \<Longrightarrow> n = div_ceil n BLOCK_SIZE * BLOCK_SIZE"
  by (auto simp: div_ceil_def elim!: dvdE)

text \<open>One file: its runs come in ascending order and just hold its declared bytes.\<close>

lemma seal_data_segs_ok:
  assumes "foldE seal_data_seg segs ([], [], 0, st) = Inr (pairs, runs, sz, st')" "placed F U st" "segs_aligned segs"
  shows "placed F (U + mset (expand_runs runs)) st'" "same_rest st st'" "file_runs_ok runs sz"
proof -
  let ?n = "\<lambda>segs. sum_list (map (\<lambda>s. div_ceil (snd s) BLOCK_SIZE) segs)"
  have gen: "\<exists>bs new. runs = rs0 @ new \<and> expand_runs new = bs \<and> placed F (U + mset bs) st' \<and> same_rest st st' \<and>
      (\<forall>r\<in>set new. 0 < run_len r) \<and> took (st_alloc st) bs (st_alloc st') \<and> length bs = ?n segs \<and>
      sz = n0 + sum_list (map snd segs)"
    if "foldE seal_data_seg segs (ps0, rs0, n0, st) = Inr (pairs, runs, sz, st')" "placed F U st" for ps0 rs0 n0 st U
    using that
  proof (induction segs arbitrary: ps0 rs0 n0 st U)
    case Nil
    then show ?case using same_rest_alloc [of st "st_alloc st"]
      by (intro exI [of _ "[]"]) (auto intro: took_refl placed_wf)
  next
    case (Cons s segs)
    obtain seg_runs st1 ps where t: "st_take (div_ceil (snd s) BLOCK_SIZE) st = Inr (seg_runs, st1)"
      "foldE seal_data_seg segs (ps0 @ ps, rs0 @ seg_runs, n0 + snd s, st1) = Inr (pairs, runs, sz, st')"
      using Cons.prems(1) by (cases s) (auto simp: seal_data_seg_def bindE_eq_Inr)
    note p = st_take_placed [OF Cons.prems(2) t(1)]
    have "took (st_alloc st) (expand_runs seg_runs) (st_alloc st1)"
      using t(1) take_runs_took(1) [OF placed_wf [OF Cons.prems(2)], of MAX_EXTENT]
      by (auto simp: st_take_def bindE_eq_Inr)
    moreover obtain new where new: "runs = (rs0 @ seg_runs) @ new"
      "placed F (U + mset (expand_runs seg_runs) + mset (expand_runs new)) st'"
      "same_rest st1 st'" "\<forall>r\<in>set new. 0 < run_len r" "took (st_alloc st1) (expand_runs new) (st_alloc st')"
      "length (expand_runs new) = ?n segs" "sz = n0 + snd s + sum_list (map snd segs)"
      using Cons.IH [OF t(2) p(1)] by blast
    ultimately show ?case using p same_rest_trans [OF p(2) new(3)] took_trans [OF _ new(5)]
      by (intro exI [of _ "expand_runs (seg_runs @ new)"] exI [of _ "seg_runs @ new"]) (auto simp: add.assoc)
  qed
  obtain bs where b: "expand_runs runs = bs" "placed F (U + mset bs) st'" "same_rest st st'"
    "\<forall>r\<in>set runs. 0 < run_len r" "took (st_alloc st) bs (st_alloc st')" "length bs = ?n segs"
    "sz = sum_list (map snd segs)"
    using gen [OF assms(1,2)] by auto
  show "placed F (U + mset (expand_runs runs)) st'" "same_rest st st'" using b by auto
  have "sorted_wrt (<) (expand_runs runs)"
    using alloc_free_sorted [of "st_alloc st"] b(1,5) by (simp add: took_def sorted_wrt_append)
  then have ok: "runs_ok runs" using b(4) by (rule ascending_runs_ok)
  have sums: "sum_list (map snd segs) \<le> ?n segs * BLOCK_SIZE \<and>
      ?n segs * BLOCK_SIZE < sum_list (map snd segs) + BLOCK_SIZE"
    using assms(3)
  proof (induction segs rule: segs_aligned.induct, goal_cases)
    case (1 x y xs)
    have "snd x = div_ceil (snd x) BLOCK_SIZE * BLOCK_SIZE"
      using 1(2) by (intro whole_blocks) simp
    then show ?case using 1 by (simp add: algebra_simps)
  next
    case (3 x)
    then show ?case using div_ceil_bounds [of BLOCK_SIZE "snd x"] by simp
  qed simp
  show "file_runs_ok runs sz"
    using ok sums b(1,6,7) length_expand_runs [of runs] by (simp add: file_runs_ok_def)
qed

end
