(* ===== verification/SealPlaced.thy ===== *)
theory SealPlaced
  imports SealAccount
begin

text \<open>
  The whole placement: every block in use is used once and lies on the device, the data runs are the
  runs of the files, and each file's runs hold its declared bytes.
\<close>

section \<open>The data phase\<close>

definition data_ok :: "nat list \<Rightarrow> nat multiset \<Rightarrow> nat \<Rightarrow> nat list \<Rightarrow> nat \<Rightarrow> data_state \<Rightarrow> bool" where
  "data_ok F U n slot_ino k st \<longleftrightarrow> placed F (U + mset (expand_runs (ds_data_runs st))) st \<and>
    length (ds_file_runs st) = n \<and> ds_data_runs st = concat (map fst (ds_file_runs st)) \<and>
    (\<forall>j<n. k \<le> j \<longrightarrow> ds_file_runs st ! j = ([], 0)) \<and>
    (\<forall>f<n. file_runs_ok (fst (ds_file_runs st ! f)) (snd (ds_file_runs st ! f)) \<and>
       (slot_ino ! f = 0 \<longrightarrow> fst (ds_file_runs st ! f) = []))"

lemma data_ok_positive:
  assumes "data_ok F U n slot_ino k st"
  shows "\<forall>r\<in>set (ds_data_runs st). 0 < run_len r"
proof
  fix r assume "r \<in> set (ds_data_runs st)"
  then obtain i where i: "i < n" "r \<in> set (fst (ds_file_runs st ! i))"
    using assms by (auto simp: data_ok_def in_set_conv_nth [of _ "ds_file_runs st"])
  then have "file_runs_ok (fst (ds_file_runs st ! i)) (snd (ds_file_runs st ! i))"
    using assms by (simp add: data_ok_def)
  then show "0 < run_len r" using i(2) by (simp add: file_runs_ok_def runs_ok_def)
qed

lemma concat_update_last:
  assumes "k < length xs" "\<forall>j<length xs. k \<le> j \<longrightarrow> xs ! j = ([], z)"
  shows "concat (map fst (xs[k := (rs, n)])) = concat (map fst xs) @ rs"
proof -
  have z: "concat (map fst (drop (Suc k) xs)) = []"
    using assms(2) by (auto simp: in_set_conv_nth)
  have "concat (map fst xs) = concat (map fst (take k xs)) @ fst (xs ! k) @ concat (map fst (drop (Suc k) xs))"
    by (metis id_take_nth_drop [OF assms(1)] concat.simps(2) concat_append list.simps(9) map_append)
  then show ?thesis using assms z by (simp add: upd_conv_take_nth_drop)
qed

lemma file_runs_ok_none: "file_runs_ok [] 0"
  by (simp add: file_runs_ok_def runs_ok_def)

lemma seal_file_ok:
  assumes "data_ok F U n slot_ino k st" "k < n" "kind_aligned (n_kind (fb_nodes b ! k))"
    and "seal_file crc b slot_ino fseed k st = Inr st'"
  shows "data_ok F U n slot_ino (Suc k) st'"
proof -
  let ?U = "U + mset (expand_runs (ds_data_runs st))"
  have skip: "data_ok F U n slot_ino (Suc k) st" using assms(1) by (auto simp: data_ok_def)
  show ?thesis
  proof (cases "slot_ino ! k = 0 \<or> data_segs_of (n_kind (fb_nodes b ! k)) = None")
    case True
    then show ?thesis using skip assms(4) by (auto simp: seal_file_def Let_def split: if_splits)
  next
    case False
    then obtain segs pairs runs sz st1 plan st2 where s: "data_segs_of (n_kind (fb_nodes b ! k)) = Some segs"
      "foldE seal_data_seg segs ([], [], 0, st) = Inr (pairs, runs, sz, st1)"
      "st_plan crc pairs (slot_ino ! k) fseed st1 = Inr (plan, st2)"
      "st' = st2\<lparr>ds_data_runs := ds_data_runs st2 @ runs, ds_file_runs := (ds_file_runs st2)[k := (runs, sz)],
        ds_file_plans := (ds_file_plans st2)[k := Some (plan, sum_list (map run_len runs))]\<rparr>"
      using assms(4) by (auto simp: seal_file_def Let_def bindE_eq_Inr)
    have p: "placed F ?U st" using assms(1) unfolding data_ok_def by blast
    note d = seal_data_segs_ok [OF s(2) p data_segs_aligned [OF assms(3) s(1)]]
    note q = st_plan_placed [OF d(1) s(3)]
    have r: "ds_data_runs st2 = ds_data_runs st" "ds_file_runs st2 = ds_file_runs st"
      using same_rest_trans [OF d(2) q(2)] by (auto simp: same_rest_def)
    have len: "length (ds_file_runs st) = n" and z: "\<forall>j<n. k \<le> j \<longrightarrow> ds_file_runs st ! j = ([], 0)"
      and c: "ds_data_runs st = concat (map fst (ds_file_runs st))"
      using assms(1) by (simp_all add: data_ok_def)
    have "concat (map fst ((ds_file_runs st)[k := (runs, sz)])) = ds_data_runs st @ runs"
      unfolding c by (rule concat_update_last) (use assms(2) len z in auto)
    moreover have "placed F (U + mset (expand_runs (ds_data_runs st @ runs))) st2"
      using q(1) by (simp add: add.assoc)
    ultimately show ?thesis
      using assms(1,2) d(3) s(4) r len False by (auto simp: data_ok_def placed_def nth_list_update)
  qed
qed

section \<open>Everything\<close>

text \<open>The blocks of a placement: reserved, group metadata, journal, lost+found, directories, file
  data, pushed segments.\<close>

definition used_list :: "geometry \<Rightarrow> placement \<Rightarrow> nat list" where
  "used_list geo pl = expand_runs (used_runs geo (pl_group_meta pl) (fst (pl_journal pl)) (fst (pl_lost_found pl))
    (ns_dirs (pl_names pl)) (ds_data_runs (pl_data pl)) (st_segments (pl_data pl)))"

definition aligned :: "fs_builder \<Rightarrow> bool" where
  "aligned b \<longleftrightarrow> (\<forall>n\<in>set (fb_nodes b). kind_aligned (n_kind n))"

text \<open>The superblock copies and their descriptors lie on the device.\<close>

definition backups_fit :: "geometry \<Rightarrow> bool" where
  "backups_fit geo \<longleftrightarrow> (\<forall>g\<in>set (backup_groups geo). group_start g + 1 + geo_gdt_blocks geo \<le> geo_blocks geo)"

text \<open>Only the last group can be too short for its backup.\<close>

lemma backups_fit_last:
  assumes "geometry_wf geo"
  defines "l \<equiv> geo_groups geo - 1"
  shows "backups_fit geo \<longleftrightarrow> \<not> (l \<in> set (backup_groups geo) \<and> group_blocks geo l < 1 + geo_gdt_blocks geo)"
proof -
  have w: "1 \<le> geo_groups geo" "geo_gdt_blocks geo \<le> 1024" "l < geo_groups geo"
    using assms geometry_bounds(3) [OF assms(1)] by (simp_all add: geometry_wf_def)
  have room: "group_start g + group_blocks geo g \<le> geo_blocks geo" if "g < geo_groups geo" for g
    using blocks_in_group_eq [OF assms(1) that] assms(1) that
    by (auto simp: blocks_in_group_def split: if_splits)
  have full: "group_start g + 1 + geo_gdt_blocks geo \<le> geo_blocks geo" if "g < geo_groups geo" "g \<noteq> l" for g
    using room [OF that(1)] blocks_in_group_eq(1) [OF assms(1) that(1)] that w by (simp add: l_def split: if_splits)
  have last: "group_start l + 1 + geo_gdt_blocks geo \<le> geo_blocks geo \<longleftrightarrow> \<not> group_blocks geo l < 1 + geo_gdt_blocks geo"
    using blocks_in_group_eq [OF assms(1) w(3)] w by (simp add: l_def) arith
  show ?thesis
    using full last by (auto simp: backups_fit_def backup_groups_set)
qed

lemma expand_block_segs:
  "block_segs segs \<Longrightarrow> expand_runs (map (\<lambda>s. \<lparr>run_start = seg_block s, run_len = seg_blocks s\<rparr>) segs) = map seg_block segs"
  by (induction segs) (auto simp: block_segs_def)

lemma lost_found_blocks_many:
  assumes "lost_found_blocks crc fseed = Inr bs"
  shows "4 \<le> length bs"
proof -
  obtain dots empties where b: "mapE (\<lambda>_. pack_dirents []) [length dots..<LOST_FOUND_BLOCKS] = Inr empties"
    "mapE (seal_dirent_block crc (inode_seed crc fseed (of_nat LOST_FOUND_INO) 0)) (dots @ concat empties) = Inr bs"
    using assms by (auto simp: lost_found_blocks_def Let_def bindE_eq_Inr)
  have "\<forall>e\<in>set empties. 1 \<le> length e"
    using mapE_Inr_mem [OF b(1)] by (fastforce simp: pack_dirents_def pack_groups_def bindE_eq_Inr)
  then have "length empties \<le> length (concat empties)"
    by (induction empties) auto
  then show ?thesis using mapE_length [OF b(1)] mapE_length [OF b(2)] by simp
qed

lemma mset_reserved:
  "mset (expand_runs (reserved_runs geo)) =
   mset (expand_runs (\<lparr>run_start = 0, run_len = 1 + geo_gdt_blocks geo\<rparr> #
     map (\<lambda>g. \<lparr>run_start = group_start g, run_len = 1 + geo_gdt_blocks geo\<rparr>) (backup_groups geo)))"
  unfolding reserved_runs_def by (rule expand_runs_mset) simp

text \<open>The phases one after the other, with what holds between them.\<close>

definition names_start :: "fs_builder \<Rightarrow> run list \<Rightarrow> bytes list \<Rightarrow> seal_state \<Rightarrow> names_state" where
  "names_start b lf_runs lfb st =
    \<lparr>st_alloc = st_alloc st, st_segments = st_segments st, ns_dirs = [],
     ns_rendered = zip (expand_runs lf_runs) lfb, ns_xattrs = replicate (length (fb_nodes b)) (0, []),
     ns_symlinks = replicate (length (fb_nodes b)) None\<rparr>"

definition data_start :: "fs_builder \<Rightarrow> names_state \<Rightarrow> data_state" where
  "data_start b ns =
    \<lparr>st_alloc = st_alloc ns, st_segments = st_segments ns, ds_file_runs = replicate (length (fb_nodes b)) ([], 0),
     ds_file_plans = replicate (length (fb_nodes b)) None, ds_data_runs = []\<rparr>"

lemma place_all_phases:
  assumes "place_all crc b geo fseed slot_ino = Inr pl" "geometry_wf geo"
  obtains a st2 lfb parents where
    "place_groups geo = Inr (pl_group_meta pl, a)" "parent_map b slot_ino = Inr parents"
    "lost_found_blocks crc fseed = Inr lfb"
    "foldE (seal_slot crc b slot_ino parents fseed) [0..<length (fb_nodes b)]
       (names_start b (fst (pl_lost_found pl)) lfb st2) = Inr (pl_names pl)"
    "foldE (seal_file crc b slot_ino fseed) [0..<length (fb_nodes b)] (data_start b (pl_names pl)) = Inr (pl_data pl)"
    "names_ok (alloc_free a) (mset (expand_runs (fst (pl_journal pl))) + mset (expand_runs (fst (pl_lost_found pl))))
       (expand_runs (fst (pl_lost_found pl))) (names_start b (fst (pl_lost_found pl)) lfb st2)"
    "names_ok (alloc_free a) (mset (expand_runs (fst (pl_journal pl))) + mset (expand_runs (fst (pl_lost_found pl))))
       (expand_runs (fst (pl_lost_found pl))) (pl_names pl)"
    "data_ok (alloc_free a) (mset (expand_runs (fst (pl_journal pl))) + mset (expand_runs (fst (pl_lost_found pl))) +
       mset (expand_runs (dir_runs (ns_dirs (pl_names pl))))) (length (fb_nodes b)) slot_ino 0 (data_start b (pl_names pl))"
    "\<forall>r\<in>set (fst (pl_journal pl)). 0 < run_len r" "length (expand_runs (fst (pl_journal pl))) = geo_journal_blocks geo"
proof -
  let ?n = "length (fb_nodes b)"
  obtain ms a journal st1 lf st2 lfb parents ns ds where p: "place_groups geo = Inr (ms, a)"
    "st_dense crc (geo_journal_blocks geo) (unat JOURNAL_INO) fseed \<lparr>st_alloc = a, st_segments = []\<rparr> = Inr (journal, st1)"
    "st_dense crc LOST_FOUND_BLOCKS LOST_FOUND_INO fseed st1 = Inr (lf, st2)"
    "lost_found_blocks crc fseed = Inr lfb" "parent_map b slot_ino = Inr parents"
    "foldE (seal_slot crc b slot_ino parents fseed) [0..<?n] (names_start b (fst lf) lfb st2) = Inr ns"
    "foldE (seal_file crc b slot_ino fseed) [0..<?n] (data_start b ns) = Inr ds"
    "pl = \<lparr>pl_group_meta = ms, pl_journal = journal, pl_lost_found = lf, pl_names = ns, pl_data = ds\<rparr>"
    using assms(1) by (auto simp: place_all_def names_start_def data_start_def Let_def bindE_eq_Inr)
  have flex: "0 < geo_groups_per_flex geo" "0 < geo_groups geo" using assms(2) by (auto simp: geometry_wf_def)
  note g = place_groups_ok [OF p(1) flex]
  let ?F = "alloc_free a" and ?J = "mset (expand_runs (fst journal))" and ?L = "mset (expand_runs (fst lf))"
  have 0: "placed ?F {#} \<lparr>st_alloc = a, st_segments = []\<rparr>"
    using g(3) by (simp add: placed_def account_def block_segs_def)
  obtain jr jp lr lp where pairs: "journal = (jr, jp)" "lf = (lr, lp)" by fastforce
  note j = st_dense_placed [OF 0 p(2) [unfolded pairs]]
  note l = st_dense_placed [OF j(1) p(3) [unfolded pairs]]
  have start: "names_ok ?F (?J + ?L) (expand_runs (fst lf)) (names_start b (fst lf) lfb st2)"
    using l(1,4) pairs lost_found_blocks_lengths [OF p(4)] lost_found_blocks_many [OF p(4)]
    by (auto simp: names_start_def names_ok_def dir_runs_def placed_def map_fst_zip_take dest: set_zip_rightD)
  with p(6) have names: "names_ok ?F (?J + ?L) (expand_runs (fst lf)) ns"
    by (rule foldE_inv) (rule seal_slot_ok)
  have data: "data_ok ?F (?J + ?L + mset (expand_runs (dir_runs (ns_dirs ns)))) ?n slot_ino 0 (data_start b ns)"
    using names by (auto simp: data_start_def names_ok_def data_ok_def placed_def file_runs_ok_none)
  show thesis
    by (rule that [of a parents lfb st2]) (use p start names data j(3,4) pairs in simp_all)
qed

lemma place_all_ok:
  assumes "place_all crc b geo fseed slot_ino = Inr pl" "geometry_wf geo" "aligned b" "length slot_ino = length (fb_nodes b)"
  shows "distinct (used_list geo pl)"
    "backups_fit geo \<Longrightarrow> \<forall>b\<in>set (used_list geo pl). b < geo_blocks geo"
    "block_segs (st_segments (pl_data pl))"
    "map fst (ns_rendered (pl_names pl)) = expand_runs (fst (pl_lost_found pl) @ dir_runs (ns_dirs (pl_names pl)))"
    "\<forall>p\<in>set (ns_rendered (pl_names pl)). length (snd p) = 4096"
    "\<forall>r\<in>set (fst (pl_journal pl)) \<union> set (ds_data_runs (pl_data pl)). 0 < run_len r"
    "length (expand_runs (fst (pl_journal pl))) = geo_journal_blocks geo"
    "\<exists>F U. data_ok F U (length (fb_nodes b)) slot_ino (length (fb_nodes b)) (pl_data pl)"
proof -
  let ?n = "length (fb_nodes b)"
  obtain a st2 lfb parents where p: "place_groups geo = Inr (pl_group_meta pl, a)"
    "foldE (seal_file crc b slot_ino fseed) [0..<?n] (data_start b (pl_names pl)) = Inr (pl_data pl)"
    "names_ok (alloc_free a) (mset (expand_runs (fst (pl_journal pl))) + mset (expand_runs (fst (pl_lost_found pl))))
       (expand_runs (fst (pl_lost_found pl))) (pl_names pl)"
    "data_ok (alloc_free a) (mset (expand_runs (fst (pl_journal pl))) + mset (expand_runs (fst (pl_lost_found pl))) +
       mset (expand_runs (dir_runs (ns_dirs (pl_names pl))))) ?n slot_ino 0 (data_start b (pl_names pl))"
    "\<forall>r\<in>set (fst (pl_journal pl)). 0 < run_len r" "length (expand_runs (fst (pl_journal pl))) = geo_journal_blocks geo"
    using assms(1,2) by (rule place_all_phases)
  have flex: "0 < geo_groups_per_flex geo" "0 < geo_groups geo" using assms(2) by (auto simp: geometry_wf_def)
  note g = place_groups_ok [OF p(1) flex]
  let ?F = "alloc_free a" and ?J = "mset (expand_runs (fst (pl_journal pl)))"
    and ?L = "mset (expand_runs (fst (pl_lost_found pl)))" and ?ns = "pl_names pl" and ?ds = "pl_data pl"
  let ?D = "mset (expand_runs (dir_runs (ns_dirs ?ns)))"
  have data: "data_ok ?F (?J + ?L + ?D) ?n slot_ino ?n ?ds"
    using p(2,4) by (rule foldE_upt_inv) (use assms(3) in \<open>auto simp: aligned_def intro: seal_file_ok\<close>)
  let ?dyn = "expand_runs (fst (pl_journal pl)) @ expand_runs (fst (pl_lost_found pl)) @
    expand_runs (dir_runs (ns_dirs ?ns)) @ expand_runs (ds_data_runs ?ds) @ map seg_block (st_segments ?ds)"
  have sub: "mset ?dyn \<subseteq># mset ?F" and segs: "block_segs (st_segments ?ds)"
  proof -
    have "placed ?F (?J + ?L + ?D + mset (expand_runs (ds_data_runs ?ds))) ?ds"
      using data unfolding data_ok_def by blast
    then have "mset ?dyn + mset (alloc_free (st_alloc ?ds)) \<subseteq># mset ?F"
      by (simp add: placed_def account_def ac_simps)
    then show "mset ?dyn \<subseteq># mset ?F" by (rule subset_mset.order_trans [OF mset_subset_eq_add_left])
    show "block_segs (st_segments ?ds)" using data by (simp add: data_ok_def placed_def)
  qed
  have used: "mset (used_list geo pl) = mset ((expand_runs (reserved_runs geo) @ meta_blocks geo (pl_group_meta pl)) @ ?dyn)"
    using expand_block_segs [OF segs] mset_reserved [of geo]
    by (simp add: used_list_def used_runs_def meta_blocks_def dir_runs_def)
  have dyn: "distinct ?dyn" "set ?dyn \<subseteq> set ?F"
    using subset_mset_distinct [OF sub] set_mset_mono [OF sub] by simp_all
  have "set ?dyn \<inter> set (expand_runs (reserved_runs geo) @ meta_blocks geo (pl_group_meta pl)) = {}"
    using dyn(2) g(4) by (auto simp: in_runs_expand)
  then show "distinct (used_list geo pl)"
    unfolding mset_eq_imp_distinct_iff [OF used] distinct_append [of _ ?dyn] using g(1) dyn(1) by blast
  show "\<forall>b\<in>set (used_list geo pl). b < geo_blocks geo" if "backups_fit geo"
  proof -
    have "1 + geo_gdt_blocks geo \<le> geo_blocks geo"
      using geometry_bounds(3) [OF assms(2)] assms(2) by (simp add: geometry_wf_def)
    then have "\<forall>b\<in>set (expand_runs (reserved_runs geo)). b < geo_blocks geo"
      using that mset_eq_setD [OF mset_reserved [of geo]] by (fastforce simp: backups_fit_def expand_runs_def)
    then show ?thesis using mset_eq_setD [OF used] g(2,4) dyn(2) by auto
  qed
  show "block_segs (st_segments (pl_data pl))" using segs .
  show "map fst (ns_rendered (pl_names pl)) = expand_runs (fst (pl_lost_found pl) @ dir_runs (ns_dirs (pl_names pl)))"
    "\<forall>p\<in>set (ns_rendered (pl_names pl)). length (snd p) = 4096"
    using p(3) by (simp_all add: names_ok_def)
  show "length (expand_runs (fst (pl_journal pl))) = geo_journal_blocks geo" by (rule p(6))
  show "\<forall>r\<in>set (fst (pl_journal pl)) \<union> set (ds_data_runs (pl_data pl)). 0 < run_len r"
    using p(5) data_ok_positive [OF data] by auto
  show "\<exists>F U. data_ok F U ?n slot_ino ?n (pl_data pl)" using data by auto
qed

end
