(* ===== verification/BuilderKinds.thy ===== *)
theory BuilderKinds
  imports BuilderSpec
begin

text \<open>
  What a node can be: the typing of node kinds, and that every call of the builder keeps it. A call
  declares one node, turns a directory into a directory, or leaves kinds alone; so any property of
  kinds that directories have is kept by every call that declares no other kind, and by a
  declaration whose kind has it.
\<close>

section \<open>Properties of kinds\<close>

definition kinds_all :: "(node_kind \<Rightarrow> bool) \<Rightarrow> fs_builder \<Rightarrow> bool" where
  "kinds_all P b \<longleftrightarrow> (\<forall>n\<in>set (fb_nodes b). P (n_kind n))"

definition keeps_kinds :: "(node_kind \<Rightarrow> bool) \<Rightarrow> (fs_builder, 'a) call \<Rightarrow> bool" where
  "keeps_kinds P f \<longleftrightarrow> (\<forall>b. kinds_all P b \<longrightarrow> kinds_all P (snd (f b)))"

lemma keeps_kindsD: "keeps_kinds P f \<Longrightarrow> kinds_all P b \<Longrightarrow> f b = (r, b') \<Longrightarrow> kinds_all P b'"
  by (metis keeps_kinds_def snd_conv)

lemma keeps_bind:
  assumes "keeps_kinds P f" "\<And>x. keeps_kinds P (g x)"
  shows "keeps_kinds P (bindS f g)"
  unfolding keeps_kinds_def
proof (intro allI impI)
  fix b assume b: "kinds_all P b"
  obtain r b1 where f: "f b = (r, b1)" by (cases "f b")
  have "kinds_all P b1" using keeps_kindsD [OF assms(1) b f] .
  then show "kinds_all P (snd (bindS f g b))"
    using assms(2) f by (cases r) (auto simp: bindS_def keeps_kinds_def)
qed

lemma keeps_simps [simp]:
  "keeps_kinds P (returnS x)" "keeps_kinds P (failS e)" "keeps_kinds P (readS r)"
  by (simp_all add: keeps_kinds_def returnS_def failS_def readS_def)

lemma keeps_modify: "(\<And>b. kinds_all P b \<Longrightarrow> kinds_all P (h b)) \<Longrightarrow> keeps_kinds P (modifyS h)"
  by (simp add: keeps_kinds_def modifyS_def)

lemma keeps_ignore: "keeps_kinds P f \<Longrightarrow> keeps_kinds P (ignoreS f)"
  by (simp add: ignoreS_def keeps_bind)

lemma kinds_all_update:
  "kinds_all P b \<Longrightarrow> P (n_kind n) \<Longrightarrow> kinds_all P (b\<lparr>fb_nodes := (fb_nodes b)[i := n]\<rparr>)"
  using set_update_subset_insert [of "fb_nodes b" i n] by (auto simp: kinds_all_def)

lemma kinds_all_nlink:
  assumes b: "kinds_all P b"
  shows "kinds_all P (set_nlink i k b)"
proof (cases "i < length (fb_nodes b)")
  case True
  have "P (n_kind (fb_nodes b ! i))" using b True by (simp add: kinds_all_def)
  then show ?thesis using b by (simp add: set_nlink_def kinds_all_update)
qed (use b in \<open>simp add: set_nlink_def list_update_beyond\<close>)

lemma kinds_all_declared [simp]: "kinds_all P (b\<lparr>fb_declared_bytes := x\<rparr>) = kinds_all P b"
  by (simp add: kinds_all_def)

lemma keeps_kindsI: "(\<And>b. kinds_all P b \<Longrightarrow> kinds_all P (snd (f b))) \<Longrightarrow> keeps_kinds P f"
  by (simp add: keeps_kinds_def)

lemma keeps_kinds_snd: "keeps_kinds P f \<Longrightarrow> kinds_all P b \<Longrightarrow> kinds_all P (snd (f b))"
  by (simp add: keeps_kinds_def)

lemma kinds_all_push: "kinds_all P b \<Longrightarrow> P k \<Longrightarrow> kinds_all P (push_node k m b)"
  by (auto simp: kinds_all_def push_node_def)

lemma keeps_add_declared: "keeps_kinds P (add_declared sz)"
  by (simp add: keeps_kinds_def add_declared_def kinds_all_def)

text \<open>The interface: a property of kinds that a directory keeps when it gains a valid name, loses a
  name, or loses all its names.\<close>

locale kind_property =
  fixes P :: "node_kind \<Rightarrow> bool"
  assumes P_empty: "P (node_kind.Dir children Map.empty)"
    and P_add: "P (node_kind.Dir children index) \<Longrightarrow> name_valid name \<Longrightarrow> P (node_kind.Dir children' (index(name \<mapsto> i)))"
    and P_del: "P (node_kind.Dir children index) \<Longrightarrow> P (node_kind.Dir children' (index(name := None)))"
begin

lemma set_dir_keeps: "kinds_all P b \<Longrightarrow> P (node_kind.Dir children index) \<Longrightarrow> kinds_all P (set_dir d children index b)"
  by (simp add: set_dir_def kinds_all_update)

lemma kinds_all_dir:
  "kinds_all P b \<Longrightarrow> d < length (fb_nodes b) \<Longrightarrow> n_kind (fb_nodes b ! d) = k \<Longrightarrow> P k"
  by (auto simp: kinds_all_def)

lemma add_entry_keeps: "keeps_kinds P (add_entry dir name child)"
proof (rule keeps_kindsI)
  fix b assume b: "kinds_all P b"
  show "kinds_all P (snd (add_entry dir name child b))"
  proof (rule add_entry_cases [of dir name child b])
    fix children index
    assume a: "dir < length (fb_nodes b)" "n_kind (fb_nodes b ! dir) = node_kind.Dir children index" "name_valid name"
      "add_entry dir name child b = (Inr (), entry_added dir children index name child b)"
    have "P (node_kind.Dir children' (index(name \<mapsto> i)))" for children' i
      using P_add [OF kinds_all_dir [OF b a(1,2)] a(3)] .
    moreover have "kinds_all P (b\<lparr>fb_names := x\<rparr>)" for x using b by (simp add: kinds_all_def)
    ultimately show ?thesis using a(4) by (simp add: entry_added_def set_dir_keeps)
  qed (simp add: b)
qed

lemma unlink_keeps: "keeps_kinds P (fb_unlink slot)"
  by (rule keeps_kindsI) (simp add: fb_unlink_def Let_def failS_def kinds_all_nlink)

lemma visit_live_keeps: "kinds_all P b \<Longrightarrow> visit_live stack cs b = (r, b') \<Longrightarrow> kinds_all P b'"
proof (induction stack cs b arbitrary: r b' rule: visit_live.induct)
  case (2 stack c cs b)
  obtain r1 b1 where u: "fb_unlink c b = (r1, b1)" by (cases "fb_unlink c b")
  have "kinds_all P b1" using keeps_kindsD [OF unlink_keeps 2(3) u] .
  with 2 u show ?case by (cases r1) (auto simp: bindS_def split: if_splits)
qed simp

lemma clear_dir_keeps: "kinds_all P b \<Longrightarrow> kinds_all P (clear_dir slot b)"
  by (simp add: clear_dir_def set_dir_keeps kinds_all_nlink P_empty)

lemma remove_loop_keeps: "kinds_all P b \<Longrightarrow> remove_subtree_loop stack b = (r, b') \<Longrightarrow> kinds_all P b'"
proof (induction stack b arbitrary: r b' rule: remove_subtree_loop.induct)
  case (1 stack b)
  show ?case
  proof (cases "stack \<noteq> [] \<and> last stack < length (fb_nodes b) \<and> is_dir (fb_nodes b ! last stack)")
    case True
    then obtain children index where k: "n_kind (fb_nodes b ! last stack) = node_kind.Dir children index"
      by (auto simp: is_dir_def split: node_kind.splits)
    obtain r1 b1 where v: "visit_live (butlast stack) (live_children children) (clear_dir (last stack) b) = (r1, b1)"
      by fastforce
    have b1: "kinds_all P b1" using visit_live_keeps [OF clear_dir_keeps [OF 1(2)] v] .
    show ?thesis
    proof (cases r1)
      case (Inl e)
      then show ?thesis using True 1(3) k v b1 by (subst (asm) remove_subtree_loop.simps) (simp add: Let_def)
    next
      case (Inr stack')
      then have "remove_subtree_loop stack' b1 = (r, b')"
        using True 1(3) k v by (subst (asm) remove_subtree_loop.simps) (simp add: Let_def)
      with 1(1) [OF _ refl _ k v [unfolded Inr, symmetric]] True b1 show ?thesis using v Inr k by auto
    qed
  next
    case False
    then show ?thesis using 1(2,3) by (subst (asm) remove_subtree_loop.simps)
      (auto simp: Let_def is_dir_def split: if_splits node_kind.splits)
  qed
qed

lemma remove_keeps: "keeps_kinds P (fb_remove dir name)"
proof -
  have "keeps_kinds P (\<lambda>b. if \<not> child < length (fb_nodes b) then (Inl Panic, b)
      else if is_dir (fb_nodes b ! child) then remove_subtree child b else fb_unlink child b)" for child
  proof (rule keeps_kindsI)
    fix b assume b: "kinds_all P b"
    have "kinds_all P (snd (remove_subtree child b))"
      using remove_loop_keeps [OF b prod.collapse [symmetric]] by (simp add: remove_subtree_def)
    then show "kinds_all P (snd (if \<not> child < length (fb_nodes b) then (Inl Panic, b)
      else if is_dir (fb_nodes b ! child) then remove_subtree child b else fb_unlink child b))"
      using b keeps_kinds_snd [OF unlink_keeps b] by simp
  qed
  note rest = this
  show ?thesis
  proof (rule keeps_kindsI)
    fix b assume b: "kinds_all P b"
    show "kinds_all P (snd (fb_remove dir name b))"
    proof (cases "dir_parts dir b")
      case (Inl e)
      then show ?thesis using b by (simp add: fb_remove_def call_defs)
    next
      case (Inr parts)
      obtain children index where p: "parts = (children, index)" by (cases parts)
      then have "P (node_kind.Dir children index)" using Inr kinds_all_dir [OF b] by (auto simp: dir_parts_Inr)
      then have "P (node_kind.Dir children' (index(name := None)))" for children' by (rule P_del)
      then have "keeps_kinds P (bindS (modifyS (set_dir dir children' (index(name := None)))) (\<lambda>_ b.
           if \<not> child < length (fb_nodes b) then (Inl Panic, b)
           else if is_dir (fb_nodes b ! child) then remove_subtree child b
           else fb_unlink child b))" for children' child
        by (intro keeps_bind keeps_modify set_dir_keeps rest)
      then show ?thesis using Inr p b
        by (simp add: fb_remove_def bindS_def [of "readS _"] readS_def Let_def failS_def keeps_kinds_snd split: option.splits)
    qed
  qed
qed

end

section \<open>The typing of kinds\<close>

text \<open>The data segments of a sparse file: ascending with a hole between any two, not empty, aligned,
  inside the file, whole blocks except the last.\<close>

definition sparse_ok :: "(nat \<times> nat) list \<Rightarrow> nat \<Rightarrow> bool" where
  "sparse_ok segs sz \<longleftrightarrow> sorted_wrt (\<lambda>s t. fst s + snd s < fst t) segs \<and>
    (\<forall>s\<in>set segs. 0 < snd s \<and> fst s mod 4096 = 0 \<and> fst s + snd s \<le> sz) \<and>
    (\<forall>s\<in>set (butlast segs). snd s mod 4096 = 0)"

definition kind_ok :: "node_kind \<Rightarrow> bool" where
  "kind_ok k \<longleftrightarrow> (case k of
      node_kind.Dir _ index \<Rightarrow> \<forall>name\<in>dom index. name_valid name
    | File _ \<Rightarrow> True
    | Sparse segs sz \<Rightarrow> sparse_ok segs sz
    | node_kind.Symlink t \<Rightarrow> t \<noteq> [] \<and> length t \<le> 4095 \<and> 0 \<notin> set t
    | Special ft major minor \<Rightarrow> ft \<in> {ft_CHR, ft_BLK, ft_FIFO, ft_SOCK} \<and> major \<le> 0xFFF \<and> minor \<le> 0xFFFFF \<and>
        (ft \<in> {ft_FIFO, ft_SOCK} \<longrightarrow> major = 0 \<and> minor = 0))"

interpretation kinds: kind_property kind_ok
  by unfold_locales (auto simp: kind_ok_def)

text \<open>The loop over the segments: while segments remain everything is whole blocks.\<close>

definition sparse_mid :: "(nat \<times> nat) list \<Rightarrow> nat \<Rightarrow> bool" where
  "sparse_mid ds off \<longleftrightarrow> sparse_ok ds off \<and> off mod 4096 = 0 \<and> (\<forall>s\<in>set ds. snd s mod 4096 = 0)"

lemma push_data_seg_ok:
  assumes "sparse_mid ds off" "0 < l"
  shows "sparse_ok (push_data_seg off l ds) (off + l)"
    "l mod 4096 = 0 \<Longrightarrow> \<forall>s\<in>set (push_data_seg off l ds). snd s mod 4096 = 0"
proof -
  have ds: "sorted_wrt (\<lambda>s t. fst s + snd s < fst t) ds" "\<forall>s\<in>set ds. 0 < snd s \<and> fst s mod 4096 = 0 \<and> fst s + snd s \<le> off"
    "off mod 4096 = 0" "\<forall>s\<in>set ds. snd s mod 4096 = 0"
    using assms(1) by (auto simp: sparse_mid_def sparse_ok_def)
  show "sparse_ok (push_data_seg off l ds) (off + l)"
  proof (cases "ds = []")
    case True
    then show ?thesis using ds assms(2) by (simp add: push_data_seg_def sparse_ok_def)
  next
    case False
    then obtain bs x where s: "ds = bs @ [x]" by (metis append_butlast_last_id)
    have bs: "fst s + snd s < fst x" "fst s + snd s < off" if "s \<in> set bs" for s
      using ds(1,2) s that by (fastforce simp: sorted_wrt_append)+
    show ?thesis using ds assms(2) bs s
      by (fastforce simp: push_data_seg_def sparse_ok_def sorted_wrt_append butlast_append)
  qed
  show "\<forall>s\<in>set (push_data_seg off l ds). snd s mod 4096 = 0" if "l mod 4096 = 0"
    using ds(4) that by (cases ds rule: rev_cases) (auto simp: push_data_seg_def mod_add_eq [symmetric])
qed

lemma sparse_ok_grow: "sparse_ok ds off \<Longrightarrow> off \<le> off' \<Longrightarrow> sparse_ok ds off'"
  by (fastforce simp: sparse_ok_def)

lemma sparse_segs_ok:
  "sparse_segs ds off segs = Inr (ds', sz) \<Longrightarrow> sparse_mid ds off \<Longrightarrow> sparse_ok ds' sz"
proof (induction segs arbitrary: ds off)
  case Nil
  then show ?case by (simp add: sparse_mid_def)
next
  case (Cons seg segs)
  let ?l = "seg_len seg"
  define ds1 where "ds1 = (case seg of SegData l \<Rightarrow> push_data_seg off l ds | SegHole _ \<Rightarrow> ds)"
  have s: "0 < ?l" "segs \<noteq> [] \<longrightarrow> ?l mod 4096 = 0" "sparse_segs ds1 (off + ?l) segs = Inr (ds', sz)"
    using Cons.prems(1) by (auto simp: Let_def ds1_def split: if_splits)
  have ok: "sparse_ok ds1 (off + ?l)" "?l mod 4096 = 0 \<Longrightarrow> \<forall>s\<in>set ds1. snd s mod 4096 = 0"
    using push_data_seg_ok [OF Cons.prems(2), of ?l] s(1) Cons.prems(2)
    by (cases seg; auto simp: ds1_def sparse_mid_def intro: sparse_ok_grow)+
  show ?case
  proof (cases "segs = []")
    case True
    then show ?thesis using ok(1) s(3) by simp
  next
    case False
    then have "sparse_mid ds1 (off + ?l)"
      using ok s(2) Cons.prems(2) by (auto simp: sparse_mid_def mod_add_eq [symmetric])
    then show ?thesis using Cons.IH s(3) by blast
  qed
qed

section \<open>Every call\<close>

lemma declare_keeps:
  "kind_ok k \<Longrightarrow> (\<And>x. keeps_kinds kind_ok (f x)) \<Longrightarrow> kinds_all kind_ok b \<Longrightarrow>
   kinds_all kind_ok (snd (bindS (add_entry dir name slot) (\<lambda>_. bindS (modifyS (push_node k m)) f) b))"
  by (intro keeps_kinds_snd keeps_bind kinds.add_entry_keeps keeps_modify kinds_all_push)

lemma run_call_keeps: "keeps_kinds kind_ok (run_call c)"
proof (cases c)
  case (CMkdir p nm m)
  have "keeps_kinds kind_ok (fb_mkdir p nm m)"
    unfolding fb_mkdir_def Let_def by (rule keeps_kindsI, rule declare_keeps) (simp_all add: kind_ok_def)
  then show ?thesis using CMkdir by (simp add: keeps_ignore)
next
  case (CFile p nm m sz)
  have "keeps_kinds kind_ok (fb_file p nm m sz)"
    unfolding fb_file_def Let_def
    by (rule keeps_kindsI, rule declare_keeps) (simp_all add: kind_ok_def keeps_bind keeps_add_declared)
  then show ?thesis using CFile by (simp add: keeps_ignore)
next
  case (CFileSparse p nm m segs)
  have "keeps_kinds kind_ok (fb_file_sparse p nm m segs)"
  proof (rule keeps_kindsI)
    fix b assume b: "kinds_all kind_ok b"
    show "kinds_all kind_ok (snd (fb_file_sparse p nm m segs b))"
    proof (cases "sparse_segs [] 0 segs")
      case (Inl e)
      then show ?thesis using b by (simp add: fb_file_sparse_def bindS_def readS_def)
    next
      case (Inr r)
      then obtain ds sz where r: "sparse_segs [] 0 segs = Inr (ds, sz)" by (cases r) auto
      then have "kind_ok (Sparse ds sz)"
        using sparse_segs_ok [OF r] by (simp add: kind_ok_def sparse_mid_def sparse_ok_def)
      then have "kinds_all kind_ok (snd (bindS (add_entry p nm slot) (\<lambda>_. bindS (modifyS (push_node (Sparse ds sz) m))
          (\<lambda>_. bindS (add_declared sz) (\<lambda>_. returnS slot))) b))" for slot
        using b by (intro declare_keeps) (simp_all add: keeps_bind keeps_add_declared)
      then show ?thesis using r by (simp add: fb_file_sparse_def bindS_def [of "readS _"] readS_def Let_def)
    qed
  qed
  then show ?thesis using CFileSparse by (simp add: keeps_ignore)
next
  case (CSymlink p nm t m)
  have "keeps_kinds kind_ok (fb_symlink p nm t m)"
  proof (rule keeps_kindsI)
    fix b assume b: "kinds_all kind_ok b"
    show "kinds_all kind_ok (snd (fb_symlink p nm t m b))"
    proof (cases "t = [] \<or> length t > 4095 \<or> 0 \<in> set t")
      case False
      then show ?thesis using b unfolding fb_symlink_def if_not_P [OF False] Let_def
        by (intro declare_keeps) (simp_all add: kind_ok_def)
    qed (use b in \<open>simp add: fb_symlink_def failS_def\<close>)
  qed
  then show ?thesis using CSymlink by (simp add: keeps_ignore)
next
  case (CMknod p nm m k)
  have "keeps_kinds kind_ok (fb_mknod p nm m k)"
  proof (rule keeps_kindsI)
    fix b assume b: "kinds_all kind_ok b"
    have "kinds_all kind_ok (snd (bindS (add_entry p nm slot) (\<lambda>_. bindS (modifyS (push_node (Special ft ma mi) m))
        (\<lambda>_. returnS slot)) b))" if "kind_ok (Special ft ma mi)" for ft ma mi slot
      using that b by (intro declare_keeps) simp_all
    then show "kinds_all kind_ok (snd (fb_mknod p nm m k b))"
      using b by (cases k) (auto simp: fb_mknod_def Let_def kind_ok_def failS_def not_less)
  qed
  then show ?thesis using CMknod by (simp add: keeps_ignore)
next
  case (CSetXattr h nm v)
  have "keeps_kinds kind_ok (fb_set_xattr h nm v)"
    by (rule keeps_kindsI)
      (auto simp: fb_set_xattr_def failS_def kinds_all_def Let_def split: option.splits prod.splits)
  then show ?thesis using CSetXattr by simp
next
  case (CHardlink p nm t)
  have "keeps_kinds kind_ok (fb_hardlink p nm t)"
  proof (rule keeps_kindsI)
    fix b assume b: "kinds_all kind_ok b"
    have "keeps_kinds kind_ok (bindS (add_entry p nm t)
        (\<lambda>_. modifyS (\<lambda>b. set_nlink t (n_nlink (fb_nodes b ! t) + 1) b)))"
      by (intro keeps_bind kinds.add_entry_keeps keeps_modify kinds_all_nlink)
    then show "kinds_all kind_ok (snd (fb_hardlink p nm t b))"
      using b by (simp add: fb_hardlink_def failS_def keeps_kinds_snd)
  qed
  then show ?thesis using CHardlink by simp
next
  case (CSetMeta h m)
  have "keeps_kinds kind_ok (fb_set_meta h m)"
  proof (rule keeps_kindsI)
    fix b assume b: "kinds_all kind_ok b"
    have "kind_ok (n_kind (fb_nodes b ! h))" if "h < length (fb_nodes b)"
      using b that by (simp add: kinds_all_def)
    then show "kinds_all kind_ok (snd (fb_set_meta h m b))"
      using b by (simp add: fb_set_meta_def kinds_all_update)
  qed
  then show ?thesis using CSetMeta by simp
next
  case (CRemove d nm)
  then show ?thesis by (simp add: kinds.remove_keeps)
qed

lemma reachable_kinds: "builder_reachable strict opts b \<Longrightarrow> kinds_all kind_ok b"
proof (induction rule: builder_reachable.induct)
  case (init b)
  then show ?case by (auto simp: FsBuilder_new_def kinds_all_def kind_ok_def split: if_splits)
next
  case (step b c r b')
  then show ?case using keeps_kindsD [OF run_call_keeps] by blast
qed

end
