(* ===== verification/SealedLayout.thy ===== *)
theory SealedLayout
  imports SealPlaced BuilderKinds
begin

text \<open>
  A sealed layout is what the writer expects: its segments and data runs share no block, lie on the
  device and carry their bytes, and every file has runs for exactly its declared bytes.
\<close>

section \<open>Rendered segments\<close>

text \<open>The blocks of a list of segments, and a segment that carries what it claims.\<close>

definition seg_list :: "segment list \<Rightarrow> nat list" where
  "seg_list segs = expand_runs (map seg_run segs)"

definition seg_good :: "geometry \<Rightarrow> segment \<Rightarrow> bool" where
  "seg_good geo seg \<longleftrightarrow> 0 < seg_blocks seg \<and>
    (case seg_src seg of
       SegBytes bs \<Rightarrow> length bs = seg_blocks seg * BLOCK_SIZE
     | SegItable g \<Rightarrow> seg_blocks seg * 16 = geo_inodes_per_group geo)"

lemma seg_list_simps [simp]:
  "seg_list [] = []" "seg_list (s # segs) = [seg_block s..<seg_block s + seg_blocks s] @ seg_list segs"
  "seg_list (segs @ segs') = seg_list segs @ seg_list segs'"
  by (simp_all add: seg_list_def)

lemma seg_good_block [simp]: "seg_good geo (block_seg b bs) \<longleftrightarrow> length bs = 4096"
  by (simp add: seg_good_def)

lemma seg_list_blocks: "seg_list (map (\<lambda>(b, bs). block_seg b bs) xs) = map fst xs"
  by (induction xs) auto

lemma block_segs_good: "block_segs segs \<Longrightarrow> s \<in> set segs \<Longrightarrow> seg_good geo s"
  by (auto simp: block_segs_def seg_good_def)

lemma block_segs_list: "block_segs segs \<Longrightarrow> seg_list segs = map seg_block segs"
  by (induction segs) (auto simp: block_segs_def)

lemma length_fold_set_bit [simp]: "length (fold set_bit_at is bm) = length bm"
  by (induction "is" arbitrary: bm) auto

lemma length_group_blocks [simp]:
  "length (group_bitmap_block bm start n) = 4096" "length (inode_bitmap_block used ipg) = 4096"
  by (simp_all add: group_bitmap_block_def inode_bitmap_block_def)

lemma block_seg_inject [simp]: "block_seg b bs = block_seg b' bs' \<longleftrightarrow> b = b' \<and> bs = bs'"
  by (simp add: block_seg_def)

lemma seal_groups_segs:
  assumes "seal_groups crc fseed geo bm used inodes ms = Inr (descs, free, segs)" "geometry_wf geo"
  shows "seg_list segs = meta_blocks geo ms" "\<forall>s\<in>set segs. seg_good geo s"
proof -
  have it: "itable_blocks geo * 16 = geo_inodes_per_group geo" "0 < itable_blocks geo"
    using geometry_bounds [OF assms(2)] by simp_all
  have group: "\<exists>d f b1 b2. g = (d, f, [block_seg bb b1, block_seg ib b2,
      \<lparr>seg_block = it, seg_blocks = itable_blocks geo, seg_src = SegItable k\<rparr>]) \<and> length b1 = 4096 \<and> length b2 = 4096"
    if "seal_group crc fseed geo bm used inodes (k, bb, ib, it) = Inr g" for k bb ib it g
    using that by (auto simp: seal_group_def Let_def bindE_eq_Inr simp del: fold_append)
  have "seg_list (concat (map (snd \<circ> snd) gs)) = meta_blocks geo ms \<and>
      (\<forall>s\<in>set (concat (map (snd \<circ> snd) gs)). seg_good geo s)"
    if "mapE (seal_group crc fseed geo bm used inodes) (enumerate k ms) = Inr gs" for k gs
    using that
  proof (induction ms arbitrary: k gs)
    case (Cons m ms)
    obtain bb ib it where m: "m = (bb, ib, it)" by (cases m)
    then obtain g gs' where g: "seal_group crc fseed geo bm used inodes (k, bb, ib, it) = Inr g"
      "mapE (seal_group crc fseed geo bm used inodes) (enumerate (Suc k) ms) = Inr gs'" "gs = g # gs'"
      using Cons.prems by (auto simp: bindE_eq_Inr)
    show ?case using Cons.IH [OF g(2)] group [OF g(1)] g(3) m it by (auto simp: seg_good_def)
  qed simp
  then show "seg_list segs = meta_blocks geo ms" "\<forall>s\<in>set segs. seg_good geo s"
    using assms(1) by (auto simp: seal_groups_def bindE_eq_Inr)
qed

lemma gdt_bytes_length: "gdt_bytes geo descs = Inr gdt \<Longrightarrow> length gdt = geo_gdt_blocks geo * BLOCK_SIZE"
  unfolding gdt_bytes_def
  by (erule foldE_inv [where P = "\<lambda>b. length b = geo_gdt_blocks geo * BLOCK_SIZE"])
    (auto simp: put_desc_def split: if_splits)

lemma seal_sb_bytes_length: "seal_sb_bytes crc sb = Inr (sb', bs) \<Longrightarrow> length bs = 1024"
  by (auto simp: seal_sb_bytes_def superblock_encode_def bindE_eq_Inr split: if_splits)

lemma upt_one: "0 < n \<Longrightarrow> [k..<k + n] = k # [Suc k..<k + n]"
  by (simp add: upt_rec)

lemma primary_segs_list:
  assumes "length gdt = geo_gdt_blocks geo * BLOCK_SIZE" "0 < geo_gdt_blocks geo"
  shows "seg_list (primary_segs geo sb gdt) = [0..<1 + geo_gdt_blocks geo]"
    "\<forall>s\<in>set (primary_segs geo sb gdt). seg_good geo s"
  using assms upt_one [of "1 + geo_gdt_blocks geo" 0] by (auto simp: primary_segs_def seg_good_def)

lemma backup_segs_list:
  assumes "backup_segs crc geo sb gdt g = Inr segs" "length gdt = geo_gdt_blocks geo * BLOCK_SIZE" "0 < geo_gdt_blocks geo"
  shows "seg_list segs = [group_start g..<group_start g + (1 + geo_gdt_blocks geo)]" "\<forall>s\<in>set segs. seg_good geo s"
  using assms upt_one [of "1 + geo_gdt_blocks geo" "group_start g"]
  by (auto simp: backup_segs_def bindE_eq_Inr seg_good_def)

lemma backups_list:
  assumes "mapE (backup_segs crc geo sb gdt) gs = Inr segss" "length gdt = geo_gdt_blocks geo * BLOCK_SIZE" "0 < geo_gdt_blocks geo"
  shows "seg_list (concat segss) =
      expand_runs (map (\<lambda>g. \<lparr>run_start = group_start g, run_len = 1 + geo_gdt_blocks geo\<rparr>) gs)"
    "\<forall>s\<in>set (concat segss). seg_good geo s"
  using assms(1)
proof (induction gs arbitrary: segss)
  case (Cons g gs)
  case 1
  then show ?case using Cons.IH(1) backup_segs_list(1) [OF _ assms(2,3)] by (auto simp: bindE_eq_Inr)
next
  case (Cons g gs)
  case 2
  then show ?case using Cons.IH(2) backup_segs_list(2) [OF _ assms(2,3)] by (auto simp: bindE_eq_Inr)
qed auto

lemma journal_seg_list:
  assumes "journal_seg geo uuid runs = Inr seg" "\<forall>r\<in>set runs. 0 < run_len r"
  shows "mset (seg_list [seg]) \<subseteq># mset (expand_runs runs)" "seg_good geo seg"
proof -
  obtain bs where b: "journal_superblock_encode (journal_sb geo uuid) (zeros_buf BLOCK_SIZE) = Inr bs" "runs \<noteq> []"
    "seg = block_seg (run_start (runs ! 0)) bs"
    using assms(1) by (auto simp: journal_seg_def bindE_eq_Inr split: if_splits)
  then obtain r rs where r: "runs = r # rs" by (cases runs) auto
  then have "expand_runs runs = run_start r # [Suc (run_start r)..<run_start r + run_len r] @ expand_runs rs"
    using assms(2) upt_one [of "run_len r" "run_start r"] by simp
  then show "mset (seg_list [seg]) \<subseteq># mset (expand_runs runs)" using b(3) r by simp
  show "seg_good geo seg" using b(1,3) by (auto simp: journal_superblock_encode_def split: if_splits)
qed

section \<open>The layout\<close>

lemma total_blocks_geo:
  assumes "Geometry_new sz inos journal = Inr geo"
  shows "0 < sz" "sz mod BLOCK_SIZE = 0" "sz div BLOCK_SIZE = geo_blocks geo"
  using assms by (auto simp: Geometry_new_def Let_def split: if_splits)

lemma runs_apart:
  assumes "distinct (expand_runs rs @ expand_runs rs')" "q \<in> set rs" "r \<in> set rs'" "0 < run_len q" "0 < run_len r"
  shows "run_start r + run_len r \<le> run_start q \<or> run_start q + run_len q \<le> run_start r"
proof (rule ccontr)
  assume "\<not> ?thesis"
  then have "in_run (max (run_start q) (run_start r)) q" "in_run (max (run_start q) (run_start r)) r"
    using assms(4,5) by (auto simp: in_run_def)
  then show False using assms(1) in_expand_runs [OF assms(2)] in_expand_runs [OF assms(3)] by auto
qed

text \<open>What sealing hands out, taken apart.\<close>

lemma sealE:
  assumes "seal crc b = Inr lay"
  obtains slot_ino nxt geo n_inodes pl where "slot_inodes b = Inr (slot_ino, nxt)"
    "Geometry_new (opt_size_bytes (fb_opts b)) (case opt_inodes (fb_opts b) of Auto \<Rightarrow> None | Exact n \<Rightarrow> Some n)
        (opt_journal_blocks (fb_opts b)) = Inr geo"
    "inodes_count geo = Inr n_inodes" "nxt - 1 \<le> n_inodes"
    "place_all crc b geo (fs_seed crc (opt_fs_uuid (fb_opts b))) slot_ino = Inr pl"
    "render_all crc b geo (fs_seed crc (opt_fs_uuid (fb_opts b))) slot_ino (nxt - 1) n_inodes pl = Inr lay"
proof -
  obtain slot_ino nxt where s: "slot_inodes b = Inr (slot_ino, nxt)"
    using assms by (auto simp: seal_def bindE_eq_Inr)
  obtain geo n_inodes where g: "Geometry_new (opt_size_bytes (fb_opts b)) (case opt_inodes (fb_opts b) of Auto \<Rightarrow> None | Exact n \<Rightarrow> Some n)
        (opt_journal_blocks (fb_opts b)) = Inr geo" "inodes_count geo = Inr n_inodes"
    using assms s by (auto simp: seal_def bindE_eq_Inr Let_def)
  have "nxt - 1 \<le> n_inodes"
    "bindE (place_all crc b geo (fs_seed crc (opt_fs_uuid (fb_opts b))) slot_ino) (\<lambda>pl.
       render_all crc b geo (fs_seed crc (opt_fs_uuid (fb_opts b))) slot_ino (nxt - 1) n_inodes pl) = Inr lay"
    using assms s g by (auto simp: seal_def Let_def split: if_splits)
  then show ?thesis using that s g by (auto simp: bindE_eq_Inr)
qed

text \<open>The numbering has one entry per slot.\<close>

lemma mark_reachable_length: "mark_reachable nodes stack seen = Inr seen' \<Longrightarrow> length seen' = length seen"
  by (induction nodes stack seen rule: mark_reachable.induct) (auto split: if_splits)

lemma number_slots_length: "number_slots xs k = Inr (inos, k') \<Longrightarrow> length inos = length xs"
  by (induction xs k arbitrary: inos k' rule: number_slots.induct) (auto simp: bindE_eq_Inr split: if_splits)

lemma slot_inodes_length:
  assumes "slot_inodes b = Inr (slot_ino, nxt)"
  shows "length slot_ino = length (fb_nodes b)"
proof -
  obtain seen inos where s: "mark_reachable (fb_nodes b) [0] (replicate (length (fb_nodes b)) False) = Inr seen"
    "number_slots (tl (zip seen (fb_nodes b))) FIRST_DYN_INO = Inr (inos, nxt)" "slot_ino = unat ROOT_INO # inos"
    using assms by (auto simp: slot_inodes_def bindE_eq_Inr)
  have "fb_nodes b \<noteq> []" using s(1) by auto
  then show ?thesis using mark_reachable_length [OF s(1)] number_slots_length [OF s(2)] s(3) by simp
qed

lemma render_all_ok:
  assumes "render_all crc b geo fseed slot_ino max_ino n pl = Inr lay" "geometry_wf geo"
    and "block_segs (st_segments (pl_data pl))"
    and "map fst (ns_rendered (pl_names pl)) = expand_runs (fst (pl_lost_found pl) @ dir_runs (ns_dirs (pl_names pl)))"
    and "\<forall>p\<in>set (ns_rendered (pl_names pl)). length (snd p) = 4096" "\<forall>r\<in>set (fst (pl_journal pl)). 0 < run_len r"
  shows "mset (seg_list (lay_segments lay) @ expand_runs (lay_data_runs lay)) \<subseteq># mset (used_list geo pl)"
    "\<forall>s\<in>set (lay_segments lay). seg_good geo s" "sorted (map seg_block (lay_segments lay))"
    "sorted (map run_start (lay_data_runs lay))" "set (lay_data_runs lay) = set (ds_data_runs (pl_data pl))"
    "inode_table max_ino (lay_inodes lay)" "lay_max_ino lay = max_ino" "lay_geo lay = geo" "lay_opts lay = fb_opts b"
    "lay_file_runs lay = ds_file_runs (pl_data pl)" "lay_slot_ino lay = slot_ino"
proof -
  let ?ns = "pl_names pl" and ?ds = "pl_data pl"
  obtain bm used inodes descs free gsegs gdt name sb sbb backups jseg where r:
    "seal_inodes crc b geo fseed slot_ino max_ino (snd (pl_journal pl)) (snd (pl_lost_found pl)) ?ns ?ds = Inr inodes"
    "seal_groups crc fseed geo bm max_ino inodes (pl_group_meta pl) = Inr (descs, free, gsegs)"
    "gdt_bytes geo descs = Inr gdt"
    "mapE (backup_segs crc geo sb gdt) (backup_groups geo) = Inr backups"
    "journal_seg geo (opt_fs_uuid (fb_opts b)) (fst (pl_journal pl)) = Inr jseg"
    "lay = \<lparr>lay_opts = fb_opts b, lay_geo = geo, lay_slot_ino = slot_ino, lay_file_runs = ds_file_runs ?ds,
            lay_segments = sort_key seg_block (st_segments ?ds @ gsegs @ primary_segs geo sbb gdt @ concat backups @ [jseg] @
              map (\<lambda>(block, bs). block_seg block bs) (ns_rendered ?ns)),
            lay_data_runs = sort_key run_start (ds_data_runs ?ds), lay_inodes = inodes, lay_max_ino = max_ino\<rparr>"
    "length sbb = 1024"
    using assms(1) seal_sb_bytes_length
    by (auto simp: render_all_def Let_def bindE_eq_Inr)
  let ?segs = "st_segments ?ds @ gsegs @ primary_segs geo sbb gdt @ concat backups @ [jseg] @
      map (\<lambda>(block, bs). block_seg block bs) (ns_rendered ?ns)"
  have gdt: "length gdt = geo_gdt_blocks geo * BLOCK_SIZE" "0 < geo_gdt_blocks geo"
    using gdt_bytes_length [OF r(3)] geometry_bounds(2) [OF assms(2)] by simp_all
  note g = seal_groups_segs [OF r(2) assms(2)] and p = primary_segs_list [OF gdt, of sbb]
    and k = backups_list [OF r(4) gdt] and j = journal_seg_list [OF r(5) assms(6)]
  have "mset (seg_list (lay_segments lay)) = mset (seg_list ?segs)"
    unfolding seg_list_def using r(6) by (intro expand_runs_mset) (simp only: layout.simps mset_map mset_sort)
  moreover have "mset (expand_runs (lay_data_runs lay)) = mset (expand_runs (ds_data_runs ?ds))"
    using r(6) by (intro expand_runs_mset) simp
  moreover have "mset (used_list geo pl) = mset (expand_runs (fst (pl_journal pl))) +
     (mset ([0..<1 + geo_gdt_blocks geo] @
      expand_runs (map (\<lambda>g. \<lparr>run_start = group_start g, run_len = 1 + geo_gdt_blocks geo\<rparr>) (backup_groups geo)) @
      meta_blocks geo (pl_group_meta pl) @ map fst (ns_rendered ?ns) @ map seg_block (st_segments ?ds)) +
      mset (expand_runs (ds_data_runs ?ds)))"
    using expand_block_segs [OF assms(3)] assms(4)
    by (simp add: used_list_def used_runs_def meta_blocks_def dir_runs_def)
  moreover have "mset (seg_list ?segs) = mset (seg_list [jseg]) +
     mset ([0..<1 + geo_gdt_blocks geo] @
      expand_runs (map (\<lambda>g. \<lparr>run_start = group_start g, run_len = 1 + geo_gdt_blocks geo\<rparr>) (backup_groups geo)) @
      meta_blocks geo (pl_group_meta pl) @ map fst (ns_rendered ?ns) @ map seg_block (st_segments ?ds))"
    unfolding seg_list_simps(3) g(1) p(1) k(1) block_segs_list [OF assms(3)] seg_list_blocks by simp
  ultimately show "mset (seg_list (lay_segments lay) @ expand_runs (lay_data_runs lay)) \<subseteq># mset (used_list geo pl)"
    using j(1) by (simp del: seg_list_simps upt_Suc add: add.assoc)
  show "\<forall>s\<in>set (lay_segments lay). seg_good geo s"
    using r(6) g(2) p(2) k(2) j(2) assms(5) block_segs_good [OF assms(3)] by auto
  show "sorted (map seg_block (lay_segments lay))" "sorted (map run_start (lay_data_runs lay))"
    "set (lay_data_runs lay) = set (ds_data_runs (pl_data pl))"
    "inode_table max_ino (lay_inodes lay)" "lay_max_ino lay = max_ino" "lay_geo lay = geo" "lay_opts lay = fb_opts b"
    "lay_file_runs lay = ds_file_runs (pl_data pl)" "lay_slot_ino lay = slot_ino"
    using r(6) seal_inodes_table [OF r(1)] by simp_all
qed

lemma kind_ok_aligned: "kind_ok k \<Longrightarrow> kind_aligned k"
proof -
  have "segs_aligned segs" if "\<forall>s\<in>set (butlast segs). snd s mod BLOCK_SIZE = 0" for segs
    using that by (induction segs rule: segs_aligned.induct) auto
  then show "kind_ok k \<Longrightarrow> kind_aligned k"
    by (auto simp: kind_ok_def kind_aligned_def sparse_ok_def split: node_kind.splits)
qed

lemma reachable_aligned: "builder_reachable strict opts b \<Longrightarrow> aligned b"
  using reachable_kinds kind_ok_aligned by (auto simp: aligned_def kinds_all_def)

lemma ex_nth: "(\<exists>i<length xs. P (xs ! i)) \<longleftrightarrow> (\<exists>x\<in>set xs. P x)"
  by (metis in_set_conv_nth)

lemma distinct_concat_nth:
  "distinct (concat xss) \<Longrightarrow> i < length xss \<Longrightarrow> j < length xss \<Longrightarrow> x \<in> set (xss ! i) \<Longrightarrow> x \<in> set (xss ! j) \<Longrightarrow> i = j"
proof (induction xss arbitrary: i j)
  case (Cons xs xss)
  have "y \<in> set (concat xss)" if "k < length xss" "y \<in> set (xss ! k)" for y k
    using that by (auto intro!: bexI [of _ "xss ! k"])
  then show ?case using Cons by (cases i; cases j) auto
qed simp

text \<open>Nothing is allocated twice: the bitmap of a placement can be marked without an assertion failing.\<close>

lemma used_list_marks:
  assumes "distinct (used_list geo pl)" "\<forall>b\<in>set (used_list geo pl). b < geo_blocks geo"
  shows "\<exists>bm. block_bitmap geo (used_runs geo (pl_group_meta pl) (fst (pl_journal pl)) (fst (pl_lost_found pl))
      (ns_dirs (pl_names pl)) (ds_data_runs (pl_data pl)) (st_segments (pl_data pl))) = Inr (bm, length (used_list geo pl)) \<and>
    length bm = div_ceil (geo_blocks geo) 8 \<and>
    (\<forall>b<geo_blocks geo. bitmap_bit bm b \<longleftrightarrow> b \<in> set (used_list geo pl))"
proof -
  let ?rs = "used_runs geo (pl_group_meta pl) (fst (pl_journal pl)) (fst (pl_lost_found pl))
      (ns_dirs (pl_names pl)) (ds_data_runs (pl_data pl)) (st_segments (pl_data pl))"
  let ?z = "zeros_buf (div_ceil (geo_blocks geo) 8)"
  have inside: "b div 8 < div_ceil (geo_blocks geo) 8" if "b < geo_blocks geo" for b
    using that div_ceil_bounds(1) [of 8 "geo_blocks geo"] by (simp add: div_less_iff_less_mult)
  have "foldE mark_block (expand_runs ?rs) ?z = Inr (fold set_bit_at (expand_runs ?rs) ?z)"
    unfolding foldE_mark using assms inside by (auto simp: used_list_def)
  then have ok: "block_bitmap geo ?rs = Inr (fold set_bit_at (expand_runs ?rs) ?z, length (used_list geo pl))"
    by (simp add: block_bitmap_def foldE_mark_run used_list_def length_expand_runs)
  show ?thesis using ok block_bitmap_ok(3,5) [OF ok] inside by (auto simp: used_list_def)
qed

text \<open>What is used and what sealing returns, for every builder a client can reach.\<close>

lemma seal_layout:
  assumes "seal crc b = Inr lay" "aligned b" "backups_fit (lay_geo lay)"
  shows "layout_ok lay" "files_ok lay"
proof -
  obtain slot_ino nxt geo n pl where s: "slot_inodes b = Inr (slot_ino, nxt)"
    "Geometry_new (opt_size_bytes (fb_opts b)) (case opt_inodes (fb_opts b) of Auto \<Rightarrow> None | Exact n \<Rightarrow> Some n)
        (opt_journal_blocks (fb_opts b)) = Inr geo"
    "place_all crc b geo (fs_seed crc (opt_fs_uuid (fb_opts b))) slot_ino = Inr pl"
    "render_all crc b geo (fs_seed crc (opt_fs_uuid (fb_opts b))) slot_ino (nxt - 1) n pl = Inr lay"
    using assms(1) by (rule sealE)
  have wf: "geometry_wf geo" using Geometry_new_wf [OF s(2)] .
  note p = place_all_ok [OF s(3) wf assms(2) slot_inodes_length [OF s(1)]]
  have j: "\<forall>r\<in>set (fst (pl_journal pl)). 0 < run_len r" using p(6) by blast
  note r = render_all_ok [OF s(4) wf p(3,4,5) j]
  note size = total_blocks_geo [OF s(2)]
  have total: "total_blocks lay = geo_blocks geo" using size r(9) by (simp add: total_blocks_def image_len_def)
  let ?S = "map seg_run (lay_segments lay)" and ?D = "lay_data_runs lay"
  have d: "distinct (expand_runs ?S @ expand_runs ?D)"
    using subset_mset_distinct [OF r(1) p(1)] by (simp add: seg_list_def)
  have inside: "b < total_blocks lay" if "b \<in> set (expand_runs ?S) \<union> set (expand_runs ?D)" for b
    using that set_mset_mono [OF r(1)] p(2) assms(3) r(8) total by (auto simp: seg_list_def)
  have pos: "\<forall>q\<in>set ?S. 0 < run_len q" "\<forall>q\<in>set ?D. 0 < run_len q"
    using r(2,5) p(6) by (auto simp: seg_good_def)
  have below: "run_start q + run_len q \<le> total_blocks lay" if "q \<in> set ?S \<union> set ?D" for q
  proof -
    have l: "0 < run_len q" using pos that by blast
    then have "run_start q + run_len q - 1 \<in> set (expand_runs ?S) \<union> set (expand_runs ?D)"
      using that in_expand_runs [of q _ "run_start q + run_len q - 1"] by (auto simp: in_run_def)
    from inside [OF this] show ?thesis by linarith
  qed
  show "layout_ok lay"
    unfolding layout_ok_def
  proof (intro conjI ballI)
    show "0 < image_len lay" "image_len lay mod BLOCK_SIZE = 0" using size r(9) by (simp_all add: image_len_def)
    show "inodes_ok lay" using r(6,7) by (simp add: inode_table_def inodes_ok_def)
    have "map run_start ?S = map seg_block (lay_segments lay)" by simp
    then have "sorted (map run_start ?S)" using r(3) by (metis)
    then show "runs_ok ?S" using d pos(1) by (intro sorted_distinct_runs_ok) simp_all
    show "runs_ok ?D" using r(4) d pos(2) by (intro sorted_distinct_runs_ok) simp_all
  next
    fix q assume q: "q \<in> set (lay_segments lay)"
    show "seg_ok lay q" using r(2,8) q by (auto simp: seg_ok_def seg_good_def split: seg_src.splits)
    have q': "seg_run q \<in> set ?S" using q by simp
    show "seg_block q + seg_blocks q \<le> total_blocks lay" using below [of "seg_run q"] q' by simp
    fix x assume x: "x \<in> set ?D"
    show "run_start x + run_len x \<le> seg_block q \<or> seg_block q + seg_blocks q \<le> run_start x"
      using runs_apart [OF d q' x] pos(1) [rule_format, OF q'] pos(2) [rule_format, OF x] by simp
  next
    show "run_start x + run_len x \<le> total_blocks lay" if "x \<in> set ?D" for x using below that by blast
  qed
  obtain F U where data: "data_ok F U (length (fb_nodes b)) slot_ino (length (fb_nodes b)) (pl_data pl)" using p(8) by blast
  let ?fr = "ds_file_runs (pl_data pl)"
  have fr: "length ?fr = length (fb_nodes b)" "set ?D = set (concat (map fst ?fr))"
    "distinct (expand_runs (concat (map fst ?fr)))"
  proof -
    show "length ?fr = length (fb_nodes b)" "set ?D = set (concat (map fst ?fr))"
      using data r(5) by (simp_all add: data_ok_def)
    have "distinct (expand_runs (ds_data_runs (pl_data pl)))"
      using p(1) by (simp add: used_list_def used_runs_def)
    then show "distinct (expand_runs (concat (map fst ?fr)))" using data by (simp add: data_ok_def)
  qed
  show "files_ok lay"
    unfolding files_ok_def
  proof (intro conjI allI impI)
    fix f assume "f < length (lay_file_runs lay)"
    then show "file_runs_ok (file_runs_of lay f) (file_size lay f)" "lay_slot_ino lay ! f = 0 \<Longrightarrow> file_runs_of lay f = []"
      using data r(10,11) by (auto simp: data_ok_def file_runs_of_def file_size_def)
  next
    fix f g b assume fg: "f < length (lay_file_runs lay)" "g < length (lay_file_runs lay)"
      "in_runs (file_runs_of lay f) b \<and> in_runs (file_runs_of lay g) b"
    have e: "expand_runs (concat xss) = concat (map expand_runs xss)" for xss by (induction xss) auto
    have "distinct (concat (map expand_runs (map fst ?fr)))" using fr(3) unfolding e .
    then show "f = g"
      using fg r(10) distinct_concat_nth [of "map expand_runs (map fst ?fr)" f g b]
      by (auto simp: in_runs_expand file_runs_of_def)
  next
    fix b
    show "in_runs (lay_data_runs lay) b \<longleftrightarrow> (\<exists>f<length (lay_file_runs lay). in_runs (file_runs_of lay f) b)"
      unfolding r(10) file_runs_of_def using fr(2) ex_nth [of ?fr "\<lambda>x. in_runs (fst x) b"]
      by (auto simp: in_runs_def)
  qed
qed

end
