(* ===== verification/SealNumbers.thy ===== *)
theory SealNumbers
  imports SealNames BuilderSpec
begin

text \<open>
  The numbering of inodes: the worklist visits exactly the slots that live names lead to from the
  root, and every one of them gets a number of its own, densely from 12 (the root keeps 2).
\<close>

section \<open>Reachability\<close>

definition name_edges :: "node list \<Rightarrow> (nat \<times> nat) set" where
  "name_edges nodes = {(p, c). p < length nodes \<and> c \<in> set (kind_children (n_kind (nodes ! p)))}"

definition live_slots :: "node list \<Rightarrow> nat set" where
  "live_slots nodes = (name_edges nodes)\<^sup>* `` {0}"

text \<open>Slots already seen have their children seen or waiting.\<close>

definition frontier :: "node list \<Rightarrow> nat list \<Rightarrow> bool list \<Rightarrow> bool" where
  "frontier nodes stack seen \<longleftrightarrow>
    (\<forall>p c. p < length nodes \<and> seen ! p \<and> (p, c) \<in> name_edges nodes \<longrightarrow> c \<in> set stack \<or> seen ! c)"

definition closed_nodes :: "node list \<Rightarrow> bool" where
  "closed_nodes nodes \<longleftrightarrow> (\<forall>(p, c)\<in>name_edges nodes. c < length nodes)"

lemma mark_reachable_spec:
  assumes "closed_nodes nodes" "length seen = length nodes" "\<forall>s\<in>set stack. s < length nodes" "frontier nodes stack seen"
  shows "\<exists>seen'. mark_reachable nodes stack seen = Inr seen' \<and> length seen' = length nodes \<and>
    (\<forall>s<length nodes. seen ! s \<or> s \<in> set stack \<longrightarrow> seen' ! s) \<and> frontier nodes [] seen' \<and>
    (\<forall>s<length nodes. seen' ! s \<longrightarrow> seen ! s \<or> (\<exists>t\<in>set stack. (t, s) \<in> (name_edges nodes)\<^sup>*))"
  using assms
proof (induction nodes stack seen rule: mark_reachable.induct)
  case (1 nodes seen)
  then show ?case by simp
next
  case (2 nodes slot stack seen)
  have slot: "slot < length nodes" "slot < length seen" using "2.prems" by auto
  show ?case
  proof (cases "seen ! slot")
    case True
    have "frontier nodes stack seen" using "2.prems"(4) True by (auto simp: frontier_def)
    then obtain seen' where s: "mark_reachable nodes stack seen = Inr seen'" "length seen' = length nodes"
      "\<forall>s<length nodes. seen ! s \<or> s \<in> set stack \<longrightarrow> seen' ! s" "frontier nodes [] seen'"
      "\<forall>s<length nodes. seen' ! s \<longrightarrow> seen ! s \<or> (\<exists>t\<in>set stack. (t, s) \<in> (name_edges nodes)\<^sup>*)"
      using "2.IH"(1) "2.prems" slot True by auto
    moreover have "mark_reachable nodes (slot # stack) seen = Inr seen'" using s(1) slot True by simp
    ultimately show ?thesis using True by auto
  next
    case False
    let ?kids = "kind_children (n_kind (nodes ! slot))" and ?seen = "seen[slot := True]"
    have kids: "\<forall>c\<in>set ?kids. (slot, c) \<in> name_edges nodes" using slot by (simp add: name_edges_def)
    then have in_range: "\<forall>s\<in>set (rev ?kids @ stack). s < length nodes"
      using "2.prems"(1,3) by (auto simp: closed_nodes_def)
    have "frontier nodes (rev ?kids @ stack) ?seen"
      unfolding frontier_def
    proof (intro allI impI)
      fix p c assume pc: "p < length nodes \<and> ?seen ! p \<and> (p, c) \<in> name_edges nodes"
      show "c \<in> set (rev ?kids @ stack) \<or> ?seen ! c"
      proof (cases "p = slot")
        case True
        then show ?thesis using pc by (simp add: name_edges_def)
      next
        case False
        then have "seen ! p" using pc by simp
        then have "c \<in> set (slot # stack) \<or> seen ! c" using pc "2.prems"(4) unfolding frontier_def by blast
        then show ?thesis using slot(2) by (cases "c = slot") auto
      qed
    qed
    then obtain seen' where s: "mark_reachable nodes (rev ?kids @ stack) ?seen = Inr seen'" "length seen' = length nodes"
      "\<forall>s<length nodes. ?seen ! s \<or> s \<in> set (rev ?kids @ stack) \<longrightarrow> seen' ! s" "frontier nodes [] seen'"
      "\<forall>s<length nodes. seen' ! s \<longrightarrow> ?seen ! s \<or> (\<exists>t\<in>set (rev ?kids @ stack). (t, s) \<in> (name_edges nodes)\<^sup>*)"
      using "2.IH"(2) "2.prems"(1,2) slot False in_range by auto
    have run: "mark_reachable nodes (slot # stack) seen = Inr seen'" using s(1) slot False by simp
    have up: "\<forall>s<length nodes. seen ! s \<or> s \<in> set (slot # stack) \<longrightarrow> seen' ! s"
      using s(3) slot by (auto simp: nth_list_update)
    have down: "seen ! q \<or> (\<exists>t\<in>set (slot # stack). (t, q) \<in> (name_edges nodes)\<^sup>*)"
      if "q < length nodes" "seen' ! q" for q
    proof -
      from s(5) that consider "?seen ! q" | t where "t \<in> set ?kids" "(t, q) \<in> (name_edges nodes)\<^sup>*"
        | t where "t \<in> set stack" "(t, q) \<in> (name_edges nodes)\<^sup>*" by auto
      then show ?thesis
      proof cases
        case 1
        then show ?thesis using slot by (cases "q = slot") (auto simp: nth_list_update)
      next
        case 2
        then have "(slot, q) \<in> (name_edges nodes)\<^sup>*" using kids by (blast intro: converse_rtrancl_into_rtrancl)
        then show ?thesis by auto
      qed auto
    qed
    show ?thesis using run s(2,4) up down by blast
  qed
qed

theorem mark_reachable_exact:
  assumes "closed_nodes nodes" "nodes \<noteq> []"
  shows "\<exists>seen. mark_reachable nodes [0] (replicate (length nodes) False) = Inr seen \<and>
    length seen = length nodes \<and> (\<forall>s<length nodes. seen ! s \<longleftrightarrow> s \<in> live_slots nodes)"
proof -
  have "frontier nodes [0] (replicate (length nodes) False)" by (auto simp: frontier_def)
  from mark_reachable_spec [OF assms(1) _ _ this] assms(2)
  obtain seen where s: "mark_reachable nodes [0] (replicate (length nodes) False) = Inr seen" "length seen = length nodes"
    "\<forall>s<length nodes. replicate (length nodes) False ! s \<or> s \<in> set [0] \<longrightarrow> seen ! s" "frontier nodes [] seen"
    "\<forall>s<length nodes. seen ! s \<longrightarrow> replicate (length nodes) False ! s \<or> (\<exists>t\<in>set [0]. (t, s) \<in> (name_edges nodes)\<^sup>*)"
    by (simp only: length_replicate) fastforce
  have zero: "seen ! 0" using s(3) assms(2) by simp
  have down: "(0, s) \<in> (name_edges nodes)\<^sup>*" if "s < length nodes" "seen ! s" for s
    using s(5) that by simp
  have "seen ! s \<and> s < length nodes" if "(0, s) \<in> (name_edges nodes)\<^sup>*" for s
    using that
  proof (induction rule: rtrancl_induct)
    case base
    then show ?case using zero assms(2) by simp
  next
    case (step y z)
    then have "z < length nodes" using assms(1) by (auto simp: closed_nodes_def)
    moreover have "seen ! z" using step s(4) unfolding frontier_def by auto
    ultimately show ?case by simp
  qed
  then have "\<forall>s<length nodes. seen ! s \<longleftrightarrow> s \<in> live_slots nodes"
    using down unfolding live_slots_def by blast
  then show ?thesis using s(1,2) by blast
qed

section \<open>Numbers\<close>

text \<open>Consecutive numbers for the slots that qualify.\<close>

lemma number_slots_spec:
  assumes "number_slots xs k = Inr (inos, k')" "0 < k"
  shows "\<exists>m. k' = k + m \<and> length inos = length xs \<and> filter (\<lambda>n. n \<noteq> 0) inos = [k..<k + m] \<and>
    (\<forall>i<length xs. inos ! i \<noteq> 0 \<longleftrightarrow> fst (xs ! i) \<and> 0 < n_nlink (snd (xs ! i)))"
  using assms
proof (induction xs arbitrary: k inos)
  case (Cons x xs)
  obtain r n where x: "x = (r, n)" by (cases x)
  show ?case
  proof (cases "r \<and> 0 < n_nlink n")
    case True
    then obtain inos' where i: "number_slots xs (Suc k) = Inr (inos', k')" "inos = k # inos'"
      using Cons.prems(1) x by (auto simp: bindE_eq_Inr split: if_splits)
    obtain m where m: "k' = Suc k + m" "length inos' = length xs" "filter (\<lambda>n. n \<noteq> 0) inos' = [Suc k..<Suc k + m]"
      "\<forall>i<length xs. inos' ! i \<noteq> 0 \<longleftrightarrow> fst (xs ! i) \<and> 0 < n_nlink (snd (xs ! i))"
      using Cons.IH [OF i(1)] by auto
    have "filter (\<lambda>n. n \<noteq> 0) (k # inos') = [k..<k + Suc m]" using m(3) Cons.prems(2) by (simp add: upt_rec [of k])
    moreover have "inos ! j \<noteq> 0 \<longleftrightarrow> fst ((x # xs) ! j) \<and> 0 < n_nlink (snd ((x # xs) ! j))" if "j < length (x # xs)" for j
      using m(4) i(2) True x that Cons.prems(2) by (cases j) auto
    ultimately show ?thesis using m(1,2) i(2) by (intro exI [of _ "Suc m"]) simp
  next
    case False
    then obtain inos' where i: "number_slots xs k = Inr (inos', k')" "inos = 0 # inos'"
      using Cons.prems(1) x by (auto simp: bindE_eq_Inr split: if_splits)
    obtain m where m: "k' = k + m" "length inos' = length xs" "filter (\<lambda>n. n \<noteq> 0) inos' = [k..<k + m]"
      "\<forall>i<length xs. inos' ! i \<noteq> 0 \<longleftrightarrow> fst (xs ! i) \<and> 0 < n_nlink (snd (xs ! i))"
      using Cons.IH [OF i(1) Cons.prems(2)] by auto
    have "inos ! j \<noteq> 0 \<longleftrightarrow> fst ((x # xs) ! j) \<and> 0 < n_nlink (snd ((x # xs) ! j))" if "j < length (x # xs)" for j
      using m(4) i(2) False x that by (cases j) auto
    then show ?thesis using m(1-3) i(2) by (intro exI [of _ m]) simp
  qed
qed simp

lemma number_slots_returns: "k + length xs < 2 ^ 32 \<Longrightarrow> \<exists>r. number_slots xs k = Inr r"
proof (induction xs arbitrary: k)
  case (Cons x xs)
  obtain r n where x: "x = (r, n)" by (cases x)
  obtain r1 r2 where "number_slots xs k = Inr r1" "number_slots xs (Suc k) = Inr r2"
    using Cons.IH [of k] Cons.IH [of "Suc k"] Cons.prems by auto
  then show ?case using x Cons.prems by (cases r1; cases r2) auto
qed simp

lemma filter_nth_inj:
  assumes "distinct (filter P xs)" "i < length xs" "j < length xs" "P (xs ! i)" "xs ! i = xs ! j"
  shows "i = j"
  using assms
proof (induction xs arbitrary: i j)
  case (Cons x xs)
  have mem: "xs ! k \<in> set xs" if "k < length xs" for k using that by simp
  show ?case
  proof (cases i; cases j)
    fix i' j' assume ij: "i = Suc i'" "j = Suc j'"
    then show ?thesis using Cons by (auto split: if_splits)
  next
    fix j' assume "i = 0" "j = Suc j'"
    then show ?thesis using Cons.prems mem [of j'] by auto
  next
    fix i' assume "i = Suc i'" "j = 0"
    then show ?thesis using Cons.prems mem [of i'] by auto
  qed simp
qed simp

lemma builder_closed:
  assumes "builder_inv strict b"
  shows "closed_nodes (fb_nodes b)" "fb_nodes b \<noteq> []"
proof -
  have e: "entries_ok b" "root_ok b" using assms by (simp_all add: builder_inv_def mid_inv_def)
  then show "fb_nodes b \<noteq> []" by (simp add: root_ok_def)
  have "c < length (fb_nodes b)" if "(p, c) \<in> name_edges (fb_nodes b)" for p c
  proof -
    have p: "fb_nodes b ! p \<in> set (fb_nodes b)" "c \<in> set (kind_children (n_kind (fb_nodes b ! p)))"
      using that by (simp_all add: name_edges_def)
    then obtain r where "(r, c, False) \<in> set (node_children (fb_nodes b ! p))"
      by (auto simp: kind_children_def node_children_def set_live split: node_kind.splits)
    then show ?thesis using e(1) p(1) by (fastforce simp: entries_ok_def entry_ok_def)
  qed
  then show "closed_nodes (fb_nodes b)" by (auto simp: closed_nodes_def)
qed

text \<open>The numbers of a reachable builder.\<close>

lemma slot_inodes_props:
  assumes "builder_inv strict b" "slot_inodes b = Inr (slot_ino, nxt)"
  shows "\<exists>m. nxt = 12 + m \<and> length slot_ino = length (fb_nodes b) \<and>
    slot_ino ! 0 = 2 \<and> set slot_ino - {0} = insert 2 {12..<12 + m} \<and>
    (\<forall>s<length (fb_nodes b). 0 < s \<longrightarrow> (slot_ino ! s \<noteq> 0 \<longleftrightarrow> s \<in> live_slots (fb_nodes b) \<and> 0 < n_nlink (fb_nodes b ! s))) \<and>
    (\<forall>i<length slot_ino. \<forall>j<length slot_ino. slot_ino ! i \<noteq> 0 \<and> slot_ino ! i = slot_ino ! j \<longrightarrow> i = j)"
proof -
  let ?nodes = "fb_nodes b"
  note c = builder_closed [OF assms(1)]
  obtain seen where s: "mark_reachable ?nodes [0] (replicate (length ?nodes) False) = Inr seen" "length seen = length ?nodes"
    "\<forall>s<length ?nodes. seen ! s \<longleftrightarrow> s \<in> live_slots ?nodes"
    using mark_reachable_exact [OF c] by blast
  let ?xs = "tl (zip seen ?nodes)"
  have len: "length ?xs = length ?nodes - 1" using s(2) by simp
  obtain inos where n: "number_slots ?xs 12 = Inr (inos, nxt)" "slot_ino = 2 # inos"
    using assms(2) s(1) by (auto simp: slot_inodes_def bindE_eq_Inr)
  obtain m where i: "nxt = 12 + m" "length inos = length ?xs" "filter (\<lambda>n. n \<noteq> 0) inos = [12..<12 + m]"
    "\<forall>i<length ?xs. inos ! i \<noteq> 0 \<longleftrightarrow> fst (?xs ! i) \<and> 0 < n_nlink (snd (?xs ! i))"
    using number_slots_spec [OF n(1)] by fastforce
  have ids: "set inos - {0} = {12..<12 + m}"
  proof -
    have "set inos - {0} = set (filter (\<lambda>n. n \<noteq> 0) inos)" by auto
    also have "\<dots> = set [12..<12 + m]" by (simp only: i(3))
    finally show ?thesis by simp
  qed
  have f: "filter (\<lambda>n. n \<noteq> 0) slot_ino = 2 # [12..<12 + m]" using i(3) n(2) by simp
  have "length slot_ino = length ?nodes" using i(2) len c(2) n(2) by (cases ?nodes) auto
  moreover have "slot_ino ! s \<noteq> 0 \<longleftrightarrow> s \<in> live_slots ?nodes \<and> 0 < n_nlink (?nodes ! s)"
    if sl: "s < length ?nodes" "0 < s" for s
  proof -
    obtain t where t: "s = Suc t" using sl(2) by (cases s) auto
    then have "t < length ?xs" using sl(1) len by simp
    moreover have "?xs ! t = (seen ! s, ?nodes ! s)" using t sl s(2) by (simp add: nth_tl)
    ultimately show ?thesis using i(4) s(3) sl(1) t n(2) by auto
  qed
  moreover have "i = j" if "i < length slot_ino" "j < length slot_ino" "slot_ino ! i \<noteq> 0" "slot_ino ! i = slot_ino ! j" for i j
  proof -
    have "distinct (filter (\<lambda>n. n \<noteq> 0) slot_ino)" unfolding f by simp
    then show ?thesis using filter_nth_inj that by blast
  qed
  moreover have "set slot_ino - {0} = insert 2 {12..<12 + m}"
  proof -
    have "set slot_ino - {0} = insert 2 (set inos - {0})" unfolding n(2) by auto
    then show ?thesis unfolding ids .
  qed
  moreover have "slot_ino ! 0 = 2" using n(2) by simp
  ultimately show ?thesis using i(1) by blast
qed

lemma slot_inodes_returns:
  assumes "builder_inv strict b" "length (fb_nodes b) + 12 < 2 ^ 32"
  shows "\<exists>slot_ino nxt. slot_inodes b = Inr (slot_ino, nxt)"
proof -
  let ?nodes = "fb_nodes b"
  obtain seen where s: "mark_reachable ?nodes [0] (replicate (length ?nodes) False) = Inr seen" "length seen = length ?nodes"
    using mark_reachable_exact [OF builder_closed [OF assms(1)]] by blast
  have "12 + length (tl (zip seen ?nodes)) < 2 ^ 32" using assms(2) s(2) by simp
  from number_slots_returns [OF this] show ?thesis using s(1) by (auto simp: slot_inodes_def)
qed

end
