(* ===== verification/SealGroups.thy ===== *)
theory SealGroups
  imports SealedLayout
begin

text \<open>
  The group descriptors of a sealed image: one per group, each with the free blocks of its own part of
  the bitmap, so that the free blocks of all groups and the used blocks are together the device; and the
  descriptor table, which a reader decodes back.
\<close>

section \<open>One entry per group\<close>

lemma mapE_nth: "mapE f xs = Inr ys \<Longrightarrow> i < length xs \<Longrightarrow> f (xs ! i) = Inr (ys ! i)"
proof (induction xs arbitrary: ys i)
  case (Cons x xs)
  then show ?case by (cases i) (auto simp: bindE_eq_Inr)
qed simp

lemma spans_total:
  "sum_list (map (\<lambda>k. min (k * m + m) n - k * m) [0..<c]) = min (c * m) n"
  by (induction c) (auto simp: min_def)

lemma place_groups_length:
  assumes "place_groups geo = Inr (ms, a)" "0 < geo_groups_per_flex geo"
  shows "length ms = geo_groups geo"
proof -
  let ?m = "geo_groups_per_flex geo" and ?n = "geo_groups geo"
  obtain spans where s: "mapE (place_span geo (reserved_runs geo)) (span_leaders geo) = Inr spans"
    "ms = concat (map fst spans)"
    using assms(1) by (auto simp: place_groups_def Let_def bindE_eq_Inr)
  have "sum_list (map (length \<circ> fst) spans) = sum_list (map (\<lambda>l. min (l + ?m) ?n - l) ls)"
    if "mapE (place_span geo (reserved_runs geo)) ls = Inr spans" "\<forall>l\<in>set ls. l < ?n" for ls
    using that
  proof (induction ls arbitrary: spans)
    case (Cons l ls)
    then obtain sp sps where "place_span geo (reserved_runs geo) l = Inr sp" "spans = sp # sps"
      "mapE (place_span geo (reserved_runs geo)) ls = Inr sps" by (auto simp: bindE_eq_Inr)
    then show ?case using Cons place_span_ok(3) [of geo _ l "fst sp" "snd sp"] assms(2) by auto
  qed simp
  moreover have "\<forall>l\<in>set (span_leaders geo). l < ?n" using span_leaders_less [OF _ assms(2)] by blast
  ultimately have "length ms = sum_list (map (\<lambda>l. min (l + ?m) ?n - l) (span_leaders geo))"
    using s by (simp add: length_concat o_def)
  also have "\<dots> = min (div_ceil ?n ?m * ?m) ?n"
    using spans_total [of ?m ?n "div_ceil ?n ?m"] by (simp add: span_leaders_def o_def)
  also have "\<dots> = ?n" using div_ceil_bounds(1) [OF assms(2), of ?n] by simp
  finally show ?thesis .
qed

section \<open>Free blocks\<close>

lemma groups_cover:
  assumes "geometry_wf geo" "n \<le> geo_groups geo"
  shows "concat (map (\<lambda>g. [group_start g..<group_start g + group_blocks geo g]) [0..<n]) =
    [0..<min (group_start n) (geo_blocks geo)]"
  using assms(2)
proof (induction n)
  case (Suc n)
  note b = blocks_in_group_eq [OF assms(1), of n]
  have n: "n < geo_groups geo" using Suc.prems by simp
  have s: "group_start (Suc n) = group_start n + 32768" by (simp add: group_start_def)
  have w: "geo_blocks geo \<le> geo_groups geo * 32768" "(geo_groups geo - 1) * 32768 < geo_blocks geo"
    using assms(1) by (simp_all add: geometry_wf_def)
  have e: "min (group_start (Suc n)) (geo_blocks geo) = group_start n + group_blocks geo n"
  proof (cases "Suc n = geo_groups geo")
    case True
    then show ?thesis using w b n s by (simp add: group_start_def flip: True)
  next
    case False
    then have "Suc n * 32768 \<le> (geo_groups geo - 1) * 32768" using n by (intro mult_le_mono1) simp
    then show ?thesis using False w b n s by (simp add: group_start_def)
  qed
  have "[0..<group_start n + group_blocks geo n] = [0..<group_start n] @ [group_start n..<group_start n + group_blocks geo n]"
    using upt_add_eq_append [of 0 "group_start n" "group_blocks geo n"] by simp
  moreover have "concat (map (\<lambda>g. [group_start g..<group_start g + group_blocks geo g]) [0..<n]) = [0..<group_start n]"
    using Suc b(2) n by simp
  ultimately show ?case unfolding e by (simp del: group_blocks.simps)
qed (simp add: group_start_def)

lemma groups_cover_all:
  assumes "geometry_wf geo"
  shows "concat (map (\<lambda>g. [group_start g..<group_start g + group_blocks geo g]) [0..<geo_groups geo]) = [0..<geo_blocks geo]"
proof -
  have "geo_blocks geo \<le> group_start (geo_groups geo)" using assms by (simp add: geometry_wf_def group_start_def)
  then show ?thesis using groups_cover [OF assms order_refl] by simp
qed

lemma filter_shift: "length (filter (\<lambda>i. P (k + i)) [0..<n]) = length (filter P [k..<k + n])"
proof -
  have "[k..<k + n] = map (\<lambda>i. k + i) [0..<n]" by (simp add: map_add_upt add.commute)
  then show ?thesis by (simp add: filter_map o_def)
qed

text \<open>A sealed group: its descriptor, its free blocks.\<close>

lemma seal_group_parts:
  assumes "seal_group crc fseed geo bm used inodes (g, bb, ib, it) = Inr (d, free, segs)" "geometry_wf geo" "g < geo_groups geo"
  shows "free = length (filter (\<lambda>b. \<not> bitmap_bit bm b) [group_start g..<group_start g + group_blocks geo g])"
    "bg_free_blocks_count d = of_nat free" "bg_inode_table d = of_nat it" "bg_block_bitmap d = of_nat bb"
    "bg_inode_bitmap d = of_nat ib" "bg_exclude_bitmap d = 0"
    "bg_free_inodes_count d = of_nat (geo_inodes_per_group geo - used_inodes_in_group geo used g)"
    "bg_itable_unused d = of_nat (geo_inodes_per_group geo - used_inodes_in_group geo used g)"
    "bg_used_dirs_count d = of_nat (dirs_in_group (geo_inodes_per_group geo) inodes g)"
    "free \<le> 32768"
    "last segs = \<lparr>seg_block = it, seg_blocks = itable_blocks geo, seg_src = SegItable g\<rparr>" "segs \<noteq> []"
proof -
  have f: "free = group_free_blocks bm (group_start g) (group_blocks geo g)"
    using assms blocks_in_group_eq(1) [OF assms(2,3)]
    by (auto simp: seal_group_def Let_def bindE_eq_Inr simp del: fold_append split: if_splits)
  then show free: "free = length (filter (\<lambda>b. \<not> bitmap_bit bm b) [group_start g..<group_start g + group_blocks geo g])"
    by (simp add: group_free_blocks_def filter_shift [of "\<lambda>b. \<not> bitmap_bit bm b"])
  have "group_blocks geo g \<le> 32768"
    using assms(2,3) by (auto simp: blocks_in_group_def split: sum.splits if_splits)
  moreover have "free \<le> length [group_start g..<group_start g + group_blocks geo g]" unfolding free by (rule length_filter_le)
  ultimately show "free \<le> 32768" by simp
  show "bg_free_blocks_count d = of_nat free" "bg_inode_table d = of_nat it" "bg_block_bitmap d = of_nat bb"
    "bg_inode_bitmap d = of_nat ib" "bg_exclude_bitmap d = 0"
    "bg_free_inodes_count d = of_nat (geo_inodes_per_group geo - used_inodes_in_group geo used g)"
    "bg_itable_unused d = of_nat (geo_inodes_per_group geo - used_inodes_in_group geo used g)"
    "bg_used_dirs_count d = of_nat (dirs_in_group (geo_inodes_per_group geo) inodes g)"
    "last segs = \<lparr>seg_block = it, seg_blocks = itable_blocks geo, seg_src = SegItable g\<rparr>" "segs \<noteq> []"
    using assms(1) by (auto simp: seal_group_def Let_def bindE_eq_Inr simp del: fold_append split: if_splits)
qed

lemma seal_groups_each:
  assumes "seal_groups crc fseed geo bm used inodes ms = Inr (descs, free, segs)" "g < length ms"
  shows "\<exists>f gsegs. seal_group crc fseed geo bm used inodes (g, ms ! g) = Inr (descs ! g, f, gsegs) \<and> set gsegs \<subseteq> set segs"
    "length descs = length ms"
proof -
  obtain gs where gs: "mapE (seal_group crc fseed geo bm used inodes) (enumerate 0 ms) = Inr gs" "descs = map fst gs"
    "free = sum_list (map (fst \<circ> snd) gs)" "segs = concat (map (snd \<circ> snd) gs)"
    using assms(1) by (auto simp: seal_groups_def bindE_eq_Inr)
  have l: "length gs = length ms" using mapE_length [OF gs(1)] by simp
  have "seal_group crc fseed geo bm used inodes (enumerate 0 ms ! g) = Inr (gs ! g)"
    using mapE_nth [OF gs(1)] assms(2) by simp
  then have "seal_group crc fseed geo bm used inodes (g, ms ! g) = Inr (gs ! g)"
    using assms(2) by (simp add: nth_enumerate_eq)
  moreover have "set (snd (snd (gs ! g))) \<subseteq> set segs" using l assms(2) gs(4) by (auto intro!: bexI [of _ "gs ! g"])
  ultimately show "\<exists>f gsegs. seal_group crc fseed geo bm used inodes (g, ms ! g) = Inr (descs ! g, f, gsegs) \<and> set gsegs \<subseteq> set segs"
    using gs(2) l assms(2) by (intro exI [of _ "fst (snd (gs ! g))"] exI [of _ "snd (snd (gs ! g))"]) simp
  show "length descs = length ms" using gs(2) l by simp
qed

lemma seal_groups_free:
  assumes "seal_groups crc fseed geo bm used inodes ms = Inr (descs, free, segs)" "geometry_wf geo" "length ms = geo_groups geo"
  shows "free = length (filter (\<lambda>b. \<not> bitmap_bit bm b) [0..<geo_blocks geo])"
    "free = (\<Sum>g<geo_groups geo. unat (bg_free_blocks_count (descs ! g)))"
proof -
  obtain gs where gs: "mapE (seal_group crc fseed geo bm used inodes) (enumerate 0 ms) = Inr gs" "descs = map fst gs"
    "free = sum_list (map (fst \<circ> snd) gs)"
    using assms(1) by (auto simp: seal_groups_def bindE_eq_Inr)
  have l: "length gs = geo_groups geo" using mapE_length [OF gs(1)] assms(3) by simp
  let ?part = "\<lambda>g. filter (\<lambda>b. \<not> bitmap_bit bm b) [group_start g..<group_start g + group_blocks geo g]"
  have each: "fst (snd (gs ! g)) = length (?part g)" "unat (bg_free_blocks_count (descs ! g)) = fst (snd (gs ! g))"
    if g: "g < geo_groups geo" for g
  proof -
    obtain bb ib it d f s where x: "ms ! g = (bb, ib, it)" "gs ! g = (d, f, s)" by (metis prod_cases3)
    have "seal_group crc fseed geo bm used inodes (enumerate 0 ms ! g) = Inr (gs ! g)"
      using mapE_nth [OF gs(1)] assms(3) g by simp
    then have s: "seal_group crc fseed geo bm used inodes (g, bb, ib, it) = Inr (d, f, s)"
      using assms(3) g x by (simp add: nth_enumerate_eq)
    note p = seal_group_parts [OF s assms(2) g]
    show "fst (snd (gs ! g)) = length (?part g)" using p(1) x(2) by (simp del: group_blocks.simps)
    show "unat (bg_free_blocks_count (descs ! g)) = fst (snd (gs ! g))"
      using p(2,10) x(2) gs(2) l g by (simp add: unat_of_nat)
  qed
  have sums: "sum_list (map (fst \<circ> snd) gs) = (\<Sum>g<geo_groups geo. fst (snd (gs ! g)))"
    using l by (simp add: sum_list_sum_nth atLeast0LessThan)
  show "free = (\<Sum>g<geo_groups geo. unat (bg_free_blocks_count (descs ! g)))"
    unfolding gs(3) sums using each(2) by simp
  have "length (filter (\<lambda>b. \<not> bitmap_bit bm b) [0..<geo_blocks geo]) =
      length (concat (map ?part [0..<geo_groups geo]))"
    unfolding groups_cover_all [OF assms(2), symmetric] filter_concat map_map o_def ..
  also have "\<dots> = (\<Sum>g<geo_groups geo. length (?part g))"
    by (simp add: length_concat o_def sum_list_sum_nth atLeast0LessThan del: group_blocks.simps)
  also have "\<dots> = free" unfolding gs(3) sums using each(1) by (intro sum.cong) simp_all
  finally show "free = length (filter (\<lambda>b. \<not> bitmap_bit bm b) [0..<geo_blocks geo])" by simp
qed

lemma count_unset:
  assumes "distinct us" "\<forall>u\<in>set us. u < n" "\<forall>b<n. P b \<longleftrightarrow> b \<in> set us"
  shows "length (filter (\<lambda>b. \<not> P b) [0..<n]) + length us = n"
proof -
  have "filter P [0..<n] = filter (\<lambda>b. b \<in> set us) [0..<n]" using assms(3) by (intro filter_cong) auto
  moreover have "set (filter (\<lambda>b. b \<in> set us) [0..<n]) = set us" using assms(2) by auto
  ultimately have "length (filter P [0..<n]) = length us"
    using assms(1) by (metis distinct_card distinct_filter distinct_upt)
  then show ?thesis using sum_length_filter_compl [of P "[0..<n]"] by simp
qed

section \<open>The descriptor table\<close>

lemma put_descs_zeros:
  assumes "foldE put_desc (enumerate k ds) (pre @ zeros_buf n) = Inr gdt" "length pre = k * 32" "32 * length ds \<le> n"
  shows "gdt = pre @ concat (map group_desc_bytes ds) @ zeros_buf (n - 32 * length ds)"
  using assms
proof (induction ds arbitrary: k pre n)
  case (Cons d ds)
  have "poke (pre @ zeros_buf n) (k * 32) (group_desc_bytes d) = (pre @ group_desc_bytes d) @ zeros_buf (n - 32)"
    using Cons.prems by (simp add: poke_def zeros_buf_def)
  then have "foldE put_desc (enumerate (Suc k) ds) ((pre @ group_desc_bytes d) @ zeros_buf (n - 32)) = Inr gdt"
    using Cons.prems by (simp add: put_desc_def)
  from Cons.IH [OF this] show ?case using Cons.prems(2,3) by simp
qed simp

lemma gdt_bytes_table:
  assumes "gdt_bytes geo descs = Inr gdt" "geometry_wf geo" "length descs = geo_groups geo"
  shows "gdt = concat (map group_desc_bytes descs) @ zeros_buf (geo_gdt_blocks geo * 4096 - 32 * geo_groups geo)"
  using put_descs_zeros [of 0 descs "[]" "geo_gdt_blocks geo * 4096" gdt] assms
  by (simp add: gdt_bytes_def geometry_wf_def mult.commute)

lemma dirs_in_group_le:
  assumes "0 < ipg"
  shows "dirs_in_group ipg inodes g \<le> ipg"
proof -
  let ?P = "\<lambda>(idx, raw). idx div ipg = g \<and> raw_is_dir raw"
  have "dirs_in_group ipg inodes g = card (set (map fst (filter ?P (enumerate 0 inodes))))"
    unfolding dirs_in_group_def
    by (subst distinct_card) (simp_all add: distinct_map_filter)
  also have "\<dots> \<le> card {g * ipg..<g * ipg + ipg}"
  proof (rule card_mono)
    show "set (map fst (filter ?P (enumerate 0 inodes))) \<subseteq> {g * ipg..<g * ipg + ipg}"
    proof
      fix x assume "x \<in> set (map fst (filter ?P (enumerate 0 inodes)))"
      then have "x div ipg = g" by auto
      then show "x \<in> {g * ipg..<g * ipg + ipg}"
        using assms div_times_less_eq_dividend [of x ipg] dividend_less_div_times [OF assms, of x] by auto
    qed
  qed simp
  finally show ?thesis by simp
qed

end
