(* ===== verification/SealedOpen.thy ===== *)
theory SealedOpen
  imports SealGroups SealNumbers ReadFile WriterRun
begin

text \<open>
  A built image opens: the reader finds the superblock that sealing rendered, accepts its checksum and
  its geometry, and reads back the descriptor table.
\<close>

section \<open>The built image\<close>

definition image_bytes :: "layout \<Rightarrow> (handle \<times> bytes) list \<Rightarrow> bytes" where
  "image_bytes lay fills = map (device_byte lay fills) [0..<image_len lay]"

lemma length_image_bytes [simp]: "length (image_bytes lay fills) = image_len lay"
  by (simp add: image_bytes_def)

lemma vec_step_length:
  "emit_step vec_data vec_zeros e buf = Inr buf' \<Longrightarrow> length buf' = max (length buf) (emit_end e)"
  by (cases e) (auto simp: vec_data_def vec_zeros_def Let_def resize_def)

lemma vec_length:
  "emit_all vec_data vec_zeros es buf = Inr buf' \<Longrightarrow> \<forall>e\<in>set es. emit_end e \<le> n \<Longrightarrow> length buf \<le> n \<Longrightarrow>
   length buf' \<le> n \<and> (\<forall>e\<in>set es. emit_end e \<le> length buf') \<and> length buf \<le> length buf'"
proof (induction es arbitrary: buf)
  case (Cons e es)
  obtain b where b: "emit_step vec_data vec_zeros e buf = Inr b" "emit_all vec_data vec_zeros es b = Inr buf'"
    using Cons.prems(1) by (auto simp: emit_all_def bindE_eq_Inr)
  then show ?case using Cons.IH [OF b(2)] Cons.prems vec_step_length [OF b(1)] by auto
qed (simp add: emit_all_def)

text \<open>The checked run leaves exactly the image.\<close>

lemma checked_image:
  assumes "layout_ok lay" "files_ok lay" "fills_ok lay {} fills"
  shows "\<exists>cs. build_image (checking_data vec_data) (checking_zeros vec_zeros) lay fills (checking_new []) =
      Inr (\<lparr>sum_image_len = image_len lay, sum_data_bytes = sum (file_size lay) (fillable lay)\<rparr>, cs) \<and>
    checking_finish cs (image_len lay) = Inr (image_bytes lay fills)"
proof -
  let ?n = "image_len lay" and ?d = "checking_data vec_data" and ?z = "checking_zeros vec_zeros"
  have n: "0 < ?n" using assms(1) by (simp add: layout_ok_def)
  obtain es where es: "emits_exactly ?n (\<lambda>i. i < ?n) (device_byte lay fills) es"
    "\<And>s. build_image ?d ?z lay fills s = bindE (emit_all ?d ?z es s) (\<lambda>s.
      Inr (\<lparr>sum_image_len = ?n, sum_data_bytes = sum (file_size lay) (fillable lay)\<rparr>, s))"
    using build_image_emits [OF assms, of ?d ?z] by blast
  have cover: "emits_disjoint es" "emits_cover es = {0..<?n}" "\<forall>e\<in>set es. emit_end e \<le> ?n"
    using es(1) by (auto simp: emits_exactly_def)
  obtain buf where buf: "emit_all vec_data vec_zeros es [] = Inr buf" "buf_store buf = image_of es"
    using vs.emit_all_image [OF _ cover(3,1), of "[]"] by (auto simp: buf_store_def fun_eq_iff)
  have len: "length buf = ?n"
  proof -
    have "?n - 1 \<in> emits_cover es" using cover(2) n by simp
    then obtain e where "e \<in> set es" "?n - 1 \<in> emit_range e" by (auto simp: emits_cover_def)
    moreover have "?n \<le> emit_end e" using calculation(2) n by (cases e) auto
    ultimately show ?thesis using vec_length [OF buf(1) cover(3)] by force
  qed
  have "buf ! i = device_byte lay fills i" if "i < ?n" for i
    using fun_cong [OF buf(2), of i] image_of_exactly [OF es(1)] that len by (simp add: buf_store_def)
  then have image: "buf = image_bytes lay fills" using len by (intro nth_equalityI) (simp_all add: image_bytes_def)
  then have "bindE (emit_all ?d ?z es (checking_new [])) (\<lambda>cs. checking_finish cs ?n) = Inr (image_bytes lay fills)"
    using checking_accepts_iff [OF n, of vec_data vec_zeros es "[]" buf] cover buf(1) by simp
  then obtain cs where "emit_all ?d ?z es (checking_new []) = Inr cs" "checking_finish cs ?n = Inr (image_bytes lay fills)"
    by (auto simp: res_simps)
  then show ?thesis using es by auto
qed

section \<open>Where segments are\<close>

lemma runs_ok_unique:
  assumes "runs_ok rs" "q \<in> set rs" "r \<in> set rs" "in_run b q" "in_run b r"
  shows "q = r"
proof (rule ccontr)
  assume "q \<noteq> r"
  then show False using assms
  proof (induction rs)
    case (Cons x xs)
    then show ?case unfolding runs_ok_Cons by (fastforce simp: in_run_def)
  qed simp
qed

lemma runs_ok_distinct: "runs_ok rs \<Longrightarrow> distinct rs"
proof (induction rs)
  case (Cons r rs)
  then have "r \<notin> set rs" unfolding runs_ok_Cons by (metis add_le_same_cancel1 not_less)
  then show ?case using Cons by (simp add: runs_ok_Cons)
qed simp

lemma find_unique: "x \<in> set xs \<Longrightarrow> P x \<Longrightarrow> (\<And>y. y \<in> set xs \<Longrightarrow> P y \<Longrightarrow> x = y) \<Longrightarrow> find P xs = Some x"
proof (induction xs)
  case (Cons a xs)
  show ?case
  proof (cases "P a")
    case True
    then have "x = a" by (intro Cons.prems(3)) simp_all
    then show ?thesis using True by simp
  next
    case False
    then have "x \<in> set xs" using Cons.prems(1,2) by auto
    then have "find P xs = Some x" using Cons.prems(2) by (rule Cons.IH) (rule Cons.prems(3), simp_all)
    then show ?thesis using False by simp
  qed
qed simp

lemma segment_device:
  assumes "layout_ok lay" "files_ok lay" "s \<in> set (lay_segments lay)" "fst ` set fills \<subseteq> fillable lay"
    and "seg_block s * 4096 \<le> i" "i < (seg_block s + seg_blocks s) * 4096"
  shows "device_byte lay fills i = seg_byte lay s i"
proof -
  have blk: "seg_block s \<le> i div 4096" "i div 4096 < seg_block s + seg_blocks s"
    using assms(5,6) by (simp_all add: less_eq_div_iff_mult_less_eq div_less_iff_less_mult)
  have l: "runs_ok (map seg_run (lay_segments lay))"
    "\<And>r. r \<in> set (lay_data_runs lay) \<Longrightarrow> run_start r + run_len r \<le> seg_block s \<or> seg_block s + seg_blocks s \<le> run_start r"
    using assms(1,3) by (auto simp: layout_ok_def)
  have none: "\<not> in_runs (file_runs_of lay f) (i div 4096)" if "f < length (lay_file_runs lay)" for f
  proof
    assume "in_runs (file_runs_of lay f) (i div 4096)"
    then have "in_runs (lay_data_runs lay) (i div 4096)" using assms(2) that by (auto simp: files_ok_def)
    then show False using l(2) blk by (fastforce simp: in_runs_def in_run_def)
  qed
  have "find (\<lambda>(f, _). in_runs (file_runs_of lay f) (block_of i)) fills = None"
    using none assms(4) by (force simp: find_None_iff fillable_def)
  moreover have "find (\<lambda>q. in_run (block_of i) (seg_run q)) (lay_segments lay) = Some s"
  proof -
    have P: "in_run (block_of i) (seg_run s)" using blk by (simp add: in_run_def)
    have "s = q" if q: "q \<in> set (lay_segments lay)" "in_run (block_of i) (seg_run q)" for q
    proof -
      have "seg_run s \<in> seg_run ` set (lay_segments lay)" "seg_run q \<in> seg_run ` set (lay_segments lay)"
        using assms(3) q(1) by blast+
      then have "seg_run s = seg_run q" using runs_ok_unique [OF l(1) _ _ P] q(2) by simp
      moreover have "inj_on seg_run (set (lay_segments lay))" using runs_ok_distinct [OF l(1)] by (simp only: distinct_map)
      ultimately show ?thesis using assms(3) q(1) by (simp only: inj_on_eq_iff)
    qed
    note u = this
    show ?thesis by (rule find_unique) (fact assms(3), fact P, rule u)
  qed
  ultimately show ?thesis by (simp add: device_byte_def meta_byte_def)
qed

text \<open>What the source delivers at a rendered segment.\<close>

lemma read_segment:
  assumes "layout_ok lay" "files_ok lay" "s \<in> set (lay_segments lay)" "fst ` set fills \<subseteq> fillable lay"
    and "k + n \<le> seg_blocks s * 4096" "image_len lay < 2 ^ 63"
  shows "read_at (slice_source (image_bytes lay fills)) (seg_block s * 4096 + k) n =
    Inr (map (\<lambda>j. seg_byte lay s (seg_block s * 4096 + k + j)) [0..<n])"
proof -
  have "seg_block s + seg_blocks s \<le> total_blocks lay" "image_len lay mod 4096 = 0"
    using assms(1,3) by (auto simp: layout_ok_def)
  then have "(seg_block s + seg_blocks s) * 4096 \<le> image_len lay"
    using mult_le_mono1 [of _ "image_len lay div 4096" 4096] by (simp add: total_blocks_def mod_eq_0_iff_dvd)
  then have inside: "seg_block s * 4096 + k + n \<le> image_len lay" using assms(5) by (simp add: algebra_simps)
  have "peek (image_bytes lay fills) (seg_block s * 4096 + k) n =
      map (\<lambda>j. seg_byte lay s (seg_block s * 4096 + k + j)) [0..<n]"
  proof (intro nth_equalityI)
    fix j assume "j < length (peek (image_bytes lay fills) (seg_block s * 4096 + k) n)"
    then have j: "j < n" using inside by simp
    have "device_byte lay fills (seg_block s * 4096 + k + j) = seg_byte lay s (seg_block s * 4096 + k + j)"
      using j assms(5) by (intro segment_device [OF assms(1-4)]) (simp_all add: algebra_simps)
    then show "peek (image_bytes lay fills) (seg_block s * 4096 + k) n ! j =
        map (\<lambda>j. seg_byte lay s (seg_block s * 4096 + k + j)) [0..<n] ! j"
      using j inside by (simp add: peek_def image_bytes_def)
  qed (use inside in \<open>simp add: peek_def\<close>)
  then show ?thesis using inside assms(6) by (simp add: read_at_def slice_source_def)
qed

lemma read_bytes_segment:
  assumes "layout_ok lay" "files_ok lay" "s \<in> set (lay_segments lay)" "fst ` set fills \<subseteq> fillable lay"
    and "seg_src s = SegBytes bs" "k + n \<le> length bs" "image_len lay < 2 ^ 63"
  shows "read_at (slice_source (image_bytes lay fills)) (seg_block s * 4096 + k) n = Inr (peek bs k n)"
proof -
  have l: "length bs = seg_blocks s * 4096" using assms(1,3,5) by (auto simp: layout_ok_def seg_ok_def)
  have "map (\<lambda>j. seg_byte lay s (seg_block s * 4096 + k + j)) [0..<n] = peek bs k n"
    using assms(6) by (intro nth_equalityI) (simp_all add: seg_byte_def assms(5) peek_def Let_def)
  then show ?thesis using read_segment [OF assms(1-4) _ assms(7), of k n] l assms(6) by simp
qed

section \<open>The rendered superblock\<close>

lemma superblock_bytes_front:
  "take 0x3FC (superblock_bytes (sb\<lparr>s_checksum := c\<rparr>)) = take 0x3FC (superblock_bytes sb)"
  by (simp add: superblock_bytes_def Let_def buf_simps)

lemma seal_sb_decodes:
  assumes "seal_sb_bytes crc sb0 = Inr (sb, bs)" "superblock_wf sb0"
  shows "\<exists>c. sb = sb0\<lparr>s_checksum := c\<rparr>" "superblock_decode bs = Inr sb" "csum_superblock crc bs = Inr (s_checksum sb)"
    "length bs = 1024"
proof -
  obtain c where c: "csum_superblock crc (superblock_bytes sb0) = Inr c" "sb = sb0\<lparr>s_checksum := c\<rparr>"
    "bs = superblock_bytes sb"
    using assms(1) by (auto simp: seal_sb_bytes_def superblock_encode_def bindE_eq_Inr)
  then show "\<exists>c. sb = sb0\<lparr>s_checksum := c\<rparr>" "length bs = 1024" by auto
  have "superblock_wf sb" using assms(2) c(2) by (simp add: superblock_wf_def)
  then show "superblock_decode bs = Inr sb" using superblock_decode_bytes [of sb "[]"] c(3) by simp
  show "csum_superblock crc bs = Inr (s_checksum sb)"
    using c superblock_bytes_front [where sb = sb0 and c = c] by (simp add: csum_superblock_def superblock_sum_def)
qed

text \<open>The pieces of a rendered layout.\<close>

lemma renderE:
  assumes "render_all crc b geo fseed slot_ino max_ino n pl = Inr lay"
  obtains bm used descs free gsegs gdt name sb sbb backups jseg where
    "block_bitmap geo (used_runs geo (pl_group_meta pl) (fst (pl_journal pl)) (fst (pl_lost_found pl))
       (ns_dirs (pl_names pl)) (ds_data_runs (pl_data pl)) (st_segments (pl_data pl))) = Inr (bm, used)"
    "seal_inodes crc b geo fseed slot_ino max_ino (snd (pl_journal pl)) (snd (pl_lost_found pl)) (pl_names pl) (pl_data pl) =
       Inr (lay_inodes lay)"
    "seal_groups crc fseed geo bm max_ino (lay_inodes lay) (pl_group_meta pl) = Inr (descs, free, gsegs)"
    "gdt_bytes geo descs = Inr gdt" "volume_name (opt_label (fb_opts b)) = Inr name"
    "seal_sb_bytes crc (seal_superblock (fb_opts b) geo n max_ino free used (lay_inodes lay ! (unat JOURNAL_INO - 1)) name) =
       Inr (sb, sbb)"
    "set (lay_segments lay) = set (st_segments (pl_data pl)) \<union> set gsegs \<union> set (primary_segs geo sbb gdt) \<union>
       set (concat backups) \<union> {jseg} \<union> set (map (\<lambda>(block, bs). block_seg block bs) (ns_rendered (pl_names pl)))"
    "journal_seg geo (opt_fs_uuid (fb_opts b)) (fst (pl_journal pl)) = Inr jseg"
proof -
  obtain bm used where r1: "block_bitmap geo (used_runs geo (pl_group_meta pl) (fst (pl_journal pl)) (fst (pl_lost_found pl))
       (ns_dirs (pl_names pl)) (ds_data_runs (pl_data pl)) (st_segments (pl_data pl))) = Inr (bm, used)"
    using assms by (auto simp: render_all_def Let_def bindE_eq_Inr)
  obtain inodes where r2: "seal_inodes crc b geo fseed slot_ino max_ino (snd (pl_journal pl)) (snd (pl_lost_found pl))
      (pl_names pl) (pl_data pl) = Inr inodes"
    using assms r1 by (auto simp: render_all_def Let_def bindE_eq_Inr)
  obtain descs free gsegs where r3: "seal_groups crc fseed geo bm max_ino inodes (pl_group_meta pl) = Inr (descs, free, gsegs)"
    using assms r1 r2 by (auto simp: render_all_def Let_def bindE_eq_Inr)
  obtain gdt name where r4: "gdt_bytes geo descs = Inr gdt" "volume_name (opt_label (fb_opts b)) = Inr name"
    using assms r1 r2 r3 by (auto simp: render_all_def Let_def bindE_eq_Inr)
  obtain sb sbb where r5: "seal_sb_bytes crc (seal_superblock (fb_opts b) geo n max_ino free used
      (inodes ! (unat JOURNAL_INO - 1)) name) = Inr (sb, sbb)"
    using assms r1 r2 r3 r4 by (auto simp: render_all_def Let_def bindE_eq_Inr)
  obtain backups jseg where r6: "mapE (backup_segs crc geo sb gdt) (backup_groups geo) = Inr backups"
    "journal_seg geo (opt_fs_uuid (fb_opts b)) (fst (pl_journal pl)) = Inr jseg"
    using assms r1 r2 r3 r4 r5 by (auto simp: render_all_def Let_def bindE_eq_Inr)
  have i: "lay_inodes lay = inodes"
    and segs: "set (lay_segments lay) = set (st_segments (pl_data pl)) \<union> set gsegs \<union> set (primary_segs geo sbb gdt) \<union>
       set (concat backups) \<union> {jseg} \<union> set (map (\<lambda>(block, bs). block_seg block bs) (ns_rendered (pl_names pl)))"
    using assms r1 r2 r3 r4 r5 r6 by (auto simp: render_all_def Let_def)
  show thesis by (rule that [OF r1 _ _ r4 _ segs]) (use r2 r3 r5 r6 i in simp_all)
qed

section \<open>Opening\<close>

text \<open>The sizes the types of \<^verbatim>\<open>Options\<close> fix, and the bound its check gives.\<close>

definition options_wf :: "options \<Rightarrow> bool" where
  "options_wf opts \<longleftrightarrow> length (opt_fs_uuid opts) = 16 \<and> length (opt_hash_seed opts) = 4 \<and> opt_reserved_percent opts \<le> 100"

lemma volume_name_length: "volume_name l = Inr name \<Longrightarrow> length name = 16"
  by (auto simp: volume_name_def split: option.splits if_splits)

lemma seal_superblock_wf:
  assumes "options_wf opts" "geometry_wf geo" "length name = 16" "free \<le> geo_blocks geo"
  shows "superblock_wf (seal_superblock opts geo n used free used_blocks raw name)"
proof -
  have b: "geo_blocks geo < 2 ^ 32 - 1" using assms(2) by (simp add: geometry_wf_def)
  have "geo_blocks geo * opt_reserved_percent opts div 100 \<le> geo_blocks geo * 100 div 100"
    using assms(1) by (intro div_le_mono mult_le_mono2) (simp add: options_wf_def)
  then have r: "geo_blocks geo * opt_reserved_percent opts div 100 < 2 ^ 32" using b by simp
  have free: "free < 2 ^ 32" using assms(4) b by simp
  show ?thesis
    using assms(1,3) b r free by (simp add: superblock_wf_def seal_superblock_def options_wf_def jnl_backup_def unat_of_nat Let_def)
qed

lemma group_count_geo:
  assumes "geometry_wf geo" "s_blocks_count sb = of_nat (geo_blocks geo)" "s_first_data_block sb = 0" "s_blocks_per_group sb = 32768"
  shows "superblock_group_count sb = Inr (of_nat (geo_groups geo))"
proof -
  have w: "geo_blocks geo < 2 ^ 32 - 1" "(geo_groups geo - 1) * 32768 < geo_blocks geo" "geo_blocks geo \<le> geo_groups geo * 32768"
    "1 \<le> geo_groups geo" using assms(1) by (simp_all add: geometry_wf_def)
  have u: "unat (of_nat (geo_blocks geo) :: u64) = geo_blocks geo" using w(1) by (simp add: unat_of_nat)
  have q: "unat (of_nat (geo_blocks geo) div 32768 :: u64) = geo_blocks geo div 32768"
    "((of_nat (geo_blocks geo) :: u64) mod 32768 = 0) = (geo_blocks geo mod 32768 = 0)"
  proof -
    show "unat (of_nat (geo_blocks geo) div 32768 :: u64) = geo_blocks geo div 32768" using u by (simp add: unat_div_distrib)
    have "unat ((of_nat (geo_blocks geo) :: u64) mod 32768) = geo_blocks geo mod 32768" using u by (simp add: unat_mod_distrib)
    then show "((of_nat (geo_blocks geo) :: u64) mod 32768 = 0) = (geo_blocks geo mod 32768 = 0)" by (metis unat_eq_zero)
  qed
  have quot: "geo_groups geo = (if geo_blocks geo mod 32768 = 0 then geo_blocks geo div 32768 else geo_blocks geo div 32768 + 1)"
  proof -
    obtain k where k: "geo_groups geo = Suc k" using w(4) by (cases "geo_groups geo") auto
    define q r where "q = geo_blocks geo div 32768" and "r = geo_blocks geo mod 32768"
    have e: "geo_blocks geo = 32768 * q + r" "r < 32768" by (simp_all add: q_def r_def)
    have "Suc k = (if r = 0 then q else q + 1)" using w(2,3) k e by (cases "r = 0") simp_all
    then show ?thesis using k by (simp add: q_def r_def)
  qed
  have s: "unat ((x :: u64) + 1) = unat x + 1" if "unat x < 2 ^ 32" for x
    using that by (subst unat_add_lem [THEN iffD1]) simp_all
  have "unat (u64_div_ceil (of_nat (geo_blocks geo)) 32768) = geo_groups geo"
  proof (cases "geo_blocks geo mod 32768 = 0")
    case True
    then have "geo_blocks geo div 32768 = geo_groups geo" using quot by auto
    then show ?thesis using q True by (simp add: u64_div_ceil_def)
  next
    case False
    then have "geo_blocks geo div 32768 + 1 = geo_groups geo" using quot by auto
    moreover have "geo_blocks geo div 32768 < 2 ^ 32" using w(1) by simp
    ultimately show ?thesis using q s [of "of_nat (geo_blocks geo) div 32768"] False by (simp add: u64_div_ceil_def)
  qed
  then have "u64_div_ceil (of_nat (geo_blocks geo)) 32768 = of_nat (geo_groups geo)"
    using geometry_bounds(1) [OF assms(1)] by (simp add: word_unat_eq_iff unat_of_nat)
  then show ?thesis using assms by (simp add: superblock_group_count_def Let_def)
qed


lemma unat_groups:
  assumes "geometry_wf geo"
  shows "unat (of_nat (geo_groups geo) :: u64) = geo_groups geo"
  using geometry_bounds(1) [OF assms] by (simp add: unat_of_nat)

text \<open>What opening needs of the superblock and of the two reads.\<close>

lemma Fs_open_sealed:
  assumes geo: "geometry_wf geo" and n: "n \<le> geo_inodes_per_group geo * geo_groups geo"
    and sb: "sb = (seal_superblock opts geo n used free used_blocks raw name)\<lparr>s_checksum := c\<rparr>"
    and reads: "read_at src 1024 1024 = Inr sbb" "superblock_decode sbb = Inr sb" "csum_superblock crc sbb = Inr (s_checksum sb)"
      "read_at src 4096 (geo_groups geo * 32) = Inr gdt"
  shows "Fs_open crc src = Inr \<lparr>fs_src = src, fs_sb = sb, fs_gdt = gdt, fs_block_size = 4096,
    fs_csum_seed = fs_seed crc (opt_fs_uuid opts)\<rparr>"
proof -
  have w: "geo_inodes_per_group geo \<le> 32768" "16 \<le> geo_inodes_per_group geo" "geo_blocks geo < 2 ^ 32 - 1" "2048 \<le> geo_blocks geo"
    using geo by (simp_all add: geometry_wf_def)
  have f: "s_blocks_per_group sb = 32768" "s_inodes_per_group sb = of_nat (geo_inodes_per_group geo)" "s_inode_size sb = 256"
    "s_blocks_count sb = of_nat (geo_blocks geo)" "s_first_data_block sb = 0" "s_log_block_size sb = 2"
    "s_inodes_count sb = of_nat n" "s_desc_size sb = 0" "s_feature_incompat sb = incompat_WRITER"
    "s_feature_ro_compat sb = ro_compat_WRITER" "s_uuid sb = opt_fs_uuid opts"
    by (simp_all add: sb seal_superblock_def Let_def)
  note g = group_count_geo [OF geo f(4,5,1)] unat_groups [OF geo] geometry_bounds(1) [OF geo]
  have ipg: "unat (of_nat (geo_inodes_per_group geo) :: u32) = geo_inodes_per_group geo" using w(1) by (simp add: unat_of_nat)
  have ipg0: "(of_nat (geo_inodes_per_group geo) :: u32) \<noteq> 0" using ipg w(2) by (metis not_numeral_le_zero unat_0)
  have cap: "geo_inodes_per_group geo * geo_groups geo \<le> 32768 * 131072" by (rule mult_le_mono) (use w(1) g(3) in simp_all)
  then have nn: "unat (of_nat n :: u32) \<le> geo_inodes_per_group geo * geo_groups geo"
  proof -
    have "unat (of_nat n :: u32) \<le> n" by (simp add: unat_of_nat)
    then show ?thesis using n by (rule order.trans)
  qed
  have blocks: "(of_nat (geo_blocks geo) :: u64) \<noteq> 0"
  proof -
    have "unat (of_nat (geo_blocks geo) :: u64) = geo_blocks geo" using w(3) by (simp add: unat_of_nat)
    then show ?thesis using w(4) by (metis not_numeral_le_zero unat_0)
  qed
  have geometry: "check_geometry sb = Inr ()"
    using f g ipg ipg0 cap nn blocks w(1)
    by (simp add: check_geometry_def mul64_def superblock_desc_size_def mult.commute)
  have size: "superblock_block_size sb = Inr 4096" using f by (simp add: superblock_block_size_def)
  have seed: "open_seed crc sb = fs_seed crc (opt_fs_uuid opts)" using f by (simp add: open_seed_def incompat_WRITER_def)
  show ?thesis
    unfolding Fs_open_def using reads f g geometry size seed writer_features_readable
    by (simp add: superblock_desc_size_def has_metadata_csum_def)
qed


section \<open>Descriptors\<close>

definition gdt_holds :: "geometry \<Rightarrow> (nat \<times> nat \<times> nat) list \<Rightarrow> group_desc list \<Rightarrow> bool" where
  "gdt_holds geo ms descs \<longleftrightarrow> length descs = geo_groups geo \<and> length ms = geo_groups geo \<and>
    (\<forall>g<geo_groups geo. group_desc_wf32 (descs ! g) \<and> unat (bg_inode_table (descs ! g)) = snd (snd (ms ! g)))"

lemma u16_small: "unat (ucast (x :: u16) :: u32) < 65536"
  using unat_bounds(1) [of x] by (simp add: unsigned_ucast_eq take_bit_nat_eq_self)

lemma seal_group_wf32:
  assumes "seal_group crc fseed geo bm used inodes (g, bb, ib, it) = Inr (d, free, segs)" "geometry_wf geo" "g < geo_groups geo"
    and "bb < geo_blocks geo" "ib < geo_blocks geo" "it < geo_blocks geo"
  shows "group_desc_wf32 d" "unat (bg_inode_table d) = it"
proof -
  note p = seal_group_parts [OF assms(1-3)]
  have w: "geo_blocks geo < 2 ^ 32 - 1" "geo_inodes_per_group geo \<le> 32768" "0 < geo_inodes_per_group geo"
    using assms(2) by (simp_all add: geometry_wf_def)
  have csums: "\<exists>x y. bg_block_bitmap_csum d = ucast (x :: u16) \<and> bg_inode_bitmap_csum d = ucast (y :: u16)"
    using assms(1)
    by (auto simp: seal_group_def Let_def bindE_eq_Inr simp del: fold_append split: if_splits intro: exI [of _ "0 :: u16"])
  have small: "dirs_in_group (geo_inodes_per_group geo) inodes g < 65536"
    "geo_inodes_per_group geo - used_inodes_in_group geo used g < 65536" "free < 65536"
    using dirs_in_group_le [OF w(3), of inodes g] w(2) p(10) by simp_all
  then show "group_desc_wf32 d"
    using p assms(4-6) w(1) csums u16_small by (auto simp: group_desc_wf32_def unat_of_nat)
  show "unat (bg_inode_table d) = it" using p(3) assms(6) w(1) by (simp add: unat_of_nat)
qed

lemma seal_groups_hold:
  assumes "seal_groups crc fseed geo bm used inodes ms = Inr (descs, free, segs)" "geometry_wf geo"
    and "length ms = geo_groups geo" "\<forall>b\<in>set (meta_blocks geo ms). b < geo_blocks geo"
  shows "gdt_holds geo ms descs"
    "g < geo_groups geo \<Longrightarrow> \<lparr>seg_block = snd (snd (ms ! g)), seg_blocks = itable_blocks geo, seg_src = SegItable g\<rparr> \<in> set segs"
proof -
  have each: "group_desc_wf32 (descs ! g) \<and> unat (bg_inode_table (descs ! g)) = snd (snd (ms ! g)) \<and>
      \<lparr>seg_block = snd (snd (ms ! g)), seg_blocks = itable_blocks geo, seg_src = SegItable g\<rparr> \<in> set segs"
    if g: "g < geo_groups geo" for g
  proof -
    have l: "g < length ms" using g assms(3) by simp
    obtain bb ib it where m: "ms ! g = (bb, ib, it)" by (metis prod_cases3)
    obtain f gsegs where s: "seal_group crc fseed geo bm used inodes (g, bb, ib, it) = Inr (descs ! g, f, gsegs)"
      "set gsegs \<subseteq> set segs"
      using seal_groups_each(1) [OF assms(1) l] m by auto
    have "(bb, ib, it) \<in> set ms" using l m by (metis nth_mem)
    then have "{bb, ib, it} \<subseteq> set (meta_blocks geo ms)"
      using geometry_bounds(5) [OF assms(2)] by (fastforce simp: meta_blocks_def group_meta_runs_def expand_runs_def)
    then have b: "bb < geo_blocks geo" "ib < geo_blocks geo" "it < geo_blocks geo" using assms(4) by auto
    have "last gsegs \<in> set gsegs" using seal_group_parts(12) [OF s(1) assms(2) g] by simp
    then show ?thesis using seal_group_wf32 [OF s(1) assms(2) g b] seal_group_parts(11) [OF s(1) assms(2) g] s(2) m by auto
  qed
  show "gdt_holds geo ms descs"
    using each seal_groups_each(2) [OF assms(1), of 0] assms(2,3) by (auto simp: gdt_holds_def geometry_wf_def)
  show "g < geo_groups geo \<Longrightarrow> \<lparr>seg_block = snd (snd (ms ! g)), seg_blocks = itable_blocks geo, seg_src = SegItable g\<rparr> \<in> set segs"
    using each by blast
qed

lemma read_desc_sealed:
  assumes "gdt_holds geo ms descs" "g < geo_groups geo" "geometry_wf geo"
    and "fs_gdt f = concat (map group_desc_bytes descs)" "superblock_desc_size (fs_sb f) = 32"
  shows "read_group_desc f g = Inr (descs ! g)"
proof -
  have g: "g < length descs" "group_desc_wf32 (descs ! g)" using assms(1,2) by (simp_all add: gdt_holds_def)
  have "g * 32 + 32 \<le> length (fs_gdt f)"
    using g(1) group_desc_codec.length_table [of descs] assms(4) by simp
  moreover have "g * 32 < 2 ^ 64" using assms(2) geometry_bounds(1) [OF assms(3)] by simp
  moreover have "group_desc_decode (peek (fs_gdt f) (g * 32) 32) = Inr (descs ! g)"
    using group_desc_codec.dec_table [OF g, of "[]"] assms(4) by simp
  ultimately show ?thesis using assms(5) by (simp add: read_group_desc_def read_group_desc_raw_def Let_def mul64_def)
qed


section \<open>Opening a sealed image\<close>

lemma read_inode_slot:
  assumes lay: "layout_ok lay" "files_ok lay" "fst ` set fills \<subseteq> fillable lay" "image_len lay < 2 ^ 63"
    and geo: "geometry_wf geo" "lay_geo lay = geo"
    and f: "fs_src f = slice_source (image_bytes lay fills)" "fs_block_size f = 4096" "s_inode_size (fs_sb f) = 256"
      "s_inodes_per_group (fs_sb f) = of_nat (geo_inodes_per_group geo)" "s_inodes_count (fs_sb f) = of_nat n"
    and n: "n < 2 ^ 32" "n \<le> geo_inodes_per_group geo * geo_groups geo"
    and desc: "\<And>g. g < geo_groups geo \<Longrightarrow> \<exists>d. read_group_desc f g = Inr d \<and>
      \<lparr>seg_block = unat (bg_inode_table d), seg_blocks = itable_blocks geo, seg_src = SegItable g\<rparr> \<in> set (lay_segments lay)"
    and ino: "0 < ino" "ino \<le> length (lay_inodes lay)" "ino \<le> n"
  shows "inode_raw f (of_nat ino) = Inr (lay_inodes lay ! (ino - 1))"
proof -
  let ?ipg = "geo_inodes_per_group geo"
  define g k where "g = (ino - 1) div ?ipg" and "k = (ino - 1) mod ?ipg"
  have ipg: "0 < ?ipg" "?ipg \<le> 32768" using geo(1) by (simp_all add: geometry_wf_def)
  have u: "unat (of_nat ino :: u32) = ino" "unat (of_nat n :: u32) = n" "unat (of_nat ?ipg :: u32) = ?ipg"
    using ino(3) n(1) ipg(2) by (simp_all add: unat_of_nat)
  have guard: "\<not> ((of_nat ino :: u32) = 0 \<or> s_inodes_count (fs_sb f) < of_nat ino)"
    using u(1,2) ino f(5) by (simp add: word_less_nat_alt unat_eq_zero [symmetric])
  have "ino - 1 < geo_groups geo * ?ipg" using ino n(2) by (simp add: mult.commute)
  then have g: "g < geo_groups geo" unfolding g_def by (rule less_mult_imp_div_less)
  obtain d where d: "read_group_desc f g = Inr d"
    "\<lparr>seg_block = unat (bg_inode_table d), seg_blocks = itable_blocks geo, seg_src = SegItable g\<rparr> \<in> set (lay_segments lay)"
    using desc [OF g] by blast
  let ?s = "\<lparr>seg_block = unat (bg_inode_table d), seg_blocks = itable_blocks geo, seg_src = SegItable g\<rparr>"
  have k: "k < ?ipg" unfolding k_def using ipg(1) by simp
  have itb: "itable_blocks geo * 16 = ?ipg" using geometry_bounds(4) [OF geo(1)] by simp
  then have room: "k * 256 + 256 \<le> seg_blocks ?s * 4096" using k by simp
  have split: "g * ?ipg + k = ino - 1" by (simp add: g_def k_def)
  have less_length: "ino - 1 < length (lay_inodes lay)" using ino by linarith
  have raw: "length (lay_inodes lay ! (ino - 1)) = 256" using lay(1) ino by (auto simp: layout_ok_def inodes_ok_def)
  have "read_at (fs_src f) (unat (bg_inode_table d) * 4096 + k * 256) 256 =
      Inr (map (\<lambda>j. seg_byte lay ?s (unat (bg_inode_table d) * 4096 + k * 256 + j)) [0..<256])"
    using read_segment [OF lay(1,2) d(2) lay(3) room lay(4)] f(1) by simp
  moreover have "map (\<lambda>j. seg_byte lay ?s (unat (bg_inode_table d) * 4096 + k * 256 + j)) [0..<256] = lay_inodes lay ! (ino - 1)"
    using raw split less_length geo(2) by (intro nth_equalityI) (simp_all add: seg_byte_def Let_def)
  ultimately have rd: "read_at (fs_src f) (unat (bg_inode_table d) * 4096 + k * 256) 256 = Inr (lay_inodes lay ! (ino - 1))" by simp
  have "unat (bg_inode_table d) + itable_blocks geo \<le> total_blocks lay" using lay(1) d(2) by (auto simp: layout_ok_def)
  moreover have "total_blocks lay * 4096 \<le> image_len lay" by (simp add: total_blocks_def)
  ultimately have "unat (bg_inode_table d) * 4096 + k * 256 < 2 ^ 64" using lay(4) itb k by simp
  then show ?thesis
    using guard u ino d(1) f(2,3,4) rd
    unfolding g_def k_def by (simp add: inode_raw_def Let_def mul64_def add64_def)
qed


text \<open>Everything that sealing rendered, and the handle that opening makes of it.\<close>

lemma sealed_handle:
  assumes "builder_reachable strict opts b" "seal crc b = Inr lay" "backups_fit (lay_geo lay)" "options_wf (fb_opts b)"
    and "fst ` set fills \<subseteq> fillable lay"
  obtains geo slot_ino nxt n pl bm used descs free gsegs name sb jseg c raw where
    "slot_inodes b = Inr (slot_ino, nxt)" "n = geo_inodes_per_group geo * geo_groups geo" "n < 2 ^ 32" "nxt - 1 \<le> n"
    "geometry_wf geo" "lay_geo lay = geo" "lay_slot_ino lay = slot_ino" "lay_file_runs lay = ds_file_runs (pl_data pl)"
    "image_len lay = geo_blocks geo * 4096" "image_len lay < 2 ^ 63" "layout_ok lay" "files_ok lay"
    "place_all crc b geo (fs_seed crc (opt_fs_uuid (fb_opts b))) slot_ino = Inr pl"
    "seal_inodes crc b geo (fs_seed crc (opt_fs_uuid (fb_opts b))) slot_ino (nxt - 1) (snd (pl_journal pl))
       (snd (pl_lost_found pl)) (pl_names pl) (pl_data pl) = Inr (lay_inodes lay)"
    "length (lay_inodes lay) = nxt - 1"
    "seal_groups crc (fs_seed crc (opt_fs_uuid (fb_opts b))) geo bm (nxt - 1) (lay_inodes lay) (pl_group_meta pl) =
       Inr (descs, free, gsegs)"
    "gdt_holds geo (pl_group_meta pl) descs"
    "journal_seg geo (opt_fs_uuid (fb_opts b)) (fst (pl_journal pl)) = Inr jseg"
    "set (st_segments (pl_data pl)) \<union> set gsegs \<union> {jseg} \<union>
       set (map (\<lambda>(block, bs). block_seg block bs) (ns_rendered (pl_names pl))) \<subseteq> set (lay_segments lay)"
    "sb = (seal_superblock (fb_opts b) geo n (nxt - 1) free used raw name)\<lparr>s_checksum := c\<rparr>"
    "Fs_open crc (slice_source (image_bytes lay fills)) =
       Inr \<lparr>fs_src = slice_source (image_bytes lay fills), fs_sb = sb, fs_gdt = concat (map group_desc_bytes descs),
            fs_block_size = 4096, fs_csum_seed = fs_seed crc (opt_fs_uuid (fb_opts b))\<rparr>"
proof -
  let ?fs = "fs_seed crc (opt_fs_uuid (fb_opts b))"
  obtain slot_ino nxt geo n pl where s: "slot_inodes b = Inr (slot_ino, nxt)"
    "Geometry_new (opt_size_bytes (fb_opts b)) (case opt_inodes (fb_opts b) of Auto \<Rightarrow> None | Exact n \<Rightarrow> Some n)
        (opt_journal_blocks (fb_opts b)) = Inr geo"
    "inodes_count geo = Inr n" "nxt - 1 \<le> n"
    "place_all crc b geo ?fs slot_ino = Inr pl" "render_all crc b geo ?fs slot_ino (nxt - 1) n pl = Inr lay"
    using assms(2) by (rule sealE)
  have wf: "geometry_wf geo" using Geometry_new_wf [OF s(2)] .
  note al = reachable_aligned [OF assms(1)]
  note p = place_all_ok [OF s(5) wf al slot_inodes_length [OF s(1)]]
  have j: "\<forall>r\<in>set (fst (pl_journal pl)). 0 < run_len r" using p(6) by blast
  note r = render_all_ok [OF s(6) wf p(3,4,5) j]
  note lay = seal_layout [OF assms(2) al assms(3)]
  have n: "n = geo_inodes_per_group geo * geo_groups geo" "n < 2 ^ 32"
    using s(3) by (auto simp: inodes_count_def Let_def split: if_splits)
  have len: "image_len lay div 4096 = geo_blocks geo" "image_len lay mod 4096 = 0"
    using total_blocks_geo [OF s(2)] r(9) by (simp_all add: image_len_def)
  then have len': "image_len lay = geo_blocks geo * 4096" by (metis add.right_neutral div_mult_mod_eq)
  have bound: "image_len lay < 2 ^ 63" using wf by (simp add: len' geometry_wf_def)
  obtain bm used descs free gsegs gdt name sb sbb backups jseg where q:
    "block_bitmap geo (used_runs geo (pl_group_meta pl) (fst (pl_journal pl)) (fst (pl_lost_found pl))
       (ns_dirs (pl_names pl)) (ds_data_runs (pl_data pl)) (st_segments (pl_data pl))) = Inr (bm, used)"
    "seal_inodes crc b geo ?fs slot_ino (nxt - 1) (snd (pl_journal pl)) (snd (pl_lost_found pl)) (pl_names pl) (pl_data pl) =
       Inr (lay_inodes lay)"
    "seal_groups crc ?fs geo bm (nxt - 1) (lay_inodes lay) (pl_group_meta pl) = Inr (descs, free, gsegs)"
    "gdt_bytes geo descs = Inr gdt" "volume_name (opt_label (fb_opts b)) = Inr name"
    "seal_sb_bytes crc (seal_superblock (fb_opts b) geo n (nxt - 1) free used (lay_inodes lay ! (unat JOURNAL_INO - 1)) name) =
       Inr (sb, sbb)"
    "set (lay_segments lay) = set (st_segments (pl_data pl)) \<union> set gsegs \<union> set (primary_segs geo sbb gdt) \<union>
       set (concat backups) \<union> {jseg} \<union> set (map (\<lambda>(block, bs). block_seg block bs) (ns_rendered (pl_names pl)))"
    "journal_seg geo (opt_fs_uuid (fb_opts b)) (fst (pl_journal pl)) = Inr jseg"
    using s(6) by (rule renderE)
  obtain ga where pg: "place_groups geo = Inr (pl_group_meta pl, ga)"
    using s(5) by (auto simp: place_all_def Let_def bindE_eq_Inr)
  have flex: "0 < geo_groups_per_flex geo" "0 < geo_groups geo" using wf by (auto simp: geometry_wf_def)
  note ml = place_groups_length [OF pg flex(1)]
  note gh = seal_groups_hold [OF q(3) wf ml place_groups_ok(2) [OF pg flex]]
  have dl: "length descs = geo_groups geo" using gh(1) by (simp add: gdt_holds_def)
  have free: "free \<le> geo_blocks geo" using seal_groups_free(1) [OF q(3) wf ml] length_filter_le [of _ "[0..<geo_blocks geo]"] by simp
  obtain c where c: "sb = (seal_superblock (fb_opts b) geo n (nxt - 1) free used (lay_inodes lay ! (unat JOURNAL_INO - 1)) name)\<lparr>s_checksum := c\<rparr>"
    "superblock_decode sbb = Inr sb" "csum_superblock crc sbb = Inr (s_checksum sb)" "length sbb = 1024"
    using seal_sb_decodes [OF q(6) seal_superblock_wf [OF assms(4) wf volume_name_length [OF q(5)] free]] by blast
  let ?src = "slice_source (image_bytes lay fills)"
  have segs: "block_seg 0 (poke (zeros_buf BLOCK_SIZE) 1024 sbb) \<in> set (lay_segments lay)"
    "\<lparr>seg_block = 1, seg_blocks = geo_gdt_blocks geo, seg_src = SegBytes gdt\<rparr> \<in> set (lay_segments lay)"
    using q(7) by (simp_all add: primary_segs_def)
  have rd1: "read_at ?src 1024 1024 = Inr sbb"
    using read_bytes_segment [OF lay segs(1) assms(5), of "poke (zeros_buf BLOCK_SIZE) 1024 sbb" 1024 1024] bound c(4)
    by (simp add: block_seg_def peek_def poke_def zeros_buf_def)
  have gt: "geo_groups geo * 32 \<le> length gdt" "take (geo_groups geo * 32) gdt = concat (map group_desc_bytes descs)"
    using gdt_bytes_table [OF q(4) wf dl] group_desc_codec.length_table [of descs] dl by simp_all
  have rd2: "read_at ?src 4096 (geo_groups geo * 32) = Inr (concat (map group_desc_bytes descs))"
    using read_bytes_segment [OF lay segs(2) assms(5), of gdt 0 "geo_groups geo * 32"] bound gt by (simp add: peek_def)
  let ?f = "\<lparr>fs_src = ?src, fs_sb = sb, fs_gdt = concat (map group_desc_bytes descs), fs_block_size = 4096,
    fs_csum_seed = ?fs\<rparr>"
  have open_f: "Fs_open crc ?src = Inr ?f"
    using Fs_open_sealed [OF wf _ c(1) rd1 c(2,3) rd2] n(1) by simp
  have il: "length (lay_inodes lay) = nxt - 1" using r(6) by (simp add: inode_table_def)
  show thesis
    by (rule that [OF s(1) n s(4) wf r(8) r(11) r(10) len' bound lay s(5) q(2) il q(3) gh(1) q(8) _ c(1) open_f])
      (use q(7) in auto)
qed

lemma sealed_open:
  assumes "builder_reachable strict opts b" "seal crc b = Inr lay" "backups_fit (lay_geo lay)" "options_wf (fb_opts b)"
    and "fst ` set fills \<subseteq> fillable lay"
  obtains f geo slot_ino nxt n pl where
    "Fs_open crc (slice_source (image_bytes lay fills)) = Inr f"
    "fs_src f = slice_source (image_bytes lay fills)" "fs_block_size f = 4096" "has_metadata_csum (fs_sb f)"
    "fs_csum_seed f = fs_seed crc (opt_fs_uuid (fb_opts b))" "s_blocks_count (fs_sb f) = of_nat (geo_blocks geo)"
    "image_len lay = geo_blocks geo * 4096" "image_len lay < 2 ^ 63" "geometry_wf geo" "lay_geo lay = geo"
    "slot_inodes b = Inr (slot_ino, nxt)" "lay_slot_ino lay = slot_ino" "n < 2 ^ 32" "nxt - 1 \<le> n"
    "place_all crc b geo (fs_seed crc (opt_fs_uuid (fb_opts b))) slot_ino = Inr pl"
    "seal_inodes crc b geo (fs_seed crc (opt_fs_uuid (fb_opts b))) slot_ino (nxt - 1) (snd (pl_journal pl))
       (snd (pl_lost_found pl)) (pl_names pl) (pl_data pl) = Inr (lay_inodes lay)"
    "length (lay_inodes lay) = nxt - 1"
    "\<And>ino. 0 < ino \<Longrightarrow> ino < nxt \<Longrightarrow> inode_raw f (of_nat ino) = Inr (lay_inodes lay ! (ino - 1))"
    "set (st_segments (pl_data pl)) \<subseteq> set (lay_segments lay)" "lay_file_runs lay = ds_file_runs (pl_data pl)"
    "set (map (\<lambda>(block, bs). block_seg block bs) (ns_rendered (pl_names pl))) \<subseteq> set (lay_segments lay)"
proof (rule sealed_handle [OF assms], goal_cases)
  case (1 geo slot_ino nxt n pl bm used descs free gsegs name sb jseg c raw)
  note p = 1(2-22)
  let ?f = "\<lparr>fs_src = slice_source (image_bytes lay fills), fs_sb = sb, fs_gdt = concat (map group_desc_bytes descs),
    fs_block_size = 4096, fs_csum_seed = fs_seed crc (opt_fs_uuid (fb_opts b))\<rparr>"
  have sbf: "s_inode_size sb = 256" "s_inodes_per_group sb = of_nat (geo_inodes_per_group geo)" "s_inodes_count sb = of_nat n"
    "has_metadata_csum sb" "s_blocks_count sb = of_nat (geo_blocks geo)" "superblock_desc_size sb = 32"
    by (simp_all add: p(20) seal_superblock_def Let_def has_metadata_csum_def superblock_desc_size_def ro_compat_WRITER_def)
  have desc: "\<exists>d. read_group_desc ?f g = Inr d \<and>
      \<lparr>seg_block = unat (bg_inode_table d), seg_blocks = itable_blocks geo, seg_src = SegItable g\<rparr> \<in> set (lay_segments lay)"
    if g: "g < geo_groups geo" for g
  proof -
    have ml: "length (pl_group_meta pl) = geo_groups geo" using p(17) by (simp add: gdt_holds_def)
    obtain bb ib it where m: "pl_group_meta pl ! g = (bb, ib, it)" by (metis prod_cases3)
    obtain fr segs where s: "seal_group crc (fs_seed crc (opt_fs_uuid (fb_opts b))) geo bm (nxt - 1) (lay_inodes lay) (g, bb, ib, it) =
        Inr (descs ! g, fr, segs)" "set segs \<subseteq> set gsegs"
      using seal_groups_each(1) [OF p(16), of g] g ml m by auto
    have "last segs \<in> set segs" using seal_group_parts(12) [OF s(1) p(5) g] by simp
    then have "last segs \<in> set (lay_segments lay)" using s(2) p(19) by blast
    then show ?thesis
      using read_desc_sealed [OF p(17) g p(5), of ?f] sbf(6) seal_group_parts(11) [OF s(1) p(5) g] p(17) g m by (auto simp: gdt_holds_def)
  qed
  show thesis
  proof (rule that [OF p(21) _ _ _ _ _ p(9,10,5,6,1,7,3,4,13,14,15) _ _ p(8)])
    fix ino assume "0 < ino" "ino < nxt"
    then show "inode_raw ?f (of_nat ino) = Inr (lay_inodes lay ! (ino - 1))"
      by (intro read_inode_slot [OF p(11,12) assms(5) p(10,5,6) _ _ _ _ _ p(3) _ desc]) (use sbf p(2,4,15) in auto)
  qed (use sbf p(19) in auto)
qed

end
