(* ===== verification/SealProgress.thy ===== *)
theory SealProgress
  imports SealedLayout
begin

text \<open>
  When sealing returns: each step that allocates or renders succeeds when there is room and what it
  renders fits. With these, sealing a small namespace is seen to succeed without evaluating a block.
\<close>

section \<open>Allocating past the reserved runs\<close>

definition alloc_clear :: "allocator \<Rightarrow> bool" where
  "alloc_clear a \<longleftrightarrow> al_next a = length (al_reserved a)"

lemma take_runs_clear:
  assumes "alloc_clear a" "0 < n" "n \<le> m" "al_cursor a + n \<le> al_end a"
  shows "take_runs a n m e = Inr ([\<lparr>run_start = al_cursor a, run_len = n\<rparr>], a\<lparr>al_cursor := al_cursor a + n\<rparr>)"
proof -
  have skip: "skip_reserved a = a" using assms(1) by (subst skip_reserved.simps) (simp add: alloc_clear_def)
  have stop: "alloc_take_loop m out a' 0 = Some (Some out, a')" for out a'
    by (subst alloc_take_loop.simps) simp
  have "min (min n (alloc_limit a - al_cursor a)) m = n"
    using assms by (simp add: alloc_limit_def alloc_clear_def)
  then have "alloc_take a n m = Some (Some [\<lparr>run_start = al_cursor a, run_len = n\<rparr>], a\<lparr>al_cursor := al_cursor a + n\<rparr>)"
    unfolding alloc_take_def using assms(2,4)
    by (subst alloc_take_loop.simps) (simp add: skip Let_def stop)
  then show ?thesis by (simp add: take_runs_def)
qed

lemma take_block_clear:
  assumes "alloc_clear a" "al_cursor a < al_end a"
  shows "take_block a = Inr (al_cursor a, a\<lparr>al_cursor := al_cursor a + 1\<rparr>)"
proof -
  have "take_runs a 1 1 err_full = Inr ([\<lparr>run_start = al_cursor a, run_len = 1\<rparr>], a\<lparr>al_cursor := al_cursor a + 1\<rparr>)"
    using take_runs_clear [OF assms(1), of 1 1] assms(2) by simp
  then have "alloc_take a 1 1 = Some (Some [\<lparr>run_start = al_cursor a, run_len = 1\<rparr>], a\<lparr>al_cursor := al_cursor a + 1\<rparr>)"
    by (auto simp: take_runs_def split: option.splits)
  then show ?thesis by (simp add: take_block_def alloc_take_one_def)
qed

lemma alloc_clear_advance [simp]: "alloc_clear (a\<lparr>al_cursor := c\<rparr>) = alloc_clear a"
  by (simp add: alloc_clear_def)

section \<open>Extent plans of few extents\<close>

lemma extent_node_root:
  assumes "length es \<le> 4" "\<forall>e\<in>set es. length e = 12"
  shows "\<exists>root. extent_node (zeros_buf 60) 4 d es = Inr root"
  using extent_node_holds [of es 60 4 d] assms by auto

lemma plan_extents_small:
  assumes "length pairs \<le> 4" "\<forall>(_, r)\<in>set pairs. run_len r \<le> MAX_EXTENT"
  shows "\<exists>plan. plan_extents crc pairs ino fseed a = Inr (plan, a, [])"
proof -
  obtain root where "extent_node (zeros_buf 60) 4 0 (map leaf_entry (map (\<lambda>(lo, r). (lo, run_start r, run_len r)) pairs)) = Inr root"
    using extent_node_root [of "map leaf_entry (map (\<lambda>(lo, r). (lo, run_start r, run_len r)) pairs)" 0] assms(1) by auto
  then show ?thesis using assms by (simp add: plan_extents_def Let_def)
qed

lemma empty_extent_plan_ok: "\<exists>plan. empty_extent_plan = Inr plan"
  using extent_node_root [of "[]" 0] by (auto simp: empty_extent_plan_def)

lemma st_dense_clear:
  assumes "alloc_clear (st_alloc st)" "0 < n" "n \<le> MAX_EXTENT" "al_cursor (st_alloc st) + n \<le> al_end (st_alloc st)"
  shows "\<exists>plan. st_dense crc n ino fseed st =
    Inr (([\<lparr>run_start = al_cursor (st_alloc st), run_len = n\<rparr>], plan),
      st\<lparr>st_alloc := (st_alloc st)\<lparr>al_cursor := al_cursor (st_alloc st) + n\<rparr>\<rparr>)"
proof -
  let ?r = "\<lparr>run_start = al_cursor (st_alloc st), run_len = n\<rparr>"
  let ?a = "(st_alloc st)\<lparr>al_cursor := al_cursor (st_alloc st) + n\<rparr>"
  obtain plan where "plan_extents crc [(0, ?r)] (of_nat ino) fseed ?a = Inr (plan, ?a, [])"
    using plan_extents_small [of "[(0, ?r)]" crc "of_nat ino" fseed ?a] assms(3) by auto
  then show ?thesis
    using take_runs_clear [OF assms(1,2,3,4), of err_full] assms(3)
    by (simp add: st_dense_def st_take_def with_logicals_def add32_def st_plan_def st_push_def)
qed

section \<open>Directory blocks\<close>

lemma pack_dirents_ok: "\<forall>e\<in>set es. dentry_ok e \<Longrightarrow> \<exists>bs. pack_dirents es = Inr bs"
  using pack_dirents_holds by blast

lemma seal_dirent_blocks_ok:
  assumes "\<forall>b\<in>set bs. length b = 4096"
  shows "\<exists>bs'. mapE (seal_dirent_block crc seed) bs = Inr bs'"
proof -
  have "\<exists>c. seal_dirent_block crc seed b = Inr c" if "b \<in> set bs" for b
    using assms that by (auto simp: seal_dirent_block_def csum_dirent_block_def store_u32_def)
  then show ?thesis using mapE_list_all2 [of bs "seal_dirent_block crc seed" "\<lambda>_ _. True"] by blast
qed

lemma lost_found_ok: "\<exists>bs. lost_found_blocks crc fseed = Inr bs"
proof -
  have dots: "\<forall>e\<in>set (dot_entries i j). dentry_ok e" if "i \<noteq> 0" "j \<noteq> 0" for i j
    using that by (auto simp: dot_entries_def dentry_ok_def ascii_def)
  obtain bs0 where b0: "pack_dirents (dot_entries (of_nat LOST_FOUND_INO) ROOT_INO) = Inr bs0"
    using pack_dirents_ok [OF dots, of "of_nat LOST_FOUND_INO" ROOT_INO] by auto
  obtain e where e: "pack_dirents [] = Inr e" using pack_dirents_ok [of "[]"] by auto
  have "\<forall>b\<in>set (bs0 @ concat (map (\<lambda>_. e) [length bs0..<4])). length b = 4096"
    using pack_dirents_lengths [OF b0] pack_dirents_lengths [OF e] by auto
  from seal_dirent_blocks_ok [OF this] b0 e show ?thesis
    by (simp add: lost_found_blocks_def mapE_Inr)
qed

section \<open>Inodes\<close>

lemma render_inode_ok:
  assumes "\<exists>i. inode_of_render r = Inr i" "length (ir_ibody r) \<le> 96"
  shows "\<exists>raw. render_inode crc fseed ino r = Inr raw"
proof -
  obtain i where i: "inode_of_render r = Inr i" using assms(1) by blast
  then have "length (i_ibody i) \<le> 96 \<and> i_extra_isize i = 32" using assms(2)
    by (auto simp: inode_of_render_def Let_def bindE_eq_Inr)
  then show ?thesis using i by (simp add: render_inode_def inode_encode_def csum_inode_def)
qed

definition stamps_ok :: "meta \<Rightarrow> bool" where
  "stamps_ok m \<longleftrightarrow> (\<forall>t\<in>{m_mtime m, or_mtime m (m_atime m), or_mtime m (m_ctime m), or_mtime m (m_crtime m)}.
     fst t + 2 ^ 31 < 2 ^ 63)"

lemma inode_of_render_ok: "stamps_ok (ir_meta r) \<Longrightarrow> \<exists>i. inode_of_render r = Inr i"
  by (simp add: stamps_ok_def inode_of_render_def Let_def encode_timespec_def encode_timestamp_def)

lemma put_inode_ok:
  assumes "stamps_ok (ir_meta r)" "length (ir_ibody r) \<le> 96" "0 < ino" "ino \<le> n" "inode_table n raws"
  shows "\<exists>raws'. put_inode crc fseed ino r raws = Inr raws' \<and> inode_table n raws'"
proof -
  obtain raw where raw: "render_inode crc fseed (of_nat ino) r = Inr raw"
    using render_inode_ok [OF inode_of_render_ok [OF assms(1)] assms(2)] by blast
  then have "\<exists>raws'. put_inode crc fseed ino r raws = Inr raws'"
    using assms(3-5) by (simp add: put_inode_def set_inode_def inode_table_def)
  then show ?thesis using put_inode_table assms(5) by blast
qed

lemma foldE_ok:
  "P s \<Longrightarrow> (\<And>x s. x \<in> set xs \<Longrightarrow> P s \<Longrightarrow> \<exists>s'. f x s = Inr s' \<and> P s') \<Longrightarrow> \<exists>s'. foldE f xs s = Inr s' \<and> P s'"
proof (induction xs arbitrary: s)
  case (Cons x xs)
  then obtain s1 where s1: "f x s = Inr s1" "P s1" by (meson list.set_intros(1))
  show ?case using Cons.IH [OF s1(2)] Cons.prems(2) s1(1) by simp
qed simp

lemma mapE_ok: "(\<And>x. x \<in> set xs \<Longrightarrow> \<exists>y. f x = Inr y) \<Longrightarrow> \<exists>ys. mapE f xs = Inr ys"
  using mapE_list_all2 [of xs f "\<lambda>_ _. True"] by blast

lemma reserved_inodes_ok:
  assumes "epoch + 2 ^ 31 < 2 ^ 63" "inode_table n raws" "10 \<le> n"
  shows "\<exists>raws'. reserved_inodes crc fseed epoch raws = Inr raws' \<and> inode_table n raws'"
proof -
  have step: "\<exists>raws'. bindE (render_reserved_inode crc fseed (of_nat ino) t) (\<lambda>raw. set_inode ino raw raws) = Inr raws' \<and>
      inode_table n raws'"
    if hyps: "inode_table n raws" "0 < ino" "ino \<le> 10" "t = None \<or> t = Some epoch" for ino t raws
  proof -
    have "\<exists>raw. render_reserved_inode crc fseed (of_nat ino) t = Inr raw"
      using hyps(4) assms(1) by (auto simp: render_reserved_inode_def encode_timestamp_def csum_inode_def)
    then obtain raw where raw: "render_reserved_inode crc fseed (of_nat ino) t = Inr raw" by blast
    have "length raw = 256" using keeps_lengthD [OF raw render_reserved_inode_keeps] .
    moreover obtain raws' where "set_inode ino raw raws = Inr raws'"
      using hyps assms(3) by (simp add: set_inode_def inode_table_def)
    ultimately show ?thesis using raw set_inode_table hyps(1) by auto
  qed
  obtain raws1 where r1: "bindE (render_reserved_inode crc fseed (of_nat 1) (Some epoch)) (\<lambda>raw. set_inode 1 raw raws) = Inr raws1"
    "inode_table n raws1"
    using step [OF assms(2), of 1 "Some epoch"] by auto
  obtain raws' where r2: "foldE (\<lambda>ino raws. bindE (render_reserved_inode crc fseed (of_nat ino) None) (\<lambda>raw. set_inode ino raw raws))
      [3, 4, 5, 6, 7, 9, 10] raws1 = Inr raws'" "inode_table n raws'"
    using foldE_ok [where P = "inode_table n" and xs = "[3, 4, 5, 6, 7, 9, 10]"
      and f = "\<lambda>ino raws. bindE (render_reserved_inode crc fseed (of_nat ino) None) (\<lambda>raw. set_inode ino raw raws)",
      OF r1(2) step] by fastforce
  have "reserved_inodes crc fseed epoch raws = bindE (bindE (render_reserved_inode crc fseed (of_nat 1) (Some epoch))
      (\<lambda>raw. set_inode 1 raw raws)) (foldE (\<lambda>ino raws.
        bindE (render_reserved_inode crc fseed (of_nat ino) None) (\<lambda>raw. set_inode ino raw raws)) [3, 4, 5, 6, 7, 9, 10])"
    by (simp only: reserved_inodes_def bindE_assoc of_nat_1)
  then show ?thesis using r1(1) r2 by simp
qed

section \<open>Descriptors and superblocks\<close>

lemma seal_group_ok:
  assumes "geometry_wf geo" "g < geo_groups geo"
  shows "\<exists>d free segs. seal_group crc fseed geo bm used inodes (g, bb, ib, it) = Inr (d, free, segs)"
proof -
  have ipg: "geo_inodes_per_group geo \<le> 32768" using assms(1) by (simp add: geometry_wf_def)
  then have "unat (of_nat (geo_inodes_per_group geo) :: u32) = geo_inodes_per_group geo"
    by (simp add: unat_of_nat)
  then have "(unat (of_nat (geo_inodes_per_group geo) :: u32) + 7) div 8 \<le> 4096" using ipg by simp
  then show ?thesis
    using blocks_in_group_eq(1) [OF assms]
    by (simp add: seal_group_def Let_def csum_inode_bitmap_def group_desc_encode32_def csum_group_desc_def)
qed

lemma seal_groups_ok:
  assumes "geometry_wf geo" "length ms = geo_groups geo" "length inodes \<le> geo_inodes_per_group geo * geo_groups geo"
  shows "\<exists>descs free segs. seal_groups crc fseed geo bm used inodes ms = Inr (descs, free, segs) \<and>
    length descs = geo_groups geo"
proof -
  have "idx div geo_inodes_per_group geo < geo_groups geo" if "idx < length inodes" for idx
  proof -
    have "idx < geo_groups geo * geo_inodes_per_group geo" using that assms(3) by (simp add: mult.commute)
    then show ?thesis by (rule less_mult_imp_div_less)
  qed
  then have guard: "\<forall>idx<length inodes. raw_is_dir (inodes ! idx) \<longrightarrow> idx div geo_inodes_per_group geo < geo_groups geo"
    by blast
  have "\<exists>gs. mapE (seal_group crc fseed geo bm used inodes) (enumerate 0 ms) = Inr gs"
  proof (rule mapE_ok)
    fix x assume "x \<in> set (enumerate 0 ms)"
    then obtain g bb ib it where "x = (g, bb, ib, it)" "g < geo_groups geo"
      using assms(2) unfolding in_set_enumerate_eq by (cases x) simp
    then show "\<exists>y. seal_group crc fseed geo bm used inodes x = Inr y" using seal_group_ok [OF assms(1)] by blast
  qed
  then obtain gs where gs: "mapE (seal_group crc fseed geo bm used inodes) (enumerate 0 ms) = Inr gs" by blast
  then show ?thesis using guard mapE_length [OF gs] assms(2) by (simp add: seal_groups_def)
qed

lemma gdt_bytes_ok:
  assumes "geometry_wf geo" "length descs = geo_groups geo"
  shows "\<exists>gdt. gdt_bytes geo descs = Inr gdt"
proof -
  let ?n = "geo_gdt_blocks geo * BLOCK_SIZE"
  have "\<exists>b. foldE put_desc (enumerate 0 descs) (zeros_buf ?n) = Inr b \<and> length b = ?n"
  proof (rule foldE_ok)
    fix x and s :: bytes assume x: "x \<in> set (enumerate 0 descs)" and s: "length s = ?n"
    obtain g d where g: "x = (g, d)" "g + 1 \<le> geo_groups geo" using x assms(2) unfolding in_set_enumerate_eq by (cases x) simp
    then have "g * 32 + 32 \<le> geo_groups geo * 32" by simp
    also have "\<dots> \<le> ?n" using assms(1) by (simp add: geometry_wf_def)
    finally show "\<exists>s'. put_desc x s = Inr s' \<and> length s' = ?n" using s g by (simp add: put_desc_def)
  qed simp
  then show ?thesis by (auto simp: gdt_bytes_def)
qed

lemma seal_sb_bytes_ok: "\<exists>sb' bs. seal_sb_bytes crc sb = Inr (sb', bs)"
  by (simp add: seal_sb_bytes_def superblock_encode_def csum_superblock_def)

lemma backup_segs_end:
  "\<exists>segs. backup_segs crc geo sb gdt g = Inr segs \<and>
    (\<exists>s\<in>set segs. seg_block s + seg_blocks s = group_start g + 1 + geo_gdt_blocks geo)"
proof -
  obtain sb' bs where "seal_sb_bytes crc (sb\<lparr>s_block_group_nr := of_nat g\<rparr>) = Inr (sb', bs)"
    using seal_sb_bytes_ok by blast
  then show ?thesis by (simp add: backup_segs_def)
qed

lemma backup_segs_ok: "\<exists>segs. mapE (backup_segs crc geo sb gdt) gs = Inr segs"
proof (rule mapE_ok)
  show "\<exists>segs. backup_segs crc geo sb gdt g = Inr segs" for g
    using seal_sb_bytes_ok [of crc "sb\<lparr>s_block_group_nr := of_nat g\<rparr>"] by (auto simp: backup_segs_def)
qed

text \<open>Every backup is among the segments of a sealed layout.\<close>

lemma sealed_backups:
  assumes "seal crc b = Inr lay" "g \<in> set (backup_groups (lay_geo lay))"
  shows "\<exists>s\<in>set (lay_segments lay). seg_block s + seg_blocks s = group_start g + 1 + geo_gdt_blocks (lay_geo lay)"
proof -
  obtain slot_ino max_ino n geo pl where r: "render_all crc b geo (fs_seed crc (opt_fs_uuid (fb_opts b))) slot_ino max_ino n pl = Inr lay"
    using assms(1) by (rule sealE)
  obtain sb gdt sbb gsegs backups jseg where k: "mapE (backup_segs crc geo sb gdt) (backup_groups geo) = Inr backups"
    "lay_segments lay = sort_key seg_block (st_segments (pl_data pl) @ gsegs @ primary_segs geo sbb gdt @ concat backups @ [jseg] @
       map (\<lambda>(block, bs). block_seg block bs) (ns_rendered (pl_names pl)))" "lay_geo lay = geo"
    using r by (auto simp: render_all_def Let_def bindE_eq_Inr)
  obtain segs where s: "segs \<in> set backups" "backup_segs crc geo sb gdt g = Inr segs"
    using assms(2) mapE_Inr_ex [OF k(1)] k(3) by blast
  have "set (concat backups) \<subseteq> set (lay_segments lay)" by (auto simp: k(2))
  then show ?thesis using backup_segs_end [of crc geo sb gdt g] s k(3) by auto
qed

text \<open>The rendering phase fails only for a reason of its own: an inode that does not render, a label
  that is too long, a journal without blocks.\<close>

lemma render_all_returns:
  assumes "geometry_wf geo" "distinct (used_list geo pl)" "\<forall>b\<in>set (used_list geo pl). b < geo_blocks geo"
    and "\<exists>raws. seal_inodes crc b geo fseed slot_ino max_ino (snd (pl_journal pl)) (snd (pl_lost_found pl))
      (pl_names pl) (pl_data pl) = Inr raws"
    and "length (pl_group_meta pl) = geo_groups geo" "max_ino \<le> geo_inodes_per_group geo * geo_groups geo"
    and "case opt_label (fb_opts b) of None \<Rightarrow> True | Some l \<Rightarrow> length l \<le> 16" "fst (pl_journal pl) \<noteq> []"
  shows "\<exists>lay. render_all crc b geo fseed slot_ino max_ino n pl = Inr lay"
proof -
  obtain raws where r: "seal_inodes crc b geo fseed slot_ino max_ino (snd (pl_journal pl)) (snd (pl_lost_found pl))
      (pl_names pl) (pl_data pl) = Inr raws" using assms(4) by blast
  have l: "length raws = max_ino" using seal_inodes_table [OF r] by (simp add: inode_table_def)
  obtain bm u where m: "block_bitmap geo (used_runs geo (pl_group_meta pl) (fst (pl_journal pl)) (fst (pl_lost_found pl))
      (ns_dirs (pl_names pl)) (ds_data_runs (pl_data pl)) (st_segments (pl_data pl))) = Inr (bm, u)"
    using used_list_marks [OF assms(2,3)] by blast
  obtain descs free segs where g: "seal_groups crc fseed geo bm max_ino raws (pl_group_meta pl) = Inr (descs, free, segs)"
    "length descs = geo_groups geo"
    using seal_groups_ok [OF assms(1,5), of raws] l assms(6) by blast
  obtain gdt where d: "gdt_bytes geo descs = Inr gdt" using gdt_bytes_ok [OF assms(1) g(2)] by blast
  obtain name where v: "volume_name (opt_label (fb_opts b)) = Inr name"
    using assms(7) by (auto simp: volume_name_def split: option.splits)
  obtain sb bs where s: "seal_sb_bytes crc (seal_superblock (fb_opts b) geo n max_ino free u
      (raws ! (unat JOURNAL_INO - 1)) name) = Inr (sb, bs)" using seal_sb_bytes_ok by blast
  obtain backups where k: "mapE (backup_segs crc geo sb gdt) (backup_groups geo) = Inr backups" using backup_segs_ok by blast
  obtain jseg where j: "journal_seg geo (opt_fs_uuid (fb_opts b)) (fst (pl_journal pl)) = Inr jseg"
    using assms(8) by (simp add: journal_seg_def journal_superblock_encode_def)
  show ?thesis unfolding render_all_def Let_def using m r g d v s k j by simp
qed

end
