(* ===== verification/SealedInodes.thy ===== *)
theory SealedInodes
  imports SealedOpen SealProgress
begin

text \<open>
  The inodes of a built image: what sealing renders for a slot is what the reader reads at the slot's
  number, with a checksum that it accepts.
\<close>

section \<open>Rendered inodes\<close>

text \<open>Buffers that agree outside the two halves of the checksum.\<close>

definition agree :: "bytes \<Rightarrow> bytes \<Rightarrow> bool" where
  "agree a b \<longleftrightarrow> length a = 256 \<and> length b = 256 \<and> (\<forall>k<256. k \<notin> {0x7C, 0x7D, 0x82, 0x83} \<longrightarrow> a ! k = b ! k)"

lemma agree_poke: "agree a b \<Longrightarrow> agree (poke a off v) (poke b off v)"
  by (simp add: agree_def nth_poke)

lemma agree_poke_if: "agree a b \<Longrightarrow> agree (poke_if c a off v) (poke_if c b off v)"
  by (simp add: poke_if_def agree_poke)

lemma agree_halves:
  "agree a b \<Longrightarrow> agree (poke a 0x7C (to_le16 v)) (poke b 0x7C (to_le16 w))"
  "agree a b \<Longrightarrow> agree (poke_if c a 0x82 (to_le16 v)) (poke_if c b 0x82 (to_le16 w))"
  by (auto simp: agree_def nth_poke poke_if_def)

lemma agree_zeros: "agree (zeros_buf 256) (zeros_buf 256)"
  by (simp add: agree_def)

lemma inode_bytes_agree: "agree (inode_bytes (i\<lparr>i_checksum := c\<rparr>)) (inode_bytes i)"
proof (cases i)
  case fields
  show ?thesis
    unfolding fields inode_bytes_def Let_def inode.simps INODE_SIZE_def put_u16_def put_u32_def
    by (intro agree_poke agree_poke_if agree_halves agree_zeros)
qed

lemma inode_bytes_checksum_nth:
  "k < 256 \<Longrightarrow> k \<notin> {0x7C, 0x7D, 0x82, 0x83} \<Longrightarrow> inode_bytes (i\<lparr>i_checksum := c\<rparr>) ! k = inode_bytes i ! k"
  using inode_bytes_agree unfolding agree_def by blast

lemma inode_sum_cong:
  assumes "length a = 256" "length b = 256" "\<And>k. k < 256 \<Longrightarrow> k \<notin> {0x7C, 0x7D, 0x82, 0x83} \<Longrightarrow> a ! k = b ! k"
  shows "4 \<le> le16 b 0x80 \<Longrightarrow> inode_sum crc fseed ino g a = inode_sum crc fseed ino g b"
proof -
  have parts: "take 0x7C a = take 0x7C b" "drop 0x7E (take 0x82 a) = drop 0x7E (take 0x82 b)" "drop 0x84 a = drop 0x84 b"
    using assms by (auto intro!: nth_equalityI)
  moreover have "peek a 0x80 2 = peek b 0x80 2"
    using assms by (auto simp: peek_def intro!: nth_equalityI)
  then have "le16 a 0x80 = le16 b 0x80" by (simp add: le16_def)
  ultimately show "4 \<le> le16 b 0x80 \<Longrightarrow> ?thesis" using assms(1,2)
    by (simp add: inode_sum_def inode_has_hi_def Let_def)
qed

lemma inode_bytes_extra:
  assumes "inode_wf i"
  shows "le16 (inode_bytes i) 0x80 = i_extra_isize i"
  using inode_extra_fixed(1) [OF assms] assms
  by (simp add: inode_bytes_fixed [OF assms] inode_wf_def poke_if_def buf_simps)

lemma render_inode_reads:
  assumes "render_inode crc fseed ino r = Inr raw" "inode_of_render r = Inr i" "inode_wf i"
  shows "\<exists>c. inode_decode raw = Inr (i\<lparr>i_checksum := c\<rparr>) \<and> csum_inode crc fseed ino 0 raw = Inr c"
proof -
  have ib: "\<not> (i_ibody i \<noteq> [] \<and> 0x80 + unat (i_extra_isize i) + length (i_ibody i) > 256)"
    using assms(3) by (auto simp: inode_wf_def)
  define c where "c = inode_sum crc fseed ino 0 (inode_bytes i)"
  have raw: "raw = inode_bytes (i\<lparr>i_checksum := c\<rparr>)"
    using assms(1,2) ib by (auto simp: render_inode_def inode_encode_def csum_inode_def c_def split: if_splits)
  have wf: "inode_wf (i\<lparr>i_checksum := c\<rparr>)" using assms(3) by (simp add: inode_wf_def)
  have "4 \<le> i_extra_isize i" using assms(3) by (simp add: inode_wf_def word_le_nat_alt)
  then have "inode_sum crc fseed ino 0 raw = c"
    unfolding raw c_def using inode_bytes_checksum_nth inode_bytes_extra [OF assms(3)] by (intro inode_sum_cong) auto
  then show ?thesis using raw inode_decode_bytes [OF wf] by (simp add: csum_inode_def)
qed

text \<open>The fields of a rendered inode.\<close>

lemma inode_of_render_fields:
  assumes "inode_of_render r = Inr i"
  shows "i_size i = ir_size r" "i_blocks i = ir_blocks512 r" "i_flags i = ir_flags r" "i_block i = ir_block r"
    "i_file_acl i = ir_file_acl r" "i_generation i = 0" "i_extra_isize i = 32" "i_ibody i = ir_ibody r"
    "i_mode i = type_bits (ir_ftype r) OR (m_mode (ir_meta r) AND 0xFFF)"
    "i_uid i = m_uid (ir_meta r)" "i_gid i = m_gid (ir_meta r)"
  using assms by (auto simp: inode_of_render_def Let_def bindE_eq_Inr)

lemma read_rendered:
  assumes "inode_raw f ino = Inr raw" "render_inode crc fseed ino r = Inr raw" "inode_of_render r = Inr i" "inode_wf i"
    and "has_metadata_csum (fs_sb f)" "fs_csum_seed f = fseed"
  shows "\<exists>c. read_inode crc f ino = Inr (i\<lparr>i_checksum := c\<rparr>)"
proof -
  obtain c where c: "inode_decode raw = Inr (i\<lparr>i_checksum := c\<rparr>)" "csum_inode crc fseed ino 0 raw = Inr c"
    using render_inode_reads [OF assms(2-4)] by blast
  have "i_generation i = 0" "i_extra_isize i = 32" using inode_of_render_fields [OF assms(3)] by simp_all
  then show ?thesis using assms(1,5,6) c by (auto simp: read_inode_def check_inode_csum_def)
qed

section \<open>The inode of a slot\<close>

text \<open>A fold over steps that each write at most one place keeps the others.\<close>

lemma foldE_keeps_nth:
  assumes "foldE f xs s = Inr s'" "\<And>x s s'. x \<in> set xs \<Longrightarrow> f x s = Inr s' \<Longrightarrow> s' ! i = s ! i"
  shows "s' ! i = s ! i"
  using assms
proof (induction xs arbitrary: s)
  case (Cons x xs)
  then obtain s1 where s: "f x s = Inr s1" "foldE f xs s1 = Inr s'" by (auto simp: bindE_eq_Inr)
  have "s' ! i = s1 ! i" by (rule Cons.IH [OF s(2)]) (use Cons.prems(2) in auto)
  then show ?case using Cons.prems(2) [of x s s1] s(1) by simp
qed simp

lemma set_inode_nth:
  "set_inode ino raw raws = Inr raws' \<Longrightarrow> raws' ! i = (if i + 1 = ino then raw else raws ! i) \<and> 0 < ino \<and> ino \<le> length raws \<and>
   length raws' = length raws"
  by (auto simp: set_inode_def nth_list_update split: if_splits)

lemma put_inode_nth:
  "put_inode crc fseed ino r raws = Inr raws' \<Longrightarrow> i + 1 \<noteq> ino \<Longrightarrow> raws' ! i = raws ! i"
  using set_inode_nth by (fastforce simp: put_inode_def bindE_eq_Inr)

lemma put_node_nth:
  "put_node_inode crc b fseed slot_ino ns ds slot raws = Inr raws' \<Longrightarrow> slot_ino ! slot = 0 \<or> i + 1 \<noteq> slot_ino ! slot \<Longrightarrow>
   raws' ! i = raws ! i"
  using put_inode_nth by (fastforce simp: put_node_inode_def bindE_eq_Inr split: if_splits option.splits)

lemma seal_inodes_slot:
  assumes "seal_inodes crc b geo fseed slot_ino max_ino jp lp ns ds = Inr raws"
    and slot: "slot < length (fb_nodes b)" "slot_ino ! slot \<noteq> 0" "length slot_ino = length (fb_nodes b)"
    and inj: "\<forall>i<length slot_ino. \<forall>j<length slot_ino. slot_ino ! i \<noteq> 0 \<and> slot_ino ! i = slot_ino ! j \<longrightarrow> i = j"
  shows "\<exists>r. node_render (fb_nodes b ! slot) (ds_file_plans ds ! slot) (ns_symlinks ns ! slot) (ns_xattrs ns ! slot) = Inr r \<and>
    (\<forall>r'. r = Some r' \<longrightarrow> (\<exists>raw. render_inode crc fseed (of_nat (slot_ino ! slot)) r' = Inr raw \<and>
      raws ! (slot_ino ! slot - 1) = raw))"
proof -
  let ?n = "length (fb_nodes b)" and ?f = "put_node_inode crc b fseed slot_ino ns ds" and ?i = "slot_ino ! slot - 1"
  obtain r4 where r4: "foldE ?f [0..<?n] r4 = Inr raws"
    using assms(1) by (auto simp: seal_inodes_def Let_def bindE_eq_Inr)
  have "[0..<?n] = [0..<slot] @ slot # [Suc slot..<?n]"
    using slot(1) upt_add_eq_append [of 0 slot "?n - slot"] upt_conv_Cons [of slot ?n] by simp
  then obtain r5 r6 where r: "foldE ?f [0..<slot] r4 = Inr r5" "?f slot r5 = Inr r6" "foldE ?f [Suc slot..<?n] r6 = Inr raws"
    using r4 by (auto simp: foldE_append bindE_eq_Inr)
  have keep: "raws ! ?i = r6 ! ?i"
  proof (rule foldE_keeps_nth [OF r(3)])
    fix x s s' assume x: "x \<in> set [Suc slot..<?n]" "?f x s = Inr s'"
    then have "slot_ino ! x = 0 \<or> slot_ino ! x \<noteq> slot_ino ! slot" using inj slot by (metis Suc_le_lessD atLeastLessThan_iff nat_neq_iff set_upt)
    then show "s' ! ?i = s ! ?i" using x(2) slot(2) by (intro put_node_nth) auto
  qed
  obtain rr where rr: "node_render (fb_nodes b ! slot) (ds_file_plans ds ! slot) (ns_symlinks ns ! slot) (ns_xattrs ns ! slot) = Inr rr"
    "(case rr of None \<Rightarrow> Inr r5 | Some r \<Rightarrow> put_inode crc fseed (slot_ino ! slot) r r5) = Inr r6"
    using r(2) slot(2) by (auto simp: put_node_inode_def bindE_eq_Inr)
  have "\<exists>raw. render_inode crc fseed (of_nat (slot_ino ! slot)) r' = Inr raw \<and> raws ! ?i = raw" if some: "rr = Some r'" for r'
  proof -
    obtain raw where "render_inode crc fseed (of_nat (slot_ino ! slot)) r' = Inr raw" "set_inode (slot_ino ! slot) raw r5 = Inr r6"
      using rr(2) some by (auto simp: put_inode_def bindE_eq_Inr)
    then show ?thesis using keep set_inode_nth [of "slot_ino ! slot" raw r5 r6 ?i] by auto
  qed
  then show ?thesis using rr(1) by blast
qed

end
