(* ===== verification/FileMap.thy ===== *)
theory FileMap
  imports SealPlaced ReadFile
begin

text \<open>
  Where the bytes of a file go: the logical blocks that sealing gives the runs of a file, as a map from
  logical to physical blocks, and what a position of the file reads through that map.
\<close>

section \<open>Maps of blocks\<close>

definition block_map :: "(u32 \<times> run) list \<Rightarrow> (nat \<times> nat) list" where
  "block_map pairs =
    concat (map (\<lambda>(lo, r). zip [unat lo..<unat lo + run_len r] [run_start r..<run_start r + run_len r]) pairs)"

lemma block_map_simps [simp]:
  "block_map [] = []"
  "block_map ((lo, r) # ps) =
    zip [unat lo..<unat lo + run_len r] [run_start r..<run_start r + run_len r] @ block_map ps"
  "block_map (ps @ qs) = block_map ps @ block_map qs"
  by (simp_all add: block_map_def)

lemma map_of_zip_upt:
  "n \<le> length bs \<Longrightarrow> map_of (zip [lo..<lo + n] bs) l = (if lo \<le> l \<and> l < lo + n then Some (bs ! (l - lo)) else None)"
proof (induction n arbitrary: lo bs)
  case (Suc n)
  then obtain b bs' where b: "bs = b # bs'" "n \<le> length bs'" by (cases bs) auto
  have "[lo..<lo + Suc n] = lo # [Suc lo..<Suc lo + n]" by (simp add: upt_rec)
  then show ?case using Suc.IH [OF b(2), of "Suc lo"] b(1) by (auto simp: nth_Cons')
qed simp

text \<open>The reader's search through the extents of a plan is a lookup in its map.\<close>

lemma file_block_map:
  assumes "\<forall>x\<in>set (plan_exts pairs). ext_ok x"
  shows "file_block (map fx_of (plan_exts pairs)) l = map_of (block_map pairs) l"
  using assms
proof (induction pairs)
  case Nil
  then show ?case by (simp add: plan_exts_def file_block_def)
next
  case (Cons p pairs)
  obtain lo r where p: "p = (lo, r)" by (cases p)
  have "ext_ok (lo, run_start r, run_len r)" using Cons.prems p by (simp add: plan_exts_def)
  then have c: "covers (fx_of (lo, run_start r, run_len r)) l \<longleftrightarrow> unat lo \<le> l \<and> l < unat lo + run_len r"
    "fx_physical (fx_of (lo, run_start r, run_len r)) = run_start r" "fx_logical (fx_of (lo, run_start r, run_len r)) = unat lo"
    by (auto simp: covers_def fx_of_def)
  have "map_of (zip [unat lo..<unat lo + run_len r] [run_start r..<run_start r + run_len r]) l =
      (if unat lo \<le> l \<and> l < unat lo + run_len r then Some (run_start r + (l - unat lo)) else None)"
    using map_of_zip_upt [of "run_len r" "[run_start r..<run_start r + run_len r]" "unat lo" l] by auto
  moreover have "file_block (map fx_of (plan_exts pairs)) l = map_of (block_map pairs) l"
    using Cons by (simp add: plan_exts_def)
  ultimately show ?case using c p by (auto simp: plan_exts_def file_block_Cons map_add_def)
qed

section \<open>Consecutive logical blocks\<close>

definition pairs_within :: "nat \<Rightarrow> nat \<Rightarrow> (u32 \<times> run) list \<Rightarrow> bool" where
  "pairs_within lo hi ps \<longleftrightarrow> sorted_wrt (\<lambda>(a, r) (b, q). unat a + run_len r \<le> unat b) ps \<and>
    (\<forall>(a, r)\<in>set ps. lo \<le> unat a \<and> unat a + run_len r \<le> hi)"

lemma logicals_from_map:
  "logicals_from lo runs = Inr ps \<Longrightarrow> map snd ps = runs \<and>
    block_map ps = zip [unat lo..<unat lo + length (expand_runs runs)] (expand_runs runs) \<and>
    pairs_within (unat lo) (unat lo + length (expand_runs runs)) ps"
proof (induction lo runs arbitrary: ps rule: logicals_from.induct)
  case (1 lo)
  then show ?case by (simp add: pairs_within_def)
next
  case (2 lo r rs)
  then obtain nx ps' where s: "add32 lo (run_len r) = Inr nx" "logicals_from nx rs = Inr ps'" "ps = (lo, r) # ps'"
    by (auto simp: bindE_eq_Inr)
  have nx: "unat nx = unat lo + run_len r"
  proof -
    have b: "unat lo + run_len r < 2 ^ 32" "nx = lo + of_nat (run_len r)"
      using s(1) by (auto simp: add32_def split: if_splits)
    then have "nx = of_nat (unat lo + run_len r)" by simp
    then show ?thesis using b(1) by (simp only: unat_of_nat) simp
  qed
  note ih = "2.IH" [OF s(1,2)]
  let ?n = "run_len r" and ?m = "length (expand_runs rs)"
  have "[unat lo..<unat lo + (?n + ?m)] = [unat lo..<unat lo + ?n] @ [unat lo + ?n..<unat lo + ?n + ?m]"
    by (metis add.assoc le_add1 upt_add_eq_append)
  then have "zip [unat lo..<unat lo + (?n + ?m)] ([run_start r..<run_start r + ?n] @ expand_runs rs) =
      zip [unat lo..<unat lo + ?n] [run_start r..<run_start r + ?n] @ zip [unat lo + ?n..<unat lo + ?n + ?m] (expand_runs rs)"
    by simp
  then show ?case using ih s(3) nx by (fastforce simp: pairs_within_def)
qed


section \<open>Data segments\<close>

text \<open>The blocks of the data segments, in order, at their places in the file.\<close>

fun seg_map :: "(nat \<times> nat) list \<Rightarrow> nat list \<Rightarrow> (nat \<times> nat) list" where
  "seg_map [] bs = []"
| "seg_map ((off, len) # segs) bs =
    zip [off div 4096..<off div 4096 + div_ceil len 4096] bs @ seg_map segs (drop (div_ceil len 4096) bs)"

text \<open>Where a position of the file lies in the concatenated data.\<close>

fun data_pos :: "(nat \<times> nat) list \<Rightarrow> nat \<Rightarrow> nat \<Rightarrow> nat option" where
  "data_pos [] d p = None"
| "data_pos ((off, len) # segs) d p =
    (if off \<le> p \<and> p < off + len then Some (d + (p - off)) else data_pos segs (d + len) p)"

fun spaced :: "(nat \<times> nat) list \<Rightarrow> bool" where
  "spaced [] \<longleftrightarrow> True"
| "spaced ((off, len) # segs) \<longleftrightarrow> off mod 4096 = 0 \<and> off < 2 ^ 44 \<and> 0 < len \<and>
    (\<forall>s\<in>set segs. off + len \<le> fst s) \<and> (segs \<noteq> [] \<longrightarrow> len mod 4096 = 0) \<and> spaced segs"

definition seg_count :: "(nat \<times> nat) list \<Rightarrow> nat" where
  "seg_count segs = sum_list (map (\<lambda>s. div_ceil (snd s) 4096) segs)"

lemma whole: "n mod 4096 = 0 \<Longrightarrow> n = div_ceil n 4096 * 4096"
  using whole_blocks [of n] by simp

text \<open>Looking up the block of a position finds the block that holds its byte, or, past the data, a block
  whose bytes are all past the data.\<close>

lemma seg_map_lookup:
  assumes "spaced segs" "length bs = seg_count segs"
  shows "case map_of (seg_map segs bs) (p div 4096) of
      None \<Rightarrow> data_pos segs d p = None
    | Some blk \<Rightarrow> \<exists>k<length bs. blk = bs ! k \<and> (case data_pos segs d p of
        Some q \<Rightarrow> q = d + k * 4096 + p mod 4096
      | None \<Rightarrow> sum_list (map snd segs) \<le> k * 4096 + p mod 4096)"
  using assms
proof (induction segs arbitrary: bs d)
  case (Cons s segs)
  obtain off len where s: "s = (off, len)" by (cases s)
  define n where "n = div_ceil len 4096"
  define l where "l = p div 4096"
  define c where "c = off div 4096"
  have off: "off = c * 4096" using Cons.prems(1) s by (auto simp: c_def)
  have p: "p = l * 4096 + p mod 4096" "p mod 4096 < 4096" by (simp_all add: l_def)
  have n: "len \<le> n * 4096" using div_ceil_bounds(1) [of 4096 len] by (simp add: n_def)
  have bs: "n \<le> length bs" "length (drop n bs) = seg_count segs"
    using Cons.prems(2) s by (simp_all add: seg_count_def n_def)
  have m: "map_of (seg_map (s # segs) bs) l =
      (if c \<le> l \<and> l < c + n then Some (bs ! (l - c)) else map_of (seg_map segs (drop n bs)) l)"
    using map_of_zip_upt [OF bs(1), of c l] s by (simp add: n_def c_def map_add_def)
  show ?case
  proof (cases "c \<le> l \<and> l < c + n")
    case True
    then have pos: "off \<le> p" "p - off = (l - c) * 4096 + p mod 4096" "l - c < length bs"
      using p(1) off bs(1) by (auto simp: diff_mult_distrib)
    have "case data_pos (s # segs) d p of Some q \<Rightarrow> q = d + (l - c) * 4096 + p mod 4096
      | None \<Rightarrow> sum_list (map snd (s # segs)) \<le> (l - c) * 4096 + p mod 4096"
    proof (cases "p < off + len")
      case True
      then show ?thesis using pos s by simp
    next
      case False
      have "segs = []"
      proof (rule ccontr)
        assume "segs \<noteq> []"
        then have "len = n * 4096" using Cons.prems(1) s whole [of len] by (simp add: n_def)
        then show False using False True off p by (simp add: algebra_simps)
      qed
      then show ?thesis using False pos s by simp
    qed
    moreover have "map_of (seg_map (s # segs) bs) (p div 4096) = Some (bs ! (l - c))" using m True by (simp add: l_def)
    ultimately show ?thesis using pos(3) by (simp only: option.case) blast
  next
    case False
    have out: "\<not> (off \<le> p \<and> p < off + len)"
    proof
      assume "off \<le> p \<and> p < off + len"
      then have a: "off \<le> p" "p < off + len" by simp_all
      obtain r where r: "p = l * 4096 + r" "r < 4096" using p by blast
      then have "c * 4096 < (l + 1) * 4096" "l * 4096 < (c + n) * 4096"
        using a off n by (simp_all add: distrib_right)
      then show False using False by simp
    qed
    have mm: "map_of (seg_map (s # segs) bs) (p div 4096) = map_of (seg_map segs (drop n bs)) l"
      using m False unfolding l_def by metis
    show ?thesis
    proof (cases "segs = []")
      case True
      then have "map_of (seg_map (s # segs) bs) (p div 4096) = None" unfolding mm by simp
      then show ?thesis using True out s by (simp del: seg_map.simps)
    next
      case seg: False
      then have len: "len = n * 4096" "spaced segs" using Cons.prems(1) s whole [of len] by (simp_all add: n_def)
      note ih = Cons.IH [OF len(2) bs(2), of "d + len"]
      show ?thesis
      proof (cases "map_of (seg_map segs (drop n bs)) l")
        case None
        then have "map_of (seg_map (s # segs) bs) (p div 4096) = None" unfolding mm .
        moreover have "data_pos segs (d + len) p = None" using ih None by (simp add: l_def)
        ultimately show ?thesis using out s by (simp del: seg_map.simps)
      next
        case (Some blk)
        then obtain k where k: "k < length (drop n bs)" "blk = drop n bs ! k"
          "case data_pos segs (d + len) p of Some q \<Rightarrow> q = d + len + k * 4096 + p mod 4096
           | None \<Rightarrow> sum_list (map snd segs) \<le> k * 4096 + p mod 4096"
          using ih by (auto simp: l_def)
        have "n + k < length bs \<and> blk = bs ! (n + k) \<and> (case data_pos (s # segs) d p of
            Some q \<Rightarrow> q = d + (n + k) * 4096 + p mod 4096
          | None \<Rightarrow> sum_list (map snd (s # segs)) \<le> (n + k) * 4096 + p mod 4096)"
          using k out s len(1) bs(1) by (auto simp: algebra_simps split: option.splits)
        moreover have "map_of (seg_map (s # segs) bs) (p div 4096) = Some blk" unfolding mm using Some .
        ultimately show ?thesis by (simp only: option.case) blast
      qed
    qed
  qed
qed (simp add: seg_count_def)

section \<open>Taking the blocks of a file\<close>

lemma seal_data_segs_map:
  assumes "foldE seal_data_seg segs ([], [], 0, st) = Inr (pairs, runs, sz, st')" "spaced segs" "placed F U st"
  shows "map snd pairs = runs" "block_map pairs = seg_map segs (expand_runs runs)"
    "length (expand_runs runs) = seg_count segs" "sz = sum_list (map snd segs)" "\<exists>hi. pairs_within 0 hi pairs"
    "\<forall>r\<in>set runs. 0 < run_len r \<and> run_len r \<le> 32768" "st_segments st' = st_segments st" "alloc_wf (st_alloc st')"
proof -
  have gen: "\<exists>ps new. pairs = ps0 @ ps \<and> runs = rs0 @ new \<and> map snd ps = new \<and>
      block_map ps = seg_map segs (expand_runs new) \<and> length (expand_runs new) = seg_count segs \<and>
      sz = n0 + sum_list (map snd segs) \<and> (\<forall>r\<in>set new. 0 < run_len r \<and> run_len r \<le> 32768) \<and>
      st_segments st' = st_segments st \<and> alloc_wf (st_alloc st') \<and>
      (\<exists>hi. pairs_within (case segs of [] \<Rightarrow> hi | s # _ \<Rightarrow> fst s div 4096) hi ps)"
    if "foldE seal_data_seg segs (ps0, rs0, n0, st) = Inr (pairs, runs, sz, st')" "spaced segs" "alloc_wf (st_alloc st)"
    for ps0 rs0 n0 st
    using that
  proof (induction segs arbitrary: ps0 rs0 n0 st)
    case Nil
    then show ?case by (simp add: seg_count_def pairs_within_def)
  next
    case (Cons s segs)
    obtain off len where s: "s = (off, len)" by (cases s)
    obtain seg_runs st1 ps where t: "st_take (div_ceil len 4096) st = Inr (seg_runs, st1)"
      "logicals_from (of_nat (off div 4096)) seg_runs = Inr ps"
      "foldE seal_data_seg segs (ps0 @ ps, rs0 @ seg_runs, n0 + len, st1) = Inr (pairs, runs, sz, st')"
      using Cons.prems(1) s by (auto simp: seal_data_seg_def bindE_eq_Inr)
    obtain a where a: "take_runs (st_alloc st) (div_ceil len 4096) MAX_EXTENT err_full = Inr (seg_runs, a)"
      "st1 = st\<lparr>st_alloc := a\<rparr>"
      using t(1) by (auto simp: st_take_def bindE_eq_Inr)
    have me: "0 < MAX_EXTENT" by simp
    note tk = take_runs_ok [OF Cons.prems(3) me a(1)]
    have cnt: "length (expand_runs seg_runs) = div_ceil len 4096" using tk(1,4) by simp
    have o44: "off < 2 ^ 44" using Cons.prems(2) s by simp
    then have "off div 4096 < 2 ^ 32" by (simp add: div_less_iff_less_mult)
    then have lo: "unat (of_nat (off div 4096) :: u32) = off div 4096" by (simp add: unat_of_nat)
    note lf = logicals_from_map [OF t(2), unfolded lo cnt]
    have sp: "spaced segs" using Cons.prems(2) s by simp
    have wf1: "alloc_wf (st_alloc st1)" using tk(3) a(2) by simp
    obtain ps' new hi where r: "pairs = (ps0 @ ps) @ ps'" "runs = (rs0 @ seg_runs) @ new" "map snd ps' = new"
      "block_map ps' = seg_map segs (expand_runs new)" "length (expand_runs new) = seg_count segs"
      "sz = n0 + len + sum_list (map snd segs)" "\<forall>r\<in>set new. 0 < run_len r \<and> run_len r \<le> 32768"
      "st_segments st' = st_segments st1" "alloc_wf (st_alloc st')"
      "pairs_within (case segs of [] \<Rightarrow> hi | s # _ \<Rightarrow> fst s div 4096) hi ps'"
      using Cons.IH [OF t(3) sp wf1] by blast
    have within: "\<exists>hi. pairs_within (off div 4096) hi (ps @ ps')"
    proof (cases segs)
      case Nil
      then have "ps' = []" using r(3-5,7) by (cases ps') (auto simp: seg_count_def dest: sym)
      then show ?thesis using lf by auto
    next
      case (Cons s' segs')
      obtain off' len' where "s' = (off', len')" by (cases s')
      then have l: "len mod 4096 = 0" "off + len \<le> fst s'" "off mod 4096 = 0" "fst s' mod 4096 = 0"
        using \<open>spaced (s # segs)\<close> s Cons by auto
      have "(off div 4096 + div_ceil len 4096) * 4096 \<le> fst s' div 4096 * 4096" 
      proof -
        have "off div 4096 * 4096 = off" "fst s' div 4096 * 4096 = fst s'" using l(3,4) by auto
        then show ?thesis using whole [OF l(1)] l(2) by (simp only: distrib_right)
      qed
      then have "off div 4096 + div_ceil len 4096 \<le> fst s' div 4096" by simp
      then show ?thesis using lf r(10) Cons
        by (intro exI [of _ "max hi (off div 4096 + div_ceil len 4096)"])
          (fastforce simp: pairs_within_def sorted_wrt_append)
    qed
    have z: "zip [off div 4096..<off div 4096 + div_ceil len 4096] (expand_runs (map snd ps) @ x) =
        zip [off div 4096..<off div 4096 + div_ceil len 4096] (expand_runs (map snd ps))" for x
      using cnt lf by (simp add: zip_append2)
    show ?case using r lf s a(2) tk(5) cnt within z
      by (intro exI [of _ "ps @ ps'"] exI [of _ "seg_runs @ new"]) (auto simp: seg_count_def)
  qed
  obtain hi where "map snd pairs = runs" "block_map pairs = seg_map segs (expand_runs runs)"
    "length (expand_runs runs) = seg_count segs" "sz = sum_list (map snd segs)"
    "\<forall>r\<in>set runs. 0 < run_len r \<and> run_len r \<le> 32768" "st_segments st' = st_segments st" "alloc_wf (st_alloc st')"
    "pairs_within (case segs of [] \<Rightarrow> hi | s # _ \<Rightarrow> fst s div 4096) hi pairs"
    using gen [OF assms(1,2) placed_wf [OF assms(3)]] by auto
  then show "map snd pairs = runs" "block_map pairs = seg_map segs (expand_runs runs)"
    "length (expand_runs runs) = seg_count segs" "sz = sum_list (map snd segs)" "\<exists>hi. pairs_within 0 hi pairs"
    "\<forall>r\<in>set runs. 0 < run_len r \<and> run_len r \<le> 32768" "st_segments st' = st_segments st" "alloc_wf (st_alloc st')"
    by (auto simp: pairs_within_def)
qed

end
