(* ===== verification/FilePlans.thy ===== *)
theory FilePlans
  imports FileMap
begin

text \<open>
  The data phase of sealing keeps, for every file it has placed, the extent plan it made: its extents map
  the data segments to the file's runs, and its tree blocks are among the pushed segments.
\<close>

definition file_planned :: "crc \<Rightarrow> u32 \<Rightarrow> nat \<Rightarrow> (nat \<times> nat) list \<Rightarrow> segment list \<Rightarrow> run list \<times> nat \<Rightarrow> (extent_plan \<times> nat) option \<Rightarrow> bool" where
  "file_planned crc fseed ino segs all fr fp \<longleftrightarrow> (\<exists>pairs plan a a' tsegs.
    fp = Some (plan, sum_list (map run_len (fst fr))) \<and> map snd pairs = fst fr \<and>
    block_map pairs = seg_map segs (expand_runs (fst fr)) \<and> length (expand_runs (fst fr)) = seg_count segs \<and>
    snd fr = sum_list (map snd segs) \<and> (\<exists>hi. pairs_within 0 hi pairs) \<and>
    (\<forall>r\<in>set (fst fr). 0 < run_len r \<and> run_len r \<le> 32768) \<and> alloc_wf a \<and>
    plan_extents crc pairs (of_nat ino) fseed a = Inr (plan, a', tsegs) \<and> mset tsegs \<subseteq># mset all)"

lemma file_planned_mono:
  "file_planned crc fseed ino segs all fr fp \<Longrightarrow> mset all \<subseteq># mset all' \<Longrightarrow> file_planned crc fseed ino segs all' fr fp"
  unfolding file_planned_def by (blast intro: subset_mset.order_trans)

definition plans_ok :: "crc \<Rightarrow> fs_builder \<Rightarrow> nat list \<Rightarrow> u32 \<Rightarrow> nat \<Rightarrow> data_state \<Rightarrow> bool" where
  "plans_ok crc b slot_ino fseed k st \<longleftrightarrow> length (ds_file_plans st) = length (fb_nodes b) \<and>
    (\<forall>j<length (fb_nodes b). case data_segs_of (n_kind (fb_nodes b ! j)) of
       None \<Rightarrow> ds_file_plans st ! j = None \<and> ds_file_runs st ! j = ([], 0)
     | Some segs \<Rightarrow> j < k \<longrightarrow> slot_ino ! j \<noteq> 0 \<longrightarrow> spaced segs \<longrightarrow>
         file_planned crc fseed (slot_ino ! j) segs (st_segments st) (ds_file_runs st ! j) (ds_file_plans st ! j))"

lemma plans_start: "plans_ok crc b slot_ino fseed 0 (data_start b ns)"
  by (auto simp: plans_ok_def data_start_def split: option.splits)

lemma seal_file_plans:
  assumes "plans_ok crc b slot_ino fseed k st" "data_ok F U (length (fb_nodes b)) slot_ino k st" "k < length (fb_nodes b)"
    and "seal_file crc b slot_ino fseed k st = Inr st'"
  shows "plans_ok crc b slot_ino fseed (Suc k) st'"
proof (cases "slot_ino ! k = 0 \<or> data_segs_of (n_kind (fb_nodes b ! k)) = None")
  case True
  then have "st' = st" using assms(4) by (auto simp: seal_file_def Let_def split: if_splits)
  show ?thesis
    unfolding plans_ok_def \<open>st' = st\<close>
  proof (intro conjI allI impI)
    show "length (ds_file_plans st) = length (fb_nodes b)" using assms(1) by (simp add: plans_ok_def)
    fix j assume "j < length (fb_nodes b)"
    then have "case data_segs_of (n_kind (fb_nodes b ! j)) of
         None \<Rightarrow> ds_file_plans st ! j = None \<and> ds_file_runs st ! j = ([], 0)
       | Some segs \<Rightarrow> j < k \<longrightarrow> slot_ino ! j \<noteq> 0 \<longrightarrow> spaced segs \<longrightarrow>
           file_planned crc fseed (slot_ino ! j) segs (st_segments st) (ds_file_runs st ! j) (ds_file_plans st ! j)"
      using assms(1) unfolding plans_ok_def by blast
    then show "case data_segs_of (n_kind (fb_nodes b ! j)) of
         None \<Rightarrow> ds_file_plans st ! j = None \<and> ds_file_runs st ! j = ([], 0)
       | Some segs \<Rightarrow> j < Suc k \<longrightarrow> slot_ino ! j \<noteq> 0 \<longrightarrow> spaced segs \<longrightarrow>
           file_planned crc fseed (slot_ino ! j) segs (st_segments st) (ds_file_runs st ! j) (ds_file_plans st ! j)"
      using True by (cases "j = k") (auto split: option.splits)
  qed
next
  case False
  then obtain segs pairs runs sz st1 plan st2 where s: "data_segs_of (n_kind (fb_nodes b ! k)) = Some segs"
    "foldE seal_data_seg segs ([], [], 0, st) = Inr (pairs, runs, sz, st1)"
    "st_plan crc pairs (slot_ino ! k) fseed st1 = Inr (plan, st2)"
    "st' = st2\<lparr>ds_data_runs := ds_data_runs st2 @ runs, ds_file_runs := (ds_file_runs st2)[k := (runs, sz)],
      ds_file_plans := (ds_file_plans st2)[k := Some (plan, sum_list (map run_len runs))]\<rparr>"
    using assms(4) by (auto simp: seal_file_def Let_def bindE_eq_Inr)
  obtain a' tsegs where p: "plan_extents crc pairs (of_nat (slot_ino ! k)) fseed (st_alloc st1) = Inr (plan, a', tsegs)"
    "st2 = st_push tsegs (st1\<lparr>st_alloc := a'\<rparr>)"
    using s(3) by (auto simp: st_plan_def bindE_eq_Inr)
  obtain U' where pl: "placed F U' st" using assms(2) unfolding data_ok_def by blast
  have frame: "st_segments st1 = st_segments st \<and> ds_file_runs st1 = ds_file_runs st \<and> ds_file_plans st1 = ds_file_plans st"
  proof -
    have step: "st_segments q' = st_segments q \<and> ds_file_runs q' = ds_file_runs q \<and> ds_file_plans q' = ds_file_plans q"
      if "seal_data_seg x (ps, rs, n, q) = Inr (ps', rs', n', q')" for x ps rs n ps' rs' n' and q q' :: data_state
      using that by (cases x) (auto simp: seal_data_seg_def st_take_def bindE_eq_Inr)
    have "st_segments q' = st_segments q \<and> ds_file_runs q' = ds_file_runs q \<and> ds_file_plans q' = ds_file_plans q"
      if "foldE seal_data_seg xs (ps, rs, n, q) = Inr (ps', rs', n', q')" for xs ps rs n ps' rs' n' and q q' :: data_state
      using that
    proof (induction xs arbitrary: ps rs n q)
      case (Cons x xs)
      then obtain ps1 rs1 n1 q1 where 1: "seal_data_seg x (ps, rs, n, q) = Inr (ps1, rs1, n1, q1)"
        "foldE seal_data_seg xs (ps1, rs1, n1, q1) = Inr (ps', rs', n', q')"
        by (auto simp: bindE_eq_Inr)
      show ?case using step [OF 1(1)] Cons.IH [OF 1(2)] by simp
    qed simp
    then show ?thesis using s(2) by blast
  qed
  have segs': "st_segments st' = st_segments st @ tsegs" using s(4) p(2) frame by (simp add: st_push_def)
  have lists: "ds_file_runs st' = (ds_file_runs st)[k := (runs, sz)]"
    "ds_file_plans st' = (ds_file_plans st)[k := Some (plan, sum_list (map run_len runs))]"
    using s(4) p(2) frame by (simp_all add: st_push_def)
  have len: "length (ds_file_plans st) = length (fb_nodes b)" "length (ds_file_runs st) = length (fb_nodes b)"
    using assms(1,2) by (simp_all add: plans_ok_def data_ok_def)
  have new: "file_planned crc fseed (slot_ino ! k) segs (st_segments st') (runs, sz) (Some (plan, sum_list (map run_len runs)))"
    if "spaced segs"
  proof -
    note m = seal_data_segs_map [OF s(2) that pl]
    have "mset tsegs \<subseteq># mset (st_segments st')" by (simp add: segs')
    then show ?thesis unfolding file_planned_def using m p(1) by auto
  qed
  show ?thesis
    unfolding plans_ok_def
  proof (intro conjI allI impI)
    show "length (ds_file_plans st') = length (fb_nodes b)" using lists len by simp
    fix j assume j: "j < length (fb_nodes b)"
    have grow: "mset (st_segments st) \<subseteq># mset (st_segments st')" by (simp add: segs')
    show "case data_segs_of (n_kind (fb_nodes b ! j)) of
       None \<Rightarrow> ds_file_plans st' ! j = None \<and> ds_file_runs st' ! j = ([], 0)
     | Some segs \<Rightarrow> j < Suc k \<longrightarrow> slot_ino ! j \<noteq> 0 \<longrightarrow> spaced segs \<longrightarrow>
         file_planned crc fseed (slot_ino ! j) segs (st_segments st') (ds_file_runs st' ! j) (ds_file_plans st' ! j)"
    proof (cases "j = k")
      case True
      then show ?thesis using s(1) new lists len j by simp
    next
      case other: False
      have old: "case data_segs_of (n_kind (fb_nodes b ! j)) of
         None \<Rightarrow> ds_file_plans st ! j = None \<and> ds_file_runs st ! j = ([], 0)
       | Some segs \<Rightarrow> j < k \<longrightarrow> slot_ino ! j \<noteq> 0 \<longrightarrow> spaced segs \<longrightarrow>
           file_planned crc fseed (slot_ino ! j) segs (st_segments st) (ds_file_runs st ! j) (ds_file_plans st ! j)"
        using assms(1) j by (simp add: plans_ok_def)
      then show ?thesis using other lists file_planned_mono [OF _ grow] by (auto split: option.splits)
    qed
  qed
qed

lemma place_all_plans:
  assumes "place_all crc b geo fseed slot_ino = Inr pl" "geometry_wf geo" "aligned b"
  shows "plans_ok crc b slot_ino fseed (length (fb_nodes b)) (pl_data pl)"
proof -
  let ?n = "length (fb_nodes b)"
  from assms(1,2) show ?thesis
  proof (rule place_all_phases, goal_cases)
    case (1 a st2 lfb parents)
    let ?P = "\<lambda>k st. plans_ok crc b slot_ino fseed k st \<and> data_ok (alloc_free a)
      (mset (expand_runs (fst (pl_journal pl))) + mset (expand_runs (fst (pl_lost_found pl))) +
       mset (expand_runs (dir_runs (ns_dirs (pl_names pl))))) ?n slot_ino k st"
    have "?P ?n (pl_data pl)"
      using 1(5)
    proof (rule foldE_upt_inv [where P = ?P])
      show "?P 0 (data_start b (pl_names pl))" using 1(8) plans_start by blast
      fix k st st' assume k: "k < ?n" "?P k st" "seal_file crc b slot_ino fseed k st = Inr st'"
      have "kind_aligned (n_kind (fb_nodes b ! k))" using assms(3) k(1) by (simp add: aligned_def)
      with k show "?P (Suc k) st'" using seal_file_plans seal_file_ok by blast
    qed
    then show ?case by blast
  qed
qed

end
