(* ===== verification/NamePlans.thy ===== *)
theory NamePlans
  imports SealPlaced
begin

text \<open>
  What the names phase of sealing keeps for every slot: an attribute block that was pushed, and an
  attribute area for the inode that is absent or fills it.
\<close>

lemma xattr_plan_ibody:
  assumes "xattr_plan_of attrs = Inr p"
  shows "xp_ibody p = [] \<or> length (xp_ibody p) = 96 \<and> (\<exists>x\<in>set (xp_ibody p). x \<noteq> 0)"
proof (cases "xp_ibody p = []")
  case False
  let ?area = "put_u32 (zeros_buf IBODY_AREA) 0 XATTR_MAGIC"
  obtain as region hashes where r: "render_entries (drop 4 ?area) as (IBODY_AREA - 4) 0 = Inr (region, hashes)"
    "xp_ibody p = take 4 ?area @ region"
    using assms False by (auto simp: xattr_plan_of_def Let_def bindE_eq_Inr split: if_splits)
  have "length region = length (drop 4 ?area)"
    using r(1) render_entries_from_length by (auto simp: render_entries_def)
  moreover have "take 4 ?area = to_le32 XATTR_MAGIC" by (simp add: put_u32_def poke_def)
  moreover have "\<exists>x\<in>set (to_le32 XATTR_MAGIC). x \<noteq> 0"
  proof -
    have four: "(4 :: nat) = Suc (Suc (Suc (Suc 0)))" by simp
    show ?thesis unfolding to_le32_def four le_bytes.simps by simp
  qed
  ultimately show ?thesis using r(2) by auto
qed simp

section \<open>Segments only grow\<close>

definition extends :: "'a seal_state_scheme \<Rightarrow> 'b seal_state_scheme \<Rightarrow> bool" where
  "extends st st' \<longleftrightarrow> (\<exists>x. st_segments st' = st_segments st @ x)"

lemma extends_trans: "extends st st1 \<Longrightarrow> extends st1 st2 \<Longrightarrow> extends st st2"
  by (auto simp: extends_def)

lemma extends_refl [simp]: "extends st st"
  by (simp add: extends_def)

lemma extends_set: "extends st st' \<Longrightarrow> set (st_segments st) \<subseteq> set (st_segments st')"
  by (auto simp: extends_def)

lemma st_take_frame: "st_take n st = Inr (runs, st') \<Longrightarrow> \<exists>a. st' = st\<lparr>st_alloc := a\<rparr>"
  by (auto simp: st_take_def bindE_eq_Inr)

lemma st_take_one_frame: "st_take_one st = Inr (b, st') \<Longrightarrow> \<exists>a. st' = st\<lparr>st_alloc := a\<rparr>"
  by (auto simp: st_take_one_def bindE_eq_Inr)

lemma st_plan_frame:
  "st_plan crc pairs ino fseed st = Inr (plan, st') \<Longrightarrow>
   \<exists>a tsegs. plan_extents crc pairs (of_nat ino) fseed (st_alloc st) = Inr (plan, a, tsegs) \<and>
     st' = st\<lparr>st_alloc := a, st_segments := st_segments st @ tsegs\<rparr>"
  by (auto simp: st_plan_def st_push_def bindE_eq_Inr)

lemma st_dense_frame:
  assumes "st_dense crc n ino fseed st = Inr ((runs, plan), st')"
  shows "\<exists>a tsegs. st' = st\<lparr>st_alloc := a, st_segments := st_segments st @ tsegs\<rparr>"
proof -
  obtain st1 pairs where s: "st_take n st = Inr (runs, st1)" "st_plan crc pairs ino fseed st1 = Inr (plan, st')"
    using assms by (auto simp: st_dense_def bindE_eq_Inr)
  obtain a where "st1 = st\<lparr>st_alloc := a\<rparr>" using st_take_frame [OF s(1)] by blast
  with st_plan_frame [OF s(2)] show ?thesis by (auto intro: exI [of _ "[]"])
qed

section \<open>Attributes\<close>

definition attr_marks_ok :: "nat \<Rightarrow> names_state \<Rightarrow> bool" where
  "attr_marks_ok n st \<longleftrightarrow> length (ns_xattrs st) = n \<and> (\<forall>x\<in>set (ns_xattrs st).
    (fst x = 0 \<or> fst x \<in> seg_block ` set (st_segments st)) \<and>
    (snd x = [] \<or> length (snd x) = 96 \<and> (\<exists>y\<in>set (snd x). y \<noteq> 0)))"

lemma xattrs_ok_extends:
  "attr_marks_ok n st \<Longrightarrow> extends st st' \<Longrightarrow> ns_xattrs st' = ns_xattrs st \<Longrightarrow> attr_marks_ok n st'"
  using extends_set [of st st'] by (fastforce simp: attr_marks_ok_def)

lemma seal_xattrs_keeps:
  assumes "attr_marks_ok n st" "seal_xattrs crc b fseed slot st = Inr st'"
  shows "attr_marks_ok n st'"
proof (cases "fb_xattrs b slot")
  case None
  then show ?thesis using assms by (simp add: seal_xattrs_def)
next
  case (Some attrs)
  then obtain plan acl st1 where p: "xattr_plan_of attrs = Inr plan"
    "(if xp_block_attrs plan = [] then Inr (0, st)
      else bindE (st_take_one st) (\<lambda>(block, st).
        bindE (xattr_render_block crc (xp_block_attrs plan) fseed (of_nat block)) (\<lambda>bs.
        Inr (block, st_push [block_seg block bs] st)))) = Inr (acl, st1)"
    "st' = st1\<lparr>ns_xattrs := (ns_xattrs st1)[slot := (acl, xp_ibody plan)]\<rparr>"
    using assms(2) by (auto simp: seal_xattrs_def bindE_eq_Inr)
  have "extends st st1 \<and> ns_xattrs st1 = ns_xattrs st \<and> (acl = 0 \<or> acl \<in> seg_block ` set (st_segments st1))"
  proof (cases "xp_block_attrs plan = []")
    case False
    then obtain st2 bs where "st_take_one st = Inr (acl, st2)" "st1 = st_push [block_seg acl bs] st2"
      using p(2) by (auto simp: bindE_eq_Inr)
    moreover obtain a where "st2 = st\<lparr>st_alloc := a\<rparr>" using st_take_one_frame [OF calculation(1)] by blast
    ultimately show ?thesis by (simp add: extends_def st_push_def)
  qed (use p(2) in simp)
  then have 1: "attr_marks_ok n st1" "acl = 0 \<or> acl \<in> seg_block ` set (st_segments st1)"
    using xattrs_ok_extends [OF assms(1)] by auto
  let ?ok = "\<lambda>x. (fst x = 0 \<or> fst x \<in> seg_block ` set (st_segments st1)) \<and>
    (snd x = [] \<or> length (snd x) = 96 \<and> (\<exists>y\<in>set (snd x). y \<noteq> 0))"
  have old: "?ok x" if "x \<in> set (ns_xattrs st1)" for x
    using 1(1) that unfolding attr_marks_ok_def by blast
  have new: "?ok (acl, xp_ibody plan)" using 1(2) xattr_plan_ibody [OF p(1)] by simp
  have "?ok x" if "x \<in> set (ns_xattrs st')" for x
  proof -
    have "x \<in> insert (acl, xp_ibody plan) (set (ns_xattrs st1))"
      using that p(3) set_update_subset_insert [of "ns_xattrs st1"] by auto
    then consider "x = (acl, xp_ibody plan)" | "x \<in> set (ns_xattrs st1)" by blast
    then show ?thesis
    proof cases
      case 1
      show ?thesis unfolding 1 by (rule new)
    qed (rule old)
  qed
  moreover have "length (ns_xattrs st') = n" "st_segments st' = st_segments st1"
    using 1(1) p(3) by (simp_all add: attr_marks_ok_def)
  ultimately show ?thesis unfolding attr_marks_ok_def by simp
qed

lemma seal_directory_frame:
  assumes "seal_directory crc b slot_ino parents fseed slot children st = Inr st'"
  shows "extends st st'" "ns_xattrs st' = ns_xattrs st"
proof -
  obtain runs plan bs st1 h where d: "st_dense crc (length bs) (slot_ino ! slot) fseed st = Inr ((runs, plan), st1)"
    "st' = st1\<lparr>ns_rendered := ns_rendered st1 @ zip (expand_runs runs) bs,
             ns_dirs := ns_dirs st1 @ [\<lparr>dp_slot = slot, dp_runs = runs, dp_plan = plan, dp_nblocks = length bs,
               dp_is_htree = h\<rparr>]\<rparr>"
    using assms by (auto simp: seal_directory_def Let_def bindE_eq_Inr)
  then show "extends st st'" "ns_xattrs st' = ns_xattrs st"
    using st_dense_frame [OF d(1)] by (auto simp: extends_def)
qed

lemma seal_slow_symlink_frame:
  assumes "seal_slow_symlink crc ino fseed slot target st = Inr st'"
  shows "extends st st'" "ns_xattrs st' = ns_xattrs st"
proof -
  obtain block st1 pairs plan st2 where s: "st_take_one st = Inr (block, st1)"
    "st_plan crc pairs ino fseed (st_push [block_seg block (poke (zeros_buf BLOCK_SIZE) 0 target)] st1) = Inr (plan, st2)"
    "st' = st2\<lparr>ns_symlinks := (ns_symlinks st2)[slot := Some plan]\<rparr>"
    using assms by (auto simp: seal_slow_symlink_def Let_def bindE_eq_Inr)
  then show "extends st st'" "ns_xattrs st' = ns_xattrs st"
    using st_take_one_frame [OF s(1)] st_plan_frame [OF s(2)] by (auto simp: extends_def st_push_def)
qed

lemma seal_slot_xattrs:
  assumes "attr_marks_ok n st" "seal_slot crc b slot_ino parents fseed slot st = Inr st'"
  shows "attr_marks_ok n st'"
proof (cases "slot_ino ! slot = 0")
  case False
  then obtain st1 where s: "seal_xattrs crc b fseed slot st = Inr st1"
    "(case n_kind (fb_nodes b ! slot) of
         node_kind.Dir children _ \<Rightarrow> seal_directory crc b slot_ino parents fseed slot children st1
       | node_kind.Symlink target \<Rightarrow>
           if 59 < length target then seal_slow_symlink crc (slot_ino ! slot) fseed slot target st1 else Inr st1
       | _ \<Rightarrow> Inr st1) = Inr st'"
    using assms(2) by (auto simp: seal_slot_def Let_def bindE_eq_Inr)
  have "extends st1 st' \<and> ns_xattrs st' = ns_xattrs st1"
    using s(2) seal_directory_frame seal_slow_symlink_frame by (auto split: node_kind.splits if_splits)
  then show ?thesis using xattrs_ok_extends seal_xattrs_keeps [OF assms(1) s(1)] by blast
qed (use assms in \<open>simp add: seal_slot_def\<close>)

lemma place_all_xattrs:
  assumes "place_all crc b geo fseed slot_ino = Inr pl" "geometry_wf geo"
  shows "attr_marks_ok (length (fb_nodes b)) (pl_names pl)"
  using assms
proof (rule place_all_phases, goal_cases)
  case (1 a st2 lfb parents)
  have "attr_marks_ok (length (fb_nodes b)) (names_start b (fst (pl_lost_found pl)) lfb st2)"
    by (auto simp: attr_marks_ok_def names_start_def)
  with 1(4) show ?case by (rule foldE_inv) (rule seal_slot_xattrs)
qed

end
