(* ===== verification/ReadBack.thy ===== *)
theory ReadBack
  imports SealedInodes FilePlans NamePlans
begin

text \<open>
  From the bytes a client fills to the bytes a reader gets: the file of a slot, read from the built image
  at the slot's inode, has its declared size and the filled bytes in its data segments, zeros elsewhere.
\<close>

section \<open>The bytes of a file on the image\<close>

lemma file_pos_nth:
  assumes "distinct (expand_runs runs)" "k < length (expand_runs runs)" "m < 4096"
  shows "file_pos runs (expand_runs runs ! k * 4096 + m) = k * 4096 + m"
  using assms
proof (induction runs arbitrary: k)
  case (Cons r rs)
  let ?b = "expand_runs (r # rs) ! k"
  have blk: "(?b * 4096 + m) div 4096 = ?b" using assms(3) by simp
  show ?case
  proof (cases "k < run_len r")
    case True
    then have "?b = run_start r + k" by (simp add: nth_append)
    then show ?thesis using True blk assms(3) by (simp add: in_run_def algebra_simps)
  next
    case False
    then have b: "?b = expand_runs rs ! (k - run_len r)" "k - run_len r < length (expand_runs rs)"
      using Cons.prems(2) by (simp_all add: nth_append)
    have "?b \<in> set (expand_runs rs)" using b by simp
    then have "\<not> in_run ?b r" using Cons.prems(1) by (auto simp: in_run_def)
    moreover have "file_pos rs (?b * 4096 + m) = (k - run_len r) * 4096 + m"
      unfolding b(1) using Cons.IH [OF _ b(2) assms(3)] Cons.prems(1) by simp
    moreover have "run_len r * 4096 + (k - run_len r) * 4096 = k * 4096" using False by (simp add: diff_mult_distrib)
    ultimately show ?thesis using blk by simp
  qed
qed simp

lemma file_device:
  assumes "files_ok lay" "fills_ok lay {} fills" "f \<in> fillable lay" "map_of fills f = Some rd"
    and "in_runs (file_runs_of lay f) b" "m < 4096"
  shows "device_byte lay fills (b * 4096 + m) = filled_byte (file_runs_of lay f) (file_size lay f) rd (b * 4096 + m)"
proof -
  have blk: "block_of (b * 4096 + m) = b" using assms(6) by simp
  have d: "distinct (map fst fills)" "fst ` set fills = fillable lay" using assms(2) by (simp_all add: fills_ok_def)
  let ?P = "\<lambda>(f, _). in_runs (file_runs_of lay f) (block_of (b * 4096 + m))"
  have mem: "(f, rd) \<in> set fills" using assms(4) by (rule map_of_SomeD)
  have "(f, rd) = x" if "x \<in> set fills" "?P x" for x
  proof -
    obtain g rd' where x: "x = (g, rd')" by (cases x)
    have "g \<in> fillable lay" using that(1) d(2) x by force
    then have "g = f"
      using assms(1,3,5) that(2) x blk by (auto simp: files_ok_def fillable_def)
    then show ?thesis using that(1) mem d(1) x by (simp add: eq_key_imp_eq_value)
  qed
  note u = this
  have P: "?P (f, rd)" using assms(5) blk by simp
  have "find ?P fills = Some (f, rd)" by (rule find_unique) (fact mem, fact P, rule u)
  then show ?thesis by (simp add: device_byte_def)
qed

section \<open>What the reader gets\<close>

text \<open>The content that is declared for a kind of node: its data segments and its size.\<close>

definition declared :: "node_kind \<Rightarrow> ((nat \<times> nat) list \<times> nat) option" where
  "declared k = (case k of
     File sz \<Rightarrow> Some (if 0 < sz then [(0, sz)] else [], sz)
   | Sparse segs sz \<Rightarrow> Some (segs, sz)
   | _ \<Rightarrow> None)"

definition declared_byte :: "(nat \<times> nat) list \<Rightarrow> bytes \<Rightarrow> nat \<Rightarrow> u8" where
  "declared_byte segs rd p = (case data_pos segs 0 p of None \<Rightarrow> 0 | Some q \<Rightarrow> rd ! q)"

definition content_of :: "(handle \<times> bytes) list \<Rightarrow> handle \<Rightarrow> bytes" where
  "content_of fills f = (case map_of fills f of None \<Rightarrow> [] | Some rd \<Rightarrow> rd)"

lemma declared_spaced:
  assumes "kind_ok k" "declared k = Some (segs, sz)" "sz \<le> 2 ^ 44"
  shows "spaced segs" "sum_list (map snd segs) \<le> sz"
proof -
  have sparse: "spaced segs"
    if "sorted_wrt (\<lambda>s t. fst s + snd s < fst t) segs" "\<forall>s\<in>set segs. 0 < snd s \<and> fst s mod 4096 = 0 \<and> fst s + snd s \<le> sz"
      "\<forall>s\<in>set (butlast segs). snd s mod 4096 = 0" for segs
    using that
  proof (induction segs)
    case (Cons s segs)
    obtain off len where s: "s = (off, len)" by (cases s)
    have "off < 2 ^ 44" using Cons.prems(2) assms(3) s by fastforce
    moreover have "spaced segs" using Cons by (auto split: if_splits)
    ultimately show ?case using Cons.prems s by (auto simp: less_imp_le)
  qed simp
  show "spaced segs"
    using assms sparse by (auto simp: declared_def kind_ok_def sparse_ok_def split: node_kind.splits if_splits)
  have "sum_list (map snd segs) + lo \<le> sz"
    if "spaced segs" "\<forall>s\<in>set segs. lo \<le> fst s \<and> fst s + snd s \<le> sz" "lo \<le> sz" for lo
    using that
  proof (induction segs arbitrary: lo)
    case (Cons s segs)
    obtain off len where s: "s = (off, len)" by (cases s)
    have "sum_list (map snd segs) + (off + len) \<le> sz" using Cons s by auto
    then show ?case using Cons.prems s by auto
  qed simp
  moreover have "\<forall>s\<in>set segs. fst s + snd s \<le> sz"
    using assms by (auto simp: declared_def kind_ok_def sparse_ok_def split: node_kind.splits if_splits)
  ultimately show "sum_list (map snd segs) \<le> sz" using \<open>spaced segs\<close> by (metis add.right_neutral le0)
qed


section \<open>The plan of a slot\<close>

text \<open>What sealing knows of the regular file in a slot, with the empty plan of a file without data as
  the plan of no runs.\<close>

lemma root_magic: "root_node d es buf \<Longrightarrow> le16 buf 0 = EXTENT_MAGIC \<and> length buf = 60"
  by (auto simp: root_node_def node_holds_def extent_header_decode_def split: if_splits)

lemma plan_root: "alloc_wf a \<Longrightarrow> plan_extents crc pairs ino fseed a = Inr (plan, a', segs) \<Longrightarrow>
    le16 (ep_root plan) 0 = EXTENT_MAGIC \<and> length (ep_root plan) = 60 \<and> ep_tree_blocks plan = 8 * length segs"
  using plan_extents_cases root_magic by blast

definition no_blocks :: allocator where
  "no_blocks = \<lparr>al_cursor = 0, al_end = 0, al_reserved = [], al_next = 0\<rparr>"

lemma file_plan_exists:
  assumes "plans_ok crc b slot_ino fseed (length (fb_nodes b)) st" "s < length (fb_nodes b)" "slot_ino ! s \<noteq> 0"
    and "declared (n_kind (fb_nodes b ! s)) = Some (segs, sz)" "spaced segs"
    and "node_render (fb_nodes b ! s) (ds_file_plans st ! s) symlink xattrs = Inr rr"
  shows "\<exists>plan n. rr = Some (render_file (n_meta (fb_nodes b ! s)) (n_nlink (fb_nodes b ! s)) sz (plan, n) xattrs) \<and>
    file_planned crc fseed (slot_ino ! s) segs (st_segments st) (ds_file_runs st ! s) (Some (plan, n))"
proof -
  obtain empty where e: "empty_extent_plan = Inr empty" using empty_extent_plan_ok by blast
  have rr: "rr = Some (render_file (n_meta (fb_nodes b ! s)) (n_nlink (fb_nodes b ! s)) sz
      (case ds_file_plans st ! s of Some p \<Rightarrow> p | None \<Rightarrow> (empty, 0)) xattrs)"
    using assms(4,6) by (auto simp: node_render_def declared_def Let_def e split: node_kind.splits)
  have plans: "case data_segs_of (n_kind (fb_nodes b ! s)) of
       None \<Rightarrow> ds_file_plans st ! s = None \<and> ds_file_runs st ! s = ([], 0)
     | Some segs \<Rightarrow> spaced segs \<longrightarrow>
         file_planned crc fseed (slot_ino ! s) segs (st_segments st) (ds_file_runs st ! s) (ds_file_plans st ! s)"
  proof -
    have "case data_segs_of (n_kind (fb_nodes b ! s)) of
         None \<Rightarrow> ds_file_plans st ! s = None \<and> ds_file_runs st ! s = ([], 0)
       | Some segs \<Rightarrow> s < length (fb_nodes b) \<longrightarrow> slot_ino ! s \<noteq> 0 \<longrightarrow> spaced segs \<longrightarrow>
           file_planned crc fseed (slot_ino ! s) segs (st_segments st) (ds_file_runs st ! s) (ds_file_plans st ! s)"
      using assms(1,2) unfolding plans_ok_def by blast
    then show ?thesis using assms(2,3) by (simp split: option.splits)
  qed
  show ?thesis
  proof (cases "data_segs_of (n_kind (fb_nodes b ! s))")
    case None
    then have "segs = []" using assms(4) by (auto simp: data_segs_of_def declared_def split: node_kind.splits if_splits)
    moreover have "plan_extents crc [] (of_nat (slot_ino ! s)) fseed no_blocks = Inr (empty, no_blocks, [])"
      using e by (auto simp: plan_extents_def empty_extent_plan_def bindE_eq_Inr Let_def)
    moreover have "alloc_wf no_blocks" by (simp add: no_blocks_def alloc_wf_def)
    ultimately have "file_planned crc fseed (slot_ino ! s) segs (st_segments st) (ds_file_runs st ! s) (Some (empty, 0))"
      unfolding file_planned_def using None plans
      by (intro exI [of _ "[]"] exI [of _ empty] exI [of _ no_blocks]) (simp add: seg_count_def pairs_within_def)
    then show ?thesis using rr None plans by auto
  next
    case (Some segs')
    then have "segs' = segs" using assms(4) by (auto simp: data_segs_of_def declared_def split: node_kind.splits if_splits)
    then have "file_planned crc fseed (slot_ino ! s) segs (st_segments st) (ds_file_runs st ! s) (ds_file_plans st ! s)"
      using plans Some assms(5) by simp
    moreover from this obtain plan n where "ds_file_plans st ! s = Some (plan, n)" by (auto simp: file_planned_def)
    ultimately show ?thesis using rr by auto
  qed
qed

section \<open>Bounds\<close>

lemma distinct_below: "distinct xs \<Longrightarrow> \<forall>x\<in>set xs. x < n \<Longrightarrow> length xs \<le> (n :: nat)"
  by (metis card_lessThan card_mono distinct_card finite_lessThan lessThan_iff subsetI)

lemma of_nat_bound: "x < 2 ^ 48 \<Longrightarrow> unat (of_nat x :: u64) < 2 ^ 48"
  by (simp add: unat_of_nat)

lemma render_file_wf:
  assumes "inode_of_render (render_file m nlink sz (plan, n) (acl, ib)) = Inr i" "length (ep_root plan) = 60"
    and "n \<le> 2 ^ 32" "ep_tree_blocks plan \<le> 8 * 2 ^ 32" "acl < 2 ^ 32" "ib = [] \<or> length ib = 96 \<and> (\<exists>x\<in>set ib. x \<noteq> 0)"
  shows "inode_wf i" "i_size i = of_nat sz" "i_block i = ep_root plan" "i_flags i = iflags_EXTENTS" "i_generation i = 0"
proof -
  note f = inode_of_render_fields [OF assms(1)]
  have "n * 8 + ep_tree_blocks plan + acl_512 acl < 2 ^ 48" using assms(3,4) by (simp add: acl_512_def)
  then have "unat (i_blocks i) < 2 ^ 48" using of_nat_bound [of "n * 8 + ep_tree_blocks plan + acl_512 acl"] f(2)
    by (simp add: render_file_def inode_render_plain_def)
  moreover have "unat (i_file_acl i) < 2 ^ 48" using of_nat_bound [of acl] assms(5) f(5)
    by (simp add: render_file_def inode_render_plain_def)
  ultimately show "inode_wf i" using f assms(2,6) by (simp add: inode_wf_def render_file_def inode_render_plain_def)
  show "i_size i = of_nat sz" "i_block i = ep_root plan" "i_flags i = iflags_EXTENTS" "i_generation i = 0"
    using f by (simp_all add: render_file_def inode_render_plain_def)
qed

section \<open>Content\<close>

lemma data_pos_less: "data_pos segs d p = Some q \<Longrightarrow> d \<le> q \<and> q < d + sum_list (map snd segs)"
  by (induction segs d p rule: data_pos.induct) (fastforce split: if_splits)+

lemma in_expand: "b \<in> set (expand_runs rs) \<longleftrightarrow> in_runs rs b"
  by (auto simp: in_runs_def in_run_def expand_runs_def)

lemma content_bytes:
  assumes lay: "layout_ok lay" "files_ok lay" "fills_ok lay {} fills"
    and s: "s < length (lay_file_runs lay)" "lay_slot_ino lay ! s \<noteq> 0"
    and m: "block_map pairs = seg_map segs (expand_runs (file_runs_of lay s))"
      "length (expand_runs (file_runs_of lay s)) = seg_count segs" "\<forall>x\<in>set (plan_exts pairs). ext_ok x"
      "file_size lay s = sum_list (map snd segs)" "spaced segs"
  shows "file_byte ((!) (image_bytes lay fills)) (map fx_of (plan_exts pairs)) p = declared_byte segs (content_of fills s) p"
proof -
  let ?bs = "expand_runs (file_runs_of lay s)"
  have fb: "file_block (map fx_of (plan_exts pairs)) (p div 4096) = map_of (seg_map segs ?bs) (p div 4096)"
    using file_block_map [OF m(3)] m(1) by simp
  note l = seg_map_lookup [OF m(5,2), where p = p and d = 0]
  show ?thesis
  proof (cases "map_of (seg_map segs ?bs) (p div 4096)")
    case None
    then show ?thesis using fb l by (simp add: file_byte_def declared_byte_def)
  next
    case (Some blk)
    then obtain k where k: "k < length ?bs" "blk = ?bs ! k"
      "case data_pos segs 0 p of Some q \<Rightarrow> q = 0 + k * 4096 + p mod 4096
       | None \<Rightarrow> sum_list (map snd segs) \<le> k * 4096 + p mod 4096"
      using l by auto
    have blk: "in_runs (file_runs_of lay s) blk" using k(1,2) by (simp flip: in_expand)
    then have "file_runs_of lay s \<noteq> []" by (auto simp: in_runs_def)
    then have fill: "s \<in> fillable lay" using s by (simp add: fillable_def)
    then obtain rd where rd: "map_of fills s = Some rd"
      using lay(3) map_of_eq_None_iff [of fills s] by (cases "map_of fills s") (simp_all add: fills_ok_def)
    obtain r where "r \<in> set (file_runs_of lay s)" "in_run blk r" using blk by (auto simp: in_runs_def)
    then have "blk < total_blocks lay" using file_blocks [OF lay(1,2) s(1)] by (fastforce simp: in_run_def)
    then have inside: "blk * 4096 + p mod 4096 < image_len lay" using total_blocks_bytes [OF lay(1)] by simp
    have "distinct ?bs" using lay(2) s(1) runs_disjoint_distinct by (auto simp: files_ok_def file_runs_ok_def runs_ok_def)
    then have pos: "file_pos (file_runs_of lay s) (blk * 4096 + p mod 4096) = k * 4096 + p mod 4096"
      using file_pos_nth k(1,2) by simp
    have "file_byte ((!) (image_bytes lay fills)) (map fx_of (plan_exts pairs)) p = device_byte lay fills (blk * 4096 + p mod 4096)"
      using fb Some inside by (simp add: file_byte_def image_bytes_def)
    also have "\<dots> = filled_byte (file_runs_of lay s) (file_size lay s) rd (blk * 4096 + p mod 4096)"
      using file_device [OF lay(2,3) fill rd blk] by simp
    also have "\<dots> = declared_byte segs (content_of fills s) p"
      using k(3) data_pos_less [of segs 0 p]
      by (auto simp: filled_byte_def pos m(4) declared_byte_def content_of_def rd split: option.splits)
    finally show ?thesis .
  qed
qed

section \<open>Reading a file\<close>

text \<open>The fields of the handle that sealing determines, and the blocks it serves.\<close>

lemma served_segments:
  assumes "layout_ok lay" "files_ok lay" "fst ` set fills \<subseteq> fillable lay" "image_len lay < 2 ^ 60"
    and "fs_src f = slice_source (image_bytes lay fills)" "fs_block_size f = 4096"
    and "block_segs segs" "set segs \<subseteq> set (lay_segments lay)"
  shows "served f segs"
  unfolding served_def
proof
  fix q assume q: "q \<in> set segs"
  then obtain bs where bs: "seg_src q = SegBytes bs" "length bs = 4096" "seg_blocks q = 1"
    using assms(7) by (auto simp: block_segs_def)
  have mem: "q \<in> set (lay_segments lay)" using q assms(8) by blast
  then have "seg_block q + 1 \<le> total_blocks lay" using assms(1) bs(3) by (fastforce simp: layout_ok_def)
  then have b: "(seg_block q + 1) * 4096 \<le> image_len lay"
    using total_blocks_bytes [OF assms(1)] mult_le_mono1 [of "seg_block q + 1" "total_blocks lay" 4096] by simp
  have "read_at (fs_src f) (seg_block q * 4096) 4096 = Inr bs"
    using read_bytes_segment [OF assms(1,2) mem assms(3) bs(1), of 0 4096] bs(2) assms(4,5) by (simp add: peek_def)
  then show "seg_block q < 2 ^ 48 \<and> read_block f (seg_block q) = Inr (seg_bytes q)"
    using b assms(4,6) bs(1) by (simp add: read_block_def mul64_def seg_bytes_def)
qed

lemma file_planned_exts:
  assumes "file_planned crc fseed ino segs all (runs, sz) fp" "\<forall>b\<in>set (expand_runs runs). b < 2 ^ 32"
  obtains pairs plan a a' tsegs where
    "fp = Some (plan, length (expand_runs runs))" "plan_extents crc pairs (of_nat ino) fseed a = Inr (plan, a', tsegs)"
    "alloc_wf a" "mset tsegs \<subseteq># mset all" "block_map pairs = seg_map segs (expand_runs runs)"
    "length (expand_runs runs) = seg_count segs" "sz = sum_list (map snd segs)" "\<forall>x\<in>set (plan_exts pairs). ext_ok x"
    "extents_sorted (map fx_of (plan_exts pairs))" "map snd pairs = runs"
proof -
  obtain pairs plan a a' tsegs hi where p:
    "fp = Some (plan, sum_list (map run_len runs))" "map snd pairs = runs"
    "block_map pairs = seg_map segs (expand_runs runs)" "length (expand_runs runs) = seg_count segs"
    "sz = sum_list (map snd segs)" "pairs_within 0 hi pairs"
    "\<forall>r\<in>set runs. 0 < run_len r \<and> run_len r \<le> 32768" "alloc_wf a"
    "plan_extents crc pairs (of_nat ino) fseed a = Inr (plan, a', tsegs)" "mset tsegs \<subseteq># mset all"
    using assms(1) by (auto simp: file_planned_def)
  have len: "sum_list (map run_len runs) = length (expand_runs runs)" by (induction runs) auto
  have ok: "\<forall>x\<in>set (plan_exts pairs). ext_ok x"
  proof
    fix x assume "x \<in> set (plan_exts pairs)"
    then obtain lo r where x: "x = (lo, run_start r, run_len r)" "(lo, r) \<in> set pairs" by (auto simp: plan_exts_def)
    then have r: "r \<in> set runs" using p(2) by force
    then have "run_start r \<in> set (expand_runs runs)" using p(7) by (auto simp: expand_runs_def)
    then have "run_start r < 2 ^ 32" using assms(2) by blast
    then show "ext_ok x" using x p(7) r by (simp add: ext_ok_def)
  qed
  have "sorted_wrt (\<lambda>a b. fx_logical a + fx_len a \<le> fx_logical b) (map fx_of (plan_exts pairs))"
  proof -
    have "sorted_wrt (\<lambda>p q. unat (fst p) + run_len (snd p) \<le> unat (fst q)) pairs"
      using p(6) by (simp add: pairs_within_def case_prod_unfold)
    then show ?thesis by (simp add: plan_exts_def sorted_wrt_map fx_of_def case_prod_unfold)
  qed
  then show thesis using that p len ok by (simp add: extents_sorted_def)
qed

text \<open>From an inode that is read to the bytes of its file.\<close>

lemma read_planned:
  assumes f: "fs_wf f" "fs_src f = slice_source (image_bytes lay fills)" "fs_csum_seed f = fseed"
      "s_blocks_count (fs_sb f) = of_nat n" "image_len lay = n * 4096" "n < 2 ^ 32"
    and lay: "layout_ok lay" "files_ok lay" "fills_ok lay {} fills"
    and s: "s < length (lay_file_runs lay)" "lay_slot_ino lay ! s \<noteq> 0" "spaced segs" "sz \<le> image_len lay"
    and plan: "file_planned crc fseed ino segs all (lay_file_runs lay ! s) (Some (plan, k))" "served f all"
    and i: "read_inode crc f (of_nat ino) = Inr i" "i_size i = of_nat sz" "i_block i = ep_root plan"
      "i_flags i = iflags_EXTENTS" "i_generation i = 0"
  shows "read_file crc f (of_nat ino) = Inr (map (declared_byte segs (content_of fills s)) [0..<sz])"
proof -
  let ?runs = "file_runs_of lay s"
  have fr: "lay_file_runs lay ! s = (?runs, file_size lay s)" by (simp add: file_runs_of_def file_size_def)
  have total: "total_blocks lay = n" using f(5) by (simp add: total_blocks_def)
  have inside: "run_start r + run_len r \<le> n" if "r \<in> set ?runs" for r
    using file_blocks [OF lay(1,2) s(1) that] total by simp
  then have "\<forall>b\<in>set (expand_runs ?runs). b < 2 ^ 32" using f(6) by (fastforce simp: expand_runs_def)
  with plan(1) obtain pairs a a' tsegs where p:
    "plan_extents crc pairs (of_nat ino) fseed a = Inr (plan, a', tsegs)"
    "alloc_wf a" "mset tsegs \<subseteq># mset all" "block_map pairs = seg_map segs (expand_runs ?runs)"
    "length (expand_runs ?runs) = seg_count segs" "file_size lay s = sum_list (map snd segs)"
    "\<forall>x\<in>set (plan_exts pairs). ext_ok x" "extents_sorted (map fx_of (plan_exts pairs))" "map snd pairs = ?runs"
    unfolding fr by (elim file_planned_exts) auto
  have sv: "served f tsegs" using plan(2) set_mset_mono [OF p(3)] by (auto simp: served_def)
  have root: "le16 (ep_root plan) 0 = EXTENT_MAGIC" using plan_root [OF p(2,1)] by simp
  have "extent_root i = Some (ep_root plan)" using i(3,4) root by (simp add: extent_root_def inode_uses_extents_def)
  moreover have "walk_extent_node crc f (of_nat ino) i (ep_root plan) None = Inr (map fx_of (plan_exts pairs))"
    using p(1) f(3) by (intro plan_extents_reads [OF p(2) _ p(7) sv i(5)]) simp
  ultimately have ex: "fs_extents crc f (of_nat ino) i = Inr (map fx_of (plan_exts pairs))" by (simp add: fs_extents_def)
  have "extents_inside (image_len lay) (map fx_of (plan_exts pairs))"
  proof -
    have "run_start r + run_len r \<le> n" if "(lo, r) \<in> set pairs" for lo r
    proof -
      have "snd (lo, r) \<in> snd ` set pairs" using that by (rule imageI)
      then have "r \<in> set ?runs" using p(9) by (simp flip: set_map)
      then show ?thesis by (rule inside)
    qed
    then have "(run_start r + run_len r) * 4096 \<le> image_len lay" if "(lo, r) \<in> set pairs" for lo r
      using that f(5) mult_le_mono1 by presburger
    then show ?thesis by (auto simp: extents_inside_def plan_exts_def fx_of_def simp del: distrib_right_numeral)
  qed
  moreover have "source_serves (fs_src f) ((!) (image_bytes lay fills)) (image_len lay)"
    using slice_serves [of "image_bytes lay fills"] f(2,5,6) by simp
  ultimately have "read_file_at f i (map fx_of (plan_exts pairs)) 0 (unat (i_size i)) =
      Inr (map (file_byte ((!) (image_bytes lay fills)) (map fx_of (plan_exts pairs))) [0..<unat (i_size i)])"
    using read_file_at_content [OF f(1) _ _ p(8)] f(5,6) by simp
  moreover have size: "unat (i_size i) = sz" using i(2) s(4) f(5,6) by (simp add: unat_of_nat)
  moreover have "map (file_byte ((!) (image_bytes lay fills)) (map fx_of (plan_exts pairs))) [0..<sz] =
      map (declared_byte segs (content_of fills s)) [0..<sz]"
    by (intro map_cong refl content_bytes [OF lay s(1,2) p(4,5,7,6) s(3)])
  moreover have "mul64 (unat (s_blocks_count (fs_sb f))) (fs_block_size f) = Inr (image_len lay)"
    using f(4-6) fs_wf_simps [OF f(1)] by (simp add: mul64_def unat_of_nat)
  ultimately show ?thesis using i(1) s(4) ex f(5,6) by (simp add: read_file_def guardE_def)
qed

section \<open>The blocks sealing counts\<close>

lemma pushed_segments_le:
  assumes "distinct (used_list geo pl)" "\<forall>b\<in>set (used_list geo pl). b < n" "block_segs (st_segments (pl_data pl))"
  shows "length (st_segments (pl_data pl)) \<le> n"
proof -
  have "used_list geo pl = expand_runs (\<lparr>run_start = 0, run_len = 1 + geo_gdt_blocks geo\<rparr> #
      map (\<lambda>g. \<lparr>run_start = group_start g, run_len = 1 + geo_gdt_blocks geo\<rparr>) (backup_groups geo) @
      concat (map (group_meta_runs geo) (pl_group_meta pl)) @ fst (pl_journal pl) @ fst (pl_lost_found pl) @
      concat (map dp_runs (ns_dirs (pl_names pl))) @ ds_data_runs (pl_data pl)) @ map seg_block (st_segments (pl_data pl))"
    using expand_block_segs [OF assms(3)] by (simp add: used_list_def used_runs_def)
  then obtain xs where x: "used_list geo pl = xs @ map seg_block (st_segments (pl_data pl))" by blast
  then have "length (map seg_block (st_segments (pl_data pl))) \<le> n" using assms(1,2) by (intro distinct_below) auto
  then show ?thesis by simp
qed

lemma acl_below:
  assumes "place_all crc b geo fseed slot_ino = Inr pl" "geometry_wf geo" "s < length (fb_nodes b)"
  shows "fst (ns_xattrs (pl_names pl) ! s) < geo_blocks geo"
    "snd (ns_xattrs (pl_names pl) ! s) = [] \<or> length (snd (ns_xattrs (pl_names pl) ! s)) = 96 \<and>
      (\<exists>x\<in>set (snd (ns_xattrs (pl_names pl) ! s)). x \<noteq> 0)"
proof -
  let ?x = "ns_xattrs (pl_names pl) ! s"
  note ok = place_all_xattrs [OF assms(1,2)]
  have "?x \<in> set (ns_xattrs (pl_names pl))" using ok assms(3) by (simp add: attr_marks_ok_def)
  then have x: "fst ?x = 0 \<or> fst ?x \<in> seg_block ` set (st_segments (pl_names pl))"
    "snd ?x = [] \<or> length (snd ?x) = 96 \<and> (\<exists>y\<in>set (snd ?x). y \<noteq> 0)"
    using ok unfolding attr_marks_ok_def by blast+
  then show "snd ?x = [] \<or> length (snd ?x) = 96 \<and> (\<exists>y\<in>set (snd ?x). y \<noteq> 0)" by blast
  have flex: "0 < geo_groups_per_flex geo" "0 < geo_groups geo" "0 < geo_blocks geo"
    using assms(2) by (auto simp: geometry_wf_def)
  from assms(1,2) have "\<forall>q\<in>set (st_segments (pl_names pl)). seg_block q < geo_blocks geo"
  proof (rule place_all_phases, goal_cases)
    case (1 a st2 lfb parents)
    then have "placed (alloc_free a) (mset (expand_runs (fst (pl_journal pl))) + mset (expand_runs (fst (pl_lost_found pl))) +
        mset (expand_runs (dir_runs (ns_dirs (pl_names pl))))) (pl_names pl)"
      by (simp add: names_ok_def)
    then have "mset (map seg_block (st_segments (pl_names pl))) \<subseteq># mset (alloc_free a)"
      unfolding placed_def account_def by (meson mset_subset_eq_add_left mset_subset_eq_add_right subset_mset.order_trans)
    then have "set (map seg_block (st_segments (pl_names pl))) \<subseteq> set (alloc_free a)" using set_mset_mono by fastforce
    then show ?case using place_groups_ok(4) [OF 1(1) flex(1,2)] by auto
  qed
  then show "fst ?x < geo_blocks geo" using x(1) flex(3) by auto
qed

section \<open>Files read back\<close>

text \<open>What opening a built image establishes: the handle, the placement behind the layout, the raw
  inodes, and the blocks that sealing rendered.\<close>

definition opened ::
    "crc \<Rightarrow> fs_builder \<Rightarrow> layout \<Rightarrow> (handle \<times> bytes) list \<Rightarrow> fs \<Rightarrow> geometry \<Rightarrow> nat list \<Rightarrow> nat \<Rightarrow> placement \<Rightarrow> bool" where
  "opened crc b lay fills f geo slot_ino max_ino pl \<longleftrightarrow>
    Fs_open crc (slice_source (image_bytes lay fills)) = Inr f \<and> fs_wf f \<and>
    fs_src f = slice_source (image_bytes lay fills) \<and> has_metadata_csum (fs_sb f) \<and>
    fs_csum_seed f = fs_seed crc (opt_fs_uuid (fb_opts b)) \<and> s_blocks_count (fs_sb f) = of_nat (geo_blocks geo) \<and>
    image_len lay = geo_blocks geo * 4096 \<and> geometry_wf geo \<and> geo_blocks geo < 2 ^ 32 - 1 \<and>
    layout_ok lay \<and> files_ok lay \<and> fst ` set fills \<subseteq> fillable lay \<and>
    lay_geo lay = geo \<and> lay_slot_ino lay = slot_ino \<and> lay_file_runs lay = ds_file_runs (pl_data pl) \<and>
    slot_inodes b = Inr (slot_ino, max_ino + 1) \<and>
    length slot_ino = length (fb_nodes b) \<and> slot_ino ! 0 = 2 \<and> max_ino < 2 ^ 32 \<and>
    (\<forall>i<length slot_ino. slot_ino ! i \<le> max_ino) \<and>
    (\<forall>ino. 0 < ino \<longrightarrow> ino \<le> max_ino \<longrightarrow> inode_raw f (of_nat ino) = Inr (lay_inodes lay ! (ino - 1))) \<and>
    (\<forall>i<length slot_ino. \<forall>j<length slot_ino. slot_ino ! i \<noteq> 0 \<and> slot_ino ! i = slot_ino ! j \<longrightarrow> i = j) \<and>
    place_all crc b geo (fs_seed crc (opt_fs_uuid (fb_opts b))) slot_ino = Inr pl \<and>
    seal_inodes crc b geo (fs_seed crc (opt_fs_uuid (fb_opts b))) slot_ino max_ino (snd (pl_journal pl))
      (snd (pl_lost_found pl)) (pl_names pl) (pl_data pl) = Inr (lay_inodes lay) \<and>
    length (ds_file_runs (pl_data pl)) = length (fb_nodes b) \<and>
    served f (st_segments (pl_data pl)) \<and> length (st_segments (pl_data pl)) \<le> geo_blocks geo \<and>
    (\<forall>(block, bs)\<in>set (ns_rendered (pl_names pl)). block < geo_blocks geo \<and> read_block f block = Inr bs)"

lemma sealed_opened:
  assumes b: "builder_reachable strict opts b" "seal crc b = Inr lay" "backups_fit (lay_geo lay)" "options_wf (fb_opts b)"
    and sub: "fst ` set fills \<subseteq> fillable lay"
  shows "\<exists>f geo slot_ino max_ino pl. opened crc b lay fills f geo slot_ino max_ino pl"
proof -
  note al = reachable_aligned [OF b(1)]
  note lay = seal_layout [OF b(2) al b(3)]
  from b sub show ?thesis
  proof (rule sealed_open, goal_cases)
    case (1 f geo slot_ino nxt n pl)
    note f = 1(1-10) and q = 1(11-21)
    obtain m where m: "nxt = 12 + m" "length slot_ino = length (fb_nodes b)" "set slot_ino - {0} = insert 2 {12..<12 + m}"
      and inj: "slot_ino ! 0 = 2" "\<forall>i<length slot_ino. \<forall>j<length slot_ino. slot_ino ! i \<noteq> 0 \<and> slot_ino ! i = slot_ino ! j \<longrightarrow> i = j"
      using slot_inodes_props [OF reachable_inv [OF b(1)] q(1)] by blast
    have num: "slot_ino ! i \<le> nxt - 1" if i: "i < length slot_ino" for i
    proof (cases "slot_ino ! i = 0")
      case False
      then have "slot_ino ! i \<in> set slot_ino - {0}" using i by simp
      then show ?thesis unfolding m(3) using m(1) by auto
    qed simp
    have raw: "inode_raw f (of_nat ino) = Inr (lay_inodes lay ! (ino - 1))" if "0 < ino" "ino \<le> nxt - 1" for ino
      using q(8) that by simp
    note pa = place_all_ok [OF q(5) f(9) al m(2)]
    have bound: "geo_blocks geo < 2 ^ 32 - 1" using f(9) by (simp add: geometry_wf_def)
    have n_files: "length (ds_file_runs (pl_data pl)) = length (fb_nodes b)" using pa(8) by (auto simp: data_ok_def)
    have fit: "backups_fit geo" using b(3) f(10) by simp
    have segs: "length (st_segments (pl_data pl)) \<le> geo_blocks geo"
      using pushed_segments_le [OF pa(1) pa(2) [OF fit] pa(3)] .
    have sv: "served f (st_segments (pl_data pl))"
      using served_segments [OF lay sub _ f(2,3) pa(3) q(9)] f(7) bound by simp
    have small: "image_len lay < 2 ^ 60" using f(7) bound by simp
    have rendered: "block < geo_blocks geo \<and> read_block f block = Inr bs" if "(block, bs) \<in> set (ns_rendered (pl_names pl))" for block bs
    proof -
      have len: "length bs = 4096" using pa(5) that by fastforce
      have mem: "block_seg block bs \<in> set (lay_segments lay)" using q(11) that by force
      have "block_segs [block_seg block bs]" using len by (simp add: block_segs_def block_seg_def)
      then have "served f [block_seg block bs]" using mem by (intro served_segments [OF lay sub small f(2,3)]) auto
      moreover have "block + 1 \<le> total_blocks lay" using lay(1) mem by (fastforce simp: layout_ok_def block_seg_def)
      ultimately show ?thesis using f(7) by (simp add: served_def seg_bytes_def block_seg_def total_blocks_def)
    qed
    have "fs_wf f" using Fs_open_wf [OF slice_source_ok f(1)] .
    then have "opened crc b lay fills f geo slot_ino (nxt - 1) pl"
      using f q(1-6,10) m(1,2) inj num raw bound lay sub n_files segs sv rendered unfolding opened_def by auto
    then show ?case by blast
  qed
qed

lemma opened_handle:
  assumes "opened crc b lay fills f geo slot_ino max_ino pl"
  shows "Fs_open crc (slice_source (image_bytes lay fills)) = Inr f" "fs_wf f"
    "fs_src f = slice_source (image_bytes lay fills)" "has_metadata_csum (fs_sb f)"
    "s_blocks_count (fs_sb f) = of_nat (geo_blocks geo)" "image_len lay = geo_blocks geo * 4096"
    "geometry_wf geo" "geo_blocks geo < 2 ^ 32 - 1" "fs_csum_seed f = fs_seed crc (opt_fs_uuid (fb_opts b))"
  using assms unfolding opened_def by - (elim conjE, assumption)+

lemma opened_layout:
  assumes "opened crc b lay fills f geo slot_ino max_ino pl"
  shows "layout_ok lay" "files_ok lay" "fst ` set fills \<subseteq> fillable lay" "lay_slot_ino lay = slot_ino"
    "lay_file_runs lay = ds_file_runs (pl_data pl)" "length (lay_file_runs lay) = length (fb_nodes b)"
proof -
  show "layout_ok lay" "files_ok lay" "fst ` set fills \<subseteq> fillable lay" "lay_slot_ino lay = slot_ino"
    "lay_file_runs lay = ds_file_runs (pl_data pl)"
    using assms unfolding opened_def by - (elim conjE, assumption)+
  moreover have "length (ds_file_runs (pl_data pl)) = length (fb_nodes b)"
    using assms unfolding opened_def by - (elim conjE, assumption)
  ultimately show "length (lay_file_runs lay) = length (fb_nodes b)" by simp
qed

lemma opened_slots:
  assumes "opened crc b lay fills f geo slot_ino max_ino pl"
  shows "length slot_ino = length (fb_nodes b)" "slot_ino ! 0 = 2"
    "\<forall>i<length slot_ino. \<forall>j<length slot_ino. slot_ino ! i \<noteq> 0 \<and> slot_ino ! i = slot_ino ! j \<longrightarrow> i = j"
    "s < length (fb_nodes b) \<Longrightarrow> slot_ino ! s \<noteq> 0 \<Longrightarrow> slot_ino ! s < 2 ^ 32"
    "s < length (fb_nodes b) \<Longrightarrow> slot_ino ! s \<noteq> 0 \<Longrightarrow>
      inode_raw f (of_nat (slot_ino ! s)) = Inr (lay_inodes lay ! (slot_ino ! s - 1))"
    "slot_inodes b = Inr (slot_ino, max_ino + 1)"
    "0 < ino \<Longrightarrow> ino \<le> max_ino \<Longrightarrow> inode_raw f (of_nat ino) = Inr (lay_inodes lay ! (ino - 1))"
proof -
  show "slot_inodes b = Inr (slot_ino, max_ino + 1)" using assms unfolding opened_def by - (elim conjE, assumption)
  show "length slot_ino = length (fb_nodes b)" "slot_ino ! 0 = 2"
    "\<forall>i<length slot_ino. \<forall>j<length slot_ino. slot_ino ! i \<noteq> 0 \<and> slot_ino ! i = slot_ino ! j \<longrightarrow> i = j"
    using assms unfolding opened_def by - (elim conjE, assumption)+
  have m: "max_ino < 2 ^ 32" and l: "length slot_ino = length (fb_nodes b)"
    and num: "\<forall>i<length slot_ino. slot_ino ! i \<le> max_ino"
    and raw: "\<forall>ino. 0 < ino \<longrightarrow> ino \<le> max_ino \<longrightarrow> inode_raw f (of_nat ino) = Inr (lay_inodes lay ! (ino - 1))"
    using assms unfolding opened_def by - (elim conjE, assumption)+
  show "0 < ino \<Longrightarrow> ino \<le> max_ino \<Longrightarrow> inode_raw f (of_nat ino) = Inr (lay_inodes lay ! (ino - 1))" using raw by blast
  assume s: "s < length (fb_nodes b)" "slot_ino ! s \<noteq> 0"
  then have r: "slot_ino ! s \<le> max_ino" "0 < slot_ino ! s" using num l by simp_all
  then show "slot_ino ! s < 2 ^ 32" using m by (intro le_less_trans [OF _ m]) simp
  show "inode_raw f (of_nat (slot_ino ! s)) = Inr (lay_inodes lay ! (slot_ino ! s - 1))" using raw r by blast
qed

lemma opened_seal:
  assumes "opened crc b lay fills f geo slot_ino max_ino pl"
  shows "place_all crc b geo (fs_csum_seed f) slot_ino = Inr pl"
    "seal_inodes crc b geo (fs_csum_seed f) slot_ino max_ino (snd (pl_journal pl))
      (snd (pl_lost_found pl)) (pl_names pl) (pl_data pl) = Inr (lay_inodes lay)"
    "served f (st_segments (pl_data pl))" "length (st_segments (pl_data pl)) \<le> geo_blocks geo"
    "\<forall>(block, bs)\<in>set (ns_rendered (pl_names pl)). block < geo_blocks geo \<and> read_block f block = Inr bs"
  unfolding opened_handle(9) [OF assms] using assms unfolding opened_def by - (elim conjE, assumption)+

text \<open>The inode of a slot, as the reader reads it.\<close>

lemma read_slot_inode:
  assumes op: "opened crc b lay fills f geo slot_ino max_ino pl"
    and slot: "s < length (fb_nodes b)" "slot_ino ! s \<noteq> 0"
    and rr: "\<And>rr. node_render (fb_nodes b ! s) (ds_file_plans (pl_data pl) ! s) (ns_symlinks (pl_names pl) ! s)
      (ns_xattrs (pl_names pl) ! s) = Inr rr \<Longrightarrow> rr = Some r"
    and wf: "\<And>i. inode_of_render r = Inr i \<Longrightarrow> inode_wf i"
  shows "\<exists>i c. inode_of_render r = Inr i \<and> read_inode crc f (of_nat (slot_ino ! s)) = Inr (i\<lparr>i_checksum := c\<rparr>)"
proof -
  obtain raw where r: "render_inode crc (fs_csum_seed f) (of_nat (slot_ino ! s)) r = Inr raw" "lay_inodes lay ! (slot_ino ! s - 1) = raw"
    using seal_inodes_slot [OF opened_seal(2) [OF op] slot opened_slots(1,3) [OF op]] rr by blast
  then obtain i where i: "inode_of_render r = Inr i" by (auto simp: render_inode_def bindE_eq_Inr)
  have "inode_raw f (of_nat (slot_ino ! s)) = Inr raw" using opened_slots(5) [OF op slot] r(2) by simp
  then show ?thesis using read_rendered [OF _ r(1) i wf [OF i] opened_handle(4) [OF op] refl] i by blast
qed

text \<open>The rendered inode of a file, and the plan in it.\<close>

lemma file_slot_render:
  assumes op: "opened crc b lay fills f geo slot_ino max_ino pl" and b: "builder_reachable strict opts b"
    and s: "s < length (fb_nodes b)" "slot_ino ! s \<noteq> 0" "declared (n_kind (fb_nodes b ! s)) = Some (segs, sz)" "spaced segs"
  obtains plan k i c where
    "file_planned crc (fs_csum_seed f) (slot_ino ! s) segs (st_segments (pl_data pl)) (lay_file_runs lay ! s) (Some (plan, k))"
    "read_inode crc f (of_nat (slot_ino ! s)) = Inr (i\<lparr>i_checksum := c\<rparr>)"
    "i_size i = of_nat sz" "i_block i = ep_root plan" "i_flags i = iflags_EXTENTS" "i_generation i = 0"
    "inode_of_render (render_file (n_meta (fb_nodes b ! s)) (n_nlink (fb_nodes b ! s)) sz (plan, k) (ns_xattrs (pl_names pl) ! s)) = Inr i"
proof -
  note h = opened_handle [OF op] and l = opened_layout [OF op] and sl = opened_seal [OF op] and so = opened_slots [OF op]
  let ?runs = "file_runs_of lay s"
  have s': "s < length (lay_file_runs lay)" using s(1) l(6) by simp
  have runs: "lay_file_runs lay ! s = (?runs, file_size lay s)" by (simp add: file_runs_of_def file_size_def)
  have below: "\<forall>b\<in>set (expand_runs ?runs). b < geo_blocks geo"
    using file_blocks [OF l(1,2) s'] h(6) by (fastforce simp: expand_runs_def total_blocks_def)
  have "distinct (expand_runs ?runs)"
    using l(2) s' runs_disjoint_distinct by (auto simp: files_ok_def file_runs_ok_def runs_ok_def)
  then have count: "length (expand_runs ?runs) \<le> geo_blocks geo" using below by (rule distinct_below)
  obtain rr where rr: "node_render (fb_nodes b ! s) (ds_file_plans (pl_data pl) ! s) (ns_symlinks (pl_names pl) ! s)
      (ns_xattrs (pl_names pl) ! s) = Inr rr"
    using seal_inodes_slot [OF sl(2) s(1,2) so(1,3)] by blast
  obtain acl ib where x: "ns_xattrs (pl_names pl) ! s = (acl, ib)" by (cases "ns_xattrs (pl_names pl) ! s")
  let ?r = "\<lambda>plan k. render_file (n_meta (fb_nodes b ! s)) (n_nlink (fb_nodes b ! s)) sz (plan, k) (acl, ib)"
  obtain plan k where r: "rr = Some (?r plan k)"
    "file_planned crc (fs_csum_seed f) (slot_ino ! s) segs (st_segments (pl_data pl)) (lay_file_runs lay ! s) (Some (plan, k))"
    using file_plan_exists [OF place_all_plans [OF sl(1) h(7) reachable_aligned [OF b]] s rr] x l(5) by auto
  have "\<forall>b\<in>set (expand_runs ?runs). b < 2 ^ 32" using below h(8) by fastforce
  with r(2) obtain a a' tsegs pairs where p: "k = length (expand_runs ?runs)" "alloc_wf a" "mset tsegs \<subseteq># mset (st_segments (pl_data pl))"
    "plan_extents crc pairs (of_nat (slot_ino ! s)) (fs_csum_seed f) a = Inr (plan, a', tsegs)"
    unfolding runs by (elim file_planned_exts) auto
  have root: "length (ep_root plan) = 60" "ep_tree_blocks plan = 8 * length tsegs" using plan_root [OF p(2,4)] by simp_all
  have "length tsegs \<le> length (st_segments (pl_data pl))" using size_mset_mono [OF p(3)] by simp
  then have caps: "k \<le> 2 ^ 32" "ep_tree_blocks plan \<le> 8 * 2 ^ 32" "acl < 2 ^ 32" "ib = [] \<or> length ib = 96 \<and> (\<exists>x\<in>set ib. x \<noteq> 0)"
    using p(1) count root(2) h(8) sl(4) acl_below [OF sl(1) h(7) s(1)] x by simp_all
  have "rr' = Some (?r plan k)" if "node_render (fb_nodes b ! s) (ds_file_plans (pl_data pl) ! s) (ns_symlinks (pl_names pl) ! s)
      (ns_xattrs (pl_names pl) ! s) = Inr rr'" for rr'
    using that rr r(1) by simp
  note u = this
  have "inode_wf i" if "inode_of_render (?r plan k) = Inr i" for i using render_file_wf(1) [OF that root(1) caps] .
  note w = this
  obtain i c where i: "inode_of_render (?r plan k) = Inr i" "read_inode crc f (of_nat (slot_ino ! s)) = Inr (i\<lparr>i_checksum := c\<rparr>)"
    using read_slot_inode [OF op s(1,2) u w] by blast
  show thesis by (rule that [OF r(2) i(2) render_file_wf(2-5) [OF i(1) root(1) caps] i(1) [folded x]])
qed

lemma opened_file_reads:
  assumes op: "opened crc b lay fills f geo slot_ino max_ino pl" and b: "builder_reachable strict opts b"
    and fills: "fills_ok lay {} fills"
    and s: "s < length (fb_nodes b)" "slot_ino ! s \<noteq> 0" "declared (n_kind (fb_nodes b ! s)) = Some (segs, sz)"
      "sz \<le> image_len lay"
  shows "read_file crc f (of_nat (slot_ino ! s)) = Inr (map (declared_byte segs (content_of fills s)) [0..<sz])"
proof -
  note h = opened_handle [OF op] and l = opened_layout [OF op]
  have sz: "sz \<le> 2 ^ 44" using s(4) h(6,8) by simp
  have "kind_ok (n_kind (fb_nodes b ! s))" using reachable_kinds [OF b(1)] s(1) by (simp add: kinds_all_def)
  note sp = declared_spaced(1) [OF this s(3) sz]
  obtain plan k i c where p:
    "file_planned crc (fs_csum_seed f) (slot_ino ! s) segs (st_segments (pl_data pl)) (lay_file_runs lay ! s) (Some (plan, k))"
    "read_inode crc f (of_nat (slot_ino ! s)) = Inr (i\<lparr>i_checksum := c\<rparr>)"
    "i_size i = of_nat sz" "i_block i = ep_root plan" "i_flags i = iflags_EXTENTS" "i_generation i = 0"
    by (rule file_slot_render [OF op b s(1-3) sp])
  have "geo_blocks geo < 2 ^ 32" using h(8) by simp
  then show ?thesis
    using h(3,5,6) l(4,6) p(3-6) s
    by (intro read_planned [OF h(2) _ refl _ _ _ l(1,2) fills _ _ sp s(4) p(1) opened_seal(3) [OF op] p(2)]) simp_all
qed

lemma sealed_file_reads:
  assumes b: "builder_reachable strict opts b" "seal crc b = Inr lay" "backups_fit (lay_geo lay)" "options_wf (fb_opts b)"
    and fills: "fills_ok lay {} fills"
    and s: "s < length (fb_nodes b)" "lay_slot_ino lay ! s \<noteq> 0" "declared (n_kind (fb_nodes b ! s)) = Some (segs, sz)"
      "sz \<le> image_len lay"
  shows "\<exists>f. Fs_open crc (slice_source (image_bytes lay fills)) = Inr f \<and>
    read_file crc f (of_nat (lay_slot_ino lay ! s)) = Inr (map (declared_byte segs (content_of fills s)) [0..<sz])"
proof -
  have sub: "fst ` set fills \<subseteq> fillable lay" using fills by (simp add: fills_ok_def)
  obtain f geo slot_ino max_ino pl where op: "opened crc b lay fills f geo slot_ino max_ino pl"
    using sealed_opened [OF b sub] by blast
  have "slot_ino ! s \<noteq> 0" using s(2) opened_layout(4) [OF op] by simp
  then have "read_file crc f (of_nat (slot_ino ! s)) = Inr (map (declared_byte segs (content_of fills s)) [0..<sz])"
    by (rule opened_file_reads [OF op b(1) fills s(1) _ s(3,4)])
  with opened_handle(1) [OF op] show ?thesis unfolding opened_layout(4) [OF op] by (intro exI conjI)
qed

end
