(* ===== verification/DirPlans.thy ===== *)
theory DirPlans
  imports NamePlans FileMap
begin

text \<open>
  What the names phase of sealing keeps for every directory: its entries, the blocks they were packed
  into, the runs those blocks were given, and the extent plan of the runs. Each directory in use is
  planned once.
\<close>

section \<open>Planned directories\<close>

definition parent_ino_of :: "nat list \<Rightarrow> nat \<Rightarrow> nat" where
  "parent_ino_of parents slot = (if slot = 0 then unat ROOT_INO else parents ! slot)"

definition dir_planned ::
    "crc \<Rightarrow> fs_builder \<Rightarrow> nat list \<Rightarrow> nat list \<Rightarrow> u32 \<Rightarrow> segment list \<Rightarrow> (nat \<times> bytes) list \<Rightarrow> dir_plan \<Rightarrow> bool" where
  "dir_planned crc b slot_ino parents fseed segs rendered d \<longleftrightarrow> (\<exists>children index entries blocks pairs a a' tsegs.
    n_kind (fb_nodes b ! dp_slot d) = node_kind.Dir children index \<and>
    dir_dentries b slot_ino (dp_slot d) children = Inr entries \<and>
    dir_blocks crc (slot_ino ! dp_slot d) (parent_ino_of parents (dp_slot d)) entries (opt_hash_seed (fb_opts b)) fseed = Inr blocks \<and>
    dp_nblocks d = length blocks \<and> dp_is_htree d = needs_htree entries \<and>
    length (expand_runs (dp_runs d)) = length blocks \<and> distinct (expand_runs (dp_runs d)) \<and> set (zip (expand_runs (dp_runs d)) blocks) \<subseteq> set rendered \<and>
    (\<forall>r\<in>set (dp_runs d). 0 < run_len r \<and> run_len r \<le> 32768) \<and>
    with_logicals (dp_runs d) = Inr pairs \<and> alloc_wf a \<and>
    plan_extents crc pairs (of_nat (slot_ino ! dp_slot d)) fseed a = Inr (dp_plan d, a', tsegs) \<and> mset tsegs \<subseteq># mset segs)"

lemma dir_planned_mono:
  "dir_planned crc b slot_ino parents fseed segs rendered d \<Longrightarrow> mset segs \<subseteq># mset segs' \<Longrightarrow> set rendered \<subseteq> set rendered' \<Longrightarrow>
   dir_planned crc b slot_ino parents fseed segs' rendered' d"
  unfolding dir_planned_def by (elim exE conjE, intro exI conjI) (assumption | erule (1) subset_mset.order_trans order.trans)+

text \<open>Every directory of the first \<open>k\<close> slots that is in use has exactly one plan.\<close>

definition dirs_ok :: "crc \<Rightarrow> fs_builder \<Rightarrow> nat list \<Rightarrow> nat list \<Rightarrow> u32 \<Rightarrow> nat \<Rightarrow> names_state \<Rightarrow> bool" where
  "dirs_ok crc b slot_ino parents fseed k st \<longleftrightarrow>
    (\<forall>d\<in>set (ns_dirs st). dp_slot d < k \<and> slot_ino ! dp_slot d \<noteq> 0 \<and>
       dir_planned crc b slot_ino parents fseed (st_segments st) (ns_rendered st) d) \<and>
    distinct (map dp_slot (ns_dirs st)) \<and>
    (\<forall>j<k. slot_ino ! j \<noteq> 0 \<longrightarrow> is_dir (fb_nodes b ! j) \<longrightarrow> j \<in> dp_slot ` set (ns_dirs st))"

lemma dirs_ok_grow:
  assumes "dirs_ok crc b slot_ino parents fseed k st" "extends st st'" "ns_dirs st' = ns_dirs st" "ns_rendered st' = ns_rendered st"
    and "k \<le> k'" "\<And>j. k \<le> j \<Longrightarrow> j < k' \<Longrightarrow> slot_ino ! j = 0 \<or> \<not> is_dir (fb_nodes b ! j)"
  shows "dirs_ok crc b slot_ino parents fseed k' st'"
proof -
  have grow: "mset (st_segments st) \<subseteq># mset (st_segments st')" using assms(2) by (auto simp: extends_def)
  have "dp_slot d < k' \<and> slot_ino ! dp_slot d \<noteq> 0 \<and>
       dir_planned crc b slot_ino parents fseed (st_segments st') (ns_rendered st') d" if "d \<in> set (ns_dirs st')" for d
  proof -
    have "dp_slot d < k \<and> slot_ino ! dp_slot d \<noteq> 0 \<and>
        dir_planned crc b slot_ino parents fseed (st_segments st) (ns_rendered st) d"
      using assms(1) that unfolding assms(3) dirs_ok_def by blast
    then show ?thesis unfolding assms(4) using dir_planned_mono [OF _ grow order.refl] assms(5) by auto
  qed
  moreover have "j \<in> dp_slot ` set (ns_dirs st')" if "j < k'" "slot_ino ! j \<noteq> 0" "is_dir (fb_nodes b ! j)" for j
  proof (cases "j < k")
    case True
    then show ?thesis using assms(1) that(2,3) unfolding assms(3) dirs_ok_def by blast
  next
    case False
    then show ?thesis using assms(6) [of j] that by simp
  qed
  moreover have "distinct (map dp_slot (ns_dirs st'))" using assms(1) unfolding assms(3) dirs_ok_def by blast
  ultimately show ?thesis unfolding dirs_ok_def by blast
qed

section \<open>Steps\<close>

lemma seal_xattrs_frame:
  assumes "seal_xattrs crc b fseed slot st = Inr st'"
  shows "extends st st' \<and> ns_dirs st' = ns_dirs st \<and> ns_rendered st' = ns_rendered st"
proof (cases "fb_xattrs b slot")
  case (Some attrs)
  then obtain plan acl st1 where p: "xattr_plan_of attrs = Inr plan"
    "(if xp_block_attrs plan = [] then Inr (0, st)
      else bindE (st_take_one st) (\<lambda>(block, st).
        bindE (xattr_render_block crc (xp_block_attrs plan) fseed (of_nat block)) (\<lambda>bs.
        Inr (block, st_push [block_seg block bs] st)))) = Inr (acl, st1)"
    "st' = st1\<lparr>ns_xattrs := (ns_xattrs st1)[slot := (acl, xp_ibody plan)]\<rparr>"
    using assms by (auto simp: seal_xattrs_def bindE_eq_Inr)
  have "extends st st1 \<and> ns_dirs st1 = ns_dirs st \<and> ns_rendered st1 = ns_rendered st"
  proof (cases "xp_block_attrs plan = []")
    case False
    then obtain st2 bs where s: "st_take_one st = Inr (acl, st2)" "st1 = st_push [block_seg acl bs] st2"
      using p(2) by (auto simp: bindE_eq_Inr)
    then show ?thesis using st_take_one_frame [OF s(1)] by (auto simp: extends_def st_push_def)
  qed (use p(2) in simp)
  then show ?thesis using p(3) by (simp add: extends_def)
qed (use assms in \<open>simp add: seal_xattrs_def\<close>)

lemma seal_slow_symlink_dirs:
  assumes "seal_slow_symlink crc ino fseed slot target st = Inr st'"
  shows "extends st st' \<and> ns_dirs st' = ns_dirs st \<and> ns_rendered st' = ns_rendered st"
proof -
  obtain block st1 plan st2 where s: "st_take_one st = Inr (block, st1)"
    "st_plan crc [(0, \<lparr>run_start = block, run_len = 1\<rparr>)] ino fseed
       (st_push [block_seg block (poke (zeros_buf BLOCK_SIZE) 0 target)] st1) = Inr (plan, st2)"
    "st' = st2\<lparr>ns_symlinks := (ns_symlinks st2)[slot := Some plan]\<rparr>"
    using assms by (auto simp: seal_slow_symlink_def Let_def bindE_eq_Inr)
  then show ?thesis using st_take_one_frame [OF s(1)] st_plan_frame [OF s(2)] by (auto simp: extends_def st_push_def)
qed

lemma seal_directory_plan:
  assumes "alloc_wf (st_alloc st)" "seal_directory crc b slot_ino parents fseed slot children st = Inr st'"
    and "n_kind (fb_nodes b ! slot) = node_kind.Dir children index"
  obtains d where "ns_dirs st' = ns_dirs st @ [d]" "dp_slot d = slot" "extends st st'"
    "set (ns_rendered st) \<subseteq> set (ns_rendered st')"
    "dir_planned crc b slot_ino parents fseed (st_segments st') (ns_rendered st') d"
proof -
  obtain entries blocks runs plan st1 where s: "dir_dentries b slot_ino slot children = Inr entries"
    "dir_blocks crc (slot_ino ! slot) (parent_ino_of parents slot) entries (opt_hash_seed (fb_opts b)) fseed = Inr blocks"
    "st_dense crc (length blocks) (slot_ino ! slot) fseed st = Inr ((runs, plan), st1)"
    "st' = st1\<lparr>ns_rendered := ns_rendered st1 @ zip (expand_runs runs) blocks,
             ns_dirs := ns_dirs st1 @
               [\<lparr>dp_slot = slot, dp_runs = runs, dp_plan = plan, dp_nblocks = length blocks,
                 dp_is_htree = needs_htree entries\<rparr>]\<rparr>"
    using assms(2) by (auto simp: seal_directory_def parent_ino_of_def Let_def bindE_eq_Inr)
  obtain st2 pairs where d: "st_take (length blocks) st = Inr (runs, st2)" "with_logicals runs = Inr pairs"
    "st_plan crc pairs (slot_ino ! slot) fseed st2 = Inr (plan, st1)"
    using s(3) by (auto simp: st_dense_def bindE_eq_Inr)
  obtain a where a: "take_runs (st_alloc st) (length blocks) MAX_EXTENT err_full = Inr (runs, a)" "st2 = st\<lparr>st_alloc := a\<rparr>"
    using d(1) by (auto simp: st_take_def bindE_eq_Inr)
  have me: "0 < MAX_EXTENT" by simp
  note tk = take_runs_ok [OF assms(1) me a(1)]
  have len: "length (expand_runs runs) = length blocks" "distinct (expand_runs runs)" using tk(1,4) by simp_all
  obtain a2 tsegs where p: "plan_extents crc pairs (of_nat (slot_ino ! slot)) fseed (st_alloc st2) = Inr (plan, a2, tsegs)"
    "st1 = st2\<lparr>st_alloc := a2, st_segments := st_segments st2 @ tsegs\<rparr>"
    using st_plan_frame [OF d(3)] by blast
  let ?d = "\<lparr>dp_slot = slot, dp_runs = runs, dp_plan = plan, dp_nblocks = length blocks, dp_is_htree = needs_htree entries\<rparr>"
  show thesis
  proof (rule that [of ?d])
    show "ns_dirs st' = ns_dirs st @ [?d]" "extends st st'" "set (ns_rendered st) \<subseteq> set (ns_rendered st')"
      using s(4) p(2) a(2) by (auto simp: extends_def)
    have "alloc_wf (st_alloc st2)" "set (zip (expand_runs runs) blocks) \<subseteq> set (ns_rendered st')"
      "mset tsegs \<subseteq># mset (st_segments st')" "\<forall>r\<in>set runs. 0 < run_len r \<and> run_len r \<le> 32768"
      using s(4) p(2) a(2) tk(3,5) by auto
    then show "dir_planned crc b slot_ino parents fseed (st_segments st') (ns_rendered st') ?d"
      unfolding dir_planned_def dir_plan.simps using assms(3) s(1,2) len d(2) p(1) by blast
  qed simp
qed

lemma seal_slot_dirs:
  assumes "dirs_ok crc b slot_ino parents fseed k st" "names_ok F U lf st" "seal_slot crc b slot_ino parents fseed k st = Inr st'"
  shows "dirs_ok crc b slot_ino parents fseed (Suc k) st'"
proof (cases "slot_ino ! k = 0")
  case True
  then have "st' = st" using assms(3) by (simp add: seal_slot_def)
  moreover have "slot_ino ! j = 0 \<or> \<not> is_dir (fb_nodes b ! j)" if "k \<le> j" "j < Suc k" for j
    using True that by (simp add: le_less_Suc_eq)
  ultimately show ?thesis using dirs_ok_grow [OF assms(1) extends_refl] by simp
next
  case False
  then obtain st1 where s: "seal_xattrs crc b fseed k st = Inr st1"
    "(case n_kind (fb_nodes b ! k) of
         node_kind.Dir children _ \<Rightarrow> seal_directory crc b slot_ino parents fseed k children st1
       | node_kind.Symlink target \<Rightarrow>
           if 59 < length target then seal_slow_symlink crc (slot_ino ! k) fseed k target st1 else Inr st1
       | _ \<Rightarrow> Inr st1) = Inr st'"
    using assms(3) by (auto simp: seal_slot_def Let_def bindE_eq_Inr)
  have f1: "extends st st1" "ns_dirs st1 = ns_dirs st" "ns_rendered st1 = ns_rendered st"
    using seal_xattrs_frame [OF s(1)] by simp_all
  show ?thesis
  proof (cases "is_dir (fb_nodes b ! k)")
    case other: False
    then have "extends st1 st' \<and> ns_dirs st' = ns_dirs st1 \<and> ns_rendered st' = ns_rendered st1"
      using s(2) seal_slow_symlink_dirs by (auto simp: is_dir_def split: node_kind.splits if_splits)
    moreover have "slot_ino ! j = 0 \<or> \<not> is_dir (fb_nodes b ! j)" if "k \<le> j" "j < Suc k" for j
      using other that by (simp add: le_less_Suc_eq)
    ultimately show ?thesis using f1 extends_trans [OF f1(1)] by (intro dirs_ok_grow [OF assms(1)]) auto
  next
    case True
    then obtain children index where k: "n_kind (fb_nodes b ! k) = node_kind.Dir children index"
      by (auto simp: is_dir_def split: node_kind.splits)
    have "names_ok F U lf st1" using assms(2) s(1) by (rule seal_xattrs_ok)
    then have "alloc_wf (st_alloc st1)" by (simp add: names_ok_def placed_def account_def)
    moreover have "seal_directory crc b slot_ino parents fseed k children st1 = Inr st'" using s(2) k by simp
    ultimately obtain d where d: "ns_dirs st' = ns_dirs st1 @ [d]" "dp_slot d = k" "extends st1 st'"
      "set (ns_rendered st1) \<subseteq> set (ns_rendered st')"
      "dir_planned crc b slot_ino parents fseed (st_segments st') (ns_rendered st') d"
      using k by (rule seal_directory_plan)
    have grow: "mset (st_segments st) \<subseteq># mset (st_segments st')" "set (ns_rendered st) \<subseteq> set (ns_rendered st')"
      using extends_trans [OF f1(1) d(3)] d(4) f1(3) by (auto simp: extends_def)
    have old: "dp_slot e < k \<and> slot_ino ! dp_slot e \<noteq> 0 \<and>
        dir_planned crc b slot_ino parents fseed (st_segments st') (ns_rendered st') e" if "e \<in> set (ns_dirs st)" for e
      using assms(1) that dir_planned_mono [OF _ grow] unfolding dirs_ok_def by blast
    have dirs: "ns_dirs st' = ns_dirs st @ [d]" using d(1) f1(2) by simp
    have "j \<in> dp_slot ` set (ns_dirs st')" if "j < Suc k" "slot_ino ! j \<noteq> 0" "is_dir (fb_nodes b ! j)" for j
      using assms(1) that dirs d(2) unfolding dirs_ok_def by (cases "j = k") auto
    moreover have "distinct (map dp_slot (ns_dirs st'))"
      using assms(1) old dirs d(2) unfolding dirs_ok_def by fastforce
    moreover have "dp_slot e < Suc k \<and> slot_ino ! dp_slot e \<noteq> 0 \<and>
        dir_planned crc b slot_ino parents fseed (st_segments st') (ns_rendered st') e" if "e \<in> set (ns_dirs st')" for e
      using that old [of e] dirs d(2,5) False by auto
    ultimately show ?thesis unfolding dirs_ok_def by blast
  qed
qed

section \<open>The data phase only adds segments\<close>

lemma seal_file_extends:
  assumes "seal_file crc b slot_ino fseed slot st = Inr st'"
  shows "extends st st'"
proof -
  have step: "extends q q'" if "seal_data_seg x (ps, rs, n, q) = Inr (ps', rs', n', q')"
    for x ps rs n ps' rs' n' and q q' :: data_state
    using that by (cases x) (auto simp: seal_data_seg_def st_take_def bindE_eq_Inr extends_def)
  have fold: "extends q q'" if "foldE seal_data_seg xs (ps, rs, n, q) = Inr (ps', rs', n', q')"
    for xs ps rs n ps' rs' n' and q q' :: data_state
    using that
  proof (induction xs arbitrary: ps rs n q)
    case (Cons x xs)
    then obtain ps1 rs1 n1 q1 where 1: "seal_data_seg x (ps, rs, n, q) = Inr (ps1, rs1, n1, q1)"
      "foldE seal_data_seg xs (ps1, rs1, n1, q1) = Inr (ps', rs', n', q')"
      by (auto simp: bindE_eq_Inr)
    then show ?case using extends_trans [OF step [OF 1(1)]] Cons.IH [OF 1(2)] by blast
  qed simp
  show ?thesis
  proof (cases "slot_ino ! slot = 0 \<or> data_segs_of (n_kind (fb_nodes b ! slot)) = None")
    case False
    then obtain segs pairs runs sz st1 plan st2 where s: "foldE seal_data_seg segs ([], [], 0, st) = Inr (pairs, runs, sz, st1)"
      "st_plan crc pairs (slot_ino ! slot) fseed st1 = Inr (plan, st2)" "st_segments st' = st_segments st2"
      using assms by (auto simp: seal_file_def Let_def bindE_eq_Inr)
    then show ?thesis using fold [OF s(1)] st_plan_frame [OF s(2)] by (auto simp: extends_def)
  qed (use assms in \<open>auto simp: seal_file_def Let_def split: if_splits\<close>)
qed

lemma foldE_extends:
  "foldE (seal_file crc b slot_ino fseed) xs st = Inr st' \<Longrightarrow> extends st st'"
proof (induction xs arbitrary: st)
  case (Cons x xs)
  then obtain st1 where "seal_file crc b slot_ino fseed x st = Inr st1" "foldE (seal_file crc b slot_ino fseed) xs st1 = Inr st'"
    by (auto simp: bindE_eq_Inr)
  then show ?case using Cons.IH extends_trans seal_file_extends by blast
qed simp

section \<open>Placement\<close>

lemma place_all_dirs:
  assumes "place_all crc b geo fseed slot_ino = Inr pl" "geometry_wf geo"
  shows "\<exists>parents. parent_map b slot_ino = Inr parents \<and> dirs_ok crc b slot_ino parents fseed (length (fb_nodes b)) (pl_names pl) \<and>
    mset (st_segments (pl_names pl)) \<subseteq># mset (st_segments (pl_data pl))"
  using assms
proof (rule place_all_phases, goal_cases)
  case (1 a st2 lfb parents)
  let ?n = "length (fb_nodes b)"
  let ?P = "\<lambda>k st. dirs_ok crc b slot_ino parents fseed k st \<and> names_ok (alloc_free a)
    (mset (expand_runs (fst (pl_journal pl))) + mset (expand_runs (fst (pl_lost_found pl)))) (expand_runs (fst (pl_lost_found pl))) st"
  have "?P ?n (pl_names pl)"
    using 1(4)
  proof (rule foldE_upt_inv [where P = ?P])
    show "?P 0 (names_start b (fst (pl_lost_found pl)) lfb st2)"
      using 1(6) by (simp add: dirs_ok_def names_start_def)
    fix k st st' assume k: "k < ?n" "?P k st" "seal_slot crc b slot_ino parents fseed k st = Inr st'"
    from k(2) show "?P (Suc k) st'"
      by (elim conjE, intro conjI) (rule seal_slot_dirs [OF _ _ k(3)] seal_slot_ok [OF _ k(3)], assumption+)+
  qed
  moreover have "extends (data_start b (pl_names pl)) (pl_data pl)" using foldE_extends [OF 1(5)] .
  then have "mset (st_segments (pl_names pl)) \<subseteq># mset (st_segments (pl_data pl))" by (auto simp: extends_def data_start_def)
  ultimately show ?case using 1(2) by blast
qed

end
