(* ===== verification/DirInodes.thy ===== *)
theory DirInodes
  imports ReadBack DirPlans ReadDir
begin

text \<open>
  The inode of a directory of a built image, and its blocks as the reader reads them.
\<close>

section \<open>The inode\<close>

lemma seal_inodes_dir:
  assumes "seal_inodes crc b geo fseed slot_ino max_ino jp lp ns ds = Inr raws"
    and d: "d \<in> set (ns_dirs ns)" "distinct (map dp_slot (ns_dirs ns))"
    and slots: "\<forall>e\<in>set (ns_dirs ns). dp_slot e < length (fb_nodes b) \<and> slot_ino ! dp_slot e \<noteq> 0"
    and dir: "is_dir (fb_nodes b ! dp_slot d)"
    and inj: "length slot_ino = length (fb_nodes b)"
      "\<forall>i<length slot_ino. \<forall>j<length slot_ino. slot_ino ! i \<noteq> 0 \<and> slot_ino ! i = slot_ino ! j \<longrightarrow> i = j"
  shows "\<exists>raw. render_inode crc fseed (of_nat (slot_ino ! dp_slot d)) (dir_inode_render b slot_ino (ns_xattrs ns) d) = Inr raw \<and>
    raws ! (slot_ino ! dp_slot d - 1) = raw"
proof -
  let ?n = "length (fb_nodes b)" and ?f = "put_node_inode crc b fseed slot_ino ns ds" and ?i = "slot_ino ! dp_slot d - 1"
  let ?g = "\<lambda>d. put_inode crc fseed (slot_ino ! dp_slot d) (dir_inode_render b slot_ino (ns_xattrs ns) d)"
  obtain r3 r4 where r: "foldE ?g (ns_dirs ns) r3 = Inr r4" "foldE ?f [0..<?n] r4 = Inr raws"
    using assms(1) by (auto simp: seal_inodes_def Let_def bindE_eq_Inr)
  obtain xs ys where split: "ns_dirs ns = xs @ d # ys" using d(1) by (meson split_list)
  then obtain r5 r6 where q: "?g d r5 = Inr r6" "foldE ?g ys r6 = Inr r4"
    using r(1) by (auto simp: foldE_append bindE_eq_Inr)
  have pos: "dp_slot d < ?n" "0 < slot_ino ! dp_slot d" using slots d(1) by auto
  have "r4 ! ?i = r6 ! ?i"
  proof (rule foldE_keeps_nth [OF q(2)])
    fix e s s' assume e: "e \<in> set ys" "?g e s = Inr s'"
    have "dp_slot e \<in> dp_slot ` set ys" using e(1) by (rule imageI)
    then have "dp_slot e \<noteq> dp_slot d" using d(2) split by auto
    moreover have "dp_slot e < ?n" "slot_ino ! dp_slot e \<noteq> 0" using e(1) slots split by auto
    ultimately have "slot_ino ! dp_slot e \<noteq> slot_ino ! dp_slot d" using inj pos by metis
    then show "s' ! ?i = s ! ?i" using pos by (intro put_inode_nth [OF e(2)]) simp
  qed
  moreover have "raws ! ?i = r4 ! ?i"
  proof (rule foldE_keeps_nth [OF r(2)])
    fix x s s' assume x: "x \<in> set [0..<?n]" "?f x s = Inr s'"
    show "s' ! ?i = s ! ?i"
    proof (cases "x = dp_slot d")
      case True
      then have "?f x s = Inr s"
        using dir by (auto simp: put_node_inode_def node_render_def Let_def is_dir_def split: node_kind.splits)
      then show ?thesis using x(2) by simp
    next
      case False
      then have "slot_ino ! x = 0 \<or> slot_ino ! x \<noteq> slot_ino ! dp_slot d" using inj pos x(1) by (metis atLeastLessThan_iff set_upt)
      then show ?thesis using pos by (intro put_node_nth [OF x(2)]) auto
    qed
  qed
  moreover obtain raw where "render_inode crc fseed (of_nat (slot_ino ! dp_slot d)) (dir_inode_render b slot_ino (ns_xattrs ns) d) = Inr raw"
    "set_inode (slot_ino ! dp_slot d) raw r5 = Inr r6"
    using q(1) by (auto simp: put_inode_def bindE_eq_Inr)
  ultimately show ?thesis using set_inode_nth [of "slot_ino ! dp_slot d" raw r5 r6 ?i] pos by auto
qed

lemma dir_mode: "drop_bit 12 (type_bits ft_DIR OR (m AND 0xFFF) :: u16) = 4"
proof -
  have "(0xFFF :: u16) = mask 12" by (simp add: mask_eq_exp_minus_1)
  moreover have "drop_bit 12 (m AND mask 12 :: u16) = 0" by (rule bit_word_eqI) (auto simp: bit_simps)
  moreover have "drop_bit 12 (type_bits ft_DIR) = 4" by (simp add: type_bits_def)
  ultimately show ?thesis by (simp add: drop_bit_or)
qed

lemma render_dir_wf:
  assumes "inode_of_render (render_dir m n h nlink plan (acl, ib)) = Inr i" "length (ep_root plan) = 60"
    and "n \<le> 2 ^ 32" "ep_tree_blocks plan \<le> 8 * 2 ^ 32" "acl < 2 ^ 32" "ib = [] \<or> length ib = 96 \<and> (\<exists>x\<in>set ib. x \<noteq> 0)"
  shows "inode_wf i" "i_size i = of_nat (n * 4096)" "i_block i = ep_root plan"
    "i_flags i = iflags_EXTENTS OR (if h then iflags_INDEX else 0)" "i_generation i = 0" "inode_file_type i = Dir"
proof -
  note f = inode_of_render_fields [OF assms(1)]
  have "n * 8 + ep_tree_blocks plan + acl_512 acl < 2 ^ 48" using assms(3,4) by (simp add: acl_512_def)
  then have "unat (i_blocks i) < 2 ^ 48" using of_nat_bound [of "n * 8 + ep_tree_blocks plan + acl_512 acl"] f(2)
    by (simp add: render_dir_def)
  moreover have "unat (i_file_acl i) < 2 ^ 48" using of_nat_bound [of acl] assms(5) f(5)
    by (simp add: render_dir_def)
  ultimately show "inode_wf i" using f assms(2,6) by (simp add: inode_wf_def render_dir_def)
  show "i_size i = of_nat (n * 4096)" "i_block i = ep_root plan" "i_generation i = 0"
    "i_flags i = iflags_EXTENTS OR (if h then iflags_INDEX else 0)"
    using f by (simp_all add: render_dir_def)
  have "i_mode i = type_bits ft_DIR OR (m_mode m AND 0xFFF)" using f(9) by (simp add: render_dir_def)
  then show "inode_file_type i = Dir" using dir_mode by (simp add: inode_file_type_def)
qed

section \<open>The blocks\<close>

text \<open>The extents of a dense sequence of runs map each logical block to the block of that index.\<close>

lemma dense_block:
  assumes "with_logicals runs = Inr pairs" "\<forall>r\<in>set runs. 0 < run_len r \<and> run_len r \<le> 32768"
    and "\<forall>b\<in>set (expand_runs runs). b < 2 ^ 32"
  shows "\<forall>x\<in>set (plan_exts pairs). ext_ok x"
    "k < length (expand_runs runs) \<Longrightarrow> file_block (map fx_of (plan_exts pairs)) k = Some (expand_runs runs ! k)"
proof -
  note l = logicals_from_map [OF assms(1) [unfolded with_logicals_def]]
  show ok: "\<forall>x\<in>set (plan_exts pairs). ext_ok x"
  proof
    fix x assume "x \<in> set (plan_exts pairs)"
    then obtain lo r where x: "x = (lo, run_start r, run_len r)" "(lo, r) \<in> set pairs" by (auto simp: plan_exts_def)
    have "snd (lo, r) \<in> snd ` set pairs" using x(2) by (rule imageI)
    then have r: "r \<in> set runs" using l by (simp flip: set_map)
    then have "run_start r \<in> set (expand_runs runs)" using assms(2) by (auto simp: expand_runs_def)
    then have "run_start r < 2 ^ 32" using assms(3) by blast
    then show "ext_ok x" using x assms(2) r by (simp add: ext_ok_def)
  qed
  assume "k < length (expand_runs runs)"
  then show "file_block (map fx_of (plan_exts pairs)) k = Some (expand_runs runs ! k)"
    using file_block_map [OF ok, of k] l map_of_zip_upt [of "length (expand_runs runs)" "expand_runs runs" 0 k] by simp
qed

section \<open>Packed entries\<close>

lemma seal_dirent_block_eq:
  "length b = 4096 \<Longrightarrow> seal_dirent_block crc seed b = Inr (seal_dir_block crc seed b)"
  by (simp add: seal_dirent_block_def csum_dirent_block_def store_u32_def seal_dir_block_def stamp_tail_def)

lemma sealed_blocks:
  assumes "mapE (seal_dirent_block crc seed) bs = Inr bs'" "\<forall>b\<in>set bs. length b = 4096"
  shows "bs' = map (seal_dir_block crc seed) bs"
proof -
  have "mapE (seal_dirent_block crc seed) bs = mapE (\<lambda>b. Inr (seal_dir_block crc seed b)) bs"
    using assms(2) seal_dirent_block_eq by (intro mapE_cong) auto
  also have "\<dots> = Inr (map (seal_dir_block crc seed) bs)" by (rule mapE_Inr) simp
  finally show ?thesis using assms(1) by simp
qed

lemmas linear_blocks = sealed_blocks [OF _ pack_dirents_lengths]

text \<open>Whatever form a directory has, its blocks read back as the dot entries and then its entries, in
  some order.\<close>

lemma dir_blocks_read:
  assumes "dir_blocks crc ino parent_ino entries seed fseed = Inr blocks" "\<forall>e\<in>set entries. dentry_ok e"
    and "0 < ino" "ino < 2 ^ 32" "0 < parent_ino" "parent_ino < 2 ^ 32"
  shows "\<exists>es. mset es = mset entries \<and>
    read_dir_blocks (needs_htree entries) 0 blocks =
      Inr (map dir_entry_of_dentry (dot_entries (of_nat ino) (of_nat parent_ino) @ es))"
proof -
  have nz: "(of_nat ino :: u32) \<noteq> 0" "(of_nat parent_ino :: u32) \<noteq> 0"
    using assms(3-6) by (simp_all add: word_of_nat_eq_0_iff nat_dvd_not_less)
  show ?thesis
  proof (cases "needs_htree entries")
    case True
    then have ne: "entries \<noteq> []" by (auto simp: needs_htree_def)
    have "htree_build crc (of_nat ino) (of_nat parent_ino) entries seed fseed = Inr blocks"
      using assms(1) True by (simp add: dir_blocks_def)
    from htree_reads_back [OF assms(2) ne nz this] show ?thesis using True
      by (auto simp: dot_entries_def ascii_def)
  next
    case False
    let ?es = "dot_entries (of_nat ino) (of_nat parent_ino) @ entries"
    obtain bs where bs: "pack_dirents ?es = Inr bs" "mapE (seal_dirent_block crc (inode_seed crc fseed (of_nat ino) 0)) bs = Inr blocks"
      using assms(1) False by (auto simp: dir_blocks_def bindE_eq_Inr)
    have "\<forall>e\<in>set ?es. dentry_ok e" using assms(2) nz by (auto simp: dot_entries_def dentry_ok_def ascii_def)
    from linear_reads_back [OF this, of crc "inode_seed crc fseed (of_nat ino) 0"] show ?thesis
      using bs linear_blocks [OF bs(2,1)] False by auto
  qed
qed

end
