(* ===== verification/NameEntries.thy ===== *)
theory NameEntries
  imports SealNumbers BuilderKinds DirPlans
begin

text \<open>
  The directory entries that sealing makes of the namespace: every live name of a directory in use has
  a numbered slot, names are valid and distinct, and the entries of a directory are its part of the name
  map with slots replaced by inode numbers.
\<close>

section \<open>Parents\<close>

lemma set_parents:
  "foldE (set_parent ino) cs ps = Inr ps' \<Longrightarrow> length ps' = length ps \<and>
   (\<forall>c<length ps. ps' ! c = (if c \<in> set cs then ino else ps ! c))"
proof (induction cs arbitrary: ps)
  case (Cons c cs)
  then obtain ps1 where s: "set_parent ino c ps = Inr ps1" "foldE (set_parent ino) cs ps1 = Inr ps'"
    by (auto simp: bindE_eq_Inr)
  have "ps1 = ps[c := ino]" using s(1) by (simp add: set_parent_def split: if_splits)
  then show ?case using Cons.IH [OF s(2)] by (auto simp: nth_list_update)
qed simp

definition parent_step :: "nat list \<Rightarrow> nat \<times> node \<Rightarrow> nat list \<Rightarrow> nat list res" where
  "parent_step slot_ino = (\<lambda>(p, n) parents.
      if slot_ino ! p = 0 then Inr parents
      else foldE (set_parent (slot_ino ! p)) (kind_children (n_kind n)) parents)"

lemma parent_steps:
  assumes "foldE (parent_step slot_ino) xs ps = Inr ps'" "c < length ps"
    and "\<exists>(p, n)\<in>set xs. slot_ino ! p \<noteq> 0 \<and> c \<in> set (kind_children (n_kind n))"
  shows "\<exists>(p, n)\<in>set xs. slot_ino ! p \<noteq> 0 \<and> c \<in> set (kind_children (n_kind n)) \<and> ps' ! c = slot_ino ! p"
proof -
  define hit where "hit x \<longleftrightarrow> slot_ino ! fst x \<noteq> 0 \<and> c \<in> set (kind_children (n_kind (snd x)))" for x :: "nat \<times> node"
  have step: "length q' = length q \<and> (c < length q \<longrightarrow> q' ! c = (if hit x then slot_ino ! fst x else q ! c))"
    if "parent_step slot_ino x q = Inr q'" for x q q'
    using that set_parents [of "slot_ino ! fst x" "kind_children (n_kind (snd x))" q q']
    by (cases x) (auto simp: parent_step_def hit_def split: if_splits)
  have "length q' = length q \<and> (c < length q \<longrightarrow>
      (if \<exists>x\<in>set xs. hit x then \<exists>x\<in>set xs. hit x \<and> q' ! c = slot_ino ! fst x else q' ! c = q ! c))"
    if "foldE (parent_step slot_ino) xs q = Inr q'" for xs q q'
    using that
  proof (induction xs arbitrary: q)
    case (Cons x xs)
    then obtain q1 where s: "parent_step slot_ino x q = Inr q1" "foldE (parent_step slot_ino) xs q1 = Inr q'"
      by (auto simp: bindE_eq_Inr)
    show ?case using step [OF s(1)] Cons.IH [OF s(2)] by (auto split: if_splits)
  qed simp
  note all = this
  have "\<exists>x\<in>set xs. hit x" using assms(3) by (force simp: hit_def)
  then have "\<exists>x\<in>set xs. hit x \<and> ps' ! c = slot_ino ! fst x" using all [OF assms(1)] assms(2) by simp
  then show ?thesis by (fastforce simp: hit_def)
qed

lemma parent_map_holds:
  assumes "parent_map b slot_ino = Inr parents" "c < length (fb_nodes b)"
    and "p < length (fb_nodes b)" "slot_ino ! p \<noteq> 0" "c \<in> set (node_live (fb_nodes b ! p))"
  shows "\<exists>q<length (fb_nodes b). slot_ino ! q \<noteq> 0 \<and> c \<in> set (node_live (fb_nodes b ! q)) \<and> parents ! c = slot_ino ! q"
proof -
  have kids: "kind_children (n_kind n) = node_live n" for n by (simp add: kind_children_def node_live_def)
  have "(p, fb_nodes b ! p) \<in> set (enumerate 0 (fb_nodes b))" using assms(3) by (simp add: in_set_enumerate_eq)
  then have "\<exists>(p, n)\<in>set (enumerate 0 (fb_nodes b)). slot_ino ! p \<noteq> 0 \<and> c \<in> set (kind_children (n_kind n))"
    using assms(4,5) kids by fastforce
  moreover have "foldE (parent_step slot_ino) (enumerate 0 (fb_nodes b)) (replicate (length (fb_nodes b)) 0) = Inr parents"
    using assms(1) by (simp add: parent_map_def parent_step_def)
  ultimately show ?thesis using parent_steps [of slot_ino "enumerate 0 (fb_nodes b)" _ parents c] assms(2)
    by (fastforce simp: in_set_enumerate_eq kids)
qed

section \<open>Numbers\<close>

lemma node_live_edges: "p < length nodes \<Longrightarrow> c \<in> set (node_live (nodes ! p)) \<Longrightarrow> (p, c) \<in> name_edges nodes"
  by (auto simp: name_edges_def kind_children_def node_live_def split: node_kind.splits)

lemma live_child:
  assumes "builder_inv strict b" "p < length (fb_nodes b)" "c \<in> set (node_live (fb_nodes b ! p))"
  shows "c \<noteq> 0" "c < length (fb_nodes b)" "0 < n_nlink (fb_nodes b ! c)"
proof -
  have inv: "entries_ok b" "links_ok [] [] b" using assms(1) by (simp_all add: builder_inv_def mid_inv_def)
  obtain r where "(r, c, False) \<in> set (node_children (fb_nodes b ! p))"
    using assms(3) by (auto simp: node_live_def node_children_def set_live split: node_kind.splits)
  moreover have "fb_nodes b ! p \<in> set (fb_nodes b)" using assms(2) by simp
  ultimately show c: "c \<noteq> 0" "c < length (fb_nodes b)" using inv(1) by (fastforce simp: entries_ok_def entry_ok_def)+
  have "0 < count_list (node_live (fb_nodes b ! p)) c" using assms(3) by (simp add: count_list_0_iff neq0_conv [symmetric] del: neq0_conv)
  moreover have "count_list (node_live (fb_nodes b ! p)) c \<le> refs b c"
    unfolding refs_def using assms(2) by (intro member_le_sum_list) auto
  ultimately show "0 < n_nlink (fb_nodes b ! c)" using inv(2) c(2) by (auto simp: links_ok_def)
qed

lemma child_numbered:
  assumes "builder_inv strict b" "slot_inodes b = Inr (slot_ino, nxt)" "p < length (fb_nodes b)" "slot_ino ! p \<noteq> 0"
    and "c \<in> set (node_live (fb_nodes b ! p))"
  shows "slot_ino ! c \<noteq> 0"
proof -
  have props: "\<forall>s<length (fb_nodes b). 0 < s \<longrightarrow> (slot_ino ! s \<noteq> 0 \<longleftrightarrow> s \<in> live_slots (fb_nodes b) \<and> 0 < n_nlink (fb_nodes b ! s))"
    using slot_inodes_props [OF assms(1,2)] by blast
  note lc = live_child [OF assms(1,3,5)]
  have "p \<in> live_slots (fb_nodes b)" using props assms(3,4) by (cases "p = 0") (auto simp: live_slots_def)
  then have "c \<in> live_slots (fb_nodes b)"
    using node_live_edges [OF assms(3,5)] by (auto simp: live_slots_def intro: rtrancl_into_rtrancl)
  then show ?thesis using props lc by auto
qed

text \<open>A directory other than the root that is in use is the child of one.\<close>

lemma numbered_parent:
  assumes "builder_inv strict b" "slot_inodes b = Inr (slot_ino, nxt)" "c < length (fb_nodes b)" "slot_ino ! c \<noteq> 0" "c \<noteq> 0"
  shows "\<exists>p<length (fb_nodes b). slot_ino ! p \<noteq> 0 \<and> c \<in> set (node_live (fb_nodes b ! p))"
proof -
  note sp = slot_inodes_props [OF assms(1,2)]
  have props: "\<forall>s<length (fb_nodes b). 0 < s \<longrightarrow> (slot_ino ! s \<noteq> 0 \<longleftrightarrow> s \<in> live_slots (fb_nodes b) \<and> 0 < n_nlink (fb_nodes b ! s))"
    and root: "slot_ino ! 0 = 2"
    using sp by blast+
  have "c \<in> live_slots (fb_nodes b)" using props assms(3-5) by simp
  then have "(0, c) \<in> (name_edges (fb_nodes b))\<^sup>*" by (simp add: live_slots_def)
  then obtain p where p: "(0, p) \<in> (name_edges (fb_nodes b))\<^sup>*" "(p, c) \<in> name_edges (fb_nodes b)"
    using assms(5) by (metis rtranclE)
  have edge: "q < length (fb_nodes b) \<and> r \<in> set (node_live (fb_nodes b ! q))" if "(q, r) \<in> name_edges (fb_nodes b)" for q r
    using that by (auto simp: name_edges_def kind_children_def node_live_def split: node_kind.splits)
  have "slot_ino ! p \<noteq> 0"
  proof (cases "p = 0")
    case False
    then obtain q where "(q, p) \<in> name_edges (fb_nodes b)" using p(1) by (metis rtranclE)
    then have "0 < n_nlink (fb_nodes b ! p)" using live_child(3) [OF assms(1)] edge by blast
    moreover have "p \<in> live_slots (fb_nodes b)" using p(1) by (simp add: live_slots_def)
    ultimately show ?thesis using props edge [OF p(2)] False by auto
  qed (simp add: root)
  then show ?thesis using edge [OF p(2)] by blast
qed

section \<open>Entries\<close>

definition is_live :: "child_entry \<Rightarrow> bool" where
  "is_live e \<longleftrightarrow> \<not> snd (snd e)"

definition dirent_of :: "fs_builder \<Rightarrow> nat list \<Rightarrow> child_entry \<Rightarrow> dentry" where
  "dirent_of b slot_ino e =
    (name_of (fb_names b) (fst e), of_nat (slot_ino ! fst (snd e)), kind_ftype (n_kind (fb_nodes b ! fst (snd e))))"

definition dir_entries :: "fs_builder \<Rightarrow> nat list \<Rightarrow> child_entry list \<Rightarrow> dentry list" where
  "dir_entries b slot_ino children = map (dirent_of b slot_ino) (filter is_live children)"

definition lost_found_entry :: dentry where
  "lost_found_entry = (ascii ''lost+found'', of_nat LOST_FOUND_INO, ft_DIR)"

lemma live_children_set: "c \<in> set (live_children children) \<longleftrightarrow> (\<exists>e\<in>set children. is_live e \<and> fst (snd e) = c)"
  by (force simp: live_children_def is_live_def)

lemma dir_dentries_eq:
  assumes "\<forall>c\<in>set (live_children children). c < length slot_ino \<and> slot_ino ! c \<noteq> 0"
  shows "dir_dentries b slot_ino slot children =
    Inr ((if slot = 0 then [lost_found_entry] else []) @ dir_entries b slot_ino children)"
proof -
  have "child_dentry b slot_ino e = Inr (if is_live e then [dirent_of b slot_ino e] else [])" if e: "e \<in> set children" for e
  proof (cases "is_live e")
    case True
    then have "fst (snd e) < length slot_ino \<and> slot_ino ! fst (snd e) \<noteq> 0" using assms e live_children_set by blast
    then show ?thesis using True by (cases e) (simp add: child_dentry_def dirent_of_def is_live_def)
  qed (cases e, simp add: child_dentry_def is_live_def)
  then have "mapE (child_dentry b slot_ino) children = Inr (map (\<lambda>e. if is_live e then [dirent_of b slot_ino e] else []) children)"
    by (rule mapE_Inr)
  moreover have "concat (map (\<lambda>e. if is_live e then [dirent_of b slot_ino e] else []) children) = dir_entries b slot_ino children"
    unfolding dir_entries_def by (induction children) auto
  ultimately show ?thesis by (simp add: dir_dentries_def lost_found_entry_def)
qed

lemma distinct_filter_nth:
  assumes "\<And>i j. i < length xs \<Longrightarrow> j < length xs \<Longrightarrow> P (xs ! i) \<Longrightarrow> P (xs ! j) \<Longrightarrow> h (xs ! i) = h (xs ! j) \<Longrightarrow> i = j"
  shows "distinct (map h (filter P xs))"
  using assms
proof (induction xs)
  case (Cons x xs)
  have "distinct (map h (filter P xs))"
    by (rule Cons.IH) (use Cons.prems [of "Suc _" "Suc _"] in fastforce)
  moreover have neq: "h x \<noteq> h y" if "P x" "y \<in> set xs" "P y" for y
  proof -
    obtain j where "j < length xs" "xs ! j = y" using \<open>y \<in> set xs\<close> by (meson in_set_conv_nth)
    then show ?thesis using Cons.prems [of 0 "Suc j"] that by auto
  qed
  ultimately show ?case using neq by auto
qed simp

lemma dir_entries_lookup:
  assumes inv: "builder_inv strict b" and d: "d < length (fb_nodes b)" "n_kind (fb_nodes b ! d) = node_kind.Dir children index"
  shows "distinct (map fst (dir_entries b slot_ino children))"
    "map_of (map (\<lambda>e. (fst e, fst (snd e))) (dir_entries b slot_ino children)) nm =
      map_option (\<lambda>c. of_nat (slot_ino ! c)) (lookup b d nm)"
    "fst ` set (dir_entries b slot_ino children) = dom index"
proof -
  let ?es = "dir_entries b slot_ino children"
  have ix: "index nm = Some i \<longleftrightarrow> live_at (fb_names b) children i nm" for nm i
    using inv d by (auto simp: builder_inv_def mid_inv_def indexes_ok_def index_ok_def dest!: bspec [of _ _ "fb_nodes b ! d"])
  have name: "fst \<circ> dirent_of b slot_ino = (\<lambda>e. name_of (fb_names b) (fst e))" by (simp add: dirent_of_def fun_eq_iff)
  show dist: "distinct (map fst ?es)"
    unfolding dir_entries_def map_map name
  proof (rule distinct_filter_nth)
    fix i j assume "i < length children" "j < length children" "is_live (children ! i)" "is_live (children ! j)"
      "name_of (fb_names b) (fst (children ! i)) = name_of (fb_names b) (fst (children ! j))"
    then have "live_at (fb_names b) children i (name_of (fb_names b) (fst (children ! j)))"
      "live_at (fb_names b) children j (name_of (fb_names b) (fst (children ! j)))"
      by (simp_all add: live_at_def is_live_def)
    then show "i = j" using ix by (metis option.inject)
  qed
  have mem: "e \<in> set ?es \<longleftrightarrow> (\<exists>i. index (fst e) = Some i \<and> e = dirent_of b slot_ino (children ! i))" for e
  proof -
    have es: "e \<in> set ?es \<longleftrightarrow> (\<exists>i<length children. is_live (children ! i) \<and> e = dirent_of b slot_ino (children ! i))"
      by (force simp: dir_entries_def in_set_conv_nth)
    have "i < length children \<and> is_live (children ! i) \<longleftrightarrow> live_at (fb_names b) children i (fst (dirent_of b slot_ino (children ! i)))" for i
      by (simp add: live_at_def is_live_def dirent_of_def)
    note live = this
    show ?thesis
    proof
      assume "e \<in> set ?es"
      then obtain i where i: "i < length children" "is_live (children ! i)" "e = dirent_of b slot_ino (children ! i)"
        using es by blast
      then have "index (fst e) = Some i" using live [of i] by (simp add: ix)
      then show "\<exists>i. index (fst e) = Some i \<and> e = dirent_of b slot_ino (children ! i)" using i(3) by blast
    next
      assume "\<exists>i. index (fst e) = Some i \<and> e = dirent_of b slot_ino (children ! i)"
      then obtain i where i: "index (fst e) = Some i" "e = dirent_of b slot_ino (children ! i)" by blast
      then have "i < length children \<and> is_live (children ! i)" using live [of i] by (simp add: ix)
      then show "e \<in> set ?es" using i(2) es by blast
    qed
  qed
  have lk: "lookup b d nm = map_option (\<lambda>i. fst (snd (children ! i))) (index nm)" for nm
    using d by (simp add: lookup_def)
  have fst_e: "fst (dirent_of b slot_ino (children ! i)) = nm" if "index nm = Some i" for i nm
    using that by (simp add: ix live_at_def dirent_of_def)
  show names: "fst ` set ?es = dom index"
  proof
    show "fst ` set ?es \<subseteq> dom index"
    proof
      fix nm assume "nm \<in> fst ` set ?es"
      then obtain e where e: "e \<in> set ?es" "nm = fst e" by blast
      then show "nm \<in> dom index" using mem [of e] by blast
    qed
    show "dom index \<subseteq> fst ` set ?es"
    proof
      fix nm assume "nm \<in> dom index"
      then obtain i where i: "index nm = Some i" by blast
      then have "dirent_of b slot_ino (children ! i) \<in> set ?es" using mem fst_e [OF i] by metis
      then show "nm \<in> fst ` set ?es" using fst_e [OF i] by force
    qed
  qed
  have dist': "distinct (map fst (map (\<lambda>e. (fst e, fst (snd e))) ?es))" using dist by (simp add: comp_def)
  show "map_of (map (\<lambda>e. (fst e, fst (snd e))) ?es) nm = map_option (\<lambda>c. of_nat (slot_ino ! c)) (lookup b d nm)"
  proof (cases "index nm")
    case None
    then have "nm \<notin> fst ` set ?es" using names by auto
    then have "map_of (map (\<lambda>e. (fst e, fst (snd e))) ?es) nm = None" by (force simp: map_of_eq_None_iff)
    then show ?thesis using None lk by simp
  next
    case (Some i)
    then have "dirent_of b slot_ino (children ! i) \<in> set ?es" using mem fst_e [OF Some] by metis
    then have "(nm, fst (snd (dirent_of b slot_ino (children ! i)))) \<in> set (map (\<lambda>e. (fst e, fst (snd e))) ?es)"
      using fst_e [OF Some] by force
    then have "map_of (map (\<lambda>e. (fst e, fst (snd e))) ?es) nm = Some (fst (snd (dirent_of b slot_ino (children ! i))))"
      using dist' by simp
    then show ?thesis using Some lk by (simp add: dirent_of_def)
  qed
qed

text \<open>Names are valid, so the entries are what the packers expect.\<close>

lemma lookup_valid:
  assumes "kinds_all kind_ok b" "lookup b d nm = Some c"
  shows "name_valid nm"
proof -
  obtain children index where k: "d < length (fb_nodes b)" "n_kind (fb_nodes b ! d) = node_kind.Dir children index" "index nm \<noteq> None"
    using assms(2) by (auto simp: lookup_def split: if_splits node_kind.splits)
  then have "kind_ok (node_kind.Dir children index)" using assms(1) by (metis kinds_all_def nth_mem)
  then show ?thesis using k(3) by (auto simp: kind_ok_def dom_def)
qed

lemma entries_packable:
  assumes inv: "builder_inv strict b" "kinds_all kind_ok b" and d: "d < length (fb_nodes b)" "n_kind (fb_nodes b ! d) = node_kind.Dir children index"
    and num: "\<forall>c\<in>set (live_children children). slot_ino ! c \<noteq> 0 \<and> slot_ino ! c < 2 ^ 32"
  shows "\<forall>e\<in>set (dir_entries b slot_ino children). dentry_ok e"
proof
  fix e assume e: "e \<in> set (dir_entries b slot_ino children)"
  have "fst e \<in> dom index" using dir_entries_lookup(3) [OF inv(1) d, of slot_ino] e by blast
  moreover have "kind_ok (node_kind.Dir children index)" using inv(2) d by (metis kinds_all_def nth_mem)
  ultimately have "name_valid (fst e)" by (simp add: kind_ok_def)
  moreover obtain x where "x \<in> set children" "is_live x" "e = dirent_of b slot_ino x" using e by (auto simp: dir_entries_def)
  then have "slot_ino ! fst (snd x) \<noteq> 0 \<and> slot_ino ! fst (snd x) < 2 ^ 32" "fst (snd e) = of_nat (slot_ino ! fst (snd x))"
    using num live_children_set by (blast, simp add: dirent_of_def)
  then have "fst (snd e) \<noteq> 0" by (simp add: word_of_nat_eq_0_iff nat_dvd_not_less)
  ultimately show "dentry_ok e" by (simp add: dentry_ok_def name_valid_def)
qed

section \<open>Paths\<close>

text \<open>Following names from a directory, in the builder.\<close>

fun walk :: "fs_builder \<Rightarrow> nat \<Rightarrow> bytes list \<Rightarrow> nat option" where
  "walk b d [] = Some d"
| "walk b d (nm # nms) = (case lookup b d nm of None \<Rightarrow> None | Some c \<Rightarrow> walk b c nms)"

end
