(* ===== verification/ReadNames.thy ===== *)
theory ReadNames
  imports DirInodes NameEntries
begin

text \<open>
  The names of a built image: every directory in use reads back as its dot entries and its entries, and
  following a path on the image follows the names of the builder.
\<close>

section \<open>Directories\<close>

text \<open>What sealing planned for a directory in use.\<close>

lemma opened_dir_plan:
  assumes op: "opened crc b lay fills f geo slot_ino max_ino pl"
    and s: "s < length (fb_nodes b)" "slot_ino ! s \<noteq> 0" "is_dir (fb_nodes b ! s)"
  obtains parents d where "parent_map b slot_ino = Inr parents" "d \<in> set (ns_dirs (pl_names pl))" "dp_slot d = s"
    "dir_planned crc b slot_ino parents (fs_csum_seed f) (st_segments (pl_data pl)) (ns_rendered (pl_names pl)) d"
    "\<exists>raw. render_inode crc (fs_csum_seed f) (of_nat (slot_ino ! s)) (dir_inode_render b slot_ino (ns_xattrs (pl_names pl)) d) = Inr raw \<and>
      lay_inodes lay ! (slot_ino ! s - 1) = raw"
proof -
  note so = opened_slots [OF op] and h = opened_handle [OF op] and sl = opened_seal [OF op]
  obtain parents where p: "parent_map b slot_ino = Inr parents"
    "dirs_ok crc b slot_ino parents (fs_csum_seed f) (length (fb_nodes b)) (pl_names pl)"
    "mset (st_segments (pl_names pl)) \<subseteq># mset (st_segments (pl_data pl))"
    using place_all_dirs [OF sl(1) h(7)] by blast
  then have "s \<in> dp_slot ` set (ns_dirs (pl_names pl))" using s unfolding dirs_ok_def by blast
  then obtain d where d: "d \<in> set (ns_dirs (pl_names pl))" "dp_slot d = s" by blast
  have dist: "distinct (map dp_slot (ns_dirs (pl_names pl)))"
    and slots: "\<forall>e\<in>set (ns_dirs (pl_names pl)). dp_slot e < length (fb_nodes b) \<and> slot_ino ! dp_slot e \<noteq> 0"
    using p(2) unfolding dirs_ok_def by blast+
  have "dir_planned crc b slot_ino parents (fs_csum_seed f) (st_segments (pl_names pl)) (ns_rendered (pl_names pl)) d"
    using p(2) d(1) unfolding dirs_ok_def by blast
  then have "dir_planned crc b slot_ino parents (fs_csum_seed f) (st_segments (pl_data pl)) (ns_rendered (pl_names pl)) d"
    using dir_planned_mono [OF _ p(3) order.refl] by blast
  then show thesis
    using that p(1) d seal_inodes_dir [OF sl(2) d(1) dist slots _ so(1,3)] s(3) by blast
qed

text \<open>The blocks and the inode of a planned directory, as the reader reads them.\<close>

lemma dir_slot_inode:
  assumes op: "opened crc b lay fills f geo slot_ino max_ino pl"
    and s: "dp_slot d < length (fb_nodes b)" "slot_ino ! dp_slot d \<noteq> 0"
    and planned: "dir_planned crc b slot_ino parents (fs_csum_seed f) (st_segments (pl_data pl)) (ns_rendered (pl_names pl)) d"
    and raw: "\<exists>raw. render_inode crc (fs_csum_seed f) (of_nat (slot_ino ! dp_slot d))
        (dir_inode_render b slot_ino (ns_xattrs (pl_names pl)) d) = Inr raw \<and> lay_inodes lay ! (slot_ino ! dp_slot d - 1) = raw"
  obtains children index entries blocks pairs a a' tsegs i c where
    "n_kind (fb_nodes b ! dp_slot d) = node_kind.Dir children index" "dir_dentries b slot_ino (dp_slot d) children = Inr entries"
    "dir_blocks crc (slot_ino ! dp_slot d) (parent_ino_of parents (dp_slot d)) entries (opt_hash_seed (fb_opts b)) (fs_csum_seed f) = Inr blocks"
    "length (expand_runs (dp_runs d)) = length blocks" "length blocks \<le> 2 ^ 32"
    "\<And>k. k < length blocks \<Longrightarrow> expand_runs (dp_runs d) ! k < geo_blocks geo \<and> read_block f (expand_runs (dp_runs d) ! k) = Inr (blocks ! k)"
    "\<forall>r\<in>set (dp_runs d). 0 < run_len r \<and> run_len r \<le> 32768" "with_logicals (dp_runs d) = Inr pairs" "alloc_wf a"
    "plan_extents crc pairs (of_nat (slot_ino ! dp_slot d)) (fs_csum_seed f) a = Inr (dp_plan d, a', tsegs)" "served f tsegs"
    "inode_of_render (dir_inode_render b slot_ino (ns_xattrs (pl_names pl)) d) = Inr i"
    "read_inode crc f (of_nat (slot_ino ! dp_slot d)) = Inr (i\<lparr>i_checksum := c\<rparr>)"
    "i_size i = of_nat (length blocks * 4096)" "i_block i = ep_root (dp_plan d)"
    "i_flags i = iflags_EXTENTS OR (if needs_htree entries then iflags_INDEX else 0)" "i_generation i = 0" "inode_file_type i = Dir"
proof -
  note so = opened_slots [OF op] and h = opened_handle [OF op] and sl = opened_seal [OF op]
  let ?ino = "slot_ino ! dp_slot d" and ?runs = "dp_runs d"
  obtain children index entries blocks pairs a a' tsegs where p:
    "n_kind (fb_nodes b ! dp_slot d) = node_kind.Dir children index" "dir_dentries b slot_ino (dp_slot d) children = Inr entries"
    "dir_blocks crc ?ino (parent_ino_of parents (dp_slot d)) entries (opt_hash_seed (fb_opts b)) (fs_csum_seed f) = Inr blocks"
    "dp_nblocks d = length blocks" "dp_is_htree d = needs_htree entries"
    "length (expand_runs ?runs) = length blocks" "distinct (expand_runs ?runs)"
    "set (zip (expand_runs ?runs) blocks) \<subseteq> set (ns_rendered (pl_names pl))"
    "\<forall>r\<in>set ?runs. 0 < run_len r \<and> run_len r \<le> 32768" "with_logicals ?runs = Inr pairs" "alloc_wf a"
    "plan_extents crc pairs (of_nat ?ino) (fs_csum_seed f) a = Inr (dp_plan d, a', tsegs)" "mset tsegs \<subseteq># mset (st_segments (pl_data pl))"
    using planned unfolding dir_planned_def by blast
  have block: "expand_runs ?runs ! k < geo_blocks geo \<and> read_block f (expand_runs ?runs ! k) = Inr (blocks ! k)"
    if k: "k < length blocks" for k
  proof -
    have "(expand_runs ?runs ! k, blocks ! k) \<in> set (zip (expand_runs ?runs) blocks)"
      using k p(6) by (auto simp: set_zip)
    then show ?thesis using p(8) sl(5) by blast
  qed
  have below: "\<forall>b\<in>set (expand_runs ?runs). b < geo_blocks geo" using block p(6) by (auto simp: in_set_conv_nth)
  have count: "length blocks \<le> geo_blocks geo" using distinct_below [OF p(7) below] p(6) by simp
  have root: "length (ep_root (dp_plan d)) = 60" "ep_tree_blocks (dp_plan d) = 8 * length tsegs"
    using plan_root [OF p(11,12)] by simp_all
  have "length tsegs \<le> length (st_segments (pl_data pl))" using size_mset_mono [OF p(13)] by simp
  moreover obtain acl ib where x: "ns_xattrs (pl_names pl) ! dp_slot d = (acl, ib)" by (cases "ns_xattrs (pl_names pl) ! dp_slot d")
  ultimately have caps: "length blocks \<le> 2 ^ 32" "ep_tree_blocks (dp_plan d) \<le> 8 * 2 ^ 32" "acl < 2 ^ 32"
    "ib = [] \<or> length ib = 96 \<and> (\<exists>x\<in>set ib. x \<noteq> 0)"
    using count root(2) h(8) sl(4) acl_below [OF sl(1) h(7) s(1)] x by simp_all
  let ?r = "dir_inode_render b slot_ino (ns_xattrs (pl_names pl)) d"
  obtain m nlink where r: "?r = render_dir m (length blocks) (needs_htree entries) nlink (dp_plan d) (acl, ib)"
    using x p(4,5) by (simp add: dir_inode_render_def Let_def)
  obtain raw where raw': "render_inode crc (fs_csum_seed f) (of_nat ?ino) ?r = Inr raw" "lay_inodes lay ! (?ino - 1) = raw"
    using raw by blast
  then obtain i where i: "inode_of_render ?r = Inr i" by (auto simp: render_inode_def bindE_eq_Inr)
  note wf = render_dir_wf [OF i [unfolded r] root(1) caps]
  have "inode_raw f (of_nat ?ino) = Inr raw" using so(5) [OF s] raw'(2) by simp
  then obtain c where rd: "read_inode crc f (of_nat ?ino) = Inr (i\<lparr>i_checksum := c\<rparr>)"
    using read_rendered [OF _ raw'(1) i wf(1) h(4) refl] by blast
  have sv: "served f tsegs" using sl(3) set_mset_mono [OF p(13)] by (auto simp: served_def)
  show thesis by (rule that [OF p(1-3,6) caps(1) block p(9-12) sv i rd wf(2-6)])
qed

text \<open>A directory, once its plan is known, reads as its packed blocks.\<close>

lemma read_planned_dir:
  assumes op: "opened crc b lay fills f geo slot_ino max_ino pl"
    and s: "dp_slot d < length (fb_nodes b)" "slot_ino ! dp_slot d \<noteq> 0"
    and planned: "dir_planned crc b slot_ino parents (fs_csum_seed f) (st_segments (pl_data pl)) (ns_rendered (pl_names pl)) d"
    and raw: "\<exists>raw. render_inode crc (fs_csum_seed f) (of_nat (slot_ino ! dp_slot d))
        (dir_inode_render b slot_ino (ns_xattrs (pl_names pl)) d) = Inr raw \<and> lay_inodes lay ! (slot_ino ! dp_slot d - 1) = raw"
  shows "\<exists>children index entries blocks. n_kind (fb_nodes b ! dp_slot d) = node_kind.Dir children index \<and>
    dir_dentries b slot_ino (dp_slot d) children = Inr entries \<and>
    dir_blocks crc (slot_ino ! dp_slot d) (parent_ino_of parents (dp_slot d)) entries (opt_hash_seed (fb_opts b)) (fs_csum_seed f) = Inr blocks \<and>
    read_dir crc f (of_nat (slot_ino ! dp_slot d)) = read_dir_blocks (needs_htree entries) 0 blocks"
proof (rule dir_slot_inode [OF op s planned raw], goal_cases)
  case (1 children index entries blocks pairs a a' tsegs i c)
  note h = opened_handle [OF op]
  have "\<forall>b\<in>set (expand_runs (dp_runs d)). b < 2 ^ 32" using 1(4,6) h(8) by (fastforce simp: in_set_conv_nth)
  note db = dense_block [OF 1(8,7) this]
  have flags: "i_flags i AND iflags_EXTENTS \<noteq> 0" "(i_flags i AND iflags_INDEX \<noteq> 0) = needs_htree entries"
    using 1(16) by simp_all
  have "extent_root (i\<lparr>i_checksum := c\<rparr>) = Some (ep_root (dp_plan d))"
    using 1(15) flags(1) plan_root [OF 1(9,10)] by (simp add: extent_root_def inode_uses_extents_def)
  moreover have "walk_extent_node crc f (of_nat (slot_ino ! dp_slot d)) (i\<lparr>i_checksum := c\<rparr>) (ep_root (dp_plan d)) None =
      Inr (map fx_of (plan_exts pairs))"
    using 1(17) by (intro plan_extents_reads [OF 1(9,10) db(1) 1(11)]) simp
  ultimately have ex: "fs_extents crc f (of_nat (slot_ino ! dp_slot d)) (i\<lparr>i_checksum := c\<rparr>) = Inr (map fx_of (plan_exts pairs))"
    by (simp add: fs_extents_def)
  have size: "unat (i_size (i\<lparr>i_checksum := c\<rparr>)) div fs_block_size f = length blocks"
  proof -
    have "length blocks * 4096 < 2 ^ 64" using 1(5) by simp
    then have "unat (of_nat (length blocks * 4096) :: u64) = length blocks * 4096" by (simp only: unat_of_nat) simp
    then show ?thesis using 1(14) fs_wf_simps(2) [OF h(2)] by simp
  qed
  have "read_dir crc f (of_nat (slot_ino ! dp_slot d)) = read_dir_blocks (inode_is_htree (i\<lparr>i_checksum := c\<rparr>)) 0 blocks"
    using 1(18,6,4) db(2) by (intro read_dir_of_blocks [OF 1(13) _ ex size]) (simp_all add: inode_file_type_def)
  moreover have "inode_is_htree (i\<lparr>i_checksum := c\<rparr>) = needs_htree entries" using flags(2) by (simp add: inode_is_htree_def)
  ultimately show ?case using 1(1-3) by auto
qed

text \<open>What a directory in use reads as: its dot entries, and its entries in some order.\<close>

definition dir_listing :: "fs_builder \<Rightarrow> nat list \<Rightarrow> nat \<Rightarrow> dentry list" where
  "dir_listing b slot_ino s =
    (if s = 0 then [lost_found_entry] else []) @ dir_entries b slot_ino (dir_children (n_kind (fb_nodes b ! s)))"

text \<open>The inode number that ".." names: the directory that holds the name, and the root for the root.\<close>

definition is_parent :: "fs_builder \<Rightarrow> nat list \<Rightarrow> nat \<Rightarrow> nat \<Rightarrow> bool" where
  "is_parent b slot_ino s ino \<longleftrightarrow> (if s = 0 then ino = 2 else
     \<exists>p<length (fb_nodes b). slot_ino ! p \<noteq> 0 \<and> s \<in> ran (lookup b p) \<and> ino = slot_ino ! p)"

text \<open>The entries that sealing packed for a directory in use, and its parent.\<close>

lemma slot_entries:
  assumes op: "opened crc b lay fills f geo slot_ino max_ino pl" and b: "builder_reachable strict opts b"
    and s: "s < length (fb_nodes b)" "slot_ino ! s \<noteq> 0" "n_kind (fb_nodes b ! s) = node_kind.Dir children index"
    and d: "parent_map b slot_ino = Inr parents" "dir_dentries b slot_ino s children = Inr entries"
  shows "entries = dir_listing b slot_ino s" "\<forall>e\<in>set entries. dentry_ok e"
    "is_parent b slot_ino s (parent_ino_of parents s)" "0 < parent_ino_of parents s" "parent_ino_of parents s < 2 ^ 32"
proof -
  note so = opened_slots [OF op] and inv = reachable_inv [OF b] and kinds = reachable_kinds [OF b]
  have live: "node_live (fb_nodes b ! s) = live_children children" using s(3) by (simp add: node_live_def)
  have kid: "c < length (fb_nodes b) \<and> slot_ino ! c \<noteq> 0" if "c \<in> set (live_children children)" for c
    using live_child(2) [OF inv s(1)] child_numbered [OF inv so(6) s(1,2)] that live by simp
  then have num: "\<forall>c\<in>set (live_children children). slot_ino ! c \<noteq> 0 \<and> slot_ino ! c < 2 ^ 32" using so(4) by blast
  show listing: "entries = dir_listing b slot_ino s"
    using dir_dentries_eq [of children slot_ino b s] s(3) d(2) kid so(1) by (simp add: dir_listing_def)
  show "\<forall>e\<in>set entries. dentry_ok e"
    using entries_packable [OF inv kinds s(1,3) num]
    by (auto simp: listing dir_listing_def s(3) lost_found_entry_def dentry_ok_def ascii_def)
  have "is_parent b slot_ino s (parent_ino_of parents s) \<and> 0 < parent_ino_of parents s \<and> parent_ino_of parents s < 2 ^ 32"
  proof (cases "s = 0")
    case True
    then show ?thesis by (simp add: is_parent_def parent_ino_of_def ROOT_INO_def)
  next
    case False
    obtain p where "p < length (fb_nodes b)" "slot_ino ! p \<noteq> 0" "s \<in> set (node_live (fb_nodes b ! p))"
      using numbered_parent [OF inv so(6) s(1,2) False] by blast
    then obtain q where "q < length (fb_nodes b)" "slot_ino ! q \<noteq> 0" "s \<in> set (node_live (fb_nodes b ! q))" "parents ! s = slot_ino ! q"
      using parent_map_holds [OF d(1) s(1)] by blast
    then show ?thesis using False so(4) lookup_live [OF inv] by (auto simp: is_parent_def parent_ino_of_def)
  qed
  then show "is_parent b slot_ino s (parent_ino_of parents s)" "0 < parent_ino_of parents s" "parent_ino_of parents s < 2 ^ 32"
    by blast+
qed

lemma opened_dir_reads:
  assumes op: "opened crc b lay fills f geo slot_ino max_ino pl" and b: "builder_reachable strict opts b"
    and s: "s < length (fb_nodes b)" "slot_ino ! s \<noteq> 0" "is_dir (fb_nodes b ! s)"
  shows "\<exists>es parent. mset es = mset (dir_listing b slot_ino s) \<and> is_parent b slot_ino s parent \<and>
    read_dir crc f (of_nat (slot_ino ! s)) =
      Inr (map dir_entry_of_dentry (dot_entries (of_nat (slot_ino ! s)) (of_nat parent) @ es))"
proof -
  obtain parents d where d: "parent_map b slot_ino = Inr parents" "dp_slot d = s"
    "dir_planned crc b slot_ino parents (fs_csum_seed f) (st_segments (pl_data pl)) (ns_rendered (pl_names pl)) d"
    "\<exists>raw. render_inode crc (fs_csum_seed f) (of_nat (slot_ino ! s)) (dir_inode_render b slot_ino (ns_xattrs (pl_names pl)) d) = Inr raw \<and>
      lay_inodes lay ! (slot_ino ! s - 1) = raw"
    using op s by (rule opened_dir_plan)
  obtain children index entries blocks where r: "n_kind (fb_nodes b ! s) = node_kind.Dir children index"
    "dir_dentries b slot_ino s children = Inr entries"
    "dir_blocks crc (slot_ino ! s) (parent_ino_of parents s) entries (opt_hash_seed (fb_opts b)) (fs_csum_seed f) = Inr blocks"
    "read_dir crc f (of_nat (slot_ino ! s)) = read_dir_blocks (needs_htree entries) 0 blocks"
    using read_planned_dir [OF op, of d parents] d(2-4) s(1,2) by blast
  note e = slot_entries [OF op b s(1,2) r(1) d(1) r(2)]
  obtain es where es: "mset es = mset entries" "read_dir_blocks (needs_htree entries) 0 blocks =
      Inr (map dir_entry_of_dentry (dot_entries (of_nat (slot_ino ! s)) (of_nat (parent_ino_of parents s)) @ es))"
    using dir_blocks_read [OF r(3) e(2)] s(2) opened_slots(4) [OF op s(1,2)] e(4,5) by auto
  have "read_dir crc f (of_nat (slot_ino ! s)) =
      Inr (map dir_entry_of_dentry (dot_entries (of_nat (slot_ino ! s)) (of_nat (parent_ino_of parents s)) @ es))"
    using r(4) es(2) by simp
  then show ?thesis using es(1) e(3) unfolding e(1) by (intro exI [of _ es] exI [of _ "parent_ino_of parents s"] conjI) simp_all
qed

section \<open>Lookup\<close>

lemma find_name:
  "map_option dir_inode (find (\<lambda>e. dir_name e = nm) (map dir_entry_of_dentry es)) = map_of (map (\<lambda>e. (fst e, fst (snd e))) es) nm"
  by (induction es) (auto simp: dir_entry_of_dentry_def split: prod.splits)

text \<open>Keys that are distinct make the order irrelevant.\<close>

lemma map_of_mset:
  assumes "mset xs = mset ys" "distinct (map fst ys)"
  shows "map_of xs = map_of ys"
proof -
  have "mset (map fst xs) = mset (map fst ys)" using assms(1) by simp
  then have "distinct (map fst xs)" using assms(2) by (metis mset_eq_imp_distinct_iff)
  moreover have "set xs = set ys" using assms(1) by (rule mset_eq_setD)
  ultimately show ?thesis using assms(2) map_of_inject_set by blast
qed

lemma opened_lookup:
  assumes op: "opened crc b lay fills f geo slot_ino max_ino pl" and b: "builder_reachable strict opts b"
    and lf: "lookup b 0 (ascii ''lost+found'') = None"
    and s: "s < length (fb_nodes b)" "slot_ino ! s \<noteq> 0" "is_dir (fb_nodes b ! s)"
    and nm: "nm \<noteq> ascii ''.''" "nm \<noteq> ascii ''..''"
  shows "fs_lookup crc f (of_nat (slot_ino ! s)) nm =
    Inr (if s = 0 \<and> nm = ascii ''lost+found'' then Some 11 else map_option (\<lambda>c. of_nat (slot_ino ! c)) (lookup b s nm))"
proof -
  obtain es parent where r: "mset es = mset (dir_listing b slot_ino s)" "read_dir crc f (of_nat (slot_ino ! s)) =
      Inr (map dir_entry_of_dentry (dot_entries (of_nat (slot_ino ! s)) (of_nat parent) @ es))"
    using opened_dir_reads [OF op b s] by blast
  obtain children index where k: "n_kind (fb_nodes b ! s) = node_kind.Dir children index"
    using s(3) by (auto simp: is_dir_def split: node_kind.splits)
  note e = dir_entries_lookup [OF reachable_inv [OF b] s(1) k, of slot_ino]
  let ?v = "\<lambda>e. (fst e, fst (snd e))"
  have dist: "distinct (map fst (map ?v (dir_listing b slot_ino s)))"
  proof -
    have "fst lost_found_entry \<notin> fst ` set (dir_entries b slot_ino children)" if "s = 0"
      proof -
      have "index (ascii ''lost+found'') = None" using lf k s(1) that by (simp add: lookup_def)
      then show ?thesis unfolding e(3) by (simp add: lost_found_entry_def dom_def)
    qed
    then show ?thesis using e(1) k by (auto simp: dir_listing_def comp_def)
  qed
  have "mset (map ?v es) = mset (map ?v (dir_listing b slot_ino s))" using r(1) by simp
  then have m: "map_of (map ?v es) = map_of (map ?v (dir_listing b slot_ino s))" using dist by (rule map_of_mset)
  have "fs_lookup crc f (of_nat (slot_ino ! s)) nm =
      Inr (map_of (map ?v (dot_entries (of_nat (slot_ino ! s)) (of_nat parent) @ es)) nm)"
    by (simp only: fs_lookup_def r(2) bindE_Inr find_name)
  also have "map_of (map ?v (dot_entries (of_nat (slot_ino ! s)) (of_nat parent) @ es)) nm = map_of (map ?v es) nm"
    using nm by (simp add: dot_entries_def map_add_def split: option.splits)
  also have "\<dots> = (if s = 0 \<and> nm = ascii ''lost+found'' then Some 11 else map_option (\<lambda>c. of_nat (slot_ino ! c)) (lookup b s nm))"
    unfolding m using e(2) [of nm] k by (simp add: dir_listing_def lost_found_entry_def)
  finally show ?thesis .
qed

section \<open>Paths\<close>

lemma opened_walk:
  assumes op: "opened crc b lay fills f geo slot_ino max_ino pl" and b: "builder_reachable strict opts b"
    and lf: "lookup b 0 (ascii ''lost+found'') = None"
  shows "d < length (fb_nodes b) \<Longrightarrow> slot_ino ! d \<noteq> 0 \<Longrightarrow> walk b d parts = Some s \<Longrightarrow>
    s < length (fb_nodes b) \<and> slot_ino ! s \<noteq> 0 \<and> resolve_parts crc f (of_nat (slot_ino ! d)) parts = Inr (of_nat (slot_ino ! s))"
proof (induction parts arbitrary: d)
  case (Cons nm parts)
  note inv = reachable_inv [OF b] and so = opened_slots [OF op]
  obtain c where c: "lookup b d nm = Some c" "walk b c parts = Some s" using Cons.prems(3) by (auto split: option.splits)
  have dir: "is_dir (fb_nodes b ! d)" using c(1) by (auto simp: lookup_def is_dir_def split: if_splits node_kind.splits)
  have valid: "name_valid nm" using lookup_valid [OF reachable_kinds [OF b] c(1)] .
  have live: "c \<in> set (node_live (fb_nodes b ! d))" using lookup_live [OF inv Cons.prems(1)] c(1) by (auto intro: ranI)
  have "\<not> (d = 0 \<and> nm = ascii ''lost+found'')" using c(1) lf by (metis option.distinct(1))
  then have "fs_lookup crc f (of_nat (slot_ino ! d)) nm = Inr (Some (of_nat (slot_ino ! c)))"
    using opened_lookup [OF op b lf Cons.prems(1,2) dir, of nm] valid c(1) by (auto simp: name_valid_def)
  moreover note Cons.IH [OF live_child(2) [OF inv Cons.prems(1) live] child_numbered [OF inv so(6) Cons.prems(1,2) live] c(2)]
  ultimately show ?case by simp
qed simp

text \<open>A last part that the builder does not have is not found.\<close>

lemma resolve_append:
  "resolve_parts crc f ino (xs @ ys) = bindE (resolve_parts crc f ino xs) (\<lambda>i. resolve_parts crc f i ys)"
proof (induction xs arbitrary: ino)
  case (Cons x xs)
  then show ?case by (auto simp: bindE_def split: sum.splits option.splits)
qed simp

lemma opened_missing:
  assumes op: "opened crc b lay fills f geo slot_ino max_ino pl" and b: "builder_reachable strict opts b"
    and lf: "lookup b 0 (ascii ''lost+found'') = None"
    and w: "walk b 0 parts = Some d" "is_dir (fb_nodes b ! d)" "lookup b d nm = None"
    and nm: "nm \<noteq> ascii ''.''" "nm \<noteq> ascii ''..''" "nm \<noteq> ascii ''lost+found''"
  shows "resolve_parts crc f (of_nat (slot_ino ! 0)) (parts @ [nm]) = Inl (Err (Io NotFound))"
proof -
  note so = opened_slots [OF op]
  have z: "0 < length (fb_nodes b)" using builder_closed(2) [OF reachable_inv [OF b]] by simp
  have n: "slot_ino ! 0 \<noteq> 0" using so(2) by simp
  note wk = opened_walk [OF op b lf z n w(1)]
  then have "fs_lookup crc f (of_nat (slot_ino ! d)) nm = Inr None"
    using opened_lookup [OF op b lf _ _ w(2) nm(1,2)] w(3) nm(3) by simp
  then show ?thesis using wk by (simp add: resolve_append)
qed

end
