(* ===== verification/SlotKinds.thy ===== *)
theory SlotKinds
  imports ReadNames
begin

text \<open>
  The other kinds of nodes of a built image: what owner, permissions, type, link count and times read
  back as, the targets of symlinks and the numbers of devices.
\<close>

section \<open>Symlinks that were given a block\<close>

definition link_planned :: "crc \<Rightarrow> nat \<Rightarrow> u32 \<Rightarrow> segment list \<Rightarrow> bytes \<Rightarrow> extent_plan option \<Rightarrow> bool" where
  "link_planned crc ino fseed segs target p \<longleftrightarrow> (\<exists>plan block a a' tsegs.
    p = Some plan \<and> alloc_wf a \<and>
    plan_extents crc [(0, \<lparr>run_start = block, run_len = 1\<rparr>)] (of_nat ino) fseed a = Inr (plan, a', tsegs) \<and>
    mset (block_seg block (poke (zeros_buf 4096) 0 target) # tsegs) \<subseteq># mset segs)"

lemma link_planned_mono:
  "link_planned crc ino fseed segs target p \<Longrightarrow> mset segs \<subseteq># mset segs' \<Longrightarrow> link_planned crc ino fseed segs' target p"
  unfolding link_planned_def by (blast intro: subset_mset.order_trans)

definition links_planned :: "crc \<Rightarrow> fs_builder \<Rightarrow> nat list \<Rightarrow> u32 \<Rightarrow> nat \<Rightarrow> names_state \<Rightarrow> bool" where
  "links_planned crc b slot_ino fseed k st \<longleftrightarrow> length (ns_symlinks st) = length (fb_nodes b) \<and>
    (\<forall>j t. j < k \<longrightarrow> slot_ino ! j \<noteq> 0 \<longrightarrow> n_kind (fb_nodes b ! j) = node_kind.Symlink t \<longrightarrow> 59 < length t \<longrightarrow>
       link_planned crc (slot_ino ! j) fseed (st_segments st) t (ns_symlinks st ! j))"

lemma links_planned_grow:
  assumes "links_planned crc b slot_ino fseed k st" "extends st st'" "ns_symlinks st' = ns_symlinks st" "k \<le> k'"
    and "\<And>j t. k \<le> j \<Longrightarrow> j < k' \<Longrightarrow> slot_ino ! j \<noteq> 0 \<Longrightarrow> n_kind (fb_nodes b ! j) = node_kind.Symlink t \<Longrightarrow> length t \<le> 59"
  shows "links_planned crc b slot_ino fseed k' st'"
proof -
  have grow: "mset (st_segments st) \<subseteq># mset (st_segments st')" using assms(2) by (auto simp: extends_def)
  have "link_planned crc (slot_ino ! j) fseed (st_segments st') t (ns_symlinks st' ! j)"
    if "j < k'" "slot_ino ! j \<noteq> 0" "n_kind (fb_nodes b ! j) = node_kind.Symlink t" "59 < length t" for j t
  proof -
    have "j < k" using assms(5) [of j t] that by force
    then have "link_planned crc (slot_ino ! j) fseed (st_segments st) t (ns_symlinks st ! j)"
      using assms(1) that unfolding links_planned_def by blast
    then show ?thesis unfolding assms(3) using link_planned_mono grow by blast
  qed
  then show ?thesis using assms(1,3) unfolding links_planned_def by auto
qed

lemma seal_xattrs_symlinks: "seal_xattrs crc b fseed slot st = Inr st' \<Longrightarrow> ns_symlinks st' = ns_symlinks st"
  using st_take_one_frame by (fastforce simp: seal_xattrs_def st_push_def bindE_eq_Inr split: option.splits if_splits)

lemma seal_directory_symlinks:
  assumes "seal_directory crc b slot_ino parents fseed slot children st = Inr st'"
  shows "ns_symlinks st' = ns_symlinks st"
proof -
  obtain runs plan bs st1 h where d: "st_dense crc (length bs) (slot_ino ! slot) fseed st = Inr ((runs, plan), st1)"
    "st' = st1\<lparr>ns_rendered := ns_rendered st1 @ zip (expand_runs runs) bs,
             ns_dirs := ns_dirs st1 @ [\<lparr>dp_slot = slot, dp_runs = runs, dp_plan = plan, dp_nblocks = length bs,
               dp_is_htree = h\<rparr>]\<rparr>"
    using assms by (auto simp: seal_directory_def Let_def bindE_eq_Inr)
  then show ?thesis using st_dense_frame [OF d(1)] by auto
qed

lemma seal_slot_links:
  assumes "links_planned crc b slot_ino fseed k st" "names_ok F U lf st" "k < length (fb_nodes b)"
    and "seal_slot crc b slot_ino parents fseed k st = Inr st'"
  shows "links_planned crc b slot_ino fseed (Suc k) st'"
proof (cases "slot_ino ! k = 0")
  case True
  then have "st' = st" using assms(4) by (simp add: seal_slot_def)
  then show ?thesis using True by (intro links_planned_grow [OF assms(1)]) (auto simp: le_less_Suc_eq)
next
  case False
  then obtain st1 where s: "seal_xattrs crc b fseed k st = Inr st1"
    "(case n_kind (fb_nodes b ! k) of
         node_kind.Dir children _ \<Rightarrow> seal_directory crc b slot_ino parents fseed k children st1
       | node_kind.Symlink target \<Rightarrow>
           if 59 < length target then seal_slow_symlink crc (slot_ino ! k) fseed k target st1 else Inr st1
       | _ \<Rightarrow> Inr st1) = Inr st'"
    using assms(4) by (auto simp: seal_slot_def Let_def bindE_eq_Inr)
  have f1: "extends st st1" "ns_symlinks st1 = ns_symlinks st"
    using seal_xattrs_frame [OF s(1)] seal_xattrs_symlinks [OF s(1)] by simp_all
  show ?thesis
  proof (cases "\<exists>t. n_kind (fb_nodes b ! k) = node_kind.Symlink t \<and> 59 < length t")
    case other: False
    then have "extends st1 st' \<and> ns_symlinks st' = ns_symlinks st1"
      using s(2) seal_directory_frame(1) seal_directory_symlinks by (auto split: node_kind.splits if_splits)
    then show ?thesis using f1 extends_trans [OF f1(1)] other
      by (intro links_planned_grow [OF assms(1)]) (auto simp: le_less_Suc_eq not_less)
  next
    case True
    then obtain t where t: "n_kind (fb_nodes b ! k) = node_kind.Symlink t" "59 < length t" by blast
    have "names_ok F U lf st1" using assms(2) s(1) by (rule seal_xattrs_ok)
    then have pl: "placed F (U + mset (expand_runs (dir_runs (ns_dirs st1)))) st1" by (simp add: names_ok_def)
    obtain block st2 plan st3 where q: "st_take_one st1 = Inr (block, st2)"
      "st_plan crc [(0, \<lparr>run_start = block, run_len = 1\<rparr>)] (slot_ino ! k) fseed
         (st_push [block_seg block (poke (zeros_buf BLOCK_SIZE) 0 t)] st2) = Inr (plan, st3)"
      "st' = st3\<lparr>ns_symlinks := (ns_symlinks st3)[k := Some plan]\<rparr>"
      using s(2) t by (auto simp: seal_slow_symlink_def Let_def bindE_eq_Inr)
    obtain a where a: "st2 = st1\<lparr>st_alloc := a\<rparr>" using st_take_one_frame [OF q(1)] by blast
    obtain a' tsegs where p: "plan_extents crc [(0, \<lparr>run_start = block, run_len = 1\<rparr>)] (of_nat (slot_ino ! k)) fseed (st_alloc st2) = Inr (plan, a', tsegs)"
      "st_segments st3 = st_segments st1 @ block_seg block (poke (zeros_buf 4096) 0 t) # tsegs" "ns_symlinks st3 = ns_symlinks st1"
      using st_plan_frame [OF q(2)] a by (auto simp: st_push_def)
    have "alloc_wf (st_alloc st2)"
      using st_take_one_placed [OF pl q(1)] by (auto simp: placed_def account_def)
    moreover have segs: "st_segments st' = st_segments st1 @ block_seg block (poke (zeros_buf 4096) 0 t) # tsegs" using q(3) p(2) by simp
    ultimately have new: "link_planned crc (slot_ino ! k) fseed (st_segments st') t (Some plan)"
      unfolding link_planned_def using p(1) by fastforce
    have ext: "extends st st'" using f1(1) segs by (auto simp: extends_def)
    then have grow: "mset (st_segments st) \<subseteq># mset (st_segments st')" by (auto simp: extends_def)
    have sym: "ns_symlinks st' = (ns_symlinks st)[k := Some plan]" using q(3) p(3) f1(2) by simp
    have len: "length (ns_symlinks st) = length (fb_nodes b)" using assms(1) by (simp add: links_planned_def)
    have "link_planned crc (slot_ino ! j) fseed (st_segments st') u (ns_symlinks st' ! j)"
      if j: "j < Suc k" "slot_ino ! j \<noteq> 0" "n_kind (fb_nodes b ! j) = node_kind.Symlink u" "59 < length u" for j u
    proof (cases "j = k")
      case True
      then show ?thesis using new t(1) j(3) sym len assms(3) by simp
    next
      case other: False
      then have "link_planned crc (slot_ino ! j) fseed (st_segments st) u (ns_symlinks st ! j)"
        using assms(1) j unfolding links_planned_def by auto
      then show ?thesis using link_planned_mono [OF _ grow] other sym by simp
    qed
    then show ?thesis using len sym unfolding links_planned_def by simp
  qed
qed

lemma place_all_links:
  assumes "place_all crc b geo fseed slot_ino = Inr pl" "geometry_wf geo"
  shows "links_planned crc b slot_ino fseed (length (fb_nodes b)) (pl_names pl)"
    "mset (st_segments (pl_names pl)) \<subseteq># mset (st_segments (pl_data pl))"
proof -
  show "mset (st_segments (pl_names pl)) \<subseteq># mset (st_segments (pl_data pl))" using place_all_dirs [OF assms] by blast
  from assms show "links_planned crc b slot_ino fseed (length (fb_nodes b)) (pl_names pl)"
  proof (rule place_all_phases, goal_cases)
    case (1 a st2 lfb parents)
    let ?n = "length (fb_nodes b)"
    let ?P = "\<lambda>k st. links_planned crc b slot_ino fseed k st \<and> names_ok (alloc_free a)
      (mset (expand_runs (fst (pl_journal pl))) + mset (expand_runs (fst (pl_lost_found pl)))) (expand_runs (fst (pl_lost_found pl))) st"
    have "?P ?n (pl_names pl)"
      using 1(4)
    proof (rule foldE_upt_inv [where P = ?P])
      show "?P 0 (names_start b (fst (pl_lost_found pl)) lfb st2)"
        using 1(6) by (simp add: links_planned_def names_start_def)
      fix k st st' assume k: "k < ?n" "?P k st" "seal_slot crc b slot_ino parents fseed k st = Inr st'"
      from k(2) show "?P (Suc k) st'"
        by (elim conjE, intro conjI) (rule seal_slot_links [OF _ _ k(1,3)] seal_slot_ok [OF _ k(3)], assumption+)+
    qed
    then show ?case by blast
  qed
qed

section \<open>Modes, owners, times\<close>

lemma mode_parts:
  "drop_bit 12 (push_bit 12 t OR (m AND 0xFFF) :: u16) = drop_bit 12 (push_bit 12 t)"
  "(push_bit 12 t OR (m AND 0xFFF) :: u16) AND 0xFFF = m AND 0xFFF"
proof -
  have m: "(0xFFF :: u16) = mask 12" by (simp add: mask_eq_exp_minus_1)
  have "drop_bit 12 (m AND mask 12 :: u16) = 0" by (rule bit_word_eqI) (auto simp: bit_simps)
  then show "drop_bit 12 (push_bit 12 t OR (m AND 0xFFF) :: u16) = drop_bit 12 (push_bit 12 t)" unfolding m by (simp add: drop_bit_or)
  show "(push_bit 12 t OR (m AND 0xFFF) :: u16) AND 0xFFF = m AND 0xFFF"
    unfolding m by (rule bit_word_eqI) (auto simp: bit_simps)
qed

definition kind_type :: "node_kind \<Rightarrow> file_type" where
  "kind_type k = (case k of
     node_kind.Dir _ _ \<Rightarrow> Dir | File _ \<Rightarrow> Regular | Sparse _ _ \<Rightarrow> Regular | node_kind.Symlink _ \<Rightarrow> Symlink
   | Special ft _ _ \<Rightarrow> if ft = ft_CHR then CharDev else if ft = ft_BLK then BlockDev
       else if ft = ft_FIFO then Fifo else Socket)"

lemma type_of_kind:
  assumes "kind_ok k" "i_mode i = type_bits (kind_ftype k) OR (m AND 0xFFF)"
  shows "inode_file_type i = kind_type k" "i_mode i AND 0xFFF = m AND 0xFFF"
proof -
  show "i_mode i AND 0xFFF = m AND 0xFFF" unfolding assms(2) type_bits_def by (rule mode_parts)
  have "drop_bit 12 (i_mode i) = drop_bit 12 (type_bits (kind_ftype k))"
    unfolding assms(2) type_bits_def by (rule mode_parts)
  then show "inode_file_type i = kind_type k"
    using assms(1)
    by (cases k) (auto simp: inode_file_type_def kind_type_def kind_ftype_def type_bits_def kind_ok_def)
qed

text \<open>A time the encoding can hold.\<close>

definition time_ok :: "timespec \<Rightarrow> bool" where
  "time_ok t \<longleftrightarrow> - (2 ^ 31) \<le> fst t \<and> fst t < 3 * 2 ^ 32 + 2 ^ 31 \<and> unat (snd t) < 2 ^ 30"

lemma time_reads: "encode_timespec t = Inr (s, e) \<Longrightarrow> time_ok t \<Longrightarrow> timestamp s e = t"
  using timestamp_encode [of "fst t" "snd t"] by (auto simp: encode_timespec_def time_ok_def)

text \<open>The link count of a directory is one when it has too many subdirectories for the field.\<close>

definition slot_links :: "fs_builder \<Rightarrow> nat list \<Rightarrow> nat \<Rightarrow> nat" where
  "slot_links b slot_ino s =
    (if is_dir (fb_nodes b ! s) then
       let n = 2 + subdir_count b slot_ino s + (if s = 0 then 1 else 0) in if n > 65000 then 1 else n
     else n_nlink (fb_nodes b ! s))"

text \<open>What an inode says of the node it was rendered from.\<close>

definition describes :: "fs_builder \<Rightarrow> nat list \<Rightarrow> nat \<Rightarrow> inode \<Rightarrow> bool" where
  "describes b slot_ino s i \<longleftrightarrow> (let n = fb_nodes b ! s; m = n_meta n in
    inode_file_type i = kind_type (n_kind n) \<and> i_mode i AND 0xFFF = m_mode m AND 0xFFF \<and> i_uid i = m_uid m \<and> i_gid i = m_gid m \<and>
    i_links_count i = of_nat (slot_links b slot_ino s) \<and>
    (time_ok (m_mtime m) \<longrightarrow> timestamp (i_mtime i) (i_mtime_extra i) = m_mtime m) \<and>
    (time_ok (or_mtime m (m_atime m)) \<longrightarrow> timestamp (i_atime i) (i_atime_extra i) = or_mtime m (m_atime m)) \<and>
    (time_ok (or_mtime m (m_ctime m)) \<longrightarrow> timestamp (i_ctime i) (i_ctime_extra i) = or_mtime m (m_ctime m)) \<and>
    (time_ok (or_mtime m (m_crtime m)) \<longrightarrow> timestamp (i_crtime i) (i_crtime_extra i) = or_mtime m (m_crtime m)))"

lemma rendered_describes:
  assumes "inode_of_render r = Inr i" "kind_ok (n_kind (fb_nodes b ! s))"
    and "ir_meta r = n_meta (fb_nodes b ! s)" "ir_ftype r = kind_ftype (n_kind (fb_nodes b ! s))"
    and "is_dir (fb_nodes b ! s) \<Longrightarrow> ir_nlink r = 2 + subdir_count b slot_ino s + (if s = 0 then 1 else 0)"
    and "\<not> is_dir (fb_nodes b ! s) \<Longrightarrow> ir_nlink r = n_nlink (fb_nodes b ! s)"
  shows "describes b slot_ino s (i\<lparr>i_checksum := c\<rparr>)"
proof -
  let ?k = "n_kind (fb_nodes b ! s)" and ?m = "n_meta (fb_nodes b ! s)"
  have f: "i_mode i = type_bits (ir_ftype r) OR (m_mode ?m AND 0xFFF)" "i_uid i = m_uid ?m" "i_gid i = m_gid ?m"
    "i_links_count i = of_nat (if ir_ftype r = ft_DIR \<and> ir_nlink r > unat LINK_MAX then 1 else ir_nlink r)"
    "encode_timespec (m_mtime ?m) = Inr (i_mtime i, i_mtime_extra i)"
    "encode_timespec (or_mtime ?m (m_atime ?m)) = Inr (i_atime i, i_atime_extra i)"
    "encode_timespec (or_mtime ?m (m_ctime ?m)) = Inr (i_ctime i, i_ctime_extra i)"
    "encode_timespec (or_mtime ?m (m_crtime ?m)) = Inr (i_crtime i, i_crtime_extra i)"
    using assms(1,3) by (auto simp: inode_of_render_def Let_def bindE_eq_Inr)
  have dir: "ir_ftype r = ft_DIR \<longleftrightarrow> is_dir (fb_nodes b ! s)"
    using assms(2,4) by (cases ?k) (auto simp: kind_ftype_def is_dir_def kind_ok_def)
  have "i_links_count i = of_nat (slot_links b slot_ino s)"
    using f(4) assms(5,6) dir by (simp add: slot_links_def Let_def)
  moreover note type_of_kind [OF assms(2), of "i\<lparr>i_checksum := c\<rparr>" "m_mode ?m"]
  ultimately show ?thesis
    using f time_reads assms(4) unfolding describes_def Let_def by simp
qed

section \<open>Inodes without extents\<close>

lemma plain_wf:
  assumes "inode_of_render r = Inr i" "length (ir_block r) = 60"
    and "ir_blocks512 r = of_nat n" "n < 2 ^ 48" "ir_file_acl r = of_nat acl" "acl < 2 ^ 32"
    and "ir_ibody r = [] \<or> length (ir_ibody r) = 96 \<and> (\<exists>x\<in>set (ir_ibody r). x \<noteq> 0)"
  shows "inode_wf i"
proof -
  note f = inode_of_render_fields [OF assms(1)]
  have "unat (i_blocks i) < 2 ^ 48" "unat (i_file_acl i) < 2 ^ 48"
    using f(2,5) assms(3-6) of_nat_bound [of n] of_nat_bound [of acl] by simp_all
  then show ?thesis using f assms(2,7) by (simp add: inode_wf_def)
qed

lemma bit_below: "unat (w :: u32) < 2 ^ k \<Longrightarrow> bit w n \<Longrightarrow> n < k"
proof -
  assume b: "unat w < 2 ^ k" "bit w n"
  have "take_bit k (unat w) = unat w" using b(1) by (simp add: take_bit_nat_eq_self)
  then have "bit (take_bit k (unat w)) n" using b(2) by (simp add: bit_unsigned_iff)
  then show "n < k" by (simp add: bit_take_bit_iff)
qed

lemma old_device_bits:
  assumes "unat (major :: u32) < 2 ^ 8" "unat (minor :: u32) < 2 ^ 8"
  shows "drop_bit 8 (push_bit 8 major OR minor) AND 0xFF = major" "(push_bit 8 major OR minor) AND 0xFF = minor"
proof -
  have m: "(0xFF :: u32) = mask 8" by (simp add: mask_eq_exp_minus_1)
  note b = bit_below [OF assms(1)] bit_below [OF assms(2)]
  show "drop_bit 8 (push_bit 8 major OR minor) AND 0xFF = major"
    unfolding m by (rule bit_word_eqI) (use b in \<open>auto simp: bit_simps dest: b\<close>)
  show "(push_bit 8 major OR minor) AND 0xFF = minor"
    unfolding m by (rule bit_word_eqI) (use b in \<open>auto simp: bit_simps dest: b\<close>)
qed

lemma new_device_bits:
  assumes "unat (major :: u32) < 2 ^ 12" "unat (minor :: u32) < 2 ^ 20"
  defines "w \<equiv> (minor AND 0xFF) OR push_bit 8 major OR push_bit 12 (minor AND NOT 0xFF)"
  shows "drop_bit 8 w AND 0xFFF = major" "(w AND 0xFF) OR (drop_bit 12 w AND NOT 0xFF) = minor"
proof -
  have m: "(0xFF :: u32) = mask 8" "(0xFFF :: u32) = mask 12" by (simp_all add: mask_eq_exp_minus_1)
  have b: "bit major n \<Longrightarrow> n < 12" "bit minor n \<Longrightarrow> n < 20" for n using bit_below assms(1,2) by blast+
  show "drop_bit 8 w AND 0xFFF = major"
    unfolding m w_def by (rule bit_word_eqI) (auto simp: bit_simps dest: b)
  show "(w AND 0xFF) OR (drop_bit 12 w AND NOT 0xFF) = minor"
    unfolding m w_def by (rule bit_word_eqI) (auto simp: bit_simps dest: b)
qed

lemma device_reads:
  assumes "ft = ft_CHR \<or> ft = ft_BLK" "major \<le> 0xFFF" "minor \<le> 0xFFFFF"
    and "i_block i = device_block ft major minor" "inode_file_type i = (if ft = ft_CHR then CharDev else BlockDev)"
  shows "dev_numbers i = Some (major, minor)"
proof (cases "major < 256 \<and> minor < 256")
  case True
  have le: "le32 (put_u32 (zeros_buf 60) 0 w) 0 = w" "le32 (put_u32 (zeros_buf 60) 0 w) 4 = 0" for w by (simp_all add: buf_simps)
  let ?w = "push_bit 8 major OR minor"
  have "unat major < 2 ^ 8" "unat minor < 2 ^ 8" using True by (simp_all add: word_less_nat_alt)
  note bits = old_device_bits [OF this]
  have z: "major = 0 \<and> minor = 0" if "?w = 0"
    using bits unfolding that by simp
  show ?thesis
    using assms(1,4,5) True bits z by (auto simp: dev_numbers_def device_block_def Let_def le)
next
  case False
  have le: "le32 (put_u32 (zeros_buf 60) 4 w) 4 = w" "le32 (put_u32 (zeros_buf 60) 4 w) 0 = 0" for w by (simp_all add: buf_simps)
  have "unat major < 2 ^ 12" "unat minor < 2 ^ 20" using assms(2,3) by (simp_all add: word_le_nat_alt)
  note bits = new_device_bits [OF this]
  show ?thesis
    using assms(1,4,5) False bits by (auto simp: dev_numbers_def device_block_def Let_def le)
qed

end
