(* ===== verification/ReadSlots.thy ===== *)
theory ReadSlots
  imports SlotKinds
begin

text \<open>
  Every node in use of a built image, as the reader sees it: its inode describes the node, a symlink
  gives its target, a device its numbers.
\<close>

section \<open>Blocks as bytes\<close>

lemma slice_bytes:
  assumes "read_at (slice_source img) off n = Inr bs"
  shows "off + n \<le> length img" "p < n \<Longrightarrow> img ! (off + p) = bs ! p"
  using assms by (auto simp: read_at_def slice_source_def peek_def split: if_splits)

lemma one_block_bytes:
  assumes op: "opened crc b lay fills f geo slot_ino max_ino pl" and r: "read_block f block = Inr bs"
  shows "block < geo_blocks geo" "p < 4096 \<Longrightarrow> image_bytes lay fills ! (block * 4096 + p) = bs ! p"
proof -
  note h = opened_handle [OF op]
  have rd: "read_at (slice_source (image_bytes lay fills)) (block * 4096) 4096 = Inr bs"
    using r h(3) fs_wf_simps(2) [OF h(2)] by (auto simp: read_block_def mul64_def bindE_eq_Inr split: if_splits)
  have "block * 4096 + 4096 \<le> geo_blocks geo * 4096" using slice_bytes(1) [OF rd] h(6) by simp
  then show "block < geo_blocks geo" by simp
  show "p < 4096 \<Longrightarrow> image_bytes lay fills ! (block * 4096 + p) = bs ! p" using slice_bytes(2) [OF rd] by simp
qed

section \<open>Symlinks\<close>

lemma fast_link_reads:
  assumes "inode_of_render (render_fast_symlink m nlink t x) = Inr i" "length t \<le> 59" "inode_file_type (i\<lparr>i_checksum := c\<rparr>) = Symlink"
    and "read_inode crc f ino = Inr (i\<lparr>i_checksum := c\<rparr>)"
  shows "symlink_target crc f ino = Inr t"
proof -
  note fs = inode_of_render_fields [OF assms(1)]
  have size: "unat (i_size i) = length t" "i_size i \<le> 60"
    using fs(1) assms(2) by (simp_all add: render_fast_symlink_def unat_of_nat word_le_nat_alt)
  have "i_flags i = 0" "i_block i = poke (zeros_buf 60) 0 t"
    using fs(3,4) by (simp_all add: render_fast_symlink_def inode_render_plain_def)
  then have "fast_symlink_target (i\<lparr>i_checksum := c\<rparr>) = Some t"
    using size assms(2,3) by (simp add: fast_symlink_target_def inode_uses_extents_def poke_def)
  then show ?thesis using assms(4) by (simp add: symlink_target_def)
qed

lemma slow_link_reads:
  assumes op: "opened crc b lay fills f geo slot_ino max_ino pl"
    and p: "alloc_wf a" "plan_extents crc [(0, \<lparr>run_start = block, run_len = 1\<rparr>)] (of_nat ino) (fs_csum_seed f) a = Inr (plan, a', tsegs)"
      "served f (block_seg block (poke (zeros_buf 4096) 0 t) # tsegs)"
    and i: "inode_of_render (render_slow_symlink m nlink t plan x) = Inr i" "length t \<le> 4095"
      "read_inode crc f (of_nat ino) = Inr (i\<lparr>i_checksum := c\<rparr>)"
  shows "symlink_target crc f (of_nat ino) = Inr t"
proof -
  note h = opened_handle [OF op] and fs = inode_of_render_fields [OF i(1)]
  let ?i = "i\<lparr>i_checksum := c\<rparr>" and ?xs = "[(0, \<lparr>run_start = block, run_len = 1\<rparr>)]"
  have bs: "fs_block_size f = 4096" using fs_wf_simps(2) [OF h(2)] .
  have fields: "i_size i = of_nat (length t)" "i_flags i = iflags_EXTENTS" "i_block i = ep_root plan" "i_generation i = 0"
    using fs by (simp_all add: render_slow_symlink_def inode_render_plain_def)
  have size: "unat (i_size i) = length t" using fields(1) i(2) by (simp add: unat_of_nat)
  have rb: "read_block f block = Inr (poke (zeros_buf 4096) 0 t)"
    using p(3) by (simp add: served_def block_seg_def seg_bytes_def)
  note bb = one_block_bytes [OF op rb]
  have ok: "\<forall>x\<in>set (plan_exts ?xs). ext_ok x" using bb(1) h(8) by (simp add: plan_exts_def ext_ok_def)
  have sv: "served f tsegs" using p(3) by (simp add: served_def)
  have gen: "i_generation ?i = 0" using fields(4) by simp
  have "walk_extent_node crc f (of_nat ino) ?i (ep_root plan) None = Inr (map fx_of (plan_exts ?xs))"
    by (rule plan_extents_reads [OF p(1,2) ok sv gen])
  moreover have "extent_root ?i = Some (ep_root plan)"
    using fields plan_root [OF p(1,2)] by (simp add: extent_root_def inode_uses_extents_def)
  ultimately have ex: "fs_extents crc f (of_nat ino) ?i = Inr (map fx_of (plan_exts ?xs))" by (simp add: fs_extents_def)
  have one: "map fx_of (plan_exts ?xs) = [\<lparr>fx_logical = 0, fx_physical = block, fx_len = 1, fx_unwritten = False\<rparr>]"
    by (simp add: plan_exts_def fx_of_def)
  have inside: "extents_inside (image_len lay) (map fx_of (plan_exts ?xs))"
    using bb(1) h(6) unfolding one by (simp add: extents_inside_def)
  have src: "source_serves (fs_src f) ((!) (image_bytes lay fills)) (image_len lay)" "image_len lay \<le> 2 ^ 63"
    using slice_serves [of "image_bytes lay fills"] h(3,6,8) by simp_all
  have sorted: "extents_sorted (map fx_of (plan_exts ?xs))" unfolding one by (simp add: extents_sorted_def)
  have "read_file_at f ?i (map fx_of (plan_exts ?xs)) 0 (unat (i_size ?i)) =
      Inr (map (file_byte ((!) (image_bytes lay fills)) (map fx_of (plan_exts ?xs))) [0..<length t])"
    using read_file_at_content [OF h(2) src sorted inside, of ?i 0 "unat (i_size ?i)"] size by simp
  moreover have "file_byte ((!) (image_bytes lay fills)) (map fx_of (plan_exts ?xs)) k = t ! k" if k: "k < length t" for k
  proof -
    have "file_byte ((!) (image_bytes lay fills)) (map fx_of (plan_exts ?xs)) k = image_bytes lay fills ! (block * 4096 + k)"
      using k i(2) unfolding one by (simp add: file_byte_def file_block_def)
    also have "\<dots> = t ! k" using bb(2) [of k] k i(2) by (simp add: poke_def nth_append)
    finally show ?thesis .
  qed
  then have "map (file_byte ((!) (image_bytes lay fills)) (map fx_of (plan_exts ?xs))) [0..<length t] = t"
    by (intro nth_equalityI) simp_all
  moreover have "mul64 (unat (s_blocks_count (fs_sb f))) (fs_block_size f) = Inr (geo_blocks geo * 4096)" "4096 \<le> geo_blocks geo * 4096"
    using h(5,8) bb(1) bs by (simp_all add: mul64_def unat_of_nat)
  ultimately have "read_file crc f (of_nat ino) = Inr t"
    using i(2,3) ex size by (simp add: read_file_def guardE_def)
  moreover have "fast_symlink_target ?i = None" using fields by (simp add: fast_symlink_target_def inode_uses_extents_def)
  ultimately show ?thesis using i(2,3) size bs by (simp add: symlink_target_def)
qed

section \<open>Slots\<close>

text \<open>The attribute fields of an inode: the block and the area that the names phase chose.\<close>

definition carries :: "nat \<times> bytes \<Rightarrow> inode \<Rightarrow> bool" where
  "carries x i \<longleftrightarrow> i_extra_isize i = 32 \<and> i_file_acl i = of_nat (fst x) \<and> i_ibody i = snd x"

lemma rendered_carries:
  "inode_of_render r = Inr i \<Longrightarrow> ir_file_acl r = of_nat (fst x) \<Longrightarrow> ir_ibody r = snd x \<Longrightarrow> carries x (i\<lparr>i_checksum := c\<rparr>)"
  using inode_of_render_fields [of r i] by (simp add: carries_def)

text \<open>A slot that is not a directory, once its rendering is known to make a well-formed inode.\<close>

lemma slot_describes:
  assumes op: "opened crc b lay fills f geo slot_ino max_ino pl" and b: "builder_reachable strict opts b"
    and s: "s < length (fb_nodes b)" "slot_ino ! s \<noteq> 0" "\<not> is_dir (fb_nodes b ! s)"
    and r: "\<And>rr. node_render (fb_nodes b ! s) (ds_file_plans (pl_data pl) ! s) (ns_symlinks (pl_names pl) ! s)
        (ns_xattrs (pl_names pl) ! s) = Inr rr \<Longrightarrow> rr = Some r"
      "ir_meta r = n_meta (fb_nodes b ! s)" "ir_ftype r = kind_ftype (n_kind (fb_nodes b ! s))" "ir_nlink r = n_nlink (fb_nodes b ! s)"
    and wf: "length (ir_block r) = 60" "ir_blocks512 r = of_nat (n + acl_512 (fst (ns_xattrs (pl_names pl) ! s)))" "n < 2 ^ 40"
      "ir_file_acl r = of_nat (fst (ns_xattrs (pl_names pl) ! s))" "ir_ibody r = snd (ns_xattrs (pl_names pl) ! s)"
  shows "\<exists>i c. inode_of_render r = Inr i \<and> read_inode crc f (of_nat (slot_ino ! s)) = Inr (i\<lparr>i_checksum := c\<rparr>) \<and>
    describes b slot_ino s (i\<lparr>i_checksum := c\<rparr>) \<and> carries (ns_xattrs (pl_names pl) ! s) (i\<lparr>i_checksum := c\<rparr>)"
proof -
  note h = opened_handle [OF op] and sl = opened_seal [OF op]
  note acl = acl_below [OF sl(1) h(7) s(1)]
  have a: "fst (ns_xattrs (pl_names pl) ! s) < 2 ^ 32" using acl(1) h(8) by simp
  have "n + acl_512 (fst (ns_xattrs (pl_names pl) ! s)) < 2 ^ 48" using wf(3) by (simp add: acl_512_def)
  then have "inode_wf i" if "inode_of_render r = Inr i" for i
    using plain_wf [OF that wf(1,2) _ wf(4) a] acl(2) wf(5) by simp
  note w = this
  obtain i c where i: "inode_of_render r = Inr i" "read_inode crc f (of_nat (slot_ino ! s)) = Inr (i\<lparr>i_checksum := c\<rparr>)"
    using read_slot_inode [OF op s(1,2) r(1) w] by blast
  have "kind_ok (n_kind (fb_nodes b ! s))" using reachable_kinds [OF b] s(1) by (simp add: kinds_all_def)
  then have "describes b slot_ino s (i\<lparr>i_checksum := c\<rparr>)"
    using rendered_describes [OF i(1) _ r(2,3)] r(4) s(3) by blast
  moreover have "carries (ns_xattrs (pl_names pl) ! s) (i\<lparr>i_checksum := c\<rparr>)" using i(1) wf(4,5) by (rule rendered_carries)
  ultimately show ?thesis using i by blast
qed

lemma fast_link_slot:
  assumes op: "opened crc b lay fills f geo slot_ino max_ino pl" and b: "builder_reachable strict opts b"
    and s: "s < length (fb_nodes b)" "slot_ino ! s \<noteq> 0" "n_kind (fb_nodes b ! s) = node_kind.Symlink t" "length t \<le> 59"
  obtains i c where
    "inode_of_render (render_fast_symlink (n_meta (fb_nodes b ! s)) (n_nlink (fb_nodes b ! s)) t (ns_xattrs (pl_names pl) ! s)) = Inr i"
    "read_inode crc f (of_nat (slot_ino ! s)) = Inr (i\<lparr>i_checksum := c\<rparr>)" "describes b slot_ino s (i\<lparr>i_checksum := c\<rparr>)"
    "carries (ns_xattrs (pl_names pl) ! s) (i\<lparr>i_checksum := c\<rparr>)"
proof -
  let ?n = "fb_nodes b ! s" and ?x = "ns_xattrs (pl_names pl) ! s"
  let ?r = "render_fast_symlink (n_meta ?n) (n_nlink ?n) t ?x"
  have nd: "\<not> is_dir ?n" using s(3) by (simp add: is_dir_def)
  have rr: "rr = Some ?r" if "node_render ?n (ds_file_plans (pl_data pl) ! s) (ns_symlinks (pl_names pl) ! s) ?x = Inr rr" for rr
    using that s(3,4) by (simp add: node_render_def Let_def)
  have "\<exists>i c. inode_of_render ?r = Inr i \<and> read_inode crc f (of_nat (slot_ino ! s)) = Inr (i\<lparr>i_checksum := c\<rparr>) \<and>
      describes b slot_ino s (i\<lparr>i_checksum := c\<rparr>) \<and> carries ?x (i\<lparr>i_checksum := c\<rparr>)"
    by (rule slot_describes [OF op b s(1,2) nd rr, where n = 0])
      (use s(3,4) in \<open>simp_all add: render_fast_symlink_def inode_render_plain_def kind_ftype_def poke_def\<close>)
  then show thesis using that by blast
qed

lemma slow_link_slot:
  assumes op: "opened crc b lay fills f geo slot_ino max_ino pl" and b: "builder_reachable strict opts b"
    and s: "s < length (fb_nodes b)" "slot_ino ! s \<noteq> 0" "n_kind (fb_nodes b ! s) = node_kind.Symlink t" "\<not> length t \<le> 59"
  obtains plan block a a' tsegs i c where "alloc_wf a"
    "plan_extents crc [(0, \<lparr>run_start = block, run_len = 1\<rparr>)] (of_nat (slot_ino ! s)) (fs_csum_seed f) a = Inr (plan, a', tsegs)"
    "served f (block_seg block (poke (zeros_buf 4096) 0 t) # tsegs)"
    "inode_of_render (render_slow_symlink (n_meta (fb_nodes b ! s)) (n_nlink (fb_nodes b ! s)) t plan (ns_xattrs (pl_names pl) ! s)) = Inr i"
    "read_inode crc f (of_nat (slot_ino ! s)) = Inr (i\<lparr>i_checksum := c\<rparr>)" "describes b slot_ino s (i\<lparr>i_checksum := c\<rparr>)"
    "carries (ns_xattrs (pl_names pl) ! s) (i\<lparr>i_checksum := c\<rparr>)"
proof -
  note h = opened_handle [OF op] and sl = opened_seal [OF op]
  let ?n = "fb_nodes b ! s" and ?x = "ns_xattrs (pl_names pl) ! s"
  have nd: "\<not> is_dir ?n" using s(3) by (simp add: is_dir_def)
  have lp: "links_planned crc b slot_ino (fs_csum_seed f) (length (fb_nodes b)) (pl_names pl)"
    and seg: "mset (st_segments (pl_names pl)) \<subseteq># mset (st_segments (pl_data pl))"
    using place_all_links [OF sl(1) h(7)] by blast+
  have "link_planned crc (slot_ino ! s) (fs_csum_seed f) (st_segments (pl_names pl)) t (ns_symlinks (pl_names pl) ! s)"
    using lp s unfolding links_planned_def by simp
  then obtain plan block a a' tsegs where p: "ns_symlinks (pl_names pl) ! s = Some plan" "alloc_wf a"
    "plan_extents crc [(0, \<lparr>run_start = block, run_len = 1\<rparr>)] (of_nat (slot_ino ! s)) (fs_csum_seed f) a = Inr (plan, a', tsegs)"
    "mset (block_seg block (poke (zeros_buf 4096) 0 t) # tsegs) \<subseteq># mset (st_segments (pl_names pl))"
    unfolding link_planned_def by blast
  have sub: "mset (block_seg block (poke (zeros_buf 4096) 0 t) # tsegs) \<subseteq># mset (st_segments (pl_data pl))"
    using p(4) seg by (rule subset_mset.order_trans)
  have sv: "served f (block_seg block (poke (zeros_buf 4096) 0 t) # tsegs)"
    using sl(3) set_mset_mono [OF sub] by (auto simp: served_def)
  have root: "length (ep_root plan) = 60" "ep_tree_blocks plan = 8 * length tsegs" using plan_root [OF p(2,3)] by simp_all
  have "length tsegs < 2 ^ 32" using size_mset_mono [OF sub] sl(4) h(8) by simp
  then have n: "8 + ep_tree_blocks plan < 2 ^ 40" using root(2) by simp
  let ?r = "render_slow_symlink (n_meta ?n) (n_nlink ?n) t plan ?x"
  have rr: "rr = Some ?r" if "node_render ?n (ds_file_plans (pl_data pl) ! s) (ns_symlinks (pl_names pl) ! s) ?x = Inr rr" for rr
    using that s(3,4) p(1) by (simp add: node_render_def Let_def)
  have "\<exists>i c. inode_of_render ?r = Inr i \<and> read_inode crc f (of_nat (slot_ino ! s)) = Inr (i\<lparr>i_checksum := c\<rparr>) \<and>
      describes b slot_ino s (i\<lparr>i_checksum := c\<rparr>) \<and> carries ?x (i\<lparr>i_checksum := c\<rparr>)"
    by (rule slot_describes [OF op b s(1,2) nd rr _ _ _ _ _ n])
      (use root(1) s(3) in \<open>simp_all add: render_slow_symlink_def inode_render_plain_def kind_ftype_def\<close>)
  then show thesis using that p(2,3) sv by blast
qed

lemma link_slot_reads:
  assumes op: "opened crc b lay fills f geo slot_ino max_ino pl" and b: "builder_reachable strict opts b"
    and s: "s < length (fb_nodes b)" "slot_ino ! s \<noteq> 0" "n_kind (fb_nodes b ! s) = node_kind.Symlink t"
  shows "\<exists>i. read_inode crc f (of_nat (slot_ino ! s)) = Inr i \<and> describes b slot_ino s i \<and>
    carries (ns_xattrs (pl_names pl) ! s) i \<and> symlink_target crc f (of_nat (slot_ino ! s)) = Inr t"
proof -
  have "kind_ok (n_kind (fb_nodes b ! s))" using reachable_kinds [OF b] s(1) by (simp add: kinds_all_def)
  then have t: "length t \<le> 4095" using s(3) by (simp add: kind_ok_def)
  show ?thesis
  proof (cases "length t \<le> 59")
    case True
    show ?thesis
    proof (rule fast_link_slot [OF op b s True], goal_cases)
      case (1 i c)
      then have "inode_file_type (i\<lparr>i_checksum := c\<rparr>) = Symlink" using s(3) by (simp add: describes_def kind_type_def Let_def)
      then show ?case using fast_link_reads [OF 1(1) True _ 1(2)] 1(2-4) by blast
    qed
  next
    case False
    show ?thesis
    proof (rule slow_link_slot [OF op b s False], goal_cases)
      case (1 plan block a a' tsegs i c)
      show ?case using slow_link_reads [OF op 1(1-4) t 1(5)] 1(5-7) by blast
    qed
  qed
qed

lemma special_slot:
  assumes op: "opened crc b lay fills f geo slot_ino max_ino pl" and b: "builder_reachable strict opts b"
    and s: "s < length (fb_nodes b)" "slot_ino ! s \<noteq> 0" "n_kind (fb_nodes b ! s) = Special ft major minor"
  obtains i c where
    "inode_of_render (render_special (n_meta (fb_nodes b ! s)) (n_nlink (fb_nodes b ! s)) ft major minor (ns_xattrs (pl_names pl) ! s)) = Inr i"
    "read_inode crc f (of_nat (slot_ino ! s)) = Inr (i\<lparr>i_checksum := c\<rparr>)" "describes b slot_ino s (i\<lparr>i_checksum := c\<rparr>)"
    "carries (ns_xattrs (pl_names pl) ! s) (i\<lparr>i_checksum := c\<rparr>)"
proof -
  let ?n = "fb_nodes b ! s" and ?x = "ns_xattrs (pl_names pl) ! s"
  let ?r = "render_special (n_meta ?n) (n_nlink ?n) ft major minor ?x"
  have nd: "\<not> is_dir ?n" using s(3) by (simp add: is_dir_def)
  have rr: "rr = Some ?r" if "node_render ?n (ds_file_plans (pl_data pl) ! s) (ns_symlinks (pl_names pl) ! s) ?x = Inr rr" for rr
    using that s(3) by (simp add: node_render_def Let_def)
  have "\<exists>i c. inode_of_render ?r = Inr i \<and> read_inode crc f (of_nat (slot_ino ! s)) = Inr (i\<lparr>i_checksum := c\<rparr>) \<and>
      describes b slot_ino s (i\<lparr>i_checksum := c\<rparr>) \<and> carries ?x (i\<lparr>i_checksum := c\<rparr>)"
    by (rule slot_describes [OF op b s(1,2) nd rr, where n = 0])
      (use s(3) in \<open>simp_all add: render_special_def inode_render_plain_def kind_ftype_def device_block_def\<close>)
  then show thesis using that by blast
qed

lemma special_slot_reads:
  assumes op: "opened crc b lay fills f geo slot_ino max_ino pl" and b: "builder_reachable strict opts b"
    and s: "s < length (fb_nodes b)" "slot_ino ! s \<noteq> 0" "n_kind (fb_nodes b ! s) = Special ft major minor"
  shows "\<exists>i. read_inode crc f (of_nat (slot_ino ! s)) = Inr i \<and> describes b slot_ino s i \<and>
    carries (ns_xattrs (pl_names pl) ! s) i \<and> (ft = ft_CHR \<or> ft = ft_BLK \<longrightarrow> dev_numbers i = Some (major, minor))"
proof (rule special_slot [OF op b s], goal_cases)
  case i: (1 i c)
  have ok: "kind_ok (n_kind (fb_nodes b ! s))" using reachable_kinds [OF b] s(1) by (simp add: kinds_all_def)
  have "dev_numbers (i\<lparr>i_checksum := c\<rparr>) = Some (major, minor)" if "ft = ft_CHR \<or> ft = ft_BLK"
  proof (rule device_reads [OF that])
    show "major \<le> 0xFFF" "minor \<le> 0xFFFFF" using ok s(3) by (simp_all add: kind_ok_def)
    show "i_block (i\<lparr>i_checksum := c\<rparr>) = device_block ft major minor"
      using inode_of_render_fields(4) [OF i(1)] by (simp add: render_special_def)
    show "inode_file_type (i\<lparr>i_checksum := c\<rparr>) = (if ft = ft_CHR then CharDev else BlockDev)"
      using i(3) s(3) that by (auto simp: describes_def kind_type_def Let_def)
  qed
  then show ?case using i(2-4) by blast
qed

lemma file_slot_reads:
  assumes op: "opened crc b lay fills f geo slot_ino max_ino pl" and b: "builder_reachable strict opts b"
    and s: "s < length (fb_nodes b)" "slot_ino ! s \<noteq> 0" "declared (n_kind (fb_nodes b ! s)) = Some (segs, sz)" "sz \<le> image_len lay"
  shows "\<exists>i. read_inode crc f (of_nat (slot_ino ! s)) = Inr i \<and> describes b slot_ino s i \<and>
    carries (ns_xattrs (pl_names pl) ! s) i \<and> i_size i = of_nat sz"
proof -
  note h = opened_handle [OF op]
  have ok: "kind_ok (n_kind (fb_nodes b ! s))" using reachable_kinds [OF b] s(1) by (simp add: kinds_all_def)
  have "sz \<le> 2 ^ 44" using s(4) h(6,8) by simp
  note sp = declared_spaced(1) [OF ok s(3) this]
  show ?thesis
  proof (rule file_slot_render [OF op b s(1-3) sp], goal_cases)
    case (1 plan k i c)
    have "ir_ftype (render_file m n sz p x) = kind_ftype (n_kind (fb_nodes b ! s))" for m n p x
      using s(3) by (auto simp: render_file_def inode_render_plain_def kind_ftype_def declared_def split: node_kind.splits)
    moreover have "\<not> is_dir (fb_nodes b ! s)" using s(3) by (auto simp: is_dir_def declared_def split: node_kind.splits)
    ultimately have "describes b slot_ino s (i\<lparr>i_checksum := c\<rparr>)"
      by (intro rendered_describes [OF 1(7) ok]) (simp_all add: render_file_def inode_render_plain_def)
    moreover have "carries (ns_xattrs (pl_names pl) ! s) (i\<lparr>i_checksum := c\<rparr>)"
      by (rule rendered_carries [OF 1(7)]) (simp_all add: render_file_def)
    ultimately show ?case using 1(2,3) by auto
  qed
qed

lemma dir_slot_reads:
  assumes op: "opened crc b lay fills f geo slot_ino max_ino pl" and b: "builder_reachable strict opts b"
    and s: "s < length (fb_nodes b)" "slot_ino ! s \<noteq> 0" "is_dir (fb_nodes b ! s)"
  shows "\<exists>i. read_inode crc f (of_nat (slot_ino ! s)) = Inr i \<and> describes b slot_ino s i \<and>
    carries (ns_xattrs (pl_names pl) ! s) i"
proof -
  have ok: "kind_ok (n_kind (fb_nodes b ! s))" using reachable_kinds [OF b] s(1) by (simp add: kinds_all_def)
  obtain parents d where d: "dp_slot d = s"
    "dir_planned crc b slot_ino parents (fs_csum_seed f) (st_segments (pl_data pl)) (ns_rendered (pl_names pl)) d"
    "\<exists>raw. render_inode crc (fs_csum_seed f) (of_nat (slot_ino ! s)) (dir_inode_render b slot_ino (ns_xattrs (pl_names pl)) d) = Inr raw \<and>
      lay_inodes lay ! (slot_ino ! s - 1) = raw"
    using op s by (rule opened_dir_plan)
  have "dp_slot d < length (fb_nodes b)" "slot_ino ! dp_slot d \<noteq> 0" using d(1) s by simp_all
  then show ?thesis
  proof (rule dir_slot_inode [OF op _ _ d(2) d(3) [folded d(1)]], goal_cases)
    case (1 children index entries blocks pairs a a' tsegs i c)
    have "ir_ftype (dir_inode_render b slot_ino (ns_xattrs (pl_names pl)) d) = kind_ftype (n_kind (fb_nodes b ! s))"
      using s(3) by (auto simp: dir_inode_render_def render_dir_def Let_def kind_ftype_def is_dir_def split: node_kind.splits)
    then have "describes b slot_ino s (i\<lparr>i_checksum := c\<rparr>)"
      using s(3) d(1) by (intro rendered_describes [OF 1(12) ok]) (simp_all add: dir_inode_render_def render_dir_def Let_def)
    moreover have "carries (ns_xattrs (pl_names pl) ! s) (i\<lparr>i_checksum := c\<rparr>)"
      using d(1) by (intro rendered_carries [OF 1(12)]) (simp_all add: dir_inode_render_def render_dir_def Let_def)
    ultimately show ?case using 1(13) d(1) by auto
  qed
qed

text \<open>Every node in use.\<close>

lemma opened_node_reads:
  assumes op: "opened crc b lay fills f geo slot_ino max_ino pl" and b: "builder_reachable strict opts b"
    and s: "s < length (fb_nodes b)" "slot_ino ! s \<noteq> 0"
    and fits: "\<And>segs sz. declared (n_kind (fb_nodes b ! s)) = Some (segs, sz) \<Longrightarrow> sz \<le> image_len lay"
  shows "\<exists>i. read_inode crc f (of_nat (slot_ino ! s)) = Inr i \<and> describes b slot_ino s i \<and>
    carries (ns_xattrs (pl_names pl) ! s) i \<and>
    (case n_kind (fb_nodes b ! s) of
       node_kind.Symlink t \<Rightarrow> symlink_target crc f (of_nat (slot_ino ! s)) = Inr t
     | Special ft major minor \<Rightarrow> ft = ft_CHR \<or> ft = ft_BLK \<longrightarrow> dev_numbers i = Some (major, minor)
     | _ \<Rightarrow> True)"
proof (cases "n_kind (fb_nodes b ! s)")
  case (Dir children index)
  then have "is_dir (fb_nodes b ! s)" by (simp add: is_dir_def)
  from dir_slot_reads [OF op b s this] show ?thesis using Dir by simp
next
  case (File sz)
  then have d: "declared (n_kind (fb_nodes b ! s)) = Some (if 0 < sz then [(0, sz)] else [], sz)" by (simp add: declared_def)
  from file_slot_reads [OF op b s d fits [OF d]] show ?thesis using File by auto
next
  case (Sparse segs sz)
  then have d: "declared (n_kind (fb_nodes b ! s)) = Some (segs, sz)" by (simp add: declared_def)
  from file_slot_reads [OF op b s d fits [OF d]] show ?thesis using Sparse by auto
next
  case (Symlink t)
  from link_slot_reads [OF op b s this] show ?thesis using Symlink by simp
next
  case (Special ft major minor)
  from special_slot_reads [OF op b s this] show ?thesis using Special by simp
qed

end
