(* ===== verification/ReadAttrs.thy ===== *)
theory ReadAttrs
  imports ReadSlots
begin

text \<open>
  Extended attributes of a built image: what the names phase chose for a slot (an area of the inode, a
  block) is what its attributes plan to, so the reader finds the attributes again, in canonical order.
\<close>

section \<open>What the names phase plans\<close>

definition attrs_planned :: "crc \<Rightarrow> u32 \<Rightarrow> segment list \<Rightarrow> attr list option \<Rightarrow> nat \<times> bytes \<Rightarrow> bool" where
  "attrs_planned crc fseed segs attrs x \<longleftrightarrow> (case attrs of
     None \<Rightarrow> x = (0, [])
   | Some l \<Rightarrow> \<exists>p. xattr_plan_of l = Inr p \<and> snd x = xp_ibody p \<and>
       (if xp_block_attrs p = [] then fst x = 0
        else \<exists>bs. xattr_render_block crc (xp_block_attrs p) fseed (of_nat (fst x)) = Inr bs \<and> block_seg (fst x) bs \<in> set segs))"

lemma attrs_planned_mono:
  assumes "attrs_planned crc fseed segs attrs x" "set segs \<subseteq> set segs'"
  shows "attrs_planned crc fseed segs' attrs x"
  using assms unfolding attrs_planned_def by (auto split: option.splits if_splits)

lemma seal_xattrs_planned:
  assumes "seal_xattrs crc b fseed slot st = Inr st'" "slot < length (ns_xattrs st)" "ns_xattrs st ! slot = (0, [])"
  shows "attrs_planned crc fseed (st_segments st') (fb_xattrs b slot) (ns_xattrs st' ! slot) \<and>
    (\<exists>x. ns_xattrs st' = (ns_xattrs st)[slot := x])"
proof (cases "fb_xattrs b slot")
  case None
  then have "st' = st" using assms(1) by (simp add: seal_xattrs_def)
  then show ?thesis using None assms(3) list_update_id [of "ns_xattrs st" slot, symmetric] by (auto simp: attrs_planned_def)
next
  case (Some attrs)
  then obtain plan acl st1 where p: "xattr_plan_of attrs = Inr plan"
    "(if xp_block_attrs plan = [] then Inr (0, st)
      else bindE (st_take_one st) (\<lambda>(block, st).
        bindE (xattr_render_block crc (xp_block_attrs plan) fseed (of_nat block)) (\<lambda>bs.
        Inr (block, st_push [block_seg block bs] st)))) = Inr (acl, st1)"
    "st' = st1\<lparr>ns_xattrs := (ns_xattrs st1)[slot := (acl, xp_ibody plan)]\<rparr>"
    using assms(1) by (auto simp: seal_xattrs_def bindE_eq_Inr)
  have "ns_xattrs st1 = ns_xattrs st \<and> (if xp_block_attrs plan = [] then acl = 0
      else \<exists>bs. xattr_render_block crc (xp_block_attrs plan) fseed (of_nat acl) = Inr bs \<and> block_seg acl bs \<in> set (st_segments st1))"
  proof (cases "xp_block_attrs plan = []")
    case False
    then obtain st2 bs where "st_take_one st = Inr (acl, st2)" "st1 = st_push [block_seg acl bs] st2"
      "xattr_render_block crc (xp_block_attrs plan) fseed (of_nat acl) = Inr bs"
      using p(2) by (auto simp: bindE_eq_Inr)
    moreover obtain a where "st2 = st\<lparr>st_alloc := a\<rparr>" using st_take_one_frame [OF calculation(1)] by blast
    ultimately show ?thesis using False by (simp add: st_push_def)
  qed (use p(2) in simp)
  then have 1: "ns_xattrs st1 = ns_xattrs st" "if xp_block_attrs plan = [] then acl = 0
      else \<exists>bs. xattr_render_block crc (xp_block_attrs plan) fseed (of_nat acl) = Inr bs \<and> block_seg acl bs \<in> set (st_segments st1)"
    by blast+
  have "attrs_planned crc fseed (st_segments st1) (Some attrs) (acl, xp_ibody plan)"
    using p(1) 1(2) unfolding attrs_planned_def by simp
  then show ?thesis using p(3) 1(1) assms(2) Some by auto
qed

text \<open>The slots that were visited have their plan; the others nothing yet.\<close>

definition all_attrs_planned :: "crc \<Rightarrow> fs_builder \<Rightarrow> nat list \<Rightarrow> u32 \<Rightarrow> nat \<Rightarrow> names_state \<Rightarrow> bool" where
  "all_attrs_planned crc b slot_ino fseed k st \<longleftrightarrow> length (ns_xattrs st) = length (fb_nodes b) \<and>
    (\<forall>j<length (fb_nodes b). if j < k \<and> slot_ino ! j \<noteq> 0
       then attrs_planned crc fseed (st_segments st) (fb_xattrs b j) (ns_xattrs st ! j)
       else ns_xattrs st ! j = (0, []))"

lemma seal_slot_attrs:
  assumes "all_attrs_planned crc b slot_ino fseed k st" "k < length (fb_nodes b)"
    and "seal_slot crc b slot_ino parents fseed k st = Inr st'"
  shows "all_attrs_planned crc b slot_ino fseed (Suc k) st'"
proof (cases "slot_ino ! k = 0")
  case True
  then have "st' = st" using assms(3) by (simp add: seal_slot_def)
  then show ?thesis using assms(1) True by (auto simp: all_attrs_planned_def less_Suc_eq)
next
  case False
  then obtain st1 where s: "seal_xattrs crc b fseed k st = Inr st1"
    "(case n_kind (fb_nodes b ! k) of
         node_kind.Dir children _ \<Rightarrow> seal_directory crc b slot_ino parents fseed k children st1
       | node_kind.Symlink target \<Rightarrow>
           if 59 < length target then seal_slow_symlink crc (slot_ino ! k) fseed k target st1 else Inr st1
       | _ \<Rightarrow> Inr st1) = Inr st'"
    using assms(3) by (auto simp: seal_slot_def Let_def bindE_eq_Inr)
  have f: "extends st1 st'" "ns_xattrs st' = ns_xattrs st1"
    using s(2) seal_directory_frame seal_slow_symlink_frame by (auto split: node_kind.splits if_splits)
  have len: "length (ns_xattrs st) = length (fb_nodes b)" using assms(1) by (simp add: all_attrs_planned_def)
  have z: "k < length (ns_xattrs st)" "ns_xattrs st ! k = (0, [])"
    using assms(1,2) unfolding all_attrs_planned_def by auto
  obtain x where x: "attrs_planned crc fseed (st_segments st1) (fb_xattrs b k) (ns_xattrs st1 ! k)"
    "ns_xattrs st1 = (ns_xattrs st)[k := x]"
    using seal_xattrs_planned [OF s(1) z] by blast
  have "extends st st1" using seal_xattrs_frame [OF s(1)] by blast
  then have grow: "set (st_segments st1) \<subseteq> set (st_segments st')" "set (st_segments st) \<subseteq> set (st_segments st')"
    using f(1) extends_set extends_trans by blast+
  have "if j < Suc k \<and> slot_ino ! j \<noteq> 0
       then attrs_planned crc fseed (st_segments st') (fb_xattrs b j) (ns_xattrs st' ! j)
       else ns_xattrs st' ! j = (0, [])" if j: "j < length (fb_nodes b)" for j
  proof (cases "j = k")
    case True
    then show ?thesis using attrs_planned_mono [OF x(1) grow(1)] False f(2) by simp
  next
    case other: False
    then have "ns_xattrs st' ! j = ns_xattrs st ! j" using f(2) x(2) by simp
    moreover have "if j < k \<and> slot_ino ! j \<noteq> 0 then attrs_planned crc fseed (st_segments st) (fb_xattrs b j) (ns_xattrs st ! j)
       else ns_xattrs st ! j = (0, [])"
      using assms(1) j unfolding all_attrs_planned_def by blast
    ultimately show ?thesis using other attrs_planned_mono [OF _ grow(2)] by (auto simp: less_Suc_eq split: if_splits)
  qed
  moreover have "length (ns_xattrs st') = length (fb_nodes b)" using f(2) x(2) len by simp
  ultimately show ?thesis unfolding all_attrs_planned_def by blast
qed

lemma place_all_attrs:
  assumes "place_all crc b geo fseed slot_ino = Inr pl" "geometry_wf geo"
  shows "all_attrs_planned crc b slot_ino fseed (length (fb_nodes b)) (pl_names pl)"
    "seg \<in> set (st_segments (pl_names pl)) \<Longrightarrow> 0 < seg_block seg"
proof -
  from assms show "all_attrs_planned crc b slot_ino fseed (length (fb_nodes b)) (pl_names pl)"
  proof (rule place_all_phases, goal_cases)
    case (1 a st2 lfb parents)
    from 1(4) show ?case
    proof (rule foldE_upt_inv)
      show "all_attrs_planned crc b slot_ino fseed 0 (names_start b (fst (pl_lost_found pl)) lfb st2)"
        by (simp add: all_attrs_planned_def names_start_def)
    qed (rule seal_slot_attrs)
  qed
  have flex: "0 < geo_groups_per_flex geo" "0 < geo_groups geo" using assms(2) by (auto simp: geometry_wf_def)
  assume seg: "seg \<in> set (st_segments (pl_names pl))"
  from assms show "0 < seg_block seg"
  proof (rule place_all_phases, goal_cases)
    case (1 a st2 lfb parents)
    then have "placed (alloc_free a) (mset (expand_runs (fst (pl_journal pl))) + mset (expand_runs (fst (pl_lost_found pl))) +
        mset (expand_runs (dir_runs (ns_dirs (pl_names pl))))) (pl_names pl)"
      by (simp add: names_ok_def)
    then have "mset (map seg_block (st_segments (pl_names pl))) \<subseteq># mset (alloc_free a)"
      unfolding placed_def account_def by (meson mset_subset_eq_add_left mset_subset_eq_add_right subset_mset.order_trans)
    then have "set (map seg_block (st_segments (pl_names pl))) \<subseteq> set (alloc_free a)" using set_mset_mono by fastforce
    then have "\<not> in_runs (reserved_runs geo) (seg_block seg)" using place_groups_ok(4) [OF 1(1) flex] seg by auto
    moreover have "in_runs (reserved_runs geo) 0"
      unfolding in_runs_def reserved_runs_def set_sort by (auto simp: in_run_def)
    ultimately show ?case by (cases "seg_block seg") auto
  qed
qed

section \<open>Reading them\<close>

text \<open>The area of an inode that was decoded.\<close>

lemma le32_zeros:
  assumes "\<forall>x\<in>set (drop k b). x = 0" "k + 4 \<le> length b"
  shows "le32 b k = 0"
proof -
  have "\<forall>x\<in>set (peek b k 4). x = 0" unfolding peek_def using assms(1) set_take_subset by fast
  moreover have "length (peek b k 4) = 4" using assms(2) by simp
  ultimately have "peek b k 4 = replicate 4 0" by (metis replicate_eqI)
  then show ?thesis by (simp add: le32_def numeral_eq_Suc)
qed

lemma decoded_area:
  assumes "inode_decode raw = Inr i" "i_extra_isize i = 32" "i_ibody i = [] \<or> length (i_ibody i) = 96"
  shows "ibody_entries raw 32 = (if i_ibody i = [] then Inr [] else ibody_entries (take 0xA0 raw @ i_ibody i) 32)"
    "i_ibody i \<noteq> [] \<Longrightarrow> length raw = 256"
proof -
  have long: "0x80 < length raw" and i: "i = inode_extra raw (inode_low raw)"
    using assms(1,2) by (auto simp: inode_decode_def inode_low_def split: if_splits)
  have "le16 raw 0x80 = 32" using assms(2) by (simp add: i inode_extra_def Let_def)
  then have area: "i_ibody i = (if \<exists>x\<in>set (drop (min 160 (length raw)) raw). x \<noteq> 0 then drop (min 160 (length raw)) raw else [])"
    by (simp add: i inode_extra_def inode_low_def Let_def)
  have "length raw = 256 \<and> i_ibody i = drop 160 raw" if "i_ibody i \<noteq> []"
  proof -
    have "i_ibody i = drop (min 160 (length raw)) raw" "length (i_ibody i) = 96" using area that assms(3) by (auto split: if_splits)
    then show ?thesis by (auto simp: min_def split: if_splits)
  qed
  note full = this
  then show "i_ibody i \<noteq> [] \<Longrightarrow> length raw = 256" by blast
  show "ibody_entries raw 32 = (if i_ibody i = [] then Inr [] else ibody_entries (take 0xA0 raw @ i_ibody i) 32)"
  proof (cases "i_ibody i = []")
    case True
    have "le32 raw 160 = 0" if "164 \<le> length raw"
      using area True that by (intro le32_zeros) (auto simp: min_def split: if_splits)
    then show ?thesis using True by (auto simp: ibody_entries_def)
  next
    case False
    then show ?thesis using full by simp
  qed
qed

text \<open>What an entry says.\<close>

definition xattr_view :: "xattr_entry \<Rightarrow> attr" where
  "xattr_view e = (xa_name_index e, xa_name e, xa_value e)"

lemma xattr_view_entry [simp]: "xattr_view (entry_of blk a) = a"
  by (simp add: xattr_view_def entry_of_def)

lemma planned_attrs_read:
  assumes raw: "inode_raw f ino = Inr raw" "inode_decode raw = Inr i" "carries x i"
    and p: "attrs_planned crc fseed segs (Some l) x" "attrs_ok l"
    and sv: "served f segs" "\<forall>seg\<in>set segs. 0 < seg_block seg"
  shows "\<exists>es. fs_xattrs f ino = Inr es \<and> map xattr_view es = sort_key attr_key l"
proof -
  have names: "\<forall>a\<in>set l. length (fst (snd a)) < 256" using p(2) by (force simp: attrs_ok_def)
  obtain p where p: "xattr_plan_of l = Inr p" "snd x = xp_ibody p"
    and blk: "if xp_block_attrs p = [] then fst x = 0 else \<exists>bs. xattr_render_block crc (xp_block_attrs p) fseed (of_nat (fst x)) = Inr bs \<and>
      block_seg (fst x) bs \<in> set segs"
    using p(1) by (auto simp: attrs_planned_def)
  note ok = xattr_plan_ok [OF names p(1)]
  let ?s = "sort_key attr_key l"
  let ?n = "xattr_split 92 0 0 ?s"
  have c: "i_extra_isize i = 32" "i_file_acl i = of_nat (fst x)" "i_ibody i = xp_ibody p" using raw(3) p(2) by (simp_all add: carries_def)
  have "i_ibody i = [] \<or> length (i_ibody i) = 96" unfolding c(3) using xattr_plan_ibody [OF p(1)] by blast
  note area = decoded_area [OF raw(2) c(1) this]
  have ne: "take ?n ?s = [] \<longleftrightarrow> xp_ibody p = []" using ok(3,4) by fastforce
  have inl: "ibody_entries raw (i_extra_isize i) = Inr (map (entry_of False) (take ?n ?s))"
  proof (cases "take ?n ?s = []")
    case True
    then have "i_ibody i = []" using ne c(3) by simp
    then show ?thesis unfolding c(1) using area(1) by (simp add: True)
  next
    case False
    then have b: "i_ibody i \<noteq> []" using ne c(3) by simp
    then have l: "length (take 0xA0 raw) = 0xA0" using area(2) by simp
    show ?thesis unfolding c(1) area(1) using b ok(5) [OF False l] c(3) by simp
  qed
  show ?thesis
  proof (cases "xp_block_attrs p = []")
    case True
    then have "fs_xattrs f ino = Inr (map (entry_of False) (take ?n ?s))"
      using raw(1,2) inl c(2) blk by (simp add: fs_xattrs_def)
    moreover have "take ?n ?s = ?s" using ok(1) True by simp
    ultimately show ?thesis by (simp add: comp_def)
  next
    case False
    then obtain bs where bs: "xattr_render_block crc (xp_block_attrs p) fseed (of_nat (fst x)) = Inr bs" "block_seg (fst x) bs \<in> set segs"
      using blk by auto
    have acl: "0 < fst x" "fst x < 2 ^ 48" and rb: "read_block f (fst x) = Inr bs"
      using sv bs(2) by (auto simp: served_def block_seg_def seg_bytes_def)
    have nz: "i_file_acl i \<noteq> 0" "unat (i_file_acl i) = fst x"
      unfolding c(2) using acl by (simp_all add: unat_of_nat of_nat_eq_0_iff word_of_nat_eq_0_iff nat_dvd_not_less)
    have "length (fst (snd a)) < 256" if "a \<in> set (xp_block_attrs p)" for a
    proof -
      have "a \<in> set ?s" using that unfolding ok(1) by (rule in_set_dropD)
      then show ?thesis using names by simp
    qed
    then obtain view where "xattr_block_parse bs = Inr view" "xb_entries view = map (entry_of True) (xp_block_attrs p)"
      using render_block_parse [OF ballI ok(2), of crc fseed "of_nat (fst x)"] bs(1) by auto
    then have "fs_xattrs f ino = Inr (map (entry_of False) (take ?n ?s) @ map (entry_of True) (xp_block_attrs p))"
      using raw(1,2) inl nz rb by (simp add: fs_xattrs_def)
    moreover have "take ?n ?s @ xp_block_attrs p = ?s" using ok(1) by simp
    ultimately show ?thesis by (simp add: comp_def)
  qed
qed

lemma opened_attrs_read:
  assumes op: "opened crc b lay fills f geo slot_ino max_ino pl" and b: "builder_reachable strict opts b"
    and s: "s < length (fb_nodes b)" "slot_ino ! s \<noteq> 0"
    and fits: "\<And>segs sz. declared (n_kind (fb_nodes b ! s)) = Some (segs, sz) \<Longrightarrow> sz \<le> image_len lay"
  shows "\<exists>es. fs_xattrs f (of_nat (slot_ino ! s)) = Inr es \<and>
    map xattr_view es = (case fb_xattrs b s of None \<Rightarrow> [] | Some l \<Rightarrow> sort_key attr_key l)"
proof -
  note h = opened_handle [OF op] and sl = opened_seal [OF op]
  let ?ino = "of_nat (slot_ino ! s) :: u32" and ?x = "ns_xattrs (pl_names pl) ! s" and ?segs = "st_segments (pl_names pl)"
  obtain i where i: "read_inode crc f ?ino = Inr i" "carries ?x i"
    using opened_node_reads [OF op b s] fits by blast
  obtain raw where raw: "inode_raw f ?ino = Inr raw" "inode_decode raw = Inr i"
    using i(1) by (auto simp: read_inode_def bindE_eq_Inr)
  note pa = place_all_attrs [OF sl(1) h(7)]
  have p: "attrs_planned crc (fs_csum_seed f) ?segs (fb_xattrs b s) ?x"
    using pa(1) s unfolding all_attrs_planned_def by auto
  have "mset ?segs \<subseteq># mset (st_segments (pl_data pl))" using place_all_links(2) [OF sl(1) h(7)] .
  then have "served f ?segs" using sl(3) set_mset_mono by (fastforce simp: served_def)
  note sv = this
  show ?thesis
  proof (cases "fb_xattrs b s")
    case None
    then have "?x = (0, [])" using p by (simp add: attrs_planned_def)
    then have c: "i_extra_isize i = 32" "i_file_acl i = 0" "i_ibody i = []" using i(2) by (simp_all add: carries_def)
    then have "fs_xattrs f ?ino = Inr []"
      using raw decoded_area(1) [OF raw(2) c(1)] by (simp add: fs_xattrs_def)
    then show ?thesis using None by simp
  next
    case (Some l)
    then have "attrs_ok l" using reachable_inv [OF b] by (auto simp: builder_inv_def mid_inv_def xattrs_ok_def)
    from planned_attrs_read [OF raw i(2) _ this sv] p Some pa(2) show ?thesis by simp
  qed
qed

end
