(* ===== verification/SealSample.thy ===== *)
theory SealSample
  imports SealProgress
begin

text \<open>
  A small image that seals: one file of five bytes in the root directory of a file system of 4096
  blocks, with or without an attribute. Whatever the checksum function computes, sealing returns a layout.
\<close>

definition demo_options :: options where
  "demo_options = Options_new 16777216 (ascii ''mkext4-benchmark'') 1704067200"

definition demo_meta :: meta where
  "demo_meta = (Meta_new 0x1A4 0 0 (1704067200, 0))
     \<lparr>m_atime := Some (1704067200, 0), m_ctime := Some (1704067200, 0)\<rparr>"

definition demo_start :: fs_builder where
  "demo_start = \<lparr>fb_opts = demo_options,
     fb_nodes = [\<lparr>n_kind = node_kind.Dir [] Map.empty, n_meta = Meta_new 0x1ED 0 0 (1704067200, 0), n_nlink = 1\<rparr>],
     fb_names = [], fb_xattrs = Map.empty, fb_declared_bytes = 0\<rparr>"

definition demo_attrs :: "attr list" where
  "demo_attrs = [(1, [107], [7])]"

definition demo_with :: "(nat \<Rightarrow> attr list option) \<Rightarrow> fs_builder" where
  "demo_with xs = \<lparr>fb_opts = demo_options,
     fb_nodes = [\<lparr>n_kind = node_kind.Dir [(\<lparr>nr_off = 0, nr_len = 1\<rparr>, 1, False)] [[97] \<mapsto> 0],
                  n_meta = Meta_new 0x1ED 0 0 (1704067200, 0), n_nlink = 1\<rparr>,
                 \<lparr>n_kind = File 5, n_meta = demo_meta, n_nlink = 1\<rparr>],
     fb_names = [97], fb_xattrs = xs, fb_declared_bytes = 5\<rparr>"

abbreviation demo_builder :: fs_builder where
  "demo_builder \<equiv> demo_with [1 \<mapsto> demo_attrs]"

definition demo_xattrs :: "(nat \<Rightarrow> attr list option) \<Rightarrow> bool" where
  "demo_xattrs xs \<longleftrightarrow> xs 0 = None \<and> (xs 1 = None \<or> xs 1 = Some demo_attrs)"

definition demo_geo :: geometry where
  "demo_geo = \<lparr>geo_blocks = 4096, geo_groups = 1, geo_inodes_per_group = 1024, geo_gdt_blocks = 1,
     geo_journal_blocks = 1024, geo_groups_per_flex = 16\<rparr>"

lemma demo_geo_simps [simp]:
  "geo_blocks demo_geo = 4096" "geo_groups demo_geo = 1" "geo_inodes_per_group demo_geo = 1024"
  "geo_gdt_blocks demo_geo = 1" "geo_journal_blocks demo_geo = 1024" "geo_groups_per_flex demo_geo = 16"
  by (simp_all add: demo_geo_def)

lemma demo_reachable: "builder_reachable strict demo_options demo_builder"
proof -
  have start: "builder_reachable strict demo_options demo_start"
    by (rule builder_reachable.init)
      (simp add: FsBuilder_new_def demo_options_def Options_new_def demo_start_def)
  have mk: "run_call (CFile 0 [97] demo_meta 5) demo_start = (Inr (), demo_with Map.empty)"
    by (simp add: demo_start_def demo_with_def call_eval)
  have ns: "xattr_namespace (ascii ''user.k'') = Some (1, [107])"
    by (simp add: xattr_namespace_def ascii_def strip_prefix_def)
  have attr: "run_call (CSetXattr 1 (ascii ''user.k'') [7]) (demo_with Map.empty) = (Inr (), demo_builder)"
    using ns by (simp add: fb_set_xattr_def demo_with_def demo_attrs_def)
  have "builder_reachable strict demo_options (demo_with Map.empty)"
    by (rule builder_reachable.step [OF start _ mk]) simp_all
  then show ?thesis by (rule builder_reachable.step [OF _ _ attr]) simp_all
qed

lemma demo_geometry:
  "Geometry_new (opt_size_bytes demo_options) (case opt_inodes demo_options of Auto \<Rightarrow> None | Exact n \<Rightarrow> Some n)
     (opt_journal_blocks demo_options) = Inr demo_geo"
  by (simp add: demo_options_def Options_new_def Geometry_new_def Let_def div_ceil_def next_multiple_of_def clamp_def
      default_journal_blocks_def demo_geo_def)

lemma demo_wf: "geometry_wf demo_geo"
  using Geometry_new_wf [OF demo_geometry] .

lemma demo_slots: "slot_inodes (demo_with xs) = Inr ([2, 12], 13)"
  by (simp add: slot_inodes_def demo_with_def kind_children_def live_children_def ROOT_INO_def)

lemma demo_groups:
  "place_groups demo_geo = Inr ([(2, 3, 4)],
     \<lparr>al_cursor = 68, al_end = 4096, al_reserved = [\<lparr>run_start = 0, run_len = 2\<rparr>, \<lparr>run_start = 2, run_len = 66\<rparr>],
      al_next = 2\<rparr>)"
proof -
  let ?r0 = "\<lparr>run_start = 0, run_len = 2\<rparr>"
  let ?c = "\<lambda>n. \<lparr>al_cursor = n, al_end = 4096, al_reserved = [?r0], al_next = 1\<rparr>"
  have res: "reserved_runs demo_geo = [?r0]"
    by (simp add: reserved_runs_def backup_groups_def)
  have clear: "alloc_clear (?c n)" for n by (simp add: alloc_clear_def)
  have b: "take_block (?c 2) = Inr (2, ?c 3)" "take_block (?c 3) = Inr (3, ?c 4)"
    using take_block_clear [OF clear, of 2] take_block_clear [OF clear, of 3] by simp_all
  have "take_runs (?c 4) 64 U64_MAX err_full = Inr ([\<lparr>run_start = 4, run_len = 64\<rparr>], ?c 68)"
    using take_runs_clear [OF clear, of 64 U64_MAX 4] by (simp add: U64_MAX_def)
  then have it: "place_itable 64 (?c 4) = Inr (4, ?c 68)" by (simp add: place_itable_def)
  have new: "alloc_new 0 4096 [?r0] = Inr (?c 2)"
    by (simp add: alloc_new_def skip_reserved.simps)
  have "place_span demo_geo [?r0] 0 = Inr ([(2, 3, 4)], \<lparr>run_start = 2, run_len = 66\<rparr>)"
    using new b it by (simp add: place_span_def Let_def itable_blocks_def group_start_def)
  moreover have "span_leaders demo_geo = [0]"
    by (simp add: span_leaders_def div_ceil_def)
  ultimately show ?thesis
    by (simp add: place_groups_def res Let_def alloc_new_def skip_reserved.simps)
qed

section \<open>Placement\<close>

definition demo_alloc :: "nat \<Rightarrow> allocator" where
  "demo_alloc n = \<lparr>al_cursor = n, al_end = 4096,
     al_reserved = [\<lparr>run_start = 0, run_len = 2\<rparr>, \<lparr>run_start = 2, run_len = 66\<rparr>], al_next = 2\<rparr>"

lemma demo_alloc_simps [simp]:
  "alloc_clear (demo_alloc n)" "al_cursor (demo_alloc n) = n" "al_end (demo_alloc n) = 4096"
  "(demo_alloc n)\<lparr>al_cursor := m\<rparr> = demo_alloc m"
  by (simp_all add: demo_alloc_def alloc_clear_def)

lemma demo_nodes [simp]:
  "length (fb_nodes (demo_with xs)) = 2" "fb_xattrs (demo_with xs) = xs" "fb_opts (demo_with xs) = demo_options"
  "n_kind (fb_nodes (demo_with xs) ! 0) = node_kind.Dir [(\<lparr>nr_off = 0, nr_len = 1\<rparr>, 1, False)] [[97] \<mapsto> 0]"
  "n_kind (fb_nodes (demo_with xs) ! Suc 0) = File 5" "fb_names (demo_with xs) = [97]"
  by (simp_all add: demo_with_def)

lemma demo_attr_plan:
  obtains p where "xattr_plan_of demo_attrs = Inr p" "xp_block_attrs p = []" "length (xp_ibody p) \<le> 96"
proof -
  obtain p where p: "xattr_plan_of demo_attrs = Inr p" "xp_block_attrs p = []"
    by (auto simp: xattr_plan_of_def demo_attrs_def attr_key_def attr_fits_block_def entry_bytes_def
        value_bytes_def round4_def xattr_total_def render_entries_def render_entry_def Let_def)
  have "length (xp_ibody p) \<le> 96"
    using p(1) by (auto simp: xattr_plan_of_def demo_attrs_def attr_key_def attr_fits_block_def entry_bytes_def
        value_bytes_def round4_def xattr_total_def render_entries_def render_entry_def Let_def)
  then show ?thesis using p that by blast
qed

definition demo_entries :: "dentry list" where
  "demo_entries = [(ascii ''lost+found'', 11, ft_DIR), ([97], 12, ft_REG)]"

lemma demo_dentries:
  "dir_dentries (demo_with xs) [2, 12] 0 [(\<lparr>nr_off = 0, nr_len = 1\<rparr>, 1, False)] = Inr demo_entries"
  by (simp add: dir_dentries_def child_dentry_def demo_entries_def name_of_def peek_def kind_ftype_def)

lemma demo_dir_blocks: "\<exists>bs. dir_blocks crc 2 2 demo_entries seed fseed = Inr bs \<and> length bs = 1"
proof -
  let ?es = "dot_entries (of_nat 2) (of_nat 2) @ demo_entries"
  have ok: "\<forall>e\<in>set ?es. dentry_ok e" by (simp add: dot_entries_def demo_entries_def dentry_ok_def ascii_def)
  obtain bs where bs: "pack_dirents ?es = Inr bs" using pack_dirents_ok [OF ok] by blast
  have "length (pack_groups USABLE dentry_rec_len ?es) = 1"
    by (simp add: pack_groups_def pack_step_def dot_entries_def demo_entries_def ascii_def dentry_rec_len_def rec_len_for_def)
  then have l: "length bs = 1" using bs mapE_length by (metis pack_dirents_def)
  obtain bs' where bs': "mapE (seal_dirent_block crc (inode_seed crc fseed (of_nat 2) 0)) bs = Inr bs'"
    using seal_dirent_blocks_ok pack_dirents_lengths [OF bs] by blast
  have "\<not> needs_htree demo_entries"
    by (simp add: needs_htree_def demo_entries_def ascii_def dentry_rec_len_def rec_len_for_def)
  then have "dir_blocks crc 2 2 demo_entries seed fseed = Inr bs'" using bs bs' by (simp add: dir_blocks_def)
  then show ?thesis using mapE_length [OF bs'] l by auto
qed

lemma demo_place_with:
  assumes xs: "demo_xattrs xs"
  shows "\<exists>jp lp dp fp rd ib. length ib \<le> 96 \<and> place_all crc (demo_with xs) demo_geo fseed [2, 12] = Inr
    \<lparr>pl_group_meta = [(2, 3, 4)], pl_journal = ([\<lparr>run_start = 68, run_len = 1024\<rparr>], jp),
     pl_lost_found = ([\<lparr>run_start = 1092, run_len = 4\<rparr>], lp),
     pl_names = \<lparr>st_alloc = demo_alloc 1097, st_segments = [],
       ns_dirs = [\<lparr>dp_slot = 0, dp_runs = [\<lparr>run_start = 1096, run_len = 1\<rparr>], dp_plan = dp, dp_nblocks = 1,
                   dp_is_htree = needs_htree demo_entries\<rparr>],
       ns_rendered = rd, ns_xattrs = [(0, []), (0, ib)], ns_symlinks = [None, None]\<rparr>,
     pl_data = \<lparr>st_alloc = demo_alloc 1098, st_segments = [],
       ds_file_runs = [([], 0), ([\<lparr>run_start = 1097, run_len = 1\<rparr>], 5)], ds_file_plans = [None, Some (fp, 1)],
       ds_data_runs = [\<lparr>run_start = 1097, run_len = 1\<rparr>]\<rparr>\<rparr>"
proof -
  obtain lfb where lfb: "lost_found_blocks crc fseed = Inr lfb" using lost_found_ok by blast
  obtain jp where jp: "st_dense crc 1024 8 fseed \<lparr>st_alloc = demo_alloc 68, st_segments = []\<rparr> =
      Inr (([\<lparr>run_start = 68, run_len = 1024\<rparr>], jp), \<lparr>st_alloc = demo_alloc 1092, st_segments = []\<rparr>)"
    using st_dense_clear [of "\<lparr>st_alloc = demo_alloc 68, st_segments = []\<rparr>" 1024 crc 8 fseed] by auto
  obtain lp where lp: "st_dense crc 4 11 fseed \<lparr>st_alloc = demo_alloc 1092, st_segments = []\<rparr> =
      Inr (([\<lparr>run_start = 1092, run_len = 4\<rparr>], lp), \<lparr>st_alloc = demo_alloc 1096, st_segments = []\<rparr>)"
    using st_dense_clear [of "\<lparr>st_alloc = demo_alloc 1092, st_segments = []\<rparr>" 4 crc 11 fseed] by auto
  let ?rd = "zip (expand_runs [\<lparr>run_start = 1092, run_len = 4\<rparr>]) lfb"
  let ?ns = "\<lparr>st_alloc = demo_alloc 1096, st_segments = [], ns_dirs = [], ns_rendered = ?rd,
      ns_xattrs = [(0, []), (0, [])], ns_symlinks = [None, None]\<rparr>"
  obtain bs where bs: "dir_blocks crc 2 2 demo_entries (opt_hash_seed demo_options) fseed = Inr bs" "length bs = 1"
    using demo_dir_blocks by blast
  obtain dp where dp: "st_dense crc 1 2 fseed ?ns =
      Inr (([\<lparr>run_start = 1096, run_len = 1\<rparr>], dp), ?ns\<lparr>st_alloc := demo_alloc 1097\<rparr>)"
    using st_dense_clear [of ?ns 1 crc 2 fseed] by auto
  obtain fp where fp: "plan_extents crc [(0, \<lparr>run_start = 1097, run_len = 1\<rparr>)] 12 fseed (demo_alloc 1098) =
      Inr (fp, demo_alloc 1098, [])"
    using plan_extents_small [of "[(0, \<lparr>run_start = 1097, run_len = 1\<rparr>)]" crc 12 fseed "demo_alloc 1098"] by auto
  have take: "take_runs (demo_alloc 1097) 1 32768 err_full = Inr ([\<lparr>run_start = 1097, run_len = 1\<rparr>], demo_alloc 1098)"
    using take_runs_clear [of "demo_alloc 1097" 1 32768 err_full] by simp
  have groups: "place_groups demo_geo = Inr ([(2, 3, 4)], demo_alloc 68)"
    using demo_groups by (simp add: demo_alloc_def)
  have parents: "parent_map (demo_with xs) [2, 12] = Inr [0, 2]"
    by (simp add: parent_map_def demo_with_def kind_children_def live_children_def set_parent_def)
  have slot0: "seal_slot crc (demo_with xs) [2, 12] [0, 2] fseed 0 ?ns =
      Inr (?ns\<lparr>st_alloc := demo_alloc 1097, ns_rendered := ?rd @ zip [1096] bs,
        ns_dirs := [\<lparr>dp_slot = 0, dp_runs = [\<lparr>run_start = 1096, run_len = 1\<rparr>], dp_plan = dp, dp_nblocks = 1,
                   dp_is_htree = needs_htree demo_entries\<rparr>]\<rparr>)"
    using bs dp demo_dentries xs
    by (simp add: demo_xattrs_def seal_slot_def seal_xattrs_def seal_directory_def Let_def ROOT_INO_def)
  have file1: "seal_file crc (demo_with xs) [2, 12] fseed 1
        \<lparr>st_alloc = demo_alloc 1097, st_segments = [], ds_file_runs = [([], 0), ([], 0)],
         ds_file_plans = [None, None], ds_data_runs = []\<rparr> =
      Inr \<lparr>st_alloc = demo_alloc 1098, st_segments = [],
       ds_file_runs = [([], 0), ([\<lparr>run_start = 1097, run_len = 1\<rparr>], 5)], ds_file_plans = [None, Some (fp, 1)],
       ds_data_runs = [\<lparr>run_start = 1097, run_len = 1\<rparr>]\<rparr>"
    using take fp
    by (simp add: seal_file_def data_segs_of_def seal_data_seg_def st_take_def div_ceil_def add32_def st_plan_def st_push_def)
  have two: "[0..<2] = [0, 1 :: nat]" "replicate 2 x = [x, x]" for x :: 'z
    by (simp_all add: upt_rec numeral_2_eq_2)
  obtain p where p: "xattr_plan_of demo_attrs = Inr p" "xp_block_attrs p = []" "length (xp_ibody p) \<le> 96"
    using demo_attr_plan .
  obtain ib where ib: "length ib \<le> 96" "\<And>st. ns_xattrs st ! 1 = (0, []) \<Longrightarrow> length (ns_xattrs st) = 2 \<Longrightarrow>
      seal_slot crc (demo_with xs) [2, 12] [0, 2] fseed 1 st = Inr (st\<lparr>ns_xattrs := (ns_xattrs st)[1 := (0, ib)]\<rparr>)"
  proof (cases "xs 1")
    case None
    then have "seal_slot crc (demo_with xs) [2, 12] [0, 2] fseed 1 st = Inr st" for st
      by (simp add: seal_slot_def seal_xattrs_def)
    moreover have "ns_xattrs st ! 1 = (0, []) \<Longrightarrow> (ns_xattrs st)[1 := (0, [])] = ns_xattrs st" for st :: names_state
      by (metis list_update_id)
    ultimately show ?thesis using that [of "[]"] by simp
  next
    case (Some a)
    then have "xs 1 = Some demo_attrs" using xs by (simp add: demo_xattrs_def)
    then show ?thesis using p that [of "xp_ibody p"] by (simp add: seal_slot_def seal_xattrs_def)
  qed
  have file0: "seal_file crc (demo_with xs) [2, 12] fseed 0 st = Inr st" for st
    by (simp add: seal_file_def data_segs_of_def)
  show ?thesis
    unfolding place_all_def Let_def demo_nodes(1) two using groups jp lp lfb parents slot0 ib(2) file0 file1 ib(1)
    by (intro exI [of _ jp] exI [of _ lp] exI [of _ dp] exI [of _ fp] exI conjI) simp_all
qed

lemma demo_place:
  "\<exists>jp lp dp fp rd ib. length ib \<le> 96 \<and> place_all crc demo_builder demo_geo fseed [2, 12] = Inr
    \<lparr>pl_group_meta = [(2, 3, 4)], pl_journal = ([\<lparr>run_start = 68, run_len = 1024\<rparr>], jp),
     pl_lost_found = ([\<lparr>run_start = 1092, run_len = 4\<rparr>], lp),
     pl_names = \<lparr>st_alloc = demo_alloc 1097, st_segments = [],
       ns_dirs = [\<lparr>dp_slot = 0, dp_runs = [\<lparr>run_start = 1096, run_len = 1\<rparr>], dp_plan = dp, dp_nblocks = 1,
                   dp_is_htree = needs_htree demo_entries\<rparr>],
       ns_rendered = rd, ns_xattrs = [(0, []), (0, ib)], ns_symlinks = [None, None]\<rparr>,
     pl_data = \<lparr>st_alloc = demo_alloc 1098, st_segments = [],
       ds_file_runs = [([], 0), ([\<lparr>run_start = 1097, run_len = 1\<rparr>], 5)], ds_file_plans = [None, Some (fp, 1)],
       ds_data_runs = [\<lparr>run_start = 1097, run_len = 1\<rparr>]\<rparr>\<rparr>"
  by (rule demo_place_with) (simp add: demo_xattrs_def)

lemma demo_aligned: "aligned (demo_with xs)"
  by (auto simp: aligned_def demo_with_def kind_aligned_def)

section \<open>Rendering\<close>

lemma demo_inodes:
  assumes "ns_dirs ns = [\<lparr>dp_slot = 0, dp_runs = rs, dp_plan = dp, dp_nblocks = 1, dp_is_htree = h\<rparr>]"
    and "ns_xattrs ns = [(0, []), (0, ib)]" "length ib \<le> 96" "ns_symlinks ns = [None, None]" "ds_file_plans ds = [None, Some (fp, 1)]"
  shows "\<exists>raws. seal_inodes crc (demo_with xs) demo_geo fseed [2, 12] 12 jp lp ns ds = Inr raws"
proof -
  have epoch: "opt_epoch demo_options = 1704067200" by (simp add: demo_options_def Options_new_def)
  have metas: "stamps_ok (n_meta (fb_nodes (demo_with xs) ! 0))" "stamps_ok (n_meta (fb_nodes (demo_with xs) ! Suc 0))"
    "stamps_ok (Meta_new m 0 0 (1704067200, 0))" for m
    by (simp_all add: demo_with_def demo_meta_def stamps_ok_def Meta_new_def or_mtime_def)
  have "inode_table 12 (replicate 12 (zeros_buf 256))" by (auto simp: inode_table_def)
  then obtain r1 where r1: "reserved_inodes crc fseed 1704067200 (replicate 12 (zeros_buf 256)) = Inr r1" "inode_table 12 r1"
    using reserved_inodes_ok [of 1704067200 12 "replicate 12 (zeros_buf 256)" crc fseed] by auto
  obtain r2 where r2: "put_inode crc fseed 8 (journal_render demo_geo 1704067200 jp) r1 = Inr r2" "inode_table 12 r2"
    using put_inode_ok [OF _ _ _ _ r1(2), of "journal_render demo_geo 1704067200 jp" 8] metas(3)
    by (auto simp: journal_render_def stamps_ok_def Meta_new_def or_mtime_def)
  obtain r3 where r3: "put_inode crc fseed 11 (lost_found_render 1704067200 lp) r2 = Inr r3" "inode_table 12 r3"
    using put_inode_ok [OF _ _ _ _ r2(2), of "lost_found_render 1704067200 lp" 11]
    by (auto simp: lost_found_render_def stamps_ok_def Meta_new_def or_mtime_def)
  let ?d = "\<lparr>dp_slot = 0, dp_runs = rs, dp_plan = dp, dp_nblocks = 1, dp_is_htree = h\<rparr>"
  obtain r4 where r4: "put_inode crc fseed 2 (dir_inode_render (demo_with xs) [2, 12] (ns_xattrs ns) ?d) r3 = Inr r4"
    "inode_table 12 r4"
    using put_inode_ok [OF _ _ _ _ r3(2), of "dir_inode_render (demo_with xs) [2, 12] (ns_xattrs ns) ?d" 2] metas(1) assms(2)
    by (auto simp: dir_inode_render_def render_dir_def)
  obtain e where e: "empty_extent_plan = Inr e" using empty_extent_plan_ok by blast
  let ?m = "n_meta (fb_nodes (demo_with xs) ! 1)" and ?l = "n_nlink (fb_nodes (demo_with xs) ! 1)"
  obtain r5 where r5: "put_inode crc fseed 12 (render_file ?m ?l 5 (fp, 1) (0, ib)) r4 = Inr r5"
    using put_inode_ok [OF _ _ _ _ r4(2), of "render_file ?m ?l 5 (fp, 1) (0, ib)" 12] metas(2) assms(3)
    by (auto simp: render_file_def inode_render_plain_def)
  have n0: "put_node_inode crc (demo_with xs) fseed [2, 12] ns ds 0 r4 = Inr r4"
    by (simp add: put_node_inode_def node_render_def)
  have n1: "put_node_inode crc (demo_with xs) fseed [2, 12] ns ds (Suc 0) r4 = Inr r5"
    using r5 assms(2,4,5) by (simp add: put_node_inode_def node_render_def e Let_def)
  have two: "[0..<2] = [0, Suc 0]" by (simp add: upt_rec)
  show ?thesis
    unfolding seal_inodes_def Let_def demo_nodes(1) two assms(1)
    using r1(1) r2(1) r3(1) r4(1) n0 n1 epoch by simp
qed

theorem demo_seals_with:
  assumes xs: "demo_xattrs xs"
  shows "\<exists>lay. seal crc (demo_with xs) = Inr lay \<and> backups_fit (lay_geo lay) \<and> image_len lay = 16777216 \<and>
     fillable lay = {1} \<and> file_size lay 1 = 5 \<and> file_runs_of lay 1 = [\<lparr>run_start = 1097, run_len = 1\<rparr>] \<and>
     lay_slot_ino lay = [2, 12] \<and> geo_blocks (lay_geo lay) = 4096"
proof -
  let ?fs = "fs_seed crc (opt_fs_uuid demo_options)"
  obtain pl jp lp dp fp rd ib where p: "place_all crc (demo_with xs) demo_geo ?fs [2, 12] = Inr pl" and ib: "length ib \<le> 96"
    and pl: "pl = \<lparr>pl_group_meta = [(2, 3, 4)], pl_journal = ([\<lparr>run_start = 68, run_len = 1024\<rparr>], jp),
     pl_lost_found = ([\<lparr>run_start = 1092, run_len = 4\<rparr>], lp),
     pl_names = \<lparr>st_alloc = demo_alloc 1097, st_segments = [],
       ns_dirs = [\<lparr>dp_slot = 0, dp_runs = [\<lparr>run_start = 1096, run_len = 1\<rparr>], dp_plan = dp, dp_nblocks = 1,
                   dp_is_htree = needs_htree demo_entries\<rparr>],
       ns_rendered = rd, ns_xattrs = [(0, []), (0, ib)], ns_symlinks = [None, None]\<rparr>,
     pl_data = \<lparr>st_alloc = demo_alloc 1098, st_segments = [],
       ds_file_runs = [([], 0), ([\<lparr>run_start = 1097, run_len = 1\<rparr>], 5)], ds_file_plans = [None, Some (fp, 1)],
       ds_data_runs = [\<lparr>run_start = 1097, run_len = 1\<rparr>]\<rparr>\<rparr>"
    using demo_place_with [OF xs] by blast
  have fit: "backups_fit demo_geo" by (simp add: backups_fit_def backup_groups_def)
  have len: "length [2, 12] = length (fb_nodes (demo_with xs))" by simp
  note q = place_all_ok [OF p demo_wf demo_aligned len]
  have "\<exists>raws. seal_inodes crc (demo_with xs) demo_geo ?fs [2, 12] 12 (snd (pl_journal pl)) (snd (pl_lost_found pl))
      (pl_names pl) (pl_data pl) = Inr raws"
    by (rule demo_inodes) (use ib in \<open>simp_all add: pl\<close>)
  then obtain lay where lay: "render_all crc (demo_with xs) demo_geo ?fs [2, 12] 12 1024 pl = Inr lay"
    using render_all_returns [OF demo_wf q(1) q(2) [OF fit], of crc "demo_with xs" ?fs "[2, 12]" 12 1024] pl
    by (auto simp: demo_options_def Options_new_def)
  have j: "\<forall>r\<in>set (fst (pl_journal pl)). 0 < run_len r" by (simp add: pl)
  note r = render_all_ok [OF lay demo_wf q(3,4,5) j]
  have "seal crc (demo_with xs) = Inr lay"
    using demo_slots demo_geometry p lay by (simp add: seal_def Let_def inodes_count_def)
  moreover have "fillable lay = {1}"
    using r(10,11) pl by (auto simp: fillable_def file_runs_of_def less_Suc_eq)
  moreover have "image_len lay = 16777216" using r(9) by (simp add: image_len_def demo_options_def Options_new_def)
  ultimately show ?thesis
    using fit r(8,10,11) pl by (auto simp: file_size_def file_runs_of_def)
qed

theorem demo_seals:
  "\<exists>lay. seal crc demo_builder = Inr lay \<and> backups_fit (lay_geo lay) \<and> image_len lay = 16777216 \<and>
     fillable lay = {1} \<and> file_size lay 1 = 5 \<and> file_runs_of lay 1 = [\<lparr>run_start = 1097, run_len = 1\<rparr>] \<and>
     lay_slot_ino lay = [2, 12] \<and> geo_blocks (lay_geo lay) = 4096"
  by (rule demo_seals_with) (simp add: demo_xattrs_def)

end
