(* ===== verification/Built.thy ===== *)
theory Built
  imports ReadAttrs SealSample
begin

text \<open>
  The whole chain, once: a builder that a client can reach, sealed, written through the checking sink with
  the contents of its files, gives an image that the reader opens (\<open>built_opened\<close>), and the small sample
  builder goes through it (\<open>demo_ready\<close>).  The properties that read a built image back start here.
\<close>

lemma built_opened:
  assumes b: "builder_reachable strict opts b" "seal crc b = Inr lay" "backups_fit (lay_geo lay)" "options_wf (fb_opts b)"
    and fills: "fills_ok lay {} fills"
  obtains sm cs f geo max_ino pl where
    "build_image (checking_data vec_data) (checking_zeros vec_zeros) lay fills (checking_new []) = Inr (sm, cs)"
    "checking_finish cs (image_len lay) = Inr (image_bytes lay fills)"
    "Fs_open crc (slice_source (image_bytes lay fills)) = Inr f"
    "opened crc b lay fills f geo (lay_slot_ino lay) max_ino pl"
proof -
  have "layout_ok lay" "files_ok lay" using seal_layout [OF b(2) reachable_aligned [OF b(1)] b(3)] by simp_all
  note img = checked_image [OF this fills]
  have "fst ` set fills \<subseteq> fillable lay" using fills by (simp add: fills_ok_def)
  from sealed_opened [OF b this] obtain f geo slot_ino max_ino pl where
    op: "opened crc b lay fills f geo slot_ino max_ino pl" by blast
  note op' = op [folded opened_layout(4) [OF op]]
  show ?thesis using img opened_handle(1) [OF op] op' that by blast
qed

lemma demo_options_wf: "options_wf (fb_opts demo_builder)"
  by (simp add: demo_options_def Options_new_def options_wf_def seed_from_uuid_def ascii_def)

lemma demo_ready:
  obtains lay where "seal crc demo_builder = Inr lay" "backups_fit (lay_geo lay)" "image_len lay = 16777216"
    "fills_ok lay {} [(1, [1, 2, 3, 4, 5])]" "lay_slot_ino lay = [2, 12]"
proof -
  obtain lay where l: "seal crc demo_builder = Inr lay" "backups_fit (lay_geo lay)" "image_len lay = 16777216"
    "fillable lay = {1}" "file_size lay 1 = 5" "lay_slot_ino lay = [2, 12]"
    using demo_seals [of crc] by blast
  moreover have "fills_ok lay {} [(1, [1, 2, 3, 4, 5])]" using l(4,5) by (simp add: fills_ok_def)
  ultimately show ?thesis using that by blast
qed

text \<open>What the names of the sample builder mean.\<close>

lemma demo_lookup: "lookup (demo_with xs) 0 nm = (if nm = [97] then Some 1 else None)"
  by (simp add: lookup_def demo_with_def)

lemma demo_listing: "dir_listing (demo_with xs) [2, 12] 0 = [lost_found_entry, ([97], 12, ft_REG)]"
  by (simp add: dir_listing_def dir_entries_def dir_children_def dirent_of_def is_live_def name_of_def kind_ftype_def demo_with_def)

end
