(* ===== verification/GroupsClean.thy ===== *)
theory GroupsClean
  imports Built VerifyBuilt
begin

text \<open>
  The groups of a built image, as the verifier sees them: descriptors with their checksums, bitmaps with
  theirs and with their padding set, and an inode bitmap that marks exactly the inodes that sealing numbered.
\<close>

section \<open>What sealing rendered beside the inodes\<close>

lemma opened_meta:
  assumes op: "opened crc b lay fills f geo slot_ino max_ino pl"
    and b: "builder_reachable strict opts b" "seal crc b = Inr lay" "backups_fit (lay_geo lay)" "options_wf (fb_opts b)"
  obtains n used descs free gsegs name jseg c raw bm where
    "fs_sb f = (seal_superblock (fb_opts b) geo n max_ino free used raw name)\<lparr>s_checksum := c\<rparr>"
    "n = geo_inodes_per_group geo * geo_groups geo" "n < 2 ^ 32" "max_ino \<le> n" "length (lay_inodes lay) = max_ino"
    "fs_gdt f = concat (map group_desc_bytes descs)" "gdt_holds geo (pl_group_meta pl) descs"
    "seal_groups crc (fs_csum_seed f) geo bm max_ino (lay_inodes lay) (pl_group_meta pl) = Inr (descs, free, gsegs)"
    "journal_seg geo (opt_fs_uuid (fb_opts b)) (fst (pl_journal pl)) = Inr jseg"
    "\<And>block bs. block_seg block bs \<in> insert jseg (set gsegs) \<Longrightarrow> length bs = 4096 \<Longrightarrow> read_block f block = Inr bs"
proof -
  note h = opened_handle [OF op] and l = opened_layout [OF op] and so = opened_slots [OF op] and sl = opened_seal [OF op]
  have geo: "lay_geo lay = geo" using op unfolding opened_def by - (elim conjE, assumption)
  from b l(3) show thesis
  proof (rule sealed_handle, goal_cases)
    case (1 geo' slot_ino' nxt n pl' bm used descs free gsegs name sb jseg c raw)
    note p = this
    have same: "geo' = geo" "slot_ino' = slot_ino" "nxt = max_ino + 1" using p(1,6) geo so(6) by auto
    then have "pl' = pl" using p(13) sl(1) h(9) by simp
    note same = same this
    have f: "fs_sb f = sb" "fs_gdt f = concat (map group_desc_bytes descs)" "fs_block_size f = 4096"
      using p(21) h(1) by auto
    have small: "image_len lay < 2 ^ 60" using h(6,8) by simp
    have rd: "read_block f block = Inr bs" if "block_seg block bs \<in> insert jseg (set gsegs)" "length bs = 4096" for block bs
    proof -
      have "block_segs [block_seg block bs]" using that(2) by (simp add: block_segs_def block_seg_def)
      then have "served f [block_seg block bs]" using that(1) p(19)
        by (intro served_segments [OF l(1,2,3) small h(3) f(3)]) auto
      then show ?thesis by (simp add: served_def seg_bytes_def block_seg_def)
    qed
    note p' = p [unfolded same add_diff_cancel_right']
    show thesis
      by (rule that [OF p'(20) [folded f(1)] p'(2) p'(3) _ _ f(2) p'(17) _ p'(18) rd]) (use p'(4,15,16) h(9) in auto)
  qed
qed

lemma sealed_sb_fields:
  assumes "sb = (seal_superblock opts geo n max_ino free used raw name)\<lparr>s_checksum := c\<rparr>"
  shows "s_inodes_count sb = of_nat n" "s_blocks_count sb = of_nat (geo_blocks geo)" "s_first_data_block sb = 0"
    "s_blocks_per_group sb = 32768" "s_inodes_per_group sb = of_nat (geo_inodes_per_group geo)" "s_journal_inum sb = 8"
    "s_hash_seed sb = opt_hash_seed opts" "hash_signedness sb = Signed" "superblock_desc_size sb = 32"
    "s_feature_compat sb = compat_WRITER"
  by (simp_all add: assms seal_superblock_def Let_def hash_signedness_def superblock_desc_size_def)

section \<open>Bitmaps\<close>

lemma group_bitmap_padded:
  assumes "n \<le> 32768" "n \<le> i" "i < 32768"
  shows "bitmap_bit (group_bitmap_block bm start n) i"
proof -
  let ?is = "filter (\<lambda>i. bitmap_bit bm (start + i)) [0..<n] @ [n..<BLOCK_SIZE * 8]"
  have "\<forall>i\<in>set ?is. i div 8 < length (zeros_buf BLOCK_SIZE)" using assms(1) by (auto simp: less_mult_imp_div_less)
  note fs = fold_set_bits [OF this]
  show ?thesis unfolding group_bitmap_block_def using fs assms by simp
qed

lemma inode_bitmap_bits:
  assumes "0 < used" "used \<le> ipg" "ipg \<le> 32768" "i < 32768"
  shows "bitmap_bit (inode_bitmap_block used ipg) i \<longleftrightarrow> i < used \<or> ipg \<le> i"
proof -
  let ?is = "[0..<used] @ [ipg..<BLOCK_SIZE * 8]"
  have "\<forall>i\<in>set ?is. i div 8 < length (zeros_buf BLOCK_SIZE)" using assms(2,3) by (auto simp: less_mult_imp_div_less)
  note fs = fold_set_bits [OF this]
  have "i div 8 < 4096" using assms(4) by (simp add: less_mult_imp_div_less)
  then show ?thesis unfolding inode_bitmap_block_def using fs assms by auto
qed

section \<open>One group\<close>

lemma group_desc_bytes_front: "take 0x1E (group_desc_bytes (d\<lparr>bg_checksum := c\<rparr>)) = take 0x1E (group_desc_bytes d)"
  by (simp add: group_desc_bytes_def Let_def buf_simps)

lemma desc_stamped:
  "bindE (group_desc_encode32 d (zeros_buf 32)) (\<lambda>raw. bindE (csum_group_desc crc fseed g raw) (\<lambda>c. Inr (d\<lparr>bg_checksum := c\<rparr>, x))) =
     Inr (d\<lparr>bg_checksum := group_desc_sum crc fseed g (group_desc_bytes d)\<rparr>, x)"
  by (simp add: group_desc_encode32_def csum_group_desc_def)

lemma stamped_sum:
  "d' = d\<lparr>bg_checksum := group_desc_sum crc fseed g (group_desc_bytes d)\<rparr> \<Longrightarrow>
   bg_checksum d' = group_desc_sum crc fseed g (group_desc_bytes d')"
  by (simp add: group_desc_sum_def group_desc_bytes_front)

text \<open>What sealing put in a group's descriptor and bitmaps.\<close>

lemma seal_group_renders:
  assumes "seal_group crc fseed geo bm max_ino inodes (g, bb, ib, it) = Inr (d, free, segs)" "geometry_wf geo" "g < geo_groups geo"
  defines "used \<equiv> used_inodes_in_group geo max_ino g"
  shows "bg_checksum d = group_desc_sum crc fseed (of_nat g) (group_desc_bytes d)"
    "bg_flags d = bg_INODE_ZEROED OR (if used = 0 then bg_INODE_UNINIT else 0)"
    "bg_block_bitmap_csum d = ucast (csum_block_bitmap crc fseed (group_bitmap_block bm (group_start g) (group_blocks geo g)))"
    "bg_inode_bitmap_csum d = (if used = 0 then 0 else
       ucast (inode_bitmap_sum crc fseed (inode_bitmap_block used (geo_inodes_per_group geo)) (of_nat (geo_inodes_per_group geo))))"
    "block_seg bb (group_bitmap_block bm (group_start g) (group_blocks geo g)) \<in> set segs"
    "block_seg ib (inode_bitmap_block used (geo_inodes_per_group geo)) \<in> set segs"
proof -
  let ?ipg = "geo_inodes_per_group geo"
  have ipg: "?ipg \<le> 32768" using assms(2) by (simp add: geometry_wf_def)
  then have "unat (of_nat ?ipg :: u32) = ?ipg" by (simp add: unat_of_nat)
  then have cs: "(if used = 0 then Inr 0 else csum_inode_bitmap crc fseed (inode_bitmap_block used ?ipg) (of_nat ?ipg)) =
      Inr (if used = 0 then 0 else inode_bitmap_sum crc fseed (inode_bitmap_block used ?ipg) (of_nat ?ipg))"
    using div_le_mono [of "?ipg + 7" "32768 + 7" 8] ipg by (simp add: csum_inode_bitmap_def)
  have gb: "blocks_in_group geo g = Inr (group_blocks geo g)" using blocks_in_group_eq(1) [OF assms(2,3)] by simp
  note eqs = assms(1) [unfolded seal_group_def prod.case gb bindE_Inr Let_def, folded used_def, unfolded cs bindE_Inr desc_stamped]
  then obtain d0 where "d = d0\<lparr>bg_checksum := group_desc_sum crc fseed (of_nat g) (group_desc_bytes d0)\<rparr>"
    by (simp only: sum.inject prod.inject) blast
  then show "bg_checksum d = group_desc_sum crc fseed (of_nat g) (group_desc_bytes d)" by (rule stamped_sum)
  show "bg_flags d = bg_INODE_ZEROED OR (if used = 0 then bg_INODE_UNINIT else 0)"
    "bg_block_bitmap_csum d = ucast (csum_block_bitmap crc fseed (group_bitmap_block bm (group_start g) (group_blocks geo g)))"
    "bg_inode_bitmap_csum d = (if used = 0 then 0 else
       ucast (inode_bitmap_sum crc fseed (inode_bitmap_block used (geo_inodes_per_group geo)) (of_nat (geo_inodes_per_group geo))))"
    "block_seg bb (group_bitmap_block bm (group_start g) (group_blocks geo g)) \<in> set segs"
    "block_seg ib (inode_bitmap_block used (geo_inodes_per_group geo)) \<in> set segs"
    using eqs by auto
qed

text \<open>The superblock fields that the verifier uses, and what it finds of a group.\<close>

definition sb_sealed :: "fs_builder \<Rightarrow> fs \<Rightarrow> geometry \<Rightarrow> nat \<Rightarrow> bool" where
  "sb_sealed b f geo max_ino \<longleftrightarrow> (\<exists>n. s_inodes_count (fs_sb f) = of_nat n \<and> max_ino \<le> n \<and> n < 2 ^ 32 \<and>
     n = geo_inodes_per_group geo * geo_groups geo) \<and>
   s_blocks_count (fs_sb f) = of_nat (geo_blocks geo) \<and> s_first_data_block (fs_sb f) = 0 \<and>
   s_blocks_per_group (fs_sb f) = 32768 \<and> s_inodes_per_group (fs_sb f) = of_nat (geo_inodes_per_group geo) \<and>
   s_journal_inum (fs_sb f) = 8 \<and> s_hash_seed (fs_sb f) = opt_hash_seed (fb_opts b) \<and>
   hash_signedness (fs_sb f) = Signed \<and> geometry_wf geo"

definition group_sealed :: "crc \<Rightarrow> fs \<Rightarrow> geometry \<Rightarrow> nat \<Rightarrow> bytes \<Rightarrow> nat \<Rightarrow> group_desc \<Rightarrow> bool" where
  "group_sealed crc f geo max_ino bm g d \<longleftrightarrow>
    read_group_desc_raw f g = Inr (group_desc_bytes d) \<and> read_group_desc f g = Inr d \<and>
    bg_checksum d = group_desc_sum crc (fs_csum_seed f) (of_nat g) (group_desc_bytes d) \<and>
    bg_flags d = bg_INODE_ZEROED OR (if used_inodes_in_group geo max_ino g = 0 then bg_INODE_UNINIT else 0) \<and>
    bg_block_bitmap_csum d = ucast (csum_block_bitmap crc (fs_csum_seed f) (group_bitmap_block bm (group_start g) (group_blocks geo g))) \<and>
    bg_inode_bitmap_csum d = (if used_inodes_in_group geo max_ino g = 0 then 0 else
       ucast (inode_bitmap_sum crc (fs_csum_seed f) (inode_bitmap_block (used_inodes_in_group geo max_ino g) (geo_inodes_per_group geo))
         (of_nat (geo_inodes_per_group geo)))) \<and>
    read_block f (unat (bg_block_bitmap d)) = Inr (group_bitmap_block bm (group_start g) (group_blocks geo g)) \<and>
    read_block f (unat (bg_inode_bitmap d)) =
      Inr (inode_bitmap_block (used_inodes_in_group geo max_ino g) (geo_inodes_per_group geo))"

lemma opened_groups:
  assumes op: "opened crc b lay fills f geo slot_ino max_ino pl"
    and b: "builder_reachable strict opts b" "seal crc b = Inr lay" "backups_fit (lay_geo lay)" "options_wf (fb_opts b)"
  shows "sb_sealed b f geo max_ino \<and> length (lay_inodes lay) = max_ino \<and>
    (\<exists>bm. \<forall>g<geo_groups geo. \<exists>d. group_sealed crc f geo max_ino bm g d) \<and>
    (\<exists>jseg. journal_seg geo (opt_fs_uuid (fb_opts b)) (fst (pl_journal pl)) = Inr jseg \<and>
      (\<forall>block bs. jseg = block_seg block bs \<longrightarrow> length bs = 4096 \<longrightarrow> read_block f block = Inr bs))"
proof (rule opened_meta [OF op b], goal_cases)
  case (1 n used descs free gsegs name jseg c raw bm)
  note h = opened_handle [OF op] and geo = opened_handle(7) [OF op]
  note sb = sealed_sb_fields [OF 1(1)]
  have "sb_sealed b f geo max_ino" using sb 1(2-4) geo unfolding sb_sealed_def by blast
  moreover have "\<exists>d. group_sealed crc f geo max_ino bm g d" if g: "g < geo_groups geo" for g
  proof -
    have l: "length (pl_group_meta pl) = geo_groups geo" "length descs = geo_groups geo" using 1(7) by (simp_all add: gdt_holds_def)
    obtain bb ib it where m: "pl_group_meta pl ! g = (bb, ib, it)" by (metis prod_cases3)
    obtain fr segs where s: "seal_group crc (fs_csum_seed f) geo bm max_ino (lay_inodes lay) (g, bb, ib, it) = Inr (descs ! g, fr, segs)"
      "set segs \<subseteq> set gsegs"
      using seal_groups_each(1) [OF 1(8), of g] g l m by auto
    note r = seal_group_renders [OF s(1) geo g] and q = seal_group_parts(4,5) [OF s(1) geo g]
    have rb: "read_block f bb = Inr (group_bitmap_block bm (group_start g) (group_blocks geo g))"
      "read_block f ib = Inr (inode_bitmap_block (used_inodes_in_group geo max_ino g) (geo_inodes_per_group geo))"
      using r(5,6) s(2) by (auto intro!: 1(10))
    then have "bb < geo_blocks geo" "ib < geo_blocks geo" using one_block_bytes(1) [OF op] by blast+
    then have u: "unat (bg_block_bitmap (descs ! g)) = bb" "unat (bg_inode_bitmap (descs ! g)) = ib"
      using q h(8) by (simp_all add: unat_of_nat)
    have "g * 32 + 32 \<le> length (fs_gdt f)" using g l(2) group_desc_codec.length_table [of descs] 1(6) by simp
    moreover have "g * 32 < 2 ^ 64" using g geometry_bounds(1) [OF geo] by simp
    moreover have "peek (fs_gdt f) (g * 32) 32 = group_desc_bytes (descs ! g)"
      using group_desc_codec.peek_table [of g descs "[]"] g l(2) 1(6) by simp
    ultimately have "read_group_desc_raw f g = Inr (group_desc_bytes (descs ! g))"
      using sb(9) by (simp add: read_group_desc_raw_def Let_def mul64_def)
    moreover have "read_group_desc f g = Inr (descs ! g)" using read_desc_sealed [OF 1(7) g geo 1(6) sb(9)] .
    ultimately show ?thesis unfolding group_sealed_def using r(1-4) rb u by (intro exI [of _ "descs ! g"]) simp
  qed
  ultimately show ?case using 1(5,9,10) by auto
qed

section \<open>What the verifier says of the groups\<close>

lemma clean_issues: "(\<And>x. x \<in> set xs \<Longrightarrow> check x = Inr []) \<Longrightarrow> issues_of check xs = Inr []"
proof -
  assume "\<And>x. x \<in> set xs \<Longrightarrow> check x = Inr []"
  then have "mapE check xs = Inr (map (\<lambda>_. []) xs)" by (intro mapE_Inr) simp
  then show ?thesis by (simp add: issues_of_def)
qed

lemma low16: "(ucast (x :: u16) :: u32) AND 0xFFFF = ucast x"
proof -
  have m: "(0xFFFF :: u32) = mask 16" by (simp add: mask_eq_exp_minus_1)
  show ?thesis unfolding m by (rule bit_word_eqI) (auto simp: bit_simps dest: bit_imp_le_length)
qed

lemma verify_group_clean:
  assumes "sb_sealed b f geo max_ino" "group_sealed crc f geo max_ino bm g d" "g < geo_groups geo"
  shows "verify_group crc f has_csum g = Inr []"
proof -
  have geo: "geometry_wf geo" and sb: "s_blocks_count (fs_sb f) = of_nat (geo_blocks geo)" "s_first_data_block (fs_sb f) = 0"
    "s_blocks_per_group (fs_sb f) = 32768" "s_inodes_per_group (fs_sb f) = of_nat (geo_inodes_per_group geo)"
    using assms(1) unfolding sb_sealed_def by blast+
  have w: "geo_blocks geo < 2 ^ 32 - 1" "geo_inodes_per_group geo \<le> 32768" using geo by (simp_all add: geometry_wf_def)
  let ?used = "used_inodes_in_group geo max_ino g" and ?ipg = "geo_inodes_per_group geo"
  note gs = assms(2) [unfolded group_sealed_def]
  have gb: "group_start g < geo_blocks geo" "group_blocks geo g = min (geo_blocks geo - group_start g) 32768"
    using blocks_in_group_eq(2) [OF geo assms(3)] by (simp_all add: blocks_in_group_def)
  have u: "unat (of_nat (geo_blocks geo) :: u64) = geo_blocks geo" "unat (of_nat ?ipg :: u32) = ?ipg"
    using w by (simp_all add: unat_of_nat)
  have bb: "verify_block_bitmap crc f g d = Inr []"
  proof -
    have "list_all (bitmap_bit (group_bitmap_block bm (group_start g) (group_blocks geo g))) [group_blocks geo g..<32768]"
      unfolding list_all_iff using gb(2) by (auto intro!: group_bitmap_padded)
    moreover have "min (geo_blocks geo - g * 32768) 32768 = group_blocks geo g" "g * 32768 \<le> geo_blocks geo"
      using gb by (simp_all add: group_start_def)
    moreover have "bg_flags d AND bg_BLOCK_UNINIT = 0" using gs by simp
    ultimately show ?thesis
      using gs sb u low16 by (simp add: verify_block_bitmap_def Let_def padding_issue_def issue_unless_def del: group_blocks.simps)
  qed
  have ib: "verify_inode_bitmap crc f d = Inr []"
  proof (cases "?used = 0")
    case True
    then show ?thesis using gs by (simp add: verify_inode_bitmap_def issue_unless_def)
  next
    case False
    have used: "?used \<le> ?ipg" by (simp add: used_inodes_in_group_def)
    have "list_all (bitmap_bit (inode_bitmap_block ?used ?ipg)) [?ipg..<32768]"
      unfolding list_all_iff using inode_bitmap_bits [of ?used ?ipg] False used w(2) by auto
    moreover have "(?ipg + 7) div 8 \<le> 4096" using div_le_mono [of "?ipg + 7" "32768 + 7" 8] w(2) by simp
    moreover have "bg_flags d AND bg_INODE_UNINIT = 0" using gs False by simp
    ultimately show ?thesis
      using gs False sb(4) u(2) low16
      by (simp add: verify_inode_bitmap_def Let_def padding_issue_def issue_unless_def csum_inode_bitmap_def)
  qed
  show ?thesis using gs bb ib by (simp add: verify_group_def csum_group_desc_def issue_unless_def)
qed

lemma verify_reserved_clean:
  assumes "sb_sealed b f geo max_ino" "group_sealed crc f geo max_ino bm 0 d" "11 \<le> max_ino"
  shows "verify_reserved f = Inr []"
  unfolding verify_reserved_def
proof (rule clean_issues)
  fix ino assume "ino \<in> set [1..<min 10 (unat (s_inodes_count (fs_sb f))) + 1]"
  then have ino: "1 \<le> ino" "ino \<le> 10" by auto
  let ?ipg = "geo_inodes_per_group geo" and ?used = "used_inodes_in_group geo max_ino 0"
  have sb: "s_inodes_per_group (fs_sb f) = of_nat ?ipg" and ipg: "16 \<le> ?ipg" "?ipg \<le> 32768"
    using assms(1) by (auto simp: sb_sealed_def geometry_wf_def)
  have u: "unat (of_nat ?ipg :: u32) = ?ipg" "unat (of_nat ino :: u32) = ino" using ipg ino by (simp_all add: unat_of_nat)
  have nz: "(of_nat ino :: u32) \<noteq> 0" using u(2) ino(1) by (metis not_one_le_zero unat_0)
  have used: "11 \<le> ?used" "?used \<le> ?ipg" using assms(3) ipg(1) by (simp_all add: used_inodes_in_group_def)
  note gs = assms(2) [unfolded group_sealed_def]
  have "bg_flags d AND bg_INODE_UNINIT = 0" using gs used(1) by simp
  moreover have "bitmap_bit (inode_bitmap_block ?used ?ipg) (ino - 1)"
    using inode_bitmap_bits [of ?used ?ipg "ino - 1"] used ipg(2) ino by auto
  moreover have "(ino - 1) div ?ipg = 0" "(ino - 1) mod ?ipg = ino - 1" using ino ipg(1) by simp_all
  ultimately have "inode_in_use f (of_nat ino) = Inr True"
    using gs sb u nz by (simp add: inode_in_use_def Let_def)
  then show "bindE (inode_in_use f (of_nat ino)) (\<lambda>used. Inr (issue_unless used ''reserved inode not marked in use'')) = Inr []"
    by (simp add: issue_unless_def)
qed

text \<open>The inodes that the bitmaps mark are the numbered ones.\<close>

lemma verify_group_inodes_clean:
  assumes "sb_sealed b f geo max_ino" "group_sealed crc f geo max_ino bm g d" "g < geo_groups geo"
    and each: "\<And>ino. 0 < ino \<Longrightarrow> ino \<le> max_ino \<Longrightarrow> verify_inode crc f has_csum (of_nat ino) = Inr []"
  shows "verify_group_inodes crc f has_csum g = Inr []"
proof -
  let ?ipg = "geo_inodes_per_group geo" and ?used = "used_inodes_in_group geo max_ino g"
  obtain n where n: "max_ino \<le> n" "n < 2 ^ 32" "n = ?ipg * geo_groups geo" and geo: "geometry_wf geo"
    and sb: "s_inodes_per_group (fs_sb f) = of_nat ?ipg"
    using assms(1) unfolding sb_sealed_def by blast
  have ipg: "?ipg \<le> 32768" using geo by (simp add: geometry_wf_def)
  then have u: "unat (of_nat ?ipg :: u32) = ?ipg" by (simp add: unat_of_nat)
  have g: "g mod 2 ^ 32 = g" using assms(3) geometry_bounds(1) [OF geo] by simp
  note gs = assms(2) [unfolded group_sealed_def]
  show ?thesis
  proof (cases "?used = 0")
    case True
    then show ?thesis using gs by (simp add: verify_group_inodes_def)
  next
    case False
    have flag: "bg_flags d AND bg_INODE_UNINIT = 0" using gs False by simp
    have used: "0 < ?used" "?used \<le> ?ipg" "?used \<le> max_ino - g * ?ipg" using False by (simp_all add: used_inodes_in_group_def)
    have one: "(if \<not> bitmap_bit (inode_bitmap_block ?used ?ipg) idx then Inr []
        else if 2 ^ 32 \<le> g mod 2 ^ 32 * ?ipg + idx + 1 then Inl Panic
        else verify_inode crc f has_csum (of_nat (g mod 2 ^ 32 * ?ipg + idx + 1))) = Inr []" if "idx \<in> set [0..<?ipg]" for idx
    proof (cases "idx < ?used")
      case True
      then have "g * ?ipg + idx + 1 \<le> max_ino" using used(3) by simp
      moreover have "g * ?ipg + idx + 1 < 2 ^ 32" using calculation n(1,2) by simp
      ultimately show ?thesis using each [of "g * ?ipg + idx + 1"] unfolding g by auto
    next
      case False
      then show ?thesis using inode_bitmap_bits [OF used(1,2) ipg, of idx] that ipg by simp
    qed
    have "issues_of (\<lambda>idx. if \<not> bitmap_bit (inode_bitmap_block ?used ?ipg) idx then Inr []
        else if 2 ^ 32 \<le> g mod 2 ^ 32 * ?ipg + idx + 1 then Inl Panic
        else verify_inode crc f has_csum (of_nat (g mod 2 ^ 32 * ?ipg + idx + 1))) [0..<?ipg] = Inr []"
      using one by (rule clean_issues)
    then show ?thesis using gs flag sb u by (simp add: verify_group_inodes_def Let_def)
  qed
qed

end
