(* ===== verification/PlansClean.thy ===== *)
theory PlansClean
  imports GroupsClean
begin

text \<open>
  The extents of a built image, as the verifier sees them: the extent plan of an inode, of whatever kind,
  walks to ascending extents on the device. The journal and lost+found are planned like directories.
\<close>

section \<open>One plan\<close>

lemma verify_extents_clean:
  assumes "extents_sorted es" "\<forall>e\<in>set es. fx_physical e + fx_len e \<le> unat (s_blocks_count (fs_sb f))"
  shows "verify_extents f es = []"
proof -
  have "list_all (\<lambda>(a, b). \<not> fx_logical a + fx_len a > fx_logical b) (zip es (tl es))"
    using assms(1) unfolding extents_sorted_def
  proof (induction es)
    case (Cons e es)
    then show ?case by (cases es) auto
  qed simp
  moreover have "concat (map (\<lambda>e. issue_unless (\<not> fx_physical e + fx_len e > unat (s_blocks_count (fs_sb f)))
      ''extent past end of fs'') es) = []"
    using assms(2) by (auto simp: issue_unless_def)
  ultimately show ?thesis by (simp add: verify_extents_def issue_unless_def)
qed

lemma pairs_sorted: "pairs_within lo hi pairs \<Longrightarrow> extents_sorted (map fx_of (plan_exts pairs))"
  by (simp add: extents_sorted_def pairs_within_def plan_exts_def sorted_wrt_map fx_of_def case_prod_unfold)

lemma last_of_run: "r \<in> set rs \<Longrightarrow> 0 < run_len r \<Longrightarrow> run_start r + run_len r - 1 \<in> set (expand_runs rs)"
  by (auto simp: expand_runs_def intro!: bexI [of _ r])

lemma plan_clean:
  assumes op: "opened crc b lay fills f geo slot_ino max_ino pl"
    and p: "alloc_wf a" "plan_extents crc pairs ino (fs_csum_seed f) a = Inr (plan, a', tsegs)" "served f tsegs"
    and runs: "pairs_within lo hi pairs" "\<forall>r\<in>set (map snd pairs). 0 < run_len r \<and> run_len r \<le> 32768"
      "\<forall>b\<in>set (expand_runs (map snd pairs)). b < geo_blocks geo"
    and i: "i_flags i AND iflags_EXTENTS \<noteq> 0" "i_block i = ep_root plan" "i_generation i = 0"
  shows "fs_extents crc f ino i = Inr (map fx_of (plan_exts pairs))" "verify_extents f (map fx_of (plan_exts pairs)) = []"
    "\<forall>x\<in>set (plan_exts pairs). ext_ok x"
proof -
  note h = opened_handle [OF op]
  have each: "run_start r + run_len r \<le> geo_blocks geo \<and> run_len r \<le> 32768 \<and> 0 < run_len r" if "(l, r) \<in> set pairs" for l r
  proof -
    have r: "r \<in> set (map snd pairs)" using that by force
    then have "0 < run_len r" "run_len r \<le> 32768" using runs(2) by blast+
    moreover have "run_start r + run_len r - 1 \<in> set (expand_runs (map snd pairs))"
      using r calculation(1) by (rule last_of_run)
    then have "run_start r + run_len r - 1 < geo_blocks geo" using runs(3) by blast
    ultimately show ?thesis by linarith
  qed
  show ok: "\<forall>x\<in>set (plan_exts pairs). ext_ok x"
    using each h(8) by (fastforce simp: plan_exts_def ext_ok_def)
  have "walk_extent_node crc f ino i (ep_root plan) None = Inr (map fx_of (plan_exts pairs))"
    using plan_extents_reads [OF p(1,2) ok p(3) i(3)] .
  moreover have "extent_root i = Some (ep_root plan)"
    using i plan_root [OF p(1,2)] by (simp add: extent_root_def inode_uses_extents_def)
  ultimately show "fs_extents crc f ino i = Inr (map fx_of (plan_exts pairs))" by (simp add: fs_extents_def)
  have "unat (s_blocks_count (fs_sb f)) = geo_blocks geo" using h(5,8) by (simp add: unat_of_nat)
  then have "\<forall>e\<in>set (map fx_of (plan_exts pairs)). fx_physical e + fx_len e \<le> unat (s_blocks_count (fs_sb f))"
    using each by (auto simp: plan_exts_def fx_of_def)
  with pairs_sorted [OF runs(1)] show "verify_extents f (map fx_of (plan_exts pairs)) = []" by (rule verify_extents_clean)
qed

section \<open>Dense plans\<close>

definition dense_planned :: "crc \<Rightarrow> nat \<Rightarrow> u32 \<Rightarrow> segment list \<Rightarrow> nat \<Rightarrow> run list \<Rightarrow> extent_plan \<Rightarrow> bool" where
  "dense_planned crc ino fseed segs n runs plan \<longleftrightarrow> (\<exists>pairs a a' tsegs.
    length (expand_runs runs) = n \<and> (\<forall>r\<in>set runs. 0 < run_len r \<and> run_len r \<le> 32768) \<and> with_logicals runs = Inr pairs \<and>
    alloc_wf a \<and> plan_extents crc pairs (of_nat ino) fseed a = Inr (plan, a', tsegs) \<and> mset tsegs \<subseteq># mset segs)"

lemma dense_planned_mono:
  "dense_planned crc ino fseed segs n runs plan \<Longrightarrow> mset segs \<subseteq># mset segs' \<Longrightarrow> dense_planned crc ino fseed segs' n runs plan"
  unfolding dense_planned_def by (blast intro: subset_mset.order_trans)

lemma st_dense_planned:
  assumes "alloc_wf (st_alloc st)" "st_dense crc n ino fseed st = Inr ((runs, plan), st')"
  shows "dense_planned crc ino fseed (st_segments st') n runs plan" "extends st st'"
proof -
  obtain st2 pairs where d: "st_take n st = Inr (runs, st2)" "with_logicals runs = Inr pairs" "st_plan crc pairs ino fseed st2 = Inr (plan, st')"
    using assms(2) by (auto simp: st_dense_def bindE_eq_Inr)
  obtain a where a: "take_runs (st_alloc st) n MAX_EXTENT err_full = Inr (runs, a)" "st2 = st\<lparr>st_alloc := a\<rparr>"
    using d(1) by (auto simp: st_take_def bindE_eq_Inr)
  have me: "0 < MAX_EXTENT" by simp
  note tk = take_runs_ok [OF assms(1) me a(1)]
  obtain a2 tsegs where p: "plan_extents crc pairs (of_nat ino) fseed (st_alloc st2) = Inr (plan, a2, tsegs)"
    "st' = st2\<lparr>st_alloc := a2, st_segments := st_segments st2 @ tsegs\<rparr>"
    using st_plan_frame [OF d(3)] by blast
  show "dense_planned crc ino fseed (st_segments st') n runs plan"
    unfolding dense_planned_def using tk d(2) p a(2) by (intro exI [of _ pairs] exI [of _ a] exI [of _ a2] exI [of _ tsegs]) auto
  show "extends st st'" using p(2) a(2) by (simp add: extends_def)
qed

lemma dense_clean:
  assumes op: "opened crc b lay fills f geo slot_ino max_ino pl"
    and p: "dense_planned crc ino (fs_csum_seed f) (st_segments (pl_data pl)) n runs plan" "\<forall>b\<in>set (expand_runs runs). b < geo_blocks geo"
    and i: "i_flags i AND iflags_EXTENTS \<noteq> 0" "i_block i = ep_root plan" "i_generation i = 0"
  shows "\<exists>es. fs_extents crc f (of_nat ino) i = Inr es \<and> verify_extents f es = [] \<and> length (expand_runs runs) = n \<and>
    (\<forall>k<n. file_block es k = Some (expand_runs runs ! k))"
proof -
  note h = opened_handle [OF op] and sl = opened_seal [OF op]
  obtain pairs a a' tsegs where d: "length (expand_runs runs) = n" "\<forall>r\<in>set runs. 0 < run_len r \<and> run_len r \<le> 32768"
    "with_logicals runs = Inr pairs" "alloc_wf a" "plan_extents crc pairs (of_nat ino) (fs_csum_seed f) a = Inr (plan, a', tsegs)"
    "mset tsegs \<subseteq># mset (st_segments (pl_data pl))"
    using p(1) unfolding dense_planned_def by blast
  have sv: "served f tsegs" using sl(3) set_mset_mono [OF d(6)] by (auto simp: served_def)
  note l = logicals_from_map [OF d(3) [unfolded with_logicals_def]]
  have snd: "map snd pairs = runs" and within: "pairs_within (unat (0 :: u32)) (unat (0 :: u32) + length (expand_runs runs)) pairs"
    using l by blast+
  note c = plan_clean [OF op d(4,5) sv within _ _ i, unfolded snd, OF d(2) p(2)]
  have "\<forall>b\<in>set (expand_runs runs). b < 2 ^ 32" using p(2) h(8) by fastforce
  note db = dense_block(2) [OF d(3,2) this]
  show ?thesis using c(1,2) d(1) db by blast
qed

section \<open>The journal and lost+found\<close>

lemma seal_slot_grows:
  assumes "alloc_wf (st_alloc st)" "seal_slot crc b slot_ino parents fseed k st = Inr st'"
  shows "extends st st' \<and> set (ns_rendered st) \<subseteq> set (ns_rendered st')"
proof (cases "slot_ino ! k = 0")
  case False
  then obtain st1 where s: "seal_xattrs crc b fseed k st = Inr st1"
    "(case n_kind (fb_nodes b ! k) of
         node_kind.Dir children _ \<Rightarrow> seal_directory crc b slot_ino parents fseed k children st1
       | node_kind.Symlink target \<Rightarrow>
           if 59 < length target then seal_slow_symlink crc (slot_ino ! k) fseed k target st1 else Inr st1
       | _ \<Rightarrow> Inr st1) = Inr st'"
    using assms(2) by (auto simp: seal_slot_def Let_def bindE_eq_Inr)
  have d: "set (ns_rendered st1) \<subseteq> set (ns_rendered st')" if sd: "seal_directory crc b slot_ino parents fseed k children st1 = Inr st'" for children
  proof -
    obtain runs plan bs st2 h where d: "st_dense crc (length bs) (slot_ino ! k) fseed st1 = Inr ((runs, plan), st2)"
      "st' = st2\<lparr>ns_rendered := ns_rendered st2 @ zip (expand_runs runs) bs,
             ns_dirs := ns_dirs st2 @ [\<lparr>dp_slot = k, dp_runs = runs, dp_plan = plan, dp_nblocks = length bs, dp_is_htree = h\<rparr>]\<rparr>"
      using sd by (auto simp: seal_directory_def Let_def bindE_eq_Inr)
    then show ?thesis using st_dense_frame [OF d(1)] by auto
  qed
  have "extends st1 st' \<and> set (ns_rendered st1) \<subseteq> set (ns_rendered st')"
    using s(2) seal_directory_frame(1) d seal_slow_symlink_dirs by (auto split: node_kind.splits if_splits)
  then show ?thesis using seal_xattrs_frame [OF s(1)] extends_trans by (metis order.trans order.refl)
qed (use assms in \<open>simp add: seal_slot_def\<close>)

lemma place_all_reserved:
  assumes "place_all crc b geo fseed slot_ino = Inr pl" "geometry_wf geo"
  shows "dense_planned crc 8 fseed (st_segments (pl_data pl)) (geo_journal_blocks geo) (fst (pl_journal pl)) (snd (pl_journal pl))"
    "dense_planned crc 11 fseed (st_segments (pl_data pl)) 4 (fst (pl_lost_found pl)) (snd (pl_lost_found pl))"
    "\<exists>lfb. lost_found_blocks crc fseed = Inr lfb \<and>
       set (zip (expand_runs (fst (pl_lost_found pl))) lfb) \<subseteq> set (ns_rendered (pl_names pl))"
proof -
  let ?n = "length (fb_nodes b)"
  obtain ms a journal st1 lf st2 lfb parents ns ds where p: "place_groups geo = Inr (ms, a)"
    "st_dense crc (geo_journal_blocks geo) (unat JOURNAL_INO) fseed \<lparr>st_alloc = a, st_segments = []\<rparr> = Inr (journal, st1)"
    "st_dense crc LOST_FOUND_BLOCKS LOST_FOUND_INO fseed st1 = Inr (lf, st2)"
    "lost_found_blocks crc fseed = Inr lfb" "parent_map b slot_ino = Inr parents"
    "foldE (seal_slot crc b slot_ino parents fseed) [0..<?n] (names_start b (fst lf) lfb st2) = Inr ns"
    "foldE (seal_file crc b slot_ino fseed) [0..<?n] (data_start b ns) = Inr ds"
    "pl = \<lparr>pl_group_meta = ms, pl_journal = journal, pl_lost_found = lf, pl_names = ns, pl_data = ds\<rparr>"
    using assms(1) by (auto simp: place_all_def names_start_def data_start_def Let_def bindE_eq_Inr)
  have flex: "0 < geo_groups_per_flex geo" "0 < geo_groups geo" using assms(2) by (auto simp: geometry_wf_def)
  note g = place_groups_ok [OF p(1) flex]
  let ?F = "alloc_free a"
  obtain jr jp lr lp where pairs: "journal = (jr, jp)" "lf = (lr, lp)" by fastforce
  have 0: "placed ?F {#} \<lparr>st_alloc = a, st_segments = []\<rparr>" using g(3) by (simp add: placed_def account_def block_segs_def)
  note j = st_dense_placed [OF 0 p(2) [unfolded pairs]]
  note l = st_dense_placed [OF j(1) p(3) [unfolded pairs]]
  have wf: "alloc_wf (st_alloc \<lparr>st_alloc = a, st_segments = []\<rparr>)" "alloc_wf (st_alloc st1)"
    using g(3) j(1) by (simp_all add: placed_def account_def)
  note dj = st_dense_planned [OF wf(1) p(2) [unfolded pairs]] and dl = st_dense_planned [OF wf(2) p(3) [unfolded pairs]]
  let ?start = "names_start b (fst lf) lfb st2"
  let ?U = "mset (expand_runs jr) + mset (expand_runs lr)"
  have start: "names_ok ?F ?U (expand_runs lr) ?start"
    using l(1,4) pairs lost_found_blocks_lengths [OF p(4)] lost_found_blocks_many [OF p(4)]
    by (auto simp: names_start_def names_ok_def dir_runs_def placed_def map_fst_zip_take dest: set_zip_rightD)
  let ?P = "\<lambda>st. names_ok ?F ?U (expand_runs lr) st \<and> extends ?start st \<and> set (ns_rendered ?start) \<subseteq> set (ns_rendered st)"
  have "?P ns"
  using p(6)
  proof (rule foldE_inv [where P = ?P])
    show "?P ?start" using start by simp
    fix k st st' assume k: "?P st" "seal_slot crc b slot_ino parents fseed k st = Inr st'"
    have "alloc_wf (st_alloc st)" using k(1) by (simp add: names_ok_def placed_def account_def)
    from seal_slot_grows [OF this k(2)] show "?P st'" using k seal_slot_ok [OF _ k(2)] extends_trans by blast
  qed
  then have ns: "extends ?start ns" "set (ns_rendered ?start) \<subseteq> set (ns_rendered ns)" by blast+
  have "extends st2 ?start" by (simp add: extends_def names_start_def)
  then have all: "extends st2 ds"
    using ns(1) foldE_extends [OF p(7)] extends_trans by (fastforce simp: extends_def data_start_def)
  have sub: "mset (st_segments st1) \<subseteq># mset (st_segments ds)" "mset (st_segments st2) \<subseteq># mset (st_segments ds)"
    using all dl(2) by (auto simp: extends_def)
  show "dense_planned crc 8 fseed (st_segments (pl_data pl)) (geo_journal_blocks geo) (fst (pl_journal pl)) (snd (pl_journal pl))"
    using dense_planned_mono [OF dj(1) sub(1)] p(8) pairs by simp
  show "dense_planned crc 11 fseed (st_segments (pl_data pl)) 4 (fst (pl_lost_found pl)) (snd (pl_lost_found pl))"
    using dense_planned_mono [OF dl(1) sub(2)] p(8) pairs by simp
  show "\<exists>lfb. lost_found_blocks crc fseed = Inr lfb \<and>
       set (zip (expand_runs (fst (pl_lost_found pl))) lfb) \<subseteq> set (ns_rendered (pl_names pl))"
    using p(4,8) ns(2) pairs by (auto simp: names_start_def)
qed

end
