(* ===== verification/FixedInodes.thy ===== *)
theory FixedInodes
  imports PlansClean
begin

text \<open>
  The inodes with fixed numbers of a built image: the reserved ones, the journal (8) and lost+found (11).
  Sealing renders each once, and what it renders is what the reader reads.
\<close>

section \<open>Reserved inodes\<close>

lemma low_stamp:
  fixes w :: u16
  assumes "length buf = 256"
  shows "inode_sum crc fseed ino g (put_u16 buf 0x7C w) = inode_sum crc fseed ino g buf"
proof -
  have "take 0x7C (put_u16 buf 0x7C w) = take 0x7C buf" "drop 0x7E (take 0x82 (put_u16 buf 0x7C w)) = drop 0x7E (take 0x82 buf)"
    "drop 0x84 (put_u16 buf 0x7C w) = drop 0x84 buf" "drop 0x82 (put_u16 buf 0x7C w) = drop 0x82 buf"
    "le16 (put_u16 buf 0x7C w) 0x80 = le16 buf 0x80" "length (put_u16 buf 0x7C w) = 256"
    using assms by (simp_all add: buf_simps)
  then show ?thesis using assms by (simp add: inode_sum_def inode_has_hi_def Let_def)
qed

lemma low_half: "(ucast (ucast (c :: u32) :: u16) :: u32) AND 0xFFFF = c AND 0xFFFF"
proof -
  have m: "(0xFFFF :: u32) = mask 16" by (simp add: mask_eq_exp_minus_1)
  show ?thesis unfolding m by (rule bit_word_eqI) (auto simp: bit_simps)
qed

lemma reserved_reads:
  assumes "render_reserved_inode crc fseed ino t = Inr raw" "inode_raw f ino = Inr raw" "fs_csum_seed f = fseed"
  shows "\<exists>i. read_inode crc f ino = Inr i"
proof -
  obtain buf where b: "(case t of None \<Rightarrow> Inr (zeros_buf 256)
      | Some t \<Rightarrow> bindE (encode_timestamp t 0) (\<lambda>(secs, _).
          Inr (put_u32 (put_u32 (put_u32 (zeros_buf 256) 0x08 secs) 0x0C secs) 0x10 secs))) = Inr buf"
    "bindE (csum_inode crc fseed ino 0 buf) (\<lambda>c. Inr (put_u16 buf 0x7C (ucast c))) = Inr raw"
    using assms(1) unfolding render_reserved_inode_def bindE_eq_Inr by blast
  have len: "length buf = 256" "le16 buf 0x80 = 0" "le32 buf 0x64 = 0"
    using b(1) by (auto simp: bindE_eq_Inr buf_simps split: option.splits)
  then have "raw = put_u16 buf 0x7C (ucast (inode_sum crc fseed ino 0 buf))"
    using b(2) by (simp add: csum_inode_def)
  note buf = len this
  let ?c = "inode_sum crc fseed ino 0 buf"
  have raw: "length raw = 256" "le16 raw 0x80 = 0" "le32 raw 0x64 = 0" "le16 raw 0x7C = ucast ?c"
    using buf by (simp_all add: buf_simps)
  define i where "i = inode_extra raw (inode_low raw)"
  have "inode_decode raw = Inr i" using raw(1) by (simp add: inode_decode_def i_def)
  moreover have "i_extra_isize i = 0" "i_generation i = 0" "i_checksum i = ucast (ucast ?c :: u16)"
    using raw by (simp_all add: i_def inode_extra_def inode_low_def Let_def)
  moreover have "csum_inode crc fseed ino 0 raw = Inr ?c"
    using raw(1) low_stamp [OF buf(1)] by (simp add: csum_inode_def buf(4))
  ultimately have "check_inode_csum crc f ino raw i = Inr ()"
    using assms(3) low_half [of ?c] by (simp add: check_inode_csum_def)
  then show ?thesis using assms(2) \<open>inode_decode raw = Inr i\<close> by (simp add: read_inode_def)
qed

lemma set_inodes_fold:
  assumes "foldE (\<lambda>ino inodes. bindE (render ino) (\<lambda>raw. set_inode ino raw inodes)) inos r = Inr r'" "distinct inos"
  shows "\<forall>ino\<in>set inos. \<exists>raw. render ino = Inr raw \<and> r' ! (ino - 1) = raw" "i + 1 \<notin> set inos \<Longrightarrow> r' ! i = r ! i"
proof -
  have "(\<forall>ino\<in>set inos. \<exists>raw. render ino = Inr raw \<and> r' ! (ino - 1) = raw) \<and> (\<forall>i. i + 1 \<notin> set inos \<longrightarrow> r' ! i = r ! i)"
    using assms
  proof (induction inos arbitrary: r)
    case (Cons ino inos)
    then obtain raw r1 where s: "render ino = Inr raw" "set_inode ino raw r = Inr r1"
      "foldE (\<lambda>ino inodes. bindE (render ino) (\<lambda>raw. set_inode ino raw inodes)) inos r1 = Inr r'"
      by (auto simp: bindE_eq_Inr)
    have ih: "\<forall>ino\<in>set inos. \<exists>raw. render ino = Inr raw \<and> r' ! (ino - 1) = raw" "\<And>i. i + 1 \<notin> set inos \<Longrightarrow> r' ! i = r1 ! i"
      using Cons.IH [OF s(3)] Cons.prems(2) by auto
    have n: "0 < ino" "r1 ! j = (if j + 1 = ino then raw else r ! j)" for j using set_inode_nth [OF s(2)] by auto
    have "r' ! (ino - 1) = raw" using ih(2) [of "ino - 1"] n Cons.prems(2) by auto
    then show ?case using s(1) ih n(2) by auto
  qed simp
  then show "\<forall>ino\<in>set inos. \<exists>raw. render ino = Inr raw \<and> r' ! (ino - 1) = raw" "i + 1 \<notin> set inos \<Longrightarrow> r' ! i = r ! i" by blast+
qed

lemma put_inode_renders:
  "put_inode crc fseed ino r raws = Inr raws' \<Longrightarrow> \<exists>raw. render_inode crc fseed (of_nat ino) r = Inr raw \<and> raws' ! (ino - 1) = raw"
  using set_inode_nth by (fastforce simp: put_inode_def bindE_eq_Inr)

text \<open>Which raw inode is where.\<close>

lemma seal_inodes_fixed:
  assumes "seal_inodes crc b geo fseed slot_ino max_ino jp lp ns ds = Inr raws"
    and nums: "\<forall>s<length (fb_nodes b). slot_ino ! s = 0 \<or> slot_ino ! s = 2 \<or> 12 \<le> slot_ino ! s"
    and dirs: "\<forall>d\<in>set (ns_dirs ns). dp_slot d < length (fb_nodes b) \<and> slot_ino ! dp_slot d \<noteq> 0"
  shows "ino \<in> {1, 3, 4, 5, 6, 7, 9, 10} \<Longrightarrow> \<exists>raw t. render_reserved_inode crc fseed (of_nat ino) t = Inr raw \<and> raws ! (ino - 1) = raw"
    "\<exists>raw. render_inode crc fseed 8 (journal_render geo (opt_epoch (fb_opts b)) jp) = Inr raw \<and> raws ! 7 = raw"
    "\<exists>raw. render_inode crc fseed 11 (lost_found_render (opt_epoch (fb_opts b)) lp) = Inr raw \<and> raws ! 10 = raw"
proof -
  let ?n = "length (fb_nodes b)" and ?t = "opt_epoch (fb_opts b)"
  let ?g = "\<lambda>d. put_inode crc fseed (slot_ino ! dp_slot d) (dir_inode_render b slot_ino (ns_xattrs ns) d)"
  obtain r1 r2 r3 r4 where r: "reserved_inodes crc fseed ?t (replicate max_ino (zeros_buf 256)) = Inr r1"
    "put_inode crc fseed 8 (journal_render geo ?t jp) r1 = Inr r2" "put_inode crc fseed 11 (lost_found_render ?t lp) r2 = Inr r3"
    "foldE ?g (ns_dirs ns) r3 = Inr r4" "foldE (put_node_inode crc b fseed slot_ino ns ds) [0..<?n] r4 = Inr raws"
    using assms(1) by (auto simp: seal_inodes_def Let_def bindE_eq_Inr)
  have late: "raws ! i = r3 ! i" if i: "i < 11" "i \<noteq> 1" for i
  proof -
    have "raws ! i = r4 ! i"
    proof (rule foldE_keeps_nth [OF r(5)])
      fix x s s' assume x: "x \<in> set [0..<?n]" "put_node_inode crc b fseed slot_ino ns ds x s = Inr s'"
      have "slot_ino ! x = 0 \<or> i + 1 \<noteq> slot_ino ! x" using nums x(1) i by force
      with x(2) show "s' ! i = s ! i" by (rule put_node_nth)
    qed
    also have "r4 ! i = r3 ! i"
    proof (rule foldE_keeps_nth [OF r(4)])
      fix d s s' assume d: "d \<in> set (ns_dirs ns)" "?g d s = Inr s'"
      have "i + 1 \<noteq> slot_ino ! dp_slot d" using nums dirs d(1) i by force
      with d(2) show "s' ! i = s ! i" by (rule put_inode_nth)
    qed
    finally show ?thesis .
  qed
  obtain r0 raw0 where q: "render_reserved_inode crc fseed 1 (Some ?t) = Inr raw0" "set_inode 1 raw0 (replicate max_ino (zeros_buf 256)) = Inr r0"
    "foldE (\<lambda>ino inodes. bindE (render_reserved_inode crc fseed (of_nat ino) None) (\<lambda>raw. set_inode ino raw inodes))
       [3, 4, 5, 6, 7, 9, 10] r0 = Inr r1"
    using r(1) by (auto simp: reserved_inodes_def bindE_eq_Inr simp del: foldE.simps)
  have fold: "distinct [3, 4, 5, 6, 7, 9, 10 :: nat]" by simp
  note q3 = set_inodes_fold [OF q(3) fold]
  have keep: "r3 ! i = r1 ! i" if "i + 1 \<noteq> 8" "i + 1 \<noteq> 11" for i
    using put_inode_nth [OF r(2) that(1)] put_inode_nth [OF r(3) that(2)] by simp
  show "\<exists>raw t. render_reserved_inode crc fseed (of_nat ino) t = Inr raw \<and> raws ! (ino - 1) = raw"
    if ino: "ino \<in> {1, 3, 4, 5, 6, 7, 9, 10}"
  proof (cases "ino = 1")
    case True
    have "r1 ! 0 = raw0" using q3(2) [of 0] set_inode_nth [OF q(2), of 0] by simp
    then show ?thesis using True q(1) late [of 0] keep [of 0] by auto
  next
    case False
    then have "ino \<in> set [3, 4, 5, 6, 7, 9, 10]" using ino by simp
    then obtain raw where "render_reserved_inode crc fseed (of_nat ino) None = Inr raw" "r1 ! (ino - 1) = raw" using q3(1) by blast
    moreover have "raws ! (ino - 1) = r1 ! (ino - 1)" using ino False late [of "ino - 1"] keep [of "ino - 1"] by auto
    ultimately show ?thesis by auto
  qed
  show "\<exists>raw. render_inode crc fseed 8 (journal_render geo ?t jp) = Inr raw \<and> raws ! 7 = raw"
    using put_inode_renders [OF r(2)] late [of 7] put_inode_nth [OF r(3), of 7] by auto
  show "\<exists>raw. render_inode crc fseed 11 (lost_found_render ?t lp) = Inr raw \<and> raws ! 10 = raw"
    using put_inode_renders [OF r(3)] late [of 10] by auto
qed

end
