(* ===== verification/SlotsClean.thy ===== *)
theory SlotsClean
  imports FixedInodes
begin

text \<open>
  The inodes of a built image, as the verifier sees them: those of the nodes of the builder, of every kind,
  give no issue.
\<close>

section \<open>One inode\<close>

lemma verify_inode_clean:
  assumes "read_inode crc f ino = Inr i" "fs_extents crc f ino i = Inr es" "verify_extents f es = []"
    and "inode_file_type i = Dir \<Longrightarrow> verify_dir crc f ino i hc = Inr []"
    and "inode_file_type i = Symlink \<Longrightarrow> fast_symlink_target i = None \<Longrightarrow> i_size i \<noteq> 0 \<and> unat (i_size i) < fs_block_size f"
    and "i_file_acl i \<noteq> 0 \<Longrightarrow> verify_xattr_block crc f i hc = Inr []"
  shows "verify_inode crc f hc ino = Inr []"
proof -
  have "(if inode_file_type i = Dir then verify_dir crc f ino i hc
     else Inr (issue_unless (\<not> (inode_file_type i = Symlink \<and> fast_symlink_target i = None \<and>
            (i_size i = 0 \<or> fs_block_size f \<le> unat (i_size i)))) ''symlink target size'')) = Inr []"
    using assms(4,5) by (auto simp: issue_unless_def)
  moreover have "(if i_file_acl i \<noteq> 0 then verify_xattr_block crc f i hc else Inr []) = Inr []" using assms(6) by simp
  ultimately show ?thesis using assms(1-3) by (simp add: verify_inode_def or_issue_def)
qed

lemma no_extents: "i_flags i AND iflags_EXTENTS = 0 \<Longrightarrow> fs_extents crc f ino i = Inr [] \<and> verify_extents f [] = []"
  by (simp add: fs_extents_def extent_root_def inode_uses_extents_def verify_extents_def issue_unless_def)

section \<open>The attribute block\<close>

lemma attrs_planned_block:
  assumes "attrs_planned crc fseed segs attrs x" "fst x \<noteq> 0"
  shows "\<exists>l p bs. attrs = Some l \<and> xattr_plan_of l = Inr p \<and>
    xattr_render_block crc (xp_block_attrs p) fseed (of_nat (fst x)) = Inr bs \<and> block_seg (fst x) bs \<in> set segs"
proof (cases attrs)
  case None
  then show ?thesis using assms by (simp add: attrs_planned_def)
next
  case (Some l)
  then obtain p where p: "xattr_plan_of l = Inr p" "if xp_block_attrs p = [] then fst x = 0
        else \<exists>bs. xattr_render_block crc (xp_block_attrs p) fseed (of_nat (fst x)) = Inr bs \<and> block_seg (fst x) bs \<in> set segs"
    using assms(1) by (auto simp: attrs_planned_def)
  then show ?thesis using Some assms(2) by (cases "xp_block_attrs p = []") auto
qed

lemma slot_acl_clean:
  assumes op: "opened crc b lay fills f geo slot_ino max_ino pl" and b: "builder_reachable strict opts b"
    and s: "s < length (fb_nodes b)" "slot_ino ! s \<noteq> 0"
    and i: "carries (ns_xattrs (pl_names pl) ! s) i" "i_file_acl i \<noteq> 0"
  shows "verify_xattr_block crc f i hc = Inr []"
proof -
  note h = opened_handle [OF op] and sl = opened_seal [OF op]
  let ?x = "ns_xattrs (pl_names pl) ! s" and ?segs = "st_segments (pl_names pl)"
  have acl: "i_file_acl i = of_nat (fst ?x)" using i(1) by (simp add: carries_def)
  have nz: "fst ?x \<noteq> 0"
  proof
    assume "fst ?x = 0"
    then show False using i(2) unfolding acl by simp
  qed
  have "attrs_planned crc (fs_csum_seed f) ?segs (fb_xattrs b s) ?x"
    using place_all_attrs(1) [OF sl(1) h(7)] s unfolding all_attrs_planned_def by auto
  from attrs_planned_block [OF this nz] obtain l p bs where p: "fb_xattrs b s = Some l" "xattr_plan_of l = Inr p"
    "xattr_render_block crc (xp_block_attrs p) (fs_csum_seed f) (of_nat (fst ?x)) = Inr bs" "block_seg (fst ?x) bs \<in> set ?segs"
    by blast
  have "attrs_ok l" using reachable_inv [OF b] p(1) by (auto simp: builder_inv_def mid_inv_def xattrs_ok_def)
  then have names: "\<forall>a\<in>set l. length (fst (snd a)) < 256" by (force simp: attrs_ok_def)
  note ok = xattr_plan_ok [OF names p(2)]
  have "length (fst (snd a)) < 256" if "a \<in> set (xp_block_attrs p)" for a
  proof -
    have "a \<in> set (sort_key attr_key l)" using that unfolding ok(1) by (rule in_set_dropD)
    then show ?thesis using names by simp
  qed
  moreover have "sorted (map attr_key (xp_block_attrs p))" unfolding ok(1) by (simp add: drop_map [symmetric] sorted_wrt_drop)
  ultimately obtain view where v: "xattr_block_parse bs = Inr view"
    "verify_xattr_view crc (fs_csum_seed f) (of_nat (fst ?x)) bs hc view = Inr []"
    using verify_xattr_built [OF ballI ok(2), of crc "fs_csum_seed f" "of_nat (fst ?x)" hc] p(3) by auto
  have seg: "block_seg (fst ?x) bs \<in> set (st_segments (pl_data pl))"
    using p(4) set_mset_mono [OF place_all_links(2) [OF sl(1) h(7)]] by auto
  then have rb: "read_block f (fst ?x) = Inr bs" using sl(3) by (auto simp: served_def block_seg_def seg_bytes_def)
  have "unat (i_file_acl i) = fst ?x"
    using acl acl_below(1) [OF sl(1) h(7) s(1)] h(8) by (simp add: unat_of_nat)
  then show ?thesis using rb v acl by (simp add: verify_xattr_block_def or_issue_def)
qed

section \<open>Files\<close>

lemma file_slot_clean:
  assumes op: "opened crc b lay fills f geo slot_ino max_ino pl" and b: "builder_reachable strict opts b"
    and s: "s < length (fb_nodes b)" "slot_ino ! s \<noteq> 0" "declared (n_kind (fb_nodes b ! s)) = Some (segs, sz)" "spaced segs"
  shows "verify_inode crc f hc (of_nat (slot_ino ! s)) = Inr []"
proof -
  note h = opened_handle [OF op] and l = opened_layout [OF op] and sl = opened_seal [OF op]
  have ok: "kind_ok (n_kind (fb_nodes b ! s))" using reachable_kinds [OF b] s(1) by (simp add: kinds_all_def)
  show ?thesis
  proof (rule file_slot_render [OF op b s], goal_cases)
    case (1 plan k i c)
    let ?i = "i\<lparr>i_checksum := c\<rparr>" and ?runs = "fst (lay_file_runs lay ! s)"
    have s': "s < length (lay_file_runs lay)" using s(1) l(6) by simp
    have below: "\<forall>b\<in>set (expand_runs ?runs). b < geo_blocks geo"
      using file_blocks [OF l(1,2) s'] h(6) by (fastforce simp: expand_runs_def total_blocks_def file_runs_of_def)
    obtain pairs a a' tsegs hi where p: "map snd pairs = ?runs" "pairs_within 0 hi pairs"
      "\<forall>r\<in>set ?runs. 0 < run_len r \<and> run_len r \<le> 32768" "alloc_wf a"
      "plan_extents crc pairs (of_nat (slot_ino ! s)) (fs_csum_seed f) a = Inr (plan, a', tsegs)" "mset tsegs \<subseteq># mset (st_segments (pl_data pl))"
      using 1(1) by (auto simp: file_planned_def)
    have sv: "served f tsegs" using sl(3) set_mset_mono [OF p(6)] by (auto simp: served_def)
    have fl: "i_flags ?i AND iflags_EXTENTS \<noteq> 0" "i_block ?i = ep_root plan" "i_generation ?i = 0" using 1(4-6) by simp_all
    note pc = plan_clean [OF op p(4,5) sv p(2) _ _ fl, unfolded p(1), OF p(3) below]
    have "i_mode ?i = type_bits (kind_ftype (n_kind (fb_nodes b ! s))) OR (m_mode (n_meta (fb_nodes b ! s)) AND 0xFFF)"
      using inode_of_render_fields(9) [OF 1(7)] s(3)
      by (auto simp: render_file_def inode_render_plain_def kind_ftype_def declared_def split: node_kind.splits)
    from type_of_kind(1) [OF ok this] have ty: "inode_file_type ?i = Regular"
      using s(3) by (auto simp: kind_type_def declared_def split: node_kind.splits)
    have "carries (ns_xattrs (pl_names pl) ! s) ?i"
      by (rule rendered_carries [OF 1(7)]) (simp_all add: render_file_def)
    note acl = slot_acl_clean [OF op b s(1,2) this]
    show ?case by (rule verify_inode_clean [OF 1(2) pc(1,2) _ _ acl]) (simp_all add: ty)
  qed
qed

section \<open>Symlinks, devices and the rest\<close>

lemma link_slot_clean:
  assumes op: "opened crc b lay fills f geo slot_ino max_ino pl" and b: "builder_reachable strict opts b"
    and s: "s < length (fb_nodes b)" "slot_ino ! s \<noteq> 0" "n_kind (fb_nodes b ! s) = node_kind.Symlink t"
  shows "verify_inode crc f hc (of_nat (slot_ino ! s)) = Inr []"
proof (cases "length t \<le> 59")
  case True
  show ?thesis
  proof (rule fast_link_slot [OF op b s True], goal_cases)
    case (1 i c)
    let ?i = "i\<lparr>i_checksum := c\<rparr>"
    note fs = inode_of_render_fields [OF 1(1)]
    have fl: "i_flags ?i AND iflags_EXTENTS = 0" using fs(3) by (simp add: render_fast_symlink_def inode_render_plain_def)
    have ty: "inode_file_type ?i = Symlink" using 1(3) s(3) by (simp add: describes_def kind_type_def Let_def)
    have "i_size ?i \<le> 60"
      using fs(1) True by (simp add: render_fast_symlink_def unat_of_nat word_le_nat_alt)
    then have "fast_symlink_target ?i \<noteq> None" using fl ty by (simp add: fast_symlink_target_def inode_uses_extents_def)
    then show ?case
      using no_extents [OF fl] ty by (intro verify_inode_clean [OF 1(2) _ _ _ _ slot_acl_clean [OF op b s(1,2) 1(4)]]) auto
  qed
next
  case False
  have "kind_ok (n_kind (fb_nodes b ! s))" using reachable_kinds [OF b] s(1) by (simp add: kinds_all_def)
  then have t: "length t \<le> 4095" using s(3) by (simp add: kind_ok_def)
  show ?thesis
  proof (rule slow_link_slot [OF op b s False], goal_cases)
    case (1 plan block a a' tsegs i c)
    let ?i = "i\<lparr>i_checksum := c\<rparr>"
    note fs = inode_of_render_fields [OF 1(4)]
    have fl: "i_flags ?i AND iflags_EXTENTS \<noteq> 0" "i_block ?i = ep_root plan" "i_generation ?i = 0"
      using fs by (simp_all add: render_slow_symlink_def inode_render_plain_def)
    have rb: "read_block f block = Inr (poke (zeros_buf 4096) 0 t)" and sv: "served f tsegs"
      using 1(3) by (simp_all add: served_def block_seg_def seg_bytes_def)
    have w: "pairs_within 0 1 [(0, \<lparr>run_start = block, run_len = 1\<rparr>)]" by (simp add: pairs_within_def)
    have run: "\<forall>r\<in>set (map snd [(0 :: u32, \<lparr>run_start = block, run_len = 1\<rparr>)]). 0 < run_len r \<and> run_len r \<le> 32768"
      "\<forall>x\<in>set (expand_runs (map snd [(0 :: u32, \<lparr>run_start = block, run_len = 1\<rparr>)])). x < geo_blocks geo"
      using one_block_bytes(1) [OF op rb] by simp_all
    note pc = plan_clean(1,2) [OF op 1(1,2) sv w run fl]
    have ty: "inode_file_type ?i = Symlink" using 1(6) s(3) by (simp add: describes_def kind_type_def Let_def)
    have "i_size ?i = of_nat (length t)" using fs(1) by (simp add: render_slow_symlink_def)
    moreover have "unat (of_nat (length t) :: u64) = length t" using t by (simp add: unat_of_nat)
    ultimately have "i_size ?i \<noteq> 0 \<and> unat (i_size ?i) < fs_block_size f"
      using t False fs_wf_simps(2) [OF opened_handle(2) [OF op]] by (auto simp: unat_eq_zero [symmetric] simp del: unat_eq_zero)
    then show ?case using ty by (intro verify_inode_clean [OF 1(5) pc _ _ slot_acl_clean [OF op b s(1,2) 1(7)]]) simp_all
  qed
qed

lemma special_slot_clean:
  assumes op: "opened crc b lay fills f geo slot_ino max_ino pl" and b: "builder_reachable strict opts b"
    and s: "s < length (fb_nodes b)" "slot_ino ! s \<noteq> 0" "n_kind (fb_nodes b ! s) = Special ft major minor"
  shows "verify_inode crc f hc (of_nat (slot_ino ! s)) = Inr []"
proof (rule special_slot [OF op b s], goal_cases)
  case (1 i c)
  let ?i = "i\<lparr>i_checksum := c\<rparr>"
  have fl: "i_flags ?i AND iflags_EXTENTS = 0"
    using inode_of_render_fields(3) [OF 1(1)] by (simp add: render_special_def inode_render_plain_def)
  have "inode_file_type ?i \<noteq> Dir" "inode_file_type ?i \<noteq> Symlink" using 1(3) s(3) by (auto simp: describes_def kind_type_def Let_def)
  then show ?case
    using no_extents [OF fl] by (intro verify_inode_clean [OF 1(2) _ _ _ _ slot_acl_clean [OF op b s(1,2) 1(4)]]) auto
qed

end
