(* ===== verification/DirsClean.thy ===== *)
theory DirsClean
  imports SlotsClean
begin

text \<open>
  The directories of a built image, as the verifier sees them: those of the builder, linear or indexed, and
  lost+found give no issue.
\<close>

section \<open>Linear blocks\<close>

definition block_clean :: "crc \<Rightarrow> u32 \<Rightarrow> bytes \<Rightarrow> bool" where
  "block_clean crc iseed b \<longleftrightarrow> (\<exists>es. dir_block_ok crc iseed b es)"

lemma linear_clean:
  assumes "\<forall>b\<in>set bs. block_clean crc iseed b" "\<And>k. k < length bs \<Longrightarrow> mapped_block f es k (bs ! k)"
  shows "issues_of (verify_linear_block crc f es iseed hc) [0..<length bs] = Inr []"
proof -
  have "\<exists>ess. list_all2 (dir_block_ok crc iseed) bs ess"
    using assms(1)
  proof (induction bs)
    case Nil
    then show ?case by (intro exI [of _ "[]"]) simp
  next
    case (Cons b bs)
    then obtain e ess where "dir_block_ok crc iseed b e" "list_all2 (dir_block_ok crc iseed) bs ess"
      by (auto simp: block_clean_def)
    then show ?case by (intro exI [of _ "e # ess"]) simp
  qed
  then show ?thesis using verify_linear_ok assms(2) by blast
qed

lemma packed_blocks_clean:
  assumes "\<forall>e\<in>set entries. dentry_ok e" "pack_dirents entries = Inr bs"
  shows "\<forall>b\<in>set bs. block_clean crc iseed (seal_dir_block crc iseed b)"
proof -
  obtain ess where "list_all2 block_holds bs ess" using pack_dirents_holds [OF assms(1)] assms(2) by auto
  then have "\<exists>es. block_holds b es" if "b \<in> set bs" for b using that by (auto simp: list_all2_conv_all_nth in_set_conv_nth)
  then show ?thesis using block_holds_sealed unfolding block_clean_def seal_dir_block_def by blast
qed

lemma lost_found_clean:
  assumes "lost_found_blocks crc fseed = Inr lfb"
  shows "\<forall>b\<in>set lfb. block_clean crc (inode_seed crc fseed 11 0) b"
proof -
  let ?is = "inode_seed crc fseed 11 0"
  obtain dots n empties where b: "pack_dirents (dot_entries 11 ROOT_INO) = Inr dots" "mapE (\<lambda>_. pack_dirents []) [length dots..<n] = Inr empties"
    "mapE (seal_dirent_block crc ?is) (dots @ concat empties) = Inr lfb"
    using assms by (auto simp: lost_found_blocks_def Let_def bindE_eq_Inr)
  have dot: "\<forall>e\<in>set (dot_entries 11 ROOT_INO). dentry_ok e" by (auto simp: dot_entries_def dentry_ok_def ascii_def)
  have empty: "pack_dirents [] = Inr bs" if "bs \<in> set empties" for bs using mapE_Inr_mem [OF b(2)] that by blast
  have "\<forall>x\<in>set (dots @ concat empties). length x = 4096"
    using pack_dirents_lengths [OF b(1)] pack_dirents_lengths [OF empty] by auto
  note lfb = sealed_blocks [OF b(3) this]
  have "\<forall>x\<in>set (dots @ concat empties). block_clean crc ?is (seal_dir_block crc ?is x)"
    using packed_blocks_clean [OF dot b(1)] packed_blocks_clean [OF _ empty] by auto
  then show ?thesis unfolding lfb set_map by blast
qed

section \<open>Directories of the builder\<close>

lemma dir_planned_dense:
  "dir_planned crc b slot_ino parents fseed segs rendered d \<Longrightarrow>
   dense_planned crc (slot_ino ! dp_slot d) fseed segs (dp_nblocks d) (dp_runs d) (dp_plan d)"
  unfolding dir_planned_def dense_planned_def by metis

lemma dir_size:
  assumes "i_size i = of_nat (n * 4096)" "n \<le> 2 ^ 32" "fs_block_size f = 4096"
  shows "unat (i_size i) div fs_block_size f = n"
proof -
  have "n * 4096 < 2 ^ 64" using assms(2) by simp
  then have "unat (of_nat (n * 4096) :: u64) = n * 4096" by (simp only: unat_of_nat) simp
  then show ?thesis using assms(1,3) by simp
qed

lemma dir_blocks_clean:
  assumes b: "dir_blocks crc ino parent entries (s_hash_seed (fs_sb f)) (fs_csum_seed f) = Inr blocks"
    and e: "\<forall>e\<in>set entries. dentry_ok e" and ino: "0 < ino" "ino < 2 ^ 32" "0 < parent" "parent < 2 ^ 32"
    and i: "fs_extents crc f (of_nat ino) i = Inr es" "i_generation i = 0" "inode_is_htree i = needs_htree entries"
      "unat (i_size i) div fs_block_size f = length blocks"
    and m: "\<And>k. k < length blocks \<Longrightarrow> mapped_block f es k (blocks ! k)" and sg: "hash_signedness (fs_sb f) = Signed"
  shows "verify_dir crc f (of_nat ino) i hc = Inr []"
proof -
  let ?is = "inode_seed crc (fs_csum_seed f) (of_nat ino) 0"
  have nz: "(of_nat ino :: u32) \<noteq> 0" "(of_nat parent :: u32) \<noteq> 0"
    using ino by (simp_all add: word_of_nat_eq_0_iff nat_dvd_not_less)
  show ?thesis
  proof (cases "needs_htree entries")
    case True
    then have "entries \<noteq> []" by (auto simp: needs_htree_def)
    moreover have "htree_build crc (of_nat ino) (of_nat parent) entries (s_hash_seed (fs_sb f)) (fs_csum_seed f) = Inr blocks"
      using b True by (simp add: dir_blocks_def)
    ultimately have "verify_htree crc f es ?is hc = Inr []" using m sg by (intro verify_htree_built [OF e _ nz]) auto
    then show ?thesis using i True by (simp add: verify_dir_def)
  next
    case False
    let ?es = "dot_entries (of_nat ino) (of_nat parent) @ entries"
    obtain bs where bs: "pack_dirents ?es = Inr bs" "mapE (seal_dirent_block crc ?is) bs = Inr blocks"
      using b False by (auto simp: dir_blocks_def bindE_eq_Inr)
    have "\<forall>e\<in>set ?es. dentry_ok e" using e nz by (auto simp: dot_entries_def dentry_ok_def ascii_def)
    note c = packed_blocks_clean [OF this bs(1)]
    have "\<forall>x\<in>set blocks. block_clean crc ?is x" using c linear_blocks [OF bs(2,1)] by simp
    then have "issues_of (verify_linear_block crc f es ?is hc) [0..<length blocks] = Inr []" using m by (rule linear_clean)
    then show ?thesis using i False by (simp add: verify_dir_def)
  qed
qed

lemma dir_slot_clean:
  assumes op: "opened crc b lay fills f geo slot_ino max_ino pl" and b: "builder_reachable strict opts b"
    and sb: "sb_sealed b f geo max_ino"
    and s: "s < length (fb_nodes b)" "slot_ino ! s \<noteq> 0" "is_dir (fb_nodes b ! s)"
  shows "verify_inode crc f hc (of_nat (slot_ino ! s)) = Inr []"
proof -
  note h = opened_handle [OF op]
  obtain parents d where d: "parent_map b slot_ino = Inr parents" "dp_slot d = s"
    "dir_planned crc b slot_ino parents (fs_csum_seed f) (st_segments (pl_data pl)) (ns_rendered (pl_names pl)) d"
    "\<exists>raw. render_inode crc (fs_csum_seed f) (of_nat (slot_ino ! s)) (dir_inode_render b slot_ino (ns_xattrs (pl_names pl)) d) = Inr raw \<and>
      lay_inodes lay ! (slot_ino ! s - 1) = raw"
    using op s by (rule opened_dir_plan)
  have s': "dp_slot d < length (fb_nodes b)" "slot_ino ! dp_slot d \<noteq> 0" using d(2) s by simp_all
  show ?thesis
  proof (rule dir_slot_inode [OF op s' d(3) d(4) [folded d(2)]], goal_cases)
    case (1 children index entries blocks pairs a a' tsegs i c)
    let ?i = "i\<lparr>i_checksum := c\<rparr>"
    note 1 = 1 [unfolded d(2)]
    have fl: "i_flags ?i AND iflags_EXTENTS \<noteq> 0" "i_block ?i = ep_root (dp_plan d)" "i_generation ?i = 0"
      "inode_is_htree ?i = needs_htree entries"
      using 1(15-17) by (simp_all add: inode_is_htree_def)
    have below: "\<forall>x\<in>set (expand_runs (dp_runs d)). x < geo_blocks geo" using 1(4,6) by (auto simp: in_set_conv_nth)
    obtain es where es: "fs_extents crc f (of_nat (slot_ino ! s)) ?i = Inr es" "verify_extents f es = []"
      "length (expand_runs (dp_runs d)) = dp_nblocks d" "\<forall>k<dp_nblocks d. file_block es k = Some (expand_runs (dp_runs d) ! k)"
      using dense_clean [OF op dir_planned_dense [OF d(3)] below fl(1-3)] d(2) by auto
    have m: "mapped_block f es k (blocks ! k)" if "k < length blocks" for k
      using es(3,4) 1(4) 1(6) [OF that] that by (auto simp: mapped_block_def)
    note e = slot_entries [OF op b s(1,2) 1(1) d(1) 1(2)]
    have seed: "s_hash_seed (fs_sb f) = opt_hash_seed (fb_opts b)" and sg: "hash_signedness (fs_sb f) = Signed"
      using sb by (simp_all add: sb_sealed_def)
    have dir: "verify_dir crc f (of_nat (slot_ino ! s)) ?i hc = Inr []"
    proof (rule dir_blocks_clean [OF _ e(2) _ _ e(4,5) es(1) fl(3,4) _ m sg])
      show "unat (i_size ?i) div fs_block_size f = length blocks"
        using 1(5,14) fs_wf_simps(2) [OF h(2)] by (intro dir_size) simp_all
    qed (use 1(3) seed s(2) opened_slots(4) [OF op s(1,2)] in simp_all)
    have "carries (ns_xattrs (pl_names pl) ! s) ?i"
      using d(2) by (intro rendered_carries [OF 1(12)]) (simp_all add: dir_inode_render_def render_dir_def Let_def)
    note acl = slot_acl_clean [OF op b s(1,2) this]
    show ?case using dir 1(18) by (intro verify_inode_clean [OF 1(13) es(1,2) _ _ acl]) (simp_all add: inode_file_type_def)
  qed
qed

end
