(* ===== verification/ImageClean.thy ===== *)
theory ImageClean
  imports DirsClean
begin

text \<open>
  The whole verifier pass over a built image: the reserved inodes, the journal, lost+found and every node of
  the builder are clean, so are the groups, and the pass finds no issue.
\<close>

section \<open>The numbers in use\<close>

lemma opened_numbers:
  assumes op: "opened crc b lay fills f geo slot_ino max_ino pl" and b: "builder_reachable strict opts b"
  shows "11 \<le> max_ino" "s < length (fb_nodes b) \<Longrightarrow> slot_ino ! s = 0 \<or> slot_ino ! s = 2 \<or> 12 \<le> slot_ino ! s"
    "0 < ino \<Longrightarrow> ino \<le> max_ino \<Longrightarrow>
      ino \<in> {1, 3, 4, 5, 6, 7, 9, 10} \<or> ino = 8 \<or> ino = 11 \<or> (\<exists>s<length (fb_nodes b). slot_ino ! s = ino)"
proof -
  note so = opened_slots [OF op]
  obtain m where m: "max_ino + 1 = 12 + m" "set slot_ino - {0} = insert 2 {12..<12 + m}"
    using slot_inodes_props [OF reachable_inv [OF b] so(6)] by blast
  show "11 \<le> max_ino" using m(1) by simp
  show "slot_ino ! s = 0 \<or> slot_ino ! s = 2 \<or> 12 \<le> slot_ino ! s" if "s < length (fb_nodes b)"
  proof (cases "slot_ino ! s = 0")
    case False
    then have "slot_ino ! s \<in> set slot_ino - {0}" using that so(1) by simp
    then show ?thesis unfolding m(2) by auto
  qed simp
  have "\<exists>s<length (fb_nodes b). slot_ino ! s = ino" if "ino \<in> insert 2 {12..<12 + m}"
  proof -
    have "ino \<in> set slot_ino" using that unfolding m(2) [symmetric] by blast
    then show ?thesis using so(1) by (metis in_set_conv_nth)
  qed
  note slot = this
  assume "0 < ino" "ino \<le> max_ino"
  then have "ino \<in> {1, 3, 4, 5, 6, 7, 9, 10} \<or> ino = 8 \<or> ino = 11 \<or> ino \<in> insert 2 {12..<12 + m}"
    using m(1) by (simp, presburger)
  then show "ino \<in> {1, 3, 4, 5, 6, 7, 9, 10} \<or> ino = 8 \<or> ino = 11 \<or> (\<exists>s<length (fb_nodes b). slot_ino ! s = ino)"
    using slot by blast
qed

text \<open>The raw inodes with fixed numbers.\<close>

lemma opened_fixed:
  assumes op: "opened crc b lay fills f geo slot_ino max_ino pl" and b: "builder_reachable strict opts b"
  shows "ino \<in> {1, 3, 4, 5, 6, 7, 9, 10} \<Longrightarrow>
      \<exists>raw t. render_reserved_inode crc (fs_csum_seed f) (of_nat ino) t = Inr raw \<and> inode_raw f (of_nat ino) = Inr raw"
    "\<exists>raw. render_inode crc (fs_csum_seed f) 8 (journal_render geo (opt_epoch (fb_opts b)) (snd (pl_journal pl))) = Inr raw \<and>
      inode_raw f 8 = Inr raw"
    "\<exists>raw. render_inode crc (fs_csum_seed f) 11 (lost_found_render (opt_epoch (fb_opts b)) (snd (pl_lost_found pl))) = Inr raw \<and>
      inode_raw f 11 = Inr raw"
proof -
  note sl = opened_seal [OF op] and n = opened_numbers [OF op b]
  obtain parents where "dirs_ok crc b slot_ino parents (fs_csum_seed f) (length (fb_nodes b)) (pl_names pl)"
    using place_all_dirs [OF sl(1) opened_handle(7) [OF op]] by blast
  then have dirs: "\<forall>d\<in>set (ns_dirs (pl_names pl)). dp_slot d < length (fb_nodes b) \<and> slot_ino ! dp_slot d \<noteq> 0"
    unfolding dirs_ok_def by blast
  have nums: "\<forall>s<length (fb_nodes b). slot_ino ! s = 0 \<or> slot_ino ! s = 2 \<or> 12 \<le> slot_ino ! s" using n(2) by blast
  note fx = seal_inodes_fixed [OF sl(2) nums dirs]
  have raw: "inode_raw f (of_nat k) = Inr (lay_inodes lay ! (k - 1))" if "0 < k" "k \<le> 11" for k
    using opened_slots(7) [OF op] that n(1) by simp
  show "\<exists>raw t. render_reserved_inode crc (fs_csum_seed f) (of_nat ino) t = Inr raw \<and> inode_raw f (of_nat ino) = Inr raw"
    if "ino \<in> {1, 3, 4, 5, 6, 7, 9, 10}"
    using fx(1) [OF that] raw [of ino] that by auto
  show "\<exists>raw. render_inode crc (fs_csum_seed f) 8 (journal_render geo (opt_epoch (fb_opts b)) (snd (pl_journal pl))) = Inr raw \<and>
      inode_raw f 8 = Inr raw"
    using fx(2) raw [of 8] by simp
  show "\<exists>raw. render_inode crc (fs_csum_seed f) 11 (lost_found_render (opt_epoch (fb_opts b)) (snd (pl_lost_found pl))) = Inr raw \<and>
      inode_raw f 11 = Inr raw"
    using fx(3) raw [of 11] by simp
qed

lemma reserved_clean:
  assumes op: "opened crc b lay fills f geo slot_ino max_ino pl" and b: "builder_reachable strict opts b"
    and ino: "ino \<in> {1, 3, 4, 5, 6, 7, 9, 10}"
  shows "verify_inode crc f hc (of_nat ino) = Inr []"
proof -
  obtain i where "read_inode crc f (of_nat ino) = Inr i"
    using opened_fixed(1) [OF op b ino] reserved_reads by blast
  moreover have "(of_nat ino :: u32) < FIRST_INO" "(of_nat ino :: u32) \<noteq> ROOT_INO" "(of_nat ino :: u32) \<noteq> JOURNAL_INO"
    using ino by auto
  ultimately show ?thesis by (simp add: verify_inode_def or_issue_def)
qed

section \<open>The journal and lost+found\<close>

lemma journal_as_file:
  "journal_render geo t plan = render_file ((Meta_new 0 0 0 (t, 0))\<lparr>m_mode := 0x180\<rparr>) 1 (geo_journal_blocks geo * BLOCK_SIZE)
     (plan, geo_journal_blocks geo) (0, [])"
  by (simp add: journal_render_def render_file_def inode_render_plain_def acl_512_def)

lemma lost_found_as_dir:
  "lost_found_render t plan = render_dir ((Meta_new 0 0 0 (t, 0))\<lparr>m_mode := 0x1C0\<rparr>) 4 False 2 plan (0, [])"
  by (simp add: lost_found_render_def render_dir_def acl_512_def)

text \<open>Both are planned densely inside the image.\<close>

lemma reserved_plans:
  assumes op: "opened crc b lay fills f geo slot_ino max_ino pl" and b: "builder_reachable strict opts b" "backups_fit (lay_geo lay)"
  shows "\<forall>x\<in>set (expand_runs (fst (pl_journal pl))) \<union> set (expand_runs (fst (pl_lost_found pl))). x < geo_blocks geo"
proof -
  have "lay_geo lay = geo" using op unfolding opened_def by - (elim conjE, assumption)
  then have "\<forall>b\<in>set (used_list geo pl). b < geo_blocks geo"
    using place_all_ok(2) [OF opened_seal(1) [OF op] opened_handle(7) [OF op] reachable_aligned [OF b(1)] opened_slots(1) [OF op]] b(2)
    by simp
  then show ?thesis by (auto simp: used_list_def used_runs_def)
qed

lemma dense_root:
  assumes "dense_planned crc ino fseed segs n runs plan"
  shows "length (ep_root plan) = 60" "ep_tree_blocks plan \<le> 8 * length segs"
proof -
  obtain pairs a a' tsegs where d: "alloc_wf a" "plan_extents crc pairs (of_nat ino) fseed a = Inr (plan, a', tsegs)"
    "mset tsegs \<subseteq># mset segs"
    using assms unfolding dense_planned_def by blast
  show "length (ep_root plan) = 60" "ep_tree_blocks plan \<le> 8 * length segs"
    using plan_root [OF d(1,2)] size_mset_mono [OF d(3)] by simp_all
qed

lemma journal_reads:
  assumes op: "opened crc b lay fills f geo slot_ino max_ino pl" and b: "builder_reachable strict opts b" "backups_fit (lay_geo lay)"
  obtains i es where "read_inode crc f 8 = Inr i" "fs_extents crc f 8 i = Inr es" "verify_extents f es = []"
    "i_size i = of_nat (geo_journal_blocks geo * 4096)" "inode_file_type i = Regular" "i_file_acl i = 0"
    "\<And>k. k < geo_journal_blocks geo \<Longrightarrow> file_block es k = Some (expand_runs (fst (pl_journal pl)) ! k)"
    "length (expand_runs (fst (pl_journal pl))) = geo_journal_blocks geo"
proof -
  note h = opened_handle [OF op] and sl = opened_seal [OF op]
  let ?plan = "snd (pl_journal pl)" and ?n = "geo_journal_blocks geo"
  note d = place_all_reserved(1) [OF sl(1) h(7)]
  note root = dense_root [OF d]
  have "?n \<le> geo_blocks geo" using h(7) by (simp add: geometry_wf_def)
  then have caps: "?n \<le> 2 ^ 32" "ep_tree_blocks ?plan \<le> 8 * 2 ^ 32" "(0 :: nat) < 2 ^ 32"
    "([] :: bytes) = [] \<or> length ([] :: bytes) = 96 \<and> (\<exists>x\<in>set ([] :: bytes). x \<noteq> 0)"
    using h(8) root(2) sl(4) by simp_all
  obtain raw where raw: "render_inode crc (fs_csum_seed f) 8 (journal_render geo (opt_epoch (fb_opts b)) ?plan) = Inr raw"
    "inode_raw f 8 = Inr raw"
    using opened_fixed(2) [OF op b(1)] by blast
  then obtain i where i: "inode_of_render (journal_render geo (opt_epoch (fb_opts b)) ?plan) = Inr i"
    by (auto simp: render_inode_def bindE_eq_Inr)
  note wf = render_file_wf [OF i [unfolded journal_as_file] root(1) caps]
  obtain c where rd: "read_inode crc f 8 = Inr (i\<lparr>i_checksum := c\<rparr>)"
    using read_rendered [OF raw(2,1) i wf(1) h(4) refl] by blast
  have fl: "i_flags (i\<lparr>i_checksum := c\<rparr>) AND iflags_EXTENTS \<noteq> 0" "i_block (i\<lparr>i_checksum := c\<rparr>) = ep_root ?plan"
    "i_generation (i\<lparr>i_checksum := c\<rparr>) = 0"
    using wf(3-5) by simp_all
  have below: "\<forall>x\<in>set (expand_runs (fst (pl_journal pl))). x < geo_blocks geo" using reserved_plans [OF op b] by blast
  obtain es where es: "fs_extents crc f (of_nat 8) (i\<lparr>i_checksum := c\<rparr>) = Inr es" "verify_extents f es = []"
    "length (expand_runs (fst (pl_journal pl))) = ?n" "\<forall>k<?n. file_block es k = Some (expand_runs (fst (pl_journal pl)) ! k)"
    using dense_clean [OF op d below fl] by blast
  note f = inode_of_render_fields [OF i]
  have "i_mode i = type_bits ft_REG OR (0x180 AND 0xFFF)" "i_file_acl i = 0" using f(5,9) by (simp_all add: journal_render_def)
  then have "inode_file_type (i\<lparr>i_checksum := c\<rparr>) = Regular" "i_file_acl (i\<lparr>i_checksum := c\<rparr>) = 0"
    by (simp_all add: inode_file_type_def type_bits_def)
  then show thesis using that rd es wf(2) by simp
qed

lemma journal_inode_clean:
  assumes op: "opened crc b lay fills f geo slot_ino max_ino pl" and b: "builder_reachable strict opts b" "backups_fit (lay_geo lay)"
  shows "verify_inode crc f hc 8 = Inr []"
proof (rule journal_reads [OF op b], goal_cases)
  case (1 i es)
  then show ?case by (intro verify_inode_clean [OF 1(1-3)]) simp_all
qed

lemma verify_journal_clean:
  assumes op: "opened crc b lay fills f geo slot_ino max_ino pl" and b: "builder_reachable strict opts b" "backups_fit (lay_geo lay)"
    and sb: "sb_sealed b f geo max_ino" "options_wf (fb_opts b)"
    and seg: "journal_seg geo (opt_fs_uuid (fb_opts b)) (fst (pl_journal pl)) = Inr jseg"
      "\<And>block bs. jseg = block_seg block bs \<Longrightarrow> length bs = 4096 \<Longrightarrow> read_block f block = Inr bs"
  shows "verify_journal crc f = Inr []"
proof (rule journal_reads [OF op b], goal_cases)
  case (1 i es)
  note h = opened_handle [OF op]
  let ?n = "geo_journal_blocks geo" and ?runs = "fst (pl_journal pl)"
  let ?j = "journal_sb geo (opt_fs_uuid (fb_opts b))"
  let ?bs = "journal_superblock_bytes ?j @ drop 1024 (zeros_buf 4096)"
  have n: "?n < 2 ^ 32" using h(7) by (simp add: geometry_wf_def)
  have js: "?runs \<noteq> []" "jseg = block_seg (run_start (?runs ! 0)) ?bs"
    using seg(1) by (auto simp: journal_seg_def journal_superblock_encode_def split: if_splits)
  have rd: "read_block f (run_start (?runs ! 0)) = Inr ?bs" using seg(2) [OF js(2)] by simp
  obtain r rs where r: "?runs = r # rs" using js(1) by (cases ?runs) auto
  have "0 < run_len r"
    using place_all_ok(6) [OF opened_seal(1) [OF op] h(7) reachable_aligned [OF b(1)] opened_slots(1) [OF op]] r by simp
  then have first: "0 < ?n" "expand_runs ?runs ! 0 = run_start (?runs ! 0)"
    using r 1(8) by (simp_all add: nth_append)
  have "journal_superblock_wf ?j" using sb(2) by (simp add: journal_superblock_wf_def journal_sb_def options_wf_def)
  then have dec: "journal_superblock_decode ?bs = Inr ?j" by (rule journal_superblock_decode_bytes)
  have u: "unat (of_nat ?n :: u32) = ?n" "unat (of_nat (?n * 4096) :: u64) = ?n * 4096"
    using n by (simp_all only: unat_of_nat) simp_all
  have f: "fs_block_size f = 4096" "s_journal_inum (fs_sb f) = 8"
    using fs_wf_simps(2) [OF h(2)] sb(1) by (simp_all add: sb_sealed_def)
  have "js_blocksize ?j = 4096" "unat (js_maxlen ?j) = ?n" "mul64 ?n 4096 = Inr (?n * 4096)"
    using u n by (simp_all add: journal_sb_def mul64_def)
  then show ?case
    using 1(1,2,4) 1(7) [OF first(1)] first(2) rd dec u f by (simp add: verify_journal_def or_issue_def issue_unless_def Let_def)
qed

lemma lost_found_inode_clean:
  assumes op: "opened crc b lay fills f geo slot_ino max_ino pl" and b: "builder_reachable strict opts b" "backups_fit (lay_geo lay)"
  shows "verify_inode crc f hc 11 = Inr []"
proof -
  note h = opened_handle [OF op] and sl = opened_seal [OF op]
  let ?plan = "snd (pl_lost_found pl)" and ?runs = "fst (pl_lost_found pl)"
  note d = place_all_reserved(2) [OF sl(1) h(7)]
  note root = dense_root [OF d]
  have caps: "(4 :: nat) \<le> 2 ^ 32" "ep_tree_blocks ?plan \<le> 8 * 2 ^ 32" "(0 :: nat) < 2 ^ 32"
    "([] :: bytes) = [] \<or> length ([] :: bytes) = 96 \<and> (\<exists>x\<in>set ([] :: bytes). x \<noteq> 0)"
    using h(8) root(2) sl(4) by simp_all
  obtain raw where raw: "render_inode crc (fs_csum_seed f) 11 (lost_found_render (opt_epoch (fb_opts b)) ?plan) = Inr raw"
    "inode_raw f 11 = Inr raw"
    using opened_fixed(3) [OF op b(1)] by blast
  then obtain i where i: "inode_of_render (lost_found_render (opt_epoch (fb_opts b)) ?plan) = Inr i"
    by (auto simp: render_inode_def bindE_eq_Inr)
  note wf = render_dir_wf [OF i [unfolded lost_found_as_dir] root(1) caps]
  obtain c where rd: "read_inode crc f 11 = Inr (i\<lparr>i_checksum := c\<rparr>)"
    using read_rendered [OF raw(2,1) i wf(1) h(4) refl] by blast
  let ?i = "i\<lparr>i_checksum := c\<rparr>"
  have fl: "i_flags ?i AND iflags_EXTENTS \<noteq> 0" "i_block ?i = ep_root ?plan" "i_generation ?i = 0"
    using wf(3-5) by simp_all
  have below: "\<forall>x\<in>set (expand_runs ?runs). x < geo_blocks geo" using reserved_plans [OF op b] by blast
  obtain es where es: "fs_extents crc f (of_nat 11) ?i = Inr es" "verify_extents f es = []"
    "length (expand_runs ?runs) = 4" "\<forall>k<4. file_block es k = Some (expand_runs ?runs ! k)"
    using dense_clean [OF op d below fl] by blast
  obtain lfb where lfb: "lost_found_blocks crc (fs_csum_seed f) = Inr lfb"
    "set (zip (expand_runs ?runs) lfb) \<subseteq> set (ns_rendered (pl_names pl))"
    using place_all_reserved(3) [OF sl(1) h(7)] by blast
  have many: "4 \<le> length lfb" using lost_found_blocks_many [OF lfb(1)] .
  have m: "mapped_block f es k (take 4 lfb ! k)" if k: "k < length (take 4 lfb)" for k
  proof -
    have "(expand_runs ?runs ! k, lfb ! k) \<in> set (zip (expand_runs ?runs) lfb)" using k many es(3) by (auto simp: set_zip)
    then have "read_block f (expand_runs ?runs ! k) = Inr (lfb ! k)" using lfb(2) sl(5) by blast
    then show ?thesis using es(4) k by (simp add: mapped_block_def)
  qed
  have "\<forall>x\<in>set (take 4 lfb). block_clean crc (inode_seed crc (fs_csum_seed f) 11 0) x"
    using lost_found_clean [OF lfb(1)] by (auto dest: in_set_takeD)
  note lin = linear_clean [OF this m, of hc]
  have "unat (i_size ?i) div fs_block_size f = 4" using wf(2) fs_wf_simps(2) [OF h(2)] by (intro dir_size) simp_all
  moreover have "\<not> inode_is_htree ?i" using wf(4) by (simp add: inode_is_htree_def)
  ultimately have dir: "verify_dir crc f 11 ?i hc = Inr []" using es(1) fl(3) lin many by (simp add: verify_dir_def)
  have "i_file_acl ?i = 0" using inode_of_render_fields(5) [OF i] by (simp add: lost_found_render_def)
  moreover have "inode_file_type ?i = Dir" using wf(6) by (simp add: inode_file_type_def)
  ultimately show ?thesis using dir es(1) by (intro verify_inode_clean [OF rd _ es(2)]) simp_all
qed

section \<open>The whole pass\<close>

lemma opened_inode_clean:
  assumes op: "opened crc b lay fills f geo slot_ino max_ino pl" and b: "builder_reachable strict opts b" "backups_fit (lay_geo lay)"
    and sb: "sb_sealed b f geo max_ino"
    and sizes: "\<forall>n\<in>set (fb_nodes b). \<forall>segs sz. n_kind n = Sparse segs sz \<longrightarrow> sz \<le> 2 ^ 44"
    and ino: "0 < ino" "ino \<le> max_ino"
  shows "verify_inode crc f hc (of_nat ino) = Inr []"
proof -
  have slot: "verify_inode crc f hc (of_nat (slot_ino ! s)) = Inr []" if s: "s < length (fb_nodes b)" "slot_ino ! s \<noteq> 0" for s
  proof (cases "n_kind (fb_nodes b ! s)")
    case (Dir children index)
    then show ?thesis by (intro dir_slot_clean [OF op b(1) sb s]) (simp add: is_dir_def)
  next
    case (File sz)
    then have "declared (n_kind (fb_nodes b ! s)) = Some (if 0 < sz then [(0, sz)] else [], sz)" by (simp add: declared_def)
    then show ?thesis by (rule file_slot_clean [OF op b(1) s]) simp
  next
    case (Sparse segs sz)
    then have d: "declared (n_kind (fb_nodes b ! s)) = Some (segs, sz)" by (simp add: declared_def)
    have "kind_ok (n_kind (fb_nodes b ! s))" using reachable_kinds [OF b(1)] s(1) by (simp add: kinds_all_def)
    moreover have "sz \<le> 2 ^ 44" using sizes s(1) Sparse nth_mem by blast
    ultimately show ?thesis using declared_spaced(1) [OF _ d] by (intro file_slot_clean [OF op b(1) s d])
  qed (fact link_slot_clean [OF op b(1) s] special_slot_clean [OF op b(1) s])+
  consider "ino \<in> {1, 3, 4, 5, 6, 7, 9, 10}" | "ino = 8" | "ino = 11" | s where "s < length (fb_nodes b)" "slot_ino ! s = ino"
    using opened_numbers(3) [OF op b(1) ino] by blast
  then show ?thesis
  proof cases
    case 1
    then show ?thesis by (rule reserved_clean [OF op b(1)])
  next
    case 2
    then show ?thesis using journal_inode_clean [OF op b] by simp
  next
    case 3
    then show ?thesis using lost_found_inode_clean [OF op b] by simp
  next
    case 4
    then show ?thesis using slot [of s] ino(1) by simp
  qed
qed

lemma opened_verifies:
  assumes op: "opened crc b lay fills f geo slot_ino max_ino pl"
    and b: "builder_reachable strict opts b" "seal crc b = Inr lay" "backups_fit (lay_geo lay)" "options_wf (fb_opts b)"
    and sizes: "\<forall>n\<in>set (fb_nodes b). \<forall>segs sz. n_kind n = Sparse segs sz \<longrightarrow> sz \<le> 2 ^ 44"
  shows "verify crc f = Inr []"
proof -
  let ?hc = "has_metadata_csum (fs_sb f)"
  obtain bm jseg where m: "sb_sealed b f geo max_ino" "\<forall>g<geo_groups geo. \<exists>d. group_sealed crc f geo max_ino bm g d"
    "journal_seg geo (opt_fs_uuid (fb_opts b)) (fst (pl_journal pl)) = Inr jseg"
    "\<And>block bs. jseg = block_seg block bs \<Longrightarrow> length bs = 4096 \<Longrightarrow> read_block f block = Inr bs"
    using opened_groups [OF op b] by blast
  have geo: "geometry_wf geo" and sb: "s_blocks_count (fs_sb f) = of_nat (geo_blocks geo)" "s_first_data_block (fs_sb f) = 0"
    "s_blocks_per_group (fs_sb f) = 32768"
    using m(1) unfolding sb_sealed_def by blast+
  have groups: "superblock_group_count (fs_sb f) = Inr (of_nat (geo_groups geo))" "unat (of_nat (geo_groups geo) :: u64) = geo_groups geo"
    using group_count_geo [OF geo sb] unat_groups [OF geo] .
  have "0 < geo_groups geo" using geo by (simp add: geometry_wf_def)
  then obtain d0 where d0: "group_sealed crc f geo max_ino bm 0 d0" using m(2) by blast
  note inode = opened_inode_clean [OF op b(1,3) m(1) sizes]
  have "issues_of (verify_group crc f ?hc) [0..<geo_groups geo] = Inr []"
    using m(2) verify_group_clean [OF m(1)] by (intro clean_issues) auto
  moreover have "issues_of (verify_group_inodes crc f ?hc) [0..<geo_groups geo] = Inr []"
    using m(2) verify_group_inodes_clean [OF m(1) _ _ inode] by (intro clean_issues) auto
  ultimately show ?thesis
    using groups verify_reserved_clean [OF m(1) d0 opened_numbers(1) [OF op b(1)]] verify_journal_clean [OF op b(1,3) m(1) b(4) m(3,4)]
    by (simp add: verify_def Let_def)
qed

end
