(* ===== verification/Mkfs.thy ===== *)
theory Mkfs
  imports Writer Seal "HOL-Library.List_Lexorder"
begin

text \<open>
  The command that builds an image from a directory of the host (src/examples/mkfs.rs), the client of
  the whole crate. The host is a tree of named nodes, each with the metadata that
  \<^verbatim>\<open>symlink_metadata\<close> gives for it; a file also has the bytes that opening and reading it
  delivers, which need not be as many as its metadata say. Names and link targets are the bytes of the
  host's strings; those that are not UTF-8 make the program panic. Errors of the crate
  reach an \<^verbatim>\<open>expect\<close> of \<^verbatim>\<open>main\<close>, which is a panic too.
\<close>

section \<open>The host\<close>

record host_md =
  md_mode :: u32
  md_uid :: u32
  md_gid :: u32
  md_mtime :: int
  md_mtime_nsec :: int
  md_atime :: int
  md_atime_nsec :: int
  md_ctime :: int
  md_ctime_nsec :: int
  md_dev :: u64
  md_ino :: u64
  md_nlink :: nat
  md_len :: nat
  md_rdev :: u64

datatype host =
    HDir host_md "(bytes \<times> host) list"
  | HSymlink host_md bytes
  | HFile host_md bytes
  | HChar host_md
  | HBlock host_md
  | HFifo host_md
  | HSocket host_md
  | HOther host_md

type_synonym host_dir = "(bytes \<times> host) list"

text \<open>\<^verbatim>\<open>str::from_utf8\<close>: the well-formed sequences of the Unicode standard.\<close>

definition utf8_tail :: "u8 \<Rightarrow> bool" where
  "utf8_tail b \<longleftrightarrow> 0x80 \<le> b \<and> b \<le> 0xBF"

fun utf8_ok :: "bytes \<Rightarrow> bool" where
  "utf8_ok [] \<longleftrightarrow> True"
| "utf8_ok (a # s) \<longleftrightarrow>
    (if a < 0x80 then utf8_ok s
     else if a < 0xC2 then False
     else if a < 0xE0 then (case s of b # s' \<Rightarrow> utf8_tail b \<and> utf8_ok s' | _ \<Rightarrow> False)
     else if a < 0xF0 then
       (case s of b # c # s' \<Rightarrow>
          (if a = 0xE0 then 0xA0 else 0x80) \<le> b \<and> b \<le> (if a = 0xED then 0x9F else 0xBF) \<and>
          utf8_tail c \<and> utf8_ok s'
        | _ \<Rightarrow> False)
     else if a < 0xF5 then
       (case s of b # c # d # s' \<Rightarrow>
          (if a = 0xF0 then 0x90 else 0x80) \<le> b \<and> b \<le> (if a = 0xF4 then 0x8F else 0xBF) \<and>
          utf8_tail c \<and> utf8_tail d \<and> utf8_ok s'
        | _ \<Rightarrow> False)
     else False)"

section \<open>Metadata\<close>

definition meta_from :: "host_md \<Rightarrow> meta" where
  "meta_from md =
    (Meta_new (ucast (md_mode md AND 0xFFF)) (md_uid md) (md_gid md) (md_mtime md, word_of_int (md_mtime_nsec md)))
      \<lparr>m_atime := Some (md_atime md, word_of_int (md_atime_nsec md)),
       m_ctime := Some (md_ctime md, word_of_int (md_ctime_nsec md))\<rparr>"

definition rdev_major :: "u64 \<Rightarrow> u32" where
  "rdev_major rdev = ucast (drop_bit 8 rdev AND 0xFFF)"

definition rdev_minor :: "u64 \<Rightarrow> u32" where
  "rdev_minor rdev = ucast ((rdev AND 0xFF) OR (drop_bit 12 rdev AND NOT 0xFF))"

definition file_key :: "host_md \<Rightarrow> u64 \<times> u64" where
  "file_key md = (md_dev md, md_ino md)"

section \<open>Declaring the tree\<close>

text \<open>
  What \<^verbatim>\<open>declare\<close> threads through its recursion: the builder, the handles of files with several
  names, and the files to fill, each with what its path will deliver.
\<close>

record declaring =
  dc_b :: fs_builder
  dc_links :: "u64 \<times> u64 \<Rightarrow> handle option"
  dc_fills :: "(handle \<times> bytes) list"

definition on_builder :: "(fs_builder, 'a) call \<Rightarrow> declaring \<Rightarrow> ('a \<times> declaring) res" where
  "on_builder f st =
    (case f (dc_b st) of (Inl e, _) \<Rightarrow> Inl e | (Inr x, b) \<Rightarrow> Inr (x, st\<lparr>dc_b := b\<rparr>))"

definition declare_file :: "handle \<Rightarrow> bytes \<Rightarrow> host_md \<Rightarrow> bytes \<Rightarrow> declaring \<Rightarrow> declaring res" where
  "declare_file dir name md content st =
    (case (if 1 < md_nlink md then dc_links st (file_key md) else None) of
       Some existing \<Rightarrow> bindE (on_builder (fb_hardlink dir name existing) st) (\<lambda>(_, st). Inr st)
     | None \<Rightarrow>
         bindE (on_builder (fb_file dir name (meta_from md) (md_len md)) st) (\<lambda>(f, st).
         let st = (if 1 < md_nlink md then st\<lparr>dc_links := (dc_links st)(file_key md \<mapsto> f)\<rparr> else st)
         in Inr (if 0 < md_len md then st\<lparr>dc_fills := dc_fills st @ [(f, content)]\<rparr> else st)))"

text \<open>The entries that are not directories.\<close>

definition declare_leaf :: "handle \<Rightarrow> bytes \<Rightarrow> host \<Rightarrow> declaring \<Rightarrow> declaring res" where
  "declare_leaf dir name h st =
    (case h of
       HDir md es \<Rightarrow> Inl Panic
     | HSymlink md target \<Rightarrow>
         bindE (guardE (utf8_ok target) Panic) (\<lambda>_.
         bindE (on_builder (fb_symlink dir name target (meta_from md)) st) (\<lambda>(_, st). Inr st))
     | HFile md content \<Rightarrow> declare_file dir name md content st
     | HChar md \<Rightarrow>
         bindE (on_builder (fb_mknod dir name (meta_from md) (special_kind.Char (rdev_major (md_rdev md)) (rdev_minor (md_rdev md)))) st)
           (\<lambda>(_, st). Inr st)
     | HBlock md \<Rightarrow>
         bindE (on_builder (fb_mknod dir name (meta_from md) (special_kind.Block (rdev_major (md_rdev md)) (rdev_minor (md_rdev md)))) st)
           (\<lambda>(_, st). Inr st)
     | HFifo md \<Rightarrow> bindE (on_builder (fb_mknod dir name (meta_from md) special_kind.Fifo) st) (\<lambda>(_, st). Inr st)
     | HSocket md \<Rightarrow> bindE (on_builder (fb_mknod dir name (meta_from md) special_kind.Socket) st) (\<lambda>(_, st). Inr st)
     | HOther md \<Rightarrow> Inr st)"

lemma size_list_sort_key: "size_list f (sort_key k xs) = size_list f xs"
  by (simp add: size_list_conv_sum_list) (metis mset_map mset_sort sum_mset_sum_list)

lemma size_entries: "size_list (\<lambda>e. size (snd e)) es \<le> size_list (size_prod (\<lambda>x. 0) size) es"
  by (induction es) auto

text \<open>The entries come in any order and are sorted by name, bytewise and stably.\<close>

function (sequential) declare_tree :: "handle \<Rightarrow> host_dir \<Rightarrow> declaring \<Rightarrow> declaring res"
  and declare_list :: "handle \<Rightarrow> host_dir \<Rightarrow> declaring \<Rightarrow> declaring res"
  and declare_entry :: "handle \<Rightarrow> bytes \<Rightarrow> host \<Rightarrow> declaring \<Rightarrow> declaring res"
where
  "declare_tree dir es st = declare_list dir (sort_key fst es) st"
| "declare_list dir [] st = Inr st"
| "declare_list dir ((name, h) # es) st =
    bindE (declare_entry dir name h st) (\<lambda>st. declare_list dir es st)"
| "declare_entry dir name (HDir md es) st =
    bindE (guardE (utf8_ok name) Panic) (\<lambda>_.
    bindE (on_builder (fb_mkdir dir name (meta_from md)) st) (\<lambda>(child, st). declare_tree child es st))"
| "declare_entry dir name h st =
    bindE (guardE (utf8_ok name) Panic) (\<lambda>_. declare_leaf dir name h st)"
  by pat_completeness auto

termination
  by (relation "measure (\<lambda>x. case x of
      Inl (_, es, _) \<Rightarrow> 2 * size_list (\<lambda>e. size (snd e)) es + 1
    | Inr (Inl (_, es, _)) \<Rightarrow> 2 * size_list (\<lambda>e. size (snd e)) es
    | Inr (Inr (_, _, h, _)) \<Rightarrow> 2 * size h)")
    (simp_all add: size_list_sort_key le_imp_less_Suc size_entries)

declare declare_tree.simps [simp del] declare_list.simps [simp del] declare_entry.simps [simp del]

section \<open>The program\<close>

definition expect :: "'a res \<Rightarrow> 'a res" where
  "expect m = (case m of Inl _ \<Rightarrow> Inl Panic | Inr x \<Rightarrow> Inr x)"

definition mkfs_options :: "nat \<Rightarrow> nat option \<Rightarrow> options" where
  "mkfs_options sz inodes =
    (Options_new sz (ascii ''mkext4-benchmark'') 1704067200)
      \<lparr>opt_inodes := (case inodes of None \<Rightarrow> Auto | Some n \<Rightarrow> Exact n)\<rparr>"

fun mkfs_fills :: "(handle \<times> bytes) list \<Rightarrow> file_sink image_writer \<Rightarrow> file_sink image_writer res" where
  "mkfs_fills [] w = Inr w"
| "mkfs_fills ((f, content) # fills) w =
    (case iw_fill file_data file_zeros f content w of
       (Inl e, _) \<Rightarrow> Inl Panic
     | (Inr _, w) \<Rightarrow> mkfs_fills fills w)"

definition mkfs :: "crc \<Rightarrow> host_dir \<Rightarrow> nat \<Rightarrow> nat option \<Rightarrow> (bytes \<times> summary) res" where
  "mkfs crc src sz inodes =
    bindE (expect (FsBuilder_new (mkfs_options sz inodes))) (\<lambda>b.
    bindE (expect (declare_tree ROOT src \<lparr>dc_b = b, dc_links = Map.empty, dc_fills = []\<rparr>)) (\<lambda>st.
    bindE (expect (seal crc (dc_b st))) (\<lambda>lay.
    bindE (expect (iw_new file_data file_zeros lay (FileSink_create (image_len lay)))) (\<lambda>w.
    bindE (mkfs_fills (dc_fills st) w) (\<lambda>w.
    bindE (expect (iw_finish w)) (\<lambda>sum.
    Inr (file_content (iw_sink w), sum)))))))"

end
