(* ===== verification/MkfsDeclare.thy ===== *)
theory MkfsDeclare
  imports Mkfs NameEntries BuilderKinds
begin

text \<open>
  What declaring a host tree makes of the builder: the calls as additions to the name map
  (\<open>adds\<close>, \<open>new_node\<close>), the host as a map from paths to nodes (\<open>host_path\<close>), and the correspondence
  of the two when the whole tree has been declared (\<open>declare_tree_placed\<close>).
\<close>

section \<open>Additions\<close>

text \<open>A node of the builder as it may change while names are only added.\<close>

definition node_like :: "node \<Rightarrow> node \<Rightarrow> bool" where
  "node_like n n' \<longleftrightarrow> n_meta n' = n_meta n \<and> (is_dir n \<and> is_dir n' \<or> n_kind n' = n_kind n)"

text \<open>The builder grows, and of its directories only those of \<open>D\<close> get new names.\<close>

definition grows :: "nat set \<Rightarrow> fs_builder \<Rightarrow> fs_builder \<Rightarrow> bool" where
  "grows D b b' \<longleftrightarrow> fb_opts b' = fb_opts b \<and> length (fb_nodes b) \<le> length (fb_nodes b') \<and>
    (\<forall>s<length (fb_nodes b). node_like (fb_nodes b ! s) (fb_nodes b' ! s)) \<and>
    (\<forall>d<length (fb_nodes b). d \<notin> D \<longrightarrow> lookup b' d = lookup b d) \<and> (\<forall>d. lookup b d \<subseteq>\<^sub>m lookup b' d)"

lemma node_like_refl [simp]: "node_like n n"
  by (simp add: node_like_def)

lemma node_like_trans: "node_like n n' \<Longrightarrow> node_like n' n'' \<Longrightarrow> node_like n n''"
  by (auto simp: node_like_def is_dir_def)

lemma grows_refl: "grows D b b"
  by (simp add: grows_def)

lemma grows_trans: "grows D b b1 \<Longrightarrow> grows D b1 b2 \<Longrightarrow> grows D b b2"
  unfolding grows_def by (auto intro: node_like_trans map_le_trans)

text \<open>What happens in directories that did not exist before does not count.\<close>

lemma grows_new:
  assumes "grows D b b1" "grows D' b1 b2" "\<And>d. d \<in> D' \<Longrightarrow> d < length (fb_nodes b) \<Longrightarrow> d \<in> D"
  shows "grows D b b2"
proof -
  have "lookup b2 d = lookup b d" if "d < length (fb_nodes b)" "d \<notin> D" for d
    using assms that unfolding grows_def by (metis order_less_le_trans)
  then show ?thesis using assms(1,2) unfolding grows_def by (auto intro: node_like_trans map_le_trans)
qed

lemma grows_node:
  assumes "grows D b b'" "s < length (fb_nodes b)"
  shows "s < length (fb_nodes b')" "n_meta (fb_nodes b' ! s) = n_meta (fb_nodes b ! s)"
    "\<not> is_dir (fb_nodes b ! s) \<Longrightarrow> n_kind (fb_nodes b' ! s) = n_kind (fb_nodes b ! s)"
    "is_dir (fb_nodes b' ! s) = is_dir (fb_nodes b ! s)"
  using assms by (auto simp: grows_def node_like_def is_dir_def)

lemma grows_opts: "grows D b b' \<Longrightarrow> fb_opts b' = fb_opts b"
  by (simp add: grows_def)

lemma grows_lookup: "grows D b b' \<Longrightarrow> lookup b d nm = Some c \<Longrightarrow> lookup b' d nm = Some c"
  unfolding grows_def map_le_def by (metis domI)

lemma grows_frame: "grows D b b' \<Longrightarrow> d < length (fb_nodes b) \<Longrightarrow> d \<notin> D \<Longrightarrow> lookup b' d = lookup b d"
  by (simp add: grows_def)

lemma grows_walk: "grows D b b' \<Longrightarrow> walk b d nms = Some c \<Longrightarrow> walk b' d nms = Some c"
  by (induction nms arbitrary: d) (auto split: option.splits dest: grows_lookup)

section \<open>The calls as additions\<close>

definition adds :: "nat \<Rightarrow> bytes \<Rightarrow> nat \<Rightarrow> fs_builder \<Rightarrow> fs_builder \<Rightarrow> bool" where
  "adds dir name c b b' \<longleftrightarrow> dir < length (fb_nodes b) \<and> lookup b dir name = None \<and>
    grows {dir} b b' \<and> lookup b' dir = (lookup b dir)(name \<mapsto> c)"

definition new_node :: "nat \<Rightarrow> bytes \<Rightarrow> node_kind \<Rightarrow> meta \<Rightarrow> nat \<Rightarrow> fs_builder \<Rightarrow> fs_builder \<Rightarrow> bool" where
  "new_node dir name kind m c b b' \<longleftrightarrow> adds dir name c b b' \<and> c = length (fb_nodes b) \<and>
    length (fb_nodes b') = Suc c \<and> n_kind (fb_nodes b' ! c) = kind \<and> n_meta (fb_nodes b' ! c) = m \<and>
    lookup b' c = Map.empty"

lemma entry_added_adds:
  assumes inv: "builder_inv strict b" and d: "dir < length (fb_nodes b)"
    and k: "n_kind (fb_nodes b ! dir) = node_kind.Dir children index" "index name = None"
  shows "adds dir name c b (entry_added dir children index name c b)"
    "length (fb_nodes (entry_added dir children index name c b)) = length (fb_nodes b)"
proof -
  let ?b = "entry_added dir children index name c b"
  have none: "lookup b dir name = None" using d k by (simp add: lookup_def)
  have lk: "lookup ?b = (lookup b)(dir := (lookup b dir)(name \<mapsto> c))" using lookup_entry_added [OF assms] .
  show len: "length (fb_nodes ?b) = length (fb_nodes b)" by (simp add: entry_added_def set_dir_def)
  have "node_like (fb_nodes b ! s) (fb_nodes ?b ! s)" if "s < length (fb_nodes b)" for s
    using that k d by (auto simp: entry_added_def set_dir_def nth_list_update node_like_def is_dir_def)
  moreover have "lookup b d' \<subseteq>\<^sub>m lookup ?b d'" for d' using none by (auto simp: lk map_le_def)
  moreover have "fb_opts ?b = fb_opts b" by (simp add: entry_added_def set_dir_def)
  ultimately show "adds dir name c b ?b" using d none len by (simp add: adds_def grows_def lk)
qed

lemma push_new_node:
  assumes a: "adds dir name (length (fb_nodes b)) b b1" "length (fb_nodes b1) = length (fb_nodes b)"
    and f: "kind_fresh kind"
  shows "new_node dir name kind m (length (fb_nodes b)) b ((push_node kind m b1)\<lparr>fb_declared_bytes := n\<rparr>)"
proof -
  let ?b = "(push_node kind m b1)\<lparr>fb_declared_bytes := n\<rparr>"
  have nodes: "fb_nodes ?b = fb_nodes b1 @ [\<lparr>n_kind = kind, n_meta = m, n_nlink = 1\<rparr>]" by (simp add: push_node_def)
  have lk: "lookup ?b d = (if d = length (fb_nodes b) then Map.empty else lookup b1 d)" for d
  proof -
    have "lookup ?b d = lookup (push_node kind m b1) d" by (simp add: lookup_def push_node_def fun_eq_iff)
    then show ?thesis using lookup_push [OF f, of m b1 d] a(2) by simp
  qed
  have e: "grows {dir} b b1" "dir < length (fb_nodes b)" using a(1) by (simp_all add: adds_def)
  have "lookup b d \<subseteq>\<^sub>m lookup ?b d" for d
    using e(1) by (cases "d = length (fb_nodes b)") (simp_all add: lk grows_def lookup_out)
  moreover have "fb_opts ?b = fb_opts b1" by (simp add: push_node_def)
  ultimately have "grows {dir} b ?b" using e a(2) by (auto simp: grows_def nodes lk nth_append)
  then show ?thesis using a e(2) by (simp add: new_node_def adds_def lk nodes nth_append)
qed

lemma add_entry_adds:
  assumes "builder_inv strict b" "add_entry dir name c b = (Inr u, b1)"
  shows "adds dir name c b b1" "length (fb_nodes b1) = length (fb_nodes b)"
proof -
  have "adds dir name c b b1 \<and> length (fb_nodes b1) = length (fb_nodes b)"
    by (rule add_entry_cases [of dir name c b]) (use assms entry_added_adds [OF assms(1)] in auto)
  then show "adds dir name c b b1" "length (fb_nodes b1) = length (fb_nodes b)" by simp_all
qed

lemma fb_mkdir_new:
  assumes "builder_inv strict b" "fb_mkdir dir name m b = (Inr h, b')"
  shows "new_node dir name (node_kind.Dir [] Map.empty) m h b b'"
proof -
  obtain b1 where a: "add_entry dir name (length (fb_nodes b)) b = (Inr (), b1)"
    "h = length (fb_nodes b)" "b' = push_node (node_kind.Dir [] Map.empty) m b1"
    using assms(2) by (auto simp: fb_mkdir_def call_defs Let_def split: prod.splits sum.splits)
  have "b' = b'\<lparr>fb_declared_bytes := fb_declared_bytes b'\<rparr>" by simp
  then show ?thesis
    using push_new_node [OF add_entry_adds [OF assms(1) a(1)], of "node_kind.Dir [] Map.empty" m "fb_declared_bytes b'"] a(2,3)
    by (simp add: kind_fresh_def)
qed

lemma fb_file_new:
  assumes "builder_inv strict b" "fb_file dir name m sz b = (Inr h, b')"
  shows "new_node dir name (File sz) m h b b'"
proof -
  obtain b1 where a: "add_entry dir name (length (fb_nodes b)) b = (Inr (), b1)" "h = length (fb_nodes b)"
    "b' = (push_node (File sz) m b1)\<lparr>fb_declared_bytes := fb_declared_bytes (push_node (File sz) m b1) + sz\<rparr>"
    using assms(2) by (auto simp: fb_file_def call_defs Let_def add_declared_def split: prod.splits sum.splits if_splits)
  show ?thesis
    using push_new_node [OF add_entry_adds [OF assms(1) a(1)], of "File sz" m] a(2,3) by (simp add: kind_fresh_def)
qed

lemma push_call_new:
  assumes "builder_inv strict b" "kind_fresh kind"
    and "bindS (add_entry dir name (length (fb_nodes b))) (\<lambda>_. bindS (modifyS (push_node kind m)) (\<lambda>_.
      returnS (length (fb_nodes b)))) b = (Inr h, b')"
  shows "new_node dir name kind m h b b'"
proof -
  obtain b1 where a: "add_entry dir name (length (fb_nodes b)) b = (Inr (), b1)"
    "h = length (fb_nodes b)" "b' = push_node kind m b1"
    using assms(3) by (auto simp: call_defs split: prod.splits sum.splits)
  have "b' = b'\<lparr>fb_declared_bytes := fb_declared_bytes b'\<rparr>" by simp
  then show ?thesis
    using push_new_node [OF add_entry_adds [OF assms(1) a(1)] assms(2), of m "fb_declared_bytes b'"] a(2,3) by simp
qed

lemma fb_symlink_new:
  assumes "builder_inv strict b" "fb_symlink dir name target m b = (Inr h, b')"
  shows "new_node dir name (node_kind.Symlink target) m h b b'"
  using assms(2) by (intro push_call_new [OF assms(1)])
    (auto simp: fb_symlink_def kind_fresh_def failS_def Let_def split: if_splits)

fun special_node :: "special_kind \<Rightarrow> node_kind" where
  "special_node (special_kind.Char major minor) = Special ft_CHR major minor"
| "special_node (special_kind.Block major minor) = Special ft_BLK major minor"
| "special_node special_kind.Fifo = Special ft_FIFO 0 0"
| "special_node special_kind.Socket = Special ft_SOCK 0 0"

lemma fb_mknod_new:
  assumes "builder_inv strict b" "fb_mknod dir name m kind b = (Inr h, b')"
  shows "new_node dir name (special_node kind) m h b b'"
  using assms(2) by (intro push_call_new [OF assms(1)])
    (cases kind; auto simp: fb_mknod_def kind_fresh_def failS_def Let_def split: if_splits)+

lemma fb_hardlink_adds:
  assumes inv: "builder_inv strict b" and r: "fb_hardlink dir name t b = (Inr (), b')"
  shows "adds dir name t b b'" "length (fb_nodes b') = length (fb_nodes b)"
proof -
  obtain b1 where a: "add_entry dir name t b = (Inr (), b1)" "b' = set_nlink t (n_nlink (fb_nodes b1 ! t) + 1) b1"
    and t: "t < length (fb_nodes b)"
    using r by (auto simp: fb_hardlink_def call_defs failS_def split: prod.splits sum.splits if_splits)
  note ad = add_entry_adds [OF inv a(1)]
  have t1: "t < length (fb_nodes b1)" using t ad(2) by simp
  have sk: "same_kinds b1 b'" unfolding a(2) using t1 by (rule same_kinds_nlink)
  note s = same_kinds_nth [OF sk]
  have lk: "lookup b' = lookup b1" using s by (simp add: lookup_def fun_eq_iff)
  have m: "n_meta (fb_nodes b' ! x) = n_meta (fb_nodes b1 ! x)" if "x < length (fb_nodes b1)" for x
    using that by (cases "x = t") (simp_all add: a(2) set_nlink_def)
  have "node_like (fb_nodes b1 ! x) (fb_nodes b' ! x)" if "x < length (fb_nodes b1)" for x
    using m [OF that] s(2) [OF that] by (simp add: node_like_def)
  moreover have "fb_opts b' = fb_opts b1" by (simp add: a(2) set_nlink_def)
  ultimately have "grows {dir} b1 b'" using s(1) by (simp add: grows_def lk)
  then show "adds dir name t b b'" using ad(1) grows_trans by (auto simp: adds_def lk)
  show "length (fb_nodes b') = length (fb_nodes b)" using s(1) ad(2) by simp
qed

section \<open>The host as a map from paths to nodes\<close>

inductive host_path :: "host_dir \<Rightarrow> bytes list \<Rightarrow> host \<Rightarrow> bool" where
  here: "(nm, h) \<in> set es \<Longrightarrow> host_path es [nm] h"
| below: "(nm, HDir md sub) \<in> set es \<Longrightarrow> host_path sub parts h \<Longrightarrow> host_path es (nm # parts) h"

inductive_cases host_pathE: "host_path es parts h"
inductive_simps host_path_Cons: "host_path es (nm # parts) h"

lemma host_path_Nil [simp]: "\<not> host_path es [] h"
  by (auto elim: host_pathE)

lemma host_path_cong: "set es = set es' \<Longrightarrow> host_path es parts h = host_path es' parts h"
  by (cases parts) (simp_all add: host_path_Cons)

lemma host_path_append: "host_path (xs @ ys) parts h \<longleftrightarrow> host_path xs parts h \<or> host_path ys parts h"
  by (cases parts) (auto simp: host_path_Cons)

text \<open>Entries of a type the program does not know are left out.\<close>

definition kept :: "host \<Rightarrow> bool" where
  "kept h \<longleftrightarrow> (case h of HOther _ \<Rightarrow> False | _ \<Rightarrow> True)"

definition host_names :: "host_dir \<Rightarrow> bytes set" where
  "host_names es = {nm. \<exists>h. (nm, h) \<in> set es \<and> kept h}"

definition is_hdir :: "host \<Rightarrow> bool" where
  "is_hdir h \<longleftrightarrow> (case h of HDir _ _ \<Rightarrow> True | _ \<Rightarrow> False)"

lemma host_names_simps [simp]:
  "host_names [] = {}" "host_names (xs @ ys) = host_names xs \<union> host_names ys"
  "host_names [(nm, h)] = (if kept h then {nm} else {})"
  by (auto simp: host_names_def)

text \<open>All names of one file of the host agree on what it is.\<close>

definition links_agree :: "host set \<Rightarrow> bool" where
  "links_agree U \<longleftrightarrow> (\<forall>md content md' content'. HFile md content \<in> U \<and> HFile md' content' \<in> U \<and>
     1 < md_nlink md \<and> 1 < md_nlink md' \<and> file_key md = file_key md' \<longrightarrow> md = md' \<and> content = content')"

definition host_nodes :: "host_dir \<Rightarrow> host set" where
  "host_nodes es = {h. \<exists>parts. host_path es parts h}"

lemma host_nodes_sub:
  "host_nodes es \<subseteq> U \<Longrightarrow> (nm, h) \<in> set es \<Longrightarrow> h \<in> U"
  "host_nodes es \<subseteq> U \<Longrightarrow> (nm, HDir md sub) \<in> set es \<Longrightarrow> host_nodes sub \<subseteq> U"
  unfolding host_nodes_def by (blast intro: host_path.intros)+

section \<open>Nodes of the builder that show nodes of the host\<close>

definition host_meta :: "host \<Rightarrow> host_md" where
  "host_meta h = (case h of HDir md _ \<Rightarrow> md | HSymlink md _ \<Rightarrow> md | HFile md _ \<Rightarrow> md | HChar md \<Rightarrow> md
     | HBlock md \<Rightarrow> md | HFifo md \<Rightarrow> md | HSocket md \<Rightarrow> md | HOther md \<Rightarrow> md)"

definition shown :: "declaring \<Rightarrow> nat \<Rightarrow> host \<Rightarrow> bool" where
  "shown st c h \<longleftrightarrow> (let n = fb_nodes (dc_b st) ! c in
    c < length (fb_nodes (dc_b st)) \<and> n_meta n = meta_from (host_meta h) \<and>
    (case h of
       HDir md es \<Rightarrow> is_dir n \<and> dom (lookup (dc_b st) c) = host_names es
     | HSymlink md target \<Rightarrow> n_kind n = node_kind.Symlink target
     | HFile md content \<Rightarrow> n_kind n = File (md_len md) \<and> (0 < md_len md \<longrightarrow> (c, content) \<in> set (dc_fills st)) \<and>
         (1 < md_nlink md \<longrightarrow> dc_links st (file_key md) = Some c)
     | HChar md \<Rightarrow> n_kind n = Special ft_CHR (rdev_major (md_rdev md)) (rdev_minor (md_rdev md))
     | HBlock md \<Rightarrow> n_kind n = Special ft_BLK (rdev_major (md_rdev md)) (rdev_minor (md_rdev md))
     | HFifo md \<Rightarrow> n_kind n = Special ft_FIFO 0 0
     | HSocket md \<Rightarrow> n_kind n = Special ft_SOCK 0 0
     | HOther md \<Rightarrow> True))"

definition host_placed :: "declaring \<Rightarrow> nat \<Rightarrow> host_dir \<Rightarrow> bool" where
  "host_placed st dir es \<longleftrightarrow> (\<forall>parts h. host_path es parts h \<longrightarrow> kept h \<longrightarrow>
    (\<exists>c. walk (dc_b st) dir parts = Some c \<and> shown st c h \<and> (is_hdir h \<longrightarrow> dir < c)))"

definition progress :: "nat set \<Rightarrow> declaring \<Rightarrow> declaring \<Rightarrow> bool" where
  "progress D st st' \<longleftrightarrow> grows D (dc_b st) (dc_b st') \<and> set (dc_fills st) \<subseteq> set (dc_fills st') \<and>
    dc_links st \<subseteq>\<^sub>m dc_links st'"

lemma progress_trans: "progress D st st1 \<Longrightarrow> progress D st1 st2 \<Longrightarrow> progress D st st2"
  unfolding progress_def by (auto intro: grows_trans map_le_trans)

lemma shown_progress:
  assumes "shown st c h" "progress D st st'" "is_hdir h \<Longrightarrow> c \<notin> D"
  shows "shown st' c h"
proof -
  have e: "grows D (dc_b st) (dc_b st')" and c: "c < length (fb_nodes (dc_b st))"
    using assms(1,2) by (simp_all add: progress_def shown_def Let_def)
  note n = grows_node [OF e c]
  have k: "n_kind (fb_nodes (dc_b st') ! c) = n_kind (fb_nodes (dc_b st) ! c)" if "\<not> is_dir (fb_nodes (dc_b st) ! c)"
    using n(3) that .
  show ?thesis
  proof (cases h)
    case (HDir md es)
    then have "lookup (dc_b st') c = lookup (dc_b st) c" using grows_frame [OF e c] assms(3) by (simp add: is_hdir_def)
    then show ?thesis using assms(1) n HDir by (simp add: shown_def Let_def)
  next
    case (HFile md content)
    have "dc_links st key = Some x \<Longrightarrow> dc_links st' key = Some x" for key x
      using assms(2) unfolding progress_def map_le_def by (metis domI)
    then show ?thesis using assms(1,2) n k HFile by (auto simp: shown_def Let_def is_dir_def progress_def)
  qed (use assms(1,2) n k in \<open>auto simp: shown_def Let_def is_dir_def progress_def\<close>)
qed

lemma host_placed_progress:
  assumes "host_placed st dir es" "progress {dir} st st'"
  shows "host_placed st' dir es"
  unfolding host_placed_def
proof (intro allI impI)
  fix parts h assume "host_path es parts h" "kept h"
  then obtain c where c: "walk (dc_b st) dir parts = Some c" "shown st c h" "is_hdir h \<longrightarrow> dir < c"
    using assms(1) unfolding host_placed_def by blast
  have "walk (dc_b st') dir parts = Some c" using c(1) assms(2) grows_walk by (auto simp: progress_def)
  moreover have "shown st' c h" using shown_progress [OF c(2) assms(2)] c(3) by auto
  ultimately show "\<exists>c. walk (dc_b st') dir parts = Some c \<and> shown st' c h \<and> (is_hdir h \<longrightarrow> dir < c)" using c(3) by blast
qed

end
