(* ===== verification/MkfsPlaced.thy ===== *)
theory MkfsPlaced
  imports MkfsDeclare
begin

text \<open>
  The induction over the host tree: after \<^verbatim>\<open>declare\<close> has returned, every path of the host leads
  in the builder to a node that shows what the path names on the host, and directories hold no other
  names (\<open>declare_tree_done\<close>).
\<close>

section \<open>The invariant\<close>

definition dense_files :: "fs_builder \<Rightarrow> bool" where
  "dense_files b \<longleftrightarrow> (\<forall>n\<in>set (fb_nodes b). \<forall>segs sz. n_kind n \<noteq> Sparse segs sz)"

definition decl_inv :: "options \<Rightarrow> host set \<Rightarrow> declaring \<Rightarrow> bool" where
  "decl_inv opts U st \<longleftrightarrow> builder_reachable False opts (dc_b st) \<and> dense_files (dc_b st) \<and>
    (\<forall>key s. dc_links st key = Some s \<longrightarrow>
      (\<exists>md content. HFile md content \<in> U \<and> 1 < md_nlink md \<and> file_key md = key \<and> shown st s (HFile md content)))"

definition declared_in :: "options \<Rightarrow> host set \<Rightarrow> nat \<Rightarrow> host_dir \<Rightarrow> declaring \<Rightarrow> declaring \<Rightarrow> bool" where
  "declared_in opts U dir es st st' \<longleftrightarrow> decl_inv opts U st' \<and> progress {dir} st st' \<and> host_placed st' dir es \<and>
    dom (lookup (dc_b st') dir) = dom (lookup (dc_b st) dir) \<union> host_names es"

lemma declared_append:
  assumes "declared_in opts U dir xs st st1" "declared_in opts U dir ys st1 st2"
  shows "declared_in opts U dir (xs @ ys) st st2"
proof -
  have "host_placed st2 dir xs" "host_placed st2 dir ys"
    using assms host_placed_progress by (auto simp: declared_in_def)
  then have "host_placed st2 dir (xs @ ys)" by (auto simp: host_placed_def host_path_append)
  then show ?thesis using assms progress_trans by (auto simp: declared_in_def)
qed

lemma declared_cong:
  assumes "set es = set es'"
  shows "declared_in opts U dir es st st' = declared_in opts U dir es' st st'"
proof -
  have "host_names es = host_names es'" using assms by (simp add: host_names_def)
  then show ?thesis using host_path_cong [OF assms] by (simp add: declared_in_def host_placed_def)
qed

text \<open>One entry that is not a directory.\<close>

lemma declared_single:
  assumes "decl_inv opts U st'" "progress {dir} st st'" "\<not> is_hdir h" "kept h"
    and "lookup (dc_b st') dir = (lookup (dc_b st) dir)(nm \<mapsto> c)" "shown st' c h"
  shows "declared_in opts U dir [(nm, h)] st st'"
proof -
  have only: "parts = [nm] \<and> h' = h" if "host_path [(nm, h)] parts h'" for parts h'
    using that assms(3) by (cases rule: host_pathE) (auto simp: is_hdir_def)
  have "walk (dc_b st') dir [nm] = Some c" by (simp add: assms(5))
  then have "host_placed st' dir [(nm, h)]" using only assms(3,6) unfolding host_placed_def by blast
  moreover have "dom (lookup (dc_b st') dir) = dom (lookup (dc_b st) dir) \<union> host_names [(nm, h)]"
    using assms(4) unfolding assms(5) by simp
  ultimately show ?thesis using assms(1,2) by (simp add: declared_in_def)
qed

section \<open>Calls\<close>

lemma on_builder_Inr:
  "on_builder f st = Inr (x, st') \<longleftrightarrow> (\<exists>b. f (dc_b st) = (Inr x, b) \<and> st' = st\<lparr>dc_b := b\<rparr>)"
  by (auto simp: on_builder_def split: prod.splits sum.splits)

lemma reach_step:
  assumes "builder_reachable False opts b" "run_call c b = (Inr (), b')"
  shows "builder_reachable False opts b'"
  by (rule builder_reachable.step [OF assms(1) _ assms(2)]) simp_all

lemma reach_calls:
  assumes r: "builder_reachable False opts b"
  shows "fb_mkdir dir nm m b = (Inr h, b') \<Longrightarrow> builder_reachable False opts b'"
    "fb_file dir nm m sz b = (Inr h, b') \<Longrightarrow> builder_reachable False opts b'"
    "fb_symlink dir nm t m b = (Inr h, b') \<Longrightarrow> builder_reachable False opts b'"
    "fb_mknod dir nm m k b = (Inr h, b') \<Longrightarrow> builder_reachable False opts b'"
    "fb_hardlink dir nm h b = (Inr (), b') \<Longrightarrow> builder_reachable False opts b'"
  using reach_step [OF r, of "CMkdir dir nm m" b'] reach_step [OF r, of "CFile dir nm m sz" b']
    reach_step [OF r, of "CSymlink dir nm t m" b'] reach_step [OF r, of "CMknod dir nm m k" b']
    reach_step [OF r, of "CHardlink dir nm h" b']
  by (simp_all add: ignoreS_def call_defs)

lemma decl_inv_progress:
  assumes "decl_inv opts U st" "progress D st st'" "builder_reachable False opts (dc_b st')" "dense_files (dc_b st')"
    and "dc_links st' = dc_links st"
  shows "decl_inv opts U st'"
  unfolding decl_inv_def
proof (intro conjI assms(3,4) allI impI)
  fix key s assume "dc_links st' key = Some s"
  then obtain md content where m: "HFile md content \<in> U" "1 < md_nlink md" "file_key md = key" "shown st s (HFile md content)"
    using assms(1,5) unfolding decl_inv_def by metis
  have "shown st' s (HFile md content)" using shown_progress [OF m(4) assms(2)] by (simp add: is_hdir_def)
  then show "\<exists>md content. HFile md content \<in> U \<and> 1 < md_nlink md \<and> file_key md = key \<and> shown st' s (HFile md content)"
    using m by blast
qed

lemma adds_progress: "adds dir nm c (dc_b st) b \<Longrightarrow> progress {dir} st (st\<lparr>dc_b := b\<rparr>)"
  by (simp add: adds_def progress_def)

lemma dense_grows:
  assumes "dense_files b" "grows D b b'" "length (fb_nodes b') = length (fb_nodes b)"
  shows "dense_files b'"
proof -
  have "n_kind (fb_nodes b' ! s) \<noteq> Sparse segs sz" if "s < length (fb_nodes b')" for s segs sz
    using grows_node(3,4) [OF assms(2), of s] assms(1,3) that unfolding dense_files_def is_dir_def
    by (auto split: node_kind.splits)
  then show ?thesis by (auto simp: dense_files_def in_set_conv_nth)
qed

lemma dense_new:
  assumes "dense_files b" "new_node dir nm kind m c b b'" "\<And>segs sz. kind \<noteq> Sparse segs sz"
  shows "dense_files b'"
proof -
  have e: "grows {dir} b b'" "c = length (fb_nodes b)" "length (fb_nodes b') = Suc c" "n_kind (fb_nodes b' ! c) = kind"
    using assms(2) unfolding new_node_def adds_def by blast+
  have "n_kind (fb_nodes b' ! s) \<noteq> Sparse segs sz" if "s < length (fb_nodes b')" for s segs sz
  proof (cases "s = c")
    case True
    then show ?thesis using e(4) assms(3) by simp
  next
    case False
    then have "s < length (fb_nodes b)" using that e by simp
    then show ?thesis using grows_node(3,4) [OF e(1), of s] assms(1) unfolding dense_files_def is_dir_def
      by (auto split: node_kind.splits)
  qed
  then show ?thesis by (auto simp: dense_files_def in_set_conv_nth)
qed

text \<open>A new node, and what the state says of it.\<close>

lemma new_node_state:
  assumes inv: "decl_inv opts U st" and n: "new_node dir nm kind m c (dc_b st) b"
    and k: "\<And>segs sz. kind \<noteq> Sparse segs sz" and r: "builder_reachable False opts b"
  shows "decl_inv opts U (st\<lparr>dc_b := b\<rparr>)" "progress {dir} st (st\<lparr>dc_b := b\<rparr>)"
    "lookup b dir = (lookup (dc_b st) dir)(nm \<mapsto> c)" "c < length (fb_nodes b)" "n_kind (fb_nodes b ! c) = kind"
    "n_meta (fb_nodes b ! c) = m" "dir < c" "lookup b c = Map.empty"
proof -
  have a: "adds dir nm c (dc_b st) b" using n unfolding new_node_def by blast
  show p: "progress {dir} st (st\<lparr>dc_b := b\<rparr>)" using adds_progress [OF a] .
  have "dense_files b" using dense_new [OF _ n k] inv by (simp add: decl_inv_def)
  then show "decl_inv opts U (st\<lparr>dc_b := b\<rparr>)" using decl_inv_progress [OF inv p] r by simp
  show "lookup b dir = (lookup (dc_b st) dir)(nm \<mapsto> c)" "c < length (fb_nodes b)" "n_kind (fb_nodes b ! c) = kind"
    "n_meta (fb_nodes b ! c) = m" "dir < c"
    using n unfolding new_node_def adds_def by auto
  show "lookup b c = Map.empty" using n unfolding new_node_def by blast
qed


section \<open>The entries of a directory\<close>

text \<open>One call that declares a node, and what its entry shows.\<close>

lemma declared_new:
  assumes inv: "decl_inv opts U st" and call: "on_builder f st = Inr (c, st')"
    and new: "\<And>b. f (dc_b st) = (Inr c, b) \<Longrightarrow> new_node dir nm kind (meta_from (host_meta h)) c (dc_b st) b"
    and reach: "\<And>b. f (dc_b st) = (Inr c, b) \<Longrightarrow> builder_reachable False opts b"
    and k: "\<And>segs sz. kind \<noteq> Sparse segs sz" and h: "\<not> is_hdir h" "kept h"
    and shows_h: "\<And>st'. c < length (fb_nodes (dc_b st')) \<Longrightarrow> n_kind (fb_nodes (dc_b st') ! c) = kind \<Longrightarrow>
      n_meta (fb_nodes (dc_b st') ! c) = meta_from (host_meta h) \<Longrightarrow> shown st' c h"
  shows "declared_in opts U dir [(nm, h)] st st'"
proof -
  obtain b where b: "f (dc_b st) = (Inr c, b)" "st' = st\<lparr>dc_b := b\<rparr>" using call by (auto simp: on_builder_Inr)
  note n = new_node_state [OF inv new [OF b(1)] k reach [OF b(1)]]
  show ?thesis
    by (rule declared_single [where c = c])
      (use n h shows_h [of st'] in \<open>simp_all add: b(2)\<close>)
qed

lemma declare_file_done:
  assumes inv: "decl_inv opts U st" and U: "links_agree U" "HFile md content \<in> U"
    and r: "declare_file dir nm md content st = Inr st'"
  shows "declared_in opts U dir [(nm, HFile md content)] st st'"
proof (cases "if 1 < md_nlink md then dc_links st (file_key md) else None")
  case (Some t)
  then have nl: "1 < md_nlink md" "dc_links st (file_key md) = Some t" by (simp_all split: if_splits)
  obtain md' content' where "HFile md' content' \<in> U" "1 < md_nlink md'" "file_key md' = file_key md"
    "shown st t (HFile md' content')"
    using inv nl(2) unfolding decl_inv_def by metis
  then have t: "shown st t (HFile md content)" using U nl(1) unfolding links_agree_def by metis
  obtain b where b: "fb_hardlink dir nm t (dc_b st) = (Inr (), b)" "st' = st\<lparr>dc_b := b\<rparr>"
    using r Some by (auto simp: declare_file_def bindE_eq_Inr on_builder_Inr)
  have reach: "builder_reachable False opts (dc_b st)" "dense_files (dc_b st)" using inv by (simp_all add: decl_inv_def)
  note a = fb_hardlink_adds [OF reachable_inv [OF reach(1)] b(1)]
  note p = adds_progress [OF a(1), folded b(2)]
  have "grows {dir} (dc_b st) b" using a(1) by (simp add: adds_def)
  then have "dense_files b" using dense_grows [OF reach(2) _ a(2)] by blast
  then have "decl_inv opts U st'" using decl_inv_progress [OF inv p] reach_calls(5) [OF reach(1) b(1)] b(2) by simp
  moreover have "lookup (dc_b st') dir = (lookup (dc_b st) dir)(nm \<mapsto> t)" using a(1) b(2) by (simp add: adds_def)
  moreover have "shown st' t (HFile md content)" using shown_progress [OF t p] by (simp add: is_hdir_def)
  ultimately show ?thesis using p by (intro declared_single) (simp_all add: is_hdir_def kept_def)
next
  case None
  let ?h = "HFile md content"
  obtain c b where b: "fb_file dir nm (meta_from md) (md_len md) (dc_b st) = (Inr c, b)"
    "st' = st\<lparr>dc_b := b, dc_links := (if 1 < md_nlink md then (dc_links st)(file_key md \<mapsto> c) else dc_links st),
      dc_fills := (if 0 < md_len md then dc_fills st @ [(c, content)] else dc_fills st)\<rparr>"
    using r None by (auto simp: declare_file_def bindE_eq_Inr on_builder_Inr Let_def)
  have reach: "builder_reachable False opts (dc_b st)" using inv by (simp add: decl_inv_def)
  note n = new_node_state [OF inv fb_file_new [OF reachable_inv [OF reach] b(1)] _ reach_calls(2) [OF reach b(1)], simplified]
  have b': "dc_b st' = b" using b(2) by simp
  have "dc_links st \<subseteq>\<^sub>m dc_links st'" using None b(2) by (auto simp: map_le_def split: if_splits)
  then have p: "progress {dir} st st'" using n(2) b(2) by (auto simp: progress_def)
  have s: "shown st' c ?h" using n(4-6) b(2) by (simp add: shown_def Let_def host_meta_def)
  have keep: "\<exists>md content. HFile md content \<in> U \<and> 1 < md_nlink md \<and> file_key md = key \<and> shown st' t (HFile md content)"
    if l: "dc_links st' key = Some t" for key t
  proof (cases "1 < md_nlink md \<and> key = file_key md")
    case True
    then have "t = c" using l b(2) by simp
    then show ?thesis using True s U(2) by blast
  next
    case False
    then have "dc_links st key = Some t" using l b(2) by (auto split: if_splits)
    then obtain md' content' where m: "HFile md' content' \<in> U" "1 < md_nlink md'" "file_key md' = key"
      "shown st t (HFile md' content')"
      using inv unfolding decl_inv_def by metis
    have "shown st' t (HFile md' content')" using shown_progress [OF m(4) p] by (simp add: is_hdir_def)
    then show ?thesis using m by blast
  qed
  have "decl_inv opts U st'" using n(1) keep unfolding decl_inv_def b' by simp
  then show ?thesis using p n(3) s by (intro declared_single) (simp_all add: b' is_hdir_def kept_def)
qed

lemma declare_leaf_done:
  assumes inv: "decl_inv opts U st" and U: "links_agree U" "h \<in> U"
    and r: "declare_leaf dir nm h st = Inr st'"
  shows "declared_in opts U dir [(nm, h)] st st'"
proof -
  have reach: "builder_reachable False opts (dc_b st)" using inv by (simp add: decl_inv_def)
  note i = reachable_inv [OF reach] and c = reach_calls [OF reach]
  have mknod: "declared_in opts U dir [(nm, h)] st st'"
    if "on_builder (fb_mknod dir nm (meta_from (host_meta h)) k) st = Inr (x, st')" "\<not> is_hdir h" "kept h"
      "\<And>st'. x < length (fb_nodes (dc_b st')) \<Longrightarrow> n_kind (fb_nodes (dc_b st') ! x) = special_node k \<Longrightarrow>
        n_meta (fb_nodes (dc_b st') ! x) = meta_from (host_meta h) \<Longrightarrow> shown st' x h" for x k
  proof (rule declared_new [OF inv that(1) fb_mknod_new [OF i] c(4) _ that(2,3,4)])
    show "special_node k \<noteq> Sparse segs sz" for segs sz by (cases k) simp_all
  qed
  show ?thesis
  proof (cases h)
    case (HDir md es)
    then show ?thesis using r by (simp add: declare_leaf_def)
  next
    case (HSymlink md t)
    then obtain x where x: "on_builder (fb_symlink dir nm t (meta_from (host_meta h))) st = Inr (x, st')"
      using r by (auto simp: declare_leaf_def bindE_eq_Inr host_meta_def)
    show ?thesis
      by (rule declared_new [OF inv x fb_symlink_new [OF i] c(3)])
        (simp_all add: HSymlink shown_def is_hdir_def kept_def Let_def)
  next
    case (HFile md content)
    then show ?thesis using declare_file_done [OF inv U(1)] U(2) r by (simp add: declare_leaf_def)
  next
    case (HChar md)
    then obtain x where "on_builder (fb_mknod dir nm (meta_from (host_meta h)) (special_kind.Char (rdev_major (md_rdev md)) (rdev_minor (md_rdev md)))) st = Inr (x, st')"
      using r by (auto simp: declare_leaf_def bindE_eq_Inr host_meta_def)
    then show ?thesis by (rule mknod) (simp_all add: HChar shown_def is_hdir_def kept_def Let_def)
  next
    case (HBlock md)
    then obtain x where "on_builder (fb_mknod dir nm (meta_from (host_meta h)) (special_kind.Block (rdev_major (md_rdev md)) (rdev_minor (md_rdev md)))) st = Inr (x, st')"
      using r by (auto simp: declare_leaf_def bindE_eq_Inr host_meta_def)
    then show ?thesis by (rule mknod) (simp_all add: HBlock shown_def is_hdir_def kept_def Let_def)
  next
    case (HFifo md)
    then obtain x where "on_builder (fb_mknod dir nm (meta_from (host_meta h)) special_kind.Fifo) st = Inr (x, st')"
      using r by (auto simp: declare_leaf_def bindE_eq_Inr host_meta_def)
    then show ?thesis by (rule mknod) (simp_all add: HFifo shown_def is_hdir_def kept_def Let_def)
  next
    case (HSocket md)
    then obtain x where "on_builder (fb_mknod dir nm (meta_from (host_meta h)) special_kind.Socket) st = Inr (x, st')"
      using r by (auto simp: declare_leaf_def bindE_eq_Inr host_meta_def)
    then show ?thesis by (rule mknod) (simp_all add: HSocket shown_def is_hdir_def kept_def Let_def)
  next
    case (HOther md)
    then have "st' = st" using r by (simp add: declare_leaf_def)
    moreover have "host_placed st dir [(nm, h)]"
      unfolding host_placed_def using HOther by (auto simp: kept_def elim: host_pathE)
    moreover have "progress {dir} st st" by (simp add: progress_def grows_refl)
    ultimately show ?thesis using inv HOther by (simp add: declared_in_def kept_def)
  qed
qed

section \<open>The tree\<close>

text \<open>A directory: the node it gets, and then its own entries below that node.\<close>

lemma declared_dir:
  assumes inv: "decl_inv opts U st" and m: "on_builder (fb_mkdir dir nm (meta_from md)) st = Inr (c, st1)"
    and sub: "decl_inv opts U st1 \<Longrightarrow> declared_in opts U c es st1 st'"
  shows "declared_in opts U dir [(nm, HDir md es)] st st'"
proof -
  have reach: "builder_reachable False opts (dc_b st)" using inv by (simp add: decl_inv_def)
  obtain b where b: "fb_mkdir dir nm (meta_from md) (dc_b st) = (Inr c, b)" "st1 = st\<lparr>dc_b := b\<rparr>"
    using m by (auto simp: on_builder_Inr)
  note new = fb_mkdir_new [OF reachable_inv [OF reach] b(1)]
  have n: "decl_inv opts U st1" "progress {dir} st st1" "lookup (dc_b st1) dir = (lookup (dc_b st) dir)(nm \<mapsto> c)"
    "c < length (fb_nodes (dc_b st1))" "n_kind (fb_nodes (dc_b st1) ! c) = node_kind.Dir [] Map.empty"
    "n_meta (fb_nodes (dc_b st1) ! c) = meta_from md" "dir < c" "lookup (dc_b st1) c = Map.empty"
    using new_node_state [OF inv new _ reach_calls(1) [OF reach b(1)]] by (simp_all add: b(2))
  have at: "dir < length (fb_nodes (dc_b st))" "c = length (fb_nodes (dc_b st))"
    using new unfolding new_node_def adds_def by blast+
  have d: "decl_inv opts U st'" "progress {c} st1 st'" "host_placed st' c es" "dom (lookup (dc_b st') c) = host_names es"
    using sub [OF n(1)] n(8) by (simp_all add: declared_in_def)
  have g: "grows {dir} (dc_b st) (dc_b st1)" "grows {c} (dc_b st1) (dc_b st')"
    using n(2) d(2) by (simp_all add: progress_def)
  have "grows {dir} (dc_b st) (dc_b st')" using grows_new [OF g] at(2) by simp
  then have p: "progress {dir} st st'" using n(2) d(2) unfolding progress_def by (auto intro: map_le_trans)
  have lk: "lookup (dc_b st') dir = lookup (dc_b st1) dir" using grows_frame [OF g(2)] n(4,7) by simp
  have "is_dir (fb_nodes (dc_b st1) ! c)" using n(5) by (simp add: is_dir_def)
  then have s: "shown st' c (HDir md es)"
    using grows_node [OF g(2) n(4)] n(6) d(4) by (simp add: shown_def Let_def host_meta_def)
  have "host_placed st' dir [(nm, HDir md es)]"
    unfolding host_placed_def
  proof (intro allI impI)
    fix parts h assume h: "host_path [(nm, HDir md es)] parts h" "kept h"
    from h(1) show "\<exists>e. walk (dc_b st') dir parts = Some e \<and> shown st' e h \<and> (is_hdir h \<longrightarrow> dir < e)"
    proof (cases rule: host_path.cases)
      case (here nm')
      then show ?thesis using s n(7) by (simp add: lk n(3))
    next
      case (below nm' md' sub parts')
      then obtain e where "walk (dc_b st') c parts' = Some e" "shown st' e h" "is_hdir h \<longrightarrow> c < e"
        using d(3) h(2) unfolding host_placed_def by auto
      then show ?thesis using below n(7) by (auto simp: lk n(3))
    qed
  qed
  moreover have "dom (lookup (dc_b st') dir) = dom (lookup (dc_b st) dir) \<union> host_names [(nm, HDir md es)]"
    by (simp add: lk n(3) kept_def)
  ultimately show ?thesis using d(1) p by (simp add: declared_in_def)
qed

lemma declare_tree_done:
  assumes U: "links_agree U"
  shows "decl_inv opts U st \<Longrightarrow> host_nodes es \<subseteq> U \<Longrightarrow> declare_tree dir es st = Inr st' \<Longrightarrow>
      declared_in opts U dir es st st'"
    "decl_inv opts U st \<Longrightarrow> host_nodes es \<subseteq> U \<Longrightarrow> declare_list dir es st = Inr st' \<Longrightarrow>
      declared_in opts U dir es st st'"
    "decl_inv opts U st \<Longrightarrow> host_nodes [(nm, h)] \<subseteq> U \<Longrightarrow> declare_entry dir nm h st = Inr st' \<Longrightarrow>
      declared_in opts U dir [(nm, h)] st st'"
proof (induction dir es st and dir es st and dir nm h st arbitrary: st' and st' and st'
    rule: declare_tree_declare_list_declare_entry.induct)
  case (1 dir es st)
  have s: "set (sort_key fst es) = set es" by simp
  have "host_nodes (sort_key fst es) = host_nodes es" using host_path_cong [OF s] by (simp add: host_nodes_def)
  then have "declared_in opts U dir (sort_key fst es) st st'" using 1 by (simp add: declare_tree.simps)
  then show ?case using declared_cong [OF s] by simp
next
  case (2 dir st)
  then show ?case by (simp add: declare_list.simps declared_in_def progress_def grows_refl host_placed_def host_path_Cons)
    (auto elim: host_pathE)
next
  case (3 dir nm h es st)
  have sub: "host_nodes [(nm, h)] \<subseteq> U" "host_nodes es \<subseteq> U"
    using 3(4) host_path_append [of "[(nm, h)]" es] by (auto simp: host_nodes_def)
  obtain st1 where e: "declare_entry dir nm h st = Inr st1" "declare_list dir es st1 = Inr st'"
    using 3(5) by (auto simp: declare_list.simps bindE_eq_Inr)
  have 1: "declared_in opts U dir [(nm, h)] st st1" using 3(1) [OF 3(3) sub(1) e(1)] .
  then have "decl_inv opts U st1" by (simp add: declared_in_def)
  from declared_append [OF 1 3(2) [OF e(1) this sub(2) e(2)]] show ?case by simp
next
  case (4 dir nm md es st)
  obtain c st1 where m: "guardE (utf8_ok nm) Panic = Inr ()" "on_builder (fb_mkdir dir nm (meta_from md)) st = Inr (c, st1)"
    "declare_tree c es st1 = Inr st'"
    using 4(4) by (auto simp: declare_entry.simps bindE_eq_Inr)
  have "host_nodes es \<subseteq> U" using host_nodes_sub(2) [OF 4(3)] by simp
  from declared_dir [OF 4(2) m(2) 4(1) [OF m(1,2) refl _ this m(3)]] show ?case .
qed (use declare_leaf_done [OF _ U] host_nodes_sub(1) in \<open>auto simp: declare_entry.simps bindE_eq_Inr\<close>)

end
