(* ===== verification/MkfsRun.thy ===== *)
theory MkfsRun
  imports MkfsPlaced ReadBack
begin

text \<open>
  The emission half of the command: fills that all succeeded were a complete set (\<open>fill_all_complete\<close>),
  and the file that the file sink leaves is the image (\<open>file_image\<close>).
\<close>

section \<open>Successful fills\<close>

lemma fill_chunks_reads:
  "fill_chunks d off n (s, rd) = (Inr x, (s', rd')) \<Longrightarrow> n \<le> length rd \<and> length rd' = length rd - n"
proof (induction n arbitrary: off s rd rule: less_induct)
  case (less n)
  show ?case
  proof (cases "n = 0")
    case True
    then show ?thesis using less.prems by (simp add: fill_chunks.simps returnS_def)
  next
    case False
    define want where "want = min n SCRATCH"
    have w: "0 < want" "want \<le> n" using False SCRATCH_pos by (auto simp: want_def)
    have "\<not> length rd < want"
      using less.prems False by (subst (asm) fill_chunks.simps) (auto simp: Let_def want_def [symmetric] bindS_def read_exact_def)
    moreover from this obtain s1 where "fill_chunks d (off + want) (n - want) (s1, drop want rd) = (Inr x, (s', rd'))"
      using less.prems False
      by (subst (asm) fill_chunks.simps)
        (auto simp: Let_def want_def [symmetric] bindS_def read_exact_def sink_call_def split: sum.splits)
    from less.IH [OF _ this] w have "n - want \<le> length rd - want \<and> length rd' = length rd - want - (n - want)" by simp
    ultimately show ?thesis using w by auto
  qed
qed

lemma fill_runs_reads:
  "fill_runs d z sz runs (s, rd) = (Inr u, (s', rd')) \<Longrightarrow> min sz (sum_list (map run_len runs) * BLOCK_SIZE) \<le> length rd"
proof (induction runs arbitrary: sz s rd)
  case (Cons r rs)
  let ?k = "min (run_len r * BLOCK_SIZE) sz"
  obtain off s1 rd1 where c: "fill_chunks d (run_start r * BLOCK_SIZE) ?k (s, rd) = (Inr off, (s1, rd1))"
    using Cons.prems by (auto simp: Let_def bindS_def split: prod.splits sum.splits)
  then obtain s2 where "fill_runs d z (sz - ?k) rs (s2, rd1) = (Inr u, (s', rd'))"
    using Cons.prems
    by (auto simp: Let_def bindS_def sink_call_def returnS_def split: prod.splits sum.splits if_splits)
  from Cons.IH [OF this] fill_chunks_reads [OF c] show ?case by (auto simp: algebra_simps)
qed simp

text \<open>What each fill that succeeds has used.\<close>

lemma fill_all_complete:
  assumes "files_ok lay" "fill_all d z fills w = (Inr (), w')" "writer_at lay filled w"
  shows "writer_at lay (filled \<union> fst ` set fills) w' \<and> distinct (map fst fills) \<and>
    fst ` set fills \<subseteq> fillable lay - filled \<and> (\<forall>(f, rd)\<in>set fills. file_size lay f \<le> length rd)"
  using assms(2,3)
proof (induction fills arbitrary: w filled)
  case Nil
  then show ?case by (simp add: returnS_def)
next
  case (Cons x fills)
  obtain f rd where x: "x = (f, rd)" by (cases x)
  obtain w1 where w1: "iw_fill d z f rd w = (Inr (), w1)" "fill_all d z fills w1 = (Inr (), w')"
    using Cons.prems(1) x by (auto simp: bindS_def split: prod.splits sum.splits)
  have f: "f \<in> fillable lay - filled" using iw_fill_refused [OF Cons.prems(2), of f d z rd] w1(1) by fastforce
  obtain s rd' where r: "fill_runs d z (file_size lay f) (file_runs_of lay f) (iw_sink w, rd) = (Inr (), (s, rd'))"
    "w1 = w\<lparr>iw_sink := s, iw_data_bytes := iw_data_bytes w + file_size lay f,
       iw_fill_state := (iw_fill_state w)[f := Done], iw_pending := iw_pending w - 1\<rparr>"
    using w1(1) unfolding iw_fill_pending [OF Cons.prems(2) f] by (auto split: prod.splits sum.splits)
  have "file_size lay f \<le> sum_list (map run_len (file_runs_of lay f)) * BLOCK_SIZE"
    using assms(1) f by (auto simp: files_ok_def file_runs_ok_def fillable_def)
  then have "file_size lay f \<le> length rd" using fill_runs_reads [OF r(1)] by simp
  moreover have "writer_at lay (insert f filled) w1" unfolding r(2) by (rule writer_at_filled [OF Cons.prems(2) f])
  from Cons.IH [OF w1(2) this] have "writer_at lay (insert f filled \<union> fst ` set fills) w' \<and> distinct (map fst fills) \<and>
    fst ` set fills \<subseteq> fillable lay - insert f filled \<and> (\<forall>(f, rd)\<in>set fills. file_size lay f \<le> length rd)" .
  ultimately show ?case using f by (auto simp: x)
qed

lemma build_image_Inr:
  "build_image d z lay fills s = Inr (sm, s') \<longleftrightarrow> (\<exists>w w'. iw_new d z lay s = Inr w \<and> fill_all d z fills w = (Inr (), w') \<and>
     iw_finish w' = Inr sm \<and> s' = iw_sink w')"
proof (cases "iw_new d z lay s")
  case (Inr w)
  then show ?thesis
    by (cases "fill_all d z fills w") (auto simp: build_image_def bindE_eq_Inr split: sum.splits)
qed (simp add: build_image_def)

lemma build_image_complete:
  assumes "files_ok lay" "build_image d z lay fills s = Inr (sm, s')"
  shows "fills_ok lay {} fills"
proof -
  obtain w w' where w: "iw_new d z lay s = Inr w" "fill_all d z fills w = (Inr (), w')" "iw_finish w' = Inr sm"
    using assms(2) by (auto simp: build_image_Inr)
  have c: "writer_at lay (fst ` set fills) w'" "distinct (map fst fills)" "\<forall>(f, rd)\<in>set fills. file_size lay f \<le> length rd"
    using fill_all_complete [OF assms(1) w(2) writer_at_new [OF w(1)]] by simp_all
  have "fst ` set fills = fillable lay" using iw_finish_at [OF c(1)] w(3) by (auto split: if_splits)
  then show ?thesis using c by (simp add: fills_ok_def)
qed

section \<open>The file that is left\<close>

lemma file_step_length:
  assumes "emit_step file_data file_zeros e fs = Inr fs'" "emit_end e \<le> length (file_content fs)"
  shows "length (file_content fs') = length (file_content fs)"
  using assms by (cases e) (auto simp: file_data_def file_zeros_def write_all_at_def split: if_splits)

lemma file_length:
  "emit_all file_data file_zeros es fs = Inr fs' \<Longrightarrow> \<forall>e\<in>set es. emit_end e \<le> length (file_content fs) \<Longrightarrow>
   length (file_content fs') = length (file_content fs)"
proof (induction es arbitrary: fs)
  case (Cons e es)
  obtain fs1 where f: "emit_step file_data file_zeros e fs = Inr fs1" "emit_all file_data file_zeros es fs1 = Inr fs'"
    using Cons.prems(1) by (auto simp: bindE_eq_Inr)
  then have "length (file_content fs1) = length (file_content fs)" using file_step_length Cons.prems(2) by simp
  then show ?case using Cons.IH [OF f(2)] Cons.prems(2) by simp
qed simp

lemma file_image:
  assumes "layout_ok lay" "files_ok lay" "fills_ok lay {} fills"
  shows "\<exists>fs. build_image file_data file_zeros lay fills (FileSink_create (image_len lay)) =
      Inr (\<lparr>sum_image_len = image_len lay, sum_data_bytes = sum (file_size lay) (fillable lay)\<rparr>, fs) \<and>
    file_content fs = image_bytes lay fills"
proof -
  let ?n = "image_len lay" and ?s = "FileSink_create (image_len lay)"
  obtain es where es: "emits_exactly ?n (\<lambda>i. i < ?n) (device_byte lay fills) es"
    "\<And>s. build_image file_data file_zeros lay fills s = bindE (emit_all file_data file_zeros es s) (\<lambda>s.
      Inr (\<lparr>sum_image_len = ?n, sum_data_bytes = sum (file_size lay) (fillable lay)\<rparr>, s))"
    using build_image_emits [OF assms, of file_data file_zeros] by blast
  have cover: "emits_disjoint es" "\<forall>e\<in>set es. emit_end e \<le> ?n" using es(1) by (auto simp: emits_exactly_def)
  obtain fs where f: "emit_all file_data file_zeros es ?s = Inr fs" "buf_store (file_content fs) = image_of es"
    using fs.emit_all_image [OF FileSink_create_empty(2) cover(2,1) FileSink_create_empty(1)] by auto
  have start: "length (file_content ?s) = ?n" by (simp add: FileSink_create_def)
  have len: "length (file_content fs) = ?n" using file_length [OF f(1)] cover(2) start by simp
  have "file_content fs ! i = device_byte lay fills i" if "i < ?n" for i
    using fun_cong [OF f(2), of i] image_of_exactly [OF es(1)] that len by (simp add: buf_store_def)
  then have "file_content fs = image_bytes lay fills" using len by (intro nth_equalityI) (simp_all add: image_bytes_def)
  then show ?thesis using es(2) f(1) by simp
qed

section \<open>The program as its parts\<close>

lemma mkfs_fills_all: "mkfs_fills fills w = Inr w' \<longleftrightarrow> fill_all file_data file_zeros fills w = (Inr (), w')"
proof (induction fills arbitrary: w)
  case (Cons x fills)
  then show ?case by (cases x) (auto simp: bindS_def split: prod.splits sum.splits)
qed (auto simp: returnS_def)

lemma expect_Inr: "expect m = Inr x \<longleftrightarrow> m = Inr x"
  by (auto simp: expect_def split: sum.splits)

definition mkfs_start :: "fs_builder \<Rightarrow> declaring" where
  "mkfs_start b = \<lparr>dc_b = b, dc_links = Map.empty, dc_fills = []\<rparr>"

lemma mkfs_Inr:
  "mkfs crc src sz inodes = Inr (img, sm) \<longleftrightarrow> (\<exists>b st lay fs. FsBuilder_new (mkfs_options sz inodes) = Inr b \<and>
     declare_tree 0 src (mkfs_start b) = Inr st \<and> seal crc (dc_b st) = Inr lay \<and>
     build_image file_data file_zeros lay (dc_fills st) (FileSink_create (image_len lay)) = Inr (sm, fs) \<and>
     img = file_content fs)"
  unfolding mkfs_def by (simp add: mkfs_start_def bindE_eq_Inr expect_Inr mkfs_fills_all build_image_Inr) blast

end
