(* ===== verification/MkfsImage.thy ===== *)
theory MkfsImage
  imports MkfsRun Built ImageClean
begin

text \<open>
  The whole command: the file that a successful run leaves is an image of the host tree. What the reader
  must find for a node of the host is \<open>image_shows\<close>.
\<close>

section \<open>What the image must show\<close>

definition meta_read :: "meta \<Rightarrow> inode \<Rightarrow> bool" where
  "meta_read m i \<longleftrightarrow> i_mode i AND 0xFFF = m_mode m AND 0xFFF \<and> i_uid i = m_uid m \<and> i_gid i = m_gid m \<and>
    (time_ok (m_mtime m) \<longrightarrow> timestamp (i_mtime i) (i_mtime_extra i) = m_mtime m) \<and>
    (time_ok (or_mtime m (m_atime m)) \<longrightarrow> timestamp (i_atime i) (i_atime_extra i) = or_mtime m (m_atime m)) \<and>
    (time_ok (or_mtime m (m_ctime m)) \<longrightarrow> timestamp (i_ctime i) (i_ctime_extra i) = or_mtime m (m_ctime m))"

definition image_shows :: "crc \<Rightarrow> fs \<Rightarrow> u32 \<Rightarrow> host \<Rightarrow> bool" where
  "image_shows crc f ino h \<longleftrightarrow> (\<exists>i. read_inode crc f ino = Inr i \<and> meta_read (meta_from (host_meta h)) i \<and>
    (case h of
       HDir md es \<Rightarrow> inode_file_type i = Dir
     | HSymlink md target \<Rightarrow> inode_file_type i = Symlink \<and> symlink_target crc f ino = Inr target
     | HFile md content \<Rightarrow> inode_file_type i = Regular \<and> md_len md \<le> length content \<and>
         read_file crc f ino = Inr (take (md_len md) content)
     | HChar md \<Rightarrow> inode_file_type i = CharDev \<and> dev_numbers i = Some (rdev_major (md_rdev md), rdev_minor (md_rdev md))
     | HBlock md \<Rightarrow> inode_file_type i = BlockDev \<and> dev_numbers i = Some (rdev_major (md_rdev md), rdev_minor (md_rdev md))
     | HFifo md \<Rightarrow> inode_file_type i = Fifo
     | HSocket md \<Rightarrow> inode_file_type i = Socket
     | HOther md \<Rightarrow> True))"

text \<open>A name that a directory of the host does not have.\<close>

definition host_lacks :: "host_dir \<Rightarrow> bytes list \<Rightarrow> bytes \<Rightarrow> bool" where
  "host_lacks src parts nm \<longleftrightarrow>
    (\<exists>es. (parts = [] \<and> es = src \<or> (\<exists>md. host_path src parts (HDir md es))) \<and> nm \<notin> host_names es)"

section \<open>Sizes\<close>

lemma seal_fields:
  assumes "seal crc b = Inr lay"
  shows "Geometry_new (opt_size_bytes (fb_opts b)) (case opt_inodes (fb_opts b) of Auto \<Rightarrow> None | Exact n \<Rightarrow> Some n)
      (opt_journal_blocks (fb_opts b)) = Inr (lay_geo lay)" "image_len lay = opt_size_bytes (fb_opts b)"
proof -
  obtain slot_ino nxt geo n pl where s: "Geometry_new (opt_size_bytes (fb_opts b))
      (case opt_inodes (fb_opts b) of Auto \<Rightarrow> None | Exact n \<Rightarrow> Some n) (opt_journal_blocks (fb_opts b)) = Inr geo"
    "render_all crc b geo (fs_seed crc (opt_fs_uuid (fb_opts b))) slot_ino (nxt - 1) n pl = Inr lay"
    using assms by (rule sealE)
  have "lay_geo lay = geo" "lay_opts lay = fb_opts b"
    using s(2) by (auto simp: render_all_def Let_def bindE_eq_Inr)
  then show "Geometry_new (opt_size_bytes (fb_opts b)) (case opt_inodes (fb_opts b) of Auto \<Rightarrow> None | Exact n \<Rightarrow> Some n)
      (opt_journal_blocks (fb_opts b)) = Inr (lay_geo lay)" "image_len lay = opt_size_bytes (fb_opts b)"
    using s(1) by (simp_all add: image_len_def)
qed

text \<open>A dense file in use has room on the device, and its size in the layout is the declared one.\<close>

lemma dense_file_fits:
  assumes op: "opened crc b lay fills f geo slot_ino max_ino pl" and b: "builder_reachable strict opts b"
    and s: "s < length (fb_nodes b)" "slot_ino ! s \<noteq> 0" "n_kind (fb_nodes b ! s) = File sz"
  shows "sz \<le> image_len lay" "file_size lay s = sz"
proof -
  note h = opened_handle [OF op] and l = opened_layout [OF op]
  let ?runs = "file_runs_of lay s"
  have s': "s < length (lay_file_runs lay)" using s(1) l(6) by simp
  have d: "declared (n_kind (fb_nodes b ! s)) = Some (if 0 < sz then [(0, sz)] else [], sz)" using s(3) by (simp add: declared_def)
  have "spaced (if 0 < sz then [(0, sz)] else [])" by simp
  then have "\<exists>fp. file_planned crc (fs_csum_seed f) (slot_ino ! s) (if 0 < sz then [(0, sz)] else [])
      (st_segments (pl_data pl)) (lay_file_runs lay ! s) fp"
    by (rule file_slot_render [OF op b s(1,2) d]) blast
  then show size: "file_size lay s = sz" by (auto simp: file_planned_def file_size_def split: if_splits)
  have below: "\<forall>b\<in>set (expand_runs ?runs). b < geo_blocks geo"
    using file_blocks [OF l(1,2) s'] h(6) by (fastforce simp: expand_runs_def total_blocks_def)
  have ok: "file_runs_ok ?runs (file_size lay s)" using l(2) s' by (simp add: files_ok_def)
  then have "distinct (expand_runs ?runs)" using runs_disjoint_distinct by (auto simp: file_runs_ok_def runs_ok_def)
  then have "length (expand_runs ?runs) \<le> geo_blocks geo" using below by (rule distinct_below)
  then have "sum_list (map run_len ?runs) * 4096 \<le> geo_blocks geo * 4096" by (intro mult_le_mono1) (simp add: length_expand_runs)
  then show "sz \<le> image_len lay" using ok size h(6) unfolding file_runs_ok_def by simp
qed

section \<open>A node of the builder, read back\<close>

lemma describes_meta:
  assumes "describes b slot_ino s i" "n_meta (fb_nodes b ! s) = m"
  shows "inode_file_type i = kind_type (n_kind (fb_nodes b ! s))" "meta_read m i"
  using assms by (simp_all add: describes_def meta_read_def Let_def)

lemma dense_content:
  assumes "(s, content) \<in> set fills" "fills_ok lay {} fills" "file_size lay s = sz"
  shows "sz \<le> length content" "map (declared_byte [(0, sz)] (content_of fills s)) [0..<sz] = take sz content"
proof -
  show l: "sz \<le> length content" using assms by (auto simp: fills_ok_def)
  have "map_of fills s = Some content" using assms(1,2) by (simp add: fills_ok_def)
  then show "map (declared_byte [(0, sz)] (content_of fills s)) [0..<sz] = take sz content"
    using l by (intro nth_equalityI) (auto simp: declared_byte_def content_of_def)
qed

lemma shown_image:
  assumes op: "opened crc (dc_b st) lay (dc_fills st) f geo slot_ino max_ino pl"
    and b: "builder_reachable strict opts (dc_b st)" "fills_ok lay {} (dc_fills st)"
    and c: "shown st c h" "slot_ino ! c \<noteq> 0" "kept h"
  shows "image_shows crc f (of_nat (slot_ino ! c)) h"
proof -
  let ?b = "dc_b st" and ?ino = "of_nat (slot_ino ! c) :: u32"
  have s: "c < length (fb_nodes ?b)" "n_meta (fb_nodes ?b ! c) = meta_from (host_meta h)"
    using c(1) by (simp_all add: shown_def Let_def)
  have fits: "sz \<le> image_len lay" if "declared (n_kind (fb_nodes ?b ! c)) = Some (segs, sz)" for segs sz
  proof (cases h)
    case (HFile md content)
    then have k: "n_kind (fb_nodes ?b ! c) = File (md_len md)" using c(1) by (simp add: shown_def Let_def)
    then have "sz = md_len md" using that by (simp add: declared_def)
    then show ?thesis using dense_file_fits(1) [OF op b(1) s(1) c(2) k] by simp
  qed (use that c(1,3) in \<open>auto simp: shown_def Let_def declared_def is_dir_def kept_def split: node_kind.splits\<close>)
  obtain i where i: "read_inode crc f ?ino = Inr i" "describes ?b slot_ino c i"
    "(case n_kind (fb_nodes ?b ! c) of
       node_kind.Symlink t \<Rightarrow> symlink_target crc f ?ino = Inr t
     | Special ft major minor \<Rightarrow> ft = ft_CHR \<or> ft = ft_BLK \<longrightarrow> dev_numbers i = Some (major, minor)
     | _ \<Rightarrow> True)"
    using opened_node_reads [OF op b(1) s(1) c(2)] fits by blast
  note d = describes_meta [OF i(2) s(2)]
  show ?thesis
  proof (cases h)
    case (HDir md es)
    then show ?thesis using c(1) i d
      by (auto simp: image_shows_def shown_def Let_def is_dir_def kind_type_def split: node_kind.splits)
  next
    case (HFile md content)
    then have k: "n_kind (fb_nodes ?b ! c) = File (md_len md)"
      and fill: "0 < md_len md \<Longrightarrow> (c, content) \<in> set (dc_fills st)" using c(1) by (simp_all add: shown_def Let_def)
    have dc: "declared (n_kind (fb_nodes ?b ! c)) = Some (if 0 < md_len md then [(0, md_len md)] else [], md_len md)"
      using k by (simp add: declared_def)
    note r = opened_file_reads [OF op b s(1) c(2) dc fits [OF dc]]
    have "md_len md \<le> length content \<and> read_file crc f ?ino = Inr (take (md_len md) content)"
    proof (cases "md_len md = 0")
      case True
      then show ?thesis using r by simp
    next
      case False
      then show ?thesis using r dense_content [OF fill b(2) dense_file_fits(2) [OF op b(1) s(1) c(2) k]] by simp
    qed
    then show ?thesis using HFile i(1) d k by (simp add: image_shows_def kind_type_def)
  qed (use c(1,3) i d in \<open>simp_all add: image_shows_def shown_def Let_def kind_type_def kept_def\<close>)
qed

section \<open>A successful run\<close>

lemma mkfs_options_simps [simp]:
  "opt_size_bytes (mkfs_options sz inodes) = sz" "opt_journal_blocks (mkfs_options sz inodes) = None"
  "(case opt_inodes (mkfs_options sz inodes) of Auto \<Rightarrow> None | Exact n \<Rightarrow> Some n) = inodes"
  by (simp_all add: mkfs_options_def Options_new_def split: option.splits)

lemma mkfs_options_wf: "options_wf (mkfs_options sz inodes)"
  by (simp add: options_wf_def mkfs_options_def Options_new_def seed_from_uuid_def ascii_def)

lemma mkfs_start_inv:
  assumes "FsBuilder_new opts = Inr b"
  shows "decl_inv opts U (mkfs_start b)" "lookup b 0 = Map.empty" "fb_opts b = opts"
proof -
  have b: "fb_nodes b = [\<lparr>n_kind = node_kind.Dir [] Map.empty, n_meta = Meta_new 0x1ED 0 0 (opt_epoch opts, 0), n_nlink = 1\<rparr>]"
    "fb_opts b = opts"
    using assms by (auto simp: FsBuilder_new_def split: if_splits)
  then show "lookup b 0 = Map.empty" "fb_opts b = opts" by (simp_all add: lookup_def fun_eq_iff)
  show "decl_inv opts U (mkfs_start b)"
    using builder_reachable.init [OF assms, of False] b(1) by (simp add: decl_inv_def mkfs_start_def dense_files_def)
qed

lemma mkfs_run:
  assumes run: "mkfs crc src sz inodes = Inr (img, sm)"
    and fit: "\<And>geo. Geometry_new sz inodes None = Inr geo \<Longrightarrow> backups_fit geo" and U: "links_agree (host_nodes src)"
  obtains st lay f geo max_ino pl where
    "builder_reachable False (mkfs_options sz inodes) (dc_b st)" "dense_files (dc_b st)" "host_placed st 0 src"
    "dom (lookup (dc_b st) 0) = host_names src" "seal crc (dc_b st) = Inr lay" "backups_fit (lay_geo lay)"
    "options_wf (fb_opts (dc_b st))" "fills_ok lay {} (dc_fills st)" "img = image_bytes lay (dc_fills st)"
    "image_len lay = sz" "opened crc (dc_b st) lay (dc_fills st) f geo (lay_slot_ino lay) max_ino pl"
proof -
  obtain b st lay fs where r: "FsBuilder_new (mkfs_options sz inodes) = Inr b" "declare_tree 0 src (mkfs_start b) = Inr st"
    "seal crc (dc_b st) = Inr lay"
    "build_image file_data file_zeros lay (dc_fills st) (FileSink_create (image_len lay)) = Inr (sm, fs)" "img = file_content fs"
    using run unfolding mkfs_Inr by blast
  note start = mkfs_start_inv [OF r(1)]
  have d: "declared_in (mkfs_options sz inodes) (host_nodes src) 0 src (mkfs_start b) st"
    by (rule declare_tree_done(1) [OF U start(1) subset_refl r(2)])
  have names: "dom (lookup (dc_b st) 0) = host_names src" using d start(2) by (simp add: declared_in_def mkfs_start_def)
  have opts: "fb_opts (dc_b st) = mkfs_options sz inodes"
    using d grows_opts start(3) by (auto simp: declared_in_def progress_def mkfs_start_def)
  have reach: "builder_reachable False (mkfs_options sz inodes) (dc_b st)" "dense_files (dc_b st)" "host_placed st 0 src"
    using d by (simp_all add: declared_in_def decl_inv_def)
  have geo: "backups_fit (lay_geo lay)" using seal_fields(1) [OF r(3)] fit by (simp add: opts)
  note lay = seal_layout [OF r(3) reachable_aligned [OF reach(1)] geo]
  have fills: "fills_ok lay {} (dc_fills st)" using build_image_complete [OF lay(2) r(4)] .
  have img: "img = image_bytes lay (dc_fills st)" using file_image [OF lay fills] r(4,5) by auto
  have wf: "options_wf (fb_opts (dc_b st))" using mkfs_options_wf by (simp add: opts)
  obtain f geo max_ino pl where "opened crc (dc_b st) lay (dc_fills st) f geo (lay_slot_ino lay) max_ino pl"
    by (rule built_opened [OF reach(1) r(3) geo wf fills])
  then show ?thesis using that reach names r(3) geo wf fills img seal_fields(2) [OF r(3)] by (simp add: opts)
qed

section \<open>Paths\<close>

lemma lost_found_free:
  "dom (lookup b 0) = host_names src \<Longrightarrow> ascii ''lost+found'' \<notin> host_names src \<Longrightarrow> lookup b 0 (ascii ''lost+found'') = None"
  by auto

lemma placed_resolves:
  assumes op: "opened crc (dc_b st) lay (dc_fills st) f geo slot_ino max_ino pl"
    and b: "builder_reachable strict opts (dc_b st)" "fills_ok lay {} (dc_fills st)" "host_placed st 0 src"
    and lf: "lookup (dc_b st) 0 (ascii ''lost+found'') = None"
    and h: "host_path src (split_path [] path) h" "kept h"
  obtains c where "fs_resolve crc f path = Inr (of_nat (slot_ino ! c))" "image_shows crc f (of_nat (slot_ino ! c)) h" "shown st c h"
proof -
  have root: "0 < length (fb_nodes (dc_b st))" using builder_closed(2) [OF reachable_inv [OF b(1)]] by simp
  have ino: "slot_ino ! 0 \<noteq> 0" "of_nat (slot_ino ! 0) = ROOT_INO" using opened_slots(2) [OF op] by simp_all
  obtain c where c: "walk (dc_b st) 0 (split_path [] path) = Some c" "shown st c h" using b(3) h unfolding host_placed_def by blast
  note w = opened_walk [OF op b(1) lf root ino(1) c(1)]
  then have "fs_resolve crc f path = Inr (of_nat (slot_ino ! c))" unfolding fs_resolve_def ino(2) by blast
  moreover have "image_shows crc f (of_nat (slot_ino ! c)) h" using shown_image [OF op b(1,2) c(2) _ h(2)] w by blast
  ultimately show ?thesis using that c(2) by blast
qed

lemma lacking_not_found:
  assumes op: "opened crc (dc_b st) lay (dc_fills st) f geo slot_ino max_ino pl"
    and b: "builder_reachable strict opts (dc_b st)" "host_placed st 0 src" "dom (lookup (dc_b st) 0) = host_names src"
    and lf: "lookup (dc_b st) 0 (ascii ''lost+found'') = None"
    and p: "split_path [] path = parts @ [nm]" "host_lacks src parts nm" "nm \<notin> {ascii ''.'', ascii ''..'', ascii ''lost+found''}"
  shows "fs_resolve crc f path = Inl (Err (Io NotFound))"
proof -
  have ino: "of_nat (slot_ino ! 0) = ROOT_INO" using opened_slots(2) [OF op] by simp
  have root: "is_dir (fb_nodes (dc_b st) ! 0)"
    using reachable_inv [OF b(1)] by (auto simp: builder_inv_def mid_inv_def root_ok_def)
  have "\<exists>d. walk (dc_b st) 0 parts = Some d \<and> is_dir (fb_nodes (dc_b st) ! d) \<and> lookup (dc_b st) d nm = None"
  proof -
    obtain es where es: "parts = [] \<and> es = src \<or> (\<exists>md. host_path src parts (HDir md es))" "nm \<notin> host_names es"
      using p(2) unfolding host_lacks_def by blast
    from es(1) show ?thesis
    proof
      assume "parts = [] \<and> es = src"
      then show ?thesis using es(2) b(3) root by auto
    next
      assume "\<exists>md. host_path src parts (HDir md es)"
      then obtain md where "host_path src parts (HDir md es)" by blast
      moreover have "kept (HDir md es)" by (simp add: kept_def)
      ultimately obtain c where "walk (dc_b st) 0 parts = Some c" "shown st c (HDir md es)"
        using b(2) unfolding host_placed_def by blast
      then show ?thesis using es(2) by (auto simp: shown_def Let_def)
    qed
  qed
  then obtain d where "walk (dc_b st) 0 parts = Some d" "is_dir (fb_nodes (dc_b st) ! d)" "lookup (dc_b st) d nm = None" by blast
  from opened_missing [OF op b(1) lf this] p(3) show ?thesis unfolding fs_resolve_def p(1) ino by blast
qed

text \<open>Two names of one file of the host.\<close>

lemma shown_same:
  assumes "shown st c (HFile md content)" "shown st c' (HFile md' content')" "1 < md_nlink md" "1 < md_nlink md'"
    and "file_key md = file_key md'"
  shows "c = c'"
  using assms by (simp add: shown_def Let_def)

lemma image_clean:
  assumes "opened crc b lay fills f geo (lay_slot_ino lay) max_ino pl" "builder_reachable strict opts b" "seal crc b = Inr lay"
    and "backups_fit (lay_geo lay)" "options_wf (fb_opts b)" "dense_files b"
  shows "verify crc f = Inr []"
  by (rule opened_verifies [OF assms(1-5)]) (use assms(6) in \<open>auto simp: dense_files_def\<close>)

end
