(* ===== verification/MkfsSample.thy ===== *)
theory MkfsSample
  imports MkfsImage
begin

text \<open>A run of the command that succeeds: a directory that holds one file of five bytes.\<close>

definition sample_md :: host_md where
  "sample_md = \<lparr>md_mode = 0x81A4, md_uid = 0, md_gid = 0, md_mtime = 1704067200, md_mtime_nsec = 0,
     md_atime = 1704067200, md_atime_nsec = 0, md_ctime = 1704067200, md_ctime_nsec = 0,
     md_dev = 1, md_ino = 7, md_nlink = 1, md_len = 5, md_rdev = 0\<rparr>"

definition sample_dir :: host_dir where
  "sample_dir = [([97], HFile sample_md [1, 2, 3, 4, 5])]"

lemma sample_options: "mkfs_options 16777216 None = demo_options"
  by (simp add: mkfs_options_def demo_options_def Options_new_def)

lemma sample_start: "FsBuilder_new demo_options = Inr demo_start"
  by (simp add: FsBuilder_new_def demo_options_def Options_new_def demo_start_def)

lemma sample_declared:
  "declare_tree 0 sample_dir (mkfs_start demo_start) =
    Inr \<lparr>dc_b = demo_with Map.empty, dc_links = Map.empty, dc_fills = [(1, [1, 2, 3, 4, 5])]\<rparr>"
proof -
  have meta: "meta_from sample_md = demo_meta" by (simp add: meta_from_def sample_md_def demo_meta_def Meta_new_def)
  have "fb_file 0 [97] demo_meta 5 demo_start = (Inr 1, demo_with Map.empty)"
    by (simp add: demo_start_def demo_with_def call_eval)
  then have "declare_file 0 [97] sample_md [1, 2, 3, 4, 5] (mkfs_start demo_start) =
      Inr \<lparr>dc_b = demo_with Map.empty, dc_links = Map.empty, dc_fills = [(1, [1, 2, 3, 4, 5])]\<rparr>"
    by (simp add: declare_file_def on_builder_def meta mkfs_start_def) (simp add: sample_md_def)
  then show ?thesis
    by (simp add: sample_dir_def declare_tree.simps declare_list.simps declare_entry.simps declare_leaf_def)
qed

lemma sample_mkfs: "\<exists>img sm. mkfs crc sample_dir 16777216 None = Inr (img, sm)"
proof -
  let ?fills = "[(1, [1, 2, 3, 4, 5])] :: (handle \<times> bytes) list"
  obtain lay where l: "seal crc (demo_with Map.empty) = Inr lay" "backups_fit (lay_geo lay)" "fillable lay = {1}" "file_size lay 1 = 5"
    using demo_seals_with [of Map.empty crc] by (auto simp: demo_xattrs_def)
  have "fills_ok lay {} ?fills" using l(3,4) by (simp add: fills_ok_def)
  then obtain sm fs where "build_image file_data file_zeros lay ?fills (FileSink_create (image_len lay)) = Inr (sm, fs)"
    using file_image [OF seal_layout [OF l(1) demo_aligned l(2)]] by blast
  then show ?thesis unfolding mkfs_Inr sample_options using sample_start sample_declared l(1) by fastforce
qed

lemma sample_fits: "Geometry_new 16777216 None None = Inr geo \<Longrightarrow> backups_fit geo"
  using demo_geometry by (auto simp: demo_options_def Options_new_def backups_fit_def backup_groups_def)

lemma sample_paths: "host_path sample_dir parts h \<longleftrightarrow> parts = [[97]] \<and> h = HFile sample_md [1, 2, 3, 4, 5]"
  by (cases parts) (auto simp: sample_dir_def host_path_Cons)

lemma sample_links: "links_agree (host_nodes sample_dir)"
  by (auto simp: links_agree_def host_nodes_def sample_paths)

lemma sample_names: "host_names sample_dir = {[97]}"
  by (auto simp: host_names_def sample_dir_def kept_def)

end
