(* ===== verification/Errors.thy ===== *)
theory Errors
  imports Prelude
begin

text \<open>
  What an error shows of itself (src/src/lib.rs). The text of an i/o error is the standard library's
  and a parameter here.
\<close>

definition error_display :: "(io_error \<Rightarrow> string) \<Rightarrow> error \<Rightarrow> string" where
  "error_display io_text e =
    (case e of
       Io i \<Rightarrow> ''i/o error: '' @ io_text i
     | Corrupt what why \<Rightarrow> ''corrupt '' @ what @ '': '' @ why
     | Unsupported what \<Rightarrow> ''unsupported: '' @ what
     | Invalid what \<Rightarrow> ''invalid: '' @ what)"

definition error_source :: "error \<Rightarrow> io_error option" where
  "error_source e = (case e of Io i \<Rightarrow> Some i | _ \<Rightarrow> None)"

definition error_from :: "io_error \<Rightarrow> error" where
  "error_from i = Io i"

text \<open>The text tells the kinds of errors apart, and apart from corruption it tells which error it is.\<close>

lemma error_display_kind:
  assumes "error_display io_text e = error_display io_text e'"
  shows "(\<exists>i i'. e = Io i \<and> e' = Io i' \<and> io_text i = io_text i') \<or>
    (\<exists>x y x' y'. e = Corrupt x y \<and> e' = Corrupt x' y') \<or> e = e'"
  using assms by (cases e; cases e') (simp_all add: error_display_def)

end
