(* ===== verification/Spec2Isabelle.thy ===== *)
theory Spec2Isabelle
  imports GroupDesc Superblock Extent Journal Inode Csum Dirent HtreeSpec Xattr Dirhash Alloc WriterRun
    Geometry Sink XattrBuild Builder BuilderInv BuilderSpec Dirpack HtreeBuild Reader ReaderSafe
    ReadFile ReadDir Verify VerifyBuilt VerifySafe ExtentPlanSpec SealedLayout SealNumbers Built ImageClean MkfsSample Errors
begin

text \<open>
  mkext4: a deterministic, streaming builder of ext4 images and a reader and verifier of such images,
  as a library of one theory per part of the crate.

  \<^bold>\<open>The program.\<close> A client declares a namespace on an \<^verbatim>\<open>FsBuilder\<close>
  (src/src/build/mod.rs): directories, files with their sizes, symlinks, devices, hard links, attributes.
  \<^verbatim>\<open>seal\<close> (src/src/build/seal.rs) consumes it and freezes a \<^verbatim>\<open>Layout\<close>: it numbers the
  inodes, places group metadata, journal, lost+found, directories, attribute and symlink blocks and file
  data with the allocator (src/src/layout/), and renders every metadata byte with the encoders of
  src/src/spec/, the directory packer, the hash index of src/src/build/htree.rs and the attribute plan of
  src/src/build/xattr_build.rs. The \<^verbatim>\<open>ImageWriter\<close> (src/src/build/writer.rs) then emits the
  metadata and, as the client fills its files, the data, into a sink (src/src/sink.rs). The reader
  (src/src/reader/mod.rs) opens an image, walks extent trees, reads files, directories and attributes and
  resolves paths; the verifier (src/src/reader/verify.rs) checks an image and lists what is wrong with it.

  \<^bold>\<open>Conventions.\<close> An operation that can fail returns \<open>'a res\<close>: \<open>Inr\<close> a value or
  \<open>Inl\<close> a fault, which is an error value of the crate (\<open>Err\<close>) or \<open>Panic\<close>: an index out of
  range, an overflow or an underflow of checked arithmetic, an \<^verbatim>\<open>expect\<close>. An operation on
  \<^verbatim>\<open>&mut self\<close> is a \<open>call\<close>: a function from the state to the outcome and the state it leaves,
  errors included. Fields of on-disk structures are words of their width; sizes, block addresses and
  counts inside sealing are natural numbers with the code's checks and casts written out. Strings of the
  code are byte lists. Text of error messages is kept to its fixed part.

  \<^bold>\<open>Which theory models what.\<close>
  \<^item> \<open>Prelude\<close>, \<open>Le\<close>, \<open>Consts\<close>: results, buffers, field access (le.rs), constants (spec/consts.rs).
  \<^item> \<open>Codec\<close>: the interface of the on-disk records (a locale with an encoder and a decoder), and tables of them.
    \<open>Superblock\<close>, \<open>GroupDesc\<close>, \<open>Inode\<close>, \<open>Extent\<close>, \<open>Journal\<close>, \<open>Dirent\<close>, \<open>HtreeSpec\<close>, \<open>Xattr\<close>: one
    file of src/src/spec/ each.
  \<^item> \<open>Csum\<close>, \<open>Dirhash\<close>: csum.rs and dirhash.rs. The CRC-32C is the crate crc32c: a parameter \<open>crc\<close> of every
    definition that uses it; a law it must have (streaming: the sum of a concatenation is the sum continued) is a locale,
    interpreted on a bitwise CRC-32C.
  \<^item> \<open>Alloc\<close>, \<open>Geometry\<close>: src/src/layout/. \<open>Sink\<close>: the sinks, as a pair of operations on a state, and the
    locale that relates them to an image.
  \<^item> \<open>Builder\<close>: the builder's state and calls. \<open>BuilderInv\<close>: the invariant and the states a client can reach
    (\<open>builder_reachable\<close>). \<open>BuilderSpec\<close>: the builder as a map from directories and names to nodes.
    \<open>BuilderKinds\<close>: the typing of nodes.
  \<^item> \<open>XattrBuild\<close>, \<open>Dirpack\<close>, \<open>HtreeBuild\<close>, \<open>ExtentPlan\<close>, \<open>SealNames\<close>, \<open>SealPlace\<close>, \<open>SealInode\<close>,
    \<open>Seal\<close>: sealing, in the order of the code; \<open>Layout\<close>: what it returns.
  \<^item> \<open>Writer\<close>: the emission phase; \<open>WriterSpec\<close>, \<open>WriterRun\<close>: what it emits, the states of a writer.
  \<^item> \<open>Reader\<close>, \<open>Verify\<close>: the reader and the verifier; \<open>ReaderSafe\<close>, \<open>VerifySafe\<close>: they never panic;
    \<open>ReadFile\<close>, \<open>ReadDir\<close>, \<open>VerifyBuilt\<close>: what they make of what the packers write.
  \<^item> \<open>SealAccount\<close>, \<open>SealAlloc\<close>, \<open>SealMarks\<close>, \<open>SealGroups\<close>, \<open>SealLengths\<close>, \<open>SealNumbers\<close>, \<open>SealPlaced\<close>,
    \<open>SealProgress\<close>, \<open>SealedLayout\<close>, \<open>ExtentPlanSpec\<close>: what each phase of sealing keeps and promises.
  \<^item> \<open>FileMap\<close>, \<open>FilePlans\<close>, \<open>NamePlans\<close>, \<open>DirPlans\<close>, \<open>NameEntries\<close>, \<open>SealedOpen\<close>, \<open>SealedInodes\<close>,
    \<open>ReadBack\<close>, \<open>DirInodes\<close>, \<open>ReadNames\<close>, \<open>SlotKinds\<close>, \<open>ReadSlots\<close>, \<open>ReadAttrs\<close>, \<open>Built\<close>: the way from the
    builder to the image and back through the reader. \<open>SealSample\<close>: a builder that seals, for witnesses.
  \<^item> \<open>GroupsClean\<close>, \<open>PlansClean\<close>, \<open>FixedInodes\<close>, \<open>SlotsClean\<close>, \<open>DirsClean\<close>, \<open>ImageClean\<close>: the way through
    the verifier: groups and bitmaps, extent plans, the inodes with fixed numbers, those of the nodes,
    directories, the whole pass.
  \<^item> \<open>Mkfs\<close>: the command of src/examples/mkfs.rs, a client of the whole crate, over a host directory as a tree.
    \<open>MkfsDeclare\<close>, \<open>MkfsPlaced\<close>: the tree as a map from paths, and the induction that declares it;
    \<open>MkfsRun\<close>, \<open>MkfsImage\<close>: its run and what the image shows of the host; \<open>MkfsSample\<close>: a run that succeeds.
  \<^item> \<open>Errors\<close>: the text and the source of an error (src/src/lib.rs).

  \<^bold>\<open>What the theorems show.\<close> The first section is the promise of the crate as a whole: the image of a
  finished build is emitted exactly once, opens, passes the verifier without an issue, and gives back every
  path, file, directory, node and attribute that was declared. Its hypotheses are those of the code's callers: the builder is the result
  of calls of the public interface from \<^verbatim>\<open>FsBuilder::new\<close>, \<^verbatim>\<open>seal\<close> returned a layout, the client
  filled every file that has data; and three bounds: \<open>backups_fit\<close> (the last group, when it holds a
  backup of the superblock, has room for it: the geometry does not check it, see
  \<open>backup_past_end\<close>), \<open>options_wf\<close> (the arrays of the options have the lengths their types have), and
  a declared size of at most the device for the file that is read (the reader refuses others; the verifier
  only needs sparse files of at most 16 TiB). Paths moreover assume
  that the client did not itself declare lost+found in the root, which the builder does not refuse and of
  which sealing adds a second (\<open>lost_found_listed_twice\<close>). The other sections are the components: the builder's invariant and the outcome of each
  call (and the removal it gets wrong, \<open>relink_then_remove_panics\<close>), placement without double allocation, numbering, exact free counts, the writer's states, the safety
  of the reader and the verifier on images they did not write, round trips of the codecs, directories, indexes and
  attributes, the allocator and the sinks. \<open>mkfs_builds_host\<close> puts all of them together for a real client: a
  run of the command that does not panic leaves an image of the host directory it was given.

  \<^bold>\<open>Loops.\<close> Every loop of the code is a total function here: structural recursion on the list it runs
  over, or recursion with a decreasing measure (records of a directory block by the bytes left, the
  worklist of the reachability search by the slots not yet seen, extent trees by the depth byte, which the
  reader checks to decrease). Where the code's own bound is not visible in the function the recursion is
  \<^verbatim>\<open>partial_function (option)\<close> and a theorem states that it returns (the allocator's loop
  and the divisions of \<open>is_power_of\<close>). No fuel is used.

  \<^bold>\<open>Not modelled.\<close> \<^verbatim>\<open>Debug\<close> implementations and re-exports, which
  compute nothing the rest uses; of examples/mkfs.rs the parsing of arguments and the progress messages; tests.
  Reading the client's data is the list of bytes that the reader it
  passes delivers before it ends or fails; a file is the bytes written to it; a host directory does not change
  while the command runs, and reading it does not fail.

  \<^bold>\<open>Widths.\<close> Slots, offsets and lengths are natural numbers. Where the code computes them in \<^verbatim>\<open>u64\<close> on
  data it did not make (the reader and the verifier) or can be driven past 64 bits (sizes of files), the check is written
  out; the vector of a whole file has at most \<open>2 ^ 63 - 1\<close> bytes. Not written out, because no state gets
  there: the cast of a slot to 32 bits (at \<open>2 ^ 32\<close> nodes), the sum of an offset and a length in a sink (the
  statements about sinks have images far below \<open>2 ^ 64\<close> bytes in view), and the sizes and times of a host file, which the host
  keeps in 64 bits.

  \<^bold>\<open>Where the design document says otherwise.\<close> Section 3 of src/DESIGN.md makes a reader that delivers more than
  the declared bytes an error and a fill of a file without data an allowed no-op. The code, and so the model, reads the
  declared bytes and looks no further (\<open>fills_ok\<close> admits longer readers), and refuses every fill of a file
  without data, without poisoning the writer (\<open>writer_finish_exact\<close>).
\<close>

section \<open>What a finished build leaves\<close>

text \<open>C1: The image of a sealed builder: whatever calls built it, once sealing has returned a layout (and
  the backups of a truncated last group fit on the device), a client that fills every file that has data,
  in any order, emits every byte of the image exactly once, and the device holds the rendered metadata, the
  contents of the files in their runs, and zero everywhere else.\<close>

theorem sealed_image_exactly_once:
  assumes "builder_reachable strict opts b" "seal crc b = Inr lay" "backups_fit (lay_geo lay)"
    and "fills_ok lay {} fills"
  shows "\<exists>cs buf. build_image (checking_data vec_data) (checking_zeros vec_zeros) lay fills (checking_new []) =
      Inr (\<lparr>sum_image_len = image_len lay, sum_data_bytes = sum (file_size lay) (fillable lay)\<rparr>, cs) \<and>
    checking_finish cs (image_len lay) = Inr buf \<and>
    (\<forall>i<image_len lay. buf_store buf i = device_byte lay fills i)"
  using checked_build [OF seal_layout [OF assms(2) reachable_aligned [OF assms(1)] assms(3)] assms(4)] .

theorem sealed_image_exactly_once_witness:
  "\<exists>lay cs buf. seal crc32c_append demo_builder = Inr lay \<and>
    build_image (checking_data vec_data) (checking_zeros vec_zeros) lay [(1, [1, 2, 3, 4, 5])] (checking_new []) =
      Inr (\<lparr>sum_image_len = 16777216, sum_data_bytes = 5\<rparr>, cs) \<and>
    checking_finish cs 16777216 = Inr buf \<and> buf_store buf (1097 * 4096 + 2) = device_byte lay [(1, [1, 2, 3, 4, 5])] (1097 * 4096 + 2)"
proof -
  obtain lay where l: "seal crc32c_append demo_builder = Inr lay" "backups_fit (lay_geo lay)" "image_len lay = 16777216"
    "fillable lay = {1}" "file_size lay 1 = 5"
    using demo_seals by blast
  have "fills_ok lay {} [(1, [1, 2, 3, 4, 5])]" using l by (simp add: fills_ok_def)
  from sealed_image_exactly_once [OF demo_reachable l(1,2) this] l show ?thesis by fastforce
qed

text \<open>C2: A built image opens: the reader accepts the superblock and its checksum, finds the descriptor table,
  computes the seed the writer used, and finds every inode that sealing rendered in its slot.\<close>

theorem sealed_image_opens:
  assumes "builder_reachable strict opts b" "seal crc b = Inr lay" "backups_fit (lay_geo lay)" "options_wf (fb_opts b)"
    and "fills_ok lay {} fills"
  shows "\<exists>f. Fs_open crc (slice_source (image_bytes lay fills)) = Inr f \<and>
    fs_csum_seed f = fs_seed crc (opt_fs_uuid (fb_opts b)) \<and> s_blocks_count (fs_sb f) = of_nat (geo_blocks (lay_geo lay)) \<and>
    (\<forall>ino. 0 < ino \<and> ino \<le> length (lay_inodes lay) \<longrightarrow> inode_raw f (of_nat ino) = Inr (lay_inodes lay ! (ino - 1)))"
proof -
  have "fst ` set fills \<subseteq> fillable lay" using assms(5) by (simp add: fills_ok_def)
  note fills = this
  show ?thesis
  proof (rule sealed_open [OF assms(1-4) fills], goal_cases)
    case (1 f geo slot_ino nxt n pl)
    then have "\<forall>ino. 0 < ino \<and> ino \<le> length (lay_inodes lay) \<longrightarrow> inode_raw f (of_nat ino) = Inr (lay_inodes lay ! (ino - 1))"
      by auto
    with 1(1,5,6,10) show ?case by blast
  qed
qed

theorem sealed_image_opens_witness:
  "\<exists>lay f. seal crc32c_append demo_builder = Inr lay \<and>
    Fs_open crc32c_append (slice_source (image_bytes lay [(1, [1, 2, 3, 4, 5])])) = Inr f \<and> s_blocks_count (fs_sb f) = 4096"
proof -
  obtain lay where l: "seal crc32c_append demo_builder = Inr lay" "backups_fit (lay_geo lay)" "image_len lay = 16777216"
    "fillable lay = {1}" "file_size lay 1 = 5" "geo_blocks (lay_geo lay) = 4096"
    using demo_seals [of crc32c_append] by blast
  have fills: "fills_ok lay {} [(1, [1, 2, 3, 4, 5])]" using l by (simp add: fills_ok_def)
  have wf: "options_wf (fb_opts demo_builder)" by (rule demo_options_wf)
  obtain f where "Fs_open crc32c_append (slice_source (image_bytes lay [(1, [1, 2, 3, 4, 5])])) = Inr f"
    "s_blocks_count (fs_sb f) = of_nat (geo_blocks (lay_geo lay))"
    using sealed_image_opens [OF demo_reachable l(1,2) wf fills] by blast
  then have "s_blocks_count (fs_sb f) = 4096" unfolding l(6) by simp
  then show ?thesis using l(1) \<open>Fs_open _ _ = _\<close> by blast
qed

text \<open>C3: A built image verifies clean: the structural verifier, run on the image that a finished build leaves,
  finds nothing wrong with it: group descriptors, bitmaps and their padding, reserved inodes, every inode in
  use with its extents, its directory blocks or index and its attribute block, and the journal. (A sparse file
  must not be declared larger than the 16 TiB that its logical block numbers can address.)\<close>

theorem built_image_verifies:
  assumes "builder_reachable strict opts b" "seal crc b = Inr lay" "backups_fit (lay_geo lay)" "options_wf (fb_opts b)"
    and "fills_ok lay {} fills" "\<forall>n\<in>set (fb_nodes b). \<forall>segs sz. n_kind n = Sparse segs sz \<longrightarrow> sz \<le> 2 ^ 44"
  shows "\<exists>sm cs img f. build_image (checking_data vec_data) (checking_zeros vec_zeros) lay fills (checking_new []) = Inr (sm, cs) \<and>
    checking_finish cs (image_len lay) = Inr img \<and> Fs_open crc (slice_source img) = Inr f \<and> verify crc f = Inr []"
proof (rule built_opened [OF assms(1-5)], goal_cases)
  case (1 sm cs f geo max_ino pl)
  from opened_verifies [OF 1(4) assms(1-4,6)] 1(1-3) show ?case by blast
qed

theorem built_image_verifies_witness:
  "\<exists>lay sm cs img f. seal crc32c_append demo_builder = Inr lay \<and>
    build_image (checking_data vec_data) (checking_zeros vec_zeros) lay [(1, [1, 2, 3, 4, 5])] (checking_new []) = Inr (sm, cs) \<and>
    checking_finish cs 16777216 = Inr img \<and> Fs_open crc32c_append (slice_source img) = Inr f \<and> verify crc32c_append f = Inr []"
proof (rule demo_ready [of crc32c_append])
  fix lay assume l: "seal crc32c_append demo_builder = Inr lay" "backups_fit (lay_geo lay)" "image_len lay = 16777216"
    "fills_ok lay {} [(1, [1, 2, 3, 4, 5])]" "lay_slot_ino lay = [2, 12]"
  have "\<forall>n\<in>set (fb_nodes demo_builder). \<forall>segs sz. n_kind n = Sparse segs sz \<longrightarrow> sz \<le> 2 ^ 44" by (simp add: demo_with_def)
  from built_image_verifies [OF demo_reachable l(1,2) demo_options_wf l(4) this] l(1,3) show ?thesis by auto
qed

text \<open>C4: Paths mean on the image what they mean in the builder: when the client has not taken the name lost+found
  in the root, a path whose names lead in the builder from the root to a node is resolved to the inode number of that
  node, and one that fails only at its last name, which is no name of the directory reached, is not found.\<close>

theorem built_paths_resolve:
  assumes "builder_reachable strict opts b" "seal crc b = Inr lay" "backups_fit (lay_geo lay)" "options_wf (fb_opts b)"
    and "fills_ok lay {} fills" "lookup b 0 (ascii ''lost+found'') = None"
  shows "\<exists>sm cs img f. build_image (checking_data vec_data) (checking_zeros vec_zeros) lay fills (checking_new []) = Inr (sm, cs) \<and>
    checking_finish cs (image_len lay) = Inr img \<and> Fs_open crc (slice_source img) = Inr f \<and>
    (\<forall>path s. walk b 0 (split_path [] path) = Some s \<longrightarrow>
       lay_slot_ino lay ! s \<noteq> 0 \<and> fs_resolve crc f path = Inr (of_nat (lay_slot_ino lay ! s))) \<and>
    (\<forall>path parts nm d. split_path [] path = parts @ [nm] \<and> walk b 0 parts = Some d \<and> is_dir (fb_nodes b ! d) \<and>
       lookup b d nm = None \<and> nm \<notin> {ascii ''.'', ascii ''..'', ascii ''lost+found''} \<longrightarrow>
       fs_resolve crc f path = Inl (Err (Io NotFound)))"
proof (rule built_opened [OF assms(1-5)], goal_cases)
  case (1 sm cs f geo max_ino pl)
  note op = 1(4) and so = opened_slots [OF 1(4)]
  have root: "0 < length (fb_nodes b)" using builder_closed(2) [OF reachable_inv [OF assms(1)]] by simp
  have ino: "lay_slot_ino lay ! 0 \<noteq> 0" "of_nat (lay_slot_ino lay ! 0) = ROOT_INO" using so(2) by simp_all
  note found = opened_walk [OF op assms(1,6) root ino(1), folded fs_resolve_def [of crc f], unfolded ino(2)]
    and missing = opened_missing [OF op assms(1,6), unfolded ino(2)]
  have "\<forall>path s. walk b 0 (split_path [] path) = Some s \<longrightarrow>
      lay_slot_ino lay ! s \<noteq> 0 \<and> fs_resolve crc f path = Inr (of_nat (lay_slot_ino lay ! s))"
    using found by (simp add: fs_resolve_def)
  moreover have "\<forall>path parts nm d. split_path [] path = parts @ [nm] \<and> walk b 0 parts = Some d \<and> is_dir (fb_nodes b ! d) \<and>
      lookup b d nm = None \<and> nm \<notin> {ascii ''.'', ascii ''..'', ascii ''lost+found''} \<longrightarrow>
      fs_resolve crc f path = Inl (Err (Io NotFound))"
    using missing by (simp add: fs_resolve_def)
  ultimately show ?case using 1(1-3) by blast
qed

theorem built_paths_resolve_witness:
  "\<exists>lay sm cs img f. seal crc32c_append demo_builder = Inr lay \<and>
    build_image (checking_data vec_data) (checking_zeros vec_zeros) lay [(1, [1, 2, 3, 4, 5])] (checking_new []) = Inr (sm, cs) \<and>
    checking_finish cs 16777216 = Inr img \<and> Fs_open crc32c_append (slice_source img) = Inr f \<and>
    fs_resolve crc32c_append f [0x2F, 97] = Inr 12 \<and> fs_resolve crc32c_append f [0x2F, 98] = Inl (Err (Io NotFound))"
proof (rule demo_ready [of crc32c_append])
  fix lay assume l: "seal crc32c_append demo_builder = Inr lay" "backups_fit (lay_geo lay)" "image_len lay = 16777216"
    "fills_ok lay {} [(1, [1, 2, 3, 4, 5])]" "lay_slot_ino lay = [2, 12]"
  have lf: "lookup demo_builder 0 (ascii ''lost+found'') = None" by (simp add: demo_lookup ascii_def)
  obtain sm cs img f where r:
    "build_image (checking_data vec_data) (checking_zeros vec_zeros) lay [(1, [1, 2, 3, 4, 5])] (checking_new []) = Inr (sm, cs)"
    "checking_finish cs 16777216 = Inr img" "Fs_open crc32c_append (slice_source img) = Inr f"
    and p: "\<And>path s. walk demo_builder 0 (split_path [] path) = Some s \<Longrightarrow>
      fs_resolve crc32c_append f path = Inr (of_nat ([2, 12] ! s))"
      "\<And>path parts nm d. split_path [] path = parts @ [nm] \<and> walk demo_builder 0 parts = Some d \<and>
        is_dir (fb_nodes demo_builder ! d) \<and> lookup demo_builder d nm = None \<and>
        nm \<notin> {ascii ''.'', ascii ''..'', ascii ''lost+found''} \<Longrightarrow> fs_resolve crc32c_append f path = Inl (Err (Io NotFound))"
    using built_paths_resolve [OF demo_reachable l(1,2) demo_options_wf l(4) lf] unfolding l(3,5) by blast
  have "is_dir (fb_nodes demo_builder ! 0)" by (simp add: is_dir_def demo_with_def)
  then have "fs_resolve crc32c_append f [0x2F, 98] = Inl (Err (Io NotFound))"
    using p(2) [of "[0x2F, 98]" "[]" "[98]" 0] by (simp add: demo_lookup ascii_def)
  moreover have "fs_resolve crc32c_append f [0x2F, 97] = Inr 12"
    using p(1) [of "[0x2F, 97]" 1] by (simp add: demo_lookup)
  ultimately show ?thesis using l(1) r by blast
qed

text \<open>C5: A client's files come back: on the image that a finished build leaves, the reader opens the file system
  and reads, at the inode number of any regular file, its declared size, with the filled bytes in its data
  segments and zeros in its holes (as long as the declared size is not past the size of the device, which the
  reader refuses).\<close>

theorem built_file_reads_back:
  assumes "builder_reachable strict opts b" "seal crc b = Inr lay" "backups_fit (lay_geo lay)" "options_wf (fb_opts b)"
    and "fills_ok lay {} fills"
    and "s < length (fb_nodes b)" "lay_slot_ino lay ! s \<noteq> 0" "declared (n_kind (fb_nodes b ! s)) = Some (segs, sz)"
    and "sz \<le> image_len lay"
  shows "\<exists>sm cs img f. build_image (checking_data vec_data) (checking_zeros vec_zeros) lay fills (checking_new []) = Inr (sm, cs) \<and>
    checking_finish cs (image_len lay) = Inr img \<and> Fs_open crc (slice_source img) = Inr f \<and>
    read_file crc f (of_nat (lay_slot_ino lay ! s)) = Inr (map (declared_byte segs (content_of fills s)) [0..<sz])"
proof -
  note lay = seal_layout [OF assms(2) reachable_aligned [OF assms(1)] assms(3)]
  from checked_image [OF lay assms(5)] sealed_file_reads [OF assms] show ?thesis by blast
qed

theorem built_file_reads_back_witness:
  "\<exists>lay sm cs img f. seal crc32c_append demo_builder = Inr lay \<and>
    build_image (checking_data vec_data) (checking_zeros vec_zeros) lay [(1, [1, 2, 3, 4, 5])] (checking_new []) = Inr (sm, cs) \<and>
    checking_finish cs 16777216 = Inr img \<and> Fs_open crc32c_append (slice_source img) = Inr f \<and>
    read_file crc32c_append f 12 = Inr [1, 2, 3, 4, 5]"
proof -
  obtain lay where l: "seal crc32c_append demo_builder = Inr lay" "backups_fit (lay_geo lay)" "image_len lay = 16777216"
    "fillable lay = {1}" "file_size lay 1 = 5" "lay_slot_ino lay = [2, 12]"
    using demo_seals [of crc32c_append] by blast
  have fills: "fills_ok lay {} [(1, [1, 2, 3, 4, 5])]" using l by (simp add: fills_ok_def)
  have wf: "options_wf (fb_opts demo_builder)" by (rule demo_options_wf)
  have s: "lay_slot_ino lay ! 1 \<noteq> 0" using l(6) by simp
  have one: "1 < length (fb_nodes demo_builder)" "declared (n_kind (fb_nodes demo_builder ! 1)) = Some ([(0, 5)], 5)"
    by (simp_all add: declared_def)
  have "5 \<le> image_len lay" using l(3) by simp
  note r = built_file_reads_back [OF demo_reachable l(1,2) wf fills one(1) s one(2) this]
  have "map (declared_byte [(0, 5)] (content_of [(1, [1, 2, 3, 4, 5])] 1)) [0..<5] = [1, 2, 3, 4, 5]"
    by (simp add: declared_byte_def content_of_def upt_rec)
  with r l(1) show ?thesis unfolding l(3,6) by auto
qed

text \<open>C6: Directories come back: on the image that a finished build leaves, reading any directory in use gives
  its dot entries, the parent one naming a directory that holds it, and then, in the order of the leaves, exactly the names
  that the builder gave it with the inode numbers and types of the nodes they name, and in the root the lost+found that
  sealing adds.\<close>

theorem built_directory_reads_back:
  assumes "builder_reachable strict opts b" "seal crc b = Inr lay" "backups_fit (lay_geo lay)" "options_wf (fb_opts b)"
    and "fills_ok lay {} fills"
    and "s < length (fb_nodes b)" "lay_slot_ino lay ! s \<noteq> 0" "is_dir (fb_nodes b ! s)"
  shows "\<exists>sm cs img f es parent.
    build_image (checking_data vec_data) (checking_zeros vec_zeros) lay fills (checking_new []) = Inr (sm, cs) \<and>
    checking_finish cs (image_len lay) = Inr img \<and> Fs_open crc (slice_source img) = Inr f \<and>
    read_dir crc f (of_nat (lay_slot_ino lay ! s)) = Inr (map dir_entry_of_dentry
      (dot_entries (of_nat (lay_slot_ino lay ! s)) (of_nat parent) @ es)) \<and>
    is_parent b (lay_slot_ino lay) s parent \<and> mset es = mset (dir_listing b (lay_slot_ino lay) s)"
proof (rule built_opened [OF assms(1-5)], goal_cases)
  case (1 sm cs f geo max_ino pl)
  from opened_dir_reads [OF 1(4) assms(1,6-8)] 1(1-3) show ?case by blast
qed

theorem built_directory_reads_back_witness:
  "\<exists>lay sm cs img f es. seal crc32c_append demo_builder = Inr lay \<and>
    build_image (checking_data vec_data) (checking_zeros vec_zeros) lay [(1, [1, 2, 3, 4, 5])] (checking_new []) = Inr (sm, cs) \<and>
    checking_finish cs 16777216 = Inr img \<and> Fs_open crc32c_append (slice_source img) = Inr f \<and>
    read_dir crc32c_append f 2 = Inr (map dir_entry_of_dentry (dot_entries 2 2 @ es)) \<and>
    mset es = mset [(ascii ''lost+found'', of_nat LOST_FOUND_INO, ft_DIR), ([97], 12, ft_REG)]"
proof (rule demo_ready [of crc32c_append])
  fix lay assume l: "seal crc32c_append demo_builder = Inr lay" "backups_fit (lay_geo lay)" "image_len lay = 16777216"
    "fills_ok lay {} [(1, [1, 2, 3, 4, 5])]" "lay_slot_ino lay = [2, 12]"
  have root: "0 < length (fb_nodes demo_builder)" "is_dir (fb_nodes demo_builder ! 0)" "lay_slot_ino lay ! 0 \<noteq> 0"
    by (simp_all add: is_dir_def demo_with_def l(5))
  from built_directory_reads_back [OF demo_reachable l(1,2) demo_options_wf l(4) root(1,3,2)] l(1)
  show ?thesis unfolding l(3,5) by (fastforce simp: is_parent_def demo_listing lost_found_entry_def)
qed

text \<open>The builder does not refuse the name lost+found in the root; sealing then lists it twice.\<close>

theorem lost_found_listed_twice:
  assumes "builder_reachable strict opts b" "lookup b 0 (ascii ''lost+found'') = Some c"
  shows "\<not> distinct (map fst (dir_listing b slot_ino 0))"
proof -
  have root: "0 < length (fb_nodes b)" using builder_closed(2) [OF reachable_inv [OF assms(1)]] by simp
  obtain children index where k: "n_kind (fb_nodes b ! 0) = node_kind.Dir children index" "index (ascii ''lost+found'') \<noteq> None"
    using assms(2) by (auto simp: lookup_def split: if_splits node_kind.splits)
  have "ascii ''lost+found'' \<in> fst ` set (dir_entries b slot_ino children)"
    using dir_entries_lookup(3) [OF reachable_inv [OF assms(1)] root k(1)] k(2) by (simp add: dom_def)
  then show ?thesis using k(1) by (simp add: dir_listing_def lost_found_entry_def)
qed

text \<open>An empty journal passes every check of the options and the geometry, and never seals.\<close>

theorem empty_journal_never_seals:
  assumes "builder_reachable strict opts b" "opt_journal_blocks (fb_opts b) = Some 0"
  shows "seal crc b \<noteq> Inr lay"
proof
  assume seal: "seal crc b = Inr lay"
  obtain slot_ino nxt geo n pl where s: "slot_inodes b = Inr (slot_ino, nxt)"
    "Geometry_new (opt_size_bytes (fb_opts b)) (case opt_inodes (fb_opts b) of Auto \<Rightarrow> None | Exact n \<Rightarrow> Some n)
        (opt_journal_blocks (fb_opts b)) = Inr geo"
    "place_all crc b geo (fs_seed crc (opt_fs_uuid (fb_opts b))) slot_ino = Inr pl"
    "render_all crc b geo (fs_seed crc (opt_fs_uuid (fb_opts b))) slot_ino (nxt - 1) n pl = Inr lay"
    using seal by (rule sealE)
  have "geo_journal_blocks geo = 0" using s(2) assms(2) by (auto simp: Geometry_new_def Let_def bindE_eq_Inr split: if_splits)
  then have "expand_runs (fst (pl_journal pl)) = []" "\<forall>r\<in>set (fst (pl_journal pl)). 0 < run_len r"
    using place_all_ok(6,7) [OF s(3) Geometry_new_wf [OF s(2)] reachable_aligned [OF assms(1)] slot_inodes_length [OF s(1)]] by simp_all
  then have "fst (pl_journal pl) = []" by (cases "fst (pl_journal pl)") auto
  then show False using s(4) by (auto simp: render_all_def journal_seg_def Let_def bindE_eq_Inr)
qed

text \<open>C7: Nodes come back: on the image that a finished build leaves, the inode of any node in use has the
  type, permissions, owner, link count and (where the encoding can hold them) times of the node it was declared as, a symbolic
  link the target it was given, and a device its major and minor numbers.\<close>

theorem built_nodes_read_back:
  assumes "builder_reachable strict opts b" "seal crc b = Inr lay" "backups_fit (lay_geo lay)" "options_wf (fb_opts b)"
    and "fills_ok lay {} fills"
    and "s < length (fb_nodes b)" "lay_slot_ino lay ! s \<noteq> 0"
    and "\<And>segs sz. declared (n_kind (fb_nodes b ! s)) = Some (segs, sz) \<Longrightarrow> sz \<le> image_len lay"
  shows "\<exists>sm cs img f i. build_image (checking_data vec_data) (checking_zeros vec_zeros) lay fills (checking_new []) = Inr (sm, cs) \<and>
    checking_finish cs (image_len lay) = Inr img \<and> Fs_open crc (slice_source img) = Inr f \<and>
    read_inode crc f (of_nat (lay_slot_ino lay ! s)) = Inr i \<and> describes b (lay_slot_ino lay) s i \<and>
    (case n_kind (fb_nodes b ! s) of
       node_kind.Symlink t \<Rightarrow> symlink_target crc f (of_nat (lay_slot_ino lay ! s)) = Inr t
     | Special ft major minor \<Rightarrow> ft = ft_CHR \<or> ft = ft_BLK \<longrightarrow> dev_numbers i = Some (major, minor)
     | _ \<Rightarrow> True)"
proof (rule built_opened [OF assms(1-5)], goal_cases)
  case (1 sm cs f geo max_ino pl)
  have "\<exists>i. read_inode crc f (of_nat (lay_slot_ino lay ! s)) = Inr i \<and> describes b (lay_slot_ino lay) s i \<and>
    (case n_kind (fb_nodes b ! s) of
       node_kind.Symlink t \<Rightarrow> symlink_target crc f (of_nat (lay_slot_ino lay ! s)) = Inr t
     | Special ft major minor \<Rightarrow> ft = ft_CHR \<or> ft = ft_BLK \<longrightarrow> dev_numbers i = Some (major, minor)
     | _ \<Rightarrow> True)"
    using opened_node_reads [OF 1(4) assms(1,6,7)] assms(8) by blast
  with 1(1-3) show ?case by blast
qed

theorem built_nodes_read_back_witness:
  "\<exists>lay sm cs img f i. seal crc32c_append demo_builder = Inr lay \<and>
    build_image (checking_data vec_data) (checking_zeros vec_zeros) lay [(1, [1, 2, 3, 4, 5])] (checking_new []) = Inr (sm, cs) \<and>
    checking_finish cs 16777216 = Inr img \<and> Fs_open crc32c_append (slice_source img) = Inr f \<and>
    read_inode crc32c_append f 12 = Inr i \<and> inode_file_type i = Regular \<and> i_mode i AND 0xFFF = 0x1A4 \<and> i_links_count i = 1 \<and>
    timestamp (i_mtime i) (i_mtime_extra i) = (1704067200, 0)"
proof (rule demo_ready [of crc32c_append])
  fix lay assume l: "seal crc32c_append demo_builder = Inr lay" "backups_fit (lay_geo lay)" "image_len lay = 16777216"
    "fills_ok lay {} [(1, [1, 2, 3, 4, 5])]" "lay_slot_ino lay = [2, 12]"
  have s: "1 < length (fb_nodes demo_builder)" "lay_slot_ino lay ! 1 \<noteq> 0" by (simp_all add: demo_with_def l(5))
  have fits: "sz \<le> image_len lay" if "declared (n_kind (fb_nodes demo_builder ! 1)) = Some (segs, sz)" for segs sz
    using that l(3) by (simp add: declared_def demo_with_def)
  obtain sm cs img f i where r:
    "build_image (checking_data vec_data) (checking_zeros vec_zeros) lay [(1, [1, 2, 3, 4, 5])] (checking_new []) = Inr (sm, cs)"
    "checking_finish cs 16777216 = Inr img" "Fs_open crc32c_append (slice_source img) = Inr f"
    "read_inode crc32c_append f 12 = Inr i" "describes demo_builder [2, 12] 1 i"
    using built_nodes_read_back [OF demo_reachable l(1,2) demo_options_wf l(4) s fits] unfolding l(3,5) by fastforce
  have "inode_file_type i = Regular \<and> i_mode i AND 0xFFF = 0x1A4 \<and> i_links_count i = 1 \<and>
      timestamp (i_mtime i) (i_mtime_extra i) = (1704067200, 0)"
    using r(5) by (simp add: describes_def demo_with_def Let_def kind_type_def slot_links_def is_dir_def demo_meta_def
        Meta_new_def time_ok_def or_mtime_def)
  then show ?thesis using l(1) r(1-4) by blast
qed

text \<open>C8: Attributes come back: on the image that a finished build leaves, the extended attributes of any node in
  use are those that were set on it, name index, name suffix and value, in the canonical order of the plan, whether they are
  in the inode or in its block.\<close>

theorem built_attrs_read_back:
  assumes "builder_reachable strict opts b" "seal crc b = Inr lay" "backups_fit (lay_geo lay)" "options_wf (fb_opts b)"
    and "fills_ok lay {} fills"
    and "s < length (fb_nodes b)" "lay_slot_ino lay ! s \<noteq> 0"
    and "\<And>segs sz. declared (n_kind (fb_nodes b ! s)) = Some (segs, sz) \<Longrightarrow> sz \<le> image_len lay"
  shows "\<exists>sm cs img f es. build_image (checking_data vec_data) (checking_zeros vec_zeros) lay fills (checking_new []) = Inr (sm, cs) \<and>
    checking_finish cs (image_len lay) = Inr img \<and> Fs_open crc (slice_source img) = Inr f \<and>
    fs_xattrs f (of_nat (lay_slot_ino lay ! s)) = Inr es \<and>
    map xattr_view es = (case fb_xattrs b s of None \<Rightarrow> [] | Some l \<Rightarrow> sort_key attr_key l)"
proof (rule built_opened [OF assms(1-5)], goal_cases)
  case (1 sm cs f geo max_ino pl)
  have "\<exists>es. fs_xattrs f (of_nat (lay_slot_ino lay ! s)) = Inr es \<and>
    map xattr_view es = (case fb_xattrs b s of None \<Rightarrow> [] | Some l \<Rightarrow> sort_key attr_key l)"
    by (rule opened_attrs_read [OF 1(4) assms(1,6,7)]) (rule assms(8))
  with 1(1-3) show ?case by blast
qed

theorem built_attrs_read_back_witness:
  "\<exists>lay sm cs img f es. seal crc32c_append demo_builder = Inr lay \<and>
    build_image (checking_data vec_data) (checking_zeros vec_zeros) lay [(1, [1, 2, 3, 4, 5])] (checking_new []) = Inr (sm, cs) \<and>
    checking_finish cs 16777216 = Inr img \<and> Fs_open crc32c_append (slice_source img) = Inr f \<and>
    fs_xattrs f 12 = Inr es \<and> map xattr_view es = [(1, [107], [7])]"
proof (rule demo_ready [of crc32c_append])
  fix lay assume l: "seal crc32c_append demo_builder = Inr lay" "backups_fit (lay_geo lay)" "image_len lay = 16777216"
    "fills_ok lay {} [(1, [1, 2, 3, 4, 5])]" "lay_slot_ino lay = [2, 12]"
  have s: "1 < length (fb_nodes demo_builder)" "lay_slot_ino lay ! 1 \<noteq> 0" by (simp_all add: l(5))
  have fits: "sz \<le> image_len lay" if "declared (n_kind (fb_nodes demo_builder ! 1)) = Some (segs, sz)" for segs sz
    using that l(3) by (simp add: declared_def)
  show ?thesis
    using built_attrs_read_back [OF demo_reachable l(1,2) demo_options_wf l(4) s fits] l(1)
    unfolding l(3,5) by (fastforce simp: demo_attrs_def)
qed



section \<open>Sealing\<close>

text \<open>C10: When the last group has room for the backup it may hold (\<open>backups_fit\<close>), placement allocates no block
  twice and none past the end of the device: marking everything that is in use in the block bitmap, in the
  code's order, never hits a block that is already marked, counts each used block once, and leaves exactly the
  used blocks set. (Without that room the backup is placed past the end: \<open>backup_past_end\<close>.)\<close>

theorem no_double_allocation:
  assumes "builder_reachable strict opts b" "slot_inodes b = Inr (slot_ino, nxt)" "geometry_wf geo" "backups_fit geo"
    and "place_all crc b geo fseed slot_ino = Inr pl"
  shows "\<exists>bm. block_bitmap geo (used_runs geo (pl_group_meta pl) (fst (pl_journal pl)) (fst (pl_lost_found pl))
      (ns_dirs (pl_names pl)) (ds_data_runs (pl_data pl)) (st_segments (pl_data pl))) = Inr (bm, length (used_list geo pl)) \<and>
    distinct (used_list geo pl) \<and> (\<forall>b\<in>set (used_list geo pl). b < geo_blocks geo) \<and>
    (\<forall>b<geo_blocks geo. bitmap_bit bm b \<longleftrightarrow> b \<in> set (used_list geo pl))"
proof -
  note p = place_all_ok [OF assms(5,3) reachable_aligned [OF assms(1)] slot_inodes_length [OF assms(2)]]
  show ?thesis using used_list_marks [OF p(1) p(2)] p(1,2) assms(4) by blast
qed

theorem no_double_allocation_witness:
  "\<exists>pl. place_all crc32c_append demo_builder demo_geo 7 [2, 12] = Inr pl \<and> distinct (used_list demo_geo pl)"
proof -
  obtain pl where pl: "place_all crc32c_append demo_builder demo_geo 7 [2, 12] = Inr pl" using demo_place by blast
  have "backups_fit demo_geo" by (simp add: backups_fit_def backup_groups_def)
  from no_double_allocation [OF demo_reachable demo_slots demo_wf this pl] pl show ?thesis by blast
qed

text \<open>C11: When the last group has room for the backup it may hold (\<open>backups_fit\<close>), the counts sealing writes
  add up: the free blocks of the descriptors sum to the free blocks of the superblock, and with the blocks that
  are marked in the bitmap they are the whole device.\<close>

theorem free_blocks_exact:
  assumes "builder_reachable strict opts b" "slot_inodes b = Inr (slot_ino, nxt)" "geometry_wf geo" "backups_fit geo"
    and "place_all crc b geo fseed slot_ino = Inr pl"
    and "block_bitmap geo (used_runs geo (pl_group_meta pl) (fst (pl_journal pl)) (fst (pl_lost_found pl))
      (ns_dirs (pl_names pl)) (ds_data_runs (pl_data pl)) (st_segments (pl_data pl))) = Inr (bm, used)"
    and "seal_groups crc fseed geo bm max_ino inodes (pl_group_meta pl) = Inr (descs, free, segs)"
  shows "free + used = geo_blocks geo \<and> free = (\<Sum>g<geo_groups geo. unat (bg_free_blocks_count (descs ! g)))"
proof -
  note p = place_all_ok [OF assms(5,3) reachable_aligned [OF assms(1)] slot_inodes_length [OF assms(2)]]
  note m = used_list_marks [OF p(1) p(2) [OF assms(4)]]
  obtain a where "place_groups geo = Inr (pl_group_meta pl, a)"
    using assms(5) by (auto simp: place_all_def Let_def bindE_eq_Inr)
  then have l: "length (pl_group_meta pl) = geo_groups geo"
    using place_groups_length assms(3) by (simp add: geometry_wf_def)
  note f = seal_groups_free [OF assms(7,3) l]
  have "free + used = geo_blocks geo"
    using count_unset [OF p(1) p(2) [OF assms(4)], of "bitmap_bit bm"] m assms(6) f(1) by auto
  then show ?thesis using f(2) by blast
qed

theorem free_blocks_exact_witness:
  "\<exists>pl bm used descs free segs. place_all crc32c_append demo_builder demo_geo 7 [2, 12] = Inr pl \<and>
    seal_groups crc32c_append 7 demo_geo bm 12 [] (pl_group_meta pl) = Inr (descs, free, segs) \<and> free + used = 4096"
proof -
  obtain pl where pl: "place_all crc32c_append demo_builder demo_geo 7 [2, 12] = Inr pl" "pl_group_meta pl = [(2, 3, 4)]"
    using demo_place by fastforce
  have fit: "backups_fit demo_geo" by (simp add: backups_fit_def backup_groups_def)
  have len: "length [2, 12] = length (fb_nodes demo_builder)" by simp
  note q = place_all_ok [OF pl(1) demo_wf reachable_aligned [OF demo_reachable] len]
  obtain bm used where bm: "block_bitmap demo_geo (used_runs demo_geo (pl_group_meta pl) (fst (pl_journal pl))
      (fst (pl_lost_found pl)) (ns_dirs (pl_names pl)) (ds_data_runs (pl_data pl)) (st_segments (pl_data pl))) = Inr (bm, used)"
    using used_list_marks [OF q(1) q(2) [OF fit]] by blast
  obtain descs free segs where g: "seal_groups crc32c_append 7 demo_geo bm 12 [] (pl_group_meta pl) = Inr (descs, free, segs)"
  proof -
    have "length (pl_group_meta pl) = geo_groups demo_geo"
      "length ([] :: bytes list) \<le> geo_inodes_per_group demo_geo * geo_groups demo_geo" using pl(2) by simp_all
    from seal_groups_ok [OF demo_wf this] show ?thesis using that by blast
  qed
  from free_blocks_exact [OF demo_reachable demo_slots demo_wf fit pl(1) bm g] pl(1) g show ?thesis by fastforce
qed

text \<open>C12: Sealing gives inode numbers injectively and densely: the root has 2, the other nodes that are reached
  and still have a name have exactly the numbers from 12 on, and every other node has none.\<close>

theorem inode_numbers_dense:
  assumes "builder_reachable strict opts b" "length (fb_nodes b) + 12 < 2 ^ 32"
  shows "\<exists>slot_ino m. slot_inodes b = Inr (slot_ino, 12 + m) \<and> length slot_ino = length (fb_nodes b) \<and>
    slot_ino ! 0 = 2 \<and> set slot_ino - {0} = insert 2 {12..<12 + m} \<and>
    (\<forall>s<length (fb_nodes b). 0 < s \<longrightarrow> (slot_ino ! s \<noteq> 0 \<longleftrightarrow> s \<in> live_slots (fb_nodes b) \<and> 0 < n_nlink (fb_nodes b ! s))) \<and>
    (\<forall>i<length slot_ino. \<forall>j<length slot_ino. slot_ino ! i \<noteq> 0 \<and> slot_ino ! i = slot_ino ! j \<longrightarrow> i = j)"
proof -
  note inv = reachable_inv [OF assms(1)]
  obtain slot_ino nxt where "slot_inodes b = Inr (slot_ino, nxt)" using slot_inodes_returns [OF inv assms(2)] by blast
  from slot_inodes_props [OF inv this] this show ?thesis by blast
qed

theorem inode_numbers_dense_witness:
  "\<exists>slot_ino m. slot_inodes demo_builder = Inr (slot_ino, 12 + m) \<and> set slot_ino - {0} = insert 2 {12..<12 + m}"
proof -
  have "length (fb_nodes demo_builder) + 12 < 2 ^ 32" by simp
  from inode_numbers_dense [OF demo_reachable this] show ?thesis by blast
qed

text \<open>C13: The search for the inodes in use ends without a panic on every builder a client can reach, directory
  loops included, and marks exactly the nodes that names lead to from the root.\<close>

theorem reachability_terminates:
  assumes "builder_reachable strict opts b"
  shows "\<exists>seen. mark_reachable (fb_nodes b) [0] (replicate (length (fb_nodes b)) False) = Inr seen \<and>
    length seen = length (fb_nodes b) \<and> (\<forall>s<length (fb_nodes b). seen ! s \<longleftrightarrow> s \<in> live_slots (fb_nodes b))"
  using mark_reachable_exact [OF builder_closed [OF reachable_inv [OF assms]]] .

theorem reachability_terminates_witness:
  "\<exists>seen. mark_reachable (fb_nodes demo_builder) [0] [False, False] = Inr seen \<and> seen ! 0"
  using reachability_terminates [OF demo_reachable] by (fastforce simp: live_slots_def numeral_2_eq_2)

text \<open>C14: The nodes of every builder a client can reach are well typed: the names of a directory have 1 to 255
  bytes, no '/' and no NUL, and are neither "." nor ".."; the data segments of a sparse file
  are ascending with a hole between any two, not empty, block aligned, whole blocks but the last, and inside
  the file; the target of a symlink has 1 to 4095 bytes and no NUL; a special file is a device, a FIFO or a
  socket with device numbers in range (and zero for the last two).\<close>

theorem node_kinds_typed:
  assumes "builder_reachable strict opts b" "n \<in> set (fb_nodes b)"
  shows "kind_ok (n_kind n)"
  using reachable_kinds [OF assms(1)] assms(2) by (simp add: kinds_all_def)

theorem node_kinds_typed_witness: "kind_ok (n_kind (fb_nodes demo_builder ! 1))"
  by (rule node_kinds_typed [OF demo_reachable]) (simp add: demo_with_def)

section \<open>The namespace builder\<close>

text \<open>C15: In every state a client can reach, whatever errors it ran into, every node's link count
  is its number of live names (one more for the root), no directory has two names, and each
  directory's index is exactly its live names.\<close>

theorem builder_links_exact:
  assumes "builder_reachable strict opts b" "c < length (fb_nodes b)"
  shows "n_nlink (fb_nodes b ! c) = refs b c + (if c = 0 then 1 else 0) \<and>
    (is_dir (fb_nodes b ! c) \<longrightarrow> refs b c \<le> 1) \<and> index_ok (fb_names b) (n_kind (fb_nodes b ! c))"
  using reachable_inv [OF assms(1)] assms(2)
  by (simp add: builder_inv_def mid_inv_def links_ok_def indexes_ok_def)

definition sample_options :: options where
  "sample_options = Options_new 16777216 (replicate 16 1) 1704067200"

definition sample_meta :: meta where
  "sample_meta = Meta_new 0x1A4 0 0 (1704067200, 0)"

definition sample_builder :: fs_builder where
  "sample_builder = \<lparr>fb_opts = sample_options,
     fb_nodes = [\<lparr>n_kind = node_kind.Dir [] Map.empty, n_meta = Meta_new 0x1ED 0 0 (1704067200, 0), n_nlink = 1\<rparr>],
     fb_names = [], fb_xattrs = Map.empty, fb_declared_bytes = 0\<rparr>"

lemma sample_new: "FsBuilder_new sample_options = Inr sample_builder"
  by (simp add: FsBuilder_new_def sample_options_def Options_new_def sample_builder_def)

lemma sample_reachable: "builder_reachable strict sample_options sample_builder"
  by (rule builder_reachable.init [OF sample_new])

theorem builder_links_exact_witness:
  "n_nlink (fb_nodes sample_builder ! 0) = refs sample_builder 0 + 1"
  using builder_links_exact [OF sample_reachable [of False], of 0] by (simp add: sample_builder_def)

text \<open>C16: In every state a client can reach, a call has one of three outcomes: it succeeds and keeps the
  builder's invariant; it returns an error value and leaves the builder exactly as it was; or it panics. It panics
  only when the declared bytes reach 2^64 with the bytes of the call, or when the client has given a new name to a
  node whose last name it had removed, earlier (it was not \<open>strict\<close>) or with this call (it is not
  \<open>disciplined\<close>); the part of the invariant that accounts for the declared bytes is kept as long as it has
  not.\<close>

theorem builder_call_outcomes:
  assumes "builder_reachable strict opts b"
  shows "(\<exists>b'. run_call c b = (Inr (), b') \<and> builder_inv (strict \<and> disciplined c b) b') \<or>
    (\<exists>e. run_call c b = (Inl (Err e), b)) \<or>
    (fst (run_call c b) = Inl Panic \<and>
      (\<not> strict \<or> \<not> disciplined c b \<or> 2 ^ 64 \<le> fb_declared_bytes b + call_bytes c))"
  using run_call_ok [OF reachable_inv [OF assms], of c] unfolding call_ok_def by fastforce

theorem builder_call_outcomes_witness:
  "(\<exists>b'. run_call (CMkdir 0 [97] sample_meta) sample_builder = (Inr (), b') \<and> builder_inv True b') \<or>
   (\<exists>e. run_call (CMkdir 0 [97] sample_meta) sample_builder = (Inl (Err e), sample_builder))"
  using builder_call_outcomes [OF sample_reachable [of True], of "CMkdir 0 [97] sample_meta"]
  by (auto simp: sample_builder_def)

text \<open>C17: Removing a name takes away that name, and, when it names a directory, every name in its
  subtree; every other name keeps its node.\<close>

theorem remove_takes_subtree:
  assumes "builder_reachable strict opts b" "fb_remove dir name b = (Inr (), b')"
  shows "\<exists>c. lookup b dir name = Some c \<and>
    lookup b' = (\<lambda>d. if is_dir (fb_nodes b ! c) \<and> d \<in> subtree b {c} then Map.empty
      else if d = dir then (lookup b dir)(name := None) else lookup b d)"
  using remove_lookup [OF reachable_inv [OF assms(1)] assms(2)] .

theorem remove_takes_subtree_witness:
  "\<exists>b b' c. run_calls [CMkdir 0 [97] sample_meta, CMkdir 1 [98] sample_meta] sample_builder = (Inr (), b) \<and>
    fb_remove 0 [97] b = (Inr (), b') \<and> lookup b 0 [97] = Some c \<and>
    lookup b' = (\<lambda>d. if is_dir (fb_nodes b ! c) \<and> d \<in> subtree b {c} then Map.empty
      else if d = 0 then (lookup b 0)([97] := None) else lookup b d)"
proof -
  let ?cs = "[CMkdir 0 [97] sample_meta, CMkdir 1 [98] sample_meta]"
  define b where "b = snd (run_calls ?cs sample_builder)"
  have b: "run_calls ?cs sample_builder = (Inr (), b)" "fst (fb_remove 0 [97] b) = Inr ()"
    by (simp_all add: b_def sample_builder_def call_eval remove_subtree_loop.simps clear_dir_def
        live_children_def tombstone_all_def)
  obtain b' where b': "fb_remove 0 [97] b = (Inr (), b')" using b(2) by (cases "fb_remove 0 [97] b") simp
  have "builder_reachable False sample_options b"
    using run_calls_reachable [OF sample_reachable b(1)] by simp
  from remove_takes_subtree [OF this b'] show ?thesis using b b' by auto
qed

text \<open>Declaring a directory adds exactly one name, for a fresh slot that has no names in it.\<close>

theorem mkdir_adds_name:
  assumes "builder_reachable strict opts b" "fb_mkdir dir name m b = (Inr h, b')"
  shows "h = length (fb_nodes b) \<and> lookup b dir name = None \<and>
    lookup b' = (lookup b)(dir := (lookup b dir)(name \<mapsto> h), h := Map.empty)"
  using mkdir_lookup [OF reachable_inv [OF assms(1)] assms(2)] .

theorem mkdir_adds_name_witness:
  "\<exists>h b'. fb_mkdir 0 [97] sample_meta sample_builder = (Inr h, b') \<and>
    h = length (fb_nodes sample_builder) \<and>
    lookup b' = (lookup sample_builder)(0 := (lookup sample_builder 0)([97] \<mapsto> h), h := Map.empty)"
proof -
  obtain h b' where h: "fb_mkdir 0 [97] sample_meta sample_builder = (Inr h, b')"
    by (simp add: sample_builder_def call_eval)
  from mkdir_adds_name [OF sample_reachable [of False] h] show ?thesis using h by blast
qed

text \<open>C18: Linking a file again after removing its last name takes its size off the declared bytes twice: in any
  state a client can reach, when it removes the only name of a file, gives the file a new name and removes that
  one, the last removal panics exactly when the declared bytes of all files were less than twice the file's size
  (so always when the file holds most of them, and never when it is empty); otherwise it succeeds and leaves the
  total short by that size.\<close>

theorem relink_then_remove_panics:
  assumes "builder_reachable strict opts b" "lookup b d nm = Some t" "\<not> is_dir (fb_nodes b ! t)" "n_nlink (fb_nodes b ! t) = 1"
    and "fb_remove d nm b = (Inr (), b1)" "fb_hardlink d' nm' t b1 = (Inr (), b2)"
    and "sz = kind_size (n_kind (fb_nodes b ! t))"
  shows "if fb_declared_bytes b < 2 * sz then fst (fb_remove d' nm' b2) = Inl Panic
    else \<exists>b3. fb_remove d' nm' b2 = (Inr (), b3) \<and> fb_declared_bytes b3 = fb_declared_bytes b - 2 * sz"
proof -
  note inv = reachable_inv [OF assms(1)]
  have gone: "n_kind (fb_nodes b1 ! t) = n_kind (fb_nodes b ! t)" "n_nlink (fb_nodes b1 ! t) = 0"
    "fb_declared_bytes b1 = fb_declared_bytes b - sz" "sz \<le> fb_declared_bytes b"
    using remove_file [OF inv assms(2-4)] assms(5,7) by (auto split: if_splits)
  have inv1: "builder_inv strict b1" using fb_remove_inv [OF inv, of d nm] assms(5) by auto
  note relinked = hardlink_relinks [OF inv1 assms(6)]
  have inv2: "builder_inv False b2"
    using hardlink_inv [OF inv1, of d' nm' t] assms(6) by (auto dest: builder_inv_weaken)
  have "\<not> is_dir (fb_nodes b2 ! t)" "n_nlink (fb_nodes b2 ! t) = 1"
    using relinked gone by (simp_all add: is_dir_def)
  moreover have "fb_declared_bytes b - sz < sz \<longleftrightarrow> fb_declared_bytes b < 2 * sz" using gone(4) by linarith
  moreover have "kind_size (n_kind (fb_nodes b2 ! t)) = sz" "fb_declared_bytes b2 = fb_declared_bytes b - sz"
    "lookup b2 d' nm' = Some t"
    using relinked gone assms(7) by simp_all
  moreover have "fb_declared_bytes b - sz - sz = fb_declared_bytes b - 2 * sz" by simp
  ultimately show ?thesis using remove_file [OF inv2, of d' nm' t] by (auto split: if_splits)
qed

theorem relink_then_remove_panics_witness:
  "\<exists>b b1 b2. run_call (CFile 0 [97] sample_meta 10) sample_builder = (Inr (), b) \<and> fb_remove 0 [97] b = (Inr (), b1) \<and>
    fb_hardlink 0 [98] 1 b1 = (Inr (), b2) \<and> fst (fb_remove 0 [98] b2) = Inl Panic"
proof -
  define b where "b = snd (run_call (CFile 0 [97] sample_meta 10) sample_builder)"
  define b1 where "b1 = snd (fb_remove 0 [97] b)"
  define b2 where "b2 = snd (fb_hardlink 0 [98] 1 b1)"
  have run: "run_call (CFile 0 [97] sample_meta 10) sample_builder = (Inr (), b)" "fb_remove 0 [97] b = (Inr (), b1)"
    "fb_hardlink 0 [98] 1 b1 = (Inr (), b2)"
    by (simp_all add: b2_def b1_def b_def sample_builder_def call_eval LINK_MAX_def)
  have named: "lookup b 0 [97] = Some 1" "\<not> is_dir (fb_nodes b ! 1)" "n_nlink (fb_nodes b ! 1) = 1"
    "kind_size (n_kind (fb_nodes b ! 1)) = 10" "fb_declared_bytes b = 10"
    by (simp_all add: b_def sample_builder_def call_eval lookup_def)
  have "builder_reachable True sample_options b"
    by (rule builder_reachable.step [OF sample_reachable _ run(1)]) simp_all
  from relink_then_remove_panics [OF this named(1-3) run(2,3) refl] show ?thesis using run named by auto
qed

section \<open>Writing the image\<close>

text \<open>C19: Over a layout whose segments and data runs occupy disjoint parts of the device, a client that
  fills every file that has data, in any order, emits every byte of the image exactly once: the
  checking sink accepts the run, the summary gives the image length and the sum of the declared sizes,
  and the device holds the rendered metadata, the contents of the files in their runs, and zero
  everywhere else.\<close>

theorem writer_exactly_once:
  assumes "layout_ok lay" "files_ok lay" "fills_ok lay {} fills"
  shows "\<exists>cs buf. build_image (checking_data vec_data) (checking_zeros vec_zeros) lay fills (checking_new []) =
      Inr (\<lparr>sum_image_len = image_len lay, sum_data_bytes = sum (file_size lay) (fillable lay)\<rparr>, cs) \<and>
    checking_finish cs (image_len lay) = Inr buf \<and>
    (\<forall>i<image_len lay. buf_store buf i = device_byte lay fills i)"
  using assms by (rule checked_build)

definition sample_layout :: layout where
  "sample_layout =
    \<lparr>lay_opts = Options_new (4 * 4096) (zeros_buf 16) 0,
     lay_geo = \<lparr>geo_blocks = 4, geo_groups = 1, geo_inodes_per_group = 16, geo_gdt_blocks = 1,
                geo_journal_blocks = 0, geo_groups_per_flex = 16\<rparr>,
     lay_slot_ino = [2, 12], lay_file_runs = [([], 0), ([\<lparr>run_start = 3, run_len = 1\<rparr>], 5)],
     lay_segments = [\<lparr>seg_block = 0, seg_blocks = 1, seg_src = SegBytes (replicate 4096 1)\<rparr>,
                     \<lparr>seg_block = 1, seg_blocks = 1, seg_src = SegItable 0\<rparr>],
     lay_data_runs = [\<lparr>run_start = 3, run_len = 1\<rparr>],
     lay_inodes = [replicate 256 7], lay_max_ino = 1\<rparr>"

lemma sample_files:
  "length (lay_file_runs sample_layout) = 2" "image_len sample_layout = 16384"
  "file_runs_of sample_layout 0 = []" "file_runs_of sample_layout (Suc 0) = [\<lparr>run_start = 3, run_len = 1\<rparr>]"
  "file_size sample_layout 0 = 0" "file_size sample_layout (Suc 0) = 5"
  "lay_slot_ino sample_layout = [2, 12]" "lay_data_runs sample_layout = [\<lparr>run_start = 3, run_len = 1\<rparr>]"
  by (simp_all add: sample_layout_def file_runs_of_def file_size_def image_len_def Options_new_def)

lemma sample_layout_ok:
  "layout_ok sample_layout" "files_ok sample_layout" "fillable sample_layout = {1}"
proof -
  show "layout_ok sample_layout"
    by (simp add: layout_ok_def total_blocks_def sample_files inodes_ok_def runs_ok_def)
      (simp add: sample_layout_def seg_ok_def)
  have two: "(\<forall>f<2. P f) \<longleftrightarrow> P 0 \<and> P (Suc 0)" "(\<exists>f<2. P f) \<longleftrightarrow> P 0 \<or> P (Suc 0)" for P
    by (auto simp: numeral_2_eq_2 less_Suc_eq)
  show "files_ok sample_layout"
    by (simp add: files_ok_def sample_files two file_runs_ok_def runs_ok_def)
  show "fillable sample_layout = {1}"
  proof (rule set_eqI)
    fix f
    have "f = 0 \<or> f = Suc 0 \<or> \<not> f < 2" by linarith
    then show "f \<in> fillable sample_layout \<longleftrightarrow> f \<in> {1}" by (auto simp: fillable_def sample_files)
  qed
qed

theorem writer_exactly_once_witness:
  "\<exists>cs buf. build_image (checking_data vec_data) (checking_zeros vec_zeros) sample_layout [(1, [1, 2, 3, 4, 5])]
      (checking_new []) = Inr (\<lparr>sum_image_len = 16384, sum_data_bytes = 5\<rparr>, cs) \<and>
    checking_finish cs 16384 = Inr buf \<and> buf_store buf 12290 = 3"
proof -
  have "fills_ok sample_layout {} [(1, [1, 2, 3, 4, 5])]" by (simp add: fills_ok_def sample_layout_ok sample_files)
  moreover have "device_byte sample_layout [(1, [1, 2, 3, 4, 5])] 12290 = 3"
    by (simp add: device_byte_def file_runs_of_def file_size_def sample_layout_def in_run_def filled_byte_def)
  ultimately show ?thesis
    using writer_exactly_once [OF sample_layout_ok(1,2), of "[(1, [1, 2, 3, 4, 5])]"]
    by (fastforce simp: sample_layout_ok sample_files)
qed

text \<open>C20: What fills leave behind, whatever a client has filled before, with whatever readers and sink. A fill of
  a file that is pending either succeeds, and the file is done, or fails with an error and poisons the writer: from
  then on every fill and finishing are refused, and change nothing (a sink that panics ends the run). A fill of
  anything else (a file already filled, or a handle with nothing to fill) is refused with an error that leaves the
  writer as it was and spoils nothing. And on a writer that is not poisoned finishing succeeds exactly when no file is
  pending, with a summary of the image's length and all declared bytes.\<close>

theorem writer_finish_exact:
  assumes "writer_reachable data zeros lay w" "iw_fill data zeros f rd w = (r, w')"
  shows "if iw_poisoned w then r = Inl poisoned \<and> w' = w \<and> iw_finish w = Inl poisoned
    else (if Pending \<in> set (iw_fill_state w) then iw_finish w = Inl (invalid ''declared file(s) never filled'')
        else iw_finish w = Inr \<lparr>sum_image_len = image_len lay, sum_data_bytes = sum (file_size lay) (fillable lay)\<rparr>) \<and>
      (if f < length (iw_fill_state w) \<and> iw_fill_state w ! f = Pending
        then r = Inr () \<and> \<not> iw_poisoned w' \<and> iw_fill_state w' = (iw_fill_state w)[f := Done] \<or> r = Inl Panic \<or>
          (\<exists>e. r = Inl (Err e) \<and> iw_finish w' = Inl poisoned \<and> (\<forall>f' rd'. iw_fill data zeros f' rd' w' = (Inl poisoned, w')))
        else (\<exists>e. r = Inl (Err e)) \<and> w' = w)"
proof (cases "iw_poisoned w")
  case False
  then obtain filled where at: "writer_at lay filled w" using writer_reachable_at [OF assms(1)] by blast
  note p = writer_at_pending [OF at]
  have st: "iw_fill_state w' = (iw_fill_state w)[f := Done]" if "r = Inr ()"
    using assms(2) that by (auto simp: iw_fill_def split: if_splits prod.splits sum.splits)
  have err: "r = Inl Panic \<or> (\<exists>e'. r = Inl (Err e'))" if "r = Inl e" for e
    using that by (cases e) simp_all
  show ?thesis
    using iw_fill_outcome [OF at assms(2)] iw_finish_at [OF at] p st err poisoned_stuck [of w']
      writer_at_pending(3) [of lay _ w'] by (auto split: if_splits)
qed (use assms(2) poisoned_stuck [of w data zeros f rd] in auto)

theorem writer_finish_exact_witness:
  "\<exists>w w' e. iw_new vec_data vec_zeros sample_layout [] = Inr w \<and>
    iw_fill vec_data vec_zeros 1 [1, 2] w = (Inl (Err e), w') \<and> iw_finish w' = Inl poisoned"
proof -
  obtain es where "\<And>s. emit_metadata vec_data vec_zeros sample_layout s = emit_all vec_data vec_zeros es s"
    using emit_metadata_spec [OF sample_layout_ok(1), of vec_data vec_zeros] by blast
  then obtain w where w: "iw_new vec_data vec_zeros sample_layout [] = Inr w" "\<not> iw_poisoned w"
    using vec_never_fails [of es "[]"] by (auto simp: iw_new_def Let_def)
  have pending: "1 < length (iw_fill_state w) \<and> iw_fill_state w ! 1 = Pending"
    using writer_at_pending(1) [OF writer_at_new [OF w(1)]] by (simp add: sample_layout_ok)
  have "iw_layout w = sample_layout" using writer_at_new [OF w(1)] by (simp add: writer_at_def)
  then obtain w' e where short: "iw_fill vec_data vec_zeros 1 [1, 2] w = (Inl (Err e), w')"
    using pending w(2) by (simp add: iw_fill_def sample_layout_def fill_chunks.simps call_defs read_exact_def SCRATCH_def)
  from writer_finish_exact [OF writer_reachable.created [OF w(1)] short] show ?thesis using w short pending by auto
qed

text \<open>C21: A writer over an in-memory sink is never stuck: from every state without a failed fill there
  are fills after which finishing succeeds.\<close>

theorem writer_can_finish:
  assumes "layout_ok lay" "files_ok lay" "writer_reachable vec_data vec_zeros lay w" "\<not> iw_poisoned w"
  shows "\<exists>fills w' sm. fill_all vec_data vec_zeros fills w = (Inr (), w') \<and> iw_finish w' = Inr sm"
proof -
  obtain filled where at: "writer_at lay filled w" using writer_reachable_at [OF assms(3)] assms(4) by blast
  obtain fills where "fills_ok lay filled fills" using fills_exist by blast
  from writer_completes [OF assms(1,2) at this] show ?thesis by blast
qed

theorem writer_can_finish_witness:
  "\<exists>w. iw_new vec_data vec_zeros sample_layout [] = Inr w \<and>
    (\<exists>fills w' sm. fill_all vec_data vec_zeros fills w = (Inr (), w') \<and> iw_finish w' = Inr sm)"
proof -
  obtain es where "\<And>s. emit_metadata vec_data vec_zeros sample_layout s = emit_all vec_data vec_zeros es s"
    using emit_metadata_spec [OF sample_layout_ok(1), of vec_data vec_zeros] by blast
  then obtain w where w: "iw_new vec_data vec_zeros sample_layout [] = Inr w" "\<not> iw_poisoned w"
    using vec_never_fails [of es "[]"] by (auto simp: iw_new_def Let_def)
  from writer_can_finish [OF sample_layout_ok(1,2) writer_reachable.created [OF w(1)] w(2)] w(1) show ?thesis by blast
qed

section \<open>Directories\<close>

text \<open>C22: The blocks of a linear directory, each sealed with its checksum, read back as exactly the
  entries in declaration order, and the verifier finds nothing wrong with them wherever they are.\<close>

theorem linear_directory_roundtrip:
  assumes "\<forall>e\<in>set entries. dentry_ok e"
  shows "\<exists>bs. pack_dirents entries = Inr bs \<and>
    read_dir_blocks False 0 (map (seal_dir_block crc iseed) bs) = Inr (map dir_entry_of_dentry entries) \<and>
    (\<forall>b\<in>set bs. verify_dirent_block crc (seal_dir_block crc iseed b) iseed True = Inr [])"
proof -
  obtain bs ess where b: "pack_dirents entries = Inr bs" "list_all2 block_holds bs ess"
    using pack_dirents_holds [OF assms] by blast
  have "verify_dirent_block crc (seal_dir_block crc iseed b) iseed True = Inr []" if m: "b \<in> set bs" for b
  proof -
    obtain es where "block_holds b es" using b(2) m by (auto simp: list_all2_conv_all_nth in_set_conv_nth)
    from verify_dirent_block_ok [OF block_holds_sealed [OF this]] show ?thesis by (simp add: seal_dir_block_def)
  qed
  then show ?thesis using linear_reads_back [OF assms, of crc iseed] b(1) by auto
qed

definition sample_entries :: "dentry list" where
  "sample_entries = [([0x2E], 2, ft_DIR), ([0x2E, 0x2E], 2, ft_DIR), ([0x61], 12, ft_REG), ([0x62, 0x63], 13, ft_REG)]"

lemma sample_entries_ok: "\<forall>e\<in>set sample_entries. dentry_ok e" "sample_entries \<noteq> []"
  by (simp_all add: sample_entries_def dentry_ok_def)

theorem linear_directory_roundtrip_witness:
  "\<exists>bs. pack_dirents sample_entries = Inr bs \<and>
    read_dir_blocks False 0 (map (seal_dir_block crc32c_append 7) bs) = Inr (map dir_entry_of_dentry sample_entries)"
  using linear_directory_roundtrip [OF sample_entries_ok(1), of crc32c_append 7] by blast

text \<open>C23: Building the index of a nonempty directory succeeds unless it needs more than 507 * 510
  leaves, then it is refused as unsupported; it never panics.\<close>

theorem index_build_outcome:
  assumes "\<forall>e\<in>set entries. dentry_ok e" "entries \<noteq> []" "self_ino \<noteq> 0" "parent_ino \<noteq> 0"
  shows "if length (hash_groups entries (hash_entries seed entries)) \<le> 507 * 510
    then \<exists>blocks. htree_build crc self_ino parent_ino entries seed fseed = Inr blocks
    else \<exists>msg. htree_build crc self_ino parent_ino entries seed fseed = Inl (Err (Unsupported msg))"
  using htree_build_result [OF assms, where seed = seed and crc = crc and fseed = fseed]
  by (cases "length (hash_groups entries (hash_entries seed entries)) \<le> 507") fastforce+

lemma sample_groups: "length (hash_groups sample_entries (hash_entries seed sample_entries)) \<le> 507"
  using hash_groups_length [OF sample_entries_ok, of seed] by (simp add: sample_entries_def)

theorem index_build_outcome_witness:
  "\<exists>blocks. htree_build crc32c_append 14 2 sample_entries [1, 2, 3, 4] 7 = Inr blocks"
  using index_build_outcome [OF sample_entries_ok, where self_ino = 14 and parent_ino = 2 and seed = "[1, 2, 3, 4]" and crc = crc32c_append and fseed = 7]
    sample_groups [of "[1, 2, 3, 4]"] by simp

text \<open>C24: A directory index reads back as the two dot entries followed by a permutation of the
  entries ordered by name hash.\<close>

theorem index_roundtrip:
  assumes "\<forall>e\<in>set entries. dentry_ok e" "entries \<noteq> []" "self_ino \<noteq> 0" "parent_ino \<noteq> 0"
    and "htree_build crc self_ino parent_ino entries seed fseed = Inr blocks"
  shows "\<exists>sorted_es. mset sorted_es = mset entries \<and> sorted (map (name_hash seed) sorted_es) \<and>
    read_dir_blocks True 0 blocks = Inr (map dir_entry_of_dentry
      (([0x2E], self_ino, ft_DIR) # ([0x2E, 0x2E], parent_ino, ft_DIR) # sorted_es))"
  using assms by (rule htree_reads_back)

lemma sample_index: "\<exists>blocks. htree_build crc 14 2 sample_entries seed fseed = Inr blocks"
  using htree_build_result(1) [OF sample_entries_ok _ _ sample_groups, where self_ino = 14 and parent_ino = 2 and crc = crc and fseed = fseed] by auto

theorem index_roundtrip_witness:
  "\<exists>blocks sorted_es. htree_build crc32c_append 14 2 sample_entries [1, 2, 3, 4] 7 = Inr blocks \<and>
    mset sorted_es = mset sample_entries \<and>
    read_dir_blocks True 0 blocks = Inr (map dir_entry_of_dentry
      (([0x2E], 14, ft_DIR) # ([0x2E, 0x2E], 2, ft_DIR) # sorted_es))"
proof -
  obtain blocks where b: "htree_build crc32c_append 14 2 sample_entries [1, 2, 3, 4] 7 = Inr blocks"
    using sample_index by blast
  show ?thesis using index_roundtrip [OF sample_entries_ok _ _ b] b by auto
qed

text \<open>C25: The verifier accepts every index the builder writes, wherever its blocks are mapped: its
  checksums, the nesting of its two levels, and every name's hash against the range of its leaf.\<close>

theorem index_verified:
  assumes "\<forall>e\<in>set entries. dentry_ok e" "entries \<noteq> []" "self_ino \<noteq> 0" "parent_ino \<noteq> 0"
    and "htree_build crc self_ino parent_ino entries seed (fs_csum_seed f) = Inr blocks"
    and "list_all (\<lambda>k. mapped_block f es k (blocks ! k)) [0..<length blocks]"
    and "s_hash_seed (fs_sb f) = seed" "hash_signedness (fs_sb f) = Signed"
  shows "verify_htree crc f es (inode_seed crc (fs_csum_seed f) self_ino 0) has_csum = Inr []"
  using assms(1-5) by (rule verify_htree_built) (use assms(6-8) in \<open>auto simp: list_all_iff\<close>)

definition sample_sb :: superblock where
  "sample_sb = (superblock_low (zeros_buf 1024))\<lparr>s_log_block_size := 2, s_blocks_per_group := 32768,
     s_inodes_per_group := 16, s_inode_size := 256, s_blocks_count := 2048, s_inodes_count := 16,
     s_hash_seed := [1, 2, 3, 4]\<rparr>"

text \<open>A source that gives a superblock and then a list of blocks.\<close>

definition blocks_source :: "bytes list \<Rightarrow> source" where
  "blocks_source blocks off n =
    (if off = 1024 \<and> n = 1024 then Inr (superblock_bytes sample_sb)
     else if off div 4096 < length blocks \<and> n = 4096 then Inr (peek (blocks ! (off div 4096) @ zeros_buf n) 0 n)
     else Inr (zeros_buf n))"

definition sample_fs :: "bytes list \<Rightarrow> fs" where
  "sample_fs blocks = \<lparr>fs_src = blocks_source blocks, fs_sb = sample_sb, fs_gdt = zeros_buf 32,
     fs_block_size = 4096, fs_csum_seed = fs_seed crc32c_append (zeros_buf 16)\<rparr>"

definition sample_extents :: "nat \<Rightarrow> file_extent list" where
  "sample_extents n = [\<lparr>fx_logical = 0, fx_physical = 0, fx_len = n, fx_unwritten = False\<rparr>]"

lemma sample_mapped:
  assumes "\<forall>b\<in>set blocks. length b = 4096" "length blocks < 2 ^ 40"
  shows "list_all (\<lambda>k. mapped_block (sample_fs blocks) (sample_extents (length blocks)) k (blocks ! k)) [0..<length blocks]"
  using assms
  by (auto simp: list_all_iff mapped_block_def sample_fs_def sample_extents_def file_block_def read_block_def
      mul64_def read_at_def blocks_source_def peek_append_left)

theorem index_verified_witness:
  "\<exists>blocks. htree_build crc32c_append 14 2 sample_entries [1, 2, 3, 4] (fs_seed crc32c_append (zeros_buf 16)) = Inr blocks \<and>
    verify_htree crc32c_append (sample_fs blocks) (sample_extents (length blocks))
      (inode_seed crc32c_append (fs_seed crc32c_append (zeros_buf 16)) 14 0) True = Inr []"
proof -
  let ?fseed = "fs_seed crc32c_append (zeros_buf 16)" and ?is = "inode_seed crc32c_append (fs_seed crc32c_append (zeros_buf 16)) 14 0"
  obtain root leaves where b: "htree_build crc32c_append 14 2 sample_entries [1, 2, 3, 4] ?fseed = Inr (root # leaves)"
    "length root = 4096" "list_all2 (dir_block_ok crc32c_append ?is) leaves (map (map (entry_of_hash sample_entries))
      (hash_groups sample_entries (hash_entries [1, 2, 3, 4] sample_entries)))"
    using htree_build_result(1) [OF sample_entries_ok _ _ sample_groups, where self_ino = 14 and parent_ino = 2 and seed = "[1, 2, 3, 4]" and crc = crc32c_append and fseed = ?fseed]
    by (auto simp: index_root_ok_def)
  have "\<forall>b\<in>set leaves. length b = 4096"
    using b(3) by (auto simp: list_all2_conv_all_nth in_set_conv_nth dir_block_ok_def)
  moreover have "length leaves \<le> 507" using list_all2_lengthD [OF b(3)] sample_groups by simp
  ultimately have m: "list_all (\<lambda>k. mapped_block (sample_fs (root # leaves)) (sample_extents (length (root # leaves))) k
      ((root # leaves) ! k)) [0..<length (root # leaves)]"
    using b(2) by (intro sample_mapped) auto
  have "verify_htree crc32c_append (sample_fs (root # leaves)) (sample_extents (length (root # leaves)))
      (inode_seed crc32c_append (fs_csum_seed (sample_fs (root # leaves))) 14 0) True = Inr []"
    by (rule index_verified [OF sample_entries_ok _ _ _ m]) (use b(1) in \<open>simp_all add: sample_fs_def sample_sb_def
        hash_signedness_def superblock_low_def buf_simps\<close>)
  then show ?thesis using b(1) by (auto simp: sample_fs_def)
qed

section \<open>Extended attributes\<close>

text \<open>C26: What the xattr plan puts in the inode and in the block, the reader's parsers give back:
  together the attributes in canonical order, with entry hashes in the block and zero hashes in the
  inode, and a block that carries its header hash and checksum.\<close>

theorem xattr_plan_roundtrip:
  assumes "\<forall>a\<in>set attrs. length (fst (snd a)) < 256" "xattr_plan_of attrs = Inr p" "length pre = 0xA0"
  shows "\<exists>inl blk view. inl @ xp_block_attrs p = sort_key attr_key attrs \<and>
    (inl \<noteq> [] \<longrightarrow> ibody_entries (pre @ xp_ibody p) 32 = Inr (map (entry_of False) inl)) \<and>
    xattr_render_block crc (xp_block_attrs p) fseed nr = Inr blk \<and> xattr_block_parse blk = Inr view \<and>
    xb_entries view = map (entry_of True) (xp_block_attrs p) \<and>
    xb_hash view = xattr_block_hash (map xa_hash (xb_entries view)) \<and>
    xb_checksum view = xattr_block_sum crc fseed nr blk"
proof -
  note ok = xattr_plan_ok [OF assms(1,2)]
  let ?s = "sort_key attr_key attrs"
  let ?n = "xattr_split 92 0 0 ?s"
  have names: "\<forall>a\<in>set (xp_block_attrs p). length (fst (snd a)) < 256"
  proof
    fix a assume "a \<in> set (xp_block_attrs p)"
    then have "a \<in> set ?s" unfolding ok(1) by (rule in_set_dropD)
    then show "length (fst (snd a)) < 256" using assms(1) by simp
  qed
  obtain blk view where "xattr_render_block crc (xp_block_attrs p) fseed nr = Inr blk"
    "xattr_block_parse blk = Inr view" "xb_entries view = map (entry_of True) (xp_block_attrs p)"
    "xb_hash view = xattr_block_hash (map xa_hash (xb_entries view))"
    "xb_checksum view = xattr_block_sum crc fseed nr blk"
    using render_block_parse [OF names ok(2)] by metis
  then show ?thesis
    using ok(1,5) assms(3) by (intro exI [of _ "take ?n ?s"] exI [of _ blk] exI [of _ view]) simp
qed

definition sample_attrs :: "attr list" where
  "sample_attrs = [(6, [98], [1, 2, 3]), (1, [97], [])]"

theorem xattr_plan_roundtrip_witness:
  "\<exists>p inl. xattr_plan_of sample_attrs = Inr p \<and> inl @ xp_block_attrs p = sort_key attr_key sample_attrs"
proof -
  obtain p where p: "xattr_plan_of sample_attrs = Inr p"
    by (auto simp: xattr_plan_of_def sample_attrs_def attr_key_def attr_fits_block_def entry_bytes_def
        value_bytes_def round4_def xattr_total_def render_entries_def render_entry_def Let_def)
  have "\<forall>a\<in>set sample_attrs. length (fst (snd a)) < 256" by (simp add: sample_attrs_def)
  from xattr_plan_roundtrip [OF this p length_replicate] show ?thesis using p by blast
qed

text \<open>The order in which attributes were set does not change the plan.\<close>

theorem xattr_order_irrelevant:
  assumes "mset attrs' = mset attrs" "inj_on attr_key (set attrs)"
  shows "xattr_plan_of attrs' = xattr_plan_of attrs"
  using assms by (rule xattr_plan_order)

theorem xattr_order_irrelevant_witness:
  "xattr_plan_of (rev sample_attrs) = xattr_plan_of sample_attrs"
  by (rule xattr_order_irrelevant) (auto simp: sample_attrs_def attr_key_def)

section \<open>Reading untrusted images\<close>

text \<open>C27: Reading is safe on images from anywhere: once an image has opened, and whatever it holds, none of these
  calls panics: reading an inode, raw or decoded, the extents of any inode, any range of a file over extents that the
  reader has returned, a whole file, a symlink target, a directory, a name in it, a path, attributes, a block whose
  number is below 2^52, a group descriptor, raw or decoded, whose number is below 2^32, and whether an inode other
  than 0 is in use (asked for inode 0, the reader does panic). The image must be addressable: it has fewer than 2^52
  blocks, and its descriptors name bitmaps below block 2^52 and inode tables below block 2^51, which is so for every
  32-byte descriptor; to read a whole file, into one vector, it must have fewer than 2^51 blocks. Running out of memory
  is not considered.\<close>

theorem reader_never_panics:
  assumes "source_ok src" "Fs_open crc src = Inr f" "addressable f"
  shows "no_panic (inode_raw f ino) \<and> no_panic (read_inode crc f ino) \<and> no_panic (fs_extents crc f ino inode) \<and>
    (fs_extents crc f ino inode = Inr es \<longrightarrow> no_panic (read_file_at f inode' es offset len)) \<and>
    (unat (s_blocks_count (fs_sb f)) < 2 ^ 51 \<longrightarrow> no_panic (read_file crc f ino)) \<and>
    no_panic (symlink_target crc f ino) \<and> no_panic (read_dir crc f ino) \<and>
    no_panic (fs_lookup crc f ino name) \<and> no_panic (fs_resolve crc f path) \<and> no_panic (fs_xattrs f ino) \<and>
    (block < 2 ^ 52 \<longrightarrow> no_panic (read_block f block)) \<and>
    (g < 2 ^ 32 \<longrightarrow> no_panic (read_group_desc_raw f g) \<and> no_panic (read_group_desc f g)) \<and>
    (ino \<noteq> 0 \<longrightarrow> no_panic (inode_in_use f ino)) \<and> inode_in_use f 0 = Inl Panic"
proof -
  note f = Fs_open_wf [OF assms(1,2)] assms(3)
  have "inode_in_use f 0 = Inl Panic" by (simp add: inode_in_use_def)
  moreover have "no_panic (read_file_at f inode' es offset len)" if "fs_extents crc f ino inode = Inr es"
    using no_panic_read_file_at [OF f(1) fs_extents_safe(2) [OF f(1) that]] .
  ultimately show ?thesis
    using no_panic_inode_raw [OF f] no_panic_read_inode [OF f] fs_extents_safe(1) [OF f(1)] no_panic_read_file [OF f]
      no_panic_read_dir [OF f] no_panic_resolve [OF f] no_panic_xattrs [OF f] no_panic_in_use [OF f]
      no_panic_read_block [OF f(1)] no_panic_group_desc [OF f(1)] by simp
qed

lemma sample_source_ok: "source_ok (blocks_source blocks)"
  by (auto simp: source_ok_def blocks_source_def split: if_splits)

lemma sample_open: "Fs_open crc32c_append (blocks_source []) = Inr (sample_fs [])"
proof -
  have wf: "superblock_wf sample_sb" by (simp add: sample_sb_def superblock_wf_def superblock_low_def buf_simps)
  have f: "s_feature_incompat sample_sb = 0" "s_feature_ro_compat sample_sb = 0" "s_log_block_size sample_sb = 2"
    "s_blocks_per_group sample_sb = 32768" "s_inodes_per_group sample_sb = 16" "s_inode_size sample_sb = 256"
    "s_blocks_count sample_sb = 2048" "s_inodes_count sample_sb = 16" "s_first_data_block sample_sb = 0"
    "s_desc_size sample_sb = 0" "s_uuid sample_sb = zeros_buf 16"
    by (simp_all add: sample_sb_def superblock_low_def buf_simps)
  have gc: "superblock_group_count sample_sb = Inr 1"
    by (simp add: superblock_group_count_def f u64_div_ceil_def)
  show ?thesis
    using superblock_decode_bytes [OF wf, of "[]"]
    by (simp add: Fs_open_def read_at_def blocks_source_def check_geometry_def gc mul64_def guardE_def
        superblock_block_size_def superblock_desc_size_def f has_metadata_csum_def open_seed_def sample_fs_def)
qed

lemma sample_addressable: "addressable (sample_fs blocks)"
  by (rule short_desc_addressable) (simp_all add: sample_fs_def sample_sb_def superblock_low_def buf_simps)

theorem reader_never_panics_witness:
  "no_panic (fs_resolve crc32c_append (sample_fs []) [0x2F, 0x61]) \<and> no_panic (read_file crc32c_append (sample_fs []) 2) \<and>
   no_panic (read_block (sample_fs []) 7) \<and> no_panic (inode_in_use (sample_fs []) 2)"
proof -
  have "unat (s_blocks_count (fs_sb (sample_fs []))) < 2 ^ 51" by (simp add: sample_fs_def sample_sb_def superblock_low_def buf_simps)
  then show ?thesis
    using reader_never_panics [OF sample_source_ok sample_open sample_addressable, where ino = 2 and block = 7] by simp
qed

text \<open>C28: The verifier never panics on such a filesystem either, when its inode numbers fit in 32 bits.\<close>

theorem verifier_never_panics:
  assumes "source_ok src" "Fs_open crc src = Inr f" "addressable f"
    and "superblock_group_count (fs_sb f) = Inr groups" "unat groups * unat (s_inodes_per_group (fs_sb f)) < 2 ^ 32"
  shows "no_panic (verify crc f)"
  by (rule no_panic_verify [OF Fs_open_wf [OF assms(1,2)] assms(3)]) (use assms(4,5) in simp)

theorem verifier_never_panics_witness: "no_panic (verify crc32c_append (sample_fs []))"
proof (rule verifier_never_panics [OF sample_source_ok sample_open sample_addressable])
  have f: "s_blocks_per_group sample_sb = 32768" "s_blocks_count sample_sb = 2048" "s_first_data_block sample_sb = 0"
    "s_inodes_per_group sample_sb = 16"
    by (simp_all add: sample_sb_def superblock_low_def buf_simps)
  show "superblock_group_count (fs_sb (sample_fs [])) = Inr 1"
    by (simp add: sample_fs_def superblock_group_count_def f u64_div_ceil_def)
  show "unat (1 :: u64) * unat (s_inodes_per_group (fs_sb (sample_fs []))) < 2 ^ 32" by (simp add: sample_fs_def f)
qed

text \<open>C29: A forged extent tree cannot make the walk explode: it returns at most 4 * 340^5 extents, each
  of 1 to 32768 blocks with a 48-bit address.\<close>

theorem extent_walk_bounded:
  assumes "source_ok src" "Fs_open crc src = Inr f" "length (i_block inode) = 60" "fs_extents crc f ino inode = Inr es"
  shows "length es \<le> 4 * 340 ^ 5 \<and> list_all extent_ok es"
  using fs_extents_bound [OF Fs_open_wf [OF assms(1,2)] assms(4,3)]
    fs_extents_safe(2) [OF Fs_open_wf [OF assms(1,2)] assms(4)]
  by (simp add: list_all_iff)

theorem extent_walk_bounded_witness:
  "\<exists>es. fs_extents crc32c_append (sample_fs []) 12 inode_default = Inr es \<and> length es \<le> 4 * 340 ^ 5"
proof -
  have e: "fs_extents crc32c_append (sample_fs []) 12 inode_default = Inr []"
    by (simp add: fs_extents_def extent_root_def inode_uses_extents_def inode_default_def)
  have "length (i_block inode_default) = 60" by (simp add: inode_default_def)
  from extent_walk_bounded [OF sample_source_ok sample_open this e] show ?thesis using e by blast
qed

text \<open>C30: A superblock whose first data block lies past its block count makes opening the image panic
  (an unsigned subtraction below zero) instead of being reported as corrupt.\<close>

theorem open_panics_on_first_data_block:
  assumes "read_at src 1024 1024 = Inr b" "superblock_decode b = Inr sb"
    and "s_feature_incompat sb AND NOT incompat_READER = 0" "s_log_block_size sb = 2"
    and "s_blocks_per_group sb = 32768" "0 < s_inodes_per_group sb" "s_inodes_per_group sb \<le> 32768"
    and "s_inode_size sb = 256" "0 < s_blocks_count sb" "s_blocks_count sb < ucast (s_first_data_block sb)"
  shows "Fs_open crc src = Inl Panic"
proof -
  have "unat (s_inodes_per_group sb) \<le> 32768" using assms(7) by (simp add: word_le_nat_alt)
  moreover have "s_blocks_count sb \<noteq> 0" "s_inodes_per_group sb \<noteq> 0"
    using assms(6,9) by (metis word_not_simps(1))+
  ultimately show ?thesis
    using assms
    by (simp add: Fs_open_def superblock_block_size_def check_geometry_def superblock_group_count_def guardE_def)
qed

theorem open_panics_on_first_data_block_witness:
  "Fs_open crc32c_append (\<lambda>off n. Inr (superblock_bytes (sample_sb\<lparr>s_first_data_block := 5000\<rparr>))) = Inl Panic"
proof -
  let ?sb = "sample_sb\<lparr>s_first_data_block := 5000\<rparr>"
  have "superblock_wf ?sb" by (simp add: sample_sb_def superblock_wf_def superblock_low_def buf_simps)
  then have d: "superblock_decode (superblock_bytes ?sb) = Inr ?sb"
    using superblock_decode_bytes [of ?sb "[]"] by simp
  show ?thesis
    by (rule open_panics_on_first_data_block [OF _ d])
      (simp_all add: read_at_def sample_sb_def superblock_low_def buf_simps)
qed

text \<open>C31: Reading a range of a file gives the bytes of the abstract file its extents describe: the image
  byte where a written extent maps the position, zero in holes and unwritten extents, short only at the end of the
  file. This is for an image that opened, over a source that serves its first n bytes (n at most 2^63), and for
  extents in ascending order that do not overlap and whose blocks lie inside those n bytes; for extents outside them
  the reader returns the error of the source instead.\<close>

theorem file_content:
  assumes "source_ok src" "Fs_open crc src = Inr f" "source_serves (fs_src f) img n" "n \<le> 2 ^ 63"
    and "extents_sorted es" "extents_inside n es"
  shows "read_file_at f inode es offset len =
    Inr (map (file_byte img es) [offset..<min (unat (i_size inode)) (offset + len)])"
  using Fs_open_wf [OF assms(1,2)] assms(3-6) by (rule read_file_at_content)

definition sample_image :: bytes where
  "sample_image = zeros_buf 1024 @ superblock_bytes sample_sb @ replicate 14336 7"

lemma sample_image_open: "Fs_open crc32c_append (slice_source sample_image) =
    Inr ((sample_fs [])\<lparr>fs_src := slice_source sample_image, fs_gdt := replicate 32 7\<rparr>)"
proof -
  have wf: "superblock_wf sample_sb" by (simp add: sample_sb_def superblock_wf_def superblock_low_def buf_simps)
  have f: "s_feature_incompat sample_sb = 0" "s_feature_ro_compat sample_sb = 0" "s_log_block_size sample_sb = 2"
    "s_blocks_per_group sample_sb = 32768" "s_inodes_per_group sample_sb = 16" "s_inode_size sample_sb = 256"
    "s_blocks_count sample_sb = 2048" "s_inodes_count sample_sb = 16" "s_first_data_block sample_sb = 0"
    "s_desc_size sample_sb = 0" "s_uuid sample_sb = zeros_buf 16"
    by (simp_all add: sample_sb_def superblock_low_def buf_simps)
  have gc: "superblock_group_count sample_sb = Inr 1"
    by (simp add: superblock_group_count_def f u64_div_ceil_def)
  have "peek sample_image 1024 1024 = superblock_bytes sample_sb" "peek sample_image 4096 32 = replicate 32 7"
    by (simp_all add: sample_image_def peek_append_left peek_append_right) (simp add: peek_def)
  moreover have "length sample_image = 16384" by (simp add: sample_image_def)
  ultimately show ?thesis
    using superblock_decode_bytes [OF wf, of "[]"]
    by (simp add: Fs_open_def read_at_def slice_source_def check_geometry_def gc mul64_def guardE_def
        superblock_block_size_def superblock_desc_size_def f has_metadata_csum_def open_seed_def sample_fs_def)
qed

theorem file_content_witness:
  "read_file_at ((sample_fs [])\<lparr>fs_src := slice_source sample_image, fs_gdt := replicate 32 7\<rparr>)
      (inode_default\<lparr>i_size := 6000\<rparr>) [\<lparr>fx_logical = 1, fx_physical = 2, fx_len = 1, fx_unwritten = False\<rparr>] 4000 3000 =
    Inr (map (file_byte ((!) sample_image) [\<lparr>fx_logical = 1, fx_physical = 2, fx_len = 1, fx_unwritten = False\<rparr>])
      [4000..<6000])"
proof -
  have len: "length sample_image = 16384" by (simp add: sample_image_def)
  have s: "source_serves (slice_source sample_image) ((!) sample_image) 16384"
    using slice_serves [of sample_image] by (simp add: len)
  from file_content [OF slice_source_ok sample_image_open, of "(!) sample_image" 16384
      "[\<lparr>fx_logical = 1, fx_physical = 2, fx_len = 1, fx_unwritten = False\<rparr>]" "inode_default\<lparr>i_size := 6000\<rparr>" 4000 3000]
  show ?thesis using s by (simp add: extents_sorted_def extents_inside_def)
qed

text \<open>A rendered attribute block whose attributes are in canonical order passes the verifier:
  checksum, order, entry hashes and block hash.\<close>

theorem xattr_block_verified:
  assumes "\<forall>a\<in>set attrs. length (fst (snd a)) < 256" "32 + 4 + xattr_total attrs \<le> BLOCK_SIZE"
    and "sorted (map attr_key attrs)"
  shows "\<exists>blk view. xattr_render_block crc attrs fseed nr = Inr blk \<and> xattr_block_parse blk = Inr view \<and>
    verify_xattr_view crc fseed nr blk has_csum view = Inr []"
  using assms by (rule verify_xattr_built)

theorem xattr_block_verified_witness:
  "\<exists>blk view. xattr_render_block crc32c_append (rev sample_attrs) 3 100 = Inr blk \<and> xattr_block_parse blk = Inr view \<and>
    verify_xattr_view crc32c_append 3 100 blk True view = Inr []"
  by (rule xattr_block_verified)
    (simp_all add: sample_attrs_def xattr_total_def entry_bytes_def value_bytes_def round4_def attr_key_def)

section \<open>Layout\<close>

text \<open>C32: The allocator hands out exactly the front of the list of unreserved blocks, in runs of
  at most \<open>max_run\<close> blocks none of which is empty; it reports exhaustion exactly when too few
  blocks are left; and it always returns.\<close>

theorem allocator_takes_free_prefix:
  assumes "alloc_wf a" "0 < m"
  shows "if n \<le> length (alloc_free a)
    then \<exists>runs a'. alloc_take a n m = Some (Some runs, a') \<and> expand_runs runs = take n (alloc_free a) \<and>
      alloc_free a' = drop n (alloc_free a) \<and> alloc_wf a' \<and> (\<forall>r\<in>set runs. 0 < run_len r \<and> run_len r \<le> m)
    else \<exists>a'. alloc_take a n m = Some (None, a')"
  using al.take_some [OF assms, of n] al.take_none [OF assms, of n] by simp

definition sample_allocator :: allocator where
  "sample_allocator = \<lparr>al_cursor = 10, al_end = 100,
     al_reserved = [\<lparr>run_start = 20, run_len = 5\<rparr>, \<lparr>run_start = 40, run_len = 2\<rparr>], al_next = 0\<rparr>"

theorem allocator_takes_free_prefix_witness:
  "if 20 \<le> length (alloc_free sample_allocator)
    then \<exists>runs a'. alloc_take sample_allocator 20 7 = Some (Some runs, a') \<and>
      expand_runs runs = take 20 (alloc_free sample_allocator) \<and>
      alloc_free a' = drop 20 (alloc_free sample_allocator) \<and> alloc_wf a' \<and>
      (\<forall>r\<in>set runs. 0 < run_len r \<and> run_len r \<le> 7)
    else \<exists>a'. alloc_take sample_allocator 20 7 = Some (None, a')"
  by (rule allocator_takes_free_prefix) (simp_all add: sample_allocator_def alloc_wf_def)

text \<open>C33: A geometry the code accepts has 2048 to 2^32 - 2 blocks, tiles them with its groups, has
  a whole number of inode-table blocks per group, a descriptor table just large enough and a
  journal of at most a quarter of the device.\<close>

theorem geometry_sound:
  assumes "Geometry_new sz inos journal = Inr geo"
  shows "geometry_wf geo \<and> (\<Sum>g<geo_groups geo. group_blocks geo g) = geo_blocks geo \<and>
    itable_blocks geo * INODES_PER_BLOCK = geo_inodes_per_group geo \<and>
    geo_groups geo \<le> 131072 \<and> geo_gdt_blocks geo \<le> 1024"
  using Geometry_new_wf [OF assms] groups_tile geometry_bounds by auto

theorem geometry_sound_witness:
  "\<exists>geo. Geometry_new (131072 * 4096) None None = Inr geo \<and> geometry_wf geo \<and>
    (\<Sum>g<geo_groups geo. group_blocks geo g) = geo_blocks geo"
proof -
  obtain geo where g: "Geometry_new (131072 * 4096) None None = Inr geo"
    by (simp add: Geometry_new_def Let_def default_journal_blocks_def)
  then show ?thesis using geometry_sound [OF g] by auto
qed

text \<open>C34: The backup groups are exactly the groups past the first whose number is a power of 3, 5
  or 7 (1 included), and the division loop that decides it returns on every positive number.\<close>

theorem backup_groups_exact:
  "set (backup_groups geo) =
     {g. 1 \<le> g \<and> g < geo_groups geo \<and> (\<exists>k. g = 3 ^ k \<or> g = 5 ^ k \<or> g = 7 ^ k)} \<and>
   sorted_wrt (<) (backup_groups geo) \<and>
   is_power_of (Suc n) 3 \<noteq> None \<and> is_power_of (Suc n) 5 \<noteq> None \<and> is_power_of (Suc n) 7 \<noteq> None"
  by (simp add: backup_groups_set backup_groups_sorted is_power_of_returns)

text \<open>C35: The geometry accepts devices on which a backup does not fit, and says exactly which: of the devices it
  accepts, those whose last group is a backup group with fewer blocks than the backup superblock and the descriptors
  need. On every one of them the backup that sealing renders for the last group ends past the last block, and so does
  a segment of every layout that sealing returns for it.\<close>

theorem backup_past_end:
  assumes "Geometry_new sz inos journal = Inr geo"
  defines "l \<equiv> geo_groups geo - 1"
  shows "(backups_fit geo \<longleftrightarrow> \<not> (l \<in> set (backup_groups geo) \<and> group_blocks geo l < 1 + geo_gdt_blocks geo)) \<and>
    (l \<in> set (backup_groups geo) \<and> group_blocks geo l < 1 + geo_gdt_blocks geo \<longrightarrow>
      (\<exists>segs. backup_segs crc geo sb gdt l = Inr segs \<and> (\<exists>s\<in>set segs. geo_blocks geo < seg_block s + seg_blocks s)) \<and>
      (\<forall>b lay. seal crc b = Inr lay \<and> lay_geo lay = geo \<longrightarrow>
        (\<exists>s\<in>set (lay_segments lay). geo_blocks geo < seg_block s + seg_blocks s)))"
proof -
  have wf: "geometry_wf geo" by (rule Geometry_new_wf [OF assms(1)])
  then have "l < geo_groups geo" by (simp add: geometry_wf_def l_def)
  then have past: "geo_blocks geo < group_start l + 1 + geo_gdt_blocks geo" if "group_blocks geo l < 1 + geo_gdt_blocks geo"
    using blocks_in_group_eq [OF wf, of l] that by (simp add: l_def)
  show ?thesis
    using backups_fit_last [OF wf, folded l_def] backup_segs_end [of crc geo sb gdt l] sealed_backups [of crc _ _ l] past
    by metis
qed

theorem backup_past_end_witness:
  "\<exists>geo. Geometry_new (32769 * 4096) None None = Inr geo \<and> geo_blocks geo = 32769 \<and> \<not> backups_fit geo \<and>
    (\<forall>sb gdt. \<exists>segs. backup_segs crc32c_append geo sb gdt 1 = Inr segs \<and> (\<exists>s\<in>set segs. 32769 < seg_block s + seg_blocks s))"
proof -
  let ?geo = "\<lparr>geo_blocks = 32769, geo_groups = 2, geo_inodes_per_group = 4096, geo_gdt_blocks = 1,
     geo_journal_blocks = 4096, geo_groups_per_flex = 16\<rparr>"
  have geo: "Geometry_new (32769 * 4096) None None = Inr ?geo"
    by (simp add: Geometry_new_def Let_def div_ceil_def next_multiple_of_def clamp_def default_journal_blocks_def)
  have last: "geo_groups ?geo - 1 \<in> set (backup_groups ?geo)"
    unfolding backup_groups_set by (auto intro: exI [of _ 0])
  have short: "group_blocks ?geo (geo_groups ?geo - 1) < 1 + geo_gdt_blocks ?geo"
    by (simp add: blocks_in_group_def group_start_def)
  show ?thesis using backup_past_end [OF geo, where crc = crc32c_append] geo last short by simp
qed

section \<open>Sinks\<close>

text \<open>C36: The in-memory sink and the file sink end up with the same image for every list of
  disjoint emissions inside the image: the bytes sent to each place and zeros elsewhere.\<close>

theorem sinks_agree:
  assumes "list_all (\<lambda>e. emit_end e \<le> n) es" "emits_disjoint es"
  shows "\<exists>buf fs. emit_all vec_data vec_zeros es [] = Inr buf \<and>
    emit_all file_data file_zeros es (FileSink_create n) = Inr fs \<and>
    buf_store buf = image_of es \<and> buf_store (file_content fs) = image_of es"
proof -
  have e: "\<forall>e\<in>set es. emit_end e \<le> n" using assms(1) by (simp add: list_all_iff)
  have "buf_store [] = (\<lambda>_. 0)" by (simp add: buf_store_def fun_eq_iff)
  then show ?thesis
    using vs.emit_all_image [OF TrueI e assms(2), of "[]"]
      fs.emit_all_image [OF FileSink_create_empty(2) e assms(2) FileSink_create_empty(1)] by auto
qed

theorem sinks_agree_witness:
  "\<exists>buf fs. emit_all vec_data vec_zeros [Data 8 [9], Zeros 3 5, Data 0 [1, 2, 3]] [] = Inr buf \<and>
    emit_all file_data file_zeros [Data 8 [9], Zeros 3 5, Data 0 [1, 2, 3]] (FileSink_create 9) = Inr fs \<and>
    buf_store buf = image_of [Data 8 [9], Zeros 3 5, Data 0 [1, 2, 3]] \<and>
    buf_store (file_content fs) = image_of [Data 8 [9], Zeros 3 5, Data 0 [1, 2, 3]]"
  by (rule sinks_agree) auto

text \<open>C37: Around any sink, the checking sink lets a sequence of emissions through and finishes
  exactly when they tile the image, each byte exactly once, and the sink itself accepts them.\<close>

theorem checking_sink_exact:
  assumes "0 < n"
  shows "bindE (emit_all (checking_data d) (checking_zeros z) es (checking_new s))
      (\<lambda>cs. checking_finish cs n) = Inr s' \<longleftrightarrow>
    emits_disjoint es \<and> emits_cover es = {0..<n} \<and> emit_all d z es s = Inr s'"
  using assms by (rule checking_accepts_iff)

theorem checking_sink_exact_witness:
  "bindE (emit_all (checking_data vec_data) (checking_zeros vec_zeros) [Data 0 [1, 2], Zeros 2 2] (checking_new []))
      (\<lambda>cs. checking_finish cs 4) = Inr [1, 2, 0, 0] \<longleftrightarrow>
    emits_disjoint [Data 0 [1, 2], Zeros 2 2] \<and> emits_cover [Data 0 [1, 2], Zeros 2 2] = {0..<4} \<and>
    emit_all vec_data vec_zeros [Data 0 [1, 2], Zeros 2 2] [] = Inr [1, 2, 0, 0]"
  by (rule checking_sink_exact) simp

section \<open>On-disk structures\<close>

text \<open>C38: Encoding an inode into a buffer and decoding it gives the inode back, and the bytes
  beyond the slot are untouched.\<close>

theorem inode_roundtrip:
  assumes "inode_wf i" "256 \<le> length out"
  shows "\<exists>b. inode_encode i out = Inr b \<and> length b = length out \<and> drop 256 b = drop 256 out \<and>
    inode_decode (take 256 b) = Inr i"
proof -
  have "0x80 + unat (i_extra_isize i) + length (i_ibody i) \<le> 256 \<or> i_ibody i = []"
    using assms(1) by (auto simp: inode_wf_def)
  then have "inode_encode i out = Inr (inode_bytes i @ drop 256 out)"
    using assms(2) by (auto simp: inode_encode_def)
  then show ?thesis using assms inode_codec.dec_enc [of i] by simp
qed

theorem inode_roundtrip_witness:
  "\<exists>b. inode_encode (inode_default\<lparr>i_extra_isize := 32, i_size := 5\<rparr>) (zeros_buf 300) = Inr b \<and>
    length b = length (zeros_buf 300) \<and> drop 256 b = drop 256 (zeros_buf 300) \<and>
    inode_decode (take 256 b) = Inr (inode_default\<lparr>i_extra_isize := 32, i_size := 5\<rparr>)"
  by (rule inode_roundtrip) (simp_all add: inode_wf_def inode_default_def)

text \<open>C39: Encoding a superblock and decoding it gives the superblock back; the rest of the buffer
  is untouched.\<close>

theorem superblock_roundtrip:
  assumes "superblock_wf sb" "1024 \<le> length out"
  shows "\<exists>b. superblock_encode sb out = Inr b \<and> length b = length out \<and>
    drop 1024 b = drop 1024 out \<and> superblock_decode b = Inr sb"
  using assms superblock_decode_bytes [of sb "drop 1024 out"] by (simp add: superblock_encode_def)

theorem superblock_roundtrip_witness:
  "\<exists>b. superblock_encode (superblock_low (zeros_buf 1024)) (zeros_buf 4096) = Inr b \<and>
    length b = length (zeros_buf 4096) \<and> drop 1024 b = drop 1024 (zeros_buf 4096) \<and>
    superblock_decode b = Inr (superblock_low (zeros_buf 1024))"
  by (rule superblock_roundtrip) (simp_all add: superblock_wf_def superblock_low_def buf_simps le32s_def)

text \<open>A group descriptor table, written as consecutive 32-byte descriptors, decodes
  descriptor by descriptor to the list it was written from.\<close>

theorem gdt_roundtrip:
  assumes "\<forall>d\<in>set ds. group_desc_wf32 d"
  shows "mapE (\<lambda>i. group_desc_decode (peek (concat (map group_desc_bytes ds) @ rest) (i * 32) 32))
    [0..<length ds] = Inr ds"
  using assms by (intro group_desc_codec.dec_whole_table) simp

theorem gdt_roundtrip_witness:
  "mapE (\<lambda>i. group_desc_decode (peek (concat (map group_desc_bytes
      [group_desc_low (zeros_buf 32), (group_desc_low (zeros_buf 32))\<lparr>bg_inode_table := 77\<rparr>]) @ []) (i * 32) 32))
    [0..<length [group_desc_low (zeros_buf 32), (group_desc_low (zeros_buf 32))\<lparr>bg_inode_table := 77\<rparr>]] =
    Inr [group_desc_low (zeros_buf 32), (group_desc_low (zeros_buf 32))\<lparr>bg_inode_table := 77\<rparr>]"
  by (rule gdt_roundtrip) (simp add: group_desc_wf32_def group_desc_low_def buf_simps)

text \<open>A timestamp in the range of the extra epoch bits is encoded without loss.\<close>

theorem timestamp_roundtrip:
  assumes "- (2 ^ 31) \<le> secs" "secs < 3 * 2 ^ 32 + 2 ^ 31" "unat nsec < 2 ^ 30"
  shows "\<exists>s e. encode_timestamp secs nsec = Inr (s, e) \<and> timestamp s e = (secs, nsec)"
  using assms by (rule timestamp_encode)

theorem timestamp_roundtrip_witness:
  "\<exists>s e. encode_timestamp 5000000000 999999999 = Inr (s, e) \<and> timestamp s e = (5000000000, 999999999)"
  by (rule timestamp_roundtrip) simp_all

section \<open>Checksums\<close>

text \<open>C40: The inode checksum, folded piece by piece around the two stored halves, is the checksum
  of the inode number, the generation and a copy of the slot with those halves zeroed; stamping it
  does not change it, and the stamped slot carries it.\<close>

theorem inode_checksum_sealed:
  assumes law: "\<And>s a b. crc s (a @ b) = crc (crc s a) b"
    and b: "0x84 \<le> length b" "4 \<le> le16 b 0x80"
  shows "inode_sum crc seed ino gen b = crc32c_raw crc seed (to_le32 ino @ to_le32 gen @
      poke (poke b 0x7C (zeros_buf 2)) 0x82 (zeros_buf 2)) \<and>
    inode_stored (inode_stamp b (inode_sum crc seed ino gen b)) =
      inode_sum crc seed ino gen (inode_stamp b (inode_sum crc seed ino gen b))"
proof -
  have "crc_stream crc" using law by unfold_locales
  then show ?thesis
    using crc_stream.inode_sum_ref [OF _ b] inode_csum.sealed_verifies [of b crc seed ino gen] b
    by simp
qed

theorem inode_checksum_sealed_witness:
  "inode_stored (inode_stamp (put_u16 (zeros_buf 256) 0x80 32)
      (inode_sum crc32c_append 1 11 0 (put_u16 (zeros_buf 256) 0x80 32))) =
    inode_sum crc32c_append 1 11 0 (inode_stamp (put_u16 (zeros_buf 256) 0x80 32)
      (inode_sum crc32c_append 1 11 0 (put_u16 (zeros_buf 256) 0x80 32)))"
  by (rule inode_checksum_sealed [THEN conjunct2]) (simp_all add: crc32c.crc_append buf_simps)

section \<open>Directory hashes\<close>

text \<open>The half_md4 hash always leaves the collision bit clear, and for names of ASCII bytes
  the signed and unsigned flavours agree.\<close>

theorem half_md4_usable:
  "fst (half_md4 seed sg name) AND 1 = 0 \<and>
   (list_all (\<lambda>b. unat b < 128) name \<longrightarrow> half_md4 seed Signed name = half_md4 seed Unsigned name)"
  using half_md4_even [of seed sg name] half_md4_ascii [of name seed] by (simp add: list_all_iff)

theorem half_md4_usable_witness:
  "half_md4 [1, 2, 3, 4] Signed (ascii ''lost+found'') = half_md4 [1, 2, 3, 4] Unsigned (ascii ''lost+found'')"
  using half_md4_usable [of "[1, 2, 3, 4]" Signed "ascii ''lost+found''"]
  by (simp add: ascii_def unat_of_nat of_char_def)

end
